(* ===== verification/Navi_Prelude.thy ===== *)
theory Navi_Prelude
  imports Main "HOL-Library.Word" "HOL-Library.Signed_Division"
begin

text \<open>
  The computation type of the whole development and the generic lemmas on it.

  A C function that reads or changes the interpreter's state is a function from a state
  and a loop budget to an outcome and the state it leaves.  The outcome is \<open>Inr v\<close> when
  the function returns \<open>v\<close> and \<open>Inl x\<close> when it does not return: an error was raised, a
  \<open>longjmp\<close> is under way, the process ended, or the C code has no defined behaviour.  The
  budget is read, never written: a loop may go round at most that many times, and stops
  with a distinguished outcome when it would go round once more.
\<close>

named_theorems run_simps \<open>evaluation of computations\<close>

type_synonym ('x, 's, 'a) run = "'s \<Rightarrow> nat \<Rightarrow> ('x + 'a) \<times> 's"

definition ret :: "'a \<Rightarrow> ('x, 's, 'a) run" where
  "ret a = (\<lambda>s n. (Inr a, s))"

definition stop :: "'x \<Rightarrow> ('x, 's, 'a) run" where
  "stop x = (\<lambda>s n. (Inl x, s))"

definition bind :: "('x, 's, 'a) run \<Rightarrow> ('a \<Rightarrow> ('x, 's, 'b) run) \<Rightarrow> ('x, 's, 'b) run" where
  "bind m f = (\<lambda>s n. case m s n of (Inl x, s') \<Rightarrow> (Inl x, s') | (Inr a, s') \<Rightarrow> f a s' n)"

definition reads :: "('s \<Rightarrow> 'a) \<Rightarrow> ('x, 's, 'a) run" where
  "reads f = (\<lambda>s n. (Inr (f s), s))"

definition modifies :: "('s \<Rightarrow> 's) \<Rightarrow> ('x, 's, unit) run" where
  "modifies f = (\<lambda>s n. (Inr (), f s))"

definition guard_or :: "'x \<Rightarrow> bool \<Rightarrow> ('x, 's, unit) run" where
  "guard_or x b = (if b then ret () else stop x)"

text \<open>A counted loop runs its body over the list of its indices, threading a value.\<close>

primrec foldM :: "('i \<Rightarrow> 'v \<Rightarrow> ('x, 's, 'v) run) \<Rightarrow> 'i list \<Rightarrow> 'v \<Rightarrow> ('x, 's, 'v) run" where
  "foldM f [] v = ret v"
| "foldM f (i # is) v = bind (f i v) (foldM f is)"

lemma ret_run [simp, run_simps]: "ret a s n = (Inr a, s)"
  by (simp add: ret_def)

lemma stop_run [simp, run_simps]: "stop x s n = (Inl x, s)"
  by (simp add: stop_def)

lemma reads_run [simp, run_simps]: "reads f s n = (Inr (f s), s)"
  by (simp add: reads_def)

lemma modifies_run [simp, run_simps]: "modifies f s n = (Inr (), f s)"
  by (simp add: modifies_def)

lemma bind_run [run_simps]:
  "bind m f s n = (case m s n of (Inl x, s') \<Rightarrow> (Inl x, s') | (Inr a, s') \<Rightarrow> f a s' n)"
  by (simp add: bind_def)

lemma bind_Inr [simp]: "m s n = (Inr a, s') \<Longrightarrow> bind m f s n = f a s' n"
  by (simp add: bind_def)

lemma bind_Inl [simp]: "m s n = (Inl x, s') \<Longrightarrow> bind m f s n = (Inl x, s')"
  by (simp add: bind_def)

lemma bind_ret [simp]: "bind (ret a) f = f a"
  by (simp add: bind_def ret_def)

lemma bind_ret_right [simp]: "bind m ret = m"
  by (rule ext, rule ext) (simp add: bind_def split: prod.splits sum.splits)

lemma bind_stop [simp]: "bind (stop x) f = stop x"
  by (simp add: bind_def stop_def)

lemma bind_assoc: "bind (bind m f) g = bind m (\<lambda>a. bind (f a) g)"
  by (rule ext, rule ext) (simp add: bind_def split: prod.splits sum.splits)

lemma guard_or_True [simp]: "guard_or x True = ret ()"
  by (simp add: guard_or_def)

lemma guard_or_False [simp]: "guard_or x False = stop x"
  by (simp add: guard_or_def)

lemma bind_InrE:
  assumes "bind m f s n = (Inr b, s'')"
  obtains a s' where "m s n = (Inr a, s')" and "f a s' n = (Inr b, s'')"
  using assms by (auto simp: bind_def split: prod.splits sum.splits)

lemma foldM_append:
  "foldM f (is @ js) v = bind (foldM f is v) (foldM f js)"
proof (induction "is" arbitrary: v)
  case Nil
  then show ?case by simp
next
  case (Cons i "is")
  have "foldM f (is @ js) = (\<lambda>a. bind (foldM f is a) (foldM f js))"
    by (rule ext) (rule Cons.IH)
  then show ?case by (simp add: bind_assoc)
qed

text \<open>
  The invariant rule of a counted loop: when the body keeps an invariant that speaks of
  the number of rounds done, the loop returns with the invariant at the last round.
\<close>

lemma foldM_rule:
  assumes "I 0 v s"
    and "\<And>k v s. k < length is \<Longrightarrow> I k v s \<Longrightarrow>
      \<exists>v' s'. f (is ! k) v s n = (Inr v', s') \<and> I (Suc k) v' s'"
  shows "\<exists>v' s'. foldM f is v s n = (Inr v', s') \<and> I (length is) v' s'"
  using assms
proof (induction "is" arbitrary: I v s)
  case Nil
  then show ?case by simp
next
  case (Cons i "is")
  obtain v1 s1 where one: "f i v s n = (Inr v1, s1)" "I 1 v1 s1"
    using Cons.prems(2) [of 0 v s] Cons.prems(1) by auto
  have step: "\<exists>v' s'. f (is ! k) v s n = (Inr v', s') \<and> I (Suc (Suc k)) v' s'"
    if "k < length is" "I (Suc k) v s" for k v s
    using Cons.prems(2) [of "Suc k" v s] that by simp
  have "\<exists>v' s'. foldM f is v1 s1 n = (Inr v', s') \<and> I (Suc (length is)) v' s'"
    using Cons.IH [of "\<lambda>k. I (Suc k)" v1 s1] one(2) step by simp
  then show ?case using one(1) by simp
qed

text \<open>A computation is safe when it never ends in the outcome \<open>x\<close>.\<close>

definition avoids :: "'x \<Rightarrow> ('x, 's, 'a) run \<Rightarrow> 's \<Rightarrow> nat \<Rightarrow> bool" where
  "avoids x m s n \<longleftrightarrow> fst (m s n) \<noteq> Inl x"

lemma avoids_ret [simp]: "avoids x (ret a) s n"
  by (simp add: avoids_def)

lemma avoids_bind:
  assumes "avoids x m s n" and "\<And>a s'. m s n = (Inr a, s') \<Longrightarrow> avoids x (f a) s' n"
  shows "avoids x (bind m f) s n"
  using assms by (auto simp: avoids_def bind_def split: prod.splits sum.splits)

end
