(* ===== verification/Navi_Object.thy ===== *)
theory Navi_Object
  imports Navi_Prelude
begin

text \<open>
  The data model: values (\<open>navi_obj\<close>), heap objects, scopes and the interpreter's state
  (\<open>navi.h\<close>, \<open>internal.h\<close>), the type dispatch and the accessors with their C failure
  modes, the allocation functions of \<open>heap.c\<close> and the checks of \<open>error.h\<close>.

  A value is an immediate or a reference to a heap object.  \<open>Navi_Word\<close> gives the bit
  pattern each value has in the machine word of the C union.  A fixnum carries the 63 bits
  above the tag bit, a character the 60 bits above its tag.  Heap objects pair the type tag
  of \<open>struct navi_object\<close> with the C structure its data holds, so that retagging an object
  and reading it at the wrong structure are both visible.
\<close>

section \<open>Values and heap objects\<close>

type_synonym addr = nat
type_synonym sid = nat
type_synonym byte = "8 word"

datatype navi_obj =
    VoidO
  | NilO
  | EofO
  | Fixnum "63 word"
  | BoolO bool
  | CharO "60 word"
  | Ref addr

datatype navi_type =
    NAVI_VOID | NAVI_NIL | NAVI_FIXNUM | NAVI_EOF | NAVI_BOOL | NAVI_CHAR
  | NAVI_PAIR | NAVI_PORT | NAVI_STRING | NAVI_SYMBOL | NAVI_VECTOR | NAVI_BYTEVEC
  | NAVI_VALUES | NAVI_MACRO | NAVI_SPECIAL | NAVI_PROMISE | NAVI_THUNK | NAVI_PROCEDURE
  | NAVI_CASELAMBDA | NAVI_ESCAPE | NAVI_PARAMETER | NAVI_BOUNCE | NAVI_ENVIRONMENT
  | NAVI_TRAP

text \<open>
  The entries of a procedure's \<open>types\<close> array: the pseudo-types of \<open>navi.h\<close> (the negative
  numbers) or an ordinary type.
\<close>

datatype ptype = TList | TProperList | TByte | TAny | TType navi_type

record navi_env =
  lexical :: sid
  dynamic :: sid

text \<open>The names of the procedures defined with \<open>DEFUN\<close> and \<open>DEFSPECIAL\<close>, by file.\<close>

datatype list_builtin =
    B_cons | B_car | B_cdr | B_set_car | B_set_cdr | B_pairp | B_nullp | B_listp
  | B_make_list | B_length | B_list | B_list_copy | B_append | B_reverse | B_list_tail
  | B_list_ref | B_list_set | B_memq | B_memv | B_member | B_assq | B_assv | B_assoc
  | B_for_each | B_map

datatype arith_builtin =
    B_add | B_sub | B_mul | B_div | B_quotient | B_remainder | B_lt | B_gt | B_lte | B_gte
  | B_numeq | B_zerop | B_positivep | B_negativep | B_oddp | B_evenp | B_number_to_string
  | B_string_to_number | B_not | B_booleanp | B_boolean_eq

datatype vector_builtin =
    B_vectorp | B_make_vector | B_vector | B_vector_length | B_vector_ref | B_vector_set
  | B_vector_to_list | B_list_to_vector | B_vector_fill | B_vector_copy | B_vector_copy_to
  | B_vector_map_ip | B_vector_for_each | B_vector_map

datatype bytevec_builtin =
    B_bytevectorp | B_make_bytevector | B_bytevector | B_bytevector_length
  | B_bytevector_u8_ref | B_bytevector_u8_set | B_bytevector_append | B_bytevector_copy
  | B_bytevector_copy_to | B_utf8_to_string | B_string_to_utf8

datatype char_builtin =
    B_charp | B_char_lt | B_char_gt | B_char_eq | B_char_lte | B_char_gte | B_char_ci_lt
  | B_char_ci_gt | B_char_ci_eq | B_char_ci_lte | B_char_ci_gte | B_char_upcase
  | B_char_downcase

datatype string_builtin =
    B_stringp | B_make_string | B_string | B_string_length | B_string_ref | B_string_set
  | B_string_lt | B_string_gt | B_string_eq | B_string_lte | B_string_gte | B_string_ci_lt
  | B_string_ci_gt | B_string_ci_eq | B_string_ci_lte | B_string_ci_gte | B_string_upcase
  | B_string_downcase | B_string_foldcase | B_string_append | B_string_to_list
  | B_list_to_string | B_string_to_vector | B_vector_to_string | B_string_fill
  | B_string_copy | B_string_copy_to | B_substring

datatype special_builtin =
    B_lambda | B_caselambda | B_begin | B_quote | B_unquote | B_quasiquote | B_case | B_cond
  | B_if | B_and | B_or | B_delay | B_define | B_define_syntax | B_define_values | B_defmacro
  | B_let | B_sequential_let | B_let_values | B_set | B_parameterize | B_include | B_include_ci
  | B_define_library | B_import

datatype control_builtin =
    B_force | B_eval | B_procedurep | B_apply | B_call_ec | B_values | B_call_with_values
  | B_with_exception_handler | B_raise | B_raise_continuable | B_error | B_error_objectp
  | B_error_object_message | B_error_object_irritants | B_read_errorp | B_promisep
  | B_make_promise | B_make_parameter | B_eqvp | B_eqp | B_equalp | B_gensym | B_toplevel_exn
  | B_check_exception_handler

datatype port_builtin =
    B_input_portp | B_output_portp | B_portp | B_input_port_openp | B_output_port_openp
  | B_check_input_port | B_check_output_port | B_open_input_string | B_open_output_string
  | B_get_output_string | B_close_port | B_close_input_port | B_close_output_port
  | B_eof_objectp | B_eof_object | B_read_u8 | B_peek_u8 | B_read_char | B_peek_char | B_read
  | B_write_u8 | B_write_char | B_write_string | B_display | B_write | B_newline
  | B_open_input_file | B_open_output_file

datatype system_builtin =
    B_command_line | B_emergency_exit | B_exit | B_get_environment_variable
  | B_get_environment_variables | B_current_second | B_current_jiffy | B_jiffies_per_second

datatype builtin =
    ListB list_builtin
  | ArithB arith_builtin
  | VectorB vector_builtin
  | BytevecB bytevec_builtin
  | CharB char_builtin
  | StringB string_builtin
  | SpecialB special_builtin
  | ControlB control_builtin
  | PortB port_builtin
  | SystemB system_builtin

text \<open>The union of a procedure's body and its C function.\<close>

datatype proc_code = Body navi_obj | CProc builtin

record navi_procedure =
  p_builtin :: bool
  p_variadic :: bool
  p_arity :: nat
  p_name :: navi_obj
  p_env :: sid
  p_args :: navi_obj
  p_code :: proc_code
  p_types :: "ptype list option"

text \<open>
  \<open>struct navi_string\<close>.  \<open>s_data\<close> is the allocated buffer of \<open>capacity + 1\<close> bytes;
  \<open>None\<close> is a byte never written since the allocation.
\<close>

record navi_string =
  s_size :: nat
  s_length :: nat
  s_capacity :: nat
  s_data :: "byte option list"

text \<open>
  \<open>struct navi_port\<close>.  Each function pointer of the structure is only ever \<open>NULL\<close> or one
  function: \<open>stdio_read\<close>, \<open>stdio_write\<close>, \<open>string_read\<close>, \<open>string_write\<close>, and
  \<open>stdio_close\<close> for both ends, so a flag says whether it is set.  \<open>pt_specific\<close> numbers the
  C stream; \<open>pt_buffer\<close> is \<open>None\<close> before its first write.
\<close>

record navi_port =
  pt_read_u8 :: bool
  pt_write_u8 :: bool
  pt_read_char :: bool
  pt_write_char :: bool
  pt_close_in :: bool
  pt_close_out :: bool
  pt_flags :: "64 word"
  pt_buffer :: "int option"
  pt_expr :: navi_obj
  pt_pos :: nat
  pt_specific :: "nat option"

text \<open>The C structures a heap object's data can hold; \<open>None\<close> is an element never written.\<close>

datatype payload =
    PPair navi_obj navi_obj
  | PString navi_string
  | PSymbol string bool
  | PVector "navi_obj option list"
  | PBytevec "byte option list"
  | PProc navi_procedure
  | PThunk navi_obj navi_env
  | PEscape "navi_env option" "navi_obj option"
  | PEnvironment navi_env
  | PPort navi_port

record navi_object =
  obj_type :: navi_type
  obj_data :: payload

section \<open>The state\<close>

type_synonym binding = "navi_obj \<times> navi_obj"

record navi_scope =
  next_scope :: "sid option"
  refs :: nat
  guards :: "(nat \<times> navi_obj) list"
  bindings :: "nat \<Rightarrow> binding list"

text \<open>A C stream: the bytes still to be read and the bytes written so far.\<close>

record stream =
  unread :: "byte list"
  written :: "byte list"

text \<open>
  A library before it was loaded, with its declarations, and after, with its exports and its
  environment: the union of \<open>struct navi_library\<close>, whose \<open>imports\<close> are never used.
\<close>

datatype lib_contents = Declarations navi_obj | Exports navi_obj navi_env

record navi_library =
  lib_loaded :: bool
  lib_name :: navi_obj
  lib_contents :: lib_contents

text \<open>
  What the operating system holds: the bytes of the files that can be read, the names that cannot
  be opened for writing, the environment variables, and the time of day in seconds and nanoseconds
  (\<open>None\<close> when the clock cannot be read).
\<close>

record host =
  files :: "string \<Rightarrow> byte list option"
  write_protected :: "string \<Rightarrow> bool"
  environ :: "string list"
  clock :: "(int \<times> int) option"

record state =
  heap :: "addr \<Rightarrow> navi_object option"
  hp_next :: addr
  scopes :: "sid \<Rightarrow> navi_scope option"
  sc_next :: sid
  active_environments :: "sid list"
  guard_next :: nat
  symbol_table :: "nat \<Rightarrow> addr list"
  gensym_count :: nat
  param_count :: nat
  lambda_count :: nat
  streams :: "nat \<Rightarrow> stream option"
  stream_next :: nat
  host :: host
  lib_buckets :: "nat \<Rightarrow> nat list"
  lib_store :: "nat \<Rightarrow> navi_library option"
  lib_next :: nat
  first_second :: int

section \<open>Outcomes\<close>

text \<open>
  How a C function can fail to return.  \<open>Error\<close> is a call of \<open>navi_error\<close> and its kin with
  its error type symbol, its message, its irritants and the environment it was called in;
  \<open>RaiseObj\<close> is \<open>navi_raise\<close> called with an argument list.  Both are turned into a run of
  the exception handler by \<open>Navi_Control\<close>.  \<open>Longjmp a\<close> jumps to the escape object \<open>a\<close>;
  \<open>Die\<close> is \<open>navi_die\<close>, \<open>ExitWith\<close> the end of the process with a status; \<open>Undef\<close> is a step C gives no meaning to (a wild or freed pointer, an
  object read at the wrong structure, an index out of bounds, a division by zero, an
  uninitialised value); \<open>NoFuel\<close> is the loop budget running out.
\<close>

datatype error_kind = InternalError | ReadError | FileError | Utf8Error

datatype irritant = IObj navi_obj | ISym string

datatype stop =
    Error error_kind string "(string \<times> irritant) list" navi_env
  | RaiseObj navi_obj navi_env
  | Longjmp addr
  | Die string
  | ExitWith int
  | Undef
  | NoFuel

type_synonym 'a nm = "(stop, state, 'a) run"

section \<open>Immediates\<close>

definition navi_make_void :: navi_obj where "navi_make_void = VoidO"
definition navi_make_nil :: navi_obj where "navi_make_nil = NilO"
definition navi_make_eof :: navi_obj where "navi_make_eof = EofO"

definition navi_make_fixnum :: "int \<Rightarrow> navi_obj" where
  "navi_make_fixnum num = Fixnum (word_of_int num)"

definition navi_make_bool :: "bool \<Rightarrow> navi_obj" where
  "navi_make_bool b = BoolO b"

definition navi_make_char :: "int \<Rightarrow> navi_obj" where
  "navi_make_char c = CharO (word_of_int c)"

definition navi_unspecified :: navi_obj where
  "navi_unspecified = navi_make_void"

lemmas make_defs = navi_make_void_def navi_make_nil_def navi_make_eof_def
  navi_make_bool_def navi_unspecified_def

text \<open>
  \<open>navi_fixnum\<close>, \<open>navi_char\<close> and \<open>navi_bool\<close> shift the tag out of the word as a signed
  \<open>long\<close>.  The code applies them to values whose tag was checked; on any other value the
  result is not meaningful and the model has no value.
\<close>

definition navi_fixnum :: "navi_obj \<Rightarrow> int nm" where
  "navi_fixnum obj = (case obj of Fixnum w \<Rightarrow> ret (sint w) | _ \<Rightarrow> stop Undef)"

definition navi_char :: "navi_obj \<Rightarrow> int nm" where
  "navi_char obj = (case obj of CharO w \<Rightarrow> ret (sint w) | _ \<Rightarrow> stop Undef)"

definition navi_bool :: "navi_obj \<Rightarrow> bool nm" where
  "navi_bool obj = (case obj of BoolO b \<Rightarrow> ret b | _ \<Rightarrow> stop Undef)"

definition navi_eqp :: "navi_obj \<Rightarrow> navi_obj \<Rightarrow> bool" where
  "navi_eqp a b \<longleftrightarrow> a = b"

lemma navi_fixnum_Fixnum [simp]: "navi_fixnum (Fixnum w) = ret (sint w)"
  by (simp add: navi_fixnum_def)

lemma navi_char_CharO [simp]: "navi_char (CharO w) = ret (sint w)"
  by (simp add: navi_char_def)

lemma navi_bool_BoolO [simp]: "navi_bool (BoolO b) = ret b"
  by (simp add: navi_bool_def)

section \<open>Dereferencing\<close>

definition deref :: "navi_obj \<Rightarrow> navi_object nm" where
  "deref obj = (case obj of
       Ref a \<Rightarrow> (\<lambda>st n. case heap st a of
                    None \<Rightarrow> (Inl Undef, st)
                  | Some ob \<Rightarrow> (Inr ob, st))
     | _ \<Rightarrow> stop Undef)"

definition store :: "addr \<Rightarrow> navi_object \<Rightarrow> unit nm" where
  "store a ob = modifies (\<lambda>st. st\<lparr>heap := (heap st)(a := Some ob)\<rparr>)"

definition navi_type :: "navi_obj \<Rightarrow> navi_type nm" where
  "navi_type obj = (case obj of
       VoidO \<Rightarrow> ret NAVI_VOID
     | Fixnum _ \<Rightarrow> ret NAVI_FIXNUM
     | BoolO _ \<Rightarrow> ret NAVI_BOOL
     | CharO _ \<Rightarrow> ret NAVI_CHAR
     | NilO \<Rightarrow> ret NAVI_NIL
     | EofO \<Rightarrow> ret NAVI_EOF
     | Ref a \<Rightarrow> bind (deref (Ref a)) (\<lambda>ob. ret (obj_type ob)))"

text \<open>Each accessor casts the object's data to its structure.\<close>

definition navi_pair :: "navi_obj \<Rightarrow> (navi_obj \<times> navi_obj) nm" where
  "navi_pair obj = bind (deref obj) (\<lambda>ob.
     case obj_data ob of PPair x y \<Rightarrow> ret (x, y) | _ \<Rightarrow> stop Undef)"

definition navi_vector :: "navi_obj \<Rightarrow> navi_obj option list nm" where
  "navi_vector obj = bind (deref obj) (\<lambda>ob.
     case obj_data ob of PVector xs \<Rightarrow> ret xs | _ \<Rightarrow> stop Undef)"

definition navi_bytevec :: "navi_obj \<Rightarrow> byte option list nm" where
  "navi_bytevec obj = bind (deref obj) (\<lambda>ob.
     case obj_data ob of PBytevec bs \<Rightarrow> ret bs | _ \<Rightarrow> stop Undef)"

definition navi_string :: "navi_obj \<Rightarrow> navi_string nm" where
  "navi_string obj = bind (deref obj) (\<lambda>ob.
     case obj_data ob of PString s \<Rightarrow> ret s | _ \<Rightarrow> stop Undef)"

definition navi_symbol :: "navi_obj \<Rightarrow> (string \<times> bool) nm" where
  "navi_symbol obj = bind (deref obj) (\<lambda>ob.
     case obj_data ob of PSymbol s i \<Rightarrow> ret (s, i) | _ \<Rightarrow> stop Undef)"

definition navi_procedure :: "navi_obj \<Rightarrow> navi_procedure nm" where
  "navi_procedure obj = bind (deref obj) (\<lambda>ob.
     case obj_data ob of PProc p \<Rightarrow> ret p | _ \<Rightarrow> stop Undef)"

definition navi_thunk :: "navi_obj \<Rightarrow> (navi_obj \<times> navi_env) nm" where
  "navi_thunk obj = bind (deref obj) (\<lambda>ob.
     case obj_data ob of PThunk e env \<Rightarrow> ret (e, env) | _ \<Rightarrow> stop Undef)"

definition navi_environment :: "navi_obj \<Rightarrow> navi_env nm" where
  "navi_environment obj = bind (deref obj) (\<lambda>ob.
     case obj_data ob of PEnvironment env \<Rightarrow> ret env | _ \<Rightarrow> stop Undef)"

definition navi_port :: "navi_obj \<Rightarrow> navi_port nm" where
  "navi_port obj = bind (deref obj) (\<lambda>ob.
     case obj_data ob of PPort p \<Rightarrow> ret p | _ \<Rightarrow> stop Undef)"

text \<open>Writes through a structure pointer keep the object's type tag.\<close>

definition put_data :: "navi_obj \<Rightarrow> payload \<Rightarrow> unit nm" where
  "put_data obj d = (case obj of
       Ref a \<Rightarrow> bind (deref (Ref a)) (\<lambda>ob. store a (ob\<lparr>obj_data := d\<rparr>))
     | _ \<Rightarrow> stop Undef)"

definition put_type :: "navi_obj \<Rightarrow> navi_type \<Rightarrow> unit nm" where
  "put_type obj t = (case obj of
       Ref a \<Rightarrow> bind (deref (Ref a)) (\<lambda>ob. store a (ob\<lparr>obj_type := t\<rparr>))
     | _ \<Rightarrow> stop Undef)"

definition navi_car :: "navi_obj \<Rightarrow> navi_obj nm" where
  "navi_car obj = bind (navi_pair obj) (\<lambda>(x, y). ret x)"

definition navi_cdr :: "navi_obj \<Rightarrow> navi_obj nm" where
  "navi_cdr obj = bind (navi_pair obj) (\<lambda>(x, y). ret y)"

definition navi_caar :: "navi_obj \<Rightarrow> navi_obj nm" where
  "navi_caar obj = bind (navi_car obj) navi_car"

definition navi_cadr :: "navi_obj \<Rightarrow> navi_obj nm" where
  "navi_cadr obj = bind (navi_cdr obj) navi_car"

definition navi_cdar :: "navi_obj \<Rightarrow> navi_obj nm" where
  "navi_cdar obj = bind (navi_car obj) navi_cdr"

definition navi_cddr :: "navi_obj \<Rightarrow> navi_obj nm" where
  "navi_cddr obj = bind (navi_cdr obj) navi_cdr"

definition navi_caddr :: "navi_obj \<Rightarrow> navi_obj nm" where
  "navi_caddr obj = bind (navi_cddr obj) navi_car"

definition navi_cadar :: "navi_obj \<Rightarrow> navi_obj nm" where
  "navi_cadar obj = bind (navi_cdar obj) navi_car"

definition navi_cdddr :: "navi_obj \<Rightarrow> navi_obj nm" where
  "navi_cdddr obj = bind (navi_cddr obj) navi_cdr"

definition navi_cadddr :: "navi_obj \<Rightarrow> navi_obj nm" where
  "navi_cadddr obj = bind (navi_cdddr obj) navi_car"

definition navi_cddddr :: "navi_obj \<Rightarrow> navi_obj nm" where
  "navi_cddddr obj = bind (navi_cdddr obj) navi_cdr"

definition navi_caddddr :: "navi_obj \<Rightarrow> navi_obj nm" where
  "navi_caddddr obj = bind (navi_cddddr obj) navi_car"

definition navi_set_car :: "navi_obj \<Rightarrow> navi_obj \<Rightarrow> unit nm" where
  "navi_set_car cons obj = bind (navi_pair cons) (\<lambda>(x, y). put_data cons (PPair obj y))"

definition navi_set_cdr :: "navi_obj \<Rightarrow> navi_obj \<Rightarrow> unit nm" where
  "navi_set_cdr cons obj = bind (navi_pair cons) (\<lambda>(x, y). put_data cons (PPair x obj))"

text \<open>The arguments of a built-in procedure, as the macros \<open>scm_arg1\<close> to \<open>scm_arg5\<close> read them.\<close>

definition scm_arg1 :: "navi_obj \<Rightarrow> navi_obj nm" where "scm_arg1 args = navi_car args"
definition scm_arg2 :: "navi_obj \<Rightarrow> navi_obj nm" where "scm_arg2 args = navi_cadr args"
definition scm_arg3 :: "navi_obj \<Rightarrow> navi_obj nm" where "scm_arg3 args = navi_caddr args"
definition scm_arg4 :: "navi_obj \<Rightarrow> navi_obj nm" where "scm_arg4 args = navi_cadddr args"
definition scm_arg5 :: "navi_obj \<Rightarrow> navi_obj nm" where "scm_arg5 args = navi_caddddr args"

lemmas scm_arg_defs = scm_arg1_def scm_arg2_def scm_arg3_def scm_arg4_def scm_arg5_def

end
