(* ===== verification/Navi_Memory.thy ===== *)
theory Navi_Memory
  imports Navi_Object
begin

text \<open>
  Allocation (\<open>heap.c\<close>), the well-formedness of the heap and the relations the proofs use:
  \<open>wf_heap\<close> (objects hold the structure their tag says and refer to allocated objects only),
  \<open>hext\<close> (objects stay allocated with their tag), \<open>same_below\<close> (nothing but fresh memory was
  written) and \<open>list_at\<close> (the elements and the tail of a chain of pairs).
\<close>

section \<open>Allocation\<close>

text \<open>
  Fresh objects get the next address.  \<open>malloc_ok\<close> is the one fact about \<open>malloc\<close> the model
  uses: a request of \<open>2 ^ 63\<close> bytes or more fails, and \<open>navi_critical_malloc\<close> then ends the
  process.  \<open>object_header\<close> is \<open>sizeof (struct navi_object)\<close>.
\<close>

definition malloc_ok :: "int \<Rightarrow> bool" where
  "malloc_ok bytes \<longleftrightarrow> bytes < 2 ^ 63"

definition navi_critical_malloc :: "int \<Rightarrow> unit nm" where
  "navi_critical_malloc bytes =
     (if malloc_ok (bytes mod 2 ^ 64) then ret () else stop (Die ''not enough memory''))"

definition object_header :: int where "object_header = 16"

definition make_object :: "navi_type \<Rightarrow> payload \<Rightarrow> navi_obj nm" where
  "make_object t d = (\<lambda>st n. (Inr (Ref (hp_next st)),
     st\<lparr>heap := (heap st)(hp_next st := Some \<lparr>obj_type = t, obj_data = d\<rparr>),
        hp_next := Suc (hp_next st)\<rparr>))"

text \<open>A fresh pair's fields are written by the caller before anything reads them.\<close>

definition navi_make_empty_pair :: "navi_obj nm" where
  "navi_make_empty_pair = make_object NAVI_PAIR (PPair VoidO VoidO)"

definition navi_make_pair :: "navi_obj \<Rightarrow> navi_obj \<Rightarrow> navi_obj nm" where
  "navi_make_pair x y =
     bind navi_make_empty_pair (\<lambda>obj.
     bind (navi_set_car obj x) (\<lambda>_.
     bind (navi_set_cdr obj y) (\<lambda>_.
     ret obj)))"

text \<open>
  \<open>size\<close> is a \<open>size_t\<close> the callers compute from a \<open>long\<close>, so a negative length is a huge
  size.  The byte count wraps around; when the block is smaller than the size it records,
  the next write to it is out of bounds.
\<close>

definition navi_make_vector :: "int \<Rightarrow> navi_obj nm" where
  "navi_make_vector sz =
     bind (navi_critical_malloc (object_header + (8 + 8 * (sz mod 2 ^ 64)))) (\<lambda>_.
     if 8 * (sz mod 2 ^ 64) < 2 ^ 63
     then make_object NAVI_VECTOR (PVector (replicate (nat sz) None))
     else stop Undef)"

definition navi_make_bytevec :: "int \<Rightarrow> navi_obj nm" where
  "navi_make_bytevec sz =
     bind (navi_critical_malloc (object_header + (8 + sz mod 2 ^ 64 + 1))) (\<lambda>_.
     if sz mod 2 ^ 64 < 2 ^ 63
     then make_object NAVI_BYTEVEC (PBytevec (replicate (nat sz) None))
     else stop Undef)"

text \<open>The buffer has \<open>capacity + 1\<close> bytes; the byte at \<open>capacity\<close> and the byte at \<open>size\<close> are zeroed.\<close>

definition navi_make_string :: "nat \<Rightarrow> nat \<Rightarrow> nat \<Rightarrow> navi_obj nm" where
  "navi_make_string cap sz len =
     (if sz \<le> cap then
        make_object NAVI_STRING (PString \<lparr>s_size = sz, s_length = len, s_capacity = cap,
          s_data = ((replicate (Suc cap) None)[cap := Some 0])[sz := Some 0]\<rparr>)
      else stop Undef)"

section \<open>Well-formed heaps\<close>

abbreviation pair_at :: "state \<Rightarrow> addr \<Rightarrow> navi_obj \<Rightarrow> navi_obj \<Rightarrow> bool" where
  "pair_at st a x y \<equiv> heap st a = Some \<lparr>obj_type = NAVI_PAIR, obj_data = PPair x y\<rparr>"

abbreviation vector_at :: "state \<Rightarrow> addr \<Rightarrow> navi_obj option list \<Rightarrow> bool" where
  "vector_at st a xs \<equiv> heap st a = Some \<lparr>obj_type = NAVI_VECTOR, obj_data = PVector xs\<rparr>"

abbreviation bytevec_at :: "state \<Rightarrow> addr \<Rightarrow> byte option list \<Rightarrow> bool" where
  "bytevec_at st a bs \<equiv> heap st a = Some \<lparr>obj_type = NAVI_BYTEVEC, obj_data = PBytevec bs\<rparr>"

abbreviation string_at :: "state \<Rightarrow> addr \<Rightarrow> navi_string \<Rightarrow> bool" where
  "string_at st a s \<equiv> heap st a = Some \<lparr>obj_type = NAVI_STRING, obj_data = PString s\<rparr>"

fun tag_ok :: "navi_object \<Rightarrow> bool" where
  "tag_ok ob = (case obj_data ob of
       PPair _ _ \<Rightarrow> obj_type ob \<in> {NAVI_PAIR, NAVI_PARAMETER}
     | PString _ \<Rightarrow> obj_type ob = NAVI_STRING
     | PSymbol _ _ \<Rightarrow> obj_type ob = NAVI_SYMBOL
     | PVector _ \<Rightarrow> obj_type ob \<in> {NAVI_VECTOR, NAVI_VALUES, NAVI_CASELAMBDA}
     | PBytevec _ \<Rightarrow> obj_type ob = NAVI_BYTEVEC
     | PProc _ \<Rightarrow> obj_type ob \<in> {NAVI_MACRO, NAVI_SPECIAL, NAVI_PROMISE, NAVI_PROCEDURE}
     | PThunk _ _ \<Rightarrow> obj_type ob \<in> {NAVI_THUNK, NAVI_BOUNCE}
     | PEscape _ _ \<Rightarrow> obj_type ob = NAVI_ESCAPE
     | PEnvironment _ \<Rightarrow> obj_type ob = NAVI_ENVIRONMENT
     | PPort _ \<Rightarrow> obj_type ob = NAVI_PORT)"

fun payload_refs :: "payload \<Rightarrow> navi_obj set" where
  "payload_refs (PPair x y) = {x, y}"
| "payload_refs (PVector xs) = {x. Some x \<in> set xs}"
| "payload_refs (PProc p) =
     {p_name p, p_args p} \<union> (case p_code p of Body b \<Rightarrow> {b} | CProc _ \<Rightarrow> {})"
| "payload_refs (PThunk e env) = {e}"
| "payload_refs (PEscape env arg) = (case arg of None \<Rightarrow> {} | Some x \<Rightarrow> {x})"
| "payload_refs (PPort p) = {pt_expr p}"
| "payload_refs _ = {}"

definition valid_obj :: "state \<Rightarrow> navi_obj \<Rightarrow> bool" where
  "valid_obj st obj \<longleftrightarrow> (\<forall>a. obj = Ref a \<longrightarrow> heap st a \<noteq> None)"

definition wf_heap :: "state \<Rightarrow> bool" where
  "wf_heap st \<longleftrightarrow>
     (\<forall>a ob. heap st a = Some ob \<longrightarrow>
        a < hp_next st \<and> tag_ok ob \<and> (\<forall>x \<in> payload_refs (obj_data ob). valid_obj st x))"

definition hext :: "state \<Rightarrow> state \<Rightarrow> bool" where
  "hext st st' \<longleftrightarrow> hp_next st \<le> hp_next st' \<and>
     (\<forall>a ob. heap st a = Some ob \<longrightarrow> (\<exists>ob'. heap st' a = Some ob' \<and> obj_type ob' = obj_type ob))"

definition same_below :: "state \<Rightarrow> state \<Rightarrow> bool" where
  "same_below st st' \<longleftrightarrow> hp_next st \<le> hp_next st' \<and> (\<forall>a < hp_next st. heap st' a = heap st a)"

lemma valid_obj_imm [simp]:
  "valid_obj st VoidO" "valid_obj st NilO" "valid_obj st EofO" "valid_obj st (Fixnum w)"
  "valid_obj st (BoolO b)" "valid_obj st (CharO c)"
  by (simp_all add: valid_obj_def)

lemma valid_obj_Ref [simp]: "valid_obj st (Ref a) \<longleftrightarrow> (\<exists>ob. heap st a = Some ob)"
  by (auto simp: valid_obj_def)

lemma wf_heapD:
  assumes "wf_heap st" and "heap st a = Some ob"
  shows "a < hp_next st" and "tag_ok ob" and "x \<in> payload_refs (obj_data ob) \<Longrightarrow> valid_obj st x"
  using assms by (auto simp: wf_heap_def)

lemma wf_heap_fresh: "wf_heap st \<Longrightarrow> heap st (hp_next st) = None"
  by (cases "heap st (hp_next st)") (auto dest: wf_heapD(1))

lemma hext_refl [simp]: "hext st st"
  by (simp add: hext_def)

lemma hext_trans: "hext a b \<Longrightarrow> hext b c \<Longrightarrow> hext a c"
  by (fastforce simp: hext_def)

lemma valid_obj_hext: "hext st st' \<Longrightarrow> valid_obj st x \<Longrightarrow> valid_obj st' x"
  by (fastforce simp: valid_obj_def hext_def)

lemma same_below_refl [simp]: "same_below st st"
  by (simp add: same_below_def)

lemma same_below_trans: "same_below a b \<Longrightarrow> same_below b c \<Longrightarrow> same_below a c"
  by (fastforce simp: same_below_def)

lemma same_belowD: "same_below st st' \<Longrightarrow> a < hp_next st \<Longrightarrow> heap st' a = heap st a"
  by (simp add: same_below_def)

section \<open>Reading and writing allocated objects\<close>

lemma deref_at [simp]: "heap st a = Some ob \<Longrightarrow> deref (Ref a) st n = (Inr ob, st)"
  by (simp add: deref_def)

lemma navi_type_imm [simp]:
  "navi_type VoidO = ret NAVI_VOID" "navi_type NilO = ret NAVI_NIL"
  "navi_type EofO = ret NAVI_EOF" "navi_type (Fixnum w) = ret NAVI_FIXNUM"
  "navi_type (BoolO b) = ret NAVI_BOOL" "navi_type (CharO c) = ret NAVI_CHAR"
  by (simp_all add: navi_type_def)

lemma navi_type_at [simp]:
  "heap st a = Some ob \<Longrightarrow> navi_type (Ref a) st n = (Inr (obj_type ob), st)"
  by (simp add: navi_type_def)

lemma navi_pair_at [simp]:
  "heap st a = Some ob \<Longrightarrow> obj_data ob = PPair x y \<Longrightarrow> navi_pair (Ref a) st n = (Inr (x, y), st)"
  by (simp add: navi_pair_def)

lemma navi_car_at [simp]:
  "heap st a = Some ob \<Longrightarrow> obj_data ob = PPair x y \<Longrightarrow> navi_car (Ref a) st n = (Inr x, st)"
  by (simp add: navi_car_def)

lemma navi_cdr_at [simp]:
  "heap st a = Some ob \<Longrightarrow> obj_data ob = PPair x y \<Longrightarrow> navi_cdr (Ref a) st n = (Inr y, st)"
  by (simp add: navi_cdr_def)

lemma navi_vector_at [simp]:
  "heap st a = Some ob \<Longrightarrow> obj_data ob = PVector xs \<Longrightarrow> navi_vector (Ref a) st n = (Inr xs, st)"
  by (simp add: navi_vector_def)

lemma navi_bytevec_at [simp]:
  "heap st a = Some ob \<Longrightarrow> obj_data ob = PBytevec bs \<Longrightarrow> navi_bytevec (Ref a) st n = (Inr bs, st)"
  by (simp add: navi_bytevec_def)

lemma navi_string_at [simp]:
  "heap st a = Some ob \<Longrightarrow> obj_data ob = PString s \<Longrightarrow> navi_string (Ref a) st n = (Inr s, st)"
  by (simp add: navi_string_def)

lemma navi_symbol_at [simp]:
  "heap st a = Some ob \<Longrightarrow> obj_data ob = PSymbol s i \<Longrightarrow> navi_symbol (Ref a) st n = (Inr (s, i), st)"
  by (simp add: navi_symbol_def)

lemma navi_procedure_at [simp]:
  "heap st a = Some ob \<Longrightarrow> obj_data ob = PProc p \<Longrightarrow> navi_procedure (Ref a) st n = (Inr p, st)"
  by (simp add: navi_procedure_def)

lemma navi_thunk_at [simp]:
  "heap st a = Some ob \<Longrightarrow> obj_data ob = PThunk e env \<Longrightarrow> navi_thunk (Ref a) st n = (Inr (e, env), st)"
  by (simp add: navi_thunk_def)

lemma store_run [simp]: "store a ob st n = (Inr (), st\<lparr>heap := (heap st)(a := Some ob)\<rparr>)"
  by (simp add: store_def)

lemma put_data_at [simp]:
  "heap st a = Some ob \<Longrightarrow>
   put_data (Ref a) d st n = (Inr (), st\<lparr>heap := (heap st)(a := Some (ob\<lparr>obj_data := d\<rparr>))\<rparr>)"
  by (simp add: put_data_def)

lemma put_type_at [simp]:
  "heap st a = Some ob \<Longrightarrow>
   put_type (Ref a) t st n = (Inr (), st\<lparr>heap := (heap st)(a := Some (ob\<lparr>obj_type := t\<rparr>))\<rparr>)"
  by (simp add: put_type_def)

lemma navi_set_car_at [simp]:
  "heap st a = Some ob \<Longrightarrow> obj_data ob = PPair x y \<Longrightarrow>
   navi_set_car (Ref a) v st n =
     (Inr (), st\<lparr>heap := (heap st)(a := Some (ob\<lparr>obj_data := PPair v y\<rparr>))\<rparr>)"
  by (simp add: navi_set_car_def)

lemma navi_set_cdr_at [simp]:
  "heap st a = Some ob \<Longrightarrow> obj_data ob = PPair x y \<Longrightarrow>
   navi_set_cdr (Ref a) v st n =
     (Inr (), st\<lparr>heap := (heap st)(a := Some (ob\<lparr>obj_data := PPair x v\<rparr>))\<rparr>)"
  by (simp add: navi_set_cdr_def)

text \<open>Allocating an object, as a function on states.\<close>

definition alloc_st :: "navi_type \<Rightarrow> payload \<Rightarrow> state \<Rightarrow> state" where
  "alloc_st t d st =
     st\<lparr>heap := (heap st)(hp_next st := Some \<lparr>obj_type = t, obj_data = d\<rparr>),
        hp_next := Suc (hp_next st)\<rparr>"

lemma make_object_run: "make_object t d st n = (Inr (Ref (hp_next st)), alloc_st t d st)"
  by (simp add: make_object_def alloc_st_def)

lemma heap_alloc_st:
  "heap (alloc_st t d st) = (heap st)(hp_next st := Some \<lparr>obj_type = t, obj_data = d\<rparr>)"
  by (simp add: alloc_st_def)

lemma hp_next_alloc_st [simp]: "hp_next (alloc_st t d st) = Suc (hp_next st)"
  by (simp add: alloc_st_def)

lemma alloc_st_frame [simp]:
  "scopes (alloc_st t d st) = scopes st" "sc_next (alloc_st t d st) = sc_next st"
  "symbol_table (alloc_st t d st) = symbol_table st"
  "active_environments (alloc_st t d st) = active_environments st"
  "guard_next (alloc_st t d st) = guard_next st"
  by (simp_all add: alloc_st_def)

lemma navi_make_pair_run [simp]:
  "navi_make_pair x y st n = (Inr (Ref (hp_next st)), alloc_st NAVI_PAIR (PPair x y) st)"
  by (simp add: navi_make_pair_def navi_make_empty_pair_def make_object_run bind_run alloc_st_def
      navi_set_car_def navi_set_cdr_def navi_pair_def deref_def put_data_def)

lemma same_below_alloc [simp]: "same_below st (alloc_st t d st)"
  by (simp add: same_below_def alloc_st_def)

lemma hext_alloc: "wf_heap st \<Longrightarrow> hext st (alloc_st t d st)"
  by (auto simp: hext_def heap_alloc_st dest: wf_heap_fresh)

lemma hext_same_below: "wf_heap st \<Longrightarrow> same_below st st' \<Longrightarrow> hext st st'"
  by (auto simp: hext_def same_below_def dest: wf_heapD(1))

lemma valid_obj_alloc: "valid_obj st x \<Longrightarrow> valid_obj (alloc_st t d st) x"
  by (auto simp: valid_obj_def heap_alloc_st)

lemma wf_heap_alloc:
  assumes "wf_heap st" and "tag_ok \<lparr>obj_type = t, obj_data = d\<rparr>"
    and "\<forall>x \<in> payload_refs d. valid_obj st x"
  shows "wf_heap (alloc_st t d st)"
proof -
  have *: "valid_obj (alloc_st t d st) x" if "valid_obj st x" for x
    using that by (rule valid_obj_alloc)
  have "b < Suc (hp_next st) \<and> tag_ok ob \<and>
        (\<forall>x \<in> payload_refs (obj_data ob). valid_obj (alloc_st t d st) x)"
    if "heap (alloc_st t d st) b = Some ob" for b ob
  proof (cases "b = hp_next st")
    case True
    with that assms(2,3) * show ?thesis by (auto simp: heap_alloc_st simp del: tag_ok.simps)
  next
    case False
    with that have "heap st b = Some ob" by (simp add: heap_alloc_st)
    with assms(1) * show ?thesis by (auto dest: wf_heapD simp del: tag_ok.simps)
  qed
  then show ?thesis by (simp add: wf_heap_def)
qed

lemma wf_heap_update:
  assumes "wf_heap st" and "heap st a = Some ob" and "tag_ok ob'"
    and "\<forall>x \<in> payload_refs (obj_data ob'). valid_obj st x"
  shows "wf_heap (st\<lparr>heap := (heap st)(a := Some ob')\<rparr>)"
proof -
  have v: "valid_obj (st\<lparr>heap := (heap st)(a := Some ob')\<rparr>) x" if "valid_obj st x" for x
    using that by (auto simp: valid_obj_def)
  show ?thesis
    using assms v by (auto simp: wf_heap_def simp del: tag_ok.simps)
qed

lemma hext_update:
  "heap st a = Some ob \<Longrightarrow> obj_type ob' = obj_type ob \<Longrightarrow>
   hext st (st\<lparr>heap := (heap st)(a := Some ob')\<rparr>)"
  by (simp add: hext_def)

section \<open>Lists on the heap\<close>

definition is_pair_at :: "state \<Rightarrow> navi_obj \<Rightarrow> bool" where
  "is_pair_at st p \<longleftrightarrow> (\<exists>a ob. p = Ref a \<and> heap st a = Some ob \<and> obj_type ob = NAVI_PAIR)"

text \<open>
  \<open>list_at st p xs t\<close>: from \<open>p\<close> a chain of pairs holds the elements \<open>xs\<close> in order and ends in
  \<open>t\<close>, which is no pair.
\<close>

primrec list_at :: "state \<Rightarrow> navi_obj \<Rightarrow> navi_obj list \<Rightarrow> navi_obj \<Rightarrow> bool" where
  "list_at st p [] t \<longleftrightarrow> p = t \<and> valid_obj st t \<and> \<not> is_pair_at st t"
| "list_at st p (x # xs) t \<longleftrightarrow>
     (\<exists>a d. p = Ref a \<and> pair_at st a x d \<and> list_at st d xs t)"

text \<open>The addresses of the first pairs of a chain.\<close>

primrec cells_at :: "state \<Rightarrow> navi_obj \<Rightarrow> addr list \<Rightarrow> navi_obj list \<Rightarrow> navi_obj \<Rightarrow> bool" where
  "cells_at st p [] xs t \<longleftrightarrow> p = t \<and> xs = []"
| "cells_at st p (a # as) xs t \<longleftrightarrow>
     p = Ref a \<and> (\<exists>x d ys. xs = x # ys \<and> pair_at st a x d \<and> cells_at st d as ys t)"

lemma is_pair_at_imm [simp]:
  "\<not> is_pair_at st VoidO" "\<not> is_pair_at st NilO" "\<not> is_pair_at st EofO"
  "\<not> is_pair_at st (Fixnum w)" "\<not> is_pair_at st (BoolO b)" "\<not> is_pair_at st (CharO c)"
  by (simp_all add: is_pair_at_def)

lemma list_at_tail_not_pair: "list_at st p xs t \<Longrightarrow> \<not> is_pair_at st t \<and> valid_obj st t"
  by (induction xs arbitrary: p) auto

lemma list_at_unique: "list_at st p xs t \<Longrightarrow> list_at st p ys u \<Longrightarrow> xs = ys \<and> t = u"
proof (induction xs arbitrary: p ys)
  case Nil
  then show ?case by (cases ys) (auto simp: is_pair_at_def)
next
  case (Cons x xs)
  then show ?case by (cases ys) (auto simp: is_pair_at_def)
qed

lemma list_at_Nil_iff: "list_at st NilO xs t \<longleftrightarrow> xs = [] \<and> t = NilO"
  by (cases xs) auto

lemma list_at_frame:
  assumes "list_at st p xs t" and "\<And>a ob. heap st a = Some ob \<Longrightarrow> heap st' a = Some ob"
  shows "list_at st' p xs t"
  using assms(1)
proof (induction xs arbitrary: p)
  case Nil
  then show ?case using assms(2) by (fastforce simp: is_pair_at_def valid_obj_def)
next
  case (Cons x xs)
  then show ?case using assms(2) by auto
qed

lemma heap_alloc_keep: "wf_heap st \<Longrightarrow> heap st a = Some ob \<Longrightarrow> heap (alloc_st t d st) a = Some ob"
  by (auto simp: heap_alloc_st dest: wf_heapD(1))

lemma heap_same_below_keep: "wf_heap st \<Longrightarrow> same_below st st' \<Longrightarrow> heap st a = Some ob \<Longrightarrow> heap st' a = Some ob"
  by (auto simp: same_below_def dest: wf_heapD(1))

lemma list_at_alloc: "wf_heap st \<Longrightarrow> list_at st p xs t \<Longrightarrow> list_at (alloc_st ty d st) p xs t"
  by (erule list_at_frame) (auto intro: heap_alloc_keep)

lemma list_at_same_below: "wf_heap st \<Longrightarrow> same_below st st' \<Longrightarrow> list_at st p xs t \<Longrightarrow> list_at st' p xs t"
  by (erule list_at_frame) (auto intro: heap_same_below_keep)

lemma list_at_valid: "list_at st p xs t \<Longrightarrow> valid_obj st p"
  by (cases xs) auto

lemma list_at_elems_valid: "wf_heap st \<Longrightarrow> list_at st p xs t \<Longrightarrow> x \<in> set xs \<Longrightarrow> valid_obj st x"
proof (induction xs arbitrary: p)
  case Nil
  then show ?case by simp
next
  case (Cons y ys)
  then obtain a d where "pair_at st a y d" "list_at st d ys t" by auto
  with Cons show ?case by (auto dest: wf_heapD(3) [where x = y])
qed

lemma list_at_pair_cases:
  assumes "list_at st p xs t"
  shows "(xs = [] \<and> p = t \<and> \<not> is_pair_at st p) \<or>
         (\<exists>a x ys d. xs = x # ys \<and> p = Ref a \<and> pair_at st a x d \<and> list_at st d ys t)"
  using assms by (cases xs) auto

lemma list_at_cons_alloc:
  assumes "wf_heap st" and "list_at st p xs t"
  shows "list_at (alloc_st NAVI_PAIR (PPair x p) st) (Ref (hp_next st)) (x # xs) t"
  using list_at_alloc [OF assms] by (simp add: heap_alloc_st)

end
