(* ===== verification/Navi_Check.thy ===== *)
theory Navi_Check
  imports Navi_Memory
begin

text \<open>
  The type predicates of \<open>internal.h\<close> and the checks of \<open>error.h\<close>: each check either
  returns its argument (or the C value it holds) or raises the error the macro names.
\<close>

section \<open>Type predicates\<close>

definition type_is :: "navi_type \<Rightarrow> navi_obj \<Rightarrow> bool nm" where
  "type_is t obj = bind (navi_type obj) (\<lambda>t'. ret (t' = t))"

definition navi_is_void :: "navi_obj \<Rightarrow> bool nm" where "navi_is_void = type_is NAVI_VOID"
definition navi_is_nil :: "navi_obj \<Rightarrow> bool nm" where "navi_is_nil = type_is NAVI_NIL"
definition navi_is_eof :: "navi_obj \<Rightarrow> bool nm" where "navi_is_eof = type_is NAVI_EOF"
definition navi_is_fixnum :: "navi_obj \<Rightarrow> bool nm" where "navi_is_fixnum = type_is NAVI_FIXNUM"
definition navi_is_bool :: "navi_obj \<Rightarrow> bool nm" where "navi_is_bool = type_is NAVI_BOOL"
definition navi_is_char :: "navi_obj \<Rightarrow> bool nm" where "navi_is_char = type_is NAVI_CHAR"
definition navi_is_values :: "navi_obj \<Rightarrow> bool nm" where "navi_is_values = type_is NAVI_VALUES"
definition navi_is_pair :: "navi_obj \<Rightarrow> bool nm" where "navi_is_pair = type_is NAVI_PAIR"
definition navi_is_string :: "navi_obj \<Rightarrow> bool nm" where "navi_is_string = type_is NAVI_STRING"
definition navi_is_symbol :: "navi_obj \<Rightarrow> bool nm" where "navi_is_symbol = type_is NAVI_SYMBOL"
definition navi_is_vector :: "navi_obj \<Rightarrow> bool nm" where "navi_is_vector = type_is NAVI_VECTOR"
definition navi_is_bytevec :: "navi_obj \<Rightarrow> bool nm" where "navi_is_bytevec = type_is NAVI_BYTEVEC"
definition navi_is_macro :: "navi_obj \<Rightarrow> bool nm" where "navi_is_macro = type_is NAVI_MACRO"
definition navi_is_procedure :: "navi_obj \<Rightarrow> bool nm" where "navi_is_procedure = type_is NAVI_PROCEDURE"
definition navi_is_escape :: "navi_obj \<Rightarrow> bool nm" where "navi_is_escape = type_is NAVI_ESCAPE"
definition navi_is_parameter :: "navi_obj \<Rightarrow> bool nm" where "navi_is_parameter = type_is NAVI_PARAMETER"
definition navi_is_bounce :: "navi_obj \<Rightarrow> bool nm" where "navi_is_bounce = type_is NAVI_BOUNCE"

lemmas type_pred_defs = navi_is_void_def navi_is_nil_def navi_is_eof_def navi_is_fixnum_def
  navi_is_bool_def navi_is_char_def navi_is_values_def navi_is_pair_def navi_is_string_def
  navi_is_symbol_def navi_is_vector_def navi_is_bytevec_def navi_is_macro_def
  navi_is_procedure_def navi_is_escape_def navi_is_parameter_def navi_is_bounce_def

definition navi_is_byte :: "navi_obj \<Rightarrow> bool nm" where
  "navi_is_byte obj =
     bind (navi_is_fixnum obj) (\<lambda>b.
     if \<not> b then ret False
     else bind (navi_fixnum obj) (\<lambda>k. ret (0 \<le> k \<and> k < 256)))"

definition navi_is_list :: "navi_obj \<Rightarrow> bool nm" where
  "navi_is_list obj = bind (navi_type obj) (\<lambda>t. ret (t = NAVI_PAIR \<or> t = NAVI_NIL))"

definition navi_is_true :: "navi_obj \<Rightarrow> bool nm" where
  "navi_is_true expr =
     bind (navi_type expr) (\<lambda>t.
     if t \<noteq> NAVI_BOOL then ret True else navi_bool expr)"

definition navi_symbol_eq :: "navi_obj \<Rightarrow> navi_obj \<Rightarrow> bool nm" where
  "navi_symbol_eq expr symbol =
     bind (navi_is_symbol expr) (\<lambda>b. ret (b \<and> navi_eqp expr symbol))"

definition navi_arity_satisfied :: "navi_procedure \<Rightarrow> nat \<Rightarrow> bool" where
  "navi_arity_satisfied p k \<longleftrightarrow> k = p_arity p \<or> (p_variadic p \<and> k > p_arity p)"

definition navi_strtype :: "navi_type \<Rightarrow> string" where
  "navi_strtype t = (case t of
       NAVI_VOID \<Rightarrow> ''void''
     | NAVI_NIL \<Rightarrow> ''nil''
     | NAVI_EOF \<Rightarrow> ''eof-object''
     | NAVI_FIXNUM \<Rightarrow> ''number''
     | NAVI_BOOL \<Rightarrow> ''boolean''
     | NAVI_CHAR \<Rightarrow> ''character''
     | NAVI_VALUES \<Rightarrow> ''values''
     | NAVI_PAIR \<Rightarrow> ''pair''
     | NAVI_PORT \<Rightarrow> ''port''
     | NAVI_STRING \<Rightarrow> ''string''
     | NAVI_SYMBOL \<Rightarrow> ''symbol''
     | NAVI_VECTOR \<Rightarrow> ''vector''
     | NAVI_BYTEVEC \<Rightarrow> ''bytevector''
     | NAVI_THUNK \<Rightarrow> ''thunk''
     | NAVI_MACRO \<Rightarrow> ''macro''
     | NAVI_SPECIAL \<Rightarrow> ''special''
     | NAVI_PROMISE \<Rightarrow> ''promise''
     | NAVI_PROCEDURE \<Rightarrow> ''procedure''
     | NAVI_CASELAMBDA \<Rightarrow> ''case-lambda''
     | NAVI_ESCAPE \<Rightarrow> ''escape''
     | NAVI_PARAMETER \<Rightarrow> ''parameter''
     | NAVI_ENVIRONMENT \<Rightarrow> ''environment''
     | NAVI_BOUNCE \<Rightarrow> ''bounce''
     | NAVI_TRAP \<Rightarrow> ''trap'')"

section \<open>Errors and checks\<close>

definition navi_error :: "navi_env \<Rightarrow> string \<Rightarrow> (string \<times> irritant) list \<Rightarrow> 'a nm" where
  "navi_error env msg irritants = stop (Error InternalError msg irritants env)"

definition navi_arity_error :: "navi_env \<Rightarrow> irritant \<Rightarrow> 'a nm" where
  "navi_arity_error env name = navi_error env ''wrong number of arguments'' [(''target'', name)]"

definition navi_unbound_identifier_error :: "navi_env \<Rightarrow> navi_obj \<Rightarrow> 'a nm" where
  "navi_unbound_identifier_error env ident =
     navi_error env ''unbound identifier'' [(''identifier'', IObj ident)]"

definition navi_type_error :: "navi_env \<Rightarrow> string \<Rightarrow> string \<Rightarrow> 'a nm" where
  "navi_type_error env expected actual =
     navi_error env ''type error'' [(''expected'', ISym expected), (''actual'', ISym actual)]"

lemma navi_error_run [simp, run_simps]:
  "navi_error env msg irr st n = (Inl (Error InternalError msg irr env), st)"
  by (simp add: navi_error_def)

definition navi_type_check :: "navi_obj \<Rightarrow> navi_type \<Rightarrow> navi_env \<Rightarrow> navi_obj nm" where
  "navi_type_check obj t env =
     bind (navi_type obj) (\<lambda>t'.
     if t' \<noteq> t then navi_type_error env (navi_strtype t) (navi_strtype t')
     else ret obj)"

definition navi_type_check_range :: "navi_obj \<Rightarrow> int \<Rightarrow> int \<Rightarrow> navi_env \<Rightarrow> int nm" where
  "navi_type_check_range k lo hi env =
     bind (navi_type_check k NAVI_FIXNUM env) (\<lambda>_.
     bind (navi_fixnum k) (\<lambda>i.
     if i < lo \<or> i \<ge> hi then
       navi_error env ''argument not in allowed range''
         [(''min'', IObj (navi_make_fixnum lo)), (''max'', IObj (navi_make_fixnum hi)),
          (''actual'', IObj k)]
     else ret i))"

definition navi_type_check_list :: "navi_obj \<Rightarrow> navi_env \<Rightarrow> navi_obj nm" where
  "navi_type_check_list l env =
     bind (navi_is_list l) (\<lambda>b.
     if \<not> b then
       bind (navi_type l) (\<lambda>t. navi_type_error env ''list'' (navi_strtype t))
     else ret l)"

definition navi_check_arity :: "navi_obj \<Rightarrow> nat \<Rightarrow> navi_env \<Rightarrow> navi_obj nm" where
  "navi_check_arity proc arity env =
     bind (navi_procedure proc) (\<lambda>p.
     if \<not> navi_arity_satisfied p arity then
       navi_error env ''wrong arity''
         [(''expected'', IObj (navi_make_fixnum (int arity))),
          (''actual'', IObj (navi_make_fixnum (int (p_arity p))))]
     else ret proc)"

definition navi_type_check_proc :: "navi_obj \<Rightarrow> nat \<Rightarrow> navi_env \<Rightarrow> navi_obj nm" where
  "navi_type_check_proc proc arity env =
     bind (navi_type_check proc NAVI_PROCEDURE env) (\<lambda>_. navi_check_arity proc arity env)"

definition navi_fixnum_cast :: "navi_obj \<Rightarrow> navi_env \<Rightarrow> int nm" where
  "navi_fixnum_cast num env = bind (navi_type_check num NAVI_FIXNUM env) navi_fixnum"

definition navi_char_cast :: "navi_obj \<Rightarrow> navi_env \<Rightarrow> int nm" where
  "navi_char_cast ch env = bind (navi_type_check ch NAVI_CHAR env) navi_char"

definition navi_string_cast :: "navi_obj \<Rightarrow> navi_env \<Rightarrow> navi_string nm" where
  "navi_string_cast str env = bind (navi_type_check str NAVI_STRING env) navi_string"

definition navi_bytevec_cast :: "navi_obj \<Rightarrow> navi_env \<Rightarrow> byte option list nm" where
  "navi_bytevec_cast vec env = bind (navi_type_check vec NAVI_BYTEVEC env) navi_bytevec"

definition navi_vector_cast :: "navi_obj \<Rightarrow> navi_env \<Rightarrow> navi_obj option list nm" where
  "navi_vector_cast vec env = bind (navi_type_check vec NAVI_VECTOR env) navi_vector"

definition navi_type_check_byte :: "navi_obj \<Rightarrow> navi_env \<Rightarrow> byte nm" where
  "navi_type_check_byte b env =
     bind (navi_type_check_range b 0 256 env) (\<lambda>i. ret (word_of_int i))"

text \<open>
  The index check of the copying procedures.  \<open>to\<close> and \<open>from\<close> are sizes, the others \<open>long\<close>s;
  the conditions are tried in this order, so the conversions to \<open>size_t\<close> see no negative
  number.
\<close>

definition check_copy_bad :: "nat \<Rightarrow> int \<Rightarrow> nat \<Rightarrow> int \<Rightarrow> int \<Rightarrow> bool" where
  "check_copy_bad to at from start end \<longleftrightarrow>
     at < 0 \<or> at \<ge> int to \<or> start < 0 \<or> start \<ge> int from \<or>
     end < start \<or> end > int from \<or> int to - at < end - start"

definition navi_check_copy_to :: "nat \<Rightarrow> int \<Rightarrow> nat \<Rightarrow> int \<Rightarrow> int \<Rightarrow> navi_env \<Rightarrow> unit nm" where
  "navi_check_copy_to to at from start end env =
     (if check_copy_bad to at from start end
      then navi_error env ''invalid indices for copy'' [] else ret ())"

definition navi_check_copy :: "nat \<Rightarrow> int \<Rightarrow> int \<Rightarrow> navi_env \<Rightarrow> unit nm" where
  "navi_check_copy sz start end env = navi_check_copy_to sz 0 sz start end env"

lemma type_is_at [simp]:
  "heap st a = Some ob \<Longrightarrow> type_is t (Ref a) st n = (Inr (obj_type ob = t), st)"
  by (simp add: type_is_def)

lemma type_is_imm [simp]:
  "type_is t VoidO = ret (t = NAVI_VOID)" "type_is t NilO = ret (t = NAVI_NIL)"
  "type_is t EofO = ret (t = NAVI_EOF)" "type_is t (Fixnum w) = ret (t = NAVI_FIXNUM)"
  "type_is t (BoolO b) = ret (t = NAVI_BOOL)" "type_is t (CharO c) = ret (t = NAVI_CHAR)"
  by (intro ext; auto simp: type_is_def)+

lemma navi_type_check_at [simp]:
  "heap st a = Some ob \<Longrightarrow> obj_type ob = t \<Longrightarrow> navi_type_check (Ref a) t env st n = (Inr (Ref a), st)"
  by (simp add: navi_type_check_def)

lemma navi_type_check_imm [simp]:
  "navi_type_check (Fixnum w) NAVI_FIXNUM env = ret (Fixnum w)"
  "navi_type_check (CharO c) NAVI_CHAR env = ret (CharO c)"
  "navi_type_check (BoolO b) NAVI_BOOL env = ret (BoolO b)"
  by (intro ext; simp add: navi_type_check_def)+

text \<open>The type of a value in a state, and what the predicates and checks do in terms of it.\<close>

definition type_in :: "state \<Rightarrow> navi_obj \<Rightarrow> navi_type" where
  "type_in st obj = (case obj of
       VoidO \<Rightarrow> NAVI_VOID | NilO \<Rightarrow> NAVI_NIL | EofO \<Rightarrow> NAVI_EOF | Fixnum _ \<Rightarrow> NAVI_FIXNUM
     | BoolO _ \<Rightarrow> NAVI_BOOL | CharO _ \<Rightarrow> NAVI_CHAR
     | Ref a \<Rightarrow> (case heap st a of Some ob \<Rightarrow> obj_type ob | None \<Rightarrow> NAVI_TRAP))"

lemma type_in_simps [simp]:
  "type_in st VoidO = NAVI_VOID" "type_in st NilO = NAVI_NIL" "type_in st EofO = NAVI_EOF"
  "type_in st (Fixnum w) = NAVI_FIXNUM" "type_in st (BoolO b) = NAVI_BOOL"
  "type_in st (CharO c) = NAVI_CHAR"
  "heap st a = Some ob \<Longrightarrow> type_in st (Ref a) = obj_type ob"
  by (simp_all add: type_in_def)

lemma navi_type_valid: "valid_obj st x \<Longrightarrow> navi_type x st n = (Inr (type_in st x), st)"
  by (cases x) auto

lemma type_is_valid: "valid_obj st x \<Longrightarrow> type_is t x st n = (Inr (type_in st x = t), st)"
  by (simp add: type_is_def navi_type_valid)

lemma navi_type_check_valid:
  "valid_obj st x \<Longrightarrow> navi_type_check x t env st n =
     (if type_in st x = t then (Inr x, st)
      else (Inl (Error InternalError ''type error''
                  [(''expected'', ISym (navi_strtype t)),
                   (''actual'', ISym (navi_strtype (type_in st x)))] env), st))"
  by (simp add: navi_type_check_def navi_type_valid navi_type_error_def)

lemma is_pair_at_type_in: "is_pair_at st x \<longleftrightarrow> type_in st x = NAVI_PAIR"
  by (cases x) (auto simp: is_pair_at_def type_in_def split: option.splits)

lemma type_in_fixnum: "wf_heap st \<Longrightarrow> valid_obj st x \<Longrightarrow> type_in st x = NAVI_FIXNUM \<Longrightarrow> \<exists>w. x = Fixnum w"
  by (cases x) (auto dest!: wf_heapD(2) split: payload.splits)

lemma type_in_char: "wf_heap st \<Longrightarrow> valid_obj st x \<Longrightarrow> type_in st x = NAVI_CHAR \<Longrightarrow> \<exists>c. x = CharO c"
  by (cases x) (auto dest!: wf_heapD(2) split: payload.splits)

lemma type_in_bool: "wf_heap st \<Longrightarrow> valid_obj st x \<Longrightarrow> type_in st x = NAVI_BOOL \<Longrightarrow> \<exists>b. x = BoolO b"
  by (cases x) (auto dest!: wf_heapD(2) split: payload.splits)

lemma type_in_nil: "wf_heap st \<Longrightarrow> valid_obj st x \<Longrightarrow> type_in st x = NAVI_NIL \<Longrightarrow> x = NilO"
  by (cases x) (auto dest!: wf_heapD(2) split: payload.splits)

lemma type_in_RefE:
  assumes "type_in st x = t" and "t \<in> {NAVI_PAIR, NAVI_VECTOR, NAVI_BYTEVEC, NAVI_STRING}"
  obtains a ob where "x = Ref a" and "heap st a = Some ob" and "obj_type ob = t"
  using assms by (cases x) (auto simp: type_in_def split: option.splits)

lemma navi_object_eq: "obj_type ob = t \<Longrightarrow> obj_data ob = d \<Longrightarrow> ob = \<lparr>obj_type = t, obj_data = d\<rparr>"
  by (cases ob) simp

lemma type_in_pair:
  assumes "wf_heap st" and "type_in st x = NAVI_PAIR"
  shows "\<exists>a u v. x = Ref a \<and> pair_at st a u v"
proof -
  obtain a ob where ob: "x = Ref a" "heap st a = Some ob" "obj_type ob = NAVI_PAIR"
    using assms(2) by (rule type_in_RefE) simp
  with assms(1) have "tag_ok ob" by (auto dest: wf_heapD(2))
  with ob show ?thesis by (auto split: payload.splits dest: navi_object_eq)
qed

lemma type_in_vector:
  assumes "wf_heap st" and "type_in st x = NAVI_VECTOR"
  shows "\<exists>a xs. x = Ref a \<and> vector_at st a xs"
proof -
  obtain a ob where ob: "x = Ref a" "heap st a = Some ob" "obj_type ob = NAVI_VECTOR"
    using assms(2) by (rule type_in_RefE) simp
  with assms(1) have "tag_ok ob" by (auto dest: wf_heapD(2))
  with ob show ?thesis by (auto split: payload.splits dest: navi_object_eq)
qed

lemma type_in_bytevec:
  assumes "wf_heap st" and "type_in st x = NAVI_BYTEVEC"
  shows "\<exists>a bs. x = Ref a \<and> bytevec_at st a bs"
proof -
  obtain a ob where ob: "x = Ref a" "heap st a = Some ob" "obj_type ob = NAVI_BYTEVEC"
    using assms(2) by (rule type_in_RefE) simp
  with assms(1) have "tag_ok ob" by (auto dest: wf_heapD(2))
  with ob show ?thesis by (auto split: payload.splits dest: navi_object_eq)
qed

lemma type_in_string:
  assumes "wf_heap st" and "type_in st x = NAVI_STRING"
  shows "\<exists>a s. x = Ref a \<and> string_at st a s"
proof -
  obtain a ob where ob: "x = Ref a" "heap st a = Some ob" "obj_type ob = NAVI_STRING"
    using assms(2) by (rule type_in_RefE) simp
  with assms(1) have "tag_ok ob" by (auto dest: wf_heapD(2))
  with ob show ?thesis by (auto split: payload.splits dest: navi_object_eq)
qed

lemma navi_fixnum_cast_Fixnum [simp]: "navi_fixnum_cast (Fixnum w) env = ret (sint w)"
  by (intro ext) (simp add: navi_fixnum_cast_def)

lemma navi_is_true_eq: "valid_obj st x \<Longrightarrow> wf_heap st \<Longrightarrow> navi_is_true x st n = (Inr (x \<noteq> BoolO False), st)"
  by (cases x) (auto simp: navi_is_true_def bind_run navi_type_valid dest!: wf_heapD(2) split: payload.splits)

text \<open>Indices that pass the check stay inside both buffers.\<close>

lemma check_copy_in_bounds:
  assumes "\<not> check_copy_bad to at from start end"
  shows "0 \<le> at" "0 \<le> start" "start \<le> end" "end \<le> int from" "at + (end - start) \<le> int to"
  using assms by (auto simp: check_copy_bad_def)

end
