(* ===== verification/Navi_Word.thy ===== *)
theory Navi_Word
  imports Navi_Check
begin

unbundle bit_operations_syntax

text \<open>
  The machine words behind the values: the 64 bits of the union \<open>navi_obj\<close>, the tags of
  \<open>navi.h\<close>, the type dispatch of \<open>internal.h\<close> on the word and the fixnum arithmetic of
  \<open>macros.h\<close>.  \<open>obj_word\<close> is the representation of a value; a heap object at address \<open>a\<close> is
  at the machine address \<open>16 * (a + 1)\<close>, so that a pointer is nonzero and has its low four
  bits clear, as \<open>malloc\<close> guarantees.  The lemmas show that the representation is injective
  for the addresses a 64-bit machine has, that the dispatch on the word agrees with
  \<open>navi_type\<close>, and that the arithmetic macros compute modulo \<open>2 ^ 63\<close>.
\<close>

section \<open>Tags\<close>

definition NAVI_IMMEDIATE_TAG_BITS :: nat where "NAVI_IMMEDIATE_TAG_BITS = 4"
definition NAVI_IMMEDIATE_TAG_MASK :: "64 word" where "NAVI_IMMEDIATE_TAG_MASK = 0xF"
definition NAVI_VOID_TAG :: "64 word" where "NAVI_VOID_TAG = 0"
definition NAVI_BOOL_TAG :: "64 word" where "NAVI_BOOL_TAG = 0x2"
definition NAVI_CHAR_TAG :: "64 word" where "NAVI_CHAR_TAG = 0x6"
definition NAVI_NIL_TAG :: "64 word" where "NAVI_NIL_TAG = 0xA"
definition NAVI_EOF_TAG :: "64 word" where "NAVI_EOF_TAG = 0xE"

lemmas tag_defs = NAVI_IMMEDIATE_TAG_BITS_def NAVI_IMMEDIATE_TAG_MASK_def NAVI_VOID_TAG_def
  NAVI_BOOL_TAG_def NAVI_CHAR_TAG_def NAVI_NIL_TAG_def NAVI_EOF_TAG_def

text \<open>The constructors of immediates, on words.\<close>

definition word_make_fixnum :: "64 word \<Rightarrow> 64 word" where
  "word_make_fixnum num = push_bit 1 num OR 1"

definition word_make_bool :: "bool \<Rightarrow> 64 word" where
  "word_make_bool b = push_bit NAVI_IMMEDIATE_TAG_BITS (of_bool b) OR NAVI_BOOL_TAG"

definition word_make_char :: "64 word \<Rightarrow> 64 word" where
  "word_make_char c = push_bit NAVI_IMMEDIATE_TAG_BITS c OR NAVI_CHAR_TAG"

text \<open>The accessors: arithmetic shifts of the signed word.\<close>

definition word_fixnum :: "64 word \<Rightarrow> 64 word" where
  "word_fixnum n = signed_drop_bit 1 n"

definition word_char :: "64 word \<Rightarrow> 64 word" where
  "word_char n = signed_drop_bit NAVI_IMMEDIATE_TAG_BITS n"

definition word_bool :: "64 word \<Rightarrow> 64 word" where
  "word_bool n = signed_drop_bit NAVI_IMMEDIATE_TAG_BITS n"

section \<open>The type dispatch on words\<close>

definition navi_is_immediate :: "64 word \<Rightarrow> bool" where
  "navi_is_immediate n \<longleftrightarrow> n AND 3 \<noteq> 0"

text \<open>\<open>None\<close> is the \<open>-1\<close> the function returns for a tag it does not know.\<close>

definition navi_immediate_type :: "64 word \<Rightarrow> navi_type option" where
  "navi_immediate_type n =
     (let tag = n AND NAVI_IMMEDIATE_TAG_MASK in
      if tag = NAVI_BOOL_TAG then Some NAVI_BOOL
      else if tag = NAVI_CHAR_TAG then Some NAVI_CHAR
      else if tag = NAVI_NIL_TAG then Some NAVI_NIL
      else if tag = NAVI_EOF_TAG then Some NAVI_EOF
      else None)"

text \<open>\<open>ptype_at\<close> reads the \<open>type\<close> field of the object a pointer points to.\<close>

definition navi_type_word :: "(64 word \<Rightarrow> navi_type) \<Rightarrow> 64 word \<Rightarrow> navi_type option" where
  "navi_type_word ptype_at n =
     (if n = 0 then Some NAVI_VOID
      else if n AND 1 \<noteq> 0 then Some NAVI_FIXNUM
      else if n AND 2 \<noteq> 0 then navi_immediate_type n
      else Some (ptype_at n))"

definition navi_ptr_type :: "64 word \<Rightarrow> bool" where
  "navi_ptr_type n \<longleftrightarrow> n \<noteq> 0 \<and> n AND 3 = 0"

section \<open>Fixnum arithmetic on words\<close>

definition navi_fixnum_fix :: "64 word \<Rightarrow> 64 word" where
  "navi_fixnum_fix n = push_bit 1 n OR 1"

definition navi_fixnum_unfix :: "64 word \<Rightarrow> 64 word" where
  "navi_fixnum_unfix n = signed_drop_bit 1 n"

definition navi_u_fixnum_plus :: "64 word \<Rightarrow> 64 word \<Rightarrow> 64 word" where
  "navi_u_fixnum_plus n1 n2 = (n1 - 1) + n2"

definition navi_fixnum_plus :: "64 word \<Rightarrow> 64 word \<Rightarrow> 64 word" where
  "navi_fixnum_plus n1 n2 = navi_u_fixnum_plus n1 n2 OR 1"

definition navi_u_fixnum_minus :: "64 word \<Rightarrow> 64 word \<Rightarrow> 64 word" where
  "navi_u_fixnum_minus n1 n2 = n1 - n2 + 1"

definition navi_fixnum_minus :: "64 word \<Rightarrow> 64 word \<Rightarrow> 64 word" where
  "navi_fixnum_minus n1 n2 = navi_u_fixnum_minus n1 n2 OR 1"

definition navi_fixnum_times :: "64 word \<Rightarrow> 64 word \<Rightarrow> 64 word" where
  "navi_fixnum_times n1 n2 = navi_fixnum_fix (navi_fixnum_unfix n1 * navi_fixnum_unfix n2)"

text \<open>Division and remainder truncate towards zero; by zero they have no meaning in C.\<close>

definition navi_fixnum_divide :: "64 word \<Rightarrow> 64 word \<Rightarrow> 64 word option" where
  "navi_fixnum_divide n1 n2 =
     (if navi_fixnum_unfix n2 = 0 then None
      else Some (navi_fixnum_fix
        (word_of_int (sint (navi_fixnum_unfix n1) sdiv sint (navi_fixnum_unfix n2)))))"

definition navi_fixnum_modulo :: "64 word \<Rightarrow> 64 word \<Rightarrow> 64 word option" where
  "navi_fixnum_modulo n1 n2 =
     (if navi_fixnum_unfix n2 = 0 then None
      else Some (navi_fixnum_fix
        (word_of_int (sint (navi_fixnum_unfix n1) smod sint (navi_fixnum_unfix n2)))))"

section \<open>The representation\<close>

definition obj_word :: "navi_obj \<Rightarrow> 64 word" where
  "obj_word obj = (case obj of
       VoidO \<Rightarrow> NAVI_VOID_TAG
     | NilO \<Rightarrow> NAVI_NIL_TAG
     | EofO \<Rightarrow> NAVI_EOF_TAG
     | Fixnum w \<Rightarrow> word_make_fixnum (ucast w)
     | BoolO b \<Rightarrow> word_make_bool b
     | CharO c \<Rightarrow> word_make_char (ucast c)
     | Ref a \<Rightarrow> word_of_nat (16 * Suc a))"

definition addressable :: "navi_obj \<Rightarrow> bool" where
  "addressable obj \<longleftrightarrow> (case obj of Ref a \<Rightarrow> Suc a < 2 ^ 60 | _ \<Rightarrow> True)"

text \<open>The value a word represents.\<close>

definition word_obj :: "64 word \<Rightarrow> navi_obj" where
  "word_obj n =
     (if n = NAVI_VOID_TAG then VoidO
      else if n AND 1 \<noteq> 0 then Fixnum (ucast (drop_bit 1 n))
      else if n AND 0xF = NAVI_BOOL_TAG then BoolO (drop_bit 4 n \<noteq> 0)
      else if n AND 0xF = NAVI_CHAR_TAG then CharO (ucast (drop_bit 4 n))
      else if n AND 0xF = NAVI_NIL_TAG then NilO
      else if n AND 0xF = NAVI_EOF_TAG then EofO
      else Ref (unat n div 16 - 1))"

section \<open>Arithmetic modulo \<open>2 ^ 64\<close> and \<open>2 ^ 63\<close>\<close>

lemma or_one_even: "push_bit 1 n OR 1 = 2 * n + (1 :: 64 word)"
proof -
  have "even (push_bit 1 n)" by (simp add: push_bit_double)
  then show ?thesis by (simp add: or_one_eq push_bit_double)
qed

lemma word64_of_int_eq: "(word_of_int i :: 64 word) = word_of_int j \<longleftrightarrow> i mod 2 ^ 64 = j mod 2 ^ 64"
  by (simp add: word_of_int_eq_iff take_bit_eq_mod)

lemma word63_of_int_eq: "(word_of_int i :: 63 word) = word_of_int j \<longleftrightarrow> i mod 2 ^ 63 = j mod 2 ^ 63"
  by (simp add: word_of_int_eq_iff take_bit_eq_mod)

lemma ucast_word63: "(ucast (word_of_int i :: 63 word) :: 64 word) = word_of_int (i mod 2 ^ 63)"
  by (simp add: unsigned_of_int take_bit_eq_mod)

lemma sint_word64: "- (2 ^ 63) \<le> i \<Longrightarrow> i < 2 ^ 63 \<Longrightarrow> sint (word_of_int i :: 64 word) = i"
  unfolding sint_sbintrunc' by (rule signed_take_bit_int_eq_self) simp_all

lemma sint_word63: "- (2 ^ 62) \<le> i \<Longrightarrow> i < 2 ^ 62 \<Longrightarrow> sint (word_of_int i :: 63 word) = i"
  unfolding sint_sbintrunc' by (rule signed_take_bit_int_eq_self) simp_all

text \<open>The word of the fixnum \<open>k\<close> is \<open>2 * k + 1\<close>, whatever \<open>k\<close>.\<close>

lemma obj_word_fixnum: "obj_word (Fixnum (word_of_int k)) = word_of_int (2 * k + 1)"
proof -
  have "(2 * (k mod 2 ^ 63)) mod 2 ^ 64 = (2 * k) mod (2 ^ 64 :: int)"
    using mult_mod_right [of 2 k "2 ^ 63"] by simp
  then have "(2 * (k mod 2 ^ 63) + 1) mod 2 ^ 64 = (2 * k + 1) mod (2 ^ 64 :: int)"
    by (metis mod_add_left_eq)
  moreover have "obj_word (Fixnum (word_of_int k)) = word_of_int (2 * (k mod 2 ^ 63) + 1)"
    unfolding obj_word_def word_make_fixnum_def or_one_even ucast_word63 navi_obj.case
    by simp
  ultimately show ?thesis by (metis word64_of_int_eq)
qed

lemma fixnum_as_int:
  fixes w :: "63 word"
  obtains k where "w = word_of_int k" and "k = sint w" and "- (2 ^ 62) \<le> k" and "k < 2 ^ 62"
  using sint_ge [of w] sint_lt [of w] that [of "sint w"] by simp


lemma sint_eq_of_int: "sint x = k \<Longrightarrow> x = word_of_int k"
  by auto

lemma word_is_int: "\<exists>k. w = (word_of_int k :: 'a::len word)"
  by (rule exI [of _ "sint w"]) simp

lemma word_fixnum_fixnum:
  assumes "- (2 ^ 62) \<le> k" and "k < 2 ^ 62"
  shows "signed_drop_bit 1 (word_of_int (2 * k + 1) :: 64 word) = word_of_int k"
proof -
  have "sint (word_of_int (2 * k + 1) :: 64 word) = 2 * k + 1"
    using assms sint_word64 [of "2 * k + 1"] by simp
  then have "sint (signed_drop_bit 1 (word_of_int (2 * k + 1) :: 64 word)) = k"
    by (simp add: sint_signed_drop_bit_eq drop_bit_eq_div)
  then show ?thesis by (rule sint_eq_of_int)
qed

lemma word_of_int_sint: "(word_of_int (sint w) :: 'a::len word) = w"
  by simp

section \<open>The arithmetic macros on fixnums\<close>

lemma navi_fixnum_unfix_fixnum: "navi_fixnum_unfix (obj_word (Fixnum w)) = word_of_int (sint w)"
proof -
  obtain k where k: "w = word_of_int k" "k = sint w" "- (2 ^ 62) \<le> k" "k < 2 ^ 62"
    by (rule fixnum_as_int)
  then show ?thesis
    by (metis navi_fixnum_unfix_def obj_word_fixnum word_fixnum_fixnum)
qed

lemma navi_fixnum_fix_int: "navi_fixnum_fix (word_of_int k) = obj_word (Fixnum (word_of_int k))"
  unfolding navi_fixnum_fix_def or_one_even obj_word_fixnum by simp

lemma or_one_odd: "word_of_int (2 * k + 1) OR 1 = (word_of_int (2 * k + 1) :: 64 word)"
proof -
  have "odd (word_of_int (2 * k + 1) :: 64 word)" by simp
  then show ?thesis by (simp only: or_one_eq) simp
qed

lemma navi_fixnum_plus_fixnum:
  "navi_fixnum_plus (obj_word (Fixnum v)) (obj_word (Fixnum w)) = obj_word (Fixnum (v + w))"
proof -
  obtain j k where jk: "v = word_of_int j" "w = word_of_int k"
    using word_is_int [of v] word_is_int [of w] by blast
  have "word_of_int (2 * j + 1) - 1 + word_of_int (2 * k + 1) = (word_of_int (2 * (j + k) + 1) :: 64 word)"
    by (simp add: algebra_simps)
  moreover have "v + w = word_of_int (j + k)" using jk by simp
  ultimately show ?thesis
    by (metis jk navi_fixnum_plus_def navi_u_fixnum_plus_def obj_word_fixnum or_one_odd)
qed

lemma navi_fixnum_minus_fixnum:
  "navi_fixnum_minus (obj_word (Fixnum v)) (obj_word (Fixnum w)) = obj_word (Fixnum (v - w))"
proof -
  obtain j k where jk: "v = word_of_int j" "w = word_of_int k"
    using word_is_int [of v] word_is_int [of w] by blast
  have "word_of_int (2 * j + 1) - word_of_int (2 * k + 1) + 1 = (word_of_int (2 * (j - k) + 1) :: 64 word)"
    by (simp add: algebra_simps)
  moreover have "v - w = word_of_int (j - k)" using jk by simp
  ultimately show ?thesis
    by (metis jk navi_fixnum_minus_def navi_u_fixnum_minus_def obj_word_fixnum or_one_odd)
qed

lemma navi_fixnum_times_fixnum:
  "navi_fixnum_times (obj_word (Fixnum v)) (obj_word (Fixnum w)) = obj_word (Fixnum (v * w))"
proof -
  have "word_of_int (sint v) * word_of_int (sint w) = (word_of_int (sint v * sint w) :: 64 word)"
    by simp
  moreover have "(word_of_int (sint v * sint w) :: 63 word) = v * w" by simp
  ultimately show ?thesis
    by (metis navi_fixnum_times_def navi_fixnum_unfix_fixnum navi_fixnum_fix_int)
qed

lemma sint_fixnum_bounds: "- (2 ^ 62) \<le> sint (w :: 63 word)" "sint (w :: 63 word) < 2 ^ 62"
  using sint_ge [of w] sint_lt [of w] by simp_all

lemma sint_word_fixnum: "sint (word_of_int (sint (w :: 63 word)) :: 64 word) = sint w"
  using sint_fixnum_bounds [of w] by (intro sint_word64) simp_all

lemma word_fixnum_zero: "(word_of_int (sint (w :: 63 word)) :: 64 word) = 0 \<longleftrightarrow> w = 0"
proof
  assume "(word_of_int (sint w) :: 64 word) = 0"
  then have "sint w = 0" using sint_word_fixnum [of w] by simp
  then show "w = 0" using word_of_int_sint [of w] by simp
qed simp

lemma navi_fixnum_divide_fixnum:
  "navi_fixnum_divide (obj_word (Fixnum v)) (obj_word (Fixnum w)) =
     (if w = 0 then None else Some (obj_word (Fixnum (word_of_int (sint v sdiv sint w)))))"
  unfolding navi_fixnum_divide_def navi_fixnum_unfix_fixnum word_fixnum_zero sint_word_fixnum
      navi_fixnum_fix_int by (rule refl)

lemma navi_fixnum_modulo_fixnum:
  "navi_fixnum_modulo (obj_word (Fixnum v)) (obj_word (Fixnum w)) =
     (if w = 0 then None else Some (obj_word (Fixnum (word_of_int (sint v smod sint w)))))"
  unfolding navi_fixnum_modulo_def navi_fixnum_unfix_fixnum word_fixnum_zero sint_word_fixnum
      navi_fixnum_fix_int by (rule refl)

section \<open>The tags and the dispatch\<close>

lemma and_F: "n AND 0xF = take_bit 4 (n :: 64 word)"
proof -
  have "(0xF :: 64 word) = mask 4" by (simp add: mask_eq_exp_minus_1)
  then show ?thesis by (simp add: take_bit_eq_mask)
qed

lemma and_3: "n AND 3 = take_bit 2 (n :: 64 word)"
proof -
  have "(3 :: 64 word) = mask 2" by (simp add: mask_eq_exp_minus_1)
  then show ?thesis by (simp add: take_bit_eq_mask)
qed

lemma and_2_bit: "n AND 2 \<noteq> 0 \<longleftrightarrow> bit (n :: 64 word) 1"
proof -
  have "(2 :: 64 word) = push_bit 1 1" by simp
  then have "n AND 2 \<noteq> 0 \<longleftrightarrow> n AND push_bit 1 1 \<noteq> 0" by metis
  also have "\<dots> \<longleftrightarrow> bit n 1" using and_exp_eq_0_iff_not_bit [of n 1] by (simp add: push_bit_of_1)
  finally show ?thesis .
qed

lemma and_1_bit: "n AND 1 \<noteq> 0 \<longleftrightarrow> bit (n :: 64 word) 0"
  by (simp add: and_one_eq mod_2_eq_odd bit_0)

lemma low_char: "take_bit 4 (word_make_char c) = NAVI_CHAR_TAG"
  by (simp add: word_make_char_def tag_defs take_bit_push_bit)
lemma low_bool: "take_bit 4 (word_make_bool c) = NAVI_BOOL_TAG"
  by (simp add: word_make_bool_def tag_defs)
lemma low_ref: "take_bit 4 (word_of_nat (16 * k) :: 64 word) = 0"
proof -
  have "(word_of_nat (16 * k) :: 64 word) = push_bit 4 (word_of_nat k)"
    by (simp add: push_bit_eq_mult)
  then show ?thesis by (simp only: take_bit_push_bit) simp
qed
lemma low_fix: "bit (word_make_fixnum c) 0"
  unfolding word_make_fixnum_def or_one_even bit_0 by simp
lemma high_char: "ucast (drop_bit 4 (word_make_char (ucast c))) = (c :: 60 word)"
  by (rule bit_word_eqI) (simp add: word_make_char_def tag_defs bit_simps)
lemma bit_word_make_fixnum: "n < 63 \<Longrightarrow> bit (word_make_fixnum x) (Suc n) = bit x n"
  unfolding word_make_fixnum_def bit_or_iff bit_push_bit_iff by (simp add: bit_1_iff)

lemma high_fix: "ucast (drop_bit 1 (word_make_fixnum (ucast c))) = (c :: 63 word)"
  by (rule bit_word_eqI) (simp add: bit_ucast_iff bit_drop_bit_eq bit_word_make_fixnum)

lemma high_bool: "drop_bit 4 (word_make_bool b) \<noteq> 0 \<longleftrightarrow> b"
  by (cases b) (simp_all add: word_make_bool_def tag_defs)
lemma high_ref: "Suc a < 2 ^ 60 \<Longrightarrow> unat (word_of_nat (16 * Suc a) :: 64 word) = 16 * Suc a"
  by (simp only: unat_of_nat) simp

lemma word_obj_obj_word:
  assumes "addressable obj"
  shows "word_obj (obj_word obj) = obj"
proof (cases obj)
  case (Fixnum w)
  have "bit (word_make_fixnum (ucast w)) 0" by (rule low_fix)
  moreover from this have "word_make_fixnum (ucast w) \<noteq> 0" by auto
  ultimately show ?thesis
    unfolding Fixnum word_obj_def obj_word_def and_1_bit using high_fix by (simp add: tag_defs)
next
  case (CharO c)
  have low: "take_bit 4 (word_make_char (ucast c)) = NAVI_CHAR_TAG" by (rule low_char)
  then have "word_make_char (ucast c) \<noteq> 0" by (auto simp: tag_defs)
  moreover have "\<not> bit (word_make_char (ucast c)) 0"
    using arg_cong [OF low, of "\<lambda>w. bit w 0"] by (simp add: bit_take_bit_iff tag_defs)
  ultimately show ?thesis using low
    unfolding CharO word_obj_def obj_word_def and_1_bit and_F by (simp add: high_char tag_defs)
next
  case (BoolO b)
  have low: "take_bit 4 (word_make_bool b) = NAVI_BOOL_TAG" by (rule low_bool)
  then have "word_make_bool b \<noteq> 0" by (auto simp: tag_defs)
  moreover have "\<not> bit (word_make_bool b) 0"
    using arg_cong [OF low, of "\<lambda>w. bit w 0"] by (simp add: bit_take_bit_iff tag_defs)
  ultimately show ?thesis using low high_bool [of b]
    unfolding BoolO word_obj_def obj_word_def and_1_bit and_F by (simp add: tag_defs)
next
  case (Ref a)
  have low: "take_bit 4 (word_of_nat (16 * Suc a) :: 64 word) = 0" by (rule low_ref)
  have high: "unat (word_of_nat (16 * Suc a) :: 64 word) = 16 * Suc a"
    using assms by (intro high_ref) (simp add: Ref addressable_def)
  then have "(word_of_nat (16 * Suc a) :: 64 word) \<noteq> 0" by (metis unsigned_0 mult_is_0 nat.distinct(1) zero_neq_numeral)
  moreover have "\<not> bit (word_of_nat (16 * Suc a) :: 64 word) 0"
    using arg_cong [OF low, of "\<lambda>w. bit w 0"] by (simp add: bit_take_bit_iff)
  ultimately show ?thesis using low high
    unfolding Ref word_obj_def obj_word_def and_1_bit and_F navi_obj.case by (simp add: tag_defs)
qed (simp_all add: word_obj_def obj_word_def tag_defs)


lemma obj_word_inject:
  "addressable x \<Longrightarrow> addressable y \<Longrightarrow> obj_word x = obj_word y \<longleftrightarrow> x = y"
  by (metis word_obj_obj_word)

lemma navi_immediate_type_tag:
  "take_bit 4 n = NAVI_BOOL_TAG \<Longrightarrow> navi_immediate_type n = Some NAVI_BOOL"
  "take_bit 4 n = NAVI_CHAR_TAG \<Longrightarrow> navi_immediate_type n = Some NAVI_CHAR"
  "take_bit 4 n = NAVI_NIL_TAG \<Longrightarrow> navi_immediate_type n = Some NAVI_NIL"
  "take_bit 4 n = NAVI_EOF_TAG \<Longrightarrow> navi_immediate_type n = Some NAVI_EOF"
  unfolding navi_immediate_type_def NAVI_IMMEDIATE_TAG_MASK_def and_F
  by (simp_all add: tag_defs)

lemma low_bits:
  assumes "take_bit 4 n = (t :: 64 word)"
  shows "bit n 0 = bit t 0" and "bit n 1 = bit t 1" and "t \<noteq> 0 \<Longrightarrow> n \<noteq> 0"
  using assms by (auto simp: bit_take_bit_iff)

lemma tag_bits:
  "\<not> bit NAVI_BOOL_TAG 0" "\<not> bit NAVI_CHAR_TAG 0" "\<not> bit NAVI_NIL_TAG 0" "\<not> bit NAVI_EOF_TAG 0"
  "bit NAVI_BOOL_TAG 1" "bit NAVI_CHAR_TAG 1" "bit NAVI_NIL_TAG 1" "bit NAVI_EOF_TAG 1"
  "NAVI_BOOL_TAG \<noteq> 0" "NAVI_CHAR_TAG \<noteq> 0" "NAVI_NIL_TAG \<noteq> 0" "NAVI_EOF_TAG \<noteq> 0"
  by (simp_all add: tag_defs bit_0 bit_1_iff flip: bit_Suc)

lemma navi_type_word_tag:
  assumes "take_bit 4 n = t" and "t \<in> {NAVI_BOOL_TAG, NAVI_CHAR_TAG, NAVI_NIL_TAG, NAVI_EOF_TAG}"
  shows "navi_type_word f n = navi_immediate_type n"
  using assms low_bits [OF assms(1)] tag_bits
  by (auto simp: navi_type_word_def and_1_bit and_2_bit)

lemma take_bit_4_bits: "take_bit 4 (n::64 word) = 8 * of_bool (bit n 3) + (4 * of_bool (bit n 2) + (2 * of_bool (bit n 1) + of_bool (bit n 0)))"
proof -
  have four: "(4 :: nat) = Suc (Suc (Suc (Suc 0)))" by simp
  have "uint (take_bit 4 n) = take_bit 4 (uint n)" by (simp add: unsigned_take_bit_eq)
  also have "\<dots> = 8 * of_bool (bit n 3) + (4 * of_bool (bit n 2) + (2 * of_bool (bit n 1) + of_bool (bit n 0)))"
    unfolding four take_bit_Suc_from_most by (simp add: bit_uint_iff numeral_3_eq_3 numeral_2_eq_2)
  finally have "word_of_int (uint (take_bit 4 n)) = (word_of_int (8 * of_bool (bit n 3) + (4 * of_bool (bit n 2) + (2 * of_bool (bit n 1) + of_bool (bit n 0)))) :: 64 word)"
    by simp
  then show ?thesis by simp
qed

lemma navi_immediate_type_total:
  assumes "n AND 1 = 0" and "n AND 2 \<noteq> 0"
  shows "navi_immediate_type n \<noteq> None"
proof -
  have "take_bit 4 n = 8 * of_bool (bit n 3) + (4 * of_bool (bit n 2) + 2)"
    using assms and_1_bit [of n] and_2_bit [of n] take_bit_4_bits [of n] by simp
  then show ?thesis
    unfolding navi_immediate_type_def NAVI_IMMEDIATE_TAG_MASK_def and_F
    by (cases "bit n 3"; cases "bit n 2") (simp_all add: tag_defs)
qed

lemma type_dispatch_refines:
  assumes "addressable obj" and "navi_type obj st k = (Inr t, st')"
  shows "navi_type_word (\<lambda>w. type_in st (word_obj w)) (obj_word obj) = Some t"
proof (cases obj)
  case VoidO
  with assms(2) show ?thesis by (simp add: navi_type_word_def obj_word_def tag_defs)
next
  case (Fixnum w)
  have "bit (word_make_fixnum (ucast w)) 0" by (rule low_fix)
  moreover from this have "word_make_fixnum (ucast w) \<noteq> 0" by auto
  ultimately show ?thesis using assms(2) Fixnum
    by (simp add: navi_type_word_def obj_word_def and_1_bit)
next
  case (Ref a)
  have low: "take_bit 4 (word_of_nat (16 * Suc a) :: 64 word) = 0" by (rule low_ref)
  have "unat (word_of_nat (16 * Suc a) :: 64 word) = 16 * Suc a"
    using assms by (intro high_ref) (simp add: Ref addressable_def)
  then have "(word_of_nat (16 * Suc a) :: 64 word) \<noteq> 0" by auto
  moreover have "word_obj (word_of_nat (16 * Suc a)) = Ref a"
    using word_obj_obj_word [OF assms(1)] by (simp add: Ref obj_word_def)
  moreover have "type_in st (Ref a) = t"
    using assms(2) by (auto simp: Ref navi_type_def deref_def type_in_def split: option.splits)
  ultimately show ?thesis using low_bits [OF low]
    unfolding Ref navi_type_word_def obj_word_def navi_obj.case and_1_bit and_2_bit by simp
qed (use assms(2) low_bool low_char in \<open>auto simp: obj_word_def navi_type_word_tag navi_immediate_type_tag tag_defs\<close>)

text \<open>The C constructors and accessors of immediates are the model's, on the representation.\<close>

lemma word_make_fixnum_obj: "word_make_fixnum (word_of_int k) = obj_word (navi_make_fixnum k)"
  unfolding word_make_fixnum_def or_one_even navi_make_fixnum_def obj_word_fixnum by simp

lemma word_fixnum_obj: "word_fixnum (obj_word (Fixnum w)) = word_of_int (sint w)"
  by (metis navi_fixnum_unfix_def navi_fixnum_unfix_fixnum word_fixnum_def)

lemma word_bool_obj: "word_bool (obj_word (BoolO b)) = of_bool b"
  by (cases b) (simp_all add: word_bool_def obj_word_def word_make_bool_def tag_defs)

lemma not_bit_6: "\<not> bit (6 :: int) (4 + n)"
  using bit_drop_bit_eq [of 4 "6 :: int"] by (simp add: fun_eq_iff)

lemma word_char_obj: "word_char (obj_word (CharO c)) = word_of_int (sint c)"
proof -
  have "word_char (obj_word (CharO c)) = signed c"
    unfolding word_char_def obj_word_def word_make_char_def navi_obj.case
    by (rule bit_word_eqI) (auto simp: tag_defs bit_simps not_bit_6)
  then show ?thesis by simp
qed

end
