(* ===== verification/Navi_Loop.thy ===== *)
theory Navi_Loop
  imports Navi_Word
begin

text \<open>
  The loop macros of \<open>navi.h\<close>: \<open>navi_list_for_each\<close> walks a chain of pairs,
  \<open>navi_list_for_each_zipped\<close> two chains at once.  A body returns \<open>Continue\<close> with the values
  of the local variables it assigns, or \<open>Return\<close> when it leaves the loop; the loop gives back
  the cursor it stopped at, as the C code reads the cursor after the loop.  A loop takes at most
  as many rounds as the budget: the rules below show that a chain that ends needs one more than
  its length, and that on a chain that never ends every budget runs out.
\<close>

section \<open>The loops\<close>

datatype ('r, 'v) ctl = Continue 'v | Return 'r

primrec for_each_loop ::
  "nat \<Rightarrow> (navi_obj \<Rightarrow> 'v \<Rightarrow> ('r, 'v) ctl nm) \<Rightarrow> navi_obj \<Rightarrow> 'v \<Rightarrow> (navi_obj \<times> ('r, 'v) ctl) nm" where
  "for_each_loop 0 body cons v = stop NoFuel"
| "for_each_loop (Suc k) body cons v =
     bind (navi_type cons) (\<lambda>t.
     if t \<noteq> NAVI_PAIR then ret (cons, Continue v)
     else bind (body cons v) (\<lambda>c. case c of
            Return r \<Rightarrow> ret (cons, Return r)
          | Continue v' \<Rightarrow> bind (navi_cdr cons) (\<lambda>next. for_each_loop k body next v')))"

definition navi_list_for_each ::
  "navi_obj \<Rightarrow> 'v \<Rightarrow> (navi_obj \<Rightarrow> 'v \<Rightarrow> ('r, 'v) ctl nm) \<Rightarrow> (navi_obj \<times> ('r, 'v) ctl) nm" where
  "navi_list_for_each head v body = (\<lambda>st n. for_each_loop n body head v st n)"

primrec zipped_loop ::
  "nat \<Rightarrow> (navi_obj \<Rightarrow> navi_obj \<Rightarrow> ('r, unit) ctl nm) \<Rightarrow> navi_obj \<Rightarrow> navi_obj
     \<Rightarrow> ((navi_obj \<times> navi_obj) \<times> ('r, unit) ctl) nm" where
  "zipped_loop 0 body a b = stop NoFuel"
| "zipped_loop (Suc k) body a b =
     bind (navi_type a) (\<lambda>ta.
     if ta \<noteq> NAVI_PAIR then ret ((a, b), Continue ())
     else bind (navi_type b) (\<lambda>tb.
     if tb \<noteq> NAVI_PAIR then ret ((a, b), Continue ())
     else bind (body a b) (\<lambda>c. case c of
            Return r \<Rightarrow> ret ((a, b), Return r)
          | Continue _ \<Rightarrow> bind (navi_cdr a) (\<lambda>a'. bind (navi_cdr b) (\<lambda>b'.
              zipped_loop k body a' b')))))"

definition navi_list_for_each_zipped ::
  "navi_obj \<Rightarrow> navi_obj \<Rightarrow> (navi_obj \<Rightarrow> navi_obj \<Rightarrow> ('r, unit) ctl nm)
     \<Rightarrow> ((navi_obj \<times> navi_obj) \<times> ('r, unit) ctl) nm" where
  "navi_list_for_each_zipped head_a head_b body = (\<lambda>st n. zipped_loop n body head_a head_b st n)"

text \<open>The value a loop's early return gives, or what the code after the loop computes.\<close>

definition after_loop ::
  "(navi_obj \<times> ('r, 'v) ctl) nm \<Rightarrow> (navi_obj \<Rightarrow> 'v \<Rightarrow> 'r nm) \<Rightarrow> 'r nm" where
  "after_loop loop f = bind loop (\<lambda>(cons, c). case c of Return r \<Rightarrow> ret r | Continue v \<Rightarrow> f cons v)"

lemma after_loop_Continue:
  "loop s n = (Inr (t, Continue v), s') \<Longrightarrow> after_loop loop f s n = f t v s' n"
  by (simp add: after_loop_def)

lemma after_loop_Return: "loop s n = (Inr (t, Return r), s') \<Longrightarrow> after_loop loop f s n = (Inr r, s')"
  by (simp add: after_loop_def)

lemma after_loop_Inl: "loop s n = (Inl x, s') \<Longrightarrow> after_loop loop f s n = (Inl x, s')"
  by (simp add: after_loop_def)

lemmas after_loop_run = after_loop_Continue after_loop_Return after_loop_Inl

section \<open>Loops that keep the chain\<close>

text \<open>
  \<open>hkeep s0 s\<close>: every object of \<open>s0\<close> is in \<open>s\<close>, unchanged.  A body that only reads, allocates
  or writes what was allocated after \<open>s0\<close> keeps it.
\<close>

definition hkeep :: "state \<Rightarrow> state \<Rightarrow> bool" where
  "hkeep s0 s \<longleftrightarrow> (\<forall>a ob. heap s0 a = Some ob \<longrightarrow> heap s a = Some ob)"

lemma hkeep_refl [simp]: "hkeep s s"
  by (simp add: hkeep_def)

lemma hkeep_trans: "hkeep a b \<Longrightarrow> hkeep b c \<Longrightarrow> hkeep a c"
  by (simp add: hkeep_def)

lemma hkeepD: "hkeep s0 s \<Longrightarrow> heap s0 a = Some ob \<Longrightarrow> heap s a = Some ob"
  by (simp add: hkeep_def)

lemma hkeep_alloc: "wf_heap s \<Longrightarrow> hkeep s (alloc_st t d s)"
  by (auto simp: hkeep_def intro: heap_alloc_keep)

lemma hkeep_same_below: "wf_heap s \<Longrightarrow> same_below s s' \<Longrightarrow> hkeep s s'"
  by (auto simp: hkeep_def intro: heap_same_below_keep)

lemma list_at_hkeep: "hkeep s0 s \<Longrightarrow> list_at s0 p xs t \<Longrightarrow> list_at s p xs t"
  by (erule list_at_frame) (auto dest: hkeepD)

lemma valid_obj_hkeep: "hkeep s0 s \<Longrightarrow> valid_obj s0 x \<Longrightarrow> valid_obj s x"
  by (fastforce simp: valid_obj_def dest: hkeepD)

lemma for_each_loop_rule:
  assumes "list_at s0 p xs t" and "length xs < k" and "I 0 v s" and "hkeep s0 s"
    and "\<And>i v s a d. i < length xs \<Longrightarrow> I i v s \<Longrightarrow> hkeep s0 s \<Longrightarrow> pair_at s0 a (xs ! i) d \<Longrightarrow>
      pair_at s a (xs ! i) d \<Longrightarrow> list_at s0 d (drop (Suc i) xs) t \<Longrightarrow>
      \<exists>v' s'. body (Ref a) v s n = (Inr (Continue v'), s') \<and> I (Suc i) v' s' \<and> hkeep s0 s'"
  shows "\<exists>v' s'. for_each_loop k body p v s n = (Inr (t, Continue v'), s') \<and> I (length xs) v' s' \<and> hkeep s0 s'"
  using assms
proof (induction xs arbitrary: I p v s k)
  case Nil
  then obtain k' where k: "k = Suc k'" by (cases k) auto
  from Nil have "list_at s p [] t" by (blast intro: list_at_hkeep)
  then have "navi_type p s n = (Inr (type_in s p), s)" "type_in s p \<noteq> NAVI_PAIR" "p = t"
    by (auto simp: navi_type_valid is_pair_at_type_in)
  with Nil show ?case by (simp add: k bind_run)
next
  case (Cons x xs)
  then obtain k' where k: "k = Suc k'" by (cases k) auto
  from Cons.prems(1) obtain a d where a: "p = Ref a" "pair_at s0 a x d" "list_at s0 d xs t" by auto
  then have p: "pair_at s a x d" using Cons.prems(4) by (simp add: hkeepD)
  then obtain v1 s1 where one: "body (Ref a) v s n = (Inr (Continue v1), s1)" "I 1 v1 s1" "hkeep s0 s1"
    using Cons.prems(5) [of 0 v s a d] Cons.prems(3,4) a by auto
  have "pair_at s1 a x d" using one(3) a(2) by (simp add: hkeepD)
  then have cdr: "navi_cdr (Ref a) s1 n = (Inr d, s1)" by simp
  have step: "\<exists>v' s'. body (Ref b) v s n = (Inr (Continue v'), s') \<and> I (Suc (Suc i)) v' s' \<and> hkeep s0 s'"
    if "i < length xs" "I (Suc i) v s" "hkeep s0 s" "pair_at s0 b (xs ! i) d" "pair_at s b (xs ! i) d"
      "list_at s0 d (drop (Suc i) xs) t" for i v s b d
    using Cons.prems(5) [of "Suc i" v s b d] that by simp
  have "\<exists>v' s'. for_each_loop k' body d v1 s1 n = (Inr (t, Continue v'), s') \<and>
      I (Suc (length xs)) v' s' \<and> hkeep s0 s'"
    using Cons.IH [of d k' "\<lambda>i. I (Suc i)" v1 s1] a(3) Cons.prems(2) k one(2,3) step by simp
  then show ?case using p one(1) cdr by (simp add: k a(1) bind_run)
qed

lemma for_each_rule:
  assumes "list_at s0 p xs t" and "length xs < n" and "I 0 v s" and "hkeep s0 s"
    and "\<And>i v s a d. i < length xs \<Longrightarrow> I i v s \<Longrightarrow> hkeep s0 s \<Longrightarrow> pair_at s0 a (xs ! i) d \<Longrightarrow>
      pair_at s a (xs ! i) d \<Longrightarrow> list_at s0 d (drop (Suc i) xs) t \<Longrightarrow>
      \<exists>v' s'. body (Ref a) v s n = (Inr (Continue v'), s') \<and> I (Suc i) v' s' \<and> hkeep s0 s'"
  shows "\<exists>v' s'. navi_list_for_each p v body s n = (Inr (t, Continue v'), s') \<and>
    I (length xs) v' s' \<and> hkeep s0 s'"
  using for_each_loop_rule [of s0 p xs t n I v s body n] assms unfolding navi_list_for_each_def by blast

text \<open>Loops whose body changes nothing and computes its locals from the element.\<close>

lemma for_each_fold:
  assumes "list_at s p xs t" and "length xs < n"
    and "\<And>v a y d. y \<in> set xs \<Longrightarrow> pair_at s a y d \<Longrightarrow> body (Ref a) v s n = (Inr (Continue (f y v)), s)"
  shows "navi_list_for_each p v body s n = (Inr (t, Continue (fold f xs v)), s)"
proof -
  have "\<exists>v' s'. navi_list_for_each p v body s n = (Inr (t, Continue v'), s') \<and>
    (v' = fold f (take (length xs) xs) v \<and> s' = s) \<and> hkeep s s'"
    by (rule for_each_rule [where I = "\<lambda>i w s'. w = fold f (take i xs) v \<and> s' = s"])
      (use assms in \<open>auto simp: take_Suc_conv_app_nth\<close>)
  then show ?thesis by auto
qed

lemma for_each_none:
  assumes "list_at s p xs t" and "length xs < n"
    and "\<And>a y d. y \<in> set xs \<Longrightarrow> pair_at s a y d \<Longrightarrow> body (Ref a) v s n = (Inr (Continue v), s)"
  shows "navi_list_for_each p v body s n = (Inr (t, Continue v), s)"
proof -
  have "\<exists>v' s'. navi_list_for_each p v body s n = (Inr (t, Continue v'), s') \<and>
    (v' = v \<and> s' = s) \<and> hkeep s s'"
    by (rule for_each_rule [where I = "\<lambda>i w s'. w = v \<and> s' = s"]) (use assms in \<open>auto dest: nth_mem\<close>)
  then show ?thesis by auto
qed

lemma for_each_loop_found:
  assumes "list_at s p (us @ y # ws) t" and "length us < k"
    and "\<And>a u d. u \<in> set us \<Longrightarrow> pair_at s a u d \<Longrightarrow> body (Ref a) v s n = (Inr (Continue v), s)"
    and "\<And>a d. pair_at s a y d \<Longrightarrow> body (Ref a) v s n = (out a, s)"
    and "\<And>a. \<exists>r. out a = Inr (Return r) \<or> (\<exists>x. out a = Inl x)"
  shows "\<exists>a d. pair_at s a y d \<and> list_at s (Ref a) (y # ws) t \<and>
    for_each_loop k body p v s n = (case out a of Inl x \<Rightarrow> Inl x | Inr c \<Rightarrow> Inr (Ref a, c), s)"
  using assms(1-3)
proof (induction us arbitrary: p k)
  case Nil
  then obtain k' where k: "k = Suc k'" by (cases k) auto
  from Nil obtain a d where a: "p = Ref a" "pair_at s a y d" "list_at s d ws t" by auto
  from a assms(4,5) [of a] have
    "for_each_loop k body p v s n = (case out a of Inl x \<Rightarrow> Inl x | Inr c \<Rightarrow> Inr (Ref a, c), s)"
    by (auto simp: k bind_run split: sum.splits ctl.splits)
  with a show ?case by auto
next
  case (Cons u us)
  then obtain k' where k: "k = Suc k'" by (cases k) auto
  from Cons.prems obtain a d where a: "p = Ref a" "pair_at s a u d" "list_at s d (us @ y # ws) t" by auto
  have "\<exists>b d'. pair_at s b y d' \<and> list_at s (Ref b) (y # ws) t \<and>
    for_each_loop k' body d v s n = (case out b of Inl x \<Rightarrow> Inl x | Inr c \<Rightarrow> Inr (Ref b, c), s)"
  proof (rule Cons.IH [OF a(3)])
    show "length us < k'" using Cons.prems(2) k by simp
    show "body (Ref a) v s n = (Inr (Continue v), s)" if "w \<in> set us" "pair_at s a w d" for a w d
      using Cons.prems(3) [of w a d] that by simp
  qed
  moreover have "body (Ref a) v s n = (Inr (Continue v), s)"
    by (rule Cons.prems(3) [OF _ a(2)]) simp
  ultimately show ?case using a by (simp add: k bind_run)
qed

lemma for_each_found:
  assumes "list_at s p (us @ y # ws) t" and "length us < n"
    and "\<And>a u d. u \<in> set us \<Longrightarrow> pair_at s a u d \<Longrightarrow> body (Ref a) v s n = (Inr (Continue v), s)"
    and "\<And>a d. pair_at s a y d \<Longrightarrow> body (Ref a) v s n = (Inr (Return (f a)), s)"
  shows "\<exists>a d. pair_at s a y d \<and> list_at s (Ref a) (y # ws) t \<and>
    navi_list_for_each p v body s n = (Inr (Ref a, Return (f a)), s)"
  using for_each_loop_found [of s p us y ws t n body v n "\<lambda>a. Inr (Return (f a))"] assms
  unfolding navi_list_for_each_def by auto

lemma for_each_error:
  assumes "list_at s p (us @ y # ws) t" and "length us < n"
    and "\<And>a u d. u \<in> set us \<Longrightarrow> pair_at s a u d \<Longrightarrow> body (Ref a) v s n = (Inr (Continue v), s)"
    and "\<And>a d. pair_at s a y d \<Longrightarrow> body (Ref a) v s n = (Inl x, s)"
  shows "navi_list_for_each p v body s n = (Inl x, s)"
  using for_each_loop_found [of s p us y ws t n body v n "\<lambda>a. Inl x"] assms
  unfolding navi_list_for_each_def by auto

text \<open>A loop that leaves at a given element, after rounds that may change the state.\<close>

lemma for_each_loop_until:
  assumes "list_at s0 p (us @ y # ws) t" and "length us < k" and "I 0 v s" and "hkeep s0 s"
    and "\<And>i v s a d. i < length us \<Longrightarrow> I i v s \<Longrightarrow> hkeep s0 s \<Longrightarrow> pair_at s a (us ! i) d \<Longrightarrow>
      list_at s0 d (drop (Suc i) us @ y # ws) t \<Longrightarrow>
      \<exists>v' s'. body (Ref a) v s n = (Inr (Continue v'), s') \<and> I (Suc i) v' s' \<and> hkeep s0 s'"
    and "\<And>v s a d. I (length us) v s \<Longrightarrow> hkeep s0 s \<Longrightarrow> pair_at s a y d \<Longrightarrow> list_at s0 d ws t \<Longrightarrow>
      \<exists>r s'. body (Ref a) v s n = (Inr (Return r), s') \<and> Q r s'"
  shows "\<exists>a r s'. for_each_loop k body p v s n = (Inr (Ref a, Return r), s') \<and> Q r s'"
  using assms
proof (induction us arbitrary: I p v s k)
  case Nil
  then obtain k' where k: "k = Suc k'" by (cases k) auto
  from Nil.prems(1) obtain a d where a: "p = Ref a" "pair_at s0 a y d" "list_at s0 d ws t" by auto
  then have p: "pair_at s a y d" using Nil.prems(4) by (simp add: hkeepD)
  obtain r s' where "body (Ref a) v s n = (Inr (Return r), s')" "Q r s'"
    using Nil.prems(6) [of v s a d] Nil.prems(3,4) p a(3) by auto
  then show ?case using p by (auto simp: k a(1) bind_run)
next
  case (Cons u us)
  then obtain k' where k: "k = Suc k'" by (cases k) auto
  from Cons.prems(1) obtain a d where a: "p = Ref a" "pair_at s0 a u d" "list_at s0 d (us @ y # ws) t" by auto
  then have p: "pair_at s a u d" using Cons.prems(4) by (simp add: hkeepD)
  then obtain v1 s1 where one: "body (Ref a) v s n = (Inr (Continue v1), s1)" "I 1 v1 s1" "hkeep s0 s1"
    using Cons.prems(5) [of 0 v s a d] Cons.prems(3,4) a by auto
  have "pair_at s1 a u d" using one(3) a(2) by (simp add: hkeepD)
  then have cdr: "navi_cdr (Ref a) s1 n = (Inr d, s1)" by simp
  have step: "\<exists>v' s'. body (Ref b) v s n = (Inr (Continue v'), s') \<and> I (Suc (Suc i)) v' s' \<and> hkeep s0 s'"
    if "i < length us" "I (Suc i) v s" "hkeep s0 s" "pair_at s b (us ! i) d"
      "list_at s0 d (drop (Suc i) us @ y # ws) t" for i v s b d
    using Cons.prems(5) [of "Suc i" v s b d] that by simp
  have "\<exists>b r s'. for_each_loop k' body d v1 s1 n = (Inr (Ref b, Return r), s') \<and> Q r s'"
    using Cons.IH [of d k' "\<lambda>i. I (Suc i)" v1 s1] a(3) Cons.prems(2,6) k one(2,3) step by simp
  then show ?case using p one(1) cdr by (simp add: k a(1) bind_run)
qed

lemma for_each_until:
  assumes "list_at s0 p (us @ y # ws) t" and "length us < n" and "I 0 v s" and "hkeep s0 s"
    and "\<And>i v s a d. i < length us \<Longrightarrow> I i v s \<Longrightarrow> hkeep s0 s \<Longrightarrow> pair_at s a (us ! i) d \<Longrightarrow>
      list_at s0 d (drop (Suc i) us @ y # ws) t \<Longrightarrow>
      \<exists>v' s'. body (Ref a) v s n = (Inr (Continue v'), s') \<and> I (Suc i) v' s' \<and> hkeep s0 s'"
    and "\<And>v s a d. I (length us) v s \<Longrightarrow> hkeep s0 s \<Longrightarrow> pair_at s a y d \<Longrightarrow> list_at s0 d ws t \<Longrightarrow>
      \<exists>r s'. body (Ref a) v s n = (Inr (Return r), s') \<and> Q r s'"
  shows "\<exists>a r s'. navi_list_for_each p v body s n = (Inr (Ref a, Return r), s') \<and> Q r s'"
  using for_each_loop_until [of s0 p us y ws t n I v s body n Q] assms
  unfolding navi_list_for_each_def by blast

text \<open>The same rules for a loop followed by the code after it.\<close>

lemma after_for_each_fold:
  assumes "list_at s p xs t" and "length xs < n"
    and "\<And>v a y d. y \<in> set xs \<Longrightarrow> pair_at s a y d \<Longrightarrow> body (Ref a) v s n = (Inr (Continue (g y v)), s)"
  shows "after_loop (navi_list_for_each p v body) f s n = f t (fold g xs v) s n"
  by (rule after_loop_Continue, rule for_each_fold) (use assms in auto)

lemma after_for_each_rule:
  assumes "list_at s0 p xs t" and "length xs < n" and "I 0 v s" and "hkeep s0 s"
    and "\<And>i v s a d. i < length xs \<Longrightarrow> I i v s \<Longrightarrow> hkeep s0 s \<Longrightarrow> pair_at s0 a (xs ! i) d \<Longrightarrow>
      pair_at s a (xs ! i) d \<Longrightarrow> list_at s0 d (drop (Suc i) xs) t \<Longrightarrow>
      \<exists>v' s'. body (Ref a) v s n = (Inr (Continue v'), s') \<and> I (Suc i) v' s' \<and> hkeep s0 s'"
  shows "\<exists>v' s'. after_loop (navi_list_for_each p v body) f s n = f t v' s' n \<and>
    I (length xs) v' s' \<and> hkeep s0 s'"
proof -
  obtain v' s' where "navi_list_for_each p v body s n = (Inr (t, Continue v'), s')" "I (length xs) v' s'"
      "hkeep s0 s'"
    using for_each_rule [of s0 p xs t n I v s body] assms by blast
  then show ?thesis by (blast intro: after_loop_Continue)
qed

lemma after_for_each_none:
  assumes "list_at s p xs t" and "length xs < n"
    and "\<And>a y d. y \<in> set xs \<Longrightarrow> pair_at s a y d \<Longrightarrow> body (Ref a) v s n = (Inr (Continue v), s)"
  shows "after_loop (navi_list_for_each p v body) f s n = f t v s n"
  by (rule after_loop_Continue, rule for_each_none) (use assms in auto)

lemma after_for_each_found:
  assumes "list_at s p (us @ y # ws) t" and "length us < n"
    and "\<And>a u d. u \<in> set us \<Longrightarrow> pair_at s a u d \<Longrightarrow> body (Ref a) v s n = (Inr (Continue v), s)"
    and "\<And>a d. pair_at s a y d \<Longrightarrow> body (Ref a) v s n = (Inr (Return (g a)), s)"
  shows "\<exists>a d. pair_at s a y d \<and> list_at s (Ref a) (y # ws) t \<and>
    after_loop (navi_list_for_each p v body) f s n = (Inr (g a), s)"
proof -
  obtain a d where a: "pair_at s a y d" "list_at s (Ref a) (y # ws) t"
      "navi_list_for_each p v body s n = (Inr (Ref a, Return (g a)), s)"
    using for_each_found [of s p us y ws t n body v g] assms by blast
  from a(3) have "after_loop (navi_list_for_each p v body) f s n = (Inr (g a), s)"
    by (rule after_loop_Return)
  with a(1,2) show ?thesis by blast
qed

lemma after_for_each_error:
  assumes "list_at s p (us @ y # ws) t" and "length us < n"
    and "\<And>a u d. u \<in> set us \<Longrightarrow> pair_at s a u d \<Longrightarrow> body (Ref a) v s n = (Inr (Continue v), s)"
    and "\<And>a d. pair_at s a y d \<Longrightarrow> body (Ref a) v s n = (Inl x, s)"
  shows "after_loop (navi_list_for_each p v body) f s n = (Inl x, s)"
  by (rule after_loop_Inl, rule for_each_error) (use assms in auto)

section \<open>Chains that never end\<close>

text \<open>A chain whose tail is a pair for ever: every cell leads to another one.\<close>

coinductive circular :: "state \<Rightarrow> navi_obj \<Rightarrow> bool" where
  step: "pair_at st a x d \<Longrightarrow> circular st d \<Longrightarrow> circular st (Ref a)"

lemma for_each_loop_circular:
  assumes "circular s p"
    and "\<And>v a x d. pair_at s a x d \<Longrightarrow> \<exists>v'. body (Ref a) v s n = (Inr (Continue v'), s)"
  shows "for_each_loop k body p v s n = (Inl NoFuel, s)"
  using assms(1)
proof (induction k arbitrary: p v)
  case 0
  then show ?case by simp
next
  case (Suc k)
  from Suc.prems obtain a x d where a: "p = Ref a" "pair_at s a x d" "circular s d"
    by (auto elim: circular.cases)
  with assms(2) [OF a(2), of v] show ?case by (auto simp: bind_run Suc.IH)
qed

lemma after_for_each_circular:
  assumes "circular s p"
    and "\<And>v a x d. pair_at s a x d \<Longrightarrow> \<exists>v'. body (Ref a) v s n = (Inr (Continue v'), s)"
  shows "after_loop (navi_list_for_each p v body) f s n = (Inl NoFuel, s)"
  unfolding navi_list_for_each_def
  by (rule after_loop_Inl, rule for_each_loop_circular) (use assms in auto)

lemma circular_or_list:
  assumes "wf_heap s" and "valid_obj s p" and "\<nexists>xs t. list_at s p xs t"
  shows "circular s p"
  using assms(2,3)
proof (coinduction arbitrary: p)
  case circular
  have "is_pair_at s p"
    using circular by (auto dest: spec [of _ "[]"])
  then obtain a u v where a: "p = Ref a" "pair_at s a u v"
    using type_in_pair [OF assms(1), of p] unfolding is_pair_at_type_in by blast
  then have "valid_obj s v" using assms(1) by (auto dest: wf_heapD(3))
  moreover have "\<nexists>xs t. list_at s v xs t"
  proof
    assume "\<exists>xs t. list_at s v xs t"
    then obtain xs t where "list_at s v xs t" by blast
    then have "list_at s p (u # xs) t" using a by auto
    with circular show False by blast
  qed
  ultimately show ?case using a by auto
qed

lemma list_not_circular: "list_at s p xs t \<Longrightarrow> \<not> circular s p"
proof (induction xs arbitrary: p)
  case Nil
  then show ?case by (auto simp: is_pair_at_def elim: circular.cases)
next
  case (Cons x xs)
  then show ?case by (auto elim: circular.cases)
qed

end
