(* ===== verification/Navi_Equal.thy ===== *)
theory Navi_Equal
  imports Navi_Loop
begin

text \<open>
  Equivalence (\<open>heap.c\<close>: \<open>navi_eqvp\<close>, \<open>navi_equalp\<close> and the comparisons of pairs, vectors and
  bytevectors; \<open>string.c\<close>: \<open>navi_string_equal\<close>).  The datum a value stands for is defined
  inductively and \<open>equal?\<close> is shown to decide equality of data, with the depth of recursion
  it needs.
\<close>

section \<open>The code\<close>

definition navi_eqvp :: "navi_obj \<Rightarrow> navi_obj \<Rightarrow> bool nm" where
  "navi_eqvp lhs rhs =
     bind (navi_type lhs) (\<lambda>tf.
     bind (navi_type rhs) (\<lambda>ts.
     if tf \<noteq> ts then ret False
     else case tf of
         NAVI_VOID \<Rightarrow> ret True
       | NAVI_NIL \<Rightarrow> ret True
       | NAVI_EOF \<Rightarrow> ret True
       | NAVI_FIXNUM \<Rightarrow> bind (navi_fixnum lhs) (\<lambda>a. bind (navi_fixnum rhs) (\<lambda>b. ret (a = b)))
       | NAVI_BOOL \<Rightarrow> bind (navi_bool lhs) (\<lambda>a. bind (navi_bool rhs) (\<lambda>b. ret (if a then b else \<not> b)))
       | NAVI_CHAR \<Rightarrow> bind (navi_char lhs) (\<lambda>a. bind (navi_char rhs) (\<lambda>b. ret (a = b)))
       | NAVI_TRAP \<Rightarrow> stop (Die ''trap!'')
       | _ \<Rightarrow> ret (lhs = rhs)))"

text \<open>A byte or an element that was never written has no value.\<close>

definition init :: "'a option \<Rightarrow> 'a nm" where
  "init x = (case x of None \<Rightarrow> stop Undef | Some v \<Rightarrow> ret v)"

definition nth_init :: "'a option list \<Rightarrow> nat \<Rightarrow> 'a nm" where
  "nth_init xs i = (if i < length xs then init (xs ! i) else stop Undef)"

text \<open>Comparing two arrays up to a length, index by index, stopping at the first difference.\<close>

primrec array_equal ::
  "('a \<Rightarrow> 'a \<Rightarrow> bool nm) \<Rightarrow> nat list \<Rightarrow> 'a option list \<Rightarrow> 'a option list \<Rightarrow> bool nm" where
  "array_equal eq [] a b = ret True"
| "array_equal eq (i # is) a b =
     bind (nth_init a i) (\<lambda>x.
     bind (nth_init b i) (\<lambda>y.
     bind (eq x y) (\<lambda>e.
     if \<not> e then ret False else array_equal eq is a b)))"

definition byte_equal :: "byte \<Rightarrow> byte \<Rightarrow> bool nm" where
  "byte_equal x y = ret (x = y)"

definition navi_string_equal :: "navi_obj \<Rightarrow> navi_obj \<Rightarrow> bool nm" where
  "navi_string_equal a b =
     bind (navi_string a) (\<lambda>sa.
     bind (navi_string b) (\<lambda>sb.
     if s_size sa \<noteq> s_size sb \<or> s_length sa \<noteq> s_length sb then ret False
     else array_equal byte_equal [0..<s_size sa] (s_data sa) (s_data sb)))"

definition list_equal :: "(navi_obj \<Rightarrow> navi_obj \<Rightarrow> bool nm) \<Rightarrow> navi_obj \<Rightarrow> navi_obj \<Rightarrow> bool nm" where
  "list_equal equalp lhs rhs =
     bind (navi_list_for_each_zipped lhs rhs (\<lambda>cons_a cons_b.
       bind (navi_car cons_a) (\<lambda>x. bind (navi_car cons_b) (\<lambda>y.
       bind (equalp x y) (\<lambda>e. ret (if \<not> e then Return False else Continue ()))))))
     (\<lambda>((cons_a, cons_b), c). case c of
         Return r \<Rightarrow> ret r
       | Continue _ \<Rightarrow> bind (equalp cons_a cons_b) (\<lambda>e. if \<not> e then ret False else ret True))"

definition vector_equal :: "(navi_obj \<Rightarrow> navi_obj \<Rightarrow> bool nm) \<Rightarrow> navi_obj \<Rightarrow> navi_obj \<Rightarrow> bool nm" where
  "vector_equal equalp lhs rhs =
     bind (navi_vector lhs) (\<lambda>a.
     bind (navi_vector rhs) (\<lambda>b.
     if length a \<noteq> length b then ret False
     else array_equal equalp [0..<length a] a b))"

definition bytevec_equal :: "navi_obj \<Rightarrow> navi_obj \<Rightarrow> bool nm" where
  "bytevec_equal lhs rhs =
     bind (navi_bytevec lhs) (\<lambda>a.
     bind (navi_bytevec rhs) (\<lambda>b.
     if length a \<noteq> length b then ret False
     else array_equal byte_equal [0..<length a] a b))"

text \<open>One activation of \<open>navi_equalp\<close>, with the recursive calls as a parameter.\<close>

definition equalp_body :: "(navi_obj \<Rightarrow> navi_obj \<Rightarrow> bool nm) \<Rightarrow> navi_obj \<Rightarrow> navi_obj \<Rightarrow> bool nm" where
  "equalp_body equalp lhs rhs =
     bind (navi_type lhs) (\<lambda>tf.
     bind (navi_type rhs) (\<lambda>ts.
     if tf \<noteq> ts then ret False
     else case tf of
         NAVI_VOID \<Rightarrow> ret True
       | NAVI_NIL \<Rightarrow> ret True
       | NAVI_EOF \<Rightarrow> ret True
       | NAVI_FIXNUM \<Rightarrow> bind (navi_fixnum lhs) (\<lambda>a. bind (navi_fixnum rhs) (\<lambda>b. ret (a = b)))
       | NAVI_BOOL \<Rightarrow> bind (navi_bool lhs) (\<lambda>a. bind (navi_bool rhs) (\<lambda>b. ret (if a then b else \<not> b)))
       | NAVI_CHAR \<Rightarrow> bind (navi_char lhs) (\<lambda>a. bind (navi_char rhs) (\<lambda>b. ret (a = b)))
       | NAVI_PAIR \<Rightarrow> list_equal equalp lhs rhs
       | NAVI_VECTOR \<Rightarrow> vector_equal equalp lhs rhs
       | NAVI_STRING \<Rightarrow> navi_string_equal lhs rhs
       | NAVI_BYTEVEC \<Rightarrow> bytevec_equal lhs rhs
       | NAVI_TRAP \<Rightarrow> stop (Die ''trap!'')
       | _ \<Rightarrow> ret (lhs = rhs)))"

primrec equalp_depth :: "nat \<Rightarrow> navi_obj \<Rightarrow> navi_obj \<Rightarrow> bool nm" where
  "equalp_depth 0 lhs rhs = stop NoFuel"
| "equalp_depth (Suc k) lhs rhs = equalp_body (equalp_depth k) lhs rhs"

definition navi_equalp :: "navi_obj \<Rightarrow> navi_obj \<Rightarrow> bool nm" where
  "navi_equalp lhs rhs = (\<lambda>st n. equalp_depth n lhs rhs st n)"

definition scm_eqvp :: "nat \<Rightarrow> navi_obj \<Rightarrow> navi_env \<Rightarrow> navi_obj nm" where
  "scm_eqvp nr_args args env =
     bind (scm_arg1 args) (\<lambda>a. bind (scm_arg2 args) (\<lambda>b.
     bind (navi_eqvp a b) (\<lambda>e. ret (navi_make_bool e))))"

definition scm_eqp :: "nat \<Rightarrow> navi_obj \<Rightarrow> navi_env \<Rightarrow> navi_obj nm" where
  "scm_eqp nr_args args env =
     bind (scm_arg1 args) (\<lambda>a. bind (scm_arg2 args) (\<lambda>b.
     ret (navi_make_bool (navi_eqp a b))))"

definition scm_equalp :: "nat \<Rightarrow> navi_obj \<Rightarrow> navi_env \<Rightarrow> navi_obj nm" where
  "scm_equalp nr_args args env =
     bind (scm_arg1 args) (\<lambda>a. bind (scm_arg2 args) (\<lambda>b.
     bind (navi_equalp a b) (\<lambda>e. ret (navi_make_bool e))))"

section \<open>The data values stand for\<close>

datatype datum =
    DAtom navi_obj
  | DPair datum datum
  | DVector "datum list"
  | DString nat "byte list"
  | DBytevec "byte list"

inductive denotes :: "state \<Rightarrow> navi_obj \<Rightarrow> datum \<Rightarrow> bool" for st where
  atom: "valid_obj st x \<Longrightarrow>
    type_in st x \<notin> {NAVI_PAIR, NAVI_VECTOR, NAVI_STRING, NAVI_BYTEVEC, NAVI_TRAP} \<Longrightarrow>
    denotes st x (DAtom x)"
| pair: "pair_at st a x y \<Longrightarrow> denotes st x d \<Longrightarrow> denotes st y e \<Longrightarrow> denotes st (Ref a) (DPair d e)"
| vector: "vector_at st a (map Some xs) \<Longrightarrow> list_all2 (denotes st) xs ds \<Longrightarrow>
    denotes st (Ref a) (DVector ds)"
| str: "string_at st a s \<Longrightarrow> s_size s \<le> length (s_data s) \<Longrightarrow>
    take (s_size s) (s_data s) = map Some bs \<Longrightarrow> denotes st (Ref a) (DString (s_length s) bs)"
| bytevec: "bytevec_at st a (map Some bs) \<Longrightarrow> denotes st (Ref a) (DBytevec bs)"

inductive_cases denotes_DAtomE: "denotes st x (DAtom y)"
inductive_cases denotes_DPairE: "denotes st x (DPair d e)"
inductive_cases denotes_DVectorE: "denotes st x (DVector ds)"
inductive_cases denotes_DStringE: "denotes st x (DString l bs)"
inductive_cases denotes_DBytevecE: "denotes st x (DBytevec bs)"

lemmas denotesEs = denotes_DAtomE denotes_DPairE denotes_DVectorE denotes_DStringE denotes_DBytevecE

section \<open>Correctness\<close>

lemma type_in_heap_not_imm:
  assumes "wf_heap st" and "heap st a = Some ob"
  shows "obj_type ob \<notin> {NAVI_VOID, NAVI_NIL, NAVI_EOF, NAVI_FIXNUM, NAVI_BOOL, NAVI_CHAR, NAVI_TRAP}"
  using wf_heapD(2) [OF assms] by (auto split: payload.splits)

lemma navi_eqvp_run:
  assumes "wf_heap st" and "valid_obj st x" and "valid_obj st y"
  shows "navi_eqvp x y st n = (Inr (x = y), st)"
proof (cases "\<exists>a b. x = Ref a \<and> y = Ref b")
  case True
  then obtain a b o1 o2 where ab: "x = Ref a" "y = Ref b" "heap st a = Some o1" "heap st b = Some o2"
    using assms by auto
  then show ?thesis using type_in_heap_not_imm [OF assms(1) ab(3)]
    by (auto simp: navi_eqvp_def bind_run split: navi_type.splits)
next
  case False
  then show ?thesis using assms
    by (cases x; cases y) (auto simp: navi_eqvp_def bind_run dest: type_in_heap_not_imm signed_word_eqI split: navi_type.splits)
qed

lemma equalp_atom:
  assumes "wf_heap st" and "valid_obj st x" and "valid_obj st y"
    and "type_in st x \<notin> {NAVI_PAIR, NAVI_VECTOR, NAVI_STRING, NAVI_BYTEVEC, NAVI_TRAP}"
  shows "equalp_body eq x y st n = (Inr (x = y), st)"
proof (cases "\<exists>a b. x = Ref a \<and> y = Ref b")
  case True
  then obtain a b o1 o2 where ab: "x = Ref a" "y = Ref b" "heap st a = Some o1" "heap st b = Some o2"
    using assms by auto
  then show ?thesis using type_in_heap_not_imm [OF assms(1) ab(3)] assms(4)
    by (auto simp: equalp_body_def bind_run split: navi_type.splits)
next
  case False
  then show ?thesis using assms
    by (cases x; cases y) (auto simp: equalp_body_def bind_run dest: type_in_heap_not_imm signed_word_eqI split: navi_type.splits)
qed

lemma equalp_types:
  assumes "valid_obj st x" and "valid_obj st y" and "type_in st x \<noteq> type_in st y"
  shows "equalp_body eq x y st n = (Inr False, st)"
  using assms by (simp add: equalp_body_def bind_run navi_type_valid)

lemma equalp_dispatch:
  assumes "valid_obj st x" and "valid_obj st y"
  shows "type_in st x = NAVI_PAIR \<Longrightarrow> type_in st y = NAVI_PAIR \<Longrightarrow>
      equalp_body eq x y st n = list_equal eq x y st n"
    and "type_in st x = NAVI_VECTOR \<Longrightarrow> type_in st y = NAVI_VECTOR \<Longrightarrow>
      equalp_body eq x y st n = vector_equal eq x y st n"
    and "type_in st x = NAVI_STRING \<Longrightarrow> type_in st y = NAVI_STRING \<Longrightarrow>
      equalp_body eq x y st n = navi_string_equal x y st n"
    and "type_in st x = NAVI_BYTEVEC \<Longrightarrow> type_in st y = NAVI_BYTEVEC \<Longrightarrow>
      equalp_body eq x y st n = bytevec_equal x y st n"
  using assms by (simp_all add: equalp_body_def bind_run navi_type_valid)

lemma nth_equal: "length xs = length ys \<Longrightarrow> (\<forall>i \<in> set [0..<length xs]. xs ! i = ys ! i) \<longleftrightarrow> xs = ys"
  by (auto intro: nth_equalityI)

lemma array_equal_run:
  assumes "\<And>i. i \<in> set is \<Longrightarrow> i < length a \<and> i < length b \<and>
    (\<exists>x y. a ! i = Some x \<and> b ! i = Some y \<and> eq x y st n = (Inr (P i), st))"
  shows "array_equal eq is a b st n = (Inr (\<forall>i \<in> set is. P i), st)"
  using assms
proof (induction "is")
  case Nil
  then show ?case by simp
next
  case (Cons i "is")
  from Cons.prems [of i] obtain x y where "i < length a" "i < length b" "a ! i = Some x" "b ! i = Some y"
    "eq x y st n = (Inr (P i), st)" by auto
  moreover have "array_equal eq is a b st n = (Inr (\<forall>i \<in> set is. P i), st)"
    using Cons by simp
  ultimately show ?case by (simp add: bind_run nth_init_def init_def)
qed

lemma denotes_valid: "denotes st x d \<Longrightarrow> valid_obj st x"
  by (cases rule: denotes.cases) auto

fun datum_type :: "state \<Rightarrow> datum \<Rightarrow> navi_type" where
  "datum_type st (DAtom x) = type_in st x"
| "datum_type st (DPair d e) = NAVI_PAIR"
| "datum_type st (DVector ds) = NAVI_VECTOR"
| "datum_type st (DString l bs) = NAVI_STRING"
| "datum_type st (DBytevec bs) = NAVI_BYTEVEC"

lemma denotes_type: "denotes st x d \<Longrightarrow> type_in st x = datum_type st d"
  by (cases rule: denotes.cases) auto

lemma chain_equal:
  assumes "wf_heap st"
    and eq: "\<And>d' x y e. size d' < size D \<Longrightarrow> denotes st x d' \<Longrightarrow> denotes st y e \<Longrightarrow>
      eq x y st n = (Inr (d' = e), st)"
    and "denotes st p d" and "denotes st q e" and "size d < j"
    and "size d < size D \<or> size d \<le> size D \<and> datum_type st d = NAVI_PAIR \<and> datum_type st e = NAVI_PAIR"
  shows "bind (zipped_loop j (\<lambda>cons_a cons_b.
       bind (navi_car cons_a) (\<lambda>x. bind (navi_car cons_b) (\<lambda>y.
       bind (eq x y) (\<lambda>e. ret (if \<not> e then Return False else Continue ()))))) p q)
     (\<lambda>((cons_a, cons_b), c). case c of
         Return r \<Rightarrow> ret r
       | Continue _ \<Rightarrow> bind (eq cons_a cons_b) (\<lambda>e. if \<not> e then ret False else ret True)) st n
     = (Inr (d = e), st)"
  using assms(3-6)
proof (induction j arbitrary: p q d e)
  case 0
  then show ?case by simp
next
  case (Suc j)
  note types = denotes_type [OF Suc.prems(1)] denotes_type [OF Suc.prems(2)]
  show ?case
  proof (cases "datum_type st d = NAVI_PAIR \<and> datum_type st e = NAVI_PAIR")
    case True
    then obtain d1 d2 e1 e2 where de: "d = DPair d1 d2" "e = DPair e1 e2"
      using Suc.prems(1,2) by (cases d; cases e) (auto elim: denotes_DAtomE)
    with Suc.prems obtain a x y b u v where
      a: "p = Ref a" "pair_at st a x y" "denotes st x d1" "denotes st y d2" and
      b: "q = Ref b" "pair_at st b u v" "denotes st u e1" "denotes st v e2"
      by (auto elim!: denotes_DPairE)
    have "eq x u st n = (Inr (d1 = e1), st)"
      using Suc.prems(4) de by (intro eq a b) auto
    moreover note Suc.IH [OF a(4) b(4)]
    ultimately show ?thesis
      using a b Suc.prems(3,4) de by (cases "d1 = e1") (auto simp: bind_run)
  next
    case False
    with Suc.prems(4) have "eq p q st n = (Inr (d = e), st)"
      by (intro eq Suc.prems) auto
    then show ?thesis
      using False types denotes_valid [OF Suc.prems(1)] denotes_valid [OF Suc.prems(2)]
      by (auto simp: bind_run navi_type_valid)
  qed
qed

lemma size_elem: "i < length ds \<Longrightarrow> size (ds ! i) < size (DVector ds)"
  by (simp add: less_Suc_eq_le size_list_estimation' [OF nth_mem])

text \<open>
  \<open>equal?\<close> on finite data: with a budget above the size of the first datum it returns whether
  the two data are equal, and leaves the state as it was.
\<close>

lemma equalp_depth_correct:
  assumes "wf_heap st"
  shows "denotes st x d \<Longrightarrow> denotes st y e \<Longrightarrow> size d < k \<Longrightarrow> size d < n \<Longrightarrow>
    equalp_depth k x y st n = (Inr (d = e), st)"
proof (induction k arbitrary: x y d e)
  case 0
  then show ?case by simp
next
  case (Suc k)
  note valid = denotes_valid [OF Suc.prems(1)] denotes_valid [OF Suc.prems(2)]
  note types = denotes_type [OF Suc.prems(1)] denotes_type [OF Suc.prems(2)]
  have IH: "equalp_depth k x y st n = (Inr (d' = e), st)"
    if "size d' < size d" "denotes st x d'" "denotes st y e" for d' x y e
    using Suc.IH [OF that(2,3)] that(1) Suc.prems(3,4) by simp
  show ?case
  proof (cases "datum_type st d = datum_type st e")
    case False
    then have "d \<noteq> e" by auto
    then show ?thesis using False valid types by (simp add: equalp_types)
  next
    case same: True
    show ?thesis
    proof (cases d)
      case (DAtom z)
      with Suc.prems(1) have z: "x = z"
        "type_in st z \<notin> {NAVI_PAIR, NAVI_VECTOR, NAVI_STRING, NAVI_BYTEVEC, NAVI_TRAP}"
        by (auto elim: denotes_DAtomE)
      with same DAtom have "e = DAtom y" using Suc.prems(2) by (cases e) (auto elim: denotes_DAtomE)
      with z show ?thesis using equalp_atom [OF assms valid] DAtom by simp
    next
      case (DPair d1 d2)
      have "list_equal (equalp_depth k) x y st n = (Inr (d = e), st)"
        unfolding list_equal_def navi_list_for_each_zipped_def
        using chain_equal [of st d "equalp_depth k" n x d y e n] assms IH Suc.prems same DPair
        by (simp add: bind_run)
      then show ?thesis using types same DPair by (simp add: equalp_dispatch(1) [OF valid])
    next
      case (DVector ds)
      with same have "\<exists>es. e = DVector es"
        using Suc.prems(2) by (cases e) (auto elim: denotes_DAtomE)
      then obtain es where es: "e = DVector es" ..
      from Suc.prems(1,2) DVector es obtain a xs b ys where
        a: "x = Ref a" "vector_at st a (map Some xs)" "list_all2 (denotes st) xs ds" and
        b: "y = Ref b" "vector_at st b (map Some ys)" "list_all2 (denotes st) ys es"
        by (auto elim!: denotes_DVectorE)
      then have len: "length xs = length ds" "length ys = length es" by (auto dest: list_all2_lengthD)
      have "array_equal (equalp_depth k) [0..<length ds] (map Some xs) (map Some ys) st n =
          (Inr (\<forall>i \<in> set [0..<length ds]. ds ! i = es ! i), st)" if "length ds = length es"
        by (rule array_equal_run)
          (use that len a b IH size_elem DVector in \<open>auto simp: list_all2_conv_all_nth\<close>)
      then have "vector_equal (equalp_depth k) x y st n = (Inr (d = e), st)"
        using a(1,2) b(1,2) len DVector es nth_equal [of ds es]
        by (cases "length ds = length es") (auto simp: vector_equal_def bind_run)
      then show ?thesis using types same DVector by (simp add: equalp_dispatch(2) [OF valid])
    next
      case (DString l bs)
      with same have "\<exists>l' cs. e = DString l' cs"
        using Suc.prems(2) by (cases e) (auto elim: denotes_DAtomE)
      then obtain l' cs where es: "e = DString l' cs" by blast
      from Suc.prems(1,2) DString es obtain a s b t where
        a: "x = Ref a" "string_at st a s" "s_size s \<le> length (s_data s)"
           "take (s_size s) (s_data s) = map Some bs" "l = s_length s" and
        b: "y = Ref b" "string_at st b t" "s_size t \<le> length (s_data t)"
           "take (s_size t) (s_data t) = map Some cs" "l' = s_length t"
        by (auto elim!: denotes_DStringE)
      have sz: "s_size s = length bs" "s_size t = length cs"
        using arg_cong [OF a(4), of length] arg_cong [OF b(4), of length] a(3) b(3) by auto
      have nth: "s_data s ! i = Some (bs ! i)" if "i < length bs" for i
        using arg_cong [OF a(4), of "\<lambda>l. l ! i"] that sz by simp
      have nth': "s_data t ! i = Some (cs ! i)" if "i < length cs" for i
        using arg_cong [OF b(4), of "\<lambda>l. l ! i"] that sz by simp
      have "array_equal byte_equal [0..<length bs] (s_data s) (s_data t) st n =
          (Inr (\<forall>i \<in> set [0..<length bs]. bs ! i = cs ! i), st)" if "length bs = length cs"
        by (rule array_equal_run)
          (use that sz a b nth nth' in \<open>auto simp: byte_equal_def\<close>)
      then have "navi_string_equal x y st n = (Inr (d = e), st)"
        using a(1,2,5) b(1,2,5) sz DString es nth_equal [of bs cs]
        by (cases "length bs = length cs") (auto simp: navi_string_equal_def bind_run)
      then show ?thesis using types same DString by (simp add: equalp_dispatch(3) [OF valid])
    next
      case (DBytevec bs)
      with same have "\<exists>cs. e = DBytevec cs"
        using Suc.prems(2) by (cases e) (auto elim: denotes_DAtomE)
      then obtain cs where es: "e = DBytevec cs" ..
      from Suc.prems(1,2) DBytevec es obtain a b where
        a: "x = Ref a" "bytevec_at st a (map Some bs)" and
        b: "y = Ref b" "bytevec_at st b (map Some cs)"
        by (auto elim!: denotes_DBytevecE)
      have "array_equal byte_equal [0..<length bs] (map Some bs) (map Some cs) st n =
          (Inr (\<forall>i \<in> set [0..<length bs]. bs ! i = cs ! i), st)" if "length bs = length cs"
        by (rule array_equal_run) (use that in \<open>auto simp: byte_equal_def\<close>)
      then have "bytevec_equal x y st n = (Inr (d = e), st)"
        using a(1,2) b(1,2) DBytevec es nth_equal [of bs cs]
        by (cases "length bs = length cs") (auto simp: bytevec_equal_def bind_run)
      then show ?thesis using types same DBytevec by (simp add: equalp_dispatch(4) [OF valid])
    qed
  qed
qed

lemma navi_equalp_run:
  assumes "wf_heap st" and "denotes st x d" and "denotes st y e" and "size d < n"
  shows "navi_equalp x y st n = (Inr (d = e), st)"
  using equalp_depth_correct [OF assms(1-3)] assms(4) by (simp add: navi_equalp_def)

end
