(* ===== verification/Navi_List.thy ===== *)
theory Navi_List
  imports Navi_Equal
begin

text \<open>
  Lists (\<open>list.c\<close>): the C functions on chains of pairs and the list procedures of the
  language.  A built-in procedure \<open>scm_f\<close> takes the number of its arguments, their list and the
  environment it is called in.  The procedures that call a procedure take \<open>ev\<close> and \<open>ap\<close>, which
  stand for \<open>navi_eval\<close> and \<open>_navi_apply\<close>; \<open>Navi_Interp\<close> passes the model's own.
\<close>

type_synonym evalf = "navi_obj \<Rightarrow> navi_env \<Rightarrow> navi_obj nm"
type_synonym applyf = "navi_procedure \<Rightarrow> navi_obj \<Rightarrow> navi_env \<Rightarrow> navi_obj nm"

section \<open>Calling procedures\<close>

definition navi_apply :: "applyf \<Rightarrow> navi_procedure \<Rightarrow> navi_obj \<Rightarrow> navi_env \<Rightarrow> navi_obj nm" where
  "navi_apply ap proc args env = ap proc args \<lparr>lexical = p_env proc, dynamic = dynamic env\<rparr>"

definition navi_force_tail :: "evalf \<Rightarrow> navi_obj \<Rightarrow> navi_env \<Rightarrow> navi_obj nm" where
  "navi_force_tail ev obj env =
     bind (navi_type obj) (\<lambda>t. if t = NAVI_BOUNCE then ev obj env else ret obj)"

definition do_apply_forced :: "evalf \<Rightarrow> applyf \<Rightarrow> navi_obj \<Rightarrow> navi_obj \<Rightarrow> navi_env \<Rightarrow> navi_obj nm" where
  "do_apply_forced ev ap proc args env =
     bind (navi_procedure proc) (\<lambda>p.
     bind (navi_apply ap p args env) (\<lambda>r.
     navi_force_tail ev r env))"

section \<open>Building lists\<close>

text \<open>
  The arguments of a variadic C function end at the first void object.  \<open>vlist_rest\<close> is the
  loop of \<open>navi_vlist\<close>: each round links a fresh pair behind \<open>listptr\<close>.
\<close>

primrec vlist_rest :: "navi_obj list \<Rightarrow> navi_obj \<Rightarrow> navi_obj nm" where
  "vlist_rest [] listptr = ret listptr"
| "vlist_rest (arg # ap) listptr =
     bind (navi_type arg) (\<lambda>t.
     if t = NAVI_VOID then ret listptr
     else bind navi_make_empty_pair (\<lambda>p.
          bind (navi_set_cdr listptr p) (\<lambda>_.
          bind (navi_cdr listptr) (\<lambda>listptr'.
          bind (navi_set_car listptr' arg) (\<lambda>_.
          vlist_rest ap listptr')))))"

definition navi_vlist :: "navi_obj \<Rightarrow> navi_obj list \<Rightarrow> navi_obj nm" where
  "navi_vlist first ap =
     bind navi_make_empty_pair (\<lambda>list.
     bind (navi_set_car list first) (\<lambda>_.
     bind (vlist_rest ap list) (\<lambda>listptr.
     bind (navi_set_cdr listptr navi_make_nil) (\<lambda>_.
     ret list))))"

definition navi_list :: "navi_obj list \<Rightarrow> navi_obj nm" where
  "navi_list args = (case args of
       [] \<Rightarrow> ret navi_make_nil
     | first # rest \<Rightarrow>
         bind (navi_type first) (\<lambda>t.
         if t = NAVI_VOID then ret navi_make_nil else navi_vlist first rest))"

section \<open>Lengths and shapes\<close>

definition navi_list_length :: "navi_obj \<Rightarrow> nat nm" where
  "navi_list_length list =
     after_loop (navi_list_for_each list 0 (\<lambda>_ i. ret (Continue (Suc i)))) (\<lambda>_ i. ret i)"

text \<open>\<open>None\<close> is the \<open>-1\<close> of the code.\<close>

definition navi_list_length_safe :: "navi_obj \<Rightarrow> nat option nm" where
  "navi_list_length_safe list =
     after_loop (navi_list_for_each list 0 (\<lambda>_ i. ret (Continue (Suc i))))
       (\<lambda>cons i. bind (navi_type cons) (\<lambda>t. if t \<noteq> NAVI_NIL then ret None else ret (Some i)))"

definition navi_is_proper_list :: "navi_obj \<Rightarrow> bool nm" where
  "navi_is_proper_list list =
     bind (navi_type list) (\<lambda>type.
     if type = NAVI_NIL then ret True
     else if type \<noteq> NAVI_PAIR then ret False
     else after_loop (navi_list_for_each list () (\<lambda>_ _. ret (Continue ()))) (\<lambda>cons _. navi_is_nil cons))"

definition navi_is_type :: "navi_obj \<Rightarrow> ptype \<Rightarrow> bool nm" where
  "navi_is_type obj type = (case type of
       TList \<Rightarrow> navi_is_list obj
     | TProperList \<Rightarrow> navi_is_proper_list obj
     | TByte \<Rightarrow> navi_is_byte obj
     | TAny \<Rightarrow> ret True
     | TType t \<Rightarrow> bind (navi_type obj) (\<lambda>t'. ret (t' = t)))"

definition navi_is_list_of :: "navi_obj \<Rightarrow> ptype \<Rightarrow> bool \<Rightarrow> bool nm" where
  "navi_is_list_of list type allow_dotted_tail =
     after_loop (navi_list_for_each list () (\<lambda>cons _.
       bind (navi_car cons) (\<lambda>x. bind (navi_is_type x type) (\<lambda>b.
       ret (if \<not> b then Return False else Continue ())))))
     (\<lambda>cons _.
       bind (navi_type cons) (\<lambda>t.
       if \<not> allow_dotted_tail \<and> t \<noteq> NAVI_NIL then ret False
       else if allow_dotted_tail \<and> t \<noteq> NAVI_NIL then
         bind (navi_is_type cons type) (\<lambda>b. ret b)
       else ret True))"

definition navi_type_check_proper_list :: "navi_obj \<Rightarrow> navi_env \<Rightarrow> navi_obj nm" where
  "navi_type_check_proper_list list env =
     bind (navi_is_proper_list list) (\<lambda>b.
     if \<not> b then navi_error env ''type error: not a proper list'' [] else ret list)"

text \<open>The loop of \<open>navi_last_cons\<close> tests the type of the cdr.\<close>

primrec last_cons_loop :: "nat \<Rightarrow> navi_obj \<Rightarrow> navi_obj nm" where
  "last_cons_loop 0 list = stop NoFuel"
| "last_cons_loop (Suc k) list =
     bind (navi_cdr list) (\<lambda>d.
     bind (navi_type d) (\<lambda>t.
     if t = NAVI_PAIR then last_cons_loop k d else ret list))"

definition navi_last_cons :: "navi_obj \<Rightarrow> navi_obj nm" where
  "navi_last_cons list = (\<lambda>st n. last_cons_loop n list st n)"

definition navi_is_last_pair :: "navi_obj \<Rightarrow> bool nm" where
  "navi_is_last_pair pair =
     bind (navi_cdr pair) (\<lambda>d. bind (navi_type d) (\<lambda>t. ret (t = NAVI_NIL)))"

definition navi_list_append_ip :: "navi_obj \<Rightarrow> navi_obj \<Rightarrow> navi_obj nm" where
  "navi_list_append_ip a b =
     bind (navi_is_nil a) (\<lambda>na.
     if na then ret b
     else bind (navi_is_nil b) (\<lambda>nb.
     if nb then ret a
     else bind (navi_last_cons a) (\<lambda>l.
          bind (navi_set_cdr l b) (\<lambda>_. ret a))))"

section \<open>Pairs\<close>

definition scm_cons :: "nat \<Rightarrow> navi_obj \<Rightarrow> navi_env \<Rightarrow> navi_obj nm" where
  "scm_cons nr_args args env =
     bind (scm_arg1 args) (\<lambda>a. bind (scm_arg2 args) (\<lambda>b. navi_make_pair a b))"

definition scm_car :: "nat \<Rightarrow> navi_obj \<Rightarrow> navi_env \<Rightarrow> navi_obj nm" where
  "scm_car nr_args args env = bind (scm_arg1 args) navi_car"

definition scm_cdr :: "nat \<Rightarrow> navi_obj \<Rightarrow> navi_env \<Rightarrow> navi_obj nm" where
  "scm_cdr nr_args args env = bind (scm_arg1 args) navi_cdr"

definition scm_set_car :: "nat \<Rightarrow> navi_obj \<Rightarrow> navi_env \<Rightarrow> navi_obj nm" where
  "scm_set_car nr_args args env =
     bind (scm_arg1 args) (\<lambda>a. bind (scm_arg2 args) (\<lambda>b.
     bind (navi_set_car a b) (\<lambda>_. ret navi_unspecified)))"

definition scm_set_cdr :: "nat \<Rightarrow> navi_obj \<Rightarrow> navi_env \<Rightarrow> navi_obj nm" where
  "scm_set_cdr nr_args args env =
     bind (scm_arg1 args) (\<lambda>a. bind (scm_arg2 args) (\<lambda>b.
     bind (navi_set_cdr a b) (\<lambda>_. ret navi_unspecified)))"

text \<open>A type test of the first argument (\<open>pair?\<close>, \<open>null?\<close>, \<open>vector?\<close> and their kin).\<close>

definition scm_type_test :: "navi_type \<Rightarrow> navi_obj \<Rightarrow> navi_obj nm" where
  "scm_type_test t args =
     bind (scm_arg1 args) (\<lambda>a. bind (navi_type a) (\<lambda>t'. ret (navi_make_bool (t' = t))))"

definition scm_pairp :: "nat \<Rightarrow> navi_obj \<Rightarrow> navi_env \<Rightarrow> navi_obj nm" where
  "scm_pairp nr_args args env = scm_type_test NAVI_PAIR args"

definition scm_nullp :: "nat \<Rightarrow> navi_obj \<Rightarrow> navi_env \<Rightarrow> navi_obj nm" where
  "scm_nullp nr_args args env = scm_type_test NAVI_NIL args"

definition scm_listp :: "nat \<Rightarrow> navi_obj \<Rightarrow> navi_env \<Rightarrow> navi_obj nm" where
  "scm_listp nr_args args env =
     bind (scm_arg1 args) (\<lambda>a. bind (navi_is_proper_list a) (\<lambda>b. ret (navi_make_bool b)))"

section \<open>Constructing, measuring and copying\<close>

definition navi_make_list :: "int \<Rightarrow> navi_obj \<Rightarrow> navi_obj nm" where
  "navi_make_list k obj =
     foldM (\<lambda>_ cons. navi_make_pair obj cons) [0..<nat k] navi_make_nil"

definition scm_make_list :: "nat \<Rightarrow> navi_obj \<Rightarrow> navi_env \<Rightarrow> navi_obj nm" where
  "scm_make_list nr_args args env =
     (if nr_args > 2 then navi_arity_error env (ISym ''make-list'')
      else bind (scm_arg1 args) (\<lambda>a. bind (navi_fixnum a) (\<lambda>k.
        if k < 0 then navi_error env ''type error: not a positive integer'' []
        else if nr_args = 2 then bind (scm_arg2 args) (\<lambda>obj. navi_make_list k obj)
        else navi_make_list k (navi_make_fixnum 0))))"

definition scm_length :: "nat \<Rightarrow> navi_obj \<Rightarrow> navi_env \<Rightarrow> navi_obj nm" where
  "scm_length nr_args args env =
     bind (scm_arg1 args) (\<lambda>a. bind (navi_list_length_safe a) (\<lambda>l. case l of
       None \<Rightarrow> navi_error env ''type error: not a proper list'' []
     | Some k \<Rightarrow> ret (navi_make_fixnum (int k))))"

definition scm_list :: "nat \<Rightarrow> navi_obj \<Rightarrow> navi_env \<Rightarrow> navi_obj nm" where
  "scm_list nr_args args env = ret args"

definition navi_list_copy :: "navi_obj \<Rightarrow> navi_obj nm" where
  "navi_list_copy list =
     bind (navi_is_nil list) (\<lambda>b.
     if b then ret navi_make_nil
     else bind (navi_car list) (\<lambda>x.
          bind (navi_make_pair x navi_make_nil) (\<lambda>copy.
          bind (navi_cdr list) (\<lambda>rest.
          after_loop (navi_list_for_each rest copy (\<lambda>cons cursor.
            bind (navi_car cons) (\<lambda>y.
            bind (navi_make_pair y navi_make_nil) (\<lambda>pair.
            bind (navi_set_cdr cursor pair) (\<lambda>_.
            bind (navi_cdr cursor) (\<lambda>cursor'.
            ret (Continue cursor')))))))
          (\<lambda>cons cursor. bind (navi_set_cdr cursor cons) (\<lambda>_. ret copy))))))"

definition scm_list_copy :: "nat \<Rightarrow> navi_obj \<Rightarrow> navi_env \<Rightarrow> navi_obj nm" where
  "scm_list_copy nr_args args env = bind (scm_arg1 args) navi_list_copy"

text \<open>One round of the loop of \<open>append\<close>; \<open>last_pair\<close> is the last pair of the result.\<close>

definition append_round :: "navi_env \<Rightarrow> navi_obj \<Rightarrow> navi_obj \<Rightarrow> (unit, navi_obj) ctl nm" where
  "append_round env cons last_pair =
     bind (navi_is_last_pair cons) (\<lambda>b.
     if b then bind (navi_car cons) (\<lambda>x. bind (navi_set_cdr last_pair x) (\<lambda>_. ret (Return ())))
     else bind (navi_car cons) (\<lambda>x.
          bind (navi_type_check_proper_list x env) (\<lambda>_.
          bind (navi_list_copy x) (\<lambda>copy.
          bind (navi_set_cdr last_pair copy) (\<lambda>_.
          bind (navi_last_cons last_pair) (\<lambda>last'.
          ret (Continue last')))))))"

definition scm_append :: "nat \<Rightarrow> navi_obj \<Rightarrow> navi_env \<Rightarrow> navi_obj nm" where
  "scm_append nr_args args env =
     bind (navi_make_pair navi_make_nil navi_make_nil) (\<lambda>first.
     bind (navi_list_for_each args first (append_round env)) (\<lambda>_.
     navi_cdr first))"

definition scm_reverse :: "nat \<Rightarrow> navi_obj \<Rightarrow> navi_env \<Rightarrow> navi_obj nm" where
  "scm_reverse nr_args args env =
     bind (scm_arg1 args) (\<lambda>list.
     after_loop (navi_list_for_each list navi_make_nil (\<lambda>cons reversed.
       bind (navi_car cons) (\<lambda>x. bind (navi_make_pair x reversed) (\<lambda>r. ret (Continue r)))))
     (\<lambda>_ reversed. ret reversed))"

section \<open>Indexing\<close>

definition navi_list_tail :: "navi_obj \<Rightarrow> int \<Rightarrow> navi_obj nm" where
  "navi_list_tail list k =
     after_loop (navi_list_for_each list 0 (\<lambda>cons i.
       ret (if i = k then Return cons else Continue (i + 1))))
     (\<lambda>cons i. if i = k then ret cons else ret navi_make_void)"

definition scm_list_tail :: "nat \<Rightarrow> navi_obj \<Rightarrow> navi_env \<Rightarrow> navi_obj nm" where
  "scm_list_tail nr_args args env =
     bind (scm_arg2 args) (\<lambda>i. bind (navi_fixnum i) (\<lambda>k.
     if k < 0 then navi_error env ''type error: not a positive integer'' []
     else bind (scm_arg1 args) (\<lambda>list. bind (navi_list_tail list k) (\<lambda>result.
          bind (navi_is_void result) (\<lambda>v.
          if v then navi_error env ''list index out of bounds'' [] else ret result)))))"

definition navi_list_ref :: "navi_obj \<Rightarrow> int \<Rightarrow> navi_obj nm" where
  "navi_list_ref list k =
     bind (navi_list_tail list k) (\<lambda>tail.
     bind (navi_is_pair tail) (\<lambda>p. if \<not> p then ret navi_make_void else navi_car tail))"

definition scm_list_ref :: "nat \<Rightarrow> navi_obj \<Rightarrow> navi_env \<Rightarrow> navi_obj nm" where
  "scm_list_ref nr_args args env =
     bind (scm_arg2 args) (\<lambda>i. bind (navi_fixnum i) (\<lambda>k.
     if k < 0 then navi_error env ''type error: not a positive integer'' []
     else bind (scm_arg1 args) (\<lambda>list. bind (navi_list_tail list k) (\<lambda>result.
          bind (navi_is_pair result) (\<lambda>p.
          if \<not> p then navi_error env ''list index out of bounds'' [] else navi_car result)))))"

definition scm_list_set :: "nat \<Rightarrow> navi_obj \<Rightarrow> navi_env \<Rightarrow> navi_obj nm" where
  "scm_list_set nr_args args env =
     bind (scm_arg2 args) (\<lambda>i. bind (navi_fixnum i) (\<lambda>k.
     if k < 0 then navi_error env ''type error: not a positive integer'' []
     else bind (scm_arg1 args) (\<lambda>list. bind (navi_list_tail list k) (\<lambda>result.
          bind (navi_is_pair result) (\<lambda>p.
          if \<not> p then navi_error env ''list index out of bounds'' []
          else bind (scm_arg3 args) (\<lambda>x. bind (navi_set_car result x) (\<lambda>_. ret navi_unspecified)))))))"

section \<open>Searching\<close>

definition member_loop :: "(navi_obj \<Rightarrow> bool nm) \<Rightarrow> navi_obj \<Rightarrow> navi_obj nm" where
  "member_loop same list =
     after_loop (navi_list_for_each list () (\<lambda>cons _.
       bind (navi_car cons) (\<lambda>x. bind (same x) (\<lambda>b.
       ret (if b then Return cons else Continue ())))))
     (\<lambda>_ _. ret (navi_make_bool False))"

definition assoc_loop :: "(navi_obj \<Rightarrow> bool nm) \<Rightarrow> navi_obj \<Rightarrow> navi_env \<Rightarrow> navi_obj nm" where
  "assoc_loop same list env =
     after_loop (navi_list_for_each list () (\<lambda>cons _.
       bind (navi_car cons) (\<lambda>entry.
       bind (navi_type_check entry NAVI_PAIR env) (\<lambda>_.
       bind (navi_caar cons) (\<lambda>key.
       bind (same key) (\<lambda>b.
       ret (if b then Return entry else Continue ())))))))
     (\<lambda>_ _. ret (navi_make_bool False))"

definition scm_memq :: "nat \<Rightarrow> navi_obj \<Rightarrow> navi_env \<Rightarrow> navi_obj nm" where
  "scm_memq nr_args args env =
     bind (scm_arg1 args) (\<lambda>obj. bind (scm_arg2 args) (\<lambda>list.
     member_loop (\<lambda>x. ret (navi_eqp obj x)) list))"

definition scm_memv :: "nat \<Rightarrow> navi_obj \<Rightarrow> navi_env \<Rightarrow> navi_obj nm" where
  "scm_memv nr_args args env =
     bind (scm_arg1 args) (\<lambda>obj. bind (scm_arg2 args) (\<lambda>list.
     member_loop (navi_eqvp obj) list))"

definition do_compare :: "evalf \<Rightarrow> applyf \<Rightarrow> navi_obj \<Rightarrow> navi_obj \<Rightarrow> navi_obj \<Rightarrow> navi_env \<Rightarrow> bool nm" where
  "do_compare ev ap proc a b env =
     bind (navi_procedure proc) (\<lambda>p.
     bind (navi_list [a, b, navi_make_void, navi_make_void]) (\<lambda>args.
     bind (navi_apply ap p args env) (\<lambda>r.
     bind (navi_force_tail ev r env) navi_is_true)))"

definition scm_member :: "evalf \<Rightarrow> applyf \<Rightarrow> nat \<Rightarrow> navi_obj \<Rightarrow> navi_env \<Rightarrow> navi_obj nm" where
  "scm_member ev ap nr_args args env =
     (if nr_args > 3 then navi_arity_error env (ISym ''member'')
      else bind (scm_arg1 args) (\<lambda>obj. bind (scm_arg2 args) (\<lambda>list.
        if nr_args = 2 then member_loop (navi_equalp obj) list
        else bind (scm_arg3 args) (\<lambda>proc.
             bind (navi_type_check_proc proc 2 env) (\<lambda>_.
             member_loop (\<lambda>x. do_compare ev ap proc obj x env) list)))))"

definition scm_assq :: "nat \<Rightarrow> navi_obj \<Rightarrow> navi_env \<Rightarrow> navi_obj nm" where
  "scm_assq nr_args args env =
     bind (scm_arg1 args) (\<lambda>obj. bind (scm_arg2 args) (\<lambda>list.
     assoc_loop (\<lambda>x. ret (navi_eqp obj x)) list env))"

definition scm_assv :: "nat \<Rightarrow> navi_obj \<Rightarrow> navi_env \<Rightarrow> navi_obj nm" where
  "scm_assv nr_args args env =
     bind (scm_arg1 args) (\<lambda>obj. bind (scm_arg2 args) (\<lambda>list.
     assoc_loop (navi_eqvp obj) list env))"

text \<open>Unlike \<open>member\<close>, \<open>assoc\<close> does not check its third argument before it uses it.\<close>

definition scm_assoc :: "evalf \<Rightarrow> applyf \<Rightarrow> nat \<Rightarrow> navi_obj \<Rightarrow> navi_env \<Rightarrow> navi_obj nm" where
  "scm_assoc ev ap nr_args args env =
     (if nr_args > 3 then navi_arity_error env (ISym ''assoc'')
      else bind (scm_arg1 args) (\<lambda>obj. bind (scm_arg2 args) (\<lambda>list.
        if nr_args = 2 then assoc_loop (navi_equalp obj) list env
        else assoc_loop (\<lambda>x. bind (scm_arg3 args) (\<lambda>proc. do_compare ev ap proc obj x env)) list env)))"

section \<open>Mapping\<close>

text \<open>The array \<open>cons\<close> of cursors is a list of values, one for each list argument.\<close>

primrec arg_list_loop :: "navi_obj list \<Rightarrow> navi_obj \<Rightarrow> unit nm" where
  "arg_list_loop [] cons = ret ()"
| "arg_list_loop (l # ls) cons =
     bind (navi_car l) (\<lambda>x.
     bind (navi_make_pair x navi_make_nil) (\<lambda>d.
     bind (navi_set_cdr cons d) (\<lambda>_.
     bind (navi_cdr cons) (\<lambda>cons'.
     arg_list_loop ls cons'))))"

definition arg_list :: "navi_obj list \<Rightarrow> navi_obj nm" where
  "arg_list heads =
     bind (navi_make_pair navi_make_nil navi_make_nil) (\<lambda>args.
     bind (arg_list_loop heads args) (\<lambda>_.
     navi_cdr args))"

definition cons_array_fill :: "navi_obj \<Rightarrow> navi_env \<Rightarrow> navi_obj list nm" where
  "cons_array_fill args env =
     after_loop (navi_list_for_each args [] (\<lambda>cons array.
       bind (navi_car cons) (\<lambda>x.
       bind (navi_type_check_list x env) (\<lambda>_. ret (Continue (array @ [x]))))))
     (\<lambda>_ array. ret array)"

primrec cons_array_terminated :: "navi_obj list \<Rightarrow> bool nm" where
  "cons_array_terminated [] = ret False"
| "cons_array_terminated (l # ls) =
     bind (navi_is_pair l) (\<lambda>p. if \<not> p then ret True else cons_array_terminated ls)"

primrec cons_array_advance :: "navi_obj list \<Rightarrow> navi_obj list nm" where
  "cons_array_advance [] = ret []"
| "cons_array_advance (l # ls) =
     bind (navi_cdr l) (\<lambda>d. bind (cons_array_advance ls) (\<lambda>ds. ret (d # ds)))"

primrec for_each_rounds :: "evalf \<Rightarrow> applyf \<Rightarrow> nat \<Rightarrow> navi_obj \<Rightarrow> navi_obj list \<Rightarrow> navi_env \<Rightarrow> unit nm" where
  "for_each_rounds ev ap 0 proc cons env = stop NoFuel"
| "for_each_rounds ev ap (Suc k) proc cons env =
     bind (cons_array_terminated cons) (\<lambda>done.
     if done then ret ()
     else bind (arg_list cons) (\<lambda>args.
          bind (do_apply_forced ev ap proc args env) (\<lambda>_.
          bind (cons_array_advance cons) (\<lambda>cons'.
          for_each_rounds ev ap k proc cons' env))))"

definition scm_for_each :: "evalf \<Rightarrow> applyf \<Rightarrow> nat \<Rightarrow> navi_obj \<Rightarrow> navi_env \<Rightarrow> navi_obj nm" where
  "scm_for_each ev ap nr_args args env =
     bind (scm_arg1 args) (\<lambda>proc.
     bind (navi_check_arity proc (nr_args - 1) env) (\<lambda>_.
     bind (navi_cdr args) (\<lambda>rest.
     bind (cons_array_fill rest env) (\<lambda>cons.
     bind (\<lambda>st n. for_each_rounds ev ap n proc cons env st n) (\<lambda>_.
     ret navi_unspecified)))))"

primrec map_rounds :: "evalf \<Rightarrow> applyf \<Rightarrow> nat \<Rightarrow> navi_obj \<Rightarrow> navi_obj list \<Rightarrow> navi_obj \<Rightarrow> navi_env \<Rightarrow> unit nm" where
  "map_rounds ev ap 0 proc cons last_pair env = stop NoFuel"
| "map_rounds ev ap (Suc k) proc cons last_pair env =
     bind (cons_array_terminated cons) (\<lambda>done.
     if done then ret ()
     else bind (arg_list cons) (\<lambda>args.
          bind (do_apply_forced ev ap proc args env) (\<lambda>elm.
          bind (navi_make_pair elm navi_make_nil) (\<lambda>p.
          bind (navi_set_cdr last_pair p) (\<lambda>_.
          bind (navi_cdr last_pair) (\<lambda>last_pair'.
          bind (cons_array_advance cons) (\<lambda>cons'.
          map_rounds ev ap k proc cons' last_pair' env)))))))"

definition scm_map :: "evalf \<Rightarrow> applyf \<Rightarrow> nat \<Rightarrow> navi_obj \<Rightarrow> navi_env \<Rightarrow> navi_obj nm" where
  "scm_map ev ap nr_args args env =
     bind (scm_arg1 args) (\<lambda>proc.
     bind (navi_check_arity proc (nr_args - 1) env) (\<lambda>_.
     bind (navi_cdr args) (\<lambda>rest.
     bind (cons_array_fill rest env) (\<lambda>cons.
     bind (navi_make_pair navi_make_nil navi_make_nil) (\<lambda>result.
     bind (\<lambda>st n. map_rounds ev ap n proc cons result env st n) (\<lambda>_.
     navi_cdr result))))))"

end
