(* ===== verification/Navi_Array.thy ===== *)
theory Navi_Array
  imports Navi_List
begin

text \<open>
  Element access to the arrays of the heap: \<open>data[i]\<close> of vectors, bytevectors and strings.  An
  index at or past the end of the buffer has no meaning in C.  C character strings are lists of
  characters without a zero byte.
\<close>

section \<open>Access\<close>

text \<open>A signed index used as an array index.\<close>

definition index :: "int \<Rightarrow> nat nm" where
  "index i = (if i < 0 then stop Undef else ret (nat i))"

definition vector_get :: "navi_obj \<Rightarrow> nat \<Rightarrow> navi_obj nm" where
  "vector_get obj i = bind (navi_vector obj) (\<lambda>xs. nth_init xs i)"

definition vector_put :: "navi_obj \<Rightarrow> nat \<Rightarrow> navi_obj \<Rightarrow> unit nm" where
  "vector_put obj i x =
     bind (navi_vector obj) (\<lambda>xs.
     if i < length xs then put_data obj (PVector (xs[i := Some x])) else stop Undef)"

definition bytevec_get :: "navi_obj \<Rightarrow> nat \<Rightarrow> byte nm" where
  "bytevec_get obj i = bind (navi_bytevec obj) (\<lambda>bs. nth_init bs i)"

definition bytevec_put :: "navi_obj \<Rightarrow> nat \<Rightarrow> byte \<Rightarrow> unit nm" where
  "bytevec_put obj i b =
     bind (navi_bytevec obj) (\<lambda>bs.
     if i < length bs then put_data obj (PBytevec (bs[i := Some b])) else stop Undef)"

definition string_get :: "navi_obj \<Rightarrow> nat \<Rightarrow> byte nm" where
  "string_get obj i = bind (navi_string obj) (\<lambda>s. nth_init (s_data s) i)"

definition string_put :: "navi_obj \<Rightarrow> nat \<Rightarrow> byte \<Rightarrow> unit nm" where
  "string_put obj i b =
     bind (navi_string obj) (\<lambda>s.
     if i < length (s_data s) then put_data obj (PString (s\<lparr>s_data := (s_data s)[i := Some b]\<rparr>))
     else stop Undef)"

definition string_set_size :: "navi_obj \<Rightarrow> nat \<Rightarrow> unit nm" where
  "string_set_size obj sz = bind (navi_string obj) (\<lambda>s. put_data obj (PString (s\<lparr>s_size := sz\<rparr>)))"

definition navi_vector_ref :: "navi_obj \<Rightarrow> int \<Rightarrow> navi_obj nm" where
  "navi_vector_ref vec i = bind (index i) (\<lambda>k. vector_get vec k)"

definition navi_vector_length :: "navi_obj \<Rightarrow> nat nm" where
  "navi_vector_length vec = bind (navi_vector vec) (\<lambda>xs. ret (length xs))"

definition navi_bytevec_ref :: "navi_obj \<Rightarrow> int \<Rightarrow> navi_obj nm" where
  "navi_bytevec_ref vec i =
     bind (index i) (\<lambda>k. bind (bytevec_get vec k) (\<lambda>b. ret (navi_make_fixnum (uint b))))"

definition navi_bytevec_length :: "navi_obj \<Rightarrow> nat nm" where
  "navi_bytevec_length vec = bind (navi_bytevec vec) (\<lambda>bs. ret (length bs))"

section \<open>Characters and C strings\<close>

definition byte_of :: "char \<Rightarrow> byte" where
  "byte_of c = word_of_nat (of_char c)"

definition char_of_byte :: "byte \<Rightarrow> char" where
  "char_of_byte b = char_of (unat b)"

lemma char_of_byte_of [simp]: "char_of_byte (byte_of c) = c"
proof -
  have "unat (word_of_nat (of_char c) :: byte) = of_char c"
    using of_char_of [of "of_char c :: nat"] nat_of_char_less_256 [of c]
    by (simp add: unat_of_nat)
  then show ?thesis by (simp add: char_of_byte_def byte_of_def)
qed

lemma byte_of_char_of [simp]: "byte_of (char_of_byte b) = b"
proof -
  have "unat b < 256" using unsigned_less [of b] by simp
  then show ?thesis by (simp add: char_of_byte_def byte_of_def of_char_of)
qed

text \<open>Reading a C string from a buffer: the bytes before the first zero.\<close>

primrec cstr_from :: "byte option list \<Rightarrow> string nm" where
  "cstr_from [] = stop Undef"
| "cstr_from (b # bs) = (case b of
       None \<Rightarrow> stop Undef
     | Some c \<Rightarrow> if c = 0 then ret [] else bind (cstr_from bs) (\<lambda>cs. ret (char_of_byte c # cs)))"

text \<open>The digits \<open>printf\<close> writes for an unsigned number.\<close>

definition digit_char :: "nat \<Rightarrow> char" where
  "digit_char d = char_of (if d < 10 then 48 + d else 87 + d)"

fun digits :: "nat \<Rightarrow> nat \<Rightarrow> string" where
  "digits b k =
     (if b < 2 \<or> k < b then [digit_char k] else digits b (k div b) @ [digit_char (k mod b)])"

declare digits.simps [simp del]

definition fmt_u :: "nat \<Rightarrow> string" where "fmt_u k = digits 10 k"

definition fmt_ld :: "int \<Rightarrow> string" where
  "fmt_ld i = (if i < 0 then ''-'' @ digits 10 (nat (- i)) else digits 10 (nat i))"

text \<open>\<open>%lo\<close> and \<open>%lx\<close> read the \<open>long\<close> as unsigned.\<close>

definition fmt_lo :: "int \<Rightarrow> string" where
  "fmt_lo i = digits 8 (nat (i mod 2 ^ 64))"

definition fmt_lx :: "int \<Rightarrow> string" where
  "fmt_lx i = digits 16 (nat (i mod 2 ^ 64))"

section \<open>Strings from C strings\<close>

definition navi_cstr_to_string :: "string \<Rightarrow> navi_obj nm" where
  "navi_cstr_to_string cstr =
     (let len = length cstr in
      bind (navi_make_string len len len) (\<lambda>obj.
      bind (foldM (\<lambda>i _. string_put obj i (byte_of (cstr ! i))) [0..<len] ()) (\<lambda>_.
      bind (string_set_size obj len) (\<lambda>_.
      ret obj))))"

definition navi_cstr_to_bytevec :: "string \<Rightarrow> navi_obj nm" where
  "navi_cstr_to_bytevec str =
     (let len = length str in
      bind (navi_make_bytevec (int len)) (\<lambda>expr.
      bind (foldM (\<lambda>i _. bytevec_put expr i (byte_of (str ! i))) [0..<len] ()) (\<lambda>_.
      ret expr)))"

section \<open>Filling loops\<close>

text \<open>
  A loop that writes element \<open>k + i\<close> in round \<open>i\<close> replaces \<open>m\<close> elements from \<open>k\<close> on.
\<close>

definition splice :: "nat \<Rightarrow> 'a list \<Rightarrow> 'a list \<Rightarrow> 'a list" where
  "splice k ys xs = take k xs @ ys @ drop (k + length ys) xs"

lemma length_splice [simp]: "k + length ys \<le> length xs \<Longrightarrow> length (splice k ys xs) = length xs"
  by (simp add: splice_def)

lemma splice_Nil [simp]: "splice k [] xs = xs"
  by (simp add: splice_def)

lemma splice_snoc:
  "k + length ys < length xs \<Longrightarrow> splice k (ys @ [y]) xs = (splice k ys xs)[k + length ys := y]"
  by (simp add: splice_def list_update_append Cons_nth_drop_Suc [symmetric])

lemma splice_full: "length ys = length xs \<Longrightarrow> splice 0 ys xs = ys"
  by (simp add: splice_def)

lemma nth_splice:
  "k + length ys \<le> length xs \<Longrightarrow> i < length xs \<Longrightarrow>
   splice k ys xs ! i = (if k \<le> i \<and> i < k + length ys then ys ! (i - k) else xs ! i)"
  by (auto simp: splice_def nth_append min_def)

text \<open>The state with one object's data replaced.\<close>

abbreviation upd_data :: "state \<Rightarrow> addr \<Rightarrow> navi_object \<Rightarrow> payload \<Rightarrow> state" where
  "upd_data st a ob d \<equiv> st\<lparr>heap := (heap st)(a := Some (ob\<lparr>obj_data := d\<rparr>))\<rparr>"

lemma fill_loop:
  assumes "heap st a = Some ob" and "obj_data ob = D xs" and "k + m \<le> length xs"
    and "\<And>i ys s. i < m \<Longrightarrow> ys = splice k (map f [0..<i]) xs \<Longrightarrow> s = upd_data st a ob (D ys) \<Longrightarrow>
      body i () s n = (Inr (), upd_data st a ob (D (ys[k + i := f i])))"
  shows "foldM body [0..<m] () st n = (Inr (), upd_data st a ob (D (splice k (map f [0..<m]) xs)))"
proof -
  define I where "I = (\<lambda>i (_ :: unit) s. s = upd_data st a ob (D (splice k (map f [0..<i]) xs)))"
  have eq: "st = upd_data st a ob (D xs)"
    using assms(1,2) by (cases ob) (simp add: fun_upd_idem)
  have "\<exists>v s. foldM body [0..<m] () st n = (Inr v, s) \<and> I (length [0..<m]) v s"
  proof (rule foldM_rule)
    show "I 0 () st" using eq by (simp add: I_def)
  next
    fix i v s
    assume "i < length [0..<m]" and s: "I i v s"
    then have i: "i < m" by simp
    have "body i () s n = (Inr (), upd_data st a ob (D ((splice k (map f [0..<i]) xs)[k + i := f i])))"
      using assms(4) [OF i refl] s by (simp add: I_def)
    moreover have "(splice k (map f [0..<i]) xs)[k + i := f i] = splice k (map f [0..<Suc i]) xs"
      using splice_snoc [of k "map f [0..<i]" xs "f i"] i assms(3) by simp
    ultimately show "\<exists>v' s'. body ([0..<m] ! i) v s n = (Inr v', s') \<and> I (Suc i) v' s'"
      using i by (simp add: I_def)
  qed
  then show ?thesis by (auto simp: I_def)
qed

lemma vector_put_at [simp]:
  "heap st a = Some ob \<Longrightarrow> obj_data ob = PVector xs \<Longrightarrow> i < length xs \<Longrightarrow>
   vector_put (Ref a) i x st n = (Inr (), upd_data st a ob (PVector (xs[i := Some x])))"
  by (simp add: vector_put_def)

lemma bytevec_put_at [simp]:
  "heap st a = Some ob \<Longrightarrow> obj_data ob = PBytevec bs \<Longrightarrow> i < length bs \<Longrightarrow>
   bytevec_put (Ref a) i b st n = (Inr (), upd_data st a ob (PBytevec (bs[i := Some b])))"
  by (simp add: bytevec_put_def)

lemma string_put_at [simp]:
  "heap st a = Some ob \<Longrightarrow> obj_data ob = PString s \<Longrightarrow> i < length (s_data s) \<Longrightarrow>
   string_put (Ref a) i b st n =
     (Inr (), upd_data st a ob (PString (s\<lparr>s_data := (s_data s)[i := Some b]\<rparr>)))"
  by (simp add: string_put_def)

lemma vector_get_at [simp]:
  "heap st a = Some ob \<Longrightarrow> obj_data ob = PVector xs \<Longrightarrow> i < length xs \<Longrightarrow> xs ! i = Some x \<Longrightarrow>
   vector_get (Ref a) i st n = (Inr x, st)"
  by (simp add: vector_get_def nth_init_def init_def)

lemma bytevec_get_at [simp]:
  "heap st a = Some ob \<Longrightarrow> obj_data ob = PBytevec bs \<Longrightarrow> i < length bs \<Longrightarrow> bs ! i = Some b \<Longrightarrow>
   bytevec_get (Ref a) i st n = (Inr b, st)"
  by (simp add: bytevec_get_def nth_init_def init_def)

lemma string_get_at [simp]:
  "heap st a = Some ob \<Longrightarrow> obj_data ob = PString s \<Longrightarrow> i < length (s_data s) \<Longrightarrow> s_data s ! i = Some b \<Longrightarrow>
   string_get (Ref a) i st n = (Inr b, st)"
  by (simp add: string_get_def nth_init_def init_def)

end
