(* ===== verification/Navi_Symbol.thy ===== *)
theory Navi_Symbol
  imports Navi_Array
begin

unbundle bit_operations_syntax

text \<open>
  Symbols (\<open>heap.c\<close>): the hash function, the table of 64 buckets, interning, the symbols the
  interpreter interns at start-up and the fresh symbols of \<open>gensym\<close> and \<open>make-parameter\<close>.  The
  table never holds two symbols of the same name, so \<open>navi_make_symbol\<close> is injective on names
  and two interned symbols are the same object exactly when they have the same name.
\<close>

section \<open>The symbol table\<close>

definition SYMTAB_SIZE :: nat where "SYMTAB_SIZE = 64"

text \<open>A \<open>char\<close> is signed: it is extended to 64 bits with its sign.\<close>

primrec symbol_hash_from :: "64 word \<Rightarrow> string \<Rightarrow> 64 word" where
  "symbol_hash_from hash [] = hash"
| "symbol_hash_from hash (c # cs) =
     symbol_hash_from ((push_bit 5 hash + hash) XOR word_of_int (sint (byte_of c))) cs"

definition symbol_hash :: "string \<Rightarrow> 64 word" where
  "symbol_hash symbol = symbol_hash_from 5381 symbol"

primrec bucket_find :: "addr list \<Rightarrow> string \<Rightarrow> navi_obj nm" where
  "bucket_find [] str = ret navi_make_void"
| "bucket_find (a # as) str =
     bind (navi_symbol (Ref a)) (\<lambda>(name, interned).
     if name = str then ret (Ref a) else bucket_find as str)"

definition bucket_of :: "64 word \<Rightarrow> nat" where
  "bucket_of hashcode = unat hashcode mod SYMTAB_SIZE"

definition symbol_lookup :: "string \<Rightarrow> 64 word \<Rightarrow> navi_obj nm" where
  "symbol_lookup str hashcode =
     bind (reads symbol_table) (\<lambda>table. bucket_find (table (bucket_of hashcode)) str)"

definition navi_make_uninterned :: "string \<Rightarrow> navi_obj nm" where
  "navi_make_uninterned str = make_object NAVI_SYMBOL (PSymbol str False)"

definition symbol_insert :: "navi_obj \<Rightarrow> nat \<Rightarrow> unit nm" where
  "symbol_insert object i = (case object of
       Ref a \<Rightarrow> modifies (\<lambda>st. st\<lparr>symbol_table := (symbol_table st)(i := a # symbol_table st i)\<rparr>)
     | _ \<Rightarrow> stop Undef)"

definition new_symbol :: "string \<Rightarrow> 64 word \<Rightarrow> navi_obj nm" where
  "new_symbol str hashcode =
     bind (navi_make_uninterned str) (\<lambda>object.
     bind (symbol_insert object (bucket_of hashcode)) (\<lambda>_.
     bind (put_data object (PSymbol str True)) (\<lambda>_.
     ret object)))"

definition navi_make_symbol :: "string \<Rightarrow> navi_obj nm" where
  "navi_make_symbol str =
     (let hashcode = symbol_hash str in
      bind (symbol_lookup str hashcode) (\<lambda>symbol.
      bind (navi_is_void symbol) (\<lambda>v.
      if v then new_symbol str hashcode else ret symbol)))"

definition navi_symbol_is_interned :: "navi_obj \<Rightarrow> bool nm" where
  "navi_symbol_is_interned symbol = bind (navi_symbol symbol) (\<lambda>(name, interned). ret interned)"

definition navi_typesym :: "navi_type \<Rightarrow> navi_obj nm" where
  "navi_typesym type = navi_make_symbol (navi_strtype type)"

definition navi_make_apair :: "string \<Rightarrow> navi_obj \<Rightarrow> navi_obj nm" where
  "navi_make_apair name val = bind (navi_make_symbol name) (\<lambda>s. navi_make_pair s val)"

section \<open>Symbols interned at start-up\<close>

definition interned_names :: "string list" where
  "interned_names =
     [''begin'', ''quote'', ''quasiquote'', ''unquote'', ''unquote-splice'', ''else'', ''=>'',
      ''#lib-search-paths'', ''#command-line'', ''#current-exception-handler'',
      ''current-input-port'', ''current-output-port'', ''current-error-port'',
      ''#read-error'', ''#file-error'', ''#internal-error'', ''#repl'', ''export'', ''import'',
      ''only'', ''except'', ''prefix'', ''rename'', ''define-library'', ''include'',
      ''include-ci'', ''include-library-declarations'', ''cond-expand'', ''...'', ''_'']"

text \<open>
  The variables \<open>navi_sym_...\<close> are written once, by \<open>symbol_table_init\<close> (in \<open>Navi_Gc\<close>, as it protects
  the symbols from the collector).  These symbols are the first objects the program allocates, in
  this order, so the value of each variable is the address of its place in the list.
\<close>

definition navi_sym_begin :: navi_obj where "navi_sym_begin = Ref 0"
definition navi_sym_quote :: navi_obj where "navi_sym_quote = Ref 1"
definition navi_sym_quasiquote :: navi_obj where "navi_sym_quasiquote = Ref 2"
definition navi_sym_unquote :: navi_obj where "navi_sym_unquote = Ref 3"
definition navi_sym_splice :: navi_obj where "navi_sym_splice = Ref 4"
definition navi_sym_else :: navi_obj where "navi_sym_else = Ref 5"
definition navi_sym_eq_lt :: navi_obj where "navi_sym_eq_lt = Ref 6"
definition navi_sym_lib_paths :: navi_obj where "navi_sym_lib_paths = Ref 7"
definition navi_sym_command_line :: navi_obj where "navi_sym_command_line = Ref 8"
definition navi_sym_current_exn :: navi_obj where "navi_sym_current_exn = Ref 9"
definition navi_sym_current_input :: navi_obj where "navi_sym_current_input = Ref 10"
definition navi_sym_current_output :: navi_obj where "navi_sym_current_output = Ref 11"
definition navi_sym_current_error :: navi_obj where "navi_sym_current_error = Ref 12"
definition navi_sym_read_error :: navi_obj where "navi_sym_read_error = Ref 13"
definition navi_sym_file_error :: navi_obj where "navi_sym_file_error = Ref 14"
definition navi_sym_internal_error :: navi_obj where "navi_sym_internal_error = Ref 15"
definition navi_sym_repl :: navi_obj where "navi_sym_repl = Ref 16"
definition navi_sym_export :: navi_obj where "navi_sym_export = Ref 17"
definition navi_sym_import :: navi_obj where "navi_sym_import = Ref 18"
definition navi_sym_only :: navi_obj where "navi_sym_only = Ref 19"
definition navi_sym_except :: navi_obj where "navi_sym_except = Ref 20"
definition navi_sym_prefix :: navi_obj where "navi_sym_prefix = Ref 21"
definition navi_sym_rename :: navi_obj where "navi_sym_rename = Ref 22"
definition navi_sym_deflib :: navi_obj where "navi_sym_deflib = Ref 23"
definition navi_sym_include :: navi_obj where "navi_sym_include = Ref 24"
definition navi_sym_include_ci :: navi_obj where "navi_sym_include_ci = Ref 25"
definition navi_sym_include_libdecl :: navi_obj where "navi_sym_include_libdecl = Ref 26"
definition navi_sym_cond_expand :: navi_obj where "navi_sym_cond_expand = Ref 27"
definition navi_sym_ellipsis :: navi_obj where "navi_sym_ellipsis = Ref 28"
definition navi_sym_underscore :: navi_obj where "navi_sym_underscore = Ref 29"

lemmas sym_defs = navi_sym_begin_def navi_sym_quote_def navi_sym_quasiquote_def navi_sym_unquote_def
  navi_sym_splice_def navi_sym_else_def navi_sym_eq_lt_def navi_sym_lib_paths_def
  navi_sym_command_line_def navi_sym_current_exn_def navi_sym_current_input_def
  navi_sym_current_output_def navi_sym_current_error_def navi_sym_read_error_def
  navi_sym_file_error_def navi_sym_internal_error_def navi_sym_repl_def navi_sym_export_def
  navi_sym_import_def navi_sym_only_def navi_sym_except_def navi_sym_prefix_def navi_sym_rename_def
  navi_sym_deflib_def navi_sym_include_def navi_sym_include_ci_def navi_sym_include_libdecl_def
  navi_sym_cond_expand_def navi_sym_ellipsis_def navi_sym_underscore_def

text \<open>A host without files; the numbers 0, 1 and 2 are those of the standard streams.\<close>

definition no_host :: host where
  "no_host = \<lparr>files = Map.empty, write_protected = (\<lambda>_. False), environ = [], clock = None\<rparr>"

definition empty_state :: state where
  "empty_state = \<lparr>heap = Map.empty, hp_next = 0, scopes = Map.empty, sc_next = 0,
     active_environments = [], guard_next = 0, symbol_table = (\<lambda>_. []),
     gensym_count = 0, param_count = 0, lambda_count = 0, streams = Map.empty,
     stream_next = 3, host = no_host, lib_buckets = (\<lambda>_. []), lib_store = Map.empty, lib_next = 0,
     first_second = 0\<rparr>"

section \<open>Fresh symbols\<close>

text \<open>The counters are \<open>unsigned int\<close> (\<open>unsigned long\<close> for lambdas) and wrap around.\<close>

definition scm_gensym :: "nat \<Rightarrow> navi_obj \<Rightarrow> navi_env \<Rightarrow> navi_obj nm" where
  "scm_gensym nr_args args env =
     bind (reads gensym_count) (\<lambda>count.
     bind (modifies (\<lambda>st. st\<lparr>gensym_count := Suc count mod 2 ^ 32\<rparr>)) (\<lambda>_.
     navi_make_uninterned (''g'' @ fmt_u count)))"

definition make_named_parameter_obj :: "navi_obj \<Rightarrow> navi_obj \<Rightarrow> navi_obj nm" where
  "make_named_parameter_obj symbol converter =
     bind (navi_make_pair symbol converter) (\<lambda>param.
     bind (put_type param NAVI_PARAMETER) (\<lambda>_. ret param))"

definition make_parameter_obj :: "navi_obj \<Rightarrow> navi_obj nm" where
  "make_parameter_obj converter =
     bind (reads param_count) (\<lambda>count.
     bind (modifies (\<lambda>st. st\<lparr>param_count := Suc count mod 2 ^ 32\<rparr>)) (\<lambda>_.
     bind (navi_make_uninterned (''param'' @ fmt_u count)) (\<lambda>symbol.
     make_named_parameter_obj symbol converter)))"

section \<open>The table as a map\<close>

text \<open>The name of the symbol at an address, and the table as a map from names to addresses.\<close>

definition name_at :: "state \<Rightarrow> addr \<Rightarrow> string option" where
  "name_at st a = (case heap st a of
       None \<Rightarrow> None
     | Some ob \<Rightarrow> (case obj_data ob of PSymbol s _ \<Rightarrow> Some s | _ \<Rightarrow> None))"

definition symtab :: "state \<Rightarrow> string \<Rightarrow> addr option" where
  "symtab st s = find (\<lambda>a. name_at st a = Some s) (symbol_table st (bucket_of (symbol_hash s)))"

abbreviation symbol_at :: "state \<Rightarrow> addr \<Rightarrow> string \<Rightarrow> bool \<Rightarrow> bool" where
  "symbol_at st a s i \<equiv> heap st a = Some \<lparr>obj_type = NAVI_SYMBOL, obj_data = PSymbol s i\<rparr>"

text \<open>
  The invariant of the table: every entry is an interned symbol in the bucket of its hash, and
  no name occurs twice.
\<close>

definition symtab_ok :: "state \<Rightarrow> bool" where
  "symtab_ok st \<longleftrightarrow> wf_heap st \<and>
     (\<forall>i. \<forall>a \<in> set (symbol_table st i). \<exists>s. symbol_at st a s True \<and> bucket_of (symbol_hash s) = i) \<and>
     (\<forall>i. distinct (map (name_at st) (symbol_table st i)))"

lemma symtab_okD:
  assumes "symtab_ok st"
  shows "wf_heap st" and "a \<in> set (symbol_table st i) \<Longrightarrow> \<exists>s. symbol_at st a s True \<and> bucket_of (symbol_hash s) = i"
    and "distinct (map (name_at st) (symbol_table st i))"
  using assms by (auto simp: symtab_ok_def)

lemma bucket_find_run:
  assumes "\<forall>a \<in> set as. \<exists>s. symbol_at st a s True"
  shows "bucket_find as str st n =
    (Inr (case find (\<lambda>a. name_at st a = Some str) as of None \<Rightarrow> VoidO | Some a \<Rightarrow> Ref a), st)"
  using assms
proof (induction as)
  case Nil
  then show ?case by (simp add: navi_make_void_def)
next
  case (Cons a as)
  then obtain s where "symbol_at st a s True" by auto
  with Cons show ?case by (auto simp: bind_run name_at_def)
qed

lemma symbol_lookup_run:
  assumes "symtab_ok st"
  shows "symbol_lookup str (symbol_hash str) st n =
    (Inr (case symtab st str of None \<Rightarrow> VoidO | Some a \<Rightarrow> Ref a), st)"
proof -
  have "\<forall>a \<in> set (symbol_table st (bucket_of (symbol_hash str))). \<exists>s. symbol_at st a s True"
    using symtab_okD(2) [OF assms] by blast
  from bucket_find_run [OF this] show ?thesis
    by (simp add: symbol_lookup_def symtab_def bind_run)
qed

lemma symtab_Some:
  assumes "symtab_ok st" and "symtab st s = Some a"
  shows "symbol_at st a s True" and "a \<in> set (symbol_table st (bucket_of (symbol_hash s)))"
proof -
  from assms(2) have a: "a \<in> set (symbol_table st (bucket_of (symbol_hash s)))" "name_at st a = Some s"
    by (auto simp: symtab_def find_Some_iff)
  then show "a \<in> set (symbol_table st (bucket_of (symbol_hash s)))" by blast
  from symtab_okD(2) [OF assms(1) a(1)] a(2) show "symbol_at st a s True"
    by (auto simp: name_at_def)
qed

lemma symtab_inj: "symtab_ok st \<Longrightarrow> symtab st s = Some a \<Longrightarrow> symtab st t = Some a \<Longrightarrow> s = t"
  using symtab_Some(1) [of st s a] symtab_Some(1) [of st t a] by simp

definition intern_st :: "string \<Rightarrow> state \<Rightarrow> state" where
  "intern_st str st = (alloc_st NAVI_SYMBOL (PSymbol str True) st)
     \<lparr>symbol_table := (symbol_table st)
        (bucket_of (symbol_hash str) := hp_next st # symbol_table st (bucket_of (symbol_hash str)))\<rparr>"

lemma new_symbol_run:
  "new_symbol str (symbol_hash str) st n = (Inr (Ref (hp_next st)), intern_st str st)"
  by (simp add: new_symbol_def navi_make_uninterned_def make_object_run symbol_insert_def bind_run
      put_data_def deref_def alloc_st_def intern_st_def)

lemma navi_make_symbol_run:
  assumes "symtab_ok st"
  shows "navi_make_symbol str st n = (case symtab st str of
      None \<Rightarrow> (Inr (Ref (hp_next st)), intern_st str st)
    | Some a \<Rightarrow> (Inr (Ref a), st))"
proof (cases "symtab st str")
  case None
  then show ?thesis
    by (simp add: navi_make_symbol_def bind_run symbol_lookup_run [OF assms] navi_is_void_def Let_def new_symbol_run)
next
  case (Some a)
  from symtab_Some(1) [OF assms Some] Some show ?thesis
    by (simp add: navi_make_symbol_def bind_run symbol_lookup_run [OF assms] navi_is_void_def Let_def)
qed

lemma heap_intern_st [simp]:
  "heap (intern_st s st) = (heap st)(hp_next st := Some \<lparr>obj_type = NAVI_SYMBOL, obj_data = PSymbol s True\<rparr>)"
  "hp_next (intern_st s st) = Suc (hp_next st)"
  "symbol_table (intern_st s st) = (symbol_table st)
        (bucket_of (symbol_hash s) := hp_next st # symbol_table st (bucket_of (symbol_hash s)))"
  "scopes (intern_st s st) = scopes st"
  by (simp_all add: intern_st_def alloc_st_def)

lemma wf_heap_intern: "wf_heap st \<Longrightarrow> wf_heap (intern_st s st)"
  using wf_heap_alloc [of st NAVI_SYMBOL "PSymbol s True"]
  by (simp add: intern_st_def wf_heap_def valid_obj_def)

lemma same_below_intern: "same_below st (intern_st s st)"
  by (simp add: same_below_def)

lemma intern_st_ok:
  assumes ok: "symtab_ok st" and none: "symtab st str = None"
  shows "symtab_ok (intern_st str st)" and "symtab (intern_st str st) = (symtab st)(str \<mapsto> hp_next st)"
proof -
  from ok have wf: "wf_heap st" by (simp add: symtab_ok_def)
  have old: "a < hp_next st" if "a \<in> set (symbol_table st i)" for a i
    using symtab_okD(2) [OF ok that] wf_heapD(1) [OF wf] by blast
  have name: "name_at (intern_st str st) a = name_at st a" if "a \<in> set (symbol_table st i)" for a i
    using old [OF that] by (simp add: name_at_def)
  have new: "name_at (intern_st str st) (hp_next st) = Some str" by (simp add: name_at_def)
  have maps: "map (name_at (intern_st str st)) (symbol_table st i) = map (name_at st) (symbol_table st i)" for i
    using name by simp
  have fresh: "Some str \<notin> name_at st ` set (symbol_table st (bucket_of (symbol_hash str)))"
    using none by (auto simp: symtab_def find_None_iff)
  show "symtab_ok (intern_st str st)"
    unfolding symtab_ok_def
  proof (intro conjI allI ballI)
    show "wf_heap (intern_st str st)" by (rule wf_heap_intern [OF wf])
    show "\<exists>s. symbol_at (intern_st str st) a s True \<and> bucket_of (symbol_hash s) = i"
      if "a \<in> set (symbol_table (intern_st str st) i)" for i a
    proof (cases "a = hp_next st")
      case True
      then show ?thesis using that old by (auto split: if_splits)
    next
      case False
      then have "a \<in> set (symbol_table st i)" using that by (auto split: if_splits)
      with ok False show ?thesis by (auto simp: symtab_ok_def)
    qed
    show "distinct (map (name_at (intern_st str st)) (symbol_table (intern_st str st) i))" for i
      using ok new fresh by (auto simp: symtab_ok_def maps simp flip: set_map)
  qed
  have cong: "find (\<lambda>a. name_at (intern_st str st) a = Some s) (symbol_table st i) =
      find (\<lambda>a. name_at st a = Some s) (symbol_table st i)" for s i
    by (rule find_cong) (use name in auto)
  show "symtab (intern_st str st) = (symtab st)(str \<mapsto> hp_next st)"
    by (rule ext) (auto simp: symtab_def new cong)
qed

text \<open>
  Interning refines the insertion into a map: the name found or added, nothing else changed.
\<close>

lemma navi_make_symbol_spec:
  assumes "symtab_ok st"
  shows "\<exists>a st'. navi_make_symbol str st n = (Inr (Ref a), st') \<and> symtab_ok st' \<and>
    symtab st' = (symtab st)(str \<mapsto> a) \<and> symbol_at st' a str True \<and> same_below st st' \<and>
    (symtab st str = None \<longrightarrow> a = hp_next st) \<and> (symtab st str \<noteq> None \<longrightarrow> st' = st)"
proof (cases "symtab st str")
  case None
  then show ?thesis
    using navi_make_symbol_run [OF assms, of str n] intern_st_ok [OF assms None] same_below_intern [of st str]
    by (intro exI [of _ "hp_next st"] exI [of _ "intern_st str st"]) simp
next
  case (Some a)
  then show ?thesis
    using navi_make_symbol_run [OF assms, of str n] symtab_Some(1) [OF assms Some] assms
    by (intro exI [of _ a] exI [of _ st]) (simp add: fun_upd_idem)
qed

lemma symtab_ok_empty: "symtab_ok empty_state"
  by (simp add: symtab_ok_def empty_state_def wf_heap_def)

lemma length_interned_names: "length interned_names = 30"
  by (simp add: interned_names_def)

lemma distinct_interned_names: "distinct interned_names"
  by (simp add: interned_names_def)

end
