(* ===== verification/Navi_Builder.thy ===== *)
theory Navi_Builder
  imports Navi_Symbol
begin

text \<open>
  The idiom with which the code builds a list front to back: a pair \<open>head\<close> on the stack, a
  pointer \<open>ptr\<close> to the last pair, each new pair linked behind \<open>ptr\<close>, and \<open>head.cdr\<close> returned.
  A builder is \<open>None\<close> while \<open>ptr\<close> points to \<open>head\<close>, and then the value of \<open>head.cdr\<close> with the
  value of \<open>ptr\<close>.
\<close>

type_synonym builder = "(navi_obj \<times> navi_obj) option"

definition build_link :: "builder \<Rightarrow> navi_obj \<Rightarrow> builder nm" where
  "build_link b p = (case b of
       None \<Rightarrow> ret (Some (p, p))
     | Some (front, ptr) \<Rightarrow> bind (navi_set_cdr ptr p) (\<lambda>_. ret (Some (front, p))))"

definition build_add :: "builder \<Rightarrow> builder nm" where
  "build_add b = bind navi_make_empty_pair (build_link b)"

definition build_set_car :: "builder \<Rightarrow> navi_obj \<Rightarrow> unit nm" where
  "build_set_car b x = (case b of None \<Rightarrow> stop Undef | Some (front, ptr) \<Rightarrow> navi_set_car ptr x)"

definition build_push :: "builder \<Rightarrow> navi_obj \<Rightarrow> builder nm" where
  "build_push b x =
     bind (build_add b) (\<lambda>b'. bind (build_set_car b' x) (\<lambda>_. ret b'))"

definition build_finish :: "builder \<Rightarrow> navi_obj \<Rightarrow> navi_obj nm" where
  "build_finish b t = (case b of
       None \<Rightarrow> ret t
     | Some (front, ptr) \<Rightarrow> bind (navi_set_cdr ptr t) (\<lambda>_. ret front))"

section \<open>Chains under construction\<close>

lemma cells_at_append:
  "cells_at s p (as @ bs) xs t \<longleftrightarrow>
     (\<exists>q ys zs. xs = ys @ zs \<and> cells_at s p as ys q \<and> cells_at s q bs zs t)"
proof (induction as arbitrary: p xs)
  case Nil
  then show ?case by simp
next
  case (Cons a as)
  show ?case
    by (auto simp: Cons.IH) (metis append_Cons)+
qed

lemma cells_at_frame:
  "cells_at s p as xs t \<Longrightarrow> (\<And>a. a \<in> set as \<Longrightarrow> heap s' a = heap s a) \<Longrightarrow> cells_at s' p as xs t"
  by (induction as arbitrary: p xs) fastforce+

lemma cells_at_heap: "cells_at s p as xs t \<Longrightarrow> a \<in> set as \<Longrightarrow> \<exists>ob. heap s a = Some ob"
  by (induction as arbitrary: p xs) auto

lemma cells_list_at:
  "cells_at s p as xs q \<Longrightarrow> list_at s q ys t \<Longrightarrow> list_at s p (xs @ ys) t"
  by (induction as arbitrary: p xs) auto

text \<open>
  In a state that extends \<open>s0\<close>, \<open>front\<close> leads through fresh pairs (above \<open>hp_next s0\<close>) with the
  elements \<open>xs\<close> to the last one, at address \<open>a\<close>, whose cdr is \<open>d\<close>.
\<close>

definition open_chain :: "state \<Rightarrow> state \<Rightarrow> navi_obj \<Rightarrow> addr \<Rightarrow> navi_obj list \<Rightarrow> navi_obj \<Rightarrow> bool" where
  "open_chain s0 s front a xs d \<longleftrightarrow> same_below s0 s \<and> wf_heap s \<and>
     (\<exists>as. distinct (as @ [a]) \<and> (\<forall>c \<in> set (as @ [a]). hp_next s0 \<le> c) \<and> cells_at s front (as @ [a]) xs d)"

lemma open_chainE:
  assumes "open_chain s0 s front a xs d"
  obtains as where "same_below s0 s" and "wf_heap s" and "distinct (as @ [a])"
    and "\<forall>c \<in> set (as @ [a]). hp_next s0 \<le> c \<and> c < hp_next s" and "cells_at s front (as @ [a]) xs d"
proof -
  from assms obtain as where as: "same_below s0 s" "wf_heap s" "distinct (as @ [a])"
    "\<forall>c \<in> set (as @ [a]). hp_next s0 \<le> c" "cells_at s front (as @ [a]) xs d"
    unfolding open_chain_def by blast
  have "\<forall>c \<in> set (as @ [a]). hp_next s0 \<le> c \<and> c < hp_next s"
    using as(4) cells_at_heap [OF as(5)] wf_heapD(1) [OF as(2)] by blast
  then show ?thesis using that as by blast
qed

lemma open_chainD:
  assumes "open_chain s0 s front a xs d"
  shows "same_below s0 s" and "wf_heap s" and "hp_next s0 \<le> a" and "a < hp_next s"
    and "\<exists>y. pair_at s a y d"
  using assms by (auto elim!: open_chainE simp: cells_at_append)

lemma open_chain_close: "open_chain s0 s front a xs d \<Longrightarrow> list_at s d ys u \<Longrightarrow> list_at s front (xs @ ys) u"
  by (auto simp: open_chain_def intro: cells_list_at)

lemma open_chain_single:
  assumes "wf_heap s" and "same_below s0 s" and "hp_next s0 \<le> a" and "pair_at s a x d"
  shows "open_chain s0 s (Ref a) a [x] d"
  unfolding open_chain_def using assms by (auto intro!: exI [of _ "[]"])

text \<open>The last pair's cdr is set: to any value, or to a pair allocated for the next element.\<close>

abbreviation set_pair :: "addr \<Rightarrow> navi_obj \<Rightarrow> navi_obj \<Rightarrow> state \<Rightarrow> state" where
  "set_pair a x d s \<equiv> s\<lparr>heap := (heap s)(a := Some \<lparr>obj_type = NAVI_PAIR, obj_data = PPair x d\<rparr>)\<rparr>"

lemma wf_heap_set_pair:
  assumes "wf_heap s" and "pair_at s a x d" and "valid_obj s y" and "valid_obj s e"
  shows "wf_heap (set_pair a y e s)"
  by (rule wf_heap_update [OF assms(1,2)]) (use assms(3,4) in auto)

lemma cells_at_set_pair:
  assumes "cells_at s p (as @ [a]) xs d" and "distinct (as @ [a])" and "pair_at s a y d"
  shows "cells_at (set_pair a y t s) p (as @ [a]) xs t"
proof -
  from assms(1) obtain ys x where ys: "xs = ys @ [x]" "cells_at s p as ys (Ref a)" "pair_at s a x d"
    by (auto simp: cells_at_append)
  then have "cells_at (set_pair a y t s) p as ys (Ref a)"
    using assms(2) by (intro cells_at_frame [OF ys(2)]) auto
  then show ?thesis using ys assms(3) by (auto simp: cells_at_append)
qed

lemma open_chain_set:
  assumes "open_chain s0 s front a xs d" and "valid_obj s t" and "pair_at s a y d"
  shows "open_chain s0 (set_pair a y t s) front a xs t"
proof -
  from assms(1) obtain as where as: "same_below s0 s" "wf_heap s" "distinct (as @ [a])"
    "\<forall>c \<in> set (as @ [a]). hp_next s0 \<le> c \<and> c < hp_next s" "cells_at s front (as @ [a]) xs d"
    by (rule open_chainE)
  have "wf_heap (set_pair a y t s)"
    by (rule wf_heap_set_pair [OF as(2) assms(3)]) (use assms(2) wf_heapD(3) [OF as(2) assms(3)] in auto)
  moreover have "same_below s0 (set_pair a y t s)" using as(1,4) by (auto simp: same_below_def)
  ultimately show ?thesis
    using as(3,4) cells_at_set_pair [OF as(5,3) assms(3)] unfolding open_chain_def by blast
qed

lemma open_chain_link:
  assumes "open_chain s0 s front a xs d" and "valid_obj s x" and "valid_obj s e" and "pair_at s a y d"
  shows "open_chain s0 (set_pair a y (Ref (hp_next s)) (alloc_st NAVI_PAIR (PPair x e) s))
    front (hp_next s) (xs @ [x]) e"
proof -
  let ?h = "hp_next s" and ?t = "alloc_st NAVI_PAIR (PPair x e) s"
  from assms(1) obtain as where as: "same_below s0 s" "wf_heap s" "distinct (as @ [a])"
    "\<forall>c \<in> set (as @ [a]). hp_next s0 \<le> c \<and> c < ?h" "cells_at s front (as @ [a]) xs d"
    by (rule open_chainE)
  have t: "wf_heap ?t" using assms(2,3) by (intro wf_heap_alloc as(2)) auto
  have p: "pair_at ?t a y d" using assms(4) as(4) by (auto simp: heap_alloc_st)
  have "cells_at ?t front (as @ [a]) xs d"
    by (rule cells_at_frame [OF as(5)]) (use as(4) in \<open>auto simp: heap_alloc_st\<close>)
  then have "cells_at (set_pair a y (Ref ?h) ?t) front (as @ [a]) xs (Ref ?h)"
    by (rule cells_at_set_pair [OF _ as(3) p])
  moreover have "pair_at (set_pair a y (Ref ?h) ?t) ?h x e" using as(4) by (auto simp: heap_alloc_st)
  ultimately have "cells_at (set_pair a y (Ref ?h) ?t) front ((as @ [a]) @ [?h]) (xs @ [x]) e"
    unfolding cells_at_append [of _ front "as @ [a]"] by auto
  moreover have "wf_heap (set_pair a y (Ref ?h) ?t)"
    by (rule wf_heap_set_pair [OF t p]) (use wf_heapD(3) [OF as(2) assms(4)] in
      \<open>auto simp: heap_alloc_st intro: valid_obj_alloc\<close>)
  moreover have "same_below s0 (set_pair a y (Ref ?h) ?t)"
    using as(1,4) by (auto simp: same_below_def heap_alloc_st)
  moreover have "distinct ((as @ [a]) @ [?h])" "\<forall>c \<in> set ((as @ [a]) @ [?h]). hp_next s0 \<le> c"
    using as(1,3,4) by (auto simp: same_below_def)
  ultimately show ?thesis unfolding open_chain_def by blast
qed

text \<open>The code's steps on the last pair: allocate a pair, link it, move on to it.\<close>

lemma link_cell_run:
  assumes "open_chain s0 s front a xs d" and "valid_obj s x" and "valid_obj s e"
  shows "\<exists>s'. navi_set_cdr (Ref a) (Ref (hp_next s)) (alloc_st NAVI_PAIR (PPair x e) s) n = (Inr (), s') \<and>
    navi_cdr (Ref a) s' n = (Inr (Ref (hp_next s)), s') \<and>
    open_chain s0 s' front (hp_next s) (xs @ [x]) e \<and> hp_next s' = Suc (hp_next s)"
proof -
  obtain y where y: "pair_at s a y d" using open_chainD(5) [OF assms(1)] by blast
  have a: "a \<noteq> hp_next s" using open_chainD(4) [OF assms(1)] by simp
  then show ?thesis using y open_chain_link [OF assms y] by (simp add: heap_alloc_st)
qed

lemma set_cdr_run:
  assumes "open_chain s0 s front a xs d" and "valid_obj s t"
  shows "\<exists>s'. navi_set_cdr (Ref a) t s n = (Inr (), s') \<and> open_chain s0 s' front a xs t \<and>
    hp_next s' = hp_next s"
proof -
  obtain y where y: "pair_at s a y d" using open_chainD(5) [OF assms(1)] by blast
  with open_chain_set [OF assms y] show ?thesis by simp
qed

text \<open>What lies below \<open>s0\<close> stays as it is while the chain grows.\<close>

lemma open_chain_list_at: "wf_heap s0 \<Longrightarrow> open_chain s0 s front a xs d \<Longrightarrow> list_at s0 p ys t \<Longrightarrow> list_at s p ys t"
  by (blast intro: list_at_same_below dest: open_chainD(1))

lemma open_chain_valid: "wf_heap s0 \<Longrightarrow> open_chain s0 s front a xs d \<Longrightarrow> valid_obj s0 x \<Longrightarrow> valid_obj s x"
  by (blast intro: valid_obj_hext hext_same_below dest: open_chainD(1))

section \<open>The builder\<close>

definition builder_at :: "state \<Rightarrow> state \<Rightarrow> builder \<Rightarrow> navi_obj list \<Rightarrow> bool" where
  "builder_at s0 s b xs \<longleftrightarrow> (case b of
       None \<Rightarrow> same_below s0 s \<and> wf_heap s \<and> xs = []
     | Some (front, ptr) \<Rightarrow> (\<exists>a d. ptr = Ref a \<and> open_chain s0 s front a xs d))"

lemma builder_atD:
  assumes "builder_at s0 s b xs"
  shows "same_below s0 s" and "wf_heap s"
  using assms by (auto simp: builder_at_def split: option.splits dest: open_chainD)

lemma builder_at_None: "wf_heap s \<Longrightarrow> builder_at s s None []"
  by (simp add: builder_at_def)

text \<open>Every way of adding an element: allocation, the link from the last pair, the car.\<close>

lemma build_push_run:
  assumes "builder_at s0 s b xs" and "valid_obj s x"
  shows "\<exists>b' s'. build_push b x s n = (Inr b', s') \<and> builder_at s0 s' b' (xs @ [x]) \<and>
    hp_next s' = Suc (hp_next s)"
proof -
  let ?h = "hp_next s"
  note wf = builder_atD(2) [OF assms(1)] and same = builder_atD(1) [OF assms(1)]
  have make: "navi_make_empty_pair s n = (Inr (Ref ?h), alloc_st NAVI_PAIR (PPair VoidO VoidO) s)"
    by (simp add: navi_make_empty_pair_def make_object_run)
  show ?thesis
  proof (cases b)
    case None
    let ?s2 = "alloc_st NAVI_PAIR (PPair x VoidO) s"
    have run: "build_push b x s n = (Inr (Some (Ref ?h, Ref ?h)), ?s2)"
      by (simp add: build_push_def build_add_def make bind_run build_link_def build_set_car_def None
          heap_alloc_st) (simp add: alloc_st_def)
    have "open_chain s0 ?s2 (Ref ?h) ?h [x] VoidO"
      using assms(2) same by (intro open_chain_single wf_heap_alloc wf)
        (auto simp: heap_alloc_st same_below_def)
    then show ?thesis using run None assms(1) by (auto simp: builder_at_def)
  next
    case (Some fp)
    with assms(1) obtain front a d where b: "b = Some (front, Ref a)" "open_chain s0 s front a xs d"
      by (cases fp) (auto simp: builder_at_def)
    obtain y where y: "pair_at s a y d" using open_chainD(5) [OF b(2)] by blast
    let ?s2 = "set_pair a y (Ref ?h) (alloc_st NAVI_PAIR (PPair x VoidO) s)"
    have "build_push b x s n = (Inr (Some (front, Ref ?h)), ?s2)"
      using open_chainD(4) [OF b(2)] y
      by (simp add: build_push_def build_add_def make bind_run build_link_def build_set_car_def b
          heap_alloc_st) (simp add: alloc_st_def fun_upd_twist)
    then show ?thesis using open_chain_link [OF b(2) assms(2) valid_obj_imm(1) y]
      by (auto simp: builder_at_def)
  qed
qed

lemma build_finish_run:
  assumes "builder_at s0 s b xs" and "list_at s0 t ys u" and "wf_heap s0"
  shows "\<exists>r s'. build_finish b t s n = (Inr r, s') \<and> list_at s' r (xs @ ys) u \<and> wf_heap s' \<and>
    same_below s0 s' \<and> hp_next s' = hp_next s"
proof (cases b)
  case None
  with assms show ?thesis
    by (auto simp: builder_at_def build_finish_def intro: list_at_same_below)
next
  case (Some fp)
  with assms(1) obtain front a d where b: "b = Some (front, Ref a)" "open_chain s0 s front a xs d"
    by (cases fp) (auto simp: builder_at_def)
  have "valid_obj s t"
    by (rule open_chain_valid [OF assms(3) b(2) list_at_valid [OF assms(2)]])
  then obtain s' where s': "navi_set_cdr (Ref a) t s n = (Inr (), s')" "open_chain s0 s' front a xs t"
      "hp_next s' = hp_next s"
    using set_cdr_run [OF b(2)] by blast
  have "list_at s' front (xs @ ys) u"
    by (rule open_chain_close [OF s'(2) open_chain_list_at [OF assms(3) s'(2) assms(2)]])
  then show ?thesis using s' open_chainD(1,2) [OF s'(2)] by (simp add: build_finish_def b)
qed

end
