(* ===== verification/Navi_Vector.thy ===== *)
theory Navi_Vector
  imports Navi_Builder
begin

text \<open>
  Vectors (\<open>vector.c\<close>).  The copying procedures check their indices with \<open>navi_check_copy_to\<close>;
  \<open>vector-ref\<close>, \<open>vector-set!\<close> and \<open>make-vector\<close> let a negative number through, which C then uses
  as an unsigned size or reads outside the vector.
\<close>

section \<open>Conversions\<close>

definition navi_vector_fill :: "navi_obj \<Rightarrow> navi_obj \<Rightarrow> unit nm" where
  "navi_vector_fill vector fill =
     bind (navi_vector vector) (\<lambda>vec.
     foldM (\<lambda>i _. vector_put vector i fill) [0..<length vec] ())"

definition navi_list_to_vector :: "navi_obj \<Rightarrow> navi_obj nm" where
  "navi_list_to_vector list =
     bind (navi_list_length list) (\<lambda>l.
     bind (navi_make_vector (int l)) (\<lambda>vec.
     after_loop (navi_list_for_each list 0 (\<lambda>cons i.
       bind (navi_car cons) (\<lambda>x.
       bind (vector_put vec i x) (\<lambda>_. ret (Continue (Suc i))))))
     (\<lambda>_ _. ret vec)))"

definition navi_vector_to_list :: "navi_obj \<Rightarrow> navi_obj nm" where
  "navi_vector_to_list obj =
     bind (navi_vector obj) (\<lambda>vector.
     bind (foldM (\<lambda>i b.
       bind (build_add b) (\<lambda>b'.
       bind (vector_get obj i) (\<lambda>x.
       bind (build_set_car b' x) (\<lambda>_. ret b')))) [0..<length vector] None) (\<lambda>b.
     build_finish b navi_make_nil))"

section \<open>The procedures\<close>

definition scm_vectorp :: "nat \<Rightarrow> navi_obj \<Rightarrow> navi_env \<Rightarrow> navi_obj nm" where
  "scm_vectorp nr_args args env = scm_type_test NAVI_VECTOR args"

definition scm_make_vector :: "nat \<Rightarrow> navi_obj \<Rightarrow> navi_env \<Rightarrow> navi_obj nm" where
  "scm_make_vector nr_args args env =
     (if nr_args > 2 then navi_arity_error env (ISym ''make-vector'')
      else bind (scm_arg1 args) (\<lambda>a. bind (navi_fixnum a) (\<lambda>k.
           bind (navi_make_vector k) (\<lambda>vec.
           bind (if nr_args < 2 then ret (navi_make_bool False) else scm_arg2 args) (\<lambda>fill.
           bind (navi_vector_fill vec fill) (\<lambda>_. ret vec))))))"

definition scm_vector :: "nat \<Rightarrow> navi_obj \<Rightarrow> navi_env \<Rightarrow> navi_obj nm" where
  "scm_vector nr_args args env = navi_list_to_vector args"

definition scm_vector_length :: "nat \<Rightarrow> navi_obj \<Rightarrow> navi_env \<Rightarrow> navi_obj nm" where
  "scm_vector_length nr_args args env =
     bind (scm_arg1 args) (\<lambda>a. bind (navi_vector a) (\<lambda>vec. ret (navi_make_fixnum (int (length vec)))))"

definition scm_vector_ref :: "nat \<Rightarrow> navi_obj \<Rightarrow> navi_env \<Rightarrow> navi_obj nm" where
  "scm_vector_ref nr_args args env =
     bind (scm_arg2 args) (\<lambda>i. bind (navi_fixnum i) (\<lambda>k.
     bind (scm_arg1 args) (\<lambda>v. bind (navi_vector v) (\<lambda>vec.
     if k \<ge> int (length vec) then navi_error env ''vector index out of bounds'' []
     else navi_vector_ref v k))))"

definition scm_vector_set :: "nat \<Rightarrow> navi_obj \<Rightarrow> navi_env \<Rightarrow> navi_obj nm" where
  "scm_vector_set nr_args args env =
     bind (scm_arg2 args) (\<lambda>i. bind (navi_fixnum i) (\<lambda>k.
     bind (scm_arg1 args) (\<lambda>v. bind (navi_vector v) (\<lambda>vec.
     if k \<ge> int (length vec) then navi_error env ''vector index out of bounds'' []
     else bind (scm_arg3 args) (\<lambda>x. bind (index k) (\<lambda>j.
          bind (vector_put v j x) (\<lambda>_. ret navi_unspecified)))))))"

definition scm_vector_to_list :: "nat \<Rightarrow> navi_obj \<Rightarrow> navi_env \<Rightarrow> navi_obj nm" where
  "scm_vector_to_list nr_args args env = bind (scm_arg1 args) navi_vector_to_list"

definition scm_list_to_vector :: "nat \<Rightarrow> navi_obj \<Rightarrow> navi_env \<Rightarrow> navi_obj nm" where
  "scm_list_to_vector nr_args args env = bind (scm_arg1 args) navi_list_to_vector"

section \<open>Copying\<close>

definition vector_copy_to :: "navi_obj \<Rightarrow> nat \<Rightarrow> navi_obj \<Rightarrow> nat \<Rightarrow> nat \<Rightarrow> navi_obj nm" where
  "vector_copy_to to at from start end =
     bind (navi_vector to) (\<lambda>_. bind (navi_vector from) (\<lambda>_.
     bind (foldM (\<lambda>i at.
       bind (vector_get from i) (\<lambda>x.
       bind (vector_put to at x) (\<lambda>_. ret (Suc at)))) [start..<end] at) (\<lambda>_.
     ret to)))"

text \<open>An optional index argument: the one given, cast to a fixnum, or a default.\<close>

definition opt_fixnum :: "bool \<Rightarrow> navi_obj nm \<Rightarrow> int \<Rightarrow> navi_env \<Rightarrow> int nm" where
  "opt_fixnum given arg dflt env =
     (if given then bind arg (\<lambda>x. navi_fixnum_cast x env) else ret dflt)"

definition scm_vector_fill :: "nat \<Rightarrow> navi_obj \<Rightarrow> navi_env \<Rightarrow> navi_obj nm" where
  "scm_vector_fill nr_args args env =
     bind (scm_arg1 args) (\<lambda>v. bind (navi_vector v) (\<lambda>vec.
     bind (scm_arg2 args) (\<lambda>fill.
     bind (opt_fixnum (nr_args > 2) (scm_arg3 args) 0 env) (\<lambda>start.
     bind (opt_fixnum (nr_args > 3) (scm_arg4 args) (int (length vec)) env) (\<lambda>end.
     bind (navi_check_copy (length vec) start end env) (\<lambda>_.
     bind (foldM (\<lambda>i _. vector_put v i fill) [nat start..<nat end] ()) (\<lambda>_.
     ret navi_unspecified)))))))"

definition scm_vector_copy :: "nat \<Rightarrow> navi_obj \<Rightarrow> navi_env \<Rightarrow> navi_obj nm" where
  "scm_vector_copy nr_args args env =
     bind (scm_arg1 args) (\<lambda>from. bind (navi_vector from) (\<lambda>vec.
     bind (opt_fixnum (nr_args > 1) (scm_arg2 args) 0 env) (\<lambda>start.
     bind (opt_fixnum (nr_args > 2) (scm_arg3 args) (int (length vec)) env) (\<lambda>end.
     bind (navi_check_copy (length vec) start end env) (\<lambda>_.
     bind (navi_make_vector (end - start)) (\<lambda>to.
     vector_copy_to to 0 from (nat start) (nat end)))))))"

definition scm_vector_copy_to :: "nat \<Rightarrow> navi_obj \<Rightarrow> navi_env \<Rightarrow> navi_obj nm" where
  "scm_vector_copy_to nr_args args env =
     bind (scm_arg1 args) (\<lambda>to.
     bind (scm_arg2 args) (\<lambda>a2. bind (navi_fixnum a2) (\<lambda>at.
     bind (scm_arg3 args) (\<lambda>from.
     bind (navi_vector to) (\<lambda>tov. bind (navi_vector from) (\<lambda>fromv.
     bind (opt_fixnum (nr_args > 3) (scm_arg4 args) 0 env) (\<lambda>start.
     bind (opt_fixnum (nr_args > 4) (scm_arg5 args) (int (length fromv)) env) (\<lambda>end.
     bind (navi_check_copy_to (length tov) at (length fromv) start end env) (\<lambda>_.
     bind (vector_copy_to to (nat at) from (nat start) (nat end)) (\<lambda>_.
     ret navi_unspecified))))))))))"

section \<open>Mapping\<close>

text \<open>\<open>navi_vector_map\<close> builds a call of the procedure and evaluates it, arguments included.\<close>

definition navi_vector_map :: "evalf \<Rightarrow> navi_obj \<Rightarrow> navi_obj \<Rightarrow> navi_obj \<Rightarrow> navi_env \<Rightarrow> navi_obj nm" where
  "navi_vector_map ev proc to from env =
     bind (navi_vector_cast to env) (\<lambda>tov.
     bind (navi_vector_cast from env) (\<lambda>fromv.
     bind (foldM (\<lambda>i _.
       bind (vector_get from i) (\<lambda>x.
       bind (navi_list [proc, x, navi_make_void, navi_make_void]) (\<lambda>call.
       bind (ev call env) (\<lambda>r.
       vector_put to i r)))) [0..<length tov] ()) (\<lambda>_.
     ret to)))"

definition scm_vector_map_ip :: "evalf \<Rightarrow> nat \<Rightarrow> navi_obj \<Rightarrow> navi_env \<Rightarrow> navi_obj nm" where
  "scm_vector_map_ip ev nr_args args env =
     bind (scm_arg1 args) (\<lambda>proc. bind (navi_check_arity proc 1 env) (\<lambda>_.
     bind (scm_arg2 args) (\<lambda>v. navi_vector_map ev proc v v env)))"

definition vector_arg_list :: "navi_obj list \<Rightarrow> nat \<Rightarrow> navi_obj nm" where
  "vector_arg_list vecs k =
     bind (foldM (\<lambda>v b.
       bind (build_add b) (\<lambda>b'.
       bind (vector_get v k) (\<lambda>x.
       bind (build_set_car b' x) (\<lambda>_. ret b')))) vecs None) (\<lambda>b.
     build_finish b navi_make_nil)"

definition vector_array_fill :: "navi_obj \<Rightarrow> navi_env \<Rightarrow> (navi_obj list \<times> nat) nm" where
  "vector_array_fill args env =
     bind (navi_car args) (\<lambda>a. bind (navi_vector a) (\<lambda>first.
     after_loop (navi_list_for_each args ([], length first) (\<lambda>cons (array, min_len).
       bind (navi_car cons) (\<lambda>x.
       bind (navi_vector_cast x env) (\<lambda>vec.
       ret (Continue (array @ [x], if length vec < min_len then length vec else min_len))))))
     (\<lambda>_ r. ret r)))"

definition scm_vector_for_each :: "evalf \<Rightarrow> applyf \<Rightarrow> nat \<Rightarrow> navi_obj \<Rightarrow> navi_env \<Rightarrow> navi_obj nm" where
  "scm_vector_for_each ev ap nr_args args env =
     bind (scm_arg1 args) (\<lambda>proc. bind (navi_check_arity proc (nr_args - 1) env) (\<lambda>_.
     bind (navi_cdr args) (\<lambda>rest.
     bind (vector_array_fill rest env) (\<lambda>(vecs, min_len).
     bind (foldM (\<lambda>i _.
       bind (vector_arg_list vecs i) (\<lambda>call_args.
       bind (do_apply_forced ev ap proc call_args env) (\<lambda>_. ret ()))) [0..<min_len] ()) (\<lambda>_.
     ret navi_unspecified)))))"

definition scm_vector_map :: "evalf \<Rightarrow> applyf \<Rightarrow> nat \<Rightarrow> navi_obj \<Rightarrow> navi_env \<Rightarrow> navi_obj nm" where
  "scm_vector_map ev ap nr_args args env =
     bind (scm_arg1 args) (\<lambda>proc. bind (navi_check_arity proc (nr_args - 1) env) (\<lambda>_.
     bind (navi_cdr args) (\<lambda>rest.
     bind (vector_array_fill rest env) (\<lambda>(vecs, min_len).
     bind (navi_make_vector (int min_len)) (\<lambda>result.
     bind (foldM (\<lambda>i _.
       bind (vector_arg_list vecs i) (\<lambda>call_args.
       bind (do_apply_forced ev ap proc call_args env) (\<lambda>r.
       vector_put result i r))) [0..<min_len] ()) (\<lambda>_.
     ret result))))))"

end
