(* ===== verification/Navi_Scope.thy ===== *)
theory Navi_Scope
  imports Navi_Symbol
begin

unbundle bit_operations_syntax

text \<open>
  Environments (\<open>environment.c\<close>, \<open>heap.c\<close>, \<open>internal.h\<close>): a scope is a hash table of 64
  buckets keyed by the symbol's pointer, with a link to the next scope and a reference count.
  The table operations are first defined on the array of buckets and shown to be those of a
  finite map; the locale \<open>binding_table\<close> states that contract and proves what its clients use.
  A pointer to a binding is the pair of the scope and the symbol it is stored under.
\<close>

section \<open>Buckets\<close>

definition NAVI_ENV_HT_SIZE :: nat where "NAVI_ENV_HT_SIZE = 64"

type_synonym buckets = "nat \<Rightarrow> binding list"

definition ptr_hash :: "navi_obj \<Rightarrow> nat" where
  "ptr_hash ptr = unat (obj_word ptr)"

definition get_bucket :: "nat \<Rightarrow> nat" where
  "get_bucket hashcode = hashcode mod NAVI_ENV_HT_SIZE"

text \<open>The loop over a bucket: the object of the first binding of the symbol.\<close>

primrec bucket_lookup :: "binding list \<Rightarrow> navi_obj \<Rightarrow> navi_obj option" where
  "bucket_lookup [] symbol = None"
| "bucket_lookup (b # bs) symbol = (if fst b = symbol then Some (snd b) else bucket_lookup bs symbol)"

text \<open>Assigning through the pointer to a binding, and unlinking it.\<close>

primrec bucket_assign :: "binding list \<Rightarrow> navi_obj \<Rightarrow> navi_obj \<Rightarrow> binding list" where
  "bucket_assign [] symbol object = []"
| "bucket_assign (b # bs) symbol object =
     (if fst b = symbol then (symbol, object) # bs else b # bucket_assign bs symbol object)"

primrec bucket_unlink :: "binding list \<Rightarrow> navi_obj \<Rightarrow> binding list" where
  "bucket_unlink [] symbol = []"
| "bucket_unlink (b # bs) symbol = (if fst b = symbol then bs else b # bucket_unlink bs symbol)"

definition table_lookup :: "buckets \<Rightarrow> navi_obj \<Rightarrow> navi_obj option" where
  "table_lookup t symbol = bucket_lookup (t (get_bucket (ptr_hash symbol))) symbol"

definition table_assign :: "navi_obj \<Rightarrow> navi_obj \<Rightarrow> buckets \<Rightarrow> buckets" where
  "table_assign symbol object t =
     (let i = get_bucket (ptr_hash symbol) in t(i := bucket_assign (t i) symbol object))"

definition table_insert_head :: "navi_obj \<Rightarrow> navi_obj \<Rightarrow> buckets \<Rightarrow> buckets" where
  "table_insert_head symbol object t =
     (let i = get_bucket (ptr_hash symbol) in t(i := (symbol, object) # t i))"

definition table_set :: "navi_obj \<Rightarrow> navi_obj \<Rightarrow> buckets \<Rightarrow> buckets" where
  "table_set symbol object t =
     (case table_lookup t symbol of
        Some _ \<Rightarrow> table_assign symbol object t
      | None \<Rightarrow> table_insert_head symbol object t)"

definition table_unset :: "navi_obj \<Rightarrow> buckets \<Rightarrow> buckets" where
  "table_unset symbol t =
     (let i = get_bucket (ptr_hash symbol) in t(i := bucket_unlink (t i) symbol))"

text \<open>Every binding is in the bucket of its symbol, and no symbol is bound twice.\<close>

definition table_ok :: "buckets \<Rightarrow> bool" where
  "table_ok t \<longleftrightarrow> (\<forall>i. distinct (map fst (t i)) \<and>
     (\<forall>b \<in> set (t i). get_bucket (ptr_hash (fst b)) = i))"

section \<open>The contract of a table of bindings\<close>

locale binding_table =
  fixes lookup :: "'t \<Rightarrow> 'k \<Rightarrow> 'v option"
    and set_binding :: "'k \<Rightarrow> 'v \<Rightarrow> 't \<Rightarrow> 't"
    and ok :: "'t \<Rightarrow> bool"
  assumes lookup_set: "ok t \<Longrightarrow> lookup (set_binding k v t) = (lookup t)(k \<mapsto> v)"
    and ok_set: "ok t \<Longrightarrow> ok (set_binding k v t)"
begin

definition set_all :: "('k \<times> 'v) list \<Rightarrow> 't \<Rightarrow> 't" where
  "set_all kvs t = fold (\<lambda>(k, v). set_binding k v) kvs t"

lemma set_all_Nil [simp]: "set_all [] t = t"
  by (simp add: set_all_def)

lemma set_all_snoc: "set_all (kvs @ [(k, v)]) t = set_binding k v (set_all kvs t)"
  by (simp add: set_all_def)

lemma ok_set_all: "ok t \<Longrightarrow> ok (set_all kvs t)"
  by (induction kvs rule: rev_induct) (auto simp: set_all_snoc ok_set)

lemma lookup_set_all: "ok t \<Longrightarrow> lookup (set_all kvs t) = lookup t ++ map_of (rev kvs)"
  by (induction kvs rule: rev_induct) (auto simp: set_all_snoc lookup_set ok_set_all)

lemma lookup_set_all_distinct:
  "ok t \<Longrightarrow> distinct (map fst kvs) \<Longrightarrow> (k, v) \<in> set kvs \<Longrightarrow> lookup (set_all kvs t) k = Some v"
  by (simp add: lookup_set_all map_add_Some_iff map_of_eq_Some_iff rev_map [symmetric])

lemma set_set_same: "ok t \<Longrightarrow> lookup (set_binding k v (set_binding k w t)) = lookup (set_binding k v t)"
  by (simp add: lookup_set ok_set)

end

locale removable_table = binding_table lookup set_binding ok
  for lookup :: "'t \<Rightarrow> 'k \<Rightarrow> 'v option" and set_binding and ok +
  fixes unset :: "'k \<Rightarrow> 't \<Rightarrow> 't"
  assumes lookup_unset: "ok t \<Longrightarrow> lookup (unset k t) = (lookup t)(k := None)"
    and ok_unset: "ok t \<Longrightarrow> ok (unset k t)"
begin

lemma unset_restores: "ok t \<Longrightarrow> lookup t k = None \<Longrightarrow> lookup (unset k (set_binding k v t)) = lookup t"
  by (simp add: lookup_unset lookup_set ok_set fun_upd_idem)

lemma unset_absent: "ok t \<Longrightarrow> lookup t k = None \<Longrightarrow> lookup (unset k t) = lookup t"
  by (simp add: lookup_unset fun_upd_idem)

end

section \<open>The hash table meets the contract\<close>

lemma bucket_lookup_None: "bucket_lookup bs k = None \<longleftrightarrow> k \<notin> fst ` set bs"
  by (induction bs) auto

lemma bucket_lookup_assign:
  "bucket_lookup (bucket_assign bs k v) j =
     (if j = k \<and> bucket_lookup bs k \<noteq> None then Some v else bucket_lookup bs j)"
  by (induction bs) auto

lemma bucket_lookup_unlink:
  assumes "distinct (map fst bs)"
  shows "bucket_lookup (bucket_unlink bs k) j = (if j = k then None else bucket_lookup bs j)"
  using assms
proof (induction bs)
  case (Cons b bs)
  then have "bucket_lookup bs (fst b) = None" by (simp add: bucket_lookup_None)
  with Cons show ?case by auto
qed simp

lemma keys_bucket_assign: "map fst (bucket_assign bs k v) = map fst bs"
  by (induction bs) auto

lemma set_bucket_unlink: "set (bucket_unlink bs k) \<subseteq> set bs"
  by (induction bs) auto

lemma distinct_bucket_unlink: "distinct (map fst bs) \<Longrightarrow> distinct (map fst (bucket_unlink bs k))"
  by (induction bs) (use set_bucket_unlink in \<open>auto simp: image_iff\<close>)

lemma table_lookup_set: "table_lookup (table_set k v t) = (table_lookup t)(k \<mapsto> v)"
  by (rule ext) (auto simp: table_set_def table_lookup_def table_assign_def table_insert_head_def
      Let_def bucket_lookup_assign split: option.splits)

lemma fst_bucket_assign: "b \<in> set (bucket_assign bs k v) \<Longrightarrow> fst b \<in> fst ` set bs"
  using keys_bucket_assign [of bs k v] by (metis image_eqI list.set_map)

lemma table_ok_set: "table_ok t \<Longrightarrow> table_ok (table_set k v t)"
  unfolding table_ok_def table_set_def table_lookup_def table_assign_def table_insert_head_def Let_def
  by (auto simp: keys_bucket_assign bucket_lookup_None dest!: fst_bucket_assign split: option.splits) fastforce+

lemma table_lookup_unset: "table_ok t \<Longrightarrow> table_lookup (table_unset k t) = (table_lookup t)(k := None)"
  by (rule ext) (auto simp: table_unset_def table_lookup_def table_ok_def Let_def bucket_lookup_unlink)

lemma table_ok_unset:
  assumes "table_ok t"
  shows "table_ok (table_unset k t)"
proof -
  have sub: "b \<in> set (t i)" if "b \<in> set (table_unset k t i)" for b i
    using that set_bucket_unlink by (auto simp: table_unset_def Let_def split: if_splits)
  moreover have "distinct (map fst (table_unset k t i))" for i
    using assms by (simp add: table_unset_def table_ok_def Let_def distinct_bucket_unlink)
  ultimately show ?thesis using assms unfolding table_ok_def by blast
qed

interpretation scope_table: removable_table table_lookup table_set table_ok table_unset
  by unfold_locales (simp_all add: table_lookup_set table_ok_set table_lookup_unset table_ok_unset)

section \<open>Scopes\<close>

definition deref_scope :: "sid \<Rightarrow> navi_scope nm" where
  "deref_scope s = (\<lambda>st n. case scopes st s of
       None \<Rightarrow> (Inl Undef, st)
     | Some sc \<Rightarrow> (Inr sc, st))"

definition put_scope :: "sid \<Rightarrow> navi_scope \<Rightarrow> unit nm" where
  "put_scope s sc = modifies (\<lambda>st. st\<lparr>scopes := (scopes st)(s := Some sc)\<rparr>)"

definition update_scope :: "sid \<Rightarrow> (navi_scope \<Rightarrow> navi_scope) \<Rightarrow> unit nm" where
  "update_scope s f = bind (deref_scope s) (\<lambda>sc. put_scope s (f sc))"

type_synonym binding_ptr = "sid \<times> navi_obj"

definition scope_lookup :: "sid \<Rightarrow> navi_obj \<Rightarrow> nat \<Rightarrow> binding_ptr option nm" where
  "scope_lookup scope symbol hashcode =
     bind (deref_scope scope) (\<lambda>sc.
     case bucket_lookup (bindings sc (get_bucket hashcode)) symbol of
       None \<Rightarrow> ret None
     | Some _ \<Rightarrow> ret (Some (scope, symbol)))"

definition navi_scope_lookup :: "sid \<Rightarrow> navi_obj \<Rightarrow> binding_ptr option nm" where
  "navi_scope_lookup scope symbol = scope_lookup scope symbol (ptr_hash symbol)"

text \<open>Reading and assigning \<open>binding->object\<close>.\<close>

definition binding_object :: "binding_ptr \<Rightarrow> navi_obj nm" where
  "binding_object b =
     bind (deref_scope (fst b)) (\<lambda>sc.
     case table_lookup (bindings sc) (snd b) of None \<Rightarrow> stop Undef | Some x \<Rightarrow> ret x)"

definition binding_assign :: "binding_ptr \<Rightarrow> navi_obj \<Rightarrow> unit nm" where
  "binding_assign b object =
     update_scope (fst b) (\<lambda>sc. sc\<lparr>bindings := table_assign (snd b) object (bindings sc)\<rparr>)"

text \<open>
  The walk along the scope links.  A scope is always younger than the one it links to, so no
  walk visits more scopes than were ever made: that number bounds the loop.
\<close>

primrec env_binding_loop :: "nat \<Rightarrow> sid option \<Rightarrow> navi_obj \<Rightarrow> nat \<Rightarrow> binding_ptr option nm" where
  "env_binding_loop 0 s symbol hashcode = stop NoFuel"
| "env_binding_loop (Suc k) s symbol hashcode = (case s of
       None \<Rightarrow> ret None
     | Some sid \<Rightarrow>
         bind (scope_lookup sid symbol hashcode) (\<lambda>binding. case binding of
           Some b \<Rightarrow> ret (Some b)
         | None \<Rightarrow> bind (deref_scope sid) (\<lambda>sc.
             env_binding_loop k (next_scope sc) symbol hashcode)))"

definition navi_env_binding :: "sid \<Rightarrow> navi_obj \<Rightarrow> binding_ptr option nm" where
  "navi_env_binding env symbol =
     bind (reads sc_next) (\<lambda>k. env_binding_loop (Suc (Suc k)) (Some env) symbol (ptr_hash symbol))"

definition navi_env_lookup :: "sid \<Rightarrow> navi_obj \<Rightarrow> navi_obj nm" where
  "navi_env_lookup env symbol =
     bind (navi_env_binding env symbol) (\<lambda>binding. case binding of
       None \<Rightarrow> ret navi_make_void
     | Some b \<Rightarrow> binding_object b)"

text \<open>\<open>_navi_make_scope\<close> leaves the reference count to its caller.\<close>

definition new_scope :: navi_scope where
  "new_scope = \<lparr>next_scope = None, refs = 0, guards = [], bindings = (\<lambda>_. [])\<rparr>"

definition navi_make_scope_raw :: "sid nm" where
  "navi_make_scope_raw =
     bind (reads sc_next) (\<lambda>s.
     bind (modifies (\<lambda>st. st\<lparr>scopes := (scopes st)(s := Some new_scope), sc_next := Suc s\<rparr>)) (\<lambda>_.
     ret s))"

definition navi_make_scope :: "sid nm" where
  "navi_make_scope =
     bind navi_make_scope_raw (\<lambda>s.
     bind (modifies (\<lambda>st. st\<lparr>active_environments := s # active_environments st\<rparr>)) (\<lambda>_.
     bind (update_scope s (\<lambda>sc. sc\<lparr>refs := 1\<rparr>)) (\<lambda>_.
     ret s)))"

text \<open>The reference count is an \<open>unsigned int\<close>.\<close>

definition navi_scope_ref :: "sid \<Rightarrow> sid nm" where
  "navi_scope_ref s = bind (update_scope s (\<lambda>sc. sc\<lparr>refs := Suc (refs sc) mod 2 ^ 32\<rparr>)) (\<lambda>_. ret s)"

definition navi_env_ref :: "navi_env \<Rightarrow> unit nm" where
  "navi_env_ref env =
     bind (navi_scope_ref (lexical env)) (\<lambda>_. bind (navi_scope_ref (dynamic env)) (\<lambda>_. ret ()))"

text \<open>
  Dropping the last reference frees the scope and drops its reference to the next one; the
  recursion goes along the scope links.
\<close>

primrec scope_unref_depth :: "nat \<Rightarrow> sid \<Rightarrow> unit nm" where
  "scope_unref_depth 0 s = stop NoFuel"
| "scope_unref_depth (Suc k) s =
     bind (update_scope s (\<lambda>sc. sc\<lparr>refs := (refs sc + (2 ^ 32 - 1)) mod 2 ^ 32\<rparr>)) (\<lambda>_.
     bind (deref_scope s) (\<lambda>sc.
     if refs sc = 0 then
       bind (modifies (\<lambda>st. st\<lparr>active_environments := removeAll s (active_environments st)\<rparr>)) (\<lambda>_.
       bind (case next_scope sc of
               None \<Rightarrow> ret ()
             | Some nx \<Rightarrow> scope_unref_depth k nx) (\<lambda>_.
       modifies (\<lambda>st. st\<lparr>scopes := (scopes st)(s := None)\<rparr>)))
     else ret ()))"

definition navi_scope_unref :: "sid \<Rightarrow> unit nm" where
  "navi_scope_unref s = bind (reads sc_next) (\<lambda>k. scope_unref_depth (Suc k) s)"

definition navi_env_unref :: "navi_env \<Rightarrow> unit nm" where
  "navi_env_unref env =
     bind (navi_scope_unref (lexical env)) (\<lambda>_. navi_scope_unref (dynamic env))"

definition navi_env_new_scope :: "navi_env \<Rightarrow> navi_env nm" where
  "navi_env_new_scope env =
     bind navi_make_scope (\<lambda>s.
     bind (navi_env_ref env) (\<lambda>_.
     bind (update_scope s (\<lambda>sc. sc\<lparr>next_scope := Some (lexical env)\<rparr>)) (\<lambda>_.
     ret \<lparr>lexical = s, dynamic = dynamic env\<rparr>)))"

definition navi_dynamic_env_new_scope :: "navi_env \<Rightarrow> navi_env nm" where
  "navi_dynamic_env_new_scope env =
     bind navi_make_scope (\<lambda>s.
     bind (navi_env_ref env) (\<lambda>_.
     bind (update_scope s (\<lambda>sc. sc\<lparr>next_scope := Some (dynamic env)\<rparr>)) (\<lambda>_.
     ret \<lparr>lexical = lexical env, dynamic = s\<rparr>)))"

definition scope_insert_head :: "sid \<Rightarrow> navi_obj \<Rightarrow> navi_obj \<Rightarrow> unit nm" where
  "scope_insert_head s symbol object =
     update_scope s (\<lambda>sc. sc\<lparr>bindings := table_insert_head symbol object (bindings sc)\<rparr>)"

definition env_set :: "navi_env \<Rightarrow> navi_obj \<Rightarrow> navi_obj \<Rightarrow> unit nm" where
  "env_set env symbol object =
     bind (navi_env_binding (lexical env) symbol) (\<lambda>binding. case binding of
       Some b \<Rightarrow> binding_assign b object
     | None \<Rightarrow> scope_insert_head (lexical env) symbol object)"

definition navi_scope_set :: "sid \<Rightarrow> navi_obj \<Rightarrow> navi_obj \<Rightarrow> unit nm" where
  "navi_scope_set env symbol object =
     bind (scope_lookup env symbol (ptr_hash symbol)) (\<lambda>binding. case binding of
       Some b \<Rightarrow> binding_assign b object
     | None \<Rightarrow> scope_insert_head env symbol object)"

definition navi_scope_unset :: "sid \<Rightarrow> navi_obj \<Rightarrow> bool nm" where
  "navi_scope_unset env symbol =
     bind (scope_lookup env symbol (ptr_hash symbol)) (\<lambda>binding. case binding of
       None \<Rightarrow> ret False
     | Some _ \<Rightarrow>
         bind (update_scope env (\<lambda>sc. sc\<lparr>bindings := table_unset symbol (bindings sc)\<rparr>)) (\<lambda>_.
         ret True))"

definition navi_extend_environment :: "navi_env \<Rightarrow> navi_obj \<Rightarrow> navi_obj \<Rightarrow> navi_env nm" where
  "navi_extend_environment env vars args =
     bind (navi_env_new_scope env) (\<lambda>new.
     bind (navi_list_for_each_zipped vars args (\<lambda>vcons acons.
       bind (navi_car vcons) (\<lambda>v. bind (navi_car acons) (\<lambda>a.
       bind (navi_scope_set (lexical new) v a) (\<lambda>_. ret (Continue ()))))))
     (\<lambda>((vcons, acons), c :: (unit, unit) ctl).
     bind (navi_is_nil vcons) (\<lambda>b.
     bind (if \<not> b then navi_scope_set (lexical new) vcons acons else ret ()) (\<lambda>_.
     ret new))))"

definition navi_import_all :: "sid \<Rightarrow> sid \<Rightarrow> unit nm" where
  "navi_import_all dst src =
     foldM (\<lambda>i _.
       bind (deref_scope src) (\<lambda>sc.
       foldM (\<lambda>(symbol, object) _. navi_scope_set dst symbol object) (bindings sc i) ()))
     [0..<NAVI_ENV_HT_SIZE] ()"

definition navi_empty_environment_raw :: "navi_env nm" where
  "navi_empty_environment_raw =
     bind navi_make_scope (\<lambda>l. bind navi_make_scope (\<lambda>d. ret \<lparr>lexical = l, dynamic = d\<rparr>))"

definition new_lexical_environment :: "navi_env \<Rightarrow> navi_env nm" where
  "new_lexical_environment env =
     bind navi_make_scope (\<lambda>l.
     bind (navi_scope_ref (dynamic env)) (\<lambda>d. ret \<lparr>lexical = l, dynamic = d\<rparr>))"

primrec global_scope_loop :: "nat \<Rightarrow> sid \<Rightarrow> sid nm" where
  "global_scope_loop 0 s = stop NoFuel"
| "global_scope_loop (Suc k) s =
     bind (deref_scope s) (\<lambda>sc. case next_scope sc of
       None \<Rightarrow> ret s
     | Some nx \<Rightarrow> global_scope_loop k nx)"

definition get_global_scope :: "sid \<Rightarrow> sid nm" where
  "get_global_scope s = bind (reads sc_next) (\<lambda>k. global_scope_loop (Suc k) s)"

definition navi_get_global_env :: "navi_env \<Rightarrow> navi_env nm" where
  "navi_get_global_env env =
     bind (get_global_scope (lexical env)) (\<lambda>l.
     bind (get_global_scope (dynamic env)) (\<lambda>d. ret \<lparr>lexical = l, dynamic = d\<rparr>))"

section \<open>Guards\<close>

text \<open>
  A guard keeps an object alive for the collector: it is linked at the head of the list of the
  lexical scope.  Values with a tag bit need none.
\<close>

definition navi_gc_guard :: "navi_obj \<Rightarrow> navi_env \<Rightarrow> (sid \<times> nat) option nm" where
  "navi_gc_guard obj env =
     (if navi_is_immediate (obj_word obj) then ret None
      else bind (reads guard_next) (\<lambda>g.
           bind (modifies (\<lambda>st. st\<lparr>guard_next := Suc g\<rparr>)) (\<lambda>_.
           bind (update_scope (lexical env) (\<lambda>sc. sc\<lparr>guards := (g, obj) # guards sc\<rparr>)) (\<lambda>_.
           ret (Some (lexical env, g))))))"

definition navi_gc_unguard :: "(sid \<times> nat) option \<Rightarrow> unit nm" where
  "navi_gc_unguard guard = (case guard of
       None \<Rightarrow> ret ()
     | Some (s, g) \<Rightarrow> update_scope s (\<lambda>sc. sc\<lparr>guards := filter (\<lambda>(h, _). h \<noteq> g) (guards sc)\<rparr>))"

end
