(* ===== verification/Navi_Procedure.thy ===== *)
theory Navi_Procedure
  imports Navi_Vector Navi_Scope
begin

text \<open>
  Procedures, thunks and the other objects that carry an environment (\<open>heap.c\<close>,
  \<open>internal.h\<close>), and the check of a call's arguments (\<open>eval.c\<close>: \<open>check_apply\<close>).
\<close>

section \<open>Construction\<close>

definition count_pairs :: "navi_obj \<Rightarrow> nat nm" where
  "count_pairs list =
     after_loop (navi_list_for_each list 0 (\<lambda>_ i. ret (Continue (Suc i)))) (\<lambda>_ i. ret i)"

text \<open>A procedure object before its fields are written.\<close>

definition blank_procedure :: navi_procedure where
  "blank_procedure = \<lparr>p_builtin = False, p_variadic = False, p_arity = 0, p_name = VoidO,
     p_env = 0, p_args = VoidO, p_code = Body VoidO, p_types = None\<rparr>"

definition navi_make_procedure :: "navi_obj \<Rightarrow> navi_obj \<Rightarrow> navi_obj \<Rightarrow> navi_env \<Rightarrow> navi_obj nm" where
  "navi_make_procedure args body name env =
     bind (make_object NAVI_PROCEDURE (PProc blank_procedure)) (\<lambda>obj.
     bind (navi_scope_ref (lexical env)) (\<lambda>scope.
     bind (count_pairs args) (\<lambda>arity.
     bind (navi_is_proper_list args) (\<lambda>proper.
     bind (put_data obj (PProc \<lparr>p_builtin = False, p_variadic = \<not> proper, p_arity = arity,
       p_name = name, p_env = scope, p_args = args, p_code = Body body, p_types = None\<rparr>)) (\<lambda>_.
     ret obj)))))"

definition navi_make_lambda :: "navi_obj \<Rightarrow> navi_obj \<Rightarrow> navi_env \<Rightarrow> navi_obj nm" where
  "navi_make_lambda args body env =
     bind (reads lambda_count) (\<lambda>count.
     bind (modifies (\<lambda>st. st\<lparr>lambda_count := Suc count mod 2 ^ 64\<rparr>)) (\<lambda>_.
     bind (navi_make_uninterned (''lam'' @ fmt_u count)) (\<lambda>name.
     navi_make_procedure args body name env)))"

definition navi_make_thunk :: "navi_obj \<Rightarrow> navi_env \<Rightarrow> navi_obj nm" where
  "navi_make_thunk expr env =
     bind (make_object NAVI_THUNK (PThunk expr env)) (\<lambda>obj.
     bind (navi_env_ref env) (\<lambda>_. ret obj))"

definition navi_make_bounce :: "navi_obj \<Rightarrow> navi_env \<Rightarrow> navi_obj nm" where
  "navi_make_bounce object env =
     bind (navi_make_thunk object env) (\<lambda>bounce.
     bind (put_type bounce NAVI_BOUNCE) (\<lambda>_. ret bounce))"

definition navi_make_macro :: "navi_obj \<Rightarrow> navi_obj \<Rightarrow> navi_obj \<Rightarrow> navi_env \<Rightarrow> navi_obj nm" where
  "navi_make_macro args body name env =
     bind (navi_make_procedure args body name env) (\<lambda>macro.
     bind (put_type macro NAVI_MACRO) (\<lambda>_. ret macro))"

definition navi_make_promise :: "navi_obj \<Rightarrow> navi_env \<Rightarrow> navi_obj nm" where
  "navi_make_promise e env =
     bind (navi_make_pair e navi_make_nil) (\<lambda>body.
     bind (navi_make_symbol ''promise'') (\<lambda>name.
     bind (navi_make_procedure navi_make_nil body name env) (\<lambda>promise.
     bind (put_type promise NAVI_PROMISE) (\<lambda>_. ret promise))))"

definition navi_make_caselambda :: "nat \<Rightarrow> navi_obj nm" where
  "navi_make_caselambda sz =
     bind (navi_make_vector (int sz)) (\<lambda>lambda.
     bind (put_type lambda NAVI_CASELAMBDA) (\<lambda>_. ret lambda))"

definition navi_make_escape :: "navi_obj nm" where
  "navi_make_escape = make_object NAVI_ESCAPE (PEscape None None)"

definition navi_capture_env :: "navi_env \<Rightarrow> navi_obj nm" where
  "navi_capture_env env = make_object NAVI_ENVIRONMENT (PEnvironment env)"

text \<open>The procedures written in C, from the specification \<open>DEFUN\<close> or \<open>DEFSPECIAL\<close> declares.\<close>

record proc_spec =
  sp_type :: navi_type
  sp_variadic :: bool
  sp_arity :: nat
  sp_proc :: builtin
  sp_types :: "ptype list"
  sp_ident :: string

definition proc_from_spec :: "proc_spec \<Rightarrow> navi_env \<Rightarrow> navi_obj nm" where
  "proc_from_spec spec env =
     bind (make_object (sp_type spec) (PProc blank_procedure)) (\<lambda>obj.
     bind (navi_make_symbol (sp_ident spec)) (\<lambda>name.
     bind (navi_make_symbol ''scm_args'') (\<lambda>args.
     bind (navi_scope_ref (lexical env)) (\<lambda>scope.
     bind (put_data obj (PProc \<lparr>p_builtin = True, p_variadic = sp_variadic spec,
       p_arity = sp_arity spec, p_name = name, p_env = scope, p_args = args,
       p_code = CProc (sp_proc spec), p_types = Some (sp_types spec)\<rparr>)) (\<lambda>_.
     ret obj)))))"

section \<open>Checking a call\<close>

definition check_arg :: "ptype \<Rightarrow> navi_obj \<Rightarrow> navi_env \<Rightarrow> unit nm" where
  "check_arg type x env = (case type of
       TList \<Rightarrow> bind (navi_type_check_list x env) (\<lambda>_. ret ())
     | TProperList \<Rightarrow> bind (navi_type_check_proper_list x env) (\<lambda>_. ret ())
     | TByte \<Rightarrow> bind (navi_type_check_byte x env) (\<lambda>_. ret ())
     | TAny \<Rightarrow> ret ()
     | TType t \<Rightarrow> bind (navi_type_check x t env) (\<lambda>_. ret ()))"

definition check_types :: "ptype list \<Rightarrow> nat \<Rightarrow> navi_obj \<Rightarrow> navi_env \<Rightarrow> unit nm" where
  "check_types types arity args env =
     after_loop (navi_list_for_each args 0 (\<lambda>cons i.
       if i \<ge> arity then ret (Return ())
       else bind (if i < length types then ret (types ! i) else stop Undef) (\<lambda>type.
            bind (navi_car cons) (\<lambda>x.
            bind (check_arg type x env) (\<lambda>_. ret (Continue (Suc i)))))))
     (\<lambda>_ _. ret ())"

definition check_apply :: "navi_procedure \<Rightarrow> navi_obj \<Rightarrow> navi_env \<Rightarrow> nat nm" where
  "check_apply proc args env =
     bind (navi_list_length args) (\<lambda>nr_args.
     if \<not> navi_arity_satisfied proc nr_args then navi_arity_error env (IObj (p_name proc))
     else case p_types proc of
         None \<Rightarrow> ret nr_args
       | Some types \<Rightarrow> bind (check_types types (p_arity proc) args env) (\<lambda>_. ret nr_args))"

end
