(* ===== verification/Navi_Gc.thy ===== *)
theory Navi_Gc
  imports Navi_Procedure
begin

unbundle bit_operations_syntax

text \<open>
  The garbage collector (\<open>heap.c\<close>, \<open>internal.h\<close>): registration of objects on the list of the
  heap, the protect bit, marking from the active environments, sweeping, and the functions that
  start a collection.

  The collector works on the interpreter's state together with what only it uses: the flags in
  the header of every object, the singly linked list of all objects as a head and a \<open>sle_next\<close>
  pointer per object, and the counters.
\<close>

section \<open>State\<close>

record gc_state =
  mem :: state
  gc_flags :: "addr \<Rightarrow> 16 word"
  slh_first :: "addr option"
  sle_next :: "addr \<Rightarrow> addr option"
  gc_bytes :: "64 word"
  gc_objects :: "64 word"
  gc_threshold :: "64 word"
  gc_disabled :: "32 word"

type_synonym 'a gm = "(stop, gc_state, 'a) run"

text \<open>A function of the interpreter, run by the collector.\<close>

definition on_mem :: "'a nm \<Rightarrow> 'a gm" where
  "on_mem m = (\<lambda>g n. case m (mem g) n of (r, st) \<Rightarrow> (r, g\<lparr>mem := st\<rparr>))"

lemma on_mem_run: "m (mem g) n = (r, st) \<Longrightarrow> on_mem m g n = (r, g\<lparr>mem := st\<rparr>)"
  by (simp add: on_mem_def)

section \<open>Flags\<close>

definition NAVI_GC_MARK :: "16 word" where "NAVI_GC_MARK = 1"
definition NAVI_GC_PROTECT :: "16 word" where "NAVI_GC_PROTECT = 2"

definition gc_is_protected :: "16 word \<Rightarrow> bool" where
  "gc_is_protected fl \<longleftrightarrow> fl AND NAVI_GC_PROTECT \<noteq> 0"

definition gc_is_marked :: "16 word \<Rightarrow> bool" where
  "gc_is_marked fl \<longleftrightarrow> fl AND NAVI_GC_MARK \<noteq> 0"

text \<open>Writing the flags through a value's pointer.\<close>

definition set_flags :: "navi_obj \<Rightarrow> (16 word \<Rightarrow> 16 word) \<Rightarrow> unit gm" where
  "set_flags obj f = (case obj of
       Ref a \<Rightarrow> bind (on_mem (deref (Ref a))) (\<lambda>_.
                modifies (\<lambda>g. g\<lparr>gc_flags := (gc_flags g)(a := f (gc_flags g a))\<rparr>))
     | _ \<Rightarrow> stop Undef)"

definition gc_set_mark :: "navi_obj \<Rightarrow> unit gm" where
  "gc_set_mark obj = set_flags obj (\<lambda>fl. fl OR NAVI_GC_MARK)"

definition gc_clear_mark :: "addr \<Rightarrow> unit gm" where
  "gc_clear_mark a = set_flags (Ref a) (\<lambda>fl. fl AND NOT NAVI_GC_MARK)"

definition navi_gc_protect :: "navi_obj \<Rightarrow> navi_obj gm" where
  "navi_gc_protect obj =
     (if \<not> navi_is_immediate (obj_word obj)
      then bind (set_flags obj (\<lambda>fl. fl OR NAVI_GC_PROTECT)) (\<lambda>_. ret obj) else ret obj)"

definition navi_gc_release :: "navi_obj \<Rightarrow> navi_obj gm" where
  "navi_gc_release obj =
     (if \<not> navi_is_immediate (obj_word obj)
      then bind (set_flags obj (\<lambda>fl. fl AND NOT NAVI_GC_PROTECT)) (\<lambda>_. ret obj) else ret obj)"

definition navi_gc_disable :: "unit gm" where
  "navi_gc_disable = modifies (\<lambda>g. g\<lparr>gc_disabled := gc_disabled g + 1\<rparr>)"

definition navi_gc_enable :: "unit gm" where
  "navi_gc_enable =
     modifies (\<lambda>g. if gc_disabled g \<noteq> 0 then g\<lparr>gc_disabled := gc_disabled g - 1\<rparr> else g)"

section \<open>The symbols of the interpreter\<close>

text \<open>The macro of \<open>symbol_table_init\<close>: the variable gets a symbol that is never freed.\<close>

definition intern :: "string \<Rightarrow> navi_obj gm" where
  "intern name = bind (on_mem (navi_make_symbol name)) navi_gc_protect"

text \<open>The values of the variables \<open>navi_sym_...\<close>, in the order in which they are written.\<close>

definition symbol_table_init :: "navi_obj list gm" where
  "symbol_table_init =
     bind (on_mem (modifies (\<lambda>st. st\<lparr>symbol_table := (\<lambda>_. [])\<rparr>))) (\<lambda>_.
     foldM (\<lambda>name syms. bind (intern name) (\<lambda>s. ret (syms @ [s]))) interned_names [])"

section \<open>Sizes and registration\<close>

text \<open>
  The sizes of the structures on x86-64 with the GNU C library, whose \<open>jmp_buf\<close> has 200 bytes.
  A tag with the wrong structure behind it is read out of its object.
\<close>

definition object_size :: "navi_object \<Rightarrow> nat nm" where
  "object_size ob = (case obj_type ob of
       NAVI_PAIR \<Rightarrow> ret 16
     | NAVI_PARAMETER \<Rightarrow> ret 16
     | NAVI_PORT \<Rightarrow> ret 88
     | NAVI_STRING \<Rightarrow> (case obj_data ob of PString s \<Rightarrow> ret (s_capacity s + 24) | _ \<Rightarrow> stop Undef)
     | NAVI_SYMBOL \<Rightarrow> (case obj_data ob of PSymbol s _ \<Rightarrow> ret (length s + 16) | _ \<Rightarrow> stop Undef)
     | NAVI_VECTOR \<Rightarrow> (case obj_data ob of PVector xs \<Rightarrow> ret (length xs * 8 + 8) | _ \<Rightarrow> stop Undef)
     | NAVI_VALUES \<Rightarrow> (case obj_data ob of PVector xs \<Rightarrow> ret (length xs * 8 + 8) | _ \<Rightarrow> stop Undef)
     | NAVI_CASELAMBDA \<Rightarrow> (case obj_data ob of PVector xs \<Rightarrow> ret (length xs * 8 + 8) | _ \<Rightarrow> stop Undef)
     | NAVI_BYTEVEC \<Rightarrow> (case obj_data ob of PBytevec bs \<Rightarrow> ret (length bs + 8) | _ \<Rightarrow> stop Undef)
     | NAVI_MACRO \<Rightarrow> ret 56
     | NAVI_SPECIAL \<Rightarrow> ret 56
     | NAVI_PROMISE \<Rightarrow> ret 56
     | NAVI_PROCEDURE \<Rightarrow> ret 56
     | NAVI_THUNK \<Rightarrow> ret 24
     | NAVI_BOUNCE \<Rightarrow> ret 24
     | NAVI_ESCAPE \<Rightarrow> ret 224
     | NAVI_ENVIRONMENT \<Rightarrow> ret 16
     | NAVI_TRAP \<Rightarrow> stop (Die ''trap!'')
     | _ \<Rightarrow> ret 0)"

definition register_object :: "addr \<Rightarrow> nat \<Rightarrow> unit gm" where
  "register_object a sz = modifies (\<lambda>g. g\<lparr>sle_next := (sle_next g)(a := slh_first g),
     slh_first := Some a, gc_bytes := gc_bytes g + of_nat sz, gc_objects := gc_objects g + 1\<rparr>)"

text \<open>
  \<open>make_object\<close> with the registration; the flags of the new object keep whatever its memory
  held.
\<close>

definition gc_make_object :: "navi_type \<Rightarrow> payload \<Rightarrow> nat \<Rightarrow> navi_obj gm" where
  "gc_make_object t d sz =
     bind (on_mem (make_object t d)) (\<lambda>obj.
     bind (case obj of Ref a \<Rightarrow> register_object a (16 + sz) | _ \<Rightarrow> stop Undef) (\<lambda>_.
     ret obj))"

section \<open>Marking\<close>

text \<open>One activation of \<open>gc_mark_obj\<close>, with the recursive calls as a parameter.\<close>

definition mark_pair :: "(navi_obj \<Rightarrow> unit gm) \<Rightarrow> navi_obj \<Rightarrow> unit gm" where
  "mark_pair mark obj =
     bind (gc_set_mark obj) (\<lambda>_.
     bind (on_mem (navi_car obj)) (\<lambda>x.
     bind (mark x) (\<lambda>_.
     bind (on_mem (navi_cdr obj)) mark)))"

definition mark_vector :: "(navi_obj \<Rightarrow> unit gm) \<Rightarrow> navi_obj \<Rightarrow> unit gm" where
  "mark_vector mark obj =
     bind (gc_set_mark obj) (\<lambda>_.
     bind (on_mem (navi_vector obj)) (\<lambda>vec.
     foldM (\<lambda>x _. case x of None \<Rightarrow> stop Undef | Some e \<Rightarrow> mark e) vec ()))"

definition mark_proc :: "(navi_obj \<Rightarrow> unit gm) \<Rightarrow> navi_obj \<Rightarrow> unit gm" where
  "mark_proc mark obj =
     bind (gc_set_mark obj) (\<lambda>_.
     bind (on_mem (navi_procedure obj)) (\<lambda>proc.
     bind (mark (p_args proc)) (\<lambda>_.
     bind (gc_set_mark (p_name proc)) (\<lambda>_.
     if \<not> p_builtin proc
     then (case p_code proc of Body b \<Rightarrow> mark b | CProc _ \<Rightarrow> stop Undef)
     else ret ()))))"

definition navi_escape_arg :: "navi_obj \<Rightarrow> navi_obj nm" where
  "navi_escape_arg obj = bind (deref obj) (\<lambda>ob.
     case obj_data ob of PEscape _ (Some x) \<Rightarrow> ret x | _ \<Rightarrow> stop Undef)"

definition gc_mark_body :: "(navi_obj \<Rightarrow> unit gm) \<Rightarrow> navi_obj \<Rightarrow> unit gm" where
  "gc_mark_body mark obj =
     (if \<not> navi_ptr_type (obj_word obj) then ret ()
      else bind (on_mem (navi_type obj)) (\<lambda>t. case t of
          NAVI_VOID \<Rightarrow> ret ()
        | NAVI_NIL \<Rightarrow> ret ()
        | NAVI_EOF \<Rightarrow> ret ()
        | NAVI_FIXNUM \<Rightarrow> ret ()
        | NAVI_BOOL \<Rightarrow> ret ()
        | NAVI_CHAR \<Rightarrow> ret ()
        | NAVI_PAIR \<Rightarrow> mark_pair mark obj
        | NAVI_BOUNCE \<Rightarrow> mark_pair mark obj
        | NAVI_PARAMETER \<Rightarrow> mark_pair mark obj
        | NAVI_PORT \<Rightarrow>
            bind (gc_set_mark obj) (\<lambda>_. bind (on_mem (navi_port obj)) (\<lambda>p. mark (pt_expr p)))
        | NAVI_SYMBOL \<Rightarrow> gc_set_mark obj
        | NAVI_STRING \<Rightarrow> gc_set_mark obj
        | NAVI_BYTEVEC \<Rightarrow> gc_set_mark obj
        | NAVI_VECTOR \<Rightarrow> mark_vector mark obj
        | NAVI_VALUES \<Rightarrow> mark_vector mark obj
        | NAVI_CASELAMBDA \<Rightarrow> mark_vector mark obj
        | NAVI_THUNK \<Rightarrow>
            bind (gc_set_mark obj) (\<lambda>_. bind (on_mem (navi_thunk obj)) (\<lambda>(expr, env). mark expr))
        | NAVI_MACRO \<Rightarrow> mark_proc mark obj
        | NAVI_SPECIAL \<Rightarrow> mark_proc mark obj
        | NAVI_PROMISE \<Rightarrow> mark_proc mark obj
        | NAVI_PROCEDURE \<Rightarrow> mark_proc mark obj
        | NAVI_ESCAPE \<Rightarrow>
            bind (gc_set_mark obj) (\<lambda>_. bind (on_mem (navi_escape_arg obj)) mark)
        | NAVI_ENVIRONMENT \<Rightarrow> gc_set_mark obj
        | NAVI_TRAP \<Rightarrow> stop (Die ''trap!'')))"

primrec gc_mark_depth :: "nat \<Rightarrow> navi_obj \<Rightarrow> unit gm" where
  "gc_mark_depth 0 obj = stop NoFuel"
| "gc_mark_depth (Suc k) obj = gc_mark_body (gc_mark_depth k) obj"

definition gc_mark_obj :: "navi_obj \<Rightarrow> unit gm" where
  "gc_mark_obj obj = (\<lambda>g n. gc_mark_depth n obj g n)"

definition gc_mark_env :: "sid \<Rightarrow> unit gm" where
  "gc_mark_env env =
     bind (on_mem (deref_scope env)) (\<lambda>sc.
     bind (foldM (\<lambda>i _.
       foldM (\<lambda>(symbol, object) _. bind (gc_set_mark symbol) (\<lambda>_. gc_mark_obj object)) (bindings sc i) ())
       [0..<NAVI_ENV_HT_SIZE] ()) (\<lambda>_.
     foldM (\<lambda>(g, obj) _. gc_mark_obj obj) (guards sc) ()))"

definition gc_mark :: "unit gm" where
  "gc_mark =
     bind (reads (\<lambda>g. active_environments (mem g))) (\<lambda>scopes.
     foldM (\<lambda>scope _. gc_mark_env scope) scopes ())"

section \<open>Sweeping\<close>

text \<open>
  \<open>navi_free\<close> returns the object's memory to its pool or to \<open>malloc\<close> after dropping the
  references to scopes that it holds.  An interned symbol is taken off its bucket; sweeping
  never frees a symbol.
\<close>

definition release_memory :: "addr \<Rightarrow> unit gm" where
  "release_memory a = on_mem (modifies (\<lambda>st. st\<lparr>heap := (heap st)(a := None)\<rparr>))"

definition free_switch :: "addr \<Rightarrow> navi_type \<Rightarrow> unit gm" where
  "free_switch a t = (case t of
       NAVI_THUNK \<Rightarrow> bind (on_mem (navi_thunk (Ref a))) (\<lambda>(expr, env). on_mem (navi_env_unref env))
     | NAVI_BOUNCE \<Rightarrow> bind (on_mem (navi_thunk (Ref a))) (\<lambda>(expr, env). on_mem (navi_env_unref env))
     | NAVI_PROCEDURE \<Rightarrow> bind (on_mem (navi_procedure (Ref a))) (\<lambda>proc. on_mem (navi_scope_unref (p_env proc)))
     | NAVI_ENVIRONMENT \<Rightarrow> bind (on_mem (navi_environment (Ref a))) (\<lambda>env. on_mem (navi_env_unref env))
     | NAVI_SYMBOL \<Rightarrow> bind (on_mem (navi_symbol (Ref a))) (\<lambda>(s, interned).
         if interned then on_mem (modifies (\<lambda>st. st\<lparr>symbol_table :=
           (\<lambda>i. removeAll a (symbol_table st i))\<rparr>)) else ret ())
     | _ \<Rightarrow> ret ())"

definition navi_free :: "addr \<Rightarrow> unit gm" where
  "navi_free a =
     bind (on_mem (deref (Ref a))) (\<lambda>ob.
     bind (on_mem (object_size ob)) (\<lambda>sz.
     bind (modifies (\<lambda>g. g\<lparr>gc_bytes := gc_bytes g - of_nat (16 + sz), gc_objects := gc_objects g - 1\<rparr>)) (\<lambda>_.
     bind (free_switch a (obj_type ob)) (\<lambda>_.
     release_memory a))))"

definition slist_remove_head :: "unit gm" where
  "slist_remove_head = (\<lambda>g n. case slh_first g of
       None \<Rightarrow> (Inl Undef, g)
     | Some h \<Rightarrow> (Inr (), g\<lparr>slh_first := sle_next g h\<rparr>))"

definition slist_remove_after :: "addr option \<Rightarrow> unit gm" where
  "slist_remove_after elm = (\<lambda>g n. case elm of
       None \<Rightarrow> (Inl Undef, g)
     | Some e \<Rightarrow> (case sle_next g e of
           None \<Rightarrow> (Inl Undef, g)
         | Some m \<Rightarrow> (Inr (), g\<lparr>sle_next := (sle_next g)(e := sle_next g m)\<rparr>)))"

text \<open>The loop over the list: \<open>obj\<close> is the current object, \<open>kept\<close> (the code's \<open>last\<close>) the last one that stayed.\<close>

primrec gc_sweep_loop :: "nat \<Rightarrow> addr option \<Rightarrow> addr option \<Rightarrow> unit gm" where
  "gc_sweep_loop 0 obj kept = stop NoFuel"
| "gc_sweep_loop (Suc k) obj kept = (case obj of
       None \<Rightarrow> ret ()
     | Some a \<Rightarrow>
         bind (on_mem (deref (Ref a))) (\<lambda>ob.
         bind (reads (\<lambda>g. (sle_next g a, gc_flags g a))) (\<lambda>(p, fl).
         if gc_is_marked fl then bind (gc_clear_mark a) (\<lambda>_. gc_sweep_loop k p (Some a))
         else if gc_is_protected fl then gc_sweep_loop k p (Some a)
         else if obj_type ob = NAVI_SYMBOL then gc_sweep_loop k p (Some a)
         else
           bind (reads slh_first) (\<lambda>first.
           bind (if first = Some a then slist_remove_head else slist_remove_after kept) (\<lambda>_.
           bind (navi_free a) (\<lambda>_.
           gc_sweep_loop k p kept))))))"

definition gc_sweep :: "unit gm" where
  "gc_sweep = bind (reads slh_first) (\<lambda>first. (\<lambda>g n. gc_sweep_loop n first first g n))"

section \<open>Collections\<close>

definition do_gc_collect :: "unit gm" where
  "do_gc_collect =
     bind gc_mark (\<lambda>_.
     bind gc_sweep (\<lambda>_.
     modifies (\<lambda>g. g\<lparr>gc_threshold := gc_bytes g * 4\<rparr>)))"

definition navi_gc_collect :: "unit gm" where
  "navi_gc_collect = bind (reads gc_disabled) (\<lambda>d. if d = 0 then do_gc_collect else ret ())"

definition navi_gc_check :: "unit gm" where
  "navi_gc_check =
     bind (modifies (\<lambda>g. if gc_threshold g = 0 then g\<lparr>gc_threshold := gc_bytes g - 1\<rparr> else g)) (\<lambda>_.
     bind (reads (\<lambda>g. gc_bytes g < gc_threshold g)) (\<lambda>below.
     if below then ret ()
     else bind (reads gc_disabled) (\<lambda>d. if d \<noteq> 0 then ret () else do_gc_collect)))"

definition scm_gc_collect :: "nat \<Rightarrow> navi_obj \<Rightarrow> navi_env \<Rightarrow> navi_obj gm" where
  "scm_gc_collect nr_args args env = bind navi_gc_collect (\<lambda>_. ret navi_unspecified)"

end
