(* ===== verification/Navi_Bytevec.thy ===== *)
theory Navi_Bytevec
  imports Navi_Vector
begin

text \<open>
  Bytevectors (\<open>bytevector.c\<close>), with the conversions to and from strings of the build without
  ICU (\<open>unicode.h\<close>), where a character is one byte.  The allocation has one more byte than
  the bytevector, which the code keeps zero; the model leaves that byte out.
\<close>

definition navi_bytevec_equal :: "navi_obj \<Rightarrow> string \<Rightarrow> bool nm" where
  "navi_bytevec_equal obj cstr =
     bind (navi_bytevec obj) (\<lambda>vec.
     array_equal byte_equal [0..<length vec] vec (map (Some \<circ> byte_of) cstr @ [Some 0]))"

definition bytevec_fill :: "navi_obj \<Rightarrow> byte \<Rightarrow> unit nm" where
  "bytevec_fill vector fill =
     bind (navi_bytevec vector) (\<lambda>vec.
     foldM (\<lambda>i _. bytevec_put vector i fill) [0..<length vec] ())"

definition navi_list_to_bytevec :: "navi_obj \<Rightarrow> navi_env \<Rightarrow> navi_obj nm" where
  "navi_list_to_bytevec list env =
     bind (navi_list_length list) (\<lambda>l.
     bind (navi_make_bytevec (int l)) (\<lambda>vec.
     after_loop (navi_list_for_each list 0 (\<lambda>cons i.
       bind (navi_car cons) (\<lambda>x.
       bind (navi_type_check_byte x env) (\<lambda>_.
       bind (navi_fixnum x) (\<lambda>k.
       bind (bytevec_put vec i (word_of_int k)) (\<lambda>_. ret (Continue (Suc i))))))))
     (\<lambda>_ _. ret vec)))"

definition scm_bytevectorp :: "nat \<Rightarrow> navi_obj \<Rightarrow> navi_env \<Rightarrow> navi_obj nm" where
  "scm_bytevectorp nr_args args env = scm_type_test NAVI_BYTEVEC args"

definition scm_make_bytevector :: "nat \<Rightarrow> navi_obj \<Rightarrow> navi_env \<Rightarrow> navi_obj nm" where
  "scm_make_bytevector nr_args args env =
     (if nr_args > 2 then navi_arity_error env (ISym ''bytevector'')
      else bind (scm_arg1 args) (\<lambda>a. bind (navi_fixnum a) (\<lambda>k.
           bind (navi_make_bytevec k) (\<lambda>obj.
           if nr_args = 2 then
             bind (scm_arg2 args) (\<lambda>b. bind (navi_type_check_byte b env) (\<lambda>_.
             bind (navi_fixnum b) (\<lambda>f.
             bind (bytevec_fill obj (word_of_int f)) (\<lambda>_. ret obj))))
           else ret obj))))"

definition scm_bytevector :: "nat \<Rightarrow> navi_obj \<Rightarrow> navi_env \<Rightarrow> navi_obj nm" where
  "scm_bytevector nr_args args env = navi_list_to_bytevec args env"

definition scm_bytevector_length :: "nat \<Rightarrow> navi_obj \<Rightarrow> navi_env \<Rightarrow> navi_obj nm" where
  "scm_bytevector_length nr_args args env =
     bind (scm_arg1 args) (\<lambda>a. bind (navi_bytevec a) (\<lambda>vec. ret (navi_make_fixnum (int (length vec)))))"

definition scm_bytevector_u8_ref :: "nat \<Rightarrow> navi_obj \<Rightarrow> navi_env \<Rightarrow> navi_obj nm" where
  "scm_bytevector_u8_ref nr_args args env =
     bind (scm_arg1 args) (\<lambda>v. bind (navi_bytevec v) (\<lambda>vec.
     bind (scm_arg2 args) (\<lambda>i. bind (navi_type_check_range i 0 (int (length vec)) env) (\<lambda>_.
     bind (navi_fixnum i) (\<lambda>k. navi_bytevec_ref v k)))))"

definition scm_bytevector_u8_set :: "nat \<Rightarrow> navi_obj \<Rightarrow> navi_env \<Rightarrow> navi_obj nm" where
  "scm_bytevector_u8_set nr_args args env =
     bind (scm_arg1 args) (\<lambda>v. bind (navi_bytevec v) (\<lambda>vec.
     bind (scm_arg2 args) (\<lambda>i. bind (navi_type_check_range i 0 (int (length vec)) env) (\<lambda>_.
     bind (navi_fixnum i) (\<lambda>k. bind (index k) (\<lambda>j.
     bind (scm_arg3 args) (\<lambda>b. bind (navi_fixnum b) (\<lambda>x.
     bind (bytevec_put v j (word_of_int x)) (\<lambda>_. ret navi_unspecified)))))))))"

definition scm_bytevector_append :: "nat \<Rightarrow> navi_obj \<Rightarrow> navi_env \<Rightarrow> navi_obj nm" where
  "scm_bytevector_append nr_args args env =
     after_loop (navi_list_for_each args 0 (\<lambda>cons sz.
       bind (navi_car cons) (\<lambda>x. bind (navi_bytevec_cast x env) (\<lambda>v.
       ret (Continue (sz + length v))))))
     (\<lambda>_ sz.
       bind (navi_make_bytevec (int sz)) (\<lambda>obj.
       after_loop (navi_list_for_each args 0 (\<lambda>cons i.
         bind (navi_car cons) (\<lambda>x. bind (navi_bytevec x) (\<lambda>other.
         bind (foldM (\<lambda>j i.
           bind (bytevec_get x j) (\<lambda>b.
           bind (bytevec_put obj i b) (\<lambda>_. ret (Suc i)))) [0..<length other] i) (\<lambda>i'.
         ret (Continue i'))))))
       (\<lambda>_ i. if i \<le> sz then ret obj else stop Undef)))"

definition bytevec_copy_to :: "navi_obj \<Rightarrow> nat \<Rightarrow> navi_obj \<Rightarrow> nat \<Rightarrow> nat \<Rightarrow> navi_obj nm" where
  "bytevec_copy_to to at from start end =
     bind (navi_bytevec to) (\<lambda>_. bind (navi_bytevec from) (\<lambda>_.
     bind (foldM (\<lambda>i at.
       bind (bytevec_get from i) (\<lambda>x.
       bind (bytevec_put to at x) (\<lambda>_. ret (Suc at)))) [start..<end] at) (\<lambda>_.
     ret to)))"

definition scm_bytevector_copy :: "nat \<Rightarrow> navi_obj \<Rightarrow> navi_env \<Rightarrow> navi_obj nm" where
  "scm_bytevector_copy nr_args args env =
     bind (scm_arg1 args) (\<lambda>from. bind (navi_bytevec from) (\<lambda>vec.
     bind (opt_fixnum (nr_args > 1) (scm_arg2 args) 0 env) (\<lambda>start.
     bind (opt_fixnum (nr_args > 2) (scm_arg3 args) (int (length vec)) env) (\<lambda>end.
     bind (navi_check_copy (length vec) start end env) (\<lambda>_.
     bind (navi_make_bytevec (end - start)) (\<lambda>to.
     bytevec_copy_to to 0 from (nat start) (nat end)))))))"

definition scm_bytevector_copy_to :: "nat \<Rightarrow> navi_obj \<Rightarrow> navi_env \<Rightarrow> navi_obj nm" where
  "scm_bytevector_copy_to nr_args args env =
     bind (scm_arg1 args) (\<lambda>to.
     bind (scm_arg2 args) (\<lambda>a2. bind (navi_fixnum a2) (\<lambda>at.
     bind (scm_arg3 args) (\<lambda>from.
     bind (navi_bytevec to) (\<lambda>tov. bind (navi_bytevec from) (\<lambda>fromv.
     bind (opt_fixnum (nr_args > 3) (scm_arg4 args) 0 env) (\<lambda>start.
     bind (opt_fixnum (nr_args > 4) (scm_arg5 args) (int (length fromv)) env) (\<lambda>end.
     bind (navi_check_copy_to (length tov) at (length fromv) start end env) (\<lambda>_.
     bind (bytevec_copy_to to (nat at) from (nat start) (nat end)) (\<lambda>_.
     ret navi_unspecified))))))))))"

section \<open>Strings as bytes\<close>

text \<open>\<open>u8_next\<close> reads one byte; an \<open>unsigned char\<close> is never negative.\<close>

definition count_chars :: "navi_obj \<Rightarrow> int nm" where
  "count_chars v =
     bind (navi_bytevec v) (\<lambda>vec.
     foldM (\<lambda>i count. bind (bytevec_get v i) (\<lambda>ch. ret (count + 1))) [0..<length vec] 0)"

text \<open>\<open>memcpy\<close> moves bytes whether they were written or not; both ranges must be in bounds.\<close>

definition mem_read :: "byte option list \<Rightarrow> nat \<Rightarrow> nat \<Rightarrow> byte option list nm" where
  "mem_read buf start sz =
     (if start + sz \<le> length buf then ret (take sz (drop start buf)) else stop Undef)"

definition mem_write :: "byte option list \<Rightarrow> nat \<Rightarrow> byte option list \<Rightarrow> byte option list nm" where
  "mem_write buf start bs =
     (if start + length bs \<le> length buf then ret (splice start bs buf) else stop Undef)"

definition scm_utf8_to_string :: "nat \<Rightarrow> navi_obj \<Rightarrow> navi_env \<Rightarrow> navi_obj nm" where
  "scm_utf8_to_string nr_args args env =
     bind (scm_arg1 args) (\<lambda>v. bind (navi_bytevec v) (\<lambda>vec.
     bind (opt_fixnum (nr_args > 1) (scm_arg2 args) 0 env) (\<lambda>start.
     bind (opt_fixnum (nr_args > 2) (scm_arg3 args) (int (length vec)) env) (\<lambda>end.
     bind (navi_check_copy (length vec) start end env) (\<lambda>_.
     let sz = end - start in
     bind (count_chars v) (\<lambda>len.
     if len < 0 then navi_error env ''invalid UTF-8'' []
     else bind (navi_make_string (nat sz) (nat sz) (nat len)) (\<lambda>str.
          bind (mem_read vec (nat start) (nat sz)) (\<lambda>bs.
          bind (navi_string str) (\<lambda>s.
          bind (mem_write (s_data s) 0 bs) (\<lambda>d.
          bind (put_data str (PString (s\<lparr>s_data := d\<rparr>))) (\<lambda>_.
          ret str)))))))))))"

definition scm_string_to_utf8 :: "nat \<Rightarrow> navi_obj \<Rightarrow> navi_env \<Rightarrow> navi_obj nm" where
  "scm_string_to_utf8 nr_args args env =
     bind (scm_arg1 args) (\<lambda>x. bind (navi_string x) (\<lambda>str.
     bind (opt_fixnum (nr_args > 1) (scm_arg2 args) 0 env) (\<lambda>start.
     bind (opt_fixnum (nr_args > 2) (scm_arg3 args) (int (s_length str)) env) (\<lambda>end.
     bind (navi_check_copy (s_length str) start end env) (\<lambda>_.
     let start_i = 0 + start; end_i = start_i + (end - start) in
     bind (navi_make_bytevec (end_i - start_i)) (\<lambda>r.
     bind (mem_read (s_data str) (nat start_i) (nat (end_i - start_i))) (\<lambda>bs.
     bind (navi_bytevec r) (\<lambda>d.
     bind (mem_write d 0 bs) (\<lambda>d'.
     bind (put_data r (PBytevec d')) (\<lambda>_.
     ret r))))))))))"

end
