(* ===== verification/Navi_Char.thy ===== *)
theory Navi_Char
  imports Navi_Symbol
begin

text \<open>
  Characters (\<open>char.c\<close>).  \<open>tolower\<close> and \<open>toupper\<close> are those of the C locale: they take an
  \<open>int\<close> and have no meaning outside the range of \<open>unsigned char\<close> and \<open>EOF\<close>.
\<close>

definition to_int :: "int \<Rightarrow> int" where
  "to_int i = sint (word_of_int i :: 32 word)"

definition ctype_domain :: "int \<Rightarrow> bool" where
  "ctype_domain c \<longleftrightarrow> - 1 \<le> c \<and> c < 256"

definition ascii_lower :: "int \<Rightarrow> int" where
  "ascii_lower c = (if 65 \<le> c \<and> c \<le> 90 then c + 32 else c)"

definition ascii_upper :: "int \<Rightarrow> int" where
  "ascii_upper c = (if 97 \<le> c \<and> c \<le> 122 then c - 32 else c)"

definition tolower :: "int \<Rightarrow> int nm" where
  "tolower i = (let c = to_int i in if ctype_domain c then ret (ascii_lower c) else stop Undef)"

definition toupper :: "int \<Rightarrow> int nm" where
  "toupper i = (let c = to_int i in if ctype_domain c then ret (ascii_upper c) else stop Undef)"

definition scm_charp :: "nat \<Rightarrow> navi_obj \<Rightarrow> navi_env \<Rightarrow> navi_obj nm" where
  "scm_charp nr_args args env = scm_type_test NAVI_CHAR args"

definition char_compare :: "(int \<Rightarrow> int \<Rightarrow> bool) \<Rightarrow> navi_obj \<Rightarrow> navi_obj nm" where
  "char_compare op args =
     bind (scm_arg1 args) (\<lambda>x. bind (scm_arg2 args) (\<lambda>y.
     bind (navi_char x) (\<lambda>a. bind (navi_char y) (\<lambda>b. ret (navi_make_bool (op a b))))))"

definition scm_char_lt :: "nat \<Rightarrow> navi_obj \<Rightarrow> navi_env \<Rightarrow> navi_obj nm" where
  "scm_char_lt nr_args args env = char_compare (<) args"

definition scm_char_gt :: "nat \<Rightarrow> navi_obj \<Rightarrow> navi_env \<Rightarrow> navi_obj nm" where
  "scm_char_gt nr_args args env = char_compare (>) args"

definition scm_char_eq :: "nat \<Rightarrow> navi_obj \<Rightarrow> navi_env \<Rightarrow> navi_obj nm" where
  "scm_char_eq nr_args args env = char_compare (=) args"

definition scm_char_lte :: "nat \<Rightarrow> navi_obj \<Rightarrow> navi_env \<Rightarrow> navi_obj nm" where
  "scm_char_lte nr_args args env = char_compare (\<le>) args"

definition scm_char_gte :: "nat \<Rightarrow> navi_obj \<Rightarrow> navi_env \<Rightarrow> navi_obj nm" where
  "scm_char_gte nr_args args env = char_compare (\<ge>) args"

definition char_ci_compare :: "(int \<Rightarrow> int \<Rightarrow> bool) \<Rightarrow> navi_obj \<Rightarrow> navi_obj nm" where
  "char_ci_compare op args =
     bind (scm_arg1 args) (\<lambda>x. bind (scm_arg2 args) (\<lambda>y.
     bind (navi_char x) (\<lambda>a. bind (tolower a) (\<lambda>la.
     bind (navi_char y) (\<lambda>b. bind (tolower b) (\<lambda>lb.
     ret (navi_make_bool (op la lb))))))))"

definition scm_char_ci_lt :: "nat \<Rightarrow> navi_obj \<Rightarrow> navi_env \<Rightarrow> navi_obj nm" where
  "scm_char_ci_lt nr_args args env = char_ci_compare (<) args"

definition scm_char_ci_gt :: "nat \<Rightarrow> navi_obj \<Rightarrow> navi_env \<Rightarrow> navi_obj nm" where
  "scm_char_ci_gt nr_args args env = char_ci_compare (>) args"

definition scm_char_ci_eq :: "nat \<Rightarrow> navi_obj \<Rightarrow> navi_env \<Rightarrow> navi_obj nm" where
  "scm_char_ci_eq nr_args args env = char_ci_compare (=) args"

definition scm_char_ci_lte :: "nat \<Rightarrow> navi_obj \<Rightarrow> navi_env \<Rightarrow> navi_obj nm" where
  "scm_char_ci_lte nr_args args env = char_ci_compare (\<le>) args"

definition scm_char_ci_gte :: "nat \<Rightarrow> navi_obj \<Rightarrow> navi_env \<Rightarrow> navi_obj nm" where
  "scm_char_ci_gte nr_args args env = char_ci_compare (\<ge>) args"

definition navi_char_upcase :: "navi_obj \<Rightarrow> navi_obj nm" where
  "navi_char_upcase ch = bind (navi_char ch) (\<lambda>c. bind (toupper c) (\<lambda>u. ret (navi_make_char u)))"

definition navi_char_downcase :: "navi_obj \<Rightarrow> navi_obj nm" where
  "navi_char_downcase ch = bind (navi_char ch) (\<lambda>c. bind (tolower c) (\<lambda>l. ret (navi_make_char l)))"

definition scm_char_upcase :: "nat \<Rightarrow> navi_obj \<Rightarrow> navi_env \<Rightarrow> navi_obj nm" where
  "scm_char_upcase nr_args args env = bind (scm_arg1 args) navi_char_upcase"

definition scm_char_downcase :: "nat \<Rightarrow> navi_obj \<Rightarrow> navi_env \<Rightarrow> navi_obj nm" where
  "scm_char_downcase nr_args args env = bind (scm_arg1 args) navi_char_downcase"

end
