(* ===== verification/Navi_String.thy ===== *)
theory Navi_String
  imports Navi_Bytevec Navi_Char
begin

text \<open>
  Strings (\<open>string.c\<close>) of the build without ICU (\<open>unicode.h\<close>): a character takes one byte, so
  \<open>u8_length\<close> is 1, \<open>u8_fwd_n\<close> adds to the index, \<open>u8_get\<close> and \<open>u8_next\<close> read a byte and
  \<open>u8_append\<close> writes one.  The size, length and capacity fields are \<open>int32_t\<close>; strings of
  \<open>2 ^ 31\<close> bytes or more are outside the model.
\<close>

section \<open>Bytes and characters\<close>

definition u8_length :: "int \<Rightarrow> int" where
  "u8_length c = 1"

definition u8_append :: "navi_obj \<Rightarrow> nat \<Rightarrow> int \<Rightarrow> nat nm" where
  "u8_append str i c = bind (string_put str i (word_of_int c)) (\<lambda>_. ret (Suc i))"

definition u8_next :: "navi_obj \<Rightarrow> nat \<Rightarrow> (int \<times> nat) nm" where
  "u8_next str i = bind (string_get str i) (\<lambda>b. ret (uint b, Suc i))"

text \<open>A byte that is read and not used may be one that was never written.\<close>

definition u8_skip :: "navi_obj \<Rightarrow> nat \<Rightarrow> nat nm" where
  "u8_skip str i =
     bind (navi_string str) (\<lambda>s. if i < length (s_data s) then ret (Suc i) else stop Undef)"

section \<open>Conversions\<close>

definition list_to_string :: "navi_obj \<Rightarrow> navi_env \<Rightarrow> navi_obj nm" where
  "list_to_string list env =
     after_loop (navi_list_for_each list (0, 0) (\<lambda>cons (sz, len).
       bind (navi_car cons) (\<lambda>x. bind (navi_type_check x NAVI_CHAR env) (\<lambda>_.
       bind (navi_char x) (\<lambda>c. ret (Continue (sz + u8_length c, Suc len)))))))
     (\<lambda>_ (sz, len).
       bind (navi_make_string (nat sz) (nat sz) len) (\<lambda>expr.
       after_loop (navi_list_for_each list 0 (\<lambda>cons i.
         bind (navi_car cons) (\<lambda>x. bind (navi_char x) (\<lambda>c.
         bind (u8_append expr i c) (\<lambda>i'. ret (Continue i'))))))
       (\<lambda>_ _. ret expr)))"

text \<open>The loops of the conversions run while the byte index is below the size.\<close>

definition string_to_list :: "navi_obj \<Rightarrow> navi_obj nm" where
  "string_to_list expr =
     bind (navi_string expr) (\<lambda>str.
     bind (foldM (\<lambda>i b.
       bind (u8_next expr i) (\<lambda>(ch, _).
       bind (build_add b) (\<lambda>b'.
       bind (build_set_car b' (navi_make_char ch)) (\<lambda>_. ret b')))) [0..<s_size str] None) (\<lambda>b.
     build_finish b navi_make_nil))"

definition assertion :: "bool \<Rightarrow> unit nm" where
  "assertion b = guard_or (Die ''assertion failed'') b"

definition string_to_vector :: "navi_obj \<Rightarrow> navi_obj nm" where
  "string_to_vector str_obj =
     bind (navi_string str_obj) (\<lambda>str.
     bind (navi_make_vector (int (s_length str))) (\<lambda>vec_obj.
     bind (foldM (\<lambda>si vi.
       bind (navi_vector_length vec_obj) (\<lambda>sz.
       bind (assertion (vi < sz)) (\<lambda>_.
       bind (u8_next str_obj si) (\<lambda>(ch, _).
       bind (vector_put vec_obj vi (navi_make_char ch)) (\<lambda>_. ret (Suc vi))))))
       [0..<s_size str] 0) (\<lambda>vi.
     bind (navi_vector_length vec_obj) (\<lambda>sz.
     bind (assertion (vi = sz)) (\<lambda>_.
     ret vec_obj)))))"

definition u32_size :: "navi_obj \<Rightarrow> int nm" where
  "u32_size vec_obj =
     bind (navi_vector vec_obj) (\<lambda>vec.
     foldM (\<lambda>i sz.
       bind (vector_get vec_obj i) (\<lambda>x.
       bind (navi_type x) (\<lambda>t.
       bind (assertion (t = NAVI_CHAR)) (\<lambda>_.
       bind (navi_char x) (\<lambda>c. ret (sz + u8_length c))))))
       [0..<length vec] 0)"

definition vector_to_string_ip :: "navi_obj \<Rightarrow> navi_obj \<Rightarrow> unit nm" where
  "vector_to_string_ip str vec_obj =
     bind (navi_vector vec_obj) (\<lambda>vec.
     bind (foldM (\<lambda>vi si.
       bind (vector_get vec_obj vi) (\<lambda>x. bind (navi_char x) (\<lambda>c.
       u8_append str si c)) ) [0..<length vec] 0) (\<lambda>si.
     bind (string_set_size str si) (\<lambda>_.
     string_put str si 0)))"

definition vector_to_string :: "navi_obj \<Rightarrow> navi_obj nm" where
  "vector_to_string vec_obj =
     bind (u32_size vec_obj) (\<lambda>sz.
     bind (navi_vector_length vec_obj) (\<lambda>len.
     bind (navi_make_string (nat sz) (nat sz) len) (\<lambda>str_obj.
     bind (vector_to_string_ip str_obj vec_obj) (\<lambda>_.
     ret str_obj))))"

section \<open>The procedures\<close>

definition scm_stringp :: "nat \<Rightarrow> navi_obj \<Rightarrow> navi_env \<Rightarrow> navi_obj nm" where
  "scm_stringp nr_args args env = scm_type_test NAVI_STRING args"

definition scm_make_string :: "nat \<Rightarrow> navi_obj \<Rightarrow> navi_env \<Rightarrow> navi_obj nm" where
  "scm_make_string nr_args args env =
     bind (scm_arg1 args) (\<lambda>a. bind (navi_fixnum a) (\<lambda>len.
     if len < 0 then navi_error env ''invalid length'' []
     else bind (if nr_args > 1 then bind (scm_arg2 args) (\<lambda>c. navi_char_cast c env) else ret 32) (\<lambda>ch.
          let sz = len * u8_length ch in
          if sz \<ge> 2 ^ 31 then stop Undef
          else bind (navi_make_string (nat sz) (nat sz) (nat len)) (\<lambda>obj.
               bind (foldM (\<lambda>_ i. u8_append obj i ch) [0..<nat sz] 0) (\<lambda>_.
               ret obj)))))"

definition scm_string :: "nat \<Rightarrow> navi_obj \<Rightarrow> navi_env \<Rightarrow> navi_obj nm" where
  "scm_string nr_args args env = list_to_string args env"

definition scm_string_length :: "nat \<Rightarrow> navi_obj \<Rightarrow> navi_env \<Rightarrow> navi_obj nm" where
  "scm_string_length nr_args args env =
     bind (scm_arg1 args) (\<lambda>a. bind (navi_string a) (\<lambda>s. ret (navi_make_fixnum (int (s_length s)))))"

definition scm_string_ref :: "nat \<Rightarrow> navi_obj \<Rightarrow> navi_env \<Rightarrow> navi_obj nm" where
  "scm_string_ref nr_args args env =
     bind (scm_arg1 args) (\<lambda>a. bind (navi_string a) (\<lambda>str.
     bind (scm_arg2 args) (\<lambda>i. bind (navi_type_check_range i 0 (int (s_length str)) env) (\<lambda>k.
     bind (index k) (\<lambda>j. bind (string_get a j) (\<lambda>ch.
     ret (navi_make_char (uint ch))))))))"

definition grown :: "navi_string \<Rightarrow> nat \<Rightarrow> navi_string" where
  "grown str need =
     (let free_space = s_capacity str - s_size str in
      if free_space > need then str
      else let more = need - free_space; cap = s_capacity str + more in
           str\<lparr>s_capacity := cap,
               s_data := (take (Suc (s_capacity str)) (s_data str) @ replicate more None)[cap := Some 0]\<rparr>)"

definition navi_string_grow_storage :: "navi_obj \<Rightarrow> nat \<Rightarrow> unit nm" where
  "navi_string_grow_storage obj need =
     bind (navi_string obj) (\<lambda>str. put_data obj (PString (grown str need)))"

text \<open>One byte moved within a buffer, whether it was written or not.\<close>

definition string_move :: "navi_obj \<Rightarrow> int \<Rightarrow> int \<Rightarrow> unit nm" where
  "string_move obj to from =
     bind (navi_string obj) (\<lambda>s.
     bind (index to) (\<lambda>t. bind (index from) (\<lambda>f.
     if t < length (s_data s) \<and> f < length (s_data s)
     then put_data obj (PString (s\<lparr>s_data := (s_data s)[t := s_data s ! f]\<rparr>))
     else stop Undef)))"

definition string_shift :: "navi_obj \<Rightarrow> int \<Rightarrow> int \<Rightarrow> unit nm" where
  "string_shift obj pos diff =
     (if diff > 0 then
        bind (navi_string_grow_storage obj (nat diff)) (\<lambda>_.
        bind (navi_string obj) (\<lambda>str.
        foldM (\<lambda>i _. string_move obj (i + diff) i) (rev [pos + 1..int (s_size str) - 1]) ()))
      else if diff < 0 then
        bind (navi_string obj) (\<lambda>str.
        foldM (\<lambda>i _. string_move obj i (i - diff)) [pos + 1..int (s_size str) - 2] ())
      else ret ())"

text \<open>The end of every operation that changes a string: the new size and the final zero byte.\<close>

definition string_resize :: "navi_obj \<Rightarrow> int \<Rightarrow> unit nm" where
  "string_resize obj diff =
     bind (navi_string obj) (\<lambda>str.
     bind (index (int (s_size str) + diff)) (\<lambda>sz.
     bind (string_set_size obj sz) (\<lambda>_.
     string_put obj sz 0)))"

definition navi_string_set :: "navi_obj \<Rightarrow> int \<Rightarrow> int \<Rightarrow> unit nm" where
  "navi_string_set obj k new_ch =
     bind (index (0 + k)) (\<lambda>i.
     bind (u8_next obj i) (\<lambda>(old_ch, _).
     let diff = u8_length new_ch - u8_length old_ch in
     bind (string_shift obj (int i) diff) (\<lambda>_.
     bind (u8_append obj i new_ch) (\<lambda>_.
     string_resize obj diff))))"

definition scm_string_set :: "nat \<Rightarrow> navi_obj \<Rightarrow> navi_env \<Rightarrow> navi_obj nm" where
  "scm_string_set nr_args args env =
     bind (scm_arg1 args) (\<lambda>a. bind (navi_string a) (\<lambda>str.
     bind (scm_arg2 args) (\<lambda>i. bind (navi_fixnum i) (\<lambda>k.
     if k < 0 \<or> k \<ge> int (s_size str) then navi_error env ''string index out of bounds'' []
     else bind (scm_arg3 args) (\<lambda>c. bind (navi_char c) (\<lambda>ch.
          bind (navi_string_set a k ch) (\<lambda>_. ret navi_unspecified)))))))"

section \<open>Comparison\<close>

text \<open>The bytes are compared as \<open>char\<close>s, which are signed.\<close>

definition coll_char :: "bool \<Rightarrow> byte \<Rightarrow> int" where
  "coll_char ci b = sint (if ci then word_of_int (ascii_lower (uint b)) else b)"

primrec strcoll_loop :: "bool \<Rightarrow> nat list \<Rightarrow> navi_string \<Rightarrow> navi_string \<Rightarrow> int option nm" where
  "strcoll_loop ci [] a b = ret None"
| "strcoll_loop ci (i # is) a b =
     bind (nth_init (s_data a) i) (\<lambda>x. bind (nth_init (s_data b) i) (\<lambda>y.
     let ac = coll_char ci x; bc = coll_char ci y in
     if ac < bc then ret (Some (- 1))
     else if ac > bc then ret (Some 1)
     else strcoll_loop ci is a b))"

definition navi_strcoll :: "navi_string \<Rightarrow> navi_string \<Rightarrow> bool \<Rightarrow> int nm" where
  "navi_strcoll a b ci =
     bind (strcoll_loop ci [0..<min (s_size a) (s_size b)] a b) (\<lambda>r. case r of
       Some c \<Rightarrow> ret c
     | None \<Rightarrow> ret (if s_size a < s_size b then - 1 else if s_size a > s_size b then 1 else 0))"

text \<open>Every further argument is compared with the first one.\<close>

definition string_compare :: "(int \<Rightarrow> int \<Rightarrow> bool) \<Rightarrow> bool \<Rightarrow> navi_obj \<Rightarrow> navi_env \<Rightarrow> navi_obj nm" where
  "string_compare op ci args env =
     bind (scm_arg1 args) (\<lambda>a.
     bind (navi_cdr args) (\<lambda>rest.
     after_loop (navi_list_for_each rest () (\<lambda>cons _.
       bind (navi_string a) (\<lambda>x.
       bind (navi_car cons) (\<lambda>b. bind (navi_string_cast b env) (\<lambda>y.
       bind (navi_strcoll x y ci) (\<lambda>c.
       ret (if \<not> op c 0 then Return (navi_make_bool False) else Continue ())))))))
     (\<lambda>_ _. ret (navi_make_bool True))))"

definition scm_string_lt :: "nat \<Rightarrow> navi_obj \<Rightarrow> navi_env \<Rightarrow> navi_obj nm" where
  "scm_string_lt nr_args args env = string_compare (<) False args env"

definition scm_string_gt :: "nat \<Rightarrow> navi_obj \<Rightarrow> navi_env \<Rightarrow> navi_obj nm" where
  "scm_string_gt nr_args args env = string_compare (>) False args env"

definition scm_string_eq :: "nat \<Rightarrow> navi_obj \<Rightarrow> navi_env \<Rightarrow> navi_obj nm" where
  "scm_string_eq nr_args args env = string_compare (=) False args env"

definition scm_string_lte :: "nat \<Rightarrow> navi_obj \<Rightarrow> navi_env \<Rightarrow> navi_obj nm" where
  "scm_string_lte nr_args args env = string_compare (\<le>) False args env"

definition scm_string_gte :: "nat \<Rightarrow> navi_obj \<Rightarrow> navi_env \<Rightarrow> navi_obj nm" where
  "scm_string_gte nr_args args env = string_compare (\<ge>) False args env"

definition scm_string_ci_lt :: "nat \<Rightarrow> navi_obj \<Rightarrow> navi_env \<Rightarrow> navi_obj nm" where
  "scm_string_ci_lt nr_args args env = string_compare (<) True args env"

definition scm_string_ci_gt :: "nat \<Rightarrow> navi_obj \<Rightarrow> navi_env \<Rightarrow> navi_obj nm" where
  "scm_string_ci_gt nr_args args env = string_compare (>) True args env"

definition scm_string_ci_eq :: "nat \<Rightarrow> navi_obj \<Rightarrow> navi_env \<Rightarrow> navi_obj nm" where
  "scm_string_ci_eq nr_args args env = string_compare (=) True args env"

definition scm_string_ci_lte :: "nat \<Rightarrow> navi_obj \<Rightarrow> navi_env \<Rightarrow> navi_obj nm" where
  "scm_string_ci_lte nr_args args env = string_compare (\<le>) True args env"

definition scm_string_ci_gte :: "nat \<Rightarrow> navi_obj \<Rightarrow> navi_env \<Rightarrow> navi_obj nm" where
  "scm_string_ci_gte nr_args args env = string_compare (\<ge>) True args env"

section \<open>Case, concatenation and conversion procedures\<close>

definition string_casemap :: "(int \<Rightarrow> int) \<Rightarrow> navi_obj \<Rightarrow> navi_obj nm" where
  "string_casemap f args =
     bind (scm_arg1 args) (\<lambda>a. bind (navi_string a) (\<lambda>src.
     let len = s_length src in
     bind (navi_make_string len len len) (\<lambda>dst_obj.
     bind (foldM (\<lambda>i _.
       bind (string_get a i) (\<lambda>b.
       string_put dst_obj i (word_of_int (f (uint b))))) [0..<len] ()) (\<lambda>_.
     ret dst_obj))))"

definition scm_string_upcase :: "nat \<Rightarrow> navi_obj \<Rightarrow> navi_env \<Rightarrow> navi_obj nm" where
  "scm_string_upcase nr_args args env = string_casemap ascii_upper args"

definition scm_string_downcase :: "nat \<Rightarrow> navi_obj \<Rightarrow> navi_env \<Rightarrow> navi_obj nm" where
  "scm_string_downcase nr_args args env = string_casemap ascii_lower args"

definition scm_string_foldcase :: "nat \<Rightarrow> navi_obj \<Rightarrow> navi_env \<Rightarrow> navi_obj nm" where
  "scm_string_foldcase nr_args args env = string_casemap ascii_lower args"

definition scm_string_append :: "nat \<Rightarrow> navi_obj \<Rightarrow> navi_env \<Rightarrow> navi_obj nm" where
  "scm_string_append nr_args args env =
     after_loop (navi_list_for_each args (0, 0) (\<lambda>cons (sz, len).
       bind (navi_car cons) (\<lambda>x. bind (navi_string_cast x env) (\<lambda>str.
       ret (Continue (sz + s_size str, len + s_length str))))))
     (\<lambda>_ (sz, len).
       bind (navi_make_string sz sz len) (\<lambda>obj.
       after_loop (navi_list_for_each args 0 (\<lambda>cons i.
         bind (navi_car cons) (\<lambda>x. bind (navi_string x) (\<lambda>other.
         bind (foldM (\<lambda>j i.
           bind (string_get x j) (\<lambda>b.
           bind (string_put obj i b) (\<lambda>_. ret (Suc i)))) [0..<s_size other] i) (\<lambda>i'.
         ret (Continue i'))))))
       (\<lambda>_ _. ret obj)))"

definition scm_string_to_list :: "nat \<Rightarrow> navi_obj \<Rightarrow> navi_env \<Rightarrow> navi_obj nm" where
  "scm_string_to_list nr_args args env = bind (scm_arg1 args) string_to_list"

definition scm_list_to_string :: "nat \<Rightarrow> navi_obj \<Rightarrow> navi_env \<Rightarrow> navi_obj nm" where
  "scm_list_to_string nr_args args env = bind (scm_arg1 args) (\<lambda>l. list_to_string l env)"

definition scm_string_to_vector :: "nat \<Rightarrow> navi_obj \<Rightarrow> navi_env \<Rightarrow> navi_obj nm" where
  "scm_string_to_vector nr_args args env = bind (scm_arg1 args) string_to_vector"

definition scm_vector_to_string :: "nat \<Rightarrow> navi_obj \<Rightarrow> navi_env \<Rightarrow> navi_obj nm" where
  "scm_vector_to_string nr_args args env =
     bind (scm_arg1 args) (\<lambda>v. bind (navi_vector v) (\<lambda>vec.
     bind (foldM (\<lambda>i _.
       bind (vector_get v i) (\<lambda>x.
       bind (navi_type_check x NAVI_CHAR env) (\<lambda>_. ret ()))) [0..<length vec] ()) (\<lambda>_.
     vector_to_string v)))"

section \<open>Copying\<close>

definition string_memcpy :: "navi_obj \<Rightarrow> nat \<Rightarrow> navi_obj \<Rightarrow> nat \<Rightarrow> nat \<Rightarrow> unit nm" where
  "string_memcpy to to_i from from_i sz =
     bind (navi_string to) (\<lambda>tos. bind (navi_string from) (\<lambda>froms.
     if to = from \<and> sz \<noteq> 0 \<and> to_i < from_i + sz \<and> from_i < to_i + sz then stop Undef
     else bind (mem_read (s_data froms) from_i sz) (\<lambda>bs.
          bind (mem_write (s_data tos) to_i bs) (\<lambda>d.
          put_data to (PString (tos\<lparr>s_data := d\<rparr>))))))"

definition string_copy_to :: "navi_obj \<Rightarrow> int \<Rightarrow> navi_obj \<Rightarrow> int \<Rightarrow> int \<Rightarrow> navi_obj nm" where
  "string_copy_to to at from start end =
     bind (index (0 + at)) (\<lambda>to_i. bind (index (0 + start)) (\<lambda>from_i.
     bind (foldM (\<lambda>_ (j, sz). bind (u8_skip to j) (\<lambda>j'. ret (j', sz + u8_length 0)))
       [0..<nat (end - start)] (to_i, 0)) (\<lambda>(_, to_size).
     bind (foldM (\<lambda>_ (j, sz). bind (u8_skip from j) (\<lambda>j'. ret (j', sz + u8_length 0)))
       [0..<nat (end - start)] (from_i, 0)) (\<lambda>(_, from_size).
     bind (string_shift to (int to_i) (from_size - to_size)) (\<lambda>_.
     bind (string_memcpy to to_i from from_i (nat from_size)) (\<lambda>_.
     bind (string_resize to (from_size - to_size)) (\<lambda>_.
     ret to)))))))"

definition scm_string_fill :: "nat \<Rightarrow> navi_obj \<Rightarrow> navi_env \<Rightarrow> navi_obj nm" where
  "scm_string_fill nr_args args env =
     bind (scm_arg1 args) (\<lambda>a. bind (navi_string a) (\<lambda>str.
     bind (scm_arg2 args) (\<lambda>c. bind (navi_char c) (\<lambda>ch.
     bind (opt_fixnum (nr_args > 2) (scm_arg3 args) 0 env) (\<lambda>start'.
     bind (opt_fixnum (nr_args > 3) (scm_arg4 args) (int (s_size str)) env) (\<lambda>end'.
     let start = to_int start'; end = to_int end' in
     bind (navi_check_copy (s_length str) start end env) (\<lambda>_.
     bind (index (0 + start)) (\<lambda>i.
     bind (foldM (\<lambda>_ j. u8_skip a j) [0..<nat (end - start)] i) (\<lambda>j.
     let old_size = int j - int i; new_size = u8_length ch * (end - start) in
     bind (string_shift a (int i) (new_size - old_size)) (\<lambda>_.
     bind (foldM (\<lambda>_ i. u8_append a i ch) [0..<nat (end - start)] i) (\<lambda>_.
     bind (string_resize a (new_size - old_size)) (\<lambda>_.
     ret navi_unspecified))))))))))))"

definition navi_strdup :: "navi_obj \<Rightarrow> navi_obj nm" where
  "navi_strdup from_obj =
     bind (navi_string from_obj) (\<lambda>from.
     bind (navi_make_string (s_size from) (s_size from) (s_length from)) (\<lambda>to_obj.
     bind (string_memcpy to_obj 0 from_obj 0 (s_size from)) (\<lambda>_.
     ret to_obj)))"

definition scm_string_copy :: "nat \<Rightarrow> navi_obj \<Rightarrow> navi_env \<Rightarrow> navi_obj nm" where
  "scm_string_copy nr_args args env =
     bind (scm_arg1 args) (\<lambda>from. bind (navi_string from) (\<lambda>str.
     bind (opt_fixnum (nr_args > 1) (scm_arg2 args) 0 env) (\<lambda>start.
     bind (opt_fixnum (nr_args > 2) (scm_arg3 args) (int (s_size str)) env) (\<lambda>end.
     bind (navi_check_copy (s_length str) start end env) (\<lambda>_.
     bind (navi_make_string (nat (end - start)) (nat (end - start)) (nat (end - start))) (\<lambda>to.
     string_copy_to to 0 from start end))))))"

definition scm_string_copy_to :: "nat \<Rightarrow> navi_obj \<Rightarrow> navi_env \<Rightarrow> navi_obj nm" where
  "scm_string_copy_to nr_args args env =
     bind (scm_arg1 args) (\<lambda>to.
     bind (scm_arg2 args) (\<lambda>a2. bind (navi_fixnum a2) (\<lambda>at.
     bind (scm_arg3 args) (\<lambda>from. bind (navi_string from) (\<lambda>froms.
     bind (opt_fixnum (nr_args > 3) (scm_arg4 args) 0 env) (\<lambda>start.
     bind (opt_fixnum (nr_args > 4) (scm_arg5 args) (int (s_size froms)) env) (\<lambda>end.
     bind (navi_string to) (\<lambda>tos.
     bind (navi_check_copy_to (s_length tos) at (s_length froms) start end env) (\<lambda>_.
     bind (string_copy_to to at from start end) (\<lambda>_.
     ret navi_unspecified))))))))))"

definition scm_substring :: "nat \<Rightarrow> navi_obj \<Rightarrow> navi_env \<Rightarrow> navi_obj nm" where
  "scm_substring nr_args args env = scm_string_copy 3 args env"

end
