(* ===== verification/Navi_Port.thy ===== *)
theory Navi_Port
  imports Navi_String Navi_Scope
begin

unbundle bit_operations_syntax

text \<open>
  Ports (\<open>port.c\<close>, \<open>heap.c\<close>, \<open>internal.h\<close>, \<open>navi.h\<close>) over C streams and strings, in the build
  without ICU.  A \<open>struct navi_port\<close> pointer is the port's value.  The C library's streams are
  in the state: \<open>getc\<close> takes the next unread byte or returns \<open>EOF\<close>, \<open>putc\<close> appends, and
  \<open>fclose\<close> of a stream that exists succeeds.
\<close>

section \<open>Flags\<close>

definition GOT_EOF :: "64 word" where "GOT_EOF = 1"
definition BUFFER_FULL :: "64 word" where "BUFFER_FULL = 2"
definition INPUT_CLOSED :: "64 word" where "INPUT_CLOSED = 4"
definition OUTPUT_CLOSED :: "64 word" where "OUTPUT_CLOSED = 8"
definition STRING_OUTPUT :: "64 word" where "STRING_OUTPUT = 16"
definition FOLD_CASE :: "64 word" where "FOLD_CASE = 32"

lemmas port_flag_defs = GOT_EOF_def BUFFER_FULL_def INPUT_CLOSED_def OUTPUT_CLOSED_def
  STRING_OUTPUT_def FOLD_CASE_def

definition has_flag :: "navi_port \<Rightarrow> 64 word \<Rightarrow> bool" where
  "has_flag p fl \<longleftrightarrow> pt_flags p AND fl \<noteq> 0"

definition set_flag :: "64 word \<Rightarrow> navi_port \<Rightarrow> navi_port" where
  "set_flag fl p = p\<lparr>pt_flags := pt_flags p OR fl\<rparr>"

definition clear_flag :: "64 word \<Rightarrow> navi_port \<Rightarrow> navi_port" where
  "clear_flag fl p = p\<lparr>pt_flags := pt_flags p AND NOT fl\<rparr>"

definition update_port :: "navi_obj \<Rightarrow> (navi_port \<Rightarrow> navi_port) \<Rightarrow> unit nm" where
  "update_port port f = bind (navi_port port) (\<lambda>p. put_data port (PPort (f p)))"

definition EOF :: int where "EOF = - 1"

section \<open>Construction\<close>

definition navi_make_port ::
  "bool \<Rightarrow> bool \<Rightarrow> bool \<Rightarrow> bool \<Rightarrow> bool \<Rightarrow> bool \<Rightarrow> nat option \<Rightarrow> navi_obj nm" where
  "navi_make_port read_u8 write_u8 read_char write_char close_in close_out specific =
     make_object NAVI_PORT (PPort \<lparr>pt_read_u8 = read_u8, pt_write_u8 = write_u8,
       pt_read_char = read_char, pt_write_char = write_char, pt_close_in = close_in,
       pt_close_out = close_out, pt_flags = 0, pt_buffer = None, pt_expr = navi_make_void,
       pt_pos = 0, pt_specific = specific\<rparr>)"

definition navi_make_file_input_port :: "nat \<Rightarrow> navi_obj nm" where
  "navi_make_file_input_port file = navi_make_port True False False False True False (Some file)"

definition navi_make_file_output_port :: "nat \<Rightarrow> navi_obj nm" where
  "navi_make_file_output_port file = navi_make_port False True False False False True (Some file)"

definition navi_open_input_string :: "navi_obj \<Rightarrow> navi_obj nm" where
  "navi_open_input_string string =
     bind (navi_make_port False False True False False False None) (\<lambda>port.
     bind (update_port port (\<lambda>p. p\<lparr>pt_expr := string\<rparr>)) (\<lambda>_. ret port))"

definition STRING_INIT_SIZE :: nat where "STRING_INIT_SIZE = 64"

definition navi_open_output_string :: "navi_obj nm" where
  "navi_open_output_string =
     bind (navi_make_port False False False True False False None) (\<lambda>obj.
     bind (navi_make_string STRING_INIT_SIZE 0 0) (\<lambda>s.
     bind (update_port obj (\<lambda>p. p\<lparr>pt_expr := s\<rparr>)) (\<lambda>_.
     bind (update_port obj (set_flag STRING_OUTPUT)) (\<lambda>_. ret obj))))"

section \<open>Checks\<close>

definition navi_port_is_input_port :: "navi_obj \<Rightarrow> bool nm" where
  "navi_port_is_input_port port = bind (navi_port port) (\<lambda>p. ret (pt_read_u8 p \<or> pt_read_char p))"

definition navi_port_is_output_port :: "navi_obj \<Rightarrow> bool nm" where
  "navi_port_is_output_port port = bind (navi_port port) (\<lambda>p. ret (pt_write_u8 p \<or> pt_write_char p))"

definition check_input_port :: "navi_obj \<Rightarrow> navi_env \<Rightarrow> unit nm" where
  "check_input_port port env =
     bind (navi_port_is_input_port port) (\<lambda>b.
     if \<not> b then navi_error env ''not an input port'' [] else ret ())"

definition check_output_port :: "navi_obj \<Rightarrow> navi_env \<Rightarrow> unit nm" where
  "check_output_port port env =
     bind (navi_port_is_output_port port) (\<lambda>b.
     if \<not> b then navi_error env ''not an output port'' [] else ret ())"

definition check_can_read :: "navi_obj \<Rightarrow> navi_env \<Rightarrow> unit nm" where
  "check_can_read port env =
     bind (check_input_port port env) (\<lambda>_.
     bind (navi_port port) (\<lambda>p.
     if has_flag p INPUT_CLOSED then navi_error env ''attempted to read from closed port'' []
     else ret ()))"

definition check_can_read_u8 :: "navi_obj \<Rightarrow> navi_env \<Rightarrow> unit nm" where
  "check_can_read_u8 port env =
     bind (check_can_read port env) (\<lambda>_.
     bind (navi_port port) (\<lambda>p.
     if \<not> pt_read_u8 p then navi_error env (''port doesn'' @ [CHR 0x27] @ ''t support binary input'') []
     else ret ()))"

definition check_can_write :: "navi_obj \<Rightarrow> navi_env \<Rightarrow> unit nm" where
  "check_can_write port env =
     bind (check_output_port port env) (\<lambda>_.
     bind (navi_port port) (\<lambda>p.
     if has_flag p OUTPUT_CLOSED then navi_error env ''attempted to write to closed port'' []
     else ret ()))"

definition check_can_write_u8 :: "navi_obj \<Rightarrow> navi_env \<Rightarrow> unit nm" where
  "check_can_write_u8 port env =
     bind (check_can_write port env) (\<lambda>_.
     bind (navi_port port) (\<lambda>p.
     if \<not> pt_write_u8 p then navi_error env (''port doesn'' @ [CHR 0x27] @ ''t support binary output'') []
     else ret ()))"

section \<open>Streams and strings behind a port\<close>

definition deref_stream :: "navi_obj \<Rightarrow> (nat \<times> stream) nm" where
  "deref_stream port = bind (navi_port port) (\<lambda>p. case pt_specific p of
       None \<Rightarrow> stop Undef
     | Some f \<Rightarrow> (\<lambda>st n. case streams st f of None \<Rightarrow> (Inl Undef, st) | Some s \<Rightarrow> (Inr (f, s), st)))"

definition put_stream :: "nat \<Rightarrow> stream option \<Rightarrow> unit nm" where
  "put_stream f s = modifies (\<lambda>st. st\<lparr>streams := (streams st)(f := s)\<rparr>)"

definition stdio_read :: "navi_obj \<Rightarrow> int nm" where
  "stdio_read port = bind (deref_stream port) (\<lambda>(f, s). case unread s of
       [] \<Rightarrow> ret EOF
     | b # bs \<Rightarrow> bind (put_stream f (Some (s\<lparr>unread := bs\<rparr>))) (\<lambda>_. ret (uint b)))"

definition stdio_write :: "byte \<Rightarrow> navi_obj \<Rightarrow> unit nm" where
  "stdio_write ch port =
     bind (deref_stream port) (\<lambda>(f, s). put_stream f (Some (s\<lparr>written := written s @ [ch]\<rparr>)))"

definition stdio_close :: "navi_obj \<Rightarrow> navi_env \<Rightarrow> unit nm" where
  "stdio_close port env = bind (deref_stream port) (\<lambda>(f, s). put_stream f None)"

definition string_read :: "navi_obj \<Rightarrow> int nm" where
  "string_read port =
     bind (navi_port port) (\<lambda>p.
     bind (navi_string (pt_expr p)) (\<lambda>str.
     if pt_pos p = s_size str then ret EOF
     else bind (u8_next (pt_expr p) (pt_pos p)) (\<lambda>(ch, pos).
          bind (update_port port (\<lambda>p. p\<lparr>pt_pos := pos\<rparr>)) (\<lambda>_. ret ch))))"

text \<open>\<open>u8_append\<close> stores the low byte of the character at the size, which it increments.\<close>

definition string_write :: "int \<Rightarrow> navi_obj \<Rightarrow> unit nm" where
  "string_write ch port =
     bind (navi_port port) (\<lambda>p. let expr = pt_expr p in
     bind (navi_string_grow_storage expr (nat (u8_length ch))) (\<lambda>_.
     bind (navi_string expr) (\<lambda>str.
     bind (u8_append expr (s_size str) ch) (\<lambda>sz.
     bind (string_set_size expr sz) (\<lambda>_.
     bind (string_put expr sz 0) (\<lambda>_.
     bind (navi_string expr) (\<lambda>str.
     put_data expr (PString (str\<lparr>s_length := Suc (s_length str)\<rparr>)))))))))"

section \<open>Reading\<close>

definition navi_port_buffer_byte :: "navi_obj \<Rightarrow> unit nm" where
  "navi_port_buffer_byte port =
     bind (navi_port port) (\<lambda>p.
     bind (if pt_read_u8 p then stdio_read port else stop Undef) (\<lambda>b.
     update_port port (\<lambda>p. p\<lparr>pt_buffer := Some b\<rparr>)))"

definition port_buffer :: "navi_obj \<Rightarrow> int nm" where
  "port_buffer port = bind (navi_port port) (\<lambda>p. init (pt_buffer p))"

definition navi_port_peek_c_byte :: "navi_obj \<Rightarrow> navi_env \<Rightarrow> int nm" where
  "navi_port_peek_c_byte port env =
     bind (check_can_read_u8 port env) (\<lambda>_.
     bind (navi_port port) (\<lambda>p.
     if has_flag p GOT_EOF then ret EOF
     else
       bind (if \<not> has_flag p BUFFER_FULL
             then bind (navi_port_buffer_byte port) (\<lambda>_. update_port port (set_flag BUFFER_FULL))
             else ret ()) (\<lambda>_.
       port_buffer port)))"

definition navi_port_peek_byte :: "navi_obj \<Rightarrow> navi_env \<Rightarrow> navi_obj nm" where
  "navi_port_peek_byte port env =
     bind (navi_port_peek_c_byte port env) (\<lambda>b.
     ret (if b = EOF then navi_make_eof else navi_make_fixnum b))"

definition navi_port_read_c_byte :: "navi_obj \<Rightarrow> navi_env \<Rightarrow> int nm" where
  "navi_port_read_c_byte port env =
     bind (check_can_read_u8 port env) (\<lambda>_.
     bind (navi_port port) (\<lambda>p.
     if has_flag p GOT_EOF then ret EOF
     else
       bind (if has_flag p BUFFER_FULL then update_port port (clear_flag BUFFER_FULL)
             else navi_port_buffer_byte port) (\<lambda>_.
       port_buffer port)))"

definition navi_port_read_byte :: "navi_obj \<Rightarrow> navi_env \<Rightarrow> navi_obj nm" where
  "navi_port_read_byte port env =
     bind (navi_port_read_c_byte port env) (\<lambda>b.
     if b = EOF then bind (update_port port (set_flag GOT_EOF)) (\<lambda>_. ret navi_make_eof)
     else ret (navi_make_fixnum b))"

text \<open>The table of the lengths of UTF-8 sequences, by their first byte.\<close>

definition utf8_char_size :: "int \<Rightarrow> int" where
  "utf8_char_size ch =
     (if ch < 128 then 1 else if ch < 192 then 0 else if ch < 224 then 2 else if ch < 240 then 3
      else if ch < 245 then 4 else - 1)"

text \<open>Without ICU \<open>u8_get_unchecked\<close> reads the first byte only, whatever the length of the sequence.\<close>

definition navi_utf8_error :: "navi_env \<Rightarrow> string \<Rightarrow> 'a nm" where
  "navi_utf8_error env msg = stop (Error Utf8Error msg [] env)"

definition navi_port_buffer_char :: "navi_obj \<Rightarrow> navi_env \<Rightarrow> unit nm" where
  "navi_port_buffer_char port env =
     bind (navi_port port) (\<lambda>p.
     if pt_read_char p then
       bind (string_read port) (\<lambda>c.
       bind (update_port port (\<lambda>p. p\<lparr>pt_buffer := Some c\<rparr>)) (\<lambda>_.
       if c = EOF then update_port port (set_flag GOT_EOF) else ret ()))
     else
       bind (if pt_read_u8 p then stdio_read port else stop Undef) (\<lambda>byte.
       if byte = EOF then
         bind (update_port port (\<lambda>p. p\<lparr>pt_buffer := Some EOF\<rparr>)) (\<lambda>_. update_port port (set_flag GOT_EOF))
       else
         let size = utf8_char_size byte in
         if size \<le> 0 then navi_utf8_error env ''invalid lead byte''
         else
           bind (foldM (\<lambda>_ _. bind (stdio_read port) (\<lambda>b.
             if b = EOF then navi_utf8_error env ''unexpected end of file'' else ret ()))
             [1..<nat size] ()) (\<lambda>_.
           update_port port (\<lambda>p. p\<lparr>pt_buffer := Some byte\<rparr>))))"

definition navi_port_read_char :: "navi_obj \<Rightarrow> navi_env \<Rightarrow> navi_obj nm" where
  "navi_port_read_char port env =
     bind (check_can_read port env) (\<lambda>_.
     bind (navi_port port) (\<lambda>p.
     if has_flag p GOT_EOF then ret navi_make_eof
     else if has_flag p BUFFER_FULL then
       bind (update_port port (clear_flag BUFFER_FULL)) (\<lambda>_.
       bind (port_buffer port) (\<lambda>c. ret (navi_make_char c)))
     else
       bind (navi_port_buffer_char port env) (\<lambda>_.
       bind (navi_port port) (\<lambda>p.
       if has_flag p GOT_EOF then ret navi_make_eof
       else bind (port_buffer port) (\<lambda>c. ret (navi_make_char c))))))"

definition navi_port_peek_char :: "navi_obj \<Rightarrow> navi_env \<Rightarrow> navi_obj nm" where
  "navi_port_peek_char port env =
     bind (check_can_read port env) (\<lambda>_.
     bind (navi_port port) (\<lambda>p.
     if has_flag p GOT_EOF then ret navi_make_eof
     else
       bind (if \<not> has_flag p BUFFER_FULL
             then bind (navi_port_buffer_char port env) (\<lambda>_. update_port port (set_flag BUFFER_FULL))
             else ret ()) (\<lambda>_.
       bind (port_buffer port) (\<lambda>c. ret (navi_make_char c)))))"

section \<open>Writing\<close>

definition navi_port_write_byte :: "byte \<Rightarrow> navi_obj \<Rightarrow> navi_env \<Rightarrow> unit nm" where
  "navi_port_write_byte ch port env =
     bind (check_can_write_u8 port env) (\<lambda>_. stdio_write ch port)"

text \<open>Without ICU the fallback writes the low byte of the character.\<close>

definition navi_port_write_char :: "int \<Rightarrow> navi_obj \<Rightarrow> navi_env \<Rightarrow> unit nm" where
  "navi_port_write_char ch port env =
     bind (check_can_write port env) (\<lambda>_.
     bind (navi_port port) (\<lambda>p.
     if pt_write_char p then string_write ch port
     else foldM (\<lambda>_ _. if pt_write_u8 p then stdio_write (word_of_int ch) port else stop Undef)
            [0..<nat (u8_length ch)] ()))"

text \<open>The bytes of a C string are of the type \<open>char\<close>, which is signed.\<close>

definition navi_port_write_cstr :: "string \<Rightarrow> navi_obj \<Rightarrow> navi_env \<Rightarrow> unit nm" where
  "navi_port_write_cstr str port env =
     bind (navi_port port) (\<lambda>p.
     if pt_write_u8 p then foldM (\<lambda>c _. navi_port_write_byte (byte_of c) port env) str ()
     else foldM (\<lambda>c _. navi_port_write_char (sint (byte_of c)) port env) str ())"

definition navi_port_is_fold_case :: "navi_obj \<Rightarrow> bool nm" where
  "navi_port_is_fold_case port = bind (navi_port port) (\<lambda>p. ret (has_flag p FOLD_CASE))"

definition navi_port_set_fold_case :: "navi_obj \<Rightarrow> bool \<Rightarrow> unit nm" where
  "navi_port_set_fold_case port on =
     update_port port (if on then set_flag FOLD_CASE else clear_flag FOLD_CASE)"

section \<open>Current ports\<close>

definition navi_current_input_port :: "navi_env \<Rightarrow> navi_obj nm" where
  "navi_current_input_port env = navi_env_lookup (dynamic env) navi_sym_current_input"

definition navi_current_output_port :: "navi_env \<Rightarrow> navi_obj nm" where
  "navi_current_output_port env = navi_env_lookup (dynamic env) navi_sym_current_output"

definition navi_current_error_port :: "navi_env \<Rightarrow> navi_obj nm" where
  "navi_current_error_port env = navi_env_lookup (dynamic env) navi_sym_current_error"

definition navi_port_cast :: "navi_obj \<Rightarrow> navi_env \<Rightarrow> navi_obj nm" where
  "navi_port_cast port env = navi_type_check port NAVI_PORT env"

definition get_port :: "navi_obj \<Rightarrow> navi_obj \<Rightarrow> navi_env \<Rightarrow> navi_obj nm" where
  "get_port fallback args env =
     bind (navi_is_nil args) (\<lambda>b.
     if b then bind (navi_env_lookup (dynamic env) fallback) (\<lambda>p. navi_port_cast p env)
     else bind (navi_car args) (\<lambda>p. navi_port_cast p env))"

definition get_input_port :: "navi_obj \<Rightarrow> navi_env \<Rightarrow> navi_obj nm" where
  "get_input_port args env =
     bind (get_port navi_sym_current_input args env) (\<lambda>p.
     bind (check_input_port p env) (\<lambda>_. ret p))"

definition get_output_port :: "navi_obj \<Rightarrow> navi_env \<Rightarrow> navi_obj nm" where
  "get_output_port args env =
     bind (get_port navi_sym_current_output args env) (\<lambda>p.
     bind (check_output_port p env) (\<lambda>_. ret p))"

end
