(* ===== verification/Navi_Display.thy ===== *)
theory Navi_Display
  imports Navi_Port Navi_Procedure
begin

text \<open>
  The printer (\<open>display.c\<close>): \<open>display\<close> and \<open>write\<close> of every type of object on a port.  The
  recursion of \<open>_navi_display\<close> into the parts of an object is bounded by a depth; a circular
  structure is printed without end in C and runs out of every depth here.
\<close>

section \<open>Names of characters\<close>

definition named_chars :: "(string \<times> int) list" where
  "named_chars =
     [(''alarm'', 7), (''backspace'', 8), (''delete'', 127), (''escape'', 27), (''newline'', 10),
      (''null'', 0), (''return'', 13), (''space'', 32), (''tab'', 9)]"

definition navi_char_name :: "int \<Rightarrow> string option" where
  "navi_char_name value = map_option fst (List.find (\<lambda>e. snd e = value) named_chars)"

section \<open>Atoms\<close>

definition write_fixnum :: "navi_obj \<Rightarrow> navi_obj \<Rightarrow> navi_env \<Rightarrow> unit nm" where
  "write_fixnum p x env = bind (navi_fixnum x) (\<lambda>i. navi_port_write_cstr (fmt_ld i) p env)"

definition write_bool :: "navi_obj \<Rightarrow> navi_obj \<Rightarrow> navi_env \<Rightarrow> unit nm" where
  "write_bool p x env =
     bind (navi_bool x) (\<lambda>b. navi_port_write_cstr (if b then ''#t'' else ''#f'') p env)"

text \<open>
  \<open>%c\<close> of the character converted to \<open>char\<close>; a zero byte would end the string there, but 0 has
  a name.
\<close>

definition write_char_text :: "int \<Rightarrow> string" where
  "write_char_text c = ''#'' @ [CHR 0x5C] @
     (case navi_char_name c of
        Some name \<Rightarrow> name
      | None \<Rightarrow> if c > 127 then ''x'' @ fmt_lx c
          else takeWhile (\<lambda>ch. ch \<noteq> CHR 0x00) [char_of_byte (word_of_int c)])"

definition write_char :: "navi_obj \<Rightarrow> navi_obj \<Rightarrow> navi_env \<Rightarrow> unit nm" where
  "write_char p x env = bind (navi_char x) (\<lambda>c. navi_port_write_cstr (write_char_text c) p env)"

definition write_string :: "bool \<Rightarrow> navi_obj \<Rightarrow> navi_obj \<Rightarrow> navi_env \<Rightarrow> unit nm" where
  "write_string w p x env =
     bind (if w then navi_port_write_cstr [CHR 0x22] p env else ret ()) (\<lambda>_.
     bind (navi_string x) (\<lambda>s. bind (cstr_from (s_data s)) (\<lambda>text.
     bind (navi_port_write_cstr text p env) (\<lambda>_.
     if w then navi_port_write_cstr [CHR 0x22] p env else ret ()))))"

definition write_symbol :: "navi_obj \<Rightarrow> navi_obj \<Rightarrow> navi_env \<Rightarrow> unit nm" where
  "write_symbol p x env =
     bind (navi_symbol x) (\<lambda>(name, interned).
     foldM (\<lambda>c _. navi_port_write_byte (byte_of c) p env) name ())"

section \<open>Compound objects\<close>

type_synonym displayf = "navi_obj \<Rightarrow> navi_obj \<Rightarrow> bool \<Rightarrow> navi_env \<Rightarrow> unit nm"

text \<open>\<open>write_cdr\<close> calls itself for the rest of a list; the depth bounds both recursions.\<close>

primrec write_cdr :: "displayf \<Rightarrow> nat \<Rightarrow> navi_obj \<Rightarrow> navi_obj \<Rightarrow> bool \<Rightarrow> bool \<Rightarrow> navi_env \<Rightarrow> unit nm" where
  "write_cdr display 0 port cdr head w env = stop NoFuel"
| "write_cdr display (Suc k) port cdr head w env =
     bind (navi_type cdr) (\<lambda>t. case t of
         NAVI_PAIR \<Rightarrow>
           bind (if \<not> head then navi_port_write_cstr '' '' port env else ret ()) (\<lambda>_.
           bind (navi_car cdr) (\<lambda>x.
           bind (display port x w env) (\<lambda>_.
           bind (navi_cdr cdr) (\<lambda>rest.
           write_cdr display k port rest False w env))))
       | NAVI_NIL \<Rightarrow> navi_port_write_cstr '')'' port env
       | _ \<Rightarrow>
           bind (navi_port_write_cstr '' . '' port env) (\<lambda>_.
           bind (display port cdr w env) (\<lambda>_.
           navi_port_write_cstr '')'' port env)))"

definition write_pair :: "displayf \<Rightarrow> navi_obj \<Rightarrow> navi_obj \<Rightarrow> bool \<Rightarrow> navi_env \<Rightarrow> unit nm" where
  "write_pair display p x w env =
     bind (navi_port_write_cstr ''('' p env) (\<lambda>_. (\<lambda>st n. write_cdr display n p x True w env st n))"

text \<open>The loop over the elements after the first one.\<close>

definition write_vector :: "displayf \<Rightarrow> navi_obj \<Rightarrow> navi_obj \<Rightarrow> bool \<Rightarrow> navi_env \<Rightarrow> unit nm" where
  "write_vector display p x w env =
     bind (navi_vector x) (\<lambda>vec.
     if length vec = 0 then navi_port_write_cstr ''#()'' p env
     else
       bind (navi_port_write_cstr ''#('' p env) (\<lambda>_.
       bind (bind (vector_get x 0) (\<lambda>e. display p e w env)) (\<lambda>_.
       bind (foldM (\<lambda>i _.
         bind (navi_port_write_cstr '' '' p env) (\<lambda>_.
         bind (vector_get x i) (\<lambda>e. display p e w env))) [1..<length vec] ()) (\<lambda>_.
       navi_port_write_cstr '')'' p env))))"

text \<open>The empty bytevector is printed without its closing parenthesis.\<close>

definition write_bytevec :: "displayf \<Rightarrow> navi_obj \<Rightarrow> navi_obj \<Rightarrow> bool \<Rightarrow> navi_env \<Rightarrow> unit nm" where
  "write_bytevec display p x w env =
     bind (navi_bytevec x) (\<lambda>vec.
     if length vec = 0 then navi_port_write_cstr ''#u8('' p env
     else
       bind (navi_port_write_cstr ''#u8('' p env) (\<lambda>_.
       bind (bind (bytevec_get x 0) (\<lambda>b. display p (navi_make_fixnum (uint b)) w env)) (\<lambda>_.
       bind (foldM (\<lambda>i _.
         bind (navi_port_write_cstr '' '' p env) (\<lambda>_.
         bind (bytevec_get x i) (\<lambda>b. display p (navi_make_fixnum (uint b)) w env))) [1..<length vec] ()) (\<lambda>_.
       navi_port_write_cstr '')'' p env))))"

definition write_procedure :: "navi_obj \<Rightarrow> navi_obj \<Rightarrow> navi_env \<Rightarrow> unit nm" where
  "write_procedure p x env =
     bind (navi_procedure x) (\<lambda>proc.
     bind (navi_port_write_cstr
       (if p_builtin proc then ''#<builtin-procedure '' else ''#<interpreted-procedure '') p env) (\<lambda>_.
     bind (write_symbol p (p_name proc) env) (\<lambda>_.
     navi_port_write_cstr ''>'' p env)))"

definition write_thunk :: "displayf \<Rightarrow> navi_obj \<Rightarrow> navi_obj \<Rightarrow> bool \<Rightarrow> navi_env \<Rightarrow> unit nm" where
  "write_thunk display p x w env =
     bind (navi_port_write_cstr ''#<thunk '' p env) (\<lambda>_.
     bind (navi_thunk x) (\<lambda>(expr, _).
     bind (display p expr w env) (\<lambda>_.
     navi_port_write_cstr ''>'' p env)))"

definition write_with_call :: "string \<Rightarrow> unit nm \<Rightarrow> navi_obj \<Rightarrow> navi_env \<Rightarrow> unit nm" where
  "write_with_call tag arg p env =
     bind (navi_port_write_cstr (''#<'' @ tag @ '' '') p env) (\<lambda>_.
     bind arg (\<lambda>_.
     navi_port_write_cstr ''>'' p env))"

section \<open>The dispatch\<close>

text \<open>\<open>writetab\<close> has no entry for \<open>NAVI_TRAP\<close>; \<open>_navi_display\<close> asserts that there is one.\<close>

definition display_body :: "displayf \<Rightarrow> displayf" where
  "display_body display port obj w env =
     bind (navi_type obj) (\<lambda>t. case t of
         NAVI_VOID \<Rightarrow> ret ()
       | NAVI_NIL \<Rightarrow> navi_port_write_cstr ''()'' port env
       | NAVI_EOF \<Rightarrow> navi_port_write_cstr ''#!eof'' port env
       | NAVI_FIXNUM \<Rightarrow> write_fixnum port obj env
       | NAVI_BOOL \<Rightarrow> write_bool port obj env
       | NAVI_CHAR \<Rightarrow> write_char port obj env
       | NAVI_VALUES \<Rightarrow> write_with_call ''values'' (write_vector display port obj w env) port env
       | NAVI_PAIR \<Rightarrow> write_pair display port obj w env
       | NAVI_PORT \<Rightarrow> navi_port_write_cstr ''#<port>'' port env
       | NAVI_STRING \<Rightarrow> write_string w port obj env
       | NAVI_SYMBOL \<Rightarrow> write_symbol port obj env
       | NAVI_VECTOR \<Rightarrow> write_vector display port obj w env
       | NAVI_BYTEVEC \<Rightarrow> write_bytevec display port obj w env
       | NAVI_THUNK \<Rightarrow> write_thunk display port obj w env
       | NAVI_MACRO \<Rightarrow> write_with_call ''macro''
           (bind (navi_procedure obj) (\<lambda>proc. write_symbol port (p_name proc) env)) port env
       | NAVI_SPECIAL \<Rightarrow> write_with_call ''special form''
           (bind (navi_procedure obj) (\<lambda>proc. write_symbol port (p_name proc) env)) port env
       | NAVI_PROCEDURE \<Rightarrow> write_procedure port obj env
       | NAVI_PROMISE \<Rightarrow> navi_port_write_cstr ''#<promise>'' port env
       | NAVI_CASELAMBDA \<Rightarrow> navi_port_write_cstr ''#<case-lambda>'' port env
       | NAVI_ESCAPE \<Rightarrow> navi_port_write_cstr ''#<escape continuation>'' port env
       | NAVI_PARAMETER \<Rightarrow> write_with_call ''parameter''
           (bind (navi_car obj) (\<lambda>key. write_symbol port key env)) port env
       | NAVI_ENVIRONMENT \<Rightarrow> navi_port_write_cstr ''#<environment>'' port env
       | NAVI_BOUNCE \<Rightarrow> navi_port_write_cstr ''#<bounce>'' port env
       | NAVI_TRAP \<Rightarrow> stop (Die ''assertion failed''))"

primrec display_depth :: "nat \<Rightarrow> displayf" where
  "display_depth 0 port obj w env = stop NoFuel"
| "display_depth (Suc k) port obj w env = display_body (display_depth k) port obj w env"

definition navi_display_obj :: "displayf" where
  "navi_display_obj port obj w env = (\<lambda>st n. display_depth n port obj w env st n)"

definition navi_port_display :: "navi_obj \<Rightarrow> navi_obj \<Rightarrow> navi_env \<Rightarrow> unit nm" where
  "navi_port_display port obj env = navi_display_obj port obj False env"

definition navi_port_write :: "navi_obj \<Rightarrow> navi_obj \<Rightarrow> navi_env \<Rightarrow> unit nm" where
  "navi_port_write port obj env = navi_display_obj port obj True env"

end
