(* ===== verification/Navi_Read.thy ===== *)
theory Navi_Read
  imports Navi_Display
begin

text \<open>
  The reader (\<open>read.c\<close>): a recursive-descent parser over the characters of a port.  Loops go
  round at most the budget's number of times; the recursion of \<open>navi_read\<close> and \<open>read_sharp\<close> is
  bounded by a depth.  A string that \<open>read_until\<close> collects is a C string: the part before the
  first zero byte.  Strings of \<open>2 ^ 31\<close> bytes or more are outside the model.
\<close>

section \<open>Characters\<close>

definition to_char :: "int \<Rightarrow> int" where
  "to_char i = sint (word_of_int i :: 8 word)"

text \<open>The classes of \<open>ctype.h\<close> in the C locale.\<close>

definition c_isspace :: "int \<Rightarrow> bool nm" where
  "c_isspace c = (if ctype_domain c then ret (c = 32 \<or> 9 \<le> c \<and> c \<le> 13) else stop Undef)"

definition c_isdigit :: "int \<Rightarrow> bool nm" where
  "c_isdigit c = (if ctype_domain c then ret (48 \<le> c \<and> c \<le> 57) else stop Undef)"

definition c_isxdigit :: "int \<Rightarrow> bool nm" where
  "c_isxdigit c = (if ctype_domain c
     then ret (48 \<le> c \<and> c \<le> 57 \<or> 65 \<le> c \<and> c \<le> 70 \<or> 97 \<le> c \<and> c \<le> 102) else stop Undef)"

definition isodigit :: "int \<Rightarrow> bool nm" where
  "isodigit c = ret (48 \<le> c \<and> c < 56)"

definition isbdigit :: "int \<Rightarrow> bool nm" where
  "isbdigit c = ret (c = 48 \<or> c = 49)"

definition navi_read_error :: "navi_env \<Rightarrow> string \<Rightarrow> (string \<times> irritant) list \<Rightarrow> 'a nm" where
  "navi_read_error env msg irritants = stop (Error ReadError msg irritants env)"

definition unexpected_eof :: "navi_env \<Rightarrow> 'a nm" where
  "unexpected_eof env = navi_read_error env ''unexpected end of file'' []"

definition ispipe :: "int \<Rightarrow> navi_env \<Rightarrow> bool nm" where
  "ispipe c env = (if c = EOF then unexpected_eof env else ret (c = 124))"

definition isterminal :: "int \<Rightarrow> navi_env \<Rightarrow> bool nm" where
  "isterminal c env = bind (c_isspace c) (\<lambda>b. ret (b \<or> c = 40 \<or> c = 41 \<or> c = EOF))"

definition handle_case :: "navi_obj \<Rightarrow> int \<Rightarrow> int nm" where
  "handle_case port c = bind (navi_port_is_fold_case port) (\<lambda>f. if f then tolower c else ret c)"

definition u_isdefined :: "int \<Rightarrow> bool" where
  "u_isdefined c \<longleftrightarrow> c < 128"

section \<open>Peeking and reading\<close>

definition peek_char :: "navi_obj \<Rightarrow> navi_env \<Rightarrow> int nm" where
  "peek_char port env =
     bind (navi_port_peek_char port env) (\<lambda>ch.
     if ch = navi_make_eof then ret EOF else bind (navi_char ch) (\<lambda>c. ret (to_int c)))"

definition ipeek_char :: "navi_obj \<Rightarrow> navi_env \<Rightarrow> int nm" where
  "ipeek_char port env =
     bind (peek_char port env) (\<lambda>c. if c = EOF then unexpected_eof env else ret c)"

definition read_char :: "navi_obj \<Rightarrow> navi_env \<Rightarrow> int nm" where
  "read_char port env =
     bind (navi_port_read_char port env) (\<lambda>ch.
     if ch = navi_make_eof then ret EOF else bind (navi_char ch) (\<lambda>c. ret (to_int c)))"

definition iread_char :: "navi_obj \<Rightarrow> navi_env \<Rightarrow> int nm" where
  "iread_char port env =
     bind (read_char port env) (\<lambda>c. if c = EOF then unexpected_eof env else ret c)"

primrec peek_first_rounds :: "nat \<Rightarrow> navi_obj \<Rightarrow> navi_env \<Rightarrow> int nm" where
  "peek_first_rounds 0 port env = stop NoFuel"
| "peek_first_rounds (Suc k) port env =
     bind (peek_char port env) (\<lambda>c.
     bind (c_isspace c) (\<lambda>b.
     if b then bind (read_char port env) (\<lambda>_. peek_first_rounds k port env) else ret c))"

definition peek_first_char :: "navi_obj \<Rightarrow> navi_env \<Rightarrow> int nm" where
  "peek_first_char port env = (\<lambda>st n. peek_first_rounds n port env st n)"

definition ipeek_first_char :: "navi_obj \<Rightarrow> navi_env \<Rightarrow> int nm" where
  "ipeek_first_char port env =
     bind (peek_first_char port env) (\<lambda>c. if c = EOF then unexpected_eof env else ret c)"

text \<open>The loops \<open>while (iread_char(port, env) != d)\<close> and \<open>consume_line\<close>.\<close>

primrec skip_to_rounds :: "nat \<Rightarrow> int \<Rightarrow> navi_obj \<Rightarrow> navi_env \<Rightarrow> unit nm" where
  "skip_to_rounds 0 d port env = stop NoFuel"
| "skip_to_rounds (Suc k) d port env =
     bind (iread_char port env) (\<lambda>c. if c \<noteq> d then skip_to_rounds k d port env else ret ())"

definition skip_to :: "int \<Rightarrow> navi_obj \<Rightarrow> navi_env \<Rightarrow> unit nm" where
  "skip_to d port env = (\<lambda>st n. skip_to_rounds n d port env st n)"

primrec consume_line_rounds :: "nat \<Rightarrow> navi_obj \<Rightarrow> navi_env \<Rightarrow> unit nm" where
  "consume_line_rounds 0 port env = stop NoFuel"
| "consume_line_rounds (Suc k) port env =
     bind (read_char port env) (\<lambda>c.
     if c \<noteq> 10 \<and> c \<noteq> EOF then consume_line_rounds k port env else ret ())"

definition consume_line :: "navi_obj \<Rightarrow> navi_env \<Rightarrow> unit nm" where
  "consume_line port env = (\<lambda>st n. consume_line_rounds n port env st n)"

section \<open>Numbers\<close>

definition decimal_value :: "int \<Rightarrow> navi_env \<Rightarrow> int nm" where
  "decimal_value c env = ret (c - 48)"

definition hex_value :: "int \<Rightarrow> navi_env \<Rightarrow> int nm" where
  "hex_value c env =
     (if 48 \<le> c \<and> c \<le> 57 then ret (c - 48)
      else if 97 \<le> c \<and> c \<le> 102 then ret (c - 87)
      else if 65 \<le> c \<and> c \<le> 70 then ret (c - 55)
      else navi_read_error env ''invalid hex digit'' [(''digit'', IObj (navi_make_char c))])"

type_synonym ctypef = "int \<Rightarrow> bool nm"
type_synonym tonumf = "int \<Rightarrow> navi_env \<Rightarrow> int nm"

primrec read_unum_rounds ::
  "nat \<Rightarrow> navi_obj \<Rightarrow> int \<Rightarrow> ctypef \<Rightarrow> tonumf \<Rightarrow> navi_env \<Rightarrow> 64 word \<Rightarrow> 64 word nm" where
  "read_unum_rounds 0 port radix ctype tonum env num = stop NoFuel"
| "read_unum_rounds (Suc k) port radix ctype tonum env num =
     bind (peek_char port env) (\<lambda>i. let c = to_char i in
     bind (ctype c) (\<lambda>b.
     if \<not> b then ret num
     else
       bind (tonum c env) (\<lambda>d.
       bind (read_char port env) (\<lambda>_.
       read_unum_rounds k port radix ctype tonum env (num * word_of_int radix + word_of_int d)))))"

definition read_unum :: "navi_obj \<Rightarrow> int \<Rightarrow> ctypef \<Rightarrow> tonumf \<Rightarrow> navi_env \<Rightarrow> 64 word nm" where
  "read_unum port radix ctype tonum env =
     (\<lambda>st n. read_unum_rounds n port radix ctype tonum env 0 st n)"

definition read_num :: "navi_obj \<Rightarrow> int \<Rightarrow> ctypef \<Rightarrow> tonumf \<Rightarrow> navi_env \<Rightarrow> int nm" where
  "read_num port radix ctype tonum env =
     bind (peek_char port env) (\<lambda>i. let c = to_char i in
     bind (if c = 45 then bind (read_char port env) (\<lambda>_. ret (- 1))
           else if c = 43 then bind (read_char port env) (\<lambda>_. ret 1)
           else ret 1) (\<lambda>sign :: 64 word.
     bind (read_unum port radix ctype tonum env) (\<lambda>u. ret (sint (sign * u)))))"

definition read_decimal :: "navi_obj \<Rightarrow> navi_env \<Rightarrow> navi_obj nm" where
  "read_decimal port env =
     bind (read_num port 10 c_isdigit decimal_value env) (\<lambda>i. ret (navi_make_fixnum i))"

definition read_hex :: "navi_obj \<Rightarrow> navi_env \<Rightarrow> navi_obj nm" where
  "read_hex port env =
     bind (read_num port 16 c_isxdigit hex_value env) (\<lambda>i. ret (navi_make_fixnum i))"

definition read_octal :: "navi_obj \<Rightarrow> navi_env \<Rightarrow> navi_obj nm" where
  "read_octal port env =
     bind (read_num port 8 isodigit decimal_value env) (\<lambda>i. ret (navi_make_fixnum i))"

definition read_binary :: "navi_obj \<Rightarrow> navi_env \<Rightarrow> navi_obj nm" where
  "read_binary port env =
     bind (read_num port 2 isbdigit decimal_value env) (\<lambda>i. ret (navi_make_fixnum i))"

section \<open>Tokens\<close>

text \<open>
  The buffer of \<open>read_until\<close> grows by \<open>STR_BUF_STEP\<close> before it is full.  The character is stored
  in one byte, whether it is above 0xFF or not.
\<close>

primrec read_until_rounds ::
  "nat \<Rightarrow> navi_obj \<Rightarrow> (int \<Rightarrow> navi_env \<Rightarrow> bool nm) \<Rightarrow> navi_env \<Rightarrow> string \<Rightarrow> string nm" where
  "read_until_rounds 0 port ctype env str = stop NoFuel"
| "read_until_rounds (Suc k) port ctype env str =
     bind (peek_char port env) (\<lambda>c.
     bind (ctype c env) (\<lambda>b.
     if b then ret (takeWhile (\<lambda>ch. ch \<noteq> CHR 0x00) str)
     else
       bind (read_char port env) (\<lambda>_.
       read_until_rounds k port ctype env (str @ [char_of_byte (word_of_int c)]))))"

definition read_until :: "navi_obj \<Rightarrow> (int \<Rightarrow> navi_env \<Rightarrow> bool nm) \<Rightarrow> navi_env \<Rightarrow> string nm" where
  "read_until port ctype env = (\<lambda>st n. read_until_rounds n port ctype env [] st n)"

definition char_value :: "char \<Rightarrow> int" where
  "char_value ch = sint (byte_of ch)"

text \<open>\<open>str[i] = handle_case(port, str[i])\<close> for every character of a string.\<close>

definition fold_cstr :: "navi_obj \<Rightarrow> string \<Rightarrow> string nm" where
  "fold_cstr port str =
     foldM (\<lambda>ch out. bind (handle_case port (char_value ch)) (\<lambda>c.
       ret (out @ [char_of_byte (word_of_int c)]))) str []"

primrec skip_space_rounds :: "nat \<Rightarrow> navi_obj \<Rightarrow> navi_env \<Rightarrow> int nm" where
  "skip_space_rounds 0 port env = stop NoFuel"
| "skip_space_rounds (Suc k) port env =
     bind (iread_char port env) (\<lambda>c.
     bind (c_isspace c) (\<lambda>b. if b then skip_space_rounds k port env else ret c))"

definition read_string_escape :: "navi_obj \<Rightarrow> navi_env \<Rightarrow> int nm" where
  "read_string_escape port env =
     bind (iread_char port env) (\<lambda>c.
     if c = 97 then ret 7
     else if c = 98 then ret 8
     else if c = 116 then ret 9
     else if c = 110 then ret 10
     else if c = 114 then ret 13
     else if c = 34 \<or> c = 92 \<or> c = 124 then ret c
     else if c = 32 \<or> c = 9 \<or> c = 10 \<or> c = 13 \<or> c = 12 \<or> c = 11 then
       (\<lambda>st n. skip_space_rounds n port env st n)
     else if c = 120 then
       bind (read_unum port 16 c_isxdigit hex_value env) (\<lambda>u. let c = to_int (uint u) in
       bind (ipeek_char port env) (\<lambda>d.
       bind (if d = 59 then bind (read_char port env) (\<lambda>_. ret ()) else ret ()) (\<lambda>_.
       ret (if u_isdefined c then c else 63))))
     else navi_read_error env ''unknown string escape'' [(''char'', IObj (navi_make_char c))])"

definition STR_BUF_LEN :: nat where "STR_BUF_LEN = 64"
definition STR_BUF_STEP :: nat where "STR_BUF_STEP = 64"

primrec read_string_rounds :: "nat \<Rightarrow> navi_obj \<Rightarrow> navi_obj \<Rightarrow> navi_env \<Rightarrow> nat \<Rightarrow> nat \<Rightarrow> (nat \<times> nat) nm" where
  "read_string_rounds 0 obj port env pos len = stop NoFuel"
| "read_string_rounds (Suc k) obj port env pos len =
     bind (iread_char port env) (\<lambda>c.
     if c = 34 then ret (pos, len)
     else
       bind (if c = 92 then read_string_escape port env else ret c) (\<lambda>c.
       bind (navi_string obj) (\<lambda>str.
       bind (if int pos + u8_length c \<ge> int (s_capacity str)
             then navi_string_grow_storage obj STR_BUF_STEP else ret ()) (\<lambda>_.
       bind (u8_append obj pos c) (\<lambda>pos.
       read_string_rounds k obj port env pos (Suc len))))))"

definition read_string :: "navi_obj \<Rightarrow> navi_env \<Rightarrow> navi_obj nm" where
  "read_string port env =
     bind (navi_make_string STR_BUF_LEN 0 0) (\<lambda>obj.
     bind (\<lambda>st n. read_string_rounds n obj port env 0 0 st n) (\<lambda>(pos, len).
     bind (string_put obj pos 0) (\<lambda>_.
     bind (string_set_size obj pos) (\<lambda>_.
     bind (navi_string obj) (\<lambda>str.
     bind (put_data obj (PString (str\<lparr>s_length := len\<rparr>))) (\<lambda>_.
     ret obj))))))"

definition read_symbol :: "navi_obj \<Rightarrow> (int \<Rightarrow> navi_env \<Rightarrow> bool nm) \<Rightarrow> navi_env \<Rightarrow> navi_obj nm" where
  "read_symbol port halt env =
     bind (read_until port halt env) (\<lambda>str.
     bind (fold_cstr port str) (\<lambda>str.
     navi_make_symbol str))"

text \<open>The loop over \<open>unfixed\<close> includes its zero byte, which \<open>tolower\<close> keeps.\<close>

definition read_symbol_with_prefix ::
  "navi_obj \<Rightarrow> (int \<Rightarrow> navi_env \<Rightarrow> bool nm) \<Rightarrow> int \<Rightarrow> navi_env \<Rightarrow> navi_obj nm" where
  "read_symbol_with_prefix port halt first env =
     bind (read_until port halt env) (\<lambda>unfixed.
     bind (fold_cstr port unfixed) (\<lambda>rest.
     navi_make_symbol (char_of_byte (word_of_int first) # rest)))"

text \<open>The value of a \<open>#\x\<close> literal, an \<open>int32_t\<close> whose overflow has no meaning in C.\<close>

primrec char_hex :: "navi_env \<Rightarrow> string \<Rightarrow> int \<Rightarrow> int nm" where
  "char_hex env [] ch = ret ch"
| "char_hex env (x # xs) ch =
     bind (c_isxdigit (char_value x)) (\<lambda>b.
     if \<not> b then ret ch
     else
       bind (hex_value (char_value x) env) (\<lambda>d. let ch' = ch * 16 + d in
       if ch' \<ge> 2 ^ 31 then stop Undef else char_hex env xs ch'))"

definition read_character :: "navi_obj \<Rightarrow> navi_env \<Rightarrow> navi_obj nm" where
  "read_character port env =
     bind (read_until port isterminal env) (\<lambda>str.
     if length str = 1 then ret (navi_make_char (char_value (hd str)))
     else
       bind (fold_cstr port str) (\<lambda>str.
       if str \<noteq> [] \<and> hd str = CHR ''x'' then
         bind (char_hex env (tl str) 0) (\<lambda>ch.
         if \<not> u_isdefined ch then
           navi_read_error env ''invalid character literal'' [(''value'', IObj (navi_make_fixnum ch))]
         else ret (navi_make_char ch))
       else (case List.find (\<lambda>e. fst e = str) named_chars of
           Some e \<Rightarrow> ret (navi_make_char (snd e))
         | None \<Rightarrow>
             bind (navi_cstr_to_string str) (\<lambda>name.
             navi_read_error env ''unknown named character'' [(''name'', IObj name)]))))"

definition read_sharp_bang :: "navi_obj \<Rightarrow> navi_env \<Rightarrow> navi_obj nm" where
  "read_sharp_bang port env =
     bind (read_until port isterminal env) (\<lambda>str.
     if str \<noteq> [] \<and> hd str = CHR ''/'' then
       bind (skip_to 10 port env) (\<lambda>_. ret navi_make_void)
     else if str = [] then
       bind (consume_line port env) (\<lambda>_. ret navi_make_void)
     else if str = ''eof'' then ret navi_make_eof
     else if str = ''fold-case'' then
       bind (navi_port_set_fold_case port True) (\<lambda>_. ret navi_make_void)
     else if str = ''no-fold-case'' then
       bind (navi_port_set_fold_case port False) (\<lambda>_. ret navi_make_void)
     else
       bind (navi_cstr_to_string str) (\<lambda>d.
       navi_read_error env ''unknown shebang directive'' [(''directive'', IObj d)]))"

text \<open>\<open>strncpy\<close> copies at most four characters.\<close>

definition read_boolean :: "navi_obj \<Rightarrow> char \<Rightarrow> navi_env \<Rightarrow> navi_obj nm" where
  "read_boolean port fst_char env =
     bind (read_until port isterminal env) (\<lambda>str.
     let buf = fst_char # take 4 str in
     if buf = ''t'' \<or> buf = ''true'' then ret (navi_make_bool True)
     else if buf = ''f'' \<or> buf = ''false'' then ret (navi_make_bool False)
     else navi_read_error env ''invalid # syntax'' [])"

section \<open>Data\<close>

type_synonym readf = "navi_obj \<Rightarrow> navi_env \<Rightarrow> navi_obj nm"

definition navi_iread :: "readf \<Rightarrow> readf" where
  "navi_iread rd port env =
     bind (rd port env) (\<lambda>expr. if expr = navi_make_eof then unexpected_eof env else ret expr)"

text \<open>
  \<open>head\<close> and \<open>elmptr\<close> of \<open>read_list\<close>: the list so far, if it has an element, as its first and
  its last pair, and the guard on the first one.
\<close>

type_synonym list_acc = "((navi_obj \<times> navi_obj) \<times> (sid \<times> nat) option) option"

definition set_tail :: "list_acc \<Rightarrow> navi_obj \<Rightarrow> navi_obj nm" where
  "set_tail acc v = (case acc of
       None \<Rightarrow> ret v
     | Some ((head, elm), guard) \<Rightarrow> bind (navi_set_cdr elm v) (\<lambda>_. ret head))"

definition add_element :: "list_acc \<Rightarrow> navi_obj \<Rightarrow> navi_env \<Rightarrow> list_acc nm" where
  "add_element acc expr env =
     bind navi_make_empty_pair (\<lambda>cell.
     bind (set_tail acc cell) (\<lambda>head.
     bind (case acc of Some (_, Some g) \<Rightarrow> ret (Some g) | _ \<Rightarrow> navi_gc_guard cell env) (\<lambda>guard.
     bind (navi_set_car cell expr) (\<lambda>_. ret (Some ((head, cell), guard))))))"

text \<open>The dotted tail returns without removing the guard.\<close>

primrec read_list_rounds :: "readf \<Rightarrow> readf \<Rightarrow> nat \<Rightarrow> list_acc \<Rightarrow> readf" where
  "read_list_rounds sharp rd 0 acc port env = stop NoFuel"
| "read_list_rounds sharp rd (Suc k) acc port env =
     bind (ipeek_first_char port env) (\<lambda>i. let c = to_char i in
     if c = 41 then
       bind (read_char port env) (\<lambda>_.
       bind (set_tail acc navi_make_nil) (\<lambda>head.
       bind (navi_gc_unguard (case acc of Some (_, g) \<Rightarrow> g | None \<Rightarrow> None)) (\<lambda>_. ret head)))
     else if c = 46 then
       bind (read_char port env) (\<lambda>_.
       bind (ipeek_char port env) (\<lambda>i.
       bind (isterminal (to_char i) env) (\<lambda>b.
       if \<not> b then
         bind (read_symbol_with_prefix port isterminal 46 env) (\<lambda>expr.
         bind (add_element acc expr env) (\<lambda>acc. read_list_rounds sharp rd k acc port env))
       else
         bind (rd port env) (\<lambda>v.
         bind (set_tail acc v) (\<lambda>head.
         bind (peek_first_char port env) (\<lambda>i.
         if to_char i \<noteq> 41 then navi_read_error env ''missing list terminator'' []
         else bind (read_char port env) (\<lambda>_. ret head)))))))
     else if c = 35 then
       bind (read_char port env) (\<lambda>_.
       bind (sharp port env) (\<lambda>expr.
       bind (navi_type expr) (\<lambda>t.
       if t = NAVI_VOID then read_list_rounds sharp rd k acc port env
       else bind (add_element acc expr env) (\<lambda>acc. read_list_rounds sharp rd k acc port env))))
     else if c = 59 then
       bind (consume_line port env) (\<lambda>_. read_list_rounds sharp rd k acc port env)
     else
       bind (navi_iread rd port env) (\<lambda>expr.
       bind (add_element acc expr env) (\<lambda>acc. read_list_rounds sharp rd k acc port env)))"

definition read_list :: "readf \<Rightarrow> readf \<Rightarrow> readf" where
  "read_list sharp rd port env = (\<lambda>st n. read_list_rounds sharp rd n None port env st n)"

definition read_vector :: "readf \<Rightarrow> readf \<Rightarrow> readf" where
  "read_vector sharp rd port env = bind (read_list sharp rd port env) navi_list_to_vector"

definition read_bytevec :: "readf \<Rightarrow> readf \<Rightarrow> readf" where
  "read_bytevec sharp rd port env =
     bind (read_list sharp rd port env) (\<lambda>l. navi_list_to_bytevec l env)"

text \<open>\<open>#| ... |#\<close>: after a \<open>|\<close> the next character is consumed, whatever it is.\<close>

primrec block_comment_rounds :: "nat \<Rightarrow> navi_obj \<Rightarrow> navi_env \<Rightarrow> unit nm" where
  "block_comment_rounds 0 port env = stop NoFuel"
| "block_comment_rounds (Suc k) port env =
     bind (skip_to 124 port env) (\<lambda>_.
     bind (iread_char port env) (\<lambda>c.
     if c = 35 then ret () else block_comment_rounds k port env))"

definition unknown_discriminator :: "int \<Rightarrow> navi_env \<Rightarrow> 'a nm" where
  "unknown_discriminator c env =
     navi_read_error env ''unknown disciminator'' [(''discriminator'', IObj (navi_make_char c))]"

text \<open>
  \<open>internal\<close> is \<open>navi_get_internal\<close>, the lookup of a built-in object by its name, which
  \<open>Navi_Interp\<close> defines over the table of built-in objects.
\<close>

definition read_sharp_body :: "readf \<Rightarrow> readf \<Rightarrow> readf \<Rightarrow> readf" where
  "read_sharp_body internal sharp rd port env =
     bind (iread_char port env) (\<lambda>i. let c = to_char i in
     if c = 116 then read_boolean port (CHR ''t'') env
     else if c = 102 then read_boolean port (CHR ''f'') env
     else if c = 92 then read_character port env
     else if c = 40 then read_vector sharp rd port env
     else if c = 117 then
       bind (iread_char port env) (\<lambda>m.
       if to_char m \<noteq> 56 then unknown_discriminator c env
       else bind (iread_char port env) (\<lambda>m.
         if to_char m \<noteq> 40 then unknown_discriminator c env
         else read_bytevec sharp rd port env))
     else if c = 98 then read_binary port env
     else if c = 111 then read_octal port env
     else if c = 120 then read_hex port env
     else if c = 33 then read_sharp_bang port env
     else if c = 35 then bind (rd port env) (\<lambda>x. internal x env)
     else if c = 59 then bind (rd port env) (\<lambda>_. ret navi_make_void)
     else if c = 124 then
       bind (\<lambda>st n. block_comment_rounds n port env st n) (\<lambda>_. ret navi_make_void)
     else if c = 47 then bind (skip_to 10 port env) (\<lambda>_. ret navi_make_void)
     else unknown_discriminator c env)"

definition navi_sym_wrap :: "navi_obj \<Rightarrow> navi_obj \<Rightarrow> navi_obj nm" where
  "navi_sym_wrap symbol expr =
     bind (navi_make_pair expr navi_make_nil) (\<lambda>p. navi_make_pair symbol p)"

definition read_quoted :: "navi_obj \<Rightarrow> readf \<Rightarrow> readf" where
  "read_quoted symbol rd port env = bind (rd port env) (\<lambda>x. navi_sym_wrap symbol x)"

definition navi_read_body :: "readf \<Rightarrow> readf \<Rightarrow> readf" where
  "navi_read_body sharp rd port env =
     bind (peek_first_char port env) (\<lambda>c.
     if 48 \<le> c \<and> c \<le> 57 then read_decimal port env
     else if c = 34 then bind (read_char port env) (\<lambda>_. read_string port env)
     else if c = 39 then bind (read_char port env) (\<lambda>_. read_quoted navi_sym_quote rd port env)
     else if c = 96 then bind (read_char port env) (\<lambda>_. read_quoted navi_sym_quasiquote rd port env)
     else if c = 44 then
       bind (read_char port env) (\<lambda>_.
       bind (ipeek_char port env) (\<lambda>d.
       if d = 64 then bind (read_char port env) (\<lambda>_. read_quoted navi_sym_splice rd port env)
       else read_quoted navi_sym_unquote rd port env))
     else if c = 35 then
       bind (read_char port env) (\<lambda>_.
       bind (sharp port env) (\<lambda>expr.
       bind (navi_type expr) (\<lambda>t.
       if t = NAVI_VOID then rd port env else ret expr)))
     else if c = 40 then bind (read_char port env) (\<lambda>_. read_list sharp rd port env)
     else if c = 41 then
       bind (read_char port env) (\<lambda>_.
       navi_read_error env ''unexpected character'' [(''character'', IObj (navi_make_char c))])
     else if c = 59 then bind (consume_line port env) (\<lambda>_. rd port env)
     else if c = EOF then ret navi_make_eof
     else if c = 124 then
       bind (read_char port env) (\<lambda>_.
       bind (read_symbol port ispipe env) (\<lambda>expr.
       bind (read_char port env) (\<lambda>_. ret expr)))
     else if c = 43 \<or> c = 45 then
       bind (read_char port env) (\<lambda>_.
       bind (peek_char port env) (\<lambda>d.
       bind (c_isdigit d) (\<lambda>b.
       if b then
         bind (read_decimal port env) (\<lambda>expr.
         bind (navi_fixnum expr) (\<lambda>i. ret (navi_make_fixnum (i * (if c = 43 then 1 else - 1)))))
       else read_symbol_with_prefix port isterminal c env)))
     else read_symbol port isterminal env)"

text \<open>\<open>navi_read\<close> and \<open>read_sharp\<close> for at most \<open>k\<close> nested activations.\<close>

primrec reader :: "readf \<Rightarrow> nat \<Rightarrow> readf \<times> readf" where
  "reader internal 0 = (\<lambda>_ _. stop NoFuel, \<lambda>_ _. stop NoFuel)"
| "reader internal (Suc k) =
     (let (rd, sharp) = reader internal k in
      (navi_read_body sharp rd, read_sharp_body internal sharp rd))"

definition navi_read :: "readf \<Rightarrow> readf" where
  "navi_read internal port env = (\<lambda>st n. fst (reader internal n) port env st n)"

end
