(* ===== verification/Navi_Io.thy ===== *)
theory Navi_Io
  imports Navi_Read
begin

text \<open>
  The procedures on ports (\<open>port.c\<close>).  The two that open a file by its name are in \<open>Navi_File\<close>.
\<close>

section \<open>Predicates and checks\<close>

definition scm_input_portp :: "nat \<Rightarrow> navi_obj \<Rightarrow> navi_env \<Rightarrow> navi_obj nm" where
  "scm_input_portp nr_args args env =
     bind (scm_arg1 args) (\<lambda>x.
     bind (navi_type x) (\<lambda>t.
     if t \<noteq> NAVI_PORT then ret (navi_make_bool False)
     else bind (navi_port_is_input_port x) (\<lambda>b. ret (navi_make_bool b))))"

definition scm_output_portp :: "nat \<Rightarrow> navi_obj \<Rightarrow> navi_env \<Rightarrow> navi_obj nm" where
  "scm_output_portp nr_args args env =
     bind (scm_arg1 args) (\<lambda>x.
     bind (navi_type x) (\<lambda>t.
     if t \<noteq> NAVI_PORT then ret (navi_make_bool False)
     else bind (navi_port_is_output_port x) (\<lambda>b. ret (navi_make_bool b))))"

definition scm_portp :: "nat \<Rightarrow> navi_obj \<Rightarrow> navi_env \<Rightarrow> navi_obj nm" where
  "scm_portp nr_args args env = scm_type_test NAVI_PORT args"

definition scm_input_port_openp :: "nat \<Rightarrow> navi_obj \<Rightarrow> navi_env \<Rightarrow> navi_obj nm" where
  "scm_input_port_openp nr_args args env =
     bind (scm_arg1 args) (\<lambda>x.
     bind (check_input_port x env) (\<lambda>_.
     bind (navi_port x) (\<lambda>p. ret (navi_make_bool (\<not> has_flag p INPUT_CLOSED)))))"

definition scm_output_port_openp :: "nat \<Rightarrow> navi_obj \<Rightarrow> navi_env \<Rightarrow> navi_obj nm" where
  "scm_output_port_openp nr_args args env =
     bind (scm_arg1 args) (\<lambda>x.
     bind (check_output_port x env) (\<lambda>_.
     bind (navi_port x) (\<lambda>p. ret (navi_make_bool (\<not> has_flag p OUTPUT_CLOSED)))))"

definition scm_check_input_port :: "nat \<Rightarrow> navi_obj \<Rightarrow> navi_env \<Rightarrow> navi_obj nm" where
  "scm_check_input_port nr_args args env =
     bind (scm_arg1 args) (\<lambda>x. bind (check_input_port x env) (\<lambda>_. ret x))"

definition scm_check_output_port :: "nat \<Rightarrow> navi_obj \<Rightarrow> navi_env \<Rightarrow> navi_obj nm" where
  "scm_check_output_port nr_args args env =
     bind (scm_arg1 args) (\<lambda>x. bind (check_output_port x env) (\<lambda>_. ret x))"

section \<open>String ports\<close>

definition scm_open_input_string :: "nat \<Rightarrow> navi_obj \<Rightarrow> navi_env \<Rightarrow> navi_obj nm" where
  "scm_open_input_string nr_args args env = bind (scm_arg1 args) navi_open_input_string"

definition scm_open_output_string :: "nat \<Rightarrow> navi_obj \<Rightarrow> navi_env \<Rightarrow> navi_obj nm" where
  "scm_open_output_string nr_args args env = navi_open_output_string"

text \<open>\<open>memcpy\<close> copies the string's bytes, whether they were written or not.\<close>

definition navi_get_output_string :: "navi_obj \<Rightarrow> navi_obj nm" where
  "navi_get_output_string port =
     bind (navi_port port) (\<lambda>p.
     bind (navi_string (pt_expr p)) (\<lambda>str.
     bind (navi_make_string (s_size str) (s_size str) (s_length str)) (\<lambda>expr.
     if s_size str > length (s_data str) then stop Undef
     else
       bind (navi_string expr) (\<lambda>new.
       bind (put_data expr (PString (new\<lparr>s_data :=
         take (s_size str) (s_data str) @ drop (s_size str) (s_data new)\<rparr>))) (\<lambda>_.
       ret expr)))))"

definition scm_get_output_string :: "nat \<Rightarrow> navi_obj \<Rightarrow> navi_env \<Rightarrow> navi_obj nm" where
  "scm_get_output_string nr_args args env =
     bind (scm_arg1 args) (\<lambda>x.
     bind (navi_port x) (\<lambda>p.
     if \<not> has_flag p STRING_OUTPUT then navi_error env ''not a string output port'' []
     else navi_get_output_string x))"

section \<open>Closing\<close>

definition navi_close_input_port :: "navi_obj \<Rightarrow> navi_env \<Rightarrow> unit nm" where
  "navi_close_input_port port env =
     bind (navi_port port) (\<lambda>p.
     bind (if pt_close_in p
           then bind (stdio_close port env) (\<lambda>_. update_port port (\<lambda>p. p\<lparr>pt_close_in := False\<rparr>))
           else ret ()) (\<lambda>_.
     update_port port (set_flag INPUT_CLOSED)))"

definition navi_close_output_port :: "navi_obj \<Rightarrow> navi_env \<Rightarrow> unit nm" where
  "navi_close_output_port port env =
     bind (navi_port port) (\<lambda>p.
     bind (if pt_close_out p
           then bind (stdio_close port env) (\<lambda>_. update_port port (\<lambda>p. p\<lparr>pt_close_out := False\<rparr>))
           else ret ()) (\<lambda>_.
     update_port port (set_flag OUTPUT_CLOSED)))"

definition scm_close_port :: "nat \<Rightarrow> navi_obj \<Rightarrow> navi_env \<Rightarrow> navi_obj nm" where
  "scm_close_port nr_args args env =
     bind (scm_arg1 args) (\<lambda>x.
     bind (navi_port_is_input_port x) (\<lambda>b.
     bind (if b then navi_close_input_port x env else ret ()) (\<lambda>_.
     bind (navi_port_is_output_port x) (\<lambda>b.
     bind (if b then navi_close_output_port x env else ret ()) (\<lambda>_.
     ret navi_unspecified)))))"

definition scm_close_input_port :: "nat \<Rightarrow> navi_obj \<Rightarrow> navi_env \<Rightarrow> navi_obj nm" where
  "scm_close_input_port nr_args args env =
     bind (scm_arg1 args) (\<lambda>x.
     bind (check_input_port x env) (\<lambda>_.
     bind (navi_close_input_port x env) (\<lambda>_. ret navi_unspecified)))"

definition scm_close_output_port :: "nat \<Rightarrow> navi_obj \<Rightarrow> navi_env \<Rightarrow> navi_obj nm" where
  "scm_close_output_port nr_args args env =
     bind (scm_arg1 args) (\<lambda>x.
     bind (check_output_port x env) (\<lambda>_.
     bind (navi_close_output_port x env) (\<lambda>_. ret navi_unspecified)))"

section \<open>Input\<close>

definition scm_eof_objectp :: "nat \<Rightarrow> navi_obj \<Rightarrow> navi_env \<Rightarrow> navi_obj nm" where
  "scm_eof_objectp nr_args args env = scm_type_test NAVI_EOF args"

definition scm_eof_object :: "nat \<Rightarrow> navi_obj \<Rightarrow> navi_env \<Rightarrow> navi_obj nm" where
  "scm_eof_object nr_args args env = ret navi_make_eof"

definition scm_read_u8 :: "nat \<Rightarrow> navi_obj \<Rightarrow> navi_env \<Rightarrow> navi_obj nm" where
  "scm_read_u8 nr_args args env = bind (get_input_port args env) (\<lambda>p. navi_port_read_byte p env)"

definition scm_peek_u8 :: "nat \<Rightarrow> navi_obj \<Rightarrow> navi_env \<Rightarrow> navi_obj nm" where
  "scm_peek_u8 nr_args args env = bind (get_input_port args env) (\<lambda>p. navi_port_peek_byte p env)"

definition scm_read_char :: "nat \<Rightarrow> navi_obj \<Rightarrow> navi_env \<Rightarrow> navi_obj nm" where
  "scm_read_char nr_args args env = bind (get_input_port args env) (\<lambda>p. navi_port_read_char p env)"

definition scm_peek_char :: "nat \<Rightarrow> navi_obj \<Rightarrow> navi_env \<Rightarrow> navi_obj nm" where
  "scm_peek_char nr_args args env = bind (get_input_port args env) (\<lambda>p. navi_port_peek_char p env)"

definition scm_read :: "readf \<Rightarrow> nat \<Rightarrow> navi_obj \<Rightarrow> navi_env \<Rightarrow> navi_obj nm" where
  "scm_read internal nr_args args env =
     bind (get_input_port args env) (\<lambda>p. navi_read internal p env)"

section \<open>Output\<close>

text \<open>\<open>write-u8\<close> writes its byte as a character.\<close>

definition scm_write_u8 :: "nat \<Rightarrow> navi_obj \<Rightarrow> navi_env \<Rightarrow> navi_obj nm" where
  "scm_write_u8 nr_args args env =
     bind (navi_cdr args) (\<lambda>rest.
     bind (get_output_port rest env) (\<lambda>p.
     bind (scm_arg1 args) (\<lambda>x.
     bind (navi_fixnum x) (\<lambda>i.
     bind (navi_port_write_char i p env) (\<lambda>_. ret navi_unspecified)))))"

definition scm_write_char :: "nat \<Rightarrow> navi_obj \<Rightarrow> navi_env \<Rightarrow> navi_obj nm" where
  "scm_write_char nr_args args env =
     bind (navi_cdr args) (\<lambda>rest.
     bind (get_output_port rest env) (\<lambda>p.
     bind (scm_arg1 args) (\<lambda>x.
     bind (navi_char x) (\<lambda>c.
     bind (navi_port_write_char c p env) (\<lambda>_. ret navi_unspecified)))))"

definition scm_write_string :: "nat \<Rightarrow> navi_obj \<Rightarrow> navi_env \<Rightarrow> navi_obj nm" where
  "scm_write_string nr_args args env =
     bind (navi_cdr args) (\<lambda>rest.
     bind (get_output_port rest env) (\<lambda>p.
     bind (scm_arg1 args) (\<lambda>x.
     bind (navi_string x) (\<lambda>s.
     bind (cstr_from (s_data s)) (\<lambda>text.
     bind (navi_port_write_cstr text p env) (\<lambda>_. ret navi_unspecified))))))"

definition scm_display :: "nat \<Rightarrow> navi_obj \<Rightarrow> navi_env \<Rightarrow> navi_obj nm" where
  "scm_display nr_args args env =
     bind (navi_cdr args) (\<lambda>rest.
     bind (get_output_port rest env) (\<lambda>p.
     bind (scm_arg1 args) (\<lambda>x.
     bind (navi_port_display p x env) (\<lambda>_. ret navi_unspecified))))"

definition scm_write :: "nat \<Rightarrow> navi_obj \<Rightarrow> navi_env \<Rightarrow> navi_obj nm" where
  "scm_write nr_args args env =
     bind (navi_cdr args) (\<lambda>rest.
     bind (get_output_port rest env) (\<lambda>p.
     bind (scm_arg1 args) (\<lambda>x.
     bind (navi_port_write p x env) (\<lambda>_. ret navi_unspecified))))"

definition scm_newline :: "nat \<Rightarrow> navi_obj \<Rightarrow> navi_env \<Rightarrow> navi_obj nm" where
  "scm_newline nr_args args env =
     bind (get_output_port args env) (\<lambda>p.
     bind (navi_port_write_char 10 p env) (\<lambda>_. ret navi_unspecified))"

end
