(* ===== verification/Navi_Eval.thy ===== *)
theory Navi_Eval
  imports Navi_Procedure
begin

text \<open>
  The evaluator (\<open>eval.c\<close>): the special forms, application and the dispatch on the type of an
  expression.  Each function takes the evaluator \<open>ev\<close> and the application \<open>ap\<close> it calls, and
  \<open>bi\<close>, the table of the procedures written in C; \<open>Navi_Interp\<close> ties them together.  A special
  form that ends in a tail call returns a bounce, an object that holds the expression still to
  be evaluated and its environment; \<open>navi_eval\<close> evaluates until no bounce is left.
\<close>

section \<open>Tail calls and lambda\<close>

definition eval_tail :: "navi_obj \<Rightarrow> navi_env \<Rightarrow> navi_obj nm" where
  "eval_tail tail env = navi_make_bounce tail env"

definition lambda_valid :: "navi_obj \<Rightarrow> bool nm" where
  "lambda_valid lambda =
     bind (navi_is_pair lambda) (\<lambda>p. if \<not> p then ret False
     else bind (navi_cdr lambda) (\<lambda>d. bind (navi_is_pair d) (\<lambda>q. if \<not> q then ret False
     else bind (navi_car lambda) (\<lambda>formals. bind (navi_is_symbol formals) (\<lambda>s. if s then ret True
     else navi_is_list_of formals (TType NAVI_SYMBOL) True)))))"

definition scm_lambda :: "nat \<Rightarrow> navi_obj \<Rightarrow> navi_env \<Rightarrow> navi_obj nm" where
  "scm_lambda nr_args args env =
     bind (lambda_valid args) (\<lambda>v.
     if \<not> v then navi_error env ''invalid lambda list'' []
     else bind (scm_arg1 args) (\<lambda>formals. bind (navi_cdr args) (\<lambda>body.
          navi_make_lambda formals body env)))"

definition scm_caselambda :: "nat \<Rightarrow> navi_obj \<Rightarrow> navi_env \<Rightarrow> navi_obj nm" where
  "scm_caselambda nr_args args env =
     bind (navi_list_length args) (\<lambda>l.
     bind (navi_make_caselambda l) (\<lambda>expr.
     after_loop (navi_list_for_each args 0 (\<lambda>cons i.
       bind (navi_car cons) (\<lambda>clause. bind (lambda_valid clause) (\<lambda>v.
       if \<not> v then navi_error env ''invalid case-lambda list'' []
       else bind (navi_caar cons) (\<lambda>formals. bind (navi_cdar cons) (\<lambda>body.
            bind (navi_make_lambda formals body env) (\<lambda>lam.
            bind (vector_put expr i lam) (\<lambda>_. ret (Continue (Suc i))))))))))
     (\<lambda>_ _. ret expr)))"

text \<open>The variable \<open>result\<close> has no value until a first expression was evaluated.\<close>

definition scm_begin :: "evalf \<Rightarrow> nat \<Rightarrow> navi_obj \<Rightarrow> navi_env \<Rightarrow> navi_obj nm" where
  "scm_begin ev nr_args args env =
     after_loop (navi_list_for_each args None (\<lambda>cons result.
       bind (navi_is_last_pair cons) (\<lambda>b.
       bind (navi_car cons) (\<lambda>x.
       if b then bind (eval_tail x env) (\<lambda>r. ret (Return r))
       else bind (ev x env) (\<lambda>r. ret (Continue (Some r)))))))
     (\<lambda>_ result. init result)"

section \<open>Quotation\<close>

definition scm_quote :: "nat \<Rightarrow> navi_obj \<Rightarrow> navi_env \<Rightarrow> navi_obj nm" where
  "scm_quote nr_args args env = scm_arg1 args"

definition scm_unquote :: "evalf \<Rightarrow> nat \<Rightarrow> navi_obj \<Rightarrow> navi_env \<Rightarrow> navi_obj nm" where
  "scm_unquote ev nr_args args env = bind (scm_arg1 args) (\<lambda>x. ev x env)"

text \<open>
  One activation of \<open>eval_qq\<close>, with its recursive calls as \<open>qq\<close>.  The loop carries the pair on
  the stack as a builder; leaving it at an \<open>unquote\<close> in the tail keeps the cursor there.
\<close>

definition eval_qq_body ::
  "evalf \<Rightarrow> (navi_obj \<Rightarrow> navi_env \<Rightarrow> navi_obj nm) \<Rightarrow> navi_obj \<Rightarrow> navi_env \<Rightarrow> navi_obj nm" where
  "eval_qq_body ev qq expr env =
     bind (navi_type expr) (\<lambda>t.
     if t = NAVI_PAIR then
       bind (navi_car expr) (\<lambda>first.
       bind (navi_symbol_eq first navi_sym_unquote) (\<lambda>u.
       if u then bind (navi_cdr expr) (\<lambda>rest. scm_unquote ev 1 rest env)
       else
         bind (navi_list_for_each expr None (\<lambda>cons b.
           bind (navi_car cons) (\<lambda>elm.
           bind (navi_is_pair elm) (\<lambda>p.
           bind (if p then bind (navi_car elm) (\<lambda>s. navi_symbol_eq s navi_sym_splice) else ret False) (\<lambda>splice.
           if splice then
             bind (navi_cdar cons) (\<lambda>rest.
             bind (scm_unquote ev 1 rest env) (\<lambda>list.
             bind (navi_is_proper_list list) (\<lambda>proper.
             if proper then
               bind (build_link b list) (\<lambda>b'.
               bind (navi_last_cons list) (\<lambda>l.
               ret (Continue (map_option (\<lambda>(front, _). (front, l)) b'))))
             else ret (Continue b))))
           else bind (navi_symbol_eq elm navi_sym_unquote) (\<lambda>u.
             if u then ret (Return b)
             else bind (build_add b) (\<lambda>b'.
                  bind (qq elm env) (\<lambda>x.
                  bind (build_set_car b' x) (\<lambda>_. ret (Continue b'))))))))))
         (\<lambda>(cons, c).
           let b = (case c of Continue b \<Rightarrow> b | Return b \<Rightarrow> b) in
           bind (navi_is_nil cons) (\<lambda>z.
           bind (if z then ret navi_make_nil else qq cons env) (\<lambda>tail.
           build_finish b tail)))))
     else if t = NAVI_VECTOR then
       bind (navi_vector_to_list expr) (\<lambda>l.
       bind (qq l env) (\<lambda>r. navi_list_to_vector r))
     else ret expr)"

primrec eval_qq_depth :: "evalf \<Rightarrow> nat \<Rightarrow> navi_obj \<Rightarrow> navi_env \<Rightarrow> navi_obj nm" where
  "eval_qq_depth ev 0 expr env = stop NoFuel"
| "eval_qq_depth ev (Suc k) expr env = eval_qq_body ev (eval_qq_depth ev k) expr env"

definition eval_qq :: "evalf \<Rightarrow> navi_obj \<Rightarrow> navi_env \<Rightarrow> navi_obj nm" where
  "eval_qq ev expr env = (\<lambda>st n. eval_qq_depth ev n expr env st n)"

definition scm_quasiquote :: "evalf \<Rightarrow> nat \<Rightarrow> navi_obj \<Rightarrow> navi_env \<Rightarrow> navi_obj nm" where
  "scm_quasiquote ev nr_args args env = bind (scm_arg1 args) (\<lambda>x. eval_qq ev x env)"

section \<open>Conditionals\<close>

definition case_valid :: "navi_obj \<Rightarrow> bool nm" where
  "case_valid scase =
     bind (navi_list_length scase) (\<lambda>l. if l < 2 then ret False
     else bind (navi_cdr scase) (\<lambda>clauses.
     after_loop (navi_list_for_each clauses () (\<lambda>cons _.
       bind (navi_car cons) (\<lambda>clause.
       bind (navi_list_length clause) (\<lambda>m.
       if m < 2 then ret (Return False)
       else bind (navi_symbol_eq clause navi_sym_else) (\<lambda>e.
            if e then ret (Continue ())
            else bind (navi_is_proper_list clause) (\<lambda>p.
                 ret (if \<not> p then Return False else Continue ())))))))
     (\<lambda>_ _. ret True)))"

definition eval_clause :: "evalf \<Rightarrow> navi_obj \<Rightarrow> navi_obj \<Rightarrow> navi_env \<Rightarrow> navi_obj nm" where
  "eval_clause ev arg begin env =
     bind (navi_car begin) (\<lambda>first.
     bind (navi_symbol_eq first navi_sym_eq_lt) (\<lambda>e.
     if e then
       bind (navi_cadr begin) (\<lambda>f.
       bind (ev f env) (\<lambda>proc.
       bind (navi_make_pair arg navi_make_nil) (\<lambda>rest.
       bind (navi_make_pair proc rest) (\<lambda>call.
       eval_tail call env))))
     else scm_begin ev 0 begin env))"

definition scm_case :: "evalf \<Rightarrow> nat \<Rightarrow> navi_obj \<Rightarrow> navi_env \<Rightarrow> navi_obj nm" where
  "scm_case ev nr_args args env =
     bind (case_valid args) (\<lambda>v.
     if \<not> v then navi_error env ''invalid case list'' []
     else bind (scm_arg1 args) (\<lambda>x. bind (ev x env) (\<lambda>test.
     bind (navi_cdr args) (\<lambda>clauses.
     after_loop (navi_list_for_each clauses () (\<lambda>cons _.
       bind (navi_car cons) (\<lambda>clause.
       bind (navi_car clause) (\<lambda>keys.
       bind (navi_symbol_eq keys navi_sym_else) (\<lambda>e.
       if e then
         bind (navi_cdr clause) (\<lambda>b. bind (eval_clause ev test b env) (\<lambda>r. ret (Return r)))
       else
         bind (navi_list_for_each keys () (\<lambda>inner _.
           bind (navi_car inner) (\<lambda>key. bind (navi_eqvp key test) (\<lambda>q.
           if q then bind (navi_cdr clause) (\<lambda>b. bind (eval_clause ev test b env) (\<lambda>r. ret (Return r)))
           else ret (Continue ())))))
         (\<lambda>(_, c). ret c))))))
     (\<lambda>_ _. ret navi_unspecified)))))"

definition cond_valid :: "navi_obj \<Rightarrow> bool nm" where
  "cond_valid cond =
     after_loop (navi_list_for_each cond () (\<lambda>cons _.
       bind (navi_car cons) (\<lambda>clause.
       bind (navi_is_proper_list clause) (\<lambda>p. if \<not> p then ret (Return False)
       else bind (navi_list_length clause) (\<lambda>l. if l < 2 then ret (Return False)
       else bind (navi_cadr clause) (\<lambda>second.
            bind (navi_symbol_eq second navi_sym_eq_lt) (\<lambda>e.
            ret (if e \<and> l \<noteq> 3 then Return False else Continue ()))))))))
     (\<lambda>cons _. navi_is_nil cons)"

definition scm_cond :: "evalf \<Rightarrow> nat \<Rightarrow> navi_obj \<Rightarrow> navi_env \<Rightarrow> navi_obj nm" where
  "scm_cond ev nr_args args env =
     bind (cond_valid args) (\<lambda>v.
     if \<not> v then navi_error env ''invalid cond list'' []
     else after_loop (navi_list_for_each args () (\<lambda>cons _.
       bind (navi_car cons) (\<lambda>clause.
       bind (navi_car clause) (\<lambda>guard.
       bind (navi_symbol_eq guard navi_sym_else) (\<lambda>e.
       if e then
         bind (navi_cdr clause) (\<lambda>b.
         bind (eval_clause ev (navi_make_bool True) b env) (\<lambda>r. ret (Return r)))
       else
         bind (ev guard env) (\<lambda>test.
         bind (navi_is_true test) (\<lambda>q.
         if q then bind (navi_cdr clause) (\<lambda>b.
                   bind (eval_clause ev test b env) (\<lambda>r. ret (Return r)))
         else ret (Continue ()))))))))
     (\<lambda>_ _. ret navi_unspecified))"

definition scm_if :: "evalf \<Rightarrow> nat \<Rightarrow> navi_obj \<Rightarrow> navi_env \<Rightarrow> navi_obj nm" where
  "scm_if ev nr_args args env =
     (if nr_args > 3 then navi_arity_error env (ISym ''if'')
      else bind (scm_arg1 args) (\<lambda>x. bind (ev x env) (\<lambda>test.
           bind (navi_is_true test) (\<lambda>b.
           if b then bind (scm_arg2 args) (\<lambda>y. eval_tail y env)
           else if nr_args = 3 then bind (scm_arg3 args) (\<lambda>y. eval_tail y env)
           else ret navi_unspecified))))"

definition scm_and :: "evalf \<Rightarrow> nat \<Rightarrow> navi_obj \<Rightarrow> navi_env \<Rightarrow> navi_obj nm" where
  "scm_and ev nr_args args env =
     after_loop (navi_list_for_each args () (\<lambda>cons _.
       bind (navi_is_last_pair cons) (\<lambda>l.
       bind (navi_car cons) (\<lambda>x.
       if l then bind (eval_tail x env) (\<lambda>r. ret (Return r))
       else bind (ev x env) (\<lambda>v. bind (navi_is_true v) (\<lambda>b.
            ret (if \<not> b then Return (navi_make_bool False) else Continue ())))))))
     (\<lambda>_ _. ret (navi_make_bool True))"

definition scm_or :: "evalf \<Rightarrow> nat \<Rightarrow> navi_obj \<Rightarrow> navi_env \<Rightarrow> navi_obj nm" where
  "scm_or ev nr_args args env =
     after_loop (navi_list_for_each args () (\<lambda>cons _.
       bind (navi_is_last_pair cons) (\<lambda>l.
       bind (navi_car cons) (\<lambda>x.
       if l then bind (eval_tail x env) (\<lambda>r. ret (Return r))
       else bind (ev x env) (\<lambda>v. bind (navi_is_true v) (\<lambda>b.
            ret (if b then Return (navi_make_bool True) else Continue ())))))))
     (\<lambda>_ _. ret (navi_make_bool False))"

section \<open>Promises\<close>

definition scm_delay :: "nat \<Rightarrow> navi_obj \<Rightarrow> navi_env \<Rightarrow> navi_obj nm" where
  "scm_delay nr_args args env = bind (scm_arg1 args) (\<lambda>x. navi_make_promise x env)"

text \<open>The body of a procedure object; a C procedure has none.\<close>

definition proc_body :: "navi_procedure \<Rightarrow> navi_obj nm" where
  "proc_body p = (case p_code p of Body b \<Rightarrow> ret b | CProc _ \<Rightarrow> stop Undef)"

definition scm_force :: "evalf \<Rightarrow> nat \<Rightarrow> navi_obj \<Rightarrow> navi_env \<Rightarrow> navi_obj nm" where
  "scm_force ev nr_args args env =
     bind (scm_arg1 args) (\<lambda>x. bind (navi_procedure x) (\<lambda>proc.
     bind (proc_body proc) (\<lambda>body.
     bind (navi_make_pair navi_sym_begin body) (\<lambda>expr.
     bind (ev expr \<lparr>lexical = p_env proc, dynamic = dynamic env\<rparr>) (\<lambda>r.
     bind (navi_make_pair r navi_make_nil) (\<lambda>tail.
     bind (navi_make_pair navi_sym_quote tail) (\<lambda>q.
     bind (navi_procedure x) (\<lambda>proc'.
     bind (put_data x (PProc (proc'\<lparr>p_code := Body q\<rparr>))) (\<lambda>_.
     ret r)))))))))"

section \<open>Application\<close>

type_synonym builtinf = "builtin \<Rightarrow> nat \<Rightarrow> navi_obj \<Rightarrow> navi_env \<Rightarrow> navi_obj nm"

definition do_apply :: "evalf \<Rightarrow> builtinf \<Rightarrow> navi_procedure \<Rightarrow> nat \<Rightarrow> navi_obj \<Rightarrow> navi_env \<Rightarrow> navi_obj nm" where
  "do_apply ev bi proc nr_args args env =
     bind (case p_code proc of
         CProc f \<Rightarrow>
           bind (navi_gc_guard args env) (\<lambda>guard.
           bind (bi f nr_args args env) (\<lambda>result.
           bind (navi_gc_unguard guard) (\<lambda>_. ret result)))
       | Body body \<Rightarrow>
           bind (navi_extend_environment env (p_args proc) args) (\<lambda>new.
           bind (scm_begin ev 0 body new) (\<lambda>result.
           bind (navi_env_unref new) (\<lambda>_. ret result)))) (\<lambda>result.
     bind (navi_gc_guard result env) (\<lambda>guard.
     bind (navi_gc_unguard guard) (\<lambda>_.
     ret result)))"

definition navi_apply_body :: "evalf \<Rightarrow> builtinf \<Rightarrow> navi_procedure \<Rightarrow> navi_obj \<Rightarrow> navi_env \<Rightarrow> navi_obj nm" where
  "navi_apply_body ev bi proc args env =
     bind (check_apply proc args env) (\<lambda>nr_args. do_apply ev bi proc nr_args args env)"

definition procedure_call :: "evalf \<Rightarrow> applyf \<Rightarrow> navi_procedure \<Rightarrow> navi_obj \<Rightarrow> navi_env \<Rightarrow> navi_obj nm" where
  "procedure_call ev ap proc args env =
     bind (navi_list_for_each args (None, None) (\<lambda>cons (b, guard).
       bind (navi_make_pair navi_make_void navi_make_nil) (\<lambda>p.
       bind (build_link b p) (\<lambda>b'.
       bind (if b = None then navi_gc_guard p env else ret guard) (\<lambda>guard'.
       bind (navi_car cons) (\<lambda>x.
       bind (ev x env) (\<lambda>v.
       bind (build_set_car b' v) (\<lambda>_.
       ret (Continue (b', guard'))))))))))
     (\<lambda>(_, c :: (unit, builder \<times> (sid \<times> nat) option) ctl). case c of
         Return _ \<Rightarrow> stop Undef
       | Continue (b, guard) \<Rightarrow>
           bind (build_finish b navi_make_nil) (\<lambda>vals.
           bind (navi_gc_unguard guard) (\<lambda>_.
           navi_apply ap proc vals env)))"

primrec caselambda_loop :: "applyf \<Rightarrow> navi_obj \<Rightarrow> nat list \<Rightarrow> nat \<Rightarrow> navi_obj \<Rightarrow> navi_env \<Rightarrow> navi_obj nm" where
  "caselambda_loop ap lambda [] nr_args args env = navi_arity_error env (ISym ''case-lambda'')"
| "caselambda_loop ap lambda (i # is) nr_args args env =
     bind (vector_get lambda i) (\<lambda>f. bind (navi_procedure f) (\<lambda>proc.
     if navi_arity_satisfied proc nr_args then navi_apply ap proc args env
     else caselambda_loop ap lambda is nr_args args env))"

definition caselambda_call :: "applyf \<Rightarrow> navi_obj \<Rightarrow> navi_obj \<Rightarrow> navi_env \<Rightarrow> navi_obj nm" where
  "caselambda_call ap lambda args env =
     bind (navi_list_length args) (\<lambda>nr_args.
     bind (navi_vector lambda) (\<lambda>vec.
     caselambda_loop ap lambda [0..<length vec] nr_args args env))"

text \<open>The escape's argument is stored before the jump.\<close>

definition navi_call_escape :: "navi_obj \<Rightarrow> navi_obj \<Rightarrow> navi_env \<Rightarrow> navi_obj nm" where
  "navi_call_escape escape arg env =
     bind (deref escape) (\<lambda>ob. case obj_data ob of
       PEscape e _ \<Rightarrow>
         bind (put_data escape (PEscape e (Some arg))) (\<lambda>_.
         case escape of Ref a \<Rightarrow> stop (Longjmp a) | _ \<Rightarrow> stop Undef)
     | _ \<Rightarrow> stop Undef)"

definition navi_parameter_lookup :: "navi_obj \<Rightarrow> navi_env \<Rightarrow> navi_obj nm" where
  "navi_parameter_lookup param env =
     bind (navi_car param) (\<lambda>key.
     bind (navi_env_binding (dynamic env) key) (\<lambda>binding. case binding of
       None \<Rightarrow> navi_error env ''unbound parameter object'' []
     | Some b \<Rightarrow> binding_object b))"

definition eval_call :: "evalf \<Rightarrow> applyf \<Rightarrow> navi_obj \<Rightarrow> navi_env \<Rightarrow> navi_obj nm" where
  "eval_call ev ap call env =
     bind (navi_car call) (\<lambda>operator.
     bind (ev operator env) (\<lambda>proc.
     bind (navi_gc_guard proc env) (\<lambda>guard.
     bind (navi_type proc) (\<lambda>t.
     bind (if t = NAVI_SPECIAL then
             bind (navi_procedure proc) (\<lambda>p. bind (navi_cdr call) (\<lambda>args. ap p args env))
           else if t = NAVI_PROCEDURE then
             bind (navi_procedure proc) (\<lambda>p. bind (navi_cdr call) (\<lambda>args. procedure_call ev ap p args env))
           else if t = NAVI_MACRO then
             bind (navi_procedure proc) (\<lambda>p. bind (navi_cdr call) (\<lambda>args.
             bind (ap p args env) (\<lambda>r. eval_tail r env)))
           else if t = NAVI_ESCAPE then
             bind (navi_list_length call) (\<lambda>l.
             bind (if l < 2 then ret navi_make_nil else navi_cadr call) (\<lambda>arg.
             navi_call_escape proc arg env))
           else if t = NAVI_CASELAMBDA then
             bind (navi_cdr call) (\<lambda>args. caselambda_call ap proc args env)
           else if t = NAVI_PARAMETER then
             bind (navi_cdr call) (\<lambda>args. bind (navi_is_nil args) (\<lambda>z.
             if \<not> z then bind (navi_car proc) (\<lambda>name. navi_arity_error env (IObj name))
             else navi_parameter_lookup proc env))
           else navi_error env ''call of non-procedure'' [(''value'', IObj proc)]) (\<lambda>obj.
     bind (navi_gc_unguard guard) (\<lambda>_.
     ret obj))))))"

section \<open>Evaluation\<close>

text \<open>A thunk or a bounce is evaluated by going on with its expression in its environment.\<close>

primrec eval_depth :: "evalf \<Rightarrow> applyf \<Rightarrow> nat \<Rightarrow> navi_obj \<Rightarrow> navi_env \<Rightarrow> navi_obj nm" where
  "eval_depth ev ap 0 expr env = stop NoFuel"
| "eval_depth ev ap (Suc k) expr env =
     bind (navi_type expr) (\<lambda>t. case t of
       NAVI_THUNK \<Rightarrow> bind (navi_thunk expr) (\<lambda>(e, env'). eval_depth ev ap k e env')
     | NAVI_BOUNCE \<Rightarrow> bind (navi_thunk expr) (\<lambda>(e, env'). eval_depth ev ap k e env')
     | NAVI_VALUES \<Rightarrow> navi_vector_ref expr 0
     | NAVI_SYMBOL \<Rightarrow>
         bind (navi_env_lookup (lexical env) expr) (\<lambda>val.
         bind (navi_is_void val) (\<lambda>v.
         if v then navi_unbound_identifier_error env expr else ret val))
     | NAVI_PAIR \<Rightarrow>
         bind (navi_is_proper_list expr) (\<lambda>p.
         if \<not> p then navi_error env ''malformed expression'' [(''expression'', IObj expr)]
         else eval_call ev ap expr env)
     | NAVI_TRAP \<Rightarrow> stop (Die ''trap!'')
     | _ \<Rightarrow> ret expr)"

definition eval_once :: "evalf \<Rightarrow> applyf \<Rightarrow> navi_obj \<Rightarrow> navi_env \<Rightarrow> navi_obj nm" where
  "eval_once ev ap expr env = (\<lambda>st n. eval_depth ev ap n expr env st n)"

primrec eval_rounds :: "evalf \<Rightarrow> applyf \<Rightarrow> nat \<Rightarrow> navi_obj \<Rightarrow> navi_env \<Rightarrow> navi_obj nm" where
  "eval_rounds ev ap 0 expr env = stop NoFuel"
| "eval_rounds ev ap (Suc k) expr env =
     bind (navi_gc_guard expr env) (\<lambda>guard.
     bind (eval_once ev ap expr env) (\<lambda>r.
     bind (navi_gc_unguard guard) (\<lambda>_.
     bind (navi_is_bounce r) (\<lambda>b.
     if b then eval_rounds ev ap k r env else ret r))))"

definition navi_eval_body :: "evalf \<Rightarrow> applyf \<Rightarrow> navi_obj \<Rightarrow> navi_env \<Rightarrow> navi_obj nm" where
  "navi_eval_body ev ap expr env =
     bind (navi_env_ref env) (\<lambda>_.
     bind (\<lambda>st n. eval_rounds ev ap n expr env st n) (\<lambda>r.
     bind (navi_env_unref env) (\<lambda>_.
     ret r)))"

definition scm_eval :: "evalf \<Rightarrow> nat \<Rightarrow> navi_obj \<Rightarrow> navi_env \<Rightarrow> navi_obj nm" where
  "scm_eval ev nr_args args env = bind (scm_arg1 args) (\<lambda>x. ev x env)"

end
