(* ===== verification/Navi_Binding.thy ===== *)
theory Navi_Binding
  imports Navi_Eval
begin

text \<open>
  The special forms that bind names (\<open>environment.c\<close>): \<open>define\<close> and its kin, the \<open>let\<close> family,
  \<open>set!\<close>, and the dynamic bindings of parameters.
\<close>

section \<open>Definitions\<close>

definition eval_defvar :: "evalf \<Rightarrow> navi_obj \<Rightarrow> navi_obj \<Rightarrow> navi_env \<Rightarrow> navi_obj nm" where
  "eval_defvar ev name rest env =
     bind (navi_cdr rest) (\<lambda>d. bind (navi_type d) (\<lambda>t.
     if t \<noteq> NAVI_NIL then navi_arity_error env (ISym ''define'')
     else bind (navi_car rest) (\<lambda>x. bind (ev x env) (\<lambda>v.
          bind (navi_scope_set (lexical env) name v) (\<lambda>_. ret navi_unspecified)))))"

definition eval_defun :: "navi_obj \<Rightarrow> navi_obj \<Rightarrow> navi_env \<Rightarrow> navi_obj nm" where
  "eval_defun fundecl rest env =
     bind (navi_is_list_of fundecl (TType NAVI_SYMBOL) True) (\<lambda>ok.
     if \<not> ok then navi_error env ''invalid defun list'' []
     else bind (navi_car fundecl) (\<lambda>name.
          bind (navi_cdr fundecl) (\<lambda>formals.
          bind (navi_make_procedure formals rest name env) (\<lambda>proc.
          bind (navi_scope_set (lexical env) name proc) (\<lambda>_. ret navi_unspecified)))))"

definition scm_define :: "evalf \<Rightarrow> nat \<Rightarrow> navi_obj \<Rightarrow> navi_env \<Rightarrow> navi_obj nm" where
  "scm_define ev nr_args args env =
     bind (scm_arg1 args) (\<lambda>what. bind (navi_type what) (\<lambda>t.
     if t = NAVI_SYMBOL then bind (navi_cdr args) (\<lambda>rest. eval_defvar ev what rest env)
     else if t = NAVI_PAIR then bind (navi_cdr args) (\<lambda>rest. eval_defun what rest env)
     else navi_error env ''invalid define list'' []))"

definition scm_define_syntax :: "evalf \<Rightarrow> nat \<Rightarrow> navi_obj \<Rightarrow> navi_env \<Rightarrow> navi_obj nm" where
  "scm_define_syntax ev nr_args args env =
     bind (scm_arg2 args) (\<lambda>x. bind (ev x env) (\<lambda>transformer.
     bind (navi_type_check transformer NAVI_MACRO env) (\<lambda>_.
     bind (scm_arg1 args) (\<lambda>name.
     bind (navi_scope_set (lexical env) name transformer) (\<lambda>_. ret navi_unspecified)))))"

definition extend_with_values :: "navi_obj \<Rightarrow> navi_obj \<Rightarrow> string \<Rightarrow> navi_env \<Rightarrow> unit nm" where
  "extend_with_values vars vals which env =
     bind (navi_type vals) (\<lambda>t.
     bind (navi_list_length vars) (\<lambda>l.
     if t \<noteq> NAVI_VALUES then
       if l \<noteq> 1 then navi_arity_error env (ISym which)
       else bind (navi_car vars) (\<lambda>name. navi_scope_set (lexical env) name vals)
     else bind (navi_vector_length vals) (\<lambda>k.
       if l \<noteq> k then navi_arity_error env (ISym which)
       else after_loop (navi_list_for_each vars 0 (\<lambda>cons i.
              bind (navi_car cons) (\<lambda>name.
              bind (navi_vector_ref vals (int i)) (\<lambda>v.
              bind (navi_scope_set (lexical env) name v) (\<lambda>_. ret (Continue (Suc i)))))))
            (\<lambda>_ _. ret ()))))"

definition scm_define_values :: "evalf \<Rightarrow> nat \<Rightarrow> navi_obj \<Rightarrow> navi_env \<Rightarrow> navi_obj nm" where
  "scm_define_values ev nr_args args env =
     bind (scm_arg1 args) (\<lambda>vars. bind (scm_arg2 args) (\<lambda>x. bind (ev x env) (\<lambda>vals.
     bind (extend_with_values vars vals ''define-values'' env) (\<lambda>_. ret navi_unspecified))))"

definition scm_defmacro :: "nat \<Rightarrow> navi_obj \<Rightarrow> navi_env \<Rightarrow> navi_obj nm" where
  "scm_defmacro nr_args args env =
     bind (scm_arg1 args) (\<lambda>decl.
     bind (navi_is_list_of decl (TType NAVI_SYMBOL) True) (\<lambda>ok.
     if \<not> ok then navi_error env ''invalid define-macro list'' []
     else bind (navi_car decl) (\<lambda>name.
          bind (navi_cdr decl) (\<lambda>formals. bind (navi_cdr args) (\<lambda>body.
          bind (navi_make_macro formals body name env) (\<lambda>macro.
          bind (navi_scope_set (lexical env) name macro) (\<lambda>_. ret navi_unspecified)))))))"

section \<open>The let family\<close>

text \<open>A conjunction of C conditions, evaluated from left to right.\<close>

definition and_then :: "bool nm \<Rightarrow> bool nm \<Rightarrow> bool nm" where
  "and_then a b = bind a (\<lambda>x. if x then b else ret False)"

definition let_def_valid :: "navi_obj \<Rightarrow> bool nm" where
  "let_def_valid d =
     and_then (navi_is_pair d)
     (and_then (bind (navi_cdr d) navi_is_pair)
     (and_then (bind (navi_cddr d) navi_is_nil)
     (bind (navi_car d) navi_is_symbol)))"

definition defs_valid :: "(navi_obj \<Rightarrow> bool nm) \<Rightarrow> navi_obj \<Rightarrow> bool nm" where
  "defs_valid valid list =
     after_loop (navi_list_for_each list () (\<lambda>cons _.
       bind (navi_car cons) (\<lambda>d. bind (valid d) (\<lambda>v.
       ret (if \<not> v then Return False else Continue ())))))
     (\<lambda>cons _. bind (navi_type cons) (\<lambda>t. ret (t = NAVI_NIL)))"

definition let_defs_valid :: "navi_obj \<Rightarrow> bool nm" where
  "let_defs_valid list = defs_valid let_def_valid list"

definition let_values_def_valid :: "navi_obj \<Rightarrow> bool nm" where
  "let_values_def_valid d =
     and_then (navi_is_pair d)
     (and_then (bind (navi_cdr d) navi_is_pair)
     (and_then (bind (navi_cddr d) navi_is_nil)
     (bind (navi_car d) (\<lambda>formals. navi_is_list_of formals (TType NAVI_SYMBOL) False))))"

definition letvals_defs_valid :: "navi_obj \<Rightarrow> bool nm" where
  "letvals_defs_valid list = defs_valid let_values_def_valid list"

definition let_extend_env :: "evalf \<Rightarrow> navi_obj \<Rightarrow> navi_env \<Rightarrow> navi_env nm" where
  "let_extend_env ev def_list env =
     bind (navi_env_new_scope env) (\<lambda>new.
     after_loop (navi_list_for_each def_list () (\<lambda>cons _.
       bind (navi_car cons) (\<lambda>defn.
       bind (navi_cadr defn) (\<lambda>x.
       bind (ev x env) (\<lambda>val.
       bind (navi_car defn) (\<lambda>name.
       bind (navi_scope_set (lexical new) name val) (\<lambda>_. ret (Continue ()))))))))
     (\<lambda>_ _. ret new))"

definition sequential_let_extend_env :: "evalf \<Rightarrow> navi_obj \<Rightarrow> navi_env \<Rightarrow> navi_env nm" where
  "sequential_let_extend_env ev def_list env =
     bind (navi_env_new_scope env) (\<lambda>new.
     after_loop (navi_list_for_each def_list () (\<lambda>cons _.
       bind (navi_car cons) (\<lambda>defn.
       bind (navi_cadr defn) (\<lambda>x.
       bind (ev x new) (\<lambda>val.
       bind (navi_car defn) (\<lambda>name.
       bind (navi_scope_set (lexical new) name val) (\<lambda>_. ret (Continue ()))))))))
     (\<lambda>_ _. ret new))"

text \<open>As in the code, the values are bound in \<open>env\<close>, not in the new scope.\<close>

definition letvals_extend_env :: "evalf \<Rightarrow> navi_obj \<Rightarrow> navi_env \<Rightarrow> navi_env nm" where
  "letvals_extend_env ev def_list env =
     bind (navi_env_new_scope env) (\<lambda>new.
     after_loop (navi_list_for_each def_list () (\<lambda>cons _.
       bind (navi_car cons) (\<lambda>defn. bind (navi_cadr defn) (\<lambda>x.
       bind (ev x env) (\<lambda>vals.
       bind (navi_caar cons) (\<lambda>vars.
       bind (extend_with_values vars vals ''let-values'' env) (\<lambda>_. ret (Continue ()))))))))
     (\<lambda>_ _. ret new))"

definition deflet ::
  "evalf \<Rightarrow> string \<Rightarrow> (navi_obj \<Rightarrow> bool nm) \<Rightarrow> (navi_obj \<Rightarrow> navi_env \<Rightarrow> navi_env nm)
     \<Rightarrow> navi_obj \<Rightarrow> navi_env \<Rightarrow> navi_obj nm" where
  "deflet ev scmname valid extender args env =
     bind (scm_arg1 args) (\<lambda>defs. bind (valid defs) (\<lambda>v.
     if \<not> v then navi_error env (''invalid '' @ scmname @ '' list'') []
     else bind (extender defs env) (\<lambda>new_env.
          bind (navi_cdr args) (\<lambda>body.
          bind (scm_begin ev 0 body new_env) (\<lambda>result.
          bind (navi_env_unref new_env) (\<lambda>_. ret result))))))"

definition scm_let :: "evalf \<Rightarrow> nat \<Rightarrow> navi_obj \<Rightarrow> navi_env \<Rightarrow> navi_obj nm" where
  "scm_let ev nr_args args env = deflet ev ''let'' let_defs_valid (let_extend_env ev) args env"

definition scm_sequential_let :: "evalf \<Rightarrow> nat \<Rightarrow> navi_obj \<Rightarrow> navi_env \<Rightarrow> navi_obj nm" where
  "scm_sequential_let ev nr_args args env =
     deflet ev ''let*'' let_defs_valid (sequential_let_extend_env ev) args env"

definition scm_let_values :: "evalf \<Rightarrow> nat \<Rightarrow> navi_obj \<Rightarrow> navi_env \<Rightarrow> navi_obj nm" where
  "scm_let_values ev nr_args args env =
     deflet ev ''let-values'' letvals_defs_valid (letvals_extend_env ev) args env"

text \<open>
  The binding is found before the value is evaluated and assigned after; a binding unlinked in
  the meantime is assigned without effect.
\<close>

definition scm_set :: "evalf \<Rightarrow> nat \<Rightarrow> navi_obj \<Rightarrow> navi_env \<Rightarrow> navi_obj nm" where
  "scm_set ev nr_args args env =
     bind (scm_arg1 args) (\<lambda>name.
     bind (navi_env_binding (lexical env) name) (\<lambda>binding. case binding of
       None \<Rightarrow> navi_unbound_identifier_error env name
     | Some b \<Rightarrow>
         bind (scm_arg2 args) (\<lambda>x. bind (ev x env) (\<lambda>value.
         bind (binding_assign b value) (\<lambda>_. ret navi_unspecified)))))"

section \<open>Parameters\<close>

definition navi_parameter_convert :: "evalf \<Rightarrow> applyf \<Rightarrow> navi_obj \<Rightarrow> navi_obj \<Rightarrow> navi_env \<Rightarrow> navi_obj nm" where
  "navi_parameter_convert ev ap param obj env =
     bind (navi_cdr param) (\<lambda>converter.
     bind (navi_is_void converter) (\<lambda>v.
     if v then ret obj
     else bind (navi_make_pair obj navi_make_nil) (\<lambda>args.
          do_apply_forced ev ap converter args env)))"

definition bind_parameter :: "evalf \<Rightarrow> applyf \<Rightarrow> navi_obj \<Rightarrow> navi_obj \<Rightarrow> navi_env \<Rightarrow> navi_obj nm" where
  "bind_parameter ev ap param value env =
     bind (navi_gc_guard param env) (\<lambda>guard.
     bind (get_global_scope (dynamic env)) (\<lambda>s.
     bind (navi_car param) (\<lambda>key.
     bind (navi_parameter_convert ev ap param value env) (\<lambda>v.
     bind (navi_scope_set s key v) (\<lambda>_.
     bind (navi_gc_unguard guard) (\<lambda>_.
     ret param))))))"

definition navi_make_parameter :: "evalf \<Rightarrow> applyf \<Rightarrow> navi_obj \<Rightarrow> navi_obj \<Rightarrow> navi_env \<Rightarrow> navi_obj nm" where
  "navi_make_parameter ev ap value converter env =
     bind (make_parameter_obj converter) (\<lambda>param. bind_parameter ev ap param value env)"

definition navi_make_named_parameter ::
  "evalf \<Rightarrow> applyf \<Rightarrow> navi_obj \<Rightarrow> navi_obj \<Rightarrow> navi_obj \<Rightarrow> navi_env \<Rightarrow> navi_obj nm" where
  "navi_make_named_parameter ev ap symbol value converter env =
     bind (make_named_parameter_obj symbol converter) (\<lambda>param. bind_parameter ev ap param value env)"

definition scm_make_parameter :: "evalf \<Rightarrow> applyf \<Rightarrow> nat \<Rightarrow> navi_obj \<Rightarrow> navi_env \<Rightarrow> navi_obj nm" where
  "scm_make_parameter ev ap nr_args args env =
     (if nr_args > 2 then navi_arity_error env (ISym ''make-parameter'')
      else bind (if nr_args = 2 then scm_arg2 args else ret navi_make_void) (\<lambda>converter.
           bind (scm_arg1 args) (\<lambda>value.
           navi_make_parameter ev ap value converter env)))"

definition parameterize_extend_env :: "evalf \<Rightarrow> applyf \<Rightarrow> navi_obj \<Rightarrow> navi_env \<Rightarrow> navi_env nm" where
  "parameterize_extend_env ev ap defs env =
     bind (navi_is_pair defs) (\<lambda>p.
     if \<not> p then navi_error env ''invalid syntax in parameterize'' []
     else bind (navi_list_for_each defs navi_make_nil (\<lambda>cons params.
         bind (navi_car cons) (\<lambda>d.
         bind (navi_list_length_safe d) (\<lambda>l.
         if l \<noteq> Some 2 then navi_error env ''invalid syntax in parameterize'' []
         else bind (navi_car d) (\<lambda>x. bind (ev x env) (\<lambda>param.
              bind (navi_is_parameter param) (\<lambda>q.
              if \<not> q then navi_error env ''non-parameter in parameterize'' []
              else bind (navi_cadr d) (\<lambda>y.
                   bind (navi_make_pair param y) (\<lambda>entry.
                   bind (navi_make_pair entry params) (\<lambda>params'.
                   ret (Continue params'))))))))))) (\<lambda>(cons, c :: (unit, navi_obj) ctl).
       bind (navi_is_nil cons) (\<lambda>z.
       if \<not> z then navi_error env ''not a proper list'' []
       else case c of Return _ \<Rightarrow> stop Undef | Continue params \<Rightarrow>
         bind (navi_dynamic_env_new_scope env) (\<lambda>new.
         after_loop (navi_list_for_each params () (\<lambda>cons _.
           bind (navi_car cons) (\<lambda>d. bind (navi_car d) (\<lambda>param.
           bind (navi_cdr d) (\<lambda>x. bind (ev x env) (\<lambda>val.
           bind (navi_parameter_convert ev ap param val env) (\<lambda>val'.
           bind (navi_car param) (\<lambda>key.
           bind (navi_scope_set (dynamic new) key val') (\<lambda>_. ret (Continue ()))))))))))
         (\<lambda>_ _. ret new)))))"

definition scm_parameterize :: "evalf \<Rightarrow> applyf \<Rightarrow> nat \<Rightarrow> navi_obj \<Rightarrow> navi_env \<Rightarrow> navi_obj nm" where
  "scm_parameterize ev ap nr_args args env =
     bind (scm_arg1 args) (\<lambda>defs.
     bind (parameterize_extend_env ev ap defs env) (\<lambda>new_env.
     bind (navi_cdr args) (\<lambda>body.
     bind (scm_begin ev 0 body new_env) (\<lambda>result.
     bind (navi_env_unref new_env) (\<lambda>_. ret result)))))"

end
