(* ===== verification/Navi_Control.thy ===== *)
theory Navi_Control
  imports Navi_Binding
begin

text \<open>
  Control features (\<open>control_features.c\<close>): exceptions, escapes, multiple values and promises.

  An error leaves the model's functions as an outcome, with the state as it was when the error
  was raised.  The code runs the handler at that point; nothing between the point of the error
  and the frame that settles it reads or writes the state, so \<open>settle\<close> runs the handler at
  the frames that can be jumped to (\<open>call/ec\<close>) and at the outermost one.
\<close>

section \<open>Raising\<close>

text \<open>
  \<open>navi_raise\<close> never returns: when the handler returns, it looks up the current handler again.
  It unlinks the handler from the innermost dynamic scope only.
\<close>

primrec raise_rounds :: "evalf \<Rightarrow> applyf \<Rightarrow> nat \<Rightarrow> navi_obj \<Rightarrow> navi_env \<Rightarrow> 'a nm" where
  "raise_rounds ev ap 0 args env = stop NoFuel"
| "raise_rounds ev ap (Suc k) args env =
     bind (navi_env_lookup (dynamic env) navi_sym_current_exn) (\<lambda>expr.
     bind (navi_type expr) (\<lambda>t.
     if t \<noteq> NAVI_PROCEDURE then stop (Die ''no exception handler installed'')
     else bind (navi_procedure expr) (\<lambda>proc.
          bind (navi_scope_unset (dynamic env) navi_sym_current_exn) (\<lambda>_.
          bind (navi_apply ap proc args env) (\<lambda>r.
          bind (navi_force_tail ev r env) (\<lambda>_.
          raise_rounds ev ap k args env))))))"

definition navi_raise :: "evalf \<Rightarrow> applyf \<Rightarrow> navi_obj \<Rightarrow> navi_env \<Rightarrow> 'a nm" where
  "navi_raise ev ap args env = (\<lambda>st n. raise_rounds ev ap n args env st n)"

text \<open>The error object: the type's symbol, the message and the irritants.\<close>

definition kind_symbol :: "error_kind \<Rightarrow> navi_obj nm" where
  "kind_symbol kind = (case kind of
       InternalError \<Rightarrow> ret navi_sym_internal_error
     | ReadError \<Rightarrow> ret navi_sym_read_error
     | FileError \<Rightarrow> ret navi_sym_file_error
     | Utf8Error \<Rightarrow> navi_make_symbol ''#utf8-error'')"

primrec make_irritants :: "(string \<times> irritant) list \<Rightarrow> navi_obj list nm" where
  "make_irritants [] = ret []"
| "make_irritants (i # is) =
     bind (case snd i of IObj x \<Rightarrow> ret x | ISym s \<Rightarrow> navi_make_symbol s) (\<lambda>v.
     bind (navi_make_apair (fst i) v) (\<lambda>a.
     bind (make_irritants is) (\<lambda>as. ret (a # as))))"

definition make_error_args :: "error_kind \<Rightarrow> string \<Rightarrow> (string \<times> irritant) list \<Rightarrow> navi_obj nm" where
  "make_error_args kind msg irritants =
     bind (kind_symbol kind) (\<lambda>type.
     bind (make_irritants irritants) (\<lambda>ap.
     bind (navi_cstr_to_string msg) (\<lambda>str.
     bind (navi_vlist str (ap @ [navi_make_void])) (\<lambda>rest.
     bind (navi_make_pair type rest) (\<lambda>list.
     navi_make_pair list navi_make_nil)))))"

text \<open>Running the handler for an outcome that is an error, and for the errors it raises.\<close>

primrec settle_depth :: "evalf \<Rightarrow> applyf \<Rightarrow> nat \<Rightarrow> 'a nm \<Rightarrow> 'a nm" where
  "settle_depth ev ap 0 m = stop NoFuel"
| "settle_depth ev ap (Suc k) m = (\<lambda>st n. case m st n of
       (Inl (Error kind msg irritants env), st') \<Rightarrow>
         settle_depth ev ap k
           (bind (make_error_args kind msg irritants) (\<lambda>args. navi_raise ev ap args env)) st' n
     | (Inl (RaiseObj args env), st') \<Rightarrow> settle_depth ev ap k (navi_raise ev ap args env) st' n
     | r \<Rightarrow> r)"

definition settle :: "evalf \<Rightarrow> applyf \<Rightarrow> 'a nm \<Rightarrow> 'a nm" where
  "settle ev ap m = (\<lambda>st n. settle_depth ev ap n m st n)"

section \<open>The procedures\<close>

definition scm_procedurep :: "nat \<Rightarrow> navi_obj \<Rightarrow> navi_env \<Rightarrow> navi_obj nm" where
  "scm_procedurep nr_args args env = scm_type_test NAVI_PROCEDURE args"

text \<open>The last argument is spliced into the argument list itself.\<close>

definition scm_apply :: "applyf \<Rightarrow> nat \<Rightarrow> navi_obj \<Rightarrow> navi_env \<Rightarrow> navi_obj nm" where
  "scm_apply ap nr_args args env =
     bind (navi_list_for_each args args (\<lambda>cons last.
       bind (navi_car cons) (\<lambda>x.
       bind (navi_cdr cons) (\<lambda>d. bind (navi_type d) (\<lambda>t.
       if t \<noteq> NAVI_NIL then ret (Continue cons)
       else bind (navi_type_check_proper_list x env) (\<lambda>_.
            bind (navi_set_cdr last x) (\<lambda>_. ret (Return ()))))))))
     (\<lambda>_. bind (scm_arg1 args) (\<lambda>f. bind (navi_procedure f) (\<lambda>proc.
          bind (navi_cdr args) (\<lambda>rest. navi_apply ap proc rest env))))"

text \<open>
  \<open>setjmp\<close> returns a second time when the escape of this frame is called: the outcome
  \<open>Longjmp\<close> with its address.  What the frames in between held, guards and references, is
  dropped without being released.
\<close>

definition scm_call_ec :: "evalf \<Rightarrow> applyf \<Rightarrow> nat \<Rightarrow> navi_obj \<Rightarrow> navi_env \<Rightarrow> navi_obj nm" where
  "scm_call_ec ev ap nr_args args env =
     bind (scm_arg1 args) (\<lambda>f. bind (navi_procedure f) (\<lambda>proc.
     bind (navi_check_arity f 1 env) (\<lambda>_.
     bind navi_make_escape (\<lambda>cont.
     bind (navi_gc_guard cont env) (\<lambda>guard.
     bind (put_data cont (PEscape (Some env) None)) (\<lambda>_.
     bind (navi_env_ref env) (\<lambda>_.
     bind (\<lambda>st n.
       case settle ev ap (bind (navi_make_pair cont navi_make_nil) (\<lambda>call_args.
            bind (navi_apply ap proc call_args env) (\<lambda>r. navi_force_tail ev r env))) st n of
         (Inl (Longjmp a), st') \<Rightarrow>
           if cont = Ref a then
             bind (deref cont) (\<lambda>ob. case obj_data ob of
                 PEscape _ arg \<Rightarrow> init arg
               | _ \<Rightarrow> stop Undef) st' n
           else (Inl (Longjmp a), st')
       | r \<Rightarrow> r) (\<lambda>result.
     bind (navi_gc_unguard guard) (\<lambda>_.
     bind (navi_env_unref env) (\<lambda>_.
     ret result))))))))))"

definition scm_values :: "nat \<Rightarrow> navi_obj \<Rightarrow> navi_env \<Rightarrow> navi_obj nm" where
  "scm_values nr_args args env =
     bind (navi_list_to_vector args) (\<lambda>vals.
     bind (put_type vals NAVI_VALUES) (\<lambda>_. ret vals))"

definition scm_call_with_values :: "evalf \<Rightarrow> nat \<Rightarrow> navi_obj \<Rightarrow> navi_env \<Rightarrow> navi_obj nm" where
  "scm_call_with_values ev nr_args args env =
     bind (scm_arg1 args) (\<lambda>producer. bind (navi_check_arity producer 0 env) (\<lambda>_.
     bind (navi_make_pair producer navi_make_nil) (\<lambda>call.
     bind (ev call env) (\<lambda>vals.
     bind (navi_is_values vals) (\<lambda>b.
     bind (if \<not> b then navi_make_pair vals navi_make_nil else navi_vector_to_list vals) (\<lambda>call_args.
     bind (scm_arg2 args) (\<lambda>consumer.
     bind (navi_make_pair consumer call_args) (\<lambda>call'.
     ev call' env))))))))"

definition scm_with_exception_handler :: "applyf \<Rightarrow> nat \<Rightarrow> navi_obj \<Rightarrow> navi_env \<Rightarrow> navi_obj nm" where
  "scm_with_exception_handler ap nr_args args env =
     bind (scm_arg1 args) (\<lambda>handler. bind (navi_check_arity handler 1 env) (\<lambda>_.
     bind (scm_arg2 args) (\<lambda>thunk. bind (navi_check_arity thunk 0 env) (\<lambda>_.
     bind (navi_procedure thunk) (\<lambda>proc.
     bind (navi_dynamic_env_new_scope env) (\<lambda>exn_env.
     bind (navi_scope_set (dynamic exn_env) navi_sym_current_exn handler) (\<lambda>_.
     bind (navi_apply ap proc navi_make_nil exn_env) (\<lambda>result.
     bind (navi_env_unref exn_env) (\<lambda>_.
     ret result)))))))))"

definition scm_raise :: "nat \<Rightarrow> navi_obj \<Rightarrow> navi_env \<Rightarrow> navi_obj nm" where
  "scm_raise nr_args args env = stop (RaiseObj args env)"

definition scm_raise_continuable :: "applyf \<Rightarrow> nat \<Rightarrow> navi_obj \<Rightarrow> navi_env \<Rightarrow> navi_obj nm" where
  "scm_raise_continuable ap nr_args args env =
     bind (navi_env_lookup (dynamic env) navi_sym_current_exn) (\<lambda>handler.
     bind (navi_is_procedure handler) (\<lambda>p.
     if \<not> p then stop (Die ''no exception handler installed'')
     else bind (navi_gc_guard handler env) (\<lambda>guard.
          bind (navi_procedure handler) (\<lambda>proc.
          bind (navi_scope_unset (dynamic env) navi_sym_current_exn) (\<lambda>_.
          bind (navi_apply ap proc args env) (\<lambda>result.
          bind (navi_scope_set (dynamic env) navi_sym_current_exn handler) (\<lambda>_.
          bind (navi_gc_unguard guard) (\<lambda>_.
          ret result))))))))"

definition scm_error :: "nat \<Rightarrow> navi_obj \<Rightarrow> navi_env \<Rightarrow> navi_obj nm" where
  "scm_error nr_args args env =
     bind (navi_make_pair args navi_make_nil) (\<lambda>l. stop (RaiseObj l env))"

section \<open>Error objects\<close>

definition is_error_object :: "navi_obj \<Rightarrow> bool nm" where
  "is_error_object object =
     and_then (navi_is_pair object)
     (and_then (bind (navi_car object) navi_is_symbol)
     (and_then (bind (navi_cdr object) navi_is_pair)
     (bind (navi_cadr object) navi_is_string)))"

definition error_object_type :: "navi_obj \<Rightarrow> navi_obj nm" where
  "error_object_type object = navi_car object"

definition error_object_message :: "navi_obj \<Rightarrow> navi_obj nm" where
  "error_object_message object = navi_cadr object"

definition error_object_irritants :: "navi_obj \<Rightarrow> navi_obj nm" where
  "error_object_irritants object = navi_cddr object"

definition navi_type_check_error :: "navi_obj \<Rightarrow> navi_env \<Rightarrow> navi_obj nm" where
  "navi_type_check_error object env =
     bind (is_error_object object) (\<lambda>b.
     if \<not> b then navi_error env ''type error: not an error object'' [] else ret object)"

definition scm_error_objectp :: "nat \<Rightarrow> navi_obj \<Rightarrow> navi_env \<Rightarrow> navi_obj nm" where
  "scm_error_objectp nr_args args env =
     bind (scm_arg1 args) (\<lambda>x. bind (is_error_object x) (\<lambda>b. ret (navi_make_bool b)))"

definition scm_error_object_message :: "nat \<Rightarrow> navi_obj \<Rightarrow> navi_env \<Rightarrow> navi_obj nm" where
  "scm_error_object_message nr_args args env =
     bind (scm_arg1 args) (\<lambda>x. bind (navi_type_check_error x env) (\<lambda>_. error_object_message x))"

definition scm_error_object_irritants :: "nat \<Rightarrow> navi_obj \<Rightarrow> navi_env \<Rightarrow> navi_obj nm" where
  "scm_error_object_irritants nr_args args env =
     bind (scm_arg1 args) (\<lambda>x. bind (navi_type_check_error x env) (\<lambda>_. error_object_irritants x))"

definition scm_read_errorp :: "nat \<Rightarrow> navi_obj \<Rightarrow> navi_env \<Rightarrow> navi_obj nm" where
  "scm_read_errorp nr_args args env =
     bind (scm_arg1 args) (\<lambda>x. bind (is_error_object x) (\<lambda>b.
     if \<not> b then ret (navi_make_bool False)
     else bind (error_object_type x) (\<lambda>t. ret (navi_make_bool (t = navi_sym_read_error)))))"

definition scm_promisep :: "nat \<Rightarrow> navi_obj \<Rightarrow> navi_env \<Rightarrow> navi_obj nm" where
  "scm_promisep nr_args args env = scm_type_test NAVI_PROMISE args"

definition scm_make_promise :: "nat \<Rightarrow> navi_obj \<Rightarrow> navi_env \<Rightarrow> navi_obj nm" where
  "scm_make_promise nr_args args env = bind (scm_arg1 args) (\<lambda>x. navi_make_promise x env)"

end
