(* ===== verification/Navi_File.thy ===== *)
theory Navi_File
  imports Navi_Io Navi_Control
begin

text \<open>
  Files: the ports over files (\<open>port.c\<close>) and the forms that load one (\<open>eval.c\<close>).  \<open>fopen\<close> is
  the operating system's: reading, it gives a new stream over the bytes the host holds under the
  name; writing, it empties the file.  What is written to such a stream reaches the file outside
  of the model.
\<close>

section \<open>Opening\<close>

definition new_stream :: "byte list \<Rightarrow> nat nm" where
  "new_stream bytes =
     bind (reads stream_next) (\<lambda>f.
     bind (modifies (\<lambda>st. st\<lparr>streams := (streams st)(f \<mapsto> \<lparr>unread = bytes, written = []\<rparr>),
       stream_next := Suc f\<rparr>)) (\<lambda>_. ret f))"

definition fopen_read :: "string \<Rightarrow> nat option nm" where
  "fopen_read filename =
     bind (reads host) (\<lambda>h. case files h filename of
       None \<Rightarrow> ret None
     | Some bytes \<Rightarrow> bind (new_stream bytes) (\<lambda>f. ret (Some f)))"

definition fopen_write :: "string \<Rightarrow> nat option nm" where
  "fopen_write filename =
     bind (reads host) (\<lambda>h.
     if write_protected h filename then ret None
     else bind (modifies (\<lambda>st. st\<lparr>host := h\<lparr>files := (files h)(filename \<mapsto> [])\<rparr>\<rparr>)) (\<lambda>_.
          bind (new_stream []) (\<lambda>f. ret (Some f))))"

definition navi_file_error :: "navi_env \<Rightarrow> string \<Rightarrow> (string \<times> irritant) list \<Rightarrow> 'a nm" where
  "navi_file_error env msg irritants = stop (Error FileError msg irritants env)"

definition navi_open_input_file_raw :: "string \<Rightarrow> navi_obj nm" where
  "navi_open_input_file_raw filename =
     bind (fopen_read filename) (\<lambda>f. case f of
       None \<Rightarrow> ret navi_make_void
     | Some f \<Rightarrow> navi_make_file_input_port f)"

text \<open>The bytes of a string up to the first zero, as the C library reads them.\<close>

definition navi_string_cstr :: "navi_obj \<Rightarrow> string nm" where
  "navi_string_cstr obj = bind (navi_string obj) (\<lambda>s. cstr_from (s_data s))"

definition navi_open_input_file :: "navi_obj \<Rightarrow> navi_env \<Rightarrow> navi_obj nm" where
  "navi_open_input_file filename env =
     bind (navi_string_cstr filename) (\<lambda>name.
     bind (navi_open_input_file_raw name) (\<lambda>r.
     bind (navi_is_void r) (\<lambda>v.
     if v then navi_file_error env ''unable to open file'' [] else ret r)))"

definition navi_open_output_file_raw :: "string \<Rightarrow> navi_env \<Rightarrow> navi_obj nm" where
  "navi_open_output_file_raw filename env =
     bind (fopen_write filename) (\<lambda>f. case f of
       None \<Rightarrow> navi_file_error env ''unable to open file'' []
     | Some f \<Rightarrow> navi_make_file_output_port f)"

definition navi_open_output_file :: "navi_obj \<Rightarrow> navi_env \<Rightarrow> navi_obj nm" where
  "navi_open_output_file filename env =
     bind (navi_string_cstr filename) (\<lambda>name. navi_open_output_file_raw name env)"

definition scm_open_input_file :: "nat \<Rightarrow> navi_obj \<Rightarrow> navi_env \<Rightarrow> navi_obj nm" where
  "scm_open_input_file nr_args args env = bind (scm_arg1 args) (\<lambda>x. navi_open_input_file x env)"

definition scm_open_output_file :: "nat \<Rightarrow> navi_obj \<Rightarrow> navi_env \<Rightarrow> navi_obj nm" where
  "scm_open_output_file nr_args args env = bind (scm_arg1 args) (\<lambda>x. navi_open_output_file x env)"

section \<open>Loading\<close>

text \<open>
  The loop reads one expression ahead, so that the last one becomes a tail call.  \<open>internal\<close> is
  the lookup of built-in objects the reader needs.
\<close>

primrec load_rounds :: "readf \<Rightarrow> evalf \<Rightarrow> nat \<Rightarrow> navi_obj \<Rightarrow> navi_obj \<Rightarrow> navi_env \<Rightarrow> navi_obj nm" where
  "load_rounds internal ev 0 fst_expr port in_env = stop NoFuel"
| "load_rounds internal ev (Suc k) fst_expr port in_env =
     bind (navi_read internal port in_env) (\<lambda>snd_expr.
     bind (navi_is_eof snd_expr) (\<lambda>e.
     if e then ret fst_expr
     else bind (ev fst_expr in_env) (\<lambda>_. load_rounds internal ev k snd_expr port in_env)))"

definition navi_load :: "readf \<Rightarrow> evalf \<Rightarrow> navi_obj \<Rightarrow> bool \<Rightarrow> navi_env \<Rightarrow> navi_env \<Rightarrow> navi_obj nm" where
  "navi_load internal ev filename ci in_env out_env =
     bind (navi_open_input_file filename out_env) (\<lambda>port.
     bind (navi_gc_guard port out_env) (\<lambda>guard.
     bind (navi_port_set_fold_case port ci) (\<lambda>_.
     bind (navi_read internal port in_env) (\<lambda>fst_expr.
     bind (navi_is_eof fst_expr) (\<lambda>e.
     if e then
       bind (navi_close_input_port port out_env) (\<lambda>_.
       bind (navi_gc_unguard guard) (\<lambda>_. ret navi_make_void))
     else
       bind (\<lambda>st n. load_rounds internal ev n fst_expr port in_env st n) (\<lambda>last.
       bind (navi_close_input_port port out_env) (\<lambda>_.
       bind (navi_gc_unguard guard) (\<lambda>_.
       eval_tail last in_env))))))))"

definition navi_include :: "readf \<Rightarrow> evalf \<Rightarrow> navi_obj \<Rightarrow> bool \<Rightarrow> navi_env \<Rightarrow> navi_obj nm" where
  "navi_include internal ev args ci env =
     bind (navi_list_for_each args () (\<lambda>cons _.
       bind (navi_car cons) (\<lambda>x.
       bind (navi_type_check x NAVI_STRING env) (\<lambda>_. ret (Continue () :: (unit, unit) ctl))))) (\<lambda>_.
     after_loop (navi_list_for_each args None (\<lambda>cons _.
       bind (navi_car cons) (\<lambda>x.
       bind (navi_load internal ev x ci env env) (\<lambda>result.
       bind (navi_is_last_pair cons) (\<lambda>b.
       bind (if \<not> b then navi_force_tail ev result env else ret result) (\<lambda>result.
       ret (Continue (Some result))))))))
     (\<lambda>_ result. init result))"

definition scm_include :: "readf \<Rightarrow> evalf \<Rightarrow> nat \<Rightarrow> navi_obj \<Rightarrow> navi_env \<Rightarrow> navi_obj nm" where
  "scm_include internal ev nr_args args env = navi_include internal ev args False env"

definition scm_include_ci :: "readf \<Rightarrow> evalf \<Rightarrow> nat \<Rightarrow> navi_obj \<Rightarrow> navi_env \<Rightarrow> navi_obj nm" where
  "scm_include_ci internal ev nr_args args env = navi_include internal ev args True env"

end
