(* ===== verification/Navi_Library.thy ===== *)
theory Navi_Library
  imports Navi_File
begin

unbundle bit_operations_syntax

text \<open>
  Libraries (\<open>environment.c\<close>): the table of libraries, the checks of \<open>define-library\<close> and
  \<open>import\<close>, the search for a library's file, loading, and import sets.
\<close>

section \<open>The table of libraries\<close>

text \<open>A pointer to a library is its number; the table has the buckets of a scope.\<close>

type_synonym lib_id = nat

definition deref_lib :: "lib_id \<Rightarrow> navi_library nm" where
  "deref_lib l = (\<lambda>st n. case lib_store st l of None \<Rightarrow> (Inl Undef, st) | Some lib \<Rightarrow> (Inr lib, st))"

definition libname_hash :: "navi_obj \<Rightarrow> nat nm" where
  "libname_hash name =
     bind (navi_car name) (\<lambda>x.
     bind (navi_cdr name) (\<lambda>rest.
     bind (navi_list_for_each rest (obj_word x) (\<lambda>cons hash.
       bind (navi_car cons) (\<lambda>y.
       ret (Continue (hash XOR drop_bit 1 (obj_word y)) :: (unit, 64 word) ctl))))
     (\<lambda>(_, c). case c of Continue hash \<Rightarrow> ret (unat hash) | Return _ \<Rightarrow> stop Undef)))"

definition libname_equal :: "navi_obj \<Rightarrow> navi_obj \<Rightarrow> bool nm" where
  "libname_equal a b =
     bind (navi_list_for_each_zipped a b (\<lambda>cons_a cons_b.
       bind (navi_car cons_a) (\<lambda>x. bind (navi_car cons_b) (\<lambda>y.
       ret (if x \<noteq> y then Return False else Continue ())))))
     (\<lambda>((cons_a, cons_b), c). case c of
         Return r \<Rightarrow> ret r
       | Continue _ \<Rightarrow>
           bind (navi_is_nil cons_a) (\<lambda>p.
           if p then navi_is_nil cons_b else ret False))"

definition register_library :: "lib_id \<Rightarrow> lib_id nm" where
  "register_library lib =
     bind (deref_lib lib) (\<lambda>l.
     bind (libname_hash (lib_name l)) (\<lambda>hash.
     bind (modifies (\<lambda>st. let i = get_bucket hash in
       st\<lparr>lib_buckets := (lib_buckets st)(i := lib # lib_buckets st i)\<rparr>)) (\<lambda>_.
     ret lib)))"

primrec bucket_find_library :: "lib_id list \<Rightarrow> navi_obj \<Rightarrow> lib_id option nm" where
  "bucket_find_library [] name = ret None"
| "bucket_find_library (entry # entries) name =
     bind (deref_lib entry) (\<lambda>l.
     bind (libname_equal (lib_name l) name) (\<lambda>e.
     if e then ret (Some entry) else bucket_find_library entries name))"

definition find_library :: "navi_obj \<Rightarrow> lib_id option nm" where
  "find_library name =
     bind (libname_hash name) (\<lambda>hash.
     bind (reads lib_buckets) (\<lambda>libraries.
     bucket_find_library (libraries (get_bucket hash)) name))"

definition make_library :: "navi_obj \<Rightarrow> navi_obj \<Rightarrow> lib_id nm" where
  "make_library name declarations =
     bind (reads lib_next) (\<lambda>l.
     bind (modifies (\<lambda>st. st\<lparr>lib_store := (lib_store st)(l \<mapsto>
         \<lparr>lib_loaded = False, lib_name = name, lib_contents = Declarations declarations\<rparr>),
       lib_next := Suc l\<rparr>)) (\<lambda>_. ret l))"

section \<open>Checking names, exports and imports\<close>

definition libname_valid :: "navi_obj \<Rightarrow> bool nm" where
  "libname_valid name =
     bind (navi_is_pair name) (\<lambda>p. if \<not> p then ret False
     else after_loop (navi_list_for_each name () (\<lambda>cons _.
       bind (navi_car cons) (\<lambda>part.
       bind (navi_is_symbol part) (\<lambda>s. if s then ret (Continue ())
       else bind (navi_is_fixnum part) (\<lambda>f. if \<not> f then ret (Return False)
       else bind (navi_fixnum part) (\<lambda>i. ret (if i < 0 then Return False else Continue ())))))))
     (\<lambda>cons _. navi_is_nil cons))"

definition export_rename_valid :: "navi_obj \<Rightarrow> bool nm" where
  "export_rename_valid export =
     and_then (navi_is_proper_list export)
     (and_then (bind (navi_list_length export) (\<lambda>l. ret (l = 3)))
     (and_then (bind (navi_car export) (\<lambda>x. navi_symbol_eq x navi_sym_rename))
     (and_then (bind (navi_cadr export) navi_is_symbol)
     (bind (navi_caddr export) navi_is_symbol))))"

definition exports_valid :: "navi_obj \<Rightarrow> bool nm" where
  "exports_valid exports =
     bind (navi_is_pair exports) (\<lambda>p. if \<not> p then ret False
     else after_loop (navi_list_for_each exports () (\<lambda>cons _.
       bind (navi_car cons) (\<lambda>export.
       bind (navi_is_symbol export) (\<lambda>s. if s then ret (Continue ())
       else bind (export_rename_valid export) (\<lambda>v. ret (if \<not> v then Return False else Continue ()))))))
     (\<lambda>_ _. ret True))"

definition import_only_except_valid :: "(navi_obj \<Rightarrow> bool nm) \<Rightarrow> navi_obj \<Rightarrow> bool nm" where
  "import_only_except_valid valid args =
     and_then (navi_is_pair args)
     (and_then (bind (navi_car args) valid)
     (bind (navi_cdr args) (\<lambda>ids. navi_is_list_of ids (TType NAVI_SYMBOL) False)))"

definition import_prefix_valid :: "(navi_obj \<Rightarrow> bool nm) \<Rightarrow> navi_obj \<Rightarrow> bool nm" where
  "import_prefix_valid valid args =
     and_then (bind (navi_list_length args) (\<lambda>l. ret (l = 2)))
     (and_then (bind (navi_car args) valid)
     (bind (navi_cadr args) navi_is_symbol))"

definition import_rename_valid :: "(navi_obj \<Rightarrow> bool nm) \<Rightarrow> navi_obj \<Rightarrow> bool nm" where
  "import_rename_valid valid args =
     and_then (navi_is_pair args)
     (and_then (bind (navi_car args) valid)
     (bind (navi_cdr args) (\<lambda>renames.
     after_loop (navi_list_for_each renames () (\<lambda>cons _.
       bind (navi_car cons) (\<lambda>rename.
       bind (navi_is_list_of rename (TType NAVI_SYMBOL) False) (\<lambda>v. if \<not> v then ret (Return False)
       else bind (navi_list_length rename) (\<lambda>l. ret (if l \<noteq> 2 then Return False else Continue ()))))))
     (\<lambda>_ _. ret True))))"

definition import_valid_body :: "(navi_obj \<Rightarrow> bool nm) \<Rightarrow> navi_obj \<Rightarrow> bool nm" where
  "import_valid_body valid import =
     bind (navi_is_nil import) (\<lambda>z. if z then ret False
     else bind (navi_is_proper_list import) (\<lambda>p. if \<not> p then ret False
     else bind (navi_car import) (\<lambda>sym.
     bind (navi_cdr import) (\<lambda>rest.
     bind (navi_is_symbol sym) (\<lambda>s.
     if \<not> s then ret False
     else if sym = navi_sym_only \<or> sym = navi_sym_except then import_only_except_valid valid rest
     else if sym = navi_sym_prefix then import_prefix_valid valid rest
     else if sym = navi_sym_rename then import_rename_valid valid rest
     else libname_valid import)))))"

primrec import_valid_depth :: "nat \<Rightarrow> navi_obj \<Rightarrow> bool nm" where
  "import_valid_depth 0 import = stop NoFuel"
| "import_valid_depth (Suc k) import = import_valid_body (import_valid_depth k) import"

definition import_valid :: "navi_obj \<Rightarrow> bool nm" where
  "import_valid import = (\<lambda>st n. import_valid_depth n import st n)"

definition imports_valid :: "navi_obj \<Rightarrow> bool nm" where
  "imports_valid imports =
     bind (navi_is_pair imports) (\<lambda>p. if \<not> p then ret False
     else after_loop (navi_list_for_each imports () (\<lambda>cons _.
       bind (navi_car cons) (\<lambda>import.
       bind (navi_is_proper_list import) (\<lambda>l. if \<not> l then ret (Return False)
       else bind (import_valid import) (\<lambda>v. ret (if \<not> v then Return False else Continue ()))))))
     (\<lambda>_ _. ret True))"

section \<open>Definitions of libraries\<close>

definition declaration_valid :: "navi_obj \<Rightarrow> navi_env \<Rightarrow> bool nm" where
  "declaration_valid declaration env =
     bind (navi_car declaration) (\<lambda>sym.
     bind (navi_cdr declaration) (\<lambda>rest.
     bind (navi_is_symbol sym) (\<lambda>s. if \<not> s then ret False
     else bind (navi_is_pair rest) (\<lambda>p.
     if \<not> p then ret False
     else if sym = navi_sym_export then exports_valid rest
     else if sym = navi_sym_import then imports_valid rest
     else ret (sym = navi_sym_begin)))))"

definition check_library_syntax :: "navi_obj \<Rightarrow> navi_obj \<Rightarrow> navi_env \<Rightarrow> unit nm" where
  "check_library_syntax name declarations env =
     bind (navi_is_list_of declarations TProperList False) (\<lambda>l.
     if \<not> l then navi_error env ''invalid library definition'' []
     else bind (libname_valid name) (\<lambda>v.
     if \<not> v then navi_error env ''invalid library name'' [(''name'', IObj name)]
     else after_loop (navi_list_for_each declarations () (\<lambda>cons _.
       bind (navi_car cons) (\<lambda>d.
       let invalid = navi_error env ''invalid library declaration'' [(''declaration'', IObj d)] in
       bind (navi_is_nil d) (\<lambda>z. if z then invalid
       else bind (declaration_valid d env) (\<lambda>v.
            if \<not> v then invalid else ret (Continue ()))))))
     (\<lambda>_ _. ret ())))"

definition define_library :: "navi_obj \<Rightarrow> navi_env \<Rightarrow> lib_id nm" where
  "define_library args env =
     bind (navi_car args) (\<lambda>name.
     bind (navi_cdr args) (\<lambda>declarations.
     bind (check_library_syntax name declarations env) (\<lambda>_.
     bind (make_library name declarations) register_library)))"

definition scm_define_library :: "nat \<Rightarrow> navi_obj \<Rightarrow> navi_env \<Rightarrow> navi_obj nm" where
  "scm_define_library nr_args args env =
     bind (define_library args env) (\<lambda>_. ret navi_unspecified)"

section \<open>The file of a library\<close>

text \<open>
  The path under construction.  \<open>write_char\<close> compares the addresses of its two counters where it
  means to compare the counters, so whether the buffer grows is up to the compiler; the model has
  the buffer that never does, of 129 characters.
\<close>

definition LIBNAME_STEP :: nat where "LIBNAME_STEP = 128"

definition path_char :: "string \<Rightarrow> char \<Rightarrow> string nm" where
  "path_char path c = (if length path < LIBNAME_STEP + 1 then ret (path @ [c]) else stop Undef)"

definition write_path :: "string \<Rightarrow> string \<Rightarrow> string nm" where
  "write_path path str = foldM (\<lambda>c path. path_char path c) str path"

definition write_lib_string :: "string \<Rightarrow> string \<Rightarrow> string nm" where
  "write_lib_string path str =
     foldM (\<lambda>c path. path_char path (if c = CHR ''/'' then CHR ''_'' else c)) str path"

definition libname_to_path :: "string \<Rightarrow> navi_obj \<Rightarrow> string nm" where
  "libname_to_path base name =
     bind (write_path [] base) (\<lambda>path.
     after_loop (navi_list_for_each name path (\<lambda>cons path.
       bind (navi_car cons) (\<lambda>part.
       bind (navi_is_symbol part) (\<lambda>s. if \<not> s then ret (Continue path)
       else bind (navi_symbol part) (\<lambda>(sym, interned).
            bind (path_char path (CHR ''/'')) (\<lambda>path.
            bind (write_lib_string path sym) (\<lambda>path. ret (Continue path))))))))
     (\<lambda>_ path.
       bind (write_lib_string path ''.scm'') (\<lambda>path.
       if length path < LIBNAME_STEP + 1 then ret path else stop Undef)))"

definition open_lib_file :: "string \<Rightarrow> navi_obj \<Rightarrow> navi_obj nm" where
  "open_lib_file base name =
     bind (libname_to_path base name) (\<lambda>path. navi_open_input_file_raw path)"

definition is_libdef :: "navi_obj \<Rightarrow> bool nm" where
  "is_libdef obj =
     and_then (navi_is_pair obj)
     (and_then (bind (navi_car obj) navi_is_symbol)
     (bind (navi_car obj) (\<lambda>sym. ret (sym = navi_sym_deflib))))"

definition try_read_library :: "readf \<Rightarrow> string \<Rightarrow> navi_obj \<Rightarrow> navi_env \<Rightarrow> lib_id option nm" where
  "try_read_library internal path name env =
     bind (open_lib_file path name) (\<lambda>port.
     bind (navi_is_void port) (\<lambda>v. if v then ret None
     else bind (navi_read internal port env) (\<lambda>defn.
     bind (is_libdef defn) (\<lambda>d.
     if \<not> d then navi_error env ''error reading library'' [(''library'', IObj name)]
     else bind (navi_cdr defn) (\<lambda>args.
          bind (define_library args env) (\<lambda>lib. ret (Some lib)))))))"

text \<open>\<open>assert\<close> ends the process.\<close>

definition assert_that :: "bool \<Rightarrow> unit nm" where
  "assert_that b = (if b then ret () else stop (Die ''assertion failed''))"

definition lib_paths :: "navi_env \<Rightarrow> navi_obj nm" where
  "lib_paths env =
     bind (navi_env_lookup (dynamic env) navi_sym_lib_paths) (\<lambda>paths.
     bind (navi_is_pair paths) (\<lambda>p. bind (navi_is_nil paths) (\<lambda>z.
     bind (assert_that (p \<or> z)) (\<lambda>_. ret paths))))"

definition read_library :: "readf \<Rightarrow> navi_obj \<Rightarrow> navi_env \<Rightarrow> lib_id nm" where
  "read_library internal name env =
     bind (lib_paths env) (\<lambda>paths.
     after_loop (navi_list_for_each paths () (\<lambda>cons _.
       bind (navi_car cons) (\<lambda>path.
       bind (navi_is_string path) (\<lambda>s.
       bind (assert_that s) (\<lambda>_.
       bind (navi_string_cstr path) (\<lambda>base.
       bind (try_read_library internal base name env) (\<lambda>lib.
       ret (case lib of None \<Rightarrow> Continue () | Some l \<Rightarrow> Return l))))))))
     (\<lambda>_ _. navi_error env ''library not found'' [(''library'', IObj name)]))"

definition navi_add_lib_search_path :: "string \<Rightarrow> navi_env \<Rightarrow> unit nm" where
  "navi_add_lib_search_path path env =
     bind (lib_paths env) (\<lambda>paths.
     bind (navi_cstr_to_string path) (\<lambda>str.
     bind (navi_make_pair str paths) (\<lambda>paths'.
     navi_scope_set (dynamic env) navi_sym_lib_paths paths')))"

section \<open>Loading\<close>

type_synonym importf = "navi_obj \<Rightarrow> navi_env \<Rightarrow> unit nm"

text \<open>
  \<open>imp\<close> is \<open>navi_import\<close>.  The exports of all declarations are collected in one list; the library
  counts as loaded only when its last declaration has run.
\<close>

definition do_load_library :: "importf \<Rightarrow> evalf \<Rightarrow> lib_id \<Rightarrow> navi_env \<Rightarrow> lib_id nm" where
  "do_load_library imp ev library env =
     bind (deref_lib library) (\<lambda>l. case lib_contents l of
       Exports _ _ \<Rightarrow> stop Undef
     | Declarations declarations \<Rightarrow>
         bind (new_lexical_environment env) (\<lambda>new_env.
         after_loop (navi_list_for_each declarations navi_make_nil (\<lambda>cons exports.
           bind (navi_caar cons) (\<lambda>sym.
           bind (navi_cdar cons) (\<lambda>rest.
           if sym = navi_sym_export then
             bind (navi_list_append_ip exports rest) (\<lambda>exports. ret (Continue exports))
           else if sym = navi_sym_import then
             bind (imp rest new_env) (\<lambda>_. ret (Continue exports))
           else if sym = navi_sym_begin then
             bind (scm_begin ev 0 rest new_env) (\<lambda>r.
             bind (navi_force_tail ev r new_env) (\<lambda>_. ret (Continue exports)))
           else ret (Continue exports)))))
         (\<lambda>_ exports.
           bind (modifies (\<lambda>st. st\<lparr>lib_store := (lib_store st)(library \<mapsto>
             l\<lparr>lib_loaded := True, lib_contents := Exports exports new_env\<rparr>)\<rparr>)) (\<lambda>_.
           ret library))))"

definition load_library :: "readf \<Rightarrow> importf \<Rightarrow> evalf \<Rightarrow> navi_obj \<Rightarrow> navi_env \<Rightarrow> lib_id nm" where
  "load_library internal imp ev name env =
     bind (find_library name) (\<lambda>found. case found of
       Some lib \<Rightarrow>
         bind (deref_lib lib) (\<lambda>l.
         if lib_loaded l then ret lib else do_load_library imp ev lib env)
     | None \<Rightarrow>
         bind (read_library internal name env) (\<lambda>lib. do_load_library imp ev lib env))"

definition import_binding :: "navi_env \<Rightarrow> navi_obj \<Rightarrow> navi_obj \<Rightarrow> navi_env \<Rightarrow> unit nm" where
  "import_binding library_env lib_sym export_sym env =
     bind (navi_env_binding (lexical library_env) lib_sym) (\<lambda>binding. case binding of
       None \<Rightarrow> navi_error env ''identifier not found in library'' [(''identifier'', IObj lib_sym)]
     | Some b \<Rightarrow>
         bind (binding_object b) (\<lambda>object. navi_scope_set (lexical env) export_sym object))"

definition do_import_library :: "lib_id \<Rightarrow> navi_env \<Rightarrow> navi_env nm" where
  "do_import_library lib env =
     bind (deref_lib lib) (\<lambda>l. case lib_contents l of
       Declarations _ \<Rightarrow> stop Undef
     | Exports exports library_env \<Rightarrow>
         bind (new_lexical_environment env) (\<lambda>import_env.
         after_loop (navi_list_for_each exports () (\<lambda>cons _.
           bind (navi_car cons) (\<lambda>export.
           bind (navi_is_symbol export) (\<lambda>s.
           bind (if \<not> s then navi_cadr export else ret export) (\<lambda>lib_sym.
           bind (if \<not> s then navi_caddr export else ret export) (\<lambda>export_sym.
           bind (import_binding library_env lib_sym export_sym import_env) (\<lambda>_. ret (Continue ()))))))))
         (\<lambda>_ _. ret import_env)))"

definition import_library :: "readf \<Rightarrow> importf \<Rightarrow> evalf \<Rightarrow> navi_obj \<Rightarrow> navi_env \<Rightarrow> navi_env nm" where
  "import_library internal imp ev name env =
     bind (load_library internal imp ev name env) (\<lambda>lib. do_import_library lib env)"

section \<open>Import sets\<close>

text \<open>\<open>navi_scope_for_each\<close>: the bindings of a scope, bucket by bucket.\<close>

definition scope_for_each :: "sid \<Rightarrow> (nat \<Rightarrow> navi_obj \<Rightarrow> navi_obj \<Rightarrow> unit nm) \<Rightarrow> unit nm" where
  "scope_for_each scope body =
     foldM (\<lambda>i _.
       bind (deref_scope scope) (\<lambda>sc.
       foldM (\<lambda>(symbol, object) _. body i symbol object) (bindings sc i) ()))
     [0..<NAVI_ENV_HT_SIZE] ()"

text \<open>\<open>NAVI_LIST_REMOVE\<close> of a binding.\<close>

definition unlink_binding :: "sid \<Rightarrow> nat \<Rightarrow> navi_obj \<Rightarrow> unit nm" where
  "unlink_binding scope i symbol =
     update_scope scope (\<lambda>sc. sc\<lparr>bindings := (bindings sc)(i := bucket_unlink (bindings sc i) symbol)\<rparr>)"

definition in_list :: "navi_obj \<Rightarrow> navi_obj \<Rightarrow> bool nm" where
  "in_list symbol ids =
     after_loop (navi_list_for_each ids () (\<lambda>cons _.
       bind (navi_car cons) (\<lambda>x. ret (if x = symbol then Return True else Continue ()))))
     (\<lambda>_ _. ret False)"

type_synonym import_setf = "navi_obj \<Rightarrow> navi_env \<Rightarrow> navi_env nm"

definition import_only :: "import_setf \<Rightarrow> navi_obj \<Rightarrow> navi_obj \<Rightarrow> navi_env \<Rightarrow> navi_env nm" where
  "import_only get iset includes env =
     bind (get iset env) (\<lambda>import_env.
     bind (scope_for_each (lexical import_env) (\<lambda>i symbol object.
       bind (in_list symbol includes) (\<lambda>b.
       if b then ret () else unlink_binding (lexical import_env) i symbol))) (\<lambda>_.
     ret import_env))"

definition import_except :: "import_setf \<Rightarrow> navi_obj \<Rightarrow> navi_obj \<Rightarrow> navi_env \<Rightarrow> navi_env nm" where
  "import_except get iset excludes env =
     bind (get iset env) (\<lambda>import_env.
     bind (scope_for_each (lexical import_env) (\<lambda>i symbol object.
       bind (in_list symbol excludes) (\<lambda>b.
       if b then unlink_binding (lexical import_env) i symbol else ret ()))) (\<lambda>_.
     ret import_env))"

definition add_prefix :: "string \<Rightarrow> navi_obj \<Rightarrow> navi_obj nm" where
  "add_prefix prefix_str symbol =
     bind (navi_symbol symbol) (\<lambda>(symbol_str, interned). navi_make_symbol (prefix_str @ symbol_str))"

definition import_prefix :: "import_setf \<Rightarrow> navi_obj \<Rightarrow> navi_obj \<Rightarrow> navi_env \<Rightarrow> navi_env nm" where
  "import_prefix get iset prefix env =
     bind (navi_symbol prefix) (\<lambda>(prefix_str, interned).
     bind (get iset env) (\<lambda>import_env.
     bind (new_lexical_environment import_env) (\<lambda>prefix_env.
     bind (scope_for_each (lexical import_env) (\<lambda>i symbol object.
       bind (add_prefix prefix_str symbol) (\<lambda>prefixed.
       navi_scope_set (lexical prefix_env) prefixed object))) (\<lambda>_.
     bind (navi_env_unref import_env) (\<lambda>_.
     ret prefix_env)))))"

definition import_rename :: "import_setf \<Rightarrow> navi_obj \<Rightarrow> navi_obj \<Rightarrow> navi_env \<Rightarrow> navi_env nm" where
  "import_rename get iset renames env =
     bind (get iset env) (\<lambda>import_env.
     after_loop (navi_list_for_each renames () (\<lambda>cons _.
       bind (navi_caar cons) (\<lambda>libname.
       bind (navi_cadar cons) (\<lambda>newname.
       bind (navi_scope_lookup (lexical import_env) libname) (\<lambda>binding. case binding of
         None \<Rightarrow>
           bind (navi_env_unref import_env) (\<lambda>_.
           navi_error env ''unbound identifier'' [(''identifier'', IObj libname)])
       | Some b \<Rightarrow>
           bind (binding_object b) (\<lambda>object.
           bind (navi_scope_set (lexical import_env) newname object) (\<lambda>_.
           bind (navi_scope_unset (lexical import_env) libname) (\<lambda>_.
           ret (Continue ())))))))))
     (\<lambda>_ _. ret import_env))"

text \<open>One activation of \<open>get_import_env\<close>, with its recursive call as \<open>get\<close>.\<close>

definition get_import_env_body ::
  "readf \<Rightarrow> importf \<Rightarrow> evalf \<Rightarrow> import_setf \<Rightarrow> import_setf" where
  "get_import_env_body internal imp ev get iset env =
     bind (import_valid iset) (\<lambda>v.
     if \<not> v then navi_error env ''invalid import set'' []
     else bind (navi_car iset) (\<lambda>sym.
     bind (navi_cdr iset) (\<lambda>rest.
     if sym = navi_sym_only then
       bind (navi_car rest) (\<lambda>s. bind (navi_cdr rest) (\<lambda>ids. import_only get s ids env))
     else if sym = navi_sym_except then
       bind (navi_car rest) (\<lambda>s. bind (navi_cdr rest) (\<lambda>ids. import_except get s ids env))
     else if sym = navi_sym_prefix then
       bind (navi_car rest) (\<lambda>s. bind (navi_cadr rest) (\<lambda>prefix. import_prefix get s prefix env))
     else if sym = navi_sym_rename then
       bind (navi_car rest) (\<lambda>s. bind (navi_cdr rest) (\<lambda>renames. import_rename get s renames env))
     else import_library internal imp ev iset env)))"

text \<open>
  The collector is switched off during an import; as it never runs by itself here, that is no step
  of the model.
\<close>

definition navi_import_body :: "import_setf \<Rightarrow> importf" where
  "navi_import_body get imports env =
     after_loop (navi_list_for_each imports () (\<lambda>cons _.
       bind (navi_car cons) (\<lambda>iset.
       bind (get iset env) (\<lambda>import_env.
       bind (get_global_scope (lexical env)) (\<lambda>global.
       bind (navi_import_all global (lexical import_env)) (\<lambda>_.
       bind (navi_env_unref import_env) (\<lambda>_. ret (Continue ()))))))))
     (\<lambda>_ _. ret ())"

text \<open>
  Import sets contain import sets, and loading a library imports others: the depth counts both.
\<close>

primrec get_import_env :: "readf \<Rightarrow> evalf \<Rightarrow> nat \<Rightarrow> import_setf" where
  "get_import_env internal ev 0 iset env = stop NoFuel"
| "get_import_env internal ev (Suc k) iset env =
     get_import_env_body internal (navi_import_body (get_import_env internal ev k)) ev
       (get_import_env internal ev k) iset env"

definition navi_import :: "readf \<Rightarrow> evalf \<Rightarrow> importf" where
  "navi_import internal ev imports env =
     (\<lambda>st n. navi_import_body (get_import_env internal ev n) imports env st n)"

definition scm_import :: "readf \<Rightarrow> evalf \<Rightarrow> nat \<Rightarrow> navi_obj \<Rightarrow> navi_env \<Rightarrow> navi_obj nm" where
  "scm_import internal ev nr_args args env =
     bind (imports_valid args) (\<lambda>v.
     if \<not> v then navi_error env ''invalid import set'' []
     else bind (navi_import internal ev args env) (\<lambda>_. ret navi_unspecified))"

end
