(* ===== verification/Navi_System.thy ===== *)
theory Navi_System
  imports Navi_File
begin

text \<open>
  The interface to the operating system (\<open>system.c\<close>): the command line, the end of the process,
  environment variables and the clock, as the host of the state holds them.
\<close>

section \<open>The command line\<close>

text \<open>The list is built behind a first pair that is dropped.\<close>

definition cstr_list :: "('a \<Rightarrow> navi_obj nm) \<Rightarrow> 'a list \<Rightarrow> navi_obj nm" where
  "cstr_list elem xs =
     bind (navi_make_pair navi_make_nil navi_make_nil) (\<lambda>head.
     bind (foldM (\<lambda>x cons.
       bind (elem x) (\<lambda>v.
       bind (navi_make_pair v navi_make_nil) (\<lambda>next.
       bind (navi_set_cdr cons next) (\<lambda>_. navi_cdr cons)))) xs head) (\<lambda>_.
     navi_cdr head))"

definition navi_set_command_line :: "string list \<Rightarrow> navi_env \<Rightarrow> unit nm" where
  "navi_set_command_line argv env =
     bind (cstr_list navi_cstr_to_string argv) (\<lambda>line.
     bind (navi_get_global_env env) (\<lambda>global.
     navi_scope_set (lexical global) navi_sym_command_line line))"

definition scm_command_line :: "nat \<Rightarrow> navi_obj \<Rightarrow> navi_env \<Rightarrow> navi_obj nm" where
  "scm_command_line nr_args args env =
     bind (navi_env_lookup (lexical env) navi_sym_command_line) (\<lambda>cl.
     bind (navi_is_pair cl) (\<lambda>p. ret (if \<not> p then navi_make_nil else cl)))"

section \<open>The end of the process\<close>

text \<open>\<open>EXIT_SUCCESS\<close> is 0 and \<open>EXIT_FAILURE\<close> is 1; a number is converted to \<open>int\<close>.\<close>

definition navi_exit :: "navi_obj \<Rightarrow> 'a nm" where
  "navi_exit obj =
     bind (navi_type obj) (\<lambda>t. case t of
       NAVI_BOOL \<Rightarrow> bind (navi_bool obj) (\<lambda>b. stop (ExitWith (if b then 0 else 1)))
     | NAVI_FIXNUM \<Rightarrow> bind (navi_fixnum obj) (\<lambda>i. stop (ExitWith (to_int i)))
     | _ \<Rightarrow> stop (ExitWith 1))"

definition exit_status_arg :: "nat \<Rightarrow> navi_obj \<Rightarrow> navi_obj nm" where
  "exit_status_arg nr_args args = (if nr_args > 0 then scm_arg1 args else ret (navi_make_bool True))"

definition scm_emergency_exit :: "nat \<Rightarrow> navi_obj \<Rightarrow> navi_env \<Rightarrow> navi_obj nm" where
  "scm_emergency_exit nr_args args env = bind (exit_status_arg nr_args args) navi_exit"

definition scm_exit :: "nat \<Rightarrow> navi_obj \<Rightarrow> navi_env \<Rightarrow> navi_obj nm" where
  "scm_exit nr_args args env = bind (exit_status_arg nr_args args) navi_exit"

section \<open>Environment variables\<close>

text \<open>\<open>getenv\<close>: the text after the \<open>=\<close> of the first entry with the name.\<close>

definition getenv :: "string list \<Rightarrow> string \<Rightarrow> string option" where
  "getenv vars name =
     map_option (drop (Suc (length name))) (List.find (\<lambda>v. take (Suc (length name)) v = name @ ''='') vars)"

definition scm_get_environment_variable :: "nat \<Rightarrow> navi_obj \<Rightarrow> navi_env \<Rightarrow> navi_obj nm" where
  "scm_get_environment_variable nr_args args env =
     bind (scm_arg1 args) (\<lambda>x.
     bind (navi_string_cstr x) (\<lambda>name.
     bind (reads host) (\<lambda>h. case getenv (environ h) name of
       None \<Rightarrow> ret (navi_make_bool False)
     | Some v \<Rightarrow> navi_cstr_to_string v)))"

text \<open>An entry without \<open>=\<close> is read behind its end.\<close>

definition envvar_to_pair :: "string \<Rightarrow> navi_obj nm" where
  "envvar_to_pair var =
     (let len = length (takeWhile (\<lambda>c. c \<noteq> CHR ''='') var) in
      bind (navi_cstr_to_string (take len var)) (\<lambda>name.
      bind (if len < length var then navi_cstr_to_string (drop (Suc len) var) else stop Undef) (\<lambda>value.
      navi_make_pair name value)))"

definition scm_get_environment_variables :: "nat \<Rightarrow> navi_obj \<Rightarrow> navi_env \<Rightarrow> navi_obj nm" where
  "scm_get_environment_variables nr_args args env =
     bind (reads host) (\<lambda>h. cstr_list envvar_to_pair (environ h))"

section \<open>The clock\<close>

text \<open>\<open>time\<close> gives \<open>-1\<close> when it cannot read the clock.\<close>

definition scm_current_second :: "nat \<Rightarrow> navi_obj \<Rightarrow> navi_env \<Rightarrow> navi_obj nm" where
  "scm_current_second nr_args args env =
     bind (reads host) (\<lambda>h.
     ret (navi_make_fixnum (case clock h of None \<Rightarrow> - 1 | Some (sec, _) \<Rightarrow> sec)))"

definition scm_current_jiffy :: "nat \<Rightarrow> navi_obj \<Rightarrow> navi_env \<Rightarrow> navi_obj nm" where
  "scm_current_jiffy nr_args args env =
     bind (reads host) (\<lambda>h. case clock h of
       None \<Rightarrow> navi_error env ''unable to read system clock'' []
     | Some (sec, nsec) \<Rightarrow>
         bind (modifies (\<lambda>st. if first_second st = 0 then st\<lparr>first_second := sec\<rparr> else st)) (\<lambda>_.
         bind (reads first_second) (\<lambda>first.
         ret (navi_make_fixnum ((sec - first) * 1000 + nsec div 1000000)))))"

definition scm_jiffies_per_second :: "nat \<Rightarrow> navi_obj \<Rightarrow> navi_env \<Rightarrow> navi_obj nm" where
  "scm_jiffies_per_second nr_args args env = ret (navi_make_fixnum 100)"

end
