(* ===== verification/Navi_Arithmetic.thy ===== *)
theory Navi_Arithmetic
  imports Navi_Symbol
begin

text \<open>
  Arithmetic (\<open>arithmetic.c\<close>).  The folds of \<open>+\<close>, \<open>-\<close>, \<open>*\<close> and \<open>/\<close> work on the machine words of
  their arguments with the macros of \<open>macros.h\<close>; a result is read back as the value its word
  represents.  Signed overflow of a C \<open>long\<close> is taken to wrap around, and a division by zero has
  no meaning.  \<open>strtol\<close> and the conversions of \<open>snprintf\<close> follow the C standard.
\<close>

section \<open>The folds\<close>

definition word_op2 :: "(64 word \<Rightarrow> 64 word \<Rightarrow> 64 word option) \<Rightarrow> navi_obj \<Rightarrow> navi_obj \<Rightarrow> navi_obj nm" where
  "word_op2 operator acc x = (case operator (obj_word acc) (obj_word x) of
       None \<Rightarrow> stop Undef
     | Some w \<Rightarrow> ret (word_obj w))"

definition arithmetic_fold ::
  "(64 word \<Rightarrow> 64 word \<Rightarrow> 64 word option) \<Rightarrow> navi_obj \<Rightarrow> navi_env \<Rightarrow> navi_obj nm" where
  "arithmetic_fold operator args env =
     bind (navi_car args) (\<lambda>first.
     bind (navi_type_check first NAVI_FIXNUM env) (\<lambda>_.
     bind (navi_cdr args) (\<lambda>rest.
     after_loop (navi_list_for_each rest first (\<lambda>cons acc.
       bind (navi_car cons) (\<lambda>x.
       bind (navi_type_check x NAVI_FIXNUM env) (\<lambda>_.
       bind (word_op2 operator acc x) (\<lambda>acc'. ret (Continue acc'))))))
     (\<lambda>_ acc. ret acc))))"

definition op_plus :: "64 word \<Rightarrow> 64 word \<Rightarrow> 64 word option" where
  "op_plus a b = Some (navi_fixnum_plus a b)"

definition op_minus :: "64 word \<Rightarrow> 64 word \<Rightarrow> 64 word option" where
  "op_minus a b = Some (navi_fixnum_minus a b)"

definition op_times :: "64 word \<Rightarrow> 64 word \<Rightarrow> 64 word option" where
  "op_times a b = Some (navi_fixnum_times a b)"

definition scm_add :: "nat \<Rightarrow> navi_obj \<Rightarrow> navi_env \<Rightarrow> navi_obj nm" where
  "scm_add nr_args args env =
     bind (navi_is_nil args) (\<lambda>none.
     if none then ret (navi_make_fixnum 0)
     else bind (navi_cdr args) (\<lambda>rest. bind (navi_is_nil rest) (\<lambda>one.
          if one then scm_arg1 args
          else arithmetic_fold op_plus args env)))"

definition scm_sub :: "nat \<Rightarrow> navi_obj \<Rightarrow> navi_env \<Rightarrow> navi_obj nm" where
  "scm_sub nr_args args env =
     bind (navi_cdr args) (\<lambda>rest. bind (navi_is_nil rest) (\<lambda>one.
     if one then bind (scm_arg1 args) (\<lambda>x. word_op2 op_minus (navi_make_fixnum 0) x)
     else arithmetic_fold op_minus args env))"

definition scm_mul :: "nat \<Rightarrow> navi_obj \<Rightarrow> navi_env \<Rightarrow> navi_obj nm" where
  "scm_mul nr_args args env =
     bind (navi_is_nil args) (\<lambda>none.
     if none then ret (navi_make_fixnum 1)
     else bind (navi_cdr args) (\<lambda>rest. bind (navi_is_nil rest) (\<lambda>one.
          if one then scm_arg1 args
          else arithmetic_fold op_times args env)))"

definition scm_div :: "nat \<Rightarrow> navi_obj \<Rightarrow> navi_env \<Rightarrow> navi_obj nm" where
  "scm_div nr_args args env =
     bind (navi_cdr args) (\<lambda>rest. bind (navi_is_nil rest) (\<lambda>one.
     if one then bind (scm_arg1 args) (\<lambda>x. word_op2 navi_fixnum_divide (navi_make_fixnum 1) x)
     else arithmetic_fold navi_fixnum_divide args env))"

definition fixnum_args :: "navi_obj \<Rightarrow> (int \<times> int) nm" where
  "fixnum_args args =
     bind (scm_arg1 args) (\<lambda>x. bind (scm_arg2 args) (\<lambda>y.
     bind (navi_fixnum x) (\<lambda>a. bind (navi_fixnum y) (\<lambda>b. ret (a, b)))))"

definition scm_quotient :: "nat \<Rightarrow> navi_obj \<Rightarrow> navi_env \<Rightarrow> navi_obj nm" where
  "scm_quotient nr_args args env =
     bind (fixnum_args args) (\<lambda>(a, b).
     if b = 0 then stop Undef else ret (navi_make_fixnum (a sdiv b)))"

definition scm_remainder :: "nat \<Rightarrow> navi_obj \<Rightarrow> navi_env \<Rightarrow> navi_obj nm" where
  "scm_remainder nr_args args env =
     bind (fixnum_args args) (\<lambda>(a, b).
     if b = 0 then stop Undef else ret (navi_make_fixnum (a smod b)))"

section \<open>Comparisons\<close>

definition fold_pairs :: "navi_obj \<Rightarrow> (navi_obj \<Rightarrow> navi_obj \<Rightarrow> navi_env \<Rightarrow> bool nm) \<Rightarrow> navi_env \<Rightarrow> bool nm" where
  "fold_pairs list compare env =
     after_loop (navi_list_for_each list () (\<lambda>cons _.
       bind (navi_cdr cons) (\<lambda>d. bind (navi_type d) (\<lambda>t.
       if t = NAVI_NIL then ret (Return True)
       else bind (navi_car cons) (\<lambda>a. bind (navi_cadr cons) (\<lambda>b.
            bind (compare a b env) (\<lambda>c.
            ret (if \<not> c then Return False else Continue ()))))))))
     (\<lambda>_ _. ret True)"

definition numeric_compare :: "(int \<Rightarrow> int \<Rightarrow> bool) \<Rightarrow> navi_obj \<Rightarrow> navi_obj \<Rightarrow> navi_env \<Rightarrow> bool nm" where
  "numeric_compare op a b env =
     bind (navi_type_check a NAVI_FIXNUM env) (\<lambda>_.
     bind (navi_type_check b NAVI_FIXNUM env) (\<lambda>_.
     bind (navi_fixnum a) (\<lambda>x. bind (navi_fixnum b) (\<lambda>y. ret (op x y)))))"

definition numeric_comparison :: "(int \<Rightarrow> int \<Rightarrow> bool) \<Rightarrow> navi_obj \<Rightarrow> navi_env \<Rightarrow> navi_obj nm" where
  "numeric_comparison op args env =
     bind (fold_pairs args (numeric_compare op) env) (\<lambda>b. ret (navi_make_bool b))"

definition scm_lt :: "nat \<Rightarrow> navi_obj \<Rightarrow> navi_env \<Rightarrow> navi_obj nm" where
  "scm_lt nr_args args env = numeric_comparison (<) args env"

definition scm_gt :: "nat \<Rightarrow> navi_obj \<Rightarrow> navi_env \<Rightarrow> navi_obj nm" where
  "scm_gt nr_args args env = numeric_comparison (>) args env"

definition scm_lte :: "nat \<Rightarrow> navi_obj \<Rightarrow> navi_env \<Rightarrow> navi_obj nm" where
  "scm_lte nr_args args env = numeric_comparison (\<le>) args env"

definition scm_gte :: "nat \<Rightarrow> navi_obj \<Rightarrow> navi_env \<Rightarrow> navi_obj nm" where
  "scm_gte nr_args args env = numeric_comparison (\<ge>) args env"

definition scm_numeq :: "nat \<Rightarrow> navi_obj \<Rightarrow> navi_env \<Rightarrow> navi_obj nm" where
  "scm_numeq nr_args args env = numeric_comparison (=) args env"

definition numeric_predicate :: "(int \<Rightarrow> bool) \<Rightarrow> navi_obj \<Rightarrow> navi_obj nm" where
  "numeric_predicate test args =
     bind (scm_arg1 args) (\<lambda>x. bind (navi_fixnum x) (\<lambda>i. ret (navi_make_bool (test i))))"

definition scm_zerop :: "nat \<Rightarrow> navi_obj \<Rightarrow> navi_env \<Rightarrow> navi_obj nm" where
  "scm_zerop nr_args args env = numeric_predicate (\<lambda>i. i = 0) args"

definition scm_positivep :: "nat \<Rightarrow> navi_obj \<Rightarrow> navi_env \<Rightarrow> navi_obj nm" where
  "scm_positivep nr_args args env = numeric_predicate (\<lambda>i. i > 0) args"

definition scm_negativep :: "nat \<Rightarrow> navi_obj \<Rightarrow> navi_env \<Rightarrow> navi_obj nm" where
  "scm_negativep nr_args args env = numeric_predicate (\<lambda>i. i < 0) args"

definition scm_oddp :: "nat \<Rightarrow> navi_obj \<Rightarrow> navi_env \<Rightarrow> navi_obj nm" where
  "scm_oddp nr_args args env = numeric_predicate (\<lambda>i. i smod 2 \<noteq> 0) args"

definition scm_evenp :: "nat \<Rightarrow> navi_obj \<Rightarrow> navi_env \<Rightarrow> navi_obj nm" where
  "scm_evenp nr_args args env = numeric_predicate (\<lambda>i. i smod 2 = 0) args"

section \<open>Numbers and strings\<close>

definition scm_number_to_string :: "nat \<Rightarrow> navi_obj \<Rightarrow> navi_env \<Rightarrow> navi_obj nm" where
  "scm_number_to_string nr_args args env =
     bind (navi_cdr args) (\<lambda>rest. bind (navi_type rest) (\<lambda>t.
     bind (if t \<noteq> NAVI_NIL then
             bind (scm_arg2 args) (\<lambda>r.
             bind (navi_type_check r NAVI_FIXNUM env) (\<lambda>_. navi_fixnum r))
           else ret 10) (\<lambda>radix.
     bind (scm_arg1 args) (\<lambda>x. bind (navi_fixnum x) (\<lambda>i.
     if radix = 8 then navi_cstr_to_string (fmt_lo i)
     else if radix = 10 then navi_cstr_to_string (fmt_ld i)
     else if radix = 16 then navi_cstr_to_string (fmt_lx i)
     else navi_error env ''unsupported radix'' [])))))"

definition explicit_radix :: "string \<Rightarrow> int" where
  "explicit_radix str = (case str of
       c # d # _ \<Rightarrow>
         if c \<noteq> CHR ''#'' then 0
         else if d = CHR ''b'' then 2
         else if d = CHR ''o'' then 8
         else if d = CHR ''d'' then 10
         else if d = CHR ''x'' then 16
         else 0
     | _ \<Rightarrow> 0)"

text \<open>
  \<open>strtol\<close>: white space, a sign, in base 16 (or 0) an optional \<open>0x\<close>, then digits; without a
  digit nothing is read.  The value is clamped to a \<open>long\<close>.  The second component is what the
  end pointer points to.  \<open>None\<close> is a base the function does not support: it then leaves the
  end pointer unset.
\<close>

definition isspace :: "char \<Rightarrow> bool" where
  "isspace c \<longleftrightarrow> of_char c \<in> {9, 10, 11, 12, 13, 32 :: nat}"

definition digit_value :: "char \<Rightarrow> nat" where
  "digit_value c = (let k = of_char c :: nat in
     if 48 \<le> k \<and> k \<le> 57 then k - 48
     else if 97 \<le> k \<and> k \<le> 122 then k - 87
     else if 65 \<le> k \<and> k \<le> 90 then k - 55
     else 99)"

fun read_digits :: "nat \<Rightarrow> nat \<Rightarrow> string \<Rightarrow> nat \<times> string" where
  "read_digits b acc [] = (acc, [])"
| "read_digits b acc (c # cs) =
     (if digit_value c < b then read_digits b (acc * b + digit_value c) cs else (acc, c # cs))"

definition clamp_long :: "int \<Rightarrow> int" where
  "clamp_long i = (if i > 2 ^ 63 - 1 then 2 ^ 63 - 1 else if i < - (2 ^ 63) then - (2 ^ 63) else i)"

definition hex_prefix :: "string \<Rightarrow> bool" where
  "hex_prefix s = (case s of
       a # b # c # _ \<Rightarrow> a = CHR ''0'' \<and> b \<in> {CHR ''x'', CHR ''X''} \<and> digit_value c < 16
     | _ \<Rightarrow> False)"

definition strtol :: "string \<Rightarrow> int \<Rightarrow> (int \<times> string) option" where
  "strtol str base =
     (if base < 0 \<or> base = 1 \<or> base > 36 then None
      else let s0 = dropWhile isspace str;
               neg = (case s0 of c # _ \<Rightarrow> c = CHR ''-'' | [] \<Rightarrow> False);
               signed = (case s0 of c # _ \<Rightarrow> c = CHR ''-'' \<or> c = CHR ''+'' | [] \<Rightarrow> False);
               s1 = (if signed then tl s0 else s0);
               hex = (base = 0 \<or> base = 16) \<and> hex_prefix s1;
               b = (if base \<noteq> 0 then nat base
                    else if hex then 16
                    else if (case s1 of c # _ \<Rightarrow> c = CHR ''0'' | [] \<Rightarrow> False) then 8 else 10);
               s2 = (if hex then drop 2 s1 else s1)
           in (case s2 of
                 [] \<Rightarrow> Some (0, str)
               | c # _ \<Rightarrow>
                   if digit_value c \<ge> b then Some (0, str)
                   else let (v, rest) = read_digits b 0 s2
                        in Some (clamp_long (if neg then - int v else int v), rest)))"

text \<open>The base is converted to an \<open>int\<close>.\<close>

definition scm_string_to_number :: "nat \<Rightarrow> navi_obj \<Rightarrow> navi_env \<Rightarrow> navi_obj nm" where
  "scm_string_to_number nr_args args env =
     bind (scm_arg1 args) (\<lambda>a. bind (navi_string a) (\<lambda>s.
     bind (navi_cdr args) (\<lambda>rest. bind (navi_is_nil rest) (\<lambda>none.
     bind (if none then ret 10 else bind (scm_arg2 args) (\<lambda>r. navi_fixnum_cast r env)) (\<lambda>radix.
     bind (cstr_from (s_data s)) (\<lambda>string.
     (let n = explicit_radix string;
          string' = (if n \<noteq> 0 then drop 2 string else string);
          radix' = (if n \<noteq> 0 then n else radix)
      in case strtol string' (sint (word_of_int radix' :: 32 word)) of
           None \<Rightarrow> stop Undef
         | Some (v, endptr) \<Rightarrow>
             ret (if endptr \<noteq> [] then navi_make_bool False else navi_make_fixnum v))))))))"

section \<open>Booleans\<close>

definition scm_not :: "nat \<Rightarrow> navi_obj \<Rightarrow> navi_env \<Rightarrow> navi_obj nm" where
  "scm_not nr_args args env =
     bind (scm_arg1 args) (\<lambda>x. bind (navi_is_true x) (\<lambda>b. ret (navi_make_bool (\<not> b))))"

definition scm_booleanp :: "nat \<Rightarrow> navi_obj \<Rightarrow> navi_env \<Rightarrow> navi_obj nm" where
  "scm_booleanp nr_args args env = scm_type_test NAVI_BOOL args"

definition scm_boolean_eq :: "nat \<Rightarrow> navi_obj \<Rightarrow> navi_env \<Rightarrow> navi_obj nm" where
  "scm_boolean_eq nr_args args env =
     bind (scm_arg1 args) (\<lambda>bval.
     bind (navi_cdr args) (\<lambda>rest.
     after_loop (navi_list_for_each rest () (\<lambda>cons _.
       bind (navi_car cons) (\<lambda>x.
       bind (navi_type_check x NAVI_BOOL env) (\<lambda>_.
       ret (if obj_word x \<noteq> obj_word bval then Return (navi_make_bool False) else Continue ())))))
     (\<lambda>_ _. ret (navi_make_bool True))))"

end
