(* ===== verification/Navi_Interp.thy ===== *)
theory Navi_Interp
  imports Navi_Library Navi_System Navi_Arithmetic
begin

text \<open>
  The interpreter: the table of the procedures written in C (\<open>DEFUN\<close>, \<open>DEFSPECIAL\<close> and the
  macros built on them; \<open>default_bindings.c\<close>), the call of each, and the mutual recursion of
  evaluation and application.  \<open>interp k\<close> is the pair \<open>(navi_eval, _navi_apply)\<close> for at most
  \<open>k\<close> nested activations; a deeper recursion stops with \<open>NoFuel\<close>.
\<close>

section \<open>The declarations\<close>

definition builtin_spec ::
  "navi_type \<Rightarrow> bool \<Rightarrow> nat \<Rightarrow> builtin \<Rightarrow> ptype list \<Rightarrow> string \<Rightarrow> proc_spec" where
  "builtin_spec type variadic arity proc types ident =
     \<lparr>sp_type = type, sp_variadic = variadic, sp_arity = arity, sp_proc = proc,
      sp_types = types, sp_ident = ident\<rparr>"

primrec list_spec :: "list_builtin \<Rightarrow> proc_spec" where
  "list_spec B_cons = builtin_spec NAVI_PROCEDURE False 2 (ListB B_cons)
     [TAny, TAny] ''cons''"
| "list_spec B_car = builtin_spec NAVI_PROCEDURE False 1 (ListB B_car)
     [TType NAVI_PAIR] ''car''"
| "list_spec B_cdr = builtin_spec NAVI_PROCEDURE False 1 (ListB B_cdr)
     [TType NAVI_PAIR] ''cdr''"
| "list_spec B_set_car = builtin_spec NAVI_PROCEDURE False 2 (ListB B_set_car)
     [TType NAVI_PAIR, TAny] ''set-car!''"
| "list_spec B_set_cdr = builtin_spec NAVI_PROCEDURE False 2 (ListB B_set_cdr)
     [TType NAVI_PAIR, TAny] ''set-cdr!''"
| "list_spec B_pairp = builtin_spec NAVI_PROCEDURE False 1 (ListB B_pairp)
     [TAny] ''pair?''"
| "list_spec B_nullp = builtin_spec NAVI_PROCEDURE False 1 (ListB B_nullp)
     [TAny] ''null?''"
| "list_spec B_listp = builtin_spec NAVI_PROCEDURE False 1 (ListB B_listp)
     [TAny] ''list?''"
| "list_spec B_make_list = builtin_spec NAVI_PROCEDURE True 1 (ListB B_make_list)
     [TType NAVI_FIXNUM] ''make-list''"
| "list_spec B_length = builtin_spec NAVI_PROCEDURE False 1 (ListB B_length)
     [TList] ''length''"
| "list_spec B_list = builtin_spec NAVI_PROCEDURE True 0 (ListB B_list)
     [] ''list''"
| "list_spec B_list_copy = builtin_spec NAVI_PROCEDURE False 1 (ListB B_list_copy)
     [TList] ''list-copy''"
| "list_spec B_append = builtin_spec NAVI_PROCEDURE True 1 (ListB B_append)
     [TAny] ''append''"
| "list_spec B_reverse = builtin_spec NAVI_PROCEDURE False 1 (ListB B_reverse)
     [TList] ''reverse''"
| "list_spec B_list_tail = builtin_spec NAVI_PROCEDURE False 2 (ListB B_list_tail)
     [TList, TType NAVI_FIXNUM] ''list-tail''"
| "list_spec B_list_ref = builtin_spec NAVI_PROCEDURE False 2 (ListB B_list_ref)
     [TType NAVI_PAIR, TType NAVI_FIXNUM] ''list-ref''"
| "list_spec B_list_set = builtin_spec NAVI_PROCEDURE False 3 (ListB B_list_set)
     [TType NAVI_PAIR, TType NAVI_FIXNUM, TAny] ''list-set!''"
| "list_spec B_memq = builtin_spec NAVI_PROCEDURE False 2 (ListB B_memq)
     [TAny, TList] ''memq''"
| "list_spec B_memv = builtin_spec NAVI_PROCEDURE False 2 (ListB B_memv)
     [TAny, TList] ''memv''"
| "list_spec B_member = builtin_spec NAVI_PROCEDURE True 2 (ListB B_member)
     [TAny, TList] ''member''"
| "list_spec B_assq = builtin_spec NAVI_PROCEDURE False 2 (ListB B_assq)
     [TAny, TList] ''assq''"
| "list_spec B_assv = builtin_spec NAVI_PROCEDURE False 2 (ListB B_assv)
     [TAny, TList] ''assv''"
| "list_spec B_assoc = builtin_spec NAVI_PROCEDURE True 2 (ListB B_assoc)
     [TAny, TList] ''assoc''"
| "list_spec B_for_each = builtin_spec NAVI_PROCEDURE True 2 (ListB B_for_each)
     [TType NAVI_PROCEDURE, TAny] ''for-each''"
| "list_spec B_map = builtin_spec NAVI_PROCEDURE True 2 (ListB B_map)
     [TType NAVI_PROCEDURE, TAny] ''map''"

primrec arith_spec :: "arith_builtin \<Rightarrow> proc_spec" where
  "arith_spec B_add = builtin_spec NAVI_PROCEDURE True 0 (ArithB B_add)
     [] ''+''"
| "arith_spec B_sub = builtin_spec NAVI_PROCEDURE True 1 (ArithB B_sub)
     [TType NAVI_FIXNUM] ''-''"
| "arith_spec B_mul = builtin_spec NAVI_PROCEDURE True 0 (ArithB B_mul)
     [] ''*''"
| "arith_spec B_div = builtin_spec NAVI_PROCEDURE True 1 (ArithB B_div)
     [TType NAVI_FIXNUM] ''/''"
| "arith_spec B_quotient = builtin_spec NAVI_PROCEDURE False 2 (ArithB B_quotient)
     [TType NAVI_FIXNUM, TType NAVI_FIXNUM] ''quotient''"
| "arith_spec B_remainder = builtin_spec NAVI_PROCEDURE False 2 (ArithB B_remainder)
     [TType NAVI_FIXNUM, TType NAVI_FIXNUM] ''remainder''"
| "arith_spec B_lt = builtin_spec NAVI_PROCEDURE True 1 (ArithB B_lt)
     [TType NAVI_FIXNUM] ''<''"
| "arith_spec B_gt = builtin_spec NAVI_PROCEDURE True 1 (ArithB B_gt)
     [TType NAVI_FIXNUM] ''>''"
| "arith_spec B_lte = builtin_spec NAVI_PROCEDURE True 1 (ArithB B_lte)
     [TType NAVI_FIXNUM] ''<=''"
| "arith_spec B_gte = builtin_spec NAVI_PROCEDURE True 1 (ArithB B_gte)
     [TType NAVI_FIXNUM] ''>=''"
| "arith_spec B_numeq = builtin_spec NAVI_PROCEDURE True 1 (ArithB B_numeq)
     [TType NAVI_FIXNUM] ''=''"
| "arith_spec B_zerop = builtin_spec NAVI_PROCEDURE False 1 (ArithB B_zerop)
     [TType NAVI_FIXNUM] ''zero?''"
| "arith_spec B_positivep = builtin_spec NAVI_PROCEDURE False 1 (ArithB B_positivep)
     [TType NAVI_FIXNUM] ''positive?''"
| "arith_spec B_negativep = builtin_spec NAVI_PROCEDURE False 1 (ArithB B_negativep)
     [TType NAVI_FIXNUM] ''negative?''"
| "arith_spec B_oddp = builtin_spec NAVI_PROCEDURE False 1 (ArithB B_oddp)
     [TType NAVI_FIXNUM] ''odd?''"
| "arith_spec B_evenp = builtin_spec NAVI_PROCEDURE False 1 (ArithB B_evenp)
     [TType NAVI_FIXNUM] ''even?''"
| "arith_spec B_number_to_string = builtin_spec NAVI_PROCEDURE True 1 (ArithB B_number_to_string)
     [TType NAVI_FIXNUM] ''number->string''"
| "arith_spec B_string_to_number = builtin_spec NAVI_PROCEDURE True 1 (ArithB B_string_to_number)
     [TType NAVI_STRING] ''string->number''"
| "arith_spec B_not = builtin_spec NAVI_PROCEDURE False 1 (ArithB B_not)
     [TAny] ''not''"
| "arith_spec B_booleanp = builtin_spec NAVI_PROCEDURE False 1 (ArithB B_booleanp)
     [TAny] ''boolean?''"
| "arith_spec B_boolean_eq = builtin_spec NAVI_PROCEDURE True 1 (ArithB B_boolean_eq)
     [TType NAVI_BOOL] ''boolean=?''"

primrec vector_spec :: "vector_builtin \<Rightarrow> proc_spec" where
  "vector_spec B_vectorp = builtin_spec NAVI_PROCEDURE False 1 (VectorB B_vectorp)
     [TAny] ''vector?''"
| "vector_spec B_make_vector = builtin_spec NAVI_PROCEDURE True 1 (VectorB B_make_vector)
     [TType NAVI_FIXNUM] ''make-vector''"
| "vector_spec B_vector = builtin_spec NAVI_PROCEDURE True 0 (VectorB B_vector)
     [] ''vector''"
| "vector_spec B_vector_length = builtin_spec NAVI_PROCEDURE False 1 (VectorB B_vector_length)
     [TType NAVI_VECTOR] ''vector-length''"
| "vector_spec B_vector_ref = builtin_spec NAVI_PROCEDURE False 2 (VectorB B_vector_ref)
     [TType NAVI_VECTOR, TType NAVI_FIXNUM] ''vector-ref''"
| "vector_spec B_vector_set = builtin_spec NAVI_PROCEDURE False 3 (VectorB B_vector_set)
     [TType NAVI_VECTOR, TType NAVI_FIXNUM, TAny] ''vector-set!''"
| "vector_spec B_vector_to_list = builtin_spec NAVI_PROCEDURE False 1 (VectorB B_vector_to_list)
     [TType NAVI_VECTOR] ''vector->list''"
| "vector_spec B_list_to_vector = builtin_spec NAVI_PROCEDURE False 1 (VectorB B_list_to_vector)
     [TList] ''list->vector''"
| "vector_spec B_vector_fill = builtin_spec NAVI_PROCEDURE True 2 (VectorB B_vector_fill)
     [TType NAVI_VECTOR, TAny] ''vector-fill!''"
| "vector_spec B_vector_copy = builtin_spec NAVI_PROCEDURE True 1 (VectorB B_vector_copy)
     [TType NAVI_VECTOR] ''vector-copy''"
| "vector_spec B_vector_copy_to = builtin_spec NAVI_PROCEDURE True 3 (VectorB B_vector_copy_to)
     [TType NAVI_VECTOR, TType NAVI_FIXNUM, TType NAVI_VECTOR] ''vector-copy!''"
| "vector_spec B_vector_map_ip = builtin_spec NAVI_PROCEDURE False 2 (VectorB B_vector_map_ip)
     [TType NAVI_PROCEDURE, TType NAVI_VECTOR] ''vector-map!''"
| "vector_spec B_vector_for_each = builtin_spec NAVI_PROCEDURE True 2 (VectorB B_vector_for_each)
     [TType NAVI_PROCEDURE, TType NAVI_VECTOR] ''vector-for-each''"
| "vector_spec B_vector_map = builtin_spec NAVI_PROCEDURE True 2 (VectorB B_vector_map)
     [TType NAVI_PROCEDURE, TType NAVI_VECTOR] ''vector-map''"

primrec bytevec_spec :: "bytevec_builtin \<Rightarrow> proc_spec" where
  "bytevec_spec B_bytevectorp = builtin_spec NAVI_PROCEDURE False 1 (BytevecB B_bytevectorp)
     [TAny] ''bytevector?''"
| "bytevec_spec B_make_bytevector = builtin_spec NAVI_PROCEDURE True 1 (BytevecB B_make_bytevector)
     [TType NAVI_FIXNUM] ''make-bytevector''"
| "bytevec_spec B_bytevector = builtin_spec NAVI_PROCEDURE True 0 (BytevecB B_bytevector)
     [] ''bytevector''"
| "bytevec_spec B_bytevector_length = builtin_spec NAVI_PROCEDURE False 1 (BytevecB B_bytevector_length)
     [TType NAVI_BYTEVEC] ''bytevector-length''"
| "bytevec_spec B_bytevector_u8_ref = builtin_spec NAVI_PROCEDURE False 2 (BytevecB B_bytevector_u8_ref)
     [TType NAVI_BYTEVEC, TType NAVI_FIXNUM] ''bytevector-u8-ref''"
| "bytevec_spec B_bytevector_u8_set = builtin_spec NAVI_PROCEDURE False 3 (BytevecB B_bytevector_u8_set)
     [TType NAVI_BYTEVEC, TType NAVI_FIXNUM, TByte] ''bytevector-u8-set!''"
| "bytevec_spec B_bytevector_append = builtin_spec NAVI_PROCEDURE True 0 (BytevecB B_bytevector_append)
     [] ''bytevector-append''"
| "bytevec_spec B_bytevector_copy = builtin_spec NAVI_PROCEDURE True 1 (BytevecB B_bytevector_copy)
     [TType NAVI_BYTEVEC] ''bytevector-copy''"
| "bytevec_spec B_bytevector_copy_to = builtin_spec NAVI_PROCEDURE True 3 (BytevecB B_bytevector_copy_to)
     [TType NAVI_BYTEVEC, TType NAVI_FIXNUM, TType NAVI_BYTEVEC] ''bytevector-copy!''"
| "bytevec_spec B_utf8_to_string = builtin_spec NAVI_PROCEDURE True 1 (BytevecB B_utf8_to_string)
     [TType NAVI_BYTEVEC] ''utf8->string''"
| "bytevec_spec B_string_to_utf8 = builtin_spec NAVI_PROCEDURE True 1 (BytevecB B_string_to_utf8)
     [TType NAVI_STRING] ''string->utf8''"

primrec char_spec :: "char_builtin \<Rightarrow> proc_spec" where
  "char_spec B_charp = builtin_spec NAVI_PROCEDURE False 1 (CharB B_charp)
     [TAny] ''char?''"
| "char_spec B_char_lt = builtin_spec NAVI_PROCEDURE False 2 (CharB B_char_lt)
     [TType NAVI_CHAR, TType NAVI_CHAR] ''char<?''"
| "char_spec B_char_gt = builtin_spec NAVI_PROCEDURE False 2 (CharB B_char_gt)
     [TType NAVI_CHAR, TType NAVI_CHAR] ''char>?''"
| "char_spec B_char_eq = builtin_spec NAVI_PROCEDURE False 2 (CharB B_char_eq)
     [TType NAVI_CHAR, TType NAVI_CHAR] ''char=?''"
| "char_spec B_char_lte = builtin_spec NAVI_PROCEDURE False 2 (CharB B_char_lte)
     [TType NAVI_CHAR, TType NAVI_CHAR] ''char<=?''"
| "char_spec B_char_gte = builtin_spec NAVI_PROCEDURE False 2 (CharB B_char_gte)
     [TType NAVI_CHAR, TType NAVI_CHAR] ''char>=?''"
| "char_spec B_char_ci_lt = builtin_spec NAVI_PROCEDURE False 2 (CharB B_char_ci_lt)
     [TType NAVI_CHAR, TType NAVI_CHAR] ''char-ci<?''"
| "char_spec B_char_ci_gt = builtin_spec NAVI_PROCEDURE False 2 (CharB B_char_ci_gt)
     [TType NAVI_CHAR, TType NAVI_CHAR] ''char-ci>?''"
| "char_spec B_char_ci_eq = builtin_spec NAVI_PROCEDURE False 2 (CharB B_char_ci_eq)
     [TType NAVI_CHAR, TType NAVI_CHAR] ''char-ci=?''"
| "char_spec B_char_ci_lte = builtin_spec NAVI_PROCEDURE False 2 (CharB B_char_ci_lte)
     [TType NAVI_CHAR, TType NAVI_CHAR] ''char-ci<=?''"
| "char_spec B_char_ci_gte = builtin_spec NAVI_PROCEDURE False 2 (CharB B_char_ci_gte)
     [TType NAVI_CHAR, TType NAVI_CHAR] ''char-ci>=?''"
| "char_spec B_char_upcase = builtin_spec NAVI_PROCEDURE False 1 (CharB B_char_upcase)
     [TType NAVI_CHAR] ''char-upcase''"
| "char_spec B_char_downcase = builtin_spec NAVI_PROCEDURE False 1 (CharB B_char_downcase)
     [TType NAVI_CHAR] ''char-downcase''"

primrec string_spec :: "string_builtin \<Rightarrow> proc_spec" where
  "string_spec B_stringp = builtin_spec NAVI_PROCEDURE False 1 (StringB B_stringp)
     [TAny] ''string?''"
| "string_spec B_make_string = builtin_spec NAVI_PROCEDURE True 1 (StringB B_make_string)
     [TType NAVI_FIXNUM] ''make-string''"
| "string_spec B_string = builtin_spec NAVI_PROCEDURE True 0 (StringB B_string)
     [] ''string''"
| "string_spec B_string_length = builtin_spec NAVI_PROCEDURE False 1 (StringB B_string_length)
     [TType NAVI_STRING] ''string-length''"
| "string_spec B_string_ref = builtin_spec NAVI_PROCEDURE False 2 (StringB B_string_ref)
     [TType NAVI_STRING, TType NAVI_FIXNUM] ''string-ref''"
| "string_spec B_string_set = builtin_spec NAVI_PROCEDURE False 3 (StringB B_string_set)
     [TType NAVI_STRING, TType NAVI_FIXNUM, TType NAVI_CHAR] ''string-set!''"
| "string_spec B_string_lt = builtin_spec NAVI_PROCEDURE True 2 (StringB B_string_lt)
     [TType NAVI_STRING, TType NAVI_STRING] ''string<?''"
| "string_spec B_string_gt = builtin_spec NAVI_PROCEDURE True 2 (StringB B_string_gt)
     [TType NAVI_STRING, TType NAVI_STRING] ''string>?''"
| "string_spec B_string_eq = builtin_spec NAVI_PROCEDURE True 2 (StringB B_string_eq)
     [TType NAVI_STRING, TType NAVI_STRING] ''string=?''"
| "string_spec B_string_lte = builtin_spec NAVI_PROCEDURE True 2 (StringB B_string_lte)
     [TType NAVI_STRING, TType NAVI_STRING] ''string<=?''"
| "string_spec B_string_gte = builtin_spec NAVI_PROCEDURE True 2 (StringB B_string_gte)
     [TType NAVI_STRING, TType NAVI_STRING] ''string>=?''"
| "string_spec B_string_ci_lt = builtin_spec NAVI_PROCEDURE True 2 (StringB B_string_ci_lt)
     [TType NAVI_STRING, TType NAVI_STRING] ''string-ci<?''"
| "string_spec B_string_ci_gt = builtin_spec NAVI_PROCEDURE True 2 (StringB B_string_ci_gt)
     [TType NAVI_STRING, TType NAVI_STRING] ''string-ci>?''"
| "string_spec B_string_ci_eq = builtin_spec NAVI_PROCEDURE True 2 (StringB B_string_ci_eq)
     [TType NAVI_STRING, TType NAVI_STRING] ''string-ci=?''"
| "string_spec B_string_ci_lte = builtin_spec NAVI_PROCEDURE True 2 (StringB B_string_ci_lte)
     [TType NAVI_STRING, TType NAVI_STRING] ''string-ci<=?''"
| "string_spec B_string_ci_gte = builtin_spec NAVI_PROCEDURE True 2 (StringB B_string_ci_gte)
     [TType NAVI_STRING, TType NAVI_STRING] ''string-ci>=?''"
| "string_spec B_string_upcase = builtin_spec NAVI_PROCEDURE False 1 (StringB B_string_upcase)
     [TType NAVI_STRING] ''string-upcase''"
| "string_spec B_string_downcase = builtin_spec NAVI_PROCEDURE False 1 (StringB B_string_downcase)
     [TType NAVI_STRING] ''string-downcase''"
| "string_spec B_string_foldcase = builtin_spec NAVI_PROCEDURE False 1 (StringB B_string_foldcase)
     [TType NAVI_STRING] ''string-foldcase''"
| "string_spec B_string_append = builtin_spec NAVI_PROCEDURE True 0 (StringB B_string_append)
     [] ''string-append''"
| "string_spec B_string_to_list = builtin_spec NAVI_PROCEDURE False 1 (StringB B_string_to_list)
     [TType NAVI_STRING] ''string->list''"
| "string_spec B_list_to_string = builtin_spec NAVI_PROCEDURE False 1 (StringB B_list_to_string)
     [TList] ''list->string''"
| "string_spec B_string_to_vector = builtin_spec NAVI_PROCEDURE False 1 (StringB B_string_to_vector)
     [TType NAVI_STRING] ''string->vector''"
| "string_spec B_vector_to_string = builtin_spec NAVI_PROCEDURE False 1 (StringB B_vector_to_string)
     [TType NAVI_VECTOR] ''vector->string''"
| "string_spec B_string_fill = builtin_spec NAVI_PROCEDURE True 2 (StringB B_string_fill)
     [TType NAVI_STRING, TType NAVI_CHAR] ''string-fill!''"
| "string_spec B_string_copy = builtin_spec NAVI_PROCEDURE True 1 (StringB B_string_copy)
     [TType NAVI_STRING] ''string-copy''"
| "string_spec B_string_copy_to = builtin_spec NAVI_PROCEDURE True 3 (StringB B_string_copy_to)
     [TType NAVI_STRING, TType NAVI_FIXNUM, TType NAVI_STRING] ''string-copy!''"
| "string_spec B_substring = builtin_spec NAVI_PROCEDURE False 3 (StringB B_substring)
     [TType NAVI_STRING, TType NAVI_FIXNUM, TType NAVI_FIXNUM] ''substring''"

primrec special_spec :: "special_builtin \<Rightarrow> proc_spec" where
  "special_spec B_lambda = builtin_spec NAVI_SPECIAL True 2 (SpecialB B_lambda)
     [TAny, TAny] ''lambda''"
| "special_spec B_caselambda = builtin_spec NAVI_SPECIAL True 1 (SpecialB B_caselambda)
     [TAny] ''case-lambda''"
| "special_spec B_begin = builtin_spec NAVI_SPECIAL True 1 (SpecialB B_begin)
     [TAny] ''begin''"
| "special_spec B_quote = builtin_spec NAVI_SPECIAL False 1 (SpecialB B_quote)
     [TAny] ''quote''"
| "special_spec B_unquote = builtin_spec NAVI_SPECIAL False 1 (SpecialB B_unquote)
     [TAny] ''unquote''"
| "special_spec B_quasiquote = builtin_spec NAVI_SPECIAL False 1 (SpecialB B_quasiquote)
     [TAny] ''quasiquote''"
| "special_spec B_case = builtin_spec NAVI_SPECIAL True 2 (SpecialB B_case)
     [TAny, TAny] ''case''"
| "special_spec B_cond = builtin_spec NAVI_SPECIAL True 1 (SpecialB B_cond)
     [TAny] ''cond''"
| "special_spec B_if = builtin_spec NAVI_SPECIAL True 2 (SpecialB B_if)
     [TAny, TAny] ''if''"
| "special_spec B_and = builtin_spec NAVI_SPECIAL True 0 (SpecialB B_and)
     [] ''and''"
| "special_spec B_or = builtin_spec NAVI_SPECIAL True 0 (SpecialB B_or)
     [] ''or''"
| "special_spec B_delay = builtin_spec NAVI_SPECIAL False 1 (SpecialB B_delay)
     [TAny] ''delay''"
| "special_spec B_define = builtin_spec NAVI_SPECIAL True 2 (SpecialB B_define)
     [TAny, TAny] ''define''"
| "special_spec B_define_syntax = builtin_spec NAVI_SPECIAL False 2 (SpecialB B_define_syntax)
     [TType NAVI_SYMBOL, TAny] ''define-syntax''"
| "special_spec B_define_values = builtin_spec NAVI_SPECIAL False 2 (SpecialB B_define_values)
     [TProperList, TAny] ''define-values''"
| "special_spec B_defmacro = builtin_spec NAVI_SPECIAL True 2 (SpecialB B_defmacro)
     [TType NAVI_PAIR, TAny] ''defmacro''"
| "special_spec B_let = builtin_spec NAVI_SPECIAL True 2 (SpecialB B_let)
     [TAny, TAny] ''let''"
| "special_spec B_sequential_let = builtin_spec NAVI_SPECIAL True 2 (SpecialB B_sequential_let)
     [TAny, TAny] ''let*''"
| "special_spec B_let_values = builtin_spec NAVI_SPECIAL True 2 (SpecialB B_let_values)
     [TAny, TAny] ''let-values''"
| "special_spec B_set = builtin_spec NAVI_SPECIAL False 2 (SpecialB B_set)
     [TType NAVI_SYMBOL, TAny] ''set!''"
| "special_spec B_parameterize = builtin_spec NAVI_SPECIAL True 2 (SpecialB B_parameterize)
     [TAny, TAny] ''parameterize''"
| "special_spec B_include = builtin_spec NAVI_SPECIAL True 1 (SpecialB B_include)
     [TAny] ''include''"
| "special_spec B_include_ci = builtin_spec NAVI_SPECIAL True 1 (SpecialB B_include_ci)
     [TAny] ''include-ci''"
| "special_spec B_define_library = builtin_spec NAVI_SPECIAL True 2 (SpecialB B_define_library)
     [TAny, TAny] ''define-library''"
| "special_spec B_import = builtin_spec NAVI_SPECIAL True 1 (SpecialB B_import)
     [TAny] ''import''"

primrec control_spec :: "control_builtin \<Rightarrow> proc_spec" where
  "control_spec B_force = builtin_spec NAVI_PROCEDURE False 1 (ControlB B_force)
     [TType NAVI_PROCEDURE] ''force''"
| "control_spec B_eval = builtin_spec NAVI_PROCEDURE False 1 (ControlB B_eval)
     [TAny] ''eval''"
| "control_spec B_procedurep = builtin_spec NAVI_PROCEDURE False 1 (ControlB B_procedurep)
     [TAny] ''procedure?''"
| "control_spec B_apply = builtin_spec NAVI_PROCEDURE True 2 (ControlB B_apply)
     [TType NAVI_PROCEDURE, TAny] ''apply''"
| "control_spec B_call_ec = builtin_spec NAVI_PROCEDURE False 1 (ControlB B_call_ec)
     [TType NAVI_PROCEDURE] ''call/ec''"
| "control_spec B_values = builtin_spec NAVI_PROCEDURE True 1 (ControlB B_values)
     [TAny] ''values''"
| "control_spec B_call_with_values = builtin_spec NAVI_PROCEDURE False 2 (ControlB B_call_with_values)
     [TType NAVI_PROCEDURE, TType NAVI_PROCEDURE] ''call-with-values''"
| "control_spec B_with_exception_handler = builtin_spec NAVI_PROCEDURE False 2 (ControlB B_with_exception_handler)
     [TType NAVI_PROCEDURE, TType NAVI_PROCEDURE] ''with-exception-handler''"
| "control_spec B_raise = builtin_spec NAVI_PROCEDURE False 1 (ControlB B_raise)
     [TAny] ''raise''"
| "control_spec B_raise_continuable = builtin_spec NAVI_PROCEDURE False 1 (ControlB B_raise_continuable)
     [TAny] ''raise-continuable''"
| "control_spec B_error = builtin_spec NAVI_PROCEDURE True 1 (ControlB B_error)
     [TType NAVI_STRING] ''error''"
| "control_spec B_error_objectp = builtin_spec NAVI_PROCEDURE False 1 (ControlB B_error_objectp)
     [TAny] ''error-object?''"
| "control_spec B_error_object_message = builtin_spec NAVI_PROCEDURE False 1 (ControlB B_error_object_message)
     [TAny] ''error-object-message''"
| "control_spec B_error_object_irritants = builtin_spec NAVI_PROCEDURE False 1 (ControlB B_error_object_irritants)
     [TAny] ''error-object-irritants''"
| "control_spec B_read_errorp = builtin_spec NAVI_PROCEDURE False 1 (ControlB B_read_errorp)
     [TAny] ''read-error?''"
| "control_spec B_promisep = builtin_spec NAVI_PROCEDURE False 1 (ControlB B_promisep)
     [TAny] ''promise?''"
| "control_spec B_make_promise = builtin_spec NAVI_PROCEDURE False 1 (ControlB B_make_promise)
     [TAny] ''make-promise''"
| "control_spec B_make_parameter = builtin_spec NAVI_PROCEDURE True 1 (ControlB B_make_parameter)
     [TAny] ''make-parameter''"
| "control_spec B_eqvp = builtin_spec NAVI_PROCEDURE False 2 (ControlB B_eqvp)
     [TAny, TAny] ''eqv?''"
| "control_spec B_eqp = builtin_spec NAVI_PROCEDURE False 2 (ControlB B_eqp)
     [TAny, TAny] ''eq?''"
| "control_spec B_equalp = builtin_spec NAVI_PROCEDURE False 2 (ControlB B_equalp)
     [TAny, TAny] ''equal?''"
| "control_spec B_gensym = builtin_spec NAVI_PROCEDURE False 0 (ControlB B_gensym)
     [] ''gensym''"
| "control_spec B_toplevel_exn = builtin_spec NAVI_PROCEDURE False 1 (ControlB B_toplevel_exn)
     [TAny] ''#exn''"
| "control_spec B_check_exception_handler =
     builtin_spec NAVI_PROCEDURE False 1 (ControlB B_check_exception_handler)
     [TType NAVI_PROCEDURE] ''#check-exception-handler''"

primrec port_spec :: "port_builtin \<Rightarrow> proc_spec" where
  "port_spec B_input_portp = builtin_spec NAVI_PROCEDURE False 1 (PortB B_input_portp)
     [TAny] ''input-port?''"
| "port_spec B_output_portp = builtin_spec NAVI_PROCEDURE False 1 (PortB B_output_portp)
     [TAny] ''output-port?''"
| "port_spec B_portp = builtin_spec NAVI_PROCEDURE False 1 (PortB B_portp)
     [TAny] ''port?''"
| "port_spec B_input_port_openp = builtin_spec NAVI_PROCEDURE False 1 (PortB B_input_port_openp)
     [TType NAVI_PORT] ''input-port-open?''"
| "port_spec B_output_port_openp = builtin_spec NAVI_PROCEDURE False 1 (PortB B_output_port_openp)
     [TType NAVI_PORT] ''output-port-open?''"
| "port_spec B_check_input_port = builtin_spec NAVI_PROCEDURE False 1 (PortB B_check_input_port)
     [TType NAVI_PORT] ''#check-input-port''"
| "port_spec B_check_output_port = builtin_spec NAVI_PROCEDURE False 1 (PortB B_check_output_port)
     [TType NAVI_PORT] ''#check-output-port''"
| "port_spec B_open_input_string = builtin_spec NAVI_PROCEDURE False 1 (PortB B_open_input_string)
     [TType NAVI_STRING] ''open-input-string''"
| "port_spec B_open_output_string = builtin_spec NAVI_PROCEDURE False 0 (PortB B_open_output_string)
     [] ''open-output-string''"
| "port_spec B_get_output_string = builtin_spec NAVI_PROCEDURE False 1 (PortB B_get_output_string)
     [TType NAVI_PORT] ''get-output-string''"
| "port_spec B_close_port = builtin_spec NAVI_PROCEDURE False 1 (PortB B_close_port)
     [TType NAVI_PORT] ''close-port''"
| "port_spec B_close_input_port = builtin_spec NAVI_PROCEDURE False 1 (PortB B_close_input_port)
     [TType NAVI_PORT] ''close-input-port''"
| "port_spec B_close_output_port = builtin_spec NAVI_PROCEDURE False 1 (PortB B_close_output_port)
     [TType NAVI_PORT] ''close-output-port''"
| "port_spec B_eof_objectp = builtin_spec NAVI_PROCEDURE False 1 (PortB B_eof_objectp)
     [TAny] ''eof-object?''"
| "port_spec B_eof_object = builtin_spec NAVI_PROCEDURE False 0 (PortB B_eof_object)
     [] ''eof-object''"
| "port_spec B_read_u8 = builtin_spec NAVI_PROCEDURE True 0 (PortB B_read_u8)
     [] ''read-u8''"
| "port_spec B_peek_u8 = builtin_spec NAVI_PROCEDURE True 0 (PortB B_peek_u8)
     [] ''peek-u8''"
| "port_spec B_read_char = builtin_spec NAVI_PROCEDURE True 0 (PortB B_read_char)
     [] ''read-char''"
| "port_spec B_peek_char = builtin_spec NAVI_PROCEDURE True 0 (PortB B_peek_char)
     [] ''peek-char''"
| "port_spec B_read = builtin_spec NAVI_PROCEDURE True 0 (PortB B_read)
     [] ''read''"
| "port_spec B_write_u8 = builtin_spec NAVI_PROCEDURE True 1 (PortB B_write_u8)
     [TByte] ''write-u8''"
| "port_spec B_write_char = builtin_spec NAVI_PROCEDURE True 1 (PortB B_write_char)
     [TType NAVI_CHAR] ''write-char''"
| "port_spec B_write_string = builtin_spec NAVI_PROCEDURE True 1 (PortB B_write_string)
     [TType NAVI_STRING] ''write-string''"
| "port_spec B_display = builtin_spec NAVI_PROCEDURE True 1 (PortB B_display)
     [TAny] ''display''"
| "port_spec B_write = builtin_spec NAVI_PROCEDURE True 1 (PortB B_write)
     [TAny] ''write''"
| "port_spec B_newline = builtin_spec NAVI_PROCEDURE True 0 (PortB B_newline)
     [] ''newline''"
| "port_spec B_open_input_file = builtin_spec NAVI_PROCEDURE False 1 (PortB B_open_input_file)
     [TType NAVI_STRING] ''open-input-file''"
| "port_spec B_open_output_file = builtin_spec NAVI_PROCEDURE False 1 (PortB B_open_output_file)
     [TType NAVI_STRING] ''open-output-file''"

primrec system_spec :: "system_builtin \<Rightarrow> proc_spec" where
  "system_spec B_command_line = builtin_spec NAVI_PROCEDURE False 0 (SystemB B_command_line)
     [] ''command-line''"
| "system_spec B_emergency_exit = builtin_spec NAVI_PROCEDURE True 0 (SystemB B_emergency_exit)
     [] ''emergency-exit''"
| "system_spec B_exit = builtin_spec NAVI_PROCEDURE True 0 (SystemB B_exit)
     [] ''exit''"
| "system_spec B_get_environment_variable =
     builtin_spec NAVI_PROCEDURE False 1 (SystemB B_get_environment_variable)
     [TType NAVI_STRING] ''get-environment-variable''"
| "system_spec B_get_environment_variables =
     builtin_spec NAVI_PROCEDURE False 0 (SystemB B_get_environment_variables)
     [] ''get-environment-variables''"
| "system_spec B_current_second = builtin_spec NAVI_PROCEDURE False 0 (SystemB B_current_second)
     [] ''current-second''"
| "system_spec B_current_jiffy = builtin_spec NAVI_PROCEDURE False 0 (SystemB B_current_jiffy)
     [] ''current-jiffy''"
| "system_spec B_jiffies_per_second =
     builtin_spec NAVI_PROCEDURE False 0 (SystemB B_jiffies_per_second)
     [] ''jiffies-per-second''"

primrec spec_of :: "builtin \<Rightarrow> proc_spec" where
  "spec_of (ListB b) = list_spec b"
| "spec_of (ArithB b) = arith_spec b"
| "spec_of (VectorB b) = vector_spec b"
| "spec_of (BytevecB b) = bytevec_spec b"
| "spec_of (CharB b) = char_spec b"
| "spec_of (StringB b) = string_spec b"
| "spec_of (SpecialB b) = special_spec b"
| "spec_of (ControlB b) = control_spec b"
| "spec_of (PortB b) = port_spec b"
| "spec_of (SystemB b) = system_spec b"

text \<open>
  \<open>struct navi_spec\<close>: what \<open>DEFUN\<close>, \<open>DEFPARAM\<close>, \<open>DEFLIST\<close> and \<open>STRING_LITERAL\<close> declare, the
  standard streams with their \<open>init\<close> functions (the flag says input), and the constants that
  \<open>navi_from_spec\<close> knows.
\<close>

datatype navi_spec =
    Sp_Proc builtin
  | Sp_Param string navi_spec navi_spec
  | Sp_List string "navi_spec list"
  | Sp_Stream string nat bool
  | Sp_Eof | Sp_Nil | Sp_Fixnum int | Sp_Bool int | Sp_Char int
  | Sp_Pair navi_obj navi_obj
  | Sp_String string
  | Sp_Symbol string
  | Sp_Bytevec nat
  | Sp_Other navi_type

primrec spec_ident :: "navi_spec \<Rightarrow> string" where
  "spec_ident (Sp_Proc b) = sp_ident (spec_of b)"
| "spec_ident (Sp_Param ident value converter) = ident"
| "spec_ident (Sp_List ident elms) = ident"
| "spec_ident (Sp_Stream ident f input) = ident"
| "spec_ident Sp_Eof = []"
| "spec_ident Sp_Nil = []"
| "spec_ident (Sp_Fixnum num) = []"
| "spec_ident (Sp_Bool num) = []"
| "spec_ident (Sp_Char num) = []"
| "spec_ident (Sp_Pair x y) = []"
| "spec_ident (Sp_String str) = []"
| "spec_ident (Sp_Symbol str) = []"
| "spec_ident (Sp_Bytevec sz) = []"
| "spec_ident (Sp_Other type) = []"

definition list_from_spec :: "navi_obj nm list \<Rightarrow> navi_obj nm" where
  "list_from_spec elms =
     bind (foldM (\<lambda>elm b.
       bind (build_add b) (\<lambda>b'.
       bind elm (\<lambda>x.
       bind (build_set_car b' x) (\<lambda>_. ret b')))) elms None) (\<lambda>b.
     build_finish b navi_make_nil)"

fun navi_from_spec :: "evalf \<Rightarrow> applyf \<Rightarrow> navi_spec \<Rightarrow> navi_env \<Rightarrow> navi_obj nm" where
  "navi_from_spec ev ap (Sp_Proc b) env = proc_from_spec (spec_of b) env"
| "navi_from_spec ev ap (Sp_Param ident value converter) env =
     bind (navi_make_symbol ident) (\<lambda>name.
     bind (navi_from_spec ev ap value env) (\<lambda>v.
     bind (navi_from_spec ev ap converter env) (\<lambda>c.
     navi_make_named_parameter ev ap name v c env)))"
| "navi_from_spec ev ap (Sp_List ident elms) env =
     list_from_spec (map (\<lambda>elm. navi_from_spec ev ap elm env) elms)"
| "navi_from_spec ev ap (Sp_Stream ident f input) env =
     (if input then navi_make_file_input_port f else navi_make_file_output_port f)"
| "navi_from_spec ev ap Sp_Eof env = ret navi_make_eof"
| "navi_from_spec ev ap Sp_Nil env = ret navi_make_nil"
| "navi_from_spec ev ap (Sp_Fixnum num) env = ret (navi_make_fixnum num)"
| "navi_from_spec ev ap (Sp_Bool num) env = ret (navi_make_bool (num \<noteq> 0))"
| "navi_from_spec ev ap (Sp_Char num) env = ret (navi_make_char num)"
| "navi_from_spec ev ap (Sp_Pair x y) env = navi_make_pair x y"
| "navi_from_spec ev ap (Sp_String str) env = navi_cstr_to_string str"
| "navi_from_spec ev ap (Sp_Symbol str) env = navi_make_symbol str"
| "navi_from_spec ev ap (Sp_Bytevec sz) env = navi_make_bytevec (int sz)"
| "navi_from_spec ev ap (Sp_Other type) env = stop (Die ''navi_from_spec: unknown or unsupported type'')"

text \<open>The parameters; the standard streams have the numbers 0, 1 and 2.\<close>

definition current_exception_handler :: navi_spec where
  "current_exception_handler = Sp_Param ''#current-exception-handler''
     (Sp_Proc (ControlB B_toplevel_exn)) (Sp_Proc (ControlB B_check_exception_handler))"

definition current_input_port :: navi_spec where
  "current_input_port = Sp_Param ''current-input-port''
     (Sp_Stream ''#current-input-port'' 0 True) (Sp_Proc (PortB B_check_input_port))"

definition current_output_port :: navi_spec where
  "current_output_port = Sp_Param ''current-output-port''
     (Sp_Stream ''#current-output-port'' 1 False) (Sp_Proc (PortB B_check_output_port))"

definition current_error_port :: navi_spec where
  "current_error_port = Sp_Param ''current-error-port''
     (Sp_Stream ''#current-error-port'' 2 False) (Sp_Proc (PortB B_check_output_port))"

text \<open>The table \<open>builtin_objects\<close>, but for the entries that only print statistics.\<close>

definition builtin_objects :: "navi_spec list" where
  "builtin_objects =
     [current_exception_handler, Sp_Proc (SpecialB B_lambda), Sp_Proc (SpecialB B_caselambda),
      Sp_Proc (SpecialB B_define), Sp_Proc (SpecialB B_define_syntax),
      Sp_Proc (SpecialB B_define_values), Sp_Proc (SpecialB B_defmacro),
      Sp_Proc (SpecialB B_define_library), Sp_Proc (SpecialB B_import), Sp_Proc (SpecialB B_begin),
      Sp_Proc (SpecialB B_include), Sp_Proc (SpecialB B_include_ci), Sp_Proc (SpecialB B_let),
      Sp_Proc (SpecialB B_sequential_let), Sp_Proc (SpecialB B_let_values),
      Sp_Proc (SpecialB B_set), Sp_Proc (SpecialB B_quote), Sp_Proc (SpecialB B_unquote),
      Sp_Proc (SpecialB B_quasiquote), Sp_Proc (SpecialB B_case), Sp_Proc (SpecialB B_cond),
      Sp_Proc (SpecialB B_if), Sp_Proc (SpecialB B_and), Sp_Proc (SpecialB B_or),
      Sp_Proc (SpecialB B_delay), Sp_Proc (ControlB B_make_parameter),
      Sp_Proc (SpecialB B_parameterize), Sp_Proc (SystemB B_command_line),
      Sp_Proc (SystemB B_emergency_exit), Sp_Proc (SystemB B_exit),
      Sp_Proc (SystemB B_get_environment_variable), Sp_Proc (SystemB B_get_environment_variables),
      Sp_Proc (SystemB B_current_second), Sp_Proc (SystemB B_current_jiffy),
      Sp_Proc (SystemB B_jiffies_per_second), Sp_Proc (ControlB B_eqvp), Sp_Proc (ControlB B_eqp),
      Sp_Proc (ControlB B_equalp), Sp_Proc (ControlB B_eval), Sp_Proc (ControlB B_apply),
      Sp_Proc (ControlB B_force), Sp_Proc (ControlB B_promisep), Sp_Proc (ControlB B_make_promise),
      Sp_Proc (ControlB B_call_ec), Sp_Proc (ControlB B_values),
      Sp_Proc (ControlB B_call_with_values), Sp_Proc (ControlB B_with_exception_handler),
      Sp_Proc (ControlB B_raise), Sp_Proc (ControlB B_raise_continuable),
      Sp_Proc (ControlB B_error), Sp_Proc (ControlB B_error_objectp),
      Sp_Proc (ControlB B_error_object_message), Sp_Proc (ControlB B_error_object_irritants),
      Sp_Proc (ControlB B_read_errorp), Sp_Proc (ArithB B_add), Sp_Proc (ArithB B_sub),
      Sp_Proc (ArithB B_mul), Sp_Proc (ArithB B_div), Sp_Proc (ArithB B_quotient),
      Sp_Proc (ArithB B_remainder), Sp_Proc (ArithB B_lt), Sp_Proc (ArithB B_gt),
      Sp_Proc (ArithB B_lte), Sp_Proc (ArithB B_gte), Sp_Proc (ArithB B_numeq),
      Sp_Proc (ArithB B_zerop), Sp_Proc (ArithB B_positivep), Sp_Proc (ArithB B_negativep),
      Sp_Proc (ArithB B_oddp), Sp_Proc (ArithB B_evenp), Sp_Proc (ArithB B_number_to_string),
      Sp_Proc (ArithB B_string_to_number), Sp_Proc (ArithB B_not), Sp_Proc (ArithB B_booleanp),
      Sp_Proc (ArithB B_boolean_eq), Sp_Proc (CharB B_charp), Sp_Proc (CharB B_char_lt),
      Sp_Proc (CharB B_char_gt), Sp_Proc (CharB B_char_eq), Sp_Proc (CharB B_char_lte),
      Sp_Proc (CharB B_char_gte), Sp_Proc (CharB B_char_ci_lt), Sp_Proc (CharB B_char_ci_gt),
      Sp_Proc (CharB B_char_ci_eq), Sp_Proc (CharB B_char_ci_lte), Sp_Proc (CharB B_char_ci_gte),
      Sp_Proc (CharB B_char_upcase), Sp_Proc (CharB B_char_downcase), Sp_Proc (ListB B_cons),
      Sp_Proc (ListB B_car), Sp_Proc (ListB B_cdr), Sp_Proc (ListB B_set_car),
      Sp_Proc (ListB B_set_cdr), Sp_Proc (ListB B_pairp), Sp_Proc (ListB B_listp),
      Sp_Proc (ListB B_nullp), Sp_Proc (ListB B_list), Sp_Proc (ListB B_make_list),
      Sp_Proc (ListB B_length), Sp_Proc (ListB B_append), Sp_Proc (ListB B_reverse),
      Sp_Proc (ListB B_list_tail), Sp_Proc (ListB B_list_ref), Sp_Proc (ListB B_list_set),
      Sp_Proc (ListB B_memq), Sp_Proc (ListB B_memv), Sp_Proc (ListB B_member),
      Sp_Proc (ListB B_assq), Sp_Proc (ListB B_assv), Sp_Proc (ListB B_assoc),
      Sp_Proc (ListB B_list_copy), Sp_Proc (ListB B_for_each), Sp_Proc (ListB B_map),
      Sp_Proc (StringB B_stringp), Sp_Proc (StringB B_make_string),
      Sp_Proc (StringB B_string_length), Sp_Proc (StringB B_string),
      Sp_Proc (StringB B_string_ref), Sp_Proc (StringB B_string_set),
      Sp_Proc (StringB B_string_lt), Sp_Proc (StringB B_string_gt), Sp_Proc (StringB B_string_eq),
      Sp_Proc (StringB B_string_lte), Sp_Proc (StringB B_string_gte),
      Sp_Proc (StringB B_string_ci_lt), Sp_Proc (StringB B_string_ci_gt),
      Sp_Proc (StringB B_string_ci_eq), Sp_Proc (StringB B_string_ci_lte),
      Sp_Proc (StringB B_string_ci_gte), Sp_Proc (StringB B_string_upcase),
      Sp_Proc (StringB B_string_downcase), Sp_Proc (StringB B_string_foldcase),
      Sp_Proc (StringB B_substring), Sp_Proc (StringB B_string_append),
      Sp_Proc (StringB B_string_to_list), Sp_Proc (StringB B_list_to_string),
      Sp_Proc (StringB B_string_to_vector), Sp_Proc (StringB B_vector_to_string),
      Sp_Proc (StringB B_string_fill), Sp_Proc (StringB B_string_copy),
      Sp_Proc (StringB B_string_copy_to), Sp_Proc (VectorB B_vectorp),
      Sp_Proc (VectorB B_make_vector), Sp_Proc (VectorB B_vector),
      Sp_Proc (VectorB B_vector_length), Sp_Proc (VectorB B_vector_ref),
      Sp_Proc (VectorB B_vector_set), Sp_Proc (VectorB B_vector_to_list),
      Sp_Proc (VectorB B_list_to_vector), Sp_Proc (VectorB B_vector_fill),
      Sp_Proc (VectorB B_vector_copy), Sp_Proc (VectorB B_vector_copy_to),
      Sp_Proc (VectorB B_vector_for_each), Sp_Proc (VectorB B_vector_map),
      Sp_Proc (VectorB B_vector_map_ip), Sp_Proc (BytevecB B_bytevectorp),
      Sp_Proc (BytevecB B_make_bytevector), Sp_Proc (BytevecB B_bytevector),
      Sp_Proc (BytevecB B_bytevector_length), Sp_Proc (BytevecB B_bytevector_u8_ref),
      Sp_Proc (BytevecB B_bytevector_u8_set), Sp_Proc (BytevecB B_bytevector_append),
      Sp_Proc (BytevecB B_bytevector_copy), Sp_Proc (BytevecB B_bytevector_copy_to),
      Sp_Proc (BytevecB B_utf8_to_string), Sp_Proc (BytevecB B_string_to_utf8),
      Sp_Proc (PortB B_input_portp), Sp_Proc (PortB B_output_portp), Sp_Proc (PortB B_portp),
      Sp_Proc (PortB B_input_port_openp), Sp_Proc (PortB B_output_port_openp), current_input_port,
      current_output_port, current_error_port, Sp_Proc (PortB B_open_input_file),
      Sp_Proc (PortB B_open_output_file), Sp_Proc (PortB B_open_input_string),
      Sp_Proc (PortB B_open_output_string), Sp_Proc (PortB B_get_output_string),
      Sp_Proc (PortB B_close_port), Sp_Proc (PortB B_close_input_port),
      Sp_Proc (PortB B_close_output_port), Sp_Proc (PortB B_eof_objectp),
      Sp_Proc (PortB B_eof_object), Sp_Proc (PortB B_read_u8), Sp_Proc (PortB B_peek_u8),
      Sp_Proc (PortB B_read_char), Sp_Proc (PortB B_peek_char), Sp_Proc (PortB B_read),
      Sp_Proc (PortB B_write_u8), Sp_Proc (PortB B_write_char), Sp_Proc (PortB B_write_string),
      Sp_Proc (PortB B_write), Sp_Proc (PortB B_display), Sp_Proc (PortB B_newline),
      Sp_Proc (ControlB B_gensym)]"

text \<open>
  The internal scope binds the interned symbol of every entry of the table.  An entry the model
  leaves out has no value here.
\<close>

definition unmodelled_objects :: "string list" where
  "unmodelled_objects =
     [''env-list'', ''env-count'', ''env-show'', ''gc-collect'', ''gc-count'', ''gc-stats'']"

definition navi_get_internal :: "evalf \<Rightarrow> applyf \<Rightarrow> navi_obj \<Rightarrow> navi_env \<Rightarrow> navi_obj nm" where
  "navi_get_internal ev ap symbol env =
     (let unbound = navi_error env ''no internal binding'' [(''symbol'', IObj symbol)] in
      bind (navi_type symbol) (\<lambda>t.
      if t \<noteq> NAVI_SYMBOL then unbound
      else
        bind (navi_symbol symbol) (\<lambda>(name, interned).
        if \<not> interned then unbound
        else (case List.find (\<lambda>spec. spec_ident spec = name) builtin_objects of
            Some spec \<Rightarrow>
              bind (navi_get_global_env env) (\<lambda>global. navi_from_spec ev ap spec global)
          | None \<Rightarrow> if name \<in> set unmodelled_objects then stop Undef else unbound))))"

section \<open>The handler of the top level\<close>

text \<open>\<open>printf\<close> and \<open>putchar\<close> write to the standard output stream.\<close>

definition put_stdout :: "string \<Rightarrow> unit nm" where
  "put_stdout text = (\<lambda>st n. case streams st 1 of
       None \<Rightarrow> (Inl Undef, st)
     | Some s \<Rightarrow> (Inr (), st\<lparr>streams := (streams st)(1 \<mapsto> s\<lparr>written := written s @ map byte_of text\<rparr>)\<rparr>))"

definition navi_write :: "navi_obj \<Rightarrow> navi_env \<Rightarrow> unit nm" where
  "navi_write obj env = bind (navi_current_output_port env) (\<lambda>port. navi_port_write port obj env)"

definition scm_toplevel_exn :: "nat \<Rightarrow> navi_obj \<Rightarrow> navi_env \<Rightarrow> navi_obj nm" where
  "scm_toplevel_exn nr_args args env =
     bind (scm_arg1 args) (\<lambda>x.
     bind (navi_write x env) (\<lambda>_.
     bind (put_stdout [CHR 0x0A]) (\<lambda>_.
     bind (navi_env_lookup (lexical env) navi_sym_repl) (\<lambda>cont.
     bind (navi_type cont) (\<lambda>t.
     if t \<noteq> NAVI_ESCAPE then stop (Die ''#repl not bound to continuation'')
     else
       bind (proc_from_spec (spec_of (ControlB B_toplevel_exn)) env) (\<lambda>exn.
       bind (navi_scope_set (dynamic env) navi_sym_current_exn exn) (\<lambda>_.
       case cont of Ref a \<Rightarrow> stop (Longjmp a) | _ \<Rightarrow> stop Undef)))))))"

definition scm_check_exception_handler :: "nat \<Rightarrow> navi_obj \<Rightarrow> navi_env \<Rightarrow> navi_obj nm" where
  "scm_check_exception_handler nr_args args env =
     bind (scm_arg1 args) (\<lambda>x. bind (navi_check_arity x 1 env) (\<lambda>_. ret x))"

section \<open>The calls\<close>

primrec list_call :: "evalf \<Rightarrow> applyf \<Rightarrow> list_builtin \<Rightarrow> nat \<Rightarrow> navi_obj \<Rightarrow> navi_env \<Rightarrow> navi_obj nm" where
  "list_call ev ap B_cons = scm_cons"
| "list_call ev ap B_car = scm_car"
| "list_call ev ap B_cdr = scm_cdr"
| "list_call ev ap B_set_car = scm_set_car"
| "list_call ev ap B_set_cdr = scm_set_cdr"
| "list_call ev ap B_pairp = scm_pairp"
| "list_call ev ap B_nullp = scm_nullp"
| "list_call ev ap B_listp = scm_listp"
| "list_call ev ap B_make_list = scm_make_list"
| "list_call ev ap B_length = scm_length"
| "list_call ev ap B_list = scm_list"
| "list_call ev ap B_list_copy = scm_list_copy"
| "list_call ev ap B_append = scm_append"
| "list_call ev ap B_reverse = scm_reverse"
| "list_call ev ap B_list_tail = scm_list_tail"
| "list_call ev ap B_list_ref = scm_list_ref"
| "list_call ev ap B_list_set = scm_list_set"
| "list_call ev ap B_memq = scm_memq"
| "list_call ev ap B_memv = scm_memv"
| "list_call ev ap B_member = scm_member ev ap"
| "list_call ev ap B_assq = scm_assq"
| "list_call ev ap B_assv = scm_assv"
| "list_call ev ap B_assoc = scm_assoc ev ap"
| "list_call ev ap B_for_each = scm_for_each ev ap"
| "list_call ev ap B_map = scm_map ev ap"

primrec arith_call :: "evalf \<Rightarrow> applyf \<Rightarrow> arith_builtin \<Rightarrow> nat \<Rightarrow> navi_obj \<Rightarrow> navi_env \<Rightarrow> navi_obj nm" where
  "arith_call ev ap B_add = scm_add"
| "arith_call ev ap B_sub = scm_sub"
| "arith_call ev ap B_mul = scm_mul"
| "arith_call ev ap B_div = scm_div"
| "arith_call ev ap B_quotient = scm_quotient"
| "arith_call ev ap B_remainder = scm_remainder"
| "arith_call ev ap B_lt = scm_lt"
| "arith_call ev ap B_gt = scm_gt"
| "arith_call ev ap B_lte = scm_lte"
| "arith_call ev ap B_gte = scm_gte"
| "arith_call ev ap B_numeq = scm_numeq"
| "arith_call ev ap B_zerop = scm_zerop"
| "arith_call ev ap B_positivep = scm_positivep"
| "arith_call ev ap B_negativep = scm_negativep"
| "arith_call ev ap B_oddp = scm_oddp"
| "arith_call ev ap B_evenp = scm_evenp"
| "arith_call ev ap B_number_to_string = scm_number_to_string"
| "arith_call ev ap B_string_to_number = scm_string_to_number"
| "arith_call ev ap B_not = scm_not"
| "arith_call ev ap B_booleanp = scm_booleanp"
| "arith_call ev ap B_boolean_eq = scm_boolean_eq"

primrec vector_call :: "evalf \<Rightarrow> applyf \<Rightarrow> vector_builtin \<Rightarrow> nat \<Rightarrow> navi_obj \<Rightarrow> navi_env \<Rightarrow> navi_obj nm" where
  "vector_call ev ap B_vectorp = scm_vectorp"
| "vector_call ev ap B_make_vector = scm_make_vector"
| "vector_call ev ap B_vector = scm_vector"
| "vector_call ev ap B_vector_length = scm_vector_length"
| "vector_call ev ap B_vector_ref = scm_vector_ref"
| "vector_call ev ap B_vector_set = scm_vector_set"
| "vector_call ev ap B_vector_to_list = scm_vector_to_list"
| "vector_call ev ap B_list_to_vector = scm_list_to_vector"
| "vector_call ev ap B_vector_fill = scm_vector_fill"
| "vector_call ev ap B_vector_copy = scm_vector_copy"
| "vector_call ev ap B_vector_copy_to = scm_vector_copy_to"
| "vector_call ev ap B_vector_map_ip = scm_vector_map_ip ev"
| "vector_call ev ap B_vector_for_each = scm_vector_for_each ev ap"
| "vector_call ev ap B_vector_map = scm_vector_map ev ap"

primrec bytevec_call :: "evalf \<Rightarrow> applyf \<Rightarrow> bytevec_builtin \<Rightarrow> nat \<Rightarrow> navi_obj \<Rightarrow> navi_env \<Rightarrow> navi_obj nm" where
  "bytevec_call ev ap B_bytevectorp = scm_bytevectorp"
| "bytevec_call ev ap B_make_bytevector = scm_make_bytevector"
| "bytevec_call ev ap B_bytevector = scm_bytevector"
| "bytevec_call ev ap B_bytevector_length = scm_bytevector_length"
| "bytevec_call ev ap B_bytevector_u8_ref = scm_bytevector_u8_ref"
| "bytevec_call ev ap B_bytevector_u8_set = scm_bytevector_u8_set"
| "bytevec_call ev ap B_bytevector_append = scm_bytevector_append"
| "bytevec_call ev ap B_bytevector_copy = scm_bytevector_copy"
| "bytevec_call ev ap B_bytevector_copy_to = scm_bytevector_copy_to"
| "bytevec_call ev ap B_utf8_to_string = scm_utf8_to_string"
| "bytevec_call ev ap B_string_to_utf8 = scm_string_to_utf8"

primrec char_call :: "evalf \<Rightarrow> applyf \<Rightarrow> char_builtin \<Rightarrow> nat \<Rightarrow> navi_obj \<Rightarrow> navi_env \<Rightarrow> navi_obj nm" where
  "char_call ev ap B_charp = scm_charp"
| "char_call ev ap B_char_lt = scm_char_lt"
| "char_call ev ap B_char_gt = scm_char_gt"
| "char_call ev ap B_char_eq = scm_char_eq"
| "char_call ev ap B_char_lte = scm_char_lte"
| "char_call ev ap B_char_gte = scm_char_gte"
| "char_call ev ap B_char_ci_lt = scm_char_ci_lt"
| "char_call ev ap B_char_ci_gt = scm_char_ci_gt"
| "char_call ev ap B_char_ci_eq = scm_char_ci_eq"
| "char_call ev ap B_char_ci_lte = scm_char_ci_lte"
| "char_call ev ap B_char_ci_gte = scm_char_ci_gte"
| "char_call ev ap B_char_upcase = scm_char_upcase"
| "char_call ev ap B_char_downcase = scm_char_downcase"

primrec string_call :: "evalf \<Rightarrow> applyf \<Rightarrow> string_builtin \<Rightarrow> nat \<Rightarrow> navi_obj \<Rightarrow> navi_env \<Rightarrow> navi_obj nm" where
  "string_call ev ap B_stringp = scm_stringp"
| "string_call ev ap B_make_string = scm_make_string"
| "string_call ev ap B_string = scm_string"
| "string_call ev ap B_string_length = scm_string_length"
| "string_call ev ap B_string_ref = scm_string_ref"
| "string_call ev ap B_string_set = scm_string_set"
| "string_call ev ap B_string_lt = scm_string_lt"
| "string_call ev ap B_string_gt = scm_string_gt"
| "string_call ev ap B_string_eq = scm_string_eq"
| "string_call ev ap B_string_lte = scm_string_lte"
| "string_call ev ap B_string_gte = scm_string_gte"
| "string_call ev ap B_string_ci_lt = scm_string_ci_lt"
| "string_call ev ap B_string_ci_gt = scm_string_ci_gt"
| "string_call ev ap B_string_ci_eq = scm_string_ci_eq"
| "string_call ev ap B_string_ci_lte = scm_string_ci_lte"
| "string_call ev ap B_string_ci_gte = scm_string_ci_gte"
| "string_call ev ap B_string_upcase = scm_string_upcase"
| "string_call ev ap B_string_downcase = scm_string_downcase"
| "string_call ev ap B_string_foldcase = scm_string_foldcase"
| "string_call ev ap B_string_append = scm_string_append"
| "string_call ev ap B_string_to_list = scm_string_to_list"
| "string_call ev ap B_list_to_string = scm_list_to_string"
| "string_call ev ap B_string_to_vector = scm_string_to_vector"
| "string_call ev ap B_vector_to_string = scm_vector_to_string"
| "string_call ev ap B_string_fill = scm_string_fill"
| "string_call ev ap B_string_copy = scm_string_copy"
| "string_call ev ap B_string_copy_to = scm_string_copy_to"
| "string_call ev ap B_substring = scm_substring"

primrec special_call :: "evalf \<Rightarrow> applyf \<Rightarrow> special_builtin \<Rightarrow> nat \<Rightarrow> navi_obj \<Rightarrow> navi_env \<Rightarrow> navi_obj nm" where
  "special_call ev ap B_lambda = scm_lambda"
| "special_call ev ap B_caselambda = scm_caselambda"
| "special_call ev ap B_begin = scm_begin ev"
| "special_call ev ap B_quote = scm_quote"
| "special_call ev ap B_unquote = scm_unquote ev"
| "special_call ev ap B_quasiquote = scm_quasiquote ev"
| "special_call ev ap B_case = scm_case ev"
| "special_call ev ap B_cond = scm_cond ev"
| "special_call ev ap B_if = scm_if ev"
| "special_call ev ap B_and = scm_and ev"
| "special_call ev ap B_or = scm_or ev"
| "special_call ev ap B_delay = scm_delay"
| "special_call ev ap B_define = scm_define ev"
| "special_call ev ap B_define_syntax = scm_define_syntax ev"
| "special_call ev ap B_define_values = scm_define_values ev"
| "special_call ev ap B_defmacro = scm_defmacro"
| "special_call ev ap B_let = scm_let ev"
| "special_call ev ap B_sequential_let = scm_sequential_let ev"
| "special_call ev ap B_let_values = scm_let_values ev"
| "special_call ev ap B_set = scm_set ev"
| "special_call ev ap B_parameterize = scm_parameterize ev ap"
| "special_call ev ap B_include = scm_include (navi_get_internal ev ap) ev"
| "special_call ev ap B_include_ci = scm_include_ci (navi_get_internal ev ap) ev"
| "special_call ev ap B_define_library = scm_define_library"
| "special_call ev ap B_import = scm_import (navi_get_internal ev ap) ev"

primrec control_call :: "evalf \<Rightarrow> applyf \<Rightarrow> control_builtin \<Rightarrow> nat \<Rightarrow> navi_obj \<Rightarrow> navi_env \<Rightarrow> navi_obj nm" where
  "control_call ev ap B_force = scm_force ev"
| "control_call ev ap B_eval = scm_eval ev"
| "control_call ev ap B_procedurep = scm_procedurep"
| "control_call ev ap B_apply = scm_apply ap"
| "control_call ev ap B_call_ec = scm_call_ec ev ap"
| "control_call ev ap B_values = scm_values"
| "control_call ev ap B_call_with_values = scm_call_with_values ev"
| "control_call ev ap B_with_exception_handler = scm_with_exception_handler ap"
| "control_call ev ap B_raise = scm_raise"
| "control_call ev ap B_raise_continuable = scm_raise_continuable ap"
| "control_call ev ap B_error = scm_error"
| "control_call ev ap B_error_objectp = scm_error_objectp"
| "control_call ev ap B_error_object_message = scm_error_object_message"
| "control_call ev ap B_error_object_irritants = scm_error_object_irritants"
| "control_call ev ap B_read_errorp = scm_read_errorp"
| "control_call ev ap B_promisep = scm_promisep"
| "control_call ev ap B_make_promise = scm_make_promise"
| "control_call ev ap B_make_parameter = scm_make_parameter ev ap"
| "control_call ev ap B_eqvp = scm_eqvp"
| "control_call ev ap B_eqp = scm_eqp"
| "control_call ev ap B_equalp = scm_equalp"
| "control_call ev ap B_gensym = scm_gensym"
| "control_call ev ap B_toplevel_exn = scm_toplevel_exn"
| "control_call ev ap B_check_exception_handler = scm_check_exception_handler"

primrec port_call :: "evalf \<Rightarrow> applyf \<Rightarrow> port_builtin \<Rightarrow> nat \<Rightarrow> navi_obj \<Rightarrow> navi_env \<Rightarrow> navi_obj nm" where
  "port_call ev ap B_input_portp = scm_input_portp"
| "port_call ev ap B_output_portp = scm_output_portp"
| "port_call ev ap B_portp = scm_portp"
| "port_call ev ap B_input_port_openp = scm_input_port_openp"
| "port_call ev ap B_output_port_openp = scm_output_port_openp"
| "port_call ev ap B_check_input_port = scm_check_input_port"
| "port_call ev ap B_check_output_port = scm_check_output_port"
| "port_call ev ap B_open_input_string = scm_open_input_string"
| "port_call ev ap B_open_output_string = scm_open_output_string"
| "port_call ev ap B_get_output_string = scm_get_output_string"
| "port_call ev ap B_close_port = scm_close_port"
| "port_call ev ap B_close_input_port = scm_close_input_port"
| "port_call ev ap B_close_output_port = scm_close_output_port"
| "port_call ev ap B_eof_objectp = scm_eof_objectp"
| "port_call ev ap B_eof_object = scm_eof_object"
| "port_call ev ap B_read_u8 = scm_read_u8"
| "port_call ev ap B_peek_u8 = scm_peek_u8"
| "port_call ev ap B_read_char = scm_read_char"
| "port_call ev ap B_peek_char = scm_peek_char"
| "port_call ev ap B_read = scm_read (navi_get_internal ev ap)"
| "port_call ev ap B_write_u8 = scm_write_u8"
| "port_call ev ap B_write_char = scm_write_char"
| "port_call ev ap B_write_string = scm_write_string"
| "port_call ev ap B_display = scm_display"
| "port_call ev ap B_write = scm_write"
| "port_call ev ap B_newline = scm_newline"
| "port_call ev ap B_open_input_file = scm_open_input_file"
| "port_call ev ap B_open_output_file = scm_open_output_file"

primrec system_call :: "evalf \<Rightarrow> applyf \<Rightarrow> system_builtin \<Rightarrow> nat \<Rightarrow> navi_obj \<Rightarrow> navi_env \<Rightarrow> navi_obj nm" where
  "system_call ev ap B_command_line = scm_command_line"
| "system_call ev ap B_emergency_exit = scm_emergency_exit"
| "system_call ev ap B_exit = scm_exit"
| "system_call ev ap B_get_environment_variable = scm_get_environment_variable"
| "system_call ev ap B_get_environment_variables = scm_get_environment_variables"
| "system_call ev ap B_current_second = scm_current_second"
| "system_call ev ap B_current_jiffy = scm_current_jiffy"
| "system_call ev ap B_jiffies_per_second = scm_jiffies_per_second"

primrec call_builtin :: "evalf \<Rightarrow> applyf \<Rightarrow> builtin \<Rightarrow> nat \<Rightarrow> navi_obj \<Rightarrow> navi_env \<Rightarrow> navi_obj nm" where
  "call_builtin ev ap (ListB b) = list_call ev ap b"
| "call_builtin ev ap (ArithB b) = arith_call ev ap b"
| "call_builtin ev ap (VectorB b) = vector_call ev ap b"
| "call_builtin ev ap (BytevecB b) = bytevec_call ev ap b"
| "call_builtin ev ap (CharB b) = char_call ev ap b"
| "call_builtin ev ap (StringB b) = string_call ev ap b"
| "call_builtin ev ap (SpecialB b) = special_call ev ap b"
| "call_builtin ev ap (ControlB b) = control_call ev ap b"
| "call_builtin ev ap (PortB b) = port_call ev ap b"
| "call_builtin ev ap (SystemB b) = system_call ev ap b"

section \<open>Evaluation and application\<close>

primrec interp :: "nat \<Rightarrow> evalf \<times> applyf" where
  "interp 0 = (\<lambda>_ _. stop NoFuel, \<lambda>_ _ _. stop NoFuel)"
| "interp (Suc k) =
     (let (ev, ap) = interp k in
      (navi_eval_body ev ap, navi_apply_body ev (call_builtin ev ap)))"

definition navi_eval :: "navi_obj \<Rightarrow> navi_env \<Rightarrow> navi_obj nm" where
  "navi_eval expr env = (\<lambda>st n. fst (interp n) expr env st n)"

definition navi_apply_proc :: "navi_procedure \<Rightarrow> navi_obj \<Rightarrow> navi_env \<Rightarrow> navi_obj nm" where
  "navi_apply_proc proc args env = (\<lambda>st n. snd (interp n) proc args env st n)"

text \<open>
  Evaluation by the outermost frame: errors run the handler, and a jump to an escape whose
  frame is gone has no meaning.
\<close>

definition toplevel_eval :: "navi_obj \<Rightarrow> navi_env \<Rightarrow> navi_obj nm" where
  "toplevel_eval expr env = (\<lambda>st n.
     case settle navi_eval navi_apply_proc (navi_eval expr env) st n of
       (Inl (Longjmp a), st') \<Rightarrow> (Inl Undef, st')
     | r \<Rightarrow> r)"

section \<open>Environments\<close>

text \<open>One binding, as the macro \<open>IMPORT\<close> makes it.\<close>

definition import_spec :: "navi_spec \<Rightarrow> navi_env \<Rightarrow> sid \<Rightarrow> unit nm" where
  "import_spec spec env scope =
     bind (navi_make_symbol (spec_ident spec)) (\<lambda>symbol.
     bind (navi_from_spec navi_eval navi_apply_proc spec env) (\<lambda>object.
     navi_scope_set scope symbol object))"

text \<open>\<open>datadir\<close> is \<open>DATADIR\<close>, which the build defines.\<close>

definition lib_search_paths :: "string \<Rightarrow> navi_spec" where
  "lib_search_paths datadir = Sp_List ''#lib-search-paths'' [Sp_String (datadir @ ''/navi'')]"

definition navi_empty_environment :: "string \<Rightarrow> navi_env nm" where
  "navi_empty_environment datadir =
     bind navi_empty_environment_raw (\<lambda>env.
     bind (import_spec (Sp_Proc (SpecialB B_import)) env (lexical env)) (\<lambda>_.
     bind (import_spec (lib_search_paths datadir) env (dynamic env)) (\<lambda>_.
     ret env)))"

definition sym_pair :: "string \<Rightarrow> navi_obj nm" where
  "sym_pair str = bind (navi_make_symbol str) (\<lambda>s. navi_make_pair s navi_make_nil)"

definition make_libname :: "string list \<Rightarrow> navi_obj nm" where
  "make_libname strs =
     bind (sym_pair (hd strs)) (\<lambda>head.
     bind (foldM (\<lambda>str cons.
       bind (sym_pair str) (\<lambda>p.
       bind (navi_set_cdr cons p) (\<lambda>_. navi_cdr cons))) (tl strs) head) (\<lambda>_.
     ret head))"

primrec make_libnames :: "string list list \<Rightarrow> navi_obj list nm" where
  "make_libnames [] = ret []"
| "make_libnames (name # names) =
     bind (make_libname name) (\<lambda>x. bind (make_libnames names) (\<lambda>xs. ret (x # xs)))"

definition interaction_libraries :: "string list list" where
  "interaction_libraries =
     [[''scheme'', ''base''], [''scheme'', ''case-lambda''], [''scheme'', ''char''],
      [''scheme'', ''lazy''], [''scheme'', ''read''], [''scheme'', ''write''],
      [''scheme'', ''process-context''], [''scheme'', ''time'']]"

text \<open>\<open>navi_list\<close> ends its arguments with a void object.\<close>

definition navi_interaction_environment :: "navi_env \<Rightarrow> navi_env nm" where
  "navi_interaction_environment env =
     bind (make_libnames interaction_libraries) (\<lambda>names.
     bind (navi_vlist (hd names) (tl names @ [navi_make_void])) (\<lambda>libs.
     bind (navi_import (navi_get_internal navi_eval navi_apply_proc) navi_eval libs env) (\<lambda>_.
     bind (navi_from_spec navi_eval navi_apply_proc current_exception_handler env) (\<lambda>exn.
     bind (navi_scope_set (lexical env) navi_sym_current_exn exn) (\<lambda>_.
     ret env)))))"

section \<open>Programs and the interactive loop\<close>

text \<open>
  \<open>program\<close> evaluates a file to its end; a value that is the end-of-file object ends it too.
\<close>

abbreviation internal_of_eval :: readf where
  "internal_of_eval \<equiv> navi_get_internal navi_eval navi_apply_proc"

primrec program_rounds :: "nat \<Rightarrow> navi_obj \<Rightarrow> navi_env \<Rightarrow> unit nm" where
  "program_rounds 0 port env = stop NoFuel"
| "program_rounds (Suc k) port env =
     bind (navi_read internal_of_eval port env) (\<lambda>expr.
     bind (navi_eval expr env) (\<lambda>v.
     bind (navi_is_eof v) (\<lambda>e. if e then ret () else program_rounds k port env)))"

definition program :: "string list \<Rightarrow> navi_obj \<Rightarrow> navi_env \<Rightarrow> unit nm" where
  "program argv port env =
     bind (navi_gc_guard port env) (\<lambda>guard.
     bind (navi_set_command_line argv env) (\<lambda>_.
     bind (\<lambda>st n. program_rounds n port env st n) (\<lambda>_.
     navi_gc_unguard guard)))"

text \<open>
  One round of \<open>repl\<close>: \<open>True\<close> when the input ended.  A word that is zero would start the next
  round, but no value is one.
\<close>

definition repl_round :: "int \<Rightarrow> navi_env \<Rightarrow> bool nm" where
  "repl_round i env =
     bind (put_stdout (''#;'' @ fmt_ld i @ ''> '')) (\<lambda>_.
     bind (navi_current_input_port env) (\<lambda>port.
     bind (navi_read internal_of_eval port env) (\<lambda>expr.
     bind (navi_is_eof expr) (\<lambda>e.
     if e then ret True
     else bind (navi_eval expr env) (\<lambda>v.
          bind (navi_write v env) (\<lambda>_.
          bind (navi_is_void v) (\<lambda>b.
          bind (if \<not> b then put_stdout [CHR 0x0A] else ret ()) (\<lambda>_.
          ret False))))))))"

text \<open>
  A jump to the escape of the loop comes back to the \<open>setjmp\<close> of the round, which counts the round
  and starts over; errors run the handler at this frame.
\<close>

primrec repl_rounds :: "nat \<Rightarrow> int \<Rightarrow> addr \<Rightarrow> navi_env \<Rightarrow> 'a nm" where
  "repl_rounds 0 i cont env = stop NoFuel"
| "repl_rounds (Suc k) i cont env = (\<lambda>st n.
     case settle navi_eval navi_apply_proc (repl_round i env) st n of
       (Inl (Longjmp a), st') \<Rightarrow>
         if a = cont then repl_rounds k (i + 1) cont env st' n else (Inl Undef, st')
     | (Inl x, st') \<Rightarrow> (Inl x, st')
     | (Inr ended, st') \<Rightarrow>
         (if ended then bind (put_stdout [CHR 0x0A]) (\<lambda>_. stop (ExitWith 0))
          else repl_rounds k (i + 1) cont env) st' n)"

definition repl :: "navi_env \<Rightarrow> 'a nm" where
  "repl options_env =
     bind (navi_interaction_environment options_env) (\<lambda>env.
     bind navi_make_escape (\<lambda>cont.
     bind (navi_scope_set (lexical env) navi_sym_repl cont) (\<lambda>_.
     case cont of Ref a \<Rightarrow> (\<lambda>st n. repl_rounds n 0 a env st n) | _ \<Rightarrow> stop Undef)))"

end
