(* ===== verification/Spec_Base.thy ===== *)
theory Spec_Base
  imports Navi_Interp
begin

text \<open>
  States given by the list of their heap objects, on which the general theorems of the
  specification theories are applied to concrete inputs, and the facts those theories share:
  what an argument list holds and how the accessors of the arguments read it.
\<close>

section \<open>Concrete states\<close>

definition heap_of :: "navi_object list \<Rightarrow> state" where
  "heap_of obs = empty_state
     \<lparr>heap := (\<lambda>a. if a < length obs then Some (obs ! a) else None), hp_next := length obs\<rparr>"

abbreviation pair_ob :: "navi_obj \<Rightarrow> navi_obj \<Rightarrow> navi_object" where
  "pair_ob x y \<equiv> \<lparr>obj_type = NAVI_PAIR, obj_data = PPair x y\<rparr>"

lemma heap_heap_of [simp]: "heap (heap_of obs) a = (if a < length obs then Some (obs ! a) else None)"
  by (simp add: heap_of_def)

lemma hp_next_heap_of [simp]: "hp_next (heap_of obs) = length obs"
  by (simp add: heap_of_def)

lemma wf_heap_of:
  assumes "\<forall>ob \<in> set obs. tag_ok ob \<and> (\<forall>x \<in> payload_refs (obj_data ob). valid_obj (heap_of obs) x)"
  shows "wf_heap (heap_of obs)"
  using assms by (auto simp: wf_heap_def split: if_splits)

definition some_env :: navi_env where
  "some_env = \<lparr>lexical = 0, dynamic = 0\<rparr>"

text \<open>A list of three elements with the tail \<open>t\<close> at address 1, as the only argument of a call.\<close>

definition demo :: "navi_obj \<Rightarrow> state" where
  "demo t = heap_of [pair_ob (Ref 1) NilO, pair_ob (BoolO True) (Ref 2), pair_ob VoidO (Ref 3),
     pair_ob (Fixnum 7) t]"

lemma wf_demo: "(\<And>a. t \<noteq> Ref a) \<Longrightarrow> wf_heap (demo t)"
  unfolding demo_def by (rule wf_heap_of) (cases t; auto)

lemma demo_args: "list_at (demo t) (Ref 0) [Ref 1] NilO"
  by (simp add: demo_def)

lemma demo_list: "(\<And>a. t \<noteq> Ref a) \<Longrightarrow> list_at (demo t) (Ref 1) [BoolO True, VoidO, Fixnum 7] t"
  by (cases t) (auto simp: demo_def)

section \<open>Argument lists\<close>

lemma args1:
  assumes "list_at st args (x # xs) t"
  shows "scm_arg1 args st n = (Inr x, st)"
  using assms by (auto simp: scm_arg1_def)

lemma args2:
  assumes "list_at st args (x # y # xs) t"
  shows "scm_arg2 args st n = (Inr y, st)"
  using assms by (auto simp: scm_arg2_def navi_cadr_def)

lemma args3:
  assumes "list_at st args (x # y # z # xs) t"
  shows "scm_arg3 args st n = (Inr z, st)"
  using assms by (auto simp: scm_arg3_def navi_caddr_def navi_cddr_def)

lemma args_cdr:
  assumes "list_at st args (x # xs) t"
  shows "\<exists>d. navi_cdr args st n = (Inr d, st) \<and> list_at st d xs t"
  using assms by auto

lemmas args_run = args1 args2 args3

lemma list_at_not_void: "list_at st p xs t \<Longrightarrow> xs \<noteq> [] \<Longrightarrow> p \<noteq> VoidO"
  by (cases xs) auto

lemma list_at_pair_iff: "list_at st p xs t \<Longrightarrow> is_pair_at st p \<longleftrightarrow> xs \<noteq> []"
  by (cases xs) (auto simp: is_pair_at_def)

lemma list_at_type: "list_at st p xs t \<Longrightarrow> type_in st p = NAVI_PAIR \<longleftrightarrow> xs \<noteq> []"
  by (simp add: is_pair_at_type_in [symmetric] list_at_pair_iff)

lemma list_at_drop: "list_at st p xs t \<Longrightarrow> k \<le> length xs \<Longrightarrow> \<exists>q. list_at st q (drop k xs) t"
proof (induction k arbitrary: p xs)
  case (Suc k)
  then show ?case by (cases xs) auto
qed auto

end
