(* ===== verification/Spec_Scope.thy ===== *)
theory Spec_Scope
  imports Spec_Base
begin

text \<open>
  What scopes and environments promise (\<open>environment.c\<close>): the hash table of a scope is a finite
  map, a variable is looked up in the innermost scope that binds it, an assignment changes the
  binding that is visible, a call extends the environment with the parameters, and references are
  counted so that a scope that is created and dropped leaves no trace.
\<close>

section \<open>Scopes as maps\<close>

definition scope_map :: "state \<Rightarrow> sid \<Rightarrow> navi_obj \<Rightarrow> navi_obj option" where
  "scope_map st s = (case scopes st s of None \<Rightarrow> Map.empty | Some sc \<Rightarrow> table_lookup (bindings sc))"

text \<open>
  Every scope's table is well formed, its reference count fits its type and its link goes to an
  older scope that exists.
\<close>

definition scopes_ok :: "state \<Rightarrow> bool" where
  "scopes_ok st \<longleftrightarrow> (\<forall>s sc. scopes st s = Some sc \<longrightarrow> s < sc_next st \<and> table_ok (bindings sc) \<and>
     refs sc < 2 ^ 32 \<and> (\<forall>t. next_scope sc = Some t \<longrightarrow> t < s \<and> scopes st t \<noteq> None))"

lemma scopes_okD:
  assumes "scopes_ok st" and "scopes st s = Some sc"
  shows "s < sc_next st" and "table_ok (bindings sc)" and "refs sc < 2 ^ 32"
    and "next_scope sc = Some t \<Longrightarrow> t < s" and "next_scope sc = Some t \<Longrightarrow> scopes st t \<noteq> None"
  using assms by (auto simp: scopes_ok_def)

abbreviation upd_scope :: "state \<Rightarrow> sid \<Rightarrow> navi_scope \<Rightarrow> state" where
  "upd_scope st s sc \<equiv> st\<lparr>scopes := (scopes st)(s := Some sc)\<rparr>"

lemma scopes_ok_upd:
  assumes "scopes_ok st" and "scopes st s = Some sc" and "table_ok (bindings sc')"
    and "next_scope sc' = next_scope sc" and "refs sc' < 2 ^ 32"
  shows "scopes_ok (upd_scope st s sc')"
  using assms unfolding scopes_ok_def by (auto split: if_splits)

lemma update_scope_run: "scopes st s = Some sc \<Longrightarrow> update_scope s f st n = (Inr (), upd_scope st s (f sc))"
  by (simp add: update_scope_def deref_scope_def put_scope_def bind_run)

lemma deref_scope_run: "scopes st s = Some sc \<Longrightarrow> deref_scope s st n = (Inr sc, st)"
  by (simp add: deref_scope_def)

lemma scope_lookup_run:
  assumes "scopes st s = Some sc"
  shows "scope_lookup s k (ptr_hash k) st n =
    (Inr (if table_lookup (bindings sc) k = None then None else Some (s, k)), st)"
  using assms by (auto simp: scope_lookup_def deref_scope_run bind_run table_lookup_def split: option.splits)

lemma navi_scope_set_run:
  assumes "scopes st s = Some sc"
  shows "navi_scope_set s k x st n =
    (Inr (), upd_scope st s (sc\<lparr>bindings := table_set k x (bindings sc)\<rparr>))"
  by (auto simp: navi_scope_set_def bind_run scope_lookup_run [OF assms] binding_assign_def scope_insert_head_def
      update_scope_run [OF assms] table_set_def split: option.splits)

lemma navi_scope_unset_run:
  assumes "scopes st s = Some sc"
  shows "navi_scope_unset s k st n = (if table_lookup (bindings sc) k = None then (Inr False, st)
    else (Inr True, upd_scope st s (sc\<lparr>bindings := table_unset k (bindings sc)\<rparr>)))"
  by (auto simp: navi_scope_unset_def bind_run scope_lookup_run [OF assms] update_scope_run [OF assms])

text \<open>
  C28: Binding and unbinding a symbol in a scope are the update and the removal on the map the
  scope stands for; unbinding reports whether there was a binding.  Neither touches another scope
  or the heap, and both keep the invariant of the scopes.
\<close>

theorem scope_operations_refine_map:
  assumes "scopes_ok st" and "scopes st s = Some sc"
  shows "\<exists>st1 st2. navi_scope_set s k x st n = (Inr (), st1) \<and>
    navi_scope_unset s k st n = (Inr (k \<in> dom (scope_map st s)), st2) \<and>
    scope_map st1 s = (scope_map st s)(k \<mapsto> x) \<and> scope_map st2 s = (scope_map st s)(k := None) \<and>
    (\<forall>st' \<in> {st1, st2}. scopes_ok st' \<and> heap st' = heap st \<and> (\<forall>t. t \<noteq> s \<longrightarrow> scopes st' t = scopes st t))"
proof -
  let ?set = "upd_scope st s (sc\<lparr>bindings := table_set k x (bindings sc)\<rparr>)"
  let ?unset = "if table_lookup (bindings sc) k = None then st
    else upd_scope st s (sc\<lparr>bindings := table_unset k (bindings sc)\<rparr>)"
  note ok = scopes_okD(2) [OF assms]
  have "scope_map ?set s = (scope_map st s)(k \<mapsto> x)" "scope_map ?unset s = (scope_map st s)(k := None)"
    using assms(2) scope_table.lookup_set [OF ok] scope_table.lookup_unset [OF ok]
    by (simp_all add: scope_map_def fun_upd_idem)
  moreover have "scopes_ok ?set" "scopes_ok ?unset"
    using assms scopes_ok_upd [OF assms] scope_table.ok_set [OF ok] scope_table.ok_unset [OF ok]
      scopes_okD(3) [OF assms] by simp_all
  ultimately show ?thesis
    using navi_scope_set_run [OF assms(2)] navi_scope_unset_run [OF assms(2)] assms(2)
    by (intro exI [of _ ?set] exI [of _ ?unset]) (auto simp: scope_map_def dom_def)
qed

text \<open>A state given by the list of its scopes.\<close>

definition state_of_scopes :: "navi_scope list \<Rightarrow> state" where
  "state_of_scopes scs = empty_state
     \<lparr>scopes := (\<lambda>s. if s < length scs then Some (scs ! s) else None), sc_next := length scs\<rparr>"

lemma scopes_state_of [simp]:
  "scopes (state_of_scopes scs) s = (if s < length scs then Some (scs ! s) else None)"
  "sc_next (state_of_scopes scs) = length scs"
  by (simp_all add: state_of_scopes_def)

text \<open>A scope that binds nothing and one that binds a single symbol.\<close>

definition empty_scope :: "sid option \<Rightarrow> nat \<Rightarrow> navi_scope" where
  "empty_scope next r = new_scope\<lparr>next_scope := next, refs := r\<rparr>"

definition one_scope :: "sid option \<Rightarrow> navi_obj \<Rightarrow> navi_obj \<Rightarrow> navi_scope" where
  "one_scope next k x = (empty_scope next 1)\<lparr>bindings := table_set k x (\<lambda>_. [])\<rparr>"

lemma table_ok_empty [simp]: "table_ok (\<lambda>_. [])"
  by (simp add: table_ok_def)

lemma empty_scope_simps [simp]:
  "next_scope (empty_scope nx r) = nx" "table_ok (bindings (empty_scope nx r))"
  "table_lookup (bindings (empty_scope nx r)) k = None" "refs (empty_scope nx r) = r"
  by (simp_all add: empty_scope_def new_scope_def table_lookup_def)

lemma one_scope_simps [simp]:
  "next_scope (one_scope nx k x) = nx" "table_ok (bindings (one_scope nx k x))"
  "table_lookup (bindings (one_scope nx k x)) = [k \<mapsto> x]" "refs (one_scope nx k x) = 1"
  by (simp_all add: one_scope_def scope_table.ok_set scope_table.lookup_set) (auto simp: table_lookup_def)

text \<open>A scope \<open>0\<close> that binds the symbol 8 and an empty scope \<open>1\<close> linked to it.\<close>

definition two_scopes :: state where
  "two_scopes = state_of_scopes [one_scope None (Ref 8) (BoolO True), empty_scope (Some 0) 1]"

lemma two_scopes_ok: "scopes_ok two_scopes"
  by (auto simp: scopes_ok_def two_scopes_def nth_Cons split: nat.splits if_splits)

lemma two_scopes_at [simp]:
  "scopes two_scopes 0 = Some (one_scope None (Ref 8) (BoolO True))"
  "scopes two_scopes (Suc 0) = Some (empty_scope (Some 0) 1)"
  by (simp_all add: two_scopes_def)

theorem scope_operations_refine_map_witness:
  "\<exists>st'. navi_scope_set 0 (Ref 9) VoidO two_scopes 3 = (Inr (), st') \<and>
    scope_map st' 0 = [Ref 8 \<mapsto> BoolO True, Ref 9 \<mapsto> VoidO]"
  using scope_operations_refine_map [OF two_scopes_ok two_scopes_at(1), of "Ref 9" VoidO 3]
  by (auto simp: scope_map_def)

section \<open>The visible bindings\<close>

text \<open>
  What a scope and those it links to bind, inner bindings first, and the scope a symbol's visible
  binding is in.
\<close>

function visible :: "state \<Rightarrow> sid \<Rightarrow> navi_obj \<Rightarrow> navi_obj option" where
  "visible st s = (case scopes st s of
       None \<Rightarrow> Map.empty
     | Some sc \<Rightarrow> (case next_scope sc of
           None \<Rightarrow> Map.empty
         | Some t \<Rightarrow> if t < s then visible st t else Map.empty) ++ table_lookup (bindings sc))"
  by pat_completeness auto
termination by (relation "measure snd") auto

function owner :: "state \<Rightarrow> sid \<Rightarrow> navi_obj \<Rightarrow> sid option" where
  "owner st s k = (case scopes st s of
       None \<Rightarrow> None
     | Some sc \<Rightarrow> if table_lookup (bindings sc) k \<noteq> None then Some s
         else (case next_scope sc of
             None \<Rightarrow> None
           | Some t \<Rightarrow> if t < s then owner st t k else None))"
  by pat_completeness auto
termination by (relation "measure (\<lambda>(st, s, k). s)") auto

declare visible.simps [simp del] owner.simps [simp del]

text \<open>Induction along the links of a state whose scopes are well formed.\<close>

lemma scope_induct [consumes 2, case_names last link]:
  assumes "scopes_ok st" and "scopes st s \<noteq> None"
    and "\<And>s sc. scopes st s = Some sc \<Longrightarrow> next_scope sc = None \<Longrightarrow> P s"
    and "\<And>s sc t. scopes st s = Some sc \<Longrightarrow> next_scope sc = Some t \<Longrightarrow> t < s \<Longrightarrow> scopes st t \<noteq> None \<Longrightarrow> P t \<Longrightarrow> P s"
  shows "P s"
  using assms(2)
proof (induction s rule: less_induct)
  case (less s)
  then obtain sc where sc: "scopes st s = Some sc" by auto
  show ?case
  proof (cases "next_scope sc")
    case None
    with sc show ?thesis by (rule assms(3))
  next
    case (Some t)
    with scopes_okD [OF assms(1) sc] have "t < s" "scopes st t \<noteq> None" by auto
    with less.IH assms(4) [OF sc Some] show ?thesis by blast
  qed
qed

lemma visible_last: "scopes st s = Some sc \<Longrightarrow> next_scope sc = None \<Longrightarrow> visible st s = table_lookup (bindings sc)"
  by (simp add: visible.simps)

lemma visible_link: "scopes st s = Some sc \<Longrightarrow> next_scope sc = Some t \<Longrightarrow> t < s \<Longrightarrow>
    visible st s = visible st t ++ table_lookup (bindings sc)"
  by (simp add: visible.simps [of st s])

lemma owner_here: "scopes st s = Some sc \<Longrightarrow> table_lookup (bindings sc) k \<noteq> None \<Longrightarrow> owner st s k = Some s"
  by (simp add: owner.simps)

lemma owner_last: "scopes st s = Some sc \<Longrightarrow> next_scope sc = None \<Longrightarrow> table_lookup (bindings sc) k = None \<Longrightarrow>
    owner st s k = None"
  by (simp add: owner.simps)

lemma owner_link: "scopes st s = Some sc \<Longrightarrow> next_scope sc = Some t \<Longrightarrow> t < s \<Longrightarrow>
    table_lookup (bindings sc) k = None \<Longrightarrow> owner st s k = owner st t k"
  by (simp add: owner.simps [of st s])

lemma owner_visible:
  assumes "scopes_ok st" and "scopes st s \<noteq> None"
  shows "case owner st s k of
      None \<Rightarrow> visible st s k = None
    | Some ow \<Rightarrow> ow \<le> s \<and> visible st s k \<noteq> None \<and>
        (\<exists>sc. scopes st ow = Some sc \<and> table_lookup (bindings sc) k = visible st s k)"
  using assms
proof (induction s rule: scope_induct)
  case (last s sc)
  then show ?case
    by (cases "table_lookup (bindings sc) k") (auto simp: visible_last owner_here owner_last)
next
  case (link s sc t)
  then show ?case
    by (cases "table_lookup (bindings sc) k")
      (auto simp: visible_link owner_here owner_link map_add_def split: option.splits)
qed

lemma env_binding_loop_run:
  assumes "scopes_ok st" and "scopes st s \<noteq> None" and "Suc s < k"
  shows "env_binding_loop k (Some s) x (ptr_hash x) st n = (Inr (map_option (\<lambda>ow. (ow, x)) (owner st s x)), st)"
  using assms
proof (induction s arbitrary: k rule: scope_induct)
  case (last s sc)
  then obtain i where "k = Suc (Suc i)" by (cases k rule: nat.exhaust; cases "k - 1") auto
  with last show ?case
    by (cases "table_lookup (bindings sc) x") (auto simp: bind_run scope_lookup_run deref_scope_run owner_here owner_last)
next
  case (link s sc t)
  then obtain i where i: "k = Suc i" "Suc t < i" by (cases k) auto
  with link show ?case
    by (cases "table_lookup (bindings sc) x") (auto simp: bind_run scope_lookup_run deref_scope_run owner_here owner_link)
qed

lemma navi_env_binding_run:
  assumes "scopes_ok st" and "scopes st s \<noteq> None"
  shows "navi_env_binding s x st n = (Inr (map_option (\<lambda>ow. (ow, x)) (owner st s x)), st)"
proof -
  from assms have "Suc s < Suc (Suc (sc_next st))" by (auto dest: scopes_okD(1))
  from env_binding_loop_run [OF assms this] show ?thesis by (simp add: navi_env_binding_def bind_run)
qed

lemma two_scopes_visible: "visible two_scopes (Suc 0) = [Ref 8 \<mapsto> BoolO True]"
  using visible_link [OF two_scopes_at(2), of 0] visible_last [OF two_scopes_at(1)]
  by (simp add: map_add_def fun_eq_iff)

lemma env_lookup_run:
  assumes "scopes_ok st" and "scopes st s \<noteq> None"
  shows "navi_env_lookup s x st n = (Inr (case visible st s x of None \<Rightarrow> VoidO | Some v \<Rightarrow> v), st)"
  using owner_visible [OF assms, of x]
  by (auto simp: navi_env_lookup_def bind_run navi_env_binding_run [OF assms] binding_object_def
      deref_scope_run navi_make_void_def split: option.splits)

text \<open>
  C6: Looking a variable up returns the visible binding, the innermost one along the links of the
  scope, or void when no scope binds it; the walk ends within the number of scopes ever made.
\<close>

theorem env_lookup_correct:
  assumes "scopes_ok st" and "scopes st s \<noteq> None"
  shows "navi_env_lookup s x st n = (Inr (case visible st s x of None \<Rightarrow> VoidO | Some v \<Rightarrow> v), st)"
  by (rule env_lookup_run [OF assms])

theorem env_lookup_correct_witness:
  "navi_env_lookup 1 (Ref 8) two_scopes 5 = (Inr (BoolO True), two_scopes)"
  using env_lookup_correct [OF two_scopes_ok, of 1 "Ref 8" 5]
  by (simp add: two_scopes_visible)

section \<open>Assignment\<close>

lemma table_assign_set: "table_lookup b k \<noteq> None \<Longrightarrow> table_assign k x b = table_set k x b"
  by (auto simp: table_set_def)

lemma table_insert_set: "table_lookup b k = None \<Longrightarrow> table_insert_head k x b = table_set k x b"
  by (simp add: table_set_def)

lemma env_set_run:
  assumes "scopes_ok st" and "scopes st (lexical env) \<noteq> None"
    and "ow = (case owner st (lexical env) k of None \<Rightarrow> lexical env | Some s \<Rightarrow> s)"
  shows "\<exists>sc. scopes st ow = Some sc \<and> env_set env k x st n =
    (Inr (), upd_scope st ow (sc\<lparr>bindings := table_set k x (bindings sc)\<rparr>))"
proof (cases "owner st (lexical env) k")
  case None
  then have "visible st (lexical env) k = None" using owner_visible [OF assms(1,2), of k] by simp
  moreover from assms(2) obtain sc where sc: "scopes st (lexical env) = Some sc" by auto
  ultimately have "table_lookup (bindings sc) k = None"
    by (auto simp: visible.simps map_add_None)
  then show ?thesis using None sc
    by (simp add: assms(3) env_set_def bind_run navi_env_binding_run [OF assms(1,2)] scope_insert_head_def
        update_scope_run table_insert_set)
next
  case (Some s)
  then obtain sc where "scopes st s = Some sc" "table_lookup (bindings sc) k \<noteq> None"
    using owner_visible [OF assms(1,2), of k] by auto
  then show ?thesis using Some
    by (simp add: assms(3) env_set_def bind_run navi_env_binding_run [OF assms(1,2)] binding_assign_def
        update_scope_run table_assign_set)
qed

lemma visible_below:
  assumes "scopes_ok st" and "scopes st s \<noteq> None" and "s < b"
  shows "visible (upd_scope st b sc) s = visible st s"
  using assms
  by (induction s rule: scope_induct) (auto simp: visible_last visible_link)

lemma visible_set_here:
  assumes "scopes_ok st" and "scopes st s = Some sc"
  shows "visible (upd_scope st s (sc\<lparr>bindings := table_set k x (bindings sc)\<rparr>)) s = (visible st s)(k \<mapsto> x)"
proof -
  note tbl = scope_table.lookup_set [OF scopes_okD(2) [OF assms]]
  show ?thesis
  proof (cases "next_scope sc")
    case None
    then show ?thesis using assms(2) tbl by (simp add: visible_last)
  next
    case (Some t)
    with scopes_okD [OF assms] have t: "t < s" "scopes st t \<noteq> None" by auto
    then show ?thesis using assms(2) tbl Some visible_below [OF assms(1) t(2,1)]
      by (simp add: visible_link)
  qed
qed

lemma upd_below: "k \<notin> dom m \<Longrightarrow> m0(k \<mapsto> x) ++ m = (m0 ++ m)(k \<mapsto> x)"
  by (rule ext) (auto simp: map_add_def dom_def split: option.split)

lemma visible_after_set:
  assumes "scopes_ok st" and "scopes st s \<noteq> None" and "scopes st ow = Some sc"
    and "ow = (case owner st s k of None \<Rightarrow> s | Some u \<Rightarrow> u)"
  shows "visible (upd_scope st ow (sc\<lparr>bindings := table_set k x (bindings sc)\<rparr>)) s = (visible st s)(k \<mapsto> x)"
    (is "visible ?st s = _")
proof (cases "ow = s")
  case True
  then show ?thesis using visible_set_here [OF assms(1)] assms(3) by simp
next
  case False
  then have "owner st s k = Some ow" using assms(4) by (auto split: option.splits)
  with assms(1,2) False show ?thesis
  proof (induction s rule: scope_induct)
    case (last s sc')
    then show ?case by (cases "table_lookup (bindings sc') k") (auto simp: owner_last owner_here)
  next
    case (link s sc' t)
    then have k: "table_lookup (bindings sc') k = None"
      by (cases "table_lookup (bindings sc') k") (auto simp: owner_here)
    with link have own: "owner st t k = Some ow" by (simp add: owner_link)
    have "visible ?st t = (visible st t)(k \<mapsto> x)"
    proof (cases "ow = t")
      case True
      then show ?thesis using visible_set_here [OF assms(1)] assms(3) by simp
    next
      case False
      from link.IH [OF this own] show ?thesis .
    qed
    moreover have "scopes ?st s = Some sc'" using link.hyps(1) link.prems(1) by simp
    from visible_link [OF this link.hyps(2,3)]
    have "visible ?st s = visible ?st t ++ table_lookup (bindings sc')" .
    moreover have "k \<notin> dom (table_lookup (bindings sc'))" using k by auto
    ultimately show ?case using visible_link [OF link.hyps(1-3)] by (metis upd_below)
  qed
qed

text \<open>
  C29: Assigning a variable in an environment changes the binding that is visible from its lexical
  scope, or binds it in that scope when no scope does: afterwards the visible map is the old one
  with the variable updated, and only the table of that one scope differs.
\<close>

theorem env_set_correct:
  assumes "scopes_ok st" and "scopes st (lexical env) \<noteq> None"
  shows "\<exists>ow sc st'. env_set env k x st n = (Inr (), st') \<and>
    visible st' (lexical env) = (visible st (lexical env))(k \<mapsto> x) \<and> scopes_ok st' \<and> heap st' = heap st \<and>
    scopes st ow = Some sc \<and> (\<forall>t. t \<noteq> ow \<longrightarrow> scopes st' t = scopes st t) \<and>
    (if visible st (lexical env) k = None then ow = lexical env else table_lookup (bindings sc) k \<noteq> None)"
proof -
  define ow where "ow = (case owner st (lexical env) k of None \<Rightarrow> lexical env | Some s \<Rightarrow> s)"
  from env_set_run [OF assms ow_def] obtain sc where sc: "scopes st ow = Some sc"
    "env_set env k x st n = (Inr (), upd_scope st ow (sc\<lparr>bindings := table_set k x (bindings sc)\<rparr>))" by blast
  have "if visible st (lexical env) k = None then ow = lexical env else table_lookup (bindings sc) k \<noteq> None"
    using owner_visible [OF assms, of k] sc(1) by (auto simp: ow_def split: option.splits)
  moreover have "scopes_ok (upd_scope st ow (sc\<lparr>bindings := table_set k x (bindings sc)\<rparr>))"
    using scope_table.ok_set [OF scopes_okD(2) [OF assms(1) sc(1)]] scopes_ok_upd [OF assms(1) sc(1)]
      scopes_okD(3) [OF assms(1) sc(1)] by simp
  ultimately show ?thesis
    using visible_after_set [OF assms sc(1) ow_def, of x] sc
    by (intro exI [of _ ow] exI [of _ sc]
        exI [of _ "upd_scope st ow (sc\<lparr>bindings := table_set k x (bindings sc)\<rparr>)"]) simp
qed

theorem env_set_correct_witness:
  "\<exists>st'. env_set \<lparr>lexical = 1, dynamic = 0\<rparr> (Ref 8) EofO two_scopes 3 = (Inr (), st') \<and>
    visible st' 1 (Ref 8) = Some EofO \<and> scopes st' 1 = scopes two_scopes 1"
proof -
  obtain ow sc st' where run: "env_set \<lparr>lexical = 1, dynamic = 0\<rparr> (Ref 8) EofO two_scopes 3 = (Inr (), st')"
    "visible st' 1 = (visible two_scopes 1)(Ref 8 \<mapsto> EofO)" "scopes two_scopes ow = Some sc"
    "\<forall>t. t \<noteq> ow \<longrightarrow> scopes st' t = scopes two_scopes t" "table_lookup (bindings sc) (Ref 8) \<noteq> None"
    using env_set_correct [OF two_scopes_ok, of "\<lparr>lexical = 1, dynamic = 0\<rparr>" "Ref 8" EofO 3]
    by (auto simp: two_scopes_visible)
  from run(3,5) have "ow \<noteq> 1" by auto
  with run show ?thesis by auto
qed

section \<open>New scopes\<close>

text \<open>Two states agree on the links and tables of the scopes up to \<open>s\<close>.\<close>

definition shape :: "state \<Rightarrow> sid \<Rightarrow> (sid option \<times> buckets) option" where
  "shape st s = map_option (\<lambda>sc. (next_scope sc, bindings sc)) (scopes st s)"

lemma shape_Some: "shape st' s = shape st s \<Longrightarrow> scopes st s = Some sc \<Longrightarrow>
    \<exists>sc'. scopes st' s = Some sc' \<and> next_scope sc' = next_scope sc \<and> bindings sc' = bindings sc"
  by (auto simp: shape_def)

lemma visible_shape:
  assumes "scopes_ok st" and "scopes st s \<noteq> None" and "\<And>t. t \<le> s \<Longrightarrow> shape st' t = shape st t"
  shows "visible st' s = visible st s"
  using assms
proof (induction s rule: scope_induct)
  case (last s sc)
  then show ?case using shape_Some [of st' s st sc] by (auto simp: visible_last)
next
  case (link s sc t)
  then have "visible st' t = visible st t" by simp
  with link show ?case using shape_Some [of st' s st sc] by (auto simp: visible_link)
qed

lemma list_at_heap: "heap st' = heap st \<Longrightarrow> list_at st' p xs t = list_at st p xs t"
  by (auto elim!: list_at_frame)

text \<open>Adding a number of references to a scope.\<close>

definition more_refs :: "nat \<Rightarrow> navi_scope \<Rightarrow> navi_scope" where
  "more_refs k sc = sc\<lparr>refs := (refs sc + k) mod 2 ^ 32\<rparr>"

lemma more_refs_more: "more_refs i (more_refs j sc) = more_refs (i + j) sc"
  by (simp add: more_refs_def mod_simps ac_simps)

lemma more_refs_simps [simp]:
  "next_scope (more_refs k sc) = next_scope sc" "bindings (more_refs k sc) = bindings sc"
  "refs (more_refs k sc) = (refs sc + k) mod 2 ^ 32" "guards (more_refs k sc) = guards sc"
  by (simp_all add: more_refs_def)

lemma navi_scope_ref_run:
  "scopes st s = Some sc \<Longrightarrow> navi_scope_ref s st n = (Inr s, upd_scope st s (more_refs 1 sc))"
  by (simp add: navi_scope_ref_def bind_run update_scope_run more_refs_def)

definition env_refs :: "navi_env \<Rightarrow> sid \<Rightarrow> nat" where
  "env_refs env s = of_bool (s = lexical env) + of_bool (s = dynamic env)"

abbreviation env_ok :: "state \<Rightarrow> navi_env \<Rightarrow> bool" where
  "env_ok st env \<equiv> scopes st (lexical env) \<noteq> None \<and> scopes st (dynamic env) \<noteq> None"

lemma more_refs_0: "scopes_ok st \<Longrightarrow> map_option (more_refs 0) (scopes st s) = scopes st s"
  using scopes_okD(3) [of st s] by (cases "scopes st s") (auto simp: more_refs_def)

lemma navi_env_ref_run:
  assumes "scopes_ok st" and "env_ok st env"
  shows "navi_env_ref env st n = (Inr (), st\<lparr>scopes := (\<lambda>s. map_option (more_refs (env_refs env s)) (scopes st s))\<rparr>)"
proof -
  obtain l d where l: "scopes st (lexical env) = Some l" and d: "scopes st (dynamic env) = Some d"
    using assms(2) by auto
  show ?thesis
  proof (cases "lexical env = dynamic env")
    case True
    with l d show ?thesis
      by (auto simp: navi_env_ref_def bind_run navi_scope_ref_run env_refs_def more_refs_more fun_eq_iff
          more_refs_0 [OF assms(1)] simp del: more_refs_simps)
  next
    case False
    with l d show ?thesis
      by (auto simp: navi_env_ref_def bind_run navi_scope_ref_run env_refs_def fun_eq_iff
          more_refs_0 [OF assms(1)] simp del: more_refs_simps)
  qed
qed

text \<open>The state after a scope was made for an environment.\<close>

definition env_scope_st :: "navi_env \<Rightarrow> state \<Rightarrow> state" where
  "env_scope_st env st = st
     \<lparr>scopes := (\<lambda>s. map_option (more_refs (env_refs env s)) (scopes st s))
        (sc_next st := Some (empty_scope (Some (lexical env)) 1)),
      sc_next := Suc (sc_next st), active_environments := sc_next st # active_environments st\<rparr>"

lemma scopes_fresh: "scopes_ok st \<Longrightarrow> scopes st (sc_next st) = None"
  using scopes_okD(1) [of st "sc_next st"] by (cases "scopes st (sc_next st)") auto

lemma navi_env_new_scope_run:
  assumes ok: "scopes_ok st" and env: "env_ok st env"
  shows "navi_env_new_scope env st n = (Inr \<lparr>lexical = sc_next st, dynamic = dynamic env\<rparr>, env_scope_st env st)"
proof -
  let ?new = "sc_next st"
  let ?s1 = "st\<lparr>scopes := (scopes st)(?new := Some (empty_scope None 1)), sc_next := Suc ?new,
    active_environments := ?new # active_environments st\<rparr>"
  have make: "navi_make_scope st n = (Inr ?new, ?s1)"
    by (simp add: navi_make_scope_def navi_make_scope_raw_def bind_run update_scope_run empty_scope_def new_scope_def)
  have ne: "?new \<noteq> lexical env" "?new \<noteq> dynamic env" using env scopes_fresh [OF ok] by metis+
  have "scopes_ok ?s1" using ok unfolding scopes_ok_def by (auto simp: less_Suc_eq split: if_splits)
  moreover have "env_ok ?s1 env" using env by auto
  ultimately have ref: "navi_env_ref env ?s1 n =
      (Inr (), ?s1\<lparr>scopes := (\<lambda>s. map_option (more_refs (env_refs env s)) (scopes ?s1 s))\<rparr>)"
    by (rule navi_env_ref_run)
  show ?thesis
    unfolding navi_env_new_scope_def bind_Inr [where m = navi_make_scope, OF make]
      bind_Inr [where m = "navi_env_ref env", OF ref]
    using ne by (auto simp: bind_run update_scope_run env_scope_st_def env_refs_def
        more_refs_def empty_scope_def new_scope_def fun_eq_iff)
qed

lemma env_scope_st_simps [simp]:
  "heap (env_scope_st env st) = heap st" "sc_next (env_scope_st env st) = Suc (sc_next st)"
  "scopes (env_scope_st env st) (sc_next st) = Some (empty_scope (Some (lexical env)) 1)"
  by (simp_all add: env_scope_st_def)

lemma env_scope_st_ok:
  assumes ok: "scopes_ok st" and env: "env_ok st env"
  shows "scopes_ok (env_scope_st env st)"
    and "scopes st s \<noteq> None \<Longrightarrow> visible (env_scope_st env st) s = visible st s"
    and "visible (env_scope_st env st) (sc_next st) = visible st (lexical env)"
proof -
  have lt: "lexical env < sc_next st" "dynamic env < sc_next st" using scopes_okD(1) [OF ok] env by auto
  then show "scopes_ok (env_scope_st env st)"
    using ok env unfolding scopes_ok_def env_scope_st_def by (auto simp: less_Suc_eq split: if_splits)
  show same: "visible (env_scope_st env st) s = visible st s" if "scopes st s \<noteq> None" for s
  proof (rule visible_shape [OF ok that])
    show "shape (env_scope_st env st) t = shape st t" if "t \<le> s" for t
    proof -
      from \<open>scopes st s \<noteq> None\<close> have "s < sc_next st" using scopes_okD(1) [OF ok] by blast
      with that show ?thesis by (auto simp: shape_def env_scope_st_def map_option_case split: option.split)
    qed
  qed
  have "visible (env_scope_st env st) (sc_next st) =
      visible (env_scope_st env st) (lexical env) ++ table_lookup (bindings (empty_scope (Some (lexical env)) 1))"
    by (rule visible_link) (use lt in simp_all)
  then show "visible (env_scope_st env st) (sc_next st) = visible st (lexical env)"
    using same env by (auto simp: map_add_def)
qed

lemma zipped_step:
  assumes "pair_at st a x d" and "pair_at st b y e" and "body (Ref a) (Ref b) st n = (Inr (Continue ()), st')"
    and "heap st' = heap st"
  shows "zipped_loop (Suc k) body (Ref a) (Ref b) st n = zipped_loop k body d e st' n"
  using assms by (simp add: bind_run)

abbreviation bind_body :: "sid \<Rightarrow> navi_obj \<Rightarrow> navi_obj \<Rightarrow> (unit, unit) ctl nm" where
  "bind_body new \<equiv> (\<lambda>vcons acons.
       bind (navi_car vcons) (\<lambda>v. bind (navi_car acons) (\<lambda>a.
       bind (navi_scope_set new v a) (\<lambda>_. ret (Continue ())))))"

lemma zipped_bind_run:
  assumes "scopes st new = Some sc" and "list_at st p vs t" and "list_at st q xs u"
    and "length vs \<le> length xs" and "length vs < k"
  shows "\<exists>q'. zipped_loop k (bind_body new) p q st n =
     (Inr ((t, q'), Continue ()),
      upd_scope st new (sc\<lparr>bindings := scope_table.set_all (zip vs xs) (bindings sc)\<rparr>)) \<and>
     list_at st q' (drop (length vs) xs) u"
  using assms
proof (induction vs arbitrary: st sc p q xs k)
  case Nil
  then obtain i where "k = Suc i" by (cases k) auto
  with Nil show ?case
    by (auto simp: bind_run navi_type_valid is_pair_at_type_in fun_upd_idem)
next
  case (Cons v vs)
  then obtain i where k: "k = Suc i" by (cases k) auto
  from Cons.prems(4) obtain x xs' where xs: "xs = x # xs'" by (cases xs) auto
  from Cons.prems(2) obtain a d where a: "p = Ref a" "pair_at st a v d" "list_at st d vs t" by auto
  from Cons.prems(3) xs obtain b e where b: "q = Ref b" "pair_at st b x e" "list_at st e xs' u" by auto
  let ?sc = "sc\<lparr>bindings := table_set v x (bindings sc)\<rparr>"
  let ?st = "upd_scope st new ?sc"
  have h: "list_at ?st r ys z = list_at st r ys z" for r ys z by (rule list_at_heap) simp
  have set_all: "scope_table.set_all (zip (v # vs) xs) B = scope_table.set_all (zip vs xs') (table_set v x B)" for B
    by (simp add: scope_table.set_all_def xs)
  have at: "scopes ?st new = Some ?sc" by simp
  have "length vs \<le> length xs'" "length vs < i" using Cons.prems(4,5) xs k by simp_all
  from Cons.IH [of ?st ?sc d e xs' i, unfolded h, OF at a(3) b(3) this] obtain q' where
    "zipped_loop i (bind_body new) d e ?st n =
     (Inr ((t, q'), Continue ()),
      upd_scope ?st new (?sc\<lparr>bindings := scope_table.set_all (zip vs xs') (bindings ?sc)\<rparr>))"
    "list_at st q' (drop (length vs) xs') u"
    by blast
  moreover have "bind_body new p q st n = (Inr (Continue ()), ?st)"
    using a b navi_scope_set_run [OF Cons.prems(1), of v x n] by simp
  then have "zipped_loop k (bind_body new) p q st n = zipped_loop i (bind_body new) d e ?st n"
    unfolding k a(1) b(1) by (rule zipped_step [OF a(2) b(2)]) simp
  moreover have "drop (length (v # vs)) xs = drop (length vs) xs'" by (simp add: xs)
  moreover have "upd_scope ?st new (?sc\<lparr>bindings := scope_table.set_all (zip vs xs') (bindings ?sc)\<rparr>) =
      upd_scope st new (sc\<lparr>bindings := scope_table.set_all (zip (v # vs) xs) (bindings sc)\<rparr>)"
    by (simp add: set_all)
  ultimately show ?case by metis
qed

text \<open>The new scope of a call, its bindings, and the state it is in.\<close>

lemma extend_environment_run:
  assumes ok: "scopes_ok st" and env: "env_ok st env"
    and vars: "list_at st vars vs t" and args: "list_at st args xs NilO"
    and len: "length vs \<le> length xs" "length vs < n"
    and wf: "wf_heap st"
  shows "\<exists>new rest st' sc. navi_extend_environment env vars args st n = (Inr \<lparr>lexical = new, dynamic = dynamic env\<rparr>, st') \<and>
    new = sc_next st \<and> st' = upd_scope (env_scope_st env st) new sc \<and> refs sc = 1 \<and> scopes st new = None \<and> list_at st rest (drop (length vs) xs) NilO \<and>
    visible st' new = (let m = visible st (lexical env) ++ map_of (rev (zip vs xs))
                       in if t = NilO then m else m(t \<mapsto> rest)) \<and>
    (\<forall>s. scopes st s \<noteq> None \<longrightarrow> visible st' s = visible st s) \<and> scopes_ok st' \<and> heap st' = heap st"
proof -
  let ?new = "sc_next st" and ?s1 = "env_scope_st env st" and ?sc = "empty_scope (Some (lexical env)) 1"
  note ok1 = env_scope_st_ok [OF ok env]
  have heap1: "list_at ?s1 p ys z = list_at st p ys z" for p ys z by (rule list_at_heap) simp
  have at1: "scopes ?s1 ?new = Some ?sc" by simp
  obtain rest where loop: "zipped_loop n (bind_body ?new) vars args ?s1 n =
      (Inr ((t, rest), Continue ()), upd_scope ?s1 ?new (?sc\<lparr>bindings := scope_table.set_all (zip vs xs) (bindings ?sc)\<rparr>))"
    and rest: "list_at st rest (drop (length vs) xs) NilO"
    using zipped_bind_run [of ?s1 ?new ?sc vars vs t args xs NilO n n, unfolded heap1, OF at1 vars args len] by blast
  let ?sc2 = "?sc\<lparr>bindings := scope_table.set_all (zip vs xs) (bindings ?sc)\<rparr>"
  let ?s2 = "upd_scope ?s1 ?new ?sc2"
  let ?sc3 = "if t = NilO then ?sc2 else ?sc2\<lparr>bindings := table_set t rest (bindings ?sc2)\<rparr>"
  let ?s3 = "upd_scope ?s1 ?new ?sc3"
  have tv: "valid_obj st t" using list_at_tail_not_pair [OF vars] by simp
  have "type_in ?s2 t = type_in st t" by (cases t) (simp_all add: type_in_def)
  moreover have "valid_obj ?s2 t" using tv by (simp add: valid_obj_def)
  ultimately have nil: "navi_is_nil t ?s2 n = (Inr (t = NilO), ?s2)"
    using type_in_nil [OF wf tv] by (auto simp: navi_is_nil_def type_is_valid)
  have set: "navi_scope_set ?new t rest ?s2 n = (Inr (), upd_scope ?s2 ?new (?sc2\<lparr>bindings := table_set t rest (bindings ?sc2)\<rparr>))"
    by (rule navi_scope_set_run) simp
  have run: "navi_extend_environment env vars args st n = (Inr \<lparr>lexical = ?new, dynamic = dynamic env\<rparr>, ?s3)"
    unfolding navi_extend_environment_def
      bind_Inr [where m = "navi_env_new_scope env", OF navi_env_new_scope_run [OF ok env]]
    using loop nil set by (simp add: navi_list_for_each_zipped_def bind_run)
  have tbl: "table_ok (bindings ?sc)" by simp
  have lookup: "table_lookup (bindings ?sc3) =
      (let m = map_of (rev (zip vs xs)) in if t = NilO then m else m(t \<mapsto> rest))"
    using scope_table.lookup_set_all [OF tbl] scope_table.lookup_set [OF scope_table.ok_set_all [OF tbl]]
    by (simp add: Let_def map_add_def fun_eq_iff split: option.split)
  have ok3: "scopes_ok ?s3"
    by (rule scopes_ok_upd [OF ok1(1) at1]) (simp_all add: scope_table.ok_set_all scope_table.ok_set)
  have lt: "lexical env < ?new" using env scopes_okD(1) [OF ok] by auto
  have old: "visible ?s3 s = visible st s" if "scopes st s \<noteq> None" for s
  proof -
    have "s < ?new" using that scopes_okD(1) [OF ok] by auto
    moreover from this that have "scopes ?s1 s \<noteq> None" by (auto simp: env_scope_st_def)
    ultimately show ?thesis using visible_below [OF ok1(1)] ok1(2) [OF that] by simp
  qed
  have "visible ?s3 ?new = visible ?s3 (lexical env) ++ table_lookup (bindings ?sc3)"
    by (rule visible_link) (use lt in simp_all)
  then have "visible ?s3 ?new = (let m = visible st (lexical env) ++ map_of (rev (zip vs xs))
      in if t = NilO then m else m(t \<mapsto> rest))"
    unfolding lookup using old env by (simp add: Let_def)
  then show ?thesis
    using run rest old ok3 scopes_fresh [OF ok]
    by (intro exI [of _ ?new] exI [of _ rest] exI [of _ ?s3] exI [of _ ?sc3]) simp
qed

text \<open>
  C11: A call's environment (\<open>navi_extend_environment\<close>): a new scope linked to the lexical one binds
  each parameter to its argument, and a parameter list that ends in a symbol binds that symbol to
  the list of the arguments that are left.  What the older scopes show is unchanged.
\<close>

theorem extend_environment_correct:
  assumes ok: "scopes_ok st" and env: "env_ok st env"
    and vars: "list_at st vars vs t" and args: "list_at st args xs NilO"
    and len: "length vs \<le> length xs" "length vs < n"
    and wf: "wf_heap st"
  shows "\<exists>new rest st'. navi_extend_environment env vars args st n = (Inr \<lparr>lexical = new, dynamic = dynamic env\<rparr>, st') \<and>
    scopes st new = None \<and> list_at st rest (drop (length vs) xs) NilO \<and>
    visible st' new = (let m = visible st (lexical env) ++ map_of (rev (zip vs xs))
                       in if t = NilO then m else m(t \<mapsto> rest)) \<and>
    (\<forall>s. scopes st s \<noteq> None \<longrightarrow> visible st' s = visible st s) \<and> scopes_ok st' \<and> heap st' = heap st"
  using extend_environment_run [OF assms] by blast

theorem extend_environment_correct_witness:
  "\<exists>new st'. navi_extend_environment \<lparr>lexical = 1, dynamic = 0\<rparr> (Ref 0) (Ref 1)
      (two_scopes\<lparr>heap := heap (heap_of [pair_ob (BoolO True) NilO, pair_ob EofO NilO]), hp_next := 2\<rparr>) 5
     = (Inr \<lparr>lexical = new, dynamic = 0\<rparr>, st') \<and> visible st' new = [Ref 8 \<mapsto> BoolO True, BoolO True \<mapsto> EofO]"
proof -
  let ?h = "heap_of [pair_ob (BoolO True) NilO, pair_ob EofO NilO]"
  let ?st = "two_scopes\<lparr>heap := heap ?h, hp_next := 2\<rparr>"
  have ok: "scopes_ok ?st" using two_scopes_ok by (simp add: scopes_ok_def)
  have "wf_heap ?h" by (rule wf_heap_of) simp
  then have wf: "wf_heap ?st" by (simp add: wf_heap_def valid_obj_def)
  have lists: "list_at ?st (Ref 0) [BoolO True] NilO" "list_at ?st (Ref 1) [EofO] NilO" by simp_all
  have "visible ?st 1 = visible two_scopes 1"
    by (rule visible_shape [OF two_scopes_ok]) (simp_all add: shape_def)
  then show ?thesis
    using extend_environment_correct [OF ok _ lists _ _ wf, of "\<lparr>lexical = 1, dynamic = 0\<rparr>" 5]
    by (auto simp: two_scopes_visible)
qed

section \<open>Reference counts\<close>

lemma more_refs_down:
  assumes "scopes_ok st" and "scopes st s = Some sc"
  shows "more_refs (2 ^ 32 - 1) (more_refs 1 sc) = sc"
  using scopes_okD(3) [OF assms] by (simp add: more_refs_def mod_simps)

lemma unref_shared:
  assumes "scopes st s = Some sc" and "1 < refs sc" and "refs sc < 2 ^ 32"
  shows "scope_unref_depth (Suc k) s st n = (Inr (), upd_scope st s (more_refs (2 ^ 32 - 1) sc))"
    and "refs (more_refs (2 ^ 32 - 1) sc) = refs sc - 1"
proof -
  have "(refs sc + (2 ^ 32 - 1)) mod 2 ^ 32 = refs sc - 1"
    using assms(2,3) mod_add_self2 [of "refs sc - 1" "2 ^ 32"] by (simp add: add.commute)
  then show "refs (more_refs (2 ^ 32 - 1) sc) = refs sc - 1"
    and "scope_unref_depth (Suc k) s st n = (Inr (), upd_scope st s (more_refs (2 ^ 32 - 1) sc))" using assms
    by (simp_all add: bind_run update_scope_run deref_scope_run more_refs_def add.commute)
qed

text \<open>
  C30: A scope that is made for an environment and whose environment is then dropped is freed and
  leaves the reference counts, the tables and the list of active environments as they were, when
  the counts of the scopes of the environment are positive and far from overflow.
\<close>

theorem new_scope_unref_roundtrip:
  assumes ok: "scopes_ok st" and l: "scopes st (lexical env) = Some l" and d: "scopes st (dynamic env) = Some d"
    and refs: "0 < refs l" "refs l + 2 < 2 ^ 32" "0 < refs d" "refs d + 2 < 2 ^ 32"
    and active: "\<forall>s \<in> set (active_environments st). scopes st s \<noteq> None"
  shows "\<exists>new st1 st2. navi_env_new_scope env st n = (Inr new, st1) \<and> navi_env_unref new st1 n = (Inr (), st2) \<and>
    scopes st1 \<noteq> scopes st \<and> scopes st2 = scopes st \<and>
    active_environments st2 = active_environments st \<and> heap st2 = heap st"
proof -
  let ?new = "sc_next st" and ?s1 = "env_scope_st env st"
  let ?l = "more_refs (env_refs env (lexical env)) l"
  have ne: "?new \<noteq> lexical env" "?new \<noteq> dynamic env" using l d scopes_fresh [OF ok] by auto
  have at1: "scopes ?s1 ?new = Some (empty_scope (Some (lexical env)) 1)"
    "scopes ?s1 (lexical env) = Some ?l" using l ne by (simp_all add: env_scope_st_def)
  have cnt: "1 < refs ?l" "refs ?l < 2 ^ 32" "refs ?l - 1 = refs l + of_bool (lexical env = dynamic env)"
    using refs(1,2) by (auto simp: env_refs_def)
  let ?M = "2 ^ 32 - 1 :: nat"
  let ?b = "(upd_scope ?s1 ?new (empty_scope (Some (lexical env)) 0))\<lparr>active_environments := active_environments st\<rparr>"
  let ?s2 = "?b\<lparr>scopes := (scopes ?b)(lexical env := Some (more_refs ?M ?l), ?new := None)\<rparr>"
  have act: "removeAll ?new (active_environments st) = active_environments st"
    using active scopes_fresh [OF ok] by (intro removeAll_id) auto
  have "scope_unref_depth (Suc (sc_next st)) (lexical env) ?b n = (Inr (), upd_scope ?b (lexical env) (more_refs ?M ?l))"
    by (rule unref_shared(1)) (use at1 ne cnt in simp_all)
  then have one: "navi_scope_unref ?new ?s1 n = (Inr (), ?s2)"
    using at1 act by (simp add: navi_scope_unref_def bind_run update_scope_run deref_scope_run
        env_scope_st_def empty_scope_def)
  define sc where "sc = (if lexical env = dynamic env then more_refs ?M ?l else more_refs 1 d)"
  have sc: "scopes ?s2 (dynamic env) = Some sc" using d ne by (simp add: sc_def env_scope_st_def env_refs_def)
  have "refs sc = Suc (refs d)"
    using l d refs cnt unref_shared(2) [OF at1(2) cnt(1,2)] by (auto simp: sc_def)
  then have two: "navi_scope_unref (dynamic env) ?s2 n = (Inr (), upd_scope ?s2 (dynamic env) (more_refs ?M sc))"
    unfolding navi_scope_unref_def using unref_shared(1) [OF sc] refs by (simp add: bind_run)
  have twice: "more_refs (2 ^ 33) l = l"
    using scopes_okD(3) [OF ok l] mod_mult_self2 [of "refs l" "2 ^ 32" 2] by (simp add: more_refs_def)
  have "scopes (upd_scope ?s2 (dynamic env) (more_refs ?M sc)) s = scopes st s" for s
    using twice l d ne more_refs_down [OF ok l] more_refs_down [OF ok d] scopes_fresh [OF ok] more_refs_0 [OF ok, of s]
    by (auto simp: env_scope_st_def env_refs_def sc_def more_refs_more)
  moreover have "scopes ?s1 \<noteq> scopes st" using at1(1) scopes_fresh [OF ok] by (metis option.distinct(1))
  ultimately show ?thesis
    using navi_env_new_scope_run [OF ok, of env n] l d one two
    by (intro exI [of _ "\<lparr>lexical = ?new, dynamic = dynamic env\<rparr>"] exI [of _ ?s1]
        exI [of _ "upd_scope ?s2 (dynamic env) (more_refs ?M sc)"])
      (auto simp: navi_env_unref_def bind_run env_scope_st_def)
qed

theorem new_scope_unref_roundtrip_witness:
  "\<exists>new st1 st2. navi_env_new_scope \<lparr>lexical = 1, dynamic = 0\<rparr> two_scopes 4 = (Inr new, st1) \<and>
    navi_env_unref new st1 4 = (Inr (), st2) \<and> scopes st1 \<noteq> scopes two_scopes \<and> scopes st2 = scopes two_scopes"
proof -
  have "active_environments two_scopes = []" by (simp add: two_scopes_def state_of_scopes_def empty_state_def)
  then show ?thesis
    using new_scope_unref_roundtrip [OF two_scopes_ok, of "\<lparr>lexical = 1, dynamic = 0\<rparr>" "empty_scope (Some 0) 1"
        "one_scope None (Ref 8) (BoolO True)" 4] by auto
qed

end
