(* ===== verification/Spec_Value.thy ===== *)
theory Spec_Value
  imports Spec_Base
begin

unbundle bit_operations_syntax

text \<open>
  What the representation of values promises (\<open>navi.h\<close>, \<open>internal.h\<close>, \<open>macros.h\<close>): a word
  stands for one value, the dispatch on its tag finds the type of that value and knows every tag,
  and the arithmetic macros compute on the tagged words what the numbers they stand for give,
  wrapped around into the 63 bits a fixnum has.
\<close>

section \<open>Words and values\<close>

text \<open>
  C21: Reading back the word of a value gives the value, so two values have the same word exactly
  when they are the same value; \<open>navi_eqp\<close>, which compares values, compares words.
\<close>

theorem value_roundtrip:
  assumes "addressable x" and "addressable y"
  shows "word_obj (obj_word x) = x \<and> (obj_word x = obj_word y \<longleftrightarrow> navi_eqp x y)"
  using word_obj_obj_word [OF assms(1)] obj_word_inject [OF assms] by (simp add: navi_eqp_def)

theorem value_roundtrip_witness:
  "word_obj (obj_word (CharO 955)) = CharO 955 \<and> obj_word (CharO 955) \<noteq> obj_word (Ref 59)"
  using value_roundtrip [of "CharO 955" "Ref 59"] by (simp add: addressable_def navi_eqp_def)

lemma and_3_bits: "n AND 3 = 0 \<longleftrightarrow> \<not> bit n 0 \<and> \<not> bit (n :: 64 word) 1"
proof -
  have "n AND 3 = 0 \<longleftrightarrow> (\<forall>i. \<not> (bit n i \<and> i < 2))"
    unfolding and_3 by (auto simp: bit_eq_iff bit_take_bit_iff)
  also have "\<dots> \<longleftrightarrow> \<not> bit n 0 \<and> \<not> bit n 1" unfolding less_2_cases_iff One_nat_def by blast
  finally show ?thesis .
qed

lemma pointer_word:
  assumes "addressable (Ref a)"
  shows "obj_word (Ref a) AND 3 = 0" and "obj_word (Ref a) \<noteq> 0"
proof -
  have "unat (word_of_nat (16 * Suc a) :: 64 word) = 16 * Suc a"
    using assms by (intro high_ref) (simp add: addressable_def)
  then show "obj_word (Ref a) \<noteq> 0" by (auto simp: obj_word_def)
  show "obj_word (Ref a) AND 3 = 0"
    using low_bits [OF low_ref [of "Suc a"]] by (simp add: and_3_bits obj_word_def)
qed

lemma tagged_word:
  assumes "obj \<noteq> VoidO" and "\<And>a. obj \<noteq> Ref a"
  shows "obj_word obj AND 3 \<noteq> 0"
  using assms low_fix low_bits [OF low_bool] low_bits [OF low_char] tag_bits
  by (cases obj) (auto simp: and_3_bits obj_word_def)

text \<open>
  C22: The type dispatch on words knows every tag: whatever the word, one of its branches applies
  and the \<open>-1\<close> of \<open>navi_immediate_type\<close> is not returned.  On the word of a value of the heap it
  gives the type \<open>navi_type\<close> gives; a value is immediate exactly when it is neither void nor a
  heap object, and a pointer exactly when it is a heap object.
\<close>

theorem type_dispatch_correct:
  assumes "addressable obj" and "valid_obj st obj"
  shows "navi_type_word f w \<noteq> None \<and>
    navi_type_word (\<lambda>v. type_in st (word_obj v)) (obj_word obj) = Some (type_in st obj) \<and>
    navi_type obj st n = (Inr (type_in st obj), st) \<and>
    (navi_ptr_type (obj_word obj) \<longleftrightarrow> (\<exists>a. obj = Ref a)) \<and>
    (navi_is_immediate (obj_word obj) \<longleftrightarrow> obj \<noteq> VoidO \<and> (\<forall>a. obj \<noteq> Ref a))"
proof -
  have "navi_type_word f w \<noteq> None"
    using navi_immediate_type_total [of w] by (simp add: navi_type_word_def)
  moreover have "navi_ptr_type (obj_word obj) \<longleftrightarrow> (\<exists>a. obj = Ref a)"
    and "navi_is_immediate (obj_word obj) \<longleftrightarrow> obj \<noteq> VoidO \<and> (\<forall>a. obj \<noteq> Ref a)"
    using assms(1) tagged_word [of obj] pointer_word
    by (cases obj; auto simp: navi_ptr_type_def navi_is_immediate_def obj_word_def tag_defs)+
  ultimately show ?thesis
    using type_dispatch_refines [OF assms(1) navi_type_valid [OF assms(2)]] navi_type_valid [OF assms(2)]
    by blast
qed

theorem type_dispatch_correct_witness:
  "navi_type_word (\<lambda>_. NAVI_PAIR) 0x1E \<noteq> None \<and>
   navi_type_word (\<lambda>v. type_in (heap_of [pair_ob VoidO NilO]) (word_obj v)) (obj_word (Ref 0)) = Some NAVI_PAIR"
  using type_dispatch_correct [of "Ref 0" "heap_of [pair_ob VoidO NilO]" "\<lambda>_. NAVI_PAIR" "0x1E" 3] by (simp add: addressable_def)

section \<open>Arithmetic\<close>

text \<open>The number a 63-bit fixnum holds when the exact result is \<open>i\<close>.\<close>

definition wrap63 :: "int \<Rightarrow> int" where
  "wrap63 i = (i + 2 ^ 62) mod 2 ^ 63 - 2 ^ 62"

lemma sint_word63_wrap: "sint (word_of_int i :: 63 word) = wrap63 i"
  unfolding sint_sbintrunc' by (simp add: wrap63_def signed_take_bit_eq_take_bit_shift take_bit_eq_mod)

lemma wrap63_id: "- (2 ^ 62) \<le> i \<Longrightarrow> i < 2 ^ 62 \<Longrightarrow> wrap63 i = i"
  by (simp add: wrap63_def)

lemma word63_of_wrap [simp]: "(word_of_int (wrap63 i) :: 63 word) = word_of_int i"
  by (simp flip: sint_word63_wrap)

lemma fixnum_of_sint: "navi_make_fixnum (sint w) = Fixnum w"
  by (simp add: navi_make_fixnum_def)

lemma navi_fixnum_make: "navi_fixnum (navi_make_fixnum i) st n = (Inr (wrap63 i), st)"
  by (simp add: navi_make_fixnum_def sint_word63_wrap)

text \<open>The word of the fixnum made of a number.\<close>

abbreviation fixnum_word :: "int \<Rightarrow> 64 word" where
  "fixnum_word i \<equiv> obj_word (navi_make_fixnum i)"

lemma word63_zero: "(word_of_int j :: 63 word) = 0 \<longleftrightarrow> wrap63 j = 0"
  using sint_word63_wrap [of j] by (metis signed_0 word63_of_wrap word_of_int_0)

lemma word_ops_int:
  "navi_fixnum_plus (fixnum_word i) (fixnum_word j) = fixnum_word (i + j)"
  "navi_fixnum_minus (fixnum_word i) (fixnum_word j) = fixnum_word (i - j)"
  "navi_fixnum_times (fixnum_word i) (fixnum_word j) = fixnum_word (i * j)"
  "navi_fixnum_divide (fixnum_word i) (fixnum_word j) =
     (if wrap63 j = 0 then None else Some (fixnum_word (wrap63 i sdiv wrap63 j)))"
  "navi_fixnum_modulo (fixnum_word i) (fixnum_word j) =
     (if wrap63 j = 0 then None else Some (fixnum_word (wrap63 i smod wrap63 j)))"
  by (simp_all add: navi_make_fixnum_def navi_fixnum_plus_fixnum navi_fixnum_minus_fixnum
        navi_fixnum_times_fixnum navi_fixnum_divide_fixnum navi_fixnum_modulo_fixnum word63_zero
        sint_word63_wrap)

text \<open>
  C19: The arithmetic macros on tagged words: the word of a number holds the number wrapped around
  to 63 bits; sums, differences and products of two such words are the words of the exact results;
  quotient and remainder are those of the wrapped numbers, truncated towards zero, and there is
  none when the divisor is zero.
\<close>

theorem fixnum_macros_correct:
  "word_make_fixnum (word_of_int i) = fixnum_word i \<and>
   word_fixnum (fixnum_word i) = word_of_int (wrap63 i) \<and>
   navi_fixnum_plus (fixnum_word i) (fixnum_word j) = fixnum_word (i + j) \<and>
   navi_fixnum_minus (fixnum_word i) (fixnum_word j) = fixnum_word (i - j) \<and>
   navi_fixnum_times (fixnum_word i) (fixnum_word j) = fixnum_word (i * j) \<and>
   navi_fixnum_divide (fixnum_word i) (fixnum_word j) =
     (if wrap63 j = 0 then None else Some (fixnum_word (wrap63 i sdiv wrap63 j))) \<and>
   navi_fixnum_modulo (fixnum_word i) (fixnum_word j) =
     (if wrap63 j = 0 then None else Some (fixnum_word (wrap63 i smod wrap63 j)))"
  using word_ops_int [of i j]
  by (simp add: word_make_fixnum_obj word_fixnum_obj navi_make_fixnum_def sint_word63_wrap)

end
