(* ===== verification/Spec_Gc.thy ===== *)
theory Spec_Gc
  imports Navi_Gc Spec_Scope Spec_Value "HOL-Library.Multiset"
begin

unbundle bit_operations_syntax

text \<open>
  Properties of the garbage collector.  The objects a value reaches are defined on the heap
  independently of the marking code, and marking is shown to set the mark on exactly those,
  to end exactly on acyclic structures, and sweeping to take exactly the unmarked objects off
  the list and out of memory while the reference counts of the scopes stay covered.
\<close>

section \<open>Reachability\<close>

text \<open>The object at an address points to another one.\<close>

definition points :: "state \<Rightarrow> addr \<Rightarrow> addr \<Rightarrow> bool" where
  "points st a b \<longleftrightarrow> (\<exists>ob. heap st a = Some ob \<and> Ref b \<in> payload_refs (obj_data ob))"

definition reaches :: "state \<Rightarrow> navi_obj \<Rightarrow> addr set" where
  "reaches st x = (case x of Ref a \<Rightarrow> {b. (points st)\<^sup>*\<^sup>* a b} | _ \<Rightarrow> {})"

text \<open>No infinite path starts at the value.\<close>

definition acyclic_from :: "state \<Rightarrow> navi_obj \<Rightarrow> bool" where
  "acyclic_from st x \<longleftrightarrow> (\<forall>a. x = Ref a \<longrightarrow> Wellfounded.accp (\<lambda>b a. points st a b) a)"

lemma reaches_imm: "(\<And>a. x \<noteq> Ref a) \<Longrightarrow> reaches st x = {}"
  by (cases x) (auto simp: reaches_def)

lemma reaches_Ref: "heap st a = Some ob \<Longrightarrow> reaches st (Ref a) =
    insert a (\<Union>y \<in> payload_refs (obj_data ob). reaches st y)"
proof (intro set_eqI iffI)
  fix b
  assume ob: "heap st a = Some ob" and "b \<in> reaches st (Ref a)"
  then have "(points st)\<^sup>*\<^sup>* a b" by (simp add: reaches_def)
  then show "b \<in> insert a (\<Union>y \<in> payload_refs (obj_data ob). reaches st y)"
  proof (cases rule: converse_rtranclpE)
    case (step c)
    with ob show ?thesis by (intro insertI2 UN_I [of "Ref c"]) (auto simp: points_def reaches_def)
  qed simp
next
  fix b
  assume ob: "heap st a = Some ob" and "b \<in> insert a (\<Union>y \<in> payload_refs (obj_data ob). reaches st y)"
  then consider "b = a" | y where "y \<in> payload_refs (obj_data ob)" "b \<in> reaches st y" by auto
  then show "b \<in> reaches st (Ref a)"
  proof cases
    case 1
    then show ?thesis by (simp add: reaches_def)
  next
    case 2
    then obtain c where "y = Ref c" "(points st)\<^sup>*\<^sup>* c b" by (auto simp: reaches_def split: navi_obj.splits)
    with 2 ob show ?thesis
      by (auto simp: reaches_def points_def intro!: converse_rtranclp_into_rtranclp [of "points st" a c])
  qed
qed

section \<open>What the collector relies on\<close>

text \<open>
  The name of a procedure is a symbol, and the flag of a procedure says whether it has a body.
\<close>

definition named :: "state \<Rightarrow> navi_object \<Rightarrow> bool" where
  "named st ob \<longleftrightarrow> (case obj_data ob of
       PProc p \<Rightarrow> (\<exists>b i s. p_name p = Ref b \<and> heap st b = Some \<lparr>obj_type = NAVI_SYMBOL, obj_data = PSymbol s i\<rparr>) \<and>
         (case p_code p of Body _ \<Rightarrow> \<not> p_builtin p | CProc _ \<Rightarrow> p_builtin p)
     | _ \<Rightarrow> True)"

text \<open>Every object of the heap, reachable or not, has the structure of its type and refers to objects.\<close>

definition gc_ok :: "state \<Rightarrow> bool" where
  "gc_ok st \<longleftrightarrow> (\<forall>a ob. heap st a = Some ob \<longrightarrow> tag_ok ob \<and> named st ob \<and> addressable (Ref a) \<and>
     (\<forall>x \<in> payload_refs (obj_data ob). valid_obj st x))"

lemma gc_okD:
  assumes "gc_ok st" and "heap st a = Some ob"
  shows "tag_ok ob" and "named st ob" and "addressable (Ref a)"
    and "x \<in> payload_refs (obj_data ob) \<Longrightarrow> valid_obj st x"
  using assms unfolding gc_ok_def by blast+

text \<open>
  The objects that marking can visit: a vector or an escape that still has a field that was never
  written cannot be marked, and neither can a bounce, which \<open>gc_mark_obj\<close> takes for a pair.
\<close>

definition markable :: "navi_object \<Rightarrow> bool" where
  "markable ob \<longleftrightarrow> (case obj_data ob of
       PVector xs \<Rightarrow> None \<notin> set xs
     | PEscape _ arg \<Rightarrow> arg \<noteq> None
     | PThunk _ _ \<Rightarrow> obj_type ob \<noteq> NAVI_BOUNCE
     | _ \<Rightarrow> True)"

definition markable_at :: "state \<Rightarrow> addr \<Rightarrow> bool" where
  "markable_at st a \<longleftrightarrow> (\<forall>ob. heap st a = Some ob \<longrightarrow> markable ob)"

lemma ptr_type_iff: "addressable x \<Longrightarrow> navi_ptr_type (obj_word x) \<longleftrightarrow> (\<exists>a. x = Ref a)"
  using tagged_word [of x] pointer_word
  by (cases x; auto simp: navi_ptr_type_def obj_word_def tag_defs)

lemma ptr_type_imm: "(\<And>a. x \<noteq> Ref a) \<Longrightarrow> \<not> navi_ptr_type (obj_word x)"
  by (subst ptr_type_iff) (cases x; auto simp: addressable_def)+

section \<open>A visit of one object\<close>

text \<open>
  After setting the mark of an object, its visit goes through a list of steps: recursive calls,
  and marks set without a call (the name of a procedure).
\<close>

definition gc_steps :: "navi_object \<Rightarrow> (bool \<times> navi_obj option) list" where
  "gc_steps ob = (case obj_data ob of
       PPair x y \<Rightarrow> [(True, Some x), (True, Some y)]
     | PVector xs \<Rightarrow> map (\<lambda>e. (True, e)) xs
     | PPort p \<Rightarrow> [(True, Some (pt_expr p))]
     | PThunk e _ \<Rightarrow> [(True, if obj_type ob = NAVI_BOUNCE then None else Some e)]
     | PEscape _ arg \<Rightarrow> [(True, arg)]
     | PProc p \<Rightarrow> [(True, Some (p_args p)), (False, Some (p_name p))] @
         (case p_code p of Body b \<Rightarrow> [(True, Some b)] | CProc _ \<Rightarrow> [])
     | _ \<Rightarrow> [])"

definition visit :: "(navi_obj \<Rightarrow> unit gm) \<Rightarrow> bool \<times> navi_obj option \<Rightarrow> unit gm" where
  "visit mark s = (case snd s of None \<Rightarrow> stop Undef | Some x \<Rightarrow> if fst s then mark x else gc_set_mark x)"

lemma visit_simps [simp]: "visit mark (True, Some x) = mark x" "visit mark (False, Some x) = gc_set_mark x"
  "visit mark (c, None) = stop Undef"
  by (simp_all add: visit_def)

lemma markable_steps: "tag_ok ob \<Longrightarrow> markable ob \<longleftrightarrow> (\<forall>c. (c, None) \<notin> set (gc_steps ob))"
  by (auto simp: markable_def gc_steps_def image_iff split: payload.splits proc_code.splits) (metis not_None_eq)

text \<open>The steps visit what the object refers to; a bounce refers to more.\<close>

lemma gc_steps_refs: "(c, Some x) \<in> set (gc_steps ob) \<Longrightarrow> x \<in> payload_refs (obj_data ob)"
  by (auto simp: gc_steps_def split: payload.splits proc_code.splits if_splits)

lemma refs_gc_steps: "markable ob \<Longrightarrow> x \<in> payload_refs (obj_data ob) \<Longrightarrow> \<exists>c. (c, Some x) \<in> set (gc_steps ob)"
  by (auto simp: gc_steps_def markable_def image_iff split: payload.splits proc_code.splits)

text \<open>Setting the mark of a set of objects.\<close>

definition mark_all :: "addr set \<Rightarrow> gc_state \<Rightarrow> gc_state" where
  "mark_all R g = g\<lparr>gc_flags := (\<lambda>a. if a \<in> R then gc_flags g a OR NAVI_GC_MARK else gc_flags g a)\<rparr>"

lemma mark_all_simps [simp]: "mem (mark_all R g) = mem g" "mark_all {} g = g"
  "mark_all R (mark_all S g) = mark_all (S \<union> R) g"
  by (auto simp: mark_all_def or.assoc fun_eq_iff)

lemma gc_set_mark_run: "heap (mem g) a = Some ob \<Longrightarrow> gc_set_mark (Ref a) g n = (Inr (), mark_all {a} g)"
  by (auto simp: gc_set_mark_def set_flags_def bind_run on_mem_def mark_all_def fun_eq_iff)

lemma on_mem_at: "m (mem g) n = (Inr x, mem g) \<Longrightarrow> on_mem m g n = (Inr x, g)"
  by (simp add: on_mem_def)

text \<open>Computations in sequence.\<close>

primrec seqM :: "('x, 's, unit) run list \<Rightarrow> ('x, 's, unit) run" where
  "seqM [] = ret ()"
| "seqM (m # ms) = bind m (\<lambda>_. seqM ms)"

lemma foldM_unit: "foldM f xs () = seqM (map (\<lambda>x. f x ()) xs)"
proof (induction xs)
  case (Cons x xs)
  moreover have "foldM f xs = (\<lambda>_. foldM f xs ())" by (rule ext) simp
  ultimately show ?case by simp
qed simp

lemma mark_vector_steps:
  "map (\<lambda>x. case x of None \<Rightarrow> stop Undef | Some e \<Rightarrow> mark e) xs =
     map (visit mark) (map (\<lambda>e. (True, e)) xs)"
  by (auto split: option.split)

text \<open>The marking functions only change flags.\<close>

definition keeps_mem :: "'a gm \<Rightarrow> bool" where
  "keeps_mem m \<longleftrightarrow> (\<forall>g n. mem (snd (m g n)) = mem g)"

named_theorems keeps

lemma keeps_memD: "keeps_mem m \<Longrightarrow> m g n = (r, g') \<Longrightarrow> mem g' = mem g"
  by (metis keeps_mem_def snd_conv)

lemma keeps_bind [keeps]: "keeps_mem m \<Longrightarrow> (\<And>x. keeps_mem (f x)) \<Longrightarrow> keeps_mem (bind m f)"
  by (auto simp: keeps_mem_def bind_def split: prod.split sum.split) (metis snd_conv)+

lemma keeps_ret [keeps]: "keeps_mem (ret x)" and keeps_stop [keeps]: "keeps_mem (stop y)"
  by (simp_all add: keeps_mem_def)

lemma keeps_foldM [keeps]: "(\<And>x v. keeps_mem (f x v)) \<Longrightarrow> keeps_mem (foldM f xs v)"
  by (induction xs arbitrary: v) (auto intro!: keeps)

lemma keeps_read [keeps]: "(\<And>st n. snd (m st n) = st) \<Longrightarrow> keeps_mem (on_mem m)"
  by (simp add: keeps_mem_def on_mem_def split_beta)

lemma snd_deref [simp]: "snd (deref x st n) = st"
  by (auto simp: deref_def split: navi_obj.split option.split)

lemma snd_bind_deref: "(\<And>ob. snd (f ob st n) = st) \<Longrightarrow> snd (bind (deref x) f st n) = st"
  by (auto simp: bind_def deref_def split: navi_obj.split option.split)

lemma snd_accessors [simp]: "snd (navi_type x st n) = st" "snd (navi_pair x st n) = st"
  "snd (navi_vector x st n) = st" "snd (navi_procedure x st n) = st" "snd (navi_thunk x st n) = st"
  "snd (navi_port x st n) = st" "snd (navi_escape_arg x st n) = st"
  by (auto simp: navi_type_def navi_pair_def navi_vector_def navi_procedure_def navi_thunk_def
      navi_port_def navi_escape_arg_def intro!: snd_bind_deref split: navi_obj.split payload.split option.split)

lemma snd_car_cdr [simp]: "snd (navi_car x st n) = st" "snd (navi_cdr x st n) = st"
  by (auto simp: navi_car_def navi_cdr_def bind_def split: prod.split sum.split)
    (metis snd_accessors(2) snd_conv)+

lemma keeps_set_mark [keeps]: "keeps_mem (gc_set_mark x)"
  by (auto simp: gc_set_mark_def set_flags_def keeps_mem_def split: navi_obj.split)
    (auto simp: bind_def on_mem_def deref_def split: option.split)

lemma keeps_gc_mark_body:
  assumes "\<And>x. keeps_mem (mark x)"
  shows "keeps_mem (gc_mark_body mark obj)"
  unfolding gc_mark_body_def mark_pair_def mark_vector_def mark_proc_def
  by (auto intro!: keeps assms split: navi_type.split option.split proc_code.split)

lemma keeps_gc_mark_depth [keeps]: "keeps_mem (gc_mark_depth k obj)"
  by (induction k arbitrary: obj) (auto intro: keeps keeps_gc_mark_body)

lemma gc_mark_body_steps:
  assumes ok: "gc_ok (mem g)" and ob: "heap (mem g) a = Some ob" and mk: "\<And>x. keeps_mem (mark x)"
  shows "gc_mark_body mark (Ref a) g n = seqM (map (visit mark) (gc_steps ob)) (mark_all {a} g) n"
proof -
  note set = gc_set_mark_run [OF ob]
  have ptr: "navi_ptr_type (obj_word (Ref a))"
    using gc_okD(3) [OF ok ob] by (subst ptr_type_iff) auto
  have ty: "on_mem (navi_type (Ref a)) g n = (Inr (obj_type ob), g)"
    by (rule on_mem_at) (simp add: ob)
  note tag = gc_okD(1) [OF ok ob] and nm = gc_okD(2) [OF ok ob]
  have data: "on_mem (deref (Ref a)) (mark_all {a} g) n = (Inr ob, mark_all {a} g)"
    by (rule on_mem_at) (simp add: ob)
  show ?thesis
  proof (cases "obj_data ob")
    case (PPair x y)
    have car: "on_mem (navi_car (Ref a)) (mark_all {a} g) n = (Inr x, mark_all {a} g)"
      by (rule on_mem_at) (simp add: ob PPair)
    have "mark_pair mark (Ref a) g n = bind (mark x) (\<lambda>_. mark y) (mark_all {a} g) n"
    proof (cases "mark x (mark_all {a} g) n")
      case (Pair r g')
      then have "mem g' = mem g" using keeps_memD [OF mk] by fastforce
      then have "on_mem (navi_cdr (Ref a)) g' n = (Inr y, g')"
        by (intro on_mem_at) (simp add: ob PPair)
      then show ?thesis using Pair by (cases r) (simp_all add: mark_pair_def set car)
    qed
    then show ?thesis using PPair tag by (auto simp: gc_mark_body_def ptr ty gc_steps_def)
  next
    case (PVector xs)
    have "on_mem (navi_vector (Ref a)) (mark_all {a} g) n = (Inr xs, mark_all {a} g)"
      by (rule on_mem_at) (simp add: ob PVector)
    with PVector tag show ?thesis
      by (auto simp: gc_mark_body_def ptr ty set mark_vector_def foldM_unit mark_vector_steps gc_steps_def simp del: map_map)
  next
    case (PProc p)
    have "on_mem (navi_procedure (Ref a)) (mark_all {a} g) n = (Inr p, mark_all {a} g)"
      by (rule on_mem_at) (simp add: ob PProc)
    with PProc tag nm show ?thesis
      by (auto simp: gc_mark_body_def ptr ty set mark_proc_def named_def gc_steps_def bind_assoc foldM_unit split: proc_code.splits)
  next
    case (PThunk e env)
    have "on_mem (navi_thunk (Ref a)) (mark_all {a} g) n = (Inr (e, env), mark_all {a} g)"
      by (rule on_mem_at) (simp add: ob PThunk)
    moreover have "on_mem (navi_car (Ref a)) (mark_all {a} g) n = (Inl Undef, mark_all {a} g)"
      by (simp add: on_mem_def navi_car_def navi_pair_def bind_run deref_def ob PThunk)
    ultimately show ?thesis using PThunk tag
      by (auto simp: gc_mark_body_def ptr ty set mark_pair_def gc_steps_def)
  next
    case (PEscape env arg)
    have "on_mem (navi_escape_arg (Ref a)) (mark_all {a} g) n =
        (case arg of None \<Rightarrow> Inl Undef | Some x \<Rightarrow> Inr x, mark_all {a} g)"
      by (cases arg) (simp_all add: on_mem_def navi_escape_arg_def bind_run deref_def ob PEscape)
    with PEscape tag show ?thesis
      by (cases arg) (auto simp: gc_mark_body_def ptr ty set gc_steps_def)
  next
    case (PPort q)
    have "on_mem (navi_port (Ref a)) (mark_all {a} g) n = (Inr q, mark_all {a} g)"
      by (rule on_mem_at) (simp add: ob PPort navi_port_def)
    with PPort tag show ?thesis
      by (auto simp: gc_mark_body_def ptr ty set gc_steps_def)
  qed (use tag in \<open>auto simp: gc_mark_body_def ptr ty set gc_steps_def\<close>)
qed

section \<open>The result of marking\<close>

text \<open>
  A computation that sets the marks of a set of objects, and one that ends without a result for a
  reason in \<open>E\<close>: \<open>NoFuel\<close> for a recursion without end, \<open>Undef\<close> for an access with no meaning.
\<close>

definition marks :: "state \<Rightarrow> nat \<Rightarrow> addr set \<Rightarrow> unit gm \<Rightarrow> bool" where
  "marks st n R m \<longleftrightarrow> (\<forall>g. mem g = st \<longrightarrow> m g n = (Inr (), mark_all R g))"

definition fails :: "stop set \<Rightarrow> state \<Rightarrow> nat \<Rightarrow> unit gm \<Rightarrow> bool" where
  "fails E st n m \<longleftrightarrow> (\<forall>g. mem g = st \<longrightarrow> (\<exists>e \<in> E. fst (m g n) = Inl e))"

lemma marks_seqM:
  assumes "\<And>x. x \<in> set xs \<Longrightarrow> marks st n (R x) (f x)"
  shows "marks st n (\<Union>x \<in> set xs. R x) (seqM (map f xs))"
  using assms by (induction xs) (auto simp: marks_def)

lemma fails_seqM:
  assumes "\<And>x. x \<in> set xs \<Longrightarrow> fails E st n (f x) \<or> (\<exists>R. marks st n R (f x))"
    and "\<exists>x \<in> set xs. fails E st n (f x)"
  shows "fails E st n (seqM (map f xs))"
  using assms
proof (induction xs)
  case (Cons x xs)
  consider "fails E st n (f x)" | R where "marks st n R (f x)" "fails E st n (seqM (map f xs))"
    using Cons by auto
  then show ?case
  proof cases
    case 1
    show ?thesis
      unfolding fails_def
    proof (intro allI impI)
      fix g :: gc_state
      assume "mem g = st"
      with 1 obtain e where "e \<in> E" "fst (f x g n) = Inl e" by (auto simp: fails_def)
      then show "\<exists>e \<in> E. fst (seqM (map f (x # xs)) g n) = Inl e"
        by (cases "f x g n") auto
    qed
  next
    case 2
    then show ?thesis by (simp add: marks_def fails_def)
  qed
qed simp

lemma reaches_name:
  assumes "named st ob" and "(False, Some x) \<in> set (gc_steps ob)"
  shows "\<exists>b s i. x = Ref b \<and> reaches st x = {b} \<and> heap st b = Some \<lparr>obj_type = NAVI_SYMBOL, obj_data = PSymbol s i\<rparr>"
  using assms
  by (auto simp: gc_steps_def named_def reaches_Ref split: payload.splits proc_code.splits)

lemma marks_name:
  assumes "named st ob" and "(False, Some x) \<in> set (gc_steps ob)"
  shows "marks st n (reaches st x) (gc_set_mark x)"
  using reaches_name [OF assms] by (auto simp: marks_def gc_set_mark_run)

text \<open>What a step reaches.\<close>

definition step_reach :: "state \<Rightarrow> bool \<times> navi_obj option \<Rightarrow> addr set" where
  "step_reach st s = (case snd s of None \<Rightarrow> {} | Some x \<Rightarrow> reaches st x)"

lemma steps_reach:
  assumes "markable ob"
  shows "(\<Union>s \<in> set (gc_steps ob). step_reach st s) = (\<Union>x \<in> payload_refs (obj_data ob). reaches st x)"
proof (intro equalityI subsetI)
  fix b
  assume "b \<in> (\<Union>s \<in> set (gc_steps ob). step_reach st s)"
  then obtain c x where "(c, Some x) \<in> set (gc_steps ob)" "b \<in> reaches st x"
    by (auto simp: step_reach_def split: option.splits)
  then show "b \<in> (\<Union>x \<in> payload_refs (obj_data ob). reaches st x)" using gc_steps_refs by blast
next
  fix b
  assume "b \<in> (\<Union>x \<in> payload_refs (obj_data ob). reaches st x)"
  then obtain c x where "(c, Some x) \<in> set (gc_steps ob)" "b \<in> reaches st x"
    using refs_gc_steps [OF assms] by blast
  then show "b \<in> (\<Union>s \<in> set (gc_steps ob). step_reach st s)" by (force simp: step_reach_def)
qed

text \<open>Marking the children marks what the object reaches.\<close>

lemma marks_depth:
  assumes ok: "gc_ok st" and ob: "heap st a = Some ob" and mk: "markable ob"
    and ch: "\<And>x. (True, Some x) \<in> set (gc_steps ob) \<Longrightarrow> marks st n (reaches st x) (gc_mark_depth k x)"
  shows "marks st n (reaches st (Ref a)) (gc_mark_depth (Suc k) (Ref a))"
proof -
  have step: "marks st n (step_reach st s) (visit (gc_mark_depth k) s)" if s: "s \<in> set (gc_steps ob)" for s
  proof (cases s)
    case (Pair c y)
    moreover obtain x where "y = Some x"
      using s mk markable_steps [OF gc_okD(1) [OF ok ob]] unfolding Pair by (cases y) auto
    ultimately show ?thesis using s ch marks_name [OF gc_okD(2) [OF ok ob]]
      by (cases c) (auto simp: step_reach_def)
  qed
  have "marks st n (\<Union>s \<in> set (gc_steps ob). step_reach st s) (seqM (map (visit (gc_mark_depth k)) (gc_steps ob)))"
    by (rule marks_seqM [OF step])
  then show ?thesis
    using gc_mark_body_steps [where mark = "gc_mark_depth k", OF _ _ keeps_gc_mark_depth] ok ob
    by (simp add: marks_def reaches_Ref steps_reach [OF mk])
qed

text \<open>A step that cannot be done ends the visit.\<close>

lemma fails_depth:
  assumes ok: "gc_ok st" and ob: "heap st a = Some ob"
    and ch: "\<And>x. (True, Some x) \<in> set (gc_steps ob) \<Longrightarrow>
      fails E st n (gc_mark_depth k x) \<or> (\<exists>R. marks st n R (gc_mark_depth k x))"
    and E: "Undef \<in> E \<or> markable ob"
    and bad: "\<exists>s \<in> set (gc_steps ob). fails E st n (visit (gc_mark_depth k) s)"
  shows "fails E st n (gc_mark_depth (Suc k) (Ref a))"
proof -
  have "fails E st n (seqM (map (visit (gc_mark_depth k)) (gc_steps ob)))"
  proof (rule fails_seqM [OF _ bad])
    show "fails E st n (visit (gc_mark_depth k) s) \<or> (\<exists>R. marks st n R (visit (gc_mark_depth k) s))"
      if s: "s \<in> set (gc_steps ob)" for s
    proof (cases "snd s")
      case None
      then have "Undef \<in> E" using s E markable_steps [OF gc_okD(1) [OF ok ob]] by (cases s) auto
      then show ?thesis using None by (cases s) (simp add: fails_def)
    next
      case (Some x)
      then show ?thesis using s ch marks_name [OF gc_okD(2) [OF ok ob]] by (cases s; cases "fst s") auto
    qed
  qed
  then show ?thesis
    using gc_mark_body_steps [where mark = "gc_mark_depth k", OF _ _ keeps_gc_mark_depth] ok ob
    by (simp add: fails_def)
qed

section \<open>Termination of marking\<close>

lemma steps_valid: "gc_ok st \<Longrightarrow> heap st a = Some ob \<Longrightarrow> (c, Some y) \<in> set (gc_steps ob) \<Longrightarrow> valid_obj st y"
  using gc_steps_refs gc_okD(4) by blast

lemma step_reaches:
  "heap st a = Some ob \<Longrightarrow> (c, Some y) \<in> set (gc_steps ob) \<Longrightarrow> reaches st y \<subseteq> reaches st (Ref a)"
  using gc_steps_refs reaches_Ref by fastforce

text \<open>
  The reasons for which marking from a value may fail: a recursion without end, and, when not every
  object it reaches can be visited, an access with no meaning.
\<close>

definition reasons :: "stop set \<Rightarrow> state \<Rightarrow> navi_obj \<Rightarrow> bool" where
  "reasons E st x \<longleftrightarrow> NoFuel \<in> E \<and> (Undef \<in> E \<or> (\<forall>a \<in> reaches st x. markable_at st a))"

lemma reasons_self: "reasons E st (Ref a) \<Longrightarrow> heap st a = Some ob \<Longrightarrow> Undef \<in> E \<or> markable ob"
  by (auto simp: reasons_def reaches_Ref markable_at_def)

lemma reasons_step:
  "reasons E st (Ref a) \<Longrightarrow> heap st a = Some ob \<Longrightarrow> (c, Some y) \<in> set (gc_steps ob) \<Longrightarrow> reasons E st y"
  using step_reaches unfolding reasons_def by blast

text \<open>Whatever the depth allowed, a recursive call marks what it reaches or fails.\<close>

lemma mark_depth_cases:
  assumes "gc_ok st" and "valid_obj st x" and "reasons E st x"
  shows "fails E st n (gc_mark_depth k x) \<or> marks st n (reaches st x) (gc_mark_depth k x)"
  using assms(2,3)
proof (induction k arbitrary: x)
  case 0
  then show ?case by (auto simp: fails_def reasons_def)
next
  case (Suc k)
  show ?case
  proof (cases "\<exists>a. x = Ref a")
    case True
    then obtain a ob where x: "x = Ref a" and ob: "heap st a = Some ob" using Suc.prems by auto
    have ch: "fails E st n (gc_mark_depth k y) \<or> marks st n (reaches st y) (gc_mark_depth k y)"
      if "(True, Some y) \<in> set (gc_steps ob)" for y
      using Suc.IH steps_valid [OF assms(1) ob that] reasons_step [OF _ ob that] Suc.prems(2) x by blast
    note E = reasons_self [OF Suc.prems(2) [unfolded x] ob]
    show ?thesis
    proof (cases "\<exists>s \<in> set (gc_steps ob). fails E st n (visit (gc_mark_depth k) s)")
      case True
      then show ?thesis unfolding x using fails_depth [OF assms(1) ob _ E True] ch by blast
    next
      case False
      have "markable ob"
      proof (rule ccontr)
        assume "\<not> markable ob"
        then obtain c where "(c, None) \<in> set (gc_steps ob)" "Undef \<in> E"
          using markable_steps [OF gc_okD(1) [OF assms(1) ob]] E by auto
        moreover from this have "fails E st n (visit (gc_mark_depth k) (c, None))" by (auto simp: fails_def)
        ultimately show False using False by blast
      qed
      moreover have "marks st n (reaches st y) (gc_mark_depth k y)" if "(True, Some y) \<in> set (gc_steps ob)" for y
        using ch [OF that] False that by fastforce
      ultimately show ?thesis unfolding x using marks_depth [OF assms(1) ob] by blast
    qed
  next
    case False
    then show ?thesis
      using ptr_type_imm [of x] by (simp add: gc_mark_body_def marks_def reaches_imm)
  qed
qed

text \<open>On an acyclic structure of objects that can be visited some depth is enough, and every larger one.\<close>

lemma mark_depth_enough:
  assumes ok: "gc_ok st" and "Wellfounded.accp (\<lambda>b a. points st a b) a" and "heap st a \<noteq> None"
    and "\<forall>b \<in> reaches st (Ref a). markable_at st b"
  shows "\<exists>k. \<forall>k' \<ge> k. \<forall>n. marks st n (reaches st (Ref a)) (gc_mark_depth k' (Ref a))"
  using assms(2-4)
proof (induction a rule: accp.induct)
  case (accI a)
  then obtain ob where ob: "heap st a = Some ob" by auto
  have mk: "markable ob" using accI.prems(2) ob by (simp add: reaches_Ref markable_at_def)
  have child: "\<exists>k. \<forall>k' \<ge> k. \<forall>n. marks st n (reaches st y) (gc_mark_depth k' y)"
    if y: "y \<in> payload_refs (obj_data ob)" for y
  proof (cases "\<exists>b. y = Ref b")
    case True
    then obtain b where b: "y = Ref b" by auto
    then have "points st a b" using y ob by (auto simp: points_def)
    moreover have "heap st b \<noteq> None" using gc_okD(4) [OF ok ob y] b by auto
    moreover have "\<forall>c \<in> reaches st (Ref b). markable_at st c"
      using accI.prems(2) y unfolding reaches_Ref [OF ob] b by blast
    ultimately show ?thesis using accI.IH b by blast
  next
    case False
    have "marks st n (reaches st y) (gc_mark_depth k' y)" if "1 \<le> k'" for k' n
      using False ptr_type_imm [of y] that
      by (cases k') (auto simp: gc_mark_body_def marks_def reaches_imm)
    then show ?thesis by blast
  qed
  then obtain K where K: "\<And>y k' n. y \<in> payload_refs (obj_data ob) \<Longrightarrow> K y \<le> k' \<Longrightarrow>
      marks st n (reaches st y) (gc_mark_depth k' y)" by metis
  have fin: "finite (insert 0 ((\<lambda>s. K (the (snd s))) ` set (gc_steps ob)))" by simp
  define k where "k = Suc (Max (insert 0 ((\<lambda>s. K (the (snd s))) ` set (gc_steps ob))))"
  have "marks st n (reaches st (Ref a)) (gc_mark_depth k' (Ref a))" if "k \<le> k'" for k' n
  proof -
    obtain j where j: "k' = Suc j" using \<open>k \<le> k'\<close> k_def by (cases k') auto
    have "K y \<le> j" if y: "(True, Some y) \<in> set (gc_steps ob)" for y
    proof -
      have "K y \<le> Max (insert 0 ((\<lambda>s. K (the (snd s))) ` set (gc_steps ob)))"
        using y by (intro Max_ge [OF fin]) force
      also have "\<dots> \<le> j" using \<open>k \<le> k'\<close> unfolding k_def j Suc_le_mono .
      finally show ?thesis .
    qed
    then show ?thesis
      unfolding j using K gc_steps_refs by (intro marks_depth [OF ok ob mk]) blast
  qed
  then show ?case by blast
qed

text \<open>A value that marking cannot be done from: a cycle, or an object that cannot be visited, is behind it.\<close>

definition unmarkable_from :: "state \<Rightarrow> navi_obj \<Rightarrow> bool" where
  "unmarkable_from st x \<longleftrightarrow> \<not> acyclic_from st x \<or> (\<exists>a \<in> reaches st x. \<not> markable_at st a)"

lemma unmarkable_Ref: "unmarkable_from st x \<Longrightarrow> \<exists>a. x = Ref a"
  by (cases x) (auto simp: unmarkable_from_def acyclic_from_def reaches_def)

lemma unmarkable_child:
  assumes "unmarkable_from st (Ref a)" and ob: "heap st a = Some ob" and "markable ob"
  shows "\<exists>y \<in> payload_refs (obj_data ob). unmarkable_from st y"
  using assms(1) [unfolded unmarkable_from_def]
proof (elim disjE bexE)
  assume "\<not> acyclic_from st (Ref a)"
  then obtain b where b: "points st a b" "\<not> Wellfounded.accp (\<lambda>b a. points st a b) b"
    by (auto simp: acyclic_from_def) (meson accp.intros)
  then have "Ref b \<in> payload_refs (obj_data ob)" using ob by (auto simp: points_def)
  with b(2) show ?thesis by (auto simp: unmarkable_from_def acyclic_from_def)
next
  fix b
  assume "b \<in> reaches st (Ref a)" "\<not> markable_at st b"
  moreover have "markable_at st a" using ob assms(3) by (simp add: markable_at_def)
  ultimately have "\<exists>y \<in> payload_refs (obj_data ob). b \<in> reaches st y" unfolding reaches_Ref [OF ob] by auto
  with \<open>\<not> markable_at st b\<close> show ?thesis by (auto simp: unmarkable_from_def)
qed

lemma symbol_not_unmarkable:
  assumes "heap st b = Some \<lparr>obj_type = NAVI_SYMBOL, obj_data = PSymbol s i\<rparr>"
  shows "\<not> unmarkable_from st (Ref b)"
proof -
  have "\<not> points st b c" for c using assms by (auto simp: points_def)
  then have "acyclic_from st (Ref b)" by (auto simp: acyclic_from_def intro: accp.intros)
  moreover have "reaches st (Ref b) = {b}" "markable_at st b"
    using assms by (simp_all add: reaches_Ref markable_at_def markable_def)
  ultimately show ?thesis by (auto simp: unmarkable_from_def)
qed

text \<open>From such a value no depth is enough.\<close>

lemma mark_depth_unmarkable:
  assumes ok: "gc_ok st" and "unmarkable_from st x" and "valid_obj st x" and "reasons E st x"
  shows "fails E st n (gc_mark_depth k x)"
  using assms(2-4)
proof (induction k arbitrary: x)
  case 0
  then show ?case by (auto simp: fails_def reasons_def)
next
  case (Suc k)
  then obtain a ob where x: "x = Ref a" and ob: "heap st a = Some ob" using unmarkable_Ref by fastforce
  note E = reasons_self [OF Suc.prems(3) [unfolded x] ob] and st = reasons_step [OF Suc.prems(3) [unfolded x] ob]
  note tag = gc_okD(1) [OF ok ob]
  have "\<exists>s \<in> set (gc_steps ob). fails E st n (visit (gc_mark_depth k) s)"
  proof (cases "markable ob")
    case True
    then obtain y c where y: "unmarkable_from st y" "(c, Some y) \<in> set (gc_steps ob)"
      using unmarkable_child [OF Suc.prems(1) [unfolded x] ob] refs_gc_steps by blast
    have c
    proof (rule ccontr)
      assume "\<not> c"
      then show False using reaches_name [OF gc_okD(2) [OF ok ob], of y] y symbol_not_unmarkable by auto
    qed
    then show ?thesis using y Suc.IH [OF y(1) steps_valid [OF ok ob y(2)] st [OF y(2)]]
      by (intro bexI [of _ "(True, Some y)"]) auto
  next
    case False
    then obtain c where "(c, None) \<in> set (gc_steps ob)" "Undef \<in> E" using markable_steps [OF tag] E by auto
    then show ?thesis by (intro bexI [of _ "(c, None)"]) (auto simp: fails_def)
  qed
  moreover have "fails E st n (gc_mark_depth k y) \<or> (\<exists>R. marks st n R (gc_mark_depth k y))"
    if "(True, Some y) \<in> set (gc_steps ob)" for y
    using mark_depth_cases [OF ok steps_valid [OF ok ob that] st [OF that]] by blast
  ultimately show ?case unfolding x using fails_depth [OF ok ob _ E] by blast
qed

section \<open>Marking from the environments\<close>

definition scope_roots :: "navi_scope \<Rightarrow> navi_obj set" where
  "scope_roots sc = (\<Union>i < NAVI_ENV_HT_SIZE. fst ` set (bindings sc i) \<union> snd ` set (bindings sc i)) \<union>
     snd ` set (guards sc)"

definition gc_roots :: "state \<Rightarrow> navi_obj set" where
  "gc_roots st = (\<Union>s \<in> set (active_environments st).
     case scopes st s of None \<Rightarrow> {} | Some sc \<Rightarrow> scope_roots sc)"

text \<open>The active environments exist, bind symbols and hold references to objects that exist.\<close>

definition roots_ok :: "state \<Rightarrow> bool" where
  "roots_ok st \<longleftrightarrow> (\<forall>s \<in> set (active_environments st). \<exists>sc. scopes st s = Some sc \<and>
     (\<forall>x \<in> scope_roots sc. valid_obj st x) \<and>
     (\<forall>i < NAVI_ENV_HT_SIZE. \<forall>b \<in> set (bindings sc i). \<exists>a nm i'. fst b = Ref a \<and> symbol_at st a nm i'))"

abbreviation live_set :: "state \<Rightarrow> addr set" where
  "live_set st \<equiv> \<Union>x \<in> gc_roots st. reaches st x"

text \<open>The steps of marking one scope.\<close>

definition scope_steps :: "navi_scope \<Rightarrow> (bool \<times> navi_obj option) list" where
  "scope_steps sc = concat (map (\<lambda>i. concat (map (\<lambda>b. [(False, Some (fst b)), (True, Some (snd b))]) (bindings sc i)))
     [0..<NAVI_ENV_HT_SIZE]) @ map (\<lambda>gd. (True, Some (snd gd))) (guards sc)"

lemma seqM_append: "seqM (xs @ ys) = bind (seqM xs) (\<lambda>_. seqM ys)"
  by (induction xs) (simp_all add: bind_assoc)

lemma seqM_concat: "seqM (map (\<lambda>x. seqM (f x)) xs) = seqM (concat (map f xs))"
  by (induction xs) (simp_all add: seqM_append)

lemma gc_mark_env_steps:
  assumes "scopes (mem g) s = Some sc"
  shows "gc_mark_env s g n = seqM (map (visit gc_mark_obj) (scope_steps sc)) g n"
proof -
  have one: "(\<lambda>b. (case b of (symbol, object) \<Rightarrow> \<lambda>_. bind (gc_set_mark symbol) (\<lambda>_. gc_mark_obj object)) ()) =
      (\<lambda>b. seqM (map (visit gc_mark_obj) [(False, Some (fst b)), (True, Some (snd b))]))"
    by (rule ext) (simp add: split_beta)
  have guard: "(\<lambda>gd. (case gd of (g, obj) \<Rightarrow> \<lambda>_. gc_mark_obj obj) ()) =
      (\<lambda>gd. visit gc_mark_obj (True, Some (snd gd)))" by (rule ext) (simp add: split_beta)
  have "on_mem (deref_scope s) g n = (Inr sc, g)"
    by (rule on_mem_at) (simp add: deref_scope_run assms)
  then show ?thesis
    unfolding gc_mark_env_def foldM_unit one seqM_concat guard
    by (simp add: scope_steps_def seqM_append map_concat o_def)
qed

lemma scope_steps_roots: "snd ` set (scope_steps sc) = Some ` scope_roots sc"
  unfolding scope_steps_def scope_roots_def by (auto simp: image_iff atLeast0LessThan) force+

lemma scope_steps_Some: "(b, y) \<in> set (scope_steps sc) \<Longrightarrow> \<exists>x \<in> scope_roots sc. y = Some x"
  using scope_steps_roots [of sc] by (metis image_iff snd_conv)

lemma marks_obj: "marks st n R (gc_mark_obj x) \<longleftrightarrow> marks st n R (gc_mark_depth n x)"
  and fails_obj: "fails E st n (gc_mark_obj x) \<longleftrightarrow> fails E st n (gc_mark_depth n x)"
  by (simp_all add: marks_def fails_def gc_mark_obj_def)

lemma scope_name:
  assumes "roots_ok st" and "s \<in> set (active_environments st)" and "scopes st s = Some sc"
    and "(False, Some x) \<in> set (scope_steps sc)"
  shows "marks st n (reaches st x) (gc_set_mark x)" and "\<not> unmarkable_from st x"
proof -
  from assms(4) obtain i b where "i < NAVI_ENV_HT_SIZE" "b \<in> set (bindings sc i)" "x = fst b"
    by (auto simp: scope_steps_def)
  then obtain a nm i' where x: "x = Ref a" and sy: "symbol_at st a nm i'"
    using assms(1-3) unfolding roots_ok_def by fastforce
  then show "\<not> unmarkable_from st x" using symbol_not_unmarkable by blast
  have "reaches st x = {a}" using sy by (simp add: x reaches_Ref)
  then show "marks st n (reaches st x) (gc_set_mark x)"
    using sy by (auto simp: marks_def x intro: gc_set_mark_run)
qed

lemma scope_valid:
  assumes "roots_ok st" and "s \<in> set (active_environments st)" and "scopes st s = Some sc"
    and "(b, Some x) \<in> set (scope_steps sc)"
  shows "valid_obj st x" and "x \<in> gc_roots st"
proof -
  have "x \<in> scope_roots sc" using scope_steps_Some [OF assms(4)] by blast
  with assms(1-3) show "valid_obj st x" "x \<in> gc_roots st"
    unfolding roots_ok_def gc_roots_def by fastforce+
qed

lemma gc_roots_steps:
  assumes "x \<in> gc_roots st"
  obtains s sc b where "s \<in> set (active_environments st)" "scopes st s = Some sc" "(b, Some x) \<in> set (scope_steps sc)"
proof -
  from assms obtain s sc where s: "s \<in> set (active_environments st)" "scopes st s = Some sc" "x \<in> scope_roots sc"
    by (auto simp: gc_roots_def split: option.splits)
  then have "Some x \<in> snd ` set (scope_steps sc)" using scope_steps_roots [of sc] by blast
  then show ?thesis using that s(1,2) by force
qed

lemma gc_roots_valid: "roots_ok st \<Longrightarrow> x \<in> gc_roots st \<Longrightarrow> valid_obj st x"
  using scope_valid(1) by (metis gc_roots_steps)

text \<open>When every root ends within the budget, the marking sets the marks of all live objects.\<close>

lemma marks_env:
  assumes ok: "roots_ok st" and s: "s \<in> set (active_environments st)" "scopes st s = Some sc"
    and mk: "\<And>x. x \<in> gc_roots st \<Longrightarrow> marks st n (reaches st x) (gc_mark_obj x)"
  shows "marks st n (\<Union>x \<in> scope_roots sc. reaches st x) (gc_mark_env s)"
proof -
  have "marks st n (\<Union>c \<in> set (scope_steps sc). step_reach st c) (seqM (map (visit gc_mark_obj) (scope_steps sc)))"
  proof (rule marks_seqM)
    fix c
    assume c: "c \<in> set (scope_steps sc)"
    obtain b x where bx: "c = (b, Some x)" using scope_steps_Some [of "fst c" "snd c" sc] c by (cases c) auto
    show "marks st n (step_reach st c) (visit gc_mark_obj c)"
      using c scope_name(1) [OF ok s, of x n] mk [OF scope_valid(2) [OF ok s, of b x]] unfolding bx
      by (cases b) (simp_all add: step_reach_def)
  qed
  moreover have "(\<Union>c \<in> set (scope_steps sc). step_reach st c) = (\<Union>y \<in> snd ` set (scope_steps sc). case y of None \<Rightarrow> {} | Some x \<Rightarrow> reaches st x)"
    by (simp add: step_reach_def)
  then have "(\<Union>c \<in> set (scope_steps sc). step_reach st c) = (\<Union>x \<in> scope_roots sc. reaches st x)"
    unfolding scope_steps_roots by simp
  ultimately show ?thesis
    using gc_mark_env_steps s(2) by (simp add: marks_def)
qed

lemma marks_all:
  assumes ok: "roots_ok (mem g)" and "\<And>x. x \<in> gc_roots (mem g) \<Longrightarrow> marks (mem g) n (reaches (mem g) x) (gc_mark_obj x)"
  shows "gc_mark g n = (Inr (), mark_all (live_set (mem g)) g)"
proof -
  let ?R = "\<lambda>s. \<Union>x \<in> (case scopes (mem g) s of None \<Rightarrow> {} | Some sc \<Rightarrow> scope_roots sc). reaches (mem g) x"
  have "marks (mem g) n (\<Union>s \<in> set (active_environments (mem g)). ?R s)
      (seqM (map gc_mark_env (active_environments (mem g))))"
  proof (rule marks_seqM)
    fix s
    assume s: "s \<in> set (active_environments (mem g))"
    then obtain sc where sc: "scopes (mem g) s = Some sc" using ok by (auto simp: roots_ok_def)
    show "marks (mem g) n (?R s) (gc_mark_env s)" using marks_env [OF ok s sc assms(2)] by (simp add: sc)
  qed
  moreover have "(\<Union>s \<in> set (active_environments (mem g)). ?R s) = live_set (mem g)"
    unfolding gc_roots_def by auto
  ultimately show ?thesis by (simp add: gc_mark_def bind_run foldM_unit marks_def)
qed

lemma mark_obj_enough:
  assumes "gc_ok st" and "valid_obj st x" and "\<not> unmarkable_from st x"
  shows "\<exists>k. \<forall>n \<ge> k. marks st n (reaches st x) (gc_mark_obj x)"
proof (cases "\<exists>a. x = Ref a")
  case True
  then obtain a where x: "x = Ref a" by blast
  with assms obtain k where "\<forall>k' \<ge> k. \<forall>n. marks st n (reaches st (Ref a)) (gc_mark_depth k' (Ref a))"
    using mark_depth_enough [OF assms(1), of a] by (auto simp: unmarkable_from_def acyclic_from_def)
  then show ?thesis unfolding marks_obj x by blast
next
  case False
  have "marks st n (reaches st x) (gc_mark_obj x)" if "1 \<le> n" for n
    using that False ptr_type_imm [of x] unfolding marks_obj
    by (cases n) (auto simp: gc_mark_body_def marks_def reaches_imm)
  then show ?thesis by blast
qed

text \<open>When one root has a cycle or an object behind it that cannot be visited, marking fails.\<close>

lemma fails_all:
  assumes ok: "gc_ok (mem g)" "roots_ok (mem g)" and x: "x \<in> gc_roots (mem g)" "unmarkable_from (mem g) x"
    and E: "\<And>y. y \<in> gc_roots (mem g) \<Longrightarrow> reasons E (mem g) y"
  shows "\<exists>e \<in> E. fst (gc_mark g n) = Inl e"
proof -
  let ?st = "mem g"
  obtain s0 sc0 b0 where s0: "s0 \<in> set (active_environments ?st)" "scopes ?st s0 = Some sc0"
    "(b0, Some x) \<in> set (scope_steps sc0)" using gc_roots_steps [OF x(1)] .
  have either: "fails E ?st n (visit gc_mark_obj c) \<or> (\<exists>R. marks ?st n R (visit gc_mark_obj c))"
    if s: "s \<in> set (active_environments ?st)" "scopes ?st s = Some sc" and c: "c \<in> set (scope_steps sc)" for s sc c
  proof -
    obtain b y where y: "c = (b, Some y)" using scope_steps_Some [of "fst c" "snd c" sc] c by (cases c) auto
    note v = scope_valid [OF ok(2) s c [unfolded y]]
    show ?thesis
      using scope_name(1) [OF ok(2) s, of y n] mark_depth_cases [OF ok(1) v(1) E [OF v(2)], of n n] c unfolding y
      by (cases b) (auto simp: marks_obj fails_obj)
  qed
  have "fails E ?st n (seqM (map gc_mark_env (active_environments ?st)))"
  proof (rule fails_seqM)
    fix s
    assume s: "s \<in> set (active_environments ?st)"
    then obtain sc where sc: "scopes ?st s = Some sc" using ok(2) by (auto simp: roots_ok_def)
    show "fails E ?st n (gc_mark_env s) \<or> (\<exists>R. marks ?st n R (gc_mark_env s))"
    proof (cases "\<exists>c \<in> set (scope_steps sc). fails E ?st n (visit gc_mark_obj c)")
      case True
      have "fails E ?st n (seqM (map (visit gc_mark_obj) (scope_steps sc)))"
        by (rule fails_seqM [OF either [OF s sc] True])
      then show ?thesis using gc_mark_env_steps sc by (simp add: fails_def)
    next
      case False
      then obtain R where "\<And>c. c \<in> set (scope_steps sc) \<Longrightarrow> marks ?st n (R c) (visit gc_mark_obj c)"
        using either [OF s sc] by metis
      then have "marks ?st n (\<Union>c \<in> set (scope_steps sc). R c) (seqM (map (visit gc_mark_obj) (scope_steps sc)))"
        by (rule marks_seqM)
      then have "marks ?st n (\<Union>c \<in> set (scope_steps sc). R c) (gc_mark_env s)"
        using gc_mark_env_steps sc by (simp add: marks_def)
      then show ?thesis by blast
    qed
  next
    have "b0" using scope_name(2) [OF ok(2) s0(1,2), of x] s0(3) x(2) by (cases b0) auto
    then have "fails E ?st n (visit gc_mark_obj (b0, Some x))"
      using mark_depth_unmarkable [OF ok(1) x(2) _ E [OF x(1)]] scope_valid(1) [OF ok(2) s0] by (simp add: fails_obj)
    then have "fails E ?st n (seqM (map (visit gc_mark_obj) (scope_steps sc0)))"
      using s0(3) by (intro fails_seqM [OF either [OF s0(1,2)]]) auto
    then have "fails E ?st n (gc_mark_env s0)"
      using gc_mark_env_steps s0(2) by (simp add: fails_def)
    with s0(1) show "\<exists>s \<in> set (active_environments ?st). fails E ?st n (gc_mark_env s)" by blast
  qed
  then show ?thesis by (simp add: gc_mark_def bind_run foldM_unit fails_def)
qed

lemma finite_bound:
  assumes "finite A" and "\<And>x. x \<in> A \<Longrightarrow> \<exists>k :: nat. \<forall>n \<ge> k. P x n"
  shows "\<exists>k. \<forall>n \<ge> k. \<forall>x \<in> A. P x n"
  using assms
proof (induction A)
  case (insert a A)
  then obtain k l where "\<forall>n \<ge> k. P a n" "\<forall>n \<ge> l. \<forall>x \<in> A. P x n" by fastforce
  then have "\<forall>n \<ge> max k l. \<forall>x \<in> insert a A. P x n" by auto
  then show ?case by blast
qed simp

lemma finite_roots: "finite (gc_roots st)"
  unfolding gc_roots_def scope_roots_def by (auto split: option.split)

text \<open>The state can be marked: no cycle, bounce or field that was never written is reachable from a root.\<close>

definition can_mark :: "state \<Rightarrow> bool" where
  "can_mark st \<longleftrightarrow> (\<forall>x \<in> gc_roots st. acyclic_from st x) \<and> (\<forall>a \<in> live_set st. markable_at st a)"

lemma can_mark_roots: "can_mark st \<longleftrightarrow> (\<forall>x \<in> gc_roots st. \<not> unmarkable_from st x)"
  by (auto simp: can_mark_def unmarkable_from_def)

lemma mark_enough:
  assumes "gc_ok (mem g)" and "roots_ok (mem g)" and "can_mark (mem g)"
  shows "\<exists>N. \<forall>n \<ge> N. gc_mark g n = (Inr (), mark_all (live_set (mem g)) g)"
proof -
  have "\<exists>k. \<forall>n \<ge> k. \<forall>x \<in> gc_roots (mem g). marks (mem g) n (reaches (mem g) x) (gc_mark_obj x)"
    using assms(3) gc_roots_valid [OF assms(2)] unfolding can_mark_roots
    by (intro finite_bound [OF finite_roots] mark_obj_enough [OF assms(1)]) auto
  then show ?thesis using marks_all [OF assms(2)] by blast
qed

lemma mark_never:
  assumes "gc_ok (mem g)" and "roots_ok (mem g)" and "\<not> can_mark (mem g)"
  shows "fst (gc_mark g n) \<in> {Inl NoFuel, Inl Undef}"
    and "\<forall>a \<in> live_set (mem g). markable_at (mem g) a \<Longrightarrow> fst (gc_mark g n) = Inl NoFuel"
proof -
  obtain x where x: "x \<in> gc_roots (mem g)" "unmarkable_from (mem g) x" using assms(3) can_mark_roots by blast
  show "fst (gc_mark g n) \<in> {Inl NoFuel, Inl Undef}"
    using fails_all [OF assms(1,2) x, of "{NoFuel, Undef}"] by (auto simp: reasons_def)
  show "fst (gc_mark g n) = Inl NoFuel" if "\<forall>a \<in> live_set (mem g). markable_at (mem g) a"
    using fails_all [OF assms(1,2) x, of "{NoFuel}"] that by (auto simp: reasons_def)
qed

text \<open>
  C12: Marking from the active environments, on a heap whose objects have the structure of their
  types, ends exactly when no cycle, no bounce and no field that was never written can be reached
  from a binding or a guard; bounces and cycles in garbage do no harm.  It then sets the mark of
  exactly the objects reachable from the bindings and guards and changes nothing else.  With a cycle
  it recurs without end whatever the stack allows, since \<open>gc_mark_obj\<close> does not test the mark before
  it recurs; with a bounce or an unwritten field, which it would follow as if it were a value, it
  has no result either.
\<close>

theorem gc_mark_correct:
  assumes "gc_ok (mem g)" and "roots_ok (mem g)"
  shows "if (\<forall>x \<in> gc_roots (mem g). acyclic_from (mem g) x) \<and> (\<forall>a \<in> live_set (mem g). markable_at (mem g) a)
    then \<exists>N. \<forall>n \<ge> N. gc_mark g n = (Inr (), mark_all (live_set (mem g)) g)
    else (\<forall>n. fst (gc_mark g n) \<in> {Inl NoFuel, Inl Undef}) \<and>
      ((\<forall>a \<in> live_set (mem g). markable_at (mem g) a) \<longrightarrow> (\<forall>n. fst (gc_mark g n) = Inl NoFuel))"
  using mark_enough [OF assms] mark_never [OF assms] unfolding can_mark_def by presburger

text \<open>
  A state whose only scope guards a pair: with \<open>t\<close> a reference to the pair itself the list is
  circular.
\<close>

definition guarding :: "navi_obj \<Rightarrow> gc_state" where
  "guarding t = \<lparr>mem = (heap_of [pair_ob (BoolO True) t, pair_ob EofO NilO])
       \<lparr>scopes := [0 \<mapsto> (empty_scope None 1)\<lparr>guards := [(0, Ref 0)]\<rparr>], sc_next := 1,
        active_environments := [0]\<rparr>,
     gc_flags = (\<lambda>_. 0), slh_first = Some 1, sle_next = [1 \<mapsto> 0], gc_bytes = 64, gc_objects = 2,
     gc_threshold = 0, gc_disabled = 0\<rparr>"

lemma guarding_simps [simp]:
  "scopes (mem (guarding t)) = [0 \<mapsto> (empty_scope None 1)\<lparr>guards := [(0, Ref 0)]\<rparr>]"
  "active_environments (mem (guarding t)) = [0]" "gc_flags (guarding t) a = 0"
  "heap (mem (guarding t)) a = (if a = 0 then Some (pair_ob (BoolO True) t)
     else if a = 1 then Some (pair_ob EofO NilO) else None)"
  by (simp_all add: guarding_def)

lemma guarding_ok: "t \<in> {NilO, Ref 0} \<Longrightarrow> gc_ok (mem (guarding t)) \<and> roots_ok (mem (guarding t))"
  by (auto simp: gc_ok_def roots_ok_def named_def addressable_def valid_obj_def scope_roots_def
      empty_scope_def new_scope_def)

lemma guarding_markable: "markable_at (mem (guarding t)) a"
  by (simp add: markable_at_def markable_def)

lemma guarding_roots: "gc_roots (mem (guarding t)) = {Ref 0}"
  by (auto simp: gc_roots_def scope_roots_def empty_scope_def new_scope_def)

lemma guarding_points: "points (mem (guarding t)) a b \<longleftrightarrow> a = 0 \<and> t = Ref b"
  by (auto simp: points_def)

lemma guarding_cyclic: "\<not> acyclic_from (mem (guarding (Ref 0))) (Ref 0)"
proof -
  have "\<not> Wellfounded.accp (\<lambda>b a. points (mem (guarding (Ref 0))) a b) a" if "a = 0" for a
  proof
    assume "Wellfounded.accp (\<lambda>b a. points (mem (guarding (Ref 0))) a b) a"
    then show False using \<open>a = 0\<close> by (induction a rule: accp.induct) (auto simp: guarding_points)
  qed
  then show ?thesis by (simp add: acyclic_from_def)
qed

theorem gc_mark_correct_witness:
  "fst (gc_mark (guarding (Ref 0)) 1000000) = Inl NoFuel \<and>
   (\<exists>N. \<forall>n \<ge> N. \<exists>g'. gc_mark (guarding NilO) n = (Inr (), g') \<and> gc_is_marked (gc_flags g' 0) \<and>
      \<not> gc_is_marked (gc_flags g' 1))"
proof
  show "fst (gc_mark (guarding (Ref 0)) 1000000) = Inl NoFuel"
    using gc_mark_correct [of "guarding (Ref 0)"] guarding_ok [of "Ref 0"] guarding_cyclic guarding_markable
    by (auto simp: guarding_roots)
  have "acyclic_from (mem (guarding NilO)) (Ref 0)"
    by (auto simp: acyclic_from_def guarding_points intro: accp.intros)
  moreover have "reaches (mem (guarding NilO)) (Ref 0) = {0}"
    using reaches_Ref [of "mem (guarding NilO)" 0] by (auto simp: reaches_imm)
  ultimately obtain N where "\<forall>n \<ge> N. gc_mark (guarding NilO) n = (Inr (), mark_all {0} (guarding NilO))"
    using gc_mark_correct [of "guarding NilO"] guarding_ok [of NilO] guarding_markable by (auto simp: guarding_roots)
  then show "\<exists>N. \<forall>n \<ge> N. \<exists>g'. gc_mark (guarding NilO) n = (Inr (), g') \<and> gc_is_marked (gc_flags g' 0) \<and>
      \<not> gc_is_marked (gc_flags g' 1)"
    by (intro exI [of _ N] allI impI exI conjI) (auto simp: mark_all_def gc_is_marked_def NAVI_GC_MARK_def)
qed

section \<open>Reference counts\<close>

text \<open>
  \<open>counted\<close> says that every reference still to be dropped is counted: the references in the
  multiset and the links between scopes are at most the reference count of the scope they go
  to.  The scopes of \<open>D\<close> are being freed, and their links are no longer counted.
\<close>

definition linked :: "sid set \<Rightarrow> state \<Rightarrow> sid \<Rightarrow> sid set" where
  "linked D st t = {s. s \<notin> D \<and> (\<exists>sc. scopes st s = Some sc \<and> next_scope sc = Some t)}"

definition counted :: "sid set \<Rightarrow> state \<Rightarrow> sid multiset \<Rightarrow> bool" where
  "counted D st M \<longleftrightarrow> (\<forall>s sc. scopes st s = Some sc \<longrightarrow> s < sc_next st \<and> refs sc < 2 ^ 32 \<and>
       (\<forall>t. next_scope sc = Some t \<longrightarrow> t < s)) \<and>
     (\<forall>s. count M s + card (linked D st s) \<le> (case scopes st s of None \<Rightarrow> 0 | Some sc \<Rightarrow> refs sc))"

text \<open>What dropping references may do to the state: lower counts and free scopes.\<close>

definition shrunk :: "state \<Rightarrow> state \<Rightarrow> bool" where
  "shrunk st st' \<longleftrightarrow> (\<exists>S A. st' = st\<lparr>scopes := S, active_environments := A\<rparr>) \<and>
     (\<forall>s sc'. scopes st' s = Some sc' \<longrightarrow> (\<exists>sc r. scopes st s = Some sc \<and> sc' = sc\<lparr>refs := r\<rparr>)) \<and>
     (\<forall>s. s \<in> set (active_environments st') \<longleftrightarrow>
        s \<in> set (active_environments st) \<and> (scopes st s \<noteq> None \<longrightarrow> scopes st' s \<noteq> None))"

lemma shrunkI:
  assumes "st' = st\<lparr>scopes := S, active_environments := A\<rparr>"
    and "\<And>s sc'. S s = Some sc' \<Longrightarrow> \<exists>sc r. scopes st s = Some sc \<and> sc' = sc\<lparr>refs := r\<rparr>"
    and "\<And>s. s \<in> set A \<longleftrightarrow> s \<in> set (active_environments st) \<and> (scopes st s \<noteq> None \<longrightarrow> S s \<noteq> None)"
  shows "shrunk st st'"
  unfolding shrunk_def using assms by auto

lemma shrunk_refl [simp]: "shrunk st st"
proof (rule shrunkI)
  show "st = st\<lparr>scopes := scopes st, active_environments := active_environments st\<rparr>" by simp
  show "\<exists>sc r. scopes st s = Some sc \<and> sc' = sc\<lparr>refs := r\<rparr>" if "scopes st s = Some sc'" for s sc'
    using that by (intro exI [of _ sc'] exI [of _ "refs sc'"]) simp
qed simp

lemma shrunk_scope:
  assumes "shrunk st st'" and "scopes st' s = Some sc'"
  obtains sc r where "scopes st s = Some sc" and "sc' = sc\<lparr>refs := r\<rparr>"
  using assms unfolding shrunk_def by blast

lemma shrunk_trans: "shrunk st st' \<Longrightarrow> shrunk st' st'' \<Longrightarrow> shrunk st st''"
proof -
  assume a: "shrunk st st'" and b: "shrunk st' st''"
  have sc: "\<exists>sc r. scopes st s = Some sc \<and> sc'' = sc\<lparr>refs := r\<rparr>" if s: "scopes st'' s = Some sc''" for s sc''
  proof -
    obtain sc' r where sc': "scopes st' s = Some sc'" "sc'' = sc'\<lparr>refs := r\<rparr>" by (rule shrunk_scope [OF b s])
    obtain sc r' where "scopes st s = Some sc" "sc' = sc\<lparr>refs := r'\<rparr>" by (rule shrunk_scope [OF a sc'(1)])
    with sc' show ?thesis by (intro exI [of _ sc] exI [of _ r]) simp
  qed
  obtain S A S' A' where st: "st' = st\<lparr>scopes := S, active_environments := A\<rparr>"
    "st'' = st'\<lparr>scopes := S', active_environments := A'\<rparr>" using a b unfolding shrunk_def by blast
  show ?thesis
  proof (rule shrunkI)
    show "st'' = st\<lparr>scopes := S', active_environments := A'\<rparr>" using st by simp
    show "\<exists>sc r. scopes st s = Some sc \<and> sc' = sc\<lparr>refs := r\<rparr>" if "S' s = Some sc'" for s sc'
      using sc [of s sc'] that st(2) by simp
    show "s \<in> set A' \<longleftrightarrow> s \<in> set (active_environments st) \<and> (scopes st s \<noteq> None \<longrightarrow> S' s \<noteq> None)" for s
      using a b unfolding shrunk_def st by simp blast
  qed
qed

lemma shrunk_simps:
  assumes "shrunk st st'"
  shows "heap st' = heap st" and "hp_next st' = hp_next st" and "sc_next st' = sc_next st"
    and "symbol_table st' = symbol_table st"
  using assms unfolding shrunk_def by auto

lemma countedD:
  assumes "counted D st M" and "scopes st s = Some sc"
  shows "s < sc_next st" and "refs sc < 2 ^ 32" and "next_scope sc = Some t \<Longrightarrow> t < s"
    and "count M s + card (linked D st s) \<le> refs sc"
proof -
  show "s < sc_next st" "refs sc < 2 ^ 32" "next_scope sc = Some t \<Longrightarrow> t < s"
    using assms unfolding counted_def by blast+
  from assms(1) have "count M s + card (linked D st s) \<le> (case scopes st s of None \<Rightarrow> 0 | Some sc \<Rightarrow> refs sc)"
    unfolding counted_def by blast
  then show "count M s + card (linked D st s) \<le> refs sc" using assms(2) by simp
qed

lemma counted_None:
  assumes "counted D st M" and "scopes st s = None"
  shows "count M s = 0" and "linked D st s = {}"
proof -
  from assms(1) have "count M s + card (linked D st s) \<le> (case scopes st s of None \<Rightarrow> 0 | Some sc \<Rightarrow> refs sc)"
    unfolding counted_def by blast
  moreover have "finite (linked D st s)"
    by (rule finite_subset [of _ "{..< sc_next st}"]) (use assms(1) in \<open>auto simp: linked_def counted_def\<close>)
  ultimately show "count M s = 0" "linked D st s = {}" using assms(2) by auto
qed

lemma counted_member:
  assumes "counted D st (add_mset s M)"
  shows "\<exists>sc. scopes st s = Some sc \<and> 0 < refs sc"
  using counted_None(1) [OF assms, of s] countedD(4) [OF assms, of s] by (cases "scopes st s") auto

lemma finite_linked: "counted D st M \<Longrightarrow> finite (linked D' st t)"
  by (rule finite_subset [of _ "{..< sc_next st}"]) (auto simp: linked_def counted_def)

lemma countedI:
  assumes "\<And>s sc. scopes st s = Some sc \<Longrightarrow> s < sc_next st \<and> refs sc < 2 ^ 32 \<and> (\<forall>t. next_scope sc = Some t \<longrightarrow> t < s)"
    and "\<And>s sc. scopes st s = Some sc \<Longrightarrow> count M s + card (linked D st s) \<le> refs sc"
    and "\<And>s. scopes st s = None \<Longrightarrow> count M s = 0 \<and> linked D st s = {}"
  shows "counted D st M"
  unfolding counted_def using assms by (auto split: option.split)

text \<open>The state after the count of a scope went down by one.\<close>

lemma counted_lower:
  assumes ct: "counted D st (add_mset s M)" and sc: "scopes st s = Some sc"
  shows "counted D (upd_scope st s (sc\<lparr>refs := refs sc - 1\<rparr>)) M"
proof (rule countedI)
  let ?st = "upd_scope st s (sc\<lparr>refs := refs sc - 1\<rparr>)"
  have lk: "linked D ?st t = linked D st t" for t
    using sc by (auto simp: linked_def)
  show "t < sc_next ?st \<and> refs tc < 2 ^ 32 \<and> (\<forall>u. next_scope tc = Some u \<longrightarrow> u < t)"
    if t: "scopes ?st t = Some tc" for t tc
    using t countedD(1-3) [OF ct, of t] countedD(1-3) [OF ct sc] by (cases "t = s") (auto simp: less_imp_diff_less)
  show "count M t + card (linked D ?st t) \<le> refs tc" if t: "scopes ?st t = Some tc" for t tc
    using t countedD(4) [OF ct, of t] countedD(4) [OF ct sc] unfolding lk by (cases "t = s") auto
  show "count M t = 0 \<and> linked D ?st t = {}" if t: "scopes ?st t = None" for t
    using t counted_None [OF ct, of t] unfolding lk by (cases "t = s") auto
qed

text \<open>Dropping a counted reference ends, and keeps the other references counted.\<close>

lemma unref_ref_count: "0 < r \<Longrightarrow> r < 2 ^ 32 \<Longrightarrow> (r + (2 ^ 32 - 1)) mod 2 ^ 32 = r - (1 :: nat)"
proof -
  assume "0 < r" "r < 2 ^ 32"
  then have "r + (2 ^ 32 - 1) = (r - 1) + 2 ^ 32" by simp
  then have "(r + (2 ^ 32 - 1)) mod 2 ^ 32 = (r - 1) mod 2 ^ 32" by (metis mod_add_self2)
  then show ?thesis using \<open>r < 2 ^ 32\<close> by simp
qed

text \<open>The scope is taken off the list and its link is dropped.\<close>

lemma counted_freeing:
  assumes ct: "counted D st M" and sc: "scopes st s = Some sc" "refs sc = 0" "s \<notin> D" "next_scope sc = Some t"
  shows "counted (insert s D) (st\<lparr>active_environments := A\<rparr>) (add_mset t M)"
proof (rule countedI)
  let ?st = "st\<lparr>active_environments := A\<rparr>"
  have sub: "linked (insert s D) ?st u = linked D st u - {s}" for u by (auto simp: linked_def)
  have st: "s \<in> linked D st t" using sc by (simp add: linked_def)
  show "u < sc_next ?st \<and> refs uc < 2 ^ 32 \<and> (\<forall>v. next_scope uc = Some v \<longrightarrow> v < u)"
    if "scopes ?st u = Some uc" for u uc
    using that countedD(1-3) [OF ct, of u uc] by auto
  show "count (add_mset t M) u + card (linked (insert s D) ?st u) \<le> refs uc"
    if u: "scopes ?st u = Some uc" for u uc
  proof (cases "u = t")
    case True
    have "card (linked D st t - {s}) = card (linked D st t) - 1" "0 < card (linked D st t)"
      using st finite_linked [OF ct] by (auto simp: card_gt_0_iff)
    with True countedD(4) [OF ct, of u uc] u show ?thesis unfolding sub by simp
  next
    case False
    have "card (linked D st u - {s}) \<le> card (linked D st u)"
      by (rule card_mono [OF finite_linked [OF ct]]) blast
    with False countedD(4) [OF ct, of u uc] u show ?thesis unfolding sub by simp
  qed
  show "count (add_mset t M) u = 0 \<and> linked (insert s D) ?st u = {}" if u: "scopes ?st u = None" for u
    using u counted_None [OF ct, of u] st unfolding sub by auto
qed

lemma counted_freed:
  assumes ct: "counted (insert s D) st M" and sc: "scopes st s = Some sc" "refs sc = 0"
  shows "counted D (st\<lparr>scopes := (scopes st)(s := None)\<rparr>) M"
proof (rule countedI)
  let ?st = "st\<lparr>scopes := (scopes st)(s := None)\<rparr>"
  have lk: "linked D ?st u = linked (insert s D) st u" for u by (auto simp: linked_def)
  show "u < sc_next ?st \<and> refs uc < 2 ^ 32 \<and> (\<forall>v. next_scope uc = Some v \<longrightarrow> v < u)"
    if "scopes ?st u = Some uc" for u uc
    using that countedD(1-3) [OF ct, of u uc] by (auto split: if_splits)
  show "count M u + card (linked D ?st u) \<le> refs uc" if u: "scopes ?st u = Some uc" for u uc
    using u countedD(4) [OF ct, of u] unfolding lk by (auto split: if_splits)
  show "count M u = 0 \<and> linked D ?st u = {}" if u: "scopes ?st u = None" for u
  proof (cases "u = s")
    case True
    then have "count M u + card (linked (insert s D) st u) = 0" using countedD(4) [OF ct sc(1)] sc(2) by simp
    then show ?thesis unfolding lk using finite_linked [OF ct] by auto
  next
    case False
    then show ?thesis using u counted_None [OF ct, of u] unfolding lk by auto
  qed
qed

lemma counted_freed_last:
  assumes ct: "counted D st M" and sc: "scopes st s = Some sc" "refs sc = 0" "next_scope sc = None"
  shows "counted D (st\<lparr>active_environments := A, scopes := (scopes st)(s := None)\<rparr>) M"
proof -
  have "linked (insert s D) (st\<lparr>active_environments := A\<rparr>) u = linked D st u" for u
    using sc by (auto simp: linked_def)
  then have "counted (insert s D) (st\<lparr>active_environments := A\<rparr>) M" using ct by (simp add: counted_def)
  from counted_freed [OF this, of sc] sc show ?thesis by simp
qed

lemma scope_unref_step:
  assumes sc: "scopes st s = Some sc" and pos: "0 < refs sc" "refs sc < 2 ^ 32"
    and "st1 = upd_scope st s (sc\<lparr>refs := refs sc - 1\<rparr>)"
  shows "scope_unref_depth (Suc j) s st n = (if refs sc = 1 then
       bind (case next_scope sc of None \<Rightarrow> ret () | Some t \<Rightarrow> scope_unref_depth j t)
         (\<lambda>_. modifies (\<lambda>st. st\<lparr>scopes := (scopes st)(s := None)\<rparr>))
         (st1\<lparr>active_environments := removeAll s (active_environments st)\<rparr>) n
     else (Inr (), st1))"
  using unref_ref_count [OF pos, simplified] pos(1)
  by (auto simp: bind_run update_scope_run [OF sc] deref_scope_run assms(4) split: option.split)

lemma refs_self [simp]: "\<exists>r. sc = (sc :: navi_scope)\<lparr>refs := r\<rparr>"
  by (rule exI [of _ "refs sc"]) simp

lemma scope_unref_run:
  assumes "s < k" and "counted D st (add_mset s M)" and "\<forall>d \<in> D. s < d"
  shows "\<exists>st'. scope_unref_depth k s st n = (Inr (), st') \<and> counted D st' M \<and> shrunk st st' \<and>
    (\<forall>u > s. scopes st' u = scopes st u)"
  using assms
proof (induction s arbitrary: k D st M rule: less_induct)
  case (less s)
  obtain j where k: "k = Suc j" using less.prems(1) by (cases k) auto
  obtain sc where sc: "scopes st s = Some sc" "0 < refs sc" using counted_member [OF less.prems(2)] by blast
  let ?sc = "sc\<lparr>refs := refs sc - 1\<rparr>" and ?s1 = "upd_scope st s (sc\<lparr>refs := refs sc - 1\<rparr>)"
  note step = scope_unref_step [OF sc countedD(2) [OF less.prems(2) sc(1)] refl, of j n, folded k]
  have ct1: "counted D ?s1 M" by (rule counted_lower [OF less.prems(2) sc(1)])
  have s1: "scopes ?s1 s = Some ?sc" by simp
  let ?A = "removeAll s (active_environments st)"
  let ?s2 = "?s1\<lparr>active_environments := ?A\<rparr>"
  show ?case
  proof (cases "refs sc = 1")
    case False
    have "shrunk st ?s1"
      by (rule shrunkI [where S = "(scopes st)(s \<mapsto> ?sc)" and A = "active_environments st"])
        (use sc in \<open>auto split: if_splits\<close>)
    then show ?thesis using False ct1
      by (simp add: step bind_run)
  next
    case True
    show ?thesis
    proof (cases "next_scope sc")
      case None
      let ?s3 = "?s2\<lparr>scopes := (scopes ?s2)(s := None)\<rparr>"
      have "scope_unref_depth k s st n = (Inr (), ?s3)"
        using True None by (simp add: step bind_run)
      moreover have "counted D ?s3 M"
        using counted_freed_last [OF ct1 s1, of ?A] True None by simp
      moreover have "shrunk st ?s3"
        by (rule shrunkI [where S = "(scopes st)(s := None)" and A = ?A])
          (use sc in \<open>auto split: if_splits\<close>)
      ultimately show ?thesis by (intro exI [of _ ?s3]) simp
    next
      case (Some t)
      have t: "t < s" "t < j" using countedD(3) [OF ct1 s1, of t] Some less.prems(1) k by auto
      have "counted (insert s D) ?s2 (add_mset t M)"
        using less.prems(3) Some True by (intro counted_freeing [OF ct1 s1]) auto
      moreover have "\<forall>d \<in> insert s D. t < d" using less.prems(3) t(1) by (auto intro: less_trans)
      ultimately obtain st' where st': "scope_unref_depth j t ?s2 n = (Inr (), st')"
        "counted (insert s D) st' M" "shrunk ?s2 st'" "\<forall>u > t. scopes st' u = scopes ?s2 u"
        using less.IH [OF t] by blast
      let ?s3 = "st'\<lparr>scopes := (scopes st')(s := None)\<rparr>"
      have at: "scopes st' s = Some ?sc" using st'(4) t(1) by simp
      have "scope_unref_depth k s st n = (Inr (), ?s3)"
        using True Some st'(1) by (simp add: step bind_run)
      moreover have "counted D ?s3 M" using True by (intro counted_freed [OF st'(2) at]) simp
      moreover have "shrunk st ?s3"
      proof -
        obtain S A where eq: "st' = ?s2\<lparr>scopes := S, active_environments := A\<rparr>"
          using st'(3) unfolding shrunk_def by blast
        show ?thesis
        proof (rule shrunkI)
          show "?s3 = st\<lparr>scopes := S(s := None), active_environments := A\<rparr>" by (simp add: eq)
          show "\<exists>uc r. scopes st u = Some uc \<and> uc' = uc\<lparr>refs := r\<rparr>" if u: "(S(s := None)) u = Some uc'" for u uc'
          proof -
            have "u \<noteq> s" "scopes st' u = Some uc'" using u by (auto simp: eq split: if_splits)
            then show ?thesis using st'(3) unfolding shrunk_def by fastforce
          qed
          show "u \<in> set A \<longleftrightarrow> u \<in> set (active_environments st) \<and>
              (scopes st u \<noteq> None \<longrightarrow> (S(s := None)) u \<noteq> None)" for u
            using st'(3) sc(1) unfolding shrunk_def eq by (cases "u = s") auto
        qed
      qed
      moreover have "\<forall>u > s. scopes ?s3 u = scopes st u" using st'(4) t(1) by auto
      ultimately show ?thesis by blast
    qed
  qed
qed

lemma navi_scope_unref_run:
  assumes "counted {} st (add_mset s M)"
  shows "\<exists>st'. navi_scope_unref s st n = (Inr (), st') \<and> counted {} st' M \<and> shrunk st st'"
proof -
  obtain sc where "scopes st s = Some sc" using counted_member [OF assms] by blast
  then have "s < Suc (sc_next st)" using countedD(1) [OF assms, of s sc] by simp
  from scope_unref_run [OF this assms, of n] show ?thesis
    by (auto simp: navi_scope_unref_def bind_run)
qed

lemma navi_env_unref_run:
  assumes "counted {} st (M + {#lexical env, dynamic env#})"
  shows "\<exists>st'. navi_env_unref env st n = (Inr (), st') \<and> counted {} st' M \<and> shrunk st st'"
proof -
  have "counted {} st (add_mset (lexical env) (add_mset (dynamic env) M))" using assms by simp
  from navi_scope_unref_run [OF this, of n] obtain s1 where s1: "navi_scope_unref (lexical env) st n = (Inr (), s1)"
    "counted {} s1 (add_mset (dynamic env) M)" "shrunk st s1" by blast
  from navi_scope_unref_run [OF s1(2), of n] obtain s2 where "navi_scope_unref (dynamic env) s1 n = (Inr (), s2)"
    "counted {} s2 M" "shrunk s1 s2" by blast
  with s1 show ?thesis by (auto simp: navi_env_unref_def intro: shrunk_trans)
qed

section \<open>Freeing an object\<close>

text \<open>The references to scopes that an object drops when it is freed.\<close>

definition scope_refs :: "navi_object \<Rightarrow> sid multiset" where
  "scope_refs ob = (case (obj_type ob, obj_data ob) of
       (NAVI_THUNK, PThunk _ env) \<Rightarrow> {#lexical env, dynamic env#}
     | (NAVI_BOUNCE, PThunk _ env) \<Rightarrow> {#lexical env, dynamic env#}
     | (NAVI_PROCEDURE, PProc p) \<Rightarrow> {#p_env p#}
     | (NAVI_ENVIRONMENT, PEnvironment env) \<Rightarrow> {#lexical env, dynamic env#}
     | _ \<Rightarrow> {#})"

lemma counted_heap [simp]: "counted D (st\<lparr>heap := h\<rparr>) M = counted D st M"
  by (simp add: counted_def linked_def)

lemma shrunk_heap: "shrunk (st\<lparr>heap := h\<rparr>) st' \<Longrightarrow> shrunk (st\<lparr>heap := h'\<rparr>) (st'\<lparr>heap := h'\<rparr>)"
proof -
  assume a: "shrunk (st\<lparr>heap := h\<rparr>) st'"
  then obtain S A where eq: "st' = st\<lparr>heap := h, scopes := S, active_environments := A\<rparr>"
    unfolding shrunk_def by blast
  have "st'\<lparr>heap := h'\<rparr> = (st\<lparr>heap := h'\<rparr>)\<lparr>scopes := S, active_environments := A\<rparr>" by (simp add: eq)
  then show ?thesis by (rule shrunkI) (use a in \<open>auto simp: shrunk_def eq\<close>)
qed

lemma object_size_ok: "tag_ok ob \<Longrightarrow> \<exists>sz. object_size ob = ret sz"
  by (auto simp: object_size_def split: payload.splits)

lemma navi_environment_at: "heap st a = Some ob \<Longrightarrow> obj_data ob = PEnvironment env \<Longrightarrow>
    navi_environment (Ref a) st n = (Inr env, st)"
  by (simp add: navi_environment_def)

lemma free_switch_run:
  assumes ob: "heap (mem g) a = Some ob" "tag_ok ob" "obj_type ob \<noteq> NAVI_SYMBOL"
    and ct: "counted {} (mem g) (M + scope_refs ob)"
  shows "\<exists>st'. free_switch a (obj_type ob) g n = (Inr (), g\<lparr>mem := st'\<rparr>) \<and> counted {} st' M \<and> shrunk (mem g) st'"
proof -
  let ?drop = "\<lambda>m :: unit gm. \<exists>st'. m g n = (Inr (), g\<lparr>mem := st'\<rparr>) \<and> counted {} st' M \<and> shrunk (mem g) st'"
  have none: "?drop (ret ())" if "scope_refs ob = {#}"
  proof -
    have "ret () g n = (Inr (), g\<lparr>mem := mem g\<rparr>) \<and> counted {} (mem g) M \<and> shrunk (mem g) (mem g)"
      using that ct by simp
    then show ?thesis by blast
  qed
  have env: "?drop (on_mem (navi_env_unref env))" if "scope_refs ob = {#lexical env, dynamic env#}" for env
    using navi_env_unref_run [of "mem g" M env n] ct that by (auto simp: on_mem_def)
  have scope: "?drop (on_mem (navi_scope_unref s))" if "scope_refs ob = {#s#}" for s
    using navi_scope_unref_run [of "mem g" s M n] ct that by (auto simp: on_mem_def)
  have thunk: "on_mem (navi_thunk (Ref a)) g n = (Inr (e, env), g)" if "obj_data ob = PThunk e env" for e env
    using that ob by (intro on_mem_at) simp
  have proc: "on_mem (navi_procedure (Ref a)) g n = (Inr p, g)" if "obj_data ob = PProc p" for p
    using that ob by (intro on_mem_at) simp
  have cap: "on_mem (navi_environment (Ref a)) g n = (Inr e, g)" if "obj_data ob = PEnvironment e" for e
    using that ob by (intro on_mem_at) (simp add: navi_environment_at)
  show ?thesis
  proof (cases "obj_type ob \<in> {NAVI_THUNK, NAVI_BOUNCE, NAVI_PROCEDURE, NAVI_ENVIRONMENT}")
    case True
    show ?thesis
    proof (cases "obj_data ob")
      case (PThunk e env)
      then have "scope_refs ob = {#lexical env, dynamic env#}" using ob(2) by (auto simp: scope_refs_def)
      then show ?thesis using env [of env] thunk [OF PThunk] ob(2) PThunk by (auto simp: free_switch_def)
    next
      case (PProc p)
      then have "scope_refs ob = {#p_env p#}" using ob(2) True by (auto simp: scope_refs_def)
      then show ?thesis using scope [of "p_env p"] proc [OF PProc] ob(2) True PProc by (auto simp: free_switch_def)
    next
      case (PEnvironment e)
      then have "scope_refs ob = {#lexical e, dynamic e#}" using ob(2) by (auto simp: scope_refs_def)
      then show ?thesis using env [of e] cap [OF PEnvironment] ob(2) PEnvironment by (auto simp: free_switch_def)
    qed (use ob(2) True in auto)
  next
    case False
    then have sw: "free_switch a (obj_type ob) = ret ()" and sr: "scope_refs ob = {#}"
      using ob(3) by (cases "obj_type ob"; auto simp: free_switch_def scope_refs_def)+
    show ?thesis unfolding sw by (rule none [OF sr])
  qed
qed

lemma navi_free_run:
  assumes ob: "heap (mem g) a = Some ob" "tag_ok ob" "obj_type ob \<noteq> NAVI_SYMBOL"
    and ct: "counted {} (mem g) (M + scope_refs ob)"
  shows "\<exists>st' b. navi_free a g n = (Inr (), g\<lparr>mem := st'\<lparr>heap := (heap (mem g))(a := None)\<rparr>,
      gc_bytes := b, gc_objects := gc_objects g - 1\<rparr>) \<and> counted {} st' M \<and> shrunk (mem g) st'"
proof -
  obtain sz where sz: "object_size ob = ret sz" using object_size_ok [OF ob(2)] by blast
  let ?b = "gc_bytes g - of_nat (16 + sz)"
  let ?g = "g\<lparr>gc_bytes := ?b, gc_objects := gc_objects g - 1\<rparr>"
  have "on_mem (deref (Ref a)) g n = (Inr ob, g)" by (rule on_mem_at) (simp add: ob(1))
  moreover have "on_mem (object_size ob) g n = (Inr sz, g)" by (rule on_mem_at) (simp add: sz)
  moreover obtain st' where st': "free_switch a (obj_type ob) ?g n = (Inr (), ?g\<lparr>mem := st'\<rparr>)"
      "counted {} st' M" "shrunk (mem g) st'"
    using free_switch_run [of ?g a ob M n] ob ct by auto
  ultimately have "navi_free a g n = (Inr (), ?g\<lparr>mem := st'\<lparr>heap := (heap st')(a := None)\<rparr>\<rparr>)"
    by (simp add: navi_free_def bind_run release_memory_def on_mem_def del: of_nat_add)
  with st'(2,3) shrunk_simps(1) [OF st'(3)] show ?thesis
    by (intro exI [of _ st'] exI [of _ ?b]) simp
qed

section \<open>The list of the heap\<close>

text \<open>The objects from a pointer to another along the links, and to the end of the list.\<close>

primrec spath :: "(addr \<Rightarrow> addr option) \<Rightarrow> addr option \<Rightarrow> addr list \<Rightarrow> addr option \<Rightarrow> bool" where
  "spath nx p [] q \<longleftrightarrow> p = q"
| "spath nx p (a # as) q \<longleftrightarrow> p = Some a \<and> spath nx (nx a) as q"

abbreviation slist :: "(addr \<Rightarrow> addr option) \<Rightarrow> addr option \<Rightarrow> addr list \<Rightarrow> bool" where
  "slist nx p as \<equiv> spath nx p as None"

lemma spath_append: "spath nx p (as @ bs) q \<longleftrightarrow> (\<exists>r. spath nx p as r \<and> spath nx r bs q)"
  by (induction as arbitrary: p) auto

lemma spath_update [simp]: "e \<notin> set as \<Longrightarrow> spath (nx(e := v)) p as q = spath nx p as q"
  by (induction as arbitrary: p) auto

text \<open>Taking the object after \<open>ks\<close> off the list, as the sweep does.\<close>

lemma slist_remove:
  assumes "slist nx p (ks @ a # as)" and "distinct (ks @ a # as)" and "ks \<noteq> [] \<Longrightarrow> e = Some (last ks)"
    and "nx = sle_next g" and "p = slh_first g"
  shows "\<exists>p' nx'. (if slh_first g = Some a then slist_remove_head else slist_remove_after e) g n =
      (Inr (), g\<lparr>slh_first := p', sle_next := nx'\<rparr>) \<and> slist nx' p' (ks @ as)"
proof (cases ks rule: rev_cases)
  case Nil
  then show ?thesis using assms by (intro exI [of _ "nx a"] exI [of _ nx]) (simp add: slist_remove_head_def)
next
  case (snoc js l)
  have path: "spath nx p js (Some l)" "nx l = Some a" "slist nx (nx a) as"
    using assms(1) by (auto simp: snoc spath_append)
  have "slh_first g \<noteq> Some a" using path(1) assms(2,5) snoc by (cases js) auto
  moreover have "slist (nx(l := nx a)) p (ks @ as)"
    using path assms(2) by (auto simp: snoc spath_append)
  ultimately show ?thesis using assms(3,4,5) path(2)
    by (intro exI [of _ p] exI [of _ "nx(l := nx a)"]) (simp add: slist_remove_after_def snoc)
qed

section \<open>The sweep\<close>

definition survives :: "gc_state \<Rightarrow> addr \<Rightarrow> bool" where
  "survives g a \<longleftrightarrow> gc_is_marked (gc_flags g a) \<or> gc_is_protected (gc_flags g a) \<or>
     (\<exists>ob. heap (mem g) a = Some ob \<and> obj_type ob = NAVI_SYMBOL)"

definition held :: "state \<Rightarrow> addr \<Rightarrow> sid multiset" where
  "held st a = (case heap st a of None \<Rightarrow> {#} | Some ob \<Rightarrow> scope_refs ob)"

abbreviation held_by :: "state \<Rightarrow> addr list \<Rightarrow> sid multiset" where
  "held_by st as \<equiv> (\<Sum>a \<in># mset as. held st a)"

text \<open>The memory after a sweep over the objects \<open>as\<close>.\<close>

definition swept :: "gc_state \<Rightarrow> addr list \<Rightarrow> gc_state \<Rightarrow> bool" where
  "swept g as g' \<longleftrightarrow>
     heap (mem g') = (\<lambda>a. if a \<in> set as \<and> \<not> survives g a then None else heap (mem g) a) \<and>
     shrunk ((mem g)\<lparr>heap := heap (mem g')\<rparr>) (mem g') \<and>
     gc_flags g' = (\<lambda>a. if a \<in> set as then gc_flags g a AND NOT NAVI_GC_MARK else gc_flags g a) \<and>
     gc_objects g' = gc_objects g - of_nat (length (filter (Not \<circ> survives g) as)) \<and>
     gc_disabled g' = gc_disabled g"

lemma held_by_cong: "(\<And>a. a \<in> set as \<Longrightarrow> heap st' a = heap st a) \<Longrightarrow> held_by st' as = held_by st as"
  by (intro arg_cong [where f = sum_mset] image_mset_cong) (simp add: held_def)

lemma is_marked_bit: "gc_is_marked fl \<longleftrightarrow> bit fl 0"
  by (simp add: gc_is_marked_def NAVI_GC_MARK_def and_one_eq mod_2_eq_odd bit_0)

lemma unmarked_clear: "\<not> gc_is_marked fl \<Longrightarrow> fl AND NOT NAVI_GC_MARK = fl"
  unfolding is_marked_bit NAVI_GC_MARK_def
  by (rule bit_word_eqI) (auto simp: bit_and_iff bit_not_iff bit_1_iff intro: gr0I)

lemma sweep_step:
  assumes "heap (mem g) a = Some ob"
  shows "gc_sweep_loop (Suc k) (Some a) kept g n =
    (if gc_is_marked (gc_flags g a)
     then gc_sweep_loop k (sle_next g a) (Some a)
       (g\<lparr>gc_flags := (gc_flags g)(a := gc_flags g a AND NOT NAVI_GC_MARK)\<rparr>) n
     else if survives g a then gc_sweep_loop k (sle_next g a) (Some a) g n
     else bind (if slh_first g = Some a then slist_remove_head else slist_remove_after kept)
       (\<lambda>_. bind (navi_free a) (\<lambda>_. gc_sweep_loop k (sle_next g a) kept)) g n)"
proof -
  have "on_mem (deref (Ref a)) g n = (Inr ob, g)" by (rule on_mem_at) (simp add: assms)
  then show ?thesis
    using assms by (auto simp: bind_run survives_def gc_clear_mark_def set_flags_def)
qed

lemma sweep_loop_run:
  assumes "slist (sle_next g) (slh_first g) (ks @ as)" and "distinct (ks @ as)"
    and "ks \<noteq> [] \<Longrightarrow> kept = Some (last ks)" and "length as < k" and "spath (sle_next g) p as None"
    and "\<forall>a \<in> set as. \<exists>ob. heap (mem g) a = Some ob \<and> tag_ok ob"
    and "counted {} (mem g) (M + held_by (mem g) as)"
  shows "\<exists>g'. gc_sweep_loop k p kept g n = (Inr (), g') \<and> swept g as g' \<and>
    slist (sle_next g') (slh_first g') (ks @ filter (survives g) as) \<and>
    counted {} (mem g') (M + held_by (mem g) (filter (survives g) as))"
  using assms
proof (induction as arbitrary: g ks k kept p M)
  case Nil
  then obtain j where "k = Suc j" by (cases k) auto
  then show ?case using Nil by (intro exI [of _ g]) (simp add: swept_def)
next
  case (Cons a as)
  obtain j where k: "k = Suc j" and j: "length as < j" using Cons.prems(4) by (cases k) auto
  obtain ob where ob: "heap (mem g) a = Some ob" "tag_ok ob" using Cons.prems(6) by auto
  have p: "p = Some a" "spath (sle_next g) (sle_next g a) as None" using Cons.prems(5) by auto
  have na: "a \<notin> set as" "distinct ((ks @ [a]) @ as)" using Cons.prems(2) by auto
  note step = sweep_step [OF ob(1), of j kept n, folded k]
  have "held_by (mem g) (a # as) = held_by (mem g) as + scope_refs ob" by (simp add: held_def ob(1))
  then have ct: "counted {} (mem g) (M + held_by (mem g) as + scope_refs ob)"
    using Cons.prems(7) by (simp add: ac_simps)
  show ?case
  proof (cases "survives g a")
    case True
    let ?g1 = "g\<lparr>gc_flags := (gc_flags g)(a := gc_flags g a AND NOT NAVI_GC_MARK)\<rparr>"
    have go: "gc_sweep_loop k p kept g n = gc_sweep_loop j (sle_next g a) (Some a) ?g1 n"
    proof (cases "gc_is_marked (gc_flags g a)")
      case False
      then have "?g1 = g" by (simp add: unmarked_clear)
      with step False True show ?thesis by (simp add: p(1))
    qed (use step in \<open>simp add: p(1)\<close>)
    have sv: "survives ?g1 b = survives g b" if "b \<in> set as" for b
      using that na(1) by (auto simp: survives_def)
    obtain g' where g': "gc_sweep_loop j (sle_next g a) (Some a) ?g1 n = (Inr (), g')" "swept ?g1 as g'"
      "slist (sle_next g') (slh_first g') ((ks @ [a]) @ filter (survives ?g1) as)"
      "counted {} (mem g') (M + scope_refs ob + held_by (mem ?g1) (filter (survives ?g1) as))"
      using Cons.IH [of ?g1 "ks @ [a]" "Some a" j "sle_next g a" "M + scope_refs ob"] Cons.prems(1,6) na(2) j p(2) ct
      by (auto simp: ac_simps)
    have fl: "filter (survives ?g1) as = filter (survives g) as" by (rule filter_cong) (simp_all add: sv)
    have nf: "filter (Not \<circ> survives ?g1) as = filter (Not \<circ> survives g) as"
      by (rule filter_cong) (simp_all add: sv)
    have "swept g (a # as) g'"
      using g'(2) True na(1) sv unfolding swept_def nf by (auto simp: fun_eq_iff)
    moreover have "held_by (mem g) (filter (survives g) (a # as)) = scope_refs ob + held_by (mem g) (filter (survives g) as)"
      using True by (simp add: held_def ob(1))
    ultimately show ?thesis using g'(1) g'(3,4) [unfolded fl] go True
      by (intro exI [of _ g']) (simp add: add.assoc add.commute add.left_commute)
  next
    case False
    then have nm: "\<not> gc_is_marked (gc_flags g a)" "obj_type ob \<noteq> NAVI_SYMBOL" by (auto simp: survives_def ob(1))
    obtain p' nx' where rm: "(if slh_first g = Some a then slist_remove_head else slist_remove_after kept) g n =
        (Inr (), g\<lparr>slh_first := p', sle_next := nx'\<rparr>)" "slist nx' p' (ks @ as)"
      using slist_remove [OF Cons.prems(1,2,3) refl refl] by blast
    let ?g1 = "g\<lparr>slh_first := p', sle_next := nx'\<rparr>"
    obtain st' b where fr: "navi_free a ?g1 n = (Inr (), ?g1\<lparr>mem := st'\<lparr>heap := (heap (mem g))(a := None)\<rparr>,
        gc_bytes := b, gc_objects := gc_objects g - 1\<rparr>)" "counted {} st' (M + held_by (mem g) as)"
      "shrunk (mem g) st'"
      using navi_free_run [of ?g1 a ob "M + held_by (mem g) as" n] ob nm(2) ct by auto
    define g2 where "g2 = ?g1\<lparr>mem := st'\<lparr>heap := (heap (mem g))(a := None)\<rparr>, gc_bytes := b, gc_objects := gc_objects g - 1\<rparr>"
    have g2: "mem g2 = st'\<lparr>heap := (heap (mem g))(a := None)\<rparr>" "gc_flags g2 = gc_flags g" "slh_first g2 = p'"
      "sle_next g2 = nx'" "gc_objects g2 = gc_objects g - 1" "gc_disabled g2 = gc_disabled g"
      by (simp_all add: g2_def)
    have go: "gc_sweep_loop k p kept g n = gc_sweep_loop j (sle_next g a) kept g2 n"
      using step nm(1) False rm(1) fr(1) by (simp add: bind_run p(1) g2_def cong: if_cong)
    have same: "heap (mem g2) c = heap (mem g) c" if "c \<in> set as" for c using that na(1) by (auto simp: g2)
    have hb: "held_by (mem g2) bs = held_by (mem g) bs" if "set bs \<subseteq> set as" for bs
      by (rule held_by_cong) (use that same in blast)
    have sv: "survives g2 c = survives g c" if "c \<in> set as" for c
      using that na(1) by (auto simp: survives_def g2)
    obtain r where "spath nx' r as None" using rm(2) by (auto simp: spath_append)
    then have "spath nx' (sle_next g a) as None" using p(2) by (cases as) auto
    then obtain g' where g': "gc_sweep_loop j (sle_next g a) kept g2 n = (Inr (), g')" "swept g2 as g'"
      "slist (sle_next g') (slh_first g') (ks @ filter (survives g2) as)"
      "counted {} (mem g') (M + held_by (mem g2) (filter (survives g2) as))"
      using Cons.IH [of g2 ks kept j "sle_next g a" M] Cons.prems(2,3,6) j rm(2) fr(2) hb [of as] same na(1)
      by (auto simp: g2)
    have fl: "filter (survives g2) as = filter (survives g) as" by (rule filter_cong) (simp_all add: sv)
    have nf: "filter (Not \<circ> survives g2) as = filter (Not \<circ> survives g) as"
      by (rule filter_cong) (simp_all add: sv)
    note sw = g'(2) [unfolded swept_def]
    have hp: "heap (mem g') c = (if c \<in> set (a # as) \<and> \<not> survives g c then None else heap (mem g) c)" for c
    proof -
      from sw have "heap (mem g') c = (if c \<in> set as \<and> \<not> survives g2 c then None else heap (mem g2) c)" by metis
      then show ?thesis using False na(1) sv by (cases "c = a") (auto simp: g2)
    qed
    have fg: "gc_flags g' c = (if c \<in> set (a # as) then gc_flags g c AND NOT NAVI_GC_MARK else gc_flags g c)" for c
    proof -
      from sw have "gc_flags g' c = (if c \<in> set as then gc_flags g2 c AND NOT NAVI_GC_MARK else gc_flags g2 c)" by metis
      then show ?thesis using unmarked_clear [OF nm(1)] by (cases "c = a") (auto simp: g2)
    qed
    have "shrunk ((mem g)\<lparr>heap := heap (mem g')\<rparr>) (st'\<lparr>heap := heap (mem g')\<rparr>)"
      using shrunk_heap [where st = "mem g" and h = "heap (mem g)" and h' = "heap (mem g')"] fr(3) by simp
    moreover have "shrunk ((mem g2)\<lparr>heap := heap (mem g')\<rparr>) (mem g')" using sw by blast
    then have "shrunk (st'\<lparr>heap := heap (mem g')\<rparr>) (mem g')" unfolding g2(1) by simp
    ultimately have sh: "shrunk ((mem g)\<lparr>heap := heap (mem g')\<rparr>) (mem g')" by (rule shrunk_trans)
    have "swept g (a # as) g'"
      unfolding swept_def
    proof (intro conjI)
      show "gc_objects g' = gc_objects g - of_nat (length (filter (Not \<circ> survives g) (a # as)))"
        using sw nf False by (simp add: g2)
      show "gc_disabled g' = gc_disabled g" using sw by (simp add: g2)
    qed (use hp fg sh in auto)
    then show ?thesis using g'(1,3,4) go False hb [of "filter (survives g) as"]
      by (intro exI [of _ g']) (simp add: fl)
  qed
qed

lemma gc_sweep_run:
  assumes "slist (sle_next g) (slh_first g) as" and "distinct as" and "length as < n"
    and "\<forall>a \<in> set as. \<exists>ob. heap (mem g) a = Some ob \<and> tag_ok ob"
    and "counted {} (mem g) (held_by (mem g) as)"
  shows "\<exists>g'. gc_sweep g n = (Inr (), g') \<and> swept g as g' \<and>
    slist (sle_next g') (slh_first g') (filter (survives g) as) \<and>
    counted {} (mem g') (held_by (mem g') (filter (survives g) as))"
proof -
  obtain g' where g': "gc_sweep_loop n (slh_first g) (slh_first g) g n = (Inr (), g')" "swept g as g'"
    "slist (sle_next g') (slh_first g') (filter (survives g) as)"
    "counted {} (mem g') (held_by (mem g) (filter (survives g) as))"
    using sweep_loop_run [of g "[]" as "slh_first g" n "slh_first g" "{#}"] assms by auto
  have "held_by (mem g') (filter (survives g) as) = held_by (mem g) (filter (survives g) as)"
    by (rule held_by_cong) (use g'(2) in \<open>simp add: swept_def\<close>)
  with g' show ?thesis by (simp add: gc_sweep_def bind_run)
qed

text \<open>
  C13: The sweep ends, takes exactly the objects that are neither marked, protected nor symbols
  off the linked list and out of memory, keeps the order of the others, clears every mark and
  counts the objects; the references to scopes that the freed objects held are dropped, and
  those of the others stay counted, so no scope in use is freed.
\<close>

theorem gc_sweep_correct:
  assumes "slist (sle_next g) (slh_first g) as" and "distinct as" and "length as < n"
    and "\<forall>a \<in> set as. \<exists>ob. heap (mem g) a = Some ob \<and> tag_ok ob"
    and "counted {} (mem g) (held_by (mem g) as)"
  shows "\<exists>g'. gc_sweep g n = (Inr (), g') \<and> swept g as g' \<and>
    slist (sle_next g') (slh_first g') (filter (survives g) as) \<and>
    counted {} (mem g') (held_by (mem g') (filter (survives g) as))"
  by (rule gc_sweep_run [OF assms])

text \<open>The guarded pair is marked and a second one is not; a thunk holds the only scope twice.\<close>

definition before_sweep :: gc_state where
  "before_sweep = \<lparr>mem = (heap_of [pair_ob (BoolO True) NilO, pair_ob EofO NilO,
       \<lparr>obj_type = NAVI_THUNK, obj_data = PThunk NilO some_env\<rparr>])
       \<lparr>scopes := [0 \<mapsto> empty_scope None 3], sc_next := 1, active_environments := [0]\<rparr>,
     gc_flags = (\<lambda>a. if a = 0 then 1 else 0), slh_first = Some 2, sle_next = [2 \<mapsto> 1, 1 \<mapsto> 0],
     gc_bytes = 64, gc_objects = 3, gc_threshold = 0, gc_disabled = 0\<rparr>"

theorem gc_sweep_correct_witness:
  "\<exists>g'. gc_sweep before_sweep 10 = (Inr (), g') \<and> slist (sle_next g') (slh_first g') [0] \<and>
     heap (mem g') 1 = None \<and> heap (mem g') 2 = None \<and> heap (mem g') 0 \<noteq> None \<and> gc_objects g' = 1"
proof -
  let ?as = "[2, 1, 0]"
  have heap: "heap (mem before_sweep) 2 = Some \<lparr>obj_type = NAVI_THUNK, obj_data = PThunk NilO some_env\<rparr>"
    "heap (mem before_sweep) (Suc 0) = Some (pair_ob EofO NilO)"
    "heap (mem before_sweep) 0 = Some (pair_ob (BoolO True) NilO)"
    "scopes (mem before_sweep) = [0 \<mapsto> empty_scope None 3]" "sc_next (mem before_sweep) = 1"
    by (simp_all add: before_sweep_def numeral_2_eq_2)
  have lk: "linked {} (mem before_sweep) s = {}" for s by (auto simp: linked_def heap split: if_splits)
  have "held_by (mem before_sweep) ?as = {#0, 0#}"
    by (simp add: held_def heap scope_refs_def some_env_def)
  then have "counted {} (mem before_sweep) (held_by (mem before_sweep) ?as)"
    by (intro countedI) (auto simp: heap lk split: if_splits)
  moreover have "slist (sle_next before_sweep) (slh_first before_sweep) ?as" by (simp add: before_sweep_def)
  moreover have "\<forall>a \<in> set ?as. \<exists>ob. heap (mem before_sweep) a = Some ob \<and> tag_ok ob" by (simp add: heap)
  ultimately obtain g' where g': "gc_sweep before_sweep 10 = (Inr (), g')" "swept before_sweep ?as g'"
    "slist (sle_next g') (slh_first g') (filter (survives before_sweep) ?as)"
    using gc_sweep_correct [of before_sweep ?as 10] by auto
  have sv: "survives before_sweep 0" "\<not> survives before_sweep 1" "\<not> survives before_sweep 2"
    by (simp_all add: survives_def heap) (simp_all add: before_sweep_def gc_is_marked_def
        gc_is_protected_def NAVI_GC_MARK_def)
  have "gc_objects g' = 1" using g'(2) sv by (simp add: swept_def) (simp add: before_sweep_def)
  with g' sv heap show ?thesis by (auto simp: swept_def)
qed

section \<open>A whole collection\<close>

lemma is_protected_bit: "gc_is_protected fl \<longleftrightarrow> bit fl 1"
proof -
  have "gc_is_protected fl \<longleftrightarrow> fl AND push_bit 1 1 \<noteq> 0"
    by (simp add: gc_is_protected_def NAVI_GC_PROTECT_def)
  also have "\<dots> \<longleftrightarrow> bit fl 1" using and_exp_eq_0_iff_not_bit [of fl 1] by (simp add: push_bit_of_1)
  finally show ?thesis .
qed

lemma marked_flags [simp]:
  "gc_is_marked (fl OR NAVI_GC_MARK)" "gc_is_protected (fl OR NAVI_GC_MARK) = gc_is_protected fl"
  "\<not> gc_is_marked (fl AND NOT NAVI_GC_MARK)" "gc_is_protected (fl AND NOT NAVI_GC_MARK) = gc_is_protected fl"
  by (simp_all add: is_marked_bit is_protected_bit NAVI_GC_MARK_def bit_or_iff bit_and_iff bit_not_iff bit_1_iff)

text \<open>
  What holds between two collections: every object is on the list, no mark is set, the scopes
  the objects refer to are counted, and protected objects are atomic.
\<close>

definition gc_inv :: "gc_state \<Rightarrow> addr list \<Rightarrow> bool" where
  "gc_inv g as \<longleftrightarrow> gc_ok (mem g) \<and> roots_ok (mem g) \<and>
     slist (sle_next g) (slh_first g) as \<and> distinct as \<and> dom (heap (mem g)) = set as \<and>
     counted {} (mem g) (held_by (mem g) as) \<and> (\<forall>a. \<not> gc_is_marked (gc_flags g a)) \<and>
     (\<forall>a ob. gc_is_protected (gc_flags g a) \<longrightarrow> heap (mem g) a = Some ob \<longrightarrow> payload_refs (obj_data ob) = {})"

definition needed :: "gc_state \<Rightarrow> addr \<Rightarrow> bool" where
  "needed g a \<longleftrightarrow> a \<in> live_set (mem g) \<or> gc_is_protected (gc_flags g a) \<or>
     (\<exists>ob. heap (mem g) a = Some ob \<and> obj_type ob = NAVI_SYMBOL)"

lemma survives_mark_all:
  "(\<And>a. \<not> gc_is_marked (gc_flags g a)) \<Longrightarrow> survives (mark_all (live_set (mem g)) g) a = needed g a"
  unfolding survives_def needed_def by (auto simp: mark_all_def)

lemma reaches_step: "a \<in> reaches st x \<Longrightarrow> points st a b \<Longrightarrow> b \<in> reaches st x"
  by (cases x) (auto simp: reaches_def)

lemma live_child:
  assumes "a \<in> live_set st" and "heap st a = Some ob" and "Ref b \<in> payload_refs (obj_data ob)"
  shows "b \<in> live_set st"
proof -
  have "points st a b" using assms(2,3) by (auto simp: points_def)
  with assms(1) show ?thesis using reaches_step by blast
qed

lemma needed_child:
  assumes "gc_inv g as" and "needed g a" and "heap (mem g) a = Some ob" and "Ref b \<in> payload_refs (obj_data ob)"
  shows "needed g b"
proof -
  have refs: "payload_refs (obj_data ob) \<noteq> {}" using assms(4) by blast
  have "tag_ok ob" using assms(1,3) gc_okD(1) unfolding gc_inv_def by blast
  then have "obj_type ob \<noteq> NAVI_SYMBOL" using refs by (cases "obj_data ob") auto
  moreover have "\<not> gc_is_protected (gc_flags g a)" using assms(1,3) refs unfolding gc_inv_def by blast
  ultimately have "a \<in> live_set (mem g)" using assms(2,3) by (simp add: needed_def)
  then have "b \<in> live_set (mem g)" by (rule live_child [OF _ assms(3,4)])
  then show ?thesis unfolding needed_def by blast
qed

lemma needed_root:
  assumes "gc_inv g as" and "Ref a \<in> gc_roots (mem g)"
  shows "needed g a"
proof -
  have "a \<in> reaches (mem g) (Ref a)" by (simp add: reaches_def)
  then show ?thesis using assms(2) unfolding needed_def by blast
qed

lemma reaches_valid:
  assumes "gc_ok st" and "valid_obj st x" and "a \<in> reaches st x"
  shows "heap st a \<noteq> None"
proof -
  from assms(3) obtain r where x: "x = Ref r" "(points st)\<^sup>*\<^sup>* r a"
    by (auto simp: reaches_def split: navi_obj.splits)
  from x(2) show ?thesis
  proof (induction rule: rtranclp_induct)
    case base
    then show ?case using assms(2) x(1) by auto
  next
    case (step b c)
    then obtain ob where "heap st b = Some ob" "Ref c \<in> payload_refs (obj_data ob)" by (auto simp: points_def)
    then show ?case using gc_okD(4) [OF assms(1), of b ob "Ref c"] by auto
  qed
qed

lemma live_valid:
  assumes "gc_inv g as" and "a \<in> live_set (mem g)"
  shows "a \<in> set as"
proof -
  from assms(2) obtain x where x: "x \<in> gc_roots (mem g)" "a \<in> reaches (mem g) x" by auto
  then have "valid_obj (mem g) x" using assms(1) gc_roots_valid unfolding gc_inv_def by blast
  then have "a \<in> dom (heap (mem g))" using reaches_valid [OF _ _ x(2)] assms(1) unfolding gc_inv_def by blast
  then show ?thesis using assms(1) by (simp add: gc_inv_def)
qed

lemma swept_gc_ok:
  assumes inv: "gc_inv g as" and heap: "\<And>c. heap st c = (if needed g c then heap (mem g) c else None)"
  shows "gc_ok st"
proof -
  have ok: "gc_ok (mem g)" using inv by (simp add: gc_inv_def)
  have "tag_ok ob \<and> named st ob \<and> addressable (Ref a) \<and> (\<forall>x \<in> payload_refs (obj_data ob). valid_obj st x)"
    if "heap st a = Some ob" for a ob
  proof -
    have ob: "needed g a" "heap (mem g) a = Some ob" using that by (auto simp: heap split: if_splits)
    have "named st ob"
    proof (cases "obj_data ob")
      case (PProc p)
      then obtain b i s where "p_name p = Ref b" "symbol_at (mem g) b s i"
        using gc_okD(2) [OF ok ob(2)] by (auto simp: named_def)
      moreover from this have "needed g b" by (simp add: needed_def)
      ultimately show ?thesis using gc_okD(2) [OF ok ob(2)] PProc by (auto simp: named_def heap)
    qed (use gc_okD(2) [OF ok ob(2)] in \<open>auto simp: named_def\<close>)
    moreover have "valid_obj st x" if "x \<in> payload_refs (obj_data ob)" for x
      using needed_child [OF inv ob] gc_okD(4) [OF ok ob(2) that] that by (cases x) (auto simp: heap)
    ultimately show ?thesis using gc_okD(1,3) [OF ok ob(2)] by blast
  qed
  then show ?thesis unfolding gc_ok_def by blast
qed

lemma swept_roots_ok:
  assumes inv: "gc_inv g as" and sh: "shrunk ((mem g)\<lparr>heap := heap st\<rparr>) st"
    and heap: "\<And>c. heap st c = (if needed g c then heap (mem g) c else None)"
  shows "roots_ok st"
  unfolding roots_ok_def
proof
  fix s
  assume "s \<in> set (active_environments st)"
  then have s: "s \<in> set (active_environments (mem g))" "scopes (mem g) s \<noteq> None \<longrightarrow> scopes st s \<noteq> None"
    using sh by (auto simp: shrunk_def)
  then obtain sc where sc: "scopes (mem g) s = Some sc" "\<forall>x \<in> scope_roots sc. valid_obj (mem g) x"
    "\<forall>i < NAVI_ENV_HT_SIZE. \<forall>b \<in> set (bindings sc i). \<exists>a nm i'. fst b = Ref a \<and> symbol_at (mem g) a nm i'"
    using inv unfolding gc_inv_def roots_ok_def by blast
  then obtain sc' where sc': "scopes st s = Some sc'" using s(2) by auto
  obtain r where r: "sc' = sc\<lparr>refs := r\<rparr>"
    using shrunk_scope [OF sh sc'] sc(1) by auto
  have same: "scope_roots sc' = scope_roots sc" by (simp add: r scope_roots_def)
  have "valid_obj st x" if "x \<in> scope_roots sc" for x
  proof -
    have "x \<in> gc_roots (mem g)" using s(1) sc(1) that by (auto simp: gc_roots_def intro!: bexI [of _ s])
    then show ?thesis using needed_root [OF inv] sc(2) that by (cases x) (auto simp: heap)
  qed
  moreover have "\<exists>a nm i'. fst b = Ref a \<and> symbol_at st a nm i'" if b: "i < NAVI_ENV_HT_SIZE" "b \<in> set (bindings sc i)" for i b
  proof -
    obtain a nm i' where a: "fst b = Ref a" "symbol_at (mem g) a nm i'" using sc(3) b by blast
    then have "needed g a" by (simp add: needed_def)
    with a show ?thesis by (auto simp: heap)
  qed
  ultimately show "\<exists>sc. scopes st s = Some sc \<and> (\<forall>x \<in> scope_roots sc. valid_obj st x) \<and>
      (\<forall>i < NAVI_ENV_HT_SIZE. \<forall>b \<in> set (bindings sc i). \<exists>a nm i'. fst b = Ref a \<and> symbol_at st a nm i')"
    using sc' same r by (intro exI [of _ sc']) simp
qed

lemma do_gc_collect_run:
  assumes inv: "gc_inv g as" and ac: "can_mark (mem g)"
  shows "\<exists>N. \<forall>n \<ge> N. \<exists>g'. do_gc_collect g n = (Inr (), g') \<and> gc_inv g' (filter (needed g) as) \<and>
    heap (mem g') = (\<lambda>a. if needed g a then heap (mem g) a else None)"
proof -
  let ?g1 = "mark_all (live_set (mem g)) g"
  have i: "gc_ok (mem g)" "roots_ok (mem g)" "slist (sle_next g) (slh_first g) as" "distinct as"
    "dom (heap (mem g)) = set as" "counted {} (mem g) (held_by (mem g) as)"
    "\<And>a. \<not> gc_is_marked (gc_flags g a)"
    using inv unfolding gc_inv_def by blast+
  have on_list: "c \<in> set as \<longleftrightarrow> heap (mem g) c \<noteq> None" for c using i(5) [symmetric] by auto
  obtain N where N: "\<And>n. N \<le> n \<Longrightarrow> gc_mark g n = (Inr (), ?g1)" using mark_enough [OF i(1,2) ac] by blast
  have g1: "sle_next ?g1 = sle_next g" "slh_first ?g1 = slh_first g" by (simp_all add: mark_all_def)
  have sv: "survives ?g1 = needed g" by (rule ext) (rule survives_mark_all [OF i(7)])
  have "\<exists>g'. do_gc_collect g n = (Inr (), g') \<and> gc_inv g' (filter (needed g) as) \<and>
      heap (mem g') = (\<lambda>a. if needed g a then heap (mem g) a else None)"
    if n: "max N (Suc (length as)) \<le> n" for n
  proof -
    have "\<forall>a \<in> set as. \<exists>ob. heap (mem g) a = Some ob \<and> tag_ok ob"
    proof
      fix a
      assume "a \<in> set as"
      then have "a \<in> dom (heap (mem g))" using i(5) by simp
      then show "\<exists>ob. heap (mem g) a = Some ob \<and> tag_ok ob" using gc_okD(1) [OF i(1)] by blast
    qed
    then obtain g2 where g2: "gc_sweep ?g1 n = (Inr (), g2)" "swept ?g1 as g2"
      "slist (sle_next g2) (slh_first g2) (filter (needed g) as)"
      "counted {} (mem g2) (held_by (mem g2) (filter (needed g) as))"
      using gc_sweep_run [of ?g1 as n] i(3,4,6) n unfolding sv g1 mark_all_simps by auto
    let ?g' = "g2\<lparr>gc_threshold := gc_bytes g2 * 4\<rparr>"
    have run: "do_gc_collect g n = (Inr (), ?g')"
      using N [of n] n g2(1) by (simp add: do_gc_collect_def bind_run)
    have hp: "heap (mem g2) c = (if needed g c then heap (mem g) c else None)" for c
      using g2(2) on_list [of c] unfolding swept_def sv by auto
    have sh: "shrunk ((mem g)\<lparr>heap := heap (mem g2)\<rparr>) (mem g2)"
      using g2(2) unfolding swept_def mark_all_simps by blast
    have "gc_inv ?g' (filter (needed g) as)"
      unfolding gc_inv_def
    proof (intro conjI)
      show "gc_ok (mem ?g')" using swept_gc_ok [OF inv] hp by simp
      show "roots_ok (mem ?g')" using swept_roots_ok [OF inv sh hp] by simp
      show "dom (heap (mem ?g')) = set (filter (needed g) as)" using on_list by (auto simp: hp dom_def)
      have fl: "gc_flags g2 c = (if c \<in> set as then gc_flags ?g1 c AND NOT NAVI_GC_MARK else gc_flags ?g1 c)" for c
        using g2(2) unfolding swept_def by metis
      show "\<forall>a. \<not> gc_is_marked (gc_flags ?g' a)"
        using fl i(7) live_valid [OF inv] by (auto simp: mark_all_def)
      show "\<forall>a ob. gc_is_protected (gc_flags ?g' a) \<longrightarrow> heap (mem ?g') a = Some ob \<longrightarrow> payload_refs (obj_data ob) = {}"
        using inv fl unfolding gc_inv_def by (auto simp: hp mark_all_def split: if_splits)
    qed (use g2(3,4) i(4) in auto)
    with run hp show ?thesis by (intro exI [of _ ?g']) (auto simp: fun_eq_iff)
  qed
  then show ?thesis by blast
qed

text \<open>
  C2: A collection, in a state in which every object is on the heap's list, no mark is set, protected
  objects hold no references and the references to scopes are counted (\<open>gc_inv\<close>): unless collections
  are disabled, it is safe and complete when no cycle, no bounce and no field that was never written
  is reachable from a binding or a guard of an active environment.  Every object that they reach,
  every protected object and every symbol keeps its address and its contents, every other object is
  freed, bounces and cycles among them, and \<open>gc_inv\<close> holds again, so no reference dangles.
  Otherwise, as when a procedure called from C returned a bounce and it is guarded, the collection
  never ends properly.
\<close>

theorem gc_collect_correct:
  assumes "gc_inv g as"
  shows "if gc_disabled g \<noteq> 0 then navi_gc_collect g n = (Inr (), g)
    else if (\<forall>x \<in> gc_roots (mem g). acyclic_from (mem g) x) \<and> (\<forall>a \<in> live_set (mem g). markable_at (mem g) a)
    then \<exists>N. \<forall>n \<ge> N. \<exists>g'. navi_gc_collect g n = (Inr (), g') \<and> gc_inv g' (filter (needed g) as) \<and>
       heap (mem g') = (\<lambda>a. if needed g a then heap (mem g) a else None)
    else fst (navi_gc_collect g n) \<in> {Inl NoFuel, Inl Undef}"
proof -
  have ok: "gc_ok (mem g)" "roots_ok (mem g)" using assms by (simp_all add: gc_inv_def)
  have stuck: "fst (do_gc_collect g n) \<in> {Inl NoFuel, Inl Undef}" if "\<not> can_mark (mem g)"
    using mark_never(1) [OF ok that, of n] by (cases "gc_mark g n") (auto simp: do_gc_collect_def bind_run)
  show ?thesis
    using do_gc_collect_run [OF assms] stuck unfolding can_mark_def [symmetric]
    by (simp add: navi_gc_collect_def bind_run)
qed

theorem gc_collect_correct_witness:
  "\<exists>N. \<forall>n \<ge> N. \<exists>g'. navi_gc_collect (guarding NilO) n = (Inr (), g') \<and>
     heap (mem g') 0 = Some (pair_ob (BoolO True) NilO) \<and> heap (mem g') 1 = None"
proof -
  let ?g = "guarding NilO"
  have "held_by (mem ?g) [1, 0] = {#}" by (simp add: held_def scope_refs_def)
  moreover have "linked {} (mem ?g) s = {}" for s by (auto simp: linked_def empty_scope_def new_scope_def split: if_splits)
  moreover have "sc_next (mem ?g) = 1" by (simp add: guarding_def)
  ultimately have "counted {} (mem ?g) (held_by (mem ?g) [1, 0])"
    by (intro countedI) (auto split: if_splits)
  moreover have "dom (heap (mem ?g)) = set [1, 0]" by (auto simp: dom_def split: if_splits)
  ultimately have inv: "gc_inv ?g [1, 0]"
    using guarding_ok [of NilO] unfolding gc_inv_def
    by (auto simp: gc_is_marked_def gc_is_protected_def) (simp_all add: guarding_def)
  have "acyclic_from (mem ?g) (Ref 0)"
    by (auto simp: acyclic_from_def guarding_points intro: accp.intros)
  then have "\<forall>x \<in> gc_roots (mem ?g). acyclic_from (mem ?g) x" by (simp add: guarding_roots)
  moreover have "\<forall>a \<in> live_set (mem ?g). markable_at (mem ?g) a" using guarding_markable by blast
  moreover have dis: "gc_disabled ?g = 0" by (simp add: guarding_def)
  ultimately obtain N where N: "\<forall>n \<ge> N. \<exists>g'. navi_gc_collect ?g n = (Inr (), g') \<and>
      gc_inv g' (filter (needed ?g) [1, 0]) \<and>
      heap (mem g') = (\<lambda>a. if needed ?g a then heap (mem ?g) a else None)"
    using gc_collect_correct [OF inv] by (auto split: if_splits)
  have "reaches (mem ?g) (Ref 0) = {0}"
    using reaches_Ref [of "mem ?g" 0] by (auto simp: reaches_imm)
  then have "needed ?g 0" "\<not> needed ?g 1"
    by (auto simp: needed_def guarding_roots gc_is_protected_def)
  moreover have "gc_disabled ?g = 0" by (simp add: guarding_def)
  ultimately have "\<exists>g'. navi_gc_collect ?g n = (Inr (), g') \<and>
     heap (mem g') 0 = Some (pair_ob (BoolO True) NilO) \<and> heap (mem g') 1 = None" if "N \<le> n" for n
    using N that by fastforce
  then show ?thesis by blast
qed

end
