(* ===== verification/Spec_Port.thy ===== *)
theory Spec_Port
  imports Spec_Base
begin

unbundle bit_operations_syntax

text \<open>
  What ports promise (\<open>port.c\<close>): two contracts, one of a port text can be written to and one of a
  port it can be read from, each with an interpretation for the ports over C streams and one for
  the ports over strings.  The printer and the reader rely on the contracts only.
\<close>

section \<open>Frames\<close>

text \<open>
  The changes input and output make: the contents of a string, and the fields of a port other than
  the object it refers to; \<open>quiet\<close> allows them on the objects of a set, and on the streams.
\<close>

definition soft_change :: "navi_object \<Rightarrow> navi_object \<Rightarrow> bool" where
  "soft_change ob ob' \<longleftrightarrow> ob' = ob \<or>
     (\<exists>p p'. ob = \<lparr>obj_type = NAVI_PORT, obj_data = PPort p\<rparr> \<and>
        ob' = \<lparr>obj_type = NAVI_PORT, obj_data = PPort p'\<rparr> \<and> pt_expr p' = pt_expr p) \<or>
     (\<exists>s s'. ob = \<lparr>obj_type = NAVI_STRING, obj_data = PString s\<rparr> \<and>
        ob' = \<lparr>obj_type = NAVI_STRING, obj_data = PString s'\<rparr>)"

definition quiet :: "addr set \<Rightarrow> state \<Rightarrow> state \<Rightarrow> bool" where
  "quiet own st st' \<longleftrightarrow> hp_next st' = hp_next st \<and> symbol_table st' = symbol_table st \<and>
     scopes st' = scopes st \<and> guard_next st' = guard_next st \<and>
     (\<forall>a. rel_option soft_change (heap st a) (heap st' a) \<and> (a \<notin> own \<longrightarrow> heap st' a = heap st a))"

lemma soft_change_refl [simp]: "soft_change ob ob"
  by (simp add: soft_change_def)

lemma soft_change_trans: "soft_change a b \<Longrightarrow> soft_change b c \<Longrightarrow> soft_change a c"
  by (auto simp: soft_change_def)

lemma soft_changeD:
  assumes "soft_change ob ob'"
  shows "obj_type ob' = obj_type ob" and "payload_refs (obj_data ob') = payload_refs (obj_data ob)"
    and "tag_ok ob' = tag_ok ob" and "obj_data ob = PSymbol s i \<Longrightarrow> ob' = ob"
    and "obj_data ob' = PSymbol s i \<Longrightarrow> ob' = ob" and "obj_data ob = PPair x y \<Longrightarrow> ob' = ob"
  using assms by (auto simp: soft_change_def)

lemma rel_option_refl [simp]: "rel_option soft_change x x"
  by (cases x) auto

lemma quiet_refl [simp]: "quiet own st st"
  by (simp add: quiet_def)

lemma quiet_trans: "quiet own a b \<Longrightarrow> quiet own b c \<Longrightarrow> quiet own a c"
  unfolding quiet_def by (metis (no_types, lifting) option.rel_transp soft_change_trans transpD transpI)

lemma quiet_Some:
  assumes "quiet own st st'"
  shows "heap st a = Some ob \<Longrightarrow> \<exists>ob'. heap st' a = Some ob' \<and> soft_change ob ob'"
    and "heap st' a = Some ob' \<Longrightarrow> \<exists>ob. heap st a = Some ob \<and> soft_change ob ob'"
  using assms unfolding quiet_def by (metis option_rel_Some1, metis option_rel_Some2)

lemma quiet_valid:
  assumes "quiet own st st'" and "valid_obj st x"
  shows "valid_obj st' x"
  using assms(2) quiet_Some(1) [OF assms(1)] by (cases x) fastforce+

lemma quiet_wf:
  assumes "quiet own st st'" and "wf_heap st"
  shows "wf_heap st'"
  unfolding wf_heap_def
proof (intro allI impI)
  fix a ob'
  assume "heap st' a = Some ob'"
  with quiet_Some(2) [OF assms(1)] obtain ob where ob: "heap st a = Some ob" "soft_change ob ob'" by blast
  have "a < hp_next st'" using wf_heapD(1) [OF assms(2) ob(1)] assms(1) by (simp add: quiet_def)
  moreover have "tag_ok ob'" using wf_heapD(2) [OF assms(2) ob(1)] soft_changeD(3) [OF ob(2)] by blast
  moreover have "valid_obj st' x" if "x \<in> payload_refs (obj_data ob')" for x
    using that soft_changeD(2) [OF ob(2)] wf_heapD(3) [OF assms(2) ob(1)] quiet_valid [OF assms(1)] by blast
  ultimately show "a < hp_next st' \<and> tag_ok ob' \<and> (\<forall>x \<in> payload_refs (obj_data ob'). valid_obj st' x)"
    by blast
qed

lemma quiet_symbol:
  assumes "quiet own st st'"
  shows "symbol_at st' a s i \<longleftrightarrow> symbol_at st a s i"
  using quiet_Some [OF assms, of a] soft_changeD(4,5) by fastforce

lemma quiet_name:
  assumes "quiet own st st'"
  shows "name_at st' a = name_at st a"
proof (cases "heap st a")
  case None
  then have "heap st' a = None" using quiet_Some(2) [OF assms, of a] by (cases "heap st' a") auto
  with None show ?thesis by (simp add: name_at_def)
next
  case (Some ob)
  with quiet_Some(1) [OF assms] obtain ob' where "heap st' a = Some ob'" "soft_change ob ob'" by blast
  with Some show ?thesis by (auto simp: name_at_def soft_change_def)
qed

lemma quiet_symtab_ok:
  assumes "quiet own st st'" and "symtab_ok st"
  shows "symtab_ok st'"
proof -
  have "name_at st' = name_at st" by (rule ext) (rule quiet_name [OF assms(1)])
  moreover have "symbol_table st' = symbol_table st" using assms(1) by (simp add: quiet_def)
  ultimately show ?thesis
    using assms(2) quiet_wf [OF assms(1)] by (simp add: symtab_ok_def quiet_symbol [OF assms(1)])
qed

abbreviation port_at :: "state \<Rightarrow> addr \<Rightarrow> navi_port \<Rightarrow> bool" where
  "port_at st a p \<equiv> heap st a = Some \<lparr>obj_type = NAVI_PORT, obj_data = PPort p\<rparr>"

lemma navi_port_at [simp]:
  "heap st a = Some ob \<Longrightarrow> obj_data ob = PPort p \<Longrightarrow> navi_port (Ref a) st n = (Inr p, st)"
  by (simp add: navi_port_def)

lemma update_port_at:
  "port_at st a p \<Longrightarrow> update_port (Ref a) f st n =
     (Inr (), st\<lparr>heap := (heap st)(a \<mapsto> \<lparr>obj_type = NAVI_PORT, obj_data = PPort (f p)\<rparr>)\<rparr>)"
  by (simp add: update_port_def)

section \<open>The contract of an output port\<close>

text \<open>
  \<open>ready\<close> says that the port can be written to, \<open>outp\<close> is what it was sent, \<open>own\<close> has the
  objects it changes, and \<open>binary\<close> says whether it takes bytes.
\<close>

locale text_sink =
  fixes port :: navi_obj and env :: navi_env
    and ready :: "state \<Rightarrow> bool" and outp :: "state \<Rightarrow> byte list"
    and own :: "addr set" and binary :: bool
  assumes put_cstr: "ready st \<Longrightarrow> \<exists>st'. navi_port_write_cstr str port env st n = (Inr (), st') \<and>
      ready st' \<and> outp st' = outp st @ map byte_of str \<and> quiet own st st'"
    and put_byte: "binary \<Longrightarrow> ready st \<Longrightarrow> \<exists>st'. navi_port_write_byte b port env st n = (Inr (), st') \<and>
      ready st' \<and> outp st' = outp st @ [b] \<and> quiet own st st'"
begin

text \<open>The state after some bytes were written.\<close>

definition sent :: "byte list \<Rightarrow> state \<Rightarrow> state \<Rightarrow> bool" where
  "sent bs st st' \<longleftrightarrow> ready st' \<and> outp st' = outp st @ bs \<and> quiet own st st'"

lemma sent_trans: "sent xs a b \<Longrightarrow> sent ys b c \<Longrightarrow> sent (xs @ ys) a c"
  by (auto simp: sent_def intro: quiet_trans)

lemma sent_ready: "sent xs a b \<Longrightarrow> ready b"
  by (simp add: sent_def)

lemma sent_Nil [simp]: "sent [] st st \<longleftrightarrow> ready st"
  by (auto simp: sent_def)

lemma put_cstr_sent:
  assumes "ready st"
  obtains st' where "navi_port_write_cstr str port env st n = (Inr (), st')" and "sent (map byte_of str) st st'"
  using put_cstr [OF assms, of str n] by (auto simp: sent_def)

lemma put_bytes_sent:
  assumes "binary" and "ready st"
  shows "\<exists>st'. foldM (\<lambda>c _. navi_port_write_byte (byte_of c) port env) str () st n = (Inr (), st') \<and>
    sent (map byte_of str) st st'"
  using assms(2)
proof (induction str arbitrary: st)
  case (Cons c str)
  from put_byte [OF assms(1) Cons.prems, of "byte_of c" n] obtain st1
    where one: "navi_port_write_byte (byte_of c) port env st n = (Inr (), st1)" "sent [byte_of c] st st1"
    by (auto simp: sent_def)
  from Cons.IH [OF sent_ready [OF one(2)]] sent_trans [OF one(2)] one(1) show ?case by fastforce
qed simp

end

section \<open>Output to a stream\<close>

definition file_ready :: "addr \<Rightarrow> nat \<Rightarrow> state \<Rightarrow> bool" where
  "file_ready p f st \<longleftrightarrow> (\<exists>pt s. port_at st p pt \<and> pt_write_u8 pt \<and>
     \<not> has_flag pt OUTPUT_CLOSED \<and> pt_specific pt = Some f \<and> streams st f = Some s)"

definition file_output :: "nat \<Rightarrow> state \<Rightarrow> byte list" where
  "file_output f st = written (the (streams st f))"

lemma file_put_byte:
  assumes "file_ready p f st"
  shows "\<exists>st'. navi_port_write_byte b (Ref p) env st n = (Inr (), st') \<and>
    file_ready p f st' \<and> file_output f st' = file_output f st @ [b] \<and> quiet {} st st'"
proof -
  obtain pt s where *: "port_at st p pt" "pt_write_u8 pt" "\<not> has_flag pt OUTPUT_CLOSED"
    "pt_specific pt = Some f" "streams st f = Some s"
    using assms by (auto simp: file_ready_def)
  let ?s = "st\<lparr>streams := (streams st)(f \<mapsto> s\<lparr>written := written s @ [b]\<rparr>)\<rparr>"
  have "navi_port_write_byte b (Ref p) env st n = (Inr (), ?s)"
    using * by (simp add: navi_port_write_byte_def check_can_write_u8_def check_can_write_def
        check_output_port_def navi_port_is_output_port_def stdio_write_def deref_stream_def
        put_stream_def bind_run)
  moreover have "file_ready p f ?s" "file_output f ?s = file_output f st @ [b]" "quiet {} st ?s"
    using * by (auto simp: file_ready_def file_output_def quiet_def)
  ultimately show ?thesis by blast
qed

lemma file_put_cstr:
  assumes "file_ready p f st"
  shows "\<exists>st'. navi_port_write_cstr str (Ref p) env st n = (Inr (), st') \<and>
    file_ready p f st' \<and> file_output f st' = file_output f st @ map byte_of str \<and> quiet {} st st'"
proof -
  have "\<exists>st'. foldM (\<lambda>c _. navi_port_write_byte (byte_of c) (Ref p) env) str () st n = (Inr (), st') \<and>
      file_ready p f st' \<and> file_output f st' = file_output f st @ map byte_of str \<and> quiet {} st st'"
    using assms
  proof (induction str arbitrary: st)
    case (Cons c str)
    from file_put_byte [OF Cons.prems, of "byte_of c" env n] obtain st1
      where "navi_port_write_byte (byte_of c) (Ref p) env st n = (Inr (), st1)" "file_ready p f st1"
        "file_output f st1 = file_output f st @ [byte_of c]" "quiet {} st st1" by blast
    with Cons.IH [of st1] show ?case by (fastforce intro: quiet_trans)
  qed simp
  moreover obtain pt where "port_at st p pt" "pt_write_u8 pt" using assms by (auto simp: file_ready_def)
  ultimately show ?thesis by (simp add: navi_port_write_cstr_def bind_run)
qed

interpretation file_sink: text_sink "Ref p" env "file_ready p f" "file_output f" "{}" True for p env f
  by unfold_locales (use file_put_cstr file_put_byte in auto)

section \<open>Output to a string\<close>

text \<open>The bytes of a well-formed string buffer: they were written, and a zero byte follows.\<close>

definition buffer_ok :: "navi_string \<Rightarrow> byte list \<Rightarrow> bool" where
  "buffer_ok s bs \<longleftrightarrow> s_size s = length bs \<and> s_length s = length bs \<and> length bs \<le> s_capacity s \<and>
     length (s_data s) = Suc (s_capacity s) \<and> take (length bs) (s_data s) = map Some bs \<and>
     s_data s ! length bs = Some 0"

definition string_ready :: "addr \<Rightarrow> addr \<Rightarrow> state \<Rightarrow> bool" where
  "string_ready p a st \<longleftrightarrow> (\<exists>pt s bs. port_at st p pt \<and> \<not> pt_write_u8 pt \<and> pt_write_char pt \<and>
     \<not> has_flag pt OUTPUT_CLOSED \<and> pt_expr pt = Ref a \<and> string_at st a s \<and> buffer_ok s bs)"

definition string_bytes :: "addr \<Rightarrow> state \<Rightarrow> byte list" where
  "string_bytes a st = (case heap st a of
     Some ob \<Rightarrow> (case obj_data ob of PString s \<Rightarrow> map the (take (s_size s) (s_data s)) | _ \<Rightarrow> []) | None \<Rightarrow> [])"

lemma buffer_bytes: "buffer_ok s bs \<Longrightarrow> map the (take (s_size s) (s_data s)) = bs"
  by (simp add: buffer_ok_def comp_def)

lemma string_bytes_at: "string_at st a s \<Longrightarrow> buffer_ok s bs \<Longrightarrow> string_bytes a st = bs"
  by (simp add: string_bytes_def buffer_bytes)

text \<open>The buffer after one byte was appended.\<close>

definition pushed :: "navi_string \<Rightarrow> byte \<Rightarrow> navi_string" where
  "pushed s b = (let g = grown s 1 in
     g\<lparr>s_size := Suc (s_size g),
       s_data := ((s_data g)[s_size g := Some b])[Suc (s_size g) := Some 0],
       s_length := Suc (s_length g)\<rparr>)"

lemma grown_ok:
  assumes "buffer_ok s bs"
  shows "buffer_ok (grown s 1) bs" and "length bs < s_capacity (grown s 1)"
  using assms
  by (auto simp: grown_def buffer_ok_def Let_def take_update_cancel nth_list_update nth_append min_def)

lemma buffer_ok_snoc:
  assumes "buffer_ok s bs" and "length bs < s_capacity s"
    and "s_data t = ((s_data s)[length bs := Some b])[Suc (length bs) := Some 0]"
    and "s_size t = Suc (length bs)" and "s_length t = Suc (length bs)" and "s_capacity t = s_capacity s"
  shows "buffer_ok t (bs @ [b])"
  using assms by (auto simp: buffer_ok_def take_Suc_conv_app_nth)

lemma pushed_ok:
  assumes "buffer_ok s bs"
  shows "buffer_ok (pushed s b) (bs @ [b])"
  by (rule buffer_ok_snoc [OF grown_ok [OF assms], of "pushed s b" b])
    (use grown_ok [OF assms] in \<open>simp_all add: pushed_def Let_def buffer_ok_def\<close>)

lemma string_write_run:
  assumes "port_at st p pt" and "pt_expr pt = Ref a" and "string_at st a s" and "buffer_ok s bs"
  shows "string_write ch (Ref p) st n =
    (Inr (), st\<lparr>heap := (heap st)(a \<mapsto> \<lparr>obj_type = NAVI_STRING, obj_data = PString (pushed s (word_of_int ch))\<rparr>)\<rparr>)"
proof -
  note g = grown_ok [OF assms(4)]
  have "length (s_data (grown s 1)) = Suc (s_capacity (grown s 1))" "s_size (grown s 1) = length bs"
    using g(1) by (simp_all add: buffer_ok_def)
  then have len: "s_size (grown s 1) < length (s_data (grown s 1))"
    "Suc (s_size (grown s 1)) < length (s_data (grown s 1))" using g(2) by simp_all
  show ?thesis
    using assms(1-3) len
    by (simp add: string_write_def Let_def bind_run u8_length_def navi_string_grow_storage_def
        u8_append_def string_set_size_def pushed_def)
qed

lemma string_put_char:
  assumes "string_ready p a st"
  shows "\<exists>st'. navi_port_write_char ch (Ref p) env st n = (Inr (), st') \<and> string_ready p a st' \<and>
    string_bytes a st' = string_bytes a st @ [word_of_int ch] \<and> quiet {a} st st'"
proof -
  obtain pt s bs where *: "port_at st p pt" "\<not> pt_write_u8 pt" "pt_write_char pt"
    "\<not> has_flag pt OUTPUT_CLOSED" "pt_expr pt = Ref a" "string_at st a s" "buffer_ok s bs"
    using assms by (auto simp: string_ready_def)
  let ?s = "st\<lparr>heap := (heap st)(a \<mapsto> \<lparr>obj_type = NAVI_STRING, obj_data = PString (pushed s (word_of_int ch))\<rparr>)\<rparr>"
  have "navi_port_write_char ch (Ref p) env st n = (Inr (), ?s)"
    using * string_write_run [OF *(1,5-7)]
    by (simp add: navi_port_write_char_def check_can_write_def check_output_port_def
        navi_port_is_output_port_def bind_run)
  moreover have "port_at ?s p pt" using * by auto
  with * pushed_ok [OF *(7)] have "string_ready p a ?s" by (fastforce simp: string_ready_def)
  moreover have "string_bytes a ?s = string_bytes a st @ [word_of_int ch]"
    using * pushed_ok [OF *(7)] by (simp add: string_bytes_def buffer_bytes)
  moreover have "quiet {a} st ?s" using *(6) by (simp add: quiet_def soft_change_def)
  ultimately show ?thesis by blast
qed

lemma string_put_cstr:
  assumes "string_ready p a st"
  shows "\<exists>st'. navi_port_write_cstr str (Ref p) env st n = (Inr (), st') \<and>
    string_ready p a st' \<and> string_bytes a st' = string_bytes a st @ map byte_of str \<and> quiet {a} st st'"
proof -
  have "\<exists>st'. foldM (\<lambda>c _. navi_port_write_char (sint (byte_of c)) (Ref p) env) str () st n = (Inr (), st') \<and>
      string_ready p a st' \<and> string_bytes a st' = string_bytes a st @ map byte_of str \<and> quiet {a} st st'"
    using assms
  proof (induction str arbitrary: st)
    case (Cons c str)
    from string_put_char [OF Cons.prems, of "sint (byte_of c)" env n] obtain st1
      where "navi_port_write_char (sint (byte_of c)) (Ref p) env st n = (Inr (), st1)" "string_ready p a st1"
        "string_bytes a st1 = string_bytes a st @ [byte_of c]" "quiet {a} st st1" by auto
    with Cons.IH [of st1] show ?case by (fastforce intro: quiet_trans)
  qed simp
  moreover obtain pt where "port_at st p pt" "\<not> pt_write_u8 pt" using assms by (auto simp: string_ready_def)
  ultimately show ?thesis by (simp add: navi_port_write_cstr_def bind_run)
qed

interpretation string_sink: text_sink "Ref p" env "string_ready p a" "string_bytes a" "{a}" False for p env a
  by unfold_locales (use string_put_cstr in auto)

end
