(* ===== verification/Spec_Input.thy ===== *)
theory Spec_Input
  imports Spec_Port
begin

unbundle bit_operations_syntax

text \<open>
  The contract of an input port and its interpretations: a device delivers characters one by one,
  and the buffer of one character that the port keeps in front of it gives \<open>peek_char\<close> and
  \<open>read_char\<close> (\<open>port.c\<close>, \<open>read.c\<close>).
\<close>

section \<open>Flags and characters\<close>

lemma and_exp: "w AND (2 ^ k) \<noteq> 0 \<longleftrightarrow> bit (w :: 64 word) k"
  by (simp add: and_exp_eq_0_iff_not_bit)

lemma has_flag_bit:
  "has_flag p GOT_EOF \<longleftrightarrow> bit (pt_flags p) 0" "has_flag p BUFFER_FULL \<longleftrightarrow> bit (pt_flags p) 1"
  "has_flag p INPUT_CLOSED \<longleftrightarrow> bit (pt_flags p) 2" "has_flag p OUTPUT_CLOSED \<longleftrightarrow> bit (pt_flags p) 3"
  "has_flag p STRING_OUTPUT \<longleftrightarrow> bit (pt_flags p) 4" "has_flag p FOLD_CASE \<longleftrightarrow> bit (pt_flags p) 5"
  using and_exp [of "pt_flags p" 0] and_exp [of "pt_flags p" 1] and_exp [of "pt_flags p" 2]
    and_exp [of "pt_flags p" 3] and_exp [of "pt_flags p" 4] and_exp [of "pt_flags p" 5]
  by (simp_all add: has_flag_def port_flag_defs)

lemma flag_values:
  "bit GOT_EOF i \<longleftrightarrow> i = 0" "bit BUFFER_FULL i \<longleftrightarrow> i = 1"
  using bit_exp_iff [where ?'a = "64 word", of 0 i] bit_exp_iff [where ?'a = "64 word", of 1 i]
  by (auto simp: port_flag_defs)

definition char_code :: "char \<Rightarrow> int" where
  "char_code c = int (of_char c)"

definition ascii :: "string \<Rightarrow> bool" where
  "ascii cs \<longleftrightarrow> (\<forall>c \<in> set cs. char_code c < 128)"

lemma ascii_Cons [simp]: "ascii (c # cs) \<longleftrightarrow> char_code c < 128 \<and> ascii cs"
  by (simp add: ascii_def)

lemma ascii_Nil [simp]: "ascii []"
  by (simp add: ascii_def)

lemma ascii_append [simp]: "ascii (cs @ ds) \<longleftrightarrow> ascii cs \<and> ascii ds"
  by (auto simp: ascii_def)

lemma char_code_range: "0 \<le> char_code c" "char_code c < 256"
  using nat_of_char_less_256 [of c] by (simp_all add: char_code_def)

lemma char_code_not_EOF [simp]: "char_code c \<noteq> EOF" "EOF \<noteq> char_code c"
  using char_code_range(1) [of c] by (auto simp: EOF_def)

lemma uint_byte_of: "uint (byte_of c) = char_code c"
  using nat_of_char_less_256 [of c]
  by (simp add: byte_of_def char_code_def uint_nat unat_of_nat)

lemma navi_char_make:
  assumes "- (2 ^ 31) \<le> i" and "i < 2 ^ 31"
  shows "navi_char (navi_make_char i) = ret i"
proof -
  have "sint (word_of_int i :: 60 word) = i"
    using assms by (subst signed_of_int) (simp add: signed_take_bit_int_eq_self)
  then show ?thesis by (simp add: navi_make_char_def)
qed

lemma to_int_small: "- (2 ^ 31) \<le> i \<Longrightarrow> i < 2 ^ 31 \<Longrightarrow> to_int i = i"
  by (simp add: to_int_def signed_of_int signed_take_bit_int_eq_self)

section \<open>The contract of an input port\<close>

text \<open>What \<open>peek_char\<close> and \<open>read_char\<close> return when the characters \<open>cs\<close> are left.\<close>

definition front :: "string \<Rightarrow> int" where
  "front cs = (case cs of [] \<Rightarrow> EOF | c # _ \<Rightarrow> char_code c)"

lemma front_simps [simp]: "front [] = EOF" "front (c # cs) = char_code c"
  by (simp_all add: front_def)

lemma front_range: "- 1 \<le> front cs" "front cs < 256"
  using char_code_range [of "hd cs"] by (cases cs; simp add: EOF_def)+

locale text_source =
  fixes port :: navi_obj and env :: navi_env
    and left :: "string \<Rightarrow> state \<Rightarrow> bool"
    and own :: "addr set"
  assumes left_ascii: "left cs st \<Longrightarrow> ascii cs"
    and own_objects: "left cs st \<Longrightarrow> a \<in> own \<Longrightarrow>
      \<exists>ob. heap st a = Some ob \<and> obj_type ob \<in> {NAVI_PORT, NAVI_STRING}"
    and left_frame: "left cs st \<Longrightarrow> (\<And>a. a \<in> own \<Longrightarrow> heap st' a = heap st a) \<Longrightarrow>
      streams st' = streams st \<Longrightarrow> left cs st'"
    and peek: "left cs st \<Longrightarrow> \<exists>st'. peek_char port env st n = (Inr (front cs), st') \<and>
      left cs st' \<and> quiet own st st'"
    and get: "left cs st \<Longrightarrow> \<exists>st'. read_char port env st n = (Inr (front cs), st') \<and>
      left (tl cs) st' \<and> quiet own st st'"
    and no_fold: "left cs st \<Longrightarrow> navi_port_is_fold_case port st n = (Inr False, st)"

section \<open>A port over a device\<close>

text \<open>
  \<open>raw cs st\<close>: the device has still the characters \<open>cs\<close> to deliver; it does not depend on the
  flags and the buffer of the port.
\<close>

abbreviation set_port :: "addr \<Rightarrow> navi_port \<Rightarrow> state \<Rightarrow> state" where
  "set_port p pt st \<equiv> st\<lparr>heap := (heap st)(p \<mapsto> \<lparr>obj_type = NAVI_PORT, obj_data = PPort pt\<rparr>)\<rparr>"

locale char_device =
  fixes p :: addr and env :: navi_env
    and raw :: "string \<Rightarrow> state \<Rightarrow> bool"
    and own :: "addr set"
  assumes own_p: "p \<in> own"
    and raw_objects: "raw cs st \<Longrightarrow> a \<in> own \<Longrightarrow>
      \<exists>ob. heap st a = Some ob \<and> obj_type ob \<in> {NAVI_PORT, NAVI_STRING}"
    and raw_port: "raw cs st \<Longrightarrow> \<exists>pt. port_at st p pt \<and> (pt_read_u8 pt \<or> pt_read_char pt)"
    and raw_frame: "raw cs st \<Longrightarrow> (\<And>a. a \<in> own \<Longrightarrow> heap st' a = heap st a) \<Longrightarrow>
      streams st' = streams st \<Longrightarrow> raw cs st'"
    and raw_flags: "raw cs st \<Longrightarrow> port_at st p pt \<Longrightarrow>
      raw cs (set_port p (pt\<lparr>pt_flags := fl, pt_buffer := b\<rparr>) st)"
    and fetch: "raw cs st \<Longrightarrow> port_at st p pt \<Longrightarrow> ascii cs \<Longrightarrow>
      \<exists>st' pt'. navi_port_buffer_char (Ref p) env st n = (Inr (), st') \<and> raw (tl cs) st' \<and>
        quiet own st st' \<and> port_at st' p pt' \<and> pt_buffer pt' = Some (front cs) \<and>
        pt_flags pt' = (if cs = [] then pt_flags pt OR GOT_EOF else pt_flags pt)"
begin

definition left :: "string \<Rightarrow> state \<Rightarrow> bool" where
  "left cs st \<longleftrightarrow> ascii cs \<and> (\<exists>pt. port_at st p pt \<and> \<not> has_flag pt INPUT_CLOSED \<and> \<not> has_flag pt FOLD_CASE \<and>
     (if has_flag pt GOT_EOF then cs = [] \<and> raw [] st
      else if has_flag pt BUFFER_FULL
      then \<exists>c cs'. cs = c # cs' \<and> pt_buffer pt = Some (char_code c) \<and> raw cs' st
      else raw cs st))"

lemma leftE:
  assumes "left cs st"
  obtains pt cs' where "port_at st p pt" "\<not> has_flag pt INPUT_CLOSED" "\<not> has_flag pt FOLD_CASE" "raw cs' st"
    "pt_read_u8 pt \<or> pt_read_char pt" "ascii cs"
  using assms raw_port by (auto simp: left_def split: if_splits) fastforce+

lemma left_can_read: "left cs st \<Longrightarrow> check_can_read (Ref p) env st n = (Inr (), st)"
  by (erule leftE) (simp add: check_can_read_def check_input_port_def navi_port_is_input_port_def bind_run)

lemma set_port_quiet:
  assumes "port_at st p pt" and "pt_expr pt' = pt_expr pt"
  shows "quiet own st (set_port p pt' st)"
  using assms own_p by (auto simp: quiet_def soft_change_def)

lemma buffer_full:
  assumes "left (c # cs) st" and "port_at st p pt" and "has_flag pt BUFFER_FULL"
  shows "pt_buffer pt = Some (char_code c)" and "raw cs st" and "\<not> has_flag pt GOT_EOF"
  using assms by (auto simp: left_def split: if_splits)

lemma peek_left:
  assumes "left cs st"
  shows "\<exists>st'. peek_char (Ref p) env st n = (Inr (front cs), st') \<and> left cs st' \<and> quiet own st st'"
proof -
  obtain pt where pt: "port_at st p pt" "\<not> has_flag pt INPUT_CLOSED" "\<not> has_flag pt FOLD_CASE" and ascii: "ascii cs"
    using assms by (rule leftE)
  note run = peek_char_def navi_port_peek_char_def port_buffer_def bind_run left_can_read [OF assms]
    navi_port_at [OF pt(1)] make_defs
  consider (eof) "has_flag pt GOT_EOF" "cs = []"
    | (full) c cs' where "\<not> has_flag pt GOT_EOF" "has_flag pt BUFFER_FULL" "cs = c # cs'"
        "pt_buffer pt = Some (char_code c)" "raw cs' st"
    | (empty) "\<not> has_flag pt GOT_EOF" "\<not> has_flag pt BUFFER_FULL" "raw cs st"
    using assms pt(1) by (auto simp: left_def split: if_splits)
  then show ?thesis
  proof cases
    case eof
    then show ?thesis using assms by (simp add: run)
  next
    case full
    have "navi_char (navi_make_char (char_code c)) = ret (char_code c)" "to_int (char_code c) = char_code c"
      using front_range [of cs] full(3) by (auto intro!: navi_char_make to_int_small)
    then show ?thesis using assms full by (simp add: run init_def navi_make_char_def)
  next
    case empty
    from fetch [OF empty(3) pt(1) ascii, of n] obtain st1 pt1 where
      st1: "navi_port_buffer_char (Ref p) env st n = (Inr (), st1)" "raw (tl cs) st1" "quiet own st st1"
        "port_at st1 p pt1" "pt_buffer pt1 = Some (front cs)"
        "pt_flags pt1 = (if cs = [] then pt_flags pt OR GOT_EOF else pt_flags pt)" by blast
    let ?pt = "set_flag BUFFER_FULL pt1"
    let ?s = "set_port p ?pt st1"
    have ok: "navi_char (navi_make_char (front cs)) = ret (front cs)" "to_int (front cs) = front cs"
      using front_range [of cs] by (auto intro!: navi_char_make to_int_small)
    have "peek_char (Ref p) env st n = (Inr (front cs), ?s)"
      using empty st1(1,4,5) ok
      by (simp add: run update_port_at init_def navi_make_char_def) (simp add: set_flag_def)
    moreover have "raw (tl cs) ?s"
      using raw_flags [OF st1(2,4), where fl = "pt_flags ?pt" and b = "pt_buffer pt1"] by (simp add: set_flag_def)
    then have "left cs ?s"
      using pt st1 ascii empty
      by (cases cs) (auto simp: left_def has_flag_bit set_flag_def bit_or_iff flag_values)
    moreover have "quiet own st ?s"
      using quiet_trans [OF st1(3) set_port_quiet [OF st1(4), of ?pt]] by (simp add: set_flag_def)
    ultimately show ?thesis by blast
  qed
qed

lemma read_left:
  assumes "left cs st"
  shows "\<exists>st'. read_char (Ref p) env st n = (Inr (front cs), st') \<and> left (tl cs) st' \<and> quiet own st st'"
proof -
  obtain pt where pt: "port_at st p pt" "\<not> has_flag pt INPUT_CLOSED" "\<not> has_flag pt FOLD_CASE" and ascii: "ascii cs"
    using assms by (rule leftE)
  note run = read_char_def navi_port_read_char_def port_buffer_def bind_run left_can_read [OF assms]
    navi_port_at [OF pt(1)] make_defs
  have code: "navi_char (navi_make_char (char_code c)) = ret (char_code c)" "to_int (char_code c) = char_code c" for c
    using front_range [of "[c]"] by (auto intro!: navi_char_make to_int_small)
  consider (eof) "has_flag pt GOT_EOF" "cs = []"
    | (full) c cs' where "\<not> has_flag pt GOT_EOF" "has_flag pt BUFFER_FULL" "cs = c # cs'"
        "pt_buffer pt = Some (char_code c)" "raw cs' st"
    | (empty) "\<not> has_flag pt GOT_EOF" "\<not> has_flag pt BUFFER_FULL" "raw cs st"
    using assms pt(1) by (auto simp: left_def split: if_splits)
  then show ?thesis
  proof cases
    case eof
    then show ?thesis using assms by (simp add: run)
  next
    case full
    let ?pt = "clear_flag BUFFER_FULL pt"
    let ?s = "set_port p ?pt st"
    have "read_char (Ref p) env st n = (Inr (front cs), ?s)"
      using full pt(1) code
      by (simp add: run update_port_at init_def navi_make_char_def) (simp add: clear_flag_def)
    moreover have "raw cs' ?s"
      using raw_flags [OF full(5) pt(1), where fl = "pt_flags ?pt" and b = "pt_buffer pt"] by (simp add: clear_flag_def)
    then have "left (tl cs) ?s"
      using pt ascii full
      by (auto simp: left_def has_flag_bit clear_flag_def bit_and_iff bit_not_iff flag_values)
    moreover have "quiet own st ?s"
      using set_port_quiet [OF pt(1), of ?pt] by (simp add: clear_flag_def)
    ultimately show ?thesis by blast
  next
    case empty
    from fetch [OF empty(3) pt(1) ascii, of n] obtain st1 pt1 where
      st1: "navi_port_buffer_char (Ref p) env st n = (Inr (), st1)" "raw (tl cs) st1" "quiet own st st1"
        "port_at st1 p pt1" "pt_buffer pt1 = Some (front cs)"
        "pt_flags pt1 = (if cs = [] then pt_flags pt OR GOT_EOF else pt_flags pt)" by blast
    have "read_char (Ref p) env st n = (Inr (front cs), st1)"
      using empty st1 code
      by (cases cs) (simp_all add: run init_def has_flag_bit bit_or_iff flag_values navi_make_char_def)
    moreover have "left (tl cs) st1"
      using pt st1 ascii empty by (cases cs) (auto simp: left_def has_flag_bit bit_or_iff flag_values)
    ultimately show ?thesis using st1(3) by blast
  qed
qed

end

text \<open>A port over a device meets the contract of an input port.\<close>

sublocale char_device \<subseteq> source: text_source "Ref p" env left own
proof unfold_locales
  fix cs and st st' :: state and a n
  show "left cs st \<Longrightarrow> ascii cs" by (simp add: left_def)
  show "left cs st \<Longrightarrow> a \<in> own \<Longrightarrow> \<exists>ob. heap st a = Some ob \<and> obj_type ob \<in> {NAVI_PORT, NAVI_STRING}"
    by (erule leftE) (rule raw_objects)
  show "left cs st \<Longrightarrow> \<exists>st'. peek_char (Ref p) env st n = (Inr (front cs), st') \<and> left cs st' \<and> quiet own st st'"
    by (rule peek_left)
  show "left cs st \<Longrightarrow> \<exists>st'. read_char (Ref p) env st n = (Inr (front cs), st') \<and> left (tl cs) st' \<and> quiet own st st'"
    by (rule read_left)
  show "left cs st \<Longrightarrow> navi_port_is_fold_case (Ref p) st n = (Inr False, st)"
    by (erule leftE) (simp add: navi_port_is_fold_case_def bind_run)
next
  fix cs and st st' :: state
  assume left: "left cs st" and same: "\<And>a. a \<in> own \<Longrightarrow> heap st' a = heap st a" "streams st' = streams st"
  have "raw ds st'" if "raw ds st" for ds using raw_frame [OF that] same by blast
  moreover have "heap st' p = heap st p" using same(1) own_p by blast
  ultimately show "left cs st'" using left by (auto simp: left_def split: if_splits)
qed

section \<open>Input from a string\<close>

definition string_raw :: "addr \<Rightarrow> addr \<Rightarrow> string \<Rightarrow> state \<Rightarrow> bool" where
  "string_raw p a cs st \<longleftrightarrow> (\<exists>pt s bs. port_at st p pt \<and> pt_read_char pt \<and> pt_expr pt = Ref a \<and>
     string_at st a s \<and> s_size s = length bs \<and> length bs \<le> length (s_data s) \<and>
     take (length bs) (s_data s) = map Some bs \<and> pt_pos pt \<le> length bs \<and>
     map byte_of cs = drop (pt_pos pt) bs)"

lemma string_fetch:
  assumes "string_raw p a cs st" and "port_at st p pt" and "ascii cs"
  shows "\<exists>st' pt'. navi_port_buffer_char (Ref p) env st n = (Inr (), st') \<and> string_raw p a (tl cs) st' \<and>
    quiet {p, a} st st' \<and> port_at st' p pt' \<and> pt_buffer pt' = Some (front cs) \<and>
    pt_flags pt' = (if cs = [] then pt_flags pt OR GOT_EOF else pt_flags pt)"
proof -
  obtain s bs where *: "pt_read_char pt" "pt_expr pt = Ref a" "string_at st a s" "s_size s = length bs"
    "length bs \<le> length (s_data s)" "take (length bs) (s_data s) = map Some bs" "pt_pos pt \<le> length bs"
    "map byte_of cs = drop (pt_pos pt) bs"
    using assms(1,2) by (auto simp: string_raw_def)
  have ne: "a \<noteq> p" using assms(2) *(3) by auto
  show ?thesis
  proof (cases cs)
    case Nil
    then have pos: "pt_pos pt = length bs" using * by simp
    let ?pt = "set_flag GOT_EOF (pt\<lparr>pt_buffer := Some EOF\<rparr>)"
    have "navi_port_buffer_char (Ref p) env st n = (Inr (), set_port p ?pt st)"
      using assms(2) * pos by (simp add: navi_port_buffer_char_def string_read_def bind_run update_port_at)
    moreover have "string_raw p a (tl cs) (set_port p ?pt st)"
      using * ne Nil pos by (auto simp: string_raw_def set_flag_def intro: exI [of _ bs])
    moreover have "quiet {p, a} st (set_port p ?pt st)"
      using assms(2) by (simp add: quiet_def soft_change_def set_flag_def)
    ultimately show ?thesis using Nil
      by (intro exI [of _ "set_port p ?pt st"] exI [of _ ?pt]) (simp add: set_flag_def)
  next
    case (Cons c cs')
    with *(8) have pos: "pt_pos pt < length bs" by (cases "pt_pos pt < length bs") auto
    then have bs: "bs ! pt_pos pt = byte_of c" "map byte_of cs' = drop (Suc (pt_pos pt)) bs"
      using *(8) Cons by (simp_all add: Cons_nth_drop_Suc [symmetric])
    have "s_data s ! pt_pos pt = Some (bs ! pt_pos pt)"
      using arg_cong [OF *(6), of "\<lambda>l. l ! pt_pos pt"] pos by simp
    moreover have "pt_pos pt < length (s_data s)" using pos *(5) by simp
    ultimately have next_run: "u8_next (Ref a) (pt_pos pt) st n = (Inr (char_code c, Suc (pt_pos pt)), st)"
      using *(3) bs(1) by (simp add: u8_next_def bind_run uint_byte_of)
    let ?pt = "pt\<lparr>pt_pos := Suc (pt_pos pt), pt_buffer := Some (char_code c)\<rparr>"
    have "navi_port_buffer_char (Ref p) env st n = (Inr (), set_port p ?pt st)"
      using assms(2) * pos next_run
      by (simp add: navi_port_buffer_char_def string_read_def bind_run update_port_at)
    moreover have "string_raw p a (tl cs) (set_port p ?pt st)"
      using * ne Cons pos bs(2) by (auto simp: string_raw_def)
    moreover have "quiet {p, a} st (set_port p ?pt st)"
      using assms(2) by (simp add: quiet_def soft_change_def)
    ultimately show ?thesis using Cons
      by (intro exI [of _ "set_port p ?pt st"] exI [of _ ?pt]) simp
  qed
qed

interpretation string_device: char_device p env "string_raw p a" "{p, a}" for p env a
proof unfold_locales
  fix cs :: string and st st' :: state and b n pt fl bf
  show "p \<in> {p, a}" by simp
  show "string_raw p a cs st \<Longrightarrow> b \<in> {p, a} \<Longrightarrow>
      \<exists>ob. heap st b = Some ob \<and> obj_type ob \<in> {NAVI_PORT, NAVI_STRING}"
    by (auto simp: string_raw_def)
  show "string_raw p a cs st \<Longrightarrow> \<exists>pt. port_at st p pt \<and> (pt_read_u8 pt \<or> pt_read_char pt)"
    by (auto simp: string_raw_def)
  show "string_raw p a cs st \<Longrightarrow> (\<And>b. b \<in> {p, a} \<Longrightarrow> heap st' b = heap st b) \<Longrightarrow>
      streams st' = streams st \<Longrightarrow> string_raw p a cs st'"
    by (auto simp: string_raw_def)
  show "string_raw p a cs st \<Longrightarrow> port_at st p pt \<Longrightarrow>
      string_raw p a cs (set_port p (pt\<lparr>pt_flags := fl, pt_buffer := bf\<rparr>) st)"
    by (auto simp: string_raw_def)
  show "string_raw p a cs st \<Longrightarrow> port_at st p pt \<Longrightarrow> ascii cs \<Longrightarrow>
      \<exists>st' pt'. navi_port_buffer_char (Ref p) env st n = (Inr (), st') \<and> string_raw p a (tl cs) st' \<and>
        quiet {p, a} st st' \<and> port_at st' p pt' \<and> pt_buffer pt' = Some (front cs) \<and>
        pt_flags pt' = (if cs = [] then pt_flags pt OR GOT_EOF else pt_flags pt)"
    by (rule string_fetch)
qed

section \<open>Input from a stream\<close>

definition file_raw :: "addr \<Rightarrow> nat \<Rightarrow> string \<Rightarrow> state \<Rightarrow> bool" where
  "file_raw p f cs st \<longleftrightarrow> (\<exists>pt s. port_at st p pt \<and> pt_read_u8 pt \<and> \<not> pt_read_char pt \<and>
     pt_specific pt = Some f \<and> streams st f = Some s \<and> unread s = map byte_of cs)"

lemma file_fetch:
  assumes "file_raw p f cs st" and "port_at st p pt" and "ascii cs"
  shows "\<exists>st' pt'. navi_port_buffer_char (Ref p) env st n = (Inr (), st') \<and> file_raw p f (tl cs) st' \<and>
    quiet {p} st st' \<and> port_at st' p pt' \<and> pt_buffer pt' = Some (front cs) \<and>
    pt_flags pt' = (if cs = [] then pt_flags pt OR GOT_EOF else pt_flags pt)"
proof -
  obtain s where *: "pt_read_u8 pt" "\<not> pt_read_char pt" "pt_specific pt = Some f" "streams st f = Some s"
    "unread s = map byte_of cs"
    using assms(1,2) by (auto simp: file_raw_def)
  show ?thesis
  proof (cases cs)
    case Nil
    let ?pt = "set_flag GOT_EOF (pt\<lparr>pt_buffer := Some EOF\<rparr>)"
    have "navi_port_buffer_char (Ref p) env st n = (Inr (), set_port p ?pt st)"
      using assms(2) * Nil
      by (simp add: navi_port_buffer_char_def stdio_read_def deref_stream_def bind_run update_port_at)
    moreover have "file_raw p f (tl cs) (set_port p ?pt st)"
      using * Nil by (auto simp: file_raw_def set_flag_def)
    moreover have "quiet {p} st (set_port p ?pt st)"
      using assms(2) by (simp add: quiet_def soft_change_def set_flag_def)
    ultimately show ?thesis using Nil
      by (intro exI [of _ "set_port p ?pt st"] exI [of _ ?pt]) (simp add: set_flag_def)
  next
    case (Cons c cs')
    then have size: "utf8_char_size (char_code c) = 1" using assms(3) by (simp add: utf8_char_size_def)
    let ?pt = "pt\<lparr>pt_buffer := Some (char_code c)\<rparr>"
    let ?s = "set_port p ?pt (st\<lparr>streams := (streams st)(f \<mapsto> s\<lparr>unread := map byte_of cs'\<rparr>)\<rparr>)"
    have "navi_port_buffer_char (Ref p) env st n = (Inr (), ?s)"
      using assms(2) * Cons size
      by (simp add: navi_port_buffer_char_def stdio_read_def deref_stream_def put_stream_def bind_run
          update_port_at uint_byte_of)
    moreover have "file_raw p f (tl cs) ?s" using * Cons by (auto simp: file_raw_def)
    moreover have "quiet {p} st ?s" using assms(2) by (simp add: quiet_def soft_change_def)
    ultimately show ?thesis using Cons
      by (intro exI [of _ ?s] exI [of _ ?pt]) simp
  qed
qed

interpretation file_device: char_device p env "file_raw p f" "{p}" for p env f
proof unfold_locales
  fix cs :: string and st st' :: state and b n pt fl bf
  show "p \<in> {p}" by simp
  show "file_raw p f cs st \<Longrightarrow> b \<in> {p} \<Longrightarrow>
      \<exists>ob. heap st b = Some ob \<and> obj_type ob \<in> {NAVI_PORT, NAVI_STRING}"
    by (auto simp: file_raw_def)
  show "file_raw p f cs st \<Longrightarrow> \<exists>pt. port_at st p pt \<and> (pt_read_u8 pt \<or> pt_read_char pt)"
    by (auto simp: file_raw_def)
  show "file_raw p f cs st \<Longrightarrow> (\<And>b. b \<in> {p} \<Longrightarrow> heap st' b = heap st b) \<Longrightarrow>
      streams st' = streams st \<Longrightarrow> file_raw p f cs st'"
    by (auto simp: file_raw_def)
  show "file_raw p f cs st \<Longrightarrow> port_at st p pt \<Longrightarrow>
      file_raw p f cs (set_port p (pt\<lparr>pt_flags := fl, pt_buffer := bf\<rparr>) st)"
    by (auto simp: file_raw_def)
  show "file_raw p f cs st \<Longrightarrow> port_at st p pt \<Longrightarrow> ascii cs \<Longrightarrow>
      \<exists>st' pt'. navi_port_buffer_char (Ref p) env st n = (Inr (), st') \<and> file_raw p f (tl cs) st' \<and>
        quiet {p} st st' \<and> port_at st' p pt' \<and> pt_buffer pt' = Some (front cs) \<and>
        pt_flags pt' = (if cs = [] then pt_flags pt OR GOT_EOF else pt_flags pt)"
    by (rule file_fetch)
qed

end
