(* ===== verification/Spec_Text.thy ===== *)
theory Spec_Text
  imports Spec_Input
begin

text \<open>
  Data as text: the data \<open>sexp\<close> that \<open>write\<close> and \<open>read\<close> exchange, the objects that hold such a
  datum, its text, and the printer (\<open>display.c\<close>) on every port that meets the contract of an
  output port.
\<close>

section \<open>Data and the objects that hold them\<close>

datatype sexp =
    SNil
  | SFix int
  | SBool bool
  | SChar int
  | SString string
  | SSymbol string
  | SCons sexp sexp
  | SVector "sexp list"

definition interned_at :: "state \<Rightarrow> addr \<Rightarrow> string \<Rightarrow> bool" where
  "interned_at st a name \<longleftrightarrow>
     symbol_at st a name True \<and> a \<in> set (symbol_table st (bucket_of (symbol_hash name)))"

text \<open>\<open>holds A st x s\<close>: the object \<open>x\<close> holds the datum \<open>s\<close>, outside the addresses \<open>A\<close> but for symbols.\<close>

inductive holds :: "addr set \<Rightarrow> state \<Rightarrow> navi_obj \<Rightarrow> sexp \<Rightarrow> bool" for A :: "addr set" and st :: state where
  holds_nil: "holds A st NilO SNil"
| holds_fix: "holds A st (Fixnum w) (SFix (sint w))"
| holds_bool: "holds A st (BoolO b) (SBool b)"
| holds_char: "holds A st (CharO w) (SChar (sint w))"
| holds_string: "a \<notin> A \<Longrightarrow> string_at st a s \<Longrightarrow> buffer_ok s (map byte_of t) \<Longrightarrow> CHR 0x00 \<notin> set t \<Longrightarrow>
    holds A st (Ref a) (SString t)"
| holds_symbol: "interned_at st a name \<Longrightarrow> holds A st (Ref a) (SSymbol name)"
| holds_pair: "a \<notin> A \<Longrightarrow> pair_at st a x y \<Longrightarrow> holds A st x d \<Longrightarrow> holds A st y e \<Longrightarrow>
    holds A st (Ref a) (SCons d e)"
| holds_vector: "a \<notin> A \<Longrightarrow> vector_at st a (map Some xs) \<Longrightarrow> list_all2 (holds A st) xs ds \<Longrightarrow>
    holds A st (Ref a) (SVector ds)"

inductive_cases holds_SNilE: "holds A st x SNil"
inductive_cases holds_SFixE: "holds A st x (SFix i)"
inductive_cases holds_SBoolE: "holds A st x (SBool b)"
inductive_cases holds_SCharE: "holds A st x (SChar c)"
inductive_cases holds_SStringE: "holds A st x (SString t)"
inductive_cases holds_SSymbolE: "holds A st x (SSymbol name)"
inductive_cases holds_SConsE: "holds A st x (SCons d e)"
inductive_cases holds_SVectorE: "holds A st x (SVector ds)"

text \<open>What keeps data: the objects outside a set and the entries of the symbol table stay.\<close>

definition keeps :: "addr set \<Rightarrow> state \<Rightarrow> state \<Rightarrow> bool" where
  "keeps A st st' \<longleftrightarrow> (\<forall>a ob. heap st a = Some ob \<longrightarrow> a \<notin> A \<or> obj_type ob = NAVI_SYMBOL \<longrightarrow> heap st' a = Some ob) \<and>
     (\<forall>i. set (symbol_table st i) \<subseteq> set (symbol_table st' i))"

lemma keeps_refl [simp]: "keeps A st st"
  by (simp add: keeps_def)

lemma keeps_trans: "keeps A a b \<Longrightarrow> keeps A b c \<Longrightarrow> keeps A a c"
  by (fastforce simp: keeps_def)

lemma keeps_mono: "keeps A a b \<Longrightarrow> A \<subseteq> B \<Longrightarrow> keeps B a b"
  by (auto simp: keeps_def)

lemma interned_keeps: "interned_at st a name \<Longrightarrow> keeps A st st' \<Longrightarrow> interned_at st' a name"
  unfolding interned_at_def keeps_def by (metis navi_object.select_convs(1) subsetD)

lemma holds_keeps:
  assumes "holds A st x d" and "keeps A st st'"
  shows "holds A st' x d"
  using assms(1)
proof (induction rule: holds.induct)
  case (holds_vector a xs ds)
  then show ?case using assms(2)
    by (intro holds.holds_vector [of a A st' xs]) (auto simp: keeps_def elim: list_all2_mono)
next
  case (holds_symbol a name)
  then show ?case using interned_keeps assms(2) by (blast intro: holds.holds_symbol)
qed (use assms(2) in \<open>auto simp: keeps_def intro: holds.intros\<close>)

lemma holds_mono:
  assumes "holds A st x d" and "B \<subseteq> A"
  shows "holds B st x d"
  using assms(1)
proof (induction rule: holds.induct)
  case (holds_vector a xs ds)
  then show ?case using assms(2)
    by (intro holds.holds_vector [of a B st xs]) (auto elim: list_all2_mono)
qed (use assms(2) in \<open>auto intro: holds.intros\<close>)

lemma quiet_keeps:
  assumes "quiet own st st'" and "own \<subseteq> A"
  shows "keeps A st st'"
proof -
  have "heap st' a = Some ob" if "heap st a = Some ob" "a \<notin> A \<or> obj_type ob = NAVI_SYMBOL" for a ob
  proof (cases "a \<in> own")
    case True
    with that assms(2) have "obj_type ob = NAVI_SYMBOL" by blast
    with quiet_Some(1) [OF assms(1) that(1)] show ?thesis by (auto simp: soft_change_def)
  next
    case False
    with that assms(1) show ?thesis by (simp add: quiet_def)
  qed
  moreover have "symbol_table st' = symbol_table st" using assms(1) by (simp add: quiet_def)
  ultimately show ?thesis by (auto simp: keeps_def)
qed

section \<open>The text of a datum\<close>

definition spaced :: "string list \<Rightarrow> string" where
  "spaced ts = (case ts of [] \<Rightarrow> [] | t # ts \<Rightarrow> t @ concat (map ((@) '' '') ts))"

text \<open>
  \<open>render_tail\<close> is the rest of a list after its first element; \<open>w\<close> says whether strings are quoted.
\<close>

function render :: "bool \<Rightarrow> sexp \<Rightarrow> string" and render_tail :: "bool \<Rightarrow> sexp \<Rightarrow> string" where
  "render w SNil = ''()''"
| "render w (SFix i) = fmt_ld i"
| "render w (SBool b) = (if b then ''#t'' else ''#f'')"
| "render w (SChar c) = write_char_text c"
| "render w (SString t) = (if w then [CHR 0x22] @ t @ [CHR 0x22] else t)"
| "render w (SSymbol name) = name"
| "render w (SCons d e) = ''('' @ render w d @ render_tail w e"
| "render w (SVector ds) = ''#('' @ spaced (map (render w) ds) @ '')''"
| "render_tail w s = (case s of
     SNil \<Rightarrow> '')''
   | SCons d e \<Rightarrow> '' '' @ render w d @ render_tail w e
   | _ \<Rightarrow> '' . '' @ render w s @ '')'')"
  by pat_completeness auto

termination
  by (relation "measure (\<lambda>z. case z of Inl (_, s) \<Rightarrow> 2 * size s | Inr (_, s) \<Rightarrow> 2 * size s + 1)")
    (auto simp: less_Suc_eq_le dest: size_list_estimation' [where f = size, OF _ order_refl])

declare render_tail.simps [simp del]

fun no_symbols :: "sexp \<Rightarrow> bool" where
  "no_symbols (SSymbol name) = False"
| "no_symbols (SCons d e) = (no_symbols d \<and> no_symbols e)"
| "no_symbols (SVector ds) = list_all no_symbols ds"
| "no_symbols s = True"

section \<open>Printing\<close>

lemma cstr_from_text:
  "CHR 0x00 \<notin> set t \<Longrightarrow> cstr_from (map Some (map byte_of t) @ Some 0 # rest) = ret t"
proof (induction t)
  case (Cons c t)
  have "byte_of c \<noteq> 0"
  proof
    assume "byte_of c = 0"
    moreover have "char_of_byte 0 = CHR 0x00" by (simp add: char_of_byte_def char_of_def)
    ultimately have "c = CHR 0x00" using char_of_byte_of [of c] by metis
    with Cons.prems show False by simp
  qed
  with Cons show ?case by simp
qed simp

lemma cstr_from_buffer:
  assumes "buffer_ok s (map byte_of t)" and "CHR 0x00 \<notin> set t"
  shows "cstr_from (s_data s) = ret t"
proof -
  have "s_data s = take (length t) (s_data s) @ s_data s ! length t # drop (Suc (length t)) (s_data s)"
    using assms(1) by (intro id_take_nth_drop) (simp add: buffer_ok_def)
  then have "s_data s = map Some (map byte_of t) @ Some 0 # drop (Suc (length t)) (s_data s)"
    using assms(1) by (simp add: buffer_ok_def)
  then show ?thesis using cstr_from_text [OF assms(2)] by metis
qed

context text_sink begin

text \<open>A step of the printer that is known to write a text, in a longer computation.\<close>

definition writes :: "unit nm \<Rightarrow> string \<Rightarrow> state \<Rightarrow> nat \<Rightarrow> bool" where
  "writes m t st n \<longleftrightarrow> (\<exists>st'. m st n = (Inr (), st') \<and> sent (map byte_of t) st st')"

lemma writes_cstr: "ready st \<Longrightarrow> writes (navi_port_write_cstr t port env) t st n"
  using put_cstr [of st t n] by (auto simp: writes_def sent_def)

lemma writes_ret: "ready st \<Longrightarrow> writes (ret ()) [] st n"
  by (simp add: writes_def)

lemma writes_bind:
  assumes "writes m t st n" and "\<And>st'. sent (map byte_of t) st st' \<Longrightarrow> writes (f ()) u st' n"
  shows "writes (bind m f) (t @ u) st n"
proof -
  obtain st1 where 1: "m st n = (Inr (), st1)" "sent (map byte_of t) st st1"
    using assms(1) by (auto simp: writes_def)
  obtain st2 where 2: "f () st1 n = (Inr (), st2)" "sent (map byte_of u) st1 st2"
    using assms(2) [OF 1(2)] by (auto simp: writes_def)
  show ?thesis using 1(1) 2(1) sent_trans [OF 1(2) 2(2)] by (auto simp: writes_def)
qed

lemma writes_read: "m st n = (Inr v, st) \<Longrightarrow> writes (f v) t st n \<Longrightarrow> writes (bind m f) t st n"
  by (simp add: writes_def)

lemma writes_symbol:
  assumes "binary" and "ready st" and "interned_at st a name"
  shows "writes (write_symbol port (Ref a) env) name st n"
  using put_bytes_sent [OF assms(1,2), of name n] assms(3)
  by (simp add: writes_def write_symbol_def bind_run interned_at_def)

text \<open>The loop over the elements of a vector after the first one.\<close>

lemma writes_elements:
  assumes "ready st"
    and "\<And>i st. i \<in> set is \<Longrightarrow> ready st \<Longrightarrow> keeps own st0 st \<Longrightarrow> writes (f i ()) (t i) st n"
    and "keeps own st0 st"
  shows "writes (foldM f is ()) (concat (map t is)) st n"
  using assms
proof (induction "is" arbitrary: st)
  case (Cons i "is")
  have "writes (bind (f i ()) (foldM f is)) (t i @ concat (map t is)) st n"
  proof (rule writes_bind)
    show "writes (f i ()) (t i) st n" using Cons.prems by simp
    fix st'
    assume s: "sent (map byte_of (t i)) st st'"
    then have "keeps own st0 st'"
      using Cons.prems(3) by (auto simp: sent_def intro: keeps_trans quiet_keeps)
    with s show "writes (foldM f is ()) (concat (map t is)) st' n"
      using Cons.prems(2) by (intro Cons.IH) (auto dest: sent_ready)
  qed
  then show ?case by simp
qed (simp add: writes_ret)

lemma sent_keeps: "sent bs st st' \<Longrightarrow> own \<subseteq> A \<Longrightarrow> keeps A st st'"
  by (auto simp: sent_def intro: quiet_keeps)

text \<open>
  \<open>prints k\<close>: the printer with depth \<open>k\<close> writes the text of every datum smaller than \<open>k\<close>.
\<close>

definition printable :: "addr set \<Rightarrow> state \<Rightarrow> navi_obj \<Rightarrow> sexp \<Rightarrow> bool" where
  "printable A st x d \<longleftrightarrow> own \<subseteq> A \<and> ready st \<and> holds A st x d \<and> (binary \<or> no_symbols d)"

lemma printable_sent: "sent bs st st' \<Longrightarrow> printable A st x d \<Longrightarrow> printable A st' x d"
  using sent_keeps holds_keeps by (auto simp: printable_def dest: sent_ready)

lemma printable_type:
  assumes "printable A st x d"
  shows "navi_type x st n = (Inr (case d of SNil \<Rightarrow> NAVI_NIL | SFix _ \<Rightarrow> NAVI_FIXNUM | SBool _ \<Rightarrow> NAVI_BOOL
      | SChar _ \<Rightarrow> NAVI_CHAR | SString _ \<Rightarrow> NAVI_STRING | SSymbol _ \<Rightarrow> NAVI_SYMBOL | SCons _ _ \<Rightarrow> NAVI_PAIR
      | SVector _ \<Rightarrow> NAVI_VECTOR), st)"
proof -
  have "holds A st x d" using assms by (simp add: printable_def)
  then show ?thesis by cases (simp_all add: interned_at_def)
qed

lemma printable_pair:
  assumes "printable A st x (SCons d e)"
  obtains a y z where "x = Ref a" "pair_at st a y z" "printable A st y d" "printable A st z e" "a \<notin> A"
  using assms unfolding printable_def by (auto elim!: holds_SConsE)

text \<open>One pair of a list, when the rest of the list is known to be printed.\<close>

lemma writes_cell:
  assumes IH: "\<And>x d st. printable A st x d \<Longrightarrow> size d \<le> m \<Longrightarrow> writes (display port x w env) (render w d) st n"
    and x: "printable A st x (SCons d f)" and size: "size d \<le> m"
    and rest: "\<And>z st. printable A st z f \<Longrightarrow> writes (write_cdr display j port z False w env) (render_tail w f) st n"
  shows "writes (write_cdr display (Suc j) port x head w env)
    ((if head then [] else '' '') @ render w d @ render_tail w f) st n"
proof -
  have ready: "ready st" and own: "own \<subseteq> A" using x by (simp_all add: printable_def)
  from x obtain a y z where a: "x = Ref a" "pair_at st a y z" "printable A st y d"
    "printable A st z f" "a \<notin> A" by (auto elim: printable_pair)
  have pair: "pair_at st' a y z" if "keeps A st st'" for st' using that a(2,5) by (auto simp: keeps_def)
  have car: "navi_car x st' n = (Inr y, st')" and cdr: "navi_cdr x st' n = (Inr z, st')" if "keeps A st st'" for st'
    using pair [OF that] a(1) by simp_all
  let ?cell = "bind (navi_car x) (\<lambda>y. bind (display port y w env) (\<lambda>_. bind (navi_cdr x) (\<lambda>rest.
      write_cdr display j port rest False w env)))"
  have cell: "writes ?cell (render w d @ render_tail w f) st1 n"
    if 1: "sent bs st st1" for bs st1
  proof (rule writes_read [where v = y], rule car [OF sent_keeps [OF 1 own]], rule writes_bind)
    show "writes (display port y w env) (render w d) st1 n"
      by (intro IH printable_sent [OF 1 a(3)] size)
    fix st2
    assume 2: "sent (map byte_of (render w d)) st1 st2"
    note k2 = keeps_trans [OF sent_keeps [OF 1 own] sent_keeps [OF 2 own]]
    show "writes (bind (navi_cdr x) (\<lambda>rest. write_cdr display j port rest False w env)) (render_tail w f) st2 n"
      by (rule writes_read [where v = z], rule cdr [OF k2], rule rest)
        (rule printable_sent [OF 2 printable_sent [OF 1 a(4)]])
  qed
  have "writes (bind (if \<not> head then navi_port_write_cstr '' '' port env else ret ()) (\<lambda>_. ?cell))
    ((if head then [] else '' '') @ render w d @ render_tail w f) st n"
    by (rule writes_bind, cases head) (use ready cell in \<open>auto intro: writes_ret writes_cstr\<close>)
  then show ?thesis
    using printable_type [OF x, of n] by (simp add: writes_def bind_run [where m = "navi_type x"])
qed

lemma writes_tail:
  assumes IH: "\<And>x d st. printable A st x d \<Longrightarrow> size d \<le> m \<Longrightarrow> writes (display port x w env) (render w d) st n"
  shows "printable A st x e \<Longrightarrow> size e \<le> m \<Longrightarrow> size e < j \<Longrightarrow>
    writes (write_cdr display j port x False w env) (render_tail w e) st n"
proof (induction j arbitrary: x e st)
  case (Suc j)
  have ready: "ready st" using Suc.prems by (simp add: printable_def)
  note type = printable_type [OF Suc.prems(1), of n]
  consider (pair) d f where "e = SCons d f" | (nil) "e = SNil" | (other) "\<forall>d f. e \<noteq> SCons d f" "e \<noteq> SNil"
    by blast
  then show ?case
  proof cases
    case pair
    then show ?thesis
      using writes_cell [where m = m and display = display and A = A and w = w and n = n and x = x and
          d = d and f = f and st = st and j = j and head = False] IH Suc.IH Suc.prems by (simp add: render_tail.simps)
  next
    case nil
    then show ?thesis
      using type writes_cstr [OF ready, of "'')''" n]
      by (simp add: render_tail.simps writes_def bind_run [where m = "navi_type x"])
  next
    case other
    have "writes (bind (navi_port_write_cstr '' . '' port env) (\<lambda>_. bind (display port x w env) (\<lambda>_.
        navi_port_write_cstr '')'' port env))) ('' . '' @ render w e @ '')'') st n"
    proof (rule writes_bind [OF writes_cstr [OF ready]], rule writes_bind)
      fix st1
      assume 1: "sent (map byte_of '' . '') st st1"
      show "writes (display port x w env) (render w e) st1 n"
        by (rule IH [OF printable_sent [OF 1 Suc.prems(1)] Suc.prems(2)])
    qed (rule writes_cstr, erule sent_ready)
    then show ?thesis
      using other type
      by (cases e) (simp_all add: render_tail.simps writes_def bind_run [where m = "navi_type x"])
  qed
qed simp

lemma writes_vector:
  assumes IH: "\<And>x d st. printable A st x d \<Longrightarrow> d \<in> set ds \<Longrightarrow> writes (display port x w env) (render w d) st n"
    and x: "printable A st x (SVector ds)"
  shows "writes (write_vector display port x w env) (render w (SVector ds)) st n"
proof -
  have ready: "ready st" and own: "own \<subseteq> A" and bin: "binary \<or> no_symbols (SVector ds)"
    using x by (simp_all add: printable_def)
  from x obtain a xs where a: "x = Ref a" "a \<notin> A" "vector_at st a (map Some xs)" "list_all2 (holds A st) xs ds"
    by (auto simp: printable_def elim!: holds_SVectorE)
  have len: "length xs = length ds" using a(4) by (rule list_all2_lengthD)
  have vec: "navi_vector x st n = (Inr (map Some xs), st)" using a by simp
  have elem: "printable A st (xs ! i) (ds ! i)" if "i < length ds" for i
    using that a(4) own ready bin by (auto simp: printable_def list_all2_conv_all_nth list_all_iff)
  have element: "writes (bind (vector_get x i) (\<lambda>e. display port e w env)) (render w (ds ! i)) st1 n"
    if "i < length ds" "ready st1" "keeps own st st1" for i st1
  proof (rule writes_read [where v = "xs ! i"])
    have k: "keeps A st st1" by (rule keeps_mono [OF that(3) own])
    then have "vector_at st1 a (map Some xs)" using a(2,3) by (auto simp: keeps_def)
    then show "vector_get x i st1 n = (Inr (xs ! i), st1)" using a(1) that(1) len by simp
    have "printable A st1 (xs ! i) (ds ! i)"
      using elem [OF that(1)] k that(2) by (auto simp: printable_def intro: holds_keeps)
    then show "writes (display port (xs ! i) w env) (render w (ds ! i)) st1 n"
      using that(1) by (intro IH) simp_all
  qed
  show ?thesis
  proof (cases ds)
    case Nil
    then show ?thesis using writes_cstr [OF ready, of "''#()''" n] len vec
      by (simp add: write_vector_def writes_def bind_run [where m = "navi_vector x"] spaced_def)
  next
    case (Cons d ds')
    let ?rest = "\<lambda>i _. bind (navi_port_write_cstr '' '' port env) (\<lambda>_. bind (vector_get x i) (\<lambda>e. display port e w env))"
    have sp: "spaced (map (render w) ds) = render w (ds ! 0) @ concat (map (\<lambda>i. '' '' @ render w (ds ! i)) [1..<length ds])"
    proof -
      have "map (\<lambda>i. '' '' @ render w (ds ! i)) [1..<length ds] = map (\<lambda>d. '' '' @ render w d) ds'"
        using Cons by (intro nth_equalityI) (simp_all del: upt_Suc)
      then show ?thesis using Cons by (simp add: spaced_def comp_def del: upt_Suc)
    qed
    have "writes (bind (navi_port_write_cstr ''#('' port env) (\<lambda>_.
        bind (bind (vector_get x 0) (\<lambda>e. display port e w env)) (\<lambda>_.
        bind (foldM ?rest [1..<length ds] ()) (\<lambda>_. navi_port_write_cstr '')'' port env))))
      (''#('' @ render w (ds ! 0) @ concat (map (\<lambda>i. '' '' @ render w (ds ! i)) [1..<length ds]) @ '')'') st n"
    proof (rule writes_bind [OF writes_cstr [OF ready]], rule writes_bind)
      fix st1
      assume 1: "sent (map byte_of ''#('') st st1"
      then have k1: "keeps own st st1" by (rule sent_keeps) simp
      show "writes (bind (vector_get x 0) (\<lambda>e. display port e w env)) (render w (ds ! 0)) st1 n"
        using Cons by (intro element sent_ready [OF 1] k1) simp
      fix st2
      assume 2: "sent (map byte_of (render w (ds ! 0))) st1 st2"
      have k2: "keeps own st st2" using keeps_trans [OF k1 sent_keeps [OF 2]] by simp
      show "writes (bind (foldM ?rest [1..<length ds] ()) (\<lambda>_. navi_port_write_cstr '')'' port env))
        (concat (map (\<lambda>i. '' '' @ render w (ds ! i)) [1..<length ds]) @ '')'') st2 n"
      proof (rule writes_bind)
        show "writes (foldM ?rest [1..<length ds] ()) (concat (map (\<lambda>i. '' '' @ render w (ds ! i)) [1..<length ds])) st2 n"
        proof (rule writes_elements [OF sent_ready [OF 2] _ k2])
          fix i st3
          assume i: "i \<in> set [1..<length ds]" and 3: "ready st3" "keeps own st st3"
          show "writes (?rest i ()) ('' '' @ render w (ds ! i)) st3 n"
          proof (rule writes_bind [OF writes_cstr [OF 3(1)]])
            fix st4
            assume 4: "sent (map byte_of '' '') st3 st4"
            show "writes (bind (vector_get x i) (\<lambda>e. display port e w env)) (render w (ds ! i)) st4 n"
              using i keeps_trans [OF 3(2) sent_keeps [OF 4]] by (intro element sent_ready [OF 4]) auto
          qed
        qed
      qed (rule writes_cstr, erule sent_ready)
    qed
    moreover have "ds \<noteq> []" and "render w (SVector ds) = ''#('' @ render w (ds ! 0) @
        concat (map (\<lambda>i. '' '' @ render w (ds ! i)) [1..<length ds]) @ '')''"
      using Cons sp by (simp, simp only: render.simps append_assoc)
    moreover have "xs \<noteq> []" using len Cons by auto
    ultimately show ?thesis using len vec
      by (simp add: write_vector_def writes_def bind_run [where m = "navi_vector x"] del: render.simps upt_Suc)
  qed
qed

lemma writes_string:
  assumes "ready st" and "a \<notin> own" and "string_at st a s" and "buffer_ok s (map byte_of t)" and "CHR 0x00 \<notin> set t"
  shows "writes (write_string w port (Ref a) env) (render w (SString t)) st n"
proof -
  let ?quote = "if w then [CHR 0x22] else []"
  have q: "writes (if w then navi_port_write_cstr [CHR 0x22] port env else ret ()) ?quote st1 n"
    if "ready st1" for st1
    using that by (simp add: writes_cstr writes_ret)
  have "writes (write_string w port (Ref a) env) (?quote @ t @ ?quote) st n"
    unfolding write_string_def
  proof (rule writes_bind [OF q [OF assms(1)]])
    fix st1
    assume 1: "sent (map byte_of ?quote) st st1"
    have "keeps own st st1" by (rule sent_keeps [OF 1]) simp
    then have "string_at st1 a s" using assms(2,3) by (auto simp: keeps_def)
    moreover have "cstr_from (s_data s) = ret t" by (rule cstr_from_buffer [OF assms(4,5)])
    moreover have "writes (bind (navi_port_write_cstr t port env)
        (\<lambda>_. if w then navi_port_write_cstr [CHR 0x22] port env else ret ())) (t @ ?quote) st1 n"
      by (rule writes_bind [OF writes_cstr [OF sent_ready [OF 1]]], rule q, erule sent_ready)
    ultimately show "writes (bind (navi_string (Ref a)) (\<lambda>s. bind (cstr_from (s_data s))
        (\<lambda>text. bind (navi_port_write_cstr text port env)
        (\<lambda>_. if w then navi_port_write_cstr [CHR 0x22] port env else ret ())))) (t @ ?quote) st1 n"
      by (simp add: writes_def bind_run [where m = "navi_string (Ref a)"])
  qed
  then show ?thesis by (cases w) simp_all
qed

lemma writes_pair:
  assumes IH: "\<And>y e st. printable A st y e \<Longrightarrow> size e < size (SCons d f) \<Longrightarrow>
      writes (display port y w env) (render w e) st n"
    and x: "printable A st x (SCons d f)" and n: "size (SCons d f) < n"
  shows "writes (write_pair display port x w env) (render w (SCons d f)) st n"
proof -
  let ?m = "size d + size f"
  have IH': "writes (display port y w env) (render w e) st1 n" if "printable A st1 y e" "size e \<le> ?m" for y e st1
    using that by (intro IH) simp_all
  obtain j where j: "n = Suc j" using n by (cases n) auto
  have "writes (bind (navi_port_write_cstr ''('' port env) (\<lambda>_. write_cdr display (Suc j) port x True w env))
      (''('' @ (if True then [] else '' '') @ render w d @ render_tail w f) st n"
  proof (rule writes_bind)
    show "writes (navi_port_write_cstr ''('' port env) ''('' st n"
      using x by (intro writes_cstr) (simp add: printable_def)
    fix st1
    assume 1: "sent (map byte_of ''('') st st1"
    show "writes (write_cdr display (Suc j) port x True w env)
        ((if True then [] else '' '') @ render w d @ render_tail w f) st1 n"
    proof (rule writes_cell [where m = ?m and A = A])
      show "writes (write_cdr display j port z False w env) (render_tail w f) st2 n"
        if "printable A st2 z f" for z st2
        using that n j by (intro writes_tail [where m = ?m and A = A] IH') simp_all
    qed (use IH' printable_sent [OF 1 x] in simp_all)
  qed
  then show ?thesis using j by (simp add: write_pair_def writes_def bind_run del: write_cdr.simps)
qed

text \<open>The printer with depth \<open>k\<close> writes the text of every datum smaller than \<open>k\<close> and the budget.\<close>

lemma display_writes:
  "printable A st x d \<Longrightarrow> size d < k \<Longrightarrow> size d < n \<Longrightarrow>
    writes (display_depth k port x w env) (render w d) st n"
proof (induction k arbitrary: x d st)
  case (Suc k)
  have ready: "ready st" and own: "own \<subseteq> A" and bin: "binary \<or> no_symbols d" and h: "holds A st x d"
    using Suc.prems by (simp_all add: printable_def)
  note body = display_depth.simps display_body_def writes_def bind_run [where m = "navi_type x"]
    printable_type [OF Suc.prems(1), of n]
  have IH: "writes (display_depth k port y w env) (render w e) st1 n"
    if "printable A st1 y e" "size e < size d" for y e st1
    using that Suc.prems by (intro Suc.IH) simp_all
  show ?case
  proof (cases d)
    case SNil
    then show ?thesis using writes_cstr [OF ready, of "''()''" n] by (simp add: body)
  next
    case (SFix i)
    with h obtain u where "x = Fixnum u" "i = sint u" by (auto elim: holds_SFixE)
    then show ?thesis using SFix writes_cstr [OF ready, of "fmt_ld i" n] by (simp add: body write_fixnum_def)
  next
    case (SBool b)
    with h have "x = BoolO b" by (auto elim: holds_SBoolE)
    then show ?thesis using SBool writes_cstr [OF ready, of "render w d" n] by (simp add: body write_bool_def)
  next
    case (SChar c)
    with h obtain u where "x = CharO u" "c = sint u" by (auto elim: holds_SCharE)
    then show ?thesis using SChar writes_cstr [OF ready, of "write_char_text c" n] by (simp add: body write_char_def)
  next
    case (SString t)
    with h obtain a s where "x = Ref a" "a \<notin> A" "string_at st a s" "buffer_ok s (map byte_of t)" "CHR 0x00 \<notin> set t"
      by (auto elim: holds_SStringE)
    with own show ?thesis
      using writes_string [OF ready, of a s t w n] SString by (auto simp: body simp del: render.simps)
  next
    case (SSymbol name)
    with h bin show ?thesis
      using writes_symbol [OF _ ready, of _ name n] by (auto simp: body elim!: holds_SSymbolE)
  next
    case (SCons e f)
    then show ?thesis
      using writes_pair [where display = "display_depth k" and A = A and d = e and f = f and x = x and w = w and
          st = st and n = n] IH Suc.prems by (simp add: body)
  next
    case (SVector ds)
    have "size e < size d" if "e \<in> set ds" for e
      using that SVector by (simp add: less_Suc_eq_le size_list_estimation')
    then have "writes (write_vector (display_depth k) port x w env) (render w (SVector ds)) st n"
      using Suc.prems(1) SVector by (intro writes_vector IH) simp_all
    then show ?thesis using SVector by (simp add: body)
  qed
qed simp

end

section \<open>What the printer promises\<close>


text \<open>A stream that is written through one port, and read by another one later.\<close>

abbreviation stdio_port :: "bool \<Rightarrow> nat \<Rightarrow> navi_object" where
  "stdio_port input f \<equiv> \<lparr>obj_type = NAVI_PORT, obj_data = PPort \<lparr>pt_read_u8 = input, pt_write_u8 = \<not> input,
     pt_read_char = False, pt_write_char = False, pt_close_in = False, pt_close_out = False, pt_flags = 0,
     pt_buffer = None, pt_expr = VoidO, pt_pos = 0, pt_specific = Some f\<rparr>\<rparr>"

definition streams_demo :: "byte list \<Rightarrow> byte list \<Rightarrow> state" where
  "streams_demo out ins = (heap_of [stdio_port False 0, stdio_port True 1,
     pair_ob (Ref 4) (Ref 3), pair_ob (Ref 0) NilO, pair_ob (BoolO True) NilO, pair_ob (Ref 1) NilO])
     \<lparr>scopes := [0 \<mapsto> \<lparr>next_scope = None, refs = 1, guards = [], bindings = \<lambda>_. []\<rparr>],
      streams := [0 \<mapsto> \<lparr>unread = [], written = out\<rparr>, 1 \<mapsto> \<lparr>unread = ins, written = []\<rparr>]\<rparr>"


text \<open>
  C35: \<open>write\<close> and \<open>display\<close> on a string port append the text of a datum without symbols to the string
  the port collects; a symbol is refused, because its name is written byte by byte and a string port
  takes characters only.
\<close>

theorem write_to_string_port:
  assumes "string_ready p a st" and "holds {a} st x d" and "size d < n"
  shows "(no_symbols d \<longrightarrow> (\<exists>st'. navi_display_obj (Ref p) x w env st n = (Inr (), st') \<and>
      string_bytes a st' = string_bytes a st @ map byte_of (render w d) \<and>
      string_ready p a st' \<and> quiet {a} st st')) \<and>
    (\<forall>name. d = SSymbol name \<longrightarrow> name \<noteq> [] \<longrightarrow> navi_display_obj (Ref p) x w env st n =
      (Inl (Error InternalError (''port doesn'' @ [CHR 0x27] @ ''t support binary output'') [] env), st))"
proof (intro conjI impI allI)
  assume "no_symbols d"
  then show "\<exists>st'. navi_display_obj (Ref p) x w env st n = (Inr (), st') \<and>
      string_bytes a st' = string_bytes a st @ map byte_of (render w d) \<and>
      string_ready p a st' \<and> quiet {a} st st'"
    using string_sink.display_writes [where A = "{a}" and a = a and p = p and st = st and x = x and d = d and k = n and
        n = n and env = env and w = w] assms
    by (auto simp: string_sink.printable_def string_sink.writes_def string_sink.sent_def navi_display_obj_def)
next
  fix name :: string
  assume d: "d = SSymbol name" and "name \<noteq> []"
  then obtain c cs where name: "name = c # cs" by (cases name) auto
  obtain b where x: "x = Ref b" "symbol_at st b name True"
    using assms(2) d by (auto elim!: holds_SSymbolE simp: interned_at_def)
  obtain pt where pt: "port_at st p pt" "\<not> pt_write_u8 pt" "pt_write_char pt" "\<not> has_flag pt OUTPUT_CLOSED"
    using assms(1) by (auto simp: string_ready_def)
  obtain k where k: "n = Suc k" using assms(3) by (cases n) auto
  have "navi_port_write_byte b' (Ref p) env st n =
      (Inl (Error InternalError (''port doesn'' @ [CHR 0x27] @ ''t support binary output'') [] env), st)" for b'
    using pt by (simp add: navi_port_write_byte_def check_can_write_u8_def check_can_write_def
        check_output_port_def navi_port_is_output_port_def bind_run navi_error_def)
  then show "navi_display_obj (Ref p) x w env st n =
      (Inl (Error InternalError (''port doesn'' @ [CHR 0x27] @ ''t support binary output'') [] env), st)"
    using x name k by (simp add: navi_display_obj_def display_body_def write_symbol_def bind_run)
qed

theorem write_to_string_port_witness:
  "\<exists>st'. navi_display_obj (Ref 0) (BoolO False) True some_env (heap_of [
      \<lparr>obj_type = NAVI_PORT, obj_data = PPort \<lparr>pt_read_u8 = False, pt_write_u8 = False, pt_read_char = False,
        pt_write_char = True, pt_close_in = False, pt_close_out = False, pt_flags = 0, pt_buffer = None,
        pt_expr = Ref 1, pt_pos = 0, pt_specific = None\<rparr>\<rparr>,
      \<lparr>obj_type = NAVI_STRING, obj_data = PString \<lparr>s_size = 0, s_length = 0, s_capacity = 0, s_data = [Some 0]\<rparr>\<rparr>]) 1
      = (Inr (), st') \<and> string_bytes 1 st' = map byte_of ''#f''"
  (is "\<exists>st'. navi_display_obj _ _ _ _ ?st 1 = _ \<and> _")
proof -
  have r: "string_ready 0 1 ?st" by (simp add: string_ready_def has_flag_bit buffer_ok_def)
  have "string_bytes 1 ?st = []" by (simp add: string_bytes_def)
  then show ?thesis using write_to_string_port [OF r holds_bool [where b = False], of 1 True some_env] by auto
qed

end
