(* ===== verification/Spec_Lexer.thy ===== *)
theory Spec_Lexer
  imports Spec_Text
begin

unbundle bit_operations_syntax

text \<open>
  The loops of the reader over the characters of a port (\<open>read.c\<close>), on every port that meets the
  contract of an input port.
\<close>

section \<open>Classes of characters\<close>

definition space_char :: "char \<Rightarrow> bool" where
  "space_char c \<longleftrightarrow> char_code c = 32 \<or> 9 \<le> char_code c \<and> char_code c \<le> 13"

definition terminal_char :: "char \<Rightarrow> bool" where
  "terminal_char c \<longleftrightarrow> space_char c \<or> c = CHR ''('' \<or> c = CHR '')''"

definition digit_chr :: "char \<Rightarrow> bool" where
  "digit_chr c \<longleftrightarrow> 48 \<le> char_code c \<and> char_code c \<le> 57"

text \<open>The text after a token: its end, a space or a parenthesis.\<close>

definition delimited :: "string \<Rightarrow> bool" where
  "delimited rest \<longleftrightarrow> rest = [] \<or> terminal_char (hd rest)"

lemma char_code_inject: "char_code c = char_code d \<longleftrightarrow> c = d"
  by (simp add: char_code_def)

lemma char_code_lits:
  "char_code (CHR ''('') = 40" "char_code (CHR '')'') = 41" "char_code (CHR ''#'') = 35"
  "char_code (CHR ''.'') = 46" "char_code (CHR '';'') = 59" "char_code (CHR '' '') = 32"
  "char_code (CHR ''-'') = 45" "char_code (CHR ''+'') = 43" "char_code (CHR 0x22) = 34"
  "char_code (CHR 0x5C) = 92" "char_code (CHR 0x00) = 0" "char_code (CHR 0x27) = 39"
  "char_code (CHR 0x60) = 96" "char_code (CHR '','') = 44" "char_code (CHR ''|'') = 124"
  "char_code (CHR ''t'') = 116" "char_code (CHR ''f'') = 102"
  by (simp_all add: char_code_def)

lemma code_lit:
  "char_code c = 40 \<longleftrightarrow> c = CHR ''(''"
  "char_code c = 41 \<longleftrightarrow> c = CHR '')''"
  "char_code c = 35 \<longleftrightarrow> c = CHR ''#''"
  "char_code c = 46 \<longleftrightarrow> c = CHR ''.''"
  "char_code c = 59 \<longleftrightarrow> c = CHR '';''"
  "char_code c = 32 \<longleftrightarrow> c = CHR '' ''"
  "char_code c = 45 \<longleftrightarrow> c = CHR ''-''"
  "char_code c = 43 \<longleftrightarrow> c = CHR ''+''"
  "char_code c = 34 \<longleftrightarrow> c = CHR 0x22"
  "char_code c = 92 \<longleftrightarrow> c = CHR 0x5C"
  "char_code c = 0 \<longleftrightarrow> c = CHR 0x00"
  "char_code c = 39 \<longleftrightarrow> c = CHR 0x27"
  "char_code c = 96 \<longleftrightarrow> c = CHR 0x60"
  "char_code c = 44 \<longleftrightarrow> c = CHR '',''"
  "char_code c = 124 \<longleftrightarrow> c = CHR ''|''"
  "char_code c = 116 \<longleftrightarrow> c = CHR ''t''"
  "char_code c = 102 \<longleftrightarrow> c = CHR ''f''"
  by (simp_all add: char_code_inject flip: char_code_lits)

lemma front_domain: "ctype_domain (front cs)"
  using front_range [of cs] by (simp add: ctype_domain_def)

lemma isspace_front: "c_isspace (front cs) = ret (cs \<noteq> [] \<and> space_char (hd cs))"
  using front_domain [of cs] by (cases cs) (auto simp: c_isspace_def space_char_def EOF_def)

lemma isterminal_front: "isterminal (front cs) env = ret (delimited cs)"
  using isspace_front [of cs] by (cases cs) (simp_all add: isterminal_def delimited_def terminal_char_def code_lit, simp_all add: ret_def)

lemma front_EOF [simp]: "front cs = EOF \<longleftrightarrow> cs = []"
  by (cases cs) simp_all

text \<open>The conversion of an \<open>int\<close> to \<open>char\<close> keeps the ASCII characters and \<open>EOF\<close>.\<close>

lemma to_char_small: "- 128 \<le> i \<Longrightarrow> i < 128 \<Longrightarrow> to_char i = i"
  by (simp add: to_char_def signed_of_int signed_take_bit_int_eq_self)

lemma to_char_front: "ascii cs \<Longrightarrow> to_char (front cs) = front cs"
  using front_range [of cs] to_char_small [of "front cs"] by (cases cs) (auto simp: EOF_def)

lemma isdigit_front: "c_isdigit (front cs) = ret (cs \<noteq> [] \<and> digit_chr (hd cs))"
  using front_domain [of cs] by (cases cs) (auto simp: c_isdigit_def digit_chr_def EOF_def)

lemma char_of_code [simp]: "char_of_byte (word_of_int (char_code c)) = c"
proof -
  have "word_of_int (char_code c) = byte_of c" by (simp add: char_code_def byte_of_def)
  then show ?thesis by simp
qed

lemma ascii_tl: "ascii cs \<Longrightarrow> ascii (tl cs)"
  by (cases cs) simp_all

section \<open>The loops over characters\<close>

context text_source begin

text \<open>\<open>at rest st st'\<close>: input was read up to \<open>rest\<close>, and nothing else happened.\<close>

definition at :: "string \<Rightarrow> state \<Rightarrow> state \<Rightarrow> bool" where
  "at rest st st' \<longleftrightarrow> left rest st' \<and> quiet own st st'"

lemma at_left: "at rest st st' \<Longrightarrow> left rest st'"
  by (simp add: at_def)

lemma at_refl: "left cs st \<Longrightarrow> at cs st st"
  by (simp add: at_def)

lemma at_trans: "at cs a b \<Longrightarrow> at ds b c \<Longrightarrow> at ds a c"
  by (auto simp: at_def intro: quiet_trans)

text \<open>\<open>gives m v rest st n\<close>: the computation returns \<open>v\<close> and leaves \<open>rest\<close> to be read.\<close>

definition gives :: "'a nm \<Rightarrow> 'a \<Rightarrow> string \<Rightarrow> state \<Rightarrow> nat \<Rightarrow> bool" where
  "gives m v rest st n \<longleftrightarrow> (\<exists>st'. m st n = (Inr v, st') \<and> at rest st st')"

lemma gives_bind:
  assumes "gives m v cs st n" and "\<And>st'. at cs st st' \<Longrightarrow> gives (f v) w ds st' n"
  shows "gives (bind m f) w ds st n"
proof -
  obtain st1 where 1: "m st n = (Inr v, st1)" "at cs st st1" using assms(1) by (auto simp: gives_def)
  obtain st2 where "f v st1 n = (Inr w, st2)" "at ds st1 st2" using assms(2) [OF 1(2)] by (auto simp: gives_def)
  with 1 show ?thesis by (auto simp: gives_def intro: at_trans)
qed

lemma gives_ret: "left cs st \<Longrightarrow> gives (ret v) v cs st n"
  by (auto simp: gives_def intro: at_refl)

lemma gives_pure: "m = ret v \<Longrightarrow> gives (f v) w cs st n \<Longrightarrow> gives (bind m f) w cs st n"
  by simp

lemma gives_peek: "left cs st \<Longrightarrow> gives (peek_char port env) (front cs) cs st n"
  using peek [of cs st n] by (auto simp: gives_def at_def)

lemma gives_read: "left cs st \<Longrightarrow> gives (read_char port env) (front cs) (tl cs) st n"
  using get [of cs st n] by (auto simp: gives_def at_def)

lemma gives_ipeek: "left (c # cs) st \<Longrightarrow> gives (ipeek_char port env) (char_code c) (c # cs) st n"
  unfolding ipeek_char_def
  by (rule gives_bind [OF gives_peek], assumption) (simp add: gives_ret at_left)

lemma gives_iread: "left (c # cs) st \<Longrightarrow> gives (iread_char port env) (char_code c) cs st n"
  unfolding iread_char_def
  by (rule gives_bind [OF gives_read], assumption) (simp add: gives_ret at_left)

text \<open>Blanks are skipped up to the first other character or the end.\<close>

lemma gives_peek_first:
  assumes "\<forall>c \<in> set sp. space_char c" and "cs = [] \<or> \<not> space_char (hd cs)"
  shows "left (sp @ cs) st \<Longrightarrow> length sp < j \<Longrightarrow> gives (peek_first_rounds j port env) (front cs) cs st n"
  using assms(1)
proof (induction sp arbitrary: j st)
  case Nil
  then obtain i where j: "j = Suc i" by (cases j) auto
  have "gives (peek_first_rounds (Suc i) port env) (front cs) cs st n"
    unfolding peek_first_rounds.simps
    by (rule gives_bind [OF gives_peek]) (use Nil assms(2) in \<open>auto simp: isspace_front gives_ret at_left\<close>)
  then show ?case using j by simp
next
  case (Cons c sp)
  then obtain i where j: "j = Suc i" by (cases j) auto
  have "gives (peek_first_rounds (Suc i) port env) (front cs) cs st n"
    unfolding peek_first_rounds.simps
  proof (rule gives_bind [OF gives_peek [OF Cons.prems(1)]], rule gives_pure [OF isspace_front])
    fix st1
    assume "at ((c # sp) @ cs) st st1"
    then have l: "left (c # sp @ cs) st1" by (auto simp: at_def)
    have "gives (bind (read_char port env) (\<lambda>_. peek_first_rounds i port env)) (front cs) cs st1 n"
      by (rule gives_bind [OF gives_read [OF l]], rule Cons.IH) (use Cons.prems j in \<open>auto dest: at_left\<close>)
    then show "gives (if (c # sp) @ cs \<noteq> [] \<and> space_char (hd ((c # sp) @ cs))
        then bind (read_char port env) (\<lambda>_. peek_first_rounds i port env) else ret (front ((c # sp) @ cs)))
        (front cs) cs st1 n"
      using Cons.prems(3) by simp
  qed
  then show ?case using j by simp
qed

text \<open>A token is read up to the text that ends it.\<close>

lemma gives_until:
  assumes "\<forall>c \<in> set t. \<not> terminal_char c" and "delimited rest"
  shows "left (t @ rest) st \<Longrightarrow> length t < j \<Longrightarrow>
    gives (read_until_rounds j port isterminal env acc) (takeWhile (\<lambda>ch. ch \<noteq> CHR 0x00) (acc @ t)) rest st n"
  using assms(1)
proof (induction t arbitrary: j st acc)
  case Nil
  then obtain i where j: "j = Suc i" by (cases j) auto
  have "gives (read_until_rounds (Suc i) port isterminal env acc)
      (takeWhile (\<lambda>ch. ch \<noteq> CHR 0x00) (acc @ [])) rest st n"
    unfolding read_until_rounds.simps
    by (rule gives_bind [OF gives_peek]) (use Nil assms(2) in \<open>auto simp: isterminal_front gives_ret at_left\<close>)
  then show ?case using j by simp
next
  case (Cons c t)
  then obtain i where j: "j = Suc i" by (cases j) auto
  have "gives (read_until_rounds (Suc i) port isterminal env acc)
      (takeWhile (\<lambda>ch. ch \<noteq> CHR 0x00) ((acc @ [c]) @ t)) rest st n"
    unfolding read_until_rounds.simps
  proof (rule gives_bind [OF gives_peek [OF Cons.prems(1)]], rule gives_pure [OF isterminal_front])
    fix st1
    assume "at ((c # t) @ rest) st st1"
    then have l: "left (c # t @ rest) st1" by (auto simp: at_def)
    have "gives (bind (read_char port env) (\<lambda>_. read_until_rounds i port isterminal env
        (acc @ [char_of_byte (word_of_int (front ((c # t) @ rest)))])))
        (takeWhile (\<lambda>ch. ch \<noteq> CHR 0x00) ((acc @ [c]) @ t)) rest st1 n"
    proof (rule gives_bind [OF gives_read [OF l]])
      fix st2
      assume "at (tl (c # t @ rest)) st1 st2"
      then show "gives (read_until_rounds i port isterminal env (acc @ [char_of_byte (word_of_int (front ((c # t) @ rest)))]))
          (takeWhile (\<lambda>ch. ch \<noteq> CHR 0x00) ((acc @ [c]) @ t)) rest st2 n"
        using Cons.IH [of st2 i "acc @ [c]"] Cons.prems j by (simp add: at_left)
    qed
    then show "gives (if delimited ((c # t) @ rest) then ret (takeWhile (\<lambda>ch. ch \<noteq> CHR 0x00) acc)
        else bind (read_char port env) (\<lambda>_. read_until_rounds i port isterminal env
          (acc @ [char_of_byte (word_of_int (front ((c # t) @ rest)))])))
        (takeWhile (\<lambda>ch. ch \<noteq> CHR 0x00) ((acc @ [c]) @ t)) rest st1 n"
      using Cons.prems(3) by (simp add: delimited_def)
  qed
  then show ?case using j by simp
qed

lemma gives_token:
  assumes "\<forall>c \<in> set t. \<not> terminal_char c \<and> c \<noteq> CHR 0x00" and "delimited rest"
    and "left (t @ rest) st" and "length t < n"
  shows "gives (read_until port isterminal env) t rest st n"
proof -
  have "takeWhile (\<lambda>ch. ch \<noteq> CHR 0x00) t = t" using assms(1) by (simp add: takeWhile_eq_all_conv)
  with gives_until [OF _ assms(2,3,4), of "[]" n] assms(1) show ?thesis
    by (simp add: gives_def read_until_def)
qed

text \<open>Without folding of case a token is kept.\<close>

lemma gives_fold_cstr: "left cs st \<Longrightarrow> gives (fold_cstr port t) t cs st n"
proof -
  assume l: "left cs st"
  have "foldM (\<lambda>ch out. bind (handle_case port (char_value ch)) (\<lambda>c. ret (out @ [char_of_byte (word_of_int c)]))) t acc st n =
      (Inr (acc @ t), st)" for acc
    by (induction t arbitrary: acc)
      (simp_all add: handle_case_def bind_run no_fold [OF l] char_value_def)
  then show ?thesis using l by (simp add: gives_def fold_cstr_def at_refl)
qed

text \<open>The digits of a number are added up.\<close>

lemma gives_unum:
  assumes "\<forall>c \<in> set t. digit_chr c" and "rest = [] \<or> \<not> digit_chr (hd rest)"
  shows "left (t @ rest) st \<Longrightarrow> length t < j \<Longrightarrow>
    gives (read_unum_rounds j port 10 c_isdigit decimal_value env u)
      (fold (\<lambda>c u. u * 10 + word_of_int (char_code c - 48)) t u) rest st n"
  using assms(1)
proof (induction t arbitrary: j st u)
  case Nil
  then obtain i where j: "j = Suc i" by (cases j) auto
  have "gives (read_unum_rounds (Suc i) port 10 c_isdigit decimal_value env u) u rest st n"
    unfolding read_unum_rounds.simps Let_def
    by (rule gives_bind [OF gives_peek], use Nil in simp, unfold to_char_front [OF left_ascii [OF Nil(1)], simplified])
      (use assms(2) in \<open>auto simp: isdigit_front gives_def intro: at_refl dest: at_left\<close>)
  then show ?case using j by simp
next
  case (Cons c t)
  then obtain i where j: "j = Suc i" by (cases j) auto
  note ascii = left_ascii [OF Cons.prems(1)]
  have "gives (read_unum_rounds (Suc i) port 10 c_isdigit decimal_value env u)
      (fold (\<lambda>c u. u * 10 + word_of_int (char_code c - 48)) t (u * 10 + word_of_int (char_code c - 48))) rest st n"
    unfolding read_unum_rounds.simps Let_def
  proof (rule gives_bind [OF gives_peek [OF Cons.prems(1)]], unfold to_char_front [OF ascii],
      rule gives_pure [OF isdigit_front])
    fix st1
    assume "at ((c # t) @ rest) st st1"
    then have l: "left (c # t @ rest) st1" by (auto simp: at_def)
    have "gives (bind (read_char port env) (\<lambda>_. read_unum_rounds i port 10 c_isdigit decimal_value env
        (u * word_of_int 10 + word_of_int (char_code c - 48))))
      (fold (\<lambda>c u. u * 10 + word_of_int (char_code c - 48)) t (u * 10 + word_of_int (char_code c - 48))) rest st1 n"
      using Cons.IH [of _ i "u * 10 + word_of_int (char_code c - 48)"] Cons.prems j
      by (intro gives_bind [OF gives_read [OF l]]) (simp add: at_left)
    then show "gives (if \<not> ((c # t) @ rest \<noteq> [] \<and> digit_chr (hd ((c # t) @ rest))) then ret u
        else bind (decimal_value (front ((c # t) @ rest)) env) (\<lambda>d. bind (read_char port env) (\<lambda>_.
          read_unum_rounds i port 10 c_isdigit decimal_value env (u * word_of_int 10 + word_of_int d))))
      (fold (\<lambda>c u. u * 10 + word_of_int (char_code c - 48)) t (u * 10 + word_of_int (char_code c - 48))) rest st1 n"
      using Cons.prems(3) by (simp add: decimal_value_def)
  qed
  then show ?case using j by simp
qed

end

end
