(* ===== verification/Spec_Token.thy ===== *)
theory Spec_Token
  imports Spec_Lexer
begin

text \<open>
  The tokens of the reader (\<open>read.c\<close>): numbers, booleans, characters, symbols and strings, each read
  back from the text the printer gives it.
\<close>

section \<open>Objects made while reading\<close>

text \<open>The objects that are there and are no symbols: what is read is made of others.\<close>

definition old :: "state \<Rightarrow> addr set" where
  "old st = {a. \<exists>ob. heap st a = Some ob \<and> obj_type ob \<noteq> NAVI_SYMBOL}"

lemma old_hext: "hext st st' \<Longrightarrow> old st \<subseteq> old st'"
  by (auto simp: old_def hext_def) (metis (full_types))

lemma quiet_hext:
  assumes "quiet own st st'"
  shows "hext st st'"
proof -
  have "\<exists>ob'. heap st' a = Some ob' \<and> obj_type ob' = obj_type ob" if "heap st a = Some ob" for a ob
    using quiet_Some(1) [OF assms that] by (auto dest: soft_changeD(1))
  then show ?thesis using assms by (simp add: hext_def quiet_def)
qed

lemma keeps_same_below:
  assumes "wf_heap st" and "same_below st st'" and "\<And>i. set (symbol_table st i) \<subseteq> set (symbol_table st' i)"
  shows "keeps A st st'"
  using assms by (auto simp: keeps_def intro: heap_same_below_keep)

context text_source begin

definition good :: "state \<Rightarrow> bool" where
  "good st \<longleftrightarrow> symtab_ok st \<and> scopes st (lexical env) \<noteq> None"

definition grew :: "state \<Rightarrow> state \<Rightarrow> bool" where
  "grew st st' \<longleftrightarrow> good st' \<and> keeps own st st' \<and> hext st st'"

lemma good_wf: "good st \<Longrightarrow> wf_heap st"
  by (simp add: good_def symtab_ok_def)

lemma grew_good: "grew st st' \<Longrightarrow> good st'"
  by (simp add: grew_def)

lemma grew_refl: "good st \<Longrightarrow> grew st st"
  by (simp add: grew_def)

lemma grew_trans: "grew a b \<Longrightarrow> grew b c \<Longrightarrow> grew a c"
  by (auto simp: grew_def intro: keeps_trans hext_trans)

lemma at_grew: "good st \<Longrightarrow> at cs st st' \<Longrightarrow> grew st st'"
  using quiet_symtab_ok [of own st st'] quiet_keeps [of own st st' own] quiet_hext [of own st st']
  by (auto simp: grew_def good_def at_def quiet_def)

lemma own_old: "left cs st \<Longrightarrow> own \<subseteq> old st"
  by (auto simp: old_def dest!: own_objects)

lemma left_same_below:
  assumes "left cs st" and "wf_heap st" and "same_below st st'" and "streams st' = streams st"
  shows "left cs st'"
proof (rule left_frame [OF assms(1) _ assms(4)])
  fix a
  assume "a \<in> own"
  then obtain ob where "heap st a = Some ob" using own_objects [OF assms(1)] by blast
  then show "heap st' a = heap st a" using heap_same_below_keep [OF assms(2,3)] by metis
qed

text \<open>The computation reads the datum \<open>d\<close> into new objects and leaves \<open>rest\<close>.\<close>

definition reads_datum :: "navi_obj nm \<Rightarrow> sexp \<Rightarrow> string \<Rightarrow> state \<Rightarrow> nat \<Rightarrow> bool" where
  "reads_datum m d rest st n \<longleftrightarrow>
     (\<exists>x st'. m st n = (Inr x, st') \<and> left rest st' \<and> holds (old st) st' x d \<and> grew st st')"

lemma reads_after:
  assumes "gives m v cs st n" and "good st"
    and "\<And>st'. left cs st' \<Longrightarrow> good st' \<Longrightarrow> reads_datum (f v) d rest st' n"
  shows "reads_datum (bind m f) d rest st n"
proof -
  obtain st1 where 1: "m st n = (Inr v, st1)" "at cs st st1" using assms(1) by (auto simp: gives_def)
  note g = at_grew [OF assms(2) 1(2)]
  obtain x st2 where 2: "f v st1 n = (Inr x, st2)" "left rest st2" "holds (old st1) st2 x d" "grew st1 st2"
    using assms(3) [OF at_left [OF 1(2)] grew_good [OF g]] by (auto simp: reads_datum_def)
  have "holds (old st) st2 x d"
    using g by (intro holds_mono [OF 2(3)] old_hext) (simp add: grew_def)
  with 1 2 grew_trans [OF g 2(4)] show ?thesis by (auto simp: reads_datum_def)
qed

lemma reads_value:
  assumes "gives m x rest st n" and "good st" and "\<And>A st. holds A st x d"
  shows "reads_datum m d rest st n"
  using assms at_grew [OF assms(2)] at_left by (auto simp: reads_datum_def gives_def)

lemma reads_pure: "m = ret v \<Longrightarrow> reads_datum (f v) d cs st n \<Longrightarrow> reads_datum (bind m f) d cs st n"
  by simp

end

section \<open>Numbers\<close>

lemma digit_char_code: "d < 10 \<Longrightarrow> char_code (digit_char d) = 48 + int d"
  by (simp add: char_code_def digit_char_def of_char_of)

lemma digits_digit_chr: "c \<in> set (digits 10 k) \<Longrightarrow> digit_chr c"
proof (induction "10 :: nat" k rule: digits.induct)
  case (1 k)
  show ?case
  proof (cases "k < 10")
    case True
    then show ?thesis using 1(2) by (simp add: digits.simps [of 10 k] digit_chr_def digit_char_code)
  next
    case False
    then have "digits 10 k = digits 10 (k div 10) @ [digit_char (k mod 10)]" by (subst digits.simps) simp
    with 1 False show ?thesis by (auto simp: digit_chr_def digit_char_code)
  qed
qed

lemma digits_nonempty: "digits 10 k \<noteq> []"
  by (subst digits.simps) simp

lemma fold_digits:
  "fold (\<lambda>c u. u * 10 + word_of_int (char_code c - 48)) (digits 10 k) 0 = (word_of_nat k :: 64 word)"
proof (induction "10 :: nat" k rule: digits.induct)
  case (1 k)
  show ?case
  proof (cases "k < 10")
    case True
    then show ?thesis by (simp add: digits.simps [of 10 k] digit_char_code)
  next
    case False
    then have *: "digits 10 k = digits 10 (k div 10) @ [digit_char (k mod 10)]" by (subst digits.simps) simp
    have "word_of_nat k = (word_of_nat (k div 10 * 10 + k mod 10) :: 64 word)" by simp
    also have "\<dots> = word_of_nat (k div 10) * 10 + word_of_nat (k mod 10)"
      by (simp only: of_nat_add of_nat_mult of_nat_numeral)
    finally show ?thesis using 1 False by (simp add: * digit_char_code)
  qed
qed

context text_source begin

lemma gives_decimal:
  assumes "left (digits 10 k @ rest) st" and "rest = [] \<or> \<not> digit_chr (hd rest)"
    and "length (digits 10 k) < n" and "k < 2 ^ 63"
  shows "gives (read_decimal port env) (navi_make_fixnum (int k)) rest st n"
proof -
  obtain c cs where c: "digits 10 k = c # cs" using digits_nonempty [of k] by (cases "digits 10 k") auto
  with digits_digit_chr [of c k] have dc: "char_code c \<noteq> 45" "char_code c \<noteq> 43" by (auto simp: digit_chr_def)
  have front: "front (digits 10 k @ rest) = char_code c" using c by simp
  have code: "to_char (char_code c) = char_code c" using to_char_front [OF left_ascii [OF assms(1)]] c by simp
  have sint: "sint (word_of_nat k :: 64 word) = int k"
    using assms(4) by (simp add: signed_of_nat signed_take_bit_int_eq_self)
  have unum: "gives (read_unum port 10 c_isdigit decimal_value env) (word_of_nat k) rest st1 n"
    if "left (digits 10 k @ rest) st1" for st1
    using gives_unum [OF _ assms(2) that assms(3), of 0 n, unfolded fold_digits] digits_digit_chr [of _ k]
    by (simp add: gives_def read_unum_def)
  have "gives (read_num port 10 c_isdigit decimal_value env) (int k) rest st n"
    unfolding read_num_def Let_def
  proof (rule gives_bind [OF gives_peek [OF assms(1)]], unfold front code)
    fix st1
    assume "at (digits 10 k @ rest) st st1"
    then have l: "left (digits 10 k @ rest) st1" by (rule at_left)
    have "gives (bind (read_unum port 10 c_isdigit decimal_value env) (\<lambda>u. ret (sint (1 * u)))) (int k) rest st1 n"
      by (rule gives_bind [OF unum [OF l]]) (use sint in \<open>auto intro: gives_ret dest: at_left\<close>)
    then show "gives (bind (if char_code c = 45 then bind (read_char port env) (\<lambda>_. ret (- 1))
        else if char_code c = 43 then bind (read_char port env) (\<lambda>_. ret 1) else ret 1)
        (\<lambda>sign. bind (read_unum port 10 c_isdigit decimal_value env) (\<lambda>u. ret (sint (sign * u)))))
        (int k) rest st1 n"
      using dc by simp
  qed
  then show ?thesis
    unfolding read_decimal_def by (rule gives_bind) (auto intro: gives_ret dest: at_left)
qed

lemma gives_first:
  assumes "left (sp @ cs) st" and "\<forall>c \<in> set sp. space_char c" and "cs = [] \<or> \<not> space_char (hd cs)"
    and "length sp < n"
  shows "gives (peek_first_char port env) (front cs) cs st n"
  using gives_peek_first [OF assms(2,3,1,4), of n] by (simp add: gives_def peek_first_char_def)

lemma digit_not_space: "digit_chr c \<Longrightarrow> \<not> space_char c"
  by (auto simp: digit_chr_def space_char_def)

lemma delimited_not_digit: "delimited rest \<Longrightarrow> rest = [] \<or> \<not> digit_chr (hd rest)"
  by (auto simp: delimited_def terminal_char_def space_char_def digit_chr_def char_code_lits)

lemma body_natural:
  assumes "gives (peek_first_char port env) (front (digits 10 k @ rest)) (digits 10 k @ rest) st n" and "good st" and "delimited rest"
    and "length (digits 10 k) < n" and "int k < 2 ^ 62"
  shows "reads_datum (navi_read_body sharp rd port env) (SFix (int k)) rest st n"
proof -
  obtain c cs where c: "digits 10 k = c # cs" using digits_nonempty [of k] by (cases "digits 10 k") auto
  have digit: "digit_chr c" using digits_digit_chr [of c k] c by simp
  have rest: "rest = [] \<or> \<not> digit_chr (hd rest)"
    by (rule delimited_not_digit [OF assms(3)])
  have "sint (word_of_nat k :: 63 word) = int k"
    using assms(5) by (simp add: signed_of_nat signed_take_bit_int_eq_self)
  then have val: "holds A st' (navi_make_fixnum (int k)) (SFix (int k))" for A st'
    using holds_fix [of A st' "word_of_nat k"] by (simp add: navi_make_fixnum_def)
  have first: "gives (peek_first_char port env) (char_code c) (digits 10 k @ rest) st n"
    using assms(1) c by simp
  show ?thesis
    unfolding navi_read_body_def
  proof (rule reads_after [OF first assms(2)], goal_cases)
    case (1 st')
    have "reads_datum (read_decimal port env) (SFix (int k)) rest st' n"
      by (rule reads_value [OF gives_decimal [OF 1(1) rest assms(4)] 1(2) val]) (use assms(5) in simp)
    then show ?case using digit by (simp add: digit_chr_def)
  qed
qed

lemma body_negative:
  assumes "gives (peek_first_char port env) 45 (CHR ''-'' # digits 10 k @ rest) st n" and "good st" and "delimited rest"
    and "length (digits 10 k) < n" and "int k \<le> 2 ^ 62"
  shows "reads_datum (navi_read_body sharp rd port env) (SFix (- int k)) rest st n"
proof -
  obtain c cs where c: "digits 10 k = c # cs" using digits_nonempty [of k] by (cases "digits 10 k") auto
  have digit: "digit_chr c" using digits_digit_chr [of c k] c by simp
  have "(word_of_int (sint (word_of_nat k :: 63 word) * - 1) :: 63 word) = - word_of_nat k" by simp
  moreover have "sint (- word_of_nat k :: 63 word) = - int k"
  proof -
    have "sint (word_of_int (- int k) :: 63 word) = - int k"
      using assms(5) by (subst signed_of_int) (simp add: signed_take_bit_int_eq_self)
    then show ?thesis by simp
  qed
  ultimately have val: "holds A st' (navi_make_fixnum (sint (word_of_nat k :: 63 word) * - 1)) (SFix (- int k))" for A st'
    using holds_fix [of A st' "- word_of_nat k"] by (simp add: navi_make_fixnum_def)
  note first = assms(1)
  show ?thesis
    unfolding navi_read_body_def
  proof (rule reads_after [OF first assms(2)], goal_cases)
    case (1 st1)
    note read = gives_read [OF 1(1), of n]
    have "reads_datum (bind (read_char port env) (\<lambda>_. bind (peek_char port env) (\<lambda>d. bind (c_isdigit d) (\<lambda>b.
        if b then bind (read_decimal port env) (\<lambda>expr. bind (navi_fixnum expr) (\<lambda>i.
            ret (navi_make_fixnum (i * (if (45 :: int) = 43 then 1 else - 1)))))
        else read_symbol_with_prefix port isterminal 45 env)))) (SFix (- int k)) rest st1 n"
    proof (rule reads_after [OF read 1(2)], rule reads_after [OF gives_peek], simp, simp, goal_cases)
      case (1 st2 st3)
      have "gives (read_decimal port env) (navi_make_fixnum (int k)) rest st3 n"
        using 1(3) assms(3-5) by (intro gives_decimal delimited_not_digit) auto
      then have "reads_datum (bind (read_decimal port env) (\<lambda>expr. bind (navi_fixnum expr) (\<lambda>i.
          ret (navi_make_fixnum (i * - 1))))) (SFix (- int k)) rest st3 n"
      proof (rule reads_after [OF _ 1(4)])
        fix st4
        assume "left rest st4" "good st4"
        then show "reads_datum (bind (navi_fixnum (navi_make_fixnum (int k))) (\<lambda>i.
            ret (navi_make_fixnum (i * - 1)))) (SFix (- int k)) rest st4 n"
          using reads_value [OF gives_ret _ val] by (simp add: navi_make_fixnum_def del: ret_run)
      qed
      then show ?case using c digit isdigit_front [of "digits 10 k @ rest"] by simp
    qed
    then show ?case by (simp add: EOF_def)
  qed
qed

end

section \<open>Symbols\<close>

text \<open>
  The names that are read back as symbols: no character that ends a token, and a first character that
  does not start another kind of datum.
\<close>

definition symbol_text :: "string \<Rightarrow> bool" where
  "symbol_text s \<longleftrightarrow> s \<noteq> [] \<and> (\<forall>c \<in> set s. \<not> terminal_char c \<and> c \<noteq> CHR 0x00) \<and>
     hd s \<notin> {CHR 0x22, CHR 0x27, CHR 0x60, CHR '','', CHR ''#'', CHR '';'', CHR ''|'', CHR ''.''} \<and>
     \<not> digit_chr (hd s) \<and>
     (hd s \<in> {CHR ''+'', CHR ''-''} \<longrightarrow> tl s = [] \<or> \<not> digit_chr (hd (tl s)))"

context text_source begin

lemma reads_intern:
  assumes "left rest st" and "good st"
  shows "reads_datum (navi_make_symbol name) (SSymbol name) rest st n"
proof -
  have ok: "symtab_ok st" and wf: "wf_heap st" using assms(2) by (auto simp: good_def symtab_ok_def)
  show ?thesis
  proof (cases "symtab st name")
    case None
    let ?st = "intern_st name st"
    have sb: "same_below st ?st" by (rule same_below_intern)
    have "symtab ?st name = Some (hp_next st)" using intern_st_ok(2) [OF ok None] by simp
    then have "interned_at ?st (hp_next st) name"
      using symtab_Some [OF intern_st_ok(1) [OF ok None]] by (simp add: interned_at_def)
    then have "holds (old st) ?st (Ref (hp_next st)) (SSymbol name)" by (rule holds_symbol)
    moreover have "left rest ?st"
      by (rule left_same_below [OF assms(1) wf sb]) (simp add: intern_st_def alloc_st_def)
    moreover have "grew st ?st"
      unfolding grew_def good_def
      using intern_st_ok(1) [OF ok None] assms(2) hext_same_below [OF wf sb]
      by (auto simp: good_def intro: keeps_same_below [OF wf sb])
    ultimately show ?thesis
      using navi_make_symbol_run [OF ok, of name n] None by (auto simp: reads_datum_def)
  next
    case (Some a)
    then have "holds (old st) st (Ref a) (SSymbol name)"
      using symtab_Some [OF ok Some] by (intro holds_symbol) (simp add: interned_at_def)
    then show ?thesis
      using navi_make_symbol_run [OF ok, of name n] Some assms grew_refl by (auto simp: reads_datum_def)
  qed
qed

lemma reads_symbol:
  assumes "left (s @ rest) st" and "good st" and "delimited rest" and "length s < n"
    and "\<forall>c \<in> set s. \<not> terminal_char c \<and> c \<noteq> CHR 0x00"
  shows "reads_datum (read_symbol port isterminal env) (SSymbol s) rest st n"
  unfolding read_symbol_def
  by (rule reads_after [OF gives_token [OF assms(5,3,1,4)] assms(2)], rule reads_after [OF gives_fold_cstr])
    (auto intro: reads_intern)

lemma reads_symbol_with_prefix:
  assumes "left (s @ rest) st" and "good st" and "delimited rest" and "length s < n"
    and "\<forall>c \<in> set s. \<not> terminal_char c \<and> c \<noteq> CHR 0x00"
  shows "reads_datum (read_symbol_with_prefix port isterminal (char_code c) env) (SSymbol (c # s)) rest st n"
  unfolding read_symbol_with_prefix_def
  by (rule reads_after [OF gives_token [OF assms(5,3,1,4)] assms(2)], rule reads_after [OF gives_fold_cstr])
    (auto intro: reads_intern)

lemma body_symbol:
  assumes "gives (peek_first_char port env) (front (s @ rest)) (s @ rest) st n" and "good st" and "delimited rest" and "length s < n" and "symbol_text s"
  shows "reads_datum (navi_read_body sharp rd port env) (SSymbol s) rest st n"
proof -
  from assms(5) obtain c s' where s: "s = c # s'" by (cases s) (auto simp: symbol_text_def)
  have chars: "\<forall>c \<in> set s. \<not> terminal_char c \<and> c \<noteq> CHR 0x00" using assms(5) by (simp add: symbol_text_def)
  have c: "\<not> terminal_char c" "\<not> digit_chr c"
    "c \<notin> {CHR 0x22, CHR 0x27, CHR 0x60, CHR '','', CHR ''#'', CHR '';'', CHR ''|'', CHR ''.''}"
    using assms(5) s by (auto simp: symbol_text_def)
  have first: "gives (peek_first_char port env) (char_code c) (s @ rest) st n"
    using assms(1) s by simp
  show ?thesis
    unfolding navi_read_body_def
  proof (rule reads_after [OF first assms(2)], goal_cases)
    case (1 st1)
    show ?case
    proof (cases "c = CHR ''+'' \<or> c = CHR ''-''")
      case False
      have "reads_datum (read_symbol port isterminal env) (SSymbol s) rest st1 n"
        by (rule reads_symbol [OF 1 assms(3,4) chars])
      then show ?thesis using c False by (auto simp: code_lit terminal_char_def digit_chr_def)
    next
      case True
      have read: "gives (read_char port env) (char_code c) (s' @ rest) st1 n"
        using gives_read [OF 1(1), of n] s by simp
      have "(s' @ rest \<noteq> [] \<and> digit_chr (hd (s' @ rest))) = False"
        using assms(5) s True delimited_not_digit [OF assms(3)] by (cases s') (auto simp: symbol_text_def)
      then have digit: "c_isdigit (front (s' @ rest)) = ret False" by (simp only: isdigit_front)
      have "reads_datum (bind (read_char port env) (\<lambda>_. bind (peek_char port env) (\<lambda>d. bind (c_isdigit d) (\<lambda>b.
        if b then bind (read_decimal port env) (\<lambda>expr. bind (navi_fixnum expr) (\<lambda>i.
            ret (navi_make_fixnum (i * (if char_code c = 43 then 1 else - 1)))))
        else read_symbol_with_prefix port isterminal (char_code c) env)))) (SSymbol s) rest st1 n"
      proof (rule reads_after [OF read 1(2)], rule reads_after [OF gives_peek], simp, simp, rule reads_pure [OF digit], goal_cases)
        case (1 st2 st3)
        then show ?case
          using reads_symbol_with_prefix [of s' rest st3 n c] assms(3,4) chars s by simp
      qed
      moreover have "EOF \<noteq> 43" "EOF \<noteq> 45" by (simp_all add: EOF_def)
      ultimately show ?thesis using True by (elim disjE) (simp_all add: char_code_lits)
    qed
  qed
qed

end

section \<open>Booleans and characters\<close>

definition readable_char :: "int \<Rightarrow> bool" where
  "readable_char c \<longleftrightarrow> 0 \<le> c \<and> c < 128 \<and> c \<notin> {11, 12, 40, 41}"

lemma named_char:
  assumes "navi_char_name c = Some name"
  shows "List.find (\<lambda>e. fst e = name) named_chars = Some (name, c)" and "length name \<noteq> 1"
    and "name \<noteq> [] \<and> hd name \<noteq> CHR ''x''" and "\<forall>ch \<in> set name. \<not> terminal_char ch \<and> ch \<noteq> CHR 0x00"
  using assms
  by (auto simp: navi_char_name_def named_chars_def terminal_char_def space_char_def char_code_def split: if_splits)

lemma named_char_range: "navi_char_name c = Some name \<Longrightarrow> 0 \<le> c \<and> c < 128"
  by (auto simp: navi_char_name_def named_chars_def split: if_splits)

lemma unnamed_char:
  assumes "readable_char c" and "navi_char_name c = None"
  defines "ch \<equiv> char_of_byte (word_of_int c)"
  shows "char_code ch = c" and "\<not> terminal_char ch" and "ch \<noteq> CHR 0x00" and "char_value ch = c"
proof -
  have range: "0 \<le> c" "c < 128" and ne: "c \<notin> {0, 9, 10, 11, 12, 13, 32, 40, 41}"
    using assms(1,2) by (auto simp: readable_char_def navi_char_name_def named_chars_def split: if_splits)
  have "uint (word_of_int c :: byte) = c" using range by (simp add: uint_word_of_int)
  then show code: "char_code ch = c" using uint_byte_of [of ch] by (simp add: ch_def)
  show "\<not> terminal_char ch" using ne range by (auto simp: terminal_char_def space_char_def code char_code_lits simp flip: code_lit)
  show "ch \<noteq> CHR 0x00" using ne by (simp add: code flip: code_lit)
  show "char_value ch = c"
    using range by (simp add: char_value_def ch_def signed_of_int signed_take_bit_int_eq_self)
qed

lemma holds_char_value:
  assumes "0 \<le> c" and "c < 128"
  shows "holds A st (navi_make_char c) (SChar c)"
proof -
  have "sint (word_of_int c :: 60 word) = c" using assms by (simp add: signed_of_int signed_take_bit_int_eq_self)
  then show ?thesis using holds_char [of A st "word_of_int c"] by (simp add: navi_make_char_def)
qed

context text_source begin

lemma reads_character:
  assumes "left (t @ rest) st" and "good st" and "delimited rest" and "length t < n"
    and "readable_char c" and "write_char_text c = ''#'' @ [CHR 0x5C] @ t"
  shows "reads_datum (read_character port env) (SChar c) rest st n"
proof (cases "navi_char_name c")
  case (Some name)
  note nc = named_char [OF Some]
  have t: "t = name" using assms(6) Some by (simp add: write_char_text_def)
  show ?thesis
    unfolding read_character_def
  proof (rule reads_after [OF gives_token [OF _ assms(3,1,4)] assms(2)], goal_cases)
    case (2 st1)
    have "reads_datum (ret (navi_make_char c)) (SChar c) rest st2 n" if "left rest st2" "good st2" for st2
      using that named_char_range [OF Some] by (intro reads_value [OF gives_ret] holds_char_value) auto
    then have "reads_datum (bind (fold_cstr port t) (\<lambda>str.
       if str \<noteq> [] \<and> hd str = CHR ''x'' then
         bind (char_hex env (tl str) 0) (\<lambda>ch.
         if \<not> u_isdefined ch then
           navi_read_error env ''invalid character literal'' [(''value'', IObj (navi_make_fixnum ch))]
         else ret (navi_make_char ch))
       else (case List.find (\<lambda>e. fst e = str) named_chars of
           Some e \<Rightarrow> ret (navi_make_char (snd e))
         | None \<Rightarrow>
             bind (navi_cstr_to_string str) (\<lambda>name.
             navi_read_error env ''unknown named character'' [(''name'', IObj name)])))) (SChar c) rest st1 n"
      using nc(1,3) t by (intro reads_after [OF gives_fold_cstr [OF 2(1)] 2(2)]) simp
    then show ?case using nc(2) t by simp
  qed (use nc(4) t in blast)
next
  case None
  note uc = unnamed_char [OF assms(5) None]
  have range: "0 \<le> c" "c < 128" using assms(5) by (auto simp: readable_char_def)
  have t: "t = [char_of_byte (word_of_int c)]"
    using assms(6) None range uc(3) by (simp add: write_char_text_def)
  show ?thesis
    unfolding read_character_def
  proof (rule reads_after [OF gives_token [OF _ assms(3,1,4)] assms(2)], goal_cases)
    case (2 st1)
    then show ?case
      using t uc(4) range reads_value [OF gives_ret [OF 2(1)] 2(2) holds_char_value] by (simp del: ret_run)
  qed (use uc(2,3) t in simp)
qed

lemma sharp_boolean:
  assumes "left ((if b then CHR ''t'' else CHR ''f'') # rest) st" and "good st" and "delimited rest" and "0 < n"
  shows "reads_datum (read_sharp_body internal sharp rd port env) (SBool b) rest st n"
proof -
  let ?c = "if b then CHR ''t'' else CHR ''f''"
  have "reads_datum (read_boolean port ?c env) (SBool b) rest st1 n" if "left rest st1" "good st1" for st1
    unfolding read_boolean_def Let_def
  proof (rule reads_after [OF gives_token [of "[]"] that(2)])
    fix st2
    assume "left rest st2" "good st2"
    from reads_value [OF gives_ret [OF this(1)] this(2)] holds_bool
    show "reads_datum (if ?c # take 4 [] = ''t'' \<or> ?c # take 4 [] = ''true'' then ret (navi_make_bool True)
        else if ?c # take 4 [] = ''f'' \<or> ?c # take 4 [] = ''false'' then ret (navi_make_bool False)
        else navi_read_error env ''invalid # syntax'' []) (SBool b) rest st2 n"
      by (cases b) (simp_all add: navi_make_bool_def del: ret_run)
  qed (use assms that in auto)
  then show ?thesis
    unfolding read_sharp_body_def
    by (intro reads_after [OF gives_iread [OF assms(1)] assms(2)], cases b)
      (simp_all add: Let_def to_char_small char_code_lits)
qed

lemma sharp_character:
  assumes "left (CHR 0x5C # t @ rest) st" and "good st" and "delimited rest" and "length t < n"
    and "readable_char c" and "write_char_text c = ''#'' @ [CHR 0x5C] @ t"
  shows "reads_datum (read_sharp_body internal sharp rd port env) (SChar c) rest st n"
  unfolding read_sharp_body_def
  by (rule reads_after [OF gives_iread [OF assms(1)] assms(2)])
    (simp add: Let_def to_char_small char_code_lits reads_character assms(3-6))

end

section \<open>Strings\<close>

text \<open>
  The buffer of a string literal: its size stays 0 until the end, so \<open>navi_string_grow_storage\<close>
  finds 64 bytes free and never makes it larger.
\<close>

definition literal_buffer :: "navi_string \<Rightarrow> bool" where
  "literal_buffer s \<longleftrightarrow> s_capacity s = 64 \<and> s_size s = 0 \<and> length (s_data s) = 65"

definition plain_text :: "string \<Rightarrow> bool" where
  "plain_text t \<longleftrightarrow> (\<forall>c \<in> set t. c \<noteq> CHR 0x22 \<and> c \<noteq> CHR 0x5C \<and> c \<noteq> CHR 0x00)"

lemma grown_literal:
  assumes "literal_buffer s"
  shows "literal_buffer (grown s STR_BUF_STEP)"
    and "k \<le> 64 \<Longrightarrow> take k (s_data (grown s STR_BUF_STEP)) = take k (s_data s)"
  using assms by (simp_all add: literal_buffer_def grown_def STR_BUF_STEP_def Let_def)

context text_source begin

lemma quiet_mono: "quiet A st st' \<Longrightarrow> A \<subseteq> B \<Longrightarrow> quiet B st st'"
  by (auto simp: quiet_def)

lemma string_step:
  assumes "left (c # cs) st" and "c \<noteq> CHR 0x22" and "c \<noteq> CHR 0x5C" and "a \<notin> own"
    and "string_at st a s" and "literal_buffer s"
  shows "pos = 65 \<Longrightarrow> \<exists>st'. read_string_rounds (Suc i) (Ref a) port env pos len st n = (Inl Undef, st')"
    and "pos \<le> 64 \<Longrightarrow> \<exists>st' s'. read_string_rounds (Suc i) (Ref a) port env pos len st n =
        read_string_rounds i (Ref a) port env (Suc pos) (Suc len) st' n \<and>
      left cs st' \<and> string_at st' a s' \<and> literal_buffer s' \<and> quiet (insert a own) st st' \<and>
      take (Suc pos) (s_data s') = take pos (s_data s) @ [Some (byte_of c)]"
proof -
  from gives_iread [OF assms(1), of n] obtain st1 where
    read: "iread_char port env st n = (Inr (char_code c), st1)" and at: "at cs st st1" by (auto simp: gives_def)
  have at1: "string_at st1 a s" using at assms(4,5) by (simp add: at_def quiet_def)
  define g where "g = (if int pos + u8_length (char_code c) \<ge> int (s_capacity s) then grown s STR_BUF_STEP else s)"
  let ?str = "\<lambda>s st. st\<lparr>heap := (heap st)(a \<mapsto> \<lparr>obj_type = NAVI_STRING, obj_data = PString s\<rparr>)\<rparr>"
  have g: "literal_buffer g" and gtake: "k \<le> 64 \<Longrightarrow> take k (s_data g) = take k (s_data s)" for k
    using assms(6) grown_literal [OF assms(6)] by (simp_all add: g_def)
  have grow: "(if int (s_capacity s) \<le> int pos + u8_length (char_code c)
      then navi_string_grow_storage (Ref a) STR_BUF_STEP else ret ()) st1 n = (Inr (), ?str g st1)"
    using at1 by (auto simp: g_def navi_string_grow_storage_def fun_upd_idem)
  have run: "read_string_rounds (Suc i) (Ref a) port env pos len st n =
      bind (u8_append (Ref a) pos (char_code c)) (\<lambda>pos. read_string_rounds i (Ref a) port env pos (Suc len)) (?str g st1) n"
    using read assms(2,3) at1 grow by (simp add: bind_run code_lit)
  have ga: "string_at (?str g st1) a g" by simp
  have glen: "length (s_data g) = 65" using g by (simp add: literal_buffer_def)
  show "\<exists>st'. read_string_rounds (Suc i) (Ref a) port env pos len st n = (Inl Undef, st')" if "pos = 65"
    unfolding run using glen that by (simp add: u8_append_def string_put_def bind_run)
  show "\<exists>st' s'. read_string_rounds (Suc i) (Ref a) port env pos len st n =
        read_string_rounds i (Ref a) port env (Suc pos) (Suc len) st' n \<and>
      left cs st' \<and> string_at st' a s' \<and> literal_buffer s' \<and> quiet (insert a own) st st' \<and>
      take (Suc pos) (s_data s') = take pos (s_data s) @ [Some (byte_of c)]" if "pos \<le> 64"
  proof -
    let ?s = "g\<lparr>s_data := (s_data g)[pos := Some (byte_of c)]\<rparr>"
    have "(word_of_int (char_code c) :: byte) = byte_of c" by (simp add: char_code_def byte_of_def)
    then have "u8_append (Ref a) pos (char_code c) (?str g st1) n = (Inr (Suc pos), ?str ?s st1)"
      using glen that by (simp add: u8_append_def string_put_def bind_run)
    then have "read_string_rounds (Suc i) (Ref a) port env pos len st n =
        read_string_rounds i (Ref a) port env (Suc pos) (Suc len) (?str ?s st1) n"
      unfolding run by simp
    moreover have "left cs (?str ?s st1)"
      by (rule left_frame [OF at_left [OF at]]) (use assms(4) in auto)
    moreover have "quiet (insert a own) st st1" using at quiet_mono [of own st st1 "insert a own"] by (simp add: at_def subset_insertI)
    then have "quiet (insert a own) st (?str ?s st1)"
      by (rule quiet_trans) (use at1 in \<open>simp add: quiet_def soft_change_def\<close>)
    moreover have "literal_buffer ?s" using g by (simp add: literal_buffer_def)
    moreover have "take (Suc pos) (s_data ?s) = take pos (s_data s) @ [Some (byte_of c)]"
      using glen that gtake [of pos] by (simp add: take_Suc_conv_app_nth)
    ultimately show ?thesis
      by (intro exI [of _ "?str ?s st1"] exI [of _ ?s]) simp
  qed
qed

lemma string_end:
  assumes "left (CHR 0x22 # rest) st"
  shows "\<exists>st'. read_string_rounds (Suc i) (Ref a) port env pos len st n = (Inr (pos, len), st') \<and> at rest st st'"
  using gives_iread [OF assms, of n] by (auto simp: gives_def bind_run char_code_lits)

lemma string_loop:
  assumes "plain_text t" and "a \<notin> own"
  shows "left (t @ CHR 0x22 # rest) st \<Longrightarrow> string_at st a s \<Longrightarrow> literal_buffer s \<Longrightarrow> length t < j \<Longrightarrow>
    pos + length t \<le> 64 \<Longrightarrow> \<exists>st' s'. read_string_rounds j (Ref a) port env pos len st n =
      (Inr (pos + length t, len + length t), st') \<and> left rest st' \<and> string_at st' a s' \<and> literal_buffer s' \<and>
      quiet (insert a own) st st' \<and>
      take (pos + length t) (s_data s') = take pos (s_data s) @ map Some (map byte_of t)"
  using assms(1)
proof (induction t arbitrary: st s j pos len)
  case Nil
  then obtain i where j: "j = Suc i" by (cases j) auto
  from string_end [of rest st i a pos len n] Nil(1) obtain st' where st':
    "read_string_rounds j (Ref a) port env pos len st n = (Inr (pos, len), st')" "at rest st st'"
    by (auto simp: j)
  moreover have "string_at st' a s" using st'(2) assms(2) Nil(2) by (simp add: at_def quiet_def)
  ultimately show ?case using Nil(3) by (auto simp: at_def intro: quiet_mono)
next
  case (Cons c t)
  then obtain i where j: "j = Suc i" by (cases j) auto
  have c: "c \<noteq> CHR 0x22" "c \<noteq> CHR 0x5C" "plain_text t" using Cons.prems(6) by (simp_all add: plain_text_def)
  from string_step(2) [of c "t @ CHR 0x22 # rest" st a s pos i len n] Cons.prems(1-3,5) c assms(2)
  obtain st1 s1 where 1: "read_string_rounds j (Ref a) port env pos len st n =
      read_string_rounds i (Ref a) port env (Suc pos) (Suc len) st1 n"
    "left (t @ CHR 0x22 # rest) st1" "string_at st1 a s1" "literal_buffer s1" "quiet (insert a own) st st1"
    "take (Suc pos) (s_data s1) = take pos (s_data s) @ [Some (byte_of c)]" by (auto simp: j)
  from Cons.IH [OF 1(2-4), of i "Suc pos" "Suc len"] Cons.prems(4,5) j c(3) 1(1,6)
  show ?case by (auto intro: quiet_trans [OF 1(5)])
qed

lemma string_overflow:
  assumes "plain_text t" and "a \<notin> own"
  shows "left (t @ CHR 0x22 # rest) st \<Longrightarrow> string_at st a s \<Longrightarrow> literal_buffer s \<Longrightarrow> length t < j \<Longrightarrow>
    pos \<le> 65 \<Longrightarrow> 64 < pos + length t \<Longrightarrow>
    \<exists>st'. bind (read_string_rounds j (Ref a) port env pos len) (\<lambda>(pos, len). bind (string_put (Ref a) pos 0) (f pos len)) st n =
      (Inl Undef, st')"
  using assms(1)
proof (induction t arbitrary: st s j pos len)
  case Nil
  then obtain i where j: "j = Suc i" by (cases j) auto
  from string_end [of rest st i a pos len n] Nil(1) obtain st' where st':
    "read_string_rounds j (Ref a) port env pos len st n = (Inr (pos, len), st')" "at rest st st'"
    by (auto simp: j)
  moreover have "string_at st' a s" using st'(2) assms(2) Nil(2) by (simp add: at_def quiet_def)
  ultimately show ?case using Nil(3,5,6) by (simp add: literal_buffer_def string_put_def bind_run)
next
  case (Cons c t)
  then obtain i where j: "j = Suc i" by (cases j) auto
  have c: "c \<noteq> CHR 0x22" "c \<noteq> CHR 0x5C" "plain_text t" using Cons.prems(7) by (simp_all add: plain_text_def)
  show ?case
  proof (cases "pos = 65")
    case True
    then show ?thesis
      using string_step(1) [of c "t @ CHR 0x22 # rest" st a s pos i len n] Cons.prems(1-3) c assms(2) j by auto
  next
    case False
    from string_step(2) [of c "t @ CHR 0x22 # rest" st a s pos i len n] Cons.prems(1-3,5) c assms(2) False
    obtain st1 s1 where 1: "read_string_rounds j (Ref a) port env pos len st n =
        read_string_rounds i (Ref a) port env (Suc pos) (Suc len) st1 n"
      "left (t @ CHR 0x22 # rest) st1" "string_at st1 a s1" "literal_buffer s1" by (auto simp: j)
    from Cons.IH [OF 1(2-4), of i "Suc pos" "Suc len"] Cons.prems(4-6) j c(3) False 1(1)
    show ?thesis by (simp add: bind_run)
  qed
qed

lemma keeps_fresh:
  assumes "keeps (insert a A) st st'" and "heap st a = None"
  shows "keeps A st st'"
proof -
  have "b \<noteq> a" if "heap st b = Some ob" for b ob using that assms(2) by auto
  with assms(1) show ?thesis by (simp add: keeps_def)
qed

lemma symtab_ok_same_below:
  assumes "symtab_ok st" and "wf_heap st'" and "same_below st st'" and "symbol_table st' = symbol_table st"
  shows "symtab_ok st'"
proof -
  have sym: "symbol_at st' a s True" if "symbol_at st a s True" for a s
    using heap_same_below_keep [OF symtab_okD(1) [OF assms(1)] assms(3) that] .
  have name: "name_at st' a = name_at st a" if "a \<in> set (symbol_table st i)" for a i
    using symtab_okD(2) [OF assms(1) that] sym by (auto simp: name_at_def)
  then have maps: "map (name_at st') (symbol_table st i) = map (name_at st) (symbol_table st i)" for i by simp
  have "distinct (map (name_at st') (symbol_table st' i))" for i
    unfolding assms(4) maps by (rule symtab_okD(3) [OF assms(1)])
  moreover have "\<exists>s. symbol_at st' a s True \<and> bucket_of (symbol_hash s) = i" if "a \<in> set (symbol_table st' i)" for a i
    using symtab_okD(2) [OF assms(1), of a i] that sym unfolding assms(4) by blast
  ultimately show ?thesis using assms(2) unfolding symtab_ok_def by blast
qed

text \<open>Allocating an object while reading.\<close>

lemma good_alloc:
  assumes "good st" and "tag_ok \<lparr>obj_type = t, obj_data = d\<rparr>" and "\<forall>x \<in> payload_refs d. valid_obj st x"
  shows "grew st (alloc_st t d st)"
proof -
  note wf = good_wf [OF assms(1)]
  have "symtab_ok st" using assms(1) by (simp add: good_def)
  then have "symtab_ok (alloc_st t d st)"
    by (rule symtab_ok_same_below [OF _ wf_heap_alloc [OF wf assms(2,3)] same_below_alloc]) simp
  moreover have "keeps own st (alloc_st t d st)" by (rule keeps_same_below [OF wf same_below_alloc]) simp
  ultimately show ?thesis using assms(1) hext_alloc [OF wf] by (simp add: grew_def good_def)
qed

lemma left_alloc: "left cs st \<Longrightarrow> wf_heap st \<Longrightarrow> left cs (alloc_st t d st)"
  by (erule left_same_below) (simp_all add: alloc_st_def same_below_def)

lemma read_string_run:
  assumes "left (t @ CHR 0x22 # rest) st" and "good st" and "plain_text t" and "length t < n"
  shows "length t \<le> 64 \<Longrightarrow> reads_datum (read_string port env) (SString t) rest st n"
    and "64 < length t \<Longrightarrow> \<exists>st'. read_string port env st n = (Inl Undef, st')"
proof -
  note wf = good_wf [OF assms(2)]
  define a where "a = hp_next st"
  define s where "s = \<lparr>s_size = 0, s_length = 0, s_capacity = 64, s_data = ((replicate 65 None)[64 := Some 0])[0 := Some (0 :: byte)]\<rparr>"
  define st1 where "st1 = alloc_st NAVI_STRING (PString s) st"
  have make: "navi_make_string STR_BUF_LEN 0 0 st n = (Inr (Ref a), st1)"
    by (simp add: navi_make_string_def STR_BUF_LEN_def make_object_run a_def s_def st1_def)
  have at1: "string_at st1 a s" by (simp add: st1_def a_def heap_alloc_st)
  have buf: "literal_buffer s" by (simp add: literal_buffer_def s_def)
  have l1: "left (t @ CHR 0x22 # rest) st1" unfolding st1_def by (rule left_alloc [OF assms(1) wf])
  have g1: "grew st st1" unfolding st1_def by (rule good_alloc [OF assms(2)]) simp_all
  have none: "heap st a = None" unfolding a_def by (rule wf_heap_fresh [OF wf])
  then have own: "a \<notin> own" using own_objects [OF assms(1)] by fastforce
  show "\<exists>st'. read_string port env st n = (Inl Undef, st')" if "64 < length t"
  proof -
    from string_overflow [OF assms(3) own l1 at1 buf assms(4), where pos = 0 and len = 0 and n = n and f = "\<lambda>pos len _. bind (string_set_size (Ref a) pos) (\<lambda>_.
        bind (navi_string (Ref a)) (\<lambda>str. bind (put_data (Ref a) (PString (str\<lparr>s_length := len\<rparr>))) (\<lambda>_. ret (Ref a))))"] that
    show ?thesis using make by (simp add: read_string_def bind_run)
  qed
  show "reads_datum (read_string port env) (SString t) rest st n" if "length t \<le> 64"
  proof -
    from string_loop [OF assms(3) own l1 at1 buf assms(4), where pos = 0 and len = 0 and n = n] that
    obtain st2 s2 where loop: "read_string_rounds n (Ref a) port env 0 0 st1 n = (Inr (length t, length t), st2)"
      and l2: "left rest st2" and at2: "string_at st2 a s2" and buf2: "literal_buffer s2"
      and q: "quiet (insert a own) st1 st2" and data: "take (length t) (s_data s2) = map Some (map byte_of t)"
      by auto
    define s3 where "s3 = s2\<lparr>s_data := (s_data s2)[length t := Some 0], s_size := length t, s_length := length t\<rparr>"
    define st3 where "st3 = st2\<lparr>heap := (heap st2)(a \<mapsto> \<lparr>obj_type = NAVI_STRING, obj_data = PString s3\<rparr>)\<rparr>"
    have len: "length t < length (s_data s2)" using buf2 that by (simp add: literal_buffer_def)
    have "read_string port env st n = (Inr (Ref a), st3)"
      using make loop at2 len
      by (simp add: read_string_def bind_run string_put_def string_set_size_def s3_def st3_def)
    moreover have "left rest st3" unfolding st3_def by (rule left_frame [OF l2]) (use own in auto)
    moreover have ok: "buffer_ok s3 (map byte_of t)"
      using buf2 data that by (simp add: buffer_ok_def literal_buffer_def s3_def)
    have "holds (old st) st3 (Ref a) (SString t)"
      by (rule holds_string [where s = s3]) (use none ok assms(3) in \<open>auto simp: old_def st3_def plain_text_def\<close>)
    moreover have q3: "quiet (insert a own) st1 st3"
      by (rule quiet_trans [OF q]) (use at2 in \<open>simp add: st3_def quiet_def soft_change_def\<close>)
    have "grew st st3"
    proof -
      have "good st3" using quiet_symtab_ok [OF q3] g1 q3 by (simp add: grew_def good_def quiet_def)
      moreover have "keeps (insert a own) st st3"
        using keeps_trans [OF keeps_mono quiet_keeps [OF q3 subset_refl]] g1 by (auto simp: grew_def)
      ultimately show ?thesis
        using g1 keeps_fresh [OF _ none] hext_trans [OF _ quiet_hext [OF q3]] by (simp add: grew_def)
    qed
    ultimately show ?thesis by (auto simp: reads_datum_def)
  qed
qed

end

end
