(* ===== verification/Spec_List.thy ===== *)
theory Spec_List
  imports Spec_Base
begin

text \<open>
  What the list procedures promise.  A list value is described by its elements and the value
  that ends its chain of pairs (\<open>list_at\<close>); the budget of the loops is larger than the number of
  elements.  A chain that never ends makes every walk over it run for ever.
\<close>

section \<open>Shapes and lengths\<close>

lemma proper_list_run:
  assumes "list_at st p xs t" and "length xs < n"
  shows "navi_is_proper_list p st n = (Inr (type_in st t = NAVI_NIL), st)"
proof (cases xs)
  case Nil
  with assms have "p = t" "valid_obj st t" "type_in st t \<noteq> NAVI_PAIR"
    by (auto simp: is_pair_at_type_in)
  then show ?thesis by (simp add: navi_is_proper_list_def navi_type_valid)
next
  case (Cons x ys)
  have "valid_obj st t" using list_at_tail_not_pair [OF assms(1)] by simp
  moreover have "type_in st p = NAVI_PAIR" "valid_obj st p"
    using assms(1) Cons by (auto simp: list_at_type)
  ultimately show ?thesis
    by (simp add: navi_is_proper_list_def navi_type_valid navi_is_nil_def type_is_valid
        after_for_each_none [OF assms])
qed

lemma proper_list_circular:
  assumes "circular st p"
  shows "navi_is_proper_list p st n = (Inl NoFuel, st)"
proof -
  obtain a x d where "p = Ref a" "pair_at st a x d"
    using assms by (auto elim: circular.cases)
  then show ?thesis using assms
    by (simp add: navi_is_proper_list_def after_for_each_circular)
qed

lemma fold_count: "fold (\<lambda>_ i. Suc i) xs k = k + length xs"
  by (induction xs arbitrary: k) auto

lemma count_loop:
  assumes "list_at st p xs t" and "length xs < n"
  shows "after_loop (navi_list_for_each p 0 (\<lambda>_ i. ret (Continue (Suc i)))) f st n = f t (length xs) st n"
  using after_for_each_fold [OF assms, of "\<lambda>_ i. ret (Continue (Suc i))" "\<lambda>_ i. Suc i" 0 f]
  by (simp add: fold_count)

lemma length_safe_run:
  assumes "list_at st p xs t" and "length xs < n"
  shows "navi_list_length_safe p st n =
    (Inr (if type_in st t = NAVI_NIL then Some (length xs) else None), st)"
  using list_at_tail_not_pair [OF assms(1)]
  by (simp add: navi_list_length_safe_def navi_type_valid count_loop [OF assms])

lemma list_length_run:
  assumes "list_at st p xs t" and "length xs < n"
  shows "navi_list_length p st n = (Inr (length xs), st)"
  by (simp add: navi_list_length_def count_loop [OF assms])

lemma nil_tail_iff: "wf_heap st \<Longrightarrow> list_at st p xs t \<Longrightarrow> type_in st t = NAVI_NIL \<longleftrightarrow> t = NilO"
  by (auto dest: type_in_nil list_at_tail_not_pair)

text \<open>
  C17: the predicate \<open>list?\<close> decides whether its argument is a proper list, and runs for ever
  exactly on the values whose chain of pairs has no end.
\<close>

theorem listp_decides:
  assumes "wf_heap st" and "list_at st args [x] NilO"
  shows "(\<forall>xs t n. list_at st x xs t \<longrightarrow> length xs < n \<longrightarrow>
           scm_listp 1 args env st n = (Inr (BoolO (t = NilO)), st)) \<and>
         ((\<nexists>xs t. list_at st x xs t) \<longrightarrow> (\<forall>n. scm_listp 1 args env st n = (Inl NoFuel, st)))"
proof (intro conjI allI impI)
  fix xs t n
  assume "list_at st x xs t" "length xs < n"
  then show "scm_listp 1 args env st n = (Inr (BoolO (t = NilO)), st)"
    using assms(1) by (simp add: scm_listp_def args1 [OF assms(2)] proper_list_run nil_tail_iff navi_make_bool_def)
next
  fix n
  assume no: "\<nexists>xs t. list_at st x xs t"
  have "valid_obj st x" by (rule list_at_elems_valid [OF assms]) simp
  then have "circular st x" using circular_or_list [OF assms(1)] no by simp
  then show "scm_listp 1 args env st n = (Inl NoFuel, st)"
    by (simp add: scm_listp_def args1 [OF assms(2)] proper_list_circular)
qed

theorem listp_decides_witness:
  "scm_listp 1 (Ref 0) some_env
     (heap_of [pair_ob (Ref 1) NilO, pair_ob (BoolO True) (Ref 2), pair_ob VoidO EofO]) 9
   = (Inr (BoolO False),
      heap_of [pair_ob (Ref 1) NilO, pair_ob (BoolO True) (Ref 2), pair_ob VoidO EofO])"
proof -
  let ?st = "heap_of [pair_ob (Ref 1) NilO, pair_ob (BoolO True) (Ref 2), pair_ob VoidO EofO]"
  have "wf_heap ?st" by (rule wf_heap_of) simp
  moreover have "list_at ?st (Ref 0) [Ref 1] NilO" by simp
  ultimately have "list_at ?st (Ref 1) [BoolO True, VoidO] EofO \<longrightarrow> length [BoolO True, VoidO] < 9 \<longrightarrow>
      scm_listp 1 (Ref 0) some_env ?st 9 = (Inr (BoolO (EofO = NilO)), ?st)"
    using listp_decides [of ?st "Ref 0" "Ref 1" some_env] by blast
  then show ?thesis by simp
qed

text \<open>
  \<open>length\<close> returns the number of elements of a proper list and raises an error on a list
  with a dotted tail.
\<close>

theorem length_correct:
  assumes "wf_heap st" and "list_at st args [x] NilO" and "list_at st x xs t" and "length xs < n"
  shows "scm_length 1 args env st n =
    (if t = NilO then (Inr (navi_make_fixnum (int (length xs))), st)
     else (Inl (Error InternalError ''type error: not a proper list'' [] env), st))"
  using assms(1,3,4) by (simp add: scm_length_def args1 [OF assms(2)] length_safe_run nil_tail_iff)

theorem length_correct_witness:
  "scm_length 1 (Ref 0) some_env
     (heap_of [pair_ob (Ref 1) NilO, pair_ob (BoolO True) (Ref 2), pair_ob VoidO NilO]) 9
   = (Inr (navi_make_fixnum 2),
      heap_of [pair_ob (Ref 1) NilO, pair_ob (BoolO True) (Ref 2), pair_ob VoidO NilO])"
proof -
  let ?st = "heap_of [pair_ob (Ref 1) NilO, pair_ob (BoolO True) (Ref 2), pair_ob VoidO NilO]"
  have "wf_heap ?st" by (rule wf_heap_of) simp
  then show ?thesis
    using length_correct [of ?st "Ref 0" "Ref 1" "[BoolO True, VoidO]" NilO 9 some_env] by simp
qed


section \<open>Copies\<close>

text \<open>
  \<open>reverse\<close> returns a fresh list with the elements in the opposite order, whatever the tail of
  its argument, and changes no object that existed before.
\<close>

theorem reverse_correct:
  assumes "wf_heap st" and "list_at st args [x] NilO" and "list_at st x xs t" and "length xs < n"
  shows "\<exists>r st'. scm_reverse 1 args env st n = (Inr r, st') \<and> list_at st' r (rev xs) NilO \<and>
    wf_heap st' \<and> same_below st st'"
proof -
  let ?body = "\<lambda>cons reversed. bind (navi_car cons) (\<lambda>x. bind (navi_make_pair x reversed) (\<lambda>r. ret (Continue r)))"
  let ?I = "\<lambda>i v s. wf_heap s \<and> same_below st s \<and> list_at s v (rev (take i xs)) NilO"
  have "\<exists>v' s'. after_loop (navi_list_for_each x navi_make_nil ?body) (\<lambda>_ reversed. ret reversed) st n =
      ret v' s' n \<and> ?I (length xs) v' s' \<and> hkeep st s'"
  proof (rule after_for_each_rule [where I = ?I])
    show "?I 0 navi_make_nil st" using assms(1) by (simp add: make_defs)
  next
    fix i v s a d
    assume i: "i < length xs" "?I i v s" "hkeep st s" "pair_at st a (xs ! i) d" "pair_at s a (xs ! i) d"
    let ?s' = "alloc_st NAVI_PAIR (PPair (xs ! i) v) s"
    have "valid_obj s (xs ! i)" "valid_obj s v"
      using i wf_heapD(3) [of s a "pair_ob (xs ! i) d" "xs ! i"] list_at_valid by fastforce+
    then have "wf_heap ?s'" using i(2) by (intro wf_heap_alloc) auto
    moreover have "list_at ?s' (Ref (hp_next s)) (xs ! i # rev (take i xs)) NilO"
      using i(2) by (intro list_at_cons_alloc) auto
    moreover have "hkeep st ?s'" using i(2,3) by (blast intro: hkeep_trans hkeep_alloc)
    moreover have "same_below st ?s'" using i(2) by (blast intro: same_below_trans same_below_alloc)
    ultimately show "\<exists>v' s'. ?body (Ref a) v s n = (Inr (Continue v'), s') \<and> ?I (Suc i) v' s' \<and> hkeep st s'"
      using i(1,5) by (simp add: take_Suc_conv_app_nth)
  qed (use assms in auto)
  then show ?thesis by (auto simp: scm_reverse_def args1 [OF assms(2)])
qed

theorem reverse_correct_witness:
  "\<exists>r st'. scm_reverse 1 (Ref 0) some_env (demo EofO) 9 = (Inr r, st') \<and>
     list_at st' r [Fixnum 7, VoidO, BoolO True] NilO"
  using reverse_correct [OF wf_demo demo_args demo_list, of EofO 9 some_env] by auto

lemma list_copy_run:
  assumes "wf_heap st" and "list_at st x (y # ys) t" and "length ys < n"
  shows "\<exists>a b st'. navi_list_copy x st n = (Inr (Ref a), st') \<and> open_chain st st' (Ref a) b (y # ys) t"
proof -
  let ?h = "hp_next st" and ?s1 = "alloc_st NAVI_PAIR (PPair y NilO) st"
  from assms(2) obtain a0 d0 where x: "x = Ref a0" "pair_at st a0 y d0" "list_at st d0 ys t" by auto
  have vy: "valid_obj st y" by (rule list_at_elems_valid [OF assms(1,2)]) simp
  have wf1: "wf_heap ?s1" using vy by (intro wf_heap_alloc assms(1)) auto
  have x1: "pair_at ?s1 a0 y d0" "list_at ?s1 d0 ys t"
    using x assms(1) by (simp_all add: heap_alloc_keep list_at_alloc)
  have o1: "open_chain st ?s1 (Ref ?h) ?h [y] NilO"
    by (rule open_chain_single [OF wf1]) (auto simp: heap_alloc_st)
  let ?body = "\<lambda>cons cursor. bind (navi_car cons) (\<lambda>y. bind (navi_make_pair y navi_make_nil) (\<lambda>pair.
      bind (navi_set_cdr cursor pair) (\<lambda>_. bind (navi_cdr cursor) (\<lambda>cursor'. ret (Continue cursor')))))"
  let ?I = "\<lambda>i v s. \<exists>b. v = Ref b \<and> open_chain st s (Ref ?h) b (y # take i ys) NilO"
  let ?fin = "\<lambda>cons cursor. bind (navi_set_cdr cursor cons) (\<lambda>_. ret (Ref ?h))"
  have "\<exists>v' s'. after_loop (navi_list_for_each d0 (Ref ?h) ?body) ?fin ?s1 n = ?fin t v' s' n \<and>
      ?I (length ys) v' s' \<and> hkeep st s'"
  proof (rule after_for_each_rule [where I = ?I])
    show "list_at st d0 ys t" by (rule x(3))
    show "?I 0 (Ref ?h) ?s1" using o1 by simp
    show "hkeep st ?s1" by (rule hkeep_alloc [OF assms(1)])
  next
    fix i v s a d
    assume i: "i < length ys" "?I i v s" "hkeep st s" "pair_at st a (ys ! i) d" "pair_at s a (ys ! i) d"
    then obtain b where b: "v = Ref b" "open_chain st s (Ref ?h) b (y # take i ys) NilO" by blast
    have "valid_obj s (ys ! i)"
      using wf_heapD(3) [OF open_chainD(2) [OF b(2)] i(5)] by simp
    from link_cell_run [OF b(2) this valid_obj_imm(2), of n] obtain s'
      where s': "navi_set_cdr (Ref b) (Ref (hp_next s)) (alloc_st NAVI_PAIR (PPair (ys ! i) NilO) s) n = (Inr (), s')"
        "navi_cdr (Ref b) s' n = (Inr (Ref (hp_next s)), s')"
        "open_chain st s' (Ref ?h) (hp_next s) ((y # take i ys) @ [ys ! i]) NilO" by blast
    have "hkeep st s'" by (rule hkeep_same_below [OF assms(1) open_chainD(1) [OF s'(3)]])
    then show "\<exists>v' s'. ?body (Ref a) v s n = (Inr (Continue v'), s') \<and> ?I (Suc i) v' s' \<and> hkeep st s'"
      using s' b(1) i(1,5) by (simp add: make_defs take_Suc_conv_app_nth)
  qed (use assms in auto)
  then obtain b s where loop: "after_loop (navi_list_for_each d0 (Ref ?h) ?body) ?fin ?s1 n = ?fin t (Ref b) s n"
    and b: "open_chain st s (Ref ?h) b (y # ys) NilO" by auto
  have "valid_obj s t"
    using open_chain_valid [OF assms(1) b] list_at_tail_not_pair [OF assms(2)] by blast
  then obtain s' where s': "navi_set_cdr (Ref b) t s n = (Inr (), s')" "open_chain st s' (Ref ?h) b (y # ys) t"
    using set_cdr_run [OF b] by blast
  have "navi_list_copy x st n = (Inr (Ref ?h), s')"
    using x(1,2) x1(1) s'(1) loop by (simp add: navi_list_copy_def navi_is_nil_def make_defs bind_run)
  then show ?thesis using s'(2) by blast
qed

text \<open>
  \<open>list-copy\<close> of a non-empty list, proper or not, builds fresh pairs with the same elements and
  the same tail, and leaves every object that existed before unchanged.
\<close>

theorem list_copy_correct:
  assumes "wf_heap st" and "list_at st args [x] NilO" and "list_at st x (y # ys) t" and "length ys < n"
  shows "\<exists>r as st'. scm_list_copy 1 args env st n = (Inr r, st') \<and> list_at st' r (y # ys) t \<and>
    cells_at st' r as (y # ys) t \<and> (\<forall>a \<in> set as. hp_next st \<le> a) \<and> wf_heap st' \<and> same_below st st'"
proof -
  from list_copy_run [OF assms(1,3,4)] obtain a b st' where
    run: "navi_list_copy x st n = (Inr (Ref a), st')" and o: "open_chain st st' (Ref a) b (y # ys) t"
    by blast
  from o obtain as where as: "same_below st st'" "wf_heap st'" "\<forall>c \<in> set (as @ [b]). hp_next st \<le> c \<and> c < hp_next st'"
      "cells_at st' (Ref a) (as @ [b]) (y # ys) t"
    by (rule open_chainE)
  have "list_at st' t [] t"
    using list_at_tail_not_pair [OF list_at_same_below [OF assms(1) as(1) assms(3)]] by simp
  then have "list_at st' (Ref a) (y # ys) t" using open_chain_close [OF o, of "[]" t] by simp
  with as run show ?thesis by (fastforce simp: scm_list_copy_def args1 [OF assms(2)])
qed

theorem list_copy_correct_witness:
  "\<exists>r st'. scm_list_copy 1 (Ref 0) some_env (demo EofO) 9 = (Inr r, st') \<and>
     list_at st' r [BoolO True, VoidO, Fixnum 7] EofO \<and> r \<noteq> Ref 1"
proof -
  have "\<exists>r as st'. scm_list_copy 1 (Ref 0) some_env (demo EofO) 9 = (Inr r, st') \<and>
      list_at st' r [BoolO True, VoidO, Fixnum 7] EofO \<and> cells_at st' r as [BoolO True, VoidO, Fixnum 7] EofO \<and>
      (\<forall>a \<in> set as. hp_next (demo EofO) \<le> a)"
    using list_copy_correct [OF wf_demo demo_args demo_list, of EofO 9 some_env] by fastforce
  then obtain r as st' where r: "scm_list_copy 1 (Ref 0) some_env (demo EofO) 9 = (Inr r, st')"
    "list_at st' r [BoolO True, VoidO, Fixnum 7] EofO" "cells_at st' r as [BoolO True, VoidO, Fixnum 7] EofO"
    "\<forall>a \<in> set as. hp_next (demo EofO) \<le> a" by blast
  then have "r \<noteq> Ref 1" by (cases as) (auto simp: demo_def)
  with r show ?thesis by blast
qed

section \<open>Appending\<close>

lemma last_cons_cells:
  assumes "cells_at s p (as @ [a]) xs d" and "valid_obj s d" and "\<not> is_pair_at s d" and "length as < k"
  shows "last_cons_loop k p s n = (Inr (Ref a), s)"
  using assms(1,4)
proof (induction as arbitrary: p xs k)
  case Nil
  then obtain k' where k: "k = Suc k'" by (cases k) auto
  from Nil obtain x where "p = Ref a" "pair_at s a x d" by auto
  then show ?case using assms(2,3) by (simp add: k navi_type_valid is_pair_at_type_in bind_run)
next
  case (Cons b as)
  then obtain k' where k: "k = Suc k'" by (cases k) auto
  from Cons obtain x q ys where q: "p = Ref b" "pair_at s b x q" "cells_at s q (as @ [a]) ys d"
    by auto
  then obtain c z e where "q = Ref c" "pair_at s c z e" by (cases as) auto
  then show ?case using q Cons by (simp add: k bind_run)
qed

text \<open>A chain whose last pair is linked to a chain built after it.\<close>

lemma open_chain_join:
  assumes "open_chain s0 s front a xs d" and "open_chain s s' q b ys e" and "pair_at s a y d"
    and "wf_heap s0" and "\<not> is_pair_at s0 e" and "valid_obj s0 e" and "length ys < n"
  shows "open_chain s0 (set_pair a y q s') front b (xs @ ys) e"
    and "navi_last_cons (Ref a) (set_pair a y q s') n = (Inr (Ref b), set_pair a y q s')"
proof -
  let ?s = "set_pair a y q s'"
  from assms(1) obtain as where as: "same_below s0 s" "wf_heap s" "distinct (as @ [a])"
    "\<forall>c \<in> set (as @ [a]). hp_next s0 \<le> c \<and> c < hp_next s" "cells_at s front (as @ [a]) xs d"
    by (rule open_chainE)
  from assms(2) obtain bs where bs: "same_below s s'" "wf_heap s'" "distinct (bs @ [b])"
    "\<forall>c \<in> set (bs @ [b]). hp_next s \<le> c \<and> c < hp_next s'" "cells_at s' q (bs @ [b]) ys e"
    by (rule open_chainE)
  have "cells_at s' front (as @ [a]) xs d"
    by (rule cells_at_frame [OF as(5)]) (use as(4) bs(1) in \<open>auto simp: same_belowD\<close>)
  moreover have pa: "pair_at s' a y d" using assms(3) as(4) bs(1) by (auto simp: same_belowD)
  ultimately have one: "cells_at ?s front (as @ [a]) xs q" by (intro cells_at_set_pair [OF _ as(3)])
  have two: "cells_at ?s q (bs @ [b]) ys e"
    by (rule cells_at_frame [OF bs(5)]) (use as(4) bs(4) in fastforce)
  have "cells_at ?s front ((as @ [a]) @ bs @ [b]) (xs @ ys) e"
    using one two unfolding cells_at_append [of ?s front "as @ [a]"] by blast
  moreover have "valid_obj s' q"
    using cells_at_heap [OF bs(5)] bs(5) by (cases bs) auto
  then have "wf_heap ?s"
    by (intro wf_heap_set_pair [OF bs(2) pa]) (use wf_heapD(3) [OF bs(2) pa] in auto)
  moreover have same: "same_below s0 ?s" using as(1,4) bs(1) by (auto simp: same_below_def)
  moreover have "distinct ((as @ [a]) @ bs @ [b])" "\<forall>c \<in> set ((as @ [a]) @ bs @ [b]). hp_next s0 \<le> c"
    using as(1,3,4) bs(3,4) by (fastforce simp: same_below_def)+
  ultimately show "open_chain s0 ?s front b (xs @ ys) e"
    unfolding open_chain_def append.assoc [symmetric] by blast
  have "list_at ?s e [] e"
    by (rule list_at_same_below [OF assms(4) same]) (use assms(5,6) in simp)
  moreover have "cells_at ?s (Ref a) ((a # bs) @ [b]) (y # ys) e" (is ?cells) using two by simp
  moreover have "length ys = Suc (length bs)"
    using bs(5) by (induction bs arbitrary: q ys) auto
  ultimately show "navi_last_cons (Ref a) ?s n = (Inr (Ref b), ?s)"
    unfolding navi_last_cons_def using assms(7) by (intro last_cons_cells [OF \<open>?cells\<close>]) auto
qed

text \<open>One argument of \<open>append\<close> but the last: its copy is linked behind what was built.\<close>

lemma append_step:
  assumes "wf_heap st" and "open_chain st s front b zs NilO" and "list_at st x xs NilO"
    and "length xs < n"
  shows "\<exists>b' s'. (bind (navi_list_copy x) (\<lambda>copy. bind (navi_set_cdr (Ref b) copy) (\<lambda>_.
      navi_last_cons (Ref b)))) s n = (Inr (Ref b'), s') \<and> open_chain st s' front b' (zs @ xs) NilO"
proof (cases xs)
  case Nil
  then have x: "x = NilO" using assms(3) by simp
  obtain y where y: "pair_at s b y NilO" using open_chainD(5) [OF assms(2)] by blast
  then have "set_pair b y NilO s = s" by (simp add: fun_upd_idem)
  moreover obtain k where "n = Suc k" using assms(4) by (cases n) auto
  ultimately show ?thesis using assms(2) y
    by (simp add: x Nil navi_list_copy_def navi_is_nil_def make_defs navi_last_cons_def bind_run)
next
  case (Cons y ys)
  have wf: "wf_heap s" by (rule open_chainD(2) [OF assms(2)])
  have "list_at s x (y # ys) NilO"
    using open_chain_list_at [OF assms(1,2,3)] by (simp add: Cons)
  then obtain c d s1 where copy: "navi_list_copy x s n = (Inr (Ref c), s1)"
      "open_chain s s1 (Ref c) d (y # ys) NilO"
    using list_copy_run [OF wf, of x y ys NilO n] assms(4) Cons by auto
  obtain z where z: "pair_at s b z NilO" using open_chainD(5) [OF assms(2)] by blast
  then have z1: "pair_at s1 b z NilO"
    using open_chainD(1) [OF copy(2)] open_chainD(4) [OF assms(2)] by (simp add: same_belowD)
  have "length (y # ys) < n" using assms(4) Cons by simp
  note j = open_chain_join [OF assms(2) copy(2) z assms(1) is_pair_at_imm(2) valid_obj_imm(2) this]
  then show ?thesis using copy(1) z1 by (auto simp: Cons)
qed

text \<open>The loop of \<open>append\<close> builds the chain of copies behind an auxiliary cell and links the last argument to it.\<close>

lemma append_loop_run:
  assumes "wf_heap st" and "list_at st args (ps @ [q]) NilO"
    and "list_all2 (\<lambda>p xs. list_at st p xs NilO \<and> length xs < n) ps xss"
    and "valid_obj st q" and "length ps < n"
  shows "\<exists>a s' b. navi_list_for_each args (Ref (hp_next st)) (append_round env)
      (alloc_st NAVI_PAIR (PPair NilO NilO) st) n = (Inr (Ref a, Return ()), s') \<and>
    open_chain st s' (Ref (hp_next st)) b (NilO # concat xss) q"
proof -
  let ?h = "hp_next st" and ?s1 = "alloc_st NAVI_PAIR (PPair NilO NilO) st"
  let ?I = "\<lambda>i v s. \<exists>b. v = Ref b \<and> open_chain st s (Ref ?h) b (NilO # concat (take i xss)) NilO"
  let ?Q = "\<lambda>r s. \<exists>b. open_chain st s (Ref ?h) b (NilO # concat xss) q"
  have len: "length xss = length ps" using assms(3) by (simp add: list_all2_lengthD)
  have o1: "open_chain st ?s1 (Ref ?h) ?h [NilO] NilO"
    using assms(1) by (intro open_chain_single wf_heap_alloc) (auto simp: heap_alloc_st)
  have "\<exists>a r s'. navi_list_for_each args (Ref ?h) (append_round env) ?s1 n = (Inr (Ref a, Return r), s') \<and> ?Q r s'"
  proof (rule for_each_until [where I = ?I and us = ps])
    show "list_at st args (ps @ q # []) NilO" using assms(2) by simp
    show "?I 0 (Ref ?h) ?s1" using o1 by simp
    show "hkeep st ?s1" by (rule hkeep_alloc [OF assms(1)])
  next
    fix i v s a d
    assume i: "i < length ps" "?I i v s" "hkeep st s" "pair_at s a (ps ! i) d"
      "list_at st d (drop (Suc i) ps @ [q]) NilO"
    then obtain b where b: "v = Ref b" "open_chain st s (Ref ?h) b (NilO # concat (take i xss)) NilO"
      by blast
    from list_all2_nthD [OF assms(3) i(1)] have x: "list_at st (ps ! i) (xss ! i) NilO" "length (xss ! i) < n"
      by auto
    from append_step [OF assms(1) b(2) x] obtain b' s' where run:
      "(bind (navi_list_copy (ps ! i)) (\<lambda>copy. bind (navi_set_cdr (Ref b) copy) (\<lambda>_.
        navi_last_cons (Ref b)))) s n = (Inr (Ref b'), s')"
      "open_chain st s' (Ref ?h) b' ((NilO # concat (take i xss)) @ xss ! i) NilO" by blast
    have "navi_is_proper_list (ps ! i) s n = (Inr True, s)"
      using proper_list_run [OF list_at_hkeep [OF i(3) x(1)] x(2)] by simp
    moreover have "list_at s d (drop (Suc i) ps @ [q]) NilO" by (rule list_at_hkeep [OF i(3,5)])
    then have "navi_is_last_pair (Ref a) s n = (Inr False, s)"
      using i(4) list_at_type list_at_valid by (fastforce simp: navi_is_last_pair_def navi_type_valid bind_run)
    moreover have "hkeep st s'" by (rule hkeep_same_below [OF assms(1) open_chainD(1) [OF run(2)]])
    ultimately show "\<exists>v' s'. append_round env (Ref a) v s n = (Inr (Continue v'), s') \<and> ?I (Suc i) v' s' \<and> hkeep st s'"
      using i(1,4) run b(1) len
      by (auto simp: append_round_def bind_run navi_type_check_proper_list_def take_Suc_conv_app_nth split: prod.splits sum.splits)
  next
    fix v s a d
    assume i: "?I (length ps) v s" "hkeep st s" "pair_at s a q d" "list_at st d [] NilO"
    then obtain b where b: "v = Ref b" "open_chain st s (Ref ?h) b (NilO # concat xss) NilO"
      using len by auto
    have "valid_obj s q" by (rule open_chain_valid [OF assms(1) b(2) assms(4)])
    then obtain s' where "navi_set_cdr (Ref b) q s n = (Inr (), s')"
        "open_chain st s' (Ref ?h) b (NilO # concat xss) q"
      using set_cdr_run [OF b(2)] by blast
    then show "\<exists>r s'. append_round env (Ref a) v s n = (Inr (Return r), s') \<and> ?Q r s'"
      using i(3,4) b(1) by (auto simp: append_round_def bind_run navi_is_last_pair_def)
  qed (use assms(5) in auto)
  then show ?thesis by auto
qed

text \<open>
  C15: \<open>append\<close> of proper lists and a last argument of any kind copies the lists and shares the last
  argument: the result is a chain of pairs that did not exist before, one for each element of the
  lists in order, and the last of them links to the last argument itself, which is the result when
  the lists are empty.  Read as a list, it is the concatenation, and no object that existed before is
  changed.
\<close>

theorem append_correct:
  assumes "wf_heap st" and "list_at st args (ps @ [q]) NilO"
    and "list_all2 (\<lambda>p xs. list_at st p xs NilO \<and> length xs < n) ps xss"
    and "valid_obj st q" and "length ps < n"
  shows "\<exists>r st' as. scm_append (length ps + 1) args env st n = (Inr r, st') \<and>
    cells_at st' r as (concat xss) q \<and> distinct as \<and> (\<forall>a \<in> set as. heap st a = None) \<and>
    (\<forall>ys u. list_at st q ys u \<longrightarrow> list_at st' r (concat xss @ ys) u) \<and> wf_heap st' \<and> same_below st st'"
proof -
  let ?h = "hp_next st"
  obtain a s' b where run: "navi_list_for_each args (Ref ?h) (append_round env) (alloc_st NAVI_PAIR (PPair NilO NilO) st) n =
      (Inr (Ref a, Return ()), s')"
    and o: "open_chain st s' (Ref ?h) b (NilO # concat xss) q" using append_loop_run [OF assms] by blast
  obtain cs where cs: "distinct (cs @ [b])" "\<forall>c \<in> set (cs @ [b]). hp_next st \<le> c"
    "cells_at s' (Ref ?h) (cs @ [b]) (NilO # concat xss) q"
    using o unfolding open_chain_def by blast
  obtain as d where as: "cs @ [b] = ?h # as" "pair_at s' ?h NilO d" "cells_at s' d as (concat xss) q"
    using cs(3) by (cases "cs @ [b]") auto
  have "heap st a = None" if "a \<in> set as" for a
    using cs(2) as(1) that wf_heapD(1) [OF assms(1), of a] by (cases "heap st a") fastforce+
  moreover have "list_at s' d (concat xss @ ys) u" if "list_at st q ys u" for ys u
    using cells_list_at [OF as(3) open_chain_list_at [OF assms(1) o that]] .
  moreover have "distinct as" using cs(1) as(1) by simp
  moreover have "scm_append (length ps + 1) args env st n = (Inr d, s')"
    using run as(2) by (simp add: scm_append_def make_defs)
  ultimately show ?thesis using as(3) open_chainD(1,2) [OF o] by blast
qed

theorem append_correct_witness:
  "\<exists>a b st'. scm_append 2 (Ref 0) some_env
       (heap_of [pair_ob (Ref 2) (Ref 1), pair_ob (Fixnum 3) NilO, pair_ob (BoolO True) (Ref 3), pair_ob EofO NilO]) 9
     = (Inr (Ref a), st') \<and> pair_at st' a (BoolO True) (Ref b) \<and> pair_at st' b EofO (Fixnum 3) \<and> {a, b} \<inter> {0..3} = {}"
proof -
  let ?st = "heap_of [pair_ob (Ref 2) (Ref 1), pair_ob (Fixnum 3) NilO, pair_ob (BoolO True) (Ref 3), pair_ob EofO NilO]"
  have "wf_heap ?st" by (rule wf_heap_of) simp
  then obtain r st' as where 1: "scm_append 2 (Ref 0) some_env ?st 9 = (Inr r, st')"
    "cells_at st' r as [BoolO True, EofO] (Fixnum 3)" "\<forall>a \<in> set as. heap ?st a = None"
    using append_correct [of ?st "Ref 0" "[Ref 2]" "Fixnum 3" 9 "[[BoolO True, EofO]]" some_env]
    by (auto simp: numeral_2_eq_2)
  obtain a bs where a: "r = Ref a" "as = a # bs" using 1(2) by (cases as) auto
  obtain b where b: "as = [a, b]" using 1(2) a by (cases bs rule: remdups_adj.cases) auto
  have "heap ?st c \<noteq> None" if "c \<in> {0..3}" for c using that by (simp add: heap_of_def less_Suc_eq_le)
  then have "c \<notin> {0..3}" if "c \<in> set as" for c using 1(3) that by blast
  then have "{a, b} \<inter> {0..3} = {}" unfolding b by auto
  then show ?thesis using 1(1,2) unfolding a(1) b by auto
qed

section \<open>Indexing\<close>

lemma list_tail_run:
  assumes "list_at st p xs t" and "length xs < n" and "k \<le> length xs"
  shows "\<exists>q. navi_list_tail p (int k) st n = (Inr q, st) \<and> list_at st q (drop k xs) t"
proof (cases "k = length xs")
  case True
  have "\<exists>v' s'. after_loop (navi_list_for_each p 0 (\<lambda>cons i. ret (if i = int k then Return cons else Continue (i + 1))))
       (\<lambda>cons i. if i = int k then ret cons else ret navi_make_void) st n =
      (if v' = int k then ret t else ret navi_make_void) s' n \<and> (v' = int (length xs) \<and> s' = st) \<and> hkeep st s'"
    by (rule after_for_each_rule [where I = "\<lambda>i v s. v = int i \<and> s = st"]) (use assms True in auto)
  then show ?thesis using assms(1) True list_at_tail_not_pair by (fastforce simp: navi_list_tail_def)
next
  case False
  then have xs: "xs = take k xs @ xs ! k # drop (Suc k) xs" using assms(3) by (simp add: id_take_nth_drop)
  have "\<exists>a r s'. navi_list_for_each p 0 (\<lambda>cons i. ret (if i = int k then Return cons else Continue (i + 1))) st n =
      (Inr (Ref a, Return r), s') \<and> (s' = st \<and> list_at st r (drop k xs) t)"
  proof (rule for_each_until [where I = "\<lambda>i v s. v = int i \<and> s = st" and us = "take k xs"])
    show "list_at st p (take k xs @ xs ! k # drop (Suc k) xs) t" using assms(1) xs by metis
  next
    fix v s a d
    assume "v = int (length (take k xs)) \<and> s = st" "pair_at s a (xs ! k) d" "list_at st d (drop (Suc k) xs) t"
    moreover have "drop k xs = xs ! k # drop (Suc k) xs" using False assms(3) by (simp add: Cons_nth_drop_Suc)
    ultimately show "\<exists>r s'. ret (if v = int k then Return (Ref a) else Continue (v + 1)) s n = (Inr (Return r), s') \<and>
        (s' = st \<and> list_at st r (drop k xs) t)"
      using assms(3) by (auto simp: min_def)
  qed (use assms False in auto)
  then show ?thesis by (auto simp: navi_list_tail_def after_loop_Return)
qed

lemma list_tail_run_out:
  assumes "list_at st p xs t" and "length xs < n" and "length xs < k"
  shows "navi_list_tail p (int k) st n = (Inr VoidO, st)"
proof -
  have "\<exists>v' s'. after_loop (navi_list_for_each p 0 (\<lambda>cons i. ret (if i = int k then Return cons else Continue (i + 1))))
       (\<lambda>cons i. if i = int k then ret cons else ret navi_make_void) st n =
      (if v' = int k then ret t else ret navi_make_void) s' n \<and> (v' = int (length xs) \<and> s' = st) \<and> hkeep st s'"
    by (rule after_for_each_rule [where I = "\<lambda>i v s. v = int i \<and> s = st"]) (use assms in auto)
  then show ?thesis using assms(3) by (auto simp: navi_list_tail_def make_defs)
qed

text \<open>The two errors of the indexing procedures.\<close>

abbreviation index_error :: "navi_env \<Rightarrow> state \<Rightarrow> (stop + 'a) \<times> state" where
  "index_error env st \<equiv> (Inl (Error InternalError ''list index out of bounds'' [] env), st)"

abbreviation negative_error :: "navi_env \<Rightarrow> state \<Rightarrow> (stop + 'a) \<times> state" where
  "negative_error env st \<equiv> (Inl (Error InternalError ''type error: not a positive integer'' [] env), st)"

text \<open>
  \<open>list-ref\<close> returns the element with the given index when there is one, and raises one of two
  errors when the index is negative or too large.
\<close>

theorem list_ref_correct:
  assumes "wf_heap st" and "list_at st args [x, Fixnum i] NilO" and "list_at st x xs t"
    and "length xs < n"
  shows "scm_list_ref 2 args env st n =
    (if sint i < 0 then negative_error env st
     else if nat (sint i) < length xs then (Inr (xs ! nat (sint i)), st)
     else index_error env st)"
proof -
  define k where "k = nat (sint i)"
  have out: ?thesis if "\<not> sint i < 0" "length xs < k"
    using that list_tail_run_out [OF assms(3,4), of k] k_def
    by (simp add: scm_list_ref_def args2 [OF assms(2)] args1 [OF assms(2)] navi_is_pair_def bind_run)
  have inside: ?thesis if neg: "\<not> sint i < 0" and k: "k \<le> length xs"
  proof -
    from list_tail_run [OF assms(3,4) k] obtain q where
      q: "navi_list_tail x (int k) st n = (Inr q, st)" "list_at st q (drop k xs) t" by blast
    have pair: "type_is NAVI_PAIR q st n = (Inr (k < length xs), st)"
      using list_at_type [OF q(2)] list_at_valid [OF q(2)] by (auto simp: type_is_valid)
    show ?thesis
    proof (cases "k < length xs")
      case True
      then obtain a d where "q = Ref a" "pair_at st a (xs ! k) d"
        using q(2) by (auto simp: Cons_nth_drop_Suc [symmetric])
      with True show ?thesis using neg q(1) k_def
        by (simp add: scm_list_ref_def args2 [OF assms(2)] args1 [OF assms(2)] navi_is_pair_def bind_run)
    next
      case False
      with pair show ?thesis using neg q(1) k_def
        by (simp add: scm_list_ref_def args2 [OF assms(2)] args1 [OF assms(2)] navi_is_pair_def bind_run)
    qed
  qed
  have "?thesis" if "sint i < 0"
    using that by (simp add: scm_list_ref_def args2 [OF assms(2)])
  with out inside show ?thesis by linarith
qed

theorem list_ref_correct_witness:
  "scm_list_ref 2 (Ref 0) some_env (heap_of [pair_ob (Ref 2) (Ref 1), pair_ob (Fixnum 1) NilO,
       pair_ob EofO (Ref 3), pair_ob (BoolO True) NilO]) 9
   = (Inr (BoolO True), heap_of [pair_ob (Ref 2) (Ref 1), pair_ob (Fixnum 1) NilO,
       pair_ob EofO (Ref 3), pair_ob (BoolO True) NilO])"
proof -
  let ?st = "heap_of [pair_ob (Ref 2) (Ref 1), pair_ob (Fixnum 1) NilO, pair_ob EofO (Ref 3), pair_ob (BoolO True) NilO]"
  have "wf_heap ?st" by (rule wf_heap_of) simp
  then show ?thesis
    using list_ref_correct [of ?st "Ref 0" "Ref 2" 1 "[EofO, BoolO True]" NilO 9 some_env] by simp
qed

text \<open>The addresses of a chain are distinct.\<close>

lemma list_at_cells: "list_at st p xs t \<Longrightarrow> \<exists>as. cells_at st p as xs t \<and> length as = length xs"
proof (induction xs arbitrary: p)
  case Nil
  then show ?case by (auto intro: exI [of _ "[]"])
next
  case (Cons x xs)
  from Cons.prems obtain a d where a: "p = Ref a" "pair_at st a x d" "list_at st d xs t" by auto
  with Cons.IH [OF a(3)] obtain as where "cells_at st d as xs t" "length as = length xs" by blast
  with a show ?case by (intro exI [of _ "a # as"]) auto
qed

lemma cells_at_suffix:
  "cells_at st p as xs t \<Longrightarrow> list_at st t [] t \<Longrightarrow> k < length as \<Longrightarrow> list_at st (Ref (as ! k)) (drop k xs) t"
proof (induction as arbitrary: p xs k)
  case (Cons a as)
  then obtain x d ys where a: "p = Ref a" "xs = x # ys" "pair_at st a x d" "cells_at st d as ys t" by auto
  show ?case
  proof (cases k)
    case 0
    then show ?thesis using a cells_list_at [OF a(4) Cons.prems(2)] by simp
  next
    case (Suc j)
    then show ?thesis using Cons a by simp
  qed
qed simp

lemma cells_at_length: "cells_at st p as xs t \<Longrightarrow> length xs = length as"
  by (induction as arbitrary: p xs) auto

lemma list_cells_distinct:
  assumes "cells_at st p as xs t" and "list_at st t [] t"
  shows "distinct as"
  unfolding distinct_conv_nth
proof (intro allI impI notI)
  fix i j
  assume ij: "i < length as" "j < length as" "i \<noteq> j" and eq: "as ! i = as ! j"
  have "drop i xs = drop j xs"
    using cells_at_suffix [OF assms ij(1)] cells_at_suffix [OF assms ij(2)] eq list_at_unique by metis
  then have "length (drop i xs) = length (drop j xs)" by simp
  then show False using ij cells_at_length [OF assms(1)] by simp
qed

lemma cells_at_split: "cells_at st p as xs t \<Longrightarrow> k < length as \<Longrightarrow>
   \<exists>d. pair_at st (as ! k) (xs ! k) d \<and> cells_at st p (take k as) (take k xs) (Ref (as ! k)) \<and>
     cells_at st d (drop (Suc k) as) (drop (Suc k) xs) t"
proof (induction as arbitrary: p xs k)
  case (Cons a as)
  then show ?case by (cases k) auto
qed simp

lemma cells_at_update:
  assumes "cells_at st p as xs t" and "distinct as" and "k < length as" and "pair_at st (as ! k) (xs ! k) d"
  shows "cells_at (set_pair (as ! k) v d st) p as (xs[k := v]) t"
proof -
  let ?s = "set_pair (as ! k) v d st"
  from cells_at_split [OF assms(1,3)] assms(4) have
    one: "cells_at st p (take k as) (take k xs) (Ref (as ! k))" and
    two: "cells_at st d (drop (Suc k) as) (drop (Suc k) xs) t" by auto
  have as: "as = take k as @ as ! k # drop (Suc k) as" using assms(3) by (simp add: id_take_nth_drop)
  then have "as ! k \<notin> set (take k as) \<union> set (drop (Suc k) as)"
    using assms(2) by (metis Un_iff distinct.simps(2) distinct_append distinct_append disjoint_iff list.set_intros(1))
  then have "cells_at ?s p (take k as) (take k xs) (Ref (as ! k))" "cells_at ?s d (drop (Suc k) as) (drop (Suc k) xs) t"
    by (auto intro: cells_at_frame [OF one] cells_at_frame [OF two])
  then have "cells_at ?s p (take k as @ as ! k # drop (Suc k) as) (take k xs @ v # drop (Suc k) xs) t"
    unfolding cells_at_append by auto
  then show ?thesis using as assms(3) cells_at_length [OF assms(1)]
    by (metis upd_conv_take_nth_drop)
qed

lemma list_at_tail_update: "pair_at st a x d \<Longrightarrow> list_at st t [] t \<Longrightarrow> list_at (set_pair a y e st) t [] t"
  by (cases t) (auto simp: is_pair_at_def)

lemma list_tail_loop_cells:
  assumes body: "\<And>cons i. body cons i = ret (if i = K then Return cons else Continue (i + 1))"
    and "cells_at st p as xs t" and "k < length as" and "k < m" and "K = j + int k"
  shows "for_each_loop m body p j st n = (Inr (Ref (as ! k), Return (Ref (as ! k))), st)"
  using assms(2-5)
proof (induction as arbitrary: p xs k m j)
  case (Cons a as)
  then obtain m' where m: "m = Suc m'" by (cases m) auto
  from Cons.prems(1) obtain x d ys where a: "p = Ref a" "pair_at st a x d" "cells_at st d as ys t" by auto
  show ?case
  proof (cases k)
    case 0
    then have "body (Ref a) j st n = (Inr (Return (Ref a)), st)" using Cons.prems(4) by (simp add: body)
    then show ?thesis using 0 a by (simp add: m bind_run)
  next
    case (Suc i)
    have "for_each_loop m' body d (j + 1) st n = (Inr (Ref (as ! i), Return (Ref (as ! i))), st)"
      by (rule Cons.IH [OF a(3)]) (use Cons.prems Suc m in auto)
    moreover have "body (Ref a) j st n = (Inr (Continue (j + 1)), st)" using Cons.prems(4) Suc by (simp add: body)
    ultimately show ?thesis using a Suc by (simp add: m bind_run)
  qed
qed simp

lemma list_tail_cells:
  assumes "cells_at st p as xs t" and "k < length as" and "k < n"
  shows "navi_list_tail p (int k) st n = (Inr (Ref (as ! k)), st)"
  unfolding navi_list_tail_def navi_list_for_each_def
  by (rule after_loop_Return, rule list_tail_loop_cells) (use assms in auto)

text \<open>
  \<open>list-set!\<close> replaces the element with the given index, in place, and changes no other object;
  an index that is negative or too large raises an error and changes nothing.
\<close>

theorem list_set_correct:
  assumes "wf_heap st" and "list_at st args [x, Fixnum i, v] NilO" and "list_at st x xs t"
    and "length xs < n"
  shows "\<exists>as. cells_at st x as xs t \<and>
    (if sint i < 0 then scm_list_set 3 args env st n = negative_error env st
     else if nat (sint i) < length xs then
       (\<exists>st'. scm_list_set 3 args env st n = (Inr VoidO, st') \<and> wf_heap st' \<and>
          list_at st' x (xs[nat (sint i) := v]) t \<and>
          (\<forall>b. b \<noteq> as ! nat (sint i) \<longrightarrow> heap st' b = heap st b))
     else scm_list_set 3 args env st n = index_error env st)"
proof -
  define k where "k = nat (sint i)"
  obtain as where as: "cells_at st x as xs t" "length as = length xs"
    using list_at_cells [OF assms(3)] by blast
  have tail: "list_at st t [] t" using list_at_tail_not_pair [OF assms(3)] by simp
  have neg: "scm_list_set 3 args env st n = negative_error env st" if "sint i < 0"
    using that by (simp add: scm_list_set_def args2 [OF assms(2)])
  have out: "scm_list_set 3 args env st n = index_error env st" if i: "\<not> sint i < 0" "length xs \<le> k"
  proof (cases "length xs = k")
    case True
    then obtain q where q: "navi_list_tail x (int k) st n = (Inr q, st)" "list_at st q (drop k xs) t"
      using list_tail_run [OF assms(3,4), of k] by auto
    then have "type_is NAVI_PAIR q st n = (Inr False, st)"
      using list_at_type [OF q(2)] list_at_valid [OF q(2)] True by (auto simp: type_is_valid)
    then show ?thesis using i q(1) k_def
      by (simp add: scm_list_set_def args2 [OF assms(2)] args1 [OF assms(2)] navi_is_pair_def bind_run)
  next
    case False
    then show ?thesis using i list_tail_run_out [OF assms(3,4), of k] k_def
      by (simp add: scm_list_set_def args2 [OF assms(2)] args1 [OF assms(2)] navi_is_pair_def bind_run)
  qed
  have set: "\<exists>st'. scm_list_set 3 args env st n = (Inr VoidO, st') \<and> wf_heap st' \<and>
      list_at st' x (xs[k := v]) t \<and> (\<forall>b. b \<noteq> as ! k \<longrightarrow> heap st' b = heap st b)"
    if i: "\<not> sint i < 0" "k < length xs"
  proof -
    have q: "navi_list_tail x (int k) st n = (Inr (Ref (as ! k)), st)"
      by (rule list_tail_cells [OF as(1)]) (use i as assms(4) in auto)
    from cells_at_split [OF as(1), of k] i as(2) obtain d where d: "pair_at st (as ! k) (xs ! k) d"
      by auto
    let ?st' = "set_pair (as ! k) v d st"
    have "cells_at ?st' x as (xs[k := v]) t"
      by (rule cells_at_update [OF as(1) list_cells_distinct [OF as(1) tail] _ d]) (use i as in simp)
    then have "list_at ?st' x (xs[k := v]) t"
      using cells_list_at list_at_tail_update [OF d tail] by fastforce
    moreover have "valid_obj st v" by (rule list_at_elems_valid [OF assms(1,2)]) simp
    then have "wf_heap ?st'"
      by (rule wf_heap_set_pair [OF assms(1) d]) (use wf_heapD(3) [OF assms(1) d] in simp)
    ultimately show ?thesis using i q d k_def
      by (simp add: scm_list_set_def args2 [OF assms(2)] args1 [OF assms(2)] args3 [OF assms(2)]
          navi_is_pair_def bind_run make_defs)
  qed
  show ?thesis using as(1) neg out set k_def by (intro exI [of _ as]) auto
qed

theorem list_set_correct_witness:
  "\<exists>st'. scm_list_set 3 (Ref 0) some_env (heap_of [pair_ob (Ref 3) (Ref 1), pair_ob (Fixnum 1) (Ref 2),
       pair_ob VoidO NilO, pair_ob EofO (Ref 4), pair_ob (BoolO True) NilO]) 9 = (Inr VoidO, st') \<and>
     list_at st' (Ref 3) [EofO, VoidO] NilO"
proof -
  let ?st = "heap_of [pair_ob (Ref 3) (Ref 1), pair_ob (Fixnum 1) (Ref 2),
       pair_ob VoidO NilO, pair_ob EofO (Ref 4), pair_ob (BoolO True) NilO]"
  have "wf_heap ?st" by (rule wf_heap_of) simp
  moreover have "list_at ?st (Ref 0) [Ref 3, Fixnum 1, VoidO] NilO" by simp
  moreover have "list_at ?st (Ref 3) [EofO, BoolO True] NilO" by simp
  ultimately show ?thesis
    using list_set_correct [of ?st "Ref 0" "Ref 3" 1 VoidO "[EofO, BoolO True]" NilO 9 some_env] by fastforce
qed

text \<open>
  \<open>list-tail\<close> returns what is left of its argument after the given number of elements, which
  may be the value that ends the chain; a negative index and an index past the end are errors,
  and so is a rest that happens to be the unspecified value.
\<close>

theorem list_tail_correct:
  assumes "wf_heap st" and "list_at st args [x, Fixnum i] NilO" and "list_at st x xs t"
    and "length xs < n"
  shows "if sint i < 0 then scm_list_tail 2 args env st n = negative_error env st
    else if nat (sint i) \<le> length xs then
      (\<exists>q. list_at st q (drop (nat (sint i)) xs) t \<and>
         scm_list_tail 2 args env st n = (if q = VoidO then index_error env st else (Inr q, st)))
    else scm_list_tail 2 args env st n = index_error env st"
proof -
  define k where "k = nat (sint i)"
  have neg: "scm_list_tail 2 args env st n = negative_error env st" if "sint i < 0"
    using that by (simp add: scm_list_tail_def args2 [OF assms(2)])
  have out: "scm_list_tail 2 args env st n = index_error env st" if "\<not> sint i < 0" "length xs < k"
    using that list_tail_run_out [OF assms(3,4), of k] k_def
    by (simp add: scm_list_tail_def args2 [OF assms(2)] args1 [OF assms(2)] navi_is_void_def bind_run)
  have inside: "\<exists>q. list_at st q (drop k xs) t \<and>
      scm_list_tail 2 args env st n = (if q = VoidO then index_error env st else (Inr q, st))"
    if i: "\<not> sint i < 0" "k \<le> length xs"
  proof -
    from list_tail_run [OF assms(3,4) i(2)] obtain q where
      q: "navi_list_tail x (int k) st n = (Inr q, st)" "list_at st q (drop k xs) t" by blast
    have v: "valid_obj st q" by (rule list_at_valid [OF q(2)])
    have "type_in st q = NAVI_VOID \<longleftrightarrow> q = VoidO"
      using v type_in_heap_not_imm [OF assms(1)] by (cases q) fastforce+
    then have "type_is NAVI_VOID q st n = (Inr (q = VoidO), st)" using v by (simp add: type_is_valid)
    then show ?thesis using i q k_def
      by (intro exI [of _ q])
        (simp add: scm_list_tail_def args2 [OF assms(2)] args1 [OF assms(2)] navi_is_void_def bind_run)
  qed
  show ?thesis using neg out inside k_def by (auto simp: not_le)
qed

theorem list_tail_correct_witness:
  "\<exists>q. scm_list_tail 2 (Ref 0) some_env (heap_of [pair_ob (Ref 2) (Ref 1), pair_ob (Fixnum 1) NilO,
       pair_ob EofO (Ref 3), pair_ob (BoolO True) (Fixnum 5)]) 9
   = (Inr q, heap_of [pair_ob (Ref 2) (Ref 1), pair_ob (Fixnum 1) NilO,
       pair_ob EofO (Ref 3), pair_ob (BoolO True) (Fixnum 5)]) \<and> q = Ref 3"
proof -
  let ?st = "heap_of [pair_ob (Ref 2) (Ref 1), pair_ob (Fixnum 1) NilO, pair_ob EofO (Ref 3), pair_ob (BoolO True) (Fixnum 5)]"
  have "wf_heap ?st" by (rule wf_heap_of) simp
  moreover have "list_at ?st (Ref 0) [Ref 2, Fixnum 1] NilO" "list_at ?st (Ref 2) [EofO, BoolO True] (Fixnum 5)"
    by simp_all
  ultimately obtain q where "list_at ?st q [BoolO True] (Fixnum 5)"
    "scm_list_tail 2 (Ref 0) some_env ?st 9 = (if q = VoidO then index_error some_env ?st else (Inr q, ?st))"
    using list_tail_correct [of ?st "Ref 0" "Ref 2" 1 "[EofO, BoolO True]" "Fixnum 5" 9 some_env]
    by fastforce
  moreover from this(1) have "q = Ref 3" by (auto split: if_splits simp: less_Suc_eq numeral_eq_Suc)
  ultimately show ?thesis by simp
qed

section \<open>Searching\<close>

lemma member_loop_run:
  assumes "list_at st p xs t" and "length xs < n"
    and "\<And>y. y \<in> set xs \<Longrightarrow> same y st n = (Inr (P y), st)"
  shows "\<exists>r. member_loop same p st n = (Inr r, st) \<and>
    (if \<exists>y \<in> set xs. P y then list_at st r (dropWhile (\<lambda>y. \<not> P y) xs) t else r = BoolO False)"
proof (cases "\<exists>y \<in> set xs. P y")
  case True
  then obtain us y ws where xs: "xs = us @ y # ws" "P y" "\<forall>u \<in> set us. \<not> P u"
    using split_list_first_prop [of xs P] by blast
  have "dropWhile (\<lambda>y. \<not> P y) xs = y # ws" using xs by (simp add: dropWhile_append2)
  moreover have "\<exists>a d. pair_at st a y d \<and> list_at st (Ref a) (y # ws) t \<and> member_loop same p st n = (Inr (Ref a), st)"
    unfolding member_loop_def
  proof (rule after_for_each_found)
    show "list_at st p (us @ y # ws) t" using assms(1) xs by simp
  qed (use assms(2,3) xs in \<open>auto simp: bind_run\<close>)
  ultimately show ?thesis using True by (auto simp del: list_at.simps)
next
  case False
  then have "member_loop same p st n = ret (BoolO False) st n"
    unfolding member_loop_def make_defs
    by (intro after_for_each_none [OF assms(1,2)]) (use assms(3) in \<open>auto simp: bind_run\<close>)
  then show ?thesis using False by auto
qed

text \<open>
  \<open>memv\<close> returns the part of the list that starts at the first element that is the same value,
  and false when there is none.
\<close>

theorem memv_correct:
  assumes "wf_heap st" and "list_at st args [obj, x] NilO" and "list_at st x xs t" and "length xs < n"
  shows "\<exists>r. scm_memv 2 args env st n = (Inr r, st) \<and>
    (if obj \<in> set xs then list_at st r (dropWhile (\<lambda>y. y \<noteq> obj) xs) t else r = BoolO False)"
proof -
  have "valid_obj st obj" by (rule list_at_elems_valid [OF assms(1,2)]) simp
  then have "navi_eqvp obj y st n = (Inr (y = obj), st)" if "y \<in> set xs" for y
    using navi_eqvp_run [OF assms(1)] list_at_elems_valid [OF assms(1,3) that] by auto
  from member_loop_run [where same = "navi_eqvp obj" and P = "\<lambda>y. y = obj", OF assms(3,4) this] show ?thesis
    by (auto simp: scm_memv_def args1 [OF assms(2)] args2 [OF assms(2)] simp del: list_at.simps)
qed

theorem memv_correct_witness:
  "\<exists>r. scm_memv 2 (Ref 0) some_env (heap_of [pair_ob (Fixnum 4) (Ref 1), pair_ob (Ref 2) NilO,
       pair_ob EofO (Ref 3), pair_ob (Fixnum 4) NilO]) 9
   = (Inr r, heap_of [pair_ob (Fixnum 4) (Ref 1), pair_ob (Ref 2) NilO, pair_ob EofO (Ref 3),
       pair_ob (Fixnum 4) NilO]) \<and> r \<noteq> BoolO False"
proof -
  let ?st = "heap_of [pair_ob (Fixnum 4) (Ref 1), pair_ob (Ref 2) NilO, pair_ob EofO (Ref 3), pair_ob (Fixnum 4) NilO]"
  have "wf_heap ?st" by (rule wf_heap_of) simp
  then show ?thesis
    using memv_correct [of ?st "Ref 0" "Fixnum 4" "Ref 2" "[EofO, Fixnum 4]" NilO 9 some_env] by auto
qed

text \<open>Data are determined by the values that stand for them.\<close>

lemma denotes_unique:
  assumes "wf_heap st" and "denotes st x d" and "denotes st x e"
  shows "d = e"
  using navi_equalp_run [OF assms(1,2,3), of "Suc (size d)"]
    navi_equalp_run [OF assms(1,2,2), of "Suc (size d)"] by simp

text \<open>
  C20: \<open>member\<close> without a predicate returns the part of the list that starts at the first element
  that stands for the same datum, and false when there is none.
\<close>

theorem member_correct:
  assumes "wf_heap st" and "list_at st args [obj, x] NilO" and "list_at st x xs t" and "length xs < n"
    and "denotes st obj d" and "size d < n" and "\<forall>y \<in> set xs. \<exists>e. denotes st y e"
  shows "\<exists>r. scm_member ev ap 2 args env st n = (Inr r, st) \<and>
    (if \<exists>y \<in> set xs. denotes st y d then list_at st r (dropWhile (\<lambda>y. \<not> denotes st y d) xs) t
     else r = BoolO False)"
proof -
  have "navi_equalp obj y st n = (Inr (denotes st y d), st)" if y: "y \<in> set xs" for y
  proof -
    obtain e where e: "denotes st y e" using assms(7) y by blast
    then have "denotes st y d \<longleftrightarrow> d = e" using denotes_unique [OF assms(1)] by blast
    then show ?thesis using navi_equalp_run [OF assms(1,5) e assms(6)] by simp
  qed
  from member_loop_run [where same = "navi_equalp obj" and P = "\<lambda>y. denotes st y d", OF assms(3,4) this] show ?thesis
    by (auto simp: scm_member_def args1 [OF assms(2)] args2 [OF assms(2)] simp del: list_at.simps)
qed

theorem member_correct_witness:
  "\<exists>r. scm_member navi_eval navi_apply_proc 2 (Ref 0) some_env (heap_of [pair_ob (Ref 4) (Ref 1), pair_ob (Ref 2) NilO,
       pair_ob EofO (Ref 3), pair_ob (Ref 5) NilO, pair_ob VoidO NilO, pair_ob VoidO NilO]) 9
   = (Inr r, heap_of [pair_ob (Ref 4) (Ref 1), pair_ob (Ref 2) NilO,
       pair_ob EofO (Ref 3), pair_ob (Ref 5) NilO, pair_ob VoidO NilO, pair_ob VoidO NilO]) \<and> r \<noteq> BoolO False"
proof -
  let ?st = "heap_of [pair_ob (Ref 4) (Ref 1), pair_ob (Ref 2) NilO,
       pair_ob EofO (Ref 3), pair_ob (Ref 5) NilO, pair_ob VoidO NilO, pair_ob VoidO NilO]"
  let ?d = "DPair (DAtom VoidO) (DAtom NilO)"
  have wf: "wf_heap ?st" by (rule wf_heap_of) simp
  have atoms: "denotes ?st VoidO (DAtom VoidO)" "denotes ?st NilO (DAtom NilO)" "denotes ?st EofO (DAtom EofO)"
    by (rule denotes.atom; simp)+
  have d: "denotes ?st (Ref 4) ?d" "denotes ?st (Ref 5) ?d" by (rule denotes.pair; (rule atoms)?; simp)+
  then have "\<forall>y \<in> set [EofO, Ref 5]. \<exists>e. denotes ?st y e" using atoms(3) by auto
  moreover have "list_at ?st (Ref 0) [Ref 4, Ref 2] NilO" "list_at ?st (Ref 2) [EofO, Ref 5] NilO" by simp_all
  ultimately obtain r where "scm_member navi_eval navi_apply_proc 2 (Ref 0) some_env ?st 9 = (Inr r, ?st)"
    "list_at ?st r (dropWhile (\<lambda>y. \<not> denotes ?st y ?d) [EofO, Ref 5]) NilO"
    using member_correct [of ?st "Ref 0" "Ref 4" "Ref 2" "[EofO, Ref 5]" NilO 9 ?d navi_eval navi_apply_proc some_env] wf d by auto
  moreover from this(2) have "r \<noteq> BoolO False" using d(2) by (auto split: if_splits)
  ultimately show ?thesis by blast
qed

text \<open>The entries of an association list that a predicate on keys accepts.\<close>

definition entry_with :: "state \<Rightarrow> (navi_obj \<Rightarrow> bool) \<Rightarrow> navi_obj \<Rightarrow> bool" where
  "entry_with st P x \<longleftrightarrow> (\<exists>a k v. x = Ref a \<and> pair_at st a k v \<and> P k)"

lemma assoc_body_run:
  assumes "wf_heap st" and "pair_at st a x d" and "type_in st x = NAVI_PAIR"
    and "\<And>b k v. x = Ref b \<Longrightarrow> pair_at st b k v \<Longrightarrow> same k st n = (Inr (P k), st)"
  shows "(bind (navi_car (Ref a)) (\<lambda>entry. bind (navi_type_check entry NAVI_PAIR env) (\<lambda>_.
      bind (navi_caar (Ref a)) (\<lambda>key. bind (same key) (\<lambda>b. ret (if b then Return entry else Continue ())))))) st n
    = (Inr (if entry_with st P x then Return x else Continue ()), st)"
proof -
  obtain b k v where b: "x = Ref b" "pair_at st b k v" using type_in_pair [OF assms(1,3)] by blast
  then have "entry_with st P x \<longleftrightarrow> P k" by (auto simp: entry_with_def)
  then show ?thesis using assms(2) b assms(4) [OF b] by (simp add: navi_caar_def bind_run)
qed

lemma assoc_loop_run:
  assumes "wf_heap st" and "list_at st p xs t" and "length xs < n"
    and same: "\<And>x b k v. x \<in> set xs \<Longrightarrow> x = Ref b \<Longrightarrow> pair_at st b k v \<Longrightarrow> same k st n = (Inr (P k), st)"
  shows "(\<forall>y \<in> set xs. type_in st y = NAVI_PAIR) \<Longrightarrow>
      assoc_loop same p env st n = (Inr (case find (entry_with st P) xs of None \<Rightarrow> BoolO False | Some x \<Rightarrow> x), st)"
    and "xs = us @ y # ws \<Longrightarrow> \<forall>u \<in> set us. type_in st u = NAVI_PAIR \<and> \<not> entry_with st P u \<Longrightarrow>
      type_in st y \<noteq> NAVI_PAIR \<Longrightarrow>
      assoc_loop same p env st n = (Inl (Error InternalError ''type error''
        [(''expected'', ISym ''pair''), (''actual'', ISym (navi_strtype (type_in st y)))] env), st)"
proof -
  let ?body = "\<lambda>cons (_ :: unit). bind (navi_car cons) (\<lambda>entry. bind (navi_type_check entry NAVI_PAIR env) (\<lambda>_.
      bind (navi_caar cons) (\<lambda>key. bind (same key) (\<lambda>b. ret (if b then Return entry else Continue ())))))"
  assume pairs: "\<forall>y \<in> set xs. type_in st y = NAVI_PAIR"
  note body = assoc_body_run [OF assms(1), where same = same and P = P and env = env and n = n]
  show "assoc_loop same p env st n = (Inr (case find (entry_with st P) xs of None \<Rightarrow> BoolO False | Some x \<Rightarrow> x), st)"
  proof (cases "\<exists>x \<in> set xs. entry_with st P x")
    case True
    then obtain us y ws where xs: "xs = us @ y # ws" "entry_with st P y" "\<forall>u \<in> set us. \<not> entry_with st P u"
      using split_list_first_prop [of xs "entry_with st P"] by blast
    have "find (entry_with st P) (us @ y # ws) = Some y" using xs(2,3) by (induction us) auto
    moreover have "\<exists>a d. pair_at st a y d \<and> list_at st (Ref a) (y # ws) t \<and> assoc_loop same p env st n = (Inr y, st)"
      unfolding assoc_loop_def
    proof (rule after_for_each_found)
      show "list_at st p (us @ y # ws) t" using assms(2) xs by simp
    next
      show "length us < n" using assms(3) xs by simp
    next
      fix a d
      assume "pair_at st a y d"
      then show "?body (Ref a) () st n = (Inr (Return y), st)"
        by (subst body) (use xs pairs in \<open>auto intro: same\<close>)
    qed (subst body, use xs pairs in \<open>auto intro: same\<close>)
    ultimately show ?thesis using xs(1) by auto
  next
    case False
    then have "find (entry_with st P) xs = None" by (auto simp: find_None_iff)
    moreover have "assoc_loop same p env st n = ret (BoolO False) st n"
      unfolding assoc_loop_def make_defs
      by (rule after_for_each_none [OF assms(2,3)]) (use False pairs in \<open>subst body, auto intro: same\<close>)
    ultimately show ?thesis by simp
  qed
next
  assume xs: "xs = us @ y # ws" and us: "\<forall>u \<in> set us. type_in st u = NAVI_PAIR \<and> \<not> entry_with st P u"
    and y: "type_in st y \<noteq> NAVI_PAIR"
  note body = assoc_body_run [OF assms(1), where same = same and P = P and env = env and n = n]
  have "valid_obj st y" by (rule list_at_elems_valid [OF assms(1,2)]) (simp add: xs)
  then have check: "navi_type_check y NAVI_PAIR env st n = (Inl (Error InternalError ''type error''
        [(''expected'', ISym ''pair''), (''actual'', ISym (navi_strtype (type_in st y)))] env), st)"
    using y by (simp add: navi_type_check_valid navi_strtype_def)
  show "assoc_loop same p env st n = (Inl (Error InternalError ''type error''
        [(''expected'', ISym ''pair''), (''actual'', ISym (navi_strtype (type_in st y)))] env), st)"
    unfolding assoc_loop_def
  proof (rule after_for_each_error)
    show "list_at st p (us @ y # ws) t" using assms(2) xs by simp
  next
    show "length us < n" using assms(3) xs by simp
  next
    fix a u d
    assume "u \<in> set us" "pair_at st a u d"
    with us xs show "bind (navi_car (Ref a)) (\<lambda>entry. bind (navi_type_check entry NAVI_PAIR env) (\<lambda>_.
      bind (navi_caar (Ref a)) (\<lambda>key. bind (same key) (\<lambda>b. ret (if b then Return entry else Continue ()))))) st n
      = (Inr (Continue ()), st)"
      by (subst body) (auto intro: same)
  qed (use check in \<open>simp add: bind_run\<close>)
qed

text \<open>
  \<open>assv\<close> returns the first entry whose key is the same value and false when there is none; an
  element that is no pair raises an error when the search reaches it.
\<close>

theorem assv_correct:
  assumes "wf_heap st" and "list_at st args [obj, x] NilO" and "list_at st x xs t" and "length xs < n"
  shows "((\<forall>y \<in> set xs. type_in st y = NAVI_PAIR) \<longrightarrow>
      scm_assv 2 args env st n =
        (Inr (case find (entry_with st (\<lambda>k. k = obj)) xs of None \<Rightarrow> BoolO False | Some y \<Rightarrow> y), st)) \<and>
    (\<forall>us y ws. xs = us @ y # ws \<longrightarrow>
      (\<forall>u \<in> set us. type_in st u = NAVI_PAIR \<and> \<not> entry_with st (\<lambda>k. k = obj) u) \<longrightarrow>
      type_in st y \<noteq> NAVI_PAIR \<longrightarrow>
      scm_assv 2 args env st n = (Inl (Error InternalError ''type error''
        [(''expected'', ISym ''pair''), (''actual'', ISym (navi_strtype (type_in st y)))] env), st))"
proof -
  have obj: "valid_obj st obj" by (rule list_at_elems_valid [OF assms(1,2)]) simp
  have same: "navi_eqvp obj k st n = (Inr (k = obj), st)" if "x' = Ref b" "pair_at st b k v" for x' b k v
    using navi_eqvp_run [OF assms(1) obj] wf_heapD(3) [OF assms(1) that(2), of k] by auto
  note run = assoc_loop_run [where same = "navi_eqvp obj" and P = "\<lambda>k. k = obj" and env = env, OF assms(1,3,4) same]
  have eq: "scm_assv 2 args env st n = assoc_loop (navi_eqvp obj) x env st n"
    by (simp add: scm_assv_def args1 [OF assms(2)] args2 [OF assms(2)])
  show ?thesis unfolding eq by (intro conjI allI impI run) auto
qed

theorem assv_correct_witness:
  "scm_assv 2 (Ref 0) some_env (heap_of [pair_ob (Fixnum 4) (Ref 1), pair_ob (Ref 2) NilO,
       pair_ob (Ref 3) NilO, pair_ob (Fixnum 4) EofO]) 9
   = (Inr (Ref 3), heap_of [pair_ob (Fixnum 4) (Ref 1), pair_ob (Ref 2) NilO,
       pair_ob (Ref 3) NilO, pair_ob (Fixnum 4) EofO])"
proof -
  let ?st = "heap_of [pair_ob (Fixnum 4) (Ref 1), pair_ob (Ref 2) NilO, pair_ob (Ref 3) NilO, pair_ob (Fixnum 4) EofO]"
  have "wf_heap ?st" by (rule wf_heap_of) simp
  moreover have "list_at ?st (Ref 0) [Fixnum 4, Ref 2] NilO" "list_at ?st (Ref 2) [Ref 3] NilO" by simp_all
  moreover have "entry_with ?st (\<lambda>k. k = Fixnum 4) (Ref 3)" by (auto simp: entry_with_def)
  ultimately show ?thesis
    using assv_correct [of ?st "Ref 0" "Fixnum 4" "Ref 2" "[Ref 3]" NilO 9 some_env] by simp
qed
end
