(* ===== verification/Spec_Data.thy ===== *)
theory Spec_Data
  imports Spec_List Spec_Value Navi_Gc
begin

text \<open>
  What symbols, equality, vectors and bytevectors promise (\<open>heap.c\<close>, \<open>vector.c\<close>,
  \<open>bytevector.c\<close>): interning refines a map from names to objects, \<open>equal?\<close> decides the equality of
  the data two values stand for, and the accesses to the elements of an array stay inside it where
  the code checks them.
\<close>

section \<open>Symbols\<close>

text \<open>
  C10: Interning two names one after the other gives the same object exactly when the names are
  equal; the table stays well formed, maps the two names to the objects and every other name as
  before, and no existing object changes.
\<close>

theorem interning_correct:
  assumes "symtab_ok st"
  shows "\<exists>a b st1 st2. navi_make_symbol s st n = (Inr (Ref a), st1) \<and>
    navi_make_symbol t st1 n = (Inr (Ref b), st2) \<and> (a = b \<longleftrightarrow> s = t) \<and>
    symtab_ok st2 \<and> symtab st2 = (symtab st)(s \<mapsto> a, t \<mapsto> b) \<and>
    symbol_at st2 a s True \<and> symbol_at st2 b t True \<and> same_below st st2"
proof -
  obtain a st1 where 1: "navi_make_symbol s st n = (Inr (Ref a), st1)" "symtab_ok st1"
    "symtab st1 = (symtab st)(s \<mapsto> a)" "symbol_at st1 a s True" "same_below st st1"
    using navi_make_symbol_spec [OF assms] by blast
  obtain b st2 where 2: "navi_make_symbol t st1 n = (Inr (Ref b), st2)" "symtab_ok st2"
    "symtab st2 = (symtab st1)(t \<mapsto> b)" "symbol_at st2 b t True" "same_below st1 st2"
    "symtab st1 t \<noteq> None \<longrightarrow> st2 = st1"
    using navi_make_symbol_spec [OF 1(2)] by blast
  have "symbol_at st2 a s True"
    using heap_same_below_keep [OF _ 2(5) 1(4)] 1(2) by (simp add: symtab_ok_def)
  moreover have "b = a" if "s = t" using 1(3) 2(1,3,6) symtab_Some [OF 2(2), of t b]
    navi_make_symbol_run [OF 1(2), of t n] that by simp
  ultimately show ?thesis using 1 2 same_below_trans [OF 1(5) 2(5)]
    by (intro exI [of _ a] exI [of _ b] exI [of _ st1] exI [of _ st2]) auto
qed

theorem interning_correct_witness:
  "\<exists>a b st1 st2. navi_make_symbol ''car'' empty_state 2 = (Inr (Ref a), st1) \<and>
    navi_make_symbol ''cdr'' st1 2 = (Inr (Ref b), st2) \<and> a \<noteq> b"
  using interning_correct [OF symtab_ok_empty, of "''car''" 2 "''cdr''"] by auto

text \<open>The symbols of the interpreter, interned one after the other and protected.\<close>

lemma intern_run:
  assumes "symtab_ok (mem g)" and "symtab (mem g) name = None" and "addressable (Ref (hp_next (mem g)))"
  shows "intern name g n = (Inr (Ref (hp_next (mem g))), g\<lparr>mem := intern_st name (mem g),
    gc_flags := (gc_flags g)(hp_next (mem g) := gc_flags g (hp_next (mem g)) OR NAVI_GC_PROTECT)\<rparr>)"
proof -
  let ?a = "hp_next (mem g)"
  have "\<not> navi_is_immediate (obj_word (Ref ?a))"
    using pointer_word [OF assms(3)] by (simp add: navi_is_immediate_def)
  then show ?thesis using navi_make_symbol_run [OF assms(1), of name n] assms(2)
    by (simp add: intern_def navi_gc_protect_def set_flags_def on_mem_def bind_run deref_def modifies_def)
qed

lemma protected_or [simp]: "gc_is_protected (fl OR NAVI_GC_PROTECT)"
proof -
  have "(fl OR NAVI_GC_PROTECT) AND NAVI_GC_PROTECT = NAVI_GC_PROTECT"
    by (rule bit_word_eqI) (auto simp: bit_and_iff bit_or_iff)
  then show ?thesis by (simp add: gc_is_protected_def NAVI_GC_PROTECT_def)
qed

lemma intern_all:
  assumes "symtab_ok (mem g)" and "distinct names" and "set names \<inter> dom (symtab (mem g)) = {}"
    and "hp_next (mem g) = h" and "Suc (h + length names) < 2 ^ 60"
  shows "\<exists>g'. foldM (\<lambda>name syms. bind (intern name) (\<lambda>s. ret (syms @ [s]))) names syms g n =
      (Inr (syms @ map Ref [h..<h + length names]), g') \<and> symtab_ok (mem g') \<and>
      (\<forall>i < length names. symtab (mem g') (names ! i) = Some (h + i) \<and> gc_is_protected (gc_flags g' (h + i))) \<and>
      (\<forall>s. s \<notin> set names \<longrightarrow> symtab (mem g') s = symtab (mem g) s) \<and> (\<forall>a < h. gc_flags g' a = gc_flags g a)"
  using assms
proof (induction names arbitrary: g syms h)
  case Nil
  then show ?case by auto
next
  case (Cons name names)
  let ?g = "g\<lparr>mem := intern_st name (mem g), gc_flags := (gc_flags g)(h := gc_flags g h OR NAVI_GC_PROTECT)\<rparr>"
  have none: "symtab (mem g) name = None" using Cons.prems(3) by auto
  note ok = intern_st_ok [OF Cons.prems(1) none]
  have run: "intern name g n = (Inr (Ref h), ?g)"
    using intern_run [OF Cons.prems(1) none, of n] Cons.prems(4,5) by (simp add: addressable_def)
  have "\<exists>g'. foldM (\<lambda>name syms. bind (intern name) (\<lambda>s. ret (syms @ [s]))) names (syms @ [Ref h]) ?g n =
      (Inr ((syms @ [Ref h]) @ map Ref [Suc h..<Suc h + length names]), g') \<and> symtab_ok (mem g') \<and>
      (\<forall>i < length names. symtab (mem g') (names ! i) = Some (Suc h + i) \<and> gc_is_protected (gc_flags g' (Suc h + i))) \<and>
      (\<forall>s. s \<notin> set names \<longrightarrow> symtab (mem g') s = symtab (mem ?g) s) \<and> (\<forall>a < Suc h. gc_flags g' a = gc_flags ?g a)"
    by (rule Cons.IH) (use Cons.prems ok in \<open>auto split: if_splits\<close>)
  then obtain g' where g': "foldM (\<lambda>name syms. bind (intern name) (\<lambda>s. ret (syms @ [s]))) names (syms @ [Ref h]) ?g n =
      (Inr ((syms @ [Ref h]) @ map Ref [Suc h..<Suc h + length names]), g')" "symtab_ok (mem g')"
    and nth: "\<And>i. i < length names \<Longrightarrow> symtab (mem g') (names ! i) = Some (Suc h + i) \<and> gc_is_protected (gc_flags g' (Suc h + i))"
    and other: "\<And>s. s \<notin> set names \<Longrightarrow> symtab (mem g') s = symtab (mem ?g) s"
    and fl: "\<And>a. a < Suc h \<Longrightarrow> gc_flags g' a = gc_flags ?g a"
    by blast
  have "symtab (mem g') ((name # names) ! i) = Some (h + i) \<and> gc_is_protected (gc_flags g' (h + i))"
    if "i < length (name # names)" for i
    using that nth other [of name] fl [of h] Cons.prems(2,4) ok(2) by (cases i) auto
  moreover have "symtab (mem g') s = symtab (mem g) s" if "s \<notin> set (name # names)" for s
    using that other [of s] ok(2) by auto
  moreover have "gc_flags g' a = gc_flags g a" if "a < h" for a using that fl [of a] by simp
  moreover have upt: "[h..<h + length (name # names)] = h # [Suc h..<Suc h + length names]"
    using upt_conv_Cons [of h "h + length (name # names)"] by (simp del: upt_Suc)
  moreover have "bind (intern name) (\<lambda>s. ret (syms @ [s])) g n = (Inr (syms @ [Ref h]), ?g)"
    using run by simp
  then have "foldM (\<lambda>name syms. bind (intern name) (\<lambda>s. ret (syms @ [s]))) (name # names) syms g n =
      (Inr (syms @ map Ref [h..<h + length (name # names)]), g')"
    unfolding foldM.simps upt using g'(1) by (simp del: upt_Suc)
  ultimately show ?case using g'(2) by blast
qed

lemma symbol_table_init_run:
  assumes "heap (mem g) = Map.empty" and "hp_next (mem g) = 0"
  shows "\<exists>g'. symbol_table_init g n = (Inr (map Ref [0..<30]), g') \<and> symtab_ok (mem g') \<and>
     (\<forall>i < 30. symtab (mem g') (interned_names ! i) = Some i \<and> gc_is_protected (gc_flags g' i))"
proof -
  let ?g = "g\<lparr>mem := (mem g)\<lparr>symbol_table := (\<lambda>_. [])\<rparr>\<rparr>"
  have "symtab_ok (mem ?g)" using assms by (simp add: symtab_ok_def wf_heap_def)
  moreover have "symtab (mem ?g) = (\<lambda>_. None)" by (rule ext) (simp add: symtab_def)
  ultimately have "\<exists>g'. foldM (\<lambda>name syms. bind (intern name) (\<lambda>s. ret (syms @ [s]))) interned_names [] ?g n =
      (Inr (map Ref [0..<30]), g') \<and> symtab_ok (mem g') \<and>
     (\<forall>i < 30. symtab (mem g') (interned_names ! i) = Some i \<and> gc_is_protected (gc_flags g' i))"
    using intern_all [of ?g interned_names 0 "[]" n] distinct_interned_names assms(2)
    by (auto simp: length_interned_names)
  moreover have "on_mem (modifies (\<lambda>st. st\<lparr>symbol_table := (\<lambda>_. [])\<rparr>)) g n = (Inr (), ?g)"
    by (simp add: on_mem_def modifies_def)
  ultimately show ?thesis by (simp add: symbol_table_init_def bind_run)
qed

lemma interned_symbol:
  assumes "symtab_ok st" and "symtab st s = Some a"
  shows "navi_make_symbol s st m = (Inr (Ref a), st)"
  using navi_make_symbol_run [OF assms(1), of s m] assms(2) by simp

text \<open>
  C31: Starting the table on an empty heap, whatever it held before, interns the names that the
  interpreter uses.  Each of the thirty variables \<open>navi_sym_...\<close> then holds the symbol of its own
  name, which the collector never frees, and from then on, as long as the table is only added to,
  interning this name, as the reader does, gives the value of the variable.
\<close>

theorem symbol_table_init_correct:
  assumes "heap (mem g) = Map.empty" and "hp_next (mem g) = 0"
  shows "\<exists>g'. symbol_table_init g n = (Inr (map Ref [0..<30]), g') \<and> symtab_ok (mem g') \<and>
    (\<forall>(var, name) \<in> set [(navi_sym_begin, ''begin''), (navi_sym_quote, ''quote''), (navi_sym_quasiquote, ''quasiquote''),
      (navi_sym_unquote, ''unquote''), (navi_sym_splice, ''unquote-splice''), (navi_sym_else, ''else''),
      (navi_sym_eq_lt, ''=>''), (navi_sym_lib_paths, ''#lib-search-paths''),
      (navi_sym_command_line, ''#command-line''), (navi_sym_current_exn, ''#current-exception-handler''),
      (navi_sym_current_input, ''current-input-port''), (navi_sym_current_output, ''current-output-port''),
      (navi_sym_current_error, ''current-error-port''), (navi_sym_read_error, ''#read-error''),
      (navi_sym_file_error, ''#file-error''), (navi_sym_internal_error, ''#internal-error''),
      (navi_sym_repl, ''#repl''), (navi_sym_export, ''export''), (navi_sym_import, ''import''),
      (navi_sym_only, ''only''), (navi_sym_except, ''except''), (navi_sym_prefix, ''prefix''),
      (navi_sym_rename, ''rename''), (navi_sym_deflib, ''define-library''), (navi_sym_include, ''include''),
      (navi_sym_include_ci, ''include-ci''), (navi_sym_include_libdecl, ''include-library-declarations''),
      (navi_sym_cond_expand, ''cond-expand''), (navi_sym_ellipsis, ''...''), (navi_sym_underscore, ''_'')].
      \<exists>a. var = Ref a \<and> symbol_at (mem g') a name True \<and> gc_is_protected (gc_flags g' a) \<and>
        (\<forall>st m. symtab_ok st \<and> symtab (mem g') \<subseteq>\<^sub>m symtab st \<longrightarrow> navi_make_symbol name st m = (Inr var, st)))"
    (is "\<exists>g'. _ \<and> _ \<and> (\<forall>(var, name) \<in> set ?vars. _ g' var name)")
proof -
  obtain g' where g': "symbol_table_init g n = (Inr (map Ref [0..<30]), g')" "symtab_ok (mem g')"
    "\<forall>i < 30. symtab (mem g') (interned_names ! i) = Some i \<and> gc_is_protected (gc_flags g' i)"
    using symbol_table_init_run [OF assms] by blast
  have vars: "?vars = map (\<lambda>i. (Ref i, interned_names ! i)) [0..<30]"
    by (simp add: upt_conv_Cons sym_defs interned_names_def)
  have "\<exists>a. Ref i = Ref a \<and> symbol_at (mem g') a (interned_names ! i) True \<and> gc_is_protected (gc_flags g' a) \<and>
        (\<forall>st m. symtab_ok st \<and> symtab (mem g') \<subseteq>\<^sub>m symtab st \<longrightarrow> navi_make_symbol (interned_names ! i) st m = (Inr (Ref i), st))"
    if "i < 30" for i
  proof (intro exI [of _ i] conjI refl allI impI)
    show "symbol_at (mem g') i (interned_names ! i) True" using symtab_Some(1) [OF g'(2)] g'(3) that by blast
    show "gc_is_protected (gc_flags g' i)" using g'(3) that by blast
    fix st m
    assume st: "symtab_ok st \<and> symtab (mem g') \<subseteq>\<^sub>m symtab st"
    have "symtab (mem g') (interned_names ! i) = Some i" using g'(3) that by blast
    then have "symtab st (interned_names ! i) = Some i" using st by (metis map_le_def domI)
    then show "navi_make_symbol (interned_names ! i) st m = (Inr (Ref i), st)" using st by (intro interned_symbol) auto
  qed
  then show ?thesis using g'(1,2) unfolding vars by (intro exI [of _ g']) auto
qed

text \<open>The program's first state.\<close>

definition first_state :: gc_state where
  "first_state = \<lparr>mem = empty_state, gc_flags = (\<lambda>_. 0), slh_first = None, sle_next = Map.empty,
     gc_bytes = 0, gc_objects = 0, gc_threshold = 0, gc_disabled = 0\<rparr>"

theorem symbol_table_init_correct_witness:
  "\<exists>g'. symbol_table_init first_state 1 = (Inr (map Ref [0..<30]), g') \<and>
    navi_make_symbol ''quote'' (mem g') 1 = (Inr navi_sym_quote, mem g')"
proof -
  have "heap (mem first_state) = Map.empty" "hp_next (mem first_state) = 0"
    by (simp_all add: first_state_def empty_state_def)
  from symbol_table_init_correct [OF this, of 1] obtain g' where g': "symbol_table_init first_state 1 = (Inr (map Ref [0..<30]), g')"
    "symtab_ok (mem g')" "\<forall>st m. symtab_ok st \<and> symtab (mem g') \<subseteq>\<^sub>m symtab st \<longrightarrow> navi_make_symbol ''quote'' st m = (Inr navi_sym_quote, st)"
    by auto
  then show ?thesis by auto
qed

section \<open>Equality\<close>

text \<open>
  C4: On finite data \<open>equal?\<close> decides whether the two values stand for the same datum, whatever
  their objects, and \<open>eqv?\<close> whether they are the same value; neither changes the heap.
\<close>

theorem equality_correct:
  assumes "wf_heap st" and "list_at st args [x, y] NilO"
    and "denotes st x d" and "denotes st y e" and "size d < n"
  shows "scm_equalp 2 args env st n = (Inr (BoolO (d = e)), st) \<and>
    scm_eqvp 2 args env st n = (Inr (BoolO (x = y)), st) \<and> (x = y \<longrightarrow> d = e)"
  using args1 [OF assms(2)] args2 [OF assms(2)] navi_equalp_run [OF assms(1,3,4,5)]
    navi_eqvp_run [OF assms(1) denotes_valid [OF assms(3)] denotes_valid [OF assms(4)]]
    denotes_unique [OF assms(1,3)] assms(4)
  by (auto simp: scm_equalp_def scm_eqvp_def bind_run navi_make_bool_def)

theorem equality_correct_witness:
  "scm_equalp 2 (Ref 0) some_env (heap_of [pair_ob (Ref 2) (Ref 1), pair_ob (Ref 3) NilO,
       pair_ob (Fixnum 5) NilO, pair_ob (Fixnum 5) NilO]) 9
   = (Inr (BoolO True), heap_of [pair_ob (Ref 2) (Ref 1), pair_ob (Ref 3) NilO,
       pair_ob (Fixnum 5) NilO, pair_ob (Fixnum 5) NilO])"
proof -
  let ?st = "heap_of [pair_ob (Ref 2) (Ref 1), pair_ob (Ref 3) NilO, pair_ob (Fixnum 5) NilO, pair_ob (Fixnum 5) NilO]"
  let ?d = "DPair (DAtom (Fixnum 5)) (DAtom NilO)"
  have wf: "wf_heap ?st" by (rule wf_heap_of) simp
  have atoms: "denotes ?st (Fixnum 5) (DAtom (Fixnum 5))" "denotes ?st NilO (DAtom NilO)"
    by (rule denotes.atom; simp)+
  have "denotes ?st (Ref 2) ?d" "denotes ?st (Ref 3) ?d" by (rule denotes.pair; (rule atoms)?; simp)+
  from equality_correct [OF wf _ this, of "Ref 0" 9 some_env] show ?thesis by simp
qed

section \<open>Vectors\<close>

text \<open>
  C32: \<open>vector-ref\<close> and \<open>vector-set!\<close> read and replace exactly the indexed element of a vector and
  report an index past the end; a negative index passes the test, and the access before the first
  element has no meaning in C.
\<close>

theorem vector_access_correct:
  assumes "list_at st args [Ref a, Fixnum w, x] NilO" and "vector_at st a (map Some xs)"
  shows "scm_vector_ref 2 args env st n =
      (if sint w < 0 then Inl Undef
       else if sint w < int (length xs) then Inr (xs ! nat (sint w))
       else Inl (Error InternalError ''vector index out of bounds'' [] env), st) \<and>
    scm_vector_set 3 args env st n =
      (if sint w < 0 then (Inl Undef, st)
       else if sint w < int (length xs)
       then (Inr VoidO, st\<lparr>heap := (heap st)(a := Some \<lparr>obj_type = NAVI_VECTOR,
               obj_data = PVector (map Some (xs[nat (sint w) := x]))\<rparr>)\<rparr>)
       else (Inl (Error InternalError ''vector index out of bounds'' [] env), st))"
  using args_run [OF assms(1)] assms(2)
  by (auto simp: scm_vector_ref_def scm_vector_set_def bind_run navi_vector_ref_def index_def
      navi_unspecified_def navi_make_void_def map_update nat_less_iff)

theorem vector_access_correct_witness:
  "scm_vector_ref 2 (Ref 0) some_env (heap_of [pair_ob (Ref 3) (Ref 1), pair_ob (Fixnum 1) (Ref 2), pair_ob VoidO NilO,
       \<lparr>obj_type = NAVI_VECTOR, obj_data = PVector [Some EofO, Some (BoolO True)]\<rparr>]) 4
   = (Inr (BoolO True), heap_of [pair_ob (Ref 3) (Ref 1), pair_ob (Fixnum 1) (Ref 2), pair_ob VoidO NilO,
       \<lparr>obj_type = NAVI_VECTOR, obj_data = PVector [Some EofO, Some (BoolO True)]\<rparr>])"
proof -
  let ?st = "heap_of [pair_ob (Ref 3) (Ref 1), pair_ob (Fixnum 1) (Ref 2), pair_ob VoidO NilO,
       \<lparr>obj_type = NAVI_VECTOR, obj_data = PVector [Some EofO, Some (BoolO True)]\<rparr>]"
  have "list_at ?st (Ref 0) [Ref 3, Fixnum 1, VoidO] NilO" "vector_at ?st 3 (map Some [EofO, BoolO True])"
    by simp_all
  then show ?thesis using vector_access_correct [of ?st "Ref 0" 3 1 VoidO "[EofO, BoolO True]" some_env 4] by simp
qed

text \<open>
  The target after \<open>m\<close> elements were copied upwards from index \<open>s\<close> of the source to index \<open>k\<close>.  Within
  one vector, a range that moves up and meets itself is read after it was written: the elements in
  front of the target are repeated.
\<close>

definition copied :: "bool \<Rightarrow> nat \<Rightarrow> nat \<Rightarrow> nat \<Rightarrow> 'a list \<Rightarrow> 'a list \<Rightarrow> 'a list" where
  "copied within k s m fs ts = map (\<lambda>j. if k \<le> j \<and> j < k + m
     then fs ! (s + (if within \<and> s < k then (j - k) mod (k - s) else j - k)) else ts ! j) [0..<length ts]"

lemma length_copied [simp]: "length (copied within k s m fs ts) = length ts"
  by (simp add: copied_def)

lemma nth_copied: "j < length ts \<Longrightarrow> copied within k s m fs ts ! j = (if k \<le> j \<and> j < k + m
    then fs ! (s + (if within \<and> s < k then (j - k) mod (k - s) else j - k)) else ts ! j)"
  by (simp add: copied_def)

lemma copied_0 [simp]: "copied within k s 0 fs ts = ts"
  by (rule nth_equalityI) (auto simp: nth_copied)

text \<open>Where the ranges do not meet, or the range moves down, this is the replacement of a range.\<close>

lemma copied_splice:
  assumes "k + m \<le> length ts" and "s + m \<le> length fs" and "within \<longrightarrow> k \<le> s \<or> s + m \<le> k"
  shows "copied within k s m fs ts = splice k (take m (drop s fs)) ts"
proof (rule nth_equalityI)
  have len: "length (take m (drop s fs)) = m" using assms(2) by simp
  then show "length (copied within k s m fs ts) = length (splice k (take m (drop s fs)) ts)" using assms(1) by simp
  fix j
  assume "j < length (copied within k s m fs ts)"
  then have j: "j < length ts" by simp
  show "copied within k s m fs ts ! j = splice k (take m (drop s fs)) ts ! j"
    using assms len j by (auto simp: nth_copied splice_def nth_append)
qed

lemma copied_Suc:
  assumes "k + m < length ts" and "within \<longrightarrow> fs = ts \<and> s + m < length ts"
  shows "copied within k s (Suc m) fs ts = (copied within k s m fs ts)
    [k + m := if within then copied within k s m fs ts ! (s + m) else fs ! (s + m)]"
    (is "_ = ?ys[k + m := ?x]")
proof (rule nth_equalityI)
  fix j
  assume "j < length (copied within k s (Suc m) fs ts)"
  then have j: "j < length ts" by simp
  have x: "?x = fs ! (s + (if within \<and> s < k then m mod (k - s) else m))"
  proof (cases "within \<and> s < k")
    case True
    then have at: "s + m < length ts" using assms(1) by simp
    show ?thesis
    proof (cases "s + m < k")
      case lt: True
      then show ?thesis using True assms(2) at by (simp add: nth_copied)
    next
      case False
      then have "(s + m - k) mod (k - s) = m mod (k - s)" using True by (simp add: le_mod_geq add.commute [of s m])
      then show ?thesis using True False assms(2) at by (simp add: nth_copied)
    qed
  next
    case False
    then show ?thesis using assms(2) by (auto simp: nth_copied)
  qed
  show "copied within k s (Suc m) fs ts ! j = ?ys[k + m := ?x] ! j"
    unfolding x using j by (cases "j = k + m") (auto simp: nth_copied nth_list_update)
qed simp

lemma vector_copy_loop:
  assumes t: "heap st t = Some ot" "obj_data ot = PVector (map Some ts)"
    and f: "heap st f = Some ob" "obj_data ob = PVector (map Some fs)"
    and len: "s \<le> e" "e \<le> length fs" "k + (e - s) \<le> length ts"
  shows "foldM (\<lambda>i at. bind (vector_get (Ref f) i) (\<lambda>x. bind (vector_put (Ref t) at x) (\<lambda>_. ret (Suc at))))
      [s..<e] k st n =
    (Inr (k + (e - s)), upd_data st t ot (PVector (map Some (copied (f = t) k s (e - s) fs ts))))"
proof -
  let ?D = "\<lambda>ys. upd_data st t ot (PVector (map Some ys))"
  let ?I = "\<lambda>j at s'. at = k + j \<and> s' = ?D (copied (f = t) k s j fs ts)"
  let ?body = "\<lambda>i at. bind (vector_get (Ref f) i) (\<lambda>x. bind (vector_put (Ref t) at x) (\<lambda>_. ret (Suc at)))"
  have eq: "f = t \<longrightarrow> fs = ts" using t f by (auto simp: inj_map_eq_map)
  have "\<exists>at s'. foldM ?body [s..<e] k st n = (Inr at, s') \<and> ?I (length [s..<e]) at s'"
  proof (rule foldM_rule)
    show "?I 0 k st" using t by (cases ot) (simp add: fun_upd_idem)
  next
    fix j at s'
    assume j: "j < length [s..<e]" and I: "?I j at s'"
    let ?ys = "copied (f = t) k s j fs ts"
    have get: "vector_get (Ref f) (s + j) (?D ?ys) n = (Inr (if f = t then ?ys ! (s + j) else fs ! (s + j)), ?D ?ys)"
      using f j len eq by (cases "f = t") (auto intro!: vector_get_at)
    have "copied (f = t) k s (Suc j) fs ts = ?ys[k + j := if f = t then ?ys ! (s + j) else fs ! (s + j)]"
      using j len eq by (intro copied_Suc) auto
    then show "\<exists>at' s''. ?body ([s..<e] ! j) at s' n = (Inr at', s'') \<and> ?I (Suc j) at' s''"
      using I j get len by (simp add: map_update)
  qed
  then show ?thesis by auto
qed

text \<open>
  C16: \<open>vector-copy!\<close>, when the indices pass the check, replaces the range of the target element by
  element, in place, and otherwise raises an error and changes nothing; no index that passes leads
  outside either vector.  Between two vectors, and within one when the range moves down or does not
  meet itself, the target then holds the range of the source; within one vector a range that moves up
  and meets itself is overwritten before it is read, and the elements between the two indices are
  repeated instead.
\<close>

theorem vector_copy_to_correct:
  assumes "list_at st args [Ref t, Fixnum k, Ref f, Fixnum s, Fixnum e] NilO"
    and "vector_at st t (map Some ts)" and "vector_at st f (map Some fs)"
  shows "if 0 \<le> sint k \<and> sint k < int (length ts) \<and> 0 \<le> sint s \<and> sint s < int (length fs) \<and>
        sint s \<le> sint e \<and> sint e \<le> int (length fs) \<and> sint k + (sint e - sint s) \<le> int (length ts)
     then \<exists>us. scm_vector_copy_to 5 args env st n =
         (Inr VoidO, st\<lparr>heap := (heap st)(t := Some \<lparr>obj_type = NAVI_VECTOR, obj_data = PVector (map Some us)\<rparr>)\<rparr>) \<and>
       length us = length ts \<and>
       (\<forall>j < length ts. int j < sint k \<or> sint k + (sint e - sint s) \<le> int j \<longrightarrow> us ! j = ts ! j) \<and>
       (\<forall>i. int i < sint e - sint s \<longrightarrow> us ! (nat (sint k) + i) = fs ! (nat (sint s) +
          (if f = t \<and> sint s < sint k then i mod nat (sint k - sint s) else i)))
     else scm_vector_copy_to 5 args env st n = (Inl (Error InternalError ''invalid indices for copy'' [] env), st)"
    (is "if _ then ?copy else ?error")
proof -
  have a4: "scm_arg4 args st n = (Inr (Fixnum s), st)" "scm_arg5 args st n = (Inr (Fixnum e), st)"
    using assms(1) by (auto simp: scm_arg4_def scm_arg5_def navi_cdddr_def navi_cadddr_def navi_caddddr_def navi_cddddr_def navi_cddr_def bind_run)
  let ?ok = "\<not> check_copy_bad (length ts) (sint k) (length fs) (sint s) (sint e)"
  have ok: "?ok \<longleftrightarrow> 0 \<le> sint k \<and> sint k < int (length ts) \<and> 0 \<le> sint s \<and> sint s < int (length fs) \<and>
        sint s \<le> sint e \<and> sint e \<le> int (length fs) \<and> sint k + (sint e - sint s) \<le> int (length ts)"
    by (auto simp: check_copy_bad_def)
  have copy: ?copy if True: ?ok
  proof -
    note b = check_copy_in_bounds [OF True]
    let ?us = "copied (f = t) (nat (sint k)) (nat (sint s)) (nat (sint e) - nat (sint s)) fs ts"
    have bounds: "0 \<le> sint k" "0 \<le> sint s" "sint s \<le> sint e" "sint k + (sint e - sint s) \<le> int (length ts)"
      using True ok by simp_all
    have "foldM (\<lambda>i at. bind (vector_get (Ref f) i) (\<lambda>x. bind (vector_put (Ref t) at x) (\<lambda>_. ret (Suc at))))
        [nat (sint s)..<nat (sint e)] (nat (sint k)) st n =
      (Inr (nat (sint k) + (nat (sint e) - nat (sint s))), upd_data st t \<lparr>obj_type = NAVI_VECTOR, obj_data = PVector (map Some ts)\<rparr>
        (PVector (map Some ?us)))"
      by (rule vector_copy_loop [OF assms(2) _ assms(3)]) (use b in auto)
    then have "scm_vector_copy_to 5 args env st n =
        (Inr VoidO, st\<lparr>heap := (heap st)(t := Some \<lparr>obj_type = NAVI_VECTOR, obj_data = PVector (map Some ?us)\<rparr>)\<rparr>)"
      using True args_run [OF assms(1)] a4 assms(2,3) b
      by (simp add: scm_vector_copy_to_def bind_run opt_fixnum_def navi_check_copy_to_def vector_copy_to_def
          navi_unspecified_def navi_make_void_def)
    moreover have "?us ! j = ts ! j" if "j < length ts" "int j < sint k \<or> sint k + (sint e - sint s) \<le> int j" for j
      using that bounds by (auto simp: nth_copied)
    moreover have "?us ! (nat (sint k) + i) = fs ! (nat (sint s) + (if f = t \<and> sint s < sint k then i mod nat (sint k - sint s) else i))"
      if i: "int i < sint e - sint s" for i
    proof -
      have "nat (sint k) + i < length ts" "i < nat (sint e) - nat (sint s)" using i bounds by auto
      moreover have "nat (sint s) < nat (sint k) \<longleftrightarrow> sint s < sint k" using bounds by auto
      moreover have "nat (sint k) - nat (sint s) = nat (sint k - sint s)" using bounds by auto
      ultimately show ?thesis by (simp add: nth_copied)
    qed
    moreover have "length ?us = length ts" by simp
    ultimately show ?thesis by (intro exI [of _ ?us] conjI) blast+
  qed
  have error: ?error if "\<not> ?ok"
    using that args_run [OF assms(1)] a4 assms(2,3)
    by (simp add: scm_vector_copy_to_def bind_run opt_fixnum_def navi_check_copy_to_def)
  show ?thesis unfolding ok [symmetric] using copy error by (cases ?ok) (simp_all only: if_True if_False simp_thms)
qed

abbreviation vector_ob :: "navi_obj list \<Rightarrow> navi_object" where
  "vector_ob xs \<equiv> \<lparr>obj_type = NAVI_VECTOR, obj_data = PVector (map Some xs)\<rparr>"

text \<open>A copy within one vector: from index 0 to index 1, which repeats the first element.\<close>

theorem vector_copy_to_correct_witness:
  "\<exists>st'. scm_vector_copy_to 5 (Ref 0) some_env (heap_of [pair_ob (Ref 5) (Ref 1), pair_ob (Fixnum 1) (Ref 2),
       pair_ob (Ref 5) (Ref 3), pair_ob (Fixnum 0) (Ref 4), pair_ob (Fixnum 2) NilO,
       vector_ob [EofO, NilO, VoidO]]) 4 = (Inr VoidO, st') \<and>
     vector_at st' 5 (map Some [EofO, EofO, EofO])"
proof -
  let ?st = "heap_of [pair_ob (Ref 5) (Ref 1), pair_ob (Fixnum 1) (Ref 2), pair_ob (Ref 5) (Ref 3),
       pair_ob (Fixnum 0) (Ref 4), pair_ob (Fixnum 2) NilO, vector_ob [EofO, NilO, VoidO]]"
  have "list_at ?st (Ref 0) [Ref 5, Fixnum 1, Ref 5, Fixnum 0, Fixnum 2] NilO" by simp
  moreover have "vector_at ?st 5 (map Some [EofO, NilO, VoidO])" by simp
  ultimately obtain us where us: "scm_vector_copy_to 5 (Ref 0) some_env ?st 4 =
      (Inr VoidO, ?st\<lparr>heap := (heap ?st)(5 := Some \<lparr>obj_type = NAVI_VECTOR, obj_data = PVector (map Some us)\<rparr>)\<rparr>)"
    "length us = 3" "\<forall>j < 3. int j < 1 \<or> 3 \<le> int j \<longrightarrow> us ! j = [EofO, NilO, VoidO] ! j"
    "\<forall>i. int i < 2 \<longrightarrow> us ! (1 + i) = [EofO, NilO, VoidO] ! (i mod 1)"
    using vector_copy_to_correct [of ?st "Ref 0" 5 1 5 0 2 "[EofO, NilO, VoidO]" "[EofO, NilO, VoidO]" some_env 4]
    by auto
  have "us ! 0 = EofO" "us ! 1 = EofO" "us ! 2 = EofO"
    using us(3) spec [OF us(4), of 0] spec [OF us(4), of 1] by (simp_all add: numeral_2_eq_2)
  then have "us = [EofO, EofO, EofO]"
    using us(2) by (intro nth_equalityI) (auto simp: less_Suc_eq numeral_3_eq_3 numeral_2_eq_2)
  then show ?thesis using us(1) by simp
qed

text \<open>Lists to vectors and back.\<close>

lemma navi_make_vector_run:
  assumes "24 + 8 * int l < 2 ^ 63"
  shows "navi_make_vector (int l) st n =
    (Inr (Ref (hp_next st)), alloc_st NAVI_VECTOR (PVector (replicate l None)) st)"
proof -
  note small = assms
  then have "int l mod 2 ^ 64 = int l" by simp
  moreover from small have "(24 + 8 * int l) mod 2 ^ 64 = 24 + 8 * int l" by simp
  ultimately show ?thesis using small
    by (simp add: navi_make_vector_def navi_critical_malloc_def malloc_ok_def object_header_def make_object_run)
qed

lemma list_to_vector_alloc:
  assumes "wf_heap st" and "list_at st p xs t" and "length xs < n" and "24 + 8 * int (length xs) < 2 ^ 63"
  shows "navi_list_to_vector p st n =
    (Inr (Ref (hp_next st)), alloc_st NAVI_VECTOR (PVector (map Some xs)) st)"
proof -
  let ?a = "hp_next st" and ?l = "length xs"
  let ?V = "\<lambda>ys. alloc_st NAVI_VECTOR (PVector ys) st"
  let ?I = "\<lambda>i v s. v = i \<and> s = ?V (map Some (take i xs) @ replicate (?l - i) None)"
  let ?body = "\<lambda>cons i. bind (navi_car cons) (\<lambda>x. bind (vector_put (Ref ?a) i x) (\<lambda>_. ret (Continue (Suc i))))"
  have keep: "hkeep st (?V ys)" for ys by (rule hkeep_alloc [OF assms(1)])
  have "\<exists>v' s'. after_loop (navi_list_for_each p 0 ?body) (\<lambda>_ _. ret (Ref ?a)) (?V (replicate ?l None)) n =
      ret (Ref ?a) s' n \<and> ?I ?l v' s' \<and> hkeep st s'"
  proof (rule after_for_each_rule [where I = ?I, OF assms(2,3)])
    show "?I 0 0 (?V (replicate ?l None))" by simp
    show "hkeep st (?V (replicate ?l None))" by (rule keep)
  next
    fix i v s c d
    assume i: "i < ?l" "?I i v s" "pair_at s c (xs ! i) d"
    let ?ys = "map Some (take i xs) @ replicate (?l - i) None"
    have "?ys[i := Some (xs ! i)] = map Some (take (Suc i) xs) @ replicate (?l - Suc i) None"
      using i(1) by (simp add: list_update_append take_Suc_conv_app_nth Suc_diff_Suc [symmetric])
    then have "vector_put (Ref ?a) i (xs ! i) s n = (Inr (), ?V (map Some (take (Suc i) xs) @ replicate (?l - Suc i) None))"
      using i(1,2) by (simp add: vector_put_def heap_alloc_st) (simp add: alloc_st_def)
    then show "\<exists>v' s'. ?body (Ref c) v s n = (Inr (Continue v'), s') \<and> ?I (Suc i) v' s' \<and> hkeep st s'"
      using i keep by simp
  qed
  then show ?thesis
    using list_length_run [OF assms(2,3)] navi_make_vector_run [OF assms(4)]
    by (auto simp: navi_list_to_vector_def bind_run)
qed

lemma list_to_vector_run:
  assumes "wf_heap st" and "list_at st p xs t" and "length xs < n" and "24 + 8 * int (length xs) < 2 ^ 63"
  shows "\<exists>a st'. navi_list_to_vector p st n = (Inr (Ref a), st') \<and> same_below st st' \<and> wf_heap st' \<and>
    hp_next st \<le> a \<and> vector_at st' a (map Some xs)"
proof -
  have "wf_heap (alloc_st NAVI_VECTOR (PVector (map Some xs)) st)"
    using list_at_elems_valid [OF assms(1,2)] by (intro wf_heap_alloc [OF assms(1)]) auto
  then show ?thesis using list_to_vector_alloc [OF assms] by (auto simp: heap_alloc_st)
qed

lemma build_add_below:
  assumes "builder_at s0 s b xs"
  shows "\<exists>b' s'. build_add b s n = (Inr b', s') \<and> same_below s0 s'"
proof -
  let ?h = "hp_next s"
  note same = builder_atD(1) [OF assms]
  have make: "navi_make_empty_pair s n = (Inr (Ref ?h), alloc_st NAVI_PAIR (PPair VoidO VoidO) s)"
    by (simp add: navi_make_empty_pair_def make_object_run)
  have alloc: "same_below s0 (alloc_st NAVI_PAIR (PPair VoidO VoidO) s)"
    using same_below_trans [OF same same_below_alloc] .
  show ?thesis
  proof (cases b)
    case None
    then show ?thesis using make alloc by (simp add: build_add_def build_link_def)
  next
    case (Some fp)
    with assms obtain front a d where b: "b = Some (front, Ref a)" "open_chain s0 s front a xs d"
      by (cases fp) (auto simp: builder_at_def)
    obtain y where y: "pair_at s a y d" using open_chainD(5) [OF b(2)] by blast
    then have "pair_at (alloc_st NAVI_PAIR (PPair VoidO VoidO) s) a y d"
      using open_chainD(4) [OF b(2)] by (simp add: heap_alloc_st)
    then show ?thesis using make alloc open_chainD(3) [OF b(2)]
      by (simp add: build_add_def build_link_def b bind_run same_below_def)
  qed
qed

lemma vector_to_list_run:
  assumes "wf_heap st" and "vector_at st a (map Some xs)"
  shows "\<exists>r st'. navi_vector_to_list (Ref a) st n = (Inr r, st') \<and> same_below st st' \<and> wf_heap st' \<and>
    list_at st' r xs NilO"
proof -
  let ?body = "\<lambda>i b. bind (build_add b) (\<lambda>b'. bind (vector_get (Ref a) i) (\<lambda>x. bind (build_set_car b' x) (\<lambda>_. ret b')))"
  let ?I = "\<lambda>i b s. builder_at st s b (take i xs)"
  have a: "a < hp_next st" by (rule wf_heapD(1) [OF assms])
  have "\<exists>b s. foldM ?body [0..<length xs] None st n = (Inr b, s) \<and> ?I (length [0..<length xs]) b s"
  proof (rule foldM_rule)
    show "?I 0 None st" using builder_at_None [OF assms(1)] by simp
  next
    fix i b s
    assume "i < length [0..<length xs]" and I: "?I i b s"
    then have i: "i < length xs" by simp
    obtain b1 s1 where add: "build_add b s n = (Inr b1, s1)" "same_below st s1"
      using build_add_below [OF I] by blast
    then have "vector_at s1 a (map Some xs)" using same_belowD [OF _ a] assms(2) by simp
    then have get: "vector_get (Ref a) i s1 n = (Inr (xs ! i), s1)" using i by (intro vector_get_at) auto
    have "valid_obj st (xs ! i)" using wf_heapD(3) [OF assms, of "xs ! i"] i by simp
    then have "valid_obj s (xs ! i)"
      by (rule valid_obj_hext [OF hext_same_below [OF assms(1) builder_atD(1) [OF I]]])
    then obtain b' s' where push: "build_push b (xs ! i) s n = (Inr b', s')"
      "builder_at st s' b' (take i xs @ [xs ! i])"
      using build_push_run [OF I] by blast
    have "?body ([0..<length xs] ! i) b s n = build_push b (xs ! i) s n"
      using i add get by (simp add: build_push_def)
    then show "\<exists>b' s'. ?body ([0..<length xs] ! i) b s n = (Inr b', s') \<and> ?I (Suc i) b' s'"
      using push i by (simp add: take_Suc_conv_app_nth)
  qed
  then obtain b s where loop: "foldM ?body [0..<length xs] None st n = (Inr b, s)" "builder_at st s b xs" by auto
  have "list_at st NilO [] NilO" by simp
  from build_finish_run [OF loop(2) this assms(1), of n] obtain r s' where
    "build_finish b NilO s n = (Inr r, s')" "list_at s' r xs NilO" "wf_heap s'" "same_below st s'" by auto
  then show ?thesis using loop(1) assms(2)
    by (simp add: navi_vector_to_list_def bind_run navi_make_nil_def)
qed

text \<open>
  C33: \<open>list->vector\<close> makes a fresh vector of the elements of a list, and \<open>vector->list\<close> of that
  vector, in any later state that keeps it, a fresh proper list of the same elements; neither
  changes an existing object.
\<close>

theorem list_vector_roundtrip:
  assumes "wf_heap st" and "list_at st args [p] NilO" and "list_at st p xs NilO" and "length xs < n"
    and "24 + 8 * int (length xs) < 2 ^ 63"
  shows "\<exists>a st1. scm_list_to_vector 1 args env st n = (Inr (Ref a), st1) \<and> same_below st st1 \<and>
    heap st a = None \<and> vector_at st1 a (map Some xs) \<and>
    (\<forall>st2 args2 m. wf_heap st2 \<longrightarrow> hkeep st1 st2 \<longrightarrow> list_at st2 args2 [Ref a] NilO \<longrightarrow>
      (\<exists>r st3. scm_vector_to_list 1 args2 env st2 m = (Inr r, st3) \<and> same_below st2 st3 \<and>
        list_at st3 r xs NilO))"
proof -
  obtain a st1 where 1: "navi_list_to_vector p st n = (Inr (Ref a), st1)" "same_below st st1"
    "hp_next st \<le> a" "vector_at st1 a (map Some xs)"
    using list_to_vector_run [OF assms(1,3,4,5)] by blast
  have "\<exists>r st3. scm_vector_to_list 1 args2 env st2 m = (Inr r, st3) \<and> same_below st2 st3 \<and> list_at st3 r xs NilO"
    if "wf_heap st2" "hkeep st1 st2" "list_at st2 args2 [Ref a] NilO" for st2 args2 m
    using vector_to_list_run [OF that(1) hkeepD [OF that(2) 1(4)], of m] args1 [OF that(3)]
    by (auto simp: scm_vector_to_list_def)
  moreover have "heap st a = None" using 1(3) wf_heapD(1) [OF assms(1), of a] by (cases "heap st a") auto
  ultimately show ?thesis using 1 args1 [OF assms(2)] by (auto simp: scm_list_to_vector_def)
qed

theorem list_vector_roundtrip_witness:
  "\<exists>a st1. scm_list_to_vector 1 (Ref 0) some_env (demo NilO) 9 = (Inr (Ref a), st1) \<and>
    vector_at st1 a (map Some [BoolO True, VoidO, Fixnum 7])"
proof -
  have "\<exists>a st1. scm_list_to_vector 1 (Ref 0) some_env (demo NilO) 9 = (Inr (Ref a), st1) \<and> same_below (demo NilO) st1 \<and>
    heap (demo NilO) a = None \<and> vector_at st1 a (map Some [BoolO True, VoidO, Fixnum 7]) \<and>
    (\<forall>st2 args2 m. wf_heap st2 \<longrightarrow> hkeep st1 st2 \<longrightarrow> list_at st2 args2 [Ref a] NilO \<longrightarrow>
      (\<exists>r st3. scm_vector_to_list 1 args2 some_env st2 m = (Inr r, st3) \<and> same_below st2 st3 \<and>
        list_at st3 r [BoolO True, VoidO, Fixnum 7] NilO))"
    by (rule list_vector_roundtrip [OF wf_demo demo_args demo_list]) simp_all
  then show ?thesis by blast
qed

end
