(* ===== verification/Spec_Reader.thy ===== *)
theory Spec_Reader
  imports Spec_Token Spec_Data Spec_Value
begin

unbundle bit_operations_syntax

text \<open>
  The reader (\<open>read.c\<close>) on lists, vectors and whole data: what the printer writes for a datum is
  read back as the same datum, on every port that meets the contract of an input port.
\<close>

section \<open>The cells of a list that is read\<close>

lemma holds_type:
  assumes "holds A st x d"
  shows "\<exists>t. navi_type x st n = (Inr t, st) \<and> t \<noteq> NAVI_VOID \<and> x \<noteq> EofO \<and> valid_obj st x"
  using assms by cases (auto simp: interned_at_def)

lemma holds_valid: "holds A st x d \<Longrightarrow> valid_obj st x"
  using holds_type by blast

text \<open>Writing the fields of a pair keeps the heap well-formed and the symbol table in order.\<close>

abbreviation put_pair :: "addr \<Rightarrow> navi_obj \<Rightarrow> navi_obj \<Rightarrow> state \<Rightarrow> state" where
  "put_pair b x y st \<equiv> st\<lparr>heap := (heap st)(b \<mapsto> \<lparr>obj_type = NAVI_PAIR, obj_data = PPair x y\<rparr>)\<rparr>"

lemma symtab_ok_put_pair:
  assumes "symtab_ok st" and "pair_at st b u v" and "valid_obj st x" and "valid_obj st y"
  shows "symtab_ok (put_pair b x y st)"
proof -
  have wf: "wf_heap (put_pair b x y st)"
    using wf_heap_update [OF symtab_okD(1) [OF assms(1)] assms(2), of "\<lparr>obj_type = NAVI_PAIR, obj_data = PPair x y\<rparr>"]
      assms(3,4) by simp
  have sym: "symbol_at (put_pair b x y st) a s True \<longleftrightarrow> symbol_at st a s True" for a s
    using assms(2) by auto
  have name: "name_at (put_pair b x y st) = name_at st"
    using assms(2) by (auto simp: name_at_def)
  show ?thesis
    using assms(1) wf unfolding symtab_ok_def sym name by simp
qed

lemma hext_put_pair: "pair_at st b u v \<Longrightarrow> hext st (put_pair b x y st)"
  by (simp add: hext_def)

lemma keeps_put_pair: "pair_at st b u v \<Longrightarrow> b \<in> A \<Longrightarrow> keeps A st (put_pair b x y st)"
  by (auto simp: keeps_def)

context text_source begin

text \<open>\<open>built B st st'\<close>: nothing that was there changed but the pairs \<open>B\<close> and the port's objects.\<close>

definition built :: "addr set \<Rightarrow> state \<Rightarrow> state \<Rightarrow> bool" where
  "built B st st' \<longleftrightarrow> good st' \<and> keeps (B \<union> own) st st' \<and> hext st st'"

lemma built_trans: "built B a b \<Longrightarrow> built B b c \<Longrightarrow> built B a c"
  by (auto simp: built_def intro: keeps_trans hext_trans)

lemma built_mono: "built B a b \<Longrightarrow> B \<subseteq> C \<Longrightarrow> built C a b"
  unfolding built_def by (metis Un_mono keeps_mono order_refl)

lemma grew_built: "grew a b \<longleftrightarrow> built {} a b"
  by (simp add: grew_def built_def)

lemma built_good: "built B a b \<Longrightarrow> good b"
  by (simp add: built_def)

lemma built_keeps: "built B a b \<Longrightarrow> B \<subseteq> A \<Longrightarrow> own \<subseteq> A \<Longrightarrow> keeps A a b"
  by (auto simp: built_def elim: keeps_mono)

lemma built_fresh: "built (insert c B) st st' \<Longrightarrow> heap st c = None \<Longrightarrow> built B st st'"
  unfolding built_def by (metis Un_insert_left keeps_fresh)

lemma built_pair: "built B st st' \<Longrightarrow> pair_at st b x y \<Longrightarrow> b \<notin> B \<Longrightarrow> b \<notin> own \<Longrightarrow> pair_at st' b x y"
  by (simp add: built_def keeps_def)

lemma put_pair_built:
  assumes "good st" and "left cs st" and "pair_at st b u v" and "valid_obj st x" and "valid_obj st y" and "b \<notin> own"
  shows "built {b} st (put_pair b x y st)" and "left cs (put_pair b x y st)"
proof -
  show "built {b} st (put_pair b x y st)"
    using assms symtab_ok_put_pair [of st b u v x y] hext_put_pair [OF assms(3)] keeps_put_pair [OF assms(3)]
    by (simp add: built_def good_def)
  show "left cs (put_pair b x y st)" by (rule left_frame [OF assms(2)]) (use assms(6) in auto)
qed

text \<open>Guards change the scopes only.\<close>

lemma scope_change:
  assumes "good st" and "left cs st" and "scopes st' (lexical env) \<noteq> None"
    and "heap st' = heap st" and "hp_next st' = hp_next st" and "symbol_table st' = symbol_table st" and "streams st' = streams st"
  shows "built {} st st'" and "left cs st'"
proof -
  have "valid_obj st' x = valid_obj st x" for x by (simp add: valid_obj_def assms(4))
  then have "wf_heap st' = wf_heap st" by (simp add: wf_heap_def assms(4,5))
  moreover have "name_at st' = name_at st" by (rule ext) (simp add: name_at_def assms(4))
  ultimately have "symtab_ok st' = symtab_ok st" unfolding symtab_ok_def assms(4,6) by simp
  then show "built {} st st'" using assms by (simp add: built_def good_def keeps_def hext_def)
  show "left cs st'" by (rule left_frame [OF assms(2)]) (simp_all add: assms)
qed

lemma immediate_Ref: "\<not> navi_is_immediate (obj_word (Ref a))"
  using low_bits [OF low_ref [of "Suc a"]] by (simp add: navi_is_immediate_def and_3_bits obj_word_def)

lemma guard_run:
  assumes "good st" and "left cs st"
  shows "\<exists>g st'. navi_gc_guard (Ref c) env st n = (Inr (Some (lexical env, g)), st') \<and> built {} st st' \<and> left cs st' \<and>
    heap st' = heap st"
proof -
  obtain sc where sc: "scopes st (lexical env) = Some sc" using assms(1) by (auto simp: good_def)
  let ?g = "guard_next st"
  let ?st = "st\<lparr>guard_next := Suc ?g,
    scopes := (scopes st)(lexical env \<mapsto> sc\<lparr>guards := (?g, Ref c) # guards sc\<rparr>)\<rparr>"
  have "navi_gc_guard (Ref c) env st n = (Inr (Some (lexical env, ?g)), ?st)"
    using sc by (simp add: navi_gc_guard_def immediate_Ref bind_run update_scope_def deref_scope_def put_scope_def)
  moreover have "built {} st ?st" "left cs ?st" by (rule scope_change [OF assms]; simp)+
  ultimately show ?thesis by auto
qed

lemma unguard_run:
  assumes "good st" and "left cs st"
  shows "\<exists>st'. navi_gc_unguard (Some (lexical env, g)) st n = (Inr (), st') \<and> built {} st st' \<and> left cs st' \<and> heap st' = heap st"
proof -
  obtain sc where sc: "scopes st (lexical env) = Some sc" using assms(1) by (auto simp: good_def)
  let ?st = "st\<lparr>scopes := (scopes st)(lexical env \<mapsto> sc\<lparr>guards := filter (\<lambda>(h, _). h \<noteq> g) (guards sc)\<rparr>)\<rparr>"
  have "navi_gc_unguard (Some (lexical env, g)) st n = (Inr (), ?st)"
    using sc by (simp add: navi_gc_unguard_def bind_run update_scope_def deref_scope_def put_scope_def)
  moreover have "built {} st ?st" "left cs ?st" by (rule scope_change [OF assms]; simp)+
  ultimately show ?thesis by auto
qed

text \<open>Adding an element: a fresh pair, linked after the last one.\<close>

lemma add_first:
  assumes "good st" and "left cs st" and "valid_obj st x"
  shows "\<exists>g st'. add_element None x env st n = (Inr (Some ((Ref (hp_next st), Ref (hp_next st)), Some (lexical env, g))), st') \<and>
    built {} st st' \<and> left cs st' \<and> pair_at st' (hp_next st) x VoidO"
proof -
  note wf = good_wf [OF assms(1)]
  let ?c = "hp_next st"
  define st1 where "st1 = alloc_st NAVI_PAIR (PPair VoidO VoidO) st"
  have b1: "built {} st st1" unfolding st1_def grew_built [symmetric] by (rule good_alloc [OF assms(1)]) simp_all
  have l1: "left cs st1" unfolding st1_def by (rule left_alloc [OF assms(2) wf])
  obtain g st2 where 2: "navi_gc_guard (Ref ?c) env st1 n = (Inr (Some (lexical env, g)), st2)" "built {} st1 st2"
    "left cs st2" "heap st2 = heap st1"
    using guard_run [OF built_good [OF b1] l1] by blast
  have p2: "pair_at st2 ?c VoidO VoidO" by (simp add: 2(4) st1_def heap_alloc_st)
  have own: "?c \<notin> own" using own_objects [OF assms(2)] wf_heap_fresh [OF wf] by fastforce
  have v: "valid_obj st2 x"
    using assms(3) b1 2(2) valid_obj_hext by (auto simp: built_def)
  note p = put_pair_built [OF built_good [OF 2(2)] 2(3) p2 v valid_obj_imm(1) own]
  have "add_element None x env st n =
      (Inr (Some ((Ref ?c, Ref ?c), Some (lexical env, g))), put_pair ?c x VoidO st2)"
    using 2(1) p2
    by (simp add: add_element_def navi_make_empty_pair_def make_object_run set_tail_def bind_run st1_def)
  moreover have "built {} st (put_pair ?c x VoidO st2)"
    using built_trans [OF built_mono [OF built_trans [OF b1 2(2)]] p(1)]
    by (rule built_fresh) (use wf_heap_fresh [OF wf] in simp_all)
  ultimately show ?thesis using p(2) by auto
qed

lemma add_next:
  assumes "good st" and "left cs st" and "valid_obj st x" and "pair_at st b y z" and "b \<notin> own"
  shows "\<exists>st'. add_element (Some ((h, Ref b), Some g)) x env st n = (Inr (Some ((h, Ref (hp_next st)), Some g)), st') \<and>
    built {b} st st' \<and> left cs st' \<and> pair_at st' (hp_next st) x VoidO \<and> pair_at st' b y (Ref (hp_next st))"
proof -
  note wf = good_wf [OF assms(1)]
  let ?c = "hp_next st"
  define st1 where "st1 = alloc_st NAVI_PAIR (PPair VoidO VoidO) st"
  have b1: "built {} st st1" unfolding st1_def grew_built [symmetric] by (rule good_alloc [OF assms(1)]) simp_all
  have l1: "left cs st1" unfolding st1_def by (rule left_alloc [OF assms(2) wf])
  have ne: "b \<noteq> ?c" using wf_heap_fresh [OF wf] assms(4) by auto
  have p1: "pair_at st1 ?c VoidO VoidO" "pair_at st1 b y z"
    using assms(4) ne by (simp_all add: st1_def heap_alloc_st)
  have own: "?c \<notin> own" using own_objects [OF assms(2)] wf_heap_fresh [OF wf] by fastforce
  have vy: "valid_obj st1 y" using wf_heapD(3) [OF good_wf [OF built_good [OF b1]] p1(2)] by simp
  have vc: "valid_obj st1 (Ref ?c)" using p1(1) by simp
  note q = put_pair_built [OF built_good [OF b1] l1 p1(2) vy vc assms(5)]
  define st2 where "st2 = put_pair b y (Ref ?c) st1"
  have p2: "pair_at st2 ?c VoidO VoidO" "pair_at st2 b y (Ref ?c)" using p1 ne by (simp_all add: st2_def)
  have v: "valid_obj st2 x"
    using assms(3) b1 q(1) valid_obj_hext by (auto simp: built_def st2_def)
  note p = put_pair_built [OF built_good [OF q(1), folded st2_def] q(2) [folded st2_def] p2(1) v valid_obj_imm(1) own]
  have "add_element (Some ((h, Ref b), Some g)) x env st n =
      (Inr (Some ((h, Ref ?c), Some g)), put_pair ?c x VoidO st2)"
    using p1 p2
    by (simp add: add_element_def navi_make_empty_pair_def make_object_run set_tail_def bind_run st1_def st2_def)
  moreover have "built {?c, b} st (put_pair ?c x VoidO st2)"
    by (rule built_trans [OF built_trans [OF built_mono [OF b1] built_mono [OF q(1), folded st2_def]] built_mono [OF p(1)]]) auto
  then have "built {b} st (put_pair ?c x VoidO st2)"
    by (rule built_fresh) (use wf_heap_fresh [OF wf] in simp)
  ultimately show ?thesis using p(2) p2(2) ne by auto
qed

end

section \<open>Data that are read back\<close>

text \<open>
  The data that \<open>write\<close> prints in a form that \<open>read\<close> takes: fixnums have 63 bits; characters are ASCII,
  but the literals of the two parentheses, of vertical tab and of form feed are not read; a string
  literal has room for 64 characters and no escapes; a symbol is spelled so that no other token starts
  like it; and a vector fits in memory.  The code writes other data too, but does not read them back.
\<close>

fun readable :: "sexp \<Rightarrow> bool" where
  "readable SNil = True"
| "readable (SFix i) = (- (2 ^ 62) \<le> i \<and> i < 2 ^ 62)"
| "readable (SBool b) = True"
| "readable (SChar c) = readable_char c"
| "readable (SString t) = (plain_text t \<and> length t \<le> 64)"
| "readable (SSymbol name) = symbol_text name"
| "readable (SCons d e) = (readable d \<and> readable e)"
| "readable (SVector ds) = (list_all readable ds \<and> length ds < 2 ^ 59)"

text \<open>The text of a datum does not start with a blank or with a character that ends a list.\<close>

definition datum_start :: "char \<Rightarrow> bool" where
  "datum_start c \<longleftrightarrow> \<not> space_char c \<and> c \<noteq> CHR '')'' \<and> c \<noteq> CHR ''.'' \<and> c \<noteq> CHR '';''"

lemma digit_start: "digit_chr c \<Longrightarrow> datum_start c"
  by (auto simp: datum_start_def digit_chr_def space_char_def char_code_lits)

lemma fmt_ld_start: "fmt_ld i \<noteq> CHR ''#'' # cs"
proof -
  obtain c ds where "digits 10 (nat i) = c # ds" "digit_chr c"
    using digits_nonempty [of "nat i"] digits_digit_chr [of _ "nat i"] by (cases "digits 10 (nat i)") auto
  then show ?thesis by (auto simp: fmt_ld_def digit_chr_def char_code_lits)
qed

lemma render_start:
  assumes "readable d"
  obtains c cs where "render True d = c # cs" and "datum_start c"
proof -
  have "\<exists>c cs. render True d = c # cs \<and> datum_start c"
  proof (cases d)
    case (SFix i)
    obtain k where "fmt_ld i = digits 10 k \<or> fmt_ld i = CHR ''-'' # digits 10 k"
      by (cases "i < 0") (auto simp: fmt_ld_def)
    then show ?thesis
      using SFix digits_nonempty [of k] digits_digit_chr [of _ k] digit_start
      by (cases "digits 10 k") (auto simp: datum_start_def space_char_def char_code_lits)
  next
    case (SSymbol name)
    then show ?thesis using assms by (cases name) (auto simp: symbol_text_def datum_start_def terminal_char_def)
  qed (auto simp: datum_start_def space_char_def char_code_lits write_char_text_def)
  then show ?thesis using that by blast
qed

lemma render_tail_start: "\<exists>c cs. render_tail True e = c # cs \<and> terminal_char c"
  by (cases e) (auto simp: render_tail.simps terminal_char_def space_char_def char_code_lits)

lemma render_tail_delimited: "delimited (render_tail True e @ rest)"
  using render_tail_start [of e] by (auto simp: delimited_def)

context text_source begin

text \<open>
  \<open>reader_ok m sharp rd n\<close>: the two readers read every datum whose text, with what follows it, is
  at most \<open>m\<close> characters long.
\<close>

definition reader_ok :: "nat \<Rightarrow> readf \<Rightarrow> readf \<Rightarrow> nat \<Rightarrow> bool" where
  "reader_ok m sharp rd n \<longleftrightarrow> (\<forall>d rest st. readable d \<longrightarrow> delimited rest \<longrightarrow> good st \<longrightarrow>
     (\<forall>sp. (\<forall>c \<in> set sp. space_char c) \<longrightarrow> length (sp @ render True d @ rest) \<le> m \<longrightarrow>
        left (sp @ render True d @ rest) st \<longrightarrow> reads_datum (rd port env) d rest st n) \<and>
     (hd (render True d) = CHR ''#'' \<longrightarrow> length (tl (render True d) @ rest) \<le> m \<longrightarrow>
        left (tl (render True d) @ rest) st \<longrightarrow> reads_datum (sharp port env) d rest st n))"

lemma reader_okD:
  assumes "reader_ok m sharp rd n" and "readable d" and "delimited rest" and "good st"
  shows "\<forall>c \<in> set sp. space_char c \<Longrightarrow> length (sp @ render True d @ rest) \<le> m \<Longrightarrow>
      left (sp @ render True d @ rest) st \<Longrightarrow> reads_datum (rd port env) d rest st n"
    and "render True d = CHR ''#'' # cs \<Longrightarrow> length (cs @ rest) \<le> m \<Longrightarrow> left (cs @ rest) st \<Longrightarrow>
      reads_datum (sharp port env) d rest st n"
  using assms unfolding reader_ok_def by (blast, metis list.sel(1,3))

lemma reads_datum_grew:
  assumes "grew st st1" and "reads_datum m d rest st1 n"
  obtains x st2 where "m st1 n = (Inr x, st2)" "left rest st2" "holds (old st) st2 x d" "grew st st2"
proof -
  obtain x st2 where 2: "m st1 n = (Inr x, st2)" "left rest st2" "holds (old st1) st2 x d" "grew st1 st2"
    using assms(2) by (auto simp: reads_datum_def)
  moreover have "holds (old st) st2 x d"
    using assms(1) by (intro holds_mono [OF 2(3)] old_hext) (simp add: grew_def)
  ultimately show ?thesis using that grew_trans [OF assms(1)] by blast
qed

lemma gives_ipeek_first:
  assumes "left (sp @ c # cs) st" and "\<forall>c \<in> set sp. space_char c" and "\<not> space_char c" and "length sp < n"
  shows "gives (ipeek_first_char port env) (char_code c) (c # cs) st n"
  unfolding ipeek_first_char_def
  by (rule gives_bind [OF gives_first [OF assms(1,2) _ assms(4)]]) (use assms(3) in \<open>simp_all add: gives_ret at_left\<close>)

text \<open>One round of \<open>read_list\<close> that reads an element.\<close>

lemma element_read:
  assumes ok: "reader_ok m sharp rd n" and d: "readable d" "delimited rest"
    and st: "good st" "left (sp @ render True d @ rest) st" "length (sp @ render True d @ rest) \<le> m"
    and sp: "\<forall>c \<in> set sp. space_char c" "length sp < n"
  shows "\<exists>x st'. read_list_rounds sharp rd (Suc k) acc port env st n =
      bind (add_element acc x env) (\<lambda>acc. read_list_rounds sharp rd k acc port env) st' n \<and>
    left rest st' \<and> holds (old st) st' x d \<and> grew st st'"
proof -
  obtain c cs where c: "render True d = c # cs" "datum_start c" using d(1) by (rule render_start)
  have "gives (ipeek_first_char port env) (char_code c) (render True d @ rest) st n"
    using gives_ipeek_first [OF _ sp(1) _ sp(2), of c "cs @ rest" st] st(2) c by (simp add: datum_start_def)
  then obtain st1 where 1: "ipeek_first_char port env st n = (Inr (char_code c), st1)" "at (render True d @ rest) st st1"
    by (auto simp: gives_def)
  note l1 = at_left [OF 1(2)] and g1 = at_grew [OF st(1) 1(2)]
  have code: "to_char (char_code c) = char_code c" using to_char_front [OF left_ascii [OF l1]] c(1) by simp
  have ne: "c \<noteq> CHR '')''" "c \<noteq> CHR ''.''" "c \<noteq> CHR '';''" using c(2) by (simp_all add: datum_start_def)
  show ?thesis
  proof (cases "c = CHR ''#''")
    case True
    from gives_read [OF l1, of n] obtain st2 where 2: "read_char port env st1 n = (Inr (char_code c), st2)"
      "at (cs @ rest) st1 st2" using c(1) by (auto simp: gives_def)
    note g2 = grew_trans [OF g1 at_grew [OF grew_good [OF g1] 2(2)]]
    have "reads_datum (sharp port env) d rest st2 n"
      by (rule reader_okD(2) [OF ok d grew_good [OF g2], of cs]) (use True c(1) st(3) at_left [OF 2(2)] in auto)
    then obtain x st3 where 3: "sharp port env st2 n = (Inr x, st3)" "left rest st3" "holds (old st) st3 x d" "grew st st3"
      by (rule reads_datum_grew [OF g2])
    obtain t where t: "navi_type x st3 n = (Inr t, st3)" "t \<noteq> NAVI_VOID" using holds_type [OF 3(3)] by blast
    have "read_list_rounds sharp rd (Suc k) acc port env st n =
        bind (add_element acc x env) (\<lambda>acc. read_list_rounds sharp rd k acc port env) st3 n"
      using 1(1) 2(1) 3(1) t code True
      by (simp add: bind_run [where m = "ipeek_first_char port env"] bind_run [where m = "read_char port env"]
          bind_run [where m = "sharp port env"] bind_run [where m = "navi_type x"] char_code_lits)
    with 3 show ?thesis by blast
  next
    case False
    have "reads_datum (rd port env) d rest st1 n"
      by (rule reader_okD(1) [OF ok d grew_good [OF g1], of "[]"]) (use l1 st(3) in auto)
    then obtain x st3 where 3: "rd port env st1 n = (Inr x, st3)" "left rest st3" "holds (old st) st3 x d" "grew st st3"
      by (rule reads_datum_grew [OF g1])
    have "navi_iread rd port env st1 n = (Inr x, st3)"
      using 3(1) holds_type [OF 3(3), of n] by (auto simp: navi_iread_def bind_run navi_make_eof_def)
    then have "read_list_rounds sharp rd (Suc k) acc port env st n =
        bind (add_element acc x env) (\<lambda>acc. read_list_rounds sharp rd k acc port env) st3 n"
      using 1(1) code False ne
      by (simp add: bind_run [where m = "ipeek_first_char port env"]
          bind_run [where m = "navi_iread rd port env"] code_lit)
    with 3 show ?thesis by blast
  qed
qed

text \<open>The rounds of \<open>read_list\<close> after the first element, up to the closing parenthesis.\<close>

definition list_end :: "readf \<Rightarrow> readf \<Rightarrow> nat \<Rightarrow> list_acc \<Rightarrow> navi_obj \<Rightarrow> addr \<Rightarrow> navi_obj \<Rightarrow> sexp \<Rightarrow>
    string \<Rightarrow> state \<Rightarrow> nat \<Rightarrow> bool" where
  "list_end sharp rd k acc h b y e rest st n \<longleftrightarrow>
     (\<exists>st' z. read_list_rounds sharp rd k acc port env st n = (Inr h, st') \<and> left rest st' \<and>
       built {b} st st' \<and> pair_at st' b y z \<and> holds (old st) st' z e)"

lemma list_nil:
  assumes "good st" and "left (CHR '')'' # rest) st" and "pair_at st b y z" and "b \<notin> own" and "0 < n"
  shows "list_end sharp rd (Suc k) (Some ((h, Ref b), Some (lexical env, g))) h b y SNil rest st n"
proof -
  from gives_ipeek_first [of "[]" "CHR '')''" rest st n] assms(2,5) obtain st1 where
    1: "ipeek_first_char port env st n = (Inr 41, st1)" "at (CHR '')'' # rest) st st1"
    by (auto simp: gives_def space_char_def char_code_lits)
  from gives_read [OF at_left [OF 1(2)], of n] obtain st2 where
    2: "read_char port env st1 n = (Inr 41, st2)" "at rest st1 st2" by (auto simp: gives_def char_code_lits)
  note a2 = at_trans [OF 1(2) 2(2)]
  note g2 = at_grew [OF assms(1) a2] and l2 = at_left [OF a2]
  have p2: "pair_at st2 b y z" by (rule built_pair [OF g2 [unfolded grew_built] assms(3) _ assms(4)]) simp
  have "valid_obj st2 y" using wf_heapD(3) [OF good_wf [OF grew_good [OF g2]] p2] by simp
  note p = put_pair_built [OF grew_good [OF g2] l2 p2 this valid_obj_imm(2) assms(4)]
  from unguard_run [OF built_good [OF p(1)] p(2), of g n] obtain st4 where
    4: "navi_gc_unguard (Some (lexical env, g)) (put_pair b y NilO st2) n = (Inr (), st4)"
      "built {} (put_pair b y NilO st2) st4" "left rest st4" "heap st4 = heap (put_pair b y NilO st2)" by blast
  have "read_list_rounds sharp rd (Suc k) (Some ((h, Ref b), Some (lexical env, g))) port env st n = (Inr h, st4)"
    using 1(1) 2(1) 4(1) p2 by (simp add: bind_run set_tail_def to_char_small make_defs)
  moreover have "built {b} st st4"
    by (rule built_trans [OF built_trans [OF built_mono [OF g2 [unfolded grew_built]] p(1)] built_mono [OF 4(2)]]) simp_all
  moreover have "pair_at st4 b y NilO" by (simp add: 4(4))
  ultimately show ?thesis using 4(3) holds_nil by (auto simp: list_end_def)
qed

lemma list_dotted:
  assumes ok: "reader_ok m sharp rd n" and e: "readable e"
    and "good st" and l: "left ('' . '' @ render True e @ CHR '')'' # rest) st" and "pair_at st b y z" and "b \<notin> own"
    and len: "length ('' . '' @ render True e @ CHR '')'' # rest) \<le> m" and "1 < n"
  shows "list_end sharp rd (Suc k) (Some ((h, Ref b), g)) h b y e rest st n"
proof -
  let ?t = "CHR '' '' # render True e @ CHR '')'' # rest"
  from gives_ipeek_first [of "'' ''" "CHR ''.''" ?t st n] l assms(8) obtain st1 where
    1: "ipeek_first_char port env st n = (Inr 46, st1)" "at (CHR ''.'' # ?t) st st1"
    by (auto simp: gives_def space_char_def char_code_lits)
  from gives_read [OF at_left [OF 1(2)], of n] obtain st2 where
    2: "read_char port env st1 n = (Inr 46, st2)" "at ?t st1 st2" by (auto simp: gives_def char_code_lits)
  from gives_ipeek [OF at_left [OF 2(2)], of n] obtain st3 where
    3: "ipeek_char port env st2 n = (Inr 32, st3)" "at ?t st2 st3" by (auto simp: gives_def char_code_lits)
  note a3 = at_trans [OF at_trans [OF 1(2) 2(2)] 3(2)]
  note g3 = at_grew [OF assms(3) a3]
  have blank: "isterminal 32 env = ret True"
    using isterminal_front [of "'' ''" env] by (simp add: char_code_lits delimited_def terminal_char_def space_char_def)
  have "reads_datum (rd port env) e (CHR '')'' # rest) st3 n"
    by (rule reader_okD(1) [OF ok e _ grew_good [OF g3], where sp = "'' ''"])
      (use at_left [OF a3] len in \<open>auto simp: delimited_def terminal_char_def space_char_def char_code_lits\<close>)
  then obtain x st4 where 4: "rd port env st3 n = (Inr x, st4)" "left (CHR '')'' # rest) st4"
    "holds (old st) st4 x e" "grew st st4" by (rule reads_datum_grew [OF g3])
  have p4: "pair_at st4 b y z" by (rule built_pair [OF 4(4) [unfolded grew_built] assms(5) _ assms(6)]) simp
  have v: "valid_obj st4 y" "valid_obj st4 x"
    using wf_heapD(3) [OF good_wf [OF grew_good [OF 4(4)]] p4] holds_valid [OF 4(3)] by simp_all
  note p = put_pair_built [OF grew_good [OF 4(4)] 4(2) p4 v assms(6)]
  let ?st = "put_pair b y x st4"
  from gives_first [of "[]" "CHR '')'' # rest" ?st n] p(2) assms(8) obtain st5 where
    5: "peek_first_char port env ?st n = (Inr 41, st5)" "at (CHR '')'' # rest) ?st st5"
    by (auto simp: gives_def space_char_def char_code_lits)
  from gives_read [OF at_left [OF 5(2)], of n] obtain st6 where
    6: "read_char port env st5 n = (Inr 41, st6)" "at rest st5 st6" by (auto simp: gives_def char_code_lits)
  note a6 = at_trans [OF 5(2) 6(2)]
  note g6 = at_grew [OF built_good [OF p(1)] a6]
  have "read_list_rounds sharp rd (Suc k) (Some ((h, Ref b), g)) port env st n = (Inr h, st6)"
    using 1(1) 2(1) 3(1) 4(1) 5(1) 6(1) p4 blank
    by (simp add: bind_run set_tail_def to_char_small)
  moreover have b6: "built {b} st st6"
    by (rule built_trans [OF built_trans [OF built_mono [OF 4(4) [unfolded grew_built]] p(1)]
          built_mono [OF g6 [unfolded grew_built]]]) simp_all
  moreover have "pair_at st6 b y x"
    by (rule built_pair [OF g6 [unfolded grew_built] _ _ assms(6)]) simp_all
  moreover have "holds (old st) st6 x e"
  proof (rule holds_keeps [OF 4(3)])
    have "own \<subseteq> old st" using own_old l by blast
    moreover have "b \<in> old st" using assms(5) by (auto simp: old_def)
    moreover have "built {b} st4 st6" by (rule built_trans [OF p(1) built_mono [OF g6 [unfolded grew_built]]]) simp
    ultimately show "keeps (old st) st4 st6" by (elim built_keeps) auto
  qed
  ultimately show ?thesis using at_left [OF a6] by (auto simp: list_end_def)
qed

lemma list_tail:
  assumes ok: "reader_ok m sharp rd n"
  shows "readable e \<Longrightarrow> good st \<Longrightarrow> left (render_tail True e @ rest) st \<Longrightarrow> pair_at st b y z \<Longrightarrow> b \<notin> own \<Longrightarrow>
    length (render_tail True e @ rest) \<le> m \<Longrightarrow> length (render_tail True e @ rest) < k \<Longrightarrow>
    length (render_tail True e @ rest) < n \<Longrightarrow>
    list_end sharp rd k (Some ((h, Ref b), Some (lexical env, g))) h b y e rest st n"
proof (induction k arbitrary: e st b y z)
  case (Suc k)
  let ?acc = "Some ((h, Ref b), Some (lexical env, g))"
  consider (nil) "e = SNil" | (cell) d f where "e = SCons d f" | (other) "\<forall>d f. e \<noteq> SCons d f" "e \<noteq> SNil" by blast
  then show ?case
  proof cases
    case nil
    then show ?thesis
      using list_nil [OF Suc.prems(2) _ Suc.prems(4,5)] Suc.prems(3,8) by (simp add: render_tail.simps)
  next
    case other
    then have shown: "render_tail True e = '' . '' @ render True e @ '')''" by (cases e) (simp_all add: render_tail.simps)
    then show ?thesis
      using list_dotted [OF ok Suc.prems(1,2) _ Suc.prems(4,5), of rest k h "Some (lexical env, g)"] Suc.prems(3,6,8)
      by simp
  next
    case cell
    then have shown: "render_tail True e @ rest = '' '' @ render True d @ (render_tail True f @ rest)"
      by (simp add: render_tail.simps)
    have d: "readable d" and f: "readable f" using Suc.prems(1) cell by simp_all
    let ?rest = "render_tail True f @ rest"
    obtain t ts where ts: "render_tail True f = t # ts" using render_tail_start by blast
    from element_read [OF ok d render_tail_delimited Suc.prems(2), of "'' ''" f rest k ?acc]
      Suc.prems(3,6,8) shown obtain x st1 where
      1: "read_list_rounds sharp rd (Suc k) ?acc port env st n =
        bind (add_element ?acc x env) (\<lambda>acc. read_list_rounds sharp rd k acc port env) st1 n"
        "left ?rest st1" "holds (old st) st1 x d" "grew st st1"
      by (auto simp: space_char_def char_code_lits simp del: read_list_rounds.simps)
    note g1 = grew_good [OF 1(4)]
    let ?c = "hp_next st1"
    have p1: "pair_at st1 b y z" by (rule built_pair [OF 1(4) [unfolded grew_built] Suc.prems(4) _ Suc.prems(5)]) simp
    from add_next [OF g1 1(2) holds_valid [OF 1(3)] p1 Suc.prems(5), of h "(lexical env, g)" n] obtain st2 where
      2: "add_element ?acc x env st1 n = (Inr (Some ((h, Ref ?c), Some (lexical env, g))), st2)" "built {b} st1 st2"
        "left ?rest st2" "pair_at st2 ?c x VoidO" "pair_at st2 b y (Ref ?c)" by blast
    have fresh: "heap st1 ?c = None" by (rule wf_heap_fresh [OF good_wf [OF g1]])
    have cown: "?c \<notin> own" using own_objects [OF 1(2)] fresh by fastforce
    have "list_end sharp rd k (Some ((h, Ref ?c), Some (lexical env, g))) h ?c x f rest st2 n"
      by (rule Suc.IH [OF f built_good [OF 2(2)] 2(3,4) cown]) (use Suc.prems(6-8) shown in simp_all)
    then obtain st3 w where 3: "read_list_rounds sharp rd k (Some ((h, Ref ?c), Some (lexical env, g))) port env st2 n = (Inr h, st3)"
      "left rest st3" "built {?c} st2 st3" "pair_at st3 ?c x w" "holds (old st2) st3 w f" by (auto simp: list_end_def)
    have "read_list_rounds sharp rd (Suc k) ?acc port env st n = (Inr h, st3)"
      unfolding 1(1) using 2(1) 3(1) by simp
    moreover have b: "built {b} st st3"
    proof -
      have "built {?c, b} st1 st3" by (rule built_trans [OF built_mono [OF 2(2)] built_mono [OF 3(3)]]) auto
      then have "built {b} st1 st3" using fresh by (rule built_fresh)
      then show ?thesis using built_trans [OF built_mono [OF 1(4) [unfolded grew_built]]] by simp
    qed
    moreover have ne: "b \<noteq> ?c" using p1 fresh by auto
    then have "pair_at st3 b y (Ref ?c)" using built_pair [OF 3(3) 2(5) _ Suc.prems(5)] by simp
    moreover have "holds (old st) st3 (Ref ?c) (SCons d f)"
    proof (rule holds_pair [OF _ 3(4)])
      have old12: "old st \<subseteq> old st1" and old23: "old st1 \<subseteq> old st2"
        using 1(4) 2(2) by (auto simp: grew_def built_def dest: old_hext)
      show "?c \<notin> old st" using old12 fresh by (auto simp: old_def)
      show "holds (old st) st3 w f" by (rule holds_mono [OF 3(5)]) (use old12 old23 in blast)
      have "own \<subseteq> old st" using own_old Suc.prems(3) by blast
      moreover have "b \<in> old st" using Suc.prems(4) by (auto simp: old_def)
      moreover have "built {?c, b} st1 st3" by (rule built_trans [OF built_mono [OF 2(2)] built_mono [OF 3(3)]]) auto
      ultimately have "keeps (insert ?c (old st)) st1 st3" by (elim built_keeps) auto
      then show "holds (old st) st3 x d"
        using fresh by (intro holds_keeps [OF 1(3)]) (rule keeps_fresh)
    qed
    ultimately show ?thesis using 3(2) cell by (auto simp: list_end_def simp del: read_list_rounds.simps)
  qed
qed simp

text \<open>A list that has an element, after its opening parenthesis; and one that has none.\<close>

lemma reads_list:
  assumes ok: "reader_ok m sharp rd n" and "readable (SCons d f)" and "good st"
    and l: "left (render True d @ render_tail True f @ rest) st"
    and len: "length (render True d @ render_tail True f @ rest) \<le> m"
    and n: "length (render True d @ render_tail True f @ rest) < n"
  shows "reads_datum (read_list sharp rd port env) (SCons d f) rest st n"
proof -
  have d: "readable d" and f: "readable f" using assms(2) by simp_all
  let ?rest = "render_tail True f @ rest"
  obtain k where k: "n = Suc k" using n by (cases n) auto
  obtain c0 cs0 where c0: "render True d = c0 # cs0" using d by (rule render_start)
  from element_read [OF ok d render_tail_delimited assms(3), of "[]" f rest k None] l len n
  obtain x st1 where
    1: "read_list_rounds sharp rd (Suc k) None port env st n =
        bind (add_element None x env) (\<lambda>acc. read_list_rounds sharp rd k acc port env) st1 n"
      "left ?rest st1" "holds (old st) st1 x d" "grew st st1"
    by (auto simp del: read_list_rounds.simps)
  note g1 = grew_good [OF 1(4)]
  let ?c = "hp_next st1"
  from add_first [OF g1 1(2) holds_valid [OF 1(3)], of n] obtain g st2 where
    2: "add_element None x env st1 n = (Inr (Some ((Ref ?c, Ref ?c), Some (lexical env, g))), st2)"
      "built {} st1 st2" "left ?rest st2" "pair_at st2 ?c x VoidO" by blast
  have fresh: "heap st1 ?c = None" by (rule wf_heap_fresh [OF good_wf [OF g1]])
  have cown: "?c \<notin> own" using own_objects [OF 1(2)] fresh by fastforce
  have "list_end sharp rd k (Some ((Ref ?c, Ref ?c), Some (lexical env, g))) (Ref ?c) ?c x f rest st2 n"
    by (rule list_tail [OF ok f built_good [OF 2(2)] 2(3,4) cown]) (use len n k c0 in simp_all)
  then obtain st3 w where 3: "read_list_rounds sharp rd k (Some ((Ref ?c, Ref ?c), Some (lexical env, g))) port env st2 n = (Inr (Ref ?c), st3)"
    "left rest st3" "built {?c} st2 st3" "pair_at st3 ?c x w" "holds (old st2) st3 w f" by (auto simp: list_end_def)
  have "read_list sharp rd port env st n = (Inr (Ref ?c), st3)"
    using 1(1) 2(1) 3(1) by (simp add: read_list_def k del: read_list_rounds.simps)
  moreover have "built {} st1 st3"
    by (rule built_fresh [OF built_trans [OF built_mono [OF 2(2)] 3(3)] fresh]) simp
  then have "grew st st3" using 1(4) unfolding grew_built by (rule built_trans [rotated])
  moreover have "holds (old st) st3 (Ref ?c) (SCons d f)"
  proof (rule holds_pair [OF _ 3(4)])
    have old12: "old st \<subseteq> old st1" and old23: "old st1 \<subseteq> old st2"
      using 1(4) 2(2) by (auto simp: grew_def built_def dest: old_hext)
    show "?c \<notin> old st" using old12 fresh by (auto simp: old_def)
    show "holds (old st) st3 w f" by (rule holds_mono [OF 3(5)]) (use old12 old23 in blast)
    have "own \<subseteq> old st" using own_old l by blast
    moreover have "built {?c} st1 st3" by (rule built_trans [OF built_mono [OF 2(2)] 3(3)]) simp
    ultimately have "keeps (insert ?c (old st)) st1 st3" by (elim built_keeps) auto
    then show "holds (old st) st3 x d"
      using fresh by (intro holds_keeps [OF 1(3)]) (rule keeps_fresh)
  qed
  ultimately show ?thesis using 3(2) by (auto simp: reads_datum_def)
qed

lemma reads_empty_list:
  assumes "good st" and "left (CHR '')'' # rest) st" and "0 < n"
  shows "reads_datum (read_list sharp rd port env) SNil rest st n"
proof -
  obtain k where k: "n = Suc k" using assms(3) by (cases n) auto
  have "gives (ipeek_first_char port env) 41 (CHR '')'' # rest) st n"
    using gives_ipeek_first [of "[]" "CHR '')''" rest st n] assms(2,3) by (simp add: space_char_def char_code_lits)
  then obtain st1 where 1: "ipeek_first_char port env st n = (Inr 41, st1)" "at (CHR '')'' # rest) st st1"
    by (auto simp: gives_def)
  from gives_read [OF at_left [OF 1(2)], of n] obtain st2 where
    2: "read_char port env st1 n = (Inr 41, st2)" "at rest st1 st2" by (auto simp: gives_def char_code_lits)
  note a2 = at_trans [OF 1(2) 2(2)]
  have "read_list sharp rd port env st n = (Inr NilO, st2)"
    using 1(1) 2(1) by (simp add: read_list_def k bind_run set_tail_def to_char_small navi_gc_unguard_def make_defs)
  then show ?thesis
    using at_left [OF a2] at_grew [OF assms(1) a2] holds_nil by (auto simp: reads_datum_def)
qed

end

text \<open>A vector: the list of its elements, turned into a vector.\<close>

definition slist :: "sexp list \<Rightarrow> sexp" where
  "slist ds = foldr SCons ds SNil"

lemma slist_simps [simp]: "slist [] = SNil" "slist (d # ds) = SCons d (slist ds)"
  by (simp_all add: slist_def)

lemma slist_cases: "slist ds = SNil \<or> (\<exists>d f. slist ds = SCons d f)"
  by (cases ds) simp_all

lemma render_tail_slist: "render_tail True (slist ds) = concat (map (\<lambda>d. '' '' @ render True d) ds) @ '')''"
  by (induction ds) (simp_all add: render_tail.simps)

lemma render_slist: "render True (SVector ds) = CHR ''#'' # render True (slist ds)"
  by (cases ds) (simp_all add: spaced_def render_tail_slist comp_def)

lemma readable_slist: "list_all readable ds \<Longrightarrow> readable (slist ds)"
  by (induction ds) simp_all

lemma length_slist: "length ds < length (render True (slist ds))"
proof -
  have "length ds \<le> length (concat (map (\<lambda>d. '' '' @ render True d) ds))" for ds
    by (induction ds) simp_all
  from this [of "tl ds"] show ?thesis by (cases ds) (simp_all add: render_tail_slist)
qed

lemma holds_slist:
  "holds A st x (slist ds) \<Longrightarrow> \<exists>xs. list_at st x xs NilO \<and> list_all2 (holds A st) xs ds"
proof (induction ds arbitrary: x)
  case Nil
  then show ?case by (auto elim!: holds_SNilE)
next
  case (Cons d ds)
  from Cons.prems obtain a y z where a: "x = Ref a" "pair_at st a y z" "holds A st y d" "holds A st z (slist ds)"
    by (auto elim: holds_SConsE)
  from Cons.IH [OF a(4)] obtain xs where "list_at st z xs NilO" "list_all2 (holds A st) xs ds" by blast
  with a show ?case by (intro exI [of _ "y # xs"]) auto
qed

context text_source begin

lemma reads_vector:
  assumes "reads_datum (read_list sharp rd port env) (slist ds) rest st n"
    and "length ds < n" and "length ds < 2 ^ 59"
  shows "reads_datum (read_vector sharp rd port env) (SVector ds) rest st n"
proof -
  obtain l st1 where 1: "read_list sharp rd port env st n = (Inr l, st1)" "left rest st1"
    "holds (old st) st1 l (slist ds)" "grew st st1"
    using assms(1) by (auto simp: reads_datum_def)
  obtain xs where xs: "list_at st1 l xs NilO" "list_all2 (holds (old st) st1) xs ds"
    using holds_slist [OF 1(3)] by blast
  note g1 = grew_good [OF 1(4)]
  note wf = good_wf [OF g1]
  have len: "length xs = length ds" by (rule list_all2_lengthD [OF xs(2)])
  let ?a = "hp_next st1"
  let ?st = "alloc_st NAVI_VECTOR (PVector (map Some xs)) st1"
  have run: "navi_list_to_vector l st1 n = (Inr (Ref ?a), ?st)"
    by (rule list_to_vector_alloc [OF wf xs(1)]) (use assms(2,3) len in simp_all)
  have g2: "grew st1 ?st"
    by (rule good_alloc [OF g1]) (use list_at_elems_valid [OF wf xs(1)] in auto)
  have fresh: "heap st1 ?a = None" by (rule wf_heap_fresh [OF wf])
  have "old st \<subseteq> old st1" using 1(4) by (simp add: grew_def old_hext)
  then have "?a \<notin> old st" using fresh by (auto simp: old_def)
  moreover have "keeps (old st) st1 ?st" by (rule keeps_same_below [OF wf same_below_alloc]) simp
  then have "list_all2 (holds (old st) ?st) xs ds" using xs(2) holds_keeps by (auto elim: list_all2_mono)
  ultimately have "holds (old st) ?st (Ref ?a) (SVector ds)"
    by (intro holds_vector [where xs = xs]) (simp_all add: heap_alloc_st)
  then show ?thesis
    using 1(1) run left_alloc [OF 1(2) wf] grew_trans [OF 1(4) g2]
    by (auto simp: reads_datum_def read_vector_def bind_run)
qed

section \<open>The reader\<close>

text \<open>The branches of the two readers that lead to a list or to a \<open>#\<close> datum.\<close>

lemma body_open:
  assumes "gives (peek_first_char port env) 40 (CHR ''('' # cs) st n" and "good st"
    and "\<And>st'. left cs st' \<Longrightarrow> good st' \<Longrightarrow> reads_datum (read_list sharp rd port env) d rest st' n"
  shows "reads_datum (navi_read_body sharp rd port env) d rest st n"
  unfolding navi_read_body_def
proof (rule reads_after [OF assms(1,2)], goal_cases)
  case (1 st1)
  show ?case by (simp, rule reads_after [OF gives_read [OF 1(1)] 1(2)]) (simp add: assms(3))
qed

lemma body_sharp:
  assumes "gives (peek_first_char port env) 35 (CHR ''#'' # cs) st n" and "good st"
    and "\<And>st'. left cs st' \<Longrightarrow> good st' \<Longrightarrow> reads_datum (sharp port env) d rest st' n"
  shows "reads_datum (navi_read_body sharp rd port env) d rest st n"
proof -
  have typed: "reads_datum (bind (sharp port env) (\<lambda>expr. bind (navi_type expr) (\<lambda>t.
      if t = NAVI_VOID then rd port env else ret expr))) d rest st' n" if st: "left cs st'" "good st'" for st'
  proof -
    obtain x st2 where 2: "sharp port env st' n = (Inr x, st2)" "left rest st2" "holds (old st') st2 x d" "grew st' st2"
      using assms(3) [OF st] by (auto simp: reads_datum_def)
    with holds_type [OF 2(3), of n] show ?thesis by (auto simp: reads_datum_def bind_run)
  qed
  show ?thesis
    unfolding navi_read_body_def
  proof (rule reads_after [OF assms(1,2)], goal_cases)
    case (1 st1)
    show ?case by (simp, rule reads_after [OF gives_read [OF 1(1)] 1(2)]) (simp add: typed)
  qed
qed

lemma body_quote:
  assumes "gives (peek_first_char port env) 34 (CHR 0x22 # cs) st n" and "good st"
    and "\<And>st'. left cs st' \<Longrightarrow> good st' \<Longrightarrow> reads_datum (read_string port env) d rest st' n"
  shows "reads_datum (navi_read_body sharp rd port env) d rest st n"
  unfolding navi_read_body_def
proof (rule reads_after [OF assms(1,2)], goal_cases)
  case (1 st1)
  show ?case by (simp, rule reads_after [OF gives_read [OF 1(1)] 1(2)]) (simp add: assms(3))
qed

lemma sharp_open:
  assumes "left (CHR ''('' # cs) st" and "good st"
    and "\<And>st'. left cs st' \<Longrightarrow> good st' \<Longrightarrow> reads_datum (read_vector sharp rd port env) d rest st' n"
  shows "reads_datum (read_sharp_body internal sharp rd port env) d rest st n"
  unfolding read_sharp_body_def
  by (rule reads_after [OF gives_iread [OF assms(1)] assms(2)])
    (simp add: Let_def to_char_small char_code_lits assms(3))

text \<open>A list, given readers of its elements.\<close>

lemma reads_slist:
  assumes "reader_ok m sharp rd n" and "readable e" and "render True e = CHR ''('' # cs" and "good st"
    and "left (cs @ rest) st" and "length (cs @ rest) \<le> m" and "m < n"
    and "e = SNil \<or> (\<exists>d f. e = SCons d f)"
  shows "reads_datum (read_list sharp rd port env) e rest st n"
proof (cases e)
  case (SCons d f)
  then show ?thesis using reads_list [OF assms(1), of d f st rest] assms(2-7) by auto
next
  case SNil
  then show ?thesis using reads_empty_list [OF assms(4), of rest n] assms(3,5-7) by auto
qed (use assms(8) in simp_all)

text \<open>One more level of nesting reads texts that are one character longer.\<close>

lemma sharp_step:
  assumes ok: "\<And>m. m < k \<Longrightarrow> m < n \<Longrightarrow> reader_ok m sharp rd n" and d: "readable d" "delimited rest" and st: "good st"
    and tx: "render True d = CHR ''#'' # cs" "left (cs @ rest) st"
    and len: "length (cs @ rest) \<le> k" "length (cs @ rest) < n"
  shows "reads_datum (read_sharp_body internal sharp rd port env) d rest st n"
proof (cases d)
  case (SBool b)
  then show ?thesis using sharp_boolean [of b rest st n] st d(2) tx len by (cases b) auto
next
  case (SChar c)
  then obtain t where t: "write_char_text c = ''#'' @ [CHR 0x5C] @ t" by (auto simp: write_char_text_def)
  then show ?thesis using sharp_character [of t rest st n c] SChar st d tx len by auto
next
  case (SVector ds)
  have r: "readable (slist ds)" "length ds < 2 ^ 59" using d(1) SVector by (simp_all add: readable_slist)
  have cs: "render True (slist ds) = cs" using tx(1) SVector render_slist [of ds] by simp
  then obtain cs' where cs': "cs = CHR ''('' # cs'" by (cases ds) auto
  show ?thesis
  proof (rule sharp_open [where cs = "cs' @ rest"], goal_cases)
    case 1
    show ?case using tx(2) cs' by simp
  next
    case (3 st1)
    have "reads_datum (read_list sharp rd port env) (slist ds) rest st1 n"
      by (rule reads_slist [OF ok r(1) cs [unfolded cs'] 3(2,1), where m = "length (cs' @ rest)"])
        (use len cs' slist_cases in auto)
    moreover have "length ds < n" using length_slist [of ds] cs len by simp
    ultimately show ?case unfolding SVector by (rule reads_vector) (rule r)
  qed (rule st)
next
  case (SFix i)
  then show ?thesis using fmt_ld_start [of i] tx(1) by simp
next
  case (SSymbol name)
  then show ?thesis using d(1) tx(1) by (simp add: symbol_text_def)
qed (use tx(1) in simp_all)

lemma body_step:
  assumes ok: "\<And>m. m < k \<Longrightarrow> m < n \<Longrightarrow> reader_ok m sharp rd n" and d: "readable d" "delimited rest" and st: "good st"
    and sp: "\<forall>c \<in> set sp. space_char c" and l: "left (sp @ render True d @ rest) st"
    and len: "length (sp @ render True d @ rest) \<le> k" "length (sp @ render True d @ rest) < n"
  shows "reads_datum (navi_read_body sharp rd port env) d rest st n"
proof -
  obtain c cs where c: "render True d = c # cs" "datum_start c" using d(1) by (rule render_start)
  have first: "gives (peek_first_char port env) (front (render True d @ rest)) (render True d @ rest) st n"
    by (rule gives_first [OF l sp]) (use c len in \<open>auto simp: datum_start_def\<close>)
  have sub: "length (cs @ rest) < k" "length (cs @ rest) < n" using len c by simp_all
  have sharp: ?thesis if hash: "c = CHR ''#''"
  proof (rule body_sharp [where cs = "cs @ rest"], goal_cases)
    case 1
    show ?case using first c(1) hash by (simp add: char_code_lits)
  next
    case (3 st1)
    show ?case by (rule reader_okD(2) [OF ok [OF sub] d 3(2)]) (use c hash 3(1) in auto)
  qed (rule st)
  have paren: ?thesis if paren: "c = CHR ''(''" "d = SNil \<or> (\<exists>e f. d = SCons e f)"
  proof (rule body_open [where cs = "cs @ rest"], goal_cases)
    case 1
    show ?case using first c(1) paren by (simp add: char_code_lits)
  next
    case (3 st1)
    show ?case by (rule reads_slist [OF ok [OF sub] d(1) c(1) [unfolded paren(1)] 3(2,1)]) (use sub paren in simp_all)
  qed (rule st)
  show ?thesis
  proof (cases d)
    case (SFix i)
    show ?thesis
    proof (cases "i < 0")
      case True
      then show ?thesis
        using body_negative [of "nat (- i)" rest st n] first st d SFix len by (simp add: fmt_ld_def char_code_lits)
    next
      case False
      then show ?thesis using body_natural [of "nat i" rest st n] first st d SFix len by (simp add: fmt_ld_def)
    qed
  next
    case (SSymbol name)
    then show ?thesis using body_symbol [of name rest st n] first st d len by simp
  next
    case (SString t)
    show ?thesis
    proof (rule body_quote [where cs = "t @ CHR 0x22 # rest"], goal_cases)
      case 1
      show ?case using first SString by (simp add: char_code_lits)
    next
      case (3 st1)
      show ?case unfolding SString by (rule read_string_run(1)) (use 3 d len SString in simp_all)
    qed (rule st)
  next
    case (SBool b)
    then show ?thesis using sharp c by (simp split: if_splits)
  next
    case (SChar i)
    then show ?thesis using sharp c by (simp add: write_char_text_def)
  qed (use sharp paren c in auto)
qed

theorem reader_reads:
  "m < k \<Longrightarrow> m < n \<Longrightarrow> reader_ok m (snd (reader internal k)) (fst (reader internal k)) n"
proof (induction k arbitrary: m)
  case (Suc k)
  let ?sharp = "snd (reader internal k)" and ?rd = "fst (reader internal k)"
  have "fst (reader internal (Suc k)) = navi_read_body ?sharp ?rd"
    "snd (reader internal (Suc k)) = read_sharp_body internal ?sharp ?rd"
    by (simp_all add: case_prod_beta)
  moreover have "reads_datum (navi_read_body ?sharp ?rd port env) d rest st n"
    if "readable d" "delimited rest" "good st" "\<forall>c \<in> set sp. space_char c" "length (sp @ render True d @ rest) \<le> m"
      "left (sp @ render True d @ rest) st" for d rest st sp
    using that Suc.prems by (intro body_step [OF Suc.IH, where sp = sp and k = k]) simp_all
  moreover have "reads_datum (read_sharp_body internal ?sharp ?rd port env) d rest st n"
    if asm: "readable d" "delimited rest" "good st" "hd (render True d) = CHR ''#''" "length (tl (render True d) @ rest) \<le> m"
      "left (tl (render True d) @ rest) st" for d rest st
  proof -
    obtain c cs where "render True d = c # cs" using asm(1) by (rule render_start)
    with asm Suc.prems show ?thesis by (intro sharp_step [OF Suc.IH, where cs = cs and k = k]) simp_all
  qed
  ultimately show ?case by (auto simp: reader_ok_def)
qed simp

text \<open>\<open>navi_read\<close> on a datum after some blanks.\<close>

lemma navi_read_datum:
  assumes "readable d" and "delimited rest" and "good st" and "\<forall>c \<in> set sp. space_char c"
    and "left (sp @ render True d @ rest) st" and "length (sp @ render True d @ rest) < n"
  shows "reads_datum (navi_read internal port env) d rest st n"
  using reader_okD(1) [OF reader_reads [of "length (sp @ render True d @ rest)" n n internal] assms(1-4)] assms(5,6)
  by (simp add: navi_read_def reads_datum_def)

text \<open>A string literal of more than 64 characters is written past the end of its buffer.\<close>

lemma navi_read_long_string:
  assumes "good st" and "\<forall>c \<in> set sp. space_char c" and "left (sp @ CHR 0x22 # t @ CHR 0x22 # rest) st"
    and "plain_text t" and "64 < length t" and "length (sp @ t) < n"
  shows "\<exists>st'. navi_read internal port env st n = (Inl Undef, st')"
proof -
  obtain k where k: "n = Suc k" using assms(6) by (cases n) auto
  have "gives (peek_first_char port env) 34 (CHR 0x22 # t @ CHR 0x22 # rest) st n"
    using gives_first [OF assms(3,2), of n] assms(6) by (simp add: space_char_def char_code_lits)
  then obtain st1 where 1: "peek_first_char port env st n = (Inr 34, st1)" "at (CHR 0x22 # t @ CHR 0x22 # rest) st st1"
    by (auto simp: gives_def)
  from gives_read [OF at_left [OF 1(2)], of n] obtain st2 where
    2: "read_char port env st1 n = (Inr 34, st2)" "at (t @ CHR 0x22 # rest) st1 st2" by (auto simp: gives_def char_code_lits)
  have "good st2" by (rule grew_good [OF at_grew [OF assms(1) at_trans [OF 1(2) 2(2)]]])
  from read_string_run(2) [OF at_left [OF 2(2)] this assms(4) _ assms(5)] assms(6)
  obtain st' where "read_string port env st2 n = (Inl Undef, st')" by fastforce
  then show ?thesis
    using 1(1) 2(1) by (simp add: navi_read_def k case_prod_beta navi_read_body_def bind_run)
qed

end

section \<open>Data are equal when they have the same text\<close>

fun datum_of :: "(string \<Rightarrow> navi_obj) \<Rightarrow> sexp \<Rightarrow> datum" where
  "datum_of f SNil = DAtom NilO"
| "datum_of f (SFix i) = DAtom (Fixnum (word_of_int i))"
| "datum_of f (SBool b) = DAtom (BoolO b)"
| "datum_of f (SChar c) = DAtom (CharO (word_of_int c))"
| "datum_of f (SString t) = DString (length t) (map byte_of t)"
| "datum_of f (SSymbol s) = DAtom (f s)"
| "datum_of f (SCons d e) = DPair (datum_of f d) (datum_of f e)"
| "datum_of f (SVector ds) = DVector (map (datum_of f) ds)"

lemma size_datum_of: "size (datum_of f d) = size d"
  by (induction f d rule: datum_of.induct) (auto simp: size_list_conv_sum_list intro: arg_cong [where f = sum_list])

lemma interned_unique:
  assumes "symtab_ok st" and "interned_at st a s" and "interned_at st b s"
  shows "a = b"
proof -
  let ?B = "symbol_table st (bucket_of (symbol_hash s))"
  have "a \<in> set ?B" "b \<in> set ?B" "name_at st a = name_at st b"
    using assms(2,3) by (auto simp: interned_at_def name_at_def)
  then show ?thesis using symtab_okD(3) [OF assms(1)] by (auto simp: distinct_map dest: inj_onD)
qed

lemma holds_denotes:
  assumes "holds A st x d" and f: "\<And>a s. interned_at st a s \<Longrightarrow> f s = Ref a"
  shows "denotes st x (datum_of f d)"
  using assms(1)
proof (induction rule: holds.induct)
  case (holds_string a s t)
  then have "denotes st (Ref a) (DString (s_length s) (map byte_of t))"
    by (intro denotes.str) (auto simp: buffer_ok_def)
  then show ?case using holds_string by (simp add: buffer_ok_def)
next
  case (holds_symbol a name)
  then show ?case by (auto simp: f interned_at_def intro!: denotes.atom)
next
  case (holds_vector a xs ds)
  have "list_all2 (denotes st) xs (map (datum_of f) ds)"
    unfolding list_all2_map2 by (rule list_all2_mono [OF holds_vector(3)]) simp
  then show ?case using denotes.vector [OF holds_vector(2)] by simp
qed (auto intro: denotes.intros)

lemma holds_equalp:
  assumes "symtab_ok st" and "holds A st x d" and "holds B st y d" and "size d < n"
  shows "navi_equalp x y st n = (Inr True, st)"
proof -
  define f where "f s = Ref (THE a. interned_at st a s)" for s
  have f: "f s = Ref a" if named: "interned_at st a s" for a s
  proof -
    have "(THE b. interned_at st b s) = a"
      by (rule the_equality [where P = "\<lambda>b. interned_at st b s", OF named]) (rule interned_unique [OF assms(1) _ named])
    then show ?thesis by (simp add: f_def)
  qed
  show ?thesis
    using navi_equalp_run [OF symtab_okD(1) [OF assms(1)] holds_denotes [OF assms(2) f] holds_denotes [OF assms(3) f]]
      assms(4) by (simp add: size_datum_of)
qed

end
