(* ===== verification/Spec_Exchange.thy ===== *)
theory Spec_Exchange
  imports Spec_Reader
begin

text \<open>
  \<open>write\<close> and \<open>read\<close> together: \<open>read\<close> on ports over strings and streams, the datum that \<open>write\<close>
  wrote read back as an equal one, and the string literals that do not fit in the reader's buffer.
\<close>

section \<open>Input ports\<close>

text \<open>The characters \<open>cs\<close> are still to be read through the open port \<open>p\<close> from the string \<open>a\<close>, the stream \<open>f\<close>.\<close>

abbreviation string_input :: "addr \<Rightarrow> addr \<Rightarrow> string \<Rightarrow> state \<Rightarrow> bool" where
  "string_input p a \<equiv> char_device.left p (string_raw p a)"

abbreviation file_input :: "addr \<Rightarrow> nat \<Rightarrow> string \<Rightarrow> state \<Rightarrow> bool" where
  "file_input p f \<equiv> char_device.left p (file_raw p f)"

lemma get_input_port_run:
  assumes "port_at st p pt" and "pt_read_u8 pt \<or> pt_read_char pt" and "list_at st args [Ref p] NilO"
  shows "get_input_port args env st n = (Inr (Ref p), st)"
  using assms
  by (auto simp: get_input_port_def get_port_def navi_is_nil_def navi_port_cast_def navi_type_check_def
      check_input_port_def navi_port_is_input_port_def bind_run)

lemma scm_read_run:
  assumes "port_at st p pt" and "pt_read_u8 pt \<or> pt_read_char pt" and "list_at st args [Ref p] NilO"
  shows "scm_read internal k args env st n = navi_read internal (Ref p) env st n"
  by (simp add: scm_read_def get_input_port_run [OF assms] bind_run)

lemma string_input_port: "string_input p a cs st \<Longrightarrow> \<exists>pt. port_at st p pt \<and> (pt_read_u8 pt \<or> pt_read_char pt)"
  by (erule string_device.leftE) blast

lemma file_input_port: "file_input p f cs st \<Longrightarrow> \<exists>pt. port_at st p pt \<and> (pt_read_u8 pt \<or> pt_read_char pt)"
  by (erule file_device.leftE) blast

section \<open>Reading a datum\<close>

text \<open>
  C5: \<open>read\<close> on a string port whose next characters are blanks, the text that \<open>write\<close> prints of a
  readable datum, and then a character that ends a token or nothing, returns an object that holds this
  datum, leaves the port in front of the character after it, and keeps the symbol table in order.  A
  datum is \<open>readable\<close> when its fixnums have 63 bits, its characters are ASCII other than the two
  parentheses, vertical tab and form feed, its strings are of at most 64 characters and without a
  quote, a backslash or a zero byte, its symbols are spelled so that no other token starts like them,
  and its vectors have fewer than \<open>2 ^ 59\<close> elements.  Other texts of a datum (with comments,
  abbreviated quotes or other blanks) are not covered, and of data that are not \<open>readable\<close> \<open>write\<close>
  prints what \<open>read\<close> rejects or, as C36 shows for longer strings, has no meaning for.  The budget is
  the length of the text.
\<close>

theorem read_correct:
  assumes "list_at st args [Ref p] NilO" and "string_input p a (sp @ render True d @ rest) st"
    and "readable d" and "delimited rest" and "\<forall>c \<in> set sp. space_char c"
    and "symtab_ok st" and "scopes st (lexical env) \<noteq> None" and "length (sp @ render True d @ rest) < n"
  shows "\<exists>x st'. scm_read (navi_get_internal ev ap) 1 args env st n = (Inr x, st') \<and> holds {} st' x d \<and>
    string_input p a rest st' \<and> symtab_ok st' \<and> scopes st' (lexical env) \<noteq> None"
proof -
  obtain pt where "port_at st p pt" "pt_read_u8 pt \<or> pt_read_char pt" using string_input_port [OF assms(2)] by blast
  note call = scm_read_run [OF this assms(1)]
  from string_device.source.navi_read_datum [where p = p and a = a and env = env and internal = "navi_get_internal ev ap",
      OF assms(3,4) _ assms(5,2,8)] assms(6,7)
  obtain x st' where "navi_read (navi_get_internal ev ap) (Ref p) env st n = (Inr x, st')" "string_input p a rest st'"
    "holds (old st) st' x d" "string_device.source.grew env p a st st'"
    by (auto simp: string_device.source.reads_datum_def string_device.source.good_def)
  then show ?thesis using holds_mono [of "old st" st' x d "{}"]
    by (auto simp: call string_device.source.grew_def string_device.source.good_def)
qed

text \<open>A symbol and a number, read from a string, with some text after them.\<close>

definition input_of :: "string \<Rightarrow> state" where
  "input_of cs = (heap_of [
     \<lparr>obj_type = NAVI_PORT, obj_data = PPort \<lparr>pt_read_u8 = False, pt_write_u8 = False, pt_read_char = True,
       pt_write_char = False, pt_close_in = False, pt_close_out = False, pt_flags = 0, pt_buffer = None,
       pt_expr = Ref 1, pt_pos = 0, pt_specific = None\<rparr>\<rparr>,
     \<lparr>obj_type = NAVI_STRING, obj_data = PString \<lparr>s_size = length cs, s_length = length cs, s_capacity = length cs,
       s_data = map (Some \<circ> byte_of) cs @ [Some 0]\<rparr>\<rparr>,
     pair_ob (Ref 0) NilO])
     \<lparr>scopes := [0 \<mapsto> \<lparr>next_scope = None, refs = 1, guards = [], bindings = \<lambda>_. []\<rparr>]\<rparr>"

lemma input_of_input:
  assumes "ascii cs"
  shows "string_input 0 1 cs (input_of cs)" and "list_at (input_of cs) (Ref 2) [Ref 0] NilO"
    and "symtab_ok (input_of cs)" and "scopes (input_of cs) (lexical some_env) \<noteq> None"
proof -
  show "string_input 0 1 cs (input_of cs)"
    using assms
    by (simp add: string_device.left_def string_raw_def input_of_def has_flag_bit comp_def)
  show "list_at (input_of cs) (Ref 2) [Ref 0] NilO" by (simp add: input_of_def)
  have "wf_heap (input_of cs)"
    unfolding input_of_def by (auto simp: wf_heap_def heap_of_def valid_obj_def less_Suc_eq nth_Cons')
  then show "symtab_ok (input_of cs)" by (simp add: symtab_ok_def input_of_def heap_of_def empty_state_def)
  show "scopes (input_of cs) (lexical some_env) \<noteq> None" by (simp add: input_of_def some_env_def)
qed

theorem read_correct_witness:
  "\<exists>x st'. scm_read (navi_get_internal navi_eval navi_apply_proc) 1 (Ref 2) some_env (input_of '' (a 7) b'') 12 = (Inr x, st') \<and>
    holds {} st' x (SCons (SSymbol ''a'') (SCons (SFix 7) SNil)) \<and> string_input 0 1 '' b'' st'"
proof -
  let ?d = "SCons (SSymbol ''a'') (SCons (SFix 7) SNil)"
  have t: "'' '' @ render True ?d @ '' b'' = '' (a 7) b''"
  proof -
    have "fmt_ld 7 = ''7''" by code_simp
    then show ?thesis by (simp add: render_tail.simps)
  qed
  have a: "ascii ('' '' @ render True ?d @ '' b'')" unfolding t by (simp add: char_code_def)
  have r: "readable ?d" "delimited '' b''" "\<forall>c \<in> set '' ''. space_char c"
    by (simp_all add: symbol_text_def terminal_char_def space_char_def digit_chr_def delimited_def char_code_def)
  note i = input_of_input [OF a]
  from read_correct [OF i(2,1) r i(3,4), of 12 navi_eval navi_apply_proc] show ?thesis unfolding t by auto
qed

section \<open>Writing and reading\<close>

lemma byte_of_inj: "map byte_of cs = map byte_of ds \<Longrightarrow> cs = ds"
  by (metis char_of_byte_of injI inj_map_eq_map)

lemma get_output_port_run:
  assumes "file_ready p f st" and "list_at st args [Ref p] NilO"
  shows "get_output_port args env st n = (Inr (Ref p), st)"
  using assms
  by (auto simp: file_ready_def get_output_port_def get_port_def navi_is_nil_def navi_port_cast_def navi_type_check_def
      check_output_port_def navi_port_is_output_port_def bind_run)

lemma scm_write_run:
  assumes "file_ready p f st" and "list_at st args [x, Ref p] NilO"
    and "navi_display_obj (Ref p) x True env st n = (Inr (), st1)"
  shows "scm_write k args env st n = (Inr VoidO, st1)"
proof -
  obtain a b where a: "args = Ref a" "pair_at st a x b" "list_at st b [Ref p] NilO" using assms(2) by auto
  show ?thesis
    using a assms(3) get_output_port_run [OF assms(1) a(3)]
    by (simp add: scm_write_def scm_arg1_def navi_port_write_def bind_run make_defs)
qed

text \<open>Ports are no data: what holds a datum does not depend on them.\<close>

lemma holds_port:
  assumes "holds A st x d" and "port_at st p pt"
  shows "holds (insert p A) st x d"
  using assms(1)
proof (induction rule: holds.induct)
  case (holds_vector a xs ds)
  then show ?case using assms(2)
    by (intro holds.holds_vector [of a _ st xs]) (auto elim: list_all2_mono)
qed (use assms(2) in \<open>auto intro: holds.intros\<close>)

lemma holds_keeps_port:
  assumes "holds {} st x d" and "port_at st p pt" and "keeps {p} st st'"
  shows "holds {} st' x d"
  using holds_mono [OF holds_keeps [OF holds_port [OF assms(1,2)] assms(3)]] by blast

text \<open>
  C3: what \<open>write\<close> wrote of a readable datum to a stream is read back by \<open>read\<close> as an object that is
  \<open>equal?\<close> to the one that was written: at any later time, from any stream that delivers the bytes
  written and then ends.  Only \<open>readable\<close> data are covered: fixnums of 63 bits, ASCII characters other
  than the two parentheses, vertical tab and form feed, strings of at most 64 characters without a
  quote, a backslash or a zero byte, symbols spelled so that no other token starts like them, vectors
  of fewer than \<open>2 ^ 59\<close> elements, and the pairs and vectors of these.  Of other data it does not hold:
  \<open>write\<close> escapes nothing in a string, and \<open>read\<close> overruns its buffer on a longer one (C36).
\<close>

theorem write_read_roundtrip:
  assumes "list_at st args [x, Ref p] NilO" and "file_ready p f st" and "holds {} st x d" and "readable d"
    and "size d < n"
  shows "\<exists>st1. scm_write 2 args env st n = (Inr VoidO, st1) \<and> quiet {} st st1 \<and>
    file_output f st1 = file_output f st @ map byte_of (render True d) \<and>
    (\<forall>st2 args2 q g env2 m. symtab_ok st2 \<and> keeps {p} st1 st2 \<and> scopes st2 (lexical env2) \<noteq> None \<and>
       list_at st2 args2 [Ref q] NilO \<and> file_input q g (render True d) st2 \<and> length (render True d) < m \<longrightarrow>
       (\<exists>y st3. scm_read (navi_get_internal ev ap) 1 args2 env2 st2 m = (Inr y, st3) \<and> holds {} st3 y d \<and>
          navi_equalp x y st3 n = (Inr True, st3)))"
proof -
  let ?t = "render True d"
  obtain st1 where 1: "navi_display_obj (Ref p) x True env st n = (Inr (), st1)"
    "file_output f st1 = file_output f st @ map byte_of ?t" "quiet {} st st1"
    using file_sink.display_writes [where A = "{}" and p = p and f = f and st = st and x = x and d = d and k = n and
        n = n and env = env and w = True] assms(2,3,5)
    by (auto simp: file_sink.printable_def file_sink.writes_def file_sink.sent_def navi_display_obj_def)
  note keep = quiet_keeps [OF 1(3) subset_refl]
  obtain pt where pt: "port_at st p pt" using assms(2) by (auto simp: file_ready_def)
  then have pt1: "port_at st1 p pt" and x1: "holds {} st1 x d"
    using keep holds_keeps [OF assms(3) keep] by (simp_all add: keeps_def)
  have run: "scm_write 2 args env st n = (Inr VoidO, st1)"
    by (rule scm_write_run [OF assms(2,1) 1(1)])
  have "\<exists>y st3. scm_read (navi_get_internal ev ap) 1 args2 env2 st2 m = (Inr y, st3) \<and> holds {} st3 y d \<and>
      navi_equalp x y st3 n = (Inr True, st3)"
    if st2: "symtab_ok st2" "keeps {p} st1 st2" "scopes st2 (lexical env2) \<noteq> None" "list_at st2 args2 [Ref q] NilO"
      "file_input q g ?t st2" "length ?t < m" for st2 args2 q g env2 m
  proof -
    obtain qt where qt: "port_at st2 q qt" "pt_read_u8 qt \<or> pt_read_char qt" using file_input_port [OF st2(5)] by blast
    from file_device.source.navi_read_datum [where p = q and f = g and env = env2 and internal = "navi_get_internal ev ap" and
        st = st2 and d = d and sp = "[]" and rest = "[]" and n = m] assms(4) st2
    obtain y st3 where 3: "navi_read (navi_get_internal ev ap) (Ref q) env2 st2 m = (Inr y, st3)" "holds (old st2) st3 y d"
      "file_device.source.grew env2 q st2 st3"
      by (auto simp: file_device.source.reads_datum_def file_device.source.good_def delimited_def)
    have "holds {} st3 x d"
      by (rule holds_keeps_port [OF holds_keeps_port [OF x1 pt1 st2(2)] qt(1)])
        (use 3(3) in \<open>simp add: file_device.source.grew_def\<close>)
    moreover have "symtab_ok st3" using 3(3) by (simp add: file_device.source.grew_def file_device.source.good_def)
    ultimately have "navi_equalp x y st3 n = (Inr True, st3)" using 3(2) assms(5) by (intro holds_equalp)
    moreover have "holds {} st3 y d" by (rule holds_mono [OF 3(2)]) simp
    ultimately show ?thesis using scm_read_run [OF qt st2(4)] 3(1) by simp
  qed
  with run 1(2,3) show ?thesis by blast
qed

lemma streams_demo_facts:
  shows "list_at (streams_demo out ins) (Ref 2) [Ref 4, Ref 0] NilO"
    and "list_at (streams_demo out ins) (Ref 5) [Ref 1] NilO"
    and "file_ready 0 0 (streams_demo out ins)"
    and "holds {} (streams_demo out ins) (Ref 4) (SCons (SBool True) SNil)"
    and "symtab_ok (streams_demo out ins)"
    and "scopes (streams_demo out ins) (lexical some_env) \<noteq> None"
    and "ascii cs \<Longrightarrow> ins = map byte_of cs \<Longrightarrow> file_input 1 1 cs (streams_demo out ins)"
proof -
  let ?st = "streams_demo out ins"
  show "list_at ?st (Ref 2) [Ref 4, Ref 0] NilO" "list_at ?st (Ref 5) [Ref 1] NilO"
    by (simp_all add: streams_demo_def)
  show "file_ready 0 0 ?st" by (simp add: file_ready_def streams_demo_def has_flag_bit)
  show "holds {} ?st (Ref 4) (SCons (SBool True) SNil)"
    by (rule holds_pair [where x = "BoolO True" and y = NilO])
      (auto simp: streams_demo_def intro: holds_bool holds_nil)
  have "wf_heap ?st"
    unfolding streams_demo_def by (auto simp: wf_heap_def heap_of_def valid_obj_def less_Suc_eq nth_Cons')
  then show "symtab_ok ?st" by (simp add: symtab_ok_def streams_demo_def heap_of_def empty_state_def)
  show "scopes ?st (lexical some_env) \<noteq> None" by (simp add: streams_demo_def some_env_def)
  show "ascii cs \<Longrightarrow> ins = map byte_of cs \<Longrightarrow> file_input 1 1 cs ?st"
    by (simp add: file_device.left_def file_raw_def streams_demo_def has_flag_bit)
qed

theorem write_read_roundtrip_witness:
  "\<exists>st1 y st3. scm_write 2 (Ref 2) some_env (streams_demo [] []) 9 = (Inr VoidO, st1) \<and>
    file_output 0 st1 = map byte_of ''(#t)'' \<and>
    scm_read (navi_get_internal navi_eval navi_apply_proc) 1 (Ref 5) some_env (streams_demo [] (map byte_of ''(#t)'')) 9 = (Inr y, st3) \<and>
    navi_equalp (Ref 4) y st3 9 = (Inr True, st3)"
proof -
  let ?d = "SCons (SBool True) SNil"
  let ?st2 = "streams_demo [] (map byte_of ''(#t)'')"
  have t: "render True ?d = ''(#t)''" by (simp add: render_tail.simps)
  have r: "readable ?d" and n9: "size ?d < 9" by simp_all
  have e: "file_output 0 (streams_demo [] []) = []" by (simp add: file_output_def streams_demo_def)
  note facts = streams_demo_facts [where out = "[]" and ins = "map byte_of ''(#t)''"]
  obtain st1 where 1: "scm_write 2 (Ref 2) some_env (streams_demo [] []) 9 = (Inr VoidO, st1)"
    "quiet {} (streams_demo [] []) st1" "file_output 0 st1 = map byte_of (render True ?d)"
    and later: "\<forall>st2 args2 q g env2 m. symtab_ok st2 \<and> keeps {0} st1 st2 \<and> scopes st2 (lexical env2) \<noteq> None \<and>
       list_at st2 args2 [Ref q] NilO \<and> file_input q g (render True ?d) st2 \<and> length (render True ?d) < m \<longrightarrow>
       (\<exists>y st3. scm_read (navi_get_internal navi_eval navi_apply_proc) 1 args2 env2 st2 m = (Inr y, st3) \<and> holds {} st3 y ?d \<and>
          navi_equalp (Ref 4) y st3 9 = (Inr True, st3))"
    using write_read_roundtrip [OF streams_demo_facts(1,3,4) [of "[]" "[]"] r n9, of some_env] unfolding e append_Nil by blast
  have keep: "keeps {0} st1 ?st2" using 1(2) by (simp add: keeps_def quiet_def streams_demo_def)
  have inp: "file_input 1 1 (render True ?d) ?st2" unfolding t by (rule facts(7)) (simp_all add: char_code_def)
  have "length (render True ?d) < 9" unfolding t by simp
  then obtain y st3 where "scm_read (navi_get_internal navi_eval navi_apply_proc) 1 (Ref 5) some_env ?st2 9 = (Inr y, st3)"
    "navi_equalp (Ref 4) y st3 9 = (Inr True, st3)"
    using later facts(2,5,6) keep inp by blast
  with 1 show ?thesis unfolding t by blast
qed

section \<open>Long literals\<close>

text \<open>
  C36: a string literal of more than 64 characters writes past the end of the buffer that \<open>read_string\<close>
  allocates: the buffer is never grown, because the size that tells how much of it is used stays zero
  until the closing quote.
\<close>

theorem long_literal_overflows:
  assumes "list_at st args [Ref p] NilO" and "string_input p a (CHR 0x22 # t @ CHR 0x22 # rest) st"
    and "\<forall>c \<in> set t. c \<noteq> CHR 0x22 \<and> c \<noteq> CHR 0x5C \<and> c \<noteq> CHR 0x00" and "64 < length t"
    and "symtab_ok st" and "scopes st (lexical env) \<noteq> None" and "length t < n"
  shows "\<exists>st'. scm_read (navi_get_internal ev ap) 1 args env st n = (Inl Undef, st')"
proof -
  obtain pt where pt: "port_at st p pt" "pt_read_u8 pt \<or> pt_read_char pt" using string_input_port [OF assms(2)] by blast
  show ?thesis
    using string_device.source.navi_read_long_string [where p = p and a = a and env = env and sp = "[]" and t = t and
        rest = rest and st = st and n = n and internal = "navi_get_internal ev ap"] assms
    by (simp add: scm_read_run [OF pt assms(1)] string_device.source.good_def plain_text_def)
qed

theorem long_literal_overflows_witness:
  "\<exists>st'. scm_read (navi_get_internal navi_eval navi_apply_proc) 1 (Ref 2) some_env
    (input_of (CHR 0x22 # replicate 65 (CHR ''a'') @ CHR 0x22 # [])) 66 = (Inl Undef, st')"
proof -
  have a: "ascii (CHR 0x22 # replicate 65 (CHR ''a'') @ CHR 0x22 # [])" by (simp add: ascii_def char_code_def)
  note i = input_of_input [OF a]
  show ?thesis by (rule long_literal_overflows [OF i(2,1) _ _ i(3,4)]) simp_all
qed

end
