(* ===== verification/Navi_Rbtree.thy ===== *)
theory Navi_Rbtree
  imports Navi_Prelude
begin

text \<open>
  Red-black trees (\<open>rbtree.c\<close>, \<open>rbtree.h\<close>): nodes in a store, linked by pointers to the children
  and to the parent, below a dummy root that is not part of the tree.  The functions are the C
  functions on that store, write by write; a pointer that points to no node has no meaning in C,
  and a loop may go round as often as the budget allows.
\<close>

section \<open>Nodes\<close>

datatype rb_color_t = RB_RED | RB_BLACK | RB_ROOT_MARK

text \<open>\<open>None\<close> is \<open>NULL\<close>.\<close>

type_synonym rb_ptr = "nat option"

record rb_node =
  left :: rb_ptr
  right :: rb_ptr
  parent :: rb_ptr
  color :: rb_color_t

record rb_mem =
  rb_nodes :: "nat \<Rightarrow> rb_node option"

datatype mem_stop = Mem_Undef | Mem_NoFuel | Mem_Die string

type_synonym ('s, 'a) mm = "(mem_stop, 's rb_mem_scheme, 'a) run"

text \<open>\<open>RB_ROOT_INIT\<close>; the tree is given by the address of its dummy root.\<close>

definition RB_ROOT_INIT :: rb_node where
  "RB_ROOT_INIT = \<lparr>left = None, right = None, parent = None, color = RB_ROOT_MARK\<rparr>"

section \<open>Pointers\<close>

definition rb_deref :: "rb_ptr \<Rightarrow> ('s, rb_node) mm" where
  "rb_deref p = (\<lambda>st n. case p of
       None \<Rightarrow> (Inl Mem_Undef, st)
     | Some a \<Rightarrow> (case rb_nodes st a of
         None \<Rightarrow> (Inl Mem_Undef, st)
       | Some nd \<Rightarrow> (Inr nd, st)))"

definition rb_get :: "(rb_node \<Rightarrow> 'a) \<Rightarrow> rb_ptr \<Rightarrow> ('s, 'a) mm" where
  "rb_get field p = bind (rb_deref p) (\<lambda>nd. ret (field nd))"

definition rb_set :: "rb_ptr \<Rightarrow> (rb_node \<Rightarrow> rb_node) \<Rightarrow> ('s, unit) mm" where
  "rb_set p f = bind (rb_deref p) (\<lambda>nd.
     modifies (\<lambda>st. st\<lparr>rb_nodes := (rb_nodes st)(the p \<mapsto> f nd)\<rparr>))"

definition set_left :: "rb_ptr \<Rightarrow> rb_ptr \<Rightarrow> ('s, unit) mm" where
  "set_left p x = rb_set p (\<lambda>nd. nd\<lparr>left := x\<rparr>)"

definition set_right :: "rb_ptr \<Rightarrow> rb_ptr \<Rightarrow> ('s, unit) mm" where
  "set_right p x = rb_set p (\<lambda>nd. nd\<lparr>right := x\<rparr>)"

definition set_parent :: "rb_ptr \<Rightarrow> rb_ptr \<Rightarrow> ('s, unit) mm" where
  "set_parent p x = rb_set p (\<lambda>nd. nd\<lparr>parent := x\<rparr>)"

definition set_color :: "rb_ptr \<Rightarrow> rb_color_t \<Rightarrow> ('s, unit) mm" where
  "set_color p c = rb_set p (\<lambda>nd. nd\<lparr>color := c\<rparr>)"

text \<open>A pointer to a pointer: a child field of a node, or the link of the root.\<close>

datatype rb_link = LeftLink rb_ptr | RightLink rb_ptr

definition read_link :: "rb_link \<Rightarrow> ('s, rb_ptr) mm" where
  "read_link l = (case l of LeftLink p \<Rightarrow> rb_get left p | RightLink p \<Rightarrow> rb_get right p)"

definition write_link :: "rb_link \<Rightarrow> rb_ptr \<Rightarrow> ('s, unit) mm" where
  "write_link l x = (case l of LeftLink p \<Rightarrow> set_left p x | RightLink p \<Rightarrow> set_right p x)"

text \<open>The conjunction of C: the right operand is evaluated only when the left one holds.\<close>

definition rb_and :: "('s, bool) mm \<Rightarrow> ('s, bool) mm \<Rightarrow> ('s, bool) mm" where
  "rb_and a b = bind a (\<lambda>x. if x then b else ret False)"

section \<open>The inline functions\<close>

definition rb_root :: "nat \<Rightarrow> ('s, rb_ptr) mm" where
  "rb_root tree = rb_get left (Some tree)"

definition rb_root_parent :: "nat \<Rightarrow> rb_ptr" where
  "rb_root_parent tree = Some tree"

definition rb_root_link :: "nat \<Rightarrow> rb_link" where
  "rb_root_link tree = LeftLink (Some tree)"

definition rb_empty :: "nat \<Rightarrow> ('s, bool) mm" where
  "rb_empty tree = bind (rb_root tree) (\<lambda>r. ret (r = None))"

definition is_left_child :: "rb_ptr \<Rightarrow> ('s, bool) mm" where
  "is_left_child n = bind (rb_get parent n) (\<lambda>p. bind (rb_get left p) (\<lambda>l. ret (n = l)))"

definition is_right_child :: "rb_ptr \<Rightarrow> ('s, bool) mm" where
  "is_right_child n = bind (rb_get parent n) (\<lambda>p. bind (rb_get right p) (\<lambda>r. ret (n = r)))"

definition is_red :: "rb_ptr \<Rightarrow> ('s, bool) mm" where
  "is_red n = (if n = None then ret False else bind (rb_get color n) (\<lambda>c. ret (c = RB_RED)))"

definition is_black :: "rb_ptr \<Rightarrow> ('s, bool) mm" where
  "is_black n = (if n = None then ret True else bind (rb_get color n) (\<lambda>c. ret (c = RB_BLACK)))"

definition rb_color :: "rb_ptr \<Rightarrow> ('s, rb_color_t) mm" where
  "rb_color node = (if node = None then ret RB_BLACK else rb_get color node)"

definition is_root :: "rb_ptr \<Rightarrow> ('s, bool) mm" where
  "is_root n = bind (rb_get parent n) (\<lambda>p. bind (rb_get color p) (\<lambda>c. ret (c = RB_ROOT_MARK)))"

definition rb_uncle :: "rb_ptr \<Rightarrow> ('s, rb_ptr) mm" where
  "rb_uncle n =
     bind (rb_get parent n) (\<lambda>p.
     bind (rb_get parent p) (\<lambda>grandparent.
     bind (rb_get left grandparent) (\<lambda>l.
     if p = l then rb_get right grandparent else rb_get left grandparent)))"

definition rb_sibling :: "rb_ptr \<Rightarrow> ('s, rb_ptr) mm" where
  "rb_sibling n =
     bind (is_left_child n) (\<lambda>l.
     bind (rb_get parent n) (\<lambda>p.
     if l then rb_get right p else rb_get left p))"

section \<open>Rotations\<close>

definition replace :: "rb_ptr \<Rightarrow> rb_ptr \<Rightarrow> ('s, unit) mm" where
  "replace old new =
     bind (is_left_child old) (\<lambda>l.
     bind (rb_get parent old) (\<lambda>p.
     bind (if l then set_left p new else set_right p new) (\<lambda>_.
     if new \<noteq> None then bind (rb_get parent old) (set_parent new) else ret ())))"

definition rotate_left :: "rb_ptr \<Rightarrow> ('s, unit) mm" where
  "rotate_left p =
     bind (rb_get right p) (\<lambda>r.
     bind (replace p r) (\<lambda>_.
     bind (rb_get left r) (\<lambda>rl.
     bind (set_right p rl) (\<lambda>_.
     bind (if rl \<noteq> None then set_parent rl p else ret ()) (\<lambda>_.
     bind (set_left r p) (\<lambda>_.
     set_parent p r))))))"

definition rotate_right :: "rb_ptr \<Rightarrow> ('s, unit) mm" where
  "rotate_right p =
     bind (rb_get left p) (\<lambda>l.
     bind (replace p l) (\<lambda>_.
     bind (rb_get right l) (\<lambda>lr.
     bind (set_left p lr) (\<lambda>_.
     bind (if lr \<noteq> None then set_parent lr p else ret ()) (\<lambda>_.
     bind (set_right l p) (\<lambda>_.
     set_parent p l))))))"

section \<open>Insertion\<close>

text \<open>Case 4: an inner grandchild is rotated to the outside; the new focus is the old parent.\<close>

definition insert_case4 :: "rb_ptr \<Rightarrow> ('s, rb_ptr) mm" where
  "insert_case4 new =
     bind (rb_get parent new) (\<lambda>p.
     bind (rb_and (is_right_child new) (is_left_child p)) (\<lambda>a.
     if a then bind (rotate_left p) (\<lambda>_. rb_get left new)
     else bind (rb_and (is_left_child new) (is_right_child p)) (\<lambda>b.
          if b then bind (rotate_right p) (\<lambda>_. rb_get right new) else ret new)))"

definition insert_case5 :: "rb_ptr \<Rightarrow> ('s, unit) mm" where
  "insert_case5 new =
     bind (rb_get parent new) (\<lambda>p.
     bind (set_color p RB_BLACK) (\<lambda>_.
     bind (rb_get parent p) (\<lambda>g.
     bind (set_color g RB_RED) (\<lambda>_.
     bind (rb_and (is_left_child new) (is_left_child p)) (\<lambda>a.
     if a then rotate_right g else rotate_left g)))))"

text \<open>One round of the loop; \<open>again\<close> is the next one.\<close>

definition insert_round :: "(rb_ptr \<Rightarrow> ('s, unit) mm) \<Rightarrow> rb_ptr \<Rightarrow> ('s, unit) mm" where
  "insert_round again new =
     bind (is_root new) (\<lambda>r. if r then set_color new RB_BLACK
     else bind (rb_get parent new) (\<lambda>p.
     bind (is_black p) (\<lambda>b. if b then ret ()
     else bind (rb_uncle new) (\<lambda>uncle.
     bind (rb_and (ret (uncle \<noteq> None)) (is_red uncle)) (\<lambda>u.
     if u then
       bind (set_color p RB_BLACK) (\<lambda>_.
       bind (set_color uncle RB_BLACK) (\<lambda>_.
       bind (rb_get parent p) (\<lambda>g.
       bind (set_color g RB_RED) (\<lambda>_.
       again g))))
     else
       bind (insert_case4 new) (\<lambda>new.
       bind (insert_case5 new) (\<lambda>_.
       again new)))))))"

primrec insert_rounds :: "nat \<Rightarrow> rb_ptr \<Rightarrow> ('s, unit) mm" where
  "insert_rounds 0 new = stop Mem_NoFuel"
| "insert_rounds (Suc k) new = insert_round (insert_rounds k) new"

definition navi_rb_insert :: "rb_ptr \<Rightarrow> rb_ptr \<Rightarrow> rb_link \<Rightarrow> ('s, unit) mm" where
  "navi_rb_insert new par parent_link =
     bind (set_left new None) (\<lambda>_.
     bind (set_right new None) (\<lambda>_.
     bind (set_color new RB_RED) (\<lambda>_.
     bind (set_parent new par) (\<lambda>_.
     bind (write_link parent_link new) (\<lambda>_.
     (\<lambda>st n. insert_rounds n new st n))))))"

section \<open>Order of the nodes\<close>

primrec leftmost :: "nat \<Rightarrow> rb_ptr \<Rightarrow> ('s, rb_ptr) mm" where
  "leftmost 0 node = stop Mem_NoFuel"
| "leftmost (Suc k) node =
     bind (rb_get left node) (\<lambda>l. if l \<noteq> None then leftmost k l else ret node)"

primrec rightmost :: "nat \<Rightarrow> rb_ptr \<Rightarrow> ('s, rb_ptr) mm" where
  "rightmost 0 node = stop Mem_NoFuel"
| "rightmost (Suc k) node =
     bind (rb_get right node) (\<lambda>r. if r \<noteq> None then rightmost k r else ret node)"

definition navi_rb_first :: "rb_ptr \<Rightarrow> ('s, rb_ptr) mm" where
  "navi_rb_first node = (if node = None then ret None else (\<lambda>st n. leftmost n node st n))"

definition navi_rb_last :: "rb_ptr \<Rightarrow> ('s, rb_ptr) mm" where
  "navi_rb_last node = (if node = None then ret None else (\<lambda>st n. rightmost n node st n))"

primrec climb_right :: "nat \<Rightarrow> rb_ptr \<Rightarrow> ('s, rb_ptr) mm" where
  "climb_right 0 node = stop Mem_NoFuel"
| "climb_right (Suc k) node =
     bind (is_right_child node) (\<lambda>r.
     if r then bind (rb_get parent node) (climb_right k) else ret node)"

definition navi_rb_next :: "rb_ptr \<Rightarrow> ('s, rb_ptr) mm" where
  "navi_rb_next node =
     bind (rb_get right node) (\<lambda>r.
     if r \<noteq> None then navi_rb_first r
     else bind (\<lambda>st n. climb_right n node st n) (\<lambda>node.
          bind (is_root node) (\<lambda>b. if b then ret None else rb_get parent node)))"

section \<open>Removal\<close>

definition set_child :: "(rb_node \<Rightarrow> rb_ptr) \<Rightarrow> rb_ptr \<Rightarrow> rb_ptr \<Rightarrow> ('s, unit) mm" where
  "set_child field to from = bind (rb_get field from) (\<lambda>c.
     if c \<noteq> None then set_parent c to else ret ())"

definition swap :: "rb_ptr \<Rightarrow> rb_ptr \<Rightarrow> ('s, unit) mm" where
  "swap a b =
     bind (rb_deref a) (\<lambda>old.
     bind (rb_get left b) (\<lambda>bl.
     bind (set_left a bl) (\<lambda>_.
     bind (set_child left a b) (\<lambda>_.
     bind (rb_get right b) (\<lambda>br.
     bind (set_right a br) (\<lambda>_.
     bind (set_child right a b) (\<lambda>_.
     bind (set_left b (left old)) (\<lambda>_.
     bind (if left old \<noteq> None then set_parent (left old) b else ret ()) (\<lambda>_.
     bind (set_right b (right old)) (\<lambda>_.
     bind (if right old \<noteq> None then set_parent (right old) b else ret ()) (\<lambda>_.
     bind (is_left_child a) (\<lambda>la.
     bind (rb_get parent a) (\<lambda>pa.
     bind (if la then set_left pa b else set_right pa b) (\<lambda>_.
     bind (rb_get parent b) (\<lambda>pb.
     bind (set_parent a pb) (\<lambda>_.
     bind (is_left_child b) (\<lambda>lb.
     bind (rb_get parent b) (\<lambda>pb.
     bind (if lb then set_left pb a else set_right pb a) (\<lambda>_.
     bind (set_parent b (parent old)) (\<lambda>_.
     bind (rb_get color b) (\<lambda>cb.
     bind (set_color a cb) (\<lambda>_.
     set_color b (color old)))))))))))))))))))))))"

text \<open>Case 2: a red sibling is rotated above the parent.\<close>

definition remove_case2 :: "rb_ptr \<Rightarrow> ('s, unit) mm" where
  "remove_case2 n =
     bind (rb_sibling n) (\<lambda>sibling.
     bind (is_red sibling) (\<lambda>r. if \<not> r then ret ()
     else bind (rb_get parent n) (\<lambda>p.
       bind (set_color p RB_RED) (\<lambda>_.
       bind (set_color sibling RB_BLACK) (\<lambda>_.
       bind (is_left_child n) (\<lambda>l.
       if l then rotate_left p else rotate_right p))))))"

text \<open>The test of cases 3 and 4: a black sibling with black children.\<close>

definition black_sibling :: "rb_ptr \<Rightarrow> ('s, bool) mm" where
  "black_sibling sibling =
     rb_and (is_black sibling)
     (rb_and (bind (rb_get left sibling) is_black) (bind (rb_get right sibling) is_black))"

definition remove_case5 :: "rb_ptr \<Rightarrow> rb_ptr \<Rightarrow> ('s, unit) mm" where
  "remove_case5 n sibling =
     bind (rb_and (is_left_child n) (rb_and (is_black sibling)
       (rb_and (bind (rb_get left sibling) is_red) (bind (rb_get right sibling) is_black)))) (\<lambda>a.
     if a then
       bind (set_color sibling RB_RED) (\<lambda>_.
       bind (bind (rb_get left sibling) (\<lambda>l. set_color l RB_BLACK)) (\<lambda>_.
       rotate_right sibling))
     else bind (rb_and (is_right_child n) (rb_and (is_black sibling)
       (rb_and (bind (rb_get right sibling) is_red) (bind (rb_get left sibling) is_black)))) (\<lambda>b.
     if b then
       bind (set_color sibling RB_RED) (\<lambda>_.
       bind (bind (rb_get right sibling) (\<lambda>r. set_color r RB_BLACK)) (\<lambda>_.
       rotate_left sibling))
     else ret ()))"

definition remove_case6 :: "rb_ptr \<Rightarrow> ('s, unit) mm" where
  "remove_case6 n =
     bind (rb_sibling n) (\<lambda>sibling.
     bind (rb_get parent n) (\<lambda>p.
     bind (rb_color p) (\<lambda>c.
     bind (set_color sibling c) (\<lambda>_.
     bind (set_color p RB_BLACK) (\<lambda>_.
     bind (is_left_child n) (\<lambda>l.
     if l then
       bind (bind (rb_get right sibling) (\<lambda>r. set_color r RB_BLACK)) (\<lambda>_. rotate_left p)
     else
       bind (bind (rb_get left sibling) (\<lambda>r. set_color r RB_BLACK)) (\<lambda>_. rotate_right p)))))))"

text \<open>The loop gives the node at which it ends.\<close>

definition remove_round :: "(rb_ptr \<Rightarrow> ('s, rb_ptr) mm) \<Rightarrow> rb_ptr \<Rightarrow> ('s, rb_ptr) mm" where
  "remove_round again n =
     bind (is_root n) (\<lambda>r. if r then ret n
     else bind (remove_case2 n) (\<lambda>_.
     bind (rb_sibling n) (\<lambda>sibling. if sibling = None then ret n
     else bind (rb_get parent n) (\<lambda>p.
     bind (rb_and (is_black p) (black_sibling sibling)) (\<lambda>c3.
     if c3 then bind (set_color sibling RB_RED) (\<lambda>_. again p)
     else bind (rb_and (is_red p) (black_sibling sibling)) (\<lambda>c4.
     if c4 then
       bind (set_color sibling RB_RED) (\<lambda>_.
       bind (set_color p RB_BLACK) (\<lambda>_. ret n))
     else
       bind (remove_case5 n sibling) (\<lambda>_.
       bind (remove_case6 n) (\<lambda>_. ret n))))))))"

primrec remove_rounds :: "nat \<Rightarrow> rb_ptr \<Rightarrow> ('s, rb_ptr) mm" where
  "remove_rounds 0 n = stop Mem_NoFuel"
| "remove_rounds (Suc k) n = remove_round (remove_rounds k) n"

definition navi_rb_remove :: "rb_ptr \<Rightarrow> ('s, unit) mm" where
  "navi_rb_remove n =
     bind (rb_get left n) (\<lambda>l.
     bind (rb_get right n) (\<lambda>r.
     bind (if l \<noteq> None \<and> r \<noteq> None then bind (navi_rb_last l) (swap n) else ret ()) (\<lambda>_.
     bind (rb_get right n) (\<lambda>r.
     bind (if r \<noteq> None then ret r else rb_get left n) (\<lambda>child.
     bind (is_black n) (\<lambda>b.
     bind (if b then
             bind (rb_color child) (\<lambda>c.
             bind (set_color n c) (\<lambda>_.
             (\<lambda>st k. remove_rounds k n st k)))
           else ret n) (\<lambda>m.
     bind (replace n child) (\<lambda>_.
     bind (rb_and (is_root m) (ret (child \<noteq> None))) (\<lambda>paint.
     if paint then set_color child RB_BLACK else ret ())))))))))"

end
