(* ===== verification/Navi_Slab.thy ===== *)
theory Navi_Slab
  imports Navi_Rbtree
begin

unbundle bit_operations_syntax

text \<open>
  The slab allocator (\<open>slab.c\<close>, \<open>slab.h\<close>): objects of one size are cut from slabs of 4096 bytes,
  which a cache holds in three red-black trees ordered by address.  The address of a slab is the
  address of its tree node, its first member.
\<close>

section \<open>Memory\<close>

text \<open>
  A slab is its list of free objects and its counter.  The first word of every object is a link
  while the object is free; a doubly linked object holds in its second word the place that points
  to it.
\<close>

record slab =
  slab_free :: "nat option"
  in_use :: "32 word"

datatype le_place = HeadPlace nat | NextPlace nat

text \<open>
  \<open>malloc_blocks\<close> are the addresses of the blocks that \<open>malloc\<close> will still give out; it fails when
  there are none.
\<close>

record slab_mem = rb_mem +
  slabs :: "nat \<Rightarrow> slab option"
  obj_next :: "nat \<Rightarrow> nat option"
  obj_prev :: "nat \<Rightarrow> le_place"
  malloc_blocks :: "nat list"

type_synonym 'a sm = "(mem_stop, slab_mem, 'a) run"

definition slab_malloc :: "nat sm" where
  "slab_malloc = (\<lambda>st n. case malloc_blocks st of
       [] \<Rightarrow> (Inl (Mem_Die ''not enough memory''), st)
     | a # as \<Rightarrow> (Inr a, st\<lparr>malloc_blocks := as\<rparr>))"

definition deref_slab :: "nat \<Rightarrow> slab sm" where
  "deref_slab a = (\<lambda>st n. case slabs st a of None \<Rightarrow> (Inl Mem_Undef, st) | Some s \<Rightarrow> (Inr s, st))"

definition update_slab :: "nat \<Rightarrow> (slab \<Rightarrow> slab) \<Rightarrow> unit sm" where
  "update_slab a f = bind (deref_slab a) (\<lambda>s. modifies (\<lambda>st. st\<lparr>slabs := (slabs st)(a \<mapsto> f s)\<rparr>))"

section \<open>Lists of free objects\<close>

definition slab_slist_insert :: "nat \<Rightarrow> nat \<Rightarrow> unit sm" where
  "slab_slist_insert slab obj =
     bind (deref_slab slab) (\<lambda>s.
     bind (modifies (\<lambda>st. st\<lparr>obj_next := (obj_next st)(obj := slab_free s)\<rparr>)) (\<lambda>_.
     update_slab slab (\<lambda>s. s\<lparr>slab_free := Some obj\<rparr>)))"

definition slab_slist_remove_head :: "nat \<Rightarrow> unit sm" where
  "slab_slist_remove_head slab =
     bind (deref_slab slab) (\<lambda>s. case slab_free s of
       None \<Rightarrow> stop Mem_Undef
     | Some obj \<Rightarrow> bind (reads (\<lambda>st. obj_next st obj)) (\<lambda>next.
                   update_slab slab (\<lambda>s. s\<lparr>slab_free := next\<rparr>)))"

definition slab_list_insert :: "nat \<Rightarrow> nat \<Rightarrow> unit sm" where
  "slab_list_insert slab obj =
     bind (deref_slab slab) (\<lambda>s.
     bind (modifies (\<lambda>st. st\<lparr>obj_next := (obj_next st)(obj := slab_free s)\<rparr>)) (\<lambda>_.
     bind (case slab_free s of
         None \<Rightarrow> ret ()
       | Some first \<Rightarrow> modifies (\<lambda>st. st\<lparr>obj_prev := (obj_prev st)(first := NextPlace obj)\<rparr>)) (\<lambda>_.
     bind (update_slab slab (\<lambda>s. s\<lparr>slab_free := Some obj\<rparr>)) (\<lambda>_.
     modifies (\<lambda>st. st\<lparr>obj_prev := (obj_prev st)(obj := HeadPlace slab)\<rparr>)))))"

definition slab_list_remove :: "nat \<Rightarrow> unit sm" where
  "slab_list_remove obj =
     bind (reads (\<lambda>st. obj_next st obj)) (\<lambda>next.
     bind (reads (\<lambda>st. obj_prev st obj)) (\<lambda>prev.
     bind (case next of
         None \<Rightarrow> ret ()
       | Some x \<Rightarrow> modifies (\<lambda>st. st\<lparr>obj_prev := (obj_prev st)(x := prev)\<rparr>)) (\<lambda>_.
     case prev of
       HeadPlace slab \<Rightarrow> update_slab slab (\<lambda>s. s\<lparr>slab_free := next\<rparr>)
     | NextPlace x \<Rightarrow> modifies (\<lambda>st. st\<lparr>obj_next := (obj_next st)(x := next)\<rparr>))))"

section \<open>Caches\<close>

text \<open>The first and only enumerator has the value 0, so that no flag word ever contains it.\<close>

definition NAVI_SLAB_DOUBLY_LINKED :: "32 word" where "NAVI_SLAB_DOUBLY_LINKED = 0"

text \<open>On x86-64 the descriptor of a slab takes 48 bytes: a tree node, a pointer and the counter.\<close>

definition SLAB_SIZE :: nat where "SLAB_SIZE = 4096"
definition SLAB_DESC_SIZE :: nat where "SLAB_DESC_SIZE = 48"
definition SLAB_MEM_SIZE :: nat where "SLAB_MEM_SIZE = SLAB_SIZE - SLAB_DESC_SIZE"

text \<open>A cache is written once; its trees are the addresses of their dummy roots, 32 bytes apart.\<close>

record slab_cache =
  full :: nat
  partial :: nat
  empty :: nat
  cache_flags :: "32 word"
  objs_per_slab :: nat
  obj_size :: nat

definition navi_slab_cache_create :: "nat \<Rightarrow> 32 word \<Rightarrow> slab_cache sm" where
  "navi_slab_cache_create sz flags =
     bind slab_malloc (\<lambda>c.
     bind (modifies (\<lambda>st. st\<lparr>rb_nodes :=
       (rb_nodes st)(c \<mapsto> RB_ROOT_INIT, c + 32 \<mapsto> RB_ROOT_INIT, c + 64 \<mapsto> RB_ROOT_INIT)\<rparr>)) (\<lambda>_.
     let osize = (if sz < 16 then 16 else sz) in
     ret \<lparr>full = c, partial = c + 32, empty = c + 64, cache_flags = flags,
          objs_per_slab = SLAB_MEM_SIZE div osize, obj_size = osize\<rparr>))"

definition is_double :: "slab_cache \<Rightarrow> bool" where
  "is_double cache \<longleftrightarrow> cache_flags cache AND NAVI_SLAB_DOUBLY_LINKED \<noteq> 0"

definition get_object :: "slab_cache \<Rightarrow> nat \<Rightarrow> nat \<Rightarrow> nat" where
  "get_object cache slab i = slab + SLAB_DESC_SIZE + obj_size cache * i"

definition init_single :: "slab_cache \<Rightarrow> nat \<Rightarrow> unit sm" where
  "init_single cache slab =
     bind (update_slab slab (\<lambda>s. s\<lparr>slab_free := None\<rparr>)) (\<lambda>_.
     foldM (\<lambda>i _. slab_slist_insert slab (get_object cache slab i)) [0..<objs_per_slab cache] ())"

definition init_double :: "slab_cache \<Rightarrow> nat \<Rightarrow> unit sm" where
  "init_double cache slab =
     bind (update_slab slab (\<lambda>s. s\<lparr>slab_free := None\<rparr>)) (\<lambda>_.
     foldM (\<lambda>i _. slab_list_insert slab (get_object cache slab i)) [0..<objs_per_slab cache] ())"

text \<open>
  The block of a new slab holds no tree node yet; what stands here in its place is overwritten by
  \<open>navi_rb_insert\<close> before it is read.
\<close>

definition new_slab :: "slab_cache \<Rightarrow> nat sm" where
  "new_slab cache =
     bind slab_malloc (\<lambda>slab.
     bind (modifies (\<lambda>st. st\<lparr>rb_nodes := (rb_nodes st)(slab \<mapsto> RB_ROOT_INIT),
       slabs := (slabs st)(slab \<mapsto> \<lparr>slab_free = None, in_use = 0\<rparr>)\<rparr>)) (\<lambda>_.
     bind (if is_double cache then init_double cache slab else init_single cache slab) (\<lambda>_.
     bind (update_slab slab (\<lambda>s. s\<lparr>in_use := 0\<rparr>)) (\<lambda>_.
     ret slab))))"

text \<open>The search of \<open>slab_insert\<close> gives the empty link and its node.\<close>

primrec slab_search :: "nat \<Rightarrow> nat \<Rightarrow> rb_link \<Rightarrow> rb_ptr \<Rightarrow> ('s, rb_link \<times> rb_ptr) mm" where
  "slab_search 0 slab p par = stop Mem_NoFuel"
| "slab_search (Suc k) slab p par =
     bind (read_link p) (\<lambda>x. case x of
       None \<Rightarrow> ret (p, par)
     | Some a \<Rightarrow> slab_search k slab (if slab < a then LeftLink x else RightLink x) x)"

definition slab_insert :: "nat \<Rightarrow> nat \<Rightarrow> ('s, unit) mm" where
  "slab_insert tree slab =
     bind (\<lambda>st n. slab_search n slab (rb_root_link tree) (rb_root_parent tree) st n) (\<lambda>(p, par).
     navi_rb_insert (Some slab) par p)"

definition slab_remove :: "nat \<Rightarrow> ('s, unit) mm" where
  "slab_remove slab = navi_rb_remove (Some slab)"

definition slab_entry :: "rb_ptr \<Rightarrow> ('s, nat) mm" where
  "slab_entry p = (case p of None \<Rightarrow> stop Mem_Undef | Some a \<Rightarrow> ret a)"

definition get_slab :: "slab_cache \<Rightarrow> nat sm" where
  "get_slab cache =
     bind (rb_and (rb_empty (partial cache)) (rb_empty (empty cache))) (\<lambda>none.
     if none then
       bind (new_slab cache) (\<lambda>slab.
       bind (slab_insert (partial cache) slab) (\<lambda>_. ret slab))
     else
       bind (rb_empty (partial cache)) (\<lambda>e.
       bind (rb_root (if e then empty cache else partial cache)) slab_entry))"

definition slab_pop :: "slab_cache \<Rightarrow> nat \<Rightarrow> nat option sm" where
  "slab_pop cache slab =
     bind (deref_slab slab) (\<lambda>s.
     if is_double cache then
       (case slab_free s of None \<Rightarrow> stop Mem_Undef | Some obj \<Rightarrow>
          bind (slab_list_remove obj) (\<lambda>_. ret (Some obj)))
     else
       bind (slab_slist_remove_head slab) (\<lambda>_. ret (slab_free s)))"

section \<open>Allocation\<close>

definition navi_slab_alloc :: "slab_cache \<Rightarrow> nat option sm" where
  "navi_slab_alloc cache =
     bind (get_slab cache) (\<lambda>slab.
     bind (slab_pop cache slab) (\<lambda>obj.
     bind (update_slab slab (\<lambda>s. s\<lparr>in_use := in_use s + 1\<rparr>)) (\<lambda>_.
     bind (deref_slab slab) (\<lambda>s.
     bind (if unat (in_use s) = objs_per_slab cache then
             bind (slab_remove slab) (\<lambda>_. slab_insert (full cache) slab)
           else if in_use s = 1 then
             bind (slab_remove slab) (\<lambda>_. slab_insert (partial cache) slab)
           else ret ()) (\<lambda>_.
     ret obj)))))"

section \<open>Freeing\<close>

definition slab_end :: "nat \<Rightarrow> nat" where
  "slab_end slab = slab + SLAB_DESC_SIZE + SLAB_MEM_SIZE"

primrec find_slab_rounds :: "nat \<Rightarrow> rb_ptr \<Rightarrow> nat \<Rightarrow> ('s, nat option) mm" where
  "find_slab_rounds 0 n mem = stop Mem_NoFuel"
| "find_slab_rounds (Suc k) n mem = (case n of
       None \<Rightarrow> ret None
     | Some slab \<Rightarrow>
         if mem < slab then bind (rb_get left n) (\<lambda>n. find_slab_rounds k n mem)
         else if mem \<ge> slab_end slab then bind (rb_get right n) (\<lambda>n. find_slab_rounds k n mem)
         else ret (Some slab))"

definition find_slab_in :: "nat \<Rightarrow> nat \<Rightarrow> ('s, nat option) mm" where
  "find_slab_in tree mem =
     bind (rb_root tree) (\<lambda>n. (\<lambda>st k. find_slab_rounds k n mem st k))"

definition find_slab :: "slab_cache \<Rightarrow> nat \<Rightarrow> nat option sm" where
  "find_slab cache mem =
     bind (find_slab_in (full cache) mem) (\<lambda>slab.
     if slab \<noteq> None then ret slab else find_slab_in (partial cache) mem)"

definition navi_slab_free :: "slab_cache \<Rightarrow> nat \<Rightarrow> unit sm" where
  "navi_slab_free cache mem =
     bind (find_slab cache mem) (\<lambda>found. case found of
       None \<Rightarrow> stop (Mem_Die ''slab_free: failed to locate slab!'')
     | Some slab \<Rightarrow>
         bind (if is_double cache then slab_list_insert slab mem else slab_slist_insert slab mem) (\<lambda>_.
         bind (update_slab slab (\<lambda>s. s\<lparr>in_use := in_use s - 1\<rparr>)) (\<lambda>_.
         bind (deref_slab slab) (\<lambda>s.
         if in_use s = 0 then
           bind (slab_remove slab) (\<lambda>_. slab_insert (empty cache) slab)
         else if unat (in_use s) + 1 = objs_per_slab cache then
           bind (slab_remove slab) (\<lambda>_. slab_insert (partial cache) slab)
         else ret ()))))"

end
