(* ===== verification/Spec_Rbtree.thy ===== *)
theory Spec_Rbtree
  imports Navi_Rbtree
begin

text \<open>
  The red-black trees of \<open>rbtree.c\<close> as trees: a store represents a tree of addresses and colours
  at a position below the nodes above it.  Every function on the store is shown to carry out a
  function on such positions; the invariants are then proved on trees.
\<close>

section \<open>Trees in the store\<close>

text \<open>The colours of tree nodes; \<open>RB_ROOT_MARK\<close> is the dummy root's.\<close>

datatype hue = Red | Black

primrec rbc :: "hue \<Rightarrow> rb_color_t" where
  "rbc Red = RB_RED"
| "rbc Black = RB_BLACK"

lemma rbc_iff [simp]: "rbc c = RB_RED \<longleftrightarrow> c = Red" "rbc c = RB_BLACK \<longleftrightarrow> c = Black"
    "rbc c \<noteq> RB_ROOT_MARK" "c \<noteq> Red \<longleftrightarrow> c = Black" "c \<noteq> Black \<longleftrightarrow> c = Red"
  by (cases c; simp)+

datatype rbt = Lf | Nd rbt nat hue rbt

primrec ptr :: "rbt \<Rightarrow> rb_ptr" where
  "ptr Lf = None"
| "ptr (Nd l a c r) = Some a"

primrec addrs :: "rbt \<Rightarrow> nat list" where
  "addrs Lf = []"
| "addrs (Nd l a c r) = addrs l @ a # addrs r"

type_synonym rb_store = "nat \<Rightarrow> rb_node option"

primrec tree_at :: "rb_store \<Rightarrow> nat \<Rightarrow> rbt \<Rightarrow> bool" where
  "tree_at h up Lf \<longleftrightarrow> True"
| "tree_at h up (Nd l a c r) \<longleftrightarrow>
     h a = Some \<lparr>left = ptr l, right = ptr r, parent = Some up, color = rbc c\<rparr> \<and>
     tree_at h a l \<and> tree_at h a r"

text \<open>
  A position: the nodes on the way up to the root, each with the side it hangs on, its colour and
  its other subtree.
\<close>

datatype frame = InL nat hue rbt | InR rbt nat hue

primrec node_of :: "frame \<Rightarrow> nat" where
  "node_of (InL a c r) = a"
| "node_of (InR l a c) = a"

primrec plug1 :: "frame \<Rightarrow> rbt \<Rightarrow> rbt" where
  "plug1 (InL a c r) t = Nd t a c r"
| "plug1 (InR l a c) t = Nd l a c t"

primrec plug :: "frame list \<Rightarrow> rbt \<Rightarrow> rbt" where
  "plug [] t = t"
| "plug (f # k) t = plug k (plug1 f t)"

primrec up :: "nat \<Rightarrow> frame list \<Rightarrow> nat" where
  "up root [] = root"
| "up root (f # k) = node_of f"

primrec frame_at :: "rb_store \<Rightarrow> frame \<Rightarrow> nat \<Rightarrow> rb_ptr \<Rightarrow> bool" where
  "frame_at h (InL a c r) u p \<longleftrightarrow>
     h a = Some \<lparr>left = p, right = ptr r, parent = Some u, color = rbc c\<rparr> \<and> tree_at h a r"
| "frame_at h (InR l a c) u p \<longleftrightarrow>
     h a = Some \<lparr>left = ptr l, right = p, parent = Some u, color = rbc c\<rparr> \<and> tree_at h a l"

definition root_at :: "rb_store \<Rightarrow> nat \<Rightarrow> rb_ptr \<Rightarrow> bool" where
  "root_at h root p \<longleftrightarrow>
     h root = Some \<lparr>left = p, right = None, parent = None, color = RB_ROOT_MARK\<rparr>"

primrec ctx_at :: "rb_store \<Rightarrow> nat \<Rightarrow> frame list \<Rightarrow> rb_ptr \<Rightarrow> bool" where
  "ctx_at h root [] p \<longleftrightarrow> root_at h root p"
| "ctx_at h root (f # k) p \<longleftrightarrow> frame_at h f (up root k) p \<and> ctx_at h root k (Some (node_of f))"

primrec frame_before :: "frame \<Rightarrow> nat list" where
  "frame_before (InL a c r) = []"
| "frame_before (InR l a c) = addrs l @ [a]"

primrec frame_after :: "frame \<Rightarrow> nat list" where
  "frame_after (InL a c r) = a # addrs r"
| "frame_after (InR l a c) = []"

primrec before :: "frame list \<Rightarrow> nat list" where
  "before [] = []"
| "before (f # k) = before k @ frame_before f"

primrec after :: "frame list \<Rightarrow> nat list" where
  "after [] = []"
| "after (f # k) = frame_after f @ after k"

lemma addrs_plug [simp]: "addrs (plug k t) = before k @ addrs t @ after k"
proof (induction k arbitrary: t)
  case (Cons f k)
  then show ?case by (cases f) simp_all
qed simp

text \<open>All addresses are different: the addresses of the whole tree, the dummy root included.\<close>

definition zip_at :: "'s rb_mem_scheme \<Rightarrow> nat \<Rightarrow> frame list \<Rightarrow> rbt \<Rightarrow> bool" where
  "zip_at st root k t \<longleftrightarrow>
     ctx_at (rb_nodes st) root k (ptr t) \<and> tree_at (rb_nodes st) (up root k) t \<and>
     distinct (root # before k @ addrs t @ after k)"

text \<open>What a step leaves alone.\<close>

definition outside :: "nat set \<Rightarrow> 's rb_mem_scheme \<Rightarrow> 's rb_mem_scheme \<Rightarrow> bool" where
  "outside A st st' \<longleftrightarrow>
     (\<forall>a. a \<notin> A \<longrightarrow> rb_nodes st' a = rb_nodes st a) \<and> rb_mem.more st' = rb_mem.more st"

abbreviation zip_addrs :: "nat \<Rightarrow> frame list \<Rightarrow> rbt \<Rightarrow> nat set" where
  "zip_addrs root k t \<equiv> insert root (set (before k) \<union> set (addrs t) \<union> set (after k))"

lemma outside_refl [simp]: "outside A st st"
  by (simp add: outside_def)

lemma outside_trans: "outside A st st' \<Longrightarrow> outside A st' st'' \<Longrightarrow> outside A st st''"
  by (simp add: outside_def)

section \<open>Reading and writing\<close>

lemma rb_get_run: "rb_nodes st a = Some nd \<Longrightarrow> rb_get f (Some a) st n = (Inr (f nd), st)"
  by (simp add: rb_get_def rb_deref_def bind_def)

lemma rb_set_run:
  "rb_nodes st a = Some nd \<Longrightarrow>
   rb_set (Some a) f st n = (Inr (), st\<lparr>rb_nodes := (rb_nodes st)(a \<mapsto> f nd)\<rparr>)"
  by (simp add: rb_set_def rb_deref_def bind_def)

lemmas rb_field_defs = set_left_def set_right_def set_parent_def set_color_def

lemmas rb_run = bind_run rb_get_run rb_set_run rb_field_defs rb_and_def

lemma tree_at_upd [simp]: "a \<notin> set (addrs t) \<Longrightarrow> tree_at (h(a := x)) u t = tree_at h u t"
  by (induction t arbitrary: u) auto

lemma up_in: "up root k = root \<or> up root k \<in> set (before k) \<union> set (after k)"
proof (cases k)
  case (Cons f k')
  then show ?thesis by (cases f) auto
qed simp

lemma ctx_at_upd [simp]:
  "a \<noteq> root \<Longrightarrow> a \<notin> set (before k) \<Longrightarrow> a \<notin> set (after k) \<Longrightarrow>
   ctx_at (h(a := x)) root k p = ctx_at h root k p"
proof (induction k arbitrary: p)
  case (Cons f k)
  have IH: "ctx_at (h(a := x)) root k q = ctx_at h root k q" for q
    by (rule Cons.IH) (use Cons.prems in simp_all)
  show ?case
  proof (cases f)
    case (InL v c t)
    show ?thesis using Cons.prems unfolding InL ctx_at.simps frame_at.simps by (simp add: IH)
  next
    case (InR t v c)
    show ?thesis using Cons.prems unfolding InR ctx_at.simps frame_at.simps by (simp add: IH)
  qed
qed (simp add: root_at_def)

lemma up_apart:
  "a \<noteq> root \<Longrightarrow> a \<notin> set (before k) \<Longrightarrow> a \<notin> set (after k) \<Longrightarrow> up root k \<noteq> a"
  using up_in [of root k] by auto

lemma up_node:
  assumes "ctx_at h root k p"
  shows "\<exists>nd. h (up root k) = Some nd"
proof (cases k)
  case (Cons f k')
  then show ?thesis using assms by (cases f) auto
qed (use assms in \<open>auto simp: root_at_def\<close>)

text \<open>The root of a tree hangs on the field that the position says.\<close>

definition hangs_left :: "frame list \<Rightarrow> bool" where
  "hangs_left k \<longleftrightarrow> (case k of InR l a c # k' \<Rightarrow> False | _ \<Rightarrow> True)"

lemma ptr_in_addrs: "ptr t = Some a \<Longrightarrow> a \<in> set (addrs t)"
  by (cases t) auto

lemma child_side:
  assumes "ctx_at h root k (Some a)" and "h (up root k) = Some nd"
    and "a \<notin> set (before k)" and "a \<notin> set (after k)"
  shows "Some a = left nd \<longleftrightarrow> hangs_left k"
    and "Some a = right nd \<longleftrightarrow> \<not> hangs_left k"
proof -
  have other: "a \<notin> set (addrs t) \<Longrightarrow> Some a \<noteq> ptr t" for t by (cases t) auto
  have "(Some a = left nd \<longleftrightarrow> hangs_left k) \<and> (Some a = right nd \<longleftrightarrow> \<not> hangs_left k)"
  proof (cases k)
    case Nil
    then have "nd = \<lparr>left = Some a, right = None, parent = None, color = RB_ROOT_MARK\<rparr>"
      using assms by (simp add: root_at_def)
    then show ?thesis using Nil by (simp add: hangs_left_def)
  next
    case (Cons f k')
    show ?thesis
    proof (cases f)
      case (InL v c t)
      then have "nd = \<lparr>left = Some a, right = ptr t, parent = Some (up root k'), color = rbc c\<rparr>"
        using assms Cons by simp
      then show ?thesis using Cons InL assms(3,4) other [of t] by (simp add: hangs_left_def)
    next
      case (InR t v c)
      then have "nd = \<lparr>left = ptr t, right = Some a, parent = Some (up root k'), color = rbc c\<rparr>"
        using assms Cons by simp
      then show ?thesis using Cons InR assms(3,4) other [of t] by (simp add: hangs_left_def)
    qed
  qed
  then show "Some a = left nd \<longleftrightarrow> hangs_left k" and "Some a = right nd \<longleftrightarrow> \<not> hangs_left k" by simp_all
qed

definition rehang :: "rb_store \<Rightarrow> nat \<Rightarrow> frame list \<Rightarrow> rb_ptr \<Rightarrow> rb_store" where
  "rehang h root k x = h(up root k \<mapsto>
     (if hangs_left k then (the (h (up root k)))\<lparr>left := x\<rparr>
      else (the (h (up root k)))\<lparr>right := x\<rparr>))"

lemma rehang_other [simp]: "b \<noteq> up root k \<Longrightarrow> rehang h root k x b = h b"
  by (simp add: rehang_def)

lemma tree_at_rehang [simp]:
  "up root k \<notin> set (addrs t) \<Longrightarrow> tree_at (rehang h root k x) u t = tree_at h u t"
  by (simp add: rehang_def)

lemma ctx_rehang:
  assumes "ctx_at h root k y" and "distinct (root # before k @ after k)"
  shows "ctx_at (rehang h root k x) root k x"
proof (cases k)
  case Nil
  then show ?thesis using assms by (simp add: rehang_def root_at_def hangs_left_def)
next
  case (Cons f k')
  show ?thesis
  proof (cases f)
    case (InL v c t)
    show ?thesis using assms unfolding Cons InL ctx_at.simps frame_at.simps rehang_def
      by (simp add: hangs_left_def)
  next
    case (InR t v c)
    show ?thesis using assms unfolding Cons InR ctx_at.simps frame_at.simps rehang_def
      by (simp add: hangs_left_def)
  qed
qed

lemma is_left_child_run:
  assumes "ctx_at (rb_nodes st) root k (Some a)" and "rb_nodes st a = Some na"
    and "parent na = Some (up root k)" and "a \<notin> set (before k)" and "a \<notin> set (after k)"
  shows "is_left_child (Some a) st n = (Inr (hangs_left k), st)"
    and "is_right_child (Some a) st n = (Inr (\<not> hangs_left k), st)"
proof -
  obtain nd where nd: "rb_nodes st (up root k) = Some nd" using up_node [OF assms(1)] by blast
  show "is_left_child (Some a) st n = (Inr (hangs_left k), st)"
    and "is_right_child (Some a) st n = (Inr (\<not> hangs_left k), st)"
    using assms nd child_side [OF assms(1) nd assms(4,5)]
    by (simp_all add: is_left_child_def is_right_child_def rb_run)
qed

lemma replace_run:
  assumes "ctx_at (rb_nodes st) root k (Some a)" and "rb_nodes st a = Some na"
    and "parent na = Some (up root k)" and "a \<notin> set (before k)" and "a \<notin> set (after k)" and "a \<noteq> root"
    and "\<And>b. x = Some b \<Longrightarrow> rb_nodes st b = Some (nb b) \<and> b \<noteq> up root k"
  shows "replace (Some a) x st n = (Inr (), st\<lparr>rb_nodes :=
     (case x of None \<Rightarrow> rehang (rb_nodes st) root k x
      | Some b \<Rightarrow> (rehang (rb_nodes st) root k x)(b \<mapsto> (nb b)\<lparr>parent := Some (up root k)\<rparr>))\<rparr>)"
proof -
  obtain nd where nd: "rb_nodes st (up root k) = Some nd" using up_node [OF assms(1)] by blast
  have a: "a \<noteq> up root k" using up_apart [OF assms(6,4,5)] by simp
  show ?thesis
    using assms(2,3,7) nd a is_left_child_run [OF assms(1-5)]
    by (cases x; cases "hangs_left k") (simp_all add: replace_def rb_run rehang_def)
qed

section \<open>Rotations\<close>

lemma rotate_left_zip:
  assumes "zip_at st root k (Nd ta p c (Nd tb q d tc))"
  shows "\<exists>st'. rotate_left (Some p) st n = (Inr (), st') \<and>
    zip_at st' root k (Nd (Nd ta p c tb) q d tc) \<and>
    outside (zip_addrs root k (Nd ta p c (Nd tb q d tc))) st st'"
proof -
  let ?h = "rb_nodes st" and ?u = "up root k"
  have ctx: "ctx_at ?h root k (Some p)" and dist: "distinct (root # before k @ after k)"
    and p: "?h p = Some \<lparr>left = ptr ta, right = Some q, parent = Some ?u, color = rbc c\<rparr>"
    and q: "?h q = Some \<lparr>left = ptr tb, right = ptr tc, parent = Some p, color = rbc d\<rparr>"
    and t: "tree_at ?h p ta" "tree_at ?h q tb" "tree_at ?h q tc"
    using assms by (auto simp: zip_at_def)
  have u: "?u \<noteq> p" "?u \<noteq> q" "?u \<notin> set (addrs ta)" "?u \<notin> set (addrs tb)" "?u \<notin> set (addrs tc)"
    using assms up_in [of root k] by (auto simp: zip_at_def)
  have apart: "p \<notin> set (before k)" "p \<notin> set (after k)" "p \<noteq> root" "p \<noteq> q"
    "q \<notin> set (before k)" "q \<notin> set (after k)" "q \<noteq> root"
    using assms by (auto simp: zip_at_def)
  let ?h1 = "(rehang ?h root k (Some q))(q \<mapsto> \<lparr>left = ptr tb, right = ptr tc, parent = Some ?u, color = rbc d\<rparr>)"
  have rep: "replace (Some p) (Some q) st n = (Inr (), st\<lparr>rb_nodes := ?h1\<rparr>)"
    using replace_run [OF ctx p _ apart(1,2,3), where x = "Some q" and nb = "\<lambda>_. \<lparr>left = ptr tb, right = ptr tc, parent = Some p, color = rbc d\<rparr>" and n = n] q u
    by simp
  have out: "a \<noteq> root \<Longrightarrow> a \<notin> set (before k) \<Longrightarrow> a \<notin> set (after k) \<Longrightarrow> a \<noteq> ?u" for a
    using up_apart [of a root k] by simp
  show ?thesis
  proof (cases tb)
    case Lf
    show ?thesis using assms p q u apart t rep ctx_rehang [OF ctx dist] out Lf
      by (simp add: rotate_left_def rb_run zip_at_def outside_def)
  next
    case (Nd tl b e tr)
    show ?thesis using assms p q u apart t rep ctx_rehang [OF ctx dist] out Nd
      by (simp add: rotate_left_def rb_run zip_at_def outside_def)
  qed
qed

lemma rotate_right_zip:
  assumes "zip_at st root k (Nd (Nd ta q d tb) p c tc)"
  shows "\<exists>st'. rotate_right (Some p) st n = (Inr (), st') \<and>
    zip_at st' root k (Nd ta q d (Nd tb p c tc)) \<and>
    outside (zip_addrs root k (Nd (Nd ta q d tb) p c tc)) st st'"
proof -
  let ?h = "rb_nodes st" and ?u = "up root k"
  have ctx: "ctx_at ?h root k (Some p)" and dist: "distinct (root # before k @ after k)"
    and p: "?h p = Some \<lparr>left = Some q, right = ptr tc, parent = Some ?u, color = rbc c\<rparr>"
    and q: "?h q = Some \<lparr>left = ptr ta, right = ptr tb, parent = Some p, color = rbc d\<rparr>"
    and t: "tree_at ?h q ta" "tree_at ?h q tb" "tree_at ?h p tc"
    using assms by (auto simp: zip_at_def)
  have u: "?u \<noteq> p" "?u \<noteq> q" "?u \<notin> set (addrs ta)" "?u \<notin> set (addrs tb)" "?u \<notin> set (addrs tc)"
    using assms up_in [of root k] by (auto simp: zip_at_def)
  have apart: "p \<notin> set (before k)" "p \<notin> set (after k)" "p \<noteq> root" "p \<noteq> q"
    "q \<notin> set (before k)" "q \<notin> set (after k)" "q \<noteq> root"
    using assms by (auto simp: zip_at_def)
  let ?h1 = "(rehang ?h root k (Some q))(q \<mapsto> \<lparr>left = ptr ta, right = ptr tb, parent = Some ?u, color = rbc d\<rparr>)"
  have rep: "replace (Some p) (Some q) st n = (Inr (), st\<lparr>rb_nodes := ?h1\<rparr>)"
    using replace_run [OF ctx p _ apart(1,2,3), where x = "Some q" and nb = "\<lambda>_. \<lparr>left = ptr ta, right = ptr tb, parent = Some p, color = rbc d\<rparr>" and n = n] q u
    by simp
  have out: "a \<noteq> root \<Longrightarrow> a \<notin> set (before k) \<Longrightarrow> a \<notin> set (after k) \<Longrightarrow> a \<noteq> ?u" for a
    using up_apart [of a root k] by simp
  show ?thesis
  proof (cases tb)
    case Lf
    show ?thesis using assms p q u apart t rep ctx_rehang [OF ctx dist] out Lf
      by (simp add: rotate_right_def rb_run zip_at_def outside_def)
  next
    case (Nd tl b e tr)
    show ?thesis using assms p q u apart t rep ctx_rehang [OF ctx dist] out Nd
      by (simp add: rotate_right_def rb_run zip_at_def outside_def)
  qed
qed

section \<open>Moving and painting\<close>

lemma zip_up:
  "zip_at st root (f # k) t \<longleftrightarrow> zip_at st root k (plug1 f t)"
  by (cases f) (auto simp: zip_at_def)

lemma zip_InL: "zip_at st root k (Nd t a c r) \<longleftrightarrow> zip_at st root (InL a c r # k) t"
  by (simp add: zip_up)

lemma zip_InR: "zip_at st root k (Nd l a c t) \<longleftrightarrow> zip_at st root (InR l a c # k) t"
  by (simp add: zip_up)

lemma set_color_zip:
  assumes "zip_at st root k (Nd l a c r)"
  shows "\<exists>st'. set_color (Some a) (rbc d) st n = (Inr (), st') \<and> zip_at st' root k (Nd l a d r) \<and>
    outside (zip_addrs root k (Nd l a c r)) st st'"
  using assms up_apart [of a root k]
  by (auto simp: zip_at_def rb_run outside_def)

lemma zip_parent:
  "zip_at st root k (Nd l a c r) \<Longrightarrow> rb_get parent (Some a) st n = (Inr (Some (up root k)), st)"
  by (simp add: zip_at_def rb_run)

lemma zip_left:
  "zip_at st root k (Nd l a c r) \<Longrightarrow> rb_get left (Some a) st n = (Inr (ptr l), st)"
  by (simp add: zip_at_def rb_run)

lemma zip_right:
  "zip_at st root k (Nd l a c r) \<Longrightarrow> rb_get right (Some a) st n = (Inr (ptr r), st)"
  by (simp add: zip_at_def rb_run)

primrec hue_of :: "rbt \<Rightarrow> hue" where
  "hue_of Lf = Black"
| "hue_of (Nd l a c r) = c"

primrec frame_hue :: "frame \<Rightarrow> hue" where
  "frame_hue (InL a c r) = c"
| "frame_hue (InR l a c) = c"

primrec other :: "frame \<Rightarrow> rbt" where
  "other (InL a c r) = r"
| "other (InR l a c) = l"

lemma tree_is_black: "tree_at (rb_nodes st) u t \<Longrightarrow> is_black (ptr t) st n = (Inr (hue_of t = Black), st)"
  by (cases t) (simp_all add: is_black_def rb_run)

lemma tree_is_red: "tree_at (rb_nodes st) u t \<Longrightarrow> is_red (ptr t) st n = (Inr (hue_of t = Red), st)"
  by (cases t) (simp_all add: is_red_def rb_run)

lemma frame_color:
  "zip_at st root (f # k) t \<Longrightarrow> rb_get color (Some (node_of f)) st n = (Inr (rbc (frame_hue f)), st)"
  by (cases f) (simp_all add: zip_at_def rb_run)

lemma frame_is_black:
  "zip_at st root (f # k) t \<Longrightarrow> is_black (Some (node_of f)) st n = (Inr (frame_hue f = Black), st)"
  by (cases f) (simp_all add: zip_at_def rb_run is_black_def)

lemma frame_parent:
  "zip_at st root (f # k) t \<Longrightarrow> rb_get parent (Some (node_of f)) st n = (Inr (Some (up root k)), st)"
  by (cases f) (simp_all add: zip_at_def rb_run)

lemma zip_is_root:
  assumes "zip_at st root k (Nd l a c r)"
  shows "is_root (Some a) st n = (Inr (k = []), st)"
proof (cases k)
  case Nil
  then show ?thesis using assms by (simp add: is_root_def rb_run zip_at_def root_at_def)
next
  case (Cons f k')
  then show ?thesis using frame_color [of st root f k'] zip_parent [OF assms] assms
    by (simp add: is_root_def rb_run)
qed

lemma zip_is_left_child:
  assumes "zip_at st root k (Nd l a c r)"
  shows "is_left_child (Some a) st n = (Inr (hangs_left k), st)"
    and "is_right_child (Some a) st n = (Inr (\<not> hangs_left k), st)"
proof -
  have "a \<notin> set (before k)" "a \<notin> set (after k)" "ctx_at (rb_nodes st) root k (Some a)"
    "rb_nodes st a = Some \<lparr>left = ptr l, right = ptr r, parent = Some (up root k), color = rbc c\<rparr>"
    using assms by (auto simp: zip_at_def)
  then show "is_left_child (Some a) st n = (Inr (hangs_left k), st)"
    and "is_right_child (Some a) st n = (Inr (\<not> hangs_left k), st)"
    by (auto intro!: is_left_child_run)
qed

lemma zip_sibling:
  assumes "zip_at st root (f # k) (Nd l a c r)"
  shows "rb_sibling (Some a) st n = (Inr (ptr (other f)), st)"
  using zip_is_left_child [OF assms] zip_parent [OF assms] assms
  by (cases f) (simp_all add: rb_sibling_def rb_run hangs_left_def zip_at_def)

lemma zip_uncle:
  assumes "zip_at st root (f # g # k) t" and "t \<noteq> Lf"
  shows "rb_uncle (ptr t) st n = (Inr (ptr (other g)), st)"
proof -
  obtain l a c r where t: "t = Nd l a c r" using assms(2) by (cases t) auto
  have f: "zip_at st root (g # k) (plug1 f t)" using assms(1) by (simp add: zip_up)
  obtain l' c' r' where ft: "plug1 f t = Nd l' (node_of f) c' r'" by (cases f) auto
  have side: "is_left_child (Some (node_of f)) st n = (Inr (hangs_left (g # k)), st)"
    by (rule zip_is_left_child(1)) (use f ft in simp)
  have p: "rb_get parent (Some a) st n = (Inr (Some (node_of f)), st)"
    using zip_parent [of st root "f # g # k" l a c r] assms(1) t by simp
  have g: "rb_get parent (Some (node_of f)) st n = (Inr (Some (node_of g)), st)"
    using frame_parent [OF assms(1)] by simp
  obtain ng where ng: "rb_nodes st (node_of g) = Some ng"
    using f by (cases g) (auto simp: zip_at_def)
  have other: "ptr (other g) = (if hangs_left (g # k) then right ng else left ng)"
  proof (cases g)
    case (InL v c s)
    then have "ng = \<lparr>left = ptr (plug1 f t), right = ptr s, parent = Some (up root k), color = rbc c\<rparr>"
      using f ng by (simp add: zip_at_def)
    then show ?thesis using InL by (simp add: hangs_left_def)
  next
    case (InR s v c)
    then have "ng = \<lparr>left = ptr s, right = ptr (plug1 f t), parent = Some (up root k), color = rbc c\<rparr>"
      using f ng by (simp add: zip_at_def)
    then show ?thesis using InR by (simp add: hangs_left_def)
  qed
  have "(Some (node_of f) = left ng) = hangs_left (g # k)"
    using side g ng by (simp add: is_left_child_def rb_run)
  then show ?thesis using p g ng other t by (simp add: rb_uncle_def rb_run)
qed

section \<open>Insertion as a function on positions\<close>

primrec blacken :: "rbt \<Rightarrow> rbt" where
  "blacken Lf = Lf"
| "blacken (Nd l a c r) = Nd l a Black r"

primrec hue_frame :: "hue \<Rightarrow> frame \<Rightarrow> frame" where
  "hue_frame d (InL a c r) = InL a d r"
| "hue_frame d (InR l a c) = InR l a d"

primrec set_other :: "rbt \<Rightarrow> frame \<Rightarrow> frame" where
  "set_other t (InL a c r) = InL a c t"
| "set_other t (InR l a c) = InR t a c"

text \<open>
  Cases 4 and 5 below the grandparent frame \<open>g\<close>: the rotated tree, and the position of the new
  focus in it.
\<close>

fun rotated :: "frame \<Rightarrow> frame \<Rightarrow> rbt \<Rightarrow> frame \<times> rbt" where
  "rotated (InL p c s) (InL g d u) t = (InL p Black (Nd s g Red u), t)"
| "rotated (InR s p c) (InL g d u) (Nd l a e r) = (InL a Black (Nd r g Red u), Nd s p Red l)"
| "rotated (InR s p c) (InR u g d) t = (InR (Nd u g Red s) p Black, t)"
| "rotated (InL p c s) (InR u g d) (Nd l a e r) = (InR (Nd u g Red l) a Black, Nd r p Red s)"
| "rotated f g Lf = (f, Lf)"

fun ins_fix :: "frame list \<Rightarrow> rbt \<Rightarrow> rbt" where
  "ins_fix [] t = blacken t"
| "ins_fix [f] t = plug [f] t"
| "ins_fix (f # g # k) t =
     (if frame_hue f = Black then plug (f # g # k) t
      else if hue_of (other g) = Red then
        ins_fix k (plug1 (hue_frame Red (set_other (blacken (other g)) g)) (plug1 (hue_frame Black f) t))
      else (case rotated f g t of (f', t') \<Rightarrow> plug (f' # k) t'))"

lemma node_hue_frame [simp]: "node_of (hue_frame d f) = node_of f" "other (hue_frame d f) = other f"
    "frame_hue (hue_frame d f) = d"
  by (cases f; simp)+

lemma node_set_other [simp]: "node_of (set_other t f) = node_of f" "other (set_other t f) = t"
    "frame_hue (set_other t f) = frame_hue f"
  by (cases f; simp)+

lemma set_color_frame:
  assumes "zip_at st root (f # k) t"
  shows "\<exists>st'. set_color (Some (node_of f)) (rbc d) st n = (Inr (), st') \<and>
    zip_at st' root (hue_frame d f # k) t \<and> outside (zip_addrs root (f # k) t) st st'"
proof (cases f)
  case (InL a c r)
  then show ?thesis using set_color_zip [of st root k t a c r d n] assms
    by (auto simp: zip_up insert_commute Un_ac)
next
  case (InR l a c)
  then show ?thesis using set_color_zip [of st root k l a c t d n] assms
    by (auto simp: zip_up insert_commute Un_ac)
qed

lemma set_color_other:
  assumes "zip_at st root (f # k) t" and "other f = Nd l a c r"
  shows "\<exists>st'. set_color (Some a) (rbc d) st n = (Inr (), st') \<and>
    zip_at st' root (set_other (Nd l a d r) f # k) t \<and> outside (zip_addrs root (f # k) t) st st'"
proof (cases f)
  case (InL b e s)
  then show ?thesis
    using set_color_zip [of st root "InR t b e # k" l a c r d n] assms
    by (auto simp: zip_up insert_commute Un_ac)
next
  case (InR s b e)
  then show ?thesis
    using set_color_zip [of st root "InL b e t # k" l a c r d n] assms
    by (auto simp: zip_up insert_commute Un_ac)
qed

section \<open>Insertion on the store\<close>

primrec same_side :: "frame \<Rightarrow> frame \<Rightarrow> bool" where
  "same_side (InL a c r) g \<longleftrightarrow> (case g of InL _ _ _ \<Rightarrow> True | _ \<Rightarrow> False)"
| "same_side (InR l a c) g \<longleftrightarrow> (case g of InR _ _ _ \<Rightarrow> True | _ \<Rightarrow> False)"

lemma focus_sides:
  assumes "zip_at st root (f # g # k) t" and "t \<noteq> Lf"
  shows "is_left_child (ptr t) st n = (Inr (hangs_left [f]), st)"
    and "is_right_child (ptr t) st n = (Inr (\<not> hangs_left [f]), st)"
    and "is_left_child (Some (node_of f)) st n = (Inr (hangs_left [g]), st)"
    and "is_right_child (Some (node_of f)) st n = (Inr (\<not> hangs_left [g]), st)"
    and "rb_get parent (ptr t) st n = (Inr (Some (node_of f)), st)"
    and "rb_get parent (Some (node_of f)) st n = (Inr (Some (node_of g)), st)"
proof -
  obtain l a c r where t: "t = Nd l a c r" using assms(2) by (cases t) auto
  have f: "zip_at st root (g # k) (plug1 f t)" using assms(1) by (simp add: zip_up)
  obtain l' c' r' where ft: "plug1 f t = Nd l' (node_of f) c' r'" by (cases f) auto
  have head: "hangs_left (x # y) = hangs_left [x]" for x y by (simp add: hangs_left_def)
  show "is_left_child (ptr t) st n = (Inr (hangs_left [f]), st)"
    and "is_right_child (ptr t) st n = (Inr (\<not> hangs_left [f]), st)"
    using zip_is_left_child [of st root "f # g # k" l a c r] assms(1) t head [of f "g # k"] by auto
  show "is_left_child (Some (node_of f)) st n = (Inr (hangs_left [g]), st)"
    and "is_right_child (Some (node_of f)) st n = (Inr (\<not> hangs_left [g]), st)"
    using zip_is_left_child [of st root "g # k" l' "node_of f" c' r'] f ft head [of g k] by auto
  show "rb_get parent (ptr t) st n = (Inr (Some (node_of f)), st)"
    using zip_parent [of st root "f # g # k" l a c r] assms(1) t by simp
  show "rb_get parent (Some (node_of f)) st n = (Inr (Some (node_of g)), st)"
    using frame_parent [OF assms(1)] by simp
qed

lemma paint_two:
  assumes "zip_at st root (f # g # k) t"
  shows "\<exists>st1 st2. set_color (Some (node_of f)) (rbc c) st n = (Inr (), st1) \<and>
    zip_at st1 root (hue_frame c f # g # k) t \<and>
    set_color (Some (node_of g)) (rbc d) st1 n = (Inr (), st2) \<and>
    zip_at st2 root (hue_frame c f # hue_frame d g # k) t \<and>
    outside (zip_addrs root (f # g # k) t) st st2"
proof -
  obtain st1 where 1: "set_color (Some (node_of f)) (rbc c) st n = (Inr (), st1)"
      "zip_at st1 root (hue_frame c f # g # k) t" "outside (zip_addrs root (f # g # k) t) st st1"
    using set_color_frame [OF assms, of c n] by blast
  have "zip_at st1 root (g # k) (plug1 (hue_frame c f) t)" using 1(2) by (simp add: zip_up)
  then obtain st2 where 2: "set_color (Some (node_of g)) (rbc d) st1 n = (Inr (), st2)"
      "zip_at st2 root (hue_frame d g # k) (plug1 (hue_frame c f) t)"
      "outside (zip_addrs root (g # k) (plug1 (hue_frame c f) t)) st1 st2"
    using set_color_frame [of st1 root g k _ d n] by blast
  have "zip_addrs root (g # k) (plug1 (hue_frame c f) t) = zip_addrs root (f # g # k) t"
    by (cases f) auto
  then have "outside (zip_addrs root (f # g # k) t) st st2" using 1(3) 2(3) outside_trans by metis
  moreover have "zip_at st2 root (hue_frame c f # hue_frame d g # k) t" using 2(2) by (simp add: zip_up)
  ultimately show ?thesis using 1(1,2) 2(1) by blast
qed

lemma insert_case5_run:
  assumes "zip_at st root (f # g # k) t" and "t \<noteq> Lf" and "same_side f g"
  shows "\<exists>st'. insert_case5 (ptr t) st n = (Inr (), st') \<and>
    zip_at st' root (fst (rotated f g t) # k) t \<and>
    outside (zip_addrs root (f # g # k) t) st st'"
proof -
  let ?f = "hue_frame Black f" and ?g = "hue_frame Red g"
  obtain st1 st2 where p: "set_color (Some (node_of f)) RB_BLACK st n = (Inr (), st1)"
      "zip_at st1 root (?f # g # k) t" "set_color (Some (node_of g)) RB_RED st1 n = (Inr (), st2)"
      "zip_at st2 root (?f # ?g # k) t" "outside (zip_addrs root (f # g # k) t) st st2"
    using paint_two [OF assms(1), of Black n Red] by auto
  note s0 = focus_sides [OF assms(1,2)] and s1 = focus_sides [OF p(2) assms(2)]
    and s2 = focus_sides [OF p(4) assms(2)]
  have "\<exists>st'. (if hangs_left [g] then rotate_right (Some (node_of g)) else rotate_left (Some (node_of g))) st2 n = (Inr (), st') \<and>
    zip_at st' root (fst (rotated f g t) # k) t \<and> outside (zip_addrs root (f # g # k) t) st2 st'"
  proof (cases g)
    case gL: (InL gp d u)
    then obtain pa c s where fL: "f = InL pa c s" using assms(3) by (cases f) auto
    have "zip_at st2 root k (Nd (Nd t pa Black s) gp Red u)" using p(4) gL fL by (simp add: zip_up)
    from rotate_right_zip [OF this, of n] show ?thesis using gL fL
      by (simp add: zip_up hangs_left_def insert_commute Un_ac)
  next
    case gR: (InR u gp d)
    then obtain pa c s where fR: "f = InR s pa c" using assms(3) by (cases f) auto
    have "zip_at st2 root k (Nd u gp Red (Nd s pa Black t))" using p(4) gR fR by (simp add: zip_up)
    from rotate_left_zip [OF this, of n] show ?thesis using gR fR
      by (simp add: zip_up hangs_left_def insert_commute Un_ac)
  qed
  then obtain st' where r: "(if hangs_left [g] then rotate_right (Some (node_of g)) else rotate_left (Some (node_of g))) st2 n = (Inr (), st')"
    "zip_at st' root (fst (rotated f g t) # k) t" "outside (zip_addrs root (f # g # k) t) st2 st'"
    by blast
  have sides: "hangs_left [f] = hangs_left [g]" "hangs_left [?f] = hangs_left [f]" "hangs_left [?g] = hangs_left [g]"
    using assms(3) by (cases f; cases g; simp add: hangs_left_def)+
  have "insert_case5 (ptr t) st n = (Inr (), st')"
    using s0 s1 s2 p(1,3) r(1) sides
    by (cases "hangs_left [g]") (simp_all add: insert_case5_def bind_run rb_and_def)
  then show ?thesis using r(2,3) p(5) outside_trans by blast
qed

lemma insert_case4_run:
  assumes "zip_at st root (f # g # k) t" and "t \<noteq> Lf" and "frame_hue f = Red"
  shows "\<exists>st' f' t'. insert_case4 (ptr t) st n = (Inr (ptr t'), st') \<and>
    zip_at st' root (f' # g # k) t' \<and> outside (zip_addrs root (f # g # k) t) st st' \<and>
    t' \<noteq> Lf \<and> same_side f' g \<and> rotated f' g t' = rotated f g t \<and> t' = snd (rotated f g t) \<and>
    zip_addrs root (f' # g # k) t' = zip_addrs root (f # g # k) t"
proof -
  obtain l a e r where t: "t = Nd l a e r" using assms(2) by (cases t) auto
  note s0 = focus_sides [OF assms(1,2)]
  consider (same) "same_side f g" | (LR) p s gp d u where "f = InR s p Red" "g = InL gp d u"
    | (RL) p s gp d u where "f = InL p Red s" "g = InR u gp d"
    using assms(3) by (cases f; cases g) auto
  then show ?thesis
  proof cases
    case same
    have "insert_case4 (ptr t) st n = (Inr (ptr t), st)"
      using s0 same by (cases f; cases g) (simp_all add: insert_case4_def bind_run rb_and_def hangs_left_def)
    moreover have "snd (rotated f g t) = t" using same by (cases f; cases g) auto
    ultimately show ?thesis using assms(1,2) same by fastforce
  next
    case LR
    have "zip_at st root (g # k) (Nd s p Red (Nd l a e r))" using assms(1) LR t by (simp add: zip_up)
    from rotate_left_zip [OF this, of n] obtain st' where
      r: "rotate_left (Some p) st n = (Inr (), st')" "zip_at st' root (g # k) (Nd (Nd s p Red l) a e r)"
      "outside (zip_addrs root (f # g # k) t) st st'"
      using LR t by (auto simp: insert_commute Un_ac)
    have "insert_case4 (ptr t) st n = (Inr (Some p), st')"
      using s0 r(1) zip_left [OF r(2)] LR t
      by (simp add: insert_case4_def bind_run rb_and_def hangs_left_def)
    then show ?thesis using r LR t
      by (intro exI [of _ st'] exI [of _ "InL a e r"] exI [of _ "Nd s p Red l"])
        (auto simp: zip_up)
  next
    case RL
    have "zip_at st root (g # k) (Nd (Nd l a e r) p Red s)" using assms(1) RL t by (simp add: zip_up)
    from rotate_right_zip [OF this, of n] obtain st' where
      r: "rotate_right (Some p) st n = (Inr (), st')" "zip_at st' root (g # k) (Nd l a e (Nd r p Red s))"
      "outside (zip_addrs root (f # g # k) t) st st'"
      using RL t by (auto simp: insert_commute Un_ac)
    have "insert_case4 (ptr t) st n = (Inr (Some p), st')"
      using s0 r(1) zip_right [OF r(2)] RL t
      by (simp add: insert_case4_def bind_run rb_and_def hangs_left_def)
    then show ?thesis using r RL t
      by (intro exI [of _ st'] exI [of _ "InR l a e"] exI [of _ "Nd r p Red s"])
        (auto simp: zip_up)
  qed
qed

lemma zip_plug: "zip_at st root k t \<Longrightarrow> zip_at st root [] (plug k t)"
proof (induction k arbitrary: t)
  case (Cons f k)
  then show ?case using Cons.IH [of "plug1 f t"] by (simp add: zip_up)
qed simp

lemma zip_addrs_plug1: "zip_addrs root k (plug1 f t) = zip_addrs root (f # k) t"
  by (cases f) auto

text \<open>Case 3: a red uncle.\<close>

lemma insert_case3_run:
  assumes "zip_at st root (f # g # k) t" and "t \<noteq> Lf" and "other g = Nd ul ua uc ur"
  shows "\<exists>st1 st2 st3. set_color (Some (node_of f)) RB_BLACK st n = (Inr (), st1) \<and>
    set_color (Some ua) RB_BLACK st1 n = (Inr (), st2) \<and>
    rb_get parent (Some (node_of f)) st2 n = (Inr (Some (node_of g)), st2) \<and>
    set_color (Some (node_of g)) RB_RED st2 n = (Inr (), st3) \<and>
    zip_at st3 root k (plug1 (hue_frame Red (set_other (Nd ul ua Black ur) g)) (plug1 (hue_frame Black f) t)) \<and>
    outside (zip_addrs root (f # g # k) t) st st3"
proof -
  let ?f = "hue_frame Black f" and ?g = "set_other (Nd ul ua Black ur) g" and ?A = "zip_addrs root (f # g # k) t"
  obtain st1 where 1: "set_color (Some (node_of f)) RB_BLACK st n = (Inr (), st1)"
      "zip_at st1 root (?f # g # k) t" "outside ?A st st1"
    using set_color_frame [OF assms(1), of Black n] by auto
  have z1: "zip_at st1 root (g # k) (plug1 ?f t)" using 1(2) by (simp add: zip_up)
  have A: "zip_addrs root (g # k) (plug1 ?f t) = ?A" by (cases f) auto
  obtain st2 where 2: "set_color (Some ua) RB_BLACK st1 n = (Inr (), st2)"
      "zip_at st2 root (?g # k) (plug1 ?f t)" "outside ?A st1 st2"
    using set_color_other [OF z1 assms(3), of Black n] A by auto
  have A2: "zip_addrs root (?g # k) (plug1 ?f t) = ?A" using A assms(3) by (cases g) auto
  obtain st3 where 3: "set_color (Some (node_of g)) RB_RED st2 n = (Inr (), st3)"
      "zip_at st3 root (hue_frame Red ?g # k) (plug1 ?f t)" "outside ?A st2 st3"
    using set_color_frame [OF 2(2), of Red n] A2 by auto
  have "zip_at st2 root (?f # ?g # k) t" using 2(2) by (simp add: zip_up)
  then have "rb_get parent (Some (node_of f)) st2 n = (Inr (Some (node_of g)), st2)"
    using frame_parent [of st2 root ?f "?g # k" t n] by simp
  moreover have "outside ?A st st3" by (rule outside_trans [OF outside_trans [OF 1(3) 2(3)] 3(3)])
  moreover have "zip_at st3 root k (plug1 (hue_frame Red ?g) (plug1 ?f t))" using 3(2) by (simp only: zip_up)
  ultimately show ?thesis using 1(1) 2(1) 3(1) by blast
qed

lemma insert_rounds_zip:
  assumes "zip_at st root k t" and "t \<noteq> Lf" and "hue_of t = Red"
    and "k \<noteq> [] \<Longrightarrow> frame_hue (last k) = Black" and "length k + 2 \<le> m"
  shows "\<exists>st'. insert_rounds m (ptr t) st n = (Inr (), st') \<and> zip_at st' root [] (ins_fix k t) \<and>
    outside (zip_addrs root k t) st st'"
  using assms
proof (induction k t arbitrary: st m rule: ins_fix.induct)
  case (1 t)
  obtain l a r where t: "t = Nd l a Red r" using 1(2,3) by (cases t) auto
  obtain m' where m: "m = Suc m'" using 1(5) by (cases m) auto
  have "is_root (ptr t) st n = (Inr True, st)" using zip_is_root [of st root "[]" l a Red r] 1(1) t by simp
  moreover obtain st' where "set_color (Some a) RB_BLACK st n = (Inr (), st')"
      "zip_at st' root [] (Nd l a Black r)" "outside (zip_addrs root [] t) st st'"
    using set_color_zip [of st root "[]" l a Red r Black n] 1(1) t by auto
  ultimately show ?case using t m by (simp add: insert_round_def bind_run)
next
  case (2 f t)
  obtain l a r where t: "t = Nd l a Red r" using 2(2,3) by (cases t) auto
  obtain m' where m: "m = Suc m'" using 2(5) by (cases m) auto
  have "is_root (ptr t) st n = (Inr False, st)" using zip_is_root [of st root "[f]" l a Red r] 2(1) t by simp
  moreover have "rb_get parent (ptr t) st n = (Inr (Some (node_of f)), st)"
    using zip_parent [of st root "[f]" l a Red r] 2(1) t by simp
  moreover have "is_black (Some (node_of f)) st n = (Inr True, st)"
    using frame_is_black [OF 2(1)] 2(4) by simp
  ultimately show ?case using m zip_plug [OF 2(1)] by (simp add: insert_round_def bind_run)
next
  case (3 f g k t)
  obtain l a r where t: "t = Nd l a Red r" using 3(3,4) by (cases t) auto
  obtain m' where m: "m = Suc m'" "length k + 3 \<le> m'" using 3(6) by (cases m) auto
  have root: "is_root (ptr t) st n = (Inr False, st)"
    using zip_is_root [of st root "f # g # k" l a Red r] 3(2) t by simp
  note sides = focus_sides [OF 3(2,3)]
  have black: "is_black (Some (node_of f)) st n = (Inr (frame_hue f = Black), st)"
    by (rule frame_is_black [OF 3(2)])
  have uncle: "rb_uncle (ptr t) st n = (Inr (ptr (other g)), st)" by (rule zip_uncle [OF 3(2,3)])
  have red: "is_red (ptr (other g)) st n = (Inr (hue_of (other g) = Red), st)"
    by (rule tree_is_red [of _ "node_of g"]) (use 3(2) in \<open>cases g; simp add: zip_at_def\<close>)
  consider (black) "frame_hue f = Black" | (red) "frame_hue f = Red" "hue_of (other g) = Red"
    | (turn) "frame_hue f = Red" "hue_of (other g) = Black" by (cases "frame_hue f"; cases "hue_of (other g)") auto
  then show ?case
  proof cases
    case black
    then show ?thesis using m root sides \<open>is_black _ _ _ = _\<close> zip_plug [OF 3(2)]
      by (simp add: insert_round_def bind_run)
  next
    case red
    obtain ul ua ur where u: "other g = Nd ul ua Red ur" using red(2) by (cases "other g") auto
    obtain st1 st2 st3 where c: "set_color (Some (node_of f)) RB_BLACK st n = (Inr (), st1)"
      "set_color (Some ua) RB_BLACK st1 n = (Inr (), st2)"
      "rb_get parent (Some (node_of f)) st2 n = (Inr (Some (node_of g)), st2)"
      "set_color (Some (node_of g)) RB_RED st2 n = (Inr (), st3)"
      "zip_at st3 root k (plug1 (hue_frame Red (set_other (Nd ul ua Black ur) g)) (plug1 (hue_frame Black f) t))"
      "outside (zip_addrs root (f # g # k) t) st st3"
      using insert_case3_run [OF 3(2,3) u, of n] by blast
    let ?t = "plug1 (hue_frame Red (set_other (blacken (other g)) g)) (plug1 (hue_frame Black f) t)"
    have pt: "ptr ?t = Some (node_of g)" "?t \<noteq> Lf" "hue_of ?t = Red" by (cases g; simp)+
    have A: "zip_addrs root k ?t = zip_addrs root (f # g # k) t" using u by (cases f; cases g; auto)
    obtain st' where st': "insert_rounds m' (ptr ?t) st3 n = (Inr (), st')" "zip_at st' root [] (ins_fix k ?t)"
      "outside (zip_addrs root (f # g # k) t) st3 st'"
      using 3(1) [OF _ red(2), of st3 m'] red(1) c(5) u pt(2,3) 3(5) m(2) A by (auto split: if_splits)
    have "insert_rounds m (ptr t) st n = (Inr (), st')"
      using m(1) root sides black uncle \<open>is_red _ _ _ = _\<close> red u c st'(1) pt(1)
      by (simp add: insert_round_def bind_run rb_and_def)
    then show ?thesis using st'(2) red outside_trans [OF c(6) st'(3)] by auto
  next
    case turn
    obtain st1 f' t' where c4: "insert_case4 (ptr t) st n = (Inr (ptr t'), st1)"
      "zip_at st1 root (f' # g # k) t'" "outside (zip_addrs root (f # g # k) t) st st1"
      "t' \<noteq> Lf" "same_side f' g" "rotated f' g t' = rotated f g t" "t' = snd (rotated f g t)"
      "zip_addrs root (f' # g # k) t' = zip_addrs root (f # g # k) t"
      using insert_case4_run [OF 3(2,3) turn(1), of n] by blast
    obtain st2 where c5: "insert_case5 (ptr t') st1 n = (Inr (), st2)"
      "zip_at st2 root (fst (rotated f g t) # k) t'" "outside (zip_addrs root (f # g # k) t) st1 st2"
      using insert_case5_run [OF c4(2,4,5), of n] c4(6,8) by auto
    let ?F = "fst (rotated f g t)"
    have F: "frame_hue ?F = Black" using c4(5,6) t by (cases f'; cases g) (auto dest: sym)
    obtain l2 a2 e2 r2 where t': "t' = Nd l2 a2 e2 r2" using c4(4) by (cases t') auto
    have "insert_rounds m' (ptr t') st2 n = (Inr (), st2)"
      using m(2) zip_is_root [of st2 root "?F # k" l2 a2 e2 r2] zip_parent [of st2 root "?F # k" l2 a2 e2 r2]
        frame_is_black [OF c5(2)] c5(2) F t'
      by (cases m') (simp_all add: insert_round_def bind_run)
    then have "insert_rounds m (ptr t) st n = (Inr (), st2)"
      using m(1) root sides black uncle \<open>is_red _ _ _ = _\<close> turn c4(1) c5(1)
      by (simp add: insert_round_def bind_run rb_and_def split: if_splits)
    moreover have "zip_at st2 root [] (ins_fix (f # g # k) t)"
      using zip_plug [OF c5(2)] turn c4(7) by (simp add: split_beta)
    ultimately show ?thesis using outside_trans [OF c4(3) c5(3)] by blast
  qed
qed

section \<open>The red-black invariant\<close>

primrec bheight :: "rbt \<Rightarrow> nat" where
  "bheight Lf = 0"
| "bheight (Nd l a c r) = bheight l + (if c = Black then 1 else 0)"

text \<open>No red node has a red child; every path has the same number of black nodes.\<close>

primrec no_red_red :: "rbt \<Rightarrow> bool" where
  "no_red_red Lf \<longleftrightarrow> True"
| "no_red_red (Nd l a c r) \<longleftrightarrow> no_red_red l \<and> no_red_red r \<and>
     (c = Red \<longrightarrow> hue_of l = Black \<and> hue_of r = Black)"

primrec same_black :: "rbt \<Rightarrow> bool" where
  "same_black Lf \<longleftrightarrow> True"
| "same_black (Nd l a c r) \<longleftrightarrow> same_black l \<and> same_black r \<and> bheight l = bheight r"

definition red_black :: "rbt \<Rightarrow> bool" where
  "red_black t \<longleftrightarrow> no_red_red t \<and> same_black t \<and> hue_of t = Black"

text \<open>A position accepts a subtree of the given black height, whose root is black below a red frame.\<close>

primrec accepts :: "frame list \<Rightarrow> nat \<Rightarrow> bool" where
  "accepts [] h \<longleftrightarrow> True"
| "accepts (f # k) h \<longleftrightarrow> no_red_red (other f) \<and> same_black (other f) \<and> bheight (other f) = h \<and>
     (frame_hue f = Red \<longrightarrow> hue_of (other f) = Black \<and> k \<noteq> [] \<and> frame_hue (hd k) = Black) \<and>
     accepts k (h + (if frame_hue f = Black then 1 else 0))"

definition below_red :: "frame list \<Rightarrow> bool" where
  "below_red k \<longleftrightarrow> k = [] \<or> frame_hue (hd k) = Red"

lemma red_black_plug:
  "red_black (plug k t) \<longleftrightarrow> accepts k (bheight t) \<and> no_red_red t \<and> same_black t \<and>
     (below_red k \<longrightarrow> hue_of t = Black)"
proof (induction k arbitrary: t)
  case Nil
  then show ?case by (auto simp: red_black_def below_red_def)
next
  case (Cons f k)
  show ?case unfolding plug.simps Cons.IH
    by (cases f; cases "frame_hue f") (auto simp: below_red_def)
qed

lemma bheight_blacken: "hue_of t = Red \<Longrightarrow> bheight (blacken t) = Suc (bheight t)"
  by (cases t) auto

lemma blacken_simps [simp]: "no_red_red t \<Longrightarrow> no_red_red (blacken t)" "same_black (blacken t) = same_black t"
    "hue_of (blacken t) = Black" "addrs (blacken t) = addrs t"
  by (cases t; auto)+

lemma red_black_ins_fix:
  assumes "accepts k (bheight t)" and "no_red_red t" and "same_black t" and "hue_of t = Red"
  shows "red_black (ins_fix k t)"
  using assms
proof (induction k t rule: ins_fix.induct)
  case (1 t)
  then show ?case by (simp add: red_black_def)
next
  case (2 f t)
  then have "red_black (plug [f] t)" unfolding red_black_plug by (simp add: below_red_def)
  then show ?case by simp
next
  case (3 f g k t)
  obtain l a r where t: "t = Nd l a Red r" using 3(5) by (cases t) auto
  consider (black) "frame_hue f = Black" | (red) "frame_hue f = Red" "hue_of (other g) = Red"
    | (turn) "frame_hue f = Red" "hue_of (other g) = Black" by (cases "frame_hue f"; cases "hue_of (other g)") auto
  then show ?case
  proof cases
    case black
    have "red_black (plug (f # g # k) t)" unfolding red_black_plug using 3 black by (simp add: below_red_def)
    then show ?thesis using black by simp
  next
    case red
    let ?t = "plug1 (hue_frame Red (set_other (blacken (other g)) g)) (plug1 (hue_frame Black f) t)"
    have "accepts k (bheight ?t) \<and> no_red_red ?t \<and> same_black ?t \<and> hue_of ?t = Red"
      using 3(2-5) red bheight_blacken [OF red(2)] t by (cases f; cases g) auto
    then show ?thesis using 3(1) red by simp
  next
    case turn
    have acc: "no_red_red (other f)" "same_black (other f)" "bheight (other f) = bheight t"
      "hue_of (other f) = Black" "no_red_red (other g)" "same_black (other g)" "bheight (other g) = bheight t"
      "frame_hue g = Black" "accepts k (Suc (bheight t))"
      using 3(2) turn(1) by auto
    have "red_black (plug (fst (rotated f g t) # k) (snd (rotated f g t)))"
      unfolding red_black_plug using acc 3(3,4) turn unfolding t
      by (cases f; cases g) (simp_all add: below_red_def)
    then show ?thesis using turn by (simp add: split_beta)
  qed
qed

text \<open>
  The rule of the colours alone, which is weaker than the red-black invariant: no red node has a
  red child, and the root is black.
\<close>

definition tinted :: "rbt \<Rightarrow> bool" where
  "tinted t \<longleftrightarrow> no_red_red t \<and> hue_of t = Black"

lemma tinted_Lf [simp]: "tinted Lf"
  by (simp add: tinted_def)

lemma red_black_tinted: "red_black t \<longleftrightarrow> tinted t \<and> same_black t"
  by (auto simp: red_black_def tinted_def)

primrec tints :: "frame list \<Rightarrow> bool" where
  "tints [] \<longleftrightarrow> True"
| "tints (f # k) \<longleftrightarrow> no_red_red (other f) \<and>
     (frame_hue f = Red \<longrightarrow> hue_of (other f) = Black \<and> k \<noteq> [] \<and> frame_hue (hd k) = Black) \<and> tints k"

lemma tinted_plug: "tinted (plug k t) \<longleftrightarrow> tints k \<and> no_red_red t \<and> (below_red k \<longrightarrow> hue_of t = Black)"
proof (induction k arbitrary: t)
  case Nil
  then show ?case by (auto simp: tinted_def below_red_def)
next
  case (Cons f k)
  show ?case unfolding plug.simps Cons.IH
    by (cases f; cases "frame_hue f") (auto simp: below_red_def)
qed

lemma tinted_ins_fix:
  assumes "tints k" and "no_red_red t" and "hue_of t = Red"
  shows "tinted (ins_fix k t)"
  using assms
proof (induction k t rule: ins_fix.induct)
  case (1 t)
  then show ?case by (simp add: tinted_def)
next
  case (2 f t)
  then have "tinted (plug [f] t)" unfolding tinted_plug by (simp add: below_red_def)
  then show ?case by simp
next
  case (3 f g k t)
  obtain l a r where t: "t = Nd l a Red r" using 3(4) by (cases t) auto
  consider (black) "frame_hue f = Black" | (red) "frame_hue f = Red" "hue_of (other g) = Red"
    | (turn) "frame_hue f = Red" "hue_of (other g) = Black" by (cases "frame_hue f"; cases "hue_of (other g)") auto
  then show ?case
  proof cases
    case black
    have "tinted (plug (f # g # k) t)" unfolding tinted_plug using 3 black by (simp add: below_red_def)
    then show ?thesis using black by simp
  next
    case red
    let ?t = "plug1 (hue_frame Red (set_other (blacken (other g)) g)) (plug1 (hue_frame Black f) t)"
    have "tints k \<and> no_red_red ?t \<and> hue_of ?t = Red"
      using 3(2-4) red t by (cases f; cases g) auto
    then show ?thesis using 3(1) red by simp
  next
    case turn
    have acc: "no_red_red (other f)" "hue_of (other f) = Black" "no_red_red (other g)" "frame_hue g = Black" "tints k"
      using 3(2) turn(1) by auto
    have "tinted (plug (fst (rotated f g t) # k) (snd (rotated f g t)))"
      unfolding tinted_plug using acc 3(3) turn unfolding t
      by (cases f; cases g) (simp_all add: below_red_def)
    then show ?thesis using turn by (simp add: split_beta)
  qed
qed

lemma hue_plug: "k \<noteq> [] \<Longrightarrow> hue_of (plug k t) = frame_hue (last k)"
proof (induction k arbitrary: t)
  case (Cons f k)
  then show ?case by (cases "k = []"; cases f) auto
qed simp

lemma addrs_plug1: "addrs (plug1 f t) = frame_before f @ addrs t @ frame_after f"
  by (cases f) auto

lemma addrs_ins_fix: "t \<noteq> Lf \<Longrightarrow> addrs (ins_fix k t) = before k @ addrs t @ after k"
proof (induction k t rule: ins_fix.induct)
  case (3 f g k t)
  have "addrs (plug (fst (rotated f g t) # k) (snd (rotated f g t))) = before (f # g # k) @ addrs t @ after (f # g # k)"
    using 3(2) by (cases f; cases g; cases t) auto
  moreover have "plug1 (hue_frame Red (set_other (blacken (other g)) g)) (plug1 (hue_frame Black f) t) \<noteq> Lf"
    by (cases g) auto
  moreover have "addrs (plug1 (hue_frame Red (set_other (blacken (other g)) g)) (plug1 (hue_frame Black f) t)) =
      frame_before g @ frame_before f @ addrs t @ frame_after f @ frame_after g"
    by (cases f; cases g) auto
  ultimately show ?case using 3 by (cases "frame_hue f"; cases "hue_of (other g)") (simp_all add: split_beta addrs_plug1)
qed (simp_all add: addrs_plug1)

section \<open>Inserting a node at a link\<close>

definition link_of :: "nat \<Rightarrow> frame list \<Rightarrow> rb_link" where
  "link_of root k = (if hangs_left k then LeftLink (Some (up root k)) else RightLink (Some (up root k)))"

lemma write_link_run:
  assumes "ctx_at (rb_nodes st) root k p"
  shows "write_link (link_of root k) x st n = (Inr (), st\<lparr>rb_nodes := rehang (rb_nodes st) root k x\<rparr>)"
proof -
  obtain nd where "rb_nodes st (up root k) = Some nd" using up_node [OF assms] by blast
  then show ?thesis by (simp add: write_link_def link_of_def rb_run rehang_def)
qed

text \<open>
  \<open>navi_rb_insert\<close> at an empty link carries out \<open>ins_fix\<close> with the new red node; as many rounds as
  there are nodes above, and two, are enough.
\<close>

lemma insert_at_link:
  assumes "zip_at st root k Lf" and "rb_nodes st a = Some x" and "a \<notin> zip_addrs root k Lf"
    and "hue_of (plug k Lf) = Black" and "length k + 2 \<le> n"
  shows "\<exists>st'. navi_rb_insert (Some a) (Some (up root k)) (link_of root k) st n = (Inr (), st') \<and>
    zip_at st' root [] (ins_fix k (Nd Lf a Red Lf)) \<and>
    outside (insert a (zip_addrs root k Lf)) st st'"
proof -
  let ?new = "\<lparr>left = None, right = None, parent = Some (up root k), color = RB_RED\<rparr>"
  let ?st = "st\<lparr>rb_nodes := rehang ((rb_nodes st)(a \<mapsto> ?new)) root k (Some a)\<rparr>"
  have a: "a \<noteq> root" "a \<notin> set (before k)" "a \<notin> set (after k)" "a \<noteq> up root k"
    using assms(3) up_apart [of a root k] by auto
  have ctx: "ctx_at ((rb_nodes st)(a \<mapsto> y)) root k None" for y using assms(1) a by (simp add: zip_at_def)
  have dist: "distinct (root # before k @ after k)" using assms(1) by (auto simp: zip_at_def)
  have new: "x\<lparr>left := None, right := None, color := RB_RED, parent := Some (up root k)\<rparr> = ?new"
    by (cases x) simp
  have run: "navi_rb_insert (Some a) (Some (up root k)) (link_of root k) st n = insert_rounds n (Some a) ?st n"
    using assms(2) write_link_run [of "st\<lparr>rb_nodes := (rb_nodes st)(a \<mapsto> ?new)\<rparr>" root k None "Some a" n] ctx
    by (simp add: navi_rb_insert_def rb_run new)
  have z: "zip_at ?st root k (Nd Lf a Red Lf)"
    using ctx_rehang [OF ctx dist, of _ "Some a"] a dist by (auto simp: zip_at_def)
  have last: "k \<noteq> [] \<Longrightarrow> frame_hue (last k) = Black" using assms(4) hue_plug [of k Lf] by simp
  obtain st' where st': "insert_rounds n (Some a) ?st n = (Inr (), st')"
      "zip_at st' root [] (ins_fix k (Nd Lf a Red Lf))" "outside (zip_addrs root k (Nd Lf a Red Lf)) ?st st'"
    using insert_rounds_zip [OF z _ _ last assms(5), of n] by auto
  have "outside (insert a (zip_addrs root k Lf)) st ?st"
    unfolding outside_def
  proof (intro conjI allI impI)
    fix b
    assume "b \<notin> insert a (zip_addrs root k Lf)"
    then show "rb_nodes ?st b = rb_nodes st b" using up_apart [of b root k] by auto
  qed simp
  moreover have "zip_addrs root k (Nd Lf a Red Lf) = insert a (zip_addrs root k Lf)" by auto
  ultimately have "outside (insert a (zip_addrs root k Lf)) st st'" using outside_trans st'(3) by metis
  then show ?thesis using run st'(1,2) by auto
qed

end
