(* ===== verification/Spec_Rbremove.thy ===== *)
theory Spec_Rbremove
  imports Spec_Rbtree
begin

text \<open>
  Removal from the red-black trees of \<open>rbtree.c\<close>: the exchange of a node with its predecessor, the
  repair of the path above the removed node, what the result keeps of the invariant, and where
  the C code loses it.
\<close>

section \<open>Exchanging two nodes\<close>

lemma rb_deref_run: "rb_nodes st a = Some nd \<Longrightarrow> rb_deref (Some a) st n = (Inr nd, st)"
  by (simp add: rb_deref_def)

lemma upd_ex: "P h \<Longrightarrow> \<exists>h'. st\<lparr>rb_nodes := h\<rparr> = st\<lparr>rb_nodes := h'\<rparr> \<and> P h'"
  by blast

text \<open>The node \<open>b\<close> is deeper in the left subtree of \<open>a\<close>, below \<open>q\<close>; \<open>lt\<close> is the root of that subtree.\<close>

lemma swap_far:
  assumes "rb_nodes st a = Some \<lparr>left = Some lt, right = Some rt, parent = Some u, color = ca\<rparr>"
    and "rb_nodes st b = Some \<lparr>left = pl, right = None, parent = Some q, color = cb\<rparr>"
    and "rb_nodes st rt = Some nr" and "rb_nodes st lt = Some nt" and "rb_nodes st q = Some nq"
    and "rb_nodes st u = Some nu" and "left nq \<noteq> Some b"
    and "\<And>x. pl = Some x \<Longrightarrow> rb_nodes st x = Some (nl x) \<and> x \<notin> {a, b, rt, lt, q, u}"
    and "distinct [a, b, rt, u]" and "lt \<notin> {a, b, rt, u}" and "q \<notin> {a, b, rt, u}"
  shows "\<exists>h. swap (Some a) (Some b) st n = (Inr (), st\<lparr>rb_nodes := h\<rparr>) \<and>
    h a = Some \<lparr>left = pl, right = None, parent = Some q, color = cb\<rparr> \<and>
    h b = Some \<lparr>left = Some lt, right = Some rt, parent = Some u, color = ca\<rparr> \<and>
    h rt = Some (nr\<lparr>parent := Some b\<rparr>) \<and>
    h u = Some (if left nu = Some a then nu\<lparr>left := Some b\<rparr> else nu\<lparr>right := Some b\<rparr>) \<and>
    h lt = Some (if lt = q then nt\<lparr>parent := Some b, right := Some a\<rparr> else nt\<lparr>parent := Some b\<rparr>) \<and>
    (lt \<noteq> q \<longrightarrow> h q = Some (nq\<lparr>right := Some a\<rparr>)) \<and>
    (\<forall>x. pl = Some x \<longrightarrow> h x = Some ((nl x)\<lparr>parent := Some a\<rparr>)) \<and>
    (\<forall>x. x \<notin> {a, b, rt, u, lt, q} \<and> pl \<noteq> Some x \<longrightarrow> h x = rb_nodes st x)"
proof -
  have ne: "a \<noteq> b" "a \<noteq> rt" "a \<noteq> u" "b \<noteq> rt" "b \<noteq> u" "rt \<noteq> u" "lt \<noteq> a" "lt \<noteq> b" "lt \<noteq> rt"
    "lt \<noteq> u" "q \<noteq> a" "q \<noteq> b" "q \<noteq> rt" "q \<noteq> u"
    "b \<noteq> a" "rt \<noteq> a" "u \<noteq> a" "rt \<noteq> b" "u \<noteq> b" "u \<noteq> rt" "a \<noteq> lt" "b \<noteq> lt" "rt \<noteq> lt"
    "u \<noteq> lt" "a \<noteq> q" "b \<noteq> q" "rt \<noteq> q" "u \<noteq> q"
    using assms(9-11) by auto
  have pl: "rb_nodes st x = Some (nl x)" "x \<noteq> a" "x \<noteq> b" "x \<noteq> rt" "x \<noteq> lt" "x \<noteq> q" "x \<noteq> u"
    "a \<noteq> x" "b \<noteq> x" "rt \<noteq> x" "lt \<noteq> x" "q \<noteq> x" "u \<noteq> x" if "pl = Some x" for x
    using assms(8) that by auto
  show ?thesis
proof (cases "lt = q")
  case True
  have nq: "nq = nt" using assms(4,5) True by simp
  show ?thesis using assms(1-4,6,7) ne pl unfolding nq True
    by (cases pl; cases "left nu = Some a")
      (simp_all add: swap_def rb_run rb_deref_run set_child_def is_left_child_def eq_commute [of "Some a"], (rule upd_ex, simp)+)
next
  case False
  show ?thesis using assms(1-7) ne pl False False [symmetric]
    by (cases pl; cases "left nu = Some a")
      (simp_all add: swap_def rb_run rb_deref_run set_child_def is_left_child_def eq_commute [of "Some a"], (rule upd_ex, simp)+)
qed
qed

text \<open>The node \<open>b\<close> is the left child of \<open>a\<close>.\<close>

lemma swap_near:
  assumes "rb_nodes st a = Some \<lparr>left = Some b, right = Some rt, parent = Some u, color = ca\<rparr>"
    and "rb_nodes st b = Some \<lparr>left = pl, right = None, parent = Some a, color = cb\<rparr>"
    and "rb_nodes st rt = Some nr" and "rb_nodes st u = Some nu"
    and "\<And>x. pl = Some x \<Longrightarrow> rb_nodes st x = Some (nl x) \<and> x \<notin> {a, b, rt, u}"
    and "distinct [a, b, rt, u]"
  shows "\<exists>h. swap (Some a) (Some b) st n = (Inr (), st\<lparr>rb_nodes := h\<rparr>) \<and>
    h a = Some \<lparr>left = pl, right = None, parent = Some b, color = cb\<rparr> \<and>
    h b = Some \<lparr>left = Some a, right = Some rt, parent = Some u, color = ca\<rparr> \<and>
    h rt = Some (nr\<lparr>parent := Some b\<rparr>) \<and>
    h u = Some (if left nu = Some a then nu\<lparr>left := Some b\<rparr> else nu\<lparr>right := Some b\<rparr>) \<and>
    (\<forall>x. pl = Some x \<longrightarrow> h x = Some ((nl x)\<lparr>parent := Some a\<rparr>)) \<and>
    (\<forall>x. x \<notin> {a, b, rt, u} \<and> pl \<noteq> Some x \<longrightarrow> h x = rb_nodes st x)"
proof -
  have ne: "a \<noteq> b" "a \<noteq> rt" "a \<noteq> u" "b \<noteq> rt" "b \<noteq> u" "rt \<noteq> u" "b \<noteq> a" "rt \<noteq> a" "u \<noteq> a" "rt \<noteq> b"
    "u \<noteq> b" "u \<noteq> rt"
    using assms(6) by auto
  have pl: "rb_nodes st x = Some (nl x)" "x \<noteq> a" "x \<noteq> b" "x \<noteq> rt" "x \<noteq> u" "a \<noteq> x" "b \<noteq> x" "rt \<noteq> x" "u \<noteq> x"
    if "pl = Some x" for x
    using assms(5) that by auto
  show ?thesis using assms(1-4) ne pl
  by (cases pl; cases "left nu = Some a")
    (simp_all add: swap_def rb_run rb_deref_run set_child_def is_left_child_def eq_commute [of "Some a"], (rule upd_ex, simp)+)
qed

section \<open>Stores that agree\<close>

lemma tree_cong:
  "(\<And>x. x \<in> set (addrs t) \<Longrightarrow> h' x = h x) \<Longrightarrow> tree_at h u t \<Longrightarrow> tree_at h' u t"
proof (induction t arbitrary: u)
  case (Nd l a c r)
  have "tree_at h' a l" by (rule Nd.IH(1)) (use Nd.prems in auto)
  moreover have "tree_at h' a r" by (rule Nd.IH(2)) (use Nd.prems in auto)
  ultimately show ?case using Nd.prems by simp
qed simp

lemma frame_cong:
  "(\<And>x. x \<in> set (frame_before f) \<union> set (frame_after f) \<Longrightarrow> h' x = h x) \<Longrightarrow> frame_at h f u p \<Longrightarrow> frame_at h' f u p"
  by (cases f) (auto intro: tree_cong)

lemma ctx_cong:
  "(\<And>x. x \<in> insert root (set (before k) \<union> set (after k)) \<Longrightarrow> h' x = h x) \<Longrightarrow>
   ctx_at h root k p \<Longrightarrow> ctx_at h' root k p"
proof (induction k arbitrary: p)
  case (Cons f k)
  have "ctx_at h' root k (Some (node_of f))" by (rule Cons.IH) (use Cons.prems in auto)
  moreover have "frame_at h' f (up root k) p" by (rule frame_cong [of f _ h]) (use Cons.prems in auto)
  ultimately show ?case by simp
qed (simp add: root_at_def)

text \<open>A part of the way up: its frames, below the node \<open>u\<close>.\<close>

primrec seg_at :: "rb_store \<Rightarrow> frame list \<Rightarrow> nat \<Rightarrow> rb_ptr \<Rightarrow> bool" where
  "seg_at h [] u p \<longleftrightarrow> True"
| "seg_at h (f # j) u p \<longleftrightarrow> frame_at h f (up u j) p \<and> seg_at h j u (Some (node_of f))"

definition top_ptr :: "frame list \<Rightarrow> rb_ptr \<Rightarrow> rb_ptr" where
  "top_ptr j p = (if j = [] then p else Some (node_of (last j)))"

lemma up_append: "up root (j @ k) = up (up root k) j"
  by (cases j) auto

lemma before_append [simp]: "before (j @ k) = before k @ before j"
  by (induction j) auto

lemma after_append [simp]: "after (j @ k) = after j @ after k"
  by (induction j) auto

lemma ctx_append: "ctx_at h root (j @ k) p \<longleftrightarrow> seg_at h j (up root k) p \<and> ctx_at h root k (top_ptr j p)"
  by (induction j arbitrary: p) (auto simp: top_ptr_def up_append)

lemma seg_append: "seg_at h (i @ j) u p \<longleftrightarrow> seg_at h i (up u j) p \<and> seg_at h j u (top_ptr i p)"
  by (induction i arbitrary: p) (auto simp: top_ptr_def up_append)

lemma seg_cong:
  "(\<And>x. x \<in> set (before j) \<union> set (after j) \<Longrightarrow> h' x = h x) \<Longrightarrow> seg_at h j u p \<Longrightarrow> seg_at h' j u p"
proof (induction j arbitrary: p)
  case (Cons f k)
  have "seg_at h' k u (Some (node_of f))" by (rule Cons.IH) (use Cons.prems in auto)
  moreover have "frame_at h' f (up u k) p" by (rule frame_cong [of f _ h]) (use Cons.prems in auto)
  ultimately show ?case by simp
qed simp

lemma zip_append: "zip_at st root (j @ k) t \<longleftrightarrow> zip_at st root k (plug j t)"
  by (induction j arbitrary: t) (simp_all add: zip_up)

lemma ptr_plug: "ptr (plug j t) = top_ptr j (ptr t)"
proof (induction j arbitrary: t)
  case (Cons f j)
  then show ?case by (cases f) (auto simp: top_ptr_def)
qed (simp add: top_ptr_def)

text \<open>The pointer above a position after its node has been exchanged for \<open>b\<close>.\<close>

lemma ctx_relinked:
  assumes "ctx_at h root k (Some a)" and "h (up root k) = Some nu"
    and "distinct (root # before k @ after k)" and "a \<notin> set (before k)" and "a \<notin> set (after k)"
    and "h' (up root k) = Some (if left nu = Some a then nu\<lparr>left := x\<rparr> else nu\<lparr>right := x\<rparr>)"
    and "\<And>y. y \<in> insert root (set (before k) \<union> set (after k)) \<Longrightarrow> y \<noteq> up root k \<Longrightarrow> h' y = h y"
  shows "ctx_at h' root k x"
proof -
  have "(left nu = Some a) = (Some a = left nu)" by (rule eq_commute)
  also have "\<dots> = hangs_left k" by (rule child_side(1) [OF assms(1,2,4,5)])
  finally have "h' y = rehang h root k x y" if "y \<in> insert root (set (before k) \<union> set (after k))" for y
    using assms(2,6,7) that by (cases "y = up root k") (simp_all add: rehang_def)
  then show ?thesis using ctx_cong [OF _ ctx_rehang [OF assms(1,3)]] by simp
qed

text \<open>A subtree whose root got another parent.\<close>

lemma tree_reparent:
  assumes "tree_at h u t" and "t \<noteq> Lf" and "distinct (addrs t)"
    and "\<And>x nd. ptr t = Some x \<Longrightarrow> h x = Some nd \<Longrightarrow> h' x = Some (nd\<lparr>parent := Some v\<rparr>)"
    and "\<And>x. x \<in> set (addrs t) \<Longrightarrow> ptr t \<noteq> Some x \<Longrightarrow> h' x = h x"
  shows "tree_at h' v t"
proof (cases t)
  case (Nd l a c r)
  have "tree_at h' a l" by (rule tree_cong [of _ _ h]) (use assms Nd in auto)
  moreover have "tree_at h' a r" by (rule tree_cong [of _ _ h]) (use assms Nd in auto)
  ultimately show ?thesis using assms(1,4) Nd by simp
qed (use assms(2) in simp)

lemma node_in [simp]: "node_of f \<in> set (frame_before f) \<union> set (frame_after f)"
  by (cases f) auto

lemma up_snoc: "up u (i @ [g]) = up v (i @ [g])"
  by (cases i) auto

lemma frame_reparent:
  assumes "frame_at h f u p" and "distinct (frame_before f @ frame_after f)"
    and "h (node_of f) = Some nt" and "h' (node_of f) = Some (nt\<lparr>parent := Some v\<rparr>)"
    and "\<And>x. x \<in> set (frame_before f) \<union> set (frame_after f) \<Longrightarrow> x \<noteq> node_of f \<Longrightarrow> h' x = h x"
  shows "frame_at h' f v p"
proof -
  have "tree_at h' (node_of f) (other f)"
    by (rule tree_cong [of _ _ h]) (use assms in \<open>cases f; auto\<close>)+
  then show ?thesis using assms(1,3,4) by (cases f) auto
qed

lemma frame_relink:
  assumes "frame_at h (InR s q e) u p" and "q \<notin> set (addrs s)"
    and "h q = Some nq" and "h' q = Some (nq\<lparr>right := x\<rparr>)"
    and "\<And>y. y \<in> set (addrs s) \<Longrightarrow> h' y = h y"
  shows "frame_at h' (InR s q e) u x"
proof -
  have "tree_at h' q s" by (rule tree_cong [of _ _ h]) (use assms in auto)
  then show ?thesis using assms(1,3,4) by auto
qed

text \<open>The frames between the two exchanged nodes: the lowest hangs \<open>a\<close> now, the highest is below \<open>b\<close>.\<close>

lemma seg_swap:
  assumes "seg_at h j a (Some b)" and "j = InR s q e # i" and "distinct (before j @ after j)"
    and "h q = Some nq" and "lt = node_of (last j)" and "h lt = Some nt"
    and "h' lt = Some (if lt = q then nt\<lparr>parent := Some b, right := Some a\<rparr> else nt\<lparr>parent := Some b\<rparr>)"
    and "lt \<noteq> q \<Longrightarrow> h' q = Some (nq\<lparr>right := Some a\<rparr>)"
    and "\<And>x. x \<in> set (before j) \<union> set (after j) \<Longrightarrow> x \<noteq> lt \<Longrightarrow> x \<noteq> q \<Longrightarrow> h' x = h x"
  shows "seg_at h' j b (Some a)"
proof (cases i rule: rev_cases)
  case Nil
  have "tree_at h' q s" by (rule tree_cong [of _ _ h]) (use assms Nil in auto)
  then show ?thesis using assms(1,2,4-7) Nil by auto
next
  case (snoc i' g)
  have lt: "lt = node_of g" using assms(2,5) snoc by simp
  have sets: "set (frame_before g) \<union> set (frame_after g) \<subseteq> set (before j) \<union> set (after j)"
      "set (before i') \<union> set (after i') \<subseteq> set (before j) \<union> set (after j)"
    using assms(2) snoc by auto
  have gq: "q \<notin> set (frame_before g) \<union> set (frame_after g)" and iq: "q \<notin> set (before i') \<union> set (after i')"
    and sq: "q \<notin> set (addrs s)" and sg: "lt \<notin> set (addrs s)" and il: "lt \<notin> set (before i') \<union> set (after i')"
    and dg: "distinct (frame_before g @ frame_after g)"
    using assms(2,3) snoc lt node_in [of g] by auto
  have ne: "lt \<noteq> q" using gq lt node_in [of g] by auto
  have f: "frame_at h (InR s q e) (up b i) (Some b)" and i: "seg_at h i' (node_of g) (Some q)"
    and g: "frame_at h g a (top_ptr i' (Some q))"
    using assms(1,2) snoc up_snoc [of a i' g b] by (simp_all add: seg_append)
  have "frame_at h' (InR s q e) (up b i) (Some a)"
    by (rule frame_relink [where h = h and h' = h', OF f sq assms(4) assms(8) [OF ne]]) (use assms(2,9) sq sg in auto)
  moreover have "seg_at h' i' (node_of g) (Some q)"
    by (rule seg_cong [where h = h and h' = h', OF _ i]) (use assms(9) sets(2) il iq in blast)
  moreover have "frame_at h' g b (top_ptr i' (Some q))"
    by (rule frame_reparent [where h = h and h' = h', OF g dg assms(6) [unfolded lt]])
      (use assms(7,9) ne lt sets(1) gq in \<open>auto\<close>)
  ultimately show ?thesis using assms(2) snoc by (simp add: seg_append)
qed

text \<open>The upper of the two exchanged nodes in its new shape, with all that is not below it.\<close>

lemma swap_upper:
  assumes "zip_at st root (InL a c r # k) t" and "r \<noteq> Lf" and "b \<notin> set (before k)" and "b \<notin> set (after k)"
    and "b \<noteq> root" and "b \<noteq> a" and "b \<notin> set (addrs r)"
    and "rb_nodes st (up root k) = Some nu" and "ptr r = Some rt" and "rb_nodes st rt = Some nr"
    and "h (up root k) = Some (if left nu = Some a then nu\<lparr>left := Some b\<rparr> else nu\<lparr>right := Some b\<rparr>)"
    and "h b = Some \<lparr>left = p, right = ptr r, parent = Some (up root k), color = rbc c\<rparr>"
    and "h rt = Some (nr\<lparr>parent := Some b\<rparr>)"
    and "\<And>x. x \<in> zip_addrs root k Lf \<Longrightarrow> x \<noteq> up root k \<Longrightarrow> h x = rb_nodes st x"
    and "\<And>x. x \<in> set (addrs r) \<Longrightarrow> x \<noteq> rt \<Longrightarrow> h x = rb_nodes st x"
  shows "ctx_at h root (InL b c r # k) p"
proof -
  have "ctx_at h root k (Some b)"
    by (rule ctx_relinked [of "rb_nodes st" root k a nu]) (use assms in \<open>auto simp: zip_at_def\<close>)
  moreover have "tree_at h b r"
    by (rule tree_reparent [of "rb_nodes st" a]) (use assms in \<open>auto simp: zip_at_def\<close>)
  ultimately show ?thesis using assms(12) by simp
qed

lemma swap_lower:
  assumes "tree_at (rb_nodes st) b bl" and "distinct (addrs bl)"
    and "h a = Some \<lparr>left = ptr bl, right = None, parent = Some q, color = rbc d\<rparr>"
    and "\<And>x nd. ptr bl = Some x \<Longrightarrow> rb_nodes st x = Some nd \<Longrightarrow> h x = Some (nd\<lparr>parent := Some a\<rparr>)"
    and "\<And>x. x \<in> set (addrs bl) \<Longrightarrow> ptr bl \<noteq> Some x \<Longrightarrow> h x = rb_nodes st x"
  shows "tree_at h q (Nd bl a d Lf)"
proof (cases "bl = Lf")
  case False
  have "tree_at h a bl" by (rule tree_reparent [OF assms(1) False assms(2,4,5)]) auto
  then show ?thesis using assms(3) by simp
qed (use assms(3) in simp)

lemma swap_near_zip:
  assumes "zip_at st root k (Nd (Nd bl b d Lf) a c r)" and "r \<noteq> Lf"
  shows "\<exists>st'. swap (Some a) (Some b) st n = (Inr (), st') \<and> zip_at st' root (InL b c r # k) (Nd bl a d Lf) \<and>
    outside (zip_addrs root k (Nd (Nd bl b d Lf) a c r)) st st'"
proof -
  let ?u = "up root k" and ?S = "rb_nodes st"
  obtain rl rt re rr where r: "r = Nd rl rt re rr" using assms(2) by (cases r) auto
  have z: "zip_at st root (InL a c r # k) (Nd bl b d Lf)" using assms(1) by (simp add: zip_up)
  have ctx: "ctx_at ?S root k (Some a)" and bl: "tree_at ?S b bl"
    and ha: "?S a = Some \<lparr>left = Some b, right = Some rt, parent = Some ?u, color = rbc c\<rparr>"
    and hb: "?S b = Some \<lparr>left = ptr bl, right = None, parent = Some a, color = rbc d\<rparr>"
    and hr: "?S rt = Some \<lparr>left = ptr rl, right = ptr rr, parent = Some a, color = rbc re\<rparr>"
    using assms(1) r by (auto simp: zip_at_def)
  obtain nu where hu: "?S ?u = Some nu" using up_node [OF ctx] by blast
  have dist: "distinct (root # before k @ (addrs bl @ [b, a]) @ addrs r @ after k)"
    using assms(1) by (auto simp: zip_at_def)
  have u: "?u \<in> insert root (set (before k) \<union> set (after k))" using up_in [of root k] by auto
  have rt: "rt \<in> set (addrs r)" using r by simp
  have dd: "distinct [a, b, rt, ?u]" using dist u rt by auto
  have nl: "\<exists>nl. \<forall>x. ptr bl = Some x \<longrightarrow> ?S x = Some (nl x)"
    using bl by (cases bl) (auto intro: exI [of _ "\<lambda>_. _"])
  then obtain nl where nl: "\<And>x. ptr bl = Some x \<Longrightarrow> ?S x = Some (nl x)" by blast
  have sep: "x \<notin> {a, b, rt, ?u}" if "ptr bl = Some x" for x
    using ptr_in_addrs [OF that] dist u rt by auto
  obtain h where run: "swap (Some a) (Some b) st n = (Inr (), st\<lparr>rb_nodes := h\<rparr>)"
    and h: "h a = Some \<lparr>left = ptr bl, right = None, parent = Some b, color = rbc d\<rparr>"
      "h b = Some \<lparr>left = Some a, right = Some rt, parent = Some ?u, color = rbc c\<rparr>"
      "h rt = Some (\<lparr>left = ptr rl, right = ptr rr, parent = Some a, color = rbc re\<rparr>\<lparr>parent := Some b\<rparr>)"
      "h ?u = Some (if left nu = Some a then nu\<lparr>left := Some b\<rparr> else nu\<lparr>right := Some b\<rparr>)"
      "\<forall>x. ptr bl = Some x \<longrightarrow> h x = Some ((nl x)\<lparr>parent := Some a\<rparr>)"
      "\<forall>x. x \<notin> {a, b, rt, ?u} \<and> ptr bl \<noteq> Some x \<longrightarrow> h x = ?S x"
    using swap_near [OF ha hb hr hu _ dd, of nl n] nl sep by blast
  have in_bl: "x \<notin> {a, b, rt, ?u}" if "x \<in> set (addrs bl)" for x
    using that dist u rt by (auto simp: disjoint_iff)
  have low: "tree_at h b (Nd bl a d Lf)"
  proof (rule swap_lower [where h = h, OF bl _ h(1)])
    show "distinct (addrs bl)" using dist by simp
    show "h x = Some (nd\<lparr>parent := Some a\<rparr>)" if "ptr bl = Some x" "?S x = Some nd" for x nd
      using h(5) nl that by simp
    show "h x = ?S x" if "x \<in> set (addrs bl)" "ptr bl \<noteq> Some x" for x
      using h(6) in_bl [OF that(1)] that(2) by simp
  qed
  have up: "ctx_at h root (InL b c r # k) (Some a)"
  proof (rule swap_upper [where h = h, OF z assms(2) _ _ _ _ _ hu _ hr h(4)])
    show "h b = Some \<lparr>left = Some a, right = ptr r, parent = Some ?u, color = rbc c\<rparr>" using h(2) r by simp
    show "h x = ?S x" if "x \<in> zip_addrs root k Lf" "x \<noteq> ?u" for x
    proof -
      have "x \<notin> {a, b, rt, ?u}" "x \<notin> set (addrs bl)" using that dist rt by (auto simp: disjoint_iff)
      then show ?thesis using h(6) ptr_in_addrs [of bl x] by auto
    qed
    show "h x = ?S x" if "x \<in> set (addrs r)" "x \<noteq> rt" for x
    proof -
      have "x \<notin> {a, b, rt, ?u}" "x \<notin> set (addrs bl)" using that dist u by (auto simp: disjoint_iff)
      then show ?thesis using h(6) ptr_in_addrs [of bl x] by auto
    qed
  qed (use dist r h(3) in auto)
  have "zip_at (st\<lparr>rb_nodes := h\<rparr>) root (InL b c r # k) (Nd bl a d Lf)"
    using low up dist by (auto simp: zip_at_def)
  moreover have "outside (zip_addrs root k (Nd (Nd bl b d Lf) a c r)) st (st\<lparr>rb_nodes := h\<rparr>)"
    unfolding outside_def
  proof (intro conjI allI impI)
    fix x
    assume x: "x \<notin> zip_addrs root k (Nd (Nd bl b d Lf) a c r)"
    then have "x \<notin> {a, b, rt, ?u}" "ptr bl \<noteq> Some x" using u rt ptr_in_addrs [of bl x] by auto
    then show "rb_nodes (st\<lparr>rb_nodes := h\<rparr>) x = rb_nodes st x" using h(6) by simp
  qed simp
  ultimately show ?thesis using run by blast
qed

lemma swap_far_zip:
  assumes "zip_at st root (j @ InL a c r # k) (Nd bl b d Lf)" and "r \<noteq> Lf" and "j = InR s q e # i"
  shows "\<exists>st'. swap (Some a) (Some b) st n = (Inr (), st') \<and>
    zip_at st' root (j @ InL b c r # k) (Nd bl a d Lf) \<and>
    outside (zip_addrs root (j @ InL a c r # k) (Nd bl b d Lf)) st st'"
proof -
  let ?u = "up root k" and ?S = "rb_nodes st" and ?J = "set (before j) \<union> set (after j)"
  define lt where "lt = node_of (last j)"
  have top: "top_ptr j p = Some lt" for p using assms(3) by (simp add: top_ptr_def lt_def)
  have top_i: "top_ptr i (Some q) = Some lt" using assms(3) by (simp add: top_ptr_def lt_def)
  obtain rl rt re rr where r: "r = Nd rl rt re rr" using assms(2) by (cases r) auto
  have z: "zip_at st root (InL a c r # k) (plug j (Nd bl b d Lf))" using assms(1) by (simp add: zip_append)
  have ctx: "ctx_at ?S root k (Some a)" and bl: "tree_at ?S b bl" and seg: "seg_at ?S j a (Some b)"
    and ha: "?S a = Some \<lparr>left = Some lt, right = Some rt, parent = Some ?u, color = rbc c\<rparr>"
    and hb: "?S b = Some \<lparr>left = ptr bl, right = None, parent = Some q, color = rbc d\<rparr>"
    and hr: "?S rt = Some \<lparr>left = ptr rl, right = ptr rr, parent = Some a, color = rbc re\<rparr>"
    using assms(1,3) r top top_i by (auto simp: zip_at_def ctx_append up_append)
  obtain nu where hu: "?S ?u = Some nu" using up_node [OF ctx] by blast
  obtain nq where hq: "?S q = Some nq" and lq: "left nq \<noteq> Some b"
  proof -
    have "b \<notin> set (addrs s)" using assms(1,3) by (auto simp: zip_at_def)
    then show ?thesis using seg assms(3) ptr_in_addrs [of s b] by (intro that) auto
  qed
  have seg_node: "seg_at h v w p \<Longrightarrow> v \<noteq> [] \<Longrightarrow> \<exists>nt. h (node_of (last v)) = Some nt" for h v w p
  proof (induction v arbitrary: p)
    case (Cons f v)
    then show ?case by (cases v; cases f) auto
  qed simp
  obtain nt where ht: "?S lt = Some nt" using seg_node [OF seg] assms(3) by (auto simp: lt_def)
  have dist: "distinct (root # before k @ (before j @ addrs bl @ b # after j) @ a # addrs r @ after k)"
    using assms(1) by (auto simp: zip_at_def)
  have u: "?u \<in> insert root (set (before k) \<union> set (after k))" using up_in [of root k] by auto
  have rt: "rt \<in> set (addrs r)" using r by simp
  have ltJ: "lt \<in> ?J" unfolding lt_def
  proof -
    have "v \<noteq> [] \<Longrightarrow> node_of (last v) \<in> set (before v) \<union> set (after v)" for v
    proof (induction v)
      case (Cons f v)
      then show ?case using node_in [of f] by (cases "v = []") auto
    qed simp
    then show "node_of (last j) \<in> ?J" using assms(3) by blast
  qed
  have qJ: "q \<in> ?J" using assms(3) by auto
  have dd: "distinct [a, b, rt, ?u]" using dist u rt by auto
  have inJ: "x \<notin> {a, b, rt, ?u}" "x \<notin> set (addrs bl)" if "x \<in> ?J" for x
    using that dist u rt by (auto simp: disjoint_iff)
  have in_bl: "x \<notin> {a, b, rt, ?u}" "x \<notin> ?J" if "x \<in> set (addrs bl)" for x
    using that dist u rt by (auto simp: disjoint_iff)
  have "\<exists>nl. \<forall>x. ptr bl = Some x \<longrightarrow> ?S x = Some (nl x)"
    using bl by (cases bl) (auto intro: exI [of _ "\<lambda>_. _"])
  then obtain nl where nl: "\<And>x. ptr bl = Some x \<Longrightarrow> ?S x = Some (nl x)" by blast
  have sep: "x \<notin> {a, b, rt, lt, q, ?u}" if "ptr bl = Some x" for x
    using in_bl [OF ptr_in_addrs [OF that]] ltJ qJ by auto
  obtain h where run: "swap (Some a) (Some b) st n = (Inr (), st\<lparr>rb_nodes := h\<rparr>)"
    and h: "h a = Some \<lparr>left = ptr bl, right = None, parent = Some q, color = rbc d\<rparr>"
      "h b = Some \<lparr>left = Some lt, right = Some rt, parent = Some ?u, color = rbc c\<rparr>"
      "h rt = Some (\<lparr>left = ptr rl, right = ptr rr, parent = Some a, color = rbc re\<rparr>\<lparr>parent := Some b\<rparr>)"
      "h ?u = Some (if left nu = Some a then nu\<lparr>left := Some b\<rparr> else nu\<lparr>right := Some b\<rparr>)"
      "h lt = Some (if lt = q then nt\<lparr>parent := Some b, right := Some a\<rparr> else nt\<lparr>parent := Some b\<rparr>)"
      "lt \<noteq> q \<longrightarrow> h q = Some (nq\<lparr>right := Some a\<rparr>)"
      "\<forall>x. ptr bl = Some x \<longrightarrow> h x = Some ((nl x)\<lparr>parent := Some a\<rparr>)"
      "\<forall>x. x \<notin> {a, b, rt, ?u, lt, q} \<and> ptr bl \<noteq> Some x \<longrightarrow> h x = ?S x"
    using swap_far [OF ha hb hr ht hq hu lq _ dd inJ(1) [OF ltJ] inJ(1) [OF qJ], of nl n] nl sep by blast
  have same: "h x = ?S x" if "x \<notin> {a, b, rt, ?u}" "x \<notin> ?J" "ptr bl \<noteq> Some x" for x
    using h(8) that ltJ qJ by auto
  have low: "tree_at h q (Nd bl a d Lf)"
  proof (rule swap_lower [where h = h, OF bl _ h(1)])
    show "distinct (addrs bl)" using dist by simp
    show "h x = Some (nd\<lparr>parent := Some a\<rparr>)" if "ptr bl = Some x" "?S x = Some nd" for x nd
      using h(7) nl that by simp
    show "h x = ?S x" if "x \<in> set (addrs bl)" "ptr bl \<noteq> Some x" for x
      using same in_bl [OF that(1)] that(2) by simp
  qed
  have mid: "seg_at h j b (Some a)"
  proof (rule seg_swap [where h = "?S" and h' = h, OF seg assms(3) _ hq lt_def ht h(5)])
    show "distinct (before j @ after j)" using dist by auto
    show "h q = Some (nq\<lparr>right := Some a\<rparr>)" if "lt \<noteq> q" using h(6) that by simp
    show "h x = ?S x" if "x \<in> ?J" "x \<noteq> lt" "x \<noteq> q" for x
      using h(8) inJ [OF that(1)] that ptr_in_addrs [of bl x] by auto
  qed
  have up: "ctx_at h root (InL b c r # k) (Some lt)"
  proof (rule swap_upper [where h = h, OF z assms(2) _ _ _ _ _ hu _ hr h(4)])
    show "h b = Some \<lparr>left = Some lt, right = ptr r, parent = Some ?u, color = rbc c\<rparr>" using h(2) r by simp
    show "h x = ?S x" if "x \<in> zip_addrs root k Lf" "x \<noteq> ?u" for x
    proof -
      have "x \<notin> {a, b, rt, ?u}" "x \<notin> set (addrs bl)" "x \<notin> ?J" using that dist rt by (auto simp: disjoint_iff)
      then show ?thesis using same ptr_in_addrs [of bl x] by auto
    qed
    show "h x = ?S x" if "x \<in> set (addrs r)" "x \<noteq> rt" for x
    proof -
      have "x \<notin> {a, b, rt, ?u}" "x \<notin> set (addrs bl)" "x \<notin> ?J" using that dist u by (auto simp: disjoint_iff)
      then show ?thesis using same ptr_in_addrs [of bl x] by auto
    qed
  qed (use dist r h(3) in auto)
  have "zip_at (st\<lparr>rb_nodes := h\<rparr>) root (j @ InL b c r # k) (Nd bl a d Lf)"
    using low mid up dist top top_i assms(3) by (auto simp: zip_at_def ctx_append up_append disjoint_iff)
  moreover have "outside (zip_addrs root (j @ InL a c r # k) (Nd bl b d Lf)) st (st\<lparr>rb_nodes := h\<rparr>)"
    unfolding outside_def
  proof (intro conjI allI impI)
    fix x
    assume x: "x \<notin> zip_addrs root (j @ InL a c r # k) (Nd bl b d Lf)"
    then have "x \<notin> {a, b, rt, ?u}" "ptr bl \<noteq> Some x" "x \<notin> ?J" using u rt ptr_in_addrs [of bl x] by auto
    then show "rb_nodes (st\<lparr>rb_nodes := h\<rparr>) x = rb_nodes st x" using same by simp
  qed simp
  ultimately show ?thesis using run by blast
qed

section \<open>The predecessor\<close>

lemma plug_append: "plug (i @ j) t = plug j (plug i t)"
  by (induction i arbitrary: t) auto

text \<open>The last node of a tree is at the end of its right spine and has no right child.\<close>

lemma rightmost_run:
  assumes "tree_at (rb_nodes st) u t" and "t \<noteq> Lf" and "length (addrs t) \<le> m"
  shows "\<exists>j bl b d. t = plug j (Nd bl b d Lf) \<and> (\<forall>f \<in> set j. \<exists>s q e. f = InR s q e) \<and>
    rightmost m (ptr t) st n = (Inr (Some b), st)"
  using assms
proof (induction t arbitrary: u m)
  case (Nd l a c r)
  obtain m' where m: "m = Suc m'" using Nd.prems(3) by (cases m) auto
  show ?case
  proof (cases "r = Lf")
    case True
    have "rightmost m (ptr (Nd l a c r)) st n = (Inr (Some a), st)"
      using Nd.prems(1) True m by (simp add: rb_run)
    then show ?thesis using True by (intro exI [of _ "[]"]) auto
  next
    case False
    have "tree_at (rb_nodes st) a r" "length (addrs r) \<le> m'" using Nd.prems m by auto
    then obtain j bl b d where j: "r = plug j (Nd bl b d Lf)" "\<forall>f \<in> set j. \<exists>s q e. f = InR s q e"
        "rightmost m' (ptr r) st n = (Inr (Some b), st)"
      using Nd.IH(2) [OF _ False] by blast
    have "rightmost m (ptr (Nd l a c r)) st n = (Inr (Some b), st)"
      using Nd.prems(1) False j(3) m by (cases r) (simp_all add: rb_run)
    moreover have "Nd l a c r = plug (j @ [InR l a c]) (Nd bl b d Lf)" using j(1) by (simp add: plug_append)
    ultimately show ?thesis using j(2) by (intro exI [of _ "j @ [InR l a c]"]) auto
  qed
qed simp

text \<open>The exchange of a node that has two children with its predecessor.\<close>

lemma exchange_zip:
  assumes "zip_at st root k (Nd l a c r)" and "l \<noteq> Lf" and "r \<noteq> Lf" and "length (addrs l) \<le> n"
  shows "\<exists>st' j bl b d. bind (navi_rb_last (ptr l)) (swap (Some a)) st n = (Inr (), st') \<and>
    l = plug j (Nd bl b d Lf) \<and> (\<forall>f \<in> set j. \<exists>s q e. f = InR s q e) \<and>
    zip_at st' root (j @ InL b c r # k) (Nd bl a d Lf) \<and>
    outside (zip_addrs root k (Nd l a c r)) st st'"
proof -
  have "tree_at (rb_nodes st) a l" using assms(1) by (simp add: zip_at_def)
  then obtain j bl b d where j: "l = plug j (Nd bl b d Lf)" "\<forall>f \<in> set j. \<exists>s q e. f = InR s q e"
      "rightmost n (ptr l) st n = (Inr (Some b), st)"
    using rightmost_run assms(2,4) by blast
  have last: "navi_rb_last (ptr l) st n = (Inr (Some b), st)"
    using assms(2) j(3) by (cases l) (simp_all add: navi_rb_last_def)
  have A: "zip_addrs root (j @ InL a c r # k) (Nd bl b d Lf) = zip_addrs root k (Nd l a c r)"
    using j(1) by auto
  have "\<exists>st'. swap (Some a) (Some b) st n = (Inr (), st') \<and> zip_at st' root (j @ InL b c r # k) (Nd bl a d Lf) \<and>
    outside (zip_addrs root k (Nd l a c r)) st st'"
  proof (cases j)
    case Nil
    then show ?thesis using swap_near_zip [of st root k bl b d a c r n] assms(1,3) j(1) by simp
  next
    case (Cons f i)
    then obtain s q e where f: "f = InR s q e" using j(2) by auto
    have "zip_at st root (j @ InL a c r # k) (Nd bl b d Lf)"
      using assms(1) j(1) by (simp add: zip_append zip_up)
    from swap_far_zip [OF this assms(3), of s q e i n] Cons f show ?thesis unfolding A by simp
  qed
  then obtain st' where "swap (Some a) (Some b) st n = (Inr (), st')"
    "zip_at st' root (j @ InL b c r # k) (Nd bl a d Lf)" "outside (zip_addrs root k (Nd l a c r)) st st'" by blast
  then show ?thesis using last j(1,2)
    by (intro exI [of _ st'] exI [of _ j] exI [of _ bl] exI [of _ b] exI [of _ d]) (simp add: bind_run)
qed

section \<open>Repair as a function on positions\<close>

primrec redden :: "rbt \<Rightarrow> rbt" where
  "redden Lf = Lf"
| "redden (Nd l a c r) = Nd l a Red r"

primrec black_kids :: "rbt \<Rightarrow> bool" where
  "black_kids Lf \<longleftrightarrow> True"
| "black_kids (Nd l a c r) \<longleftrightarrow> hue_of l = Black \<and> hue_of r = Black"

text \<open>Case 2: the frames after the rotation of a red sibling.\<close>

fun turn_red :: "frame \<Rightarrow> frame list" where
  "turn_red (InL p c (Nd sl b Red sr)) = [InL p Red sl, InL b Black sr]"
| "turn_red (InR (Nd sl b Red sr) p c) = [InR sr p Red, InR sl b Black]"
| "turn_red f = [f]"

text \<open>Cases 4 to 6, with a black sibling.\<close>

fun repair :: "frame \<Rightarrow> frame list" where
  "repair (InL p c (Nd sl b d sr)) =
     (if hue_of sl = Black \<and> hue_of sr = Black then [InL p Black (Nd sl b Red sr)]
      else if hue_of sr = Red then [InL p Black sl, InL b c (blacken sr)]
      else (case sl of Nd x y e z \<Rightarrow> [InL p Black x, InL y c (Nd z b Black sr)] | Lf \<Rightarrow> []))"
| "repair (InR (Nd sl b d sr) p c) =
     (if hue_of sl = Black \<and> hue_of sr = Black then [InR (Nd sl b Red sr) p Black]
      else if hue_of sl = Red then [InR sr p Black, InR (blacken sl) b c]
      else (case sr of Nd x y e z \<Rightarrow> [InR z p Black, InR (Nd sl b Black x) y c] | Lf \<Rightarrow> []))"
| "repair f = [f]"

text \<open>Case 3 goes up one frame.\<close>

definition goes_up :: "frame \<Rightarrow> bool" where
  "goes_up f \<longleftrightarrow> frame_hue f = Black \<and> hue_of (other f) = Black \<and> black_kids (other f)"

primrec del_fix :: "frame list \<Rightarrow> frame list" where
  "del_fix [] = []"
| "del_fix (f # k) =
     (if goes_up f then set_other (redden (other f)) f # del_fix k
      else case turn_red f of g # gs \<Rightarrow> repair g @ gs @ k | [] \<Rightarrow> [])"

definition reaches_root :: "frame list \<Rightarrow> bool" where
  "reaches_root k \<longleftrightarrow> (\<forall>f \<in> set k. goes_up f)"

section \<open>Repair on the store\<close>

lemma zip_other_tree: "zip_at st root (f # k) t \<Longrightarrow> tree_at (rb_nodes st) (node_of f) (other f)"
  by (cases f) (simp_all add: zip_at_def)

lemma zip_focus:
  assumes "zip_at st root (f # k) t" and "t \<noteq> Lf"
  shows "is_left_child (ptr t) st n = (Inr (hangs_left [f]), st)"
    and "is_right_child (ptr t) st n = (Inr (\<not> hangs_left [f]), st)"
    and "rb_get parent (ptr t) st n = (Inr (Some (node_of f)), st)"
    and "rb_sibling (ptr t) st n = (Inr (ptr (other f)), st)"
    and "is_root (ptr t) st n = (Inr False, st)"
proof -
  obtain l a c r where t: "t = Nd l a c r" using assms(2) by (cases t) auto
  note z = assms(1) [unfolded t]
  have head: "hangs_left (f # k) = hangs_left [f]" by (simp add: hangs_left_def)
  show "is_left_child (ptr t) st n = (Inr (hangs_left [f]), st)"
    and "is_right_child (ptr t) st n = (Inr (\<not> hangs_left [f]), st)"
    and "rb_get parent (ptr t) st n = (Inr (Some (node_of f)), st)"
    and "rb_sibling (ptr t) st n = (Inr (ptr (other f)), st)"
    and "is_root (ptr t) st n = (Inr False, st)"
    using zip_is_left_child [OF z] zip_parent [OF z] zip_sibling [OF z] zip_is_root [OF z] t head by simp_all
qed

text \<open>Painting the parent and the sibling, in either order.\<close>

lemma paint_parent_sibling:
  assumes "zip_at st root (f # k) t" and "other f = Nd l b e r"
  shows "\<exists>st1 st2. set_color (Some (node_of f)) (rbc c) st n = (Inr (), st1) \<and>
    zip_at st1 root (hue_frame c f # k) t \<and>
    set_color (Some b) (rbc d) st1 n = (Inr (), st2) \<and>
    zip_at st2 root (set_other (Nd l b d r) (hue_frame c f) # k) t \<and>
    outside (zip_addrs root (f # k) t) st st2"
proof -
  obtain st1 where 1: "set_color (Some (node_of f)) (rbc c) st n = (Inr (), st1)"
      "zip_at st1 root (hue_frame c f # k) t" "outside (zip_addrs root (f # k) t) st st1"
    using set_color_frame [OF assms(1), of c n] by blast
  obtain st2 where 2: "set_color (Some b) (rbc d) st1 n = (Inr (), st2)"
      "zip_at st2 root (set_other (Nd l b d r) (hue_frame c f) # k) t"
      "outside (zip_addrs root (hue_frame c f # k) t) st1 st2"
    using set_color_other [OF 1(2), of l b e r d n] assms(2) by auto
  have "zip_addrs root (hue_frame c f # k) t = zip_addrs root (f # k) t" by (cases f) auto
  then show ?thesis using 1 2 outside_trans [OF 1(3)] by auto
qed

lemma paint_sibling_parent:
  assumes "zip_at st root (f # k) t" and "other f = Nd l b e r"
  shows "\<exists>st1 st2. set_color (Some b) (rbc d) st n = (Inr (), st1) \<and>
    zip_at st1 root (set_other (Nd l b d r) f # k) t \<and>
    set_color (Some (node_of f)) (rbc c) st1 n = (Inr (), st2) \<and>
    zip_at st2 root (set_other (Nd l b d r) (hue_frame c f) # k) t \<and>
    outside (zip_addrs root (f # k) t) st st2"
proof -
  obtain st1 where 1: "set_color (Some b) (rbc d) st n = (Inr (), st1)"
      "zip_at st1 root (set_other (Nd l b d r) f # k) t" "outside (zip_addrs root (f # k) t) st st1"
    using set_color_other [OF assms, of d n] by blast
  obtain st2 where 2: "set_color (Some (node_of f)) (rbc c) st1 n = (Inr (), st2)"
      "zip_at st2 root (hue_frame c (set_other (Nd l b d r) f) # k) t"
      "outside (zip_addrs root (set_other (Nd l b d r) f # k) t) st1 st2"
    using set_color_frame [OF 1(2), of c n] by auto
  have "zip_addrs root (set_other (Nd l b d r) f # k) t = zip_addrs root (f # k) t"
    "hue_frame c (set_other (Nd l b d r) f) = set_other (Nd l b d r) (hue_frame c f)"
    using assms(2) by (cases f; auto)+
  then show ?thesis using 1 2 outside_trans [OF 1(3)] by auto
qed

lemma remove_case2_run:
  assumes "zip_at st root (f # k) t" and "t \<noteq> Lf"
  shows "\<exists>st'. remove_case2 (ptr t) st n = (Inr (), st') \<and> zip_at st' root (turn_red f @ k) t \<and>
    outside (zip_addrs root (f # k) t) st st'"
proof (cases "hue_of (other f)")
  case Black
  have "remove_case2 (ptr t) st n = (Inr (), st)"
    using zip_focus [OF assms] tree_is_red [OF zip_other_tree [OF assms(1)]] Black
    by (simp add: remove_case2_def bind_run)
  moreover have "turn_red f = [f]" using Black by (cases f rule: turn_red.cases) auto
  ultimately show ?thesis using assms(1) by auto
next
  case Red
  obtain sl b sr where s: "other f = Nd sl b Red sr" using Red by (cases "other f") auto
  obtain st1 st2 where p: "set_color (Some (node_of f)) RB_RED st n = (Inr (), st1)"
    "set_color (Some b) RB_BLACK st1 n = (Inr (), st2)"
    "zip_at st2 root (set_other (Nd sl b Black sr) (hue_frame Red f) # k) t"
    "outside (zip_addrs root (f # k) t) st st2"
    using paint_parent_sibling [OF assms(1) s, of Red n Black] by auto
  note foc = zip_focus [OF assms] and foc2 = zip_focus [OF p(3) assms(2)]
  have head: "hangs_left [set_other x (hue_frame c f)] = hangs_left [f]" for x c
    by (cases f) (simp_all add: hangs_left_def)
  have "\<exists>st'. (if hangs_left [f] then rotate_left (Some (node_of f)) else rotate_right (Some (node_of f))) st2 n = (Inr (), st') \<and>
    zip_at st' root (turn_red f @ k) t \<and> outside (zip_addrs root (f # k) t) st2 st'"
  proof (cases f)
    case (InL q c s')
    have "zip_at st2 root k (Nd t q Red (Nd sl b Black sr))" using p(3) InL by (simp add: zip_up)
    from rotate_left_zip [OF this, of n] show ?thesis using InL s
      by (simp add: zip_up hangs_left_def insert_commute Un_ac)
  next
    case (InR s' q c)
    have "zip_at st2 root k (Nd (Nd sl b Black sr) q Red t)" using p(3) InR by (simp add: zip_up)
    from rotate_right_zip [OF this, of n] show ?thesis using InR s
      by (simp add: zip_up hangs_left_def insert_commute Un_ac)
  qed
  then obtain st' where r: "(if hangs_left [f] then rotate_left (Some (node_of f)) else rotate_right (Some (node_of f))) st2 n = (Inr (), st')"
    "zip_at st' root (turn_red f @ k) t" "outside (zip_addrs root (f # k) t) st2 st'" by blast
  have "remove_case2 (ptr t) st n = (Inr (), st')"
    using foc foc2 tree_is_red [OF zip_other_tree [OF assms(1)]] Red s p(1,2) r(1) head
    by (cases "hangs_left [f]") (simp_all add: remove_case2_def bind_run)
  then show ?thesis using r(2,3) outside_trans [OF p(4)] by blast
qed

lemma zip_nephew_InL:
  "zip_at st root (InL p c (Nd sl b d sr) # k) t \<longleftrightarrow> zip_at st root (InR sl b d # InR t p c # k) sr"
  "zip_at st root (InL p c (Nd sl b d sr) # k) t \<longleftrightarrow> zip_at st root (InL b d sr # InR t p c # k) sl"
  by (simp_all add: zip_up)

lemma zip_nephew_InR:
  "zip_at st root (InR (Nd sl b d sr) p c # k) t \<longleftrightarrow> zip_at st root (InL b d sr # InL p c t # k) sl"
  "zip_at st root (InR (Nd sl b d sr) p c # k) t \<longleftrightarrow> zip_at st root (InR sl b d # InL p c t # k) sr"
  by (simp_all add: zip_up)

primrec outer_red :: "frame \<Rightarrow> bool" where
  "outer_red (InL p c s) \<longleftrightarrow> (case s of Nd sl b d sr \<Rightarrow> d = Black \<and> hue_of sr = Red | Lf \<Rightarrow> False)"
| "outer_red (InR s p c) \<longleftrightarrow> (case s of Nd sl b d sr \<Rightarrow> d = Black \<and> hue_of sl = Red | Lf \<Rightarrow> False)"

lemma kid_reads:
  assumes "zip_at st root (f # k) t" and "other f = Nd sl b e sr"
  shows "rb_get left (Some b) st n = (Inr (ptr sl), st)" and "rb_get right (Some b) st n = (Inr (ptr sr), st)"
    and "is_black (Some b) st n = (Inr (e = Black), st)"
    and "is_red (ptr sl) st n = (Inr (hue_of sl = Red), st)" and "is_black (ptr sl) st n = (Inr (hue_of sl = Black), st)"
    and "is_red (ptr sr) st n = (Inr (hue_of sr = Red), st)" and "is_black (ptr sr) st n = (Inr (hue_of sr = Black), st)"
proof -
  have s: "tree_at (rb_nodes st) (node_of f) (Nd sl b e sr)" using zip_other_tree [OF assms(1)] assms(2) by simp
  then show "rb_get left (Some b) st n = (Inr (ptr sl), st)" and "rb_get right (Some b) st n = (Inr (ptr sr), st)"
    and "is_black (Some b) st n = (Inr (e = Black), st)"
    by (simp_all add: rb_run is_black_def)
  have "tree_at (rb_nodes st) b sl" "tree_at (rb_nodes st) b sr" using s by simp_all
  then show "is_red (ptr sl) st n = (Inr (hue_of sl = Red), st)" "is_black (ptr sl) st n = (Inr (hue_of sl = Black), st)"
    "is_red (ptr sr) st n = (Inr (hue_of sr = Red), st)" "is_black (ptr sr) st n = (Inr (hue_of sr = Black), st)"
    by (simp_all add: tree_is_red tree_is_black)
qed

text \<open>Case 5: an inner red nephew is rotated to the outside.\<close>

lemma remove_case5_run:
  assumes "zip_at st root (f # k) t" and "t \<noteq> Lf" and "other f = Nd sl b Black sr"
    and "\<not> (hue_of sl = Black \<and> hue_of sr = Black)"
  shows "\<exists>st' f'. remove_case5 (ptr t) (Some b) st n = (Inr (), st') \<and> zip_at st' root (f' # k) t \<and>
    outside (zip_addrs root (f # k) t) st st' \<and> repair f' = repair f \<and> outer_red f' \<and>
    zip_addrs root (f' # k) t = zip_addrs root (f # k) t"
proof -
  note foc = zip_focus [OF assms(1,2)] and kids = kid_reads [OF assms(1,3)]
  consider (outer) "outer_red f" | (left) p c x y z where "f = InL p c (Nd (Nd x y Red z) b Black sr)" "hue_of sr = Black"
    | (right) p c x y z where "f = InR (Nd sl b Black (Nd x y Red z)) p c" "hue_of sl = Black"
    using assms(3,4)
    by (cases "hue_of sl"; cases "hue_of sr"; cases f; cases sl; cases sr) auto
  then show ?thesis
  proof cases
    case outer
    have "remove_case5 (ptr t) (Some b) st n = (Inr (), st)"
      using foc kids outer assms(3) by (cases f) (auto simp: remove_case5_def bind_run rb_and_def hangs_left_def)
    then show ?thesis using assms(1) outer by auto
  next
    case left
    have sl: "sl = Nd x y Red z" using left(1) assms(3) by simp
    obtain st1 where 1: "set_color (Some b) RB_RED st n = (Inr (), st1)"
      "zip_at st1 root (InL p c (Nd (Nd x y Red z) b Red sr) # k) t" "outside (zip_addrs root (f # k) t) st st1"
      using set_color_other [OF assms(1,3), of Red n] left sl by auto
    have "zip_at st1 root (InL b Red sr # InR t p c # k) (Nd x y Red z)" using 1(2) by (simp add: zip_nephew_InL(2))
    from set_color_zip [OF this, of Black n] obtain st2 where 2: "set_color (Some y) RB_BLACK st1 n = (Inr (), st2)"
      "zip_at st2 root (InL b Red sr # InR t p c # k) (Nd x y Black z)" "outside (zip_addrs root (f # k) t) st1 st2"
      using left by (auto simp: insert_commute Un_ac)
    have "zip_at st2 root (InR t p c # k) (Nd (Nd x y Black z) b Red sr)" using 2(2) by (simp only: zip_up plug1.simps)
    from rotate_right_zip [OF this, of n] obtain st3 where 3: "rotate_right (Some b) st2 n = (Inr (), st3)"
      "zip_at st3 root (InR t p c # k) (Nd x y Black (Nd z b Red sr))" "outside (zip_addrs root (f # k) t) st2 st3"
      using left by (auto simp: insert_commute Un_ac)
    have "rb_get left (Some b) st1 n = (Inr (Some y), st1)" using kid_reads(1) [OF 1(2), of "Nd x y Red z" b Red sr n] by simp
    then have "remove_case5 (ptr t) (Some b) st n = (Inr (), st3)"
      using foc kids 1(1) 2(1) 3(1) left sl by (simp add: remove_case5_def bind_run rb_and_def hangs_left_def)
    moreover have "zip_at st3 root (InL p c (Nd x y Black (Nd z b Red sr)) # k) t" using 3(2) by (simp add: zip_up)
    moreover have "outside (zip_addrs root (f # k) t) st st3" by (rule outside_trans [OF outside_trans [OF 1(3) 2(3)] 3(3)])
    moreover have "repair (InL p c (Nd x y Black (Nd z b Red sr))) = repair f" "outer_red (InL p c (Nd x y Black (Nd z b Red sr)))"
      "zip_addrs root (InL p c (Nd x y Black (Nd z b Red sr)) # k) t = zip_addrs root (f # k) t"
      using left by auto
    ultimately show ?thesis by blast
  next
    case right
    have sr: "sr = Nd x y Red z" using right(1) assms(3) by simp
    obtain st1 where 1: "set_color (Some b) RB_RED st n = (Inr (), st1)"
      "zip_at st1 root (InR (Nd sl b Red (Nd x y Red z)) p c # k) t" "outside (zip_addrs root (f # k) t) st st1"
      using set_color_other [OF assms(1,3), of Red n] right sr by auto
    have "zip_at st1 root (InR sl b Red # InL p c t # k) (Nd x y Red z)" using 1(2) by (simp add: zip_nephew_InR(2))
    from set_color_zip [OF this, of Black n] obtain st2 where 2: "set_color (Some y) RB_BLACK st1 n = (Inr (), st2)"
      "zip_at st2 root (InR sl b Red # InL p c t # k) (Nd x y Black z)" "outside (zip_addrs root (f # k) t) st1 st2"
      using right by (auto simp: insert_commute Un_ac)
    have "zip_at st2 root (InL p c t # k) (Nd sl b Red (Nd x y Black z))" using 2(2) by (simp only: zip_up plug1.simps)
    from rotate_left_zip [OF this, of n] obtain st3 where 3: "rotate_left (Some b) st2 n = (Inr (), st3)"
      "zip_at st3 root (InL p c t # k) (Nd (Nd sl b Red x) y Black z)" "outside (zip_addrs root (f # k) t) st2 st3"
      using right by (auto simp: insert_commute Un_ac)
    have "rb_get right (Some b) st1 n = (Inr (Some y), st1)" using kid_reads(2) [OF 1(2), of sl b Red "Nd x y Red z" n] by simp
    then have "remove_case5 (ptr t) (Some b) st n = (Inr (), st3)"
      using foc kids 1(1) 2(1) 3(1) right sr by (simp add: remove_case5_def bind_run rb_and_def hangs_left_def)
    moreover have "zip_at st3 root (InR (Nd (Nd sl b Red x) y Black z) p c # k) t" using 3(2) by (simp add: zip_up)
    moreover have "outside (zip_addrs root (f # k) t) st st3" by (rule outside_trans [OF outside_trans [OF 1(3) 2(3)] 3(3)])
    moreover have "repair (InR (Nd (Nd sl b Red x) y Black z) p c) = repair f" "outer_red (InR (Nd (Nd sl b Red x) y Black z) p c)"
      "zip_addrs root (InR (Nd (Nd sl b Red x) y Black z) p c # k) t = zip_addrs root (f # k) t"
      using right by auto
    ultimately show ?thesis by blast
  qed
qed

text \<open>Case 6: the outer nephew is red; the parent is rotated towards the focus.\<close>

lemma remove_case6_run:
  assumes "zip_at st root (f # k) t" and "t \<noteq> Lf" and "outer_red f"
  shows "\<exists>st'. remove_case6 (ptr t) st n = (Inr (), st') \<and> zip_at st' root (repair f @ k) t \<and>
    outside (zip_addrs root (f # k) t) st st'"
proof -
  obtain sl b sr where s: "other f = Nd sl b Black sr"
    using assms(3) by (cases f; cases "other f") auto
  let ?c = "frame_hue f"
  obtain st1 st2 where p: "set_color (Some b) (rbc ?c) st n = (Inr (), st1)"
    "zip_at st1 root (set_other (Nd sl b ?c sr) f # k) t"
    "set_color (Some (node_of f)) RB_BLACK st1 n = (Inr (), st2)"
    "zip_at st2 root (set_other (Nd sl b ?c sr) (hue_frame Black f) # k) t"
    "outside (zip_addrs root (f # k) t) st st2"
    using paint_sibling_parent [OF assms(1) s, of ?c n Black] by auto
  note foc = zip_focus [OF assms(1,2)] and foc2 = zip_focus [OF p(4) assms(2)]
  have pc: "rb_color (Some (node_of f)) st n = (Inr (rbc ?c), st)"
    using frame_color [OF assms(1)] by (simp add: rb_color_def)
  have head: "hangs_left [set_other x (hue_frame c f)] = hangs_left [f]" for x c
    by (cases f) (simp_all add: hangs_left_def)
  show ?thesis
  proof (cases f)
    case (InL q c s')
    then obtain x y z where sr: "sr = Nd x y Red z" using assms(3) s by (cases sr) auto
    have "zip_at st2 root (InR sl b c # InR t q Black # k) (Nd x y Red z)"
      using p(4) InL sr by (simp add: zip_nephew_InL(1))
    from set_color_zip [OF this, of Black n] obtain st3 where 3: "set_color (Some y) RB_BLACK st2 n = (Inr (), st3)"
      "zip_at st3 root (InR sl b c # InR t q Black # k) (Nd x y Black z)" "outside (zip_addrs root (f # k) t) st2 st3"
      using InL s sr by (auto simp: insert_commute Un_ac)
    have "zip_at st3 root k (Nd t q Black (Nd sl b c (Nd x y Black z)))" using 3(2) by (simp only: zip_up plug1.simps)
    from rotate_left_zip [OF this, of n] obtain st4 where 4: "rotate_left (Some q) st3 n = (Inr (), st4)"
      "zip_at st4 root k (Nd (Nd t q Black sl) b c (Nd x y Black z))" "outside (zip_addrs root (f # k) t) st3 st4"
      using InL s sr by (auto simp: insert_commute Un_ac)
    have "rb_get right (Some b) st2 n = (Inr (Some y), st2)"
      using kid_reads(2) [OF p(4), of sl b ?c sr n] sr by simp
    then have "remove_case6 (ptr t) st n = (Inr (), st4)"
      using foc foc2 pc p(1,3) 3(1) 4(1) head [of "Nd sl b ?c sr" Black] InL s
      by (simp add: remove_case6_def bind_run hangs_left_def)
    moreover have "zip_at st4 root (repair f @ k) t" using 4(2) InL s sr by (simp add: zip_up)
    moreover have "outside (zip_addrs root (f # k) t) st st4" by (rule outside_trans [OF outside_trans [OF p(5) 3(3)] 4(3)])
    ultimately show ?thesis by blast
  next
    case (InR s' q c)
    then obtain x y z where sl: "sl = Nd x y Red z" using assms(3) s by (cases sl) auto
    have "zip_at st2 root (InL b c sr # InL q Black t # k) (Nd x y Red z)"
      using p(4) InR sl by (simp add: zip_nephew_InR(1))
    from set_color_zip [OF this, of Black n] obtain st3 where 3: "set_color (Some y) RB_BLACK st2 n = (Inr (), st3)"
      "zip_at st3 root (InL b c sr # InL q Black t # k) (Nd x y Black z)" "outside (zip_addrs root (f # k) t) st2 st3"
      using InR s sl by (auto simp: insert_commute Un_ac)
    have "zip_at st3 root k (Nd (Nd (Nd x y Black z) b c sr) q Black t)" using 3(2) by (simp only: zip_up plug1.simps)
    from rotate_right_zip [OF this, of n] obtain st4 where 4: "rotate_right (Some q) st3 n = (Inr (), st4)"
      "zip_at st4 root k (Nd (Nd x y Black z) b c (Nd sr q Black t))" "outside (zip_addrs root (f # k) t) st3 st4"
      using InR s sl by (auto simp: insert_commute Un_ac)
    have "rb_get left (Some b) st2 n = (Inr (Some y), st2)"
      using kid_reads(1) [OF p(4), of sl b ?c sr n] sl by simp
    then have "remove_case6 (ptr t) st n = (Inr (), st4)"
      using foc foc2 pc p(1,3) 3(1) 4(1) head [of "Nd sl b ?c sr" Black] InR s
      by (simp add: remove_case6_def bind_run hangs_left_def)
    moreover have "zip_at st4 root (repair f @ k) t" using 4(2) InR s sl by (simp add: zip_up)
    moreover have "outside (zip_addrs root (f # k) t) st st4" by (rule outside_trans [OF outside_trans [OF p(5) 3(3)] 4(3)])
    ultimately show ?thesis by blast
  qed
qed

lemma black_sibling_run:
  assumes "zip_at st root (f # k) t" and "other f = Nd sl b e sr"
  shows "black_sibling (Some b) st n = (Inr (e = Black \<and> hue_of sl = Black \<and> hue_of sr = Black), st)"
  using kid_reads [OF assms] by (simp add: black_sibling_def bind_run rb_and_def)

lemma set_other_redden_addrs:
  "zip_addrs root k (plug1 (set_other (redden (other f)) f) t) = zip_addrs root (f # k) t"
  by (cases f; cases "other f") auto

text \<open>
  The loop repairs the way up when the position accepts a subtree with at least one black node on
  every path; it ends at the root exactly when every frame is of case 3.
\<close>

lemma remove_rounds_zip:
  assumes "zip_at st root k t" and "t \<noteq> Lf" and "accepts k h" and "0 < h" and "length k < m"
  shows "\<exists>st' k1 k2. remove_rounds m (ptr t) st n = (Inr (ptr (plug k1 t)), st') \<and>
    zip_at st' root (del_fix k) t \<and> outside (zip_addrs root k t) st st' \<and>
    del_fix k = k1 @ k2 \<and> (k2 = [] \<longleftrightarrow> reaches_root k)"
  using assms
proof (induction k arbitrary: st t h m)
  case Nil
  obtain l a c r where t: "t = Nd l a c r" using Nil(2) by (cases t) auto
  obtain m' where "m = Suc m'" using Nil(5) by (cases m) auto
  then have "remove_rounds m (ptr t) st n = (Inr (ptr t), st)"
    using zip_is_root [of st root "[]" l a c r n] Nil(1) t by (simp add: remove_round_def bind_run)
  then show ?case using Nil(1) by (intro exI [of _ st] exI [of _ "[]"]) (simp add: reaches_root_def)
next
  case (Cons f k)
  obtain m' where m: "m = Suc m'" "length k < m'" using Cons.prems(5) by (cases m) auto
  have acc: "no_red_red (other f)" "same_black (other f)" "bheight (other f) = h"
    "frame_hue f = Red \<longrightarrow> hue_of (other f) = Black" "accepts k (h + (if frame_hue f = Black then 1 else 0))"
    using Cons.prems(3) by auto
  obtain sl b e sr where s: "other f = Nd sl b e sr" using acc(3) Cons.prems(4) by (cases "other f") auto
  note foc = zip_focus [OF Cons.prems(1,2)]
  obtain st1 where c2: "remove_case2 (ptr t) st n = (Inr (), st1)" "zip_at st1 root (turn_red f @ k) t"
      "outside (zip_addrs root (f # k) t) st st1"
    using remove_case2_run [OF Cons.prems(1,2), of n] by blast
  show ?case
  proof (cases "goes_up f")
    case True
    then have g: "frame_hue f = Black" "e = Black" "hue_of sl = Black" "hue_of sr = Black"
      using s by (auto simp: goes_up_def)
    have turn: "turn_red f = [f]" using g(2) s by (cases f rule: turn_red.cases) auto
    have z1: "zip_at st1 root (f # k) t" using c2(2) turn by simp
    note foc1 = zip_focus [OF z1 Cons.prems(2)]
    obtain st2 where 2: "set_color (Some b) RB_RED st1 n = (Inr (), st2)"
      "zip_at st2 root (set_other (Nd sl b Red sr) f # k) t" "outside (zip_addrs root (f # k) t) st1 st2"
      using set_color_other [OF z1 s, of Red n] by auto
    let ?f = "set_other (redden (other f)) f"
    have f: "?f = set_other (Nd sl b Red sr) f" using s by simp
    have z2: "zip_at st2 root k (plug1 ?f t)" using 2(2) f by (simp add: zip_up)
    have nl: "plug1 ?f t \<noteq> Lf" and pp: "ptr (plug1 ?f t) = Some (node_of f)" by (cases f; simp)+
    obtain st' k1 k2 where ih: "remove_rounds m' (ptr (plug1 ?f t)) st2 n = (Inr (ptr (plug k1 (plug1 ?f t))), st')"
      "zip_at st' root (del_fix k) (plug1 ?f t)" "outside (zip_addrs root k (plug1 ?f t)) st2 st'"
      "del_fix k = k1 @ k2" "k2 = [] \<longleftrightarrow> reaches_root k"
      using Cons.IH [OF z2 nl acc(5) _ m(2)] Cons.prems(4) by blast
    have "remove_rounds m (ptr t) st n = (Inr (ptr (plug (?f # k1) t)), st')"
      using m(1) foc foc1 c2(1) frame_is_black [OF z1] black_sibling_run [OF z1 s] g s 2(1) ih(1) pp
      by (simp add: remove_round_def bind_run rb_and_def)
    moreover have "zip_at st' root (del_fix (f # k)) t" using ih(2) True by (simp add: zip_up)
    moreover have "outside (zip_addrs root (f # k) t) st st'"
      by (rule outside_trans [OF outside_trans [OF c2(3) 2(3)] ih(3) [unfolded set_other_redden_addrs]])
    moreover have "del_fix (f # k) = (?f # k1) @ k2" "k2 = [] \<longleftrightarrow> reaches_root (f # k)"
      using ih(4,5) True by (simp_all add: reaches_root_def)
    ultimately show ?thesis by blast
  next
    case False
    obtain g gs where turn: "turn_red f = g # gs" by (cases f rule: turn_red.cases) auto
    have z1: "zip_at st1 root (g # gs @ k) t" using c2(2) turn by simp
    note foc1 = zip_focus [OF z1 Cons.prems(2)]
    have g: "(\<exists>gl d gr. other g = Nd gl d Black gr) \<and> (gs = [] \<longrightarrow> g = f) \<and> (gs \<noteq> [] \<longrightarrow> frame_hue g = Red)"
    proof (cases e)
      case Black
      then have "turn_red f = [f]" using s by (cases f rule: turn_red.cases) auto
      then show ?thesis using turn s Black by auto
    next
      case Red
      have "sl \<noteq> Lf" "sr \<noteq> Lf" "hue_of sl = Black" "hue_of sr = Black" using acc s Red Cons.prems(4) by auto
      then show ?thesis using turn s Red by (cases f; cases sl; cases sr) auto
    qed
    then obtain gl d gr where gk: "other g = Nd gl d Black gr" by blast
    have no3: "\<not> (frame_hue g = Black \<and> hue_of gl = Black \<and> hue_of gr = Black)"
      using g False gk by (cases "gs = []") (auto simp: goes_up_def)
    have dfix: "del_fix (f # k) = repair g @ gs @ k" using False turn by simp
    have ne: "repair g \<noteq> []" using gk by (cases g; cases gl; cases gr) auto
    have "\<exists>st'. remove_rounds m (ptr t) st n = (Inr (ptr t), st') \<and> zip_at st' root (repair g @ gs @ k) t \<and>
      outside (zip_addrs root (g # gs @ k) t) st1 st'"
    proof (cases "hue_of gl = Black \<and> hue_of gr = Black")
      case True
      obtain st2 st3 where p: "set_color (Some d) RB_RED st1 n = (Inr (), st2)"
        "set_color (Some (node_of g)) RB_BLACK st2 n = (Inr (), st3)"
        "zip_at st3 root (set_other (Nd gl d Red gr) (hue_frame Black g) # gs @ k) t"
        "outside (zip_addrs root (g # gs @ k) t) st1 st3"
        using paint_sibling_parent [OF z1 gk, of Red n Black] by auto
      have "remove_rounds m (ptr t) st n = (Inr (ptr t), st3)"
        using m(1) foc foc1 c2(1) frame_is_black [OF z1] frame_color [OF z1] black_sibling_run [OF z1 gk] gk True no3 p(1,2)
        by (simp add: remove_round_def bind_run rb_and_def is_red_def)
      moreover have "repair g = [set_other (Nd gl d Red gr) (hue_frame Black g)]"
        using gk True by (cases g) auto
      ultimately show ?thesis using p(3,4) by auto
    next
      case False
      obtain st2 f' where 5: "remove_case5 (ptr t) (Some d) st1 n = (Inr (), st2)" "zip_at st2 root (f' # gs @ k) t"
        "outside (zip_addrs root (g # gs @ k) t) st1 st2" "repair f' = repair g" "outer_red f'"
        "zip_addrs root (f' # gs @ k) t = zip_addrs root (g # gs @ k) t"
        using remove_case5_run [OF z1 Cons.prems(2) gk False, of n] by blast
      obtain st3 where 6: "remove_case6 (ptr t) st2 n = (Inr (), st3)" "zip_at st3 root (repair g @ gs @ k) t"
        "outside (zip_addrs root (g # gs @ k) t) st2 st3"
        using remove_case6_run [OF 5(2) Cons.prems(2) 5(5), of n] 5(4,6) by auto
      have "remove_rounds m (ptr t) st n = (Inr (ptr t), st3)"
        using m(1) foc foc1 c2(1) frame_is_black [OF z1] frame_color [OF z1] black_sibling_run [OF z1 gk] gk False 5(1) 6(1)
        by (auto simp: remove_round_def bind_run rb_and_def is_red_def)
      then show ?thesis using 6(2) outside_trans [OF 5(3) 6(3)] by blast
    qed
    then obtain st' where r: "remove_rounds m (ptr t) st n = (Inr (ptr t), st')" "zip_at st' root (repair g @ gs @ k) t"
      "outside (zip_addrs root (g # gs @ k) t) st1 st'" by blast
    have A: "zip_addrs root (g # gs @ k) t = zip_addrs root (f # k) t"
      using turn by (cases f rule: turn_red.cases) auto
    have "outside (zip_addrs root (f # k) t) st st'" by (rule outside_trans [OF c2(3) r(3) [unfolded A]])
    then show ?thesis using r(1,2) dfix ne False
      by (intro exI [of _ st'] exI [of _ "[]"] exI [of _ "del_fix (f # k)"]) (simp add: reaches_root_def)
  qed
qed

section \<open>What repair keeps\<close>

lemma accepts_repair:
  assumes "accepts (g # k) (Suc h)" and "other g = Nd gl d Black gr"
    and "\<not> (frame_hue g = Black \<and> hue_of gl = Black \<and> hue_of gr = Black)"
  shows "accepts (repair g @ k) h \<and> (\<exists>f' k'. repair g @ k = f' # k' \<and> frame_hue f' = Black)"
proof (cases g)
  case (InL p c s)
  then show ?thesis using assms
    by (cases c; cases "hue_of gl"; cases "hue_of gr"; cases gl; cases gr) auto
next
  case (InR s p c)
  then show ?thesis using assms
    by (cases c; cases "hue_of gl"; cases "hue_of gr"; cases gl; cases gr) auto
qed

lemma accepts_turn_red:
  assumes "accepts (f # k) (Suc h)" and "other f = Nd sl b Red sr" and "turn_red f = g # gs"
  shows "accepts (g # gs @ k) (Suc h) \<and> (\<exists>gl d gr. other g = Nd gl d Black gr) \<and> frame_hue g = Red"
  using assms by (cases f; cases "frame_hue f"; cases sl; cases sr) auto

lemma accepts_del_fix:
  assumes "accepts k (Suc h)"
  shows "accepts (del_fix k) h \<and> (k \<noteq> [] \<longrightarrow> (\<exists>f' k'. del_fix k = f' # k' \<and> frame_hue f' = Black))"
  using assms
proof (induction k arbitrary: h)
  case (Cons f k)
  obtain sl b e sr where s: "other f = Nd sl b e sr" using Cons.prems by (cases "other f") auto
  show ?case
  proof (cases "goes_up f")
    case True
    then have "frame_hue f = Black" "e = Black" "hue_of sl = Black" "hue_of sr = Black"
      using s by (auto simp: goes_up_def)
    then show ?thesis using Cons.IH [of "Suc h"] Cons.prems True s by auto
  next
    case False
    obtain g gs where turn: "turn_red f = g # gs" by (cases f rule: turn_red.cases) auto
    have "accepts (g # gs @ k) (Suc h) \<and> (\<exists>gl d gr. other g = Nd gl d Black gr \<and>
      \<not> (frame_hue g = Black \<and> hue_of gl = Black \<and> hue_of gr = Black))"
    proof (cases e)
      case Red
      then show ?thesis using accepts_turn_red [OF Cons.prems _ turn] s by auto
    next
      case Black
      then have "turn_red f = [f]" using s by (cases f rule: turn_red.cases) auto
      then show ?thesis using turn Cons.prems s Black False by (auto simp: goes_up_def)
    qed
    then show ?thesis using accepts_repair [of g "gs @ k" h] False turn by auto
  qed
qed simp

lemma before_after_del_fix:
  assumes "accepts k (Suc h)"
  shows "before (del_fix k) = before k \<and> after (del_fix k) = after k"
  using assms
proof (induction k arbitrary: h)
  case (Cons f k)
  obtain sl b e sr where s: "other f = Nd sl b e sr" using Cons.prems by (cases "other f") auto
  show ?case
  proof (cases "goes_up f")
    case True
    then have "frame_hue f = Black" by (simp add: goes_up_def)
    then show ?thesis using Cons.IH [of "Suc h"] Cons.prems True s by (cases f) auto
  next
    case False
    obtain g gs where turn: "turn_red f = g # gs" by (cases f rule: turn_red.cases) auto
    have t: "before (g # gs) = before [f] \<and> after (g # gs) = after [f]"
      using turn by (cases f rule: turn_red.cases) auto
    have "before (repair g) = before [g] \<and> after (repair g) = after [g]"
      by (cases g rule: repair.cases) (auto split: rbt.splits)
    then show ?thesis using t turn False by simp
  qed
qed simp

section \<open>Removal\<close>

text \<open>The predecessor takes the place of a node with two children.\<close>

fun split_last :: "rbt \<Rightarrow> frame list \<times> rbt" where
  "split_last (Nd l a c (Nd rl b d rr)) =
     (case split_last (Nd rl b d rr) of (j, t) \<Rightarrow> (j @ [InR l a c], t))"
| "split_last t = ([], t)"

fun removal_pos :: "frame list \<Rightarrow> rbt \<Rightarrow> frame list \<times> rbt" where
  "removal_pos k (Nd l a c r) =
     (if l = Lf \<or> r = Lf then (k, Nd l a c r)
      else case split_last l of
        (j, Nd bl b d br) \<Rightarrow> (j @ InL b c r # k, Nd bl a d br)
      | (j, Lf) \<Rightarrow> (k, Nd l a c r))"
| "removal_pos k Lf = (k, Lf)"

primrec only_child :: "rbt \<Rightarrow> rbt" where
  "only_child Lf = Lf"
| "only_child (Nd l a c r) = (if r = Lf then l else r)"

definition rb_delete :: "frame list \<Rightarrow> rbt \<Rightarrow> rbt" where
  "rb_delete k t = (case removal_pos k t of (k', t') \<Rightarrow>
     if hue_of t' = Red then plug k' (only_child t')
     else plug (del_fix k') (if reaches_root k' then blacken (only_child t') else only_child t'))"

text \<open>The removals after which the paths differ in their black nodes.\<close>

definition unbalances :: "frame list \<Rightarrow> rbt \<Rightarrow> bool" where
  "unbalances k t \<longleftrightarrow> (case removal_pos k t of (k', t') \<Rightarrow>
     hue_of t' = Black \<and> hue_of (only_child t') = Red \<and> k' \<noteq> [] \<and> reaches_root k')"

lemma split_last_plug:
  "t = plug j (Nd bl b d Lf) \<Longrightarrow> \<forall>f \<in> set j. \<exists>s q e. f = InR s q e \<Longrightarrow> split_last t = (j, Nd bl b d Lf)"
proof (induction j arbitrary: t rule: rev_induct)
  case (snoc f j)
  obtain s q e where f: "f = InR s q e" using snoc.prems(2) by auto
  have "split_last (plug j (Nd bl b d Lf)) = (j, Nd bl b d Lf)" using snoc.IH snoc.prems(2) by simp
  moreover have "plug j (Nd bl b d Lf) \<noteq> Lf"
  proof -
    have "b \<in> set (addrs (plug j (Nd bl b d Lf)))" by simp
    then show ?thesis by (metis addrs.simps(1) empty_iff list.set(1))
  qed
  ultimately show ?case using snoc.prems(1) f by (cases "plug j (Nd bl b d Lf)") (auto simp: plug_append)
qed simp

lemma replace_zip:
  assumes "zip_at st root k (Nd l a c r)" and "l = Lf \<or> r = Lf"
  shows "\<exists>st'. replace (Some a) (ptr (only_child (Nd l a c r))) st n = (Inr (), st') \<and>
    zip_at st' root k (only_child (Nd l a c r)) \<and> rb_nodes st' a = rb_nodes st a \<and>
    outside (zip_addrs root k (Nd l a c r)) st st'"
proof -
  let ?u = "up root k" and ?S = "rb_nodes st" and ?x = "only_child (Nd l a c r)"
  have ctx: "ctx_at ?S root k (Some a)" and dist: "distinct (root # before k @ after k)"
    and a: "a \<notin> set (before k)" "a \<notin> set (after k)" "a \<noteq> root" "a \<noteq> ?u"
    and ha: "?S a = Some \<lparr>left = ptr l, right = ptr r, parent = Some ?u, color = rbc c\<rparr>"
    and x: "tree_at ?S a ?x" "distinct (root # before k @ addrs ?x @ after k)" "a \<notin> set (addrs ?x)"
    using assms up_apart [of a root k] by (auto simp: zip_at_def)
  have out: "b \<noteq> ?u" if "b \<notin> zip_addrs root k Lf" for b using up_apart [of b root k] that by auto
  show ?thesis
  proof (cases ?x)
    case Lf
    have "replace (Some a) (ptr ?x) st n = (Inr (), st\<lparr>rb_nodes := rehang ?S root k None\<rparr>)"
      using replace_run [OF ctx ha _ a(1,2,3), of None _ n] Lf by simp
    moreover have "zip_at (st\<lparr>rb_nodes := rehang ?S root k None\<rparr>) root k ?x"
      using ctx_rehang [OF ctx dist] x Lf by (simp add: zip_at_def)
    ultimately show ?thesis using a(4) out by (auto simp: outside_def)
  next
    case (Nd xl b e xr)
    have hb: "?S b = Some \<lparr>left = ptr xl, right = ptr xr, parent = Some a, color = rbc e\<rparr>"
      and b: "b \<noteq> a" "b \<notin> zip_addrs root k Lf" using x Nd by auto
    let ?h = "(rehang ?S root k (Some b))(b \<mapsto> \<lparr>left = ptr xl, right = ptr xr, parent = Some ?u, color = rbc e\<rparr>)"
    have "replace (Some a) (ptr ?x) st n = (Inr (), st\<lparr>rb_nodes := ?h\<rparr>)"
      using replace_run [OF ctx ha _ a(1,2,3), of "Some b" "\<lambda>_. \<lparr>left = ptr xl, right = ptr xr, parent = Some a, color = rbc e\<rparr>" n]
        Nd hb out [OF b(2)] by simp
    moreover have "zip_at (st\<lparr>rb_nodes := ?h\<rparr>) root k ?x"
    proof -
      have "b \<notin> set (addrs xl)" "b \<notin> set (addrs xr)" "?u \<notin> set (addrs xl)" "?u \<notin> set (addrs xr)"
        "b \<notin> set (before k)" "b \<notin> set (after k)" "b \<noteq> root" "tree_at ?S b xl" "tree_at ?S b xr"
        using x Nd up_in [of root k] by (auto simp: disjoint_iff)
      then show ?thesis using ctx_rehang [OF ctx dist] x(2) Nd by (auto simp: zip_at_def)
    qed
    moreover have "outside (zip_addrs root k (Nd l a c r)) st (st\<lparr>rb_nodes := ?h\<rparr>)"
      using out Nd assms(2) by (auto simp: outside_def split: if_splits)
    ultimately show ?thesis using a(4) b(1) by auto
  qed
qed

text \<open>The position of a removal: the node there has at most one child, and the tree is as good as before.\<close>

lemma accepts_rename: "accepts (j @ InL a c r # k) h = accepts (j @ InL b c r # k) h"
proof (induction j arbitrary: h)
  case (Cons f j)
  have "hd (j @ InL a c r # k) = (if j = [] then InL a c r else hd j)"
    "hd (j @ InL b c r # k) = (if j = [] then InL b c r else hd j)" by (cases j; simp)+
  then show ?case using Cons.IH by simp
qed simp

lemma removal_pos_cases:
  assumes "zip_at st root k (Nd l a c r)" and "red_black (plug k (Nd l a c r))"
    and "length (addrs l) \<le> n"
  shows "\<exists>st' k' l' d r'. removal_pos k (Nd l a c r) = (k', Nd l' a d r') \<and> (l' = Lf \<or> r' = Lf) \<and>
    (if ptr l \<noteq> None \<and> ptr r \<noteq> None then bind (navi_rb_last (ptr l)) (swap (Some a)) else ret ()) st n = (Inr (), st') \<and>
    zip_at st' root k' (Nd l' a d r') \<and> outside (zip_addrs root k (Nd l a c r)) st st' \<and>
    red_black (plug k' (Nd l' a d r')) \<and> zip_addrs root k' (Nd l' a d r') = zip_addrs root k (Nd l a c r) \<and>
    before k' @ addrs l' @ addrs r' @ after k' = before k @ addrs l @ addrs r @ after k \<and>
    length k' \<le> length k + length (addrs l)"
proof (cases "l = Lf \<or> r = Lf")
  case True
  then have p: "(if ptr l \<noteq> None \<and> ptr r \<noteq> None then bind (navi_rb_last (ptr l)) (swap (Some a)) else ret ()) = ret ()"
    by auto
  show ?thesis unfolding p
    by (rule exI [of _ st], rule exI [of _ k], rule exI [of _ l], rule exI [of _ c], rule exI [of _ r])
      (use True assms in simp)
next
  case False
  then have p: "ptr l \<noteq> None \<and> ptr r \<noteq> None" by (cases l; cases r) auto
  obtain st' j bl b d where x: "bind (navi_rb_last (ptr l)) (swap (Some a)) st n = (Inr (), st')"
    "l = plug j (Nd bl b d Lf)" "\<forall>f \<in> set j. \<exists>s q e. f = InR s q e"
    "zip_at st' root (j @ InL b c r # k) (Nd bl a d Lf)" "outside (zip_addrs root k (Nd l a c r)) st st'"
    using exchange_zip [OF assms(1) _ _ assms(3)] False by blast
  have pos: "removal_pos k (Nd l a c r) = (j @ InL b c r # k, Nd bl a d Lf)"
    using split_last_plug [OF x(2,3)] False by simp
  have bel: "below_red (j @ InL a c r # k) = below_red (j @ InL b c r # k)"
    by (cases j) (simp_all add: below_red_def)
  have "red_black (plug (j @ InL b c r # k) (Nd bl a d Lf)) = red_black (plug (j @ InL a c r # k) (Nd bl b d Lf))"
    unfolding red_black_plug accepts_rename [of j a c r k _ b] bel by simp
  also have "plug (j @ InL a c r # k) (Nd bl b d Lf) = plug k (Nd l a c r)" using x(2) by (simp add: plug_append)
  finally have rb: "red_black (plug (j @ InL b c r # k) (Nd bl a d Lf))" using assms(2) by simp
  have aj: "after j = []" using x(3) by (induction j) auto
  have al: "addrs l = before j @ addrs bl @ [b]" using x(2) aj by simp
  have len: "length j \<le> length (before j)" using x(3) by (induction j) auto
  show ?thesis unfolding pos
    by (rule exI [of _ st'], rule exI [of _ "j @ InL b c r # k"], rule exI [of _ bl], rule exI [of _ d], rule exI [of _ Lf])
      (use p x(1,4,5) rb al aj len in auto)
qed

text \<open>Whether the node at which the loop ended is the root, after the removed node has been cut out.\<close>

lemma is_root_after:
  assumes "zip_at st root (k1 @ k2) t" and "rb_nodes st a = Some na"
    and "parent na = Some (up root (k1 @ k2))"
  shows "is_root (top_ptr k1 (Some a)) st n = (Inr (k2 = []), st)"
proof (cases "k1 = []")
  case True
  show ?thesis
  proof (cases k2)
    case Nil
    then show ?thesis using assms True
      by (simp add: is_root_def rb_run top_ptr_def zip_at_def root_at_def)
  next
    case (Cons f k)
    then show ?thesis using assms True frame_color [of st root f k t n]
      by (simp add: is_root_def bind_run rb_get_run top_ptr_def)
  qed
next
  case False
  have z: "zip_at st root k2 (plug k1 t)" using assms(1) by (simp add: zip_append)
  have "ptr (plug k1 t) = top_ptr k1 (Some a)" using False by (simp add: ptr_plug top_ptr_def)
  then obtain l b c r where "plug k1 t = Nd l b c r" "top_ptr k1 (Some a) = Some b"
    using False by (cases "plug k1 t") (auto simp: top_ptr_def)
  then show ?thesis using zip_is_root [of st root k2 l b c r n] z by simp
qed

lemma remove_run:
  fixes st :: "'s rb_mem_scheme"
  assumes "zip_at st root k (Nd l a c r)" and "red_black (plug k (Nd l a c r))"
    and "length k + length (addrs l) < n"
  shows "\<exists>st'. navi_rb_remove (Some a) st n = (Inr (), st') \<and>
    zip_at st' root [] (rb_delete k (Nd l a c r)) \<and> outside (zip_addrs root k (Nd l a c r)) st st' \<and>
    rb_nodes st' a \<noteq> None"
proof -
  let ?A = "zip_addrs root k (Nd l a c r)"
  obtain st1 k' l' d r' where pos: "removal_pos k (Nd l a c r) = (k', Nd l' a d r')" "l' = Lf \<or> r' = Lf"
    and x: "(if ptr l \<noteq> None \<and> ptr r \<noteq> None then bind (navi_rb_last (ptr l)) (swap (Some a)) else ret ()) st n = (Inr (), st1)"
    and z1: "zip_at st1 root k' (Nd l' a d r')" and o1: "outside ?A st st1"
    and rb: "red_black (plug k' (Nd l' a d r'))" and A: "zip_addrs root k' (Nd l' a d r') = ?A"
    and len: "length k' \<le> length k + length (addrs l)"
    using removal_pos_cases [OF assms(1,2), of n] assms(3) by auto
  let ?t = "Nd l' a d r'"
  define child where "child = only_child ?t"
  have ch: "ptr child = (if ptr r' \<noteq> None then ptr r' else ptr l')" unfolding child_def by (cases r') auto
  have b1: "bind (rb_get right (Some a)) (\<lambda>r. bind (if r \<noteq> None then ret r else rb_get left (Some a)) F) st1 n =
      F (ptr child) st1 n" for F :: "rb_ptr \<Rightarrow> ('s, unit) mm"
    using zip_left [OF z1, of n] zip_right [OF z1, of n] ch by (cases "ptr r'") (simp_all add: bind_run)
  have b0: "bind (rb_get left (Some a)) (\<lambda>l. bind (rb_get right (Some a)) (\<lambda>r.
      bind (if l \<noteq> None \<and> r \<noteq> None then bind (navi_rb_last l) (swap (Some a)) else ret ()) F)) st n = F () st1 n"
    for F :: "unit \<Rightarrow> ('s, unit) mm"
    using zip_left [OF assms(1), of n] zip_right [OF assms(1), of n] x
    by (simp add: bind_run [where m = "rb_get _ _"] bind_run [where m = "if _ then _ else _"])
  have start: "navi_rb_remove (Some a) st n =
     bind (is_black (Some a)) (\<lambda>b.
     bind (if b then bind (rb_color (ptr child)) (\<lambda>c. bind (set_color (Some a) c) (\<lambda>_. (\<lambda>st k. remove_rounds k (Some a) st k)))
           else ret (Some a)) (\<lambda>m.
     bind (replace (Some a) (ptr child)) (\<lambda>_.
     bind (rb_and (is_root m) (ret (ptr child \<noteq> None))) (\<lambda>paint.
     if paint then set_color (ptr child) RB_BLACK else ret ())))) st1 n"
    unfolding navi_rb_remove_def b0 b1 ..
  have hd: "is_black (Some a) st1 n = (Inr (d = Black), st1)"
    using z1 by (simp add: is_black_def rb_run zip_at_def)
  have acc: "accepts k' (bheight ?t)" and root: "d = Red \<Longrightarrow> k' \<noteq> []" 
    using rb unfolding red_black_plug by (auto simp: below_red_def)
  show ?thesis
  proof (cases d)
    case Red
    obtain f k'' where k': "k' = f # k''" using root Red by (cases k') auto
    obtain st2 where r: "replace (Some a) (ptr child) st1 n = (Inr (), st2)" "zip_at st2 root k' child"
      "rb_nodes st2 a = rb_nodes st1 a" "outside ?A st1 st2"
      using replace_zip [OF z1 pos(2), of n] unfolding A child_def by blast
    have na: "rb_nodes st2 a = Some \<lparr>left = ptr l', right = ptr r', parent = Some (up root k'), color = rbc d\<rparr>"
      using r(3) z1 by (simp add: zip_at_def)
    have "is_root (Some a) st2 n = (Inr False, st2)"
      using is_root_after [of st2 root "[]" k' child a _ n] r(2) na k' by (simp add: top_ptr_def)
    then have "navi_rb_remove (Some a) st n = (Inr (), st2)"
      unfolding start using hd Red r(1) by (simp add: bind_run rb_and_def)
    moreover have "zip_at st2 root [] (rb_delete k (Nd l a c r))"
      using zip_plug [OF r(2)] pos(1) Red unfolding rb_delete_def child_def by simp
    ultimately show ?thesis using outside_trans [OF o1 r(4)] na by blast
  next
    case Black
    let ?h = "hue_of child"
    have "rb_color (ptr child) st1 n = (Inr (rbc ?h), st1)"
    proof (cases child)
      case (Nd x y e z)
      have "tree_at (rb_nodes st1) a child" using z1 pos(2) unfolding child_def by (auto simp: zip_at_def)
      then show ?thesis using Nd by (simp add: rb_color_def rb_run)
    qed (simp add: rb_color_def)
    moreover obtain st2 where c: "set_color (Some a) (rbc ?h) st1 n = (Inr (), st2)"
      "zip_at st2 root k' (Nd l' a ?h r')" "outside ?A st1 st2"
      using set_color_zip [OF z1, of ?h n] A by auto
    moreover have "length k' < n" using len assms(3) by simp
    moreover have "0 < bheight ?t" using Black by simp
    ultimately obtain st3 k1 k2 where m: "remove_rounds n (Some a) st2 n = (Inr (ptr (plug k1 (Nd l' a ?h r'))), st3)"
      "zip_at st3 root (del_fix k') (Nd l' a ?h r')" "outside ?A st2 st3"
      "del_fix k' = k1 @ k2" "k2 = [] \<longleftrightarrow> reaches_root k'"
      using remove_rounds_zip [OF c(2) _ acc, of n n] A by auto
    have same: "set (before k1 @ before k2) = set (before k2 @ before k1)" by auto
    have B: "zip_addrs root (del_fix k') (Nd l' a ?h r') = ?A"
    proof -
      obtain h where "bheight ?t = Suc h" using Black by simp
      then have "before (del_fix k') = before k' \<and> after (del_fix k') = after k'"
        using before_after_del_fix acc by metis
      then show ?thesis using A by simp
    qed
    have oc: "only_child (Nd l' a ?h r') = child" by (simp add: child_def)
    obtain st4 where r: "replace (Some a) (ptr child) st3 n = (Inr (), st4)" "zip_at st4 root (del_fix k') child"
      "rb_nodes st4 a = rb_nodes st3 a" "outside ?A st3 st4"
      using replace_zip [OF m(2) pos(2), of n] unfolding B oc by blast
    have na: "rb_nodes st4 a = Some \<lparr>left = ptr l', right = ptr r', parent = Some (up root (k1 @ k2)), color = rbc ?h\<rparr>"
      using r(3) m(2,4) by (simp add: zip_at_def)
    have isr: "is_root (ptr (plug k1 (Nd l' a ?h r'))) st4 n = (Inr (reaches_root k'), st4)"
      using is_root_after [OF r(2) [unfolded m(4)] na, of n] m(5) by (simp add: ptr_plug)
    have run: "navi_rb_remove (Some a) st n =
        (if reaches_root k' \<and> ptr child \<noteq> None then set_color (ptr child) RB_BLACK else ret ()) st4 n"
      unfolding start using hd Black \<open>rb_color _ _ _ = _\<close> c(1) m(1) r(1) isr by (simp add: bind_run rb_and_def)
    have o4: "outside ?A st st4"
      by (rule outside_trans [OF outside_trans [OF outside_trans [OF o1 c(3)] m(3)] r(4)])
    have goal: "rb_delete k (Nd l a c r) = plug (del_fix k') (if reaches_root k' then blacken child else child)"
      using pos(1) Black by (simp add: rb_delete_def child_def)
    show ?thesis
    proof (cases "reaches_root k' \<and> ptr child \<noteq> None")
      case True
      then obtain x y e z where cd: "child = Nd x y e z" by (cases child) auto
      obtain st5 where 5: "set_color (Some y) RB_BLACK st4 n = (Inr (), st5)" "zip_at st5 root (del_fix k') (Nd x y Black z)"
        "outside (zip_addrs root (del_fix k') child) st4 st5"
        using set_color_zip [of st4 root "del_fix k'" x y e z Black n] r(2) cd by auto
      have "zip_addrs root (del_fix k') child \<subseteq> ?A" using B pos(2) unfolding child_def by (auto split: if_splits)
      then have "outside ?A st4 st5" using 5(3) by (auto simp: outside_def)
      moreover have "a \<notin> zip_addrs root (del_fix k') child"
        using m(2) pos(2) unfolding child_def by (auto simp: zip_at_def split: if_splits)
      then have "rb_nodes st5 a = rb_nodes st4 a" using 5(3) by (simp add: outside_def)
      moreover have "zip_at st5 root [] (rb_delete k (Nd l a c r))"
        using zip_plug [OF 5(2)] True cd goal by simp
      ultimately show ?thesis using run True cd 5(1) na outside_trans [OF o4] by auto
    next
      case False
      then have "(if reaches_root k' then blacken child else child) = child" by (cases child) auto
      then have "zip_at st4 root [] (rb_delete k (Nd l a c r))" using zip_plug [OF r(2)] goal by simp
      moreover have "navi_rb_remove (Some a) st n = (Inr (), st4)" using run False by auto
      ultimately show ?thesis using na o4 by blast
    qed
  qed
qed

section \<open>What removal keeps\<close>

lemma right_spine: "t \<noteq> Lf \<Longrightarrow> \<exists>j bl b d. t = plug j (Nd bl b d Lf) \<and> (\<forall>f \<in> set j. \<exists>s q e. f = InR s q e)"
proof (induction t)
  case (Nd l a c r)
  show ?case
  proof (cases "r = Lf")
    case False
    then obtain j bl b d where "r = plug j (Nd bl b d Lf)" "\<forall>f \<in> set j. \<exists>s q e. f = InR s q e"
      using Nd.IH(2) by blast
    then show ?thesis by (intro exI [of _ "j @ [InR l a c]"]) (auto simp: plug_append)
  qed (auto intro: exI [of _ "[]"])
qed simp

lemma removal_pos_tree:
  assumes "red_black (plug k (Nd l a c r))"
  shows "\<exists>k' l' d r'. removal_pos k (Nd l a c r) = (k', Nd l' a d r') \<and> (l' = Lf \<or> r' = Lf) \<and>
    red_black (plug k' (Nd l' a d r')) \<and>
    before k' @ addrs l' @ addrs r' @ after k' = before k @ addrs l @ addrs r @ after k"
proof (cases "l = Lf \<or> r = Lf")
  case False
  then obtain j bl b d where l: "l = plug j (Nd bl b d Lf)" "\<forall>f \<in> set j. \<exists>s q e. f = InR s q e"
    using right_spine by blast
  have bel: "below_red (j @ InL a c r # k) = below_red (j @ InL b c r # k)"
    by (cases j) (simp_all add: below_red_def)
  have "red_black (plug (j @ InL b c r # k) (Nd bl a d Lf)) = red_black (plug (j @ InL a c r # k) (Nd bl b d Lf))"
    unfolding red_black_plug accepts_rename [of j a c r k _ b] bel by simp
  also have "plug (j @ InL a c r # k) (Nd bl b d Lf) = plug k (Nd l a c r)" using l(1) by (simp add: plug_append)
  finally have "red_black (plug (j @ InL b c r # k) (Nd bl a d Lf))" using assms by simp
  moreover have "after j = []" using l(2) by (induction j) auto
  ultimately show ?thesis using split_last_plug [OF l] l(1) False by simp
qed (use assms in auto)

lemma plug_blacken:
  "no_red_red (plug k t) \<Longrightarrow> no_red_red (plug k (blacken t))"
  "k \<noteq> [] \<Longrightarrow> hue_of (plug k t) = hue_of (plug k t')"
  "k \<noteq> [] \<Longrightarrow> same_black (plug k t) \<Longrightarrow> same_black (plug k t') \<Longrightarrow> bheight t = bheight t'"
proof -
  have mono: "no_red_red (plug k t) \<Longrightarrow> (no_red_red t \<Longrightarrow> no_red_red t') \<Longrightarrow> hue_of t' = Black \<or> hue_of t' = hue_of t \<Longrightarrow>
    no_red_red (plug k t')" for t t'
  proof (induction k arbitrary: t t')
    case (Cons f k)
    show ?case unfolding plug.simps by (rule Cons.IH [of "plug1 f t"]) (use Cons.prems in \<open>cases f; auto\<close>)+
  qed simp
  show "no_red_red (plug k t) \<Longrightarrow> no_red_red (plug k (blacken t))" by (rule mono [of t]) auto
  have "hue_of t = hue_of t' \<or> k \<noteq> [] \<Longrightarrow> hue_of (plug k t) = hue_of (plug k t')" for t t'
  proof (induction k arbitrary: t t')
    case (Cons f k)
    have "hue_of (plug1 f t) = hue_of (plug1 f t')" by (cases f) auto
    then show ?case unfolding plug.simps by (intro Cons.IH) simp
  qed simp
  then show "k \<noteq> [] \<Longrightarrow> hue_of (plug k t) = hue_of (plug k t')" by blast
  have sub: "same_black (plug i u) \<Longrightarrow> same_black u" for i u
  proof (induction i arbitrary: u)
    case (Cons g i)
    have "same_black (plug1 g u)" by (rule Cons.IH) (use Cons.prems in simp)
    then show ?case by (cases g) auto
  qed simp
  have "bheight u = bheight (other (hd k))" if "k \<noteq> []" "same_black (plug k u)" for u
  proof (cases k)
    case (Cons f k')
    have "same_black (plug1 f u)" by (rule sub [of k']) (use that(2) Cons in simp)
    then show ?thesis using Cons by (cases f) auto
  qed (use that in simp)
  then show "k \<noteq> [] \<Longrightarrow> same_black (plug k t) \<Longrightarrow> same_black (plug k t') \<Longrightarrow> bheight t = bheight t'" by metis
qed

lemma rb_delete_tree:
  assumes "red_black (plug k (Nd l a c r))"
  shows "addrs (rb_delete k (Nd l a c r)) = before k @ addrs l @ addrs r @ after k"
    and "no_red_red (rb_delete k (Nd l a c r))" and "hue_of (rb_delete k (Nd l a c r)) = Black"
    and "same_black (rb_delete k (Nd l a c r)) \<longleftrightarrow> \<not> unbalances k (Nd l a c r)"
proof -
  obtain k' l' d r' where pos: "removal_pos k (Nd l a c r) = (k', Nd l' a d r')" "l' = Lf \<or> r' = Lf"
    and rb: "red_black (plug k' (Nd l' a d r'))"
    and ad: "before k' @ addrs l' @ addrs r' @ after k' = before k @ addrs l @ addrs r @ after k"
    using removal_pos_tree [OF assms] by blast
  let ?t = "Nd l' a d r'" and ?c = "only_child (Nd l' a d r')"
  have acc: "accepts k' (bheight ?t)" and nr: "no_red_red ?t" and sb: "same_black ?t" and bel: "below_red k' \<longrightarrow> d = Black"
    using rb unfolding red_black_plug by auto
  have ch: "addrs ?c = addrs l' @ addrs r'" "no_red_red ?c" "same_black ?c" "bheight ?c = 0"
    "d = Red \<longrightarrow> ?c = Lf"
    using pos(2) nr sb by (auto split: if_splits) (cases l'; cases r'; auto)+
  have all: "addrs (rb_delete k (Nd l a c r)) = before k @ addrs l @ addrs r @ after k \<and>
    no_red_red (rb_delete k (Nd l a c r)) \<and> hue_of (rb_delete k (Nd l a c r)) = Black \<and>
    (same_black (rb_delete k (Nd l a c r)) \<longleftrightarrow> \<not> unbalances k (Nd l a c r))"
  proof (cases d)
    case Red
    have c: "?c = Lf" using ch(5) Red by simp
    have del: "rb_delete k (Nd l a c r) = plug k' Lf" using pos(1) Red c unfolding rb_delete_def by simp
    have "red_black (plug k' Lf)" unfolding red_black_plug using acc Red ch(4) c pos(2) by (auto split: if_splits)
    then show ?thesis using del pos(1) Red ad ch(1) c by (simp add: red_black_def unbalances_def)
  next
    case Black
    let ?k = "del_fix k'"
    have a1: "accepts k' (Suc 0)" using acc Black pos(2) ch(4) sb by (auto split: if_splits)
    note a0 = accepts_del_fix [OF a1] and ba = before_after_del_fix [OF a1]
    have del: "rb_delete k (Nd l a c r) = plug ?k (if reaches_root k' then blacken ?c else ?c)"
      using pos(1) Black unfolding rb_delete_def by simp
    have un: "unbalances k (Nd l a c r) \<longleftrightarrow> hue_of ?c = Red \<and> k' \<noteq> [] \<and> reaches_root k'"
      using pos(1) Black unfolding unbalances_def by simp
    have ads: "addrs (rb_delete k (Nd l a c r)) = before k @ addrs l @ addrs r @ after k"
      unfolding del using ba ch(1) ad by simp
    show ?thesis
    proof (cases "k' = []")
      case True
      then show ?thesis using ads del un ch(2,3) by (simp add: reaches_root_def)
    next
      case False
      have rbc: "red_black (plug ?k ?c)"
        unfolding red_black_plug using a0 ch False by (auto simp: below_red_def)
      have kne: "?k \<noteq> []" using a0 False by auto
      have "no_red_red (plug ?k (blacken ?c))" "hue_of (plug ?k (blacken ?c)) = Black"
        using plug_blacken(1) [of ?k ?c] plug_blacken(2) [OF kne, of ?c "blacken ?c"] rbc by (auto simp: red_black_def)
      moreover have "same_black (plug ?k (blacken ?c)) \<longleftrightarrow> hue_of ?c = Black"
      proof (cases "hue_of ?c")
        case Red
        then show ?thesis
          using plug_blacken(3) [OF kne, of ?c "blacken ?c"] rbc bheight_blacken [OF Red] by (auto simp: red_black_def)
      next
        case Black
        then have "blacken ?c = ?c" by (cases ?c) auto
        then show ?thesis using rbc Black by (simp add: red_black_def)
      qed
      ultimately show ?thesis using ads del un rbc False by (auto simp: red_black_def)
    qed
  qed
  then show "addrs (rb_delete k (Nd l a c r)) = before k @ addrs l @ addrs r @ after k"
    and "no_red_red (rb_delete k (Nd l a c r))" and "hue_of (rb_delete k (Nd l a c r)) = Black"
    and "same_black (rb_delete k (Nd l a c r)) \<longleftrightarrow> \<not> unbalances k (Nd l a c r)" by blast+
qed

end
