(* ===== verification/Spec_Slab.thy ===== *)
theory Spec_Slab
  imports Navi_Slab Spec_Rbremove
begin

text \<open>
  The slab allocator of \<open>slab.c\<close> over its red-black trees: inserting and searching a slab by its
  address, and what allocation and freeing do to the objects of a cache.
\<close>

section \<open>Trees ordered by address\<close>

text \<open>A tree of slabs at the dummy root \<open>root\<close>, in the order of the addresses.\<close>

definition rb_tree_at :: "'s rb_mem_scheme \<Rightarrow> nat \<Rightarrow> rbt \<Rightarrow> bool" where
  "rb_tree_at st root t \<longleftrightarrow> zip_at st root [] t \<and> sorted (addrs t)"

lemma read_link_run:
  assumes "zip_at st root k t"
  shows "read_link (link_of root k) st n = (Inr (ptr t), st)"
proof (cases k)
  case Nil
  then show ?thesis using assms
    by (simp add: read_link_def link_of_def hangs_left_def zip_at_def root_at_def rb_get_run)
next
  case (Cons f k')
  then show ?thesis using assms
    by (cases f) (simp_all add: read_link_def link_of_def hangs_left_def zip_at_def rb_get_run)
qed

text \<open>The search goes down to the empty link where the address belongs.\<close>

lemma slab_search_run:
  assumes "zip_at st root k t" and "sorted (before k @ addrs t @ after k)"
    and "\<And>b. b \<in> set (before k) \<Longrightarrow> b < a" and "\<And>b. b \<in> set (after k) \<Longrightarrow> a < b" and "a \<notin> set (addrs t)"
    and "length (addrs t) < m"
  shows "\<exists>k'. slab_search m a (link_of root k) (Some (up root k)) st n =
      (Inr (link_of root k', Some (up root k')), st) \<and>
    zip_at st root k' Lf \<and> plug k' Lf = plug k t \<and> length k' \<le> length k + length (addrs t) \<and>
    (\<forall>b \<in> set (before k'). b < a) \<and> (\<forall>b \<in> set (after k'). a < b)"
  using assms
proof (induction t arbitrary: k m)
  case Lf
  then obtain m' where "m = Suc m'" by (cases m) auto
  then show ?case using Lf read_link_run [OF Lf.prems(1), of n]
    by (intro exI [of _ k]) (simp add: bind_run)
next
  case (Nd l b c r)
  obtain m' where m: "m = Suc m'" using Nd.prems(6) by (cases m) auto
  note rd = read_link_run [OF Nd.prems(1), of n]
  show ?case
  proof (cases "a < b")
    case True
    let ?k = "InL b c r # k"
    have "\<exists>k'. slab_search m' a (link_of root ?k) (Some (up root ?k)) st n =
        (Inr (link_of root k', Some (up root k')), st) \<and>
      zip_at st root k' Lf \<and> plug k' Lf = plug ?k l \<and> length k' \<le> length ?k + length (addrs l) \<and>
      (\<forall>b \<in> set (before k'). b < a) \<and> (\<forall>b \<in> set (after k'). a < b)"
    proof (rule Nd.IH(1))
      show "zip_at st root ?k l" using Nd.prems(1) by (simp add: zip_up)
      show "sorted (before ?k @ addrs l @ after ?k)" using Nd.prems(2) by simp
      show "a < x" if "x \<in> set (after ?k)" for x
        using that True Nd.prems(2,4) by (auto simp: sorted_append intro: less_le_trans [OF True])
    qed (use Nd.prems(3,5,6) m in auto)
    moreover have "slab_search m a (link_of root k) (Some (up root k)) st n =
        slab_search m' a (link_of root ?k) (Some (up root ?k)) st n"
      using m rd True by (simp add: bind_run link_of_def hangs_left_def)
    ultimately show ?thesis by auto
  next
    case False
    let ?k = "InR l b c # k"
    have ab: "b < a" using False Nd.prems(5) by (cases "a = b") auto
    have "\<exists>k'. slab_search m' a (link_of root ?k) (Some (up root ?k)) st n =
        (Inr (link_of root k', Some (up root k')), st) \<and>
      zip_at st root k' Lf \<and> plug k' Lf = plug ?k r \<and> length k' \<le> length ?k + length (addrs r) \<and>
      (\<forall>b \<in> set (before k'). b < a) \<and> (\<forall>b \<in> set (after k'). a < b)"
    proof (rule Nd.IH(2))
      show "zip_at st root ?k r" using Nd.prems(1) by (simp add: zip_up)
      show "sorted (before ?k @ addrs r @ after ?k)" using Nd.prems(2) by simp
      show "x < a" if "x \<in> set (before ?k)" for x
        using that ab Nd.prems(2,3) by (auto simp: sorted_append intro: le_less_trans [OF _ ab])
    qed (use Nd.prems(4,5,6) m in auto)
    moreover have "slab_search m a (link_of root k) (Some (up root k)) st n =
        slab_search m' a (link_of root ?k) (Some (up root ?k)) st n"
      using m rd False by (simp add: bind_run link_of_def hangs_left_def)
    ultimately show ?thesis by auto
  qed
qed

lemma insort_between:
  assumes "sorted (xs @ ys)" and "\<forall>b \<in> set xs. b < a" and "\<forall>b \<in> set ys. a < b"
  shows "insort a (xs @ ys) = xs @ a # ys"
  using assms
proof (induction xs)
  case Nil
  then show ?case by (cases ys) auto
qed auto

text \<open>
  Inserting a slab: the tree keeps the rule of the colours and, if it had it, the same number of
  black nodes on all paths; its addresses get one more, in order.
\<close>

lemma slab_insert_tinted:
  assumes "rb_tree_at st root t" and "tinted t" and "rb_nodes st a = Some x" and "a \<notin> insert root (set (addrs t))"
    and "length (addrs t) + 2 \<le> n"
  shows "\<exists>st' t'. slab_insert root a st n = (Inr (), st') \<and> rb_tree_at st' root t' \<and> tinted t' \<and>
    (same_black t \<longrightarrow> same_black t') \<and>
    addrs t' = insort a (addrs t) \<and> outside (insert a (insert root (set (addrs t)))) st st'"
proof -
  have link: "link_of root [] = LeftLink (Some root)" by (simp add: link_of_def hangs_left_def)
  obtain k where k: "slab_search n a (LeftLink (Some root)) (Some root) st n = (Inr (link_of root k, Some (up root k)), st)"
      "zip_at st root k Lf" "plug k Lf = t" "length k \<le> length (addrs t)"
      "\<forall>b \<in> set (before k). b < a" "\<forall>b \<in> set (after k). a < b"
    using slab_search_run [of st root "[]" t a n n] assms(1,4,5) link by (auto simp: rb_tree_at_def)
  have ad: "addrs t = before k @ after k" using k(3) by auto
  have "a \<notin> zip_addrs root k Lf" using assms(4) ad by auto
  then obtain st' where st': "navi_rb_insert (Some a) (Some (up root k)) (link_of root k) st n = (Inr (), st')"
      "zip_at st' root [] (ins_fix k (Nd Lf a Red Lf))" "outside (insert a (zip_addrs root k Lf)) st st'"
    using insert_at_link [OF k(2) assms(3) _ _, of n] assms(2,5) k(3,4) by (auto simp: tinted_def)
  have "slab_insert root a st n = (Inr (), st')"
    using k(1) st'(1) by (simp add: slab_insert_def bind_run rb_root_link_def rb_root_parent_def)
  moreover have "tinted (ins_fix k (Nd Lf a Red Lf))"
    by (rule tinted_ins_fix) (use assms(2) k(3) tinted_plug [of k Lf] in auto)
  moreover have "same_black (ins_fix k (Nd Lf a Red Lf))" if "same_black t"
  proof -
    have "red_black (plug k Lf)" using that assms(2) k(3) by (simp add: red_black_tinted)
    then have "red_black (ins_fix k (Nd Lf a Red Lf))"
      by (intro red_black_ins_fix) (use red_black_plug [of k Lf] in auto)
    then show ?thesis by (simp add: red_black_def)
  qed
  moreover have "sorted (before k @ after k)" using assms(1) ad by (simp add: rb_tree_at_def)
  then have "addrs (ins_fix k (Nd Lf a Red Lf)) = insort a (addrs t)"
    using insort_between [of "before k" "after k" a] k(5,6) ad by (simp add: addrs_ins_fix)
  moreover have "sorted (insort a (addrs t))" using assms(1) by (simp add: rb_tree_at_def sorted_insort)
  moreover have "insert a (zip_addrs root k Lf) = insert a (insert root (set (addrs t)))" using ad by auto
  ultimately show ?thesis using st'(2,3) unfolding rb_tree_at_def by metis
qed

lemma slab_insert_run:
  assumes "rb_tree_at st root t" and "red_black t" and "rb_nodes st a = Some x" and "a \<notin> insert root (set (addrs t))"
    and "length (addrs t) + 2 \<le> n"
  shows "\<exists>st' t'. slab_insert root a st n = (Inr (), st') \<and> rb_tree_at st' root t' \<and> red_black t' \<and>
    addrs t' = insort a (addrs t) \<and> outside (insert a (insert root (set (addrs t)))) st st'"
  using slab_insert_tinted [OF assms(1) _ assms(3-5)] assms(2) unfolding red_black_tinted by blast

lemma locate: "a \<in> set (addrs t) \<Longrightarrow> \<exists>k l c r. t = plug k (Nd l a c r)"
proof (induction t)
  case (Nd l b c r)
  consider "a = b" | "a \<in> set (addrs l)" | "a \<in> set (addrs r)" using Nd.prems by auto
  then show ?case
  proof cases
    case 1
    then show ?thesis by (intro exI [of _ "[]"]) auto
  next
    case 2
    then obtain k l' c' r' where "l = plug k (Nd l' a c' r')" using Nd.IH(1) by blast
    then show ?thesis by (intro exI [of _ "k @ [InL b c r]"]) (auto simp: plug_append)
  next
    case 3
    then obtain k l' c' r' where "r = plug k (Nd l' a c' r')" using Nd.IH(2) by blast
    then show ?thesis by (intro exI [of _ "k @ [InR l b c]"]) (auto simp: plug_append)
  qed
qed simp

lemma length_path: "length k \<le> length (before k) + length (after k)"
proof (induction k)
  case (Cons f k)
  then show ?case by (cases f) auto
qed simp

text \<open>
  Removing a slab: the order and the colours are kept; the number of black nodes is the same on
  all paths again unless the removal is one that unbalances.
\<close>

lemma slab_remove_run:
  assumes "rb_tree_at st root (plug k (Nd l a c r))" and "red_black (plug k (Nd l a c r))"
    and "length (addrs (plug k (Nd l a c r))) < n"
  shows "\<exists>st' t'. slab_remove a st n = (Inr (), st') \<and> rb_tree_at st' root t' \<and>
    addrs t' = removeAll a (addrs (plug k (Nd l a c r))) \<and> no_red_red t' \<and> hue_of t' = Black \<and>
    (same_black t' \<longleftrightarrow> \<not> unbalances k (Nd l a c r)) \<and>
    outside (insert root (set (addrs (plug k (Nd l a c r))))) st st' \<and> rb_nodes st' a \<noteq> None"
proof -
  let ?t = "Nd l a c r"
  have z: "zip_at st root k ?t" using assms(1) zip_append [of st root k "[]" ?t] by (simp add: rb_tree_at_def)
  have "length k + length (addrs l) < n" using assms(3) length_path [of k] by simp
  then obtain st' where st': "navi_rb_remove (Some a) st n = (Inr (), st')" "zip_at st' root [] (rb_delete k ?t)"
      "outside (zip_addrs root k ?t) st st'" "rb_nodes st' a \<noteq> None"
    using remove_run [OF z assms(2)] by blast
  note d = rb_delete_tree [OF assms(2)]
  have "distinct (addrs (plug k ?t))" using assms(1) by (simp add: rb_tree_at_def zip_at_def)
  then have "removeAll a (addrs (plug k ?t)) = addrs (rb_delete k ?t)" unfolding d(1) by (simp add: removeAll_id)
  moreover have "sorted (addrs (plug k ?t))" using assms(1) by (simp add: rb_tree_at_def)
  then have "sorted (addrs (rb_delete k ?t))" unfolding d(1) by (auto simp: sorted_append)
  moreover have "zip_addrs root k ?t = insert root (set (addrs (plug k ?t)))" by auto
  ultimately show ?thesis using st' d(2-4) unfolding rb_tree_at_def slab_remove_def by metis
qed

section \<open>Finding a slab\<close>

lemma find_append: "List.find P (xs @ ys) = (case List.find P xs of None \<Rightarrow> List.find P ys | Some x \<Rightarrow> Some x)"
  by (induction xs) auto

lemma find_None: "(\<And>x. x \<in> set xs \<Longrightarrow> \<not> P x) \<Longrightarrow> List.find P xs = None"
  by (simp add: find_None_iff)

lemma find_slab_rounds_run:
  assumes "tree_at (rb_nodes st) u t" and "sorted_wrt (\<lambda>a b. slab_end a \<le> b) (addrs t)" and "length (addrs t) < m"
  shows "find_slab_rounds m (ptr t) mem st n =
    (Inr (List.find (\<lambda>a. a \<le> mem \<and> mem < slab_end a) (addrs t)), st)"
  using assms
proof (induction t arbitrary: u m)
  case Lf
  then show ?case by (cases m) auto
next
  case (Nd l b c r)
  let ?P = "\<lambda>a. a \<le> mem \<and> mem < slab_end a"
  obtain m' where m: "m = Suc m'" using Nd.prems(3) by (cases m) auto
  have grow: "a \<le> slab_end a" for a by (simp add: slab_end_def)
  have wl: "sorted_wrt (\<lambda>a b. slab_end a \<le> b) (addrs l)" and wr: "sorted_wrt (\<lambda>a b. slab_end a \<le> b) (addrs r)"
    and lb: "\<And>x. x \<in> set (addrs l) \<Longrightarrow> slab_end x \<le> b" and br: "\<And>x. x \<in> set (addrs r) \<Longrightarrow> slab_end b \<le> x"
    using Nd.prems(2) by (auto simp: sorted_wrt_append)
  have reads: "rb_get left (Some b) st n = (Inr (ptr l), st)" "rb_get right (Some b) st n = (Inr (ptr r), st)"
    using Nd.prems(1) by (simp_all add: rb_get_run)
  have sub: "tree_at (rb_nodes st) b l" "tree_at (rb_nodes st) b r" using Nd.prems(1) by simp_all
  consider "mem < b" | "slab_end b \<le> mem" | "b \<le> mem" "mem < slab_end b" by fastforce
  then show ?case
  proof cases
    case 1
    have "List.find ?P (addrs r) = None"
      using br grow [of b] 1 by (intro find_None) fastforce
    moreover have "find_slab_rounds m' (ptr l) mem st n = (Inr (List.find ?P (addrs l)), st)"
      by (rule Nd.IH(1) [OF sub(1) wl]) (use Nd.prems(3) m in simp)
    ultimately show ?thesis using m 1 reads by (simp add: bind_run find_append split: option.split)
  next
    case 2
    have "List.find ?P (addrs l) = None"
      using lb grow [of b] 2 by (intro find_None) fastforce
    moreover have "find_slab_rounds m' (ptr r) mem st n = (Inr (List.find ?P (addrs r)), st)"
      by (rule Nd.IH(2) [OF sub(2) wr]) (use Nd.prems(3) m in simp)
    ultimately show ?thesis using m 2 reads grow [of b] by (simp add: bind_run find_append)
  next
    case 3
    have "List.find ?P (addrs l) = None" using lb 3 by (intro find_None) fastforce
    then show ?thesis using m 3 by (simp add: find_append)
  qed
qed

section \<open>Slabs and caches\<close>

primrec free_at :: "(nat \<Rightarrow> nat option) \<Rightarrow> nat option \<Rightarrow> nat list \<Rightarrow> bool" where
  "free_at nx p [] \<longleftrightarrow> p = None"
| "free_at nx p (x # xs) \<longleftrightarrow> p = Some x \<and> free_at nx (nx x) xs"

lemma free_at_upd [simp]: "x \<notin> set xs \<Longrightarrow> free_at (nx(x := v)) p xs = free_at nx p xs"
  by (induction xs arbitrary: p) auto

lemma free_at_cong: "(\<And>x. x \<in> set xs \<Longrightarrow> nx' x = nx x) \<Longrightarrow> free_at nx' p xs = free_at nx p xs"
  by (induction xs arbitrary: p) auto

definition obj_addrs :: "slab_cache \<Rightarrow> nat \<Rightarrow> nat set" where
  "obj_addrs cache a = get_object cache a ` {..<objs_per_slab cache}"

text \<open>A slab with the free objects \<open>fs\<close>.\<close>

definition slab_at :: "slab_mem \<Rightarrow> slab_cache \<Rightarrow> nat \<Rightarrow> nat list \<Rightarrow> bool" where
  "slab_at st cache a fs \<longleftrightarrow> (\<exists>s. slabs st a = Some s \<and> free_at (obj_next st) (slab_free s) fs \<and>
     distinct fs \<and> set fs \<subseteq> obj_addrs cache a \<and> unat (in_use s) + length fs = objs_per_slab cache)"

text \<open>
  A cache with its three trees and the free objects of every slab.  The blocks of the slabs do not
  overlap.
\<close>

definition cache_ok :: "slab_cache \<Rightarrow> bool" where
  "cache_ok cache \<longleftrightarrow> 16 \<le> obj_size cache \<and> obj_size cache \<le> SLAB_MEM_SIZE \<and>
     objs_per_slab cache = SLAB_MEM_SIZE div obj_size cache \<and>
     partial cache = full cache + 32 \<and> empty cache = full cache + 64"

definition spaced :: "nat set \<Rightarrow> bool" where
  "spaced A \<longleftrightarrow> (\<forall>a \<in> A. \<forall>b \<in> A. a \<noteq> b \<longrightarrow> slab_end a \<le> b \<or> slab_end b \<le> a)"

definition roots :: "slab_cache \<Rightarrow> nat set" where
  "roots cache = {full cache, partial cache, empty cache}"

definition all_slabs :: "slab_cache \<Rightarrow> (nat \<Rightarrow> rbt) \<Rightarrow> nat set" where
  "all_slabs cache T = (\<Union>r \<in> roots cache. set (addrs (T r)))"

definition trees_at :: "slab_mem \<Rightarrow> slab_cache \<Rightarrow> (nat \<Rightarrow> rbt) \<Rightarrow> (nat \<Rightarrow> nat list) \<Rightarrow> bool" where
  "trees_at st cache T fl \<longleftrightarrow> cache_ok cache \<and>
     (\<forall>r \<in> roots cache. rb_tree_at st r (T r)) \<and>
     (\<forall>r \<in> roots cache. \<forall>q \<in> roots cache. r \<noteq> q \<longrightarrow> set (addrs (T r)) \<inter> set (addrs (T q)) = {}) \<and>
     roots cache \<inter> all_slabs cache T = {} \<and>
     (\<forall>a \<in> all_slabs cache T. slab_at st cache a (fl a)) \<and>
     spaced (all_slabs cache T)"

text \<open>A slab is in the tree that fits the number of its free objects.\<close>

definition sorted_out :: "slab_cache \<Rightarrow> (nat \<Rightarrow> rbt) \<Rightarrow> (nat \<Rightarrow> nat list) \<Rightarrow> bool" where
  "sorted_out cache T fl \<longleftrightarrow>
     (\<forall>a \<in> set (addrs (T (full cache))). fl a = []) \<and>
     (\<forall>a \<in> set (addrs (T (partial cache))). fl a \<noteq> [] \<and> length (fl a) < objs_per_slab cache) \<and>
     (\<forall>a \<in> set (addrs (T (empty cache))). length (fl a) = objs_per_slab cache)"

definition cache_at :: "slab_mem \<Rightarrow> slab_cache \<Rightarrow> (nat \<Rightarrow> rbt) \<Rightarrow> (nat \<Rightarrow> nat list) \<Rightarrow> bool" where
  "cache_at st cache T fl \<longleftrightarrow> trees_at st cache T fl \<and> sorted_out cache T fl"

text \<open>The objects in use: those of the slabs of the cache that are not free.\<close>

definition used :: "slab_cache \<Rightarrow> (nat \<Rightarrow> rbt) \<Rightarrow> (nat \<Rightarrow> nat list) \<Rightarrow> nat set" where
  "used cache T fl = (\<Union>a \<in> all_slabs cache T. obj_addrs cache a - set (fl a))"

lemma not_double [simp]: "\<not> is_double cache"
  by (simp add: is_double_def NAVI_SLAB_DOUBLY_LINKED_def)

lemma objs_bound: "cache_ok cache \<Longrightarrow> objs_per_slab cache \<le> 253 \<and> 0 < objs_per_slab cache"
proof -
  assume "cache_ok cache"
  then have c: "16 \<le> obj_size cache" "obj_size cache \<le> 4048" "objs_per_slab cache = 4048 div obj_size cache"
    by (auto simp: cache_ok_def SLAB_MEM_SIZE_def SLAB_SIZE_def SLAB_DESC_SIZE_def)
  have "4048 div obj_size cache \<le> 4048 div 16" by (rule div_le_mono2) (use c(1) in auto)
  then show ?thesis using c by (simp add: div_greater_zero_iff)
qed

text \<open>The objects of a slab lie in its block, one behind the other.\<close>

lemma obj_addrs_range:
  assumes "cache_ok cache" and "x \<in> obj_addrs cache a"
  shows "a \<le> x" and "x < slab_end a"
proof -
  obtain i where i: "i < objs_per_slab cache" "x = a + SLAB_DESC_SIZE + obj_size cache * i"
    using assms(2) by (auto simp: obj_addrs_def get_object_def)
  have "obj_size cache * i < obj_size cache * objs_per_slab cache" using i(1) assms(1) by (auto simp: cache_ok_def)
  also have "\<dots> \<le> SLAB_MEM_SIZE" using assms(1) by (simp add: cache_ok_def)
  finally show "x < slab_end a" using i(2) by (simp add: slab_end_def)
  show "a \<le> x" using i(2) by simp
qed

lemma obj_addrs_disjoint:
  assumes "cache_ok cache" and "spaced A" and "a \<in> A" and "b \<in> A" and "a \<noteq> b"
  shows "obj_addrs cache a \<inter> obj_addrs cache b = {}"
proof -
  have "slab_end a \<le> b \<or> slab_end b \<le> a" using assms(2-5) by (auto simp: spaced_def)
  then show ?thesis using obj_addrs_range [OF assms(1)] by fastforce
qed

lemma more_fields:
  assumes "rb_mem.more st' = rb_mem.more (st :: slab_mem)"
  shows "slabs st' = slabs st \<and> obj_next st' = obj_next st \<and> malloc_blocks st' = malloc_blocks st"
  using assms by (cases st, cases st', simp only:, simp)

lemma outside_fields:
  assumes "outside A (st :: slab_mem) st'"
  shows "slabs st' = slabs st" "obj_next st' = obj_next st" "malloc_blocks st' = malloc_blocks st"
  using assms more_fields [of st' st] by (simp_all add: outside_def)

lemma slab_at_cong: "slabs st' a = slabs st a \<Longrightarrow> obj_next st' = obj_next st \<Longrightarrow> slab_at st' cache a fs = slab_at st cache a fs"
  by (simp add: slab_at_def)

text \<open>A tree that a step does not touch stays.\<close>

lemma rb_tree_at_cong:
  assumes "rb_tree_at st root t" and "\<And>x. x \<in> insert root (set (addrs t)) \<Longrightarrow> rb_nodes st' x = rb_nodes st x"
  shows "rb_tree_at st' root t"
proof -
  have "ctx_at (rb_nodes st') root [] (ptr t)"
    by (rule ctx_cong [of _ _ _ "rb_nodes st"]) (use assms in \<open>auto simp: rb_tree_at_def zip_at_def\<close>)
  moreover have "tree_at (rb_nodes st') root t"
    by (rule tree_cong [of _ _ "rb_nodes st"]) (use assms in \<open>auto simp: rb_tree_at_def zip_at_def\<close>)
  ultimately show ?thesis using assms(1) by (simp add: rb_tree_at_def zip_at_def)
qed

section \<open>Taking an object from a slab\<close>

lemma pop_run:
  assumes "slab_at st cache a (x # xs)" and "cache_ok cache"
  shows "\<exists>st1 st2 s. slab_pop cache a st n = (Inr (Some x), st1) \<and>
    update_slab a (\<lambda>s. s\<lparr>in_use := in_use s + 1\<rparr>) st1 n = (Inr (), st2) \<and>
    deref_slab a st2 n = (Inr s, st2) \<and> unat (in_use s) + length xs = objs_per_slab cache \<and>
    slabs st2 = (slabs st)(a \<mapsto> s) \<and> obj_next st2 = obj_next st \<and> rb_nodes st2 = rb_nodes st \<and>
    malloc_blocks st2 = malloc_blocks st \<and> slab_at st2 cache a xs"
proof -
  obtain s where s: "slabs st a = Some s" "free_at (obj_next st) (slab_free s) (x # xs)" "distinct (x # xs)"
      "set (x # xs) \<subseteq> obj_addrs cache a" "unat (in_use s) + length (x # xs) = objs_per_slab cache"
    using assms(1) unfolding slab_at_def by blast
  let ?s1 = "s\<lparr>slab_free := obj_next st x\<rparr>"
  let ?s2 = "?s1\<lparr>in_use := in_use s + 1\<rparr>"
  have "unat (in_use s) < 253" using s(5) objs_bound [OF assms(2)] by simp
  then have "unat (in_use s + 1) = unat (in_use s) + 1" by (subst unat_plus_if') simp
  then have use: "unat (in_use ?s2) + length xs = objs_per_slab cache" using s(5) by simp
  have "slab_pop cache a st n = (Inr (Some x), st\<lparr>slabs := (slabs st)(a \<mapsto> ?s1)\<rparr>)"
    using s(1,2) by (simp add: slab_pop_def slab_slist_remove_head_def update_slab_def deref_slab_def bind_run)
  moreover have "update_slab a (\<lambda>s. s\<lparr>in_use := in_use s + 1\<rparr>) (st\<lparr>slabs := (slabs st)(a \<mapsto> ?s1)\<rparr>) n =
      (Inr (), st\<lparr>slabs := (slabs st)(a \<mapsto> ?s2)\<rparr>)"
    by (simp add: update_slab_def deref_slab_def bind_run)
  moreover have "slab_at (st\<lparr>slabs := (slabs st)(a \<mapsto> ?s2)\<rparr>) cache a xs"
    using s use by (simp add: slab_at_def)
  ultimately show ?thesis using use
    by (intro exI [of _ "st\<lparr>slabs := (slabs st)(a \<mapsto> ?s1)\<rparr>"] exI [of _ "st\<lparr>slabs := (slabs st)(a \<mapsto> ?s2)\<rparr>"]
      exI [of _ ?s2]) (simp add: deref_slab_def)
qed

text \<open>
  What a removal does to the balance: the tree without the slab \<open>a\<close> has the same number of black
  nodes on all paths exactly when the removal is not one that unbalances.
\<close>

definition removed_from :: "rbt \<Rightarrow> nat \<Rightarrow> rbt \<Rightarrow> bool" where
  "removed_from t a t' \<longleftrightarrow> (\<exists>k l c r. t = plug k (Nd l a c r) \<and> (same_black t' \<longleftrightarrow> \<not> unbalances k (Nd l a c r)))"

text \<open>A slab goes from one tree to another.\<close>

lemma move_run:
  assumes "rb_tree_at st rs S" and "red_black S" and "a \<in> set (addrs S)" and "rb_tree_at st rd D" and "tinted D"
    and "insert rs (set (addrs S)) \<inter> insert rd (set (addrs D)) = {}"
    and "length (addrs S) < n" and "length (addrs D) + 2 \<le> n"
  shows "\<exists>st' S' D'. bind (slab_remove a) (\<lambda>_. slab_insert rd a) st n = (Inr (), st') \<and>
    rb_tree_at st' rs S' \<and> set (addrs S') = set (addrs S) - {a} \<and> tinted S' \<and> removed_from S a S' \<and>
    rb_tree_at st' rd D' \<and> tinted D' \<and> (same_black D \<longrightarrow> same_black D') \<and> set (addrs D') = insert a (set (addrs D)) \<and>
    outside (insert rs (set (addrs S)) \<union> insert rd (set (addrs D))) st st'"
proof -
  obtain k l c r where S: "S = plug k (Nd l a c r)" using locate [OF assms(3)] by blast
  obtain st1 S' where 1: "slab_remove a st n = (Inr (), st1)" "rb_tree_at st1 rs S'"
      "addrs S' = removeAll a (addrs S)" "outside (insert rs (set (addrs S))) st st1" "rb_nodes st1 a \<noteq> None"
      "tinted S'" "removed_from S a S'"
    using slab_remove_run [of st rs k l a c r n] assms(1,2,7) unfolding S removed_from_def tinted_def by blast
  have D1: "rb_tree_at st1 rd D"
  proof (rule rb_tree_at_cong [OF assms(4)])
    fix x
    assume "x \<in> insert rd (set (addrs D))"
    then have "x \<notin> insert rs (set (addrs S))" using assms(6) by blast
    then show "rb_nodes st1 x = rb_nodes st x" using 1(4) by (simp add: outside_def)
  qed
  have "a \<notin> insert rd (set (addrs D))" using assms(3,6) by blast
  then obtain st2 D' where 2: "slab_insert rd a st1 n = (Inr (), st2)" "rb_tree_at st2 rd D'" "tinted D'"
      "addrs D' = insort a (addrs D)" "outside (insert a (insert rd (set (addrs D)))) st1 st2"
      "same_black D \<longrightarrow> same_black D'"
    using slab_insert_tinted [OF D1 assms(5) _ _ assms(8)] 1(5) by blast
  have S2: "rb_tree_at st2 rs S'"
  proof (rule rb_tree_at_cong [OF 1(2)])
    fix x
    assume "x \<in> insert rs (set (addrs S'))"
    moreover have "rs \<noteq> a" using assms(1,3) by (auto simp: rb_tree_at_def zip_at_def)
    ultimately have "x \<notin> insert a (insert rd (set (addrs D)))" using assms(6) 1(3) by auto
    then show "rb_nodes st2 x = rb_nodes st1 x" using 2(5) by (simp add: outside_def)
  qed
  have "outside (insert rs (set (addrs S)) \<union> insert rd (set (addrs D))) st st2"
    using 1(4) 2(5) assms(3) by (auto simp: outside_def)
  moreover have "set (addrs S') = set (addrs S) - {a}" using 1(3) by auto
  moreover have "set (addrs D') = insert a (set (addrs D))" using 2(4) by (simp add: set_insort_key)
  moreover have "bind (slab_remove a) (\<lambda>_. slab_insert rd a) st n = (Inr (), st2)" using 1(1) 2(1) by (simp add: bind_run)
  ultimately show ?thesis using S2 2(2,3,6) 1(6,7) by blast
qed

text \<open>The only slab of a tree is taken out and put in again.\<close>

lemma reinsert_run:
  assumes "rb_tree_at st rd S" and "red_black S" and "addrs S = [a]" and "2 \<le> n"
  shows "\<exists>st' S'. bind (slab_remove a) (\<lambda>_. slab_insert rd a) st n = (Inr (), st') \<and>
    rb_tree_at st' rd S' \<and> red_black S' \<and> addrs S' = [a] \<and> outside {rd, a} st st'"
proof -
  obtain k l c r where S: "S = plug k (Nd l a c r)" using locate [of a S] assms(3) by auto
  obtain st1 S' where 1: "slab_remove a st n = (Inr (), st1)" "rb_tree_at st1 rd S'"
      "addrs S' = removeAll a (addrs S)" "outside (insert rd (set (addrs S))) st st1" "rb_nodes st1 a \<noteq> None"
    using slab_remove_run [of st rd k l a c r n] assms unfolding S by fastforce
  have "S' = Lf" using 1(3) assms(3) by (cases S') auto
  then have l: "rb_tree_at st1 rd Lf" "red_black Lf" using 1(2) by (auto simp: red_black_def)
  have "a \<noteq> rd" using assms(1,3) by (auto simp: rb_tree_at_def zip_at_def)
  obtain x where "rb_nodes st1 a = Some x" using 1(5) by blast
  from slab_insert_run [OF l this, of n] \<open>a \<noteq> rd\<close> assms(4)
  obtain st2 D' where 2: "slab_insert rd a st1 n = (Inr (), st2)" "rb_tree_at st2 rd D'" "red_black D'"
      "addrs D' = [a]" "outside {a, rd} st1 st2" by auto
  have "outside {rd, a} st st2" using 1(4) 2(5) assms(3) by (auto simp: outside_def)
  then show ?thesis using 1(1) 2 by (auto simp: bind_run)
qed

section \<open>Moving slabs within a cache\<close>

lemma roots_distinct [simp]:
  "cache_ok cache \<Longrightarrow> full cache \<noteq> partial cache" "cache_ok cache \<Longrightarrow> full cache \<noteq> empty cache"
  "cache_ok cache \<Longrightarrow> partial cache \<noteq> empty cache"
  by (auto simp: cache_ok_def)

lemma roots_in [simp]: "full cache \<in> roots cache" "partial cache \<in> roots cache" "empty cache \<in> roots cache"
  by (auto simp: roots_def)

lemma in_all_slabs: "r \<in> roots cache \<Longrightarrow> a \<in> set (addrs (T r)) \<Longrightarrow> a \<in> all_slabs cache T"
  by (auto simp: all_slabs_def)

lemma trees_atD:
  assumes "trees_at st cache T fl"
  shows "cache_ok cache" and "\<And>r. r \<in> roots cache \<Longrightarrow> rb_tree_at st r (T r)"
    and "\<And>r q. r \<in> roots cache \<Longrightarrow> q \<in> roots cache \<Longrightarrow> r \<noteq> q \<Longrightarrow> set (addrs (T r)) \<inter> set (addrs (T q)) = {}"
    and "\<And>r q. r \<in> roots cache \<Longrightarrow> q \<in> roots cache \<Longrightarrow> r \<notin> set (addrs (T q))"
    and "\<And>a. a \<in> all_slabs cache T \<Longrightarrow> slab_at st cache a (fl a)" and "spaced (all_slabs cache T)"
proof -
  show "cache_ok cache" using assms by (simp add: trees_at_def)
  show "rb_tree_at st r (T r)" if "r \<in> roots cache" for r using assms that by (simp add: trees_at_def)
  show "set (addrs (T r)) \<inter> set (addrs (T q)) = {}" if "r \<in> roots cache" "q \<in> roots cache" "r \<noteq> q" for r q
    using assms that by (simp add: trees_at_def)
  show "r \<notin> set (addrs (T q))" if "r \<in> roots cache" "q \<in> roots cache" for r q
  proof -
    have "roots cache \<inter> all_slabs cache T = {}" using assms by (simp add: trees_at_def)
    then show ?thesis using that by (auto simp: all_slabs_def)
  qed
  show "slab_at st cache a (fl a)" if "a \<in> all_slabs cache T" for a using assms that by (simp add: trees_at_def)
  show "spaced (all_slabs cache T)" using assms by (simp add: trees_at_def)
qed

text \<open>
  A step that replaces the trees \<open>r\<close> and \<open>q\<close> by trees that together hold the same slabs and writes
  no other node keeps the cache.
\<close>

lemma trees_at_upd:
  assumes t: "trees_at st cache T fl" and r: "r \<in> roots cache" and q: "q \<in> roots cache"
    and R: "rb_tree_at st' r R" and Q: "rb_tree_at st' q Q" and rq: "r = q \<longrightarrow> R = Q"
    and same: "set (addrs R) \<union> set (addrs Q) = set (addrs (T r)) \<union> set (addrs (T q))"
    and disj: "r \<noteq> q \<longrightarrow> set (addrs R) \<inter> set (addrs Q) = {}"
    and out: "outside (insert r (set (addrs (T r))) \<union> insert q (set (addrs (T q)))) st st'"
  shows "trees_at st' cache (T(r := R, q := Q)) fl" and "all_slabs cache (T(r := R, q := Q)) = all_slabs cache T"
proof -
  let ?T = "T(r := R, q := Q)"
  note d = trees_atD [OF t]
  show all: "all_slabs cache ?T = all_slabs cache T"
  proof (intro equalityI subsetI)
    fix x
    assume "x \<in> all_slabs cache ?T"
    then obtain p where "p \<in> roots cache" "x \<in> set (addrs (?T p))" by (auto simp: all_slabs_def)
    then show "x \<in> all_slabs cache T" using same r q in_all_slabs [of _ cache x T]
      by (cases "p = q"; cases "p = r") auto
  next
    fix x
    assume "x \<in> all_slabs cache T"
    then obtain p where p: "p \<in> roots cache" "x \<in> set (addrs (T p))" by (auto simp: all_slabs_def)
    then have "x \<in> set (addrs (?T p)) \<or> x \<in> set (addrs (?T r)) \<or> x \<in> set (addrs (?T q))"
      using same rq by (cases "p = q"; cases "p = r") auto
    then show "x \<in> all_slabs cache ?T" using p(1) r q in_all_slabs [of _ cache x ?T] by blast
  qed
  have other: "rb_tree_at st' p (T p)" if "p \<in> roots cache" "p \<noteq> r" "p \<noteq> q" for p
  proof (rule rb_tree_at_cong [OF d(2) [OF that(1)]])
    fix x
    assume "x \<in> insert p (set (addrs (T p)))"
    then have "x \<notin> insert r (set (addrs (T r))) \<union> insert q (set (addrs (T q)))"
      using that d(3) [OF that(1) r] d(3) [OF that(1) q] d(4) [OF that(1) r] d(4) [OF that(1) q]
        d(4) [OF r that(1)] d(4) [OF q that(1)] by blast
    then show "rb_nodes st' x = rb_nodes st x" using out by (simp add: outside_def)
  qed
  have trees: "rb_tree_at st' p (?T p)" if "p \<in> roots cache" for p
    using other [OF that] R Q by (cases "p = q"; cases "p = r") auto
  have keep: "?T p = T p" if "p \<noteq> r" "p \<noteq> q" for p using that by simp
  have sub: "set (addrs (?T p)) \<subseteq> set (addrs (T r)) \<union> set (addrs (T q))" if "p = r \<or> p = q" for p
    using same that rq by (cases "p = q") auto
  have apart: "set (addrs (?T p)) \<inter> set (addrs (?T p')) = {}"
    if "p = r \<or> p = q" "p' \<noteq> r" "p' \<noteq> q" "p' \<in> roots cache" for p p'
  proof -
    have "set (addrs (T r)) \<inter> set (addrs (T p')) = {}" by (rule d(3) [OF r that(4) that(2) [symmetric]])
    moreover have "set (addrs (T q)) \<inter> set (addrs (T p')) = {}" by (rule d(3) [OF q that(4) that(3) [symmetric]])
    ultimately show ?thesis unfolding keep [OF that(2,3)] using sub [OF that(1)] by blast
  qed
  have pairs: "set (addrs (?T p)) \<inter> set (addrs (?T p')) = {}"
    if "p \<in> roots cache" "p' \<in> roots cache" "p \<noteq> p'" for p p'
  proof -
    note pp = that(3)
    consider "p = r" "p' = q" | "p = q" "p' = r" | "p = r \<or> p = q" "p' \<noteq> r" "p' \<noteq> q"
      | "p' = r \<or> p' = q" "p \<noteq> r" "p \<noteq> q" | "p \<noteq> r" "p \<noteq> q" "p' \<noteq> r" "p' \<noteq> q"
      using pp by blast
    then show ?thesis
    proof cases
      case 1
      then show ?thesis using that(3) disj by simp
    next
      case 2
      then show ?thesis using that(3) disj by (simp add: Int_commute)
    next
      case 3
      then show ?thesis using apart [OF 3 that(2)] by simp
    next
      case 4
      then show ?thesis using apart [OF 4 that(1)] by (simp add: Int_commute)
    next
      case 5
      then show ?thesis unfolding keep [OF 5(1,2)] keep [OF 5(3,4)] by (rule_tac d(3) [OF that])
    qed
  qed
  show "trees_at st' cache ?T fl"
    unfolding trees_at_def all
  proof (intro conjI ballI impI)
    fix a
    assume "a \<in> all_slabs cache T"
    then show "slab_at st' cache a (fl a)"
      using d(5) slab_at_cong [of st' a st cache "fl a"] outside_fields [OF out] by simp
  qed (use t trees pairs in \<open>auto simp: trees_at_def\<close>)
qed

definition balanced :: "slab_cache \<Rightarrow> (nat \<Rightarrow> rbt) \<Rightarrow> bool" where
  "balanced cache T \<longleftrightarrow> (\<forall>p \<in> roots cache. red_black (T p))"

text \<open>The trees of a cache keep the rule of the colours, also after a removal that unbalances one.\<close>

definition coloured :: "slab_cache \<Rightarrow> (nat \<Rightarrow> rbt) \<Rightarrow> bool" where
  "coloured cache T \<longleftrightarrow> (\<forall>p \<in> roots cache. tinted (T p))"

lemma colouredD: "coloured cache T \<Longrightarrow> p \<in> roots cache \<Longrightarrow> tinted (T p)"
  by (simp add: coloured_def)

lemma balanced_coloured: "balanced cache T \<longleftrightarrow> coloured cache T \<and> (\<forall>p \<in> roots cache. same_black (T p))"
  by (auto simp: balanced_def coloured_def red_black_tinted)

text \<open>What a move of the slab \<open>a\<close> to the tree \<open>q\<close> does to the trees.\<close>

definition moved :: "slab_cache \<Rightarrow> nat \<Rightarrow> nat \<Rightarrow> (nat \<Rightarrow> rbt) \<Rightarrow> (nat \<Rightarrow> rbt) \<Rightarrow> bool" where
  "moved cache a q T T' \<longleftrightarrow> all_slabs cache T' = all_slabs cache T \<and>
     (\<forall>p \<in> roots cache. set (addrs (T' p)) =
        (if p = q then insert a (set (addrs (T p))) else set (addrs (T p)) - {a}))"

text \<open>
  And what it does to their balance: only the tree that the slab leaves can lose it, by a removal that
  unbalances.
\<close>

definition rebalanced :: "slab_cache \<Rightarrow> nat \<Rightarrow> nat \<Rightarrow> (nat \<Rightarrow> rbt) \<Rightarrow> (nat \<Rightarrow> rbt) \<Rightarrow> bool" where
  "rebalanced cache a q T T' \<longleftrightarrow> (\<forall>p \<in> roots cache.
     if p \<noteq> q \<and> a \<in> set (addrs (T p)) then removed_from (T p) a (T' p)
     else same_black (T p) \<longrightarrow> same_black (T' p))"

abbreviation move_slab :: "nat \<Rightarrow> nat \<Rightarrow> unit sm" where
  "move_slab q a \<equiv> bind (slab_remove a) (\<lambda>_. slab_insert q a)"

lemma move_slab_run:
  assumes t: "trees_at st cache T fl" and r: "r \<in> roots cache" and q: "q \<in> roots cache"
    and a: "a \<in> set (addrs (T r))" and single: "r = q \<Longrightarrow> addrs (T r) = [a]"
    and col: "coloured cache T" and bal: "same_black (T r)"
    and n: "length (addrs (T r)) + 2 \<le> n" "length (addrs (T q)) + 2 \<le> n"
  shows "\<exists>st' T'. move_slab q a st n = (Inr (), st') \<and> trees_at st' cache T' fl \<and> moved cache a q T T' \<and>
    malloc_blocks st' = malloc_blocks st \<and> coloured cache T' \<and> rebalanced cache a q T T'"
proof (cases "r = q")
  have rb: "red_black (T r)" using colouredD [OF col r] bal by (simp add: red_black_tinted)
  case True
  have "2 \<le> n" using n(1) by simp
  then obtain st' S' where s: "move_slab r a st n = (Inr (), st')" "rb_tree_at st' r S'" "addrs S' = [a]" "outside {r, a} st st'"
      "red_black S'"
    using reinsert_run [OF trees_atD(2) [OF t r] rb single [OF True]] by blast
  have o: "outside (insert r (set (addrs (T r))) \<union> insert r (set (addrs (T r)))) st st'"
    using s(4) single [OF True] by simp
  note u = trees_at_upd [OF t r r s(2) s(2) _ _ _ o]
  have "moved cache a q T (T(r := S', r := S'))"
    unfolding moved_def
  proof (intro conjI ballI)
    show "all_slabs cache (T(r := S', r := S')) = all_slabs cache T" by (rule u(2)) (use single [OF True] s(3) in auto)
    fix p
    assume "p \<in> roots cache"
    then have "p \<noteq> r \<Longrightarrow> a \<notin> set (addrs (T p))" using trees_atD(3) [OF t r] a by blast
    then show "set (addrs ((T(r := S', r := S')) p)) =
        (if p = q then insert a (set (addrs (T p))) else set (addrs (T p)) - {a})"
      using single [OF True] s(3) True by (cases "p = r") simp_all
  qed
  moreover have "trees_at st' cache (T(r := S', r := S')) fl"
    by (rule u(1)) (use single [OF True] s(3) in auto)
  moreover have "coloured cache (T(r := S', r := S'))" using col s(5) by (simp add: coloured_def red_black_tinted)
  moreover have "rebalanced cache a q T (T(r := S', r := S'))"
    using trees_atD(3) [OF t r _ , of _] a s(5) True by (auto simp: rebalanced_def red_black_tinted)
  ultimately show ?thesis using s(1) True outside_fields(3) [OF s(4)] by blast
next
  have rb: "red_black (T r)" using colouredD [OF col r] bal by (simp add: red_black_tinted)
  case False
  have dj: "set (addrs (T r)) \<inter> set (addrs (T q)) = {}" by (rule trees_atD(3) [OF t r q False])
  then have "insert r (set (addrs (T r))) \<inter> insert q (set (addrs (T q))) = {}"
    using trees_atD(4) [OF t r q] trees_atD(4) [OF t q r] False by auto
  then obtain st' S' D' where s: "move_slab q a st n = (Inr (), st')"
      "rb_tree_at st' r S'" "set (addrs S') = set (addrs (T r)) - {a}"
      "rb_tree_at st' q D'" "set (addrs D') = insert a (set (addrs (T q)))"
      "outside (insert r (set (addrs (T r))) \<union> insert q (set (addrs (T q)))) st st'"
      "tinted S'" "tinted D'" "removed_from (T r) a S'" "same_black (T q) \<longrightarrow> same_black D'"
    using move_run [OF trees_atD(2) [OF t r] rb a trees_atD(2) [OF t q] colouredD [OF col q]] n by (metis Suc_le_lessD add_2_eq_Suc' Suc_leD)
  note u = trees_at_upd [OF t r q s(2,4) _ _ _ s(6)]
  have same: "set (addrs S') \<union> set (addrs D') = set (addrs (T r)) \<union> set (addrs (T q))" "set (addrs S') \<inter> set (addrs D') = {}"
    using s(3,5) a dj by auto
  have "trees_at st' cache (T(r := S', q := D')) fl" by (rule u(1)) (use same False in auto)
  moreover have "moved cache a q T (T(r := S', q := D'))"
    unfolding moved_def
  proof (intro conjI ballI)
    show "all_slabs cache (T(r := S', q := D')) = all_slabs cache T" by (rule u(2)) (use same False in auto)
    fix p
    assume "p \<in> roots cache"
    then have "p \<noteq> r \<Longrightarrow> a \<notin> set (addrs (T p))" using trees_atD(3) [OF t r] a by blast
    then show "set (addrs ((T(r := S', q := D')) p)) =
        (if p = q then insert a (set (addrs (T p))) else set (addrs (T p)) - {a})"
      using s(3,5) False by (cases "p = q"; cases "p = r") simp_all
  qed
  moreover have "coloured cache (T(r := S', q := D'))" using col s(7,8) by (simp add: coloured_def)
  moreover have "rebalanced cache a q T (T(r := S', q := D'))"
    unfolding rebalanced_def
  proof (intro ballI)
    fix p
    assume "p \<in> roots cache"
    then have "p \<noteq> r \<Longrightarrow> a \<notin> set (addrs (T p))" using trees_atD(3) [OF t r] a by blast
    then show "if p \<noteq> q \<and> a \<in> set (addrs (T p)) then removed_from (T p) a ((T(r := S', q := D')) p)
        else same_black (T p) \<longrightarrow> same_black ((T(r := S', q := D')) p)"
      using s(9,10) a False by (cases "p = q"; cases "p = r") simp_all
  qed
  ultimately show ?thesis using s(1) outside_fields(3) [OF s(6)] by blast
qed

lemma moved_stay:
  assumes t: "trees_at st cache T fl" and "q \<in> roots cache" and a: "a \<in> set (addrs (T q))"
  shows "moved cache a q T T"
  unfolding moved_def
proof (intro conjI ballI refl)
  fix p
  assume "p \<in> roots cache"
  then have "p \<noteq> q \<Longrightarrow> a \<notin> set (addrs (T p))" using trees_atD(3) [OF t assms(2)] a by blast
  then show "set (addrs (T p)) = (if p = q then insert a (set (addrs (T p))) else set (addrs (T p)) - {a})"
    using a by auto
qed

lemma rebalanced_stay:
  assumes t: "trees_at st cache T fl" and "q \<in> roots cache" and a: "a \<in> set (addrs (T q))"
  shows "rebalanced cache a q T T"
  using trees_atD(3) [OF t assms(2)] a by (auto simp: rebalanced_def)

text \<open>A tree that has lost its only slab is empty, so nothing is unbalanced.\<close>

lemma rebalanced_single:
  assumes t: "trees_at st cache T fl" and r: "r \<in> roots cache" and a: "addrs (T r) = [a]"
    and m: "moved cache a q T T'" and c: "coloured cache T'" and b: "rebalanced cache a q T T'"
    and bal: "balanced cache T"
  shows "balanced cache T'"
proof -
  have "same_black (T' p)" if p: "p \<in> roots cache" for p
  proof (cases "p \<noteq> q \<and> a \<in> set (addrs (T p))")
    case True
    then have "p = r" using trees_atD(3) [OF t r p] a by auto
    then have "set (addrs (T' p)) = {}" using m p True a by (simp add: moved_def)
    then have "T' p = Lf" by (cases "T' p") auto
    then show ?thesis by simp
  next
    case False
    then have "same_black (T p) \<longrightarrow> same_black (T' p)" using bspec [OF b [unfolded rebalanced_def] p] by (simp only: if_False)
    then show ?thesis using bal p by (simp add: balanced_coloured)
  qed
  then show ?thesis using c by (simp add: balanced_coloured)
qed

section \<open>Allocation\<close>

lemma rb_root_run: "rb_tree_at st root t \<Longrightarrow> rb_root root st n = (Inr (ptr t), st)"
  by (simp add: rb_tree_at_def zip_at_def root_at_def rb_root_def rb_get_run)

lemma rb_empty_run: "rb_tree_at st root t \<Longrightarrow> rb_empty root st n = (Inr (t = Lf), st)"
  by (cases t) (simp_all add: rb_empty_def bind_run rb_root_run)

text \<open>A step that writes no tree node and only the slab \<open>a\<close> keeps the trees.\<close>

lemma trees_at_slab:
  assumes t: "trees_at st cache T fl" and "rb_nodes st' = rb_nodes st" and "slab_at st' cache a fs"
    and "\<And>b. b \<in> all_slabs cache T \<Longrightarrow> b \<noteq> a \<Longrightarrow> slab_at st' cache b (fl b)"
  shows "trees_at st' cache T (fl(a := fs))"
  unfolding trees_at_def
proof (intro conjI ballI impI)
  show "rb_tree_at st' r (T r)" if "r \<in> roots cache" for r
    by (rule rb_tree_at_cong [OF trees_atD(2) [OF t that]]) (simp add: assms(2))
  show "slab_at st' cache b ((fl(a := fs)) b)" if "b \<in> all_slabs cache T" for b
    using assms(3) assms(4) [OF that] by (cases "b = a") simp_all
qed (use t in \<open>auto simp: trees_at_def\<close>)

lemma pop_slab:
  assumes t: "trees_at st cache T fl" and a: "a \<in> all_slabs cache T" and fl: "fl a = x # xs"
  shows "\<exists>st1 st2 s. slab_pop cache a st n = (Inr (Some x), st1) \<and>
    update_slab a (\<lambda>s. s\<lparr>in_use := in_use s + 1\<rparr>) st1 n = (Inr (), st2) \<and>
    deref_slab a st2 n = (Inr s, st2) \<and> unat (in_use s) + length xs = objs_per_slab cache \<and>
    malloc_blocks st2 = malloc_blocks st \<and> trees_at st2 cache T (fl(a := xs))"
proof -
  have "slab_at st cache a (x # xs)" using trees_atD(5) [OF t a] fl by simp
  then obtain st1 st2 s where r: "slab_pop cache a st n = (Inr (Some x), st1)"
      "update_slab a (\<lambda>s. s\<lparr>in_use := in_use s + 1\<rparr>) st1 n = (Inr (), st2)"
      "deref_slab a st2 n = (Inr s, st2)" "unat (in_use s) + length xs = objs_per_slab cache"
      "slabs st2 = (slabs st)(a \<mapsto> s)" "obj_next st2 = obj_next st" "rb_nodes st2 = rb_nodes st" "slab_at st2 cache a xs"
      "malloc_blocks st2 = malloc_blocks st"
    using pop_run [OF _ trees_atD(1) [OF t], of st a x xs n] by blast
  have "trees_at st2 cache T (fl(a := xs))"
    by (rule trees_at_slab [OF t r(7,8)]) (use trees_atD(5) [OF t] r(5,6) in \<open>simp add: slab_at_def\<close>)
  then show ?thesis using r(1-4,9) by blast
qed

text \<open>
  The tree a slab belongs to after an allocation: the full one when its last object was taken.
\<close>

definition home :: "slab_cache \<Rightarrow> nat list \<Rightarrow> nat" where
  "home cache fs = (if fs = [] then full cache
     else if length fs = objs_per_slab cache then empty cache else partial cache)"

lemma home_in [simp]: "home cache fs \<in> roots cache"
  by (simp add: home_def)

text \<open>
  What is left of an allocation when \<open>get_slab\<close> has found the slab \<open>a\<close> with the free object \<open>x\<close>:
  \<open>a\<close> is the only slab of the partial tree, or a slab of the tree where it belongs.
\<close>

lemma alloc_rest_run:
  assumes g: "get_slab cache st n = (Inr a, st0)" and t: "trees_at st0 cache T fl" and fl: "fl a = x # xs"
    and r: "r \<in> roots cache" and a: "a \<in> set (addrs (T r))"
    and place: "r = partial cache \<and> addrs (T r) = [a] \<or> r = home cache (x # xs)"
    and col: "coloured cache T" and bal: "same_black (T r)"
    and n: "\<And>p. p \<in> roots cache \<Longrightarrow> length (addrs (T p)) + 2 \<le> n"
  shows "\<exists>st' T'. navi_slab_alloc cache st n = (Inr (Some x), st') \<and> trees_at st' cache T' (fl(a := xs)) \<and>
    moved cache a (home cache xs) T T' \<and> malloc_blocks st' = malloc_blocks st0 \<and>
    coloured cache T' \<and> rebalanced cache a (home cache xs) T T'"
proof -
  have ok: "cache_ok cache" by (rule trees_atD(1) [OF t])
  have all: "a \<in> all_slabs cache T" using r a by (auto simp: all_slabs_def)
  obtain st1 st2 s where p: "slab_pop cache a st0 n = (Inr (Some x), st1)"
      "update_slab a (\<lambda>s. s\<lparr>in_use := in_use s + 1\<rparr>) st1 n = (Inr (), st2)"
      "deref_slab a st2 n = (Inr s, st2)" "unat (in_use s) + length xs = objs_per_slab cache"
      "trees_at st2 cache T (fl(a := xs))" "malloc_blocks st2 = malloc_blocks st0"
    using pop_slab [where n = n, OF t all fl] by blast
  let ?rest = "if unat (in_use s) = objs_per_slab cache then move_slab (full cache) a
    else if in_use s = 1 then move_slab (partial cache) a else ret ()"
  have run: "navi_slab_alloc cache st n = bind ?rest (\<lambda>_. ret (Some x)) st2 n"
    using g p(1-3) by (simp add: navi_slab_alloc_def bind_run)
  have one: "in_use s = 1 \<longleftrightarrow> unat (in_use s) = 1" by (metis unsigned_1 unsigned_word_eqI)
  have bound: "length (x # xs) \<le> objs_per_slab cache"
    using trees_atD(5) [OF t all] fl by (auto simp: slab_at_def)
  have "\<exists>st' T'. ?rest st2 n = (Inr (), st') \<and> trees_at st' cache T' (fl(a := xs)) \<and> moved cache a (home cache xs) T T' \<and>
      malloc_blocks st' = malloc_blocks st0 \<and> coloured cache T' \<and> rebalanced cache a (home cache xs) T T'"
  proof (cases "xs = []")
    case True
    have "r \<noteq> full cache" using place ok by (auto simp: home_def True split: if_splits)
    then show ?thesis
      using move_slab_run [OF p(5) r _ a _ col bal n n, of "full cache"] r True p(4,6) by (simp add: home_def)
  next
    case False
    then have ne: "unat (in_use s) \<noteq> objs_per_slab cache" and h: "home cache xs = partial cache"
      using p(4) bound by (auto simp: home_def)
    show ?thesis
    proof (cases "unat (in_use s) = 1")
      case True
      then have "r = partial cache \<and> addrs (T r) = [a] \<or> r = empty cache" using place p(4) by (auto simp: home_def)
      then have "r = partial cache \<Longrightarrow> addrs (T r) = [a]" using ok by (auto simp: cache_ok_def)
      then show ?thesis
        using move_slab_run [OF p(5) r _ a _ col bal n n, of "partial cache"] r ne one True h p(6) by simp
    next
      case two: False
      then have "length (x # xs) \<noteq> objs_per_slab cache" using p(4) by auto
      then have "r = partial cache" using place by (auto simp: home_def)
      then show ?thesis using p(5,6) moved_stay [OF p(5) _ ] rebalanced_stay [OF p(5)] a h one ne two col by auto
    qed
  qed
  then show ?thesis using run by (auto simp: bind_run)
qed


section \<open>A new slab\<close>

lemma get_object_inj: "cache_ok cache \<Longrightarrow> get_object cache a i = get_object cache a j \<longleftrightarrow> i = j"
  by (auto simp: get_object_def cache_ok_def)

lemma slist_insert_run:
  assumes "slabs st a = Some s"
  shows "slab_slist_insert a x st n = (Inr (), st\<lparr>obj_next := (obj_next st)(x := slab_free s),
    slabs := (slabs st)(a \<mapsto> s\<lparr>slab_free := Some x\<rparr>)\<rparr>)"
  using assms by (simp add: slab_slist_insert_def update_slab_def deref_slab_def bind_run)

text \<open>\<open>init_single\<close> puts every object of the slab in front of the list, so the last one comes first.\<close>

lemma init_loop_run:
  assumes "slabs st a = Some s" and "free_at (obj_next st) (slab_free s) fs" and "distinct (map g is @ fs)"
  shows "\<exists>st' s'. foldM (\<lambda>i _. slab_slist_insert a (g i)) is () st n = (Inr (), st') \<and>
    slabs st' = (slabs st)(a \<mapsto> s') \<and> in_use s' = in_use s \<and>
    free_at (obj_next st') (slab_free s') (rev (map g is) @ fs) \<and> rb_nodes st' = rb_nodes st \<and>
    malloc_blocks st' = malloc_blocks st \<and> (\<forall>x. x \<notin> g ` set is \<longrightarrow> obj_next st' x = obj_next st x)"
  using assms
proof (induction "is" arbitrary: st s fs)
  case Nil
  then show ?case by (intro exI [of _ st] exI [of _ s]) (auto simp: fun_upd_triv fun_upd_idem)
next
  case (Cons i "is")
  let ?s = "s\<lparr>slab_free := Some (g i)\<rparr>"
  let ?st = "st\<lparr>obj_next := (obj_next st)(g i := slab_free s), slabs := (slabs st)(a \<mapsto> ?s)\<rparr>"
  have "\<exists>st' s'. foldM (\<lambda>i _. slab_slist_insert a (g i)) is () ?st n = (Inr (), st') \<and>
    slabs st' = (slabs ?st)(a \<mapsto> s') \<and> in_use s' = in_use ?s \<and>
    free_at (obj_next st') (slab_free s') (rev (map g is) @ g i # fs) \<and> rb_nodes st' = rb_nodes ?st \<and>
    malloc_blocks st' = malloc_blocks ?st \<and> (\<forall>x. x \<notin> g ` set is \<longrightarrow> obj_next st' x = obj_next ?st x)"
  proof (rule Cons.IH)
    have "free_at ((obj_next st)(g i := slab_free s)) (slab_free s) fs = free_at (obj_next st) (slab_free s) fs"
      by (rule free_at_upd) (use Cons.prems(3) in simp)
    then show "free_at (obj_next ?st) (slab_free ?s) (g i # fs)" using Cons.prems(2) by simp
  qed (use Cons.prems in auto)
  then obtain st' s' where "foldM (\<lambda>i _. slab_slist_insert a (g i)) is () ?st n = (Inr (), st')"
      "slabs st' = (slabs st)(a \<mapsto> s')" "in_use s' = in_use s"
      "free_at (obj_next st') (slab_free s') (rev (map g is) @ g i # fs)" "rb_nodes st' = rb_nodes st"
      "malloc_blocks st' = malloc_blocks st" "\<forall>x. x \<notin> g ` set is \<longrightarrow> obj_next st' x = obj_next ?st x"
    by auto
  then show ?case using slist_insert_run [OF Cons.prems(1), of "g i" n]
    by (intro exI [of _ st'] exI [of _ s']) (simp add: bind_run)
qed

text \<open>What \<open>get_slab\<close> relies on when it asks for a block: it does not overlap what the cache has.\<close>

definition block_fresh :: "slab_cache \<Rightarrow> (nat \<Rightarrow> rbt) \<Rightarrow> nat \<Rightarrow> bool" where
  "block_fresh cache T a \<longleftrightarrow> a \<notin> roots cache \<and> a \<notin> all_slabs cache T \<and> spaced (insert a (all_slabs cache T))"

definition new_objects :: "slab_cache \<Rightarrow> nat \<Rightarrow> nat list" where
  "new_objects cache a = rev (map (get_object cache a) [0..<objs_per_slab cache])"

lemma set_new_objects [simp]: "set (new_objects cache a) = obj_addrs cache a"
  by (auto simp: new_objects_def obj_addrs_def)

lemma length_new_objects [simp]: "length (new_objects cache a) = objs_per_slab cache"
  by (simp add: new_objects_def)

lemma new_slab_run:
  assumes t: "trees_at st cache T fl" and m: "malloc_blocks st = a # as" and f: "block_fresh cache T a"
  shows "\<exists>st'. new_slab cache st n = (Inr a, st') \<and> trees_at st' cache T fl \<and>
    slab_at st' cache a (new_objects cache a) \<and> rb_nodes st' a = Some RB_ROOT_INIT \<and> malloc_blocks st' = as"
proof -
  have ok: "cache_ok cache" by (rule trees_atD(1) [OF t])
  let ?g = "get_object cache a"
  let ?s = "\<lparr>slab_free = None, in_use = 0\<rparr>"
  let ?st = "st\<lparr>malloc_blocks := as, rb_nodes := (rb_nodes st)(a \<mapsto> RB_ROOT_INIT), slabs := (slabs st)(a \<mapsto> ?s)\<rparr>"
  have "distinct (map ?g [0..<objs_per_slab cache] @ [])"
    using get_object_inj [OF ok] by (auto simp: distinct_map inj_on_def)
  then obtain st1 s1 where l: "foldM (\<lambda>i _. slab_slist_insert a (?g i)) [0..<objs_per_slab cache] () ?st n = (Inr (), st1)"
      "slabs st1 = (slabs ?st)(a \<mapsto> s1)" "in_use s1 = 0"
      "free_at (obj_next st1) (slab_free s1) (new_objects cache a)" "rb_nodes st1 = rb_nodes ?st"
      "\<forall>x. x \<notin> ?g ` set [0..<objs_per_slab cache] \<longrightarrow> obj_next st1 x = obj_next ?st x" "malloc_blocks st1 = as"
    using init_loop_run [of ?st a ?s "[]" ?g "[0..<objs_per_slab cache]" n] by (auto simp: new_objects_def)
  let ?s2 = "s1\<lparr>in_use := 0\<rparr>"
  let ?st2 = "st1\<lparr>slabs := (slabs st1)(a \<mapsto> ?s2)\<rparr>"
  have run: "new_slab cache st n = (Inr a, ?st2)"
    using m l(1,2) by (simp add: new_slab_def slab_malloc_def init_single_def update_slab_def deref_slab_def bind_run)
  have "slab_at ?st2 cache a (new_objects cache a)"
    using l(4) get_object_inj [OF ok] by (auto simp: slab_at_def new_objects_def obj_addrs_def distinct_map inj_on_def)
  moreover have "slab_at ?st2 cache b (fl b)" if b: "b \<in> all_slabs cache T" for b
  proof -
    have "b \<noteq> a" using f b by (auto simp: block_fresh_def)
    then have dj: "obj_addrs cache b \<inter> obj_addrs cache a = {}"
      using obj_addrs_disjoint [OF ok, of "insert a (all_slabs cache T)" b a] f b by (simp add: block_fresh_def)
    obtain s where s: "slabs st b = Some s" "free_at (obj_next st) (slab_free s) (fl b)"
        "distinct (fl b)" "set (fl b) \<subseteq> obj_addrs cache b" "unat (in_use s) + length (fl b) = objs_per_slab cache"
      using trees_atD(5) [OF t b] by (auto simp: slab_at_def)
    have "obj_next st1 x = obj_next st x" if "x \<in> set (fl b)" for x
    proof -
      have "x \<notin> obj_addrs cache a" using that s(4) dj by blast
      then show ?thesis using l(6) by (simp add: obj_addrs_def lessThan_atLeast0)
    qed
    then have "free_at (obj_next st1) p (fl b) = free_at (obj_next st) p (fl b)" for p
      by (rule free_at_cong)
    then show ?thesis using s l(2) \<open>b \<noteq> a\<close> by (simp add: slab_at_def)
  qed
  moreover have "rb_tree_at ?st2 r (T r)" if r: "r \<in> roots cache" for r
  proof (rule rb_tree_at_cong [OF trees_atD(2) [OF t r]])
    fix x
    assume "x \<in> insert r (set (addrs (T r)))"
    then have "x \<noteq> a" using f r by (auto simp: block_fresh_def all_slabs_def)
    then show "rb_nodes ?st2 x = rb_nodes st x" using l(5) by simp
  qed
  then have "trees_at ?st2 cache T fl" using t calculation(2) by (simp add: trees_at_def)
  ultimately show ?thesis using run l(5,7) by auto
qed

lemma get_slab_new:
  assumes t: "trees_at st cache T fl" and m: "malloc_blocks st = a # as" and f: "block_fresh cache T a"
    and none: "T (partial cache) = Lf" "T (empty cache) = Lf" and n: "2 \<le> n"
  shows "\<exists>st' D. get_slab cache st n = (Inr a, st') \<and> addrs D = [a] \<and> red_black D \<and> malloc_blocks st' = as \<and>
    trees_at st' cache (T(partial cache := D)) (fl(a := new_objects cache a))"
proof -
  let ?p = "partial cache"
  obtain st1 where 1: "new_slab cache st n = (Inr a, st1)" "trees_at st1 cache T fl"
      "slab_at st1 cache a (new_objects cache a)" "rb_nodes st1 a = Some RB_ROOT_INIT" "malloc_blocks st1 = as"
    using new_slab_run [OF t m f] by blast
  have fr: "a \<noteq> ?p" "a \<notin> all_slabs cache T" "\<And>r. r \<in> roots cache \<Longrightarrow> a \<noteq> r"
    using f by (auto simp: block_fresh_def)
  have lf: "rb_tree_at st1 ?p Lf" using trees_atD(2) [OF 1(2), of ?p] none(1) by simp
  have "red_black Lf" by (simp add: red_black_def)
  from slab_insert_run [OF lf this 1(4), of n] n fr(1)
  obtain st2 D where 2: "slab_insert ?p a st1 n = (Inr (), st2)" "rb_tree_at st2 ?p D" "red_black D" "addrs D = [a]"
      "outside {a, ?p} st1 st2" by auto
  have run: "get_slab cache st n = (Inr a, st2)"
    using 1(1) 2(1) rb_empty_run [OF trees_atD(2) [OF t, of ?p]] rb_empty_run [OF trees_atD(2) [OF t, of "empty cache"]] none
    by (simp add: get_slab_def rb_and_def bind_run)
  let ?T = "T(?p := D)"
  have all: "all_slabs cache ?T = insert a (all_slabs cache T)"
    using 2(4) none(1) trees_atD(1) [OF t] by (auto simp: all_slabs_def roots_def)
  have keep: "?T r = T r" if "r \<noteq> ?p" for r using that by simp
  have "trees_at st2 cache ?T (fl(a := new_objects cache a))"
    unfolding trees_at_def all
  proof (intro conjI ballI impI)
    show "cache_ok cache" by (rule trees_atD(1) [OF t])
    show "spaced (insert a (all_slabs cache T))" using f by (simp add: block_fresh_def)
    show "roots cache \<inter> insert a (all_slabs cache T) = {}" using t f by (auto simp: trees_at_def block_fresh_def)
    fix r
    assume r: "r \<in> roots cache"
    show "rb_tree_at st2 r (?T r)"
    proof (cases "r = ?p")
      case False
      have "rb_tree_at st2 r (T r)"
      proof (rule rb_tree_at_cong [OF trees_atD(2) [OF 1(2) r]])
        fix x
        assume "x \<in> insert r (set (addrs (T r)))"
        then have "x \<notin> {a, ?p}" using fr(3) [OF r] in_all_slabs [of r cache _ T, OF r] fr(2) False
            trees_atD(4) [OF t _ r, of ?p] by auto
        then show "rb_nodes st2 x = rb_nodes st1 x" using 2(5) by (simp add: outside_def)
      qed
      then show ?thesis using False by simp
    qed (use 2(2) in simp)
    fix q
    assume q: "q \<in> roots cache" "r \<noteq> q"
    have "a \<notin> set (addrs (T r))" "a \<notin> set (addrs (T q))"
      using fr(2) in_all_slabs [OF r, of a T] in_all_slabs [OF q(1), of a T] by auto
    then show "set (addrs (?T r)) \<inter> set (addrs (?T q)) = {}"
      using trees_atD(3) [OF t r q] q(2) 2(4) by (cases "r = ?p"; cases "q = ?p") auto
  next
    fix b
    assume "b \<in> insert a (all_slabs cache T)"
    then have "slab_at st1 cache b ((fl(a := new_objects cache a)) b)"
      using 1(3) trees_atD(5) [OF 1(2), of b] by (cases "b = a") auto
    then show "slab_at st2 cache b ((fl(a := new_objects cache a)) b)"
      using outside_fields [OF 2(5)] slab_at_cong [of st2 b st1] by simp
  qed
  then show ?thesis using run 2(3,4) 1(5) outside_fields(3) [OF 2(5)] by auto
qed

lemma get_slab_old:
  assumes t: "trees_at st cache T fl" and "T (partial cache) \<noteq> Lf \<or> T (empty cache) \<noteq> Lf"
  shows "\<exists>a r. get_slab cache st n = (Inr a, st) \<and> a \<in> set (addrs (T r)) \<and>
    r = (if T (partial cache) = Lf then empty cache else partial cache)"
proof -
  let ?r = "if T (partial cache) = Lf then empty cache else partial cache"
  obtain l a c r where "T ?r = Nd l a c r" using assms(2) by (cases "T ?r") (auto split: if_splits)
  moreover have "rb_root ?r st n = (Inr (ptr (T ?r)), st)" by (rule rb_root_run [OF trees_atD(2) [OF t]]) simp
  moreover have e: "rb_empty (partial cache) st n = (Inr (T (partial cache) = Lf), st)"
      "rb_empty (empty cache) st n = (Inr (T (empty cache) = Lf), st)"
    by (rule rb_empty_run [OF trees_atD(2) [OF t]], simp)+
  ultimately have "get_slab cache st n = (Inr a, st)" "a \<in> set (addrs (T ?r))"
    using assms(2) by (auto simp: get_slab_def rb_and_def bind_run slab_entry_def)
  then show ?thesis by blast
qed

section \<open>What allocation promises\<close>

lemma trees_at_objs:
  assumes t: "trees_at st cache T fl" and a: "a \<in> all_slabs cache T"
  shows "distinct (fl a)" and "set (fl a) \<subseteq> obj_addrs cache a" and "length (fl a) \<le> objs_per_slab cache"
    and "\<And>b. b \<in> all_slabs cache T \<Longrightarrow> b \<noteq> a \<Longrightarrow> obj_addrs cache a \<inter> obj_addrs cache b = {}"
proof -
  note s = trees_atD(5) [OF t a, unfolded slab_at_def]
  show "distinct (fl a)" "set (fl a) \<subseteq> obj_addrs cache a" "length (fl a) \<le> objs_per_slab cache" using s by auto
  show "obj_addrs cache a \<inter> obj_addrs cache b = {}" if "b \<in> all_slabs cache T" "b \<noteq> a" for b
    by (rule obj_addrs_disjoint [OF trees_atD(1) [OF t] trees_atD(6) [OF t] a that(1) that(2) [symmetric]])
qed

lemma sorted_out_home:
  assumes "trees_at st cache T fl"
  shows "sorted_out cache T fl \<longleftrightarrow> (\<forall>r \<in> roots cache. \<forall>b \<in> set (addrs (T r)). home cache (fl b) = r)"
proof -
  have ok: "cache_ok cache" by (rule trees_atD(1) [OF assms])
  have len: "length (fl b) \<le> objs_per_slab cache" if "r \<in> roots cache" "b \<in> set (addrs (T r))" for r b
    using trees_at_objs(3) [OF assms in_all_slabs [where T = T, OF that]] .
  have h: "home cache fs = full cache \<longleftrightarrow> fs = []"
    "home cache fs = empty cache \<longleftrightarrow> length fs = objs_per_slab cache"
    "length fs \<le> objs_per_slab cache \<Longrightarrow> home cache fs = partial cache \<longleftrightarrow> fs \<noteq> [] \<and> length fs < objs_per_slab cache" for fs
    using ok objs_bound [OF ok] by (auto simp: home_def cache_ok_def)
  have "(\<forall>b \<in> set (addrs (T (partial cache))). fl b \<noteq> [] \<and> length (fl b) < objs_per_slab cache) \<longleftrightarrow>
      (\<forall>b \<in> set (addrs (T (partial cache))). home cache (fl b) = partial cache)"
    using len [of "partial cache"] h(3) by (intro ball_cong refl) simp
  then show ?thesis using h(1,2) by (simp add: sorted_out_def roots_def)
qed

lemma home_moved:
  assumes t: "trees_at st cache T fl" and t': "trees_at st' cache T' (fl'(a := fs))"
    and m: "moved cache a (home cache fs) T T'"
    and "\<And>r b. r \<in> roots cache \<Longrightarrow> b \<in> set (addrs (T r)) \<Longrightarrow> b \<noteq> a \<Longrightarrow> home cache (fl' b) = r"
  shows "sorted_out cache T' (fl'(a := fs))"
  unfolding sorted_out_home [OF t']
proof (intro ballI)
  fix r b
  assume r: "r \<in> roots cache" and b: "b \<in> set (addrs (T' r))"
  then have s: "b \<in> (if r = home cache fs then insert a (set (addrs (T r))) else set (addrs (T r)) - {a})"
    using m by (simp add: moved_def)
  show "home cache ((fl'(a := fs)) b) = r"
  proof (cases "b = a")
    case True
    then show ?thesis using s by (simp split: if_splits)
  next
    case False
    then have "b \<in> set (addrs (T r))" using s by (simp split: if_splits)
    then show ?thesis using assms(4) [OF r _ False] False by simp
  qed
qed

lemma used_upd:
  assumes "a \<in> all_slabs cache T"
  shows "used cache T (fl(a := fs)) = (obj_addrs cache a - set fs) \<union>
    (\<Union>b \<in> all_slabs cache T - {a}. obj_addrs cache b - set (fl b))"
proof -
  have "(\<Union>b \<in> all_slabs cache T. obj_addrs cache b - set ((fl(a := fs)) b)) =
      (\<Union>b \<in> insert a (all_slabs cache T - {a}). obj_addrs cache b - set ((fl(a := fs)) b))"
    by (simp only: insert_Diff [OF assms])
  also have "\<dots> = (obj_addrs cache a - set fs) \<union>
      (\<Union>b \<in> all_slabs cache T - {a}. obj_addrs cache b - set ((fl(a := fs)) b))"
    by (simp only: UN_insert fun_upd_same)
  also have "(\<Union>b \<in> all_slabs cache T - {a}. obj_addrs cache b - set ((fl(a := fs)) b)) =
      (\<Union>b \<in> all_slabs cache T - {a}. obj_addrs cache b - set (fl b))"
    by (rule SUP_cong) simp_all
  finally show ?thesis unfolding used_def .
qed

lemma used_take:
  assumes t: "trees_at st cache T fl" and a: "a \<in> all_slabs cache T" and fl: "fl a = x # xs"
  shows "used cache T (fl(a := xs)) = insert x (used cache T fl)" and "x \<notin> used cache T fl"
proof -
  note o = trees_at_objs [OF t a]
  have x: "x \<in> obj_addrs cache a" "x \<notin> set xs" using o(1,2) fl by auto
  show "x \<notin> used cache T fl" using o(4) x fl unfolding used_def by fastforce
  have "fl = fl(a := x # xs)" using fl by auto
  then have "used cache T fl = used cache T (fl(a := x # xs))" by simp
  then show "used cache T (fl(a := xs)) = insert x (used cache T fl)"
    using x unfolding used_upd [OF a] by auto
qed

lemma used_new:
  assumes "all_slabs cache T' = insert a (all_slabs cache T)" and "a \<notin> all_slabs cache T"
  shows "used cache T' (fl(a := new_objects cache a)) = used cache T fl"
proof -
  have "(\<Union>b \<in> all_slabs cache T. obj_addrs cache b - set ((fl(a := new_objects cache a)) b)) = used cache T fl"
    unfolding used_def by (rule SUP_cong) (use assms(2) in auto)
  then show ?thesis unfolding used_def [of cache T'] assms(1) by simp
qed

text \<open>
  A cache that has only grown has at most one slab with free objects.
\<close>

definition grown :: "slab_cache \<Rightarrow> (nat \<Rightarrow> rbt) \<Rightarrow> bool" where
  "grown cache T \<longleftrightarrow> (\<exists>a. set (addrs (T (partial cache))) \<union> set (addrs (T (empty cache))) \<subseteq> {a})"

text \<open>The tree from which an allocation takes its slab.\<close>

definition source :: "slab_cache \<Rightarrow> (nat \<Rightarrow> rbt) \<Rightarrow> nat" where
  "source cache T = (if T (partial cache) = Lf then empty cache else partial cache)"

lemma source_in [simp]: "source cache T \<in> roots cache"
  by (simp add: source_def)

text \<open>A slab has a free object exactly when the tree at \<open>source\<close> is not empty.\<close>

lemma free_slab_iff:
  assumes t: "trees_at st cache T fl" and so: "sorted_out cache T fl"
  shows "(\<exists>b \<in> all_slabs cache T. fl b \<noteq> []) \<longleftrightarrow> \<not> (T (partial cache) = Lf \<and> T (empty cache) = Lf)"
proof
  assume "\<exists>b \<in> all_slabs cache T. fl b \<noteq> []"
  then obtain b p where b: "p \<in> roots cache" "b \<in> set (addrs (T p))" "fl b \<noteq> []" by (auto simp: all_slabs_def)
  then have "p \<noteq> full cache" using so by (auto simp: sorted_out_def)
  then show "\<not> (T (partial cache) = Lf \<and> T (empty cache) = Lf)" using b by (auto simp: roots_def)
next
  have pos: "0 < objs_per_slab cache" using objs_bound [OF trees_atD(1) [OF t]] by simp
  assume "\<not> (T (partial cache) = Lf \<and> T (empty cache) = Lf)"
  then have "T (source cache T) \<noteq> Lf" "source cache T = partial cache \<or> source cache T = empty cache"
    by (auto simp: source_def)
  then obtain b where b: "b \<in> set (addrs (T (source cache T)))" by (cases "T (source cache T)") auto
  then have "fl b \<noteq> []" using so pos \<open>source cache T = _ \<or> _\<close> unfolding sorted_out_def by (cases "fl b") fastforce+
  then show "\<exists>b \<in> all_slabs cache T. fl b \<noteq> []" using in_all_slabs [where T = T, OF source_in b] by blast
qed

text \<open>
  What an allocation does to the slabs: it takes the first free object \<open>x\<close> of the slab \<open>a\<close>, which is
  a new one when no slab has a free object.
\<close>

definition takes :: "slab_cache \<Rightarrow> nat \<Rightarrow> nat \<Rightarrow> nat list \<Rightarrow> slab_mem \<Rightarrow> (nat \<Rightarrow> rbt) \<Rightarrow> (nat \<Rightarrow> nat list) \<Rightarrow>
    slab_mem \<Rightarrow> (nat \<Rightarrow> rbt) \<Rightarrow> bool" where
  "takes cache x a ys st T fl st' T' \<longleftrightarrow>
     all_slabs cache T' = insert a (all_slabs cache T) \<and>
     (if \<exists>b \<in> all_slabs cache T. fl b \<noteq> []
      then a \<in> all_slabs cache T \<and> fl a = x # ys \<and> malloc_blocks st' = malloc_blocks st
      else a \<notin> all_slabs cache T \<and> new_objects cache a = x # ys \<and> malloc_blocks st = a # malloc_blocks st')"

definition grows_by :: "slab_cache \<Rightarrow> nat \<Rightarrow> slab_mem \<Rightarrow> (nat \<Rightarrow> rbt) \<Rightarrow> slab_mem \<Rightarrow> (nat \<Rightarrow> rbt) \<Rightarrow> bool" where
  "grows_by cache a st T st' T' \<longleftrightarrow>
     (\<forall>p \<in> roots cache. set (addrs (T' p)) \<subseteq> insert a (set (addrs (T p)))) \<and>
     all_slabs cache T' = insert a (all_slabs cache T) \<and>
     (if a \<in> all_slabs cache T then malloc_blocks st' = malloc_blocks st
      else malloc_blocks st = a # malloc_blocks st') \<and>
     (grown cache T \<longrightarrow> grown cache T' \<and> (balanced cache T \<longrightarrow> balanced cache T'))"

lemma single_addrs:
  assumes "rb_tree_at st r t" and "a \<in> set (addrs t)" and "set (addrs t) \<subseteq> {b}"
  shows "addrs t = [a]"
proof -
  have "distinct (addrs t)" using assms(1) by (simp add: rb_tree_at_def zip_at_def)
  moreover have all: "x = a" if "x \<in> set (addrs t)" for x using that assms(2,3) by auto
  moreover obtain y ys where ys: "addrs t = y # ys" using assms(2) by (cases "addrs t") auto
  moreover have "ys = []" using all calculation by (cases ys) auto
  ultimately show ?thesis by simp
qed

lemma slab_alloc_run:
  assumes c: "cache_at st cache T fl" and col: "coloured cache T" and bal: "same_black (T (source cache T))"
    and n: "\<And>r. r \<in> roots cache \<Longrightarrow> length (addrs (T r)) + 3 \<le> n"
    and m: "T (partial cache) = Lf \<Longrightarrow> T (empty cache) = Lf \<Longrightarrow>
      \<exists>a as. malloc_blocks st = a # as \<and> block_fresh cache T a"
  shows "\<exists>x a ys st' T'. navi_slab_alloc cache st n = (Inr (Some x), st') \<and> cache_at st' cache T' (fl(a := ys)) \<and>
    x \<notin> used cache T fl \<and> used cache T' (fl(a := ys)) = insert x (used cache T fl) \<and>
    takes cache x a ys st T fl st' T' \<and> coloured cache T' \<and> rebalanced cache a (home cache ys) T T' \<and>
    grows_by cache a st T st' T'"
proof -
  have t: "trees_at st cache T fl" and so: "sorted_out cache T fl" using c by (simp_all add: cache_at_def)
  note ok = trees_atD(1) [OF t]
  note home = so [unfolded sorted_out_home [OF t], rule_format]
  note free = free_slab_iff [OF t so]
  show ?thesis
  proof (cases "T (partial cache) = Lf \<and> T (empty cache) = Lf")
    case True
    then obtain a as where a: "malloc_blocks st = a # as" "block_fresh cache T a" using m by blast
    have "2 \<le> n" using n [of "partial cache"] by simp
    then obtain st0 D where g: "get_slab cache st n = (Inr a, st0)" "addrs D = [a]" "red_black D"
        "trees_at st0 cache (T(partial cache := D)) (fl(a := new_objects cache a))" "malloc_blocks st0 = as"
      using get_slab_new [OF t a] True by blast
    let ?T = "T(partial cache := D)"
    let ?fl = "fl(a := new_objects cache a)"
    have all: "all_slabs cache ?T = insert a (all_slabs cache T)"
      using g(2) True ok by (auto simp: all_slabs_def roots_def)
    have out: "a \<notin> all_slabs cache T" using a(2) by (simp add: block_fresh_def)
    obtain x xs where x: "new_objects cache a = x # xs"
      using objs_bound [OF ok] length_new_objects [of cache a] by (cases "new_objects cache a") auto
    have "\<exists>st' T'. navi_slab_alloc cache st n = (Inr (Some x), st') \<and> trees_at st' cache T' (?fl(a := xs)) \<and>
        moved cache a (home cache xs) ?T T' \<and> malloc_blocks st' = malloc_blocks st0 \<and>
        coloured cache T' \<and> rebalanced cache a (home cache xs) ?T T'"
    proof (rule alloc_rest_run [OF g(1,4)])
      show "coloured cache ?T" using col g(3) by (simp add: coloured_def red_black_tinted)
      show "same_black (?T (partial cache))" using g(3) by (simp add: red_black_def)
      show "length (addrs (?T p)) + 2 \<le> n" if "p \<in> roots cache" for p
        using n [OF that] g(2) by (cases "p = partial cache") auto
    qed (use x g(2) in simp_all)
    then obtain st' T' where r: "navi_slab_alloc cache st n = (Inr (Some x), st')"
        "trees_at st' cache T' (?fl(a := xs))" "moved cache a (home cache xs) ?T T'" "malloc_blocks st' = as"
        "coloured cache T'" "rebalanced cache a (home cache xs) ?T T'" using g(2,5) by auto
    have keeps: "same_black (T' p)" if p: "p \<in> roots cache" "same_black (T p)" for p
    proof (cases "p = partial cache")
      case True
      show ?thesis
      proof (cases "home cache xs = partial cache")
        case True
        then show ?thesis using r(6) \<open>p = _\<close> g(3) by (auto simp: rebalanced_def red_black_def)
      next
        case False
        then have "set (addrs (T' p)) = {}" using r(3) p(1) g(2) \<open>p = _\<close> by (simp add: moved_def)
        then have "T' p = Lf" by (cases "T' p") auto
        then show ?thesis by simp
      qed
    next
      case False
      then have "a \<notin> set (addrs (T p))" using in_all_slabs [where T = T, OF p(1)] a(2) by (auto simp: block_fresh_def)
      then show ?thesis using bspec [OF r(6) [unfolded rebalanced_def] p(1)] False p(2) by simp
    qed
    have "sorted_out cache T' (?fl(a := xs))"
    proof (rule home_moved [OF g(4) r(2,3)])
      show "home cache (?fl b) = r" if "r \<in> roots cache" "b \<in> set (addrs (?T r))" "b \<noteq> a" for r b
        using home [OF that(1), of b] that g(2) by (cases "r = partial cache") auto
    qed
    moreover have "used cache T' (?fl(a := xs)) = insert x (used cache T fl)" "x \<notin> used cache T fl"
      using used_take [OF g(4), of a x xs] all x used_new [OF all out, of fl] r(3)
      by (auto simp: moved_def used_def)
    moreover have sub: "set (addrs (T' p)) \<subseteq> insert a (set (addrs (T p)))" if "p \<in> roots cache" for p
      using r(3) that g(2) by (cases "p = partial cache") (auto simp: moved_def split: if_splits)
    moreover have rb: "rebalanced cache a (home cache xs) T T'"
      using keeps in_all_slabs [where T = T] out by (auto simp: rebalanced_def)
    moreover have gb: "balanced cache T'" if "balanced cache T"
      using that keeps r(5) by (simp add: balanced_coloured)
    moreover have "takes cache x a xs st T fl st' T'"
      using r(3,4) all a(1) out x free True by (simp add: takes_def moved_def)
    moreover have "grown cache T'"
      using sub [of "partial cache"] sub [of "empty cache"] True by (auto simp: grown_def)
    then have "grows_by cache a st T st' T'"
      using sub r(3-5) all a(1) out gb by (simp add: grows_by_def moved_def)
    ultimately show ?thesis using r(1,2,5) unfolding cache_at_def fun_upd_upd by blast
  next
    case False
    then obtain a r where g: "get_slab cache st n = (Inr a, st)" "a \<in> set (addrs (T r))"
        "r = (if T (partial cache) = Lf then empty cache else partial cache)"
      using get_slab_old [OF t, of n] by blast
    have rr: "r \<in> roots cache" using g(3) by simp
    have sr: "same_black (T r)" using bal g(3) by (simp add: source_def)
    have h: "home cache (fl a) = r" using home [OF rr g(2)] .
    then obtain x xs where x: "fl a = x # xs"
      using g(3) ok by (cases "fl a") (auto simp: home_def split: if_splits)
    have all: "a \<in> all_slabs cache T" using in_all_slabs [where T = T, OF rr g(2)] .
    have "\<exists>st' T'. navi_slab_alloc cache st n = (Inr (Some x), st') \<and> trees_at st' cache T' (fl(a := xs)) \<and>
        moved cache a (home cache xs) T T' \<and> malloc_blocks st' = malloc_blocks st \<and>
        coloured cache T' \<and> rebalanced cache a (home cache xs) T T'"
    proof (rule alloc_rest_run [OF g(1) t x rr g(2)])
      show "length (addrs (T p)) + 2 \<le> n" if "p \<in> roots cache" for p using n [OF that] by simp
    qed (use h x col sr in simp_all)
    then obtain st' T' where r: "navi_slab_alloc cache st n = (Inr (Some x), st')"
        "trees_at st' cache T' (fl(a := xs))" "moved cache a (home cache xs) T T'" "malloc_blocks st' = malloc_blocks st"
        "coloured cache T'" "rebalanced cache a (home cache xs) T T'" by blast
    have "sorted_out cache T' (fl(a := xs))" by (rule home_moved [OF t r(2,3)]) (use home in blast)
    moreover have "used cache T' (fl(a := xs)) = insert x (used cache T fl)"
      using used_take(1) [OF t all x] r(3) by (simp add: moved_def used_def)
    moreover have sub: "set (addrs (T' p)) \<subseteq> insert a (set (addrs (T p)))" if "p \<in> roots cache" for p
      using r(3) that by (auto simp: moved_def split: if_splits)
    have "grown cache T' \<and> (balanced cache T \<longrightarrow> balanced cache T')" if gr: "grown cache T"
    proof -
      obtain b where b: "set (addrs (T (partial cache))) \<union> set (addrs (T (empty cache))) \<subseteq> {b}"
        using gr by (auto simp: grown_def)
      have "set (addrs (T r)) \<subseteq> {b}" using b g(3) by (auto split: if_splits)
      then have "addrs (T r) = [a]" "a = b" using single_addrs [OF trees_atD(2) [OF t rr] g(2)] g(2) by auto
      moreover have "set (addrs (T' (partial cache))) \<union> set (addrs (T' (empty cache))) \<subseteq> {b}"
        using sub [of "partial cache"] sub [of "empty cache"] b \<open>a = b\<close> by auto
      ultimately show ?thesis
        using rebalanced_single [OF t rr _ r(3,5,6)] unfolding grown_def by blast
    qed
    then have "grows_by cache a st T st' T'"
      using sub r(3,4) all by (simp add: grows_by_def moved_def insert_absorb)
    moreover have "takes cache x a xs st T fl st' T'"
      using r(3,4) all x free False by (simp add: takes_def moved_def insert_absorb)
    ultimately show ?thesis using r(1,2,5,6) used_take(2) [OF t all x] unfolding cache_at_def by blast
  qed
qed


section \<open>What freeing promises\<close>

abbreviation holds_addr :: "nat \<Rightarrow> nat \<Rightarrow> bool" where
  "holds_addr mem a \<equiv> a \<le> mem \<and> mem < slab_end a"

lemma spaced_order:
  assumes "sorted xs" and "distinct xs" and "spaced (set xs)"
  shows "sorted_wrt (\<lambda>a b. slab_end a \<le> b) xs"
  using assms
proof (induction xs)
  case (Cons x xs)
  have "slab_end x \<le> y" if "y \<in> set xs" for y
  proof -
    have "x \<le> y" "x \<noteq> y" using Cons.prems(1,2) that by auto
    moreover have "slab_end x \<le> y \<or> slab_end y \<le> x"
      using Cons.prems(3) that \<open>x \<noteq> y\<close> unfolding spaced_def by auto
    ultimately show ?thesis by (auto simp: slab_end_def)
  qed
  moreover have "spaced (set xs)" using Cons.prems(3) by (auto simp: spaced_def)
  ultimately show ?case using Cons by simp
qed simp

lemma find_slab_in_run:
  assumes t: "trees_at st cache T fl" and r: "r \<in> roots cache" and n: "length (addrs (T r)) < n"
  shows "find_slab_in r mem st n = (Inr (List.find (holds_addr mem) (addrs (T r))), st)"
proof -
  note rt = trees_atD(2) [OF t r]
  have "spaced (set (addrs (T r)))"
    using trees_atD(6) [OF t] in_all_slabs [where T = T, OF r] unfolding spaced_def by blast
  then have "sorted_wrt (\<lambda>a b. slab_end a \<le> b) (addrs (T r))"
    by (intro spaced_order) (use rt in \<open>auto simp: rb_tree_at_def zip_at_def\<close>)
  moreover have "tree_at (rb_nodes st) r (T r)" using rt by (simp add: rb_tree_at_def zip_at_def)
  ultimately show ?thesis
    using find_slab_rounds_run [of st r "T r" n mem n] n by (simp add: find_slab_in_def bind_run rb_root_run [OF rt])
qed

lemma find_only:
  assumes "\<And>b. b \<in> set xs \<Longrightarrow> P b \<longleftrightarrow> b = a"
  shows "List.find P xs = (if a \<in> set xs then Some a else None)"
  using assms by (induction xs) auto

text \<open>The blocks of a cache do not overlap, so the search finds the slab that holds an address.\<close>

lemma find_slab_run:
  assumes t: "trees_at st cache T fl" and r: "r = full cache \<or> r = partial cache" and a: "a \<in> set (addrs (T r))"
    and mem: "holds_addr mem a"
    and n: "length (addrs (T (full cache))) < n" "length (addrs (T (partial cache))) < n"
  shows "find_slab cache mem st n = (Inr (Some a), st)"
proof -
  have rr: "r \<in> roots cache" using r by auto
  have all: "a \<in> all_slabs cache T" by (rule in_all_slabs [where T = T, OF rr a])
  have only: "holds_addr mem b \<longleftrightarrow> b = a" if b: "b \<in> all_slabs cache T" for b
  proof -
    have "b = a \<or> slab_end a \<le> b \<or> slab_end b \<le> a" using trees_atD(6) [OF t] all b unfolding spaced_def by blast
    then show ?thesis using mem by auto
  qed
  have f: "find_slab_in p mem st n = (Inr (if a \<in> set (addrs (T p)) then Some a else None), st)"
    if p: "p \<in> roots cache" "length (addrs (T p)) < n" for p
    unfolding find_slab_in_run [OF t p]
    by (subst find_only [of _ _ a]) (use only in_all_slabs [where T = T, OF p(1)] in blast, simp)
  have "a \<notin> set (addrs (T (full cache)))" if "r \<noteq> full cache"
    using trees_atD(3) [OF t rr _ that] a by auto
  then show ?thesis using f [OF _ n(1)] f [OF _ n(2)] r a by (auto simp: find_slab_def bind_run)
qed

lemma find_slab_none:
  assumes t: "trees_at st cache T fl"
    and none: "\<And>a. a \<in> set (addrs (T (full cache))) \<union> set (addrs (T (partial cache))) \<Longrightarrow> \<not> holds_addr mem a"
    and n: "length (addrs (T (full cache))) < n" "length (addrs (T (partial cache))) < n"
  shows "find_slab cache mem st n = (Inr None, st)"
proof -
  have "List.find (holds_addr mem) (addrs (T (full cache))) = None" by (rule find_None) (use none in auto)
  moreover have "List.find (holds_addr mem) (addrs (T (partial cache))) = None" by (rule find_None) (use none in auto)
  ultimately show ?thesis
    using find_slab_in_run [OF t _ n(1), of mem] find_slab_in_run [OF t _ n(2), of mem]
    by (simp add: find_slab_def bind_run)
qed

lemma push_slab:
  assumes t: "trees_at st cache T fl" and a: "a \<in> all_slabs cache T" and x: "x \<in> obj_addrs cache a" "x \<notin> set (fl a)"
  shows "\<exists>st1 st2 s. slab_slist_insert a x st n = (Inr (), st1) \<and>
    update_slab a (\<lambda>s. s\<lparr>in_use := in_use s - 1\<rparr>) st1 n = (Inr (), st2) \<and>
    deref_slab a st2 n = (Inr s, st2) \<and> unat (in_use s) + length (x # fl a) = objs_per_slab cache \<and>
    trees_at st2 cache T (fl(a := x # fl a))"
proof -
  note o = trees_at_objs [OF t a]
  have ok: "cache_ok cache" by (rule trees_atD(1) [OF t])
  obtain s where s: "slabs st a = Some s" "free_at (obj_next st) (slab_free s) (fl a)"
      "unat (in_use s) + length (fl a) = objs_per_slab cache"
    using trees_atD(5) [OF t a] by (auto simp: slab_at_def)
  have inj: "inj_on (get_object cache a) {..<objs_per_slab cache}" using get_object_inj [OF ok] by (auto simp: inj_on_def)
  then have "card (obj_addrs cache a) = objs_per_slab cache" by (simp add: obj_addrs_def card_image)
  moreover have "card (set (x # fl a)) \<le> card (obj_addrs cache a)"
    by (rule card_mono) (use x(1) o(2) in \<open>auto simp: obj_addrs_def\<close>)
  ultimately have "length (x # fl a) \<le> objs_per_slab cache" using o(1) x(2) by (simp add: distinct_card)
  then have pos: "0 < unat (in_use s)" using s(3) by simp
  then have "in_use s \<noteq> 0" by auto
  then have dec: "unat (in_use s - 1) = unat (in_use s) - 1" by (simp add: unat_minus_one)
  let ?s1 = "s\<lparr>slab_free := Some x\<rparr>"
  let ?s2 = "?s1\<lparr>in_use := in_use s - 1\<rparr>"
  let ?nx = "(obj_next st)(x := slab_free s)"
  let ?st1 = "st\<lparr>obj_next := ?nx, slabs := (slabs st)(a \<mapsto> ?s1)\<rparr>"
  let ?st2 = "?st1\<lparr>slabs := (slabs st)(a \<mapsto> ?s2)\<rparr>"
  have 1: "slab_slist_insert a x st n = (Inr (), ?st1)" by (rule slist_insert_run [OF s(1)])
  have 2: "update_slab a (\<lambda>s. s\<lparr>in_use := in_use s - 1\<rparr>) ?st1 n = (Inr (), ?st2)"
    by (simp add: update_slab_def deref_slab_def bind_run)
  have len: "unat (in_use ?s2) + length (x # fl a) = objs_per_slab cache" using dec pos s(3) by simp
  have fx: "free_at ?nx (slab_free s) (fl a)" using s(2) free_at_upd [OF x(2)] by simp
  have sa: "slab_at ?st2 cache a (x # fl a)"
    unfolding slab_at_def by (rule exI [of _ ?s2]) (use fx len o(1,2) x in simp)
  have "trees_at ?st2 cache T (fl(a := x # fl a))"
  proof (rule trees_at_slab [OF t _ sa])
    fix b
    assume b: "b \<in> all_slabs cache T" "b \<noteq> a"
    have "x \<notin> set (fl b)" using trees_at_objs(2) [OF t b(1)] o(4) [OF b] x(1) by blast
    then show "slab_at ?st2 cache b (fl b)" using trees_atD(5) [OF t b(1)] b(2) by (simp add: slab_at_def)
  qed simp
  moreover have "deref_slab a ?st2 n = (Inr ?s2, ?st2)" by (simp add: deref_slab_def)
  ultimately show ?thesis using 1 2 len by blast
qed

lemma used_give:
  assumes t: "trees_at st cache T fl" and a: "a \<in> all_slabs cache T" and x: "x \<in> obj_addrs cache a" "x \<notin> set (fl a)"
  shows "used cache T (fl(a := x # fl a)) = used cache T fl - {x}"
proof -
  have other: "x \<notin> obj_addrs cache b" if "b \<in> all_slabs cache T - {a}" for b
    using trees_at_objs(4) [OF t a] that x(1) by blast
  let ?others = "\<Union>b \<in> all_slabs cache T - {a}. obj_addrs cache b - set (fl b)"
  have now: "used cache T fl = (obj_addrs cache a - set (fl a)) \<union> ?others"
    using used_upd [OF a, of fl "fl a"] by simp
  have "x \<notin> ?others" using other by blast
  then have "((obj_addrs cache a - set (fl a)) \<union> ?others) - {x} = (obj_addrs cache a - set (x # fl a)) \<union> ?others" by auto
  then show ?thesis unfolding now used_upd [OF a] by simp
qed

text \<open>An object in use lies in a slab of the full or of the partial tree.\<close>

lemma used_slab:
  assumes t: "trees_at st cache T fl" and so: "sorted_out cache T fl" and x: "x \<in> used cache T fl"
  shows "\<exists>a r. (r = full cache \<or> r = partial cache) \<and> a \<in> set (addrs (T r)) \<and> x \<in> obj_addrs cache a \<and> x \<notin> set (fl a)"
proof -
  obtain a where a: "a \<in> all_slabs cache T" "x \<in> obj_addrs cache a" "x \<notin> set (fl a)"
    using x by (auto simp: used_def)
  note o = trees_at_objs [OF t a(1)]
  have inj: "inj_on (get_object cache a) {..<objs_per_slab cache}"
    using get_object_inj [OF trees_atD(1) [OF t]] by (auto simp: inj_on_def)
  have "length (fl a) \<noteq> objs_per_slab cache"
  proof
    assume len: "length (fl a) = objs_per_slab cache"
    have "card (set (fl a)) = card (obj_addrs cache a)"
      using len o(1) inj by (simp add: distinct_card obj_addrs_def card_image)
    then have "set (fl a) = obj_addrs cache a" using o(2) by (intro card_subset_eq) (auto simp: obj_addrs_def)
    then show False using a(2,3) by simp
  qed
  then have "a \<notin> set (addrs (T (empty cache)))" using so by (auto simp: sorted_out_def)
  then have "a \<in> set (addrs (T (full cache))) \<or> a \<in> set (addrs (T (partial cache)))"
    using a(1) by (auto simp: all_slabs_def roots_def)
  then show ?thesis using a(2,3) by blast
qed

end
