(* ===== verification/Spec_Pool.thy ===== *)
theory Spec_Pool
  imports Spec_Slab
begin

text \<open>
  What the red-black trees of \<open>rbtree.c\<close> and the slab allocator of \<open>slab.c\<close> promise: the properties
  that rest on the lemmas of \<open>Spec_Rbtree\<close>, \<open>Spec_Rbremove\<close> and \<open>Spec_Slab\<close>, with their witnesses.
\<close>

section \<open>Trees\<close>

primrec depth :: "rbt \<Rightarrow> nat" where
  "depth Lf = 0"
| "depth (Nd l a c r) = Suc (max (depth l) (depth r))"

lemma depth_bheight:
  "no_red_red t \<Longrightarrow> same_black t \<Longrightarrow> depth t \<le> 2 * bheight t + (if hue_of t = Red then 1 else 0)"
proof (induction t)
  case (Nd l a c r)
  have "depth l \<le> 2 * bheight l + (if hue_of l = Red then 1 else 0)"
    "depth r \<le> 2 * bheight l + (if hue_of r = Red then 1 else 0)"
    using Nd by simp_all
  then show ?case using Nd.prems by (cases c) (auto split: if_splits)
qed simp

lemma bheight_addrs: "same_black t \<Longrightarrow> 2 ^ bheight t \<le> length (addrs t) + 1"
proof (induction t)
  case (Nd l a c r)
  then have "2 ^ bheight l \<le> length (addrs l) + 1" "2 ^ bheight l \<le> length (addrs r) + 1" by simp_all
  then show ?case by (cases c) auto
qed simp

lemma red_black_depth:
  assumes "red_black t"
  shows "2 ^ (depth t div 2) \<le> length (addrs t) + 1"
proof -
  have "depth t \<le> 2 * bheight t" using depth_bheight [of t] assms by (simp add: red_black_def)
  then have "(2::nat) ^ (depth t div 2) \<le> 2 ^ bheight t" by (intro power_increasing) auto
  also have "\<dots> \<le> length (addrs t) + 1" by (rule bheight_addrs) (use assms in \<open>simp add: red_black_def\<close>)
  finally show ?thesis .
qed

lemma slab_inserts_run:
  assumes "rb_tree_at st root t" and "red_black t" and "distinct (root # xs @ addrs t)"
    and "\<And>a. a \<in> set xs \<Longrightarrow> rb_nodes st a \<noteq> None" and "length xs + length (addrs t) + 1 \<le> n"
  shows "\<exists>st' t'. foldM (\<lambda>a _. slab_insert root a) xs () st n = (Inr (), st') \<and> rb_tree_at st' root t' \<and>
    red_black t' \<and> set (addrs t') = set xs \<union> set (addrs t)"
  using assms
proof (induction xs arbitrary: st t)
  case Nil
  then show ?case by auto
next
  case (Cons a xs)
  have fresh: "a \<notin> insert root (set (addrs t))" using Cons.prems(3) by auto
  have le: "length (addrs t) + 2 \<le> n" using Cons.prems(5) by simp
  obtain x where "rb_nodes st a = Some x" using Cons.prems(4) [of a] by auto
  then obtain st1 t1 where 1: "slab_insert root a st n = (Inr (), st1)" "rb_tree_at st1 root t1" "red_black t1"
      "addrs t1 = insort a (addrs t)" "outside (insert a (insert root (set (addrs t)))) st st1"
    using slab_insert_run [OF Cons.prems(1,2) _ fresh le] by blast
  have "\<exists>st' t'. foldM (\<lambda>a _. slab_insert root a) xs () st1 n = (Inr (), st') \<and> rb_tree_at st' root t' \<and>
      red_black t' \<and> set (addrs t') = set xs \<union> set (addrs t1)"
  proof (rule Cons.IH [OF 1(2,3)])
    have "distinct (addrs t1)" using 1(2) by (simp add: rb_tree_at_def zip_at_def)
    then show "distinct (root # xs @ addrs t1)" using Cons.prems(3) 1(4) by (auto simp: set_insort_key)
    show "length xs + length (addrs t1) + 1 \<le> n" using Cons.prems(5) 1(4) by simp
    show "rb_nodes st1 b \<noteq> None" if "b \<in> set xs" for b
    proof -
      have "b \<notin> insert a (insert root (set (addrs t)))" using that Cons.prems(3) by auto
      then show ?thesis using 1(5) Cons.prems(4) [of b] that by (simp add: outside_def)
    qed
  qed
  then show ?case using 1(1,4) by (auto simp: bind_run set_insort_key)
qed

text \<open>C37: Slabs inserted one after the other into a new tree, in any order, end up in the order of
  their addresses in a red-black tree of some depth \<open>d\<close>, and \<open>2 ^ (d div 2)\<close> is at most the number of
  slabs plus one.\<close>

theorem slab_inserts_correct:
  assumes "rb_nodes st root = Some RB_ROOT_INIT" and "distinct (root # xs)"
    and "\<And>a. a \<in> set xs \<Longrightarrow> rb_nodes st a \<noteq> None" and "length xs + 1 \<le> n"
  shows "\<exists>st' t. foldM (\<lambda>a _. slab_insert root a) xs () st n = (Inr (), st') \<and> zip_at st' root [] t \<and>
    addrs t = sort xs \<and> red_black t \<and> 2 ^ (depth t div 2) \<le> length xs + 1"
proof -
  have "rb_tree_at st root Lf"
    using assms(1) by (simp add: rb_tree_at_def zip_at_def root_at_def RB_ROOT_INIT_def)
  moreover have "red_black Lf" by (simp add: red_black_def)
  ultimately obtain st' t where t: "foldM (\<lambda>a _. slab_insert root a) xs () st n = (Inr (), st')"
      "rb_tree_at st' root t" "red_black t" "set (addrs t) = set xs"
    using slab_inserts_run [of st root Lf xs n] assms(2-4) by auto
  have "addrs t = sort xs"
    by (rule sorted_distinct_set_unique) (use t(2,4) assms(2) in \<open>auto simp: rb_tree_at_def zip_at_def\<close>)
  then show ?thesis using t red_black_depth [OF t(3)] unfolding rb_tree_at_def by (metis length_sort)
qed

text \<open>Nodes at the addresses 0 to 9, of which 0 is the dummy root.\<close>

definition ten_nodes :: "unit rb_mem_scheme" where
  "ten_nodes = \<lparr>rb_nodes = (\<lambda>a. if a < 10 then Some RB_ROOT_INIT else None)\<rparr>"

theorem slab_inserts_correct_witness:
  "\<exists>st' t. foldM (\<lambda>a _. slab_insert 0 a) [3, 1, 4, 2] () ten_nodes 5 = (Inr (), st') \<and> zip_at st' 0 [] t \<and>
    addrs t = [1, 2, 3, 4] \<and> red_black t \<and> 2 ^ (depth t div 2) \<le> length [3, 1, 4, 2 :: nat] + 1"
proof -
  have "sort [3, 1, 4, 2] = [1, 2, 3, 4 :: nat]" by simp
  moreover have "rb_nodes ten_nodes a \<noteq> None" if "a \<in> set [3, 1, 4, 2]" for a using that by (auto simp: ten_nodes_def)
  moreover have "rb_nodes ten_nodes 0 = Some RB_ROOT_INIT" "distinct (0 # [3, 1, 4, 2 :: nat])" "length [3, 1, 4, 2 :: nat] + 1 \<le> 5"
    by (simp_all add: ten_nodes_def)
  ultimately show ?thesis using slab_inserts_correct [of ten_nodes 0 "[3, 1, 4, 2]" 5] by metis
qed

text \<open>C9: Removing a slab from a red-black tree always ends; the other slabs stay in order, the root
  is black and no red node has a red child.  The paths have the same number of black nodes again
  except after the removals that \<open>unbalances\<close> describes.\<close>

theorem slab_remove_correct:
  assumes "rb_tree_at st root t" and "red_black t" and "a \<in> set (addrs t)" and "length (addrs t) < n"
  shows "\<exists>k l c r st' t'. t = plug k (Nd l a c r) \<and> slab_remove a st n = (Inr (), st') \<and>
    rb_tree_at st' root t' \<and> addrs t' = removeAll a (addrs t) \<and> no_red_red t' \<and> hue_of t' = Black \<and>
    (same_black t' \<longleftrightarrow> \<not> unbalances k (Nd l a c r)) \<and> outside (insert root (set (addrs t))) st st'"
proof -
  obtain k l c r where t: "t = plug k (Nd l a c r)" using locate [OF assms(3)] by blast
  show ?thesis using slab_remove_run [of st root k l a c r n] assms(1,2,4) unfolding t by blast
qed

theorem slab_remove_correct_witness:
  "\<exists>st' t'. slab_remove 1 \<lparr>rb_nodes = [0 \<mapsto> \<lparr>left = Some 1, right = None, parent = None, color = RB_ROOT_MARK\<rparr>,
      1 \<mapsto> \<lparr>left = None, right = None, parent = Some 0, color = RB_BLACK\<rparr>]\<rparr> 2 = (Inr (), st') \<and>
    rb_tree_at (st' :: unit rb_mem_scheme) 0 t' \<and> addrs t' = []"
  using slab_remove_correct [of "\<lparr>rb_nodes = [0 \<mapsto> \<lparr>left = Some 1, right = None, parent = None, color = RB_ROOT_MARK\<rparr>,
      1 \<mapsto> \<lparr>left = None, right = None, parent = Some 0, color = RB_BLACK\<rparr>]\<rparr> :: unit rb_mem_scheme"
      0 "Nd Lf 1 Black Lf" 1 2]
  by (force simp: rb_tree_at_def zip_at_def root_at_def red_black_def)

text \<open>Insertions (\<open>True\<close>) and removals in the tree with the dummy root 0.\<close>

primrec tree_ops :: "(bool \<times> nat) list \<Rightarrow> ('s, unit) mm" where
  "tree_ops [] = ret ()"
| "tree_ops (x # xs) = bind (if fst x then slab_insert 0 (snd x) else slab_remove (snd x)) (\<lambda>_. tree_ops xs)"

definition crash_ops :: "(bool \<times> nat) list" where
  "crash_ops = [(True, 9), (True, 8), (True, 7), (True, 6), (False, 7), (False, 9), (True, 2), (True, 1),
     (True, 4), (True, 3), (True, 5), (False, 1), (False, 6)]"

text \<open>
  The sibling's subtree below the frame is a red node whose child on the near side is red and has no
  child on the far side.  A red child of a red node is no part of a red-black tree.
\<close>

fun cornered :: "frame \<Rightarrow> bool" where
  "cornered (InL p c (Nd (Nd x b e Lf) y d w)) \<longleftrightarrow> d = Red \<and> e = Red"
| "cornered (InR (Nd w y d (Nd Lf b e x)) p c) \<longleftrightarrow> d = Red \<and> e = Red"
| "cornered f \<longleftrightarrow> False"

text \<open>
  The loop at such a position rotates the sibling away (case 2), finds the red child as the new
  sibling, takes it for case 6, and paints the outer child, which is not there.
\<close>

lemma cornered_round:
  assumes z: "zip_at st root (f # k) t" and t: "t \<noteq> Lf" and f: "cornered f"
  shows "fst (remove_round again (ptr t) st n) = Inl Mem_Undef"
proof -
  obtain g gs gl b gr where g: "turn_red f = g # gs" "other g = Nd gl b Red gr" "frame_hue g = Red"
      "(if hangs_left [g] then gr else gl) = Lf"
    using f by (cases f rule: cornered.cases) (auto simp: hangs_left_def)
  obtain st1 where c2: "remove_case2 (ptr t) st n = (Inr (), st1)" "zip_at st1 root (g # gs @ k) t"
    using remove_case2_run [OF z t, of n] g(1) by auto
  note foc = zip_focus [OF z t] and foc1 = zip_focus [OF c2(2) t] and kids = kid_reads [OF c2(2) g(2)]
  have c5: "remove_case5 (ptr t) (Some b) st1 n = (Inr (), st1)"
    using foc1 kids by (simp add: remove_case5_def bind_run rb_and_def)
  obtain st2 st3 where p: "set_color (Some b) RB_RED st1 n = (Inr (), st2)"
      "set_color (Some (node_of g)) RB_BLACK st2 n = (Inr (), st3)"
      "zip_at st3 root (set_other (Nd gl b Red gr) (hue_frame Black g) # gs @ k) t"
    using paint_sibling_parent [OF c2(2) g(2), of Red n Black] by auto
  let ?g = "set_other (Nd gl b Red gr) (hue_frame Black g)"
  note foc3 = zip_focus [OF p(3) t] and kids3 = kid_reads [OF p(3), of gl b Red gr]
  have head: "hangs_left [?g] = hangs_left [g]" by (cases g) (simp_all add: hangs_left_def)
  have pc: "rb_color (Some (node_of g)) st1 n = (Inr RB_RED, st1)"
    using frame_color [OF c2(2)] g(3) by (simp add: rb_color_def)
  have none: "set_color None RB_BLACK st3 n = (Inl Mem_Undef, st3)"
    by (simp add: set_color_def rb_set_def rb_deref_def bind_def)
  have "fst (remove_case6 (ptr t) st1 n) = Inl Mem_Undef"
    using foc1 foc3 kids3 pc p(1,2) g(2,4) head none
    by (cases "hangs_left [g]") (simp_all add: remove_case6_def bind_def)
  then have c6: "fst (bind (remove_case6 (ptr t)) F st1 n) = Inl Mem_Undef" for F :: "unit \<Rightarrow> ('a, rb_ptr) mm"
    by (simp add: bind_def split_beta)
  show ?thesis
    using foc foc1 c2(1) frame_is_black [OF c2(2)] frame_color [OF c2(2)] black_sibling_run [OF c2(2) g(2)] g(2,3) c5 c6
    by (simp add: remove_round_def bind_run rb_and_def is_red_def)
qed

text \<open>C38: Losing the balance is not harmless.  Once a red node has a red child, the removal of a black
  node with at most one child whose sibling is that red node, the red grandchild being on the near
  side and without a child on the far side, follows a null pointer: in every tree and whatever the
  budget, as long as it allows one round.  The witness is such a tree that five insertions, two
  removals, four more insertions and two more removals make of an empty tree, all of which succeed.\<close>

theorem rb_removal_null_deref:
  assumes "rb_tree_at st root (plug (f # k) (Nd l a Black r))" and "l = Lf \<or> r = Lf" and "cornered f" and "0 < n"
  shows "fst (slab_remove a st n) = Inl Mem_Undef"
proof -
  let ?t = "Nd l a Black r" and ?k = "f # k"
  define child where "child = only_child ?t"
  have z: "zip_at st root ?k ?t" using assms(1) zip_append [of st root ?k "[]" ?t] by (simp add: rb_tree_at_def)
  have ch: "ptr child = (if ptr r \<noteq> None then ptr r else ptr l)" unfolding child_def by (cases r) auto
  have no: "\<not> (ptr l \<noteq> None \<and> ptr r \<noteq> None)" using assms(2) by auto
  have hd: "is_black (Some a) st n = (Inr True, st)" using z by (simp add: is_black_def rb_run zip_at_def)
  have cc: "rb_color (ptr child) st n = (Inr (rbc (hue_of child)), st)"
  proof (cases child)
    case (Nd x y e w)
    have "tree_at (rb_nodes st) a child" using z assms(2) unfolding child_def by (auto simp: zip_at_def)
    then show ?thesis using Nd by (simp add: rb_color_def rb_run)
  qed (simp add: rb_color_def)
  obtain st1 where c: "set_color (Some a) (rbc (hue_of child)) st n = (Inr (), st1)" "zip_at st1 root ?k (Nd l a (hue_of child) r)"
    using set_color_zip [OF z, of "hue_of child" n] by auto
  obtain m where m: "n = Suc m" using assms(4) by (cases n) auto
  have "fst (remove_rounds n (Some a) st1 n) = Inl Mem_Undef"
    using cornered_round [OF c(2) _ assms(3), of "remove_rounds m" n] m by simp
  then obtain st2 where loop: "remove_rounds n (Some a) st1 n = (Inl Mem_Undef, st2)"
    by (cases "remove_rounds n (Some a) st1 n") auto
  show ?thesis
    using zip_left [OF z, of n] zip_right [OF z, of n] no hd cc c(1) ch loop
    by (cases "ptr r") (simp_all add: slab_remove_def navi_rb_remove_def bind_def)
qed

definition crash_tree :: rbt where
  "crash_tree = plug [InL 4 Black (Nd (Nd Lf 5 Red Lf) 8 Red Lf)] (Nd Lf 2 Black (Nd Lf 3 Red Lf))"

lemma crash_reached:
  "fst (tree_ops crash_ops ten_nodes 10) = Inr ()"
  "rb_tree_at (snd (tree_ops crash_ops ten_nodes 10)) 0 crash_tree"
  by code_simp+

theorem rb_removal_null_deref_witness:
  "fst (tree_ops crash_ops ten_nodes 10) = Inr () \<and>
   fst (slab_remove 2 (snd (tree_ops crash_ops ten_nodes 10)) 10) = Inl Mem_Undef"
  using rb_removal_null_deref [OF crash_reached(2) [unfolded crash_tree_def]] crash_reached(1) by simp

section \<open>Allocation and freeing\<close>

text \<open>C7: Allocation returns an object that was not in use and marks exactly this object as in use.  It is
  the first free object of a slab of the cache when any slab has a free object; otherwise, and only
  then, it is the first object of a new block that \<open>malloc\<close> gives.  The slab ends up in the tree where
  it belongs, the cache is well formed again and no red node has a red child.  The hypothesis on the
  balance is that the tree from which the slab is taken, the partial one or else the empty one, has
  the same number of black nodes on all paths (removal from another tree may follow a null pointer);
  all trees that have it keep it, except the tree that the slab leaves when the removal is one that
  \<open>unbalances\<close>.\<close>

theorem slab_alloc_correct:
  assumes c: "cache_at st cache T fl" and col: "coloured cache T" and bal: "same_black (T (source cache T))"
    and n: "\<And>r. r \<in> roots cache \<Longrightarrow> length (addrs (T r)) + 3 \<le> n"
    and m: "(\<And>b. b \<in> all_slabs cache T \<Longrightarrow> fl b = []) \<Longrightarrow>
      \<exists>a as. malloc_blocks st = a # as \<and> block_fresh cache T a"
  shows "\<exists>x a ys st' T'. navi_slab_alloc cache st n = (Inr (Some x), st') \<and>
    cache_at st' cache T' (fl(a := ys)) \<and> coloured cache T' \<and>
    x \<notin> used cache T fl \<and> used cache T' (fl(a := ys)) = insert x (used cache T fl) \<and>
    all_slabs cache T' = insert a (all_slabs cache T) \<and>
    (if \<exists>b \<in> all_slabs cache T. fl b \<noteq> []
     then a \<in> all_slabs cache T \<and> fl a = x # ys \<and> malloc_blocks st' = malloc_blocks st
     else a \<notin> all_slabs cache T \<and> new_objects cache a = x # ys \<and> malloc_blocks st = a # malloc_blocks st') \<and>
    rebalanced cache a (home cache ys) T T'"
proof -
  have "trees_at st cache T fl" "sorted_out cache T fl" using c by (simp_all add: cache_at_def)
  then have "\<exists>a as. malloc_blocks st = a # as \<and> block_fresh cache T a"
    if "T (partial cache) = Lf" "T (empty cache) = Lf"
    using m free_slab_iff [of st cache T fl] that by blast
  from slab_alloc_run [OF c col bal n this] obtain x a ys st' T' where
    "navi_slab_alloc cache st n = (Inr (Some x), st')" "cache_at st' cache T' (fl(a := ys))" "coloured cache T'"
    "x \<notin> used cache T fl" "used cache T' (fl(a := ys)) = insert x (used cache T fl)"
    "takes cache x a ys st T fl st' T'" "rebalanced cache a (home cache ys) T T'" by blast
  then show ?thesis unfolding takes_def
    by (intro exI [of _ x] exI [of _ a] exI [of _ ys] exI [of _ st'] exI [of _ T']) simp
qed

text \<open>A new cache of objects of 16 bytes at address 0, and one block to come.\<close>

definition new_cache :: slab_cache where
  "new_cache = \<lparr>full = 0, partial = 32, empty = 64, cache_flags = 0, objs_per_slab = 253, obj_size = 16\<rparr>"

definition new_cache_mem :: slab_mem where
  "new_cache_mem = \<lparr>rb_nodes = [0 \<mapsto> RB_ROOT_INIT, 32 \<mapsto> RB_ROOT_INIT, 64 \<mapsto> RB_ROOT_INIT], slabs = Map.empty,
     obj_next = (\<lambda>_. None), obj_prev = (\<lambda>_. HeadPlace 0), malloc_blocks = [4096]\<rparr>"

lemma new_cache_at: "cache_at new_cache_mem new_cache (\<lambda>_. Lf) (\<lambda>_. [])"
  by (simp add: cache_at_def trees_at_def sorted_out_def all_slabs_def roots_def spaced_def cache_ok_def
      new_cache_def new_cache_mem_def SLAB_MEM_SIZE_def SLAB_SIZE_def SLAB_DESC_SIZE_def
      rb_tree_at_def zip_at_def root_at_def RB_ROOT_INIT_def)

theorem slab_alloc_correct_witness:
  "\<exists>x a ys st' T'. navi_slab_alloc new_cache new_cache_mem 3 = (Inr (Some x), st') \<and>
    cache_at st' new_cache T' ((\<lambda>_. [])(a := ys)) \<and> used new_cache T' ((\<lambda>_. [])(a := ys)) = {x} \<and>
    malloc_blocks new_cache_mem = a # malloc_blocks st'"
proof -
  have b: "coloured new_cache (\<lambda>_. Lf)" "same_black Lf" by (simp_all add: coloured_def)
  have "block_fresh new_cache (\<lambda>_. Lf) 4096" "malloc_blocks new_cache_mem = 4096 # []"
    by (simp_all add: block_fresh_def roots_def new_cache_def new_cache_mem_def all_slabs_def spaced_def)
  then have m: "\<exists>a as. malloc_blocks new_cache_mem = a # as \<and> block_fresh new_cache (\<lambda>_. Lf) a" by blast
  have e: "used new_cache (\<lambda>_. Lf) (\<lambda>_. []) = {}" "all_slabs new_cache (\<lambda>_. Lf) = {}"
    by (simp_all add: used_def all_slabs_def)
  have "length (addrs Lf) + 3 \<le> 3" by simp
  then obtain x a ys st' T' where "navi_slab_alloc new_cache new_cache_mem 3 = (Inr (Some x), st')"
      "cache_at st' new_cache T' ((\<lambda>_. [])(a := ys))" "used new_cache T' ((\<lambda>_. [])(a := ys)) = {x}"
      "malloc_blocks new_cache_mem = a # malloc_blocks st'"
    using slab_alloc_correct [OF new_cache_at b(1) b(2) _ m, of 3] unfolding e by auto
  then show ?thesis by blast
qed


text \<open>
  What is left of a freeing when the object \<open>x\<close> is back in its slab \<open>a\<close>, which lies in the tree \<open>r\<close>.
\<close>

lemma free_rest_run:
  assumes t: "trees_at st cache T fl" and r: "r = full cache \<or> r = partial cache" and a: "a \<in> set (addrs (T r))"
    and h: "home cache fs = r" and use: "unat (in_use s) + length (x # fs) = objs_per_slab cache"
    and col: "coloured cache T" and bal: "home cache (x # fs) \<noteq> r \<Longrightarrow> same_black (T r)"
    and n: "\<And>p. p \<in> roots cache \<Longrightarrow> length (addrs (T p)) + 2 \<le> n"
  shows "\<exists>st' T'. (if in_use s = 0 then move_slab (empty cache) a
      else if unat (in_use s) + 1 = objs_per_slab cache then move_slab (partial cache) a else ret ()) st n = (Inr (), st') \<and>
    trees_at st' cache T' fl \<and> moved cache a (home cache (x # fs)) T T' \<and> coloured cache T' \<and>
    rebalanced cache a (home cache (x # fs)) T T'"
proof -
  have ok: "cache_ok cache" by (rule trees_atD(1) [OF t])
  have rr: "r \<in> roots cache" using r by auto
  have zero: "in_use s = 0 \<longleftrightarrow> unat (in_use s) = 0" by (metis unsigned_0 unsigned_word_eqI)
  show ?thesis
  proof (cases "unat (in_use s) = 0")
    case True
    then have hx: "home cache (x # fs) = empty cache" using use by (simp add: home_def)
    have ne: "r \<noteq> empty cache" using r ok by (auto simp: cache_ok_def)
    then have sb: "same_black (T r)" using bal hx by simp
    show ?thesis
      using ne move_slab_run [OF t rr _ a _ col sb n n, of "empty cache"] rr True zero hx by auto
  next
    case nz: False
    then have hx: "home cache (x # fs) = partial cache" using use by (simp add: home_def)
    show ?thesis
    proof (cases "fs = []")
      case True
      then have ne: "r \<noteq> partial cache" using h ok by (auto simp: home_def)
      then have sb: "same_black (T r)" using bal hx by simp
      show ?thesis
        using ne move_slab_run [OF t rr _ a _ col sb n n, of "partial cache"] rr True nz zero hx use by auto
    next
      case False
      then have "r = partial cache" using r h ok by (auto simp: home_def cache_ok_def split: if_splits)
      moreover have "unat (in_use s) + 1 \<noteq> objs_per_slab cache" using False use by (cases fs) auto
      ultimately show ?thesis
        using t moved_stay [OF t, of "partial cache" a] rebalanced_stay [OF t, of "partial cache" a] a nz zero hx col by auto
    qed
  qed
qed

text \<open>C8: Freeing an object in use finds its slab, puts the object in front of the free objects of that
  slab and moves the slab to the tree where it now belongs: exactly this object is no longer in use,
  no slab comes or goes, the cache is well formed again and no red node has a red child.  The
  hypothesis on the balance is that the tree which the slab leaves, if it leaves one, has the same
  number of black nodes on all paths (removal from another tree may follow a null pointer); all trees
  that have it keep it, except the tree that the slab leaves when the removal is one that
  \<open>unbalances\<close>.\<close>

theorem slab_free_correct:
  assumes c: "cache_at st cache T fl" and col: "coloured cache T"
    and bal: "\<And>a. a \<in> all_slabs cache T \<Longrightarrow> x \<in> obj_addrs cache a \<Longrightarrow>
      home cache (x # fl a) \<noteq> home cache (fl a) \<Longrightarrow> same_black (T (home cache (fl a)))"
    and n: "\<And>r. r \<in> roots cache \<Longrightarrow> length (addrs (T r)) + 3 \<le> n" and x: "x \<in> used cache T fl"
  shows "\<exists>a st' T'. navi_slab_free cache x st n = (Inr (), st') \<and>
    a \<in> all_slabs cache T \<and> x \<in> obj_addrs cache a \<and>
    cache_at st' cache T' (fl(a := x # fl a)) \<and> coloured cache T' \<and>
    used cache T' (fl(a := x # fl a)) = used cache T fl - {x} \<and> all_slabs cache T' = all_slabs cache T \<and>
    rebalanced cache a (home cache (x # fl a)) T T'"
proof -
  have t: "trees_at st cache T fl" and so: "sorted_out cache T fl" using c by (simp_all add: cache_at_def)
  note ok = trees_atD(1) [OF t]
  note home = so [unfolded sorted_out_home [OF t], rule_format]
  obtain a r where a: "r = full cache \<or> r = partial cache" "a \<in> set (addrs (T r))" "x \<in> obj_addrs cache a" "x \<notin> set (fl a)"
    using used_slab [OF t so x] by blast
  have rr: "r \<in> roots cache" using a(1) by auto
  have all: "a \<in> all_slabs cache T" by (rule in_all_slabs [where T = T, OF rr a(2)])
  have h: "home cache (fl a) = r" by (rule home [OF rr a(2)])
  have n1: "length (addrs (T p)) < n" "length (addrs (T p)) + 2 \<le> n" if "p \<in> roots cache" for p
    using n [OF that] by simp_all
  have f: "find_slab cache x st n = (Inr (Some a), st)"
    by (rule find_slab_run [OF t a(1,2)]) (use obj_addrs_range [OF ok a(3)] n1(1) in auto)
  obtain st1 st2 s where p: "slab_slist_insert a x st n = (Inr (), st1)"
      "update_slab a (\<lambda>s. s\<lparr>in_use := in_use s - 1\<rparr>) st1 n = (Inr (), st2)"
      "deref_slab a st2 n = (Inr s, st2)" "unat (in_use s) + length (x # fl a) = objs_per_slab cache"
      "trees_at st2 cache T (fl(a := x # fl a))"
    using push_slab [where n = n, OF t all a(3,4)] by blast
  have "same_black (T r)" if "home cache (x # fl a) \<noteq> r" using bal [OF all a(3)] h that by simp
  from free_rest_run [OF p(5) a(1,2) h p(4) col this n1(2)]
  obtain st' T' where r: "navi_slab_free cache x st n = (Inr (), st')"
      "trees_at st' cache T' (fl(a := x # fl a))" "moved cache a (home cache (x # fl a)) T T'"
      "coloured cache T'" "rebalanced cache a (home cache (x # fl a)) T T'"
    using f p(1-3) by (auto simp: navi_slab_free_def bind_run)
  have "sorted_out cache T' (fl(a := x # fl a))" by (rule home_moved [OF t r(2,3)]) (use home in blast)
  moreover have "used cache T' (fl(a := x # fl a)) = used cache T fl - {x}"
    using used_give [OF t all a(3,4)] r(3) by (simp add: moved_def used_def)
  moreover have "all_slabs cache T' = all_slabs cache T" using r(3) by (simp add: moved_def)
  ultimately show ?thesis using r(1,2,4,5) all a(3) unfolding cache_at_def by blast
qed

text \<open>A cache of objects of 4048 bytes whose only slab is full.\<close>

definition full_cache :: slab_cache where
  "full_cache = \<lparr>full = 0, partial = 32, empty = 64, cache_flags = 0, objs_per_slab = 1, obj_size = 4048\<rparr>"

definition full_cache_mem :: slab_mem where
  "full_cache_mem = \<lparr>rb_nodes =
       [0 \<mapsto> \<lparr>left = Some 4096, right = None, parent = None, color = RB_ROOT_MARK\<rparr>,
        4096 \<mapsto> \<lparr>left = None, right = None, parent = Some 0, color = RB_BLACK\<rparr>,
        32 \<mapsto> RB_ROOT_INIT, 64 \<mapsto> RB_ROOT_INIT],
     slabs = [4096 \<mapsto> \<lparr>slab_free = None, in_use = 1\<rparr>],
     obj_next = (\<lambda>_. None), obj_prev = (\<lambda>_. HeadPlace 0), malloc_blocks = []\<rparr>"

definition full_cache_trees :: "nat \<Rightarrow> rbt" where
  "full_cache_trees = (\<lambda>r. if r = 0 then Nd Lf 4096 Black Lf else Lf)"

lemma full_cache_slabs: "roots full_cache = {0, 32, 64}" "all_slabs full_cache full_cache_trees = {4096}"
  by (auto simp: roots_def all_slabs_def full_cache_def full_cache_trees_def)

lemma full_cache_at: "cache_at full_cache_mem full_cache full_cache_trees (\<lambda>_. [])"
  unfolding cache_at_def trees_at_def full_cache_slabs
  by (auto simp: sorted_out_def spaced_def cache_ok_def slab_at_def full_cache_def full_cache_mem_def
      full_cache_trees_def SLAB_MEM_SIZE_def SLAB_SIZE_def SLAB_DESC_SIZE_def
      rb_tree_at_def zip_at_def root_at_def RB_ROOT_INIT_def)

lemma full_cache_used: "used full_cache full_cache_trees (\<lambda>_. []) = {4144}"
  unfolding used_def full_cache_slabs
  by (simp add: obj_addrs_def get_object_def full_cache_def SLAB_DESC_SIZE_def lessThan_Suc)

theorem slab_free_correct_witness:
  "\<exists>a st' T'. navi_slab_free full_cache 4144 full_cache_mem 4 = (Inr (), st') \<and>
    cache_at st' full_cache T' ((\<lambda>_. [])(a := [4144])) \<and> used full_cache T' ((\<lambda>_. [])(a := [4144])) = {}"
proof -
  have c: "coloured full_cache full_cache_trees"
    by (simp add: coloured_def tinted_def full_cache_slabs full_cache_trees_def)
  have s: "same_black (full_cache_trees r)" for r by (simp add: full_cache_trees_def)
  have n: "length (addrs (full_cache_trees r)) + 3 \<le> 4" for r by (simp add: full_cache_trees_def)
  have "(4144::nat) \<in> used full_cache full_cache_trees (\<lambda>_. [])" by (simp add: full_cache_used)
  from slab_free_correct [OF full_cache_at c s n this] obtain a st' T' where
    "navi_slab_free full_cache 4144 full_cache_mem 4 = (Inr (), st')"
    "cache_at st' full_cache T' ((\<lambda>_. [])(a := [4144]))"
    "used full_cache T' ((\<lambda>_. [])(a := [4144])) = used full_cache full_cache_trees (\<lambda>_. []) - {4144}" by blast
  then show ?thesis unfolding full_cache_used by blast
qed


text \<open>C39: Freeing an address that lies in no slab of the full or the partial tree ends the program
  with the message of \<open>slab_free\<close> and changes nothing.\<close>

theorem slab_free_unknown:
  assumes c: "cache_at st cache T fl" and n: "\<And>r. r \<in> roots cache \<Longrightarrow> length (addrs (T r)) + 3 \<le> n"
    and none: "\<And>a. a \<in> set (addrs (T (full cache))) \<union> set (addrs (T (partial cache))) \<Longrightarrow> \<not> holds_addr mem a"
  shows "navi_slab_free cache mem st n = (Inl (Mem_Die ''slab_free: failed to locate slab!''), st)"
proof -
  have t: "trees_at st cache T fl" using c by (simp add: cache_at_def)
  have "find_slab cache mem st n = (Inr None, st)"
    by (rule find_slab_none [OF t none]) (use n [of "full cache"] n [of "partial cache"] in auto)
  then show ?thesis by (simp add: navi_slab_free_def bind_run)
qed

theorem slab_free_unknown_witness:
  "navi_slab_free full_cache 100 full_cache_mem 4 =
    (Inl (Mem_Die ''slab_free: failed to locate slab!''), full_cache_mem)"
  by (rule slab_free_unknown [OF full_cache_at]) (auto simp: full_cache_trees_def full_cache_def split: if_splits)

section \<open>Allocation goes on\<close>

text \<open>The objects that \<open>k\<close> allocations return.\<close>

primrec slab_allocs :: "slab_cache \<Rightarrow> nat \<Rightarrow> nat option list sm" where
  "slab_allocs cache 0 = ret []"
| "slab_allocs cache (Suc k) = bind (navi_slab_alloc cache) (\<lambda>x. bind (slab_allocs cache k) (\<lambda>xs. ret (x # xs)))"

text \<open>The blocks that \<open>malloc\<close> will give do not overlap each other or the cache.\<close>

definition blocks_fresh :: "slab_cache \<Rightarrow> (nat \<Rightarrow> rbt) \<Rightarrow> nat list \<Rightarrow> bool" where
  "blocks_fresh cache T bs \<longleftrightarrow> distinct bs \<and> set bs \<inter> (roots cache \<union> all_slabs cache T) = {} \<and>
     spaced (set bs \<union> all_slabs cache T)"

lemma spaced_subset: "spaced B \<Longrightarrow> A \<subseteq> B \<Longrightarrow> spaced A"
  unfolding spaced_def by blast

lemma blocks_fresh_head: "blocks_fresh cache T (a # bs) \<Longrightarrow> block_fresh cache T a"
  unfolding blocks_fresh_def block_fresh_def by (auto elim: spaced_subset)

lemma blocks_fresh_grows:
  assumes "grows_by cache a st T st' T'" and "blocks_fresh cache T (malloc_blocks st)"
  shows "blocks_fresh cache T' (malloc_blocks st')"
proof (cases "a \<in> all_slabs cache T")
  case True
  then show ?thesis using assms by (simp add: grows_by_def blocks_fresh_def insert_absorb)
next
  case False
  then have "malloc_blocks st = a # malloc_blocks st'" "all_slabs cache T' = insert a (all_slabs cache T)"
    using assms(1) by (auto simp: grows_by_def)
  then show ?thesis using assms(2) by (simp add: blocks_fresh_def)
qed

lemma addrs_grow:
  assumes "trees_at st' cache T' fl" and "grows_by cache a st T st' T'" and "p \<in> roots cache"
  shows "length (addrs (T' p)) \<le> length (addrs (T p)) + 1"
proof -
  have "distinct (addrs (T' p))" using trees_atD(2) [OF assms(1,3)] by (simp add: rb_tree_at_def zip_at_def)
  then have "length (addrs (T' p)) = card (set (addrs (T' p)))" by (simp add: distinct_card)
  also have "\<dots> \<le> card (insert a (set (addrs (T p))))"
    by (rule card_mono) (use assms(2,3) in \<open>auto simp: grows_by_def\<close>)
  also have "\<dots> \<le> Suc (card (set (addrs (T p))))" by (rule card_insert_le_m1) simp_all
  also have "\<dots> \<le> length (addrs (T p)) + 1" by (simp add: card_length)
  finally show ?thesis .
qed

lemma slab_allocs_run:
  assumes "cache_at st cache T fl" and "balanced cache T" and "grown cache T"
    and "blocks_fresh cache T (malloc_blocks st)" and "k \<le> length (malloc_blocks st)"
    and "\<And>r. r \<in> roots cache \<Longrightarrow> length (addrs (T r)) + k + 3 \<le> n"
  shows "\<exists>xs st' T' fl'. slab_allocs cache k st n = (Inr (map Some xs), st') \<and> length xs = k \<and> distinct xs \<and>
    set xs \<inter> used cache T fl = {} \<and> cache_at st' cache T' fl' \<and> used cache T' fl' = set xs \<union> used cache T fl"
  using assms
proof (induction k arbitrary: st T fl)
  case 0
  then show ?case by (intro exI [of _ "[]"] exI [of _ st] exI [of _ T] exI [of _ fl]) simp
next
  case (Suc k)
  have n: "length (addrs (T r)) + 3 \<le> n" if "r \<in> roots cache" for r using Suc.prems(6) [OF that] by simp
  have m: "\<exists>a as. malloc_blocks st = a # as \<and> block_fresh cache T a"
    using Suc.prems(4,5) blocks_fresh_head [of cache T] by (cases "malloc_blocks st") auto
  have col: "coloured cache T" and sb: "same_black (T (source cache T))"
    using Suc.prems(2) by (simp_all add: balanced_coloured)
  obtain x a st1 T1 fl1 where 1: "navi_slab_alloc cache st n = (Inr (Some x), st1)" "cache_at st1 cache T1 fl1"
      "x \<notin> used cache T fl" "used cache T1 fl1 = insert x (used cache T fl)" "grows_by cache a st T st1 T1"
    using slab_alloc_run [OF Suc.prems(1) col _ n m] sb by blast
  have g: "grown cache T1" "balanced cache T1" using 1(5) Suc.prems(2,3) by (auto simp: grows_by_def)
  have t1: "trees_at st1 cache T1 fl1" using 1(2) by (simp add: cache_at_def)
  have len: "k \<le> length (malloc_blocks st1)" using 1(5) Suc.prems(5) by (auto simp: grows_by_def split: if_splits)
  have n1: "length (addrs (T1 r)) + k + 3 \<le> n" if "r \<in> roots cache" for r
    using addrs_grow [OF t1 1(5) that] Suc.prems(6) [OF that] by simp
  obtain xs st' T' fl' where 2: "slab_allocs cache k st1 n = (Inr (map Some xs), st')" "length xs = k" "distinct xs"
      "set xs \<inter> used cache T1 fl1 = {}" "cache_at st' cache T' fl'" "used cache T' fl' = set xs \<union> used cache T1 fl1"
    using Suc.IH [OF 1(2) g(2,1) blocks_fresh_grows [OF 1(5) Suc.prems(4)] len n1] by blast
  have "slab_allocs cache (Suc k) st n = (Inr (map Some (x # xs)), st')" using 1(1) 2(1) by (simp add: bind_run)
  moreover have "distinct (x # xs)" "set (x # xs) \<inter> used cache T fl = {}" using 1(3,4) 2(3,4) by auto
  moreover have "used cache T' fl' = set (x # xs) \<union> used cache T fl" using 1(4) 2(6) by auto
  ultimately show ?case using 2(2,5) by (metis length_Cons)
qed

text \<open>A new cache is empty.\<close>

lemma cache_create_run:
  assumes "malloc_blocks st = c # bs" and "sz \<le> SLAB_MEM_SIZE"
  shows "\<exists>cache st'. navi_slab_cache_create sz flags st n = (Inr cache, st') \<and> malloc_blocks st' = bs \<and>
    full cache = c \<and> partial cache = c + 32 \<and> empty cache = c + 64 \<and>
    cache_at st' cache (\<lambda>_. Lf) (\<lambda>_. [])"
proof -
  let ?o = "if sz < 16 then 16 else sz"
  let ?c = "\<lparr>full = c, partial = c + 32, empty = c + 64, cache_flags = flags,
    objs_per_slab = SLAB_MEM_SIZE div ?o, obj_size = ?o\<rparr>"
  let ?st = "st\<lparr>malloc_blocks := bs, rb_nodes := (rb_nodes st)(c \<mapsto> RB_ROOT_INIT, c + 32 \<mapsto> RB_ROOT_INIT, c + 64 \<mapsto> RB_ROOT_INIT)\<rparr>"
  have "navi_slab_cache_create sz flags st n = (Inr ?c, ?st)"
    using assms(1) by (simp add: navi_slab_cache_create_def slab_malloc_def bind_run Let_def)
  moreover have "cache_ok ?c"
    using assms(2) by (simp add: cache_ok_def SLAB_MEM_SIZE_def SLAB_SIZE_def SLAB_DESC_SIZE_def)
  moreover have "rb_tree_at ?st r Lf" if "r = c \<or> r = c + 32 \<or> r = c + 64" for r
    using that by (auto simp: rb_tree_at_def zip_at_def root_at_def RB_ROOT_INIT_def)
  ultimately have "cache_at ?st ?c (\<lambda>_. Lf) (\<lambda>_. [])"
    by (auto simp: cache_at_def trees_at_def sorted_out_def all_slabs_def roots_def spaced_def)
  then show ?thesis using \<open>navi_slab_cache_create sz flags st n = (Inr ?c, ?st)\<close>
    by (intro exI [of _ ?c] exI [of _ ?st]) simp
qed

text \<open>C40: As long as \<open>malloc\<close> gives blocks, allocation from a new cache never fails: any number of
  allocations return as many different objects.\<close>

theorem slab_alloc_progress:
  assumes "malloc_blocks st = c # bs" and "sz \<le> SLAB_MEM_SIZE" and "k \<le> length bs" and "k + 3 \<le> n"
    and "distinct bs" and "spaced (set bs)" and "set bs \<inter> {c, c + 32, c + 64} = {}"
  shows "\<exists>xs st'. bind (navi_slab_cache_create sz flags) (\<lambda>cache. slab_allocs cache k) st n =
    (Inr (map Some xs), st') \<and> length xs = k \<and> distinct xs"
proof -
  obtain cache st1 where 1: "navi_slab_cache_create sz flags st n = (Inr cache, st1)" "malloc_blocks st1 = bs"
      "roots cache = {c, c + 32, c + 64}" "cache_at st1 cache (\<lambda>_. Lf) (\<lambda>_. [])"
    using cache_create_run [OF assms(1,2), of flags n] by (auto simp: roots_def)
  have "balanced cache (\<lambda>_. Lf)" by (simp add: balanced_def red_black_def)
  moreover have "grown cache (\<lambda>_. Lf)" by (simp add: grown_def)
  moreover have "blocks_fresh cache (\<lambda>_. Lf) (malloc_blocks st1)"
    using assms(5-7) 1(2,3) by (simp add: blocks_fresh_def all_slabs_def)
  ultimately show ?thesis
    using slab_allocs_run [OF 1(4), of k n] 1(1,2) assms(3,4) by (auto simp: bind_run)
qed

theorem slab_alloc_progress_witness:
  "\<exists>xs st'. bind (navi_slab_cache_create 16 0) (\<lambda>cache. slab_allocs cache 2)
      (new_cache_mem\<lparr>malloc_blocks := [0, 4096, 8192]\<rparr>) 5 = (Inr (map Some xs), st') \<and>
    length xs = 2 \<and> distinct xs"
  by (rule slab_alloc_progress [where c = 0 and bs = "[4096, 8192]"])
    (simp_all add: SLAB_MEM_SIZE_def SLAB_SIZE_def SLAB_DESC_SIZE_def spaced_def slab_end_def)

end
