(* ===== verification/Spec_Frames.thy ===== *)
theory Spec_Frames
  imports Spec_Scope
begin

text \<open>
  What every call of the evaluator (\<open>eval.c\<close>) does around its work: guards are taken and dropped
  (\<open>gc.c\<close>), an environment is referenced and released (\<open>environment.c\<close>), a bounce is made.  Such
  steps leave the objects and the bindings of a state as they are.
\<close>

section \<open>States between two steps\<close>

text \<open>
  A state with room for \<open>r\<close> more references to any scope: the heap and the scopes are well formed,
  and every scope is in use.
\<close>

definition roomy :: "nat \<Rightarrow> state \<Rightarrow> bool" where
  "roomy r st \<longleftrightarrow> wf_heap st \<and> scopes_ok st \<and>
     (\<forall>s sc. scopes st s = Some sc \<longrightarrow> 0 < refs sc \<and> refs sc + r < 2 ^ 32)"

text \<open>Objects stay as they are, and so do the scopes but for guards and additional references.\<close>

definition later :: "state \<Rightarrow> state \<Rightarrow> bool" where
  "later st st' \<longleftrightarrow> same_below st st' \<and>
     (\<forall>s sc. scopes st s = Some sc \<longrightarrow>
        (\<exists>sc'. scopes st' s = Some sc' \<and> bindings sc' = bindings sc \<and> next_scope sc' = next_scope sc \<and>
           refs sc \<le> refs sc'))"

text \<open>The same without the counts: what the values and the code of a state depend on.\<close>

definition kept :: "state \<Rightarrow> state \<Rightarrow> bool" where
  "kept st st' \<longleftrightarrow> same_below st st' \<and>
     (\<forall>s sc. scopes st s = Some sc \<longrightarrow>
        (\<exists>sc'. scopes st' s = Some sc' \<and> bindings sc' = bindings sc \<and> next_scope sc' = next_scope sc))"

lemma later_kept: "later st st' \<Longrightarrow> kept st st'"
  unfolding later_def kept_def by blast

lemma later_refl [simp]: "later st st"
  by (simp add: later_def)

lemma later_trans: "later a b \<Longrightarrow> later b c \<Longrightarrow> later a c"
proof -
  assume ab: "later a b" and bc: "later b c"
  have "\<exists>sc'. scopes c s = Some sc' \<and> bindings sc' = bindings sc \<and> next_scope sc' = next_scope sc \<and> refs sc \<le> refs sc'"
    if a: "scopes a s = Some sc" for s sc
  proof -
    obtain sb where b: "scopes b s = Some sb" "bindings sb = bindings sc" "next_scope sb = next_scope sc" "refs sc \<le> refs sb"
      using ab a unfolding later_def by blast
    obtain sd where d: "scopes c s = Some sd" "bindings sd = bindings sb" "next_scope sd = next_scope sb" "refs sb \<le> refs sd"
      using bc b(1) unfolding later_def by blast
    show ?thesis using b d by auto
  qed
  moreover have "same_below a c" using ab bc unfolding later_def by (blast intro: same_below_trans)
  ultimately show "later a c" unfolding later_def by blast
qed

lemma roomyD:
  assumes "roomy r st"
  shows "wf_heap st" and "scopes_ok st" and "scopes st s = Some sc \<Longrightarrow> 0 < refs sc"
    and "scopes st s = Some sc \<Longrightarrow> refs sc + r < 2 ^ 32"
  using assms by (auto simp: roomy_def)

lemma roomy_less: "roomy r st \<Longrightarrow> q \<le> r \<Longrightarrow> roomy q st"
  unfolding roomy_def by fastforce

lemma laterD:
  assumes "later st st'"
  shows "same_below st st'"
    and "scopes st s = Some sc \<Longrightarrow> \<exists>sc'. scopes st' s = Some sc' \<and> bindings sc' = bindings sc \<and>
      next_scope sc' = next_scope sc \<and> refs sc \<le> refs sc'"
    and "scopes st s \<noteq> None \<Longrightarrow> scopes st' s \<noteq> None"
  using assms unfolding later_def by auto

lemma keptD:
  assumes "kept st st'"
  shows "same_below st st'"
    and "scopes st s = Some sc \<Longrightarrow> \<exists>sc'. scopes st' s = Some sc' \<and> bindings sc' = bindings sc \<and> next_scope sc' = next_scope sc"
    and "scopes st s \<noteq> None \<Longrightarrow> scopes st' s \<noteq> None"
  using assms unfolding kept_def by auto

lemma kept_heap: "wf_heap st \<Longrightarrow> kept st st' \<Longrightarrow> heap st a = Some ob \<Longrightarrow> heap st' a = Some ob"
  by (auto dest: keptD(1) intro: heap_same_below_keep)

lemma kept_list: "wf_heap st \<Longrightarrow> kept st st' \<Longrightarrow> list_at st p xs t \<Longrightarrow> list_at st' p xs t"
  by (blast intro: list_at_same_below dest: keptD(1))

lemma kept_valid: "wf_heap st \<Longrightarrow> kept st st' \<Longrightarrow> valid_obj st x \<Longrightarrow> valid_obj st' x"
  by (blast intro: valid_obj_hext hext_same_below dest: keptD(1))

lemma kept_visible:
  assumes "scopes_ok st" and "kept st st'" and "scopes st s \<noteq> None"
  shows "visible st' s = visible st s"
  using assms(1,3)
proof (induction s rule: scope_induct)
  case (last s sc)
  then show ?case using keptD(2) [OF assms(2) last(1)] by (auto simp: visible_last)
next
  case (link s sc t)
  then show ?case using keptD(2) [OF assms(2) link(1)] by (auto simp: visible_link)
qed

lemma kept_env: "kept st st' \<Longrightarrow> env_ok st env \<Longrightarrow> env_ok st' env"
  by (auto dest: keptD(3))

lemma later_env: "later st st' \<Longrightarrow> env_ok st env \<Longrightarrow> env_ok st' env"
  by (auto dest: laterD(3))

text \<open>Steps that need no room.\<close>

definition quiet_step :: "state \<Rightarrow> state \<Rightarrow> bool" where
  "quiet_step st st' \<longleftrightarrow> kept st st' \<and> (\<forall>q. roomy q st \<longrightarrow> roomy q st')"

lemma quiet_step_refl [simp]: "quiet_step st st"
  by (auto simp: quiet_step_def kept_def)

lemma quiet_stepD: "quiet_step st st' \<Longrightarrow> kept st st'" "quiet_step st st' \<Longrightarrow> roomy q st \<Longrightarrow> roomy q st'"
  by (simp_all add: quiet_step_def)

section \<open>Guards, references, bounces\<close>

definition guard_ok :: "state \<Rightarrow> (sid \<times> nat) option \<Rightarrow> bool" where
  "guard_ok st g \<longleftrightarrow> (case g of None \<Rightarrow> True | Some (s, i) \<Rightarrow> scopes st s \<noteq> None)"

lemma later_guard: "later st st' \<Longrightarrow> guard_ok st g \<Longrightarrow> guard_ok st' g"
  by (cases g) (auto simp: guard_ok_def dest: laterD(3))

text \<open>A change of a scope's guards.\<close>

lemma guards_upd:
  assumes "scopes st s = Some sc" and "heap st' = heap st" and "hp_next st' = hp_next st"
    and "scopes st' = (scopes st)(s \<mapsto> sc\<lparr>guards := gs\<rparr>)" and "sc_next st' = sc_next st"
  shows "quiet_step st st'" and "later st st'"
proof -
  show l: "later st st'" using assms(1-4) by (auto simp: later_def same_below_def)
  have "roomy r st'" if r: "roomy r st" for r
  proof -
    have "wf_heap st'" using roomyD(1) [OF r] assms(2,3) by (simp add: wf_heap_def valid_obj_def)
    moreover have "scopes_ok st'"
      using roomyD(2) [OF r] assms(1,4,5) unfolding scopes_ok_def by (auto split: if_splits)
    ultimately show "roomy r st'"
      using roomyD(3,4) [OF r] assms(1,4) unfolding roomy_def by (auto split: if_splits)
  qed
  then show "quiet_step st st'" using later_kept [OF l] by (simp add: quiet_step_def)
qed

lemma gc_guard_run:
  assumes "env_ok st env"
  shows "\<exists>g st'. navi_gc_guard obj env st n = (Inr g, st') \<and> quiet_step st st' \<and> later st st' \<and> guard_ok st' g \<and>
    heap st' = heap st"
proof (cases "navi_is_immediate (obj_word obj)")
  case True
  then show ?thesis by (simp add: navi_gc_guard_def guard_ok_def)
next
  case False
  obtain sc where sc: "scopes st (lexical env) = Some sc" using assms by auto
  let ?g = "guard_next st"
  let ?st = "upd_scope (st\<lparr>guard_next := Suc ?g\<rparr>) (lexical env) (sc\<lparr>guards := (?g, obj) # guards sc\<rparr>)"
  have "navi_gc_guard obj env st n = (Inr (Some (lexical env, ?g)), ?st)"
    using False sc by (simp add: navi_gc_guard_def bind_run update_scope_run)
  moreover note guards_upd [OF sc, of ?st "(?g, obj) # guards sc"]
  ultimately show ?thesis by (simp add: guard_ok_def)
qed

lemma gc_unguard_run:
  assumes "guard_ok st g"
  shows "\<exists>st'. navi_gc_unguard g st n = (Inr (), st') \<and> quiet_step st st' \<and> later st st' \<and> heap st' = heap st"
proof (cases g)
  case None
  then show ?thesis by (simp add: navi_gc_unguard_def)
next
  case (Some p)
  then obtain s i where g: "g = Some (s, i)" by (cases p) auto
  then obtain sc where sc: "scopes st s = Some sc" using assms by (auto simp: guard_ok_def)
  let ?gs = "filter (\<lambda>(h, _). h \<noteq> i) (guards sc)"
  have "navi_gc_unguard g st n = (Inr (), upd_scope st s (sc\<lparr>guards := ?gs\<rparr>))"
    using sc by (simp add: g navi_gc_unguard_def update_scope_run)
  then show ?thesis using guards_upd [OF sc, of "upd_scope st s (sc\<lparr>guards := ?gs\<rparr>)" ?gs] by simp
qed

lemma roomy_alloc:
  assumes "roomy r st" and "tag_ok \<lparr>obj_type = t, obj_data = d\<rparr>" and "\<forall>x \<in> payload_refs d. valid_obj st x"
  shows "roomy r (alloc_st t d st)" and "later st (alloc_st t d st)"
proof -
  have "wf_heap (alloc_st t d st)" by (rule wf_heap_alloc [OF roomyD(1) [OF assms(1)] assms(2,3)])
  moreover have "scopes_ok (alloc_st t d st)" using roomyD(2) [OF assms(1)] by (simp add: scopes_ok_def)
  ultimately show "roomy r (alloc_st t d st)" using assms(1) by (simp add: roomy_def)
  show "later st (alloc_st t d st)" by (auto simp: later_def)
qed

lemma roomy_same:
  assumes "roomy r st" and "heap st' = heap st" and "hp_next st' = hp_next st" and "scopes st' = scopes st"
    and "sc_next st' = sc_next st"
  shows "roomy r st'" and "later st st'"
  using assms by (auto simp: roomy_def wf_heap_def valid_obj_def scopes_ok_def later_def same_below_def)

text \<open>An object that was allocated after \<open>st0\<close> is written.\<close>

lemma roomy_write:
  assumes "roomy r st" and "later st0 st" and "hp_next st0 \<le> a" and "heap st a = Some ob" and "tag_ok ob'"
    and "\<forall>x \<in> payload_refs (obj_data ob'). valid_obj st x"
  shows "roomy r (st\<lparr>heap := (heap st)(a := Some ob')\<rparr>)" and "later st0 (st\<lparr>heap := (heap st)(a := Some ob')\<rparr>)"
proof -
  have "wf_heap (st\<lparr>heap := (heap st)(a := Some ob')\<rparr>)" by (rule wf_heap_update [OF roomyD(1) [OF assms(1)] assms(4-6)])
  then show "roomy r (st\<lparr>heap := (heap st)(a := Some ob')\<rparr>)" using assms(1) by (simp add: roomy_def scopes_ok_def)
  have "same_below st0 (st\<lparr>heap := (heap st)(a := Some ob')\<rparr>)" using laterD(1) [OF assms(2)] assms(3) by (simp add: same_below_def)
  then show "later st0 (st\<lparr>heap := (heap st)(a := Some ob')\<rparr>)" using assms(2) by (simp add: later_def)
qed

lemma scope_ref_run:
  assumes "roomy (Suc r) st" and "scopes st s = Some sc"
  shows "\<exists>st'. navi_scope_ref s st n = (Inr s, st') \<and> roomy r st' \<and> later st st' \<and> heap st' = heap st \<and> hp_next st' = hp_next st"
proof -
  let ?st = "upd_scope st s (more_refs 1 sc)"
  have refs: "refs (more_refs 1 sc) = Suc (refs sc)" using roomyD(4) [OF assms] by simp
  have "wf_heap ?st" using roomyD(1) [OF assms(1)] by (simp add: wf_heap_def valid_obj_def)
  moreover have "scopes_ok ?st"
    by (rule scopes_ok_upd [OF roomyD(2) [OF assms(1)] assms(2)])
      (use scopes_okD(2) [OF roomyD(2) [OF assms(1)] assms(2)] in auto)
  moreover have "0 < refs sc' \<and> refs sc' + r < 2 ^ 32" if "scopes ?st q = Some sc'" for q sc'
    using that roomyD(3,4) [OF assms(1), of q sc'] roomyD(4) [OF assms] refs by (auto split: if_splits)
  ultimately have "roomy r ?st" unfolding roomy_def by blast
  moreover have "later st ?st" using assms(2) refs by (auto simp: later_def same_below_def simp del: more_refs_simps(3))
  ultimately show ?thesis using navi_scope_ref_run [OF assms(2), of n] by auto
qed

text \<open>The references that an environment takes: at most two to one scope.\<close>

lemma env_refs_le: "env_refs env s \<le> 2"
  by (simp add: env_refs_def)

lemma env_ref_run:
  assumes "roomy (r + 2) st" and "env_ok st env"
  shows "\<exists>st'. navi_env_ref env st n = (Inr (), st') \<and> roomy r st' \<and> later st st' \<and> heap st' = heap st \<and>
    hp_next st' = hp_next st \<and>
    (\<forall>s sc. scopes st s = Some sc \<longrightarrow> (\<exists>sc'. scopes st' s = Some sc' \<and> refs sc' = refs sc + env_refs env s))"
proof -
  note ok = roomyD(2) [OF assms(1)]
  let ?st = "st\<lparr>scopes := (\<lambda>s. map_option (more_refs (env_refs env s)) (scopes st s))\<rparr>"
  have refs: "refs (more_refs (env_refs env s) sc) = refs sc + env_refs env s" if "scopes st s = Some sc" for s sc
    using roomyD(4) [OF assms(1) that] env_refs_le [of env s] by simp
  have "wf_heap ?st" using roomyD(1) [OF assms(1)] by (simp add: wf_heap_def valid_obj_def)
  moreover have "scopes_ok ?st" using ok unfolding scopes_ok_def by auto
  moreover have "0 < refs sc' \<and> refs sc' + r < 2 ^ 32" if s': "scopes ?st s = Some sc'" for s sc'
  proof -
    obtain sc where sc: "scopes st s = Some sc" "sc' = more_refs (env_refs env s) sc" using s' by auto
    show ?thesis
      using refs [OF sc(1)] roomyD(3,4) [OF assms(1) sc(1)] env_refs_le [of env s] unfolding sc(2) by linarith
  qed
  ultimately have "roomy r ?st" unfolding roomy_def by blast
  moreover have "later st ?st" using refs by (auto simp: later_def same_below_def simp del: more_refs_simps(3))
  ultimately show ?thesis
    using navi_env_ref_run [OF ok assms(2), of n] refs
    by (intro exI [of _ ?st]) (auto simp del: more_refs_simps(3))
qed

lemma unref_one_run:
  assumes "roomy r st" and "scopes st s = Some sc" and "1 < refs sc"
  shows "navi_scope_unref s st n = (Inr (), upd_scope st s (sc\<lparr>refs := refs sc - 1\<rparr>))"
    and "roomy r (upd_scope st s (sc\<lparr>refs := refs sc - 1\<rparr>))"
proof -
  let ?sc = "more_refs (2 ^ 32 - 1) sc"
  have lt: "refs sc < 2 ^ 32" using roomyD(4) [OF assms(1,2)] by simp
  have "?sc = sc\<lparr>refs := refs sc - 1\<rparr>"
    using unref_shared(2) [OF assms(2,3) lt] by (simp add: more_refs_def)
  then show "navi_scope_unref s st n = (Inr (), upd_scope st s (sc\<lparr>refs := refs sc - 1\<rparr>))"
    using unref_shared(1) [OF assms(2,3) lt, of "sc_next st" n] by (simp add: navi_scope_unref_def bind_run)
  let ?st = "upd_scope st s (sc\<lparr>refs := refs sc - 1\<rparr>)"
  have "wf_heap ?st" using roomyD(1) [OF assms(1)] by (simp add: wf_heap_def valid_obj_def)
  moreover have "scopes_ok ?st"
    by (rule scopes_ok_upd [OF roomyD(2) [OF assms(1)] assms(2)])
      (use scopes_okD(2) [OF roomyD(2) [OF assms(1)] assms(2)] lt in auto)
  moreover have "0 < refs sc' \<and> refs sc' + r < 2 ^ 32" if "scopes ?st q = Some sc'" for q sc'
    using that roomyD(3,4) [OF assms(1), of q sc'] roomyD(4) [OF assms(1,2)] assms(3) by (auto split: if_splits)
  ultimately show "roomy r ?st" unfolding roomy_def by blast
qed

lemma env_unref_run:
  assumes st: "roomy r st" and env: "env_ok st env"
    and more: "\<And>s sc. scopes st s = Some sc \<Longrightarrow> env_refs env s < refs sc"
  shows "\<exists>st'. navi_env_unref env st n = (Inr (), st') \<and> quiet_step st st' \<and> heap st' = heap st \<and> hp_next st' = hp_next st \<and>
    (\<forall>s. scopes st' s = map_option (\<lambda>sc. sc\<lparr>refs := refs sc - env_refs env s\<rparr>) (scopes st s))"
proof -
  obtain l where l: "scopes st (lexical env) = Some l" using env by auto
  have l1: "1 < refs l" using more [OF l] by (simp add: env_refs_def split: if_splits)
  let ?st = "upd_scope st (lexical env) (l\<lparr>refs := refs l - 1\<rparr>)"
  note one = unref_one_run [OF st l l1]
  have "\<exists>d. scopes ?st (dynamic env) = Some d" using env by auto
  then obtain d where d: "scopes ?st (dynamic env) = Some d" ..
  have d1: "1 < refs d"
  proof (cases "lexical env = dynamic env")
    case True
    then show ?thesis using d more [OF l] by (auto simp: env_refs_def)
  next
    case False
    then have "scopes st (dynamic env) = Some d" using d by simp
    then show ?thesis using more [of "dynamic env" d] by (simp add: env_refs_def split: if_splits)
  qed
  let ?st2 = "upd_scope ?st (dynamic env) (d\<lparr>refs := refs d - 1\<rparr>)"
  note two = unref_one_run [OF one(2) d d1]
  have "scopes ?st2 s = map_option (\<lambda>sc. sc\<lparr>refs := refs sc - env_refs env s\<rparr>) (scopes st s)" for s
  proof (cases "lexical env = dynamic env")
    case True
    then show ?thesis using d l by (auto simp: env_refs_def map_option_case split: option.split)
  next
    case False
    then show ?thesis using d l by (auto simp: env_refs_def map_option_case split: option.split)
  qed
  moreover have "navi_env_unref env st n = (Inr (), ?st2)"
    using one(1) two(1) by (simp add: navi_env_unref_def bind_run)
  moreover from calculation(1) have "kept st ?st2" by (auto simp: kept_def same_below_def)
  moreover have "roomy q ?st2" if q: "roomy q st" for q
    by (rule unref_one_run(2) [OF unref_one_run(2) [OF q l l1] d d1])
  ultimately show ?thesis by (intro exI [of _ ?st2]) (simp add: quiet_step_def)
qed

lemma later_unref:
  assumes "later st0 st" and "same_below st st'"
    and "\<And>s. scopes st' s = map_option (\<lambda>sc. sc\<lparr>refs := refs sc - env_refs env s\<rparr>) (scopes st s)"
    and "\<And>s sc0 sc. scopes st0 s = Some sc0 \<Longrightarrow> scopes st s = Some sc \<Longrightarrow> refs sc0 + env_refs env s \<le> refs sc"
  shows "later st0 st'"
  unfolding later_def
proof (intro conjI allI impI)
  show "same_below st0 st'" using same_below_trans [OF laterD(1) [OF assms(1)] assms(2)] .
  fix s sc0
  assume s: "scopes st0 s = Some sc0"
  obtain sc where sc: "scopes st s = Some sc" "bindings sc = bindings sc0" "next_scope sc = next_scope sc0"
    using laterD(2) [OF assms(1) s] by blast
  have "refs sc0 + env_refs env s \<le> refs sc" by (rule assms(4) [OF s sc(1)])
  then show "\<exists>sc'. scopes st' s = Some sc' \<and> bindings sc' = bindings sc0 \<and> next_scope sc' = next_scope sc0 \<and>
      refs sc0 \<le> refs sc'"
    using sc assms(3) [of s] by simp
qed

text \<open>What runs between taking the references of an environment and dropping them.\<close>

lemma env_frame_run:
  assumes "roomy (r + 2) st" and "env_ok st env"
    and body: "\<And>st1. roomy r st1 \<Longrightarrow> later st st1 \<Longrightarrow> env_ok st1 env \<Longrightarrow>
      \<exists>x st2. m st1 n = (Inr x, st2) \<and> roomy q st2 \<and> later st1 st2 \<and> Q x st2"
    and Q: "\<And>x st2 st3. Q x st2 \<Longrightarrow> roomy q st2 \<Longrightarrow> quiet_step st2 st3 \<Longrightarrow> Q x st3"
  shows "\<exists>x st3. bind (navi_env_ref env) (\<lambda>_. bind m (\<lambda>x. bind (navi_env_unref env) (\<lambda>_. ret x))) st n = (Inr x, st3) \<and>
    roomy q st3 \<and> later st st3 \<and> Q x st3"
proof -
  obtain st1 where 1: "navi_env_ref env st n = (Inr (), st1)" "roomy r st1" "later st st1"
      "\<forall>s sc. scopes st s = Some sc \<longrightarrow> (\<exists>sc'. scopes st1 s = Some sc' \<and> refs sc' = refs sc + env_refs env s)"
    using env_ref_run [OF assms(1,2), of n] by blast
  have env1: "env_ok st1 env" by (rule later_env [OF 1(3) assms(2)])
  obtain x st2 where 2: "m st1 n = (Inr x, st2)" "roomy q st2" "later st1 st2" "Q x st2"
    using body [OF 1(2,3) env1] by blast
  have up: "refs sc0 + env_refs env s \<le> refs sc" if "scopes st s = Some sc0" "scopes st2 s = Some sc" for s sc0 sc
    using 1(4) that laterD(2) [OF 2(3), of s] by fastforce
  have more: "env_refs env s < refs sc" if s: "scopes st2 s = Some sc" for s sc
  proof (cases "scopes st s")
    case None
    then have "s \<noteq> lexical env" "s \<noteq> dynamic env" using assms(2) by auto
    then show ?thesis using roomyD(3) [OF 2(2) s] by (simp add: env_refs_def)
  next
    case (Some sc0)
    then show ?thesis using up [OF Some s] roomyD(3) [OF assms(1) Some] by simp
  qed
  obtain st3 where 3: "navi_env_unref env st2 n = (Inr (), st3)" "quiet_step st2 st3" "heap st3 = heap st2" "hp_next st3 = hp_next st2"
      "\<forall>s. scopes st3 s = map_option (\<lambda>sc. sc\<lparr>refs := refs sc - env_refs env s\<rparr>) (scopes st2 s)"
    using env_unref_run [OF 2(2) later_env [OF 2(3) env1] more, of n] by blast
  have "later st st3"
    by (rule later_unref [OF later_trans [OF 1(3) 2(3)] _ _ up]) (use 3 in \<open>auto simp: same_below_def\<close>)
  moreover have "Q x st3" by (rule Q [OF 2(4,2) 3(2)])
  moreover have "roomy q st3" by (rule quiet_stepD(2) [OF 3(2) 2(2)])
  ultimately show ?thesis using 1(1) 2(1) 3(1) by (auto simp: bind_run)
qed

lemma make_bounce_run:
  assumes "roomy (r + 2) st" and "env_ok st env" and "valid_obj st e"
  shows "\<exists>a st'. navi_make_bounce e env st n = (Inr (Ref a), st') \<and> roomy r st' \<and> later st st' \<and>
    heap st' a = Some \<lparr>obj_type = NAVI_BOUNCE, obj_data = PThunk e env\<rparr> \<and>
    (\<forall>s sc. scopes st s = Some sc \<longrightarrow> (\<exists>sc'. scopes st' s = Some sc' \<and> refs sc' = refs sc + env_refs env s))"
proof -
  let ?a = "hp_next st"
  let ?st = "alloc_st NAVI_THUNK (PThunk e env) st"
  note al = roomy_alloc [OF assms(1), of NAVI_THUNK "PThunk e env"]
  have "roomy (r + 2) ?st" "later st ?st" by (rule al; use assms(3) in simp)+
  moreover have "env_ok ?st env" using assms(2) by simp
  ultimately obtain st1 where 1: "navi_env_ref env ?st n = (Inr (), st1)" "roomy r st1" "later ?st st1" "heap st1 = heap ?st"
      "hp_next st1 = hp_next ?st"
      "\<forall>s sc. scopes ?st s = Some sc \<longrightarrow> (\<exists>sc'. scopes st1 s = Some sc' \<and> refs sc' = refs sc + env_refs env s)"
    using env_ref_run [of r ?st env n] by blast
  let ?b = "\<lparr>obj_type = NAVI_BOUNCE, obj_data = PThunk e env\<rparr>"
  let ?st2 = "st1\<lparr>heap := (heap st1)(?a \<mapsto> ?b)\<rparr>"
  have at: "heap st1 ?a = Some \<lparr>obj_type = NAVI_THUNK, obj_data = PThunk e env\<rparr>" using 1(4) by (simp add: heap_alloc_st)
  have "navi_make_bounce e env st n = (Inr (Ref ?a), ?st2)"
    using 1(1) at by (simp add: navi_make_bounce_def navi_make_thunk_def bind_run make_object_run)
  moreover have "roomy r ?st2"
  proof -
    have "wf_heap ?st2" by (rule wf_heap_update [OF roomyD(1) [OF 1(2)] at]) (use assms(3) 1(4) in \<open>auto simp: valid_obj_def heap_alloc_st\<close>)
    then show ?thesis using 1(2) by (simp add: roomy_def scopes_ok_def)
  qed
  moreover have "later st ?st2"
  proof -
    have "later st st1" using later_trans [OF _ 1(3)] \<open>later st ?st\<close> by blast
    moreover have "same_below st ?st2" using laterD(1) [OF calculation] by (simp add: same_below_def)
    ultimately show ?thesis by (simp add: later_def)
  qed
  ultimately show ?thesis using 1(6) by (intro exI [of _ ?a] exI [of _ ?st2]) simp
qed


text \<open>The environment of a call: a new scope, and references to the ones it was made from.\<close>

lemma extend_room:
  assumes "roomy (r + 2) st" and "env_ok st env" and ok: "scopes_ok (upd_scope (env_scope_st env st) (sc_next st) sc)"
    and sc: "refs sc = 1"
  shows "roomy r (upd_scope (env_scope_st env st) (sc_next st) sc)" (is "roomy r ?st")
    and "later st (upd_scope (env_scope_st env st) (sc_next st) sc)"
proof -
  have fresh: "scopes st (sc_next st) = None" by (rule scopes_fresh [OF roomyD(2) [OF assms(1)]])
  have refs: "refs (more_refs (env_refs env s) u) = refs u + env_refs env s" if "scopes st s = Some u" for s u
    using roomyD(4) [OF assms(1) that] env_refs_le [of env s] by simp
  have at: "scopes ?st s = (if s = sc_next st then Some sc else map_option (more_refs (env_refs env s)) (scopes st s))" for s
    by (simp add: env_scope_st_def)
  have hp: "heap ?st = heap st" "hp_next ?st = hp_next st" by (simp_all add: env_scope_st_def)
  have "wf_heap ?st" using roomyD(1) [OF assms(1)] hp by (simp add: wf_heap_def valid_obj_def)
  moreover have "0 < refs u' \<and> refs u' + r < 2 ^ 32" if u': "scopes ?st s = Some u'" for s u'
  proof (cases "s = sc_next st")
    case True
    obtain l where "scopes st (lexical env) = Some l" using assms(2) by auto
    then have "r + 2 < 2 ^ 32" using roomyD(4) [OF assms(1)] by fastforce
    then show ?thesis using True u' at sc by auto
  next
    case False
    then obtain u where u: "scopes st s = Some u" "u' = more_refs (env_refs env s) u"
      using u' by (auto simp: env_scope_st_def)
    show ?thesis using refs [OF u(1)] roomyD(3,4) [OF assms(1) u(1)] env_refs_le [of env s] unfolding u(2) by linarith
  qed
  ultimately show "roomy r ?st" using ok unfolding roomy_def by blast
  show "later st ?st" using refs fresh at hp unfolding later_def same_below_def
    by (auto simp del: more_refs_simps(3))
qed

end
