(* ===== verification/Spec_Arith.thy ===== *)
theory Spec_Arith
  imports Spec_Value
begin

text \<open>
  What the arithmetic procedures promise (\<open>arithmetic.c\<close>): the folds over the machine words of
  the arguments compute sums, differences, products and truncated quotients of the numbers,
  wrapped around to a fixnum, and report the first argument that is no number; the comparisons
  decide whether the arguments are sorted; writing a number and reading it back gives the number.
\<close>

section \<open>The folds\<close>

text \<open>The number a value holds, and the outcome of a check that failed.\<close>

definition num :: "navi_obj \<Rightarrow> int" where
  "num x = (case x of Fixnum w \<Rightarrow> sint w | _ \<Rightarrow> 0)"

lemma num_Fixnum [simp]: "num (Fixnum w) = sint w"
  by (simp add: num_def)

lemma navi_make_num: "wf_heap st \<Longrightarrow> valid_obj st x \<Longrightarrow> type_in st x = NAVI_FIXNUM \<Longrightarrow> navi_make_fixnum (num x) = x"
  by (auto dest!: type_in_fixnum simp: fixnum_of_sint)

abbreviation type_err :: "state \<Rightarrow> navi_env \<Rightarrow> navi_type \<Rightarrow> navi_obj \<Rightarrow> stop" where
  "type_err st env t x \<equiv> Error InternalError ''type error''
     [(''expected'', ISym (navi_strtype t)), (''actual'', ISym (navi_strtype (type_in st x)))] env"

text \<open>
  The reference fold on numbers: \<open>f\<close> gives the exact result or none, the accumulator wraps.
\<close>

primrec fold_nums ::
  "(int \<Rightarrow> int \<Rightarrow> int option) \<Rightarrow> state \<Rightarrow> navi_env \<Rightarrow> int \<Rightarrow> navi_obj list \<Rightarrow> stop + navi_obj" where
  "fold_nums f st env acc [] = Inr (navi_make_fixnum acc)"
| "fold_nums f st env acc (x # xs) =
     (if type_in st x \<noteq> NAVI_FIXNUM then Inl (type_err st env NAVI_FIXNUM x)
      else case f (wrap63 acc) (num x) of None \<Rightarrow> Inl Undef | Some k \<Rightarrow> fold_nums f st env k xs)"

lemma word_obj_fixnum: "word_obj (fixnum_word i) = navi_make_fixnum i"
  by (rule word_obj_obj_word) (simp add: addressable_def navi_make_fixnum_def)

text \<open>An operator on words that computes a function of the numbers.\<close>

locale fixnum_operator =
  fixes operator :: "64 word \<Rightarrow> 64 word \<Rightarrow> 64 word option" and f :: "int \<Rightarrow> int \<Rightarrow> int option"
  assumes operator_word: "operator (fixnum_word i) (fixnum_word j) = map_option fixnum_word (f (wrap63 i) (wrap63 j))"
begin

lemma word_op2_fixnum:
  "word_op2 operator (navi_make_fixnum i) (navi_make_fixnum j) =
     (case f (wrap63 i) (wrap63 j) of None \<Rightarrow> stop Undef | Some k \<Rightarrow> ret (navi_make_fixnum k))"
  by (simp add: word_op2_def operator_word word_obj_fixnum split: option.split)

lemma loop_run:
  assumes "wf_heap st" and "list_at st p xs t" and "length xs < k"
  shows "bind (for_each_loop k (\<lambda>cons acc.
       bind (navi_car cons) (\<lambda>x.
       bind (navi_type_check x NAVI_FIXNUM env) (\<lambda>_.
       bind (word_op2 operator acc x) (\<lambda>acc'. ret (Continue acc'))))) p (navi_make_fixnum acc))
     (\<lambda>(cons, c). case c of Return r \<Rightarrow> ret r | Continue v \<Rightarrow> ret v) st n = (fold_nums f st env acc xs, st)"
  using assms(2,3)
proof (induction xs arbitrary: p k acc)
  case Nil
  then obtain k' where "k = Suc k'" by (cases k) auto
  with Nil show ?case by (auto simp: bind_run navi_type_valid is_pair_at_type_in)
next
  case (Cons x xs)
  then obtain k' where k: "k = Suc k'" by (cases k) auto
  from Cons.prems(1) obtain a d where a: "p = Ref a" "pair_at st a x d" "list_at st d xs t" by auto
  have v: "valid_obj st x" by (rule list_at_elems_valid [OF assms(1) Cons.prems(1)]) simp
  show ?case
  proof (cases "type_in st x = NAVI_FIXNUM")
    case True
    then obtain w where w: "x = Fixnum w" using type_in_fixnum [OF assms(1) v] by blast
    have op: "word_op2 operator (navi_make_fixnum acc) x = (case f (wrap63 acc) (sint w) of
        None \<Rightarrow> stop Undef | Some j \<Rightarrow> ret (navi_make_fixnum j))"
      using word_op2_fixnum [of acc "sint w"] by (simp add: w fixnum_of_sint flip: sint_word63_wrap)
    show ?thesis
      using a Cons.IH [OF a(3), of k'] Cons.prems(2) op
      by (simp add: k w bind_run split: option.split)
  next
    case False
    then show ?thesis using a v by (simp add: k bind_run navi_type_check_valid)
  qed
qed

lemma arithmetic_fold_run:
  assumes "wf_heap st" and "list_at st args (x # xs) t" and "length xs < n" and "type_in st x = NAVI_FIXNUM"
  shows "arithmetic_fold operator args env st n = (fold_nums f st env (num x) xs, st)"
proof -
  from assms(2) obtain a d where a: "args = Ref a" "pair_at st a x d" "list_at st d xs t" by auto
  have v: "valid_obj st x" by (rule list_at_elems_valid [OF assms(1,2)]) simp
  obtain w where w: "x = Fixnum w" using type_in_fixnum [OF assms(1) v assms(4)] by blast
  show ?thesis
    using a loop_run [OF assms(1) a(3) assms(3), of env "sint w" n]
    by (simp add: arithmetic_fold_def after_loop_def navi_list_for_each_def bind_run w fixnum_of_sint)
qed

end

text \<open>The four operators of the code.\<close>

lemma fixnum_word_wrap [simp]: "fixnum_word (wrap63 i) = fixnum_word i"
  by (simp add: navi_make_fixnum_def)

lemma make_fixnum_cong: "wrap63 i = wrap63 j \<Longrightarrow> navi_make_fixnum i = navi_make_fixnum j"
  unfolding navi_make_fixnum_def by (metis word63_of_wrap)

lemma fixnum_word_add: "fixnum_word (wrap63 i + wrap63 j) = fixnum_word (i + j)"
  by (simp add: navi_make_fixnum_def)

lemma fixnum_word_diff: "fixnum_word (wrap63 i - wrap63 j) = fixnum_word (i - j)"
  by (simp add: navi_make_fixnum_def)

lemma fixnum_word_mult: "fixnum_word (wrap63 i * wrap63 j) = fixnum_word (i * j)"
  by (simp add: navi_make_fixnum_def)

interpretation plus: fixnum_operator op_plus "\<lambda>i j. Some (i + j)"
  by unfold_locales (use word_ops_int in \<open>simp add: op_plus_def fixnum_word_add\<close>)

interpretation minus: fixnum_operator op_minus "\<lambda>i j. Some (i - j)"
  by unfold_locales (use word_ops_int in \<open>simp add: op_minus_def fixnum_word_diff\<close>)

interpretation times: fixnum_operator op_times "\<lambda>i j. Some (i * j)"
  by unfold_locales (use word_ops_int in \<open>simp add: op_times_def fixnum_word_mult\<close>)

interpretation divide: fixnum_operator navi_fixnum_divide "\<lambda>i j. if j = 0 then None else Some (i sdiv j)"
  by unfold_locales (use word_ops_int in \<open>simp\<close>)

text \<open>What the folds of the total operators come to.\<close>

abbreviation non_number :: "state \<Rightarrow> navi_obj list \<Rightarrow> navi_obj option" where
  "non_number st xs \<equiv> find (\<lambda>x. type_in st x \<noteq> NAVI_FIXNUM) xs"

lemma fold_nums_wrap: "wrap63 i = wrap63 j \<Longrightarrow> fold_nums f st env i xs = fold_nums f st env j xs"
  by (cases xs) (auto dest: make_fixnum_cong)

lemma fold_nums_plus: "fold_nums (\<lambda>i j. Some (i + j)) st env acc xs = (case non_number st xs of
    Some y \<Rightarrow> Inl (type_err st env NAVI_FIXNUM y)
  | None \<Rightarrow> Inr (navi_make_fixnum (acc + sum_list (map num xs))))"
proof (induction xs arbitrary: acc)
  case (Cons x xs)
  have "navi_make_fixnum (wrap63 acc + num x + s) = navi_make_fixnum (acc + (num x + s))" for s
    by (simp add: navi_make_fixnum_def add.assoc)
  then show ?case using Cons by (simp split: option.split)
qed simp

lemma fold_nums_times: "fold_nums (\<lambda>i j. Some (i * j)) st env acc xs = (case non_number st xs of
    Some y \<Rightarrow> Inl (type_err st env NAVI_FIXNUM y)
  | None \<Rightarrow> Inr (navi_make_fixnum (acc * prod_list (map num xs))))"
proof (induction xs arbitrary: acc)
  case (Cons x xs)
  have "navi_make_fixnum (wrap63 acc * num x * s) = navi_make_fixnum (acc * (num x * s))" for s
    by (simp add: navi_make_fixnum_def mult.assoc)
  then show ?case using Cons by (simp split: option.split)
qed simp

lemma fold_nums_minus: "fold_nums (\<lambda>i j. Some (i - j)) st env acc xs = (case non_number st xs of
    Some y \<Rightarrow> Inl (type_err st env NAVI_FIXNUM y)
  | None \<Rightarrow> Inr (navi_make_fixnum (acc - sum_list (map num xs))))"
proof (induction xs arbitrary: acc)
  case (Cons x xs)
  have "navi_make_fixnum (wrap63 acc - num x - s) = navi_make_fixnum (acc - (num x + s))" for s
    by (simp add: navi_make_fixnum_def diff_diff_eq)
  then show ?case using Cons by (simp split: option.split)
qed simp

lemma first_not_number:
  assumes "list_at st args (x # y # ys) NilO" and "wf_heap st" and "type_in st x \<noteq> NAVI_FIXNUM"
  shows "arithmetic_fold operator args env st n = (Inl (type_err st env NAVI_FIXNUM x), st)"
  using assms list_at_elems_valid [OF assms(2,1), of x]
  by (auto simp: arithmetic_fold_def navi_type_check_valid bind_run)

text \<open>The shapes of the argument list that the folds tell apart.\<close>

lemma args_shape:
  assumes "list_at st args xs NilO"
  obtains "xs = []" and "args = NilO"
  | x where "xs = [x]" and "\<exists>a. args = Ref a \<and> pair_at st a x NilO"
  | x y ys where "xs = x # y # ys" and "\<exists>a b d. args = Ref a \<and> pair_at st a x (Ref b) \<and> pair_at st b y d"
  using assms by (cases xs rule: remdups_adj.cases) auto

lemma sum_product_run:
  assumes "wf_heap st" and "list_at st args xs NilO" and "length xs < n"
  shows "scm_add (length xs) args env st n = (if length xs = 1 then Inr (hd xs) else
      (case non_number st xs of Some x \<Rightarrow> Inl (type_err st env NAVI_FIXNUM x)
       | None \<Rightarrow> Inr (navi_make_fixnum (sum_list (map num xs)))), st) \<and>
    scm_mul (length xs) args env st n = (if length xs = 1 then Inr (hd xs) else
      (case non_number st xs of Some x \<Rightarrow> Inl (type_err st env NAVI_FIXNUM x)
       | None \<Rightarrow> Inr (navi_make_fixnum (prod_list (map num xs)))), st)"
proof (cases rule: args_shape [OF assms(2)])
  case 1
  then show ?thesis by (simp add: scm_add_def scm_mul_def navi_is_nil_def)
next
  case (2 x)
  then show ?thesis using args1 [of st args x "[]" NilO n] assms(2)
    by (auto simp: scm_add_def scm_mul_def navi_is_nil_def bind_run)
next
  case (3 x y ys)
  then have run: "scm_add k args env st n = arithmetic_fold op_plus args env st n"
    "scm_mul k args env st n = arithmetic_fold op_times args env st n" for k
    by (auto simp: scm_add_def scm_mul_def navi_is_nil_def bind_run)
  show ?thesis
  proof (cases "type_in st x = NAVI_FIXNUM")
    case True
    from assms(2,3) 3 show ?thesis unfolding run 3(1)
      using plus.arithmetic_fold_run [OF assms(1) _ _ True, of args "y # ys" NilO n env]
        times.arithmetic_fold_run [OF assms(1) _ _ True, of args "y # ys" NilO n env] True
      by (simp add: fold_nums_plus fold_nums_times del: list_at.simps fold_nums.simps split: option.split)
  next
    case False
    then show ?thesis unfolding run 3(1)
      using first_not_number [of st args x y ys] assms 3 by (simp del: list_at.simps)
  qed
qed

text \<open>
  C23: \<open>+\<close> and \<open>*\<close> of any number of numbers are their sum and product, wrapped around to a fixnum;
  of several arguments the first that is no number is reported with its type; a single argument
  is given back, whatever its type.
\<close>

theorem sum_product_correct:
  assumes "wf_heap st" and "list_at st args xs NilO" and "length xs < n"
  shows "scm_add (length xs) args env st n = (if length xs = 1 then Inr (hd xs) else
      (case non_number st xs of Some x \<Rightarrow> Inl (type_err st env NAVI_FIXNUM x)
       | None \<Rightarrow> Inr (navi_make_fixnum (sum_list (map num xs)))), st) \<and>
    scm_mul (length xs) args env st n = (if length xs = 1 then Inr (hd xs) else
      (case non_number st xs of Some x \<Rightarrow> Inl (type_err st env NAVI_FIXNUM x)
       | None \<Rightarrow> Inr (navi_make_fixnum (prod_list (map num xs)))), st)"
  using sum_product_run [OF assms] .

theorem sum_product_correct_witness:
  "scm_add 3 (Ref 0) some_env (heap_of [pair_ob (Fixnum 4) (Ref 1), pair_ob (Fixnum (- 9)) (Ref 2),
       pair_ob (Fixnum 2) NilO]) 9 = (Inr (Fixnum (- 3)), heap_of [pair_ob (Fixnum 4) (Ref 1),
       pair_ob (Fixnum (- 9)) (Ref 2), pair_ob (Fixnum 2) NilO])"
proof -
  let ?st = "heap_of [pair_ob (Fixnum 4) (Ref 1), pair_ob (Fixnum (- 9)) (Ref 2), pair_ob (Fixnum 2) NilO]"
  have "wf_heap ?st" by (rule wf_heap_of) simp
  then show ?thesis
    using sum_product_correct [of ?st "Ref 0" "[Fixnum 4, Fixnum (- 9), Fixnum 2]" 9 some_env]
    by (simp add: navi_make_fixnum_def numeral_3_eq_3)
qed

lemma difference_run:
  assumes "wf_heap st" and "list_at st args (x # xs) NilO" and "length xs < n"
    and "xs = [] \<Longrightarrow> type_in st x = NAVI_FIXNUM"
  shows "scm_sub (Suc (length xs)) args env st n =
    (case non_number st (x # xs) of Some y \<Rightarrow> Inl (type_err st env NAVI_FIXNUM y)
     | None \<Rightarrow> Inr (navi_make_fixnum (if xs = [] then - num x else num x - sum_list (map num xs))), st)"
proof (cases xs)
  case Nil
  then obtain w where "x = Fixnum w"
    using type_in_fixnum [OF assms(1) list_at_elems_valid [OF assms(1,2)]] assms(4) by auto
  then show ?thesis using assms(2) Nil args1 [OF assms(2)] minus.word_op2_fixnum [of 0 "sint w"]
    by (auto simp: scm_sub_def navi_is_nil_def bind_run fixnum_of_sint wrap63_id simp flip: sint_word63_wrap)
next
  case (Cons y ys)
  then have run: "scm_sub k args env st n = arithmetic_fold op_minus args env st n" for k
    using assms(2) by (auto simp: scm_sub_def navi_is_nil_def bind_run)
  show ?thesis
  proof (cases "type_in st x = NAVI_FIXNUM")
    case True
    then show ?thesis unfolding run
      using minus.arithmetic_fold_run [OF assms(1-3) True, of env] Cons
      by (simp add: fold_nums_minus del: list_at.simps fold_nums.simps split: option.split)
  next
    case False
    then show ?thesis unfolding run
      using first_not_number [of st args x y ys] assms Cons by (simp del: list_at.simps)
  qed
qed

text \<open>
  C24: \<open>-\<close> negates one number and subtracts the others from the first of several, wrapped around;
  the first argument that is no number is reported with its type.
\<close>

theorem difference_correct:
  assumes "wf_heap st" and "list_at st args (x # xs) NilO" and "length xs < n"
    and "xs = [] \<Longrightarrow> type_in st x = NAVI_FIXNUM"
  shows "scm_sub (Suc (length xs)) args env st n =
    (case non_number st (x # xs) of Some y \<Rightarrow> Inl (type_err st env NAVI_FIXNUM y)
     | None \<Rightarrow> Inr (navi_make_fixnum (if xs = [] then - num x else num x - sum_list (map num xs))), st)"
  using difference_run [OF assms] .

theorem difference_correct_witness:
  "scm_sub 1 (Ref 0) some_env (heap_of [pair_ob (Fixnum 4) NilO]) 9 = (Inr (Fixnum (- 4)), heap_of [pair_ob (Fixnum 4) NilO])"
proof -
  have "wf_heap (heap_of [pair_ob (Fixnum 4) NilO])" by (rule wf_heap_of) simp
  then show ?thesis
    using difference_correct [of "heap_of [pair_ob (Fixnum 4) NilO]" "Ref 0" "Fixnum 4" "[]" 9 some_env]
    by (simp add: navi_make_fixnum_def)
qed

text \<open>The quotient of the first argument by the others: the first zero or non-number decides.\<close>

primrec divide_all :: "state \<Rightarrow> navi_env \<Rightarrow> int \<Rightarrow> navi_obj list \<Rightarrow> stop + int" where
  "divide_all st env acc [] = Inr acc"
| "divide_all st env acc (x # xs) =
     (if type_in st x \<noteq> NAVI_FIXNUM then Inl (type_err st env NAVI_FIXNUM x)
      else if num x = 0 then Inl Undef
      else divide_all st env (wrap63 (acc sdiv num x)) xs)"

lemma sint_bounds_num: "- (2 ^ 62) \<le> num x" "num x < 2 ^ 62"
  using sint_fixnum_bounds by (cases x; simp add: num_def)+

lemma wrap63_num [simp]: "wrap63 (num x) = num x"
  by (rule wrap63_id) (rule sint_bounds_num)+

lemma wrap63_idem [simp]: "wrap63 (wrap63 i) = wrap63 i"
  by (metis sint_word63_wrap word63_of_wrap)

lemma make_fixnum_wrap [simp]: "navi_make_fixnum (wrap63 i) = navi_make_fixnum i"
  by (rule make_fixnum_cong) simp

lemma fold_nums_divide:
  "fold_nums (\<lambda>i j. if j = 0 then None else Some (i sdiv j)) st env acc xs =
     map_sum id navi_make_fixnum (divide_all st env (wrap63 acc) xs)"
  by (induction xs arbitrary: acc) simp_all

text \<open>
  C25: \<open>/\<close> takes the truncated quotient of the first number by each of the others in turn, and of 1
  by a single number.  A divisor that is no number is reported with its type, unless an earlier
  divisor was zero: a division by zero is not checked, and C gives it no meaning.
\<close>

theorem division_correct:
  assumes "wf_heap st" and "list_at st args (x # xs) NilO" and "length xs < n"
    and "type_in st x = NAVI_FIXNUM"
  shows "scm_div (Suc (length xs)) args env st n =
    (map_sum id navi_make_fixnum (if xs = [] then divide_all st env 1 [x] else divide_all st env (num x) xs), st)"
proof (cases xs)
  case Nil
  obtain w where w: "x = Fixnum w"
    using type_in_fixnum [OF assms(1) list_at_elems_valid [OF assms(1,2)]] assms(4) by auto
  then show ?thesis using assms(2) Nil args1 [OF assms(2)] divide.word_op2_fixnum [of 1 "sint w"]
    by (auto simp: scm_div_def navi_is_nil_def bind_run fixnum_of_sint wrap63_id simp flip: sint_word63_wrap)
      (simp add: navi_make_fixnum_def)
next
  case (Cons y ys)
  then have run: "scm_div k args env st n = arithmetic_fold navi_fixnum_divide args env st n" for k
    using assms(2) by (auto simp: scm_div_def navi_is_nil_def bind_run)
  show ?thesis unfolding run
    using divide.arithmetic_fold_run [OF assms, of env] Cons
    by (simp add: fold_nums_divide del: list_at.simps fold_nums.simps divide_all.simps)
qed

theorem division_correct_witness:
  "scm_div 2 (Ref 0) some_env (heap_of [pair_ob (Fixnum (- 7)) (Ref 1), pair_ob (Fixnum 2) NilO]) 9
    = (Inr (Fixnum (- 3)), heap_of [pair_ob (Fixnum (- 7)) (Ref 1), pair_ob (Fixnum 2) NilO])"
proof -
  let ?st = "heap_of [pair_ob (Fixnum (- 7)) (Ref 1), pair_ob (Fixnum 2) NilO]"
  have "wf_heap ?st" by (rule wf_heap_of) simp
  then show ?thesis
    using division_correct [of ?st "Ref 0" "Fixnum (- 7)" "[Fixnum 2]" 9 some_env]
    by (simp add: navi_make_fixnum_def numeral_2_eq_2 signed_divide_int_def wrap63_id)
qed

text \<open>
  C26: \<open>quotient\<close> and \<open>remainder\<close> of two numbers rebuild the first from the second, the remainder
  is smaller than the divisor and has the sign of the dividend; with a divisor of zero neither has
  a meaning, as the code does not check it.
\<close>

theorem quotient_remainder_correct:
  assumes "list_at st args [Fixnum v, Fixnum w] NilO"
  shows "if w = 0 then scm_quotient 2 args env st n = (Inl Undef, st) \<and> scm_remainder 2 args env st n = (Inl Undef, st)
    else \<exists>q r. scm_quotient 2 args env st n = (Inr (navi_make_fixnum q), st) \<and>
      scm_remainder 2 args env st n = (Inr (navi_make_fixnum r), st) \<and>
      sint v = sint w * q + r \<and> \<bar>r\<bar> < \<bar>sint w\<bar> \<and> (r \<noteq> 0 \<longrightarrow> sgn r = sgn (sint v)) \<and> wrap63 r = r \<and>
      (wrap63 q = q \<or> sint v = - (2 ^ 62) \<and> sint w = - 1)"
proof (cases "w = 0")
  case True
  then show ?thesis using args1 [OF assms] args2 [OF assms]
    by (simp add: scm_quotient_def scm_remainder_def fixnum_args_def bind_run)
next
  case False
  let ?i = "sint v" and ?j = "sint w"
  from False have j: "?j \<noteq> 0" using sint_eq_of_int [of w 0] by auto
  have run: "scm_quotient 2 args env st n = (Inr (navi_make_fixnum (?i sdiv ?j)), st)"
    "scm_remainder 2 args env st n = (Inr (navi_make_fixnum (?i smod ?j)), st)"
    using args1 [OF assms] args2 [OF assms] j
    by (simp_all add: scm_quotient_def scm_remainder_def fixnum_args_def bind_run)
  have "\<bar>?i\<bar> mod \<bar>?j\<bar> \<ge> 0" using j by simp
  then have r: "?i smod ?j \<noteq> 0 \<longrightarrow> sgn (?i smod ?j) = sgn ?i"
    by (auto simp: smod_int_alt_def sgn_mult)
  have small: "\<bar>?i smod ?j\<bar> < \<bar>?j\<bar>" using smod_int_range [OF j, of ?i] by auto
  have "wrap63 (?i smod ?j) = ?i smod ?j"
    using small sint_fixnum_bounds [of w] by (intro wrap63_id) linarith+
  moreover have "wrap63 (?i sdiv ?j) = ?i sdiv ?j \<or> ?i = - (2 ^ 62) \<and> ?j = - 1"
  proof (cases "?i sdiv ?j = 2 ^ 62")
    case True
    then have "?i = - (2 ^ 62)"
      using sdiv_int_range [of ?i ?j] sint_fixnum_bounds [of v] by auto
    then show ?thesis using True int_sdiv_negated_is_minus1 [of ?i ?j] by simp
  next
    case False
    then show ?thesis
      using sdiv_int_range [of ?i ?j] sint_fixnum_bounds [of v] by (intro disjI1 wrap63_id) auto
  qed
  moreover have "?i = ?j * (?i sdiv ?j) + ?i smod ?j" by (simp add: mult_sdiv_smod_eq)
  ultimately have "?i = ?j * (?i sdiv ?j) + ?i smod ?j \<and> \<bar>?i smod ?j\<bar> < \<bar>?j\<bar> \<and>
      (?i smod ?j \<noteq> 0 \<longrightarrow> sgn (?i smod ?j) = sgn ?i) \<and> wrap63 (?i smod ?j) = ?i smod ?j \<and>
      (wrap63 (?i sdiv ?j) = ?i sdiv ?j \<or> ?i = - (2 ^ 62) \<and> ?j = - 1)"
    using r small by blast
  then show ?thesis using False run by (simp only: if_False) blast
qed

theorem quotient_remainder_correct_witness:
  "\<exists>q r. scm_quotient 2 (Ref 0) some_env (heap_of [pair_ob (Fixnum (- 7)) (Ref 1), pair_ob (Fixnum 2) NilO]) 9
      = (Inr (navi_make_fixnum q), heap_of [pair_ob (Fixnum (- 7)) (Ref 1), pair_ob (Fixnum 2) NilO]) \<and>
    - 7 = 2 * q + r \<and> \<bar>r\<bar> < 2 \<and> sgn r \<noteq> 1"
proof -
  let ?st = "heap_of [pair_ob (Fixnum (- 7)) (Ref 1), pair_ob (Fixnum 2) NilO]"
  have "list_at ?st (Ref 0) [Fixnum (- 7), Fixnum 2] NilO" by simp
  from quotient_remainder_correct [OF this, of some_env 9] obtain q r where
    "scm_quotient 2 (Ref 0) some_env ?st 9 = (Inr (navi_make_fixnum q), ?st)"
    "- 7 = 2 * q + r" "\<bar>r\<bar> < 2" "r \<noteq> 0 \<longrightarrow> sgn r = - 1" by auto
  then show ?thesis by (intro exI [of _ q] exI [of _ r]) auto
qed

section \<open>Comparisons\<close>

abbreviation all_numbers :: "state \<Rightarrow> navi_obj list \<Rightarrow> bool" where
  "all_numbers st xs \<equiv> \<forall>x \<in> set xs. type_in st x = NAVI_FIXNUM"

abbreviation compare_body ::
  "(int \<Rightarrow> int \<Rightarrow> bool) \<Rightarrow> navi_env \<Rightarrow> navi_obj \<Rightarrow> unit \<Rightarrow> (bool, unit) ctl nm" where
  "compare_body op env \<equiv> (\<lambda>cons _.
       bind (navi_cdr cons) (\<lambda>d. bind (navi_type d) (\<lambda>t.
       if t = NAVI_NIL then ret (Return True)
       else bind (navi_car cons) (\<lambda>a. bind (navi_cadr cons) (\<lambda>b.
            bind (numeric_compare op a b env) (\<lambda>c.
            ret (if \<not> c then Return False else Continue ())))))))"

lemma numeric_compare_run:
  assumes "wf_heap st" and "valid_obj st x" and "valid_obj st y" and "type_in st x = NAVI_FIXNUM"
  shows "numeric_compare op x y env st n = (if type_in st y = NAVI_FIXNUM then Inr (op (num x) (num y))
     else Inl (type_err st env NAVI_FIXNUM y), st)"
  using type_in_fixnum [OF assms(1,2,4)] type_in_fixnum [OF assms(1,3)] assms(2-4)
  by (auto simp: numeric_compare_def bind_run navi_type_check_valid)

text \<open>
  The loop over a sorted prefix of numbers: it goes on to the first argument that breaks the order
  or is no number.
\<close>

primrec chain_from ::
  "(int \<Rightarrow> int \<Rightarrow> bool) \<Rightarrow> state \<Rightarrow> navi_env \<Rightarrow> int \<Rightarrow> navi_obj list \<Rightarrow> stop + bool" where
  "chain_from op st env i [] = Inr True"
| "chain_from op st env i (y # ys) =
     (if type_in st y \<noteq> NAVI_FIXNUM then Inl (type_err st env NAVI_FIXNUM y)
      else if \<not> op i (num y) then Inr False else chain_from op st env (num y) ys)"

lemma compare_loop_run:
  assumes "wf_heap st" and "list_at st p (x # xs) NilO" and "length xs + 1 < k"
    and "type_in st x = NAVI_FIXNUM"
  shows "bind (for_each_loop k (compare_body op env) p ())
      (\<lambda>(cons, c). case c of Return r \<Rightarrow> ret r | Continue v \<Rightarrow> ret True) st n = (chain_from op st env (num x) xs, st)"
  using assms(2-4)
proof (induction xs arbitrary: p k x)
  case Nil
  then obtain k' where "k = Suc k'" by (cases k) auto
  with Nil show ?case by (auto simp: bind_run)
next
  case (Cons y ys)
  then obtain k' where k: "k = Suc k'" by (cases k) auto
  from Cons.prems(1) obtain a b d where a: "p = Ref a" "pair_at st a x (Ref b)"
    "list_at st (Ref b) (y # ys) NilO" "pair_at st b y d" by auto
  have v: "valid_obj st x" "valid_obj st y"
    by (rule list_at_elems_valid [OF assms(1) Cons.prems(1)]; simp)+
  note cmp = numeric_compare_run [OF assms(1) v Cons.prems(3)]
  show ?case
  proof (cases "type_in st y = NAVI_FIXNUM")
    case True
    from Cons.IH [OF a(3) _ True, of k'] Cons.prems(2) a True cmp show ?thesis
      by (simp add: k bind_run navi_cadr_def del: list_at.simps)
  next
    case False
    with a cmp show ?thesis by (simp add: k bind_run navi_cadr_def del: list_at.simps)
  qed
qed

lemma chain_from_sorted:
  assumes "all_numbers st xs" and "transp op"
  shows "chain_from op st env i xs = Inr (sorted_wrt op (i # map num xs))"
  using assms(1)
proof (induction xs arbitrary: i)
  case (Cons y ys)
  have "op i z" if "op i (num y)" "op (num y) z" for z using transpD [OF assms(2)] that by blast
  with Cons show ?case by auto
qed simp

lemma chain_from_error:
  assumes "all_numbers st us" and "sorted_wrt op (i # map num us)" and "type_in st y \<noteq> NAVI_FIXNUM"
  shows "chain_from op st env i (us @ y # ws) = Inl (type_err st env NAVI_FIXNUM y)"
  using assms(1,2) by (induction us arbitrary: i) (simp_all add: assms(3))

lemma numeric_comparison_run:
  assumes "wf_heap st" and "list_at st args (x # xs) NilO" and "length xs + 1 < n"
    and "type_in st x = NAVI_FIXNUM"
  shows "numeric_comparison op args env st n = (map_sum id BoolO (chain_from op st env (num x) xs), st)"
  using compare_loop_run [OF assms, of op env n]
  by (simp add: numeric_comparison_def fold_pairs_def after_loop_def navi_list_for_each_def bind_run
      navi_make_bool_def split: sum.split)

text \<open>
  C27: The comparisons of numbers decide whether the arguments are sorted: strictly or weakly,
  upwards or downwards, or all equal.  An argument that is no number is reported with its type
  when the arguments before it are numbers in order.
\<close>

theorem comparison_correct:
  assumes "wf_heap st" and "list_at st args (x # xs) NilO" and "length xs + 1 < n"
    and "type_in st x = NAVI_FIXNUM"
    and "(f, op) \<in> {(scm_lt, (<)), (scm_gt, (>)), (scm_lte, (\<le>)), (scm_gte, (\<ge>)), (scm_numeq, (=))}"
  shows "(all_numbers st xs \<longrightarrow>
      f (Suc (length xs)) args env st n = (Inr (BoolO (sorted_wrt op (map num (x # xs)))), st)) \<and>
    (\<forall>us y ws. xs = us @ y # ws \<longrightarrow> type_in st y \<noteq> NAVI_FIXNUM \<longrightarrow> all_numbers st us \<longrightarrow>
      sorted_wrt op (map num (x # us)) \<longrightarrow>
      f (Suc (length xs)) args env st n = (Inl (type_err st env NAVI_FIXNUM y), st))"
proof -
  have run: "f k args env st n = (map_sum id BoolO (chain_from op st env (num x) xs), st)" for k
    using assms(5) numeric_comparison_run [OF assms(1-4)]
    by (auto simp: scm_lt_def scm_gt_def scm_lte_def scm_gte_def scm_numeq_def)
  have "transp op" using assms(5) by (auto intro: transpI)
  then show ?thesis unfolding run using chain_from_sorted chain_from_error by simp
qed

theorem comparison_correct_witness:
  "scm_lt 3 (Ref 0) some_env (heap_of [pair_ob (Fixnum 1) (Ref 1), pair_ob (Fixnum 5) (Ref 2),
       pair_ob (Fixnum 5) NilO]) 9 = (Inr (BoolO False), heap_of [pair_ob (Fixnum 1) (Ref 1),
       pair_ob (Fixnum 5) (Ref 2), pair_ob (Fixnum 5) NilO])"
proof -
  let ?st = "heap_of [pair_ob (Fixnum 1) (Ref 1), pair_ob (Fixnum 5) (Ref 2), pair_ob (Fixnum 5) NilO]"
  have "wf_heap ?st" by (rule wf_heap_of) simp
  then show ?thesis
    using comparison_correct [of ?st "Ref 0" "Fixnum 1" "[Fixnum 5, Fixnum 5]" 9 scm_lt "(<)" some_env]
    by (simp add: numeral_3_eq_3)
qed

section \<open>Writing and reading numbers\<close>

text \<open>A string object that holds the bytes of a C string.\<close>

abbreviation cstr_bytes :: "string \<Rightarrow> byte option list" where
  "cstr_bytes cs \<equiv> map (\<lambda>c. Some (byte_of c)) cs @ [Some 0]"

abbreviation cstr_payload :: "string \<Rightarrow> payload" where
  "cstr_payload cs \<equiv> PString \<lparr>s_size = length cs, s_length = length cs, s_capacity = length cs,
     s_data = cstr_bytes cs\<rparr>"

lemma fresh_buffer: "((replicate (Suc l) None)[l := Some x])[l := Some x] = replicate l None @ [Some x]"
proof -
  have "replicate (Suc l) (None :: 'a option) = replicate l None @ [None]"
    by (simp add: replicate_append_same)
  then show ?thesis
    using list_update_length [of "replicate l None" None "[]" "Some x"] by (simp only: list_update_overwrite) simp
qed

lemma navi_make_string_run:
  "navi_make_string l l l st n = (Inr (Ref (hp_next st)), alloc_st NAVI_STRING (PString
     \<lparr>s_size = l, s_length = l, s_capacity = l, s_data = replicate l None @ [Some 0]\<rparr>) st)"
  unfolding navi_make_string_def fresh_buffer by (simp add: make_object_run)

lemma cstr_to_string_run:
  "navi_cstr_to_string cs st n = (Inr (Ref (hp_next st)), alloc_st NAVI_STRING (cstr_payload cs) st)"
proof -
  let ?l = "length cs" and ?xs = "replicate (length cs) None @ [Some 0]"
  let ?D = "\<lambda>bs. PString \<lparr>s_size = ?l, s_length = ?l, s_capacity = ?l, s_data = bs\<rparr>"
  let ?ob = "\<lparr>obj_type = NAVI_STRING, obj_data = ?D ?xs\<rparr>"
  let ?st = "alloc_st NAVI_STRING (?D ?xs) st"
  have at: "heap ?st (hp_next st) = Some ?ob" by (simp add: heap_alloc_st)
  have "splice 0 (map (\<lambda>i. Some (byte_of (cs ! i))) [0..<?l]) ?xs = cstr_bytes cs"
    by (rule nth_equalityI) (auto simp: splice_def nth_append)
  moreover have "foldM (\<lambda>i _. string_put (Ref (hp_next st)) i (byte_of (cs ! i))) [0..<?l] () ?st n =
     (Inr (), upd_data ?st (hp_next st) ?ob (?D (splice 0 (map (\<lambda>i. Some (byte_of (cs ! i))) [0..<?l]) ?xs)))"
    by (rule fill_loop [OF at]) (auto simp: string_put_def navi_string_def deref_def put_data_def)
  ultimately show ?thesis
    by (simp add: navi_cstr_to_string_def navi_make_string_run bind_run Let_def
        string_set_size_def navi_string_def deref_def put_data_def alloc_st_def)
qed

lemma cstr_from_bytes: "0 \<notin> set (map byte_of cs) \<Longrightarrow> cstr_from (cstr_bytes cs) st n = (Inr cs, st)"
  by (induction cs) auto

text \<open>Digits.\<close>

lemma digit_value_digit: "d < 16 \<Longrightarrow> digit_value (digit_char d) = d"
  by (auto simp: digit_value_def digit_char_def Let_def of_char_of)

lemma of_digit_char: "d < 16 \<Longrightarrow> of_char (digit_char d) = (if d < 10 then 48 + d else 87 + d :: nat)"
  by (simp add: digit_char_def of_char_of)

lemma digit_char_plain:
  assumes "d < 16"
  shows "digit_char d \<notin> {CHR ''-'', CHR ''+'', CHR ''#'', CHR ''x'', CHR ''X''}"
    and "\<not> isspace (digit_char d)" and "byte_of (digit_char d) \<noteq> 0"
proof -
  have "digit_value c \<ge> 16" if "c \<in> {CHR ''-'', CHR ''+'', CHR ''#'', CHR ''x'', CHR ''X''}" for c
    using that by (auto simp: digit_value_def)
  then show "digit_char d \<notin> {CHR ''-'', CHR ''+'', CHR ''#'', CHR ''x'', CHR ''X''}"
    using digit_value_digit [OF assms] assms by (metis not_less)
  show "\<not> isspace (digit_char d)" using of_digit_char [OF assms] by (auto simp: isspace_def)
  show "byte_of (digit_char d) \<noteq> 0"
  proof
    assume "byte_of (digit_char d) = 0"
    then have "digit_char d = char_of (0 :: nat)"
      using char_of_byte_of [of "digit_char d"] by (simp add: char_of_byte_def)
    then have "of_char (digit_char d) = (0 :: nat)" by (simp add: of_char_of)
    then show False using of_digit_char [OF assms] by (simp split: if_splits)
  qed
qed

lemma digits_set: "c \<in> set (digits b k) \<Longrightarrow> 2 \<le> b \<Longrightarrow> b \<le> 16 \<Longrightarrow> \<exists>d < b. c = digit_char d"
proof (induction b k rule: digits.induct)
  case (1 b k)
  have "\<exists>d < b. digit_char (k mod b) = digit_char d"
    using "1.prems"(2) by (intro exI [of _ "k mod b"]) simp
  with "1.prems" "1.IH" show ?case unfolding digits.simps [of b k] by (auto split: if_splits)
qed

lemma digits_not_Nil [simp]: "digits b k \<noteq> []"
  by (subst digits.simps) simp

lemma read_digits_snoc:
  assumes "b \<le> 16" and "\<forall>c \<in> set cs. digit_value c < b" and "read_digits b acc cs = (v, [])" and "d < b"
  shows "read_digits b acc (cs @ [digit_char d]) = (v * b + d, [])"
  using assms(2,3) by (induction cs arbitrary: acc) (use assms(1,4) in \<open>auto simp: digit_value_digit\<close>)

lemma read_digits_digits:
  "2 \<le> b \<Longrightarrow> b \<le> 16 \<Longrightarrow> read_digits b 0 (digits b k) = (k, [])"
proof (induction b k rule: digits.induct)
  case (1 b k)
  show ?case
  proof (cases "k < b")
    case True
    then show ?thesis using 1 by (subst digits.simps) (simp add: digit_value_digit)
  next
    case False
    have "\<forall>c \<in> set (digits b (k div b)). digit_value c < b"
      using digits_set [of _ b "k div b"] 1(2,3) by (fastforce simp: digit_value_digit)
    then show ?thesis
      using 1 False read_digits_snoc [of b "digits b (k div b)" 0 "k div b" "k mod b"]
      by (subst digits.simps) simp
  qed
qed

text \<open>Reading the digits of a number, after the sign \<open>strtol\<close> takes.\<close>

lemma strtol_digits:
  assumes "b \<in> {8, 10, 16}"
  shows "strtol (digits b k) (int b) = Some (clamp_long (int k), [])"
    and "strtol (CHR ''-'' # digits b k) (int b) = Some (clamp_long (- int k), [])"
proof -
  obtain c cs where cs: "digits b k = c # cs" by (cases "digits b k") auto
  have dig: "\<exists>d < b. x = digit_char d" if "x \<in> set (c # cs)" for x
    using digits_set [of x b k] that assms unfolding cs by auto
  then obtain d where d: "d < b" "c = digit_char d" by (metis list.set_intros(1))
  have b: "d < 16" "b \<le> 16" "2 \<le> b" using d(1) assms by auto
  note plain = digit_char_plain [OF b(1)]
  have "y \<noteq> CHR ''x'' \<and> y \<noteq> CHR ''X''" if "y \<in> set (c # cs)" for y
    using dig [OF that] digit_char_plain(1) b(2) by fastforce
  then have hex: "\<not> hex_prefix (c # cs)" by (auto simp: hex_prefix_def split: list.splits)
  have read: "read_digits b 0 (c # cs) = (k, [])" using read_digits_digits [OF b(3,2), of k] unfolding cs .
  have dv: "digit_value c < b" using d digit_value_digit [OF b(1)] by simp
  show "strtol (digits b k) (int b) = Some (clamp_long (int k), [])"
    using plain read dv hex assms d(2) unfolding cs strtol_def
    by (auto simp: Let_def simp del: read_digits.simps)
  have "\<not> isspace (CHR ''-'')" by (simp add: isspace_def)
  then show "strtol (CHR ''-'' # digits b k) (int b) = Some (clamp_long (- int k), [])"
    using plain read dv hex assms d(2) unfolding cs strtol_def
    by (auto simp: Let_def simp del: read_digits.simps)
qed

text \<open>The string \<open>number->string\<close> makes of a number.\<close>

definition fmt_radix :: "int \<Rightarrow> int \<Rightarrow> string" where
  "fmt_radix r i = (if r = 8 then fmt_lo i else if r = 10 then fmt_ld i else fmt_lx i)"

lemma digits_plain:
  assumes "2 \<le> b" and "b \<le> 16" and "c \<in> set (digits b k)"
  shows "c \<noteq> CHR ''#''" and "byte_of c \<noteq> 0"
  using digits_set [OF assms(3,1,2)] digit_char_plain assms(2) by fastforce+

lemma byte_of_minus: "byte_of (CHR ''-'') \<noteq> 0"
  by (simp add: byte_of_def)

lemma explicit_radix_plain: "c \<noteq> CHR ''#'' \<Longrightarrow> explicit_radix (c # cs) = 0"
  by (cases cs) (simp_all add: explicit_radix_def)

lemma fmt_radix_plain:
  assumes "r \<in> {8, 10, 16}"
  shows "explicit_radix (fmt_radix r i) = 0" and "0 \<notin> set (map byte_of (fmt_radix r i))"
proof -
  have no: "explicit_radix (digits b k) = 0" if "b \<in> {8, 10, 16}" for b k
  proof -
    obtain c cs where "digits b k = c # cs" by (cases "digits b k") auto
    then show ?thesis using digits_plain(1) [of b c k] that by (auto intro: explicit_radix_plain)
  qed
  then show "explicit_radix (fmt_radix r i) = 0"
    using assms explicit_radix_plain [of "CHR ''-''"]
    by (auto simp: fmt_radix_def fmt_lo_def fmt_ld_def fmt_lx_def)
  show "0 \<notin> set (map byte_of (fmt_radix r i))"
    using assms byte_of_minus digits_plain(2) [of 8] digits_plain(2) [of 10] digits_plain(2) [of 16]
    by (auto simp: fmt_radix_def fmt_lo_def fmt_ld_def fmt_lx_def)
qed

lemma strtol_fmt:
  assumes "r \<in> {8, 10, 16}" and "- (2 ^ 62) \<le> i" and "i < 2 ^ 62"
  shows "\<exists>j. strtol (fmt_radix r i) r = Some (j, []) \<and>
    navi_make_fixnum j = navi_make_fixnum (if r = 10 \<or> 0 \<le> i then i else - 1)"
proof (cases "0 \<le> i \<or> r = 10")
  case True
  then have "clamp_long i = i" using assms(2,3) by (simp add: clamp_long_def)
  moreover have "0 \<le> i \<Longrightarrow> i mod 2 ^ 64 = i" using assms(3) by simp
  ultimately show ?thesis
    using True assms(1) strtol_digits(1) [of 8 "nat i"] strtol_digits(1) [of 10 "nat i"]
      strtol_digits(1) [of 16 "nat i"] strtol_digits(2) [of 10 "nat (- i)"]
    by (auto simp: fmt_radix_def fmt_lo_def fmt_ld_def fmt_lx_def)
next
  case False
  then have "i mod 2 ^ 64 = i + 2 ^ 64"
    using assms(2) mod_pos_pos_trivial [of "i + 2 ^ 64" "2 ^ 64"] by simp
  then have "clamp_long (i mod 2 ^ 64) = 2 ^ 63 - 1" using False assms(2) by (simp add: clamp_long_def)
  moreover have "navi_make_fixnum (2 ^ 63 - 1) = navi_make_fixnum (- 1)"
    by (simp add: navi_make_fixnum_def word63_of_int_eq)
  ultimately show ?thesis
    using False assms(1) strtol_digits(1) [of 8 "nat (i mod 2 ^ 64)"] strtol_digits(1) [of 16 "nat (i mod 2 ^ 64)"]
    by (auto simp: fmt_radix_def fmt_lo_def fmt_lx_def)
qed

lemma string_to_number_run:
  assumes "heap st a = Some \<lparr>obj_type = NAVI_STRING, obj_data = cstr_payload cs\<rparr>"
    and "list_at st args [Ref a, Fixnum r] NilO" and "sint r \<in> {8, 10, 16}"
    and "explicit_radix cs = 0" and "0 \<notin> set (map byte_of cs)" and "strtol cs (sint r) = Some (j, [])"
  shows "scm_string_to_number k args env st n = (Inr (navi_make_fixnum j), st)"
proof -
  from assms(2) obtain b c where b: "args = Ref b" "pair_at st b (Ref a) (Ref c)" "pair_at st c (Fixnum r) NilO" by auto
  have "sint (word_of_int i :: 32 word) = i" if "i \<in> {8, 10, 16}" for i using that by auto
  from this [OF assms(3)] have "sint (word_of_int (sint r) :: 32 word) = sint r" .
  then show ?thesis
    using b assms(1,4,6) args1 [OF assms(2)] args2 [OF assms(2)] cstr_from_bytes [OF assms(5)]
    by (simp add: scm_string_to_number_def bind_run navi_is_nil_def Let_def)
qed

text \<open>
  C14: \<open>number->string\<close> makes a fresh string of the number in radix 8, 10 or 16 and
  \<open>string->number\<close> reads the same number back from it, in any later state that keeps the string;
  but in radix 8 and 16 a negative number is written as an unsigned word and reads back as -1.
\<close>

theorem number_string_roundtrip:
  assumes "wf_heap st" and "list_at st args [Fixnum w, Fixnum r] NilO" and "sint r \<in> {8, 10, 16}"
  shows "\<exists>a st'. scm_number_to_string 2 args env st n = (Inr (Ref a), st') \<and> hkeep st st' \<and>
    (\<forall>st2 args2 m. hkeep st' st2 \<longrightarrow> list_at st2 args2 [Ref a, Fixnum r] NilO \<longrightarrow>
      scm_string_to_number 2 args2 env st2 m =
        (Inr (if sint r = 10 \<or> 0 \<le> sint w then Fixnum w else Fixnum (- 1)), st2))"
proof -
  let ?cs = "fmt_radix (sint r) (sint w)"
  let ?st = "alloc_st NAVI_STRING (cstr_payload ?cs) st"
  from assms(2) obtain b c where b: "args = Ref b" "pair_at st b (Fixnum w) (Ref c)" by auto
  obtain d where c: "pair_at st c (Fixnum r) d" using assms(2) b by auto
  have run: "scm_number_to_string 2 args env st n = (Inr (Ref (hp_next st)), ?st)"
    using b c args1 [OF assms(2)] args2 [OF assms(2)] assms(3)
    by (auto simp: scm_number_to_string_def bind_run cstr_to_string_run fmt_radix_def)
  obtain j where j: "strtol ?cs (sint r) = Some (j, [])"
    "navi_make_fixnum j = navi_make_fixnum (if sint r = 10 \<or> 0 \<le> sint w then sint w else - 1)"
    using strtol_fmt [OF assms(3) sint_fixnum_bounds [of w]] by blast
  have reread: "scm_string_to_number 2 args2 env st2 m = (Inr (navi_make_fixnum j), st2)"
    if "hkeep ?st st2" "list_at st2 args2 [Ref (hp_next st), Fixnum r] NilO" for st2 args2 m
    by (rule string_to_number_run [OF _ that(2) assms(3) fmt_radix_plain [OF assms(3)] j(1)])
      (rule hkeepD [OF that(1)], simp add: heap_alloc_st)
  have "hkeep st ?st" by (rule hkeep_alloc [OF assms(1)])
  then show ?thesis using run reread j(2)
    by (intro exI [of _ "hp_next st"] exI [of _ ?st]) (simp add: fixnum_of_sint navi_make_fixnum_def)
qed

theorem number_string_roundtrip_witness:
  "\<exists>a st'. scm_number_to_string 2 (Ref 0) some_env (heap_of [pair_ob (Fixnum (- 41)) (Ref 1), pair_ob (Fixnum 10) NilO]) 5
      = (Inr (Ref a), st') \<and>
    (\<forall>st2 args2 m. hkeep st' st2 \<longrightarrow> list_at st2 args2 [Ref a, Fixnum 10] NilO \<longrightarrow>
      scm_string_to_number 2 args2 some_env st2 m = (Inr (Fixnum (- 41)), st2))"
proof -
  let ?st = "heap_of [pair_ob (Fixnum (- 41)) (Ref 1), pair_ob (Fixnum 10) NilO]"
  have "wf_heap ?st" by (rule wf_heap_of) simp
  moreover have "list_at ?st (Ref 0) [Fixnum (- 41), Fixnum 10] NilO" by simp
  ultimately show ?thesis
    using number_string_roundtrip [of ?st "Ref 0" "- 41" 10 some_env 5] by simp blast
qed

end
