(* ===== verification/Spec_Check.thy ===== *)
theory Spec_Check
  imports Spec_List Spec_Arith
begin

text \<open>
  The check of a call's arguments (\<open>eval.c\<close>: \<open>check_apply\<close>) against the types that the procedures
  written in C declare (\<open>DEFUN\<close>, \<open>DEFSPECIAL\<close>): the first argument that does not fit is reported,
  and a procedure is only called on arguments of its types.
\<close>

section \<open>One argument\<close>

text \<open>What is wrong with an argument, if anything.\<close>

definition arg_error :: "state \<Rightarrow> navi_env \<Rightarrow> ptype \<Rightarrow> navi_obj \<Rightarrow> stop option" where
  "arg_error st env t x = (case t of
       TAny \<Rightarrow> None
     | TType u \<Rightarrow> if type_in st x = u then None else Some (type_err st env u x)
     | TList \<Rightarrow> if type_in st x = NAVI_PAIR \<or> type_in st x = NAVI_NIL then None
         else Some (Error InternalError ''type error'' [(''expected'', ISym ''list''),
           (''actual'', ISym (navi_strtype (type_in st x)))] env)
     | TProperList \<Rightarrow> if \<exists>ys. list_at st x ys NilO then None
         else Some (Error InternalError ''type error: not a proper list'' [] env)
     | TByte \<Rightarrow> if type_in st x \<noteq> NAVI_FIXNUM then Some (type_err st env NAVI_FIXNUM x)
         else if 0 \<le> num x \<and> num x < 256 then None
         else Some (Error InternalError ''argument not in allowed range'' [(''min'', IObj (navi_make_fixnum 0)),
           (''max'', IObj (navi_make_fixnum 256)), (''actual'', IObj x)] env))"

text \<open>The result of a check.\<close>

abbreviation verdict :: "'a \<Rightarrow> stop option \<Rightarrow> stop + 'a" where
  "verdict a e \<equiv> (case e of None \<Rightarrow> Inr a | Some x \<Rightarrow> Inl x)"

lemma proper_iff:
  assumes "wf_heap st" and "list_at st x ys t"
  shows "(\<exists>ys. list_at st x ys NilO) \<longleftrightarrow> type_in st t = NAVI_NIL"
  using nil_tail_iff [OF assms] assms(2) list_at_unique [OF assms(2)] by blast

lemma check_arg_run:
  assumes "wf_heap st" and "valid_obj st x" and "type = TProperList \<longrightarrow> (\<exists>ys t. list_at st x ys t \<and> length ys < n)"
  shows "check_arg type x env st n = (verdict () (arg_error st env type x), st)"
proof (cases type)
  case TByte
  show ?thesis
  proof (cases "type_in st x = NAVI_FIXNUM")
    case True
    then obtain w where "x = Fixnum w" using type_in_fixnum [OF assms(1,2)] by blast
    then show ?thesis
      by (auto simp: TByte check_arg_def arg_error_def navi_type_check_byte_def navi_type_check_range_def navi_error_def bind_run)
  next
    case False
    then show ?thesis using assms(2)
      by (simp add: TByte check_arg_def arg_error_def navi_type_check_byte_def navi_type_check_range_def navi_type_check_valid bind_run)
  qed
next
  case TProperList
  then obtain ys t where ys: "list_at st x ys t" "length ys < n" using assms(3) by blast
  show ?thesis
    using proper_list_run [OF ys] proper_iff [OF assms(1) ys(1)] TProperList
    by (simp add: check_arg_def arg_error_def navi_type_check_proper_list_def navi_error_def bind_run)
qed (use assms(2) in \<open>auto simp: check_arg_def arg_error_def navi_type_check_list_def navi_is_list_def navi_type_valid
    navi_type_check_valid navi_type_error_def navi_error_def bind_run\<close>)

section \<open>All arguments\<close>

primrec args_error :: "state \<Rightarrow> navi_env \<Rightarrow> ptype list \<Rightarrow> navi_obj list \<Rightarrow> stop option" where
  "args_error st env [] xs = None"
| "args_error st env (t # ts) xs = (case xs of
       [] \<Rightarrow> None
     | x # xs' \<Rightarrow> (case arg_error st env t x of None \<Rightarrow> args_error st env ts xs' | Some e \<Rightarrow> Some e))"

text \<open>
  Arguments on which every check ends: where a proper list is asked for, the chain of pairs ends
  within the budget.
\<close>

definition checkable :: "state \<Rightarrow> nat \<Rightarrow> ptype list \<Rightarrow> navi_obj list \<Rightarrow> bool" where
  "checkable st n ts xs \<longleftrightarrow> (\<forall>(t, x) \<in> set (zip ts xs). t = TProperList \<longrightarrow> (\<exists>ys u. list_at st x ys u \<and> length ys < n))"

lemma checkable_Cons:
  "checkable st n (t # ts) (x # xs) \<longleftrightarrow>
     (t = TProperList \<longrightarrow> (\<exists>ys u. list_at st x ys u \<and> length ys < n)) \<and> checkable st n ts xs"
  by (auto simp: checkable_def)

lemma checkable_other: "TProperList \<notin> set ts \<Longrightarrow> checkable st n ts xs"
  by (auto simp: checkable_def dest: set_zip_leftD)

lemma args_error_None:
  "args_error st env ts xs = None \<longleftrightarrow> (\<forall>i. i < length ts \<longrightarrow> i < length xs \<longrightarrow> arg_error st env (ts ! i) (xs ! i) = None)"
  (is "_ \<longleftrightarrow> ?all ts xs")
proof (induction ts arbitrary: xs)
  case (Cons t ts)
  show ?case
  proof (cases xs)
    case (Cons y ys)
    have "?all (t # ts) (y # ys) \<longleftrightarrow> arg_error st env t y = None \<and> ?all ts ys"
      by (auto simp: nth_Cons split: nat.split)
    then show ?thesis using Cons.IH [of ys] Cons by (auto split: option.split)
  qed simp
qed simp

abbreviation types_round :: "ptype list \<Rightarrow> nat \<Rightarrow> navi_env \<Rightarrow> navi_obj \<Rightarrow> nat \<Rightarrow> (unit, nat) ctl nm" where
  "types_round types arity env cons i \<equiv>
     if i \<ge> arity then ret (Return ())
     else bind (if i < length types then ret (types ! i) else stop Undef) (\<lambda>type.
          bind (navi_car cons) (\<lambda>x.
          bind (check_arg type x env) (\<lambda>_. ret (Continue (Suc i)))))"

lemma types_loop_run:
  assumes "wf_heap st" and "arity \<le> length types"
  shows "list_at st p xs NilO \<Longrightarrow> length xs < k \<Longrightarrow>
    checkable st n (drop j (take arity types)) xs \<Longrightarrow>
    \<exists>q w. for_each_loop k (types_round types arity env) p j st n =
      (verdict (q, w) (args_error st env (drop j (take arity types)) xs), st) \<and> (\<forall>u. w = Return u \<longrightarrow> u = ())"
proof (induction xs arbitrary: p k j)
  case Nil
  then obtain k' where "k = Suc k'" by (cases k) auto
  moreover have "args_error st env ts [] = None" for ts by (cases ts) simp_all
  ultimately show ?case using Nil by (auto simp: bind_run)
next
  case (Cons x xs)
  then obtain k' where k: "k = Suc k'" by (cases k) auto
  from Cons.prems(1) obtain a d where a: "p = Ref a" "pair_at st a x d" "list_at st d xs NilO" by auto
  show ?case
  proof (cases "arity \<le> j")
    case True
    then show ?thesis using a by (simp add: k bind_run)
  next
    case False
    then have ts: "drop j (take arity types) = types ! j # drop (Suc j) (take arity types)"
      using assms(2) Cons_nth_drop_Suc [of j "take arity types"] by simp
    have fin: "types ! j = TProperList \<longrightarrow> (\<exists>ys u. list_at st x ys u \<and> length ys < n)"
      "checkable st n (drop (Suc j) (take arity types)) xs" using Cons.prems(3) unfolding ts checkable_Cons by simp_all
    have v: "valid_obj st x" by (rule list_at_elems_valid [OF assms(1) Cons.prems(1)]) simp
    note chk = check_arg_run [OF assms(1) v fin(1), of env]
    show ?thesis
    proof (cases "arg_error st env (types ! j) x")
      case None
      then have b: "types_round types arity env (Ref a) j st n = (Inr (Continue (Suc j)), st)"
        using chk a False assms(2) by (simp add: bind_run)
      have "\<exists>q w. for_each_loop k' (types_round types arity env) d (Suc j) st n =
          (verdict (q, w) (args_error st env (drop (Suc j) (take arity types)) xs), st) \<and> (\<forall>u. w = Return u \<longrightarrow> u = ())"
        using Cons.prems(2) k fin(2) by (intro Cons.IH [OF a(3)]) simp_all
      then show ?thesis using a b None by (simp add: k ts bind_run del: drop_take)
    next
      case (Some e)
      then have "types_round types arity env (Ref a) j st n = (Inl e, st)" using chk a False assms(2) by (simp add: bind_run)
      then show ?thesis using a Some by (simp add: k ts bind_run del: drop_take)
    qed
  qed
qed

lemma check_types_run:
  assumes "wf_heap st" and "arity \<le> length types" and "list_at st args xs NilO" and "length xs < n" and "checkable st n (take arity types) xs"
  shows "check_types types arity args env st n = (verdict () (args_error st env (take arity types) xs), st)"
proof -
  obtain q w where w: "for_each_loop n (types_round types arity env) args 0 st n =
      (verdict (q, w) (args_error st env (take arity types) xs), st)"
    using types_loop_run [OF assms(1-4), where j = 0 and env = env and n = n] assms(5) by (auto simp del: One_nat_def)
  then show ?thesis unfolding check_types_def after_loop_def navi_list_for_each_def
    by (cases "args_error st env (take arity types) xs"; cases w) (simp_all add: bind_run)
qed

section \<open>The procedures written in C\<close>

text \<open>A procedure object as \<open>navi_from_spec\<close> makes it, and what its declaration says.\<close>

definition builtin_proc :: "navi_procedure \<Rightarrow> proc_spec \<Rightarrow> bool" where
  "builtin_proc p sp \<longleftrightarrow> p_variadic p = sp_variadic sp \<and> p_arity p = sp_arity sp \<and>
     p_code p = CProc (sp_proc sp) \<and> p_types p = Some (sp_types sp)"

lemma spec_types: "length (sp_types (spec_of b)) = sp_arity (spec_of b)"
proof (cases b)
  case (ListB x) then show ?thesis by (cases x) (simp_all add: builtin_spec_def)
next
  case (ArithB x) then show ?thesis by (cases x) (simp_all add: builtin_spec_def)
next
  case (VectorB x) then show ?thesis by (cases x) (simp_all add: builtin_spec_def)
next
  case (BytevecB x) then show ?thesis by (cases x) (simp_all add: builtin_spec_def)
next
  case (CharB x) then show ?thesis by (cases x) (simp_all add: builtin_spec_def)
next
  case (StringB x) then show ?thesis by (cases x) (simp_all add: builtin_spec_def)
next
  case (SpecialB x) then show ?thesis by (cases x) (simp_all add: builtin_spec_def)
next
  case (ControlB x) then show ?thesis by (cases x) (simp_all add: builtin_spec_def)
next
  case (PortB x) then show ?thesis by (cases x) (simp_all add: builtin_spec_def)
next
  case (SystemB x) then show ?thesis by (cases x) (simp_all add: builtin_spec_def)
qed

lemma check_apply_run:
  assumes "wf_heap st" and "builtin_proc p sp" and "sp_arity sp \<le> length (sp_types sp)"
    and "list_at st args xs NilO" and "length xs < n" and "checkable st n (take (sp_arity sp) (sp_types sp)) xs"
  shows "check_apply p args env st n = (if navi_arity_satisfied p (length xs) then
      verdict (length xs) (args_error st env (take (sp_arity sp) (sp_types sp)) xs)
    else Inl (Error InternalError ''wrong number of arguments'' [(''target'', IObj (p_name p))] env), st)"
  using check_types_run [OF assms(1,3-6), of env] list_length_run [OF assms(4,5)] assms(2)
  by (simp add: check_apply_def builtin_proc_def navi_arity_error_def navi_error_def bind_run split: option.split)


text \<open>
  C18: A procedure written in C is called only with a number of arguments it takes and with arguments
  of the types it declares.  A wrong number is an arity error; else the first argument that does
  not fit is reported with the type that was expected; else the procedure is called, and every
  declared argument is there and fits.
\<close>

theorem builtin_call_checked:
  assumes "wf_heap st" and "builtin_proc p (spec_of b)" and "list_at st args xs NilO" and "length xs < n"
    and "checkable st n (sp_types (spec_of b)) xs"
  shows "navi_apply_body ev bi p args env st n =
      (if \<not> navi_arity_satisfied p (length xs)
       then (Inl (Error InternalError ''wrong number of arguments'' [(''target'', IObj (p_name p))] env), st)
       else case args_error st env (sp_types (spec_of b)) xs of
           Some e \<Rightarrow> (Inl e, st)
         | None \<Rightarrow> do_apply ev bi p (length xs) args env st n) \<and>
    (navi_arity_satisfied p (length xs) \<and> args_error st env (sp_types (spec_of b)) xs = None \<longrightarrow>
      length (sp_types (spec_of b)) \<le> length xs \<and>
      (\<forall>i < length (sp_types (spec_of b)). arg_error st env (sp_types (spec_of b) ! i) (xs ! i) = None))"
proof -
  let ?ts = "sp_types (spec_of b)"
  have ts: "take (sp_arity (spec_of b)) ?ts = ?ts" by (simp add: spec_types [symmetric])
  note run = check_apply_run [OF assms(1,2) _ assms(3,4), of env, unfolded ts, OF _ assms(5)]
  have le: "length ?ts \<le> length xs" if "navi_arity_satisfied p (length xs)"
    using that assms(2) by (auto simp: navi_arity_satisfied_def builtin_proc_def spec_types)
  show ?thesis
    using run le args_error_None [of st env ?ts xs]
    by (auto simp: navi_apply_body_def spec_types bind_run split: option.split)
qed

text \<open>A builtin that a scope of its own holds, as an object.\<close>

definition builtin_of :: "proc_spec \<Rightarrow> navi_obj \<Rightarrow> navi_procedure" where
  "builtin_of sp name = \<lparr>p_builtin = True, p_variadic = sp_variadic sp, p_arity = sp_arity sp, p_name = name, p_env = 0,
     p_args = NilO, p_code = CProc (sp_proc sp), p_types = Some (sp_types sp)\<rparr>"

lemma builtin_proc_of: "builtin_proc (builtin_of sp x) sp"
  by (simp add: builtin_proc_def builtin_of_def)

theorem builtin_call_checked_witness:
  "navi_apply_body (\<lambda>_ _. stop Undef) (\<lambda>_ _ _ _. stop Undef) (builtin_of (spec_of (ListB B_list_ref)) NilO) (Ref 0) some_env
      (heap_of [pair_ob (Ref 2) (Ref 1), pair_ob (CharO 120) NilO, pair_ob EofO NilO]) 9 =
    (Inl (Error InternalError ''type error'' [(''expected'', ISym ''number''), (''actual'', ISym ''character'')] some_env),
     heap_of [pair_ob (Ref 2) (Ref 1), pair_ob (CharO 120) NilO, pair_ob EofO NilO])"
proof -
  let ?st = "heap_of [pair_ob (Ref 2) (Ref 1), pair_ob (CharO 120) NilO, pair_ob EofO NilO]"
  have wf: "wf_heap ?st" by (rule wf_heap_of) simp
  have at: "list_at ?st (Ref 0) [Ref 2, CharO 120] NilO" by simp
  have chk: "checkable ?st 9 (sp_types (spec_of (ListB B_list_ref))) [Ref 2, CharO 120]"
    by (rule checkable_other) (simp add: builtin_spec_def)
  from builtin_call_checked [OF wf builtin_proc_of at _ chk, of "\<lambda>_ _. stop Undef" "\<lambda>_ _ _ _. stop Undef" NilO some_env]
  show ?thesis
    by (simp add: builtin_of_def builtin_spec_def navi_arity_satisfied_def arg_error_def navi_strtype_def numeral_2_eq_2)
qed

end
