(* ===== verification/Spec_Core.thy ===== *)
theory Spec_Core
  imports Spec_Frames Spec_Check
begin

text \<open>
  A big-step semantics of the functional core of the language, and what it means that an object of
  the heap is an expression or a value of it: constants, variables, \<open>quote\<close>, \<open>if\<close>, \<open>lambda\<close>,
  arithmetic and calls of closures.  Code is data: an expression is a chain of pairs, and what a
  form means is decided by the value of its operator, as in the code.
\<close>

section \<open>The language\<close>

text \<open>
  Expressions as the heap holds them: immediates, symbols (given by the symbol object) and forms,
  proper lists with at least one element.
\<close>

datatype exp = Lit navi_obj | Sym navi_obj | Form exp "exp list"

text \<open>
  Values: data, special forms, arithmetic procedures and closures, with the parameters, the body
  and what the environment binds.
\<close>

datatype val =
    Dat exp
  | Special special_builtin
  | Prim arith_builtin
  | Clo "navi_obj list" "exp list" "navi_obj \<Rightarrow> val option"

type_synonym venv = "navi_obj \<Rightarrow> val option"

definition immediate :: "navi_obj \<Rightarrow> bool" where
  "immediate x \<longleftrightarrow> (case x of Ref _ \<Rightarrow> False | VoidO \<Rightarrow> False | _ \<Rightarrow> True)"

primrec sym_of :: "exp \<Rightarrow> navi_obj option" where
  "sym_of (Lit x) = None"
| "sym_of (Sym s) = Some s"
| "sym_of (Form f xs) = None"

text \<open>The parameters of a lambda expression that takes a fixed number of arguments.\<close>

primrec formals :: "exp \<Rightarrow> navi_obj list option" where
  "formals (Lit x) = (if x = NilO then Some [] else None)"
| "formals (Sym s) = None"
| "formals (Form f xs) = those (map sym_of (f # xs))"

definition False_val :: val where "False_val = Dat (Lit (BoolO False))"

fun word_of :: "val \<Rightarrow> 63 word option" where
  "word_of (Dat (Lit (Fixnum w))) = Some w"
| "word_of _ = None"

abbreviation Num :: "63 word \<Rightarrow> val" where "Num w \<equiv> Dat (Lit (Fixnum w))"
abbreviation Truth :: "bool \<Rightarrow> val" where "Truth b \<equiv> Dat (Lit (BoolO b))"

abbreviation chain_val :: "(int \<Rightarrow> int \<Rightarrow> bool) \<Rightarrow> 63 word list \<Rightarrow> val option" where
  "chain_val r ws \<equiv> if ws = [] then None else Some (Truth (sorted_wrt r (map sint ws)))"

abbreviation test_val :: "(int \<Rightarrow> bool) \<Rightarrow> 63 word list \<Rightarrow> val option" where
  "test_val t ws \<equiv> if length ws = 1 then Some (Truth (t (sint (hd ws)))) else None"

definition prim_val :: "arith_builtin \<Rightarrow> 63 word list \<Rightarrow> val option" where
  "prim_val p ws = (case p of
       B_add \<Rightarrow> Some (Num (sum_list ws))
     | B_mul \<Rightarrow> Some (Num (prod_list ws))
     | B_sub \<Rightarrow> (case ws of [] \<Rightarrow> None | w # us \<Rightarrow> Some (Num (if us = [] then - w else w - sum_list us)))
     | B_lt \<Rightarrow> chain_val (<) ws
     | B_gt \<Rightarrow> chain_val (>) ws
     | B_lte \<Rightarrow> chain_val (\<le>) ws
     | B_gte \<Rightarrow> chain_val (\<ge>) ws
     | B_numeq \<Rightarrow> chain_val (=) ws
     | B_zerop \<Rightarrow> test_val (\<lambda>i. i = 0) ws
     | B_positivep \<Rightarrow> test_val (\<lambda>i. i > 0) ws
     | B_negativep \<Rightarrow> test_val (\<lambda>i. i < 0) ws
     | _ \<Rightarrow> None)"

text \<open>
  The semantics.  Operands of \<open>and\<close> and \<open>or\<close> (\<open>alts\<close>) are evaluated until the truth of a value
  decides; as in the code the result is then a boolean, not the value.  The last argument counts
  steps; it bounds the depth of the calls of the
  evaluator, the lengths of the lists it walks and the references it takes.
\<close>

inductive big :: "venv \<Rightarrow> exp \<Rightarrow> val \<Rightarrow> nat \<Rightarrow> bool"
  and bigs :: "venv \<Rightarrow> exp list \<Rightarrow> val list \<Rightarrow> nat \<Rightarrow> bool"
  and seqs :: "venv \<Rightarrow> exp list \<Rightarrow> val \<Rightarrow> nat \<Rightarrow> bool"
  and alts :: "bool \<Rightarrow> venv \<Rightarrow> exp list \<Rightarrow> val \<Rightarrow> nat \<Rightarrow> bool" where
  big_lit: "immediate x \<Longrightarrow> big \<rho> (Lit x) (Dat (Lit x)) 1"
| big_var: "\<rho> s = Some v \<Longrightarrow> big \<rho> (Sym s) v 1"
| big_quote: "big \<rho> f (Special B_quote) c \<Longrightarrow> big \<rho> (Form f [x]) (Dat x) (c + 5)"
| big_if_true: "big \<rho> f (Special B_if) c \<Longrightarrow> big \<rho> x u d \<Longrightarrow> u \<noteq> False_val \<Longrightarrow> big \<rho> y v k \<Longrightarrow> length zs \<le> 1 \<Longrightarrow>
    big \<rho> (Form f (x # y # zs)) v (c + d + k + 7)"
| big_if_false: "big \<rho> f (Special B_if) c \<Longrightarrow> big \<rho> x False_val d \<Longrightarrow> big \<rho> z v k \<Longrightarrow>
    big \<rho> (Form f [x, y, z]) v (c + d + k + 7)"
| big_begin: "big \<rho> f (Special B_begin) c \<Longrightarrow> seqs \<rho> xs v k \<Longrightarrow> big \<rho> (Form f xs) v (c + k + 5)"
| big_and: "big \<rho> f (Special B_and) c \<Longrightarrow> alts False \<rho> xs v k \<Longrightarrow> big \<rho> (Form f xs) v (c + k + length xs + 5)"
| big_or: "big \<rho> f (Special B_or) c \<Longrightarrow> alts True \<rho> xs v k \<Longrightarrow> big \<rho> (Form f xs) v (c + k + length xs + 5)"
| big_lambda: "big \<rho> f (Special B_lambda) c \<Longrightarrow> formals x = Some ps \<Longrightarrow> ys \<noteq> [] \<Longrightarrow>
    big \<rho> (Form f (x # ys)) (Clo ps ys \<rho>) (c + length ps + length ys + 6)"
| big_prim: "big \<rho> f (Prim p) c \<Longrightarrow> bigs \<rho> xs vs d \<Longrightarrow> map word_of vs = map Some ws \<Longrightarrow> prim_val p ws = Some v \<Longrightarrow>
    big \<rho> (Form f xs) v (c + d + 5)"
| big_call: "big \<rho> f (Clo ps ys \<rho>') c \<Longrightarrow> bigs \<rho> xs vs d \<Longrightarrow> length ps = length vs \<Longrightarrow>
    seqs (\<rho>' ++ map_of (rev (zip ps vs))) ys v k \<Longrightarrow> big \<rho> (Form f xs) v (c + d + k + 6)"
| bigs_nil: "bigs \<rho> [] [] 0"
| bigs_cons: "big \<rho> x v c \<Longrightarrow> bigs \<rho> xs vs d \<Longrightarrow> bigs \<rho> (x # xs) (v # vs) (c + d + 1)"
| seqs_last: "big \<rho> x v c \<Longrightarrow> seqs \<rho> [x] v (c + 1)"
| seqs_next: "big \<rho> x u c \<Longrightarrow> seqs \<rho> (y # ys) v d \<Longrightarrow> seqs \<rho> (x # y # ys) v (c + d + 1)"
| alts_nil: "alts b \<rho> [] (Truth (\<not> b)) 0"
| alts_last: "big \<rho> x v c \<Longrightarrow> alts b \<rho> [x] v (c + 1)"
| alts_stop: "big \<rho> x u c \<Longrightarrow> (u \<noteq> False_val) = b \<Longrightarrow> alts b \<rho> (x # y # ys) (Truth b) (c + 1)"
| alts_next: "big \<rho> x u c \<Longrightarrow> (u \<noteq> False_val) \<noteq> b \<Longrightarrow> alts b \<rho> (y # ys) v d \<Longrightarrow> alts b \<rho> (x # y # ys) v (c + d + 1)"

inductive_cases seqs_NilE: "seqs \<rho> [] v k"
inductive_cases seqs_OneE: "seqs \<rho> [x] v k"
inductive_cases seqs_MoreE: "seqs \<rho> (x # y # ys) v k"
inductive_cases alts_NilE: "alts b \<rho> [] v k"
inductive_cases alts_OneE: "alts b \<rho> [x] v k"
inductive_cases alts_MoreE: "alts b \<rho> (x # y # ys) v k"
inductive_cases bigs_NilE: "bigs \<rho> [] vs d"
inductive_cases bigs_ConsE: "bigs \<rho> (x # xs) vs d"

lemma bigs_length: "bigs \<rho> xs vs d \<Longrightarrow> length vs = length xs \<and> length xs \<le> d"
proof (induction xs arbitrary: vs d)
  case Nil
  then show ?case by (auto elim: bigs_NilE)
next
  case (Cons x xs)
  then show ?case by (fastforce elim!: bigs_ConsE)
qed

lemma seqs_length: "seqs \<rho> xs v d \<Longrightarrow> xs \<noteq> [] \<and> length xs \<le> d"
proof (induction xs arbitrary: v d)
  case Nil
  then show ?case by (auto elim: seqs_NilE)
next
  case (Cons x xs)
  then show ?case by (cases xs) (fastforce elim!: seqs_OneE seqs_MoreE)+
qed

section \<open>Code and values on the heap\<close>

text \<open>
  A state without the objects at the addresses of \<open>A\<close>: while the arguments of a call are
  evaluated, the list of their values is under construction, and no value refers to it.
\<close>

definition hide :: "addr set \<Rightarrow> state \<Rightarrow> state" where
  "hide A st = st\<lparr>heap := heap st |` (- A)\<rparr>"

lemma hide_simps [simp]:
  "hide {} st = st" "scopes (hide A st) = scopes st" "sc_next (hide A st) = sc_next st"
  "heap (hide A st) a = (if a \<in> A then None else heap st a)"
  "a \<in> A \<Longrightarrow> hide A (st\<lparr>heap := (heap st)(a := ob)\<rparr>) = hide A st"
  by (auto simp: hide_def restrict_map_def fun_eq_iff)

lemma scopes_ok_hide [simp]: "scopes_ok (hide A st) = scopes_ok st"
  by (simp add: scopes_ok_def)

lemma visible_hide [simp]: "visible (hide A st) s = visible st s"
  by (induction s rule: less_induct) (simp add: visible.simps split: option.split)

text \<open>Every object and every binding of \<open>st\<close> is in \<open>st'\<close>.\<close>

definition extends :: "state \<Rightarrow> state \<Rightarrow> bool" where
  "extends st st' \<longleftrightarrow> hkeep st st' \<and>
     (\<forall>s sc. scopes st s = Some sc \<longrightarrow>
        (\<exists>sc'. scopes st' s = Some sc' \<and> bindings sc' = bindings sc \<and> next_scope sc' = next_scope sc))"

lemma kept_extends:
  assumes "wf_heap st" and "kept st st'" and "\<And>a. a \<in> B \<Longrightarrow> a < hp_next st \<Longrightarrow> a \<in> A"
  shows "extends (hide A st) (hide B st')"
proof -
  have "hkeep (hide A st) (hide B st')"
    using assms(3) wf_heapD(1) [OF assms(1)] kept_heap [OF assms(1,2)] unfolding hkeep_def by (fastforce split: if_splits)
  then show ?thesis using assms(2) by (simp add: extends_def kept_def)
qed

lemma kept_extends_same: "wf_heap st \<Longrightarrow> kept st st' \<Longrightarrow> extends (hide A st) (hide A st')"
  by (rule kept_extends)

lemma extends_unhide: "extends (hide A st) st"
  by (auto simp: extends_def hkeep_def split: if_splits)

lemma extendsD:
  assumes "extends st st'"
  shows "hkeep st st'"
    and "heap st a = Some ob \<Longrightarrow> heap st' a = Some ob"
    and "scopes st s = Some sc \<Longrightarrow> \<exists>sc'. scopes st' s = Some sc' \<and> bindings sc' = bindings sc \<and> next_scope sc' = next_scope sc"
    and "scopes st s \<noteq> None \<Longrightarrow> scopes st' s \<noteq> None"
proof -
  show "hkeep st st'" using assms by (simp add: extends_def)
  then show "heap st a = Some ob \<Longrightarrow> heap st' a = Some ob" by (rule hkeepD)
  show "scopes st s = Some sc \<Longrightarrow> \<exists>sc'. scopes st' s = Some sc' \<and> bindings sc' = bindings sc \<and> next_scope sc' = next_scope sc"
    using assms by (simp add: extends_def)
  then show "scopes st s \<noteq> None \<Longrightarrow> scopes st' s \<noteq> None"
    using assms by (fastforce simp: extends_def)
qed

lemma extends_trans: "extends a b \<Longrightarrow> extends b c \<Longrightarrow> extends a c"
proof -
  assume ab: "extends a b" and bc: "extends b c"
  have "hkeep a c" using extendsD(1) ab bc by (blast intro: hkeep_trans)
  moreover have "\<exists>sc'. scopes c s = Some sc' \<and> bindings sc' = bindings sc \<and> next_scope sc' = next_scope sc"
    if s: "scopes a s = Some sc" for s sc
  proof -
    obtain sb where b: "scopes b s = Some sb" "bindings sb = bindings sc" "next_scope sb = next_scope sc"
      using extendsD(3) [OF ab s] by blast
    show ?thesis using extendsD(3) [OF bc b(1)] b(2,3) by auto
  qed
  ultimately show "extends a c" unfolding extends_def by blast
qed

lemma extends_visible:
  assumes "scopes_ok st" and "extends st st'" and "scopes st s \<noteq> None"
  shows "visible st' s = visible st s"
  using assms(1,3)
proof (induction s rule: scope_induct)
  case (last s sc)
  then show ?case using extendsD(3) [OF assms(2) last(1)] by (auto simp: visible_last)
next
  case (link s sc t)
  then show ?case using extendsD(3) [OF assms(2) link(1)] by (auto simp: visible_link)
qed

lemma extends_type: "extends st st' \<Longrightarrow> valid_obj st x \<Longrightarrow> type_in st' x = type_in st x"
  by (cases x) (auto dest: extendsD(2))

inductive code :: "state \<Rightarrow> navi_obj \<Rightarrow> exp \<Rightarrow> bool" for st :: state where
  code_lit: "immediate x \<Longrightarrow> code st x (Lit x)"
| code_sym: "heap st a = Some ob \<Longrightarrow> obj_type ob = NAVI_SYMBOL \<Longrightarrow> code st (Ref a) (Sym (Ref a))"
| code_form: "list_at st p os NilO \<Longrightarrow> list_all2 (code st) os (f # xs) \<Longrightarrow> code st p (Form f xs)"

abbreviation proc_at :: "state \<Rightarrow> addr \<Rightarrow> navi_type \<Rightarrow> navi_procedure \<Rightarrow> bool" where
  "proc_at st a t p \<equiv> heap st a = Some \<lparr>obj_type = t, obj_data = PProc p\<rparr>"

inductive rep :: "state \<Rightarrow> navi_obj \<Rightarrow> val \<Rightarrow> bool" for st :: state where
  rep_dat: "code st x e \<Longrightarrow> rep st x (Dat e)"
| rep_special: "proc_at st a NAVI_SPECIAL p \<Longrightarrow> builtin_proc p (special_spec b) \<Longrightarrow> rep st (Ref a) (Special b)"
| rep_prim: "proc_at st a NAVI_PROCEDURE p \<Longrightarrow> builtin_proc p (arith_spec b) \<Longrightarrow> scopes st (p_env p) \<noteq> None \<Longrightarrow>
    rep st (Ref a) (Prim b)"
| rep_clo: "proc_at st a NAVI_PROCEDURE p \<Longrightarrow> \<not> p_variadic p \<Longrightarrow> p_arity p = length ps \<Longrightarrow> p_types p = None \<Longrightarrow>
    p_code p = Body body \<Longrightarrow> list_at st (p_args p) ps NilO \<Longrightarrow> list_at st body os NilO \<Longrightarrow> list_all2 (code st) os ys \<Longrightarrow>
    scopes st (p_env p) \<noteq> None \<Longrightarrow>
    (\<And>x v. \<rho> x = Some v \<Longrightarrow> \<exists>w. visible st (p_env p) x = Some w \<and> rep st w v) \<Longrightarrow>
    rep st (Ref a) (Clo ps ys \<rho>)"

definition env_rep :: "state \<Rightarrow> sid \<Rightarrow> venv \<Rightarrow> bool" where
  "env_rep st s \<rho> \<longleftrightarrow> (\<forall>x v. \<rho> x = Some v \<longrightarrow> (\<exists>w. visible st s x = Some w \<and> rep st w v))"

lemma code_valid: "code st x e \<Longrightarrow> valid_obj st x"
  by (cases rule: code.cases) (auto simp: immediate_def valid_obj_def dest: list_at_valid split: navi_obj.splits)

lemma rep_valid: "rep st x v \<Longrightarrow> valid_obj st x"
  by (cases rule: rep.cases) (auto dest: code_valid)

lemma extends_code:
  assumes "extends st st'"
  shows "code st x e \<Longrightarrow> code st' x e"
proof (induction rule: code.induct)
  case (code_sym a ob)
  then show ?case using extendsD(2) [OF assms] by (auto intro: code.intros)
next
  case (code_form p os f xs)
  then show ?case using list_at_hkeep [OF extendsD(1) [OF assms] code_form(1)]
    by (intro code.code_form) (auto elim: list_all2_mono)
qed (rule code.intros)

lemma extends_rep:
  assumes "scopes_ok st" and "extends st st'"
  shows "rep st x v \<Longrightarrow> rep st' x v"
proof (induction rule: rep.induct)
  case (rep_dat x e)
  then show ?case using extends_code [OF assms(2)] by (auto intro: rep.intros)
next
  case (rep_prim a p b)
  show ?case
    by (rule rep.rep_prim [OF extendsD(2) [OF assms(2) rep_prim(1)] rep_prim(2) extendsD(4) [OF assms(2) rep_prim(3)]])
next
  case (rep_clo a p ps body os ys \<rho>)
  show ?case
  proof (rule rep.rep_clo)
    show "proc_at st' a NAVI_PROCEDURE p" by (rule extendsD(2) [OF assms(2) rep_clo(1)])
    show "list_at st' (p_args p) ps NilO" "list_at st' body os NilO"
      by (rule list_at_hkeep [OF extendsD(1) [OF assms(2)]], rule rep_clo)+
    show "list_all2 (code st') os ys"
      by (rule list_all2_mono [OF rep_clo(8)]) (rule extends_code [OF assms(2)])
    show "scopes st' (p_env p) \<noteq> None" by (rule extendsD(4) [OF assms(2) rep_clo(9)])
    show "\<exists>w. visible st' (p_env p) z = Some w \<and> rep st' w v" if "\<rho> z = Some v" for z v
      using rep_clo(10) [OF that] extends_visible [OF assms rep_clo(9)] by auto
  qed (rule rep_clo)+
qed (use extendsD(2) [OF assms(2)] in \<open>auto intro: rep.intros\<close>)

lemma extends_env_rep:
  "scopes_ok st \<Longrightarrow> extends st st' \<Longrightarrow> scopes st s \<noteq> None \<Longrightarrow> env_rep st s \<rho> \<Longrightarrow> env_rep st' s \<rho>"
  unfolding env_rep_def using extends_visible extends_rep by metis

lemma rep_type:
  assumes "rep st x v"
  shows "type_in st x \<noteq> NAVI_BOUNCE" and "type_in st x \<noteq> NAVI_VOID"
proof -
  have "type_in st x \<noteq> NAVI_BOUNCE \<and> type_in st x \<noteq> NAVI_VOID"
    using assms
  proof (cases rule: rep.cases)
    case (rep_dat e)
    from rep_dat(2) show ?thesis
    proof (cases rule: code.cases)
      case (code_form os f xs)
      then obtain o1 os' where "os = o1 # os'" by (cases os) auto
      then show ?thesis using code_form(2) by auto
    qed (auto simp: immediate_def split: navi_obj.splits)
  qed auto
  then show "type_in st x \<noteq> NAVI_BOUNCE" "type_in st x \<noteq> NAVI_VOID" by auto
qed

section \<open>Outcomes of a step\<close>

text \<open>An expression and its environment in a state, seen without the objects of \<open>A\<close>.\<close>

definition ready :: "addr set \<Rightarrow> state \<Rightarrow> navi_obj \<Rightarrow> exp \<Rightarrow> navi_env \<Rightarrow> venv \<Rightarrow> bool" where
  "ready A st e y env \<rho> \<longleftrightarrow> env_ok st env \<and> env_rep (hide A st) (lexical env) \<rho> \<and> code (hide A st) e y \<and>
     (\<forall>a \<in> A. a < hp_next st)"

lemma readyD:
  assumes "ready A st e y env \<rho>"
  shows "env_ok st env" and "env_rep (hide A st) (lexical env) \<rho>" and "code (hide A st) e y"
    and "a \<in> A \<Longrightarrow> a < hp_next st"
  using assms by (simp_all add: ready_def)

lemma ready_valid: "ready A st x e env \<rho> \<Longrightarrow> valid_obj st x"
  using valid_obj_hkeep [OF extendsD(1) [OF extends_unhide] code_valid] readyD(3) by blast

lemma ready_extends:
  assumes "ready A st e y env \<rho>" and "scopes_ok st" and "extends (hide A st) (hide B st')"
    and "\<And>a. a \<in> B \<Longrightarrow> a < hp_next st'"
  shows "ready B st' e y env \<rho>"
proof -
  note ext = assms(3) and env = readyD(1) [OF assms(1)]
  have "env_rep (hide B st') (lexical env) \<rho>"
    by (rule extends_env_rep [OF _ ext _ readyD(2) [OF assms(1)]]) (use assms(2) env in auto)
  moreover have "env_ok st' env" using extendsD(4) [OF ext] env by auto
  ultimately show ?thesis
    using extends_code [OF ext readyD(3) [OF assms(1)]] assms(4) by (simp add: ready_def)
qed

lemma ready_kept:
  assumes "ready A st e y env \<rho>" and "wf_heap st" and "scopes_ok st" and "kept st st'"
  shows "ready A st' e y env \<rho>"
proof (rule ready_extends [OF assms(1,3) kept_extends_same [OF assms(2,4)]])
  fix a
  assume "a \<in> A"
  then show "a < hp_next st'" using readyD(4) [OF assms(1)] keptD(1) [OF assms(4)] by (fastforce simp: same_below_def)
qed

lemma ready_later: "ready A st e y env \<rho> \<Longrightarrow> roomy r st \<Longrightarrow> kept st st' \<Longrightarrow> ready A st' e y env \<rho>"
  by (rule ready_kept) (auto dest: roomyD(1,2))

text \<open>
  A step of the evaluator gives a value, or a bounce: an expression with fewer steps to go, in its
  environment.
\<close>

inductive suspended :: "addr set \<Rightarrow> nat \<Rightarrow> nat \<Rightarrow> val \<Rightarrow> navi_obj \<Rightarrow> state \<Rightarrow> bool" where
  suspendedI: "heap st a = Some \<lparr>obj_type = NAVI_BOUNCE, obj_data = PThunk e env\<rparr> \<Longrightarrow> big \<rho> y v k \<Longrightarrow> k < c \<Longrightarrow>
     ready A st e y env \<rho> \<Longrightarrow> roomy (r + 6 * k) st \<Longrightarrow>
     suspended A r c v (Ref a) st"

definition outcome :: "addr set \<Rightarrow> nat \<Rightarrow> nat \<Rightarrow> val \<Rightarrow> navi_obj \<Rightarrow> state \<Rightarrow> bool" where
  "outcome A r c v x st \<longleftrightarrow> roomy r st \<and> rep (hide A st) x v \<or> suspended A r c v x st"

lemma outcome_cases [consumes 1, case_names final bounce]:
  assumes "outcome A r c v x st"
  obtains "roomy r st" and "rep (hide A st) x v" | "suspended A r c v x st"
  using assms unfolding outcome_def by blast

lemma outcome_value: "roomy r st \<Longrightarrow> rep (hide A st) x v \<Longrightarrow> outcome A r c v x st"
  by (simp add: outcome_def)

lemma outcome_roomy:
  assumes "outcome A r c v x st"
  shows "roomy r st"
  using assms
proof (cases rule: outcome_cases)
  case bounce
  then show ?thesis by (cases rule: suspended.cases) (erule roomy_less, simp)
qed

lemma outcome_valid:
  assumes "outcome A r c v x st"
  shows "valid_obj st x"
  using assms
proof (cases rule: outcome_cases)
  case final
  then show ?thesis using valid_obj_hkeep [OF extendsD(1) [OF extends_unhide]] rep_valid by blast
next
  case bounce
  then show ?thesis by (cases rule: suspended.cases) auto
qed

lemma outcome_more:
  assumes "outcome A r c v x st" and "c \<le> d" and "q \<le> r"
  shows "outcome A q d v x st"
  using assms(1)
proof (cases rule: outcome_cases)
  case final
  then show ?thesis using roomy_less assms(3) unfolding outcome_def by blast
next
  case bounce
  then show ?thesis
  proof (cases rule: suspended.cases)
    case s: (suspendedI a e env \<rho> y j)
    have "roomy (q + 6 * j) st" by (rule roomy_less [OF s(6)]) (use assms(3) in simp)
    then have "suspended A q d v x st"
      unfolding s(1) using s(4) assms(2) by (intro suspendedI [OF s(2,3) _ s(5)]) auto
    then show ?thesis by (simp add: outcome_def)
  qed
qed

lemma suspended_quiet:
  assumes "suspended A r c v x st" and "quiet_step st st'"
  shows "suspended A r c v x st'"
  using assms(1)
proof (cases rule: suspended.cases)
  case s: (suspendedI a e env \<rho> y j)
  note ok = roomyD(1,2) [OF s(6)] and k = quiet_stepD [OF assms(2)]
  show ?thesis
    unfolding s(1)
  proof (rule suspendedI [OF _ s(3,4)])
    show "heap st' a = Some \<lparr>obj_type = NAVI_BOUNCE, obj_data = PThunk e env\<rparr>" by (rule kept_heap [OF ok(1) k(1) s(2)])
    show "ready A st' e y env \<rho>" by (rule ready_kept [OF s(5) ok k(1)])
    show "roomy (r + 6 * j) st'" by (rule k(2) [OF s(6)])
  qed
qed

lemma outcome_quiet:
  assumes "outcome A r c v x st" and "quiet_step st st'"
  shows "outcome A r c v x st'"
  using assms(1)
proof (cases rule: outcome_cases)
  case final
  note k = quiet_stepD [OF assms(2)]
  have "rep (hide A st') x v"
    by (rule extends_rep [OF _ kept_extends_same [OF roomyD(1) [OF final(1)] k(1)] final(2)])
      (use roomyD(2) [OF final(1)] in simp)
  then show ?thesis using k(2) [OF final(1)] by (simp add: outcome_def)
next
  case bounce
  then show ?thesis using suspended_quiet [OF _ assms(2)] by (simp add: outcome_def)
qed

text \<open>A tail call.\<close>

lemma eval_tail_run:
  assumes "roomy (r + 6 * k + 2) st" and "ready A st e y env \<rho>" and "big \<rho> y v k" and "k < c"
  shows "\<exists>x st'. eval_tail e env st n = (Inr x, st') \<and> outcome A r c v x st' \<and> later st st' \<and>
    (\<forall>s sc. scopes st s = Some sc \<longrightarrow> (\<exists>sc'. scopes st' s = Some sc' \<and> refs sc' = refs sc + env_refs env s))"
proof -
  obtain a st' where b: "navi_make_bounce e env st n = (Inr (Ref a), st')" "roomy (r + 6 * k) st'" "later st st'"
      "heap st' a = Some \<lparr>obj_type = NAVI_BOUNCE, obj_data = PThunk e env\<rparr>"
      "\<forall>s sc. scopes st s = Some sc \<longrightarrow> (\<exists>sc'. scopes st' s = Some sc' \<and> refs sc' = refs sc + env_refs env s)"
    using make_bounce_run [OF assms(1) readyD(1) ready_valid, OF assms(2,2)] by blast
  have "ready A st' e y env \<rho>" by (rule ready_later [OF assms(2,1) later_kept [OF b(3)]])
  then have "suspended A r c v (Ref a) st'"
    using b(2,4) assms(3,4) by (blast intro: suspendedI)
  then show ?thesis using b(1,3,5) by (auto simp: eval_tail_def outcome_def)
qed

end
