(* ===== verification/Spec_Forms.thy ===== *)
theory Spec_Forms
  imports Spec_Core
begin

text \<open>
  The special forms of the core (\<open>eval.c\<close>): what a call does before and after it (the guards, the
  check of the arguments), the dispatch on the type of the operator, and \<open>begin\<close>, \<open>if\<close> and
  \<open>lambda\<close>, given an evaluator for smaller expressions.
\<close>

section \<open>Frames\<close>

text \<open>The frames around a call: guards are taken and dropped.\<close>

lemma guarded_run:
  assumes "env_ok st env"
    and body: "\<And>st1. quiet_step st st1 \<Longrightarrow> later st st1 \<Longrightarrow>
      \<exists>x st2. m st1 n = (Inr x, st2) \<and> later st1 st2 \<and> outcome A r c v x st2"
  shows "\<exists>x st'. bind (navi_gc_guard obj env) (\<lambda>g. bind m (\<lambda>x. bind (navi_gc_unguard g) (\<lambda>_. ret x))) st n = (Inr x, st') \<and>
    later st st' \<and> outcome A r c v x st'"
proof -
  obtain g st1 where 1: "navi_gc_guard obj env st n = (Inr g, st1)" "quiet_step st st1" "later st st1" "guard_ok st1 g"
    using gc_guard_run [OF assms(1)] by blast
  obtain x st2 where 2: "m st1 n = (Inr x, st2)" "later st1 st2" "outcome A r c v x st2"
    using body [OF 1(2,3)] by blast
  obtain st3 where 3: "navi_gc_unguard g st2 n = (Inr (), st3)" "quiet_step st2 st3" "later st2 st3"
    using gc_unguard_run [OF later_guard [OF 2(2) 1(4)]] by blast
  have "later st st3" using 1(3) 2(2) 3(3) by (blast intro: later_trans)
  then show ?thesis using 1(1) 2(1) 3(1) outcome_quiet [OF 2(3) 3(2)] by (auto simp: bind_run)
qed

lemma touch_run:
  assumes "env_ok st env" and "outcome A r c v x st"
  shows "\<exists>st'. bind (navi_gc_guard x env) (\<lambda>g. bind (navi_gc_unguard g) (\<lambda>_. ret x)) st n = (Inr x, st') \<and>
    later st st' \<and> outcome A r c v x st'"
proof -
  have "\<exists>y st'. bind (navi_gc_guard x env) (\<lambda>g. bind (ret x) (\<lambda>x. bind (navi_gc_unguard g) (\<lambda>_. ret x))) st n = (Inr y, st') \<and>
    later st st' \<and> outcome A r c v y st'"
    by (rule guarded_run [OF assms(1)]) (use outcome_quiet [OF assms(2)] in auto)
  then obtain y st' where y: "bind (navi_gc_guard x env) (\<lambda>g. bind (navi_gc_unguard g) (\<lambda>_. ret x)) st n = (Inr y, st')"
      "later st st'" "outcome A r c v y st'" by auto
  moreover have "y = x" using y(1) by (auto elim!: bind_InrE)
  ultimately show ?thesis by blast
qed

text \<open>A call of a procedure written in C: the check of its arguments, and the frames.\<close>

lemma check_apply_builtin:
  assumes "wf_heap st" and "builtin_proc p sp" and "list_at st args xs NilO" and "length xs < n"
    and "length xs = sp_arity sp \<or> sp_variadic sp \<and> sp_arity sp < length xs"
    and "sp_types sp = replicate (sp_arity sp) t" and "t \<noteq> TProperList"
    and "\<And>x. x \<in> set xs \<Longrightarrow> arg_error st env t x = None"
  shows "check_apply p args env st n = (Inr (length xs), st)"
proof -
  have ok: "checkable st n (take (sp_arity sp) (sp_types sp)) xs" by (rule checkable_other) (use assms(6,7) in simp)
  have "args_error st env (take (sp_arity sp) (sp_types sp)) xs = None"
    unfolding args_error_None using assms(6,8) by simp
  then show ?thesis
    using check_apply_run [OF assms(1,2) _ assms(3,4) ok, of env] assms(2,5,6)
    by (auto simp: builtin_proc_def navi_arity_satisfied_def)
qed

lemma apply_builtin_run:
  assumes "builtin_proc p sp" and "env_ok st env"
    and "check_apply p args env st n = (Inr k, st)"
    and body: "\<And>st1. quiet_step st st1 \<Longrightarrow> later st st1 \<Longrightarrow>
      \<exists>x st2. bi (sp_proc sp) k args env st1 n = (Inr x, st2) \<and> later st1 st2 \<and> outcome A r c v x st2"
  shows "\<exists>x st'. navi_apply_body ev bi p args env st n = (Inr x, st') \<and> later st st' \<and> outcome A r c v x st'"
proof -
  have code: "p_code p = CProc (sp_proc sp)" using assms(1) by (simp add: builtin_proc_def)
  obtain x st1 where 1: "bind (navi_gc_guard args env) (\<lambda>g. bind (bi (sp_proc sp) k args env) (\<lambda>x.
      bind (navi_gc_unguard g) (\<lambda>_. ret x))) st n = (Inr x, st1)" "later st st1" "outcome A r c v x st1"
    using guarded_run [where m = "bi (sp_proc sp) k args env", OF assms(2) body] by blast
  obtain st2 where 2: "bind (navi_gc_guard x env) (\<lambda>g. bind (navi_gc_unguard g) (\<lambda>_. ret x)) st1 n = (Inr x, st2)"
      "later st1 st2" "outcome A r c v x st2"
    using touch_run [OF later_env [OF 1(2) assms(2)] 1(3)] by blast
  have "navi_apply_body ev bi p args env st n = (Inr x, st2)"
    using assms(3) 1(1) 2(1) by (simp add: navi_apply_body_def do_apply_def code)
  then show ?thesis using later_trans [OF 1(2) 2(2)] 2(3) by blast
qed

text \<open>
  An evaluator that gives the value of every expression of less than \<open>m\<close> steps, given fuel and room
  for it.
\<close>

definition evals :: "nat \<Rightarrow> evalf \<Rightarrow> bool" where
  "evals m ev \<longleftrightarrow> (\<forall>A r c v e y env \<rho> st n. big \<rho> y v c \<longrightarrow> c < m \<longrightarrow> c < n \<longrightarrow> roomy (r + 6 * c + 2) st \<longrightarrow>
     ready A st e y env \<rho> \<longrightarrow>
     (\<exists>x st'. ev e env st n = (Inr x, st') \<and> roomy r st' \<and> later st st' \<and> rep (hide A st') x v))"

lemma evalsD:
  "evals m ev \<Longrightarrow> big \<rho> y v c \<Longrightarrow> c < m \<Longrightarrow> c < n \<Longrightarrow> roomy (r + 6 * c + 2) st \<Longrightarrow> ready A st e y env \<rho> \<Longrightarrow>
    \<exists>x st'. ev e env st n = (Inr x, st') \<and> roomy r st' \<and> later st st' \<and> rep (hide A st') x v"
  unfolding evals_def by blast

lemma evals_less: "evals m ev \<Longrightarrow> k \<le> m \<Longrightarrow> evals k ev"
  unfolding evals_def by (meson order_less_le_trans)

text \<open>A call after its operator was evaluated.\<close>

definition dispatch :: "evalf \<Rightarrow> applyf \<Rightarrow> navi_obj \<Rightarrow> navi_env \<Rightarrow> navi_obj \<Rightarrow> navi_obj nm" where
  "dispatch ev ap call env proc =
     bind (navi_type proc) (\<lambda>t.
       if t = NAVI_SPECIAL then
         bind (navi_procedure proc) (\<lambda>p. bind (navi_cdr call) (\<lambda>args. ap p args env))
       else if t = NAVI_PROCEDURE then
         bind (navi_procedure proc) (\<lambda>p. bind (navi_cdr call) (\<lambda>args. procedure_call ev ap p args env))
       else if t = NAVI_MACRO then
         bind (navi_procedure proc) (\<lambda>p. bind (navi_cdr call) (\<lambda>args.
         bind (ap p args env) (\<lambda>r. eval_tail r env)))
       else if t = NAVI_ESCAPE then
         bind (navi_list_length call) (\<lambda>l.
         bind (if l < 2 then ret navi_make_nil else navi_cadr call) (\<lambda>arg.
         navi_call_escape proc arg env))
       else if t = NAVI_CASELAMBDA then
         bind (navi_cdr call) (\<lambda>args. caselambda_call ap proc args env)
       else if t = NAVI_PARAMETER then
         bind (navi_cdr call) (\<lambda>args. bind (navi_is_nil args) (\<lambda>z.
         if \<not> z then bind (navi_car proc) (\<lambda>name. navi_arity_error env (IObj name))
         else navi_parameter_lookup proc env))
       else navi_error env ''call of non-procedure'' [(''value'', IObj proc)])"

lemma eval_call_dispatch:
  "eval_call ev ap call env =
     bind (navi_car call) (\<lambda>operator.
     bind (ev operator env) (\<lambda>proc.
     bind (navi_gc_guard proc env) (\<lambda>g.
     bind (dispatch ev ap call env proc) (\<lambda>x.
     bind (navi_gc_unguard g) (\<lambda>_. ret x)))))"
  unfolding eval_call_def dispatch_def bind_assoc by (rule refl)

lemma call_run:
  assumes "evals m ev" and "big \<rho> f w c" and "c < m" and "c < n" and "roomy (r + 6 * c + 2) st"
    and "ready A st x1 f env \<rho>" and "list_at (hide A st) p (x1 # xs) NilO"
    and body: "\<And>proc st1. rep (hide A st1) proc w \<Longrightarrow> roomy r st1 \<Longrightarrow> later st st1 \<Longrightarrow>
      \<exists>x st2. dispatch ev ap p env proc st1 n = (Inr x, st2) \<and> later st1 st2 \<and> outcome A q d v x st2"
  shows "\<exists>x st'. eval_call ev ap p env st n = (Inr x, st') \<and> later st st' \<and> outcome A q d v x st'"
proof -
  have env: "env_ok st env" using assms(6) by (simp add: ready_def)
  obtain a b where car: "p = Ref a" "pair_at st a x1 b" using assms(7) by (auto split: if_splits)
  obtain proc st1 where 1: "ev x1 env st n = (Inr proc, st1)" "roomy r st1" "later st st1" "rep (hide A st1) proc w"
    using evalsD [OF assms(1-6)] by blast
  obtain x st2 where 2: "bind (navi_gc_guard proc env) (\<lambda>g. bind (dispatch ev ap p env proc) (\<lambda>x.
      bind (navi_gc_unguard g) (\<lambda>_. ret x))) st1 n = (Inr x, st2)" "later st1 st2" "outcome A q d v x st2"
  proof (atomize_elim, rule guarded_run [OF later_env [OF 1(3) env]])
    fix s
    assume s: "quiet_step st1 s" "later st1 s"
    note ext = kept_extends_same [OF roomyD(1) [OF 1(2)] later_kept [OF s(2)], of A]
    have "rep (hide A s) proc w" by (rule extends_rep [OF _ ext 1(4)]) (use roomyD(2) [OF 1(2)] in simp)
    then show "\<exists>x s2. dispatch ev ap p env proc s n = (Inr x, s2) \<and> later s s2 \<and> outcome A q d v x s2"
      by (rule body [OF _ quiet_stepD(2) [OF s(1) 1(2)] later_trans [OF 1(3) s(2)]])
  qed
  have "eval_call ev ap p env st n = (Inr x, st2)"
    unfolding eval_call_dispatch using car 1(1) 2(1) by simp
  then show ?thesis using later_trans [OF 1(3) 2(2)] 2(3) by blast
qed

text \<open>Special forms.\<close>

lemma special_spec_proc [simp]: "sp_proc (special_spec b) = SpecialB b"
  by (cases b) (simp_all add: builtin_spec_def)

lemma arith_spec_proc [simp]: "sp_proc (arith_spec b) = ArithB b"
  by (cases b) (simp_all add: builtin_spec_def)

lemma rep_specialE:
  assumes "rep st x (Special b)"
  obtains a p where "x = Ref a" and "proc_at st a NAVI_SPECIAL p" and "builtin_proc p (special_spec b)"
  using assms by (cases rule: rep.cases) auto

lemma hidden_list: "list_at (hide A st) p xs t \<Longrightarrow> list_at st p xs t"
  by (rule list_at_hkeep [OF extendsD(1) [OF extends_unhide]])

lemma hidden_list_later:
  "list_at (hide A st) p xs t \<Longrightarrow> roomy r st \<Longrightarrow> later st st' \<Longrightarrow> list_at (hide A st') p xs t"
  by (blast intro: list_at_hkeep extendsD(1) kept_extends_same roomyD(1) later_kept)

lemma dispatch_special:
  assumes "rep (hide A st) proc (Special b)" and "roomy r st" and "env_ok st env"
    and "list_at (hide A st) p (x1 # xs) NilO" and "length xs < n"
    and "length xs = sp_arity (special_spec b) \<or> sp_variadic (special_spec b) \<and> sp_arity (special_spec b) < length xs"
    and "sp_types (special_spec b) = replicate (sp_arity (special_spec b)) TAny"
    and body: "\<And>st1 args. roomy r st1 \<Longrightarrow> later st st1 \<Longrightarrow> list_at (hide A st1) args xs NilO \<Longrightarrow>
      \<exists>x st2. bi (SpecialB b) (length xs) args env st1 n = (Inr x, st2) \<and> later st1 st2 \<and> outcome A q d v x st2"
  shows "\<exists>x st'. dispatch ev (navi_apply_body ev' bi) p env proc st n = (Inr x, st') \<and> later st st' \<and> outcome A q d v x st'"
proof -
  obtain a pr where a: "proc = Ref a" "proc_at (hide A st) a NAVI_SPECIAL pr" "builtin_proc pr (special_spec b)"
    using assms(1) by (rule rep_specialE)
  have at: "proc_at st a NAVI_SPECIAL pr" using a(2) by (auto split: if_splits)
  obtain args where args: "navi_cdr p st n = (Inr args, st)" "list_at (hide A st) args xs NilO"
    using assms(4) by (auto split: if_splits)
  have "check_apply pr args env st n = (Inr (length xs), st)"
    by (rule check_apply_builtin [OF roomyD(1) [OF assms(2)] a(3) hidden_list [OF args(2)] assms(5-7)])
      (simp_all add: arg_error_def)
  then have "\<exists>x st'. navi_apply_body ev' bi pr args env st n = (Inr x, st') \<and> later st st' \<and> outcome A q d v x st'"
  proof (rule apply_builtin_run [OF a(3) assms(3)])
    fix s
    assume s: "quiet_step st s" "later st s"
    have "list_at (hide A s) args xs NilO" by (rule hidden_list_later [OF args(2) assms(2) s(2)])
    then show "\<exists>x s2. bi (sp_proc (special_spec b)) (length xs) args env s n = (Inr x, s2) \<and> later s s2 \<and> outcome A q d v x s2"
      unfolding special_spec_proc by (rule body [OF quiet_stepD(2) [OF s(1) assms(2)] s(2)])
  qed
  then show ?thesis using a(1) at args(1) by (simp add: dispatch_def)
qed

section \<open>The special forms\<close>

abbreviation all_ready :: "addr set \<Rightarrow> state \<Rightarrow> navi_obj list \<Rightarrow> exp list \<Rightarrow> navi_env \<Rightarrow> venv \<Rightarrow> bool" where
  "all_ready A st xs es env \<rho> \<equiv> list_all2 (\<lambda>x e. ready A st x e env \<rho>) xs es"

lemma all_ready_later:
  assumes "all_ready A st xs es env \<rho>" and "roomy r st" and "kept st st'"
  shows "all_ready A st' xs es env \<rho>"
  by (rule list_all2_mono [OF assms(1)]) (rule ready_later [OF _ assms(2,3)])

text \<open>A scope of the environment that \<open>env\<close> refers to counts one reference more.\<close>

definition referenced :: "navi_env \<Rightarrow> state \<Rightarrow> state \<Rightarrow> bool" where
  "referenced env st st' \<longleftrightarrow> (\<forall>s sc. scopes st s = Some sc \<longrightarrow>
     (\<exists>sc'. scopes st' s = Some sc' \<and> refs sc + env_refs env s \<le> refs sc'))"

lemma later_referenced: "later st1 st2 \<Longrightarrow> referenced env st2 st3 \<Longrightarrow> referenced env st1 st3"
  unfolding referenced_def by (meson add_le_mono1 laterD(2) le_trans)

lemma tail_run:
  assumes "roomy (r + 6 * k + 2) st" and "ready A st e y env \<rho>" and "big \<rho> y v k" and "k < c"
  shows "\<exists>x st'. eval_tail e env st n = (Inr x, st') \<and> outcome A r c v x st' \<and> later st st' \<and> referenced env st st'"
  using eval_tail_run [OF assms, of n] unfolding referenced_def by (metis order_refl)

lemma last_pair_run:
  assumes "list_at st p (x # xs) NilO"
  shows "navi_is_last_pair p st n = (Inr (xs = []), st)"
proof -
  obtain a d where a: "p = Ref a" "pair_at st a x d" "list_at st d xs NilO" using assms by auto
  have "type_in st d = NAVI_NIL \<longleftrightarrow> xs = []" using a(3) by (cases xs) auto
  then show ?thesis using a list_at_valid [OF a(3)] by (simp add: navi_is_last_pair_def navi_type_valid)
qed

abbreviation begin_round :: "evalf \<Rightarrow> navi_env \<Rightarrow> navi_obj \<Rightarrow> navi_obj option \<Rightarrow> (navi_obj, navi_obj option) ctl nm" where
  "begin_round ev env cons result \<equiv>
     bind (navi_is_last_pair cons) (\<lambda>b.
     bind (navi_car cons) (\<lambda>x.
     if b then bind (eval_tail x env) (\<lambda>r. ret (Return r))
     else bind (ev x env) (\<lambda>r. ret (Continue (Some r)))))"

lemma begin_loop_run:
  assumes "evals m ev"
  shows "seqs \<rho> ys v k \<Longrightarrow> k < m \<Longrightarrow> k < n \<Longrightarrow> length ys \<le> j \<Longrightarrow> roomy (q + 6 * k + 2) st \<Longrightarrow> list_at st p xs NilO \<Longrightarrow>
    all_ready A st xs ys env \<rho> \<Longrightarrow>
    \<exists>p' x st'. for_each_loop j (begin_round ev env) p res st n = (Inr (p', Return x), st') \<and> later st st' \<and>
      outcome A q k v x st' \<and> referenced env st st'"
proof (induction ys arbitrary: k j st p xs res)
  case Nil
  then show ?case by (auto elim: seqs_NilE)
next
  case (Cons y ys)
  obtain j' where j: "j = Suc j'" using Cons.prems(4) by (cases j) auto
  obtain x xs' where xs: "xs = x # xs'" "ready A st x y env \<rho>" "all_ready A st xs' ys env \<rho>"
    using Cons.prems(7) by (cases xs) auto
  obtain a d where a: "p = Ref a" "pair_at st a x d" "list_at st d xs' NilO" using Cons.prems(6) xs(1) by auto
  note lp = last_pair_run [OF Cons.prems(6) [unfolded xs(1) a(1)], of n]
  have len: "length xs' = length ys" using xs(3) by (rule list_all2_lengthD)
  show ?case
  proof (cases ys)
    case Nil
    from Cons.prems(1) obtain c where c: "big \<rho> y v c" "k = c + 1" unfolding Nil by (auto elim: seqs_OneE)
    have room: "roomy (q + 6 * c + 2) st" by (rule roomy_less [OF Cons.prems(5)]) (use c(2) in simp)
    have "c < k" using c(2) by simp
    from tail_run [OF room xs(2) c(1) this, of n] obtain t st' where
      "eval_tail x env st n = (Inr t, st')" "outcome A q k v t st'" "later st st'" "referenced env st st'" by blast
    then show ?thesis using lp a len Nil by (auto simp: j bind_run)
  next
    case (Cons y' ys')
    from Cons.prems(1) obtain u c d' where c: "big \<rho> y u c" "seqs \<rho> ys v d'" "k = c + d' + 1"
      unfolding Cons by (auto elim: seqs_MoreE)
    have room: "roomy (q + 6 * d' + 2 + 6 * c + 2) st" by (rule roomy_less [OF Cons.prems(5)]) (use c(3) in simp)
    have "c < m" "c < n" using Cons.prems(2,3) c(3) by simp_all
    from evalsD [OF assms c(1) this room xs(2)] obtain z st1 where 1: "ev x env st n = (Inr z, st1)"
      "roomy (q + 6 * d' + 2) st1" "later st st1" by blast
    note kp = later_kept [OF 1(3)]
    have "\<exists>p' x st'. for_each_loop j' (begin_round ev env) d (Some z) st1 n = (Inr (p', Return x), st') \<and> later st1 st' \<and>
      outcome A q d' v x st' \<and> referenced env st1 st'"
    proof (rule Cons.IH [OF c(2) _ _ _ 1(2)])
      show "list_at st1 d xs' NilO" by (rule kept_list [OF roomyD(1) [OF room] kp a(3)])
      show "all_ready A st1 xs' ys env \<rho>" by (rule all_ready_later [OF xs(3) room kp])
    qed (use Cons.prems(2-4) c(3) j in auto)
    then obtain p' t st' where 2: "for_each_loop j' (begin_round ev env) d (Some z) st1 n = (Inr (p', Return t), st')"
      "later st1 st'" "outcome A q d' v t st'" "referenced env st1 st'" by blast
    have "xs' \<noteq> []" using len Cons by auto
    then have "for_each_loop j (begin_round ev env) p res st n = (Inr (p', Return t), st')"
      using lp a 1(1) 2(1) kept_heap [OF roomyD(1) [OF room] kp a(2)] by (simp add: j bind_run)
    moreover have "outcome A q k v t st'" by (rule outcome_more [OF 2(3)]) (use c(3) in auto)
    ultimately show ?thesis using later_trans [OF 1(3) 2(2)] later_referenced [OF 1(3) 2(4)] by blast
  qed
qed

lemma begin_run:
  assumes "evals m ev" and "seqs \<rho> ys v k" and "k < m" and "k < n" and "roomy (q + 6 * k + 2) st" and "list_at st p xs NilO"
    and "all_ready A st xs ys env \<rho>"
  shows "\<exists>x st'. scm_begin ev i p env st n = (Inr x, st') \<and> later st st' \<and> outcome A q k v x st' \<and> referenced env st st'"
proof -
  have "length ys \<le> n" using seqs_length [OF assms(2)] assms(4) by simp
  from begin_loop_run [OF assms(1-4) this assms(5-7), of None] obtain p' x st' where
    "for_each_loop n (begin_round ev env) p None st n = (Inr (p', Return x), st')" "later st st'" "outcome A q k v x st'"
    "referenced env st st'" by blast
  then show ?thesis by (auto simp: scm_begin_def navi_list_for_each_def intro: after_loop_Return)
qed

text \<open>Truth.\<close>

lemma code_imm: "code st x e \<Longrightarrow> immediate x \<Longrightarrow> e = Lit x"
  by (cases rule: code.cases) (auto simp: immediate_def list_all2_Cons2 split: navi_obj.splits)

lemma rep_False: "rep st x False_val \<Longrightarrow> x = BoolO False"
  unfolding False_val_def by (auto elim: rep.cases code.cases)

lemma rep_BoolO: "rep st (BoolO b) v \<Longrightarrow> v = Truth b"
  by (auto elim!: rep.cases dest: code_imm simp: immediate_def)

lemma is_true_run:
  assumes "wf_heap st" and "rep (hide A st) x v"
  shows "navi_is_true x st n = (Inr (v \<noteq> False_val), st)"
proof -
  have val: "valid_obj st x" using valid_obj_hkeep [OF extendsD(1) [OF extends_unhide] rep_valid [OF assms(2)]] .
  show ?thesis
  proof (cases "\<exists>b. x = BoolO b")
    case True
    then obtain b where b: "x = BoolO b" ..
    then have "v = Truth b" using rep_BoolO assms by blast
    then show ?thesis by (simp add: b navi_is_true_def False_val_def bind_run)
  next
    case False
    then have "v \<noteq> False_val" using rep_False assms by blast
    moreover have "type_in st x \<noteq> NAVI_BOOL" using False type_in_bool [OF assms(1) val] by blast
    ultimately show ?thesis using val by (auto simp: navi_is_true_def navi_type_valid)
  qed
qed

lemma if_run:
  assumes "evals m ev" and args: "list_at st args xs NilO" and ready: "all_ready A st xs (x # y # zs) env \<rho>"
    and "length zs \<le> 1" and test: "big \<rho> x u d" "d < m" "d < n"
    and branch: "u \<noteq> False_val \<and> z = y \<or> u = False_val \<and> zs = [z]" and z: "big \<rho> z v k" "k < c"
    and room: "roomy (q + 6 * k + 2 + 6 * d + 2) st"
  shows "\<exists>r st'. scm_if ev (length xs) args env st n = (Inr r, st') \<and> later st st' \<and> outcome A q c v r st'"
proof -
  obtain a b cs where xs: "xs = a # b # cs" "ready A st a x env \<rho>" "ready A st b y env \<rho>" "all_ready A st cs zs env \<rho>"
    using ready by (auto simp: list_all2_Cons2)
  have len: "length cs = length zs" using xs(4) by (rule list_all2_lengthD)
  obtain t st1 where 1: "ev a env st n = (Inr t, st1)" "roomy (q + 6 * k + 2) st1" "later st st1" "rep (hide A st1) t u"
    using evalsD [OF assms(1) test room xs(2)] by blast
  note kp = later_kept [OF 1(3)] and wf = roomyD(1) [OF room]
  note argsx = args [unfolded xs(1)] and argsy = kept_list [OF wf kp args, unfolded xs(1)]
  note true = is_true_run [OF roomyD(1) [OF 1(2)] 1(4), of n]
  have head: "scm_arg1 args st n = (Inr a, st)" by (rule args1 [OF argsx])
  have le: "\<not> 3 < length xs" using xs(1) len assms(4) by simp
  show ?thesis
  proof (cases "u = False_val")
    case False
    obtain r st' where r: "eval_tail b env st1 n = (Inr r, st')" "outcome A q c v r st'" "later st1 st'"
      using tail_run [OF 1(2) ready_later [OF xs(3) room kp] _ z(2)] z(1) branch False by blast
    have "scm_arg2 args st1 n = (Inr b, st1)" by (rule args2 [OF argsy])
    then show ?thesis using head le 1(1) true r False later_trans [OF 1(3) r(3)] by (simp add: scm_if_def bind_run)
  next
    case True
    then have zs: "zs = [z]" using branch by simp
    then obtain w where w: "cs = [w]" "ready A st w z env \<rho>" using xs(4) by (auto simp: list_all2_Cons2)
    obtain r st' where r: "eval_tail w env st1 n = (Inr r, st')" "outcome A q c v r st'" "later st1 st'"
      using tail_run [OF 1(2) ready_later [OF w(2) room kp] z] by blast
    have "scm_arg3 args st1 n = (Inr w, st1)" by (rule args3 [OF argsy [unfolded w(1)]])
    then show ?thesis using head le 1(1) true r True later_trans [OF 1(3) r(3)] xs(1) w(1) by (simp add: scm_if_def bind_run)
  qed
qed

text \<open>\<open>and\<close> and \<open>or\<close>: the operands are evaluated until one is false, or true.\<close>

abbreviation alts_round :: "bool \<Rightarrow> evalf \<Rightarrow> navi_env \<Rightarrow> navi_obj \<Rightarrow> unit \<Rightarrow> (navi_obj, unit) ctl nm" where
  "alts_round b ev env cons u \<equiv>
     bind (navi_is_last_pair cons) (\<lambda>l.
     bind (navi_car cons) (\<lambda>x.
     if l then bind (eval_tail x env) (\<lambda>r. ret (Return r))
     else bind (ev x env) (\<lambda>v. bind (navi_is_true v) (\<lambda>t.
          ret (if t = b then Return (navi_make_bool b) else Continue ())))))"

abbreviation alts_call :: "bool \<Rightarrow> evalf \<Rightarrow> navi_obj \<Rightarrow> navi_env \<Rightarrow> navi_obj nm" where
  "alts_call b ev args env \<equiv>
     after_loop (navi_list_for_each args () (alts_round b ev env)) (\<lambda>_ _. ret (navi_make_bool (\<not> b)))"

lemma rep_truth: "rep st (BoolO b) (Truth b)"
  by (rule rep_dat [OF code_lit]) (simp add: immediate_def)

lemma alts_calls: "scm_and ev i args env = alts_call False ev args env" "scm_or ev i args env = alts_call True ev args env"
  unfolding scm_and_def scm_or_def eq_False eq_True not_False_eq_True not_True_eq_False by (rule refl)+

lemma alts_loop_run:
  assumes "evals m ev"
  shows "alts b \<rho> ys v k \<Longrightarrow> ys \<noteq> [] \<Longrightarrow> k < m \<Longrightarrow> k < n \<Longrightarrow> length ys \<le> j \<Longrightarrow> roomy (q + 6 * k + 2) st \<Longrightarrow> list_at st p xs NilO \<Longrightarrow>
    all_ready A st xs ys env \<rho> \<Longrightarrow>
    \<exists>p' x st'. for_each_loop j (alts_round b ev env) p () st n = (Inr (p', Return x), st') \<and> later st st' \<and>
      outcome A q k v x st'"
proof (induction ys arbitrary: k j st p xs)
  case (Cons y ys)
  obtain j' where j: "j = Suc j'" using Cons.prems(5) by (cases j) auto
  obtain x xs' where xs: "xs = x # xs'" "ready A st x y env \<rho>" "all_ready A st xs' ys env \<rho>"
    using Cons.prems(8) by (cases xs) auto
  obtain a d where a: "p = Ref a" "pair_at st a x d" "list_at st d xs' NilO" using Cons.prems(7) xs(1) by auto
  note lp = last_pair_run [OF Cons.prems(7) [unfolded xs(1) a(1)], of n]
  have len: "length xs' = length ys" using xs(3) by (rule list_all2_lengthD)
  show ?case
  proof (cases ys)
    case Nil
    from Cons.prems(1) obtain c where c: "big \<rho> y v c" "k = c + 1" unfolding Nil by (auto elim: alts_OneE)
    have room: "roomy (q + 6 * c + 2) st" by (rule roomy_less [OF Cons.prems(6)]) (use c(2) in simp)
    have "c < k" using c(2) by simp
    from tail_run [OF room xs(2) c(1) this, of n] obtain t st' where
      "eval_tail x env st n = (Inr t, st')" "outcome A q k v t st'" "later st st'" by blast
    then show ?thesis using lp a len Nil by (auto simp: j bind_run)
  next
    case (Cons y' ys')
    obtain u c d' where c: "big \<rho> y u c" "k = c + d' + 1"
      and rest: "(u \<noteq> False_val) = b \<and> v = Truth b \<or> (u \<noteq> False_val) \<noteq> b \<and> alts b \<rho> ys v d'"
      using Cons.prems(1) unfolding Cons by (fastforce elim: alts_MoreE)
    have room: "roomy (q + 6 * d' + 2 + 6 * c + 2) st" by (rule roomy_less [OF Cons.prems(6)]) (use c(2) in simp)
    have "c < m" "c < n" using Cons.prems(3,4) c(2) by simp_all
    from evalsD [OF assms c(1) this room xs(2)] obtain z st1 where 1: "ev x env st n = (Inr z, st1)"
      "roomy (q + 6 * d' + 2) st1" "later st st1" "rep (hide A st1) z u" by blast
    note kp = later_kept [OF 1(3)] and true = is_true_run [OF roomyD(1) [OF 1(2)] 1(4), of n]
    have ne: "xs' \<noteq> []" using len Cons by auto
    from rest show ?thesis
    proof (elim disjE conjE)
      assume stop: "(u \<noteq> False_val) = b" "v = Truth b"
      have "roomy q st1" by (rule roomy_less [OF 1(2)]) simp
      then have "outcome A q k v (navi_make_bool b) st1"
        unfolding stop(2) navi_make_bool_def by (rule outcome_value [OF _ rep_truth])
      then show ?thesis using lp a ne 1(1,3) true stop(1) by (auto simp: j bind_run)
    next
      assume more: "(u \<noteq> False_val) \<noteq> b" "alts b \<rho> ys v d'"
      have "\<exists>p' x st'. for_each_loop j' (alts_round b ev env) d () st1 n = (Inr (p', Return x), st') \<and> later st1 st' \<and>
        outcome A q d' v x st'"
      proof (rule Cons.IH [OF more(2) _ _ _ _ 1(2)])
        show "list_at st1 d xs' NilO" by (rule kept_list [OF roomyD(1) [OF room] kp a(3)])
        show "all_ready A st1 xs' ys env \<rho>" by (rule all_ready_later [OF xs(3) room kp])
      qed (use Cons.prems(3-5) Cons c(2) j in auto)
      then obtain p' t st' where 2: "for_each_loop j' (alts_round b ev env) d () st1 n = (Inr (p', Return t), st')"
        "later st1 st'" "outcome A q d' v t st'" by blast
      have "for_each_loop j (alts_round b ev env) p () st n = (Inr (p', Return t), st')"
        using lp a ne 1(1) true more(1) 2(1) kept_heap [OF roomyD(1) [OF room] kp a(2)] by (simp add: j bind_run)
      moreover have "outcome A q k v t st'" by (rule outcome_more [OF 2(3)]) (use c(2) in auto)
      ultimately show ?thesis using later_trans [OF 1(3) 2(2)] by blast
    qed
  qed
qed simp

lemma alts_run:
  assumes "evals m ev" and "alts b \<rho> ys v k" and "k < m" and "k + length ys < n" and "roomy (q + 6 * k + 2) st"
    and "list_at st p xs NilO" and "all_ready A st xs ys env \<rho>"
  shows "\<exists>x st'. alts_call b ev p env st n = (Inr x, st') \<and> later st st' \<and> outcome A q k v x st'"
proof (cases "ys = []")
  case True
  then have v: "v = Truth (\<not> b)" "k = 0" "p = NilO" using assms(2,6,7) by (auto elim: alts_NilE)
  have "roomy q st" by (rule roomy_less [OF assms(5)]) simp
  then have "outcome A q k v (navi_make_bool (\<not> b)) st"
    unfolding v(1) navi_make_bool_def by (rule outcome_value [OF _ rep_truth])
  moreover obtain n' where "n = Suc n'" using assms(4) by (cases n) auto
  ultimately show ?thesis by (auto simp: v(3) after_loop_def navi_list_for_each_def bind_run)
next
  case False
  have "k < n" "length ys \<le> n" using assms(4) by simp_all
  from alts_loop_run [OF assms(1,2) False assms(3) this assms(5-7)] obtain p' x st' where
    "for_each_loop n (alts_round b ev env) p () st n = (Inr (p', Return x), st')" "later st st'" "outcome A q k v x st'" by blast
  then show ?thesis by (auto simp: navi_list_for_each_def intro: after_loop_Return)
qed

text \<open>\<open>lambda\<close>: the formals are a list of symbols, and a procedure is made that keeps the scope.\<close>

lemma formals_list:
  assumes "code st x e" and "formals e = Some ps"
  shows "list_at st x ps NilO" and "z \<in> set ps \<Longrightarrow> valid_obj st z \<and> type_in st z = NAVI_SYMBOL"
proof -
  have syms: "os = ps \<and> (\<forall>z \<in> set ps. valid_obj st z \<and> type_in st z = NAVI_SYMBOL)"
    if "list_all2 (code st) os es" "those (map sym_of es) = Some ps" for os es ps
    using that
  proof (induction os es arbitrary: ps rule: list_all2_induct)
    case (Cons x xs y ys)
    then obtain s ps' where s: "sym_of y = Some s" "those (map sym_of ys) = Some ps'" "ps = s # ps'"
      by (auto split: option.splits)
    then have "y = Sym s" by (cases y) auto
    then show ?case using Cons s by (auto elim: code.cases)
  qed simp
  have "list_at st x ps NilO \<and> (\<forall>z \<in> set ps. valid_obj st z \<and> type_in st z = NAVI_SYMBOL)"
    using assms(1)
  proof (cases rule: code.cases)
    case (code_form os f xs)
    then show ?thesis using syms [OF code_form(3)] assms(2) by (auto simp del: list_at.simps those.simps)
  qed (use assms(2) in \<open>auto split: if_splits\<close>)
  then show "list_at st x ps NilO" "z \<in> set ps \<Longrightarrow> valid_obj st z \<and> type_in st z = NAVI_SYMBOL" by auto
qed

lemma list_of_run:
  assumes "list_at st p xs NilO" and "length xs < n" and "\<And>x. x \<in> set xs \<Longrightarrow> valid_obj st x \<and> type_in st x = t"
  shows "navi_is_list_of p (TType t) b st n = (Inr True, st)"
proof -
  have "navi_list_for_each p () (\<lambda>cons _.
       bind (navi_car cons) (\<lambda>x. bind (navi_is_type x (TType t)) (\<lambda>b.
       ret (if \<not> b then Return False else Continue ())))) st n = (Inr (NilO, Continue ()), st)"
    by (rule for_each_none [OF assms(1,2)]) (use assms(3) in \<open>auto simp: bind_run navi_is_type_def navi_type_valid\<close>)
  then show ?thesis by (simp add: navi_is_list_of_def after_loop_def)
qed

lemma make_lambda_run:
  assumes room: "roomy (Suc q) st" and env: "env_ok st env" and fo: "list_at st fo ps NilO" "length ps < n"
    and body: "valid_obj st body"
  shows "\<exists>a p st'. navi_make_lambda fo body env st n = (Inr (Ref a), st') \<and> roomy q st' \<and> later st st' \<and>
    proc_at st' a NAVI_PROCEDURE p \<and> hp_next st \<le> a \<and> \<not> p_variadic p \<and> p_arity p = length ps \<and> p_types p = None \<and>
    p_code p = Body body \<and> p_args p = fo \<and> p_env p = lexical env"
proof -
  let ?s1 = "st\<lparr>lambda_count := Suc (lambda_count st) mod 2 ^ 64\<rparr>"
  let ?name = "PSymbol (''lam'' @ fmt_u (lambda_count st)) False"
  let ?s2 = "alloc_st NAVI_SYMBOL ?name ?s1"
  let ?s3 = "alloc_st NAVI_PROCEDURE (PProc blank_procedure) ?s2"
  let ?a = "hp_next ?s2" and ?b = "hp_next st"
  have 1: "roomy (Suc q) ?s1" "later st ?s1" by (rule roomy_same [OF room]; simp)+
  have 2: "roomy (Suc q) ?s2" "later ?s1 ?s2" by (rule roomy_alloc [OF 1(1)]; simp)+
  have 3: "roomy (Suc q) ?s3" "later ?s2 ?s3" by (rule roomy_alloc [OF 2(1)]; simp add: blank_procedure_def)+
  obtain sc where sc: "scopes ?s3 (lexical env) = Some sc" using env by auto
  obtain s4 where 4: "navi_scope_ref (lexical env) ?s3 n = (Inr (lexical env), s4)" "roomy q s4" "later ?s3 s4"
      "heap s4 = heap ?s3"
    using scope_ref_run [OF 3(1) sc, of n] by blast
  have l4: "later st s4" using 1(2) 2(2) 3(2) 4(3) later_trans by meson
  have fo4: "list_at s4 fo ps NilO" by (rule kept_list [OF roomyD(1) [OF room] later_kept [OF l4] fo(1)])
  let ?p = "\<lparr>p_builtin = False, p_variadic = False, p_arity = length ps, p_name = Ref ?b, p_env = lexical env,
      p_args = fo, p_code = Body body, p_types = None\<rparr>"
  let ?ob = "\<lparr>obj_type = NAVI_PROCEDURE, obj_data = PProc ?p\<rparr>"
  let ?s5 = "s4\<lparr>heap := (heap s4)(?a := Some ?ob)\<rparr>"
  have at: "heap s4 ?a = Some \<lparr>obj_type = NAVI_PROCEDURE, obj_data = PProc blank_procedure\<rparr>"
    "heap s4 ?b = Some \<lparr>obj_type = NAVI_SYMBOL, obj_data = ?name\<rparr>"
    using 4(4) by (simp_all add: alloc_st_def)
  have v: "valid_obj s4 fo" "valid_obj s4 body" using kept_valid [OF roomyD(1) [OF room] later_kept [OF l4]] body list_at_valid [OF fo(1)] by blast+
  have le: "?b \<le> ?a" by (simp add: alloc_st_def)
  have 5: "roomy q ?s5" "later st ?s5" by (rule roomy_write [OF 4(2) l4 le at(1)]; use v at(2) in simp)+
  have cnt: "count_pairs fo s4 n = (Inr (length ps), s4)"
    unfolding count_pairs_def using count_loop [OF fo4 fo(2), of "\<lambda>_ i. ret i"] by simp
  have "navi_make_lambda fo body env st n = (Inr (Ref ?a), ?s5)"
    using 4(1) cnt proper_list_run [OF fo4 fo(2)] at(1)
    by (simp add: navi_make_lambda_def navi_make_uninterned_def navi_make_procedure_def make_object_run bind_run)
  moreover have "heap ?s5 ?a = Some ?ob" by simp
  ultimately show ?thesis using 5 le by (intro exI [of _ ?a] exI [of _ ?p] exI [of _ ?s5]) simp
qed

lemma lambda_run:
  assumes room: "roomy (Suc q) st" and args: "list_at (hide A st) args (fo # bs) NilO"
    and ready: "ready A st fo x env \<rho>" "formals x = Some ps" and bs: "list_all2 (code (hide A st)) bs ys" "ys \<noteq> []"
    and fuel: "length ps < n"
  shows "\<exists>r st'. scm_lambda i args env st n = (Inr r, st') \<and> later st st' \<and> outcome A q c (Clo ps ys \<rho>) r st'"
proof -
  note real = hidden_list [OF args]
  have env: "env_ok st env" and fo: "code (hide A st) fo x" and rho: "env_rep (hide A st) (lexical env) \<rho>"
    using ready(1) by (simp_all add: ready_def)
  note ps = formals_list(1) [OF fo ready(2)] and syms = formals_list(2) [OF fo ready(2)]
  obtain a b where a: "args = Ref a" "pair_at st a fo b" "list_at (hide A st) b bs NilO" using args by (auto split: if_splits)
  have "bs \<noteq> []" using bs by auto
  then have "type_in st b = NAVI_PAIR" "valid_obj st b"
    using list_at_type [OF hidden_list [OF a(3)]] list_at_valid [OF hidden_list [OF a(3)]] by auto
  note b = this and v = ready_valid [OF ready(1)]
  have "navi_is_list_of fo (TType NAVI_SYMBOL) True st n = (Inr True, st)"
  proof (rule list_of_run [OF hidden_list [OF ps] fuel])
    fix z
    assume "z \<in> set ps"
    then show "valid_obj st z \<and> type_in st z = NAVI_SYMBOL"
      using syms extends_type [OF extends_unhide] valid_obj_hkeep [OF extendsD(1) [OF extends_unhide]] by metis
  qed
  then have valid: "lambda_valid args st n = (Inr True, st)"
    using a b v by (simp add: lambda_valid_def navi_is_pair_def navi_is_symbol_def type_is_valid bind_run)
  obtain w p st' where w: "navi_make_lambda fo b env st n = (Inr (Ref w), st')" "roomy q st'" "later st st'"
      "proc_at st' w NAVI_PROCEDURE p" "hp_next st \<le> w" "\<not> p_variadic p" "p_arity p = length ps" "p_types p = None"
      "p_code p = Body b" "p_args p = fo" "p_env p = lexical env"
    using make_lambda_run [OF room env hidden_list [OF ps] fuel b(2)] by blast
  have kp: "kept st st'" by (rule later_kept [OF w(3)])
  note ext = kept_extends_same [OF roomyD(1) [OF room] kp, of A]
  have "rep (hide A st') (Ref w) (Clo ps ys \<rho>)"
  proof (rule rep.rep_clo)
    have "w \<notin> A" using readyD(4) [OF ready(1)] w(5) by fastforce
    then show "proc_at (hide A st') w NAVI_PROCEDURE p" using w(4) by simp
    show "list_at (hide A st') (p_args p) ps NilO" unfolding w(10) by (rule hidden_list_later [OF ps room w(3)])
    show "list_at (hide A st') b bs NilO" by (rule hidden_list_later [OF a(3) room w(3)])
    show "list_all2 (code (hide A st')) bs ys" by (rule list_all2_mono [OF bs(1)]) (rule extends_code [OF ext])
    show "scopes (hide A st') (p_env p) \<noteq> None" using kept_env [OF kp env] by (simp add: w(11))
    show "\<exists>u. visible (hide A st') (p_env p) z = Some u \<and> rep (hide A st') u v" if "\<rho> z = Some v" for z v
      using extends_env_rep [OF _ ext _ rho] roomyD(2) [OF room] env that unfolding w(11) env_rep_def by auto
  qed (use w in simp_all)
  then have "outcome A q c (Clo ps ys \<rho>) (Ref w) st'" by (rule outcome_value [OF w(2)])
  moreover have "scm_lambda i args env st n = (Inr (Ref w), st')"
    using valid a(1,2) w(1) args1 [OF real] by (simp add: scm_lambda_def bind_run)
  ultimately show ?thesis using w(3) by blast
qed

text \<open>A call of a special form: the operator, the check of its arguments, the frames.\<close>

lemma special_run:
  assumes ev: "evals m ev" "big \<rho> f (Special b) c" "c < m" "c < n" and room: "roomy (r + 6 * c + 2) st"
    and ready: "all_ready A st (x1 # xs) (f # es) env \<rho>" and call: "list_at (hide A st) p (x1 # xs) NilO" and len: "length xs < n"
    and arity: "length xs = sp_arity (special_spec b) \<or> sp_variadic (special_spec b) \<and> sp_arity (special_spec b) < length xs"
    and types: "sp_types (special_spec b) = replicate (sp_arity (special_spec b)) TAny"
    and body: "\<And>st1 args. roomy r st1 \<Longrightarrow> later st st1 \<Longrightarrow> list_at (hide A st1) args xs NilO \<Longrightarrow>
      all_ready A st1 xs es env \<rho> \<Longrightarrow>
      \<exists>x st2. bi (SpecialB b) (length xs) args env st1 n = (Inr x, st2) \<and> later st1 st2 \<and> outcome A q d v x st2"
  shows "\<exists>x st'. eval_call ev (navi_apply_body ev' bi) p env st n = (Inr x, st') \<and> later st st' \<and> outcome A q d v x st'"
proof -
  have x1: "ready A st x1 f env \<rho>" and xs: "all_ready A st xs es env \<rho>" using ready by simp_all
  show ?thesis
  proof (rule call_run [OF ev room x1 call])
    fix proc st1
    assume 1: "rep (hide A st1) proc (Special b)" "roomy r st1" "later st st1"
    note call1 = hidden_list_later [OF call room 1(3)]
    show "\<exists>x st2. dispatch ev (navi_apply_body ev' bi) p env proc st1 n = (Inr x, st2) \<and> later st1 st2 \<and> outcome A q d v x st2"
    proof (rule dispatch_special [OF 1(1,2) later_env [OF 1(3) readyD(1) [OF x1]] call1 len arity types])
      fix st2 args
      assume 2: "roomy r st2" "later st1 st2" "list_at (hide A st2) args xs NilO"
      have l: "later st st2" by (rule later_trans [OF 1(3) 2(2)])
      have "all_ready A st2 xs es env \<rho>" by (rule all_ready_later [OF xs room later_kept [OF l]])
      then show "\<exists>x st3. bi (SpecialB b) (length xs) args env st2 n = (Inr x, st3) \<and> later st2 st3 \<and> outcome A q d v x st3"
        by (rule body [OF 2(1) l 2(3)])
    qed
  qed
qed

end
