(* ===== verification/Spec_Call.thy ===== *)
theory Spec_Call
  imports Spec_Forms
begin

text \<open>
  Calls of procedures (\<open>eval.c\<close>): the loop of \<open>procedure_call\<close> that evaluates the arguments and
  builds the list of their values, arithmetic on them, and the application of a closure in an
  environment that extends its own.
\<close>

section \<open>The arguments of a call\<close>

text \<open>
  The list of values under construction: its pairs, in order, and their elements.  The builder
  holds the front and the last pair.
\<close>

definition chain_at :: "state \<Rightarrow> builder \<Rightarrow> addr list \<Rightarrow> navi_obj list \<Rightarrow> bool" where
  "chain_at st b as ws \<longleftrightarrow> (case b of
       None \<Rightarrow> as = [] \<and> ws = []
     | Some (front, ptr) \<Rightarrow> as \<noteq> [] \<and> ptr = Ref (last as) \<and> distinct as \<and> (\<exists>d. cells_at st front as ws d))"

lemma chain_heap: "chain_at st b as ws \<Longrightarrow> a \<in> set as \<Longrightarrow> \<exists>ob. heap st a = Some ob"
  by (auto simp: chain_at_def split: option.splits dest: cells_at_heap)

lemma chain_below: "chain_at st b as ws \<Longrightarrow> wf_heap st \<Longrightarrow> a \<in> set as \<Longrightarrow> a < hp_next st"
  by (auto dest: chain_heap wf_heapD(1))

lemma chain_frame: "chain_at st b as ws \<Longrightarrow> (\<And>a. a \<in> set as \<Longrightarrow> heap st' a = heap st a) \<Longrightarrow> chain_at st' b as ws"
  by (auto simp: chain_at_def split: option.splits intro: cells_at_frame)

lemma chain_later:
  assumes "chain_at st b as ws" and "wf_heap st" and "later st st'"
  shows "chain_at st' b as ws"
  by (rule chain_frame [OF assms(1)]) (use chain_below [OF assms(1,2)] laterD(1) [OF assms(3)] in \<open>simp add: same_below_def\<close>)

lemma chain_add:
  assumes room: "roomy r st" and st0: "later st0 st" "\<forall>a \<in> set as. hp_next st0 \<le> a" and chain: "chain_at st b as ws"
  shows "\<exists>b' st'. build_link b (Ref (hp_next st)) (alloc_st NAVI_PAIR (PPair VoidO NilO) st) n = (Inr b', st') \<and>
    chain_at st' b' (as @ [hp_next st]) (ws @ [VoidO]) \<and> roomy r st' \<and> later st0 st' \<and>
    (\<forall>A. set as \<subseteq> A \<longrightarrow> hide A st' = hide A (alloc_st NAVI_PAIR (PPair VoidO NilO) st)) \<and> hp_next st' = Suc (hp_next st)"
proof -
  let ?h = "hp_next st" and ?st = "alloc_st NAVI_PAIR (PPair VoidO NilO) st"
  have al: "roomy r ?st" "later st ?st" by (rule roomy_alloc [OF room]; simp)+
  have l0: "later st0 ?st" by (rule later_trans [OF st0(1) al(2)])
  have at: "pair_at ?st ?h VoidO NilO" by (simp add: heap_alloc_st)
  show ?thesis
  proof (cases b)
    case None
    then show ?thesis using chain al l0 at by (auto simp: build_link_def chain_at_def)
  next
    case (Some fp)
    then obtain front bs l d where b: "b = Some (front, Ref l)" "as = bs @ [l]" "distinct (bs @ [l])"
        "cells_at st front (bs @ [l]) ws d"
      using chain by (cases fp; cases as rule: rev_cases) (auto simp: chain_at_def)
    have below: "a < ?h" if "a \<in> set as" for a using chain_below [OF chain roomyD(1) [OF room] that] .
    have "cells_at ?st front (bs @ [l]) ws d"
      by (rule cells_at_frame [OF b(4)]) (use below b(2) in \<open>auto simp: heap_alloc_st\<close>)
    moreover from this obtain y where y: "pair_at ?st l y d" by (auto simp: cells_at_append)
    ultimately have cells: "cells_at (set_pair l y (Ref ?h) ?st) front (bs @ [l]) ws (Ref ?h)"
      using b(3) by (intro cells_at_set_pair)
    let ?st2 = "set_pair l y (Ref ?h) ?st"
    have ne: "l \<noteq> ?h" using below b(2) by auto
    then have cells2: "cells_at ?st2 front ((bs @ [l]) @ [?h]) (ws @ [VoidO]) NilO"
      unfolding cells_at_append [of _ _ "bs @ [l]"] using cells at by auto
    have "roomy r ?st2" "later st0 ?st2"
      by (rule roomy_write [OF al(1) l0 _ y]; use st0(2) b(2) at wf_heapD(3) [OF roomyD(1) [OF al(1)] y] in simp)+
    moreover have "build_link b (Ref ?h) ?st n = (Inr (Some (front, Ref ?h)), ?st2)"
      using y by (simp add: build_link_def b(1))
    moreover have "distinct (as @ [?h])" using b(2,3) below by auto
    moreover have "hp_next ?st2 = Suc ?h" by (simp add: alloc_st_def)
    moreover have "\<forall>A. set as \<subseteq> A \<longrightarrow> hide A ?st2 = hide A ?st" using b(2) by simp
    moreover have "chain_at ?st2 (Some (front, Ref ?h)) (as @ [?h]) (ws @ [VoidO])"
      using cells2 b(2) calculation(4) by (auto simp: chain_at_def)
    ultimately show ?thesis by blast
  qed
qed

lemma cells_at_set_car:
  assumes "cells_at s p (as @ [a]) (xs @ [x]) d" and "distinct (as @ [a])"
  shows "pair_at s a x d" and "cells_at (set_pair a y d s) p (as @ [a]) (xs @ [y]) d"
proof -
  from assms(1) obtain ys z where ys: "xs @ [x] = ys @ [z]" "cells_at s p as ys (Ref a)" "pair_at s a z d"
    by (auto simp: cells_at_append)
  then show "pair_at s a x d" by simp
  have "cells_at (set_pair a y d s) p as ys (Ref a)"
    using assms(2) by (intro cells_at_frame [OF ys(2)]) auto
  then show "cells_at (set_pair a y d s) p (as @ [a]) (xs @ [y]) d" using ys(1) by (auto simp: cells_at_append)
qed

lemma chain_set:
  assumes room: "roomy r st" and st0: "later st0 st" "hp_next st0 \<le> a" and chain: "chain_at st b (as @ [a]) (ws @ [w])"
    and v: "valid_obj st v"
  shows "\<exists>st'. build_set_car b v st n = (Inr (), st') \<and> chain_at st' b (as @ [a]) (ws @ [v]) \<and> roomy r st' \<and> later st0 st' \<and>
    (\<forall>A. a \<in> A \<longrightarrow> hide A st' = hide A st) \<and> hp_next st' = hp_next st"
proof -
  obtain front d where b: "b = Some (front, Ref a)" "distinct (as @ [a])" "cells_at st front (as @ [a]) (ws @ [w]) d"
    using chain by (auto simp: chain_at_def split: option.splits)
  note at = cells_at_set_car(1) [OF b(3,2)] and cells = cells_at_set_car(2) [OF b(3,2), of v]
  have "roomy r (set_pair a v d st)" "later st0 (set_pair a v d st)"
    by (rule roomy_write [OF room st0 at]; use v wf_heapD(3) [OF roomyD(1) [OF room] at] in simp)+
  moreover have "build_set_car b v st n = (Inr (), set_pair a v d st)" using at by (simp add: build_set_car_def b(1))
  ultimately show ?thesis using b(1,2) cells by (intro exI [of _ "set_pair a v d st"]) (auto simp: chain_at_def)
qed

text \<open>A round of the loop: a pair is added, the argument is evaluated, its value put in the pair.\<close>

abbreviation arg_round :: "evalf \<Rightarrow> navi_env \<Rightarrow> navi_obj \<Rightarrow> builder \<times> (sid \<times> nat) option \<Rightarrow>
    (unit, builder \<times> (sid \<times> nat) option) ctl nm" where
  "arg_round ev env \<equiv> \<lambda>cons (b, guard).
     bind (navi_make_pair navi_make_void navi_make_nil) (\<lambda>p.
     bind (build_link b p) (\<lambda>b'.
     bind (if b = None then navi_gc_guard p env else ret guard) (\<lambda>guard'.
     bind (navi_car cons) (\<lambda>x.
     bind (ev x env) (\<lambda>v.
     bind (build_set_car b' v) (\<lambda>_.
     ret (Continue (b', guard'))))))))"

definition building ::
  "addr set \<Rightarrow> state \<Rightarrow> nat \<Rightarrow> state \<Rightarrow> builder \<times> (sid \<times> nat) option \<Rightarrow> addr list \<Rightarrow> navi_obj list \<Rightarrow> val list \<Rightarrow> bool" where
  "building A st0 r st bg as ws vs \<longleftrightarrow> roomy r st \<and> later st0 st \<and> (\<forall>a \<in> set as. hp_next st0 \<le> a) \<and> chain_at st (fst bg) as ws \<and>
     list_all2 (rep (hide (A \<union> set as) st)) ws vs \<and> guard_ok st (snd bg)"

lemma buildingD:
  assumes "building A st0 r st bg as ws vs"
  shows "roomy r st" and "later st0 st" and "\<forall>a \<in> set as. hp_next st0 \<le> a" and "chain_at st (fst bg) as ws"
    and "list_all2 (rep (hide (A \<union> set as) st)) ws vs" and "guard_ok st (snd bg)"
  using assms by (simp_all add: building_def)

lemma later_hp_next: "later st st' \<Longrightarrow> hp_next st \<le> hp_next st'"
  by (auto dest: laterD(1) simp: same_below_def)

lemma arg_round_run:
  assumes ev: "evals m ev" and inv: "building A st0 (r + 6 * c + 2) st (b, g) as ws vs"
    and ready: "ready (A \<union> set as) st x e env \<rho>" and big: "big \<rho> e v c" "c < m" "c < n"
    and car: "pair_at (hide (A \<union> set as) st) p x d"
  shows "\<exists>bg h w st'. arg_round ev env (Ref p) (b, g) st n = (Inr (Continue bg), st') \<and>
    building A st0 r st' bg (as @ [h]) (ws @ [w]) (vs @ [v]) \<and>
    extends (hide (A \<union> set as) st) (hide (A \<union> set (as @ [h])) st') \<and> (\<forall>a \<in> A \<union> set (as @ [h]). a < hp_next st')"
proof -
  let ?h = "hp_next st" and ?B = "A \<union> set as"
  let ?C = "A \<union> set (as @ [?h])" and ?s1 = "alloc_st NAVI_PAIR (PPair VoidO NilO) st"
  note inv0 = buildingD [OF inv, unfolded fst_conv snd_conv]
  note ok = roomyD(1,2) [OF inv0(1)]
  from chain_add [OF inv0(1-4), of n] obtain b' s2 where s2: "build_link b (Ref ?h) ?s1 n = (Inr b', s2)"
      "chain_at s2 b' (as @ [?h]) (ws @ [VoidO])" "roomy (r + 6 * c + 2) s2" "later st0 s2"
      "\<forall>A. set as \<subseteq> A \<longrightarrow> hide A s2 = hide A ?s1" "hp_next s2 = Suc ?h" by blast
  have "set as \<subseteq> ?C" by auto
  with s2(5) have "hide ?C s2 = hide ?C ?s1" by blast
  note 2 = s2(1-4) this s2(6)
  have "kept st ?s1" using roomy_alloc(2) [OF inv0(1), of NAVI_PAIR "PPair VoidO NilO"] later_kept by simp
  then have ext2: "extends (hide ?B st) (hide ?C s2)"
    unfolding 2(5) by (rule kept_extends [OF ok(1)]) auto
  have env2: "env_ok s2 env" and g2: "guard_ok s2 g"
    using extendsD(4) [OF ext2] readyD(1) [OF ready] inv0(6) by (auto simp: guard_ok_def split: option.splits)
  obtain g' s3 where 3: "(if b = None then navi_gc_guard (Ref ?h) env else ret g) s2 n = (Inr g', s3)"
      "quiet_step s2 s3" "later s2 s3" "guard_ok s3 g'"
    using gc_guard_run [OF env2, of "Ref ?h" n] g2 by (cases "b = None") auto
  have room3: "roomy (r + 6 * c + 2) s3" by (rule quiet_stepD(2) [OF 3(2) 2(3)])
  have ext3: "extends (hide ?B st) (hide ?C s3)"
    by (rule extends_trans [OF ext2 kept_extends_same [OF roomyD(1) [OF 2(3)] later_kept [OF 3(3)]]])
  have below3: "a < hp_next s3" if "a \<in> ?C" for a
    using that readyD(4) [OF ready, of a] later_hp_next [OF 3(3)] 2(6) by fastforce
  obtain w s4 where 4: "ev x env s3 n = (Inr w, s4)" "roomy r s4" "later s3 s4" "rep (hide ?C s4) w v"
    using evalsD [OF ev big room3 ready_extends [OF ready ok(2) ext3 below3]] by blast
  have chain4: "chain_at s4 b' (as @ [?h]) (ws @ [VoidO])"
    by (rule chain_later [OF chain_later [OF 2(2) roomyD(1) [OF 2(3)] 3(3)] roomyD(1) [OF room3] 4(3)])
  have l4: "later st0 s4" using 2(4) 3(3) 4(3) later_trans by meson
  have "valid_obj s4 w" by (rule valid_obj_hkeep [OF extendsD(1) [OF extends_unhide] rep_valid [OF 4(4)]])
  from chain_set [OF 4(2) l4 later_hp_next [OF inv0(2)] chain4 this, of n] obtain s5 where
      s5: "build_set_car b' w s4 n = (Inr (), s5)" "chain_at s5 b' (as @ [?h]) (ws @ [w])" "roomy r s5" "later st0 s5"
      "\<forall>A. ?h \<in> A \<longrightarrow> hide A s5 = hide A s4" "hp_next s5 = hp_next s4" by blast
  then have "hide ?C s5 = hide ?C s4" by simp
  note 5 = s5(1-4) this s5(6)
  have ext5: "extends (hide ?B st) (hide ?C s5)"
    unfolding 5(5) by (rule extends_trans [OF ext3 kept_extends_same [OF roomyD(1) [OF room3] later_kept [OF 4(3)]]])
  have "list_all2 (rep (hide ?C s5)) ws vs"
    by (rule list_all2_mono [OF inv0(5)]) (rule extends_rep [OF _ ext5], use ok(2) in simp)
  then have reps: "list_all2 (rep (hide ?C s5)) (ws @ [w]) (vs @ [v])"
    using 4(4) [folded 5(5)] by (intro list_all2_appendI) simp_all
  have "scopes s5 = scopes s4" using 5(5) by (metis hide_simps(2))
  then have g5: "guard_ok s5 g'" using later_guard [OF 4(3) 3(4)] by (cases g') (auto simp: guard_ok_def)
  have car3: "pair_at s3 p x d" using extendsD(2) [OF ext3 car] by (auto split: if_splits)
  have "arg_round ev env (Ref p) (b, g) st n = (Inr (Continue (b', g')), s5)"
    using 2(1) 3(1) 4(1) 5(1) car3 by (cases b) (simp_all add: navi_make_void_def navi_make_nil_def)
  moreover have "building A st0 r s5 (b', g') (as @ [?h]) (ws @ [w]) (vs @ [v])"
    using 5(2-4) reps g5 inv0(3) later_hp_next [OF inv0(2)] by (simp add: building_def)
  moreover have "\<forall>a \<in> ?C. a < hp_next s5" using below3 later_hp_next [OF 4(3)] 5(6) by fastforce
  ultimately show ?thesis using ext5 by blast
qed

lemma all_ready_extends:
  assumes "all_ready A st xs es env \<rho>" and "scopes_ok st" and "extends (hide A st) (hide B st')" and "\<forall>a \<in> B. a < hp_next st'"
  shows "all_ready B st' xs es env \<rho>"
  by (rule list_all2_mono [OF assms(1)]) (rule ready_extends [OF _ assms(2,3)], use assms(4) in auto)

lemma args_loop_run:
  assumes ev: "evals m ev"
  shows "bigs \<rho> es vs d \<Longrightarrow> d < m \<Longrightarrow> d < n \<Longrightarrow> length es < j \<Longrightarrow> building A st0 (q + 6 * d + 2) st bg as ws us \<Longrightarrow>
    list_at (hide (A \<union> set as) st) p xs NilO \<Longrightarrow> all_ready (A \<union> set as) st xs es env \<rho> \<Longrightarrow>
    \<exists>bg' as' ws' st'. for_each_loop j (arg_round ev env) p bg st n = (Inr (NilO, Continue bg'), st') \<and>
      building A st0 q st' bg' as' ws' (us @ vs)"
proof (induction es arbitrary: d vs j st bg as ws us p xs)
  case Nil
  obtain j' where j: "j = Suc j'" using Nil.prems(4) by (cases j) auto
  have "vs = []" "xs = []" using Nil.prems by (auto elim: bigs_NilE)
  moreover have "p = NilO" using Nil.prems(6) calculation by simp
  moreover have "building A st0 q st bg as ws us"
    using Nil.prems(5) roomy_less [of _ st q] unfolding building_def by auto
  ultimately show ?case by (auto simp: j bind_run)
next
  case (Cons e es)
  obtain j' where j: "j = Suc j'" using Cons.prems(4) by (cases j) auto
  obtain x xs' where xs: "xs = x # xs'" "ready (A \<union> set as) st x e env \<rho>" "all_ready (A \<union> set as) st xs' es env \<rho>"
    using Cons.prems(7) by (cases xs) auto
  obtain v c vs' k where v: "big \<rho> e v c" "bigs \<rho> es vs' k" "vs = v # vs'" "d = c + k + 1"
    using Cons.prems(1) by (auto elim: bigs_ConsE)
  obtain a nx where a: "p = Ref a" "pair_at (hide (A \<union> set as) st) a x nx" "list_at (hide (A \<union> set as) st) nx xs' NilO"
    using Cons.prems(6) xs(1) by auto
  have room: "roomy (q + 6 * d + 2) st" by (rule buildingD(1) [OF Cons.prems(5)])
  have inv: "building A st0 (q + 6 * k + 2 + 6 * c + 2) st (fst bg, snd bg) as ws us"
    using Cons.prems(5) roomy_less [OF room, of "q + 6 * k + 2 + 6 * c + 2"] v(4) unfolding building_def by simp
  have lt: "c < m" "c < n" using Cons.prems(2,3) v(4) by simp_all
  obtain bg1 h w st1 where 1: "arg_round ev env (Ref a) (fst bg, snd bg) st n = (Inr (Continue bg1), st1)"
      "building A st0 (q + 6 * k + 2) st1 bg1 (as @ [h]) (ws @ [w]) (us @ [v])"
      "extends (hide (A \<union> set as) st) (hide (A \<union> set (as @ [h])) st1)" "\<forall>b \<in> A \<union> set (as @ [h]). b < hp_next st1"
    using arg_round_run [OF ev inv xs(2) v(1) lt a(2)] by blast
  have "\<exists>bg' as' ws' st'. for_each_loop j' (arg_round ev env) nx bg1 st1 n = (Inr (NilO, Continue bg'), st') \<and>
      building A st0 q st' bg' as' ws' ((us @ [v]) @ vs')"
  proof (rule Cons.IH [OF v(2) _ _ _ 1(2)])
    show "list_at (hide (A \<union> set (as @ [h])) st1) nx xs' NilO" by (rule list_at_hkeep [OF extendsD(1) [OF 1(3)] a(3)])
    show "all_ready (A \<union> set (as @ [h])) st1 xs' es env \<rho>"
      by (rule all_ready_extends [OF xs(3) roomyD(2) [OF room] 1(3,4)])
  qed (use Cons.prems(2-4) v(4) j in auto)
  then obtain bg' as' ws' st' where 2: "for_each_loop j' (arg_round ev env) nx bg1 st1 n = (Inr (NilO, Continue bg'), st')"
      "building A st0 q st' bg' as' ws' (us @ vs)" unfolding v(3) by auto
  have "pair_at st1 a x nx" "pair_at st a x nx" using extendsD(2) [OF 1(3) a(2)] a(2) by (auto split: if_splits)
  then have "for_each_loop j (arg_round ev env) p bg st n = (Inr (NilO, Continue bg'), st')"
    using 1(1) 2(1) a(1) by (simp add: j bind_run del: bind_Inr)
  then show ?case using 2(2) by blast
qed

lemma chain_finish:
  assumes room: "roomy r st" and st0: "later st0 st" "\<forall>a \<in> set as. hp_next st0 \<le> a" and chain: "chain_at st b as ws"
  shows "\<exists>p st'. build_finish b NilO st n = (Inr p, st') \<and> list_at st' p ws NilO \<and> roomy r st' \<and> later st0 st' \<and>
    hide (A \<union> set as) st' = hide (A \<union> set as) st"
proof (cases b)
  case None
  then show ?thesis using chain room st0(1) by (simp add: build_finish_def chain_at_def)
next
  case (Some fp)
  then obtain front bs l d where b: "b = Some (front, Ref l)" "as = bs @ [l]" "distinct (bs @ [l])"
      "cells_at st front (bs @ [l]) ws d"
    using chain by (cases fp; cases as rule: rev_cases) (auto simp: chain_at_def)
  obtain y where y: "pair_at st l y d" using b(4) by (auto simp: cells_at_append)
  let ?st = "set_pair l y NilO st"
  have "roomy r ?st" "later st0 ?st"
    by (rule roomy_write [OF room st0(1) _ y]; use st0(2) b(2) wf_heapD(3) [OF roomyD(1) [OF room] y] in simp)+
  moreover have "list_at ?st front (ws @ []) NilO"
    by (rule cells_list_at [OF cells_at_set_pair [OF b(4,3) y]]) simp
  moreover have "build_finish b NilO st n = (Inr front, ?st)" using y by (simp add: build_finish_def b(1))
  ultimately show ?thesis using b(2) by (intro exI [of _ front] exI [of _ ?st]) simp
qed

text \<open>The values of the arguments, and the application of the procedure to them.\<close>

lemma procedure_call_run:
  assumes ev: "evals m ev" and bigs: "bigs \<rho> es vs d" "d < m" "d < n" and room: "roomy (q + 6 * d + 2) st"
    and args: "list_at (hide A st) args xs NilO" and ready: "all_ready A st xs es env \<rho>"
    and body: "\<And>vals ws st1. list_at st1 vals ws NilO \<Longrightarrow> list_all2 (rep (hide A st1)) ws vs \<Longrightarrow> roomy q st1 \<Longrightarrow>
      later st st1 \<Longrightarrow> \<exists>x st2. ap p vals \<lparr>lexical = p_env p, dynamic = dynamic env\<rparr> st1 n = (Inr x, st2) \<and>
        later st1 st2 \<and> outcome A r c v x st2"
  shows "\<exists>x st2. procedure_call ev ap p args env st n = (Inr x, st2) \<and> later st st2 \<and> outcome A r c v x st2"
proof -
  have len: "length es < n" using bigs_length [OF bigs(1)] bigs(3) by simp
  have start: "building A st (q + 6 * d + 2) st (None, None) [] [] []"
    using room by (simp add: building_def chain_at_def guard_ok_def)
  obtain bg as ws st1 where 1: "for_each_loop n (arg_round ev env) args (None, None) st n = (Inr (NilO, Continue bg), st1)"
      "building A st q st1 bg as ws vs"
    using args_loop_run [OF ev bigs len start, of args xs env] args ready by auto
  obtain b g where bg: "bg = (b, g)" by (cases bg)
  note inv = buildingD [OF 1(2) [unfolded bg], unfolded fst_conv snd_conv]
  obtain vals st2 where 2: "build_finish b NilO st1 n = (Inr vals, st2)" "list_at st2 vals ws NilO" "roomy q st2" "later st st2"
      "hide (A \<union> set as) st2 = hide (A \<union> set as) st1"
    using chain_finish [OF inv(1-4), of n A] by blast
  have "scopes st2 = scopes st1" using 2(5) by (metis hide_simps(2))
  then have "guard_ok st2 g" using inv(6) by (cases g) (auto simp: guard_ok_def)
  then obtain st3 where 3: "navi_gc_unguard g st2 n = (Inr (), st3)" "quiet_step st2 st3" "later st2 st3"
    using gc_unguard_run by blast
  note wf2 = roomyD(1) [OF 2(3)] and kp = later_kept [OF 3(3)]
  have ext: "extends (hide (A \<union> set as) st2) (hide A st3)" by (rule kept_extends [OF wf2 kp]) simp
  have "list_all2 (rep (hide A st3)) ws vs"
    by (rule list_all2_mono [OF inv(5) [folded 2(5)]]) (rule extends_rep [OF _ ext], use roomyD(2) [OF 2(3)] in simp)
  moreover note kept_list [OF wf2 kp 2(2)] quiet_stepD(2) [OF 3(2) 2(3)] later_trans [OF 2(4) 3(3)]
  ultimately obtain x st4 where 4: "ap p vals \<lparr>lexical = p_env p, dynamic = dynamic env\<rparr> st3 n = (Inr x, st4)"
      "later st3 st4" "outcome A r c v x st4"
    using body by blast
  have "procedure_call ev ap p args env st n = (Inr x, st4)"
    using 1(1) 2(1) 3(1) 4(1)
    by (simp add: procedure_call_def navi_list_for_each_def navi_apply_def navi_make_nil_def bg)
  then show ?thesis using 2(4) 3(3) 4(2,3) later_trans by meson
qed

section \<open>Arithmetic\<close>

lemma rep_number: "rep st x v \<Longrightarrow> word_of v = Some w \<Longrightarrow> x = Fixnum w"
  by (cases v rule: word_of.cases) (auto elim!: rep.cases code.cases)

lemma reps_numbers: "list_all2 (rep st) xs vs \<Longrightarrow> map word_of vs = map Some ws \<Longrightarrow> xs = map Fixnum ws"
proof (induction xs vs arbitrary: ws rule: list_all2_induct)
  case (Cons x xs v vs)
  then show ?case using rep_number by (cases ws) auto
qed simp

lemma number_lists [simp]:
  "type_in st \<circ> Fixnum = (\<lambda>_. NAVI_FIXNUM)" "num \<circ> Fixnum = sint" "non_number st (map Fixnum ws) = None"
  by (auto simp: fun_eq_iff find_None_iff)

lemma word_of_sum: "(word_of_int (sum_list (map sint ws)) :: 63 word) = sum_list ws"
  by (induction ws) simp_all

lemma word_of_prod: "(word_of_int (prod_list (map sint ws)) :: 63 word) = prod_list ws"
  by (induction ws) simp_all

lemma sum_one: "length ws = 1 \<Longrightarrow> hd (map Fixnum ws) = Fixnum (sum_list ws) \<and> hd (map Fixnum ws) = Fixnum (prod_list ws)"
  by (cases ws) auto

lemma chain_run:
  assumes "wf_heap st" and "list_at st args (map Fixnum ws) NilO" and "length ws < n" and "ws \<noteq> []" and "transp op"
  shows "numeric_comparison op args env st n = (Inr (BoolO (sorted_wrt op (map sint ws))), st)"
proof -
  obtain w us where ws: "ws = w # us" using assms(4) by (cases ws) auto
  show ?thesis
    using numeric_comparison_run [OF assms(1), of args "Fixnum w" "map Fixnum us" n op env] assms(2,3)
      chain_from_sorted [OF _ assms(5), of "map Fixnum us" st env "sint w"]
    by (simp add: ws del: list_at.simps chain_from.simps sorted_wrt.simps)
qed

lemma test_run:
  assumes "list_at st args (map Fixnum ws) NilO" and "length ws = 1"
  shows "numeric_predicate t args st n = (Inr (BoolO (t (sint (hd ws)))), st)"
  using assms by (cases ws) (auto simp: numeric_predicate_def bind_run navi_make_bool_def scm_arg1_def)

lemma prim_run:
  assumes "wf_heap st" and "list_at st args (map Fixnum ws) NilO" and "length ws < n" and "prim_val p ws = Some v"
  shows "\<exists>x. arith_call ev ap p (length ws) args env st n = (Inr x, st) \<and> v = Dat (Lit x) \<and> immediate x"
proof -
  have cmp: "transp ((<) :: int \<Rightarrow> int \<Rightarrow> bool)" "transp ((>) :: int \<Rightarrow> int \<Rightarrow> bool)" "transp ((\<le>) :: int \<Rightarrow> int \<Rightarrow> bool)"
    "transp ((\<ge>) :: int \<Rightarrow> int \<Rightarrow> bool)" "transp ((=) :: int \<Rightarrow> int \<Rightarrow> bool)" by (auto intro: transpI)
  note chain = chain_run [OF assms(1-3) _ cmp(1)] chain_run [OF assms(1-3) _ cmp(2)] chain_run [OF assms(1-3) _ cmp(3)]
    chain_run [OF assms(1-3) _ cmp(4)] chain_run [OF assms(1-3) _ cmp(5)]
  show ?thesis
    using assms(4)
  proof (cases p)
    case B_add
    then show ?thesis
      using sum_product_run [OF assms(1,2), of n env] assms(3,4) sum_one [of ws]
      by (auto simp: prim_val_def navi_make_fixnum_def word_of_sum immediate_def simp del: list_at.simps)
  next
    case B_mul
    then show ?thesis
      using sum_product_run [OF assms(1,2), of n env] assms(3,4) sum_one [of ws]
      by (auto simp: prim_val_def navi_make_fixnum_def word_of_prod immediate_def simp del: list_at.simps)
  next
    case B_sub
    then obtain w us where ws: "ws = w # us" using assms(4) by (cases ws) (auto simp: prim_val_def)
    have "scm_sub (Suc (length us)) args env st n =
        (Inr (navi_make_fixnum (if us = [] then - sint w else sint w - sum_list (map sint us))), st)"
      using difference_run [OF assms(1), of args "Fixnum w" "map Fixnum us" n env] assms(2,3)
      by (simp add: ws del: list_at.simps)
    then show ?thesis using B_sub assms(4)
      by (auto simp: ws prim_val_def navi_make_fixnum_def word_of_sum immediate_def)
  qed (use chain test_run [OF assms(2)] in \<open>auto simp: prim_val_def immediate_def scm_lt_def scm_gt_def scm_lte_def
      scm_gte_def scm_numeq_def scm_zerop_def scm_positivep_def scm_negativep_def simp del: list_at.simps split: if_splits\<close>)
qed

section \<open>Calls of procedures\<close>

lemma dispatch_procedure:
  assumes at: "proc_at (hide A st) a NAVI_PROCEDURE p" and ev: "evals m ev" and bigs: "bigs \<rho> es vs d" "d < m" "d < n"
    and room: "roomy (q + 6 * d + 2) st" and call: "list_at (hide A st) call (x1 # xs) NilO" and ready: "all_ready A st xs es env \<rho>"
    and body: "\<And>vals ws st1. list_at st1 vals ws NilO \<Longrightarrow> list_all2 (rep (hide A st1)) ws vs \<Longrightarrow> roomy q st1 \<Longrightarrow>
      later st st1 \<Longrightarrow> \<exists>x st2. ap p vals \<lparr>lexical = p_env p, dynamic = dynamic env\<rparr> st1 n = (Inr x, st2) \<and>
        later st1 st2 \<and> outcome A r c v x st2"
  shows "\<exists>x st2. dispatch ev ap call env (Ref a) st n = (Inr x, st2) \<and> later st st2 \<and> outcome A r c v x st2"
proof -
  obtain args where args: "navi_cdr call st n = (Inr args, st)" "list_at (hide A st) args xs NilO"
    using call by (auto split: if_splits)
  have "proc_at st a NAVI_PROCEDURE p" using at by (auto split: if_splits)
  then show ?thesis
    using procedure_call_run [where p = p and ap = ap, OF ev bigs room args(2) ready body] args(1) by (simp add: dispatch_def)
qed

lemma prim_arity:
  assumes "prim_val p ws = Some v"
  shows "length ws = sp_arity (arith_spec p) \<or> sp_variadic (arith_spec p) \<and> sp_arity (arith_spec p) < length ws"
    and "sp_types (arith_spec p) = replicate (sp_arity (arith_spec p)) (TType NAVI_FIXNUM)"
proof -
  have "(length ws = sp_arity (arith_spec p) \<or> sp_variadic (arith_spec p) \<and> sp_arity (arith_spec p) < length ws) \<and>
    sp_types (arith_spec p) = replicate (sp_arity (arith_spec p)) (TType NAVI_FIXNUM)"
    using assms by (cases p; cases ws) (auto simp: prim_val_def builtin_spec_def split: if_splits)
  then show "length ws = sp_arity (arith_spec p) \<or> sp_variadic (arith_spec p) \<and> sp_arity (arith_spec p) < length ws"
    and "sp_types (arith_spec p) = replicate (sp_arity (arith_spec p)) (TType NAVI_FIXNUM)" by blast+
qed

lemma rep_primE:
  assumes "rep st x (Prim b)"
  obtains a p where "x = Ref a" and "proc_at st a NAVI_PROCEDURE p" and "builtin_proc p (arith_spec b)"
    and "scopes st (p_env p) \<noteq> None"
  using assms by (cases rule: rep.cases) auto

lemma dispatch_prim:
  assumes rep: "rep (hide A st) proc (Prim p)" and ev: "evals m ev" and bigs: "bigs \<rho> es vs d" "d < m" "d < n"
    and room: "roomy (q + 6 * d + 2) st" and env: "env_ok st env"
    and call: "list_at (hide A st) call (x1 # xs) NilO" and ready: "all_ready A st xs es env \<rho>"
    and ws: "map word_of vs = map Some ws" "prim_val p ws = Some v"
  shows "\<exists>x st2. dispatch ev (navi_apply_body ev' (call_builtin ev' ap')) call env proc st n = (Inr x, st2) \<and> later st st2 \<and>
    outcome A q c v x st2"
proof -
  obtain a pr where a: "proc = Ref a" "proc_at (hide A st) a NAVI_PROCEDURE pr" "builtin_proc pr (arith_spec p)"
    "scopes st (p_env pr) \<noteq> None" using rep by (rule rep_primE, simp)
  let ?env = "\<lparr>lexical = p_env pr, dynamic = dynamic env\<rparr>"
  have len: "length ws < n" using bigs_length [OF bigs(1)] bigs(3) arg_cong [OF ws(1), of length] by simp
  show ?thesis
    unfolding a(1)
  proof (rule dispatch_procedure [OF a(2) ev bigs room call ready])
    fix vals os st1
    assume vals: "list_at st1 vals os NilO" and reps: "list_all2 (rep (hide A st1)) os vs" and room1: "roomy q st1" and l: "later st st1"
    have os: "os = map Fixnum ws" by (rule reps_numbers [OF reps ws(1)])
    have env1: "env_ok st1 ?env" using later_env [OF l, of ?env] a(4) env by simp
    note nums = vals [unfolded os]
    have "check_apply pr vals ?env st1 n = (Inr (length (map Fixnum ws)), st1)"
      by (rule check_apply_builtin [OF roomyD(1) [OF room1] a(3) nums _ _ prim_arity(2) [OF ws(2)]])
        (use len prim_arity(1) [OF ws(2)] in \<open>auto simp: arg_error_def\<close>)
    then have chk: "check_apply pr vals ?env st1 n = (Inr (length ws), st1)" by simp
    show "\<exists>x st2. navi_apply_body ev' (call_builtin ev' ap') pr vals ?env st1 n = (Inr x, st2) \<and> later st1 st2 \<and> outcome A q c v x st2"
    proof (rule apply_builtin_run [OF a(3) env1 chk])
      fix s
      assume s: "quiet_step st1 s" "later st1 s"
      have room_s: "roomy q s" by (rule quiet_stepD(2) [OF s(1) room1])
      have "list_at s vals (map Fixnum ws) NilO" by (rule kept_list [OF roomyD(1) [OF room1] later_kept [OF s(2)] nums])
      from prim_run [OF roomyD(1) [OF room_s] this len ws(2), of ev' ap' ?env] obtain x where
        x: "arith_call ev' ap' p (length ws) vals ?env s n = (Inr x, s)" "v = Dat (Lit x)" "immediate x" by blast
      have "outcome A q c v x s" using x(2,3) by (intro outcome_value [OF room_s]) (auto intro: rep_dat code_lit)
      then show "\<exists>x s2. call_builtin ev' ap' (sp_proc (arith_spec p)) (length ws) vals ?env s n = (Inr x, s2) \<and>
          later s s2 \<and> outcome A q c v x s2"
        using x(1) by simp
    qed
  qed
qed

text \<open>Closures: the parameters are bound in a new scope, and the body is evaluated there.\<close>

lemma zip_rel:
  assumes "list_all2 R xs ys" and "length ps = length xs"
  shows "rel_option R (map_of (rev (zip ps xs)) z) (map_of (rev (zip ps ys)) z)"
  using assms
proof (induction xs ys arbitrary: ps rule: list_all2_induct)
  case (Cons x xs y ys)
  then obtain p ps' where p: "ps = p # ps'" "length ps' = length xs" by (cases ps) auto
  have "rel_option R (map_of (rev (zip ps' xs)) z) (map_of (rev (zip ps' ys)) z)" by (rule Cons.IH [OF p(2)])
  then show ?case using Cons(1) p(1) by (cases "map_of (rev (zip ps' xs)) z") (auto simp: map_add_def rel_option_iff split: option.splits)
qed simp

lemma env_rep_extend:
  assumes "env_rep st s \<rho>" and "list_all2 (rep st) ws vs" and "length ps = length ws"
    and "visible st t = visible st s ++ map_of (rev (zip ps ws))"
  shows "env_rep st t (\<rho> ++ map_of (rev (zip ps vs)))"
  unfolding env_rep_def
proof (intro allI impI)
  fix x v
  assume x: "(\<rho> ++ map_of (rev (zip ps vs))) x = Some v"
  have rel: "rel_option (rep st) (map_of (rev (zip ps ws)) x) (map_of (rev (zip ps vs)) x)" by (rule zip_rel [OF assms(2,3)])
  show "\<exists>w. visible st t x = Some w \<and> rep st w v"
  proof (cases "map_of (rev (zip ps vs)) x")
    case None
    then show ?thesis using rel x assms(1) unfolding env_rep_def assms(4) by (simp add: map_add_def)
  next
    case (Some u)
    then show ?thesis using rel x unfolding assms(4) by (auto simp: map_add_def elim!: option.rel_cases)
  qed
qed

lemma rep_cloE:
  assumes "rep st x (Clo ps ys \<rho>)"
  obtains a p b os where "x = Ref a" and "proc_at st a NAVI_PROCEDURE p" and "\<not> p_variadic p" and "p_arity p = length ps"
    and "p_types p = None" and "p_code p = Body b" and "list_at st (p_args p) ps NilO" and "list_at st b os NilO"
    and "list_all2 (code st) os ys" and "scopes st (p_env p) \<noteq> None" and "env_rep st (p_env p) \<rho>"
  using assms by (cases rule: rep.cases) (auto simp: env_rep_def)

lemma release_run:
  assumes room: "roomy r st" and env: "env_ok st env" and l: "later st st2" and out: "outcome A q c v x st2"
    and ref: "referenced env st st2"
  shows "\<exists>st3. navi_env_unref env st2 n = (Inr (), st3) \<and> later st st3 \<and> outcome A q c v x st3"
proof -
  have up: "refs u + env_refs env s \<le> refs w" if "scopes st s = Some u" "scopes st2 s = Some w" for s u w
    using ref that unfolding referenced_def by fastforce
  have more: "env_refs env s < refs w" if w: "scopes st2 s = Some w" for s w
  proof (cases "scopes st s")
    case None
    then have "env_refs env s = 0" using env by (auto simp: env_refs_def)
    then show ?thesis using roomyD(3) [OF outcome_roomy [OF out] w] by simp
  next
    case (Some u)
    then show ?thesis using up [OF Some w] roomyD(3) [OF room Some] by simp
  qed
  obtain st3 where 3: "navi_env_unref env st2 n = (Inr (), st3)" "quiet_step st2 st3"
      "\<forall>s. scopes st3 s = map_option (\<lambda>sc. sc\<lparr>refs := refs sc - env_refs env s\<rparr>) (scopes st2 s)"
    using env_unref_run [OF outcome_roomy [OF out] later_env [OF l env] more, of n] by blast
  have "later st st3"
    by (rule later_unref [OF l keptD(1) [OF quiet_stepD(1) [OF 3(2)]] _ up]) (use 3(3) in simp_all)
  then show ?thesis using 3(1) outcome_quiet [OF out 3(2)] by blast
qed

lemma apply_body_run:
  assumes ev: "evals m ev" and p: "\<not> p_variadic p" "p_arity p = length ps" "p_types p = None" "p_code p = Body b"
    and ps: "list_at st (p_args p) ps NilO" and args: "list_at st args ws NilO" and len: "length ps = length ws" "length ws < n"
    and env: "env_ok st env" and rho: "env_rep (hide A st) (lexical env) \<rho>" and below: "\<forall>a \<in> A. a < hp_next st"
    and reps: "list_all2 (rep (hide A st)) ws vs"
    and bd: "list_at st b os NilO" "list_all2 (code (hide A st)) os ys"
    and sem: "seqs (\<rho> ++ map_of (rev (zip ps vs))) ys v k" "k < m" "k < n" "k \<le> c"
    and room: "roomy (q + 6 * k + 4) st"
  shows "\<exists>x st'. navi_apply_body ev bi p args env st n = (Inr x, st') \<and> later st st' \<and> outcome A q c v x st'"
proof -
  note ok = roomyD(1,2) [OF room]
  obtain new st1 sc where ext: "navi_extend_environment env (p_args p) args st n = (Inr \<lparr>lexical = new, dynamic = dynamic env\<rparr>, st1)"
      "new = sc_next st" "st1 = upd_scope (env_scope_st env st) new sc" "refs sc = 1"
      "visible st1 new = visible st (lexical env) ++ map_of (rev (zip ps ws))"
      "\<forall>s. scopes st s \<noteq> None \<longrightarrow> visible st1 s = visible st s" "scopes_ok st1"
    using extend_environment_run [OF ok(2) env ps args _ _ ok(1), of n] len by auto
  let ?env = "\<lparr>lexical = new, dynamic = dynamic env\<rparr>"
  have "roomy (q + 6 * k + 2 + 2) st" by (rule roomy_less [OF room]) simp
  from extend_room [OF this env] ext(2,3,4,7) have room1: "roomy (q + 6 * k + 2) st1" and l1: "later st st1" by auto
  note kp = later_kept [OF l1]
  note hx = kept_extends_same [OF ok(1) kp, of A]
  have okh: "scopes_ok (hide A st)" using ok(2) by simp
  have env1: "env_ok st1 ?env" using later_env [OF l1 env] ext(3) by simp
  have "env_rep (hide A st1) new (\<rho> ++ map_of (rev (zip ps vs)))"
  proof (rule env_rep_extend [OF _ _ len(1)])
    show "env_rep (hide A st1) (lexical env) \<rho>" by (rule extends_env_rep [OF okh hx _ rho]) (use env in simp)
    show "list_all2 (rep (hide A st1)) ws vs" by (rule list_all2_mono [OF reps]) (rule extends_rep [OF okh hx])
    show "visible (hide A st1) new = visible (hide A st1) (lexical env) ++ map_of (rev (zip ps ws))"
      using ext(5,6) env by simp
  qed
  moreover have "\<forall>a \<in> A. a < hp_next st1" using below later_hp_next [OF l1] by fastforce
  ultimately have ready: "all_ready A st1 os ys ?env (\<rho> ++ map_of (rev (zip ps vs)))"
    using env1 by (intro list_all2_mono [OF bd(2)]) (auto simp: ready_def intro: extends_code [OF hx])
  obtain x st2 where 2: "scm_begin ev 0 b ?env st1 n = (Inr x, st2)" "later st1 st2" "outcome A q k v x st2" "referenced ?env st1 st2"
    using begin_run [OF ev sem(1-3) room1 kept_list [OF ok(1) kp bd(1)] ready] by blast
  obtain st3 where 3: "navi_env_unref ?env st2 n = (Inr (), st3)" "later st1 st3" "outcome A q k v x st3"
    using release_run [OF room1 env1 2(2-4)] by blast
  have out3: "outcome A q c v x st3" by (rule outcome_more [OF 3(3) sem(4)]) simp
  have l03: "later st st3" by (rule later_trans [OF l1 3(2)])
  obtain st4 where 4: "bind (navi_gc_guard x env) (\<lambda>g. bind (navi_gc_unguard g) (\<lambda>_. ret x)) st3 n = (Inr x, st4)"
      "later st3 st4" "outcome A q c v x st4"
    using touch_run [OF later_env [OF l03 env] out3] by blast
  have "check_apply p args env st n = (Inr (length ws), st)"
    using list_length_run [OF args len(2)] len(1) p(1,2,3) by (simp add: check_apply_def navi_arity_satisfied_def bind_run)
  then have "navi_apply_body ev bi p args env st n = (Inr x, st4)"
    using ext(1) 2(1) 3(1) 4(1) by (simp add: navi_apply_body_def do_apply_def p(4) bind_run)
  then show ?thesis using later_trans [OF l03 4(2)] 4(3) by blast
qed

lemma dispatch_clo:
  assumes rep: "rep (hide A st) proc (Clo ps ys \<rho>')" and ev: "evals m ev" and ev': "evals m' ev'"
    and bigs: "bigs \<rho> es vs d" "d < m" "d < n" and room: "roomy (q + 6 * k + 4 + 6 * d + 2) st" and env: "env_ok st env"
    and call: "list_at (hide A st) call (x1 # xs) NilO" and ready: "all_ready A st xs es env \<rho>"
    and below: "\<forall>a \<in> A. a < hp_next st" and len: "length ps = length vs"
    and sem: "seqs (\<rho>' ++ map_of (rev (zip ps vs))) ys v k" "k < m'" "k < n" "k \<le> c"
  shows "\<exists>x st2. dispatch ev (navi_apply_body ev' bi) call env proc st n = (Inr x, st2) \<and> later st st2 \<and> outcome A q c v x st2"
proof -
  obtain a p b os where p: "proc = Ref a" "proc_at (hide A st) a NAVI_PROCEDURE p" "\<not> p_variadic p" "p_arity p = length ps"
    "p_types p = None" "p_code p = Body b" "list_at (hide A st) (p_args p) ps NilO" "list_at (hide A st) b os NilO"
    "list_all2 (code (hide A st)) os ys" "scopes (hide A st) (p_env p) \<noteq> None" "env_rep (hide A st) (p_env p) \<rho>'"
    using rep by (rule rep_cloE) blast
  let ?env = "\<lparr>lexical = p_env p, dynamic = dynamic env\<rparr>"
  show ?thesis
    unfolding p(1)
  proof (rule dispatch_procedure [OF p(2) ev bigs room call ready])
    fix vals ws st1
    assume vals: "list_at st1 vals ws NilO" and reps: "list_all2 (rep (hide A st1)) ws vs"
      and room1: "roomy (q + 6 * k + 4) st1" and l: "later st st1"
    note hx = kept_extends_same [OF roomyD(1) [OF room] later_kept [OF l], of A]
    note keep = hidden_list [OF hidden_list_later [OF _ room l]]
    have "length ws = length vs" using reps by (rule list_all2_lengthD)
    then have lens: "length ps = length ws" "length ws < n" using len bigs_length [OF bigs(1)] bigs(3) by simp_all
    have env1: "env_ok st1 ?env" using later_env [OF l, of ?env] p(10) env by simp
    have rho: "env_rep (hide A st1) (lexical ?env) \<rho>'"
      using extends_env_rep [OF _ hx p(10,11)] roomyD(2) [OF room] by simp
    have below1: "\<forall>a \<in> A. a < hp_next st1" using below later_hp_next [OF l] by fastforce
    have code: "list_all2 (code (hide A st1)) os ys" by (rule list_all2_mono [OF p(9)]) (rule extends_code [OF hx])
    show "\<exists>x st2. navi_apply_body ev' bi p vals ?env st1 n = (Inr x, st2) \<and> later st1 st2 \<and> outcome A q c v x st2"
      by (rule apply_body_run [OF ev' p(3-6) keep [OF p(7)] vals lens env1 rho below1 reps keep [OF p(8)] code sem room1])
  qed
qed

end
