(* ===== verification/Spec_Eval.thy ===== *)
theory Spec_Eval
  imports Spec_Call
begin

text \<open>
  The evaluator (\<open>eval.c\<close>) against the semantics of \<open>Spec_Core\<close>: enough fuel gives the value that
  the semantics gives.
\<close>

section \<open>A step\<close>

lemma big_pos: "big \<rho> e v c \<Longrightarrow> 0 < c"
  by (cases rule: big.cases) auto

lemma form_length: "big \<rho> (Form f es) v c \<Longrightarrow> length es + 2 \<le> c"
  by (cases rule: big.cases) (auto dest: seqs_length bigs_length)

text \<open>The dispatch on the type of an expression.\<close>

lemma eval_lit: "immediate x \<Longrightarrow> eval_depth ev ap (Suc j) x env st n = (Inr x, st)"
  by (cases x) (simp_all add: immediate_def)

lemma eval_sym:
  assumes "heap st a = Some ob" and "obj_type ob = NAVI_SYMBOL" and "roomy r st" and "scopes st (lexical env) \<noteq> None"
    and "visible st (lexical env) (Ref a) = Some x" and "valid_obj st x" and "type_in st x \<noteq> NAVI_VOID"
  shows "eval_depth ev ap (Suc j) (Ref a) env st n = (Inr x, st)"
proof -
  have "navi_env_lookup (lexical env) (Ref a) st n = (Inr x, st)"
    using env_lookup_run [OF roomyD(2) [OF assms(3)] assms(4), of "Ref a" n] assms(5) by simp
  then show ?thesis using assms(1,2,6,7) by (simp add: bind_run navi_is_void_def type_is_valid)
qed

lemma eval_pair:
  assumes "list_at st p (x # xs) NilO" and "Suc (length xs) < n"
  shows "eval_depth ev ap (Suc j) p env st n = eval_call ev ap p env st n"
proof -
  have "navi_is_proper_list p st n = (Inr True, st)" using proper_list_run [OF assms(1)] assms(2) by simp
  then show ?thesis using assms(1) by (auto simp: bind_run)
qed

text \<open>
  Each form, when the subexpressions are evaluated by \<open>ev\<close> in the operator and operand positions
  and by \<open>ev'\<close> in the procedures written in C.
\<close>

lemma quote_form:
  assumes ev: "evals (Suc m) ev" and f: "big \<rho> f (Special B_quote) c0" and c: "c0 + 5 \<le> Suc m" "c0 + 5 < n"
    and room: "roomy (q + 6 * (c0 + 5)) st" and call: "list_at (hide A st) p (x1 # xs) NilO"
    and ready: "all_ready A st (x1 # xs) [f, y] env \<rho>"
  shows "\<exists>x st'. eval_call ev (navi_apply_body ev' (call_builtin ev' ap')) p env st n = (Inr x, st') \<and> later st st' \<and>
    outcome A q d (Dat y) x st'"
proof -
  have room0: "roomy (q + 6 * c0 + 2) st" by (rule roomy_less [OF room]) simp
  obtain x0 where xs: "xs = [x0]" using ready by (auto simp: list_all2_Cons2)
  show ?thesis
  proof (rule special_run [where bi = "call_builtin ev' ap'" and ev' = ev', OF ev f _ _ room0 ready call])
    fix st1 args
    assume 1: "roomy q st1" "list_at (hide A st1) args xs NilO" "all_ready A st1 xs [y] env \<rho>"
    have "outcome A q d (Dat y) x0 st1"
      using 1(3) by (intro outcome_value [OF 1(1) rep_dat]) (simp add: xs ready_def)
    moreover have "scm_quote (length xs) args env st1 n = (Inr x0, st1)"
      using args1 [OF hidden_list [OF 1(2), unfolded xs]] by (simp add: scm_quote_def)
    ultimately show "\<exists>x st2. call_builtin ev' ap' (SpecialB B_quote) (length xs) args env st1 n = (Inr x, st2) \<and>
        later st1 st2 \<and> outcome A q d (Dat y) x st2" by simp
  qed (use c xs in \<open>simp_all add: builtin_spec_def\<close>)
qed

lemma if_form:
  assumes ev: "evals (Suc m) ev" and ev': "evals m ev'" and f: "big \<rho> f (Special B_if) c0" and test: "big \<rho> x u d"
    and branch: "u \<noteq> False_val \<and> z = y \<or> u = False_val \<and> zs = [z]" "length zs \<le> 1" and z: "big \<rho> z v k"
    and c: "c0 + d + k + 7 \<le> Suc m" "c0 + d + k + 7 < n" and room: "roomy (q + 6 * (c0 + d + k + 7)) st"
    and call: "list_at (hide A st) p (x1 # xs) NilO" and ready: "all_ready A st (x1 # xs) (f # x # y # zs) env \<rho>"
  shows "\<exists>r st'. eval_call ev (navi_apply_body ev' (call_builtin ev' ap')) p env st n = (Inr r, st') \<and> later st st' \<and>
    outcome A q (c0 + d + k + 7) v r st'"
proof -
  have room0: "roomy (q + 6 * k + 2 + 6 * d + 2 + 6 * c0 + 2) st" by (rule roomy_less [OF room]) simp
  have len: "length xs = Suc (Suc (length zs))" using list_all2_lengthD [OF ready] by simp
  show ?thesis
  proof (rule special_run [where bi = "call_builtin ev' ap'" and ev' = ev', OF ev f _ _ room0 ready call])
    fix st1 args
    assume 1: "roomy (q + 6 * k + 2 + 6 * d + 2) st1" "list_at (hide A st1) args xs NilO" "all_ready A st1 xs (x # y # zs) env \<rho>"
    show "\<exists>r st2. call_builtin ev' ap' (SpecialB B_if) (length xs) args env st1 n = (Inr r, st2) \<and>
        later st1 st2 \<and> outcome A q (c0 + d + k + 7) v r st2"
      using if_run [OF ev' hidden_list [OF 1(2)] 1(3) branch(2) test _ _ branch(1) z _ 1(1)] c by simp
  qed (use c len branch(2) in \<open>simp_all add: builtin_spec_def numeral_2_eq_2\<close>)
qed

lemma begin_form:
  assumes ev: "evals (Suc m) ev" and ev': "evals m ev'" and f: "big \<rho> f (Special B_begin) c0" and sem: "seqs \<rho> es v k"
    and c: "c0 + k + 5 \<le> Suc m" "c0 + k + 5 < n" and room: "roomy (q + 6 * (c0 + k + 5)) st"
    and call: "list_at (hide A st) p (x1 # xs) NilO" and ready: "all_ready A st (x1 # xs) (f # es) env \<rho>"
  shows "\<exists>x st'. eval_call ev (navi_apply_body ev' (call_builtin ev' ap')) p env st n = (Inr x, st') \<and> later st st' \<and>
    outcome A q (c0 + k + 5) v x st'"
proof -
  have room0: "roomy (q + 6 * k + 2 + 6 * c0 + 2) st" by (rule roomy_less [OF room]) simp
  have len: "length xs = length es" using list_all2_lengthD [OF ready] by simp
  have ne: "length xs = Suc 0 \<or> Suc 0 < length xs" using seqs_length [OF sem] len by (cases xs) auto
  have kn: "k < m" "k < n" using c by simp_all
  show ?thesis
  proof (rule special_run [where bi = "call_builtin ev' ap'" and ev' = ev', OF ev f _ _ room0 ready call])
    fix st1 args
    assume 1: "roomy (q + 6 * k + 2) st1" "list_at (hide A st1) args xs NilO" "all_ready A st1 xs es env \<rho>"
    from begin_run [OF ev' sem kn 1(1) hidden_list [OF 1(2)] 1(3), of "length xs"] obtain x st2 where
      "scm_begin ev' (length xs) args env st1 n = (Inr x, st2)" "later st1 st2" "outcome A q k v x st2" by blast
    then show "\<exists>x st2. call_builtin ev' ap' (SpecialB B_begin) (length xs) args env st1 n = (Inr x, st2) \<and>
        later st1 st2 \<and> outcome A q (c0 + k + 5) v x st2"
      using outcome_more [of A q k v x st2 "c0 + k + 5" q] by simp
  qed (use c ne len seqs_length [OF sem] in \<open>simp_all add: builtin_spec_def\<close>)
qed

lemma alts_builtin:
  "call_builtin ev ap (SpecialB (if b then B_or else B_and)) i args env = alts_call b ev args env"
proof -
  have "call_builtin ev ap (SpecialB B_and) i args env = scm_and ev i args env"
    "call_builtin ev ap (SpecialB B_or) i args env = scm_or ev i args env" by simp_all
  then show ?thesis unfolding alts_calls by (induct b) (simp_all only: if_True if_False)
qed

lemma alts_form:
  assumes ev: "evals (Suc m) ev" and ev': "evals m ev'" and f: "big \<rho> f (Special s) c0" and sem: "alts b \<rho> es v k"
    and s: "s = (if b then B_or else B_and)"
    and c: "c0 + k + length es + 5 \<le> Suc m" "c0 + k + length es + 5 < n" and room: "roomy (q + 6 * (c0 + k + length es + 5)) st"
    and call: "list_at (hide A st) p (x1 # xs) NilO" and ready: "all_ready A st (x1 # xs) (f # es) env \<rho>"
  shows "\<exists>x st'. eval_call ev (navi_apply_body ev' (call_builtin ev' ap')) p env st n = (Inr x, st') \<and> later st st' \<and>
    outcome A q (c0 + k + length es + 5) v x st'"
proof -
  have room0: "roomy (q + 6 * k + 2 + 6 * c0 + 2) st" by (rule roomy_less [OF room]) simp
  have len: "length xs = length es" using list_all2_lengthD [OF ready] by simp
  have kn: "k < m" "k + length es < n" using c by simp_all
  show ?thesis
  proof (rule special_run [where bi = "call_builtin ev' ap'" and ev' = ev', OF ev f _ _ room0 ready call])
    fix st1 args
    assume 1: "roomy (q + 6 * k + 2) st1" "list_at (hide A st1) args xs NilO" "all_ready A st1 xs es env \<rho>"
    from alts_run [OF ev' sem kn 1(1) hidden_list [OF 1(2)] 1(3)] obtain x st2 where
      "alts_call b ev' args env st1 n = (Inr x, st2)" "later st1 st2" "outcome A q k v x st2" by blast
    then show "\<exists>x st2. call_builtin ev' ap' (SpecialB s) (length xs) args env st1 n = (Inr x, st2) \<and>
        later st1 st2 \<and> outcome A q (c0 + k + length es + 5) v x st2"
      unfolding s alts_builtin using outcome_more [of A q k v x st2 "c0 + k + length es + 5" q] by simp
  qed (use c len s in \<open>simp_all add: builtin_spec_def\<close>)
qed

lemma lambda_form:
  assumes ev: "evals (Suc m) ev" and f: "big \<rho> f (Special B_lambda) c0" and formals: "formals y = Some ps" and ys: "ys \<noteq> []"
    and c: "c0 + length ps + length ys + 6 \<le> Suc m" "c0 + length ps + length ys + 6 < n"
    and room: "roomy (q + 6 * (c0 + length ps + length ys + 6)) st"
    and call: "list_at (hide A st) p (x1 # xs) NilO" and ready: "all_ready A st (x1 # xs) (f # y # ys) env \<rho>"
  shows "\<exists>x st'. eval_call ev (navi_apply_body ev' (call_builtin ev' ap')) p env st n = (Inr x, st') \<and> later st st' \<and>
    outcome A q d (Clo ps ys \<rho>) x st'"
proof -
  have room0: "roomy (Suc q + 6 * c0 + 2) st" by (rule roomy_less [OF room]) simp
  obtain fo bs where xs: "xs = fo # bs" using ready by (auto simp: list_all2_Cons2)
  have bs: "length bs = Suc 0 \<or> Suc 0 < length bs" "length bs = length ys"
    using list_all2_lengthD [OF ready] ys by (cases ys; simp add: xs)+
  show ?thesis
  proof (rule special_run [where bi = "call_builtin ev' ap'" and ev' = ev', OF ev f _ _ room0 ready call])
    fix st1 args
    assume 1: "roomy (Suc q) st1" "list_at (hide A st1) args xs NilO" "all_ready A st1 xs (y # ys) env \<rho>"
    have fo: "ready A st1 fo y env \<rho>" and rbs: "all_ready A st1 bs ys env \<rho>" using 1(3) by (simp_all add: xs)
    have code: "list_all2 (code (hide A st1)) bs ys" by (rule list_all2_mono [OF rbs]) (rule readyD(3))
    show "\<exists>x st2. call_builtin ev' ap' (SpecialB B_lambda) (length xs) args env st1 n = (Inr x, st2) \<and>
        later st1 st2 \<and> outcome A q d (Clo ps ys \<rho>) x st2"
      using lambda_run [OF 1(1) 1(2) [unfolded xs] fo formals code ys] c(2) by simp
  qed (use c bs xs in \<open>simp_all add: builtin_spec_def numeral_2_eq_2\<close>)
qed

lemma prim_form:
  assumes ev: "evals (Suc m) ev" and f: "big \<rho> f (Prim pr) c0" and args: "bigs \<rho> es vs d"
    and val: "map word_of vs = map Some ws" "prim_val pr ws = Some v" and c: "c0 + d + 5 \<le> Suc m" "c0 + d + 5 < n"
    and room: "roomy (q + 6 * (c0 + d + 5)) st" and call: "list_at (hide A st) p (x1 # xs) NilO"
    and ready: "all_ready A st (x1 # xs) (f # es) env \<rho>"
  shows "\<exists>x st'. eval_call ev (navi_apply_body ev' (call_builtin ev' ap')) p env st n = (Inr x, st') \<and> later st st' \<and>
    outcome A q k v x st'"
proof -
  have x1: "ready A st x1 f env \<rho>" and rxs: "all_ready A st xs es env \<rho>" using ready by simp_all
  have room0: "roomy (q + 6 * d + 2 + 6 * c0 + 2) st" by (rule roomy_less [OF room]) simp
  have lt: "c0 < Suc m" "c0 < n" "d < Suc m" "d < n" using c by simp_all
  show ?thesis
  proof (rule call_run [OF ev f lt(1,2) room0 x1 call])
    fix proc st1
    assume 1: "rep (hide A st1) proc (Prim pr)" "roomy (q + 6 * d + 2) st1" "later st st1"
    show "\<exists>x st2. dispatch ev (navi_apply_body ev' (call_builtin ev' ap')) p env proc st1 n = (Inr x, st2) \<and>
        later st1 st2 \<and> outcome A q k v x st2"
      by (rule dispatch_prim [OF 1(1) ev args lt(3,4) 1(2) later_env [OF 1(3) readyD(1) [OF x1]]
          hidden_list_later [OF call room 1(3)] all_ready_later [OF rxs room later_kept [OF 1(3)]] val])
  qed
qed

lemma call_form:
  assumes ev: "evals (Suc m) ev" and ev': "evals m ev'" and f: "big \<rho> f (Clo ps ys \<rho>') c0" and args: "bigs \<rho> es vs d"
    and sem: "length ps = length vs" "seqs (\<rho>' ++ map_of (rev (zip ps vs))) ys v k"
    and c: "c0 + d + k + 6 \<le> Suc m" "c0 + d + k + 6 < n" and room: "roomy (q + 6 * (c0 + d + k + 6)) st"
    and call: "list_at (hide A st) p (x1 # xs) NilO" and ready: "all_ready A st (x1 # xs) (f # es) env \<rho>"
  shows "\<exists>x st'. eval_call ev (navi_apply_body ev' (call_builtin ev' ap')) p env st n = (Inr x, st') \<and> later st st' \<and>
    outcome A q (c0 + d + k + 6) v x st'"
proof -
  have x1: "ready A st x1 f env \<rho>" and rxs: "all_ready A st xs es env \<rho>" using ready by simp_all
  have room0: "roomy (q + 6 * k + 4 + 6 * d + 2 + 6 * c0 + 2) st" by (rule roomy_less [OF room]) simp
  have lt: "c0 < Suc m" "c0 < n" "d < Suc m" "d < n" "k < m" "k < n" "k \<le> c0 + d + k + 6" using c by simp_all
  show ?thesis
  proof (rule call_run [OF ev f lt(1,2) room0 x1 call])
    fix proc st1
    assume 1: "rep (hide A st1) proc (Clo ps ys \<rho>')" "roomy (q + 6 * k + 4 + 6 * d + 2) st1" "later st st1"
    have below: "\<forall>a \<in> A. a < hp_next st1" using readyD(4) [OF x1] later_hp_next [OF 1(3)] by fastforce
    show "\<exists>x st2. dispatch ev (navi_apply_body ev' (call_builtin ev' ap')) p env proc st1 n = (Inr x, st2) \<and>
        later st1 st2 \<and> outcome A q (c0 + d + k + 6) v x st2"
      by (rule dispatch_clo [OF 1(1) ev ev' args lt(3,4) 1(2) later_env [OF 1(3) readyD(1) [OF x1]]
          hidden_list_later [OF call room 1(3)] all_ready_later [OF rxs room later_kept [OF 1(3)]] below sem lt(5-7)])
  qed
qed

lemma form_run:
  assumes ev: "evals (Suc m) ev" and ev': "evals m ev'" and big: "big \<rho> (Form f es) v c" and c: "c \<le> Suc m" "c < n"
    and room: "roomy (q + 6 * c) st" and call: "list_at (hide A st) p (x1 # xs) NilO"
    and ready: "all_ready A st (x1 # xs) (f # es) env \<rho>"
  shows "\<exists>x st'. eval_call ev (navi_apply_body ev' (call_builtin ev' ap')) p env st n = (Inr x, st') \<and> later st st' \<and>
    outcome A q c v x st'"
  using big
proof (cases rule: big.cases)
  case b: (big_quote c0 y)
  show ?thesis using c room ready unfolding b(1-3) by (intro quote_form [OF ev b(4) _ _ _ call])
next
  case b: (big_if_true c0 y u d z k zs)
  have branch: "u \<noteq> False_val \<and> z = z \<or> u = False_val \<and> zs = [z]" using b(5) by simp
  show ?thesis using c room ready unfolding b(1,2) by (intro if_form [OF ev ev' b(3,4) branch b(7,6) _ _ _ call])
next
  case b: (big_if_false c0 y d z k t)
  have branch: "False_val \<noteq> False_val \<and> z = t \<or> False_val = False_val \<and> [z] = [z]" "length [z] \<le> 1" by simp_all
  show ?thesis using c room ready unfolding b(1,2) by (intro if_form [OF ev ev' b(3,4) branch b(5) _ _ _ call])
next
  case b: (big_begin c0 k)
  show ?thesis using c room ready unfolding b(1) by (intro begin_form [OF ev ev' b(2,3) _ _ _ call])
next
  case b: (big_and c0 k)
  show ?thesis using c room ready unfolding b(1) by (intro alts_form [OF ev ev' b(2,3) _ _ _ _ call]) simp_all
next
  case b: (big_or c0 k)
  show ?thesis using c room ready unfolding b(1) by (intro alts_form [OF ev ev' b(2,3) _ _ _ _ call]) simp_all
next
  case b: (big_lambda c0 y ps ys)
  show ?thesis using c room ready unfolding b(1-3) by (intro lambda_form [OF ev b(4-6) _ _ _ call])
next
  case b: (big_prim pr c0 vs d ws)
  show ?thesis using c room ready unfolding b(1) by (intro prim_form [OF ev b(2-5) _ _ _ call])
next
  case b: (big_call ps ys \<rho>' c0 vs d k)
  show ?thesis using c room ready unfolding b(1) by (intro call_form [OF ev ev' b(2-5) _ _ _ call])
qed

lemma step_run:
  assumes ev: "evals (Suc m) ev" and ev': "evals m ev'" and big: "big \<rho> e v c" and c: "c \<le> Suc m" "c < n"
    and room: "roomy (q + 6 * c) st" and ready: "ready A st x e env \<rho>"
  shows "\<exists>r st'. eval_depth ev (navi_apply_body ev' (call_builtin ev' ap')) (Suc j) x env st n = (Inr r, st') \<and> later st st' \<and>
    outcome A q c v r st'"
proof -
  have room0: "roomy q st" by (rule roomy_less [OF room]) simp
  note code = readyD(3) [OF ready]
  show ?thesis
  proof (cases e)
    case (Lit y)
    have x: "x = y" "immediate x" "v = Dat (Lit x)"
      using code big unfolding Lit by (auto elim!: code.cases big.cases)
    have "outcome A q c v x st" unfolding x(3) by (rule outcome_value [OF room0 rep_dat [OF code_lit [OF x(2)]]])
    then show ?thesis using eval_lit [OF x(2)] by (metis later_refl)
  next
    case (Sym s)
    obtain a ob where a: "x = Ref a" "s = Ref a" "heap (hide A st) a = Some ob" "obj_type ob = NAVI_SYMBOL"
      using code unfolding Sym by (auto elim!: code.cases)
    have "\<rho> s = Some v" using big unfolding Sym by (auto elim!: big.cases)
    then obtain w where w: "visible st (lexical env) (Ref a) = Some w" "rep (hide A st) w v"
      using readyD(2) [OF ready] a(2) by (auto simp: env_rep_def)
    have val: "valid_obj (hide A st) w" by (rule rep_valid [OF w(2)])
    have "type_in st w \<noteq> NAVI_VOID" using extends_type [OF extends_unhide val] rep_type(2) [OF w(2)] by simp
    moreover have "valid_obj st w" by (rule valid_obj_hkeep [OF extendsD(1) [OF extends_unhide] val])
    moreover have "heap st a = Some ob" using a(3) by (auto split: if_splits)
    ultimately have "eval_depth ev (navi_apply_body ev' (call_builtin ev' ap')) (Suc j) (Ref a) env st n = (Inr w, st)"
      using readyD(1) [OF ready] by (intro eval_sym [OF _ a(4) room _ w(1)]) auto
    then show ?thesis using outcome_value [OF room0 w(2)] a(1) by (metis later_refl)
  next
    case (Form f es)
    obtain os where os: "list_at (hide A st) x os NilO" "list_all2 (code (hide A st)) os (f # es)"
      using code unfolding Form by (auto elim: code.cases)
    obtain x1 xs where xs: "os = x1 # xs" using os(2) by (cases os) auto
    have rd: "all_ready A st (x1 # xs) (f # es) env \<rho>"
      unfolding xs [symmetric] by (rule list_all2_mono [OF os(2)]) (use ready in \<open>simp add: ready_def\<close>)
    have "length (x1 # xs) = length (f # es)" using rd by (rule list_all2_lengthD)
    then have "Suc (length xs) < n" using form_length [OF big [unfolded Form]] c(2) by simp
    note pair = eval_pair [OF hidden_list [OF os(1), unfolded xs] this]
    show ?thesis
      unfolding pair by (rule form_run [OF ev ev' big [unfolded Form] c room os(1) [unfolded xs] rd])
  qed
qed

section \<open>Rounds\<close>

text \<open>Steps are made as long as they give bounces, each with fewer steps to go.\<close>

lemma bounce_run:
  assumes ev: "evals (Suc m) ev" and ev': "evals m ev'" and sus: "suspended A q (Suc c) v x st" and c: "c \<le> Suc m" "c < n"
  shows "\<exists>r st'. eval_once ev (navi_apply_body ev' (call_builtin ev' ap')) x env st n = (Inr r, st') \<and> later st st' \<and>
    outcome A q c v r st'"
  using sus
proof (cases rule: suspended.cases)
  case b: (suspendedI a e env' \<rho> y k)
  have k: "k \<le> Suc m" "k < n" "0 < k" using b(4) c big_pos [OF b(3)] by simp_all
  obtain j where n: "n = Suc (Suc j)" using k(2,3) by (cases n; cases "n - 1") auto
  obtain r st' where r: "eval_depth ev (navi_apply_body ev' (call_builtin ev' ap')) (Suc j) e env' st n = (Inr r, st')"
    "later st st'" "outcome A q k v r st'"
    using step_run [OF ev ev' b(3) k(1,2) b(6,5)] by blast
  have "eval_once ev (navi_apply_body ev' (call_builtin ev' ap')) x env st n = (Inr r, st')"
    using r(1) b(2) by (simp add: eval_once_def b(1) n bind_run navi_thunk_def del: eval_depth.simps(2) [of _ _ j])
  then show ?thesis using r(2) outcome_more [OF r(3), of c q] b(4) by auto
qed

lemma eval_rounds_Suc:
  "eval_rounds ev ap (Suc k) expr env =
     bind (bind (navi_gc_guard expr env) (\<lambda>g. bind (eval_once ev ap expr env) (\<lambda>r. bind (navi_gc_unguard g) (\<lambda>_. ret r))))
       (\<lambda>r. bind (navi_is_bounce r) (\<lambda>b. if b then eval_rounds ev ap k r env else ret r))"
  by (simp add: bind_assoc)

lemma rounds_run:
  assumes "outcome A r c v y st"
    and more: "suspended A r c v y st \<Longrightarrow>
      \<exists>z st'. eval_rounds ev ap j y env st n = (Inr z, st') \<and> roomy r st' \<and> later st st' \<and> rep (hide A st') z v"
  shows "\<exists>z st'. bind (navi_is_bounce y) (\<lambda>b. if b then eval_rounds ev ap j y env else ret y) st n = (Inr z, st') \<and>
    roomy r st' \<and> later st st' \<and> rep (hide A st') z v"
proof -
  have val: "valid_obj st y" by (rule outcome_valid [OF assms(1)])
  from assms(1) show ?thesis
  proof (cases rule: outcome_cases)
    case final
    have "type_in st y \<noteq> NAVI_BOUNCE"
      using extends_type [OF extends_unhide rep_valid [OF final(2)]] rep_type(1) [OF final(2)] by simp
    then have "navi_is_bounce y st n = (Inr False, st)" using val by (simp add: navi_is_bounce_def type_is_valid)
    then show ?thesis using final by (intro exI [of _ y] exI [of _ st]) (simp add: bind_run)
  next
    case bounce
    then have "type_in st y = NAVI_BOUNCE" by (cases rule: suspended.cases) simp
    then have "navi_is_bounce y st n = (Inr True, st)" using val by (simp add: navi_is_bounce_def type_is_valid)
    then show ?thesis using more [OF bounce] by simp
  qed
qed

lemma bounces_run:
  assumes ev: "evals (Suc m) ev" and ev': "evals m ev'"
  shows "suspended A r c v x st \<Longrightarrow> env_ok st env \<Longrightarrow> c \<le> Suc (Suc m) \<Longrightarrow> c \<le> n \<Longrightarrow> c \<le> j \<Longrightarrow>
    \<exists>y st'. eval_rounds ev (navi_apply_body ev' (call_builtin ev' ap')) j x env st n = (Inr y, st') \<and> roomy r st' \<and>
      later st st' \<and> rep (hide A st') y v"
proof (induction c arbitrary: x st j)
  case 0
  then show ?case by (auto elim: suspended.cases)
next
  case (Suc c)
  let ?ap = "navi_apply_body ev' (call_builtin ev' ap')"
  obtain j' where j: "j = Suc j'" using Suc.prems(5) by (cases j) auto
  obtain y st1 where 1: "bind (navi_gc_guard x env) (\<lambda>g. bind (eval_once ev ?ap x env) (\<lambda>r. bind (navi_gc_unguard g) (\<lambda>_. ret r)))
      st n = (Inr y, st1)" "later st st1" "outcome A r c v y st1"
  proof (atomize_elim, rule guarded_run [OF Suc.prems(2)])
    fix s
    assume "quiet_step st s"
    then have sus: "suspended A r (Suc c) v x s" by (rule suspended_quiet [OF Suc.prems(1)])
    show "\<exists>y s2. eval_once ev ?ap x env s n = (Inr y, s2) \<and> later s s2 \<and> outcome A r c v y s2"
      by (rule bounce_run [OF ev ev' sus]) (use Suc.prems(3,4) in simp_all)
  qed
  have "\<exists>z st'. bind (navi_is_bounce y) (\<lambda>b. if b then eval_rounds ev ?ap j' y env else ret y) st1 n = (Inr z, st') \<and>
    roomy r st' \<and> later st1 st' \<and> rep (hide A st') z v"
  proof (rule rounds_run [OF 1(3)])
    assume "suspended A r c v y st1"
    then show "\<exists>z st'. eval_rounds ev ?ap j' y env st1 n = (Inr z, st') \<and> roomy r st' \<and> later st1 st' \<and> rep (hide A st') z v"
      by (rule Suc.IH) (use later_env [OF 1(2) Suc.prems(2)] Suc.prems(3-5) j in auto)
  qed
  then show ?case unfolding j eval_rounds_Suc using 1(1,2) later_trans by (auto simp: bind_Inr)
qed

section \<open>Evaluation\<close>

lemma eval_body_run:
  assumes ev: "evals (Suc m) ev" and ev': "evals m ev'"
  shows "evals (Suc (Suc m)) (navi_eval_body ev (navi_apply_body ev' (call_builtin ev' ap')))"
  unfolding evals_def
proof (intro allI impI)
  fix A r c v x e env \<rho> st n
  assume big: "big \<rho> e v c" and c: "c < Suc (Suc m)" "c < n" and room: "roomy (r + 6 * c + 2) st" and ready: "ready A st x e env \<rho>"
  let ?ap = "navi_apply_body ev' (call_builtin ev' ap')"
  obtain j where n: "n = Suc j" using c(2) by (cases n) auto
  have rounds: "\<exists>y st'. eval_rounds ev ?ap n x env st1 n = (Inr y, st') \<and> roomy r st' \<and> later st1 st' \<and> rep (hide A st') y v"
    if room1: "roomy (r + 6 * c) st1" and l: "later st st1" and env1: "env_ok st1 env" for st1
  proof -
    have ready1: "ready A st1 x e env \<rho>" by (rule ready_later [OF ready room later_kept [OF l]])
    obtain y st2 where 2: "bind (navi_gc_guard x env) (\<lambda>g. bind (eval_once ev ?ap x env) (\<lambda>r. bind (navi_gc_unguard g) (\<lambda>_. ret r)))
        st1 n = (Inr y, st2)" "later st1 st2" "outcome A r c v y st2"
    proof (atomize_elim, rule guarded_run [OF env1])
      fix s
      assume s: "quiet_step st1 s"
      have le: "c \<le> Suc m" using c(1) by simp
      from step_run [OF ev ev' big le c(2) quiet_stepD(2) [OF s room1] ready_later [OF ready1 room1 quiet_stepD(1) [OF s]]]
      show "\<exists>y s2. eval_once ev ?ap x env s n = (Inr y, s2) \<and> later s s2 \<and> outcome A r c v y s2"
        unfolding eval_once_def n by blast
    qed
    have "\<exists>z st'. bind (navi_is_bounce y) (\<lambda>b. if b then eval_rounds ev ?ap j y env else ret y) st2 n = (Inr z, st') \<and>
      roomy r st' \<and> later st2 st' \<and> rep (hide A st') z v"
    proof (rule rounds_run [OF 2(3)])
      assume "suspended A r c v y st2"
      then show "\<exists>z st'. eval_rounds ev ?ap j y env st2 n = (Inr z, st') \<and> roomy r st' \<and> later st2 st' \<and> rep (hide A st') z v"
        by (rule bounces_run [OF ev ev']) (use later_env [OF 2(2) env1] c n in auto)
    qed
    moreover have "eval_rounds ev ?ap n x env st1 n =
        bind (navi_is_bounce y) (\<lambda>b. if b then eval_rounds ev ?ap j y env else ret y) st2 n"
      unfolding n eval_rounds_Suc using 2(1) [unfolded n] by (rule bind_Inr)
    ultimately show ?thesis using later_trans [OF 2(2)] by auto
  qed
  have "\<exists>y st3. bind (navi_env_ref env) (\<lambda>_. bind (\<lambda>st n. eval_rounds ev ?ap n x env st n) (\<lambda>y. bind (navi_env_unref env) (\<lambda>_. ret y)))
      st n = (Inr y, st3) \<and> roomy r st3 \<and> later st st3 \<and> rep (hide A st3) y v"
  proof (rule env_frame_run [OF room readyD(1) [OF ready]])
    show "rep (hide A s3) y v" if "rep (hide A s2) y v" "roomy r s2" "quiet_step s2 s3" for y s2 s3
      by (rule extends_rep [OF _ kept_extends_same [OF roomyD(1) [OF that(2)] quiet_stepD(1) [OF that(3)]] that(1)])
        (use roomyD(2) [OF that(2)] in simp)
  qed (rule rounds)
  then show "\<exists>y st'. navi_eval_body ev ?ap x env st n = (Inr y, st') \<and> roomy r st' \<and> later st st' \<and> rep (hide A st') y v"
    by (simp add: navi_eval_body_def)
qed

lemma interp_evals: "evals k (fst (interp k))"
proof (induction k rule: induct_nat_012)
  case 0
  show ?case by (simp add: evals_def)
next
  case 1
  have "\<not> big \<rho> e v 0" for \<rho> e v using big_pos by blast
  then show ?case by (simp add: evals_def)
next
  case (ge2 m)
  show ?case using eval_body_run [OF ge2(2,1), of "snd (interp m)"] by (simp add: case_prod_unfold Let_def)
qed

text \<open>
  C1: The evaluator computes the values of the semantics.  When the big-step semantics gives an
  expression a value in \<open>c\<close> steps, \<open>navi_eval\<close> on an object that holds the expression, in an
  environment that holds the bindings, with a budget of more than \<open>c\<close> and room for the
  references, returns, and with an object that holds the value; the objects and the bindings
  that were there are kept, and no reference is lost.
\<close>

theorem eval_correct:
  assumes "big \<rho> e v c" and "c < n" and "roomy (r + 6 * c + 2) st" and "code st x e"
    and "env_ok st env" and "env_rep st (lexical env) \<rho>"
  shows "\<exists>y st'. navi_eval x env st n = (Inr y, st') \<and> rep st' y v \<and> later st st' \<and> roomy r st'"
proof -
  have "ready {} st x e env \<rho>" using assms(4-6) by (simp add: ready_def)
  from evalsD [OF interp_evals assms(1,2,2,3) this] show ?thesis by (auto simp: navi_eval_def)
qed



text \<open>
  A concrete run: \<open>((lambda (x) (+ x 1)) 41)\<close>, with \<open>lambda\<close> and \<open>+\<close> bound in the only scope.
\<close>

abbreviation sym_ob :: "string \<Rightarrow> navi_object" where
  "sym_ob s \<equiv> \<lparr>obj_type = NAVI_SYMBOL, obj_data = PSymbol s True\<rparr>"

definition program_state :: state where
  "program_state = (heap_of
     [sym_ob ''lambda'', sym_ob ''+'', sym_ob ''x'',
      \<lparr>obj_type = NAVI_SPECIAL, obj_data = PProc (builtin_of (special_spec B_lambda) (Ref 0))\<rparr>,
      \<lparr>obj_type = NAVI_PROCEDURE, obj_data = PProc (builtin_of (arith_spec B_add) (Ref 1))\<rparr>,
      pair_ob (Ref 7) (Ref 6), pair_ob (Fixnum 41) NilO,
      pair_ob (Ref 0) (Ref 8), pair_ob (Ref 10) (Ref 9), pair_ob (Ref 11) NilO, pair_ob (Ref 2) NilO,
      pair_ob (Ref 1) (Ref 12), pair_ob (Ref 2) (Ref 13), pair_ob (Fixnum 1) NilO])
     \<lparr>scopes := [0 \<mapsto> (empty_scope None 1)\<lparr>bindings := scope_table.set_all [(Ref 0, Ref 3), (Ref 1, Ref 4)] (bindings (empty_scope None 1))\<rparr>],
      sc_next := 1\<rparr>"

definition program_env :: venv where
  "program_env = [Ref 0 \<mapsto> Special B_lambda, Ref 1 \<mapsto> Prim B_add]"

definition program_exp :: exp where
  "program_exp = Form (Form (Sym (Ref 0)) [Form (Sym (Ref 2)) [], Form (Sym (Ref 1)) [Sym (Ref 2), Lit (Fixnum 1)]])
     [Lit (Fixnum 41)]"

lemma program_value: "big program_env program_exp (Num 42) 28"
proof -
  let ?body = "Form (Sym (Ref 1)) [Sym (Ref 2), Lit (Fixnum 1)]"
  let ?rho = "program_env ++ map_of (rev (zip [Ref 2] [Num 41]))"
  have imm: "immediate (Fixnum 1)" "immediate (Fixnum 41)" by (simp_all add: immediate_def)
  have lam: "big program_env (Form (Sym (Ref 0)) [Form (Sym (Ref 2)) [], ?body]) (Clo [Ref 2] [?body] program_env) 9"
    using big_lambda [OF big_var [of program_env "Ref 0" "Special B_lambda"], of "Form (Sym (Ref 2)) []" "[Ref 2]" "[?body]"]
    by (simp add: program_env_def)
  have arg: "bigs program_env [Lit (Fixnum 41)] [Num 41] 2"
    using bigs_cons [OF big_lit [OF imm(2)] bigs_nil] by (simp add: eval_nat_numeral)
  have args: "bigs ?rho [Sym (Ref 2), Lit (Fixnum 1)] [Num 41, Num 1] 4"
    using bigs_cons [OF big_var [of ?rho "Ref 2" "Num 41"] bigs_cons [OF big_lit [OF imm(1)] bigs_nil]] by (simp add: eval_nat_numeral)
  have "big ?rho ?body (Num 42) 10"
    using big_prim [OF big_var [of ?rho "Ref 1" "Prim B_add"] args, of "[41, 1]" "Num 42"]
    by (simp add: program_env_def prim_val_def)
  then have "seqs ?rho [?body] (Num 42) 11" using seqs_last by fastforce
  from big_call [OF lam arg _ this] show ?thesis by (simp add: program_exp_def)
qed

lemma program_heap:
  "heap program_state 0 = Some (sym_ob ''lambda'')" "heap program_state (Suc 0) = Some (sym_ob ''+'')"
  "heap program_state 2 = Some (sym_ob ''x'')"
  "proc_at program_state 3 NAVI_SPECIAL (builtin_of (special_spec B_lambda) (Ref 0))"
  "proc_at program_state 4 NAVI_PROCEDURE (builtin_of (arith_spec B_add) (Ref 1))"
  "list_at program_state (Ref 5) [Ref 7, Fixnum 41] NilO"
  "list_at program_state (Ref 7) [Ref 0, Ref 10, Ref 11] NilO"
  "list_at program_state (Ref 10) [Ref 2] NilO"
  "list_at program_state (Ref 11) [Ref 1, Ref 2, Fixnum 1] NilO"
  by (simp_all add: program_state_def)

lemma program_visible: "visible program_state 0 = [Ref 0 \<mapsto> Ref 3, Ref 1 \<mapsto> Ref 4]"
  by (simp add: program_state_def visible_last scope_table.lookup_set_all fun_eq_iff map_add_def)

lemma program_roomy: "roomy r program_state" if "r < 1000"
proof -
  have "wf_heap (heap_of
     [sym_ob ''lambda'', sym_ob ''+'', sym_ob ''x'',
      \<lparr>obj_type = NAVI_SPECIAL, obj_data = PProc (builtin_of (special_spec B_lambda) (Ref 0))\<rparr>,
      \<lparr>obj_type = NAVI_PROCEDURE, obj_data = PProc (builtin_of (arith_spec B_add) (Ref 1))\<rparr>,
      pair_ob (Ref 7) (Ref 6), pair_ob (Fixnum 41) NilO,
      pair_ob (Ref 0) (Ref 8), pair_ob (Ref 10) (Ref 9), pair_ob (Ref 11) NilO, pair_ob (Ref 2) NilO,
      pair_ob (Ref 1) (Ref 12), pair_ob (Ref 2) (Ref 13), pair_ob (Fixnum 1) NilO])"
    by (rule wf_heap_of) (simp add: builtin_of_def)
  then have "wf_heap program_state" by (simp add: program_state_def wf_heap_def valid_obj_def)
  moreover have "scopes_ok program_state" "\<forall>s sc. scopes program_state s = Some sc \<longrightarrow> 0 < refs sc \<and> refs sc + r < 2 ^ 32"
    using that by (auto simp: program_state_def scopes_ok_def scope_table.ok_set_all)
  ultimately show ?thesis unfolding roomy_def by blast
qed

lemma program_code: "code program_state (Ref 5) program_exp"
proof -
  have sym: "code program_state (Ref 0) (Sym (Ref 0))" "code program_state (Ref 1) (Sym (Ref 1))"
    "code program_state (Ref 2) (Sym (Ref 2))"
    using code_sym [OF program_heap(1)] code_sym [OF program_heap(2)] code_sym [OF program_heap(3)] by simp_all
  have lit: "code program_state (Fixnum w) (Lit (Fixnum w))" for w by (rule code_lit) (simp add: immediate_def)
  have "code program_state (Ref 10) (Form (Sym (Ref 2)) [])"
    by (rule code_form [OF program_heap(8)]) (simp add: sym)
  moreover have "code program_state (Ref 11) (Form (Sym (Ref 1)) [Sym (Ref 2), Lit (Fixnum 1)])"
    by (rule code_form [OF program_heap(9)]) (simp add: sym lit del: One_nat_def)
  ultimately have "code program_state (Ref 7) (Form (Sym (Ref 0)) [Form (Sym (Ref 2)) [], Form (Sym (Ref 1)) [Sym (Ref 2), Lit (Fixnum 1)]])"
    by (intro code_form [OF program_heap(7)]) (simp add: sym)
  then show ?thesis
    unfolding program_exp_def by (intro code_form [OF program_heap(6)]) (simp add: lit)
qed

lemma program_env_rep: "env_rep program_state 0 program_env"
proof -
  have "rep program_state (Ref 3) (Special B_lambda)" "rep program_state (Ref 4) (Prim B_add)"
    using program_heap(4,5) builtin_proc_of by (auto intro!: rep_special rep_prim simp: builtin_of_def program_state_def)
  then show ?thesis by (auto simp: env_rep_def program_env_def program_visible split: if_splits)
qed

theorem eval_correct_witness:
  "\<exists>st'. navi_eval (Ref 5) \<lparr>lexical = 0, dynamic = 0\<rparr> program_state 30 = (Inr (Fixnum 42), st')"
proof -
  let ?env = "\<lparr>lexical = 0, dynamic = 0\<rparr>"
  have env: "env_ok program_state ?env" "env_rep program_state (lexical ?env) program_env"
    using program_env_rep by (simp_all add: program_state_def)
  obtain y st' where y: "navi_eval (Ref 5) \<lparr>lexical = 0, dynamic = 0\<rparr> program_state 30 = (Inr y, st')"
    "rep st' y (Num 42)"
    using eval_correct [OF program_value _ program_roomy program_code env, of 30 0] by auto
  moreover have "y = Fixnum 42" by (rule rep_number [OF y(2)]) simp
  ultimately show ?thesis by blast
qed

end
