(* ===== verification/Spec2Isabelle.thy ===== *)
theory Spec2Isabelle
  imports Spec_Gc Spec_Exchange Spec_Pool Spec_Eval
begin

text \<open>
  \<^bold>\<open>A model of the Navi Scheme interpreter and what it promises\<close>

  Navi is an interpreter for a Scheme dialect written in C.  A value (\<open>navi_obj\<close>, \<open>navi.h\<close>) is a
  machine word that holds a small integer, a boolean, a character or another immediate with tag
  bits, or points to a heap object with a type tag (\<open>struct navi_object\<close>, \<open>internal.h\<close>).  The
  evaluator (\<open>eval.c\<close>) dispatches on the type of an expression, looks identifiers up in a chain of
  hash tables (\<open>environment.c\<close>), and applies procedures, which are closures or C functions declared
  with \<open>DEFUN\<close> and \<open>DEFSPECIAL\<close> (\<open>macros.h\<close>).  Every C procedure gets the number and the list of
  its arguments and the environment of the call.

  \<^bold>\<open>The theories\<close>, in the order they build on each other:

  \<^item> \<open>Navi_Prelude\<close>: computations.  A C function that reads or changes the interpreter's state is a
    function from the state and a loop budget to an outcome and a state; the outcome is a value or
    the way the function failed to return (an error, a \<open>longjmp\<close>, the end of the process, a step C
    gives no meaning to, or the budget running out).
  \<^item> \<open>Navi_Object\<close>: values, heap objects, scopes, the state, the type dispatch and the accessors
    (\<open>navi.h\<close>, \<open>internal.h\<close>); \<open>Navi_Memory\<close>: allocation (\<open>heap.c\<close>) and well-formed heaps;
    \<open>Navi_Check\<close>: the type predicates and checks (\<open>internal.h\<close>, \<open>error.h\<close>); \<open>Navi_Word\<close>: the bit
    patterns of values and the arithmetic on tagged words (\<open>navi.h\<close>, \<open>macros.h\<close>).
  \<^item> \<open>Navi_Loop\<close>: the list loops of \<open>navi.h\<close> and their rules; \<open>Navi_Equal\<close>: \<open>eqv?\<close> and \<open>equal?\<close>
    (\<open>heap.c\<close>); \<open>Navi_List\<close> (\<open>list.c\<close>); \<open>Navi_Array\<close>: access to arrays and C strings;
    \<open>Navi_Symbol\<close>: the symbol table and the names it starts with (\<open>heap.c\<close>); \<open>Navi_Builder\<close>: lists built front to back;
    \<open>Navi_Vector\<close> (\<open>vector.c\<close>), \<open>Navi_Bytevec\<close> (\<open>bytevector.c\<close>), \<open>Navi_Char\<close> (\<open>char.c\<close>),
    \<open>Navi_String\<close> (\<open>string.c\<close>, \<open>unicode.h\<close>), \<open>Navi_Arithmetic\<close> (\<open>arithmetic.c\<close>).
  \<^item> \<open>Navi_Scope\<close>: scopes, environments and collector guards (\<open>environment.c\<close>, \<open>heap.c\<close>);
    \<open>Navi_Procedure\<close>: procedure objects and the check of a call (\<open>heap.c\<close>, \<open>eval.c\<close>);
    \<open>Navi_Eval\<close>: special forms, application and evaluation (\<open>eval.c\<close>); \<open>Navi_Binding\<close>: definitions,
    \<open>let\<close> forms, assignment and parameters (\<open>environment.c\<close>); \<open>Navi_Control\<close>: exceptions, escapes,
    values and promises (\<open>control_features.c\<close>).
  \<^item> \<open>Navi_Gc\<close>: the collector of \<open>heap.c\<close> over a state with the list of all objects, flags and the
    active environments, and the start of the symbol table (\<open>symbol_table_init\<close>), whose symbols are
    protected from it; \<open>Navi_Port\<close>, \<open>Navi_Io\<close>: ports over strings and C streams and their
    procedures (\<open>port.c\<close>); \<open>Navi_Display\<close> (\<open>display.c\<close>), \<open>Navi_Read\<close> (\<open>read.c\<close>); \<open>Navi_File\<close>: files,
    \<open>load\<close> and \<open>include\<close> (\<open>port.c\<close>, \<open>eval.c\<close>); \<open>Navi_System\<close> (\<open>system.c\<close>) over a host with an
    environment, a clock and files; \<open>Navi_Library\<close>: libraries and import sets (\<open>environment.c\<close>).
  \<^item> \<open>Navi_Interp\<close>: the table of built-in procedures (\<open>default_bindings.c\<close> and the \<open>DEFUN\<close> headers of
    each file), the knot between \<open>navi_eval\<close>, \<open>_navi_apply\<close> and the procedures that call them, and
    the program and the interactive loop of \<open>navii.c\<close>.
  \<^item> \<open>Navi_Rbtree\<close>: the pointer trees of \<open>rbtree.c\<close>; \<open>Navi_Slab\<close>: the allocator of \<open>slab.c\<close> on top of
    them.  These two have a memory of their own, of tree nodes and slabs.

  The specification theories state what these promise, over the same definitions:

  \<^item> \<open>Spec_Base\<close> has concrete states for the witnesses and facts about argument lists.  \<open>Spec_List\<close>:
    the list procedures on proper, dotted and endless chains of pairs.  \<open>Spec_Value\<close>: words determine
    values, and the fixnum macros on words are arithmetic modulo \<open>2 ^ 63\<close>.  \<open>Spec_Arith\<close>: the locale
    \<open>fixnum_operator\<close> and the arithmetic procedures; numbers as text.
  \<^item> \<open>Spec_Scope\<close>: a scope's hash table refines a finite map (the locale \<open>removable_table\<close> of
    \<open>Navi_Scope\<close>), lookup along the chain of scopes, assignment, extension, reference counts.
    (\<open>env_set\<close> has no caller: the special form \<open>set!\<close> goes another way.)  \<open>Spec_Data\<close>: interning and
    the interpreter's own symbols, equality of data, vectors; a copy within one vector that moves up
    onto itself repeats elements.  \<open>Spec_Gc\<close>: marking reaches exactly the needed objects and the sweep
    takes exactly the others, in a heap whose objects have the structure of their types.  Marking ends
    exactly when no cycle, no bounce and no field that was never written is reachable from a binding
    or a guard: \<open>gc_mark_obj\<close> does not test the mark, and takes a bounce for a pair.  The code does not
    exclude these (\<open>do_apply\<close> collects with the result of a call guarded, which may be a bounce), so
    the theorems say what happens in either case; garbage may have any form.
  \<^item> \<open>Spec_Port\<close> and \<open>Spec_Input\<close>: the contracts of an output and of an input port (the locales
    \<open>text_sink\<close>, \<open>text_source\<close>, \<open>char_device\<close>), met by string and file ports.  \<open>Spec_Text\<close>: data as
    text and the printer; \<open>Spec_Lexer\<close>, \<open>Spec_Token\<close>, \<open>Spec_Reader\<close>: the reader on characters, tokens
    and data; \<open>Spec_Exchange\<close>: what \<open>write\<close> wrote is what \<open>read\<close> reads, for the data that \<open>write\<close>
    prints in a form \<open>read\<close> takes (\<open>readable\<close> in \<open>Spec_Reader\<close>).
  \<^item> \<open>Spec_Rbtree\<close> and \<open>Spec_Rbremove\<close>: the store of nodes represents a tree with a position in it
    (a zipper), and each step of insertion and removal is a function on trees; insertion keeps the
    red-black rules, removal keeps all of them exactly when it is not one that \<open>unbalances\<close>.
    \<open>Spec_Slab\<close>: slabs, their free objects and the three trees of a cache.  \<open>Spec_Pool\<close>: the
    properties of both.  Allocation and freeing keep the rule of the colours in all trees
    (\<open>coloured\<close>), and the number of black nodes on the paths of every tree except the one the slab
    leaves when that removal unbalances (\<open>rebalanced\<close>); they need this number to be the same on all
    paths only in the tree they take a slab from.  A removal from a tree without it can break the rule
    of the colours, and the next one then follow a null pointer.

  \<^item> \<open>Spec_Check\<close>: the check of a call against the types a C procedure declares.  \<open>Spec_Frames\<close>:
    guards, references and bounces around a step of the evaluator.  \<open>Spec_Core\<close>: a big-step semantics
    of the functional core of the language (constants, variables, \<open>quote\<close>, \<open>if\<close>, \<open>and\<close>, \<open>or\<close>,
    \<open>begin\<close>, \<open>lambda\<close>, arithmetic, calls of closures; \<open>or\<close> as the code has it), and what it means that an object holds an expression or a value.
    \<open>Spec_Forms\<close>, \<open>Spec_Call\<close>, \<open>Spec_Eval\<close>: \<open>navi_eval\<close> computes the values of that semantics, with
    the bounces of tail calls, the list of arguments under construction and the reference counts as
    the code has them.  Assignment and definitions are not in that semantics; \<open>Spec_Scope\<close> has them.

  \<^bold>\<open>Names.\<close>  A definition has the name of the C function or macro it models; \<open>scm_f\<close> is the function
  \<open>DEFUN(f, ...)\<close> declares.  Where several files have a static function of one name, or a name starts
  with an underscore, the model's name says which: \<open>vector_copy_to\<close>, \<open>string_copy_to\<close>,
  \<open>bytevec_copy_to\<close>, \<open>vector_arg_list\<close>, \<open>do_apply_forced\<close> (\<open>do_apply\<close> of \<open>list.c\<close>),
  \<open>navi_apply_body\<close> (\<open>_navi_apply\<close>), \<open>eval_depth\<close> and \<open>eval_once\<close> (\<open>_eval\<close>),
  \<open>navi_make_scope_raw\<close>, \<open>navi_empty_environment_raw\<close>, \<open>make_parameter_obj\<close>.

  \<^bold>\<open>Budgets.\<close>  Every C loop over a list may go round for ever, as lists can be circular; the budget
  bounds the rounds of each loop and the depth of each recursion.  The theorems say which budget is
  enough: one more than the number of elements for the list procedures, the length of the text for
  the reader, the depth of the structure for marking, the number of nodes and two more for insertion
  into a tree and one more for removal, and for the evaluator one more than the steps of the
  semantics, which count the nested calls, the elements of argument lists and the bounces.  On an endless chain, a cycle of objects and a library that
  imports itself no budget is enough.

  \<^bold>\<open>What the model leaves out.\<close>  The interpreter's own allocations go to a heap that only grows: the
  collector (\<open>Navi_Gc\<close>) and the slab caches (\<open>Navi_Slab\<close>) are modelled beside it and not under it,
  and \<open>gc-collect\<close> is not called by programs of the model; so \<open>do_apply\<close> is without its
  \<open>navi_gc_check\<close>, and the interpreter's own symbols are the first thirty objects, where
  \<open>symbol_table_init\<close> puts them.  What \<open>navi_read\<close> prints on \<open>stderr\<close> for an unexpected parenthesis is
  left out.  \<open>gc-count\<close>, \<open>gc-stats\<close>, \<open>env-list\<close>,
  \<open>env-count\<close> and \<open>env-show\<close> only print statistics.  The command line options and \<open>main\<close> of
  \<open>navii.c\<close> are calls of \<open>getopt\<close>; \<open>extern.c\<close> wraps the inline functions of \<open>internal.h\<close>; \<open>queue.h\<close>
  is vendored, and lists stand for its lists but in \<open>Navi_Slab\<close>.  What is written to a file does not
  reach the files that are opened later.  The build is the one without ICU, with
  assertions enabled, on a machine with 64-bit \<open>long\<close>s, where signed overflow wraps around.  A request
  to \<open>malloc\<close> fails when it asks for \<open>2 ^ 63\<close> bytes or more.  Counters of type \<open>int\<close> that count
  elements of lists in memory do not overflow.  \<open>setjmp\<close> and \<open>longjmp\<close> are an outcome that the frame
  of the escape takes; an error is turned into a run of the exception handler at the frames that can
  be jumped to and at the top level (\<open>Navi_Control\<close> says why this is the same).
\<close>

end
